(* ===== verification/Prelude.thy ===== *)
theory Prelude
  imports Complex_Main "HOL-Library.AList" "HOL-Library.Char_ord"
begin

text \<open>
  Shared ground of the development: what the Python sources use of their language and
  standard library, and the generic lemmas every component relies on.

  \<^item> \<open>('k, 'v) dict\<close> is a Python \<^verbatim>\<open>dict\<close>: an association list in insertion order, where
    assigning to a present key keeps its position and assigning to a new key appends.
  \<^item> \<open>exn\<close> is a raised exception: \<^verbatim>\<open>CircuitBreakerOpenError\<close> (which several call sites
    single out), any other \<^verbatim>\<open>Exception\<close> (class name and message), or a
    \<^verbatim>\<open>BaseException\<close> that \<^verbatim>\<open>except Exception\<close> does not catch (cancellation, interrupt).
  \<^item> Python \<^verbatim>\<open>float\<close> values (clock readings, scores, ratios) are \<open>real\<close>: rounding is not
    modelled. Python \<^verbatim>\<open>int\<close> is \<open>int\<close>, or \<open>nat\<close> where it is a length or a counter.
  \<^item> The locale \<open>invariant_system\<close> carries an invariant from one step to every run; each
    stateful component interprets it on its own step function.
\<close>

named_theorems dict_simps \<open>equations of the Python dictionary operations\<close>

subsection \<open>Exceptions and results\<close>

datatype exn =
    CircuitBreakerOpenError string
  | PyException string string
  | PyBaseException string

abbreviation ValueError :: "string \<Rightarrow> exn" where
  "ValueError \<equiv> PyException ''ValueError''"

abbreviation KeyError :: "string \<Rightarrow> exn" where
  "KeyError \<equiv> PyException ''KeyError''"

abbreviation ZeroDivisionError :: exn where
  "ZeroDivisionError \<equiv> PyException ''ZeroDivisionError'' ''float division by zero''"

subsection \<open>Dictionaries\<close>

type_synonym ('k, 'v) dict = "('k \<times> 'v) list"

abbreviation dict_get :: "('k, 'v) dict \<Rightarrow> 'k \<Rightarrow> 'v option" where
  "dict_get \<equiv> map_of"

abbreviation dict_has :: "('k, 'v) dict \<Rightarrow> 'k \<Rightarrow> bool" where
  "dict_has d k \<equiv> map_of d k \<noteq> None"

definition dict_keys :: "('k, 'v) dict \<Rightarrow> 'k list" where
  "dict_keys d = map fst d"

definition dict_values :: "('k, 'v) dict \<Rightarrow> 'v list" where
  "dict_values d = map snd d"

definition dict_set :: "'k \<Rightarrow> 'v \<Rightarrow> ('k, 'v) dict \<Rightarrow> ('k, 'v) dict" where
  "dict_set k v d = AList.update k v d"

definition dict_del :: "'k \<Rightarrow> ('k, 'v) dict \<Rightarrow> ('k, 'v) dict" where
  "dict_del k d = AList.delete k d"

definition dict_getd :: "('k, 'v) dict \<Rightarrow> 'k \<Rightarrow> 'v \<Rightarrow> 'v" where
  "dict_getd d k v = (case map_of d k of None \<Rightarrow> v | Some w \<Rightarrow> w)"

definition dict_update :: "('k, 'v) dict \<Rightarrow> ('k, 'v) dict \<Rightarrow> ('k, 'v) dict" where
  "dict_update d d' = foldl (\<lambda>a (k, v). dict_set k v a) d d'"

definition dict_ok :: "('k, 'v) dict \<Rightarrow> bool" where
  "dict_ok d \<longleftrightarrow> distinct (map fst d)"

lemma dict_get_set [dict_simps, simp]:
  "map_of (dict_set k v d) k' = (if k' = k then Some v else map_of d k')"
  by (simp add: dict_set_def update_conv')

lemma dict_get_del [dict_simps, simp]:
  "map_of (dict_del k d) k' = (if k' = k then None else map_of d k')"
  by (simp add: dict_del_def delete_conv')

lemma dict_ok_Nil [dict_simps, simp]: "dict_ok []"
  by (simp add: dict_ok_def)

lemma dict_ok_set [dict_simps, simp, intro]: "dict_ok d \<Longrightarrow> dict_ok (dict_set k v d)"
  by (simp add: dict_ok_def dict_set_def distinct_update)

lemma dict_ok_del [dict_simps, simp, intro]: "dict_ok d \<Longrightarrow> dict_ok (dict_del k d)"
  by (simp add: dict_ok_def dict_del_def distinct_delete)

lemma dict_ok_filter [simp, intro]: "dict_ok d \<Longrightarrow> dict_ok (filter P d)"
  unfolding dict_ok_def by (induction d) auto

lemma set_dict_keys [simp]: "set (dict_keys d) = dom (map_of d)"
  by (simp add: dict_keys_def dom_map_of_conv_image_fst)

lemma dict_ok_get_iff: "dict_ok d \<Longrightarrow> map_of d k = Some v \<longleftrightarrow> (k, v) \<in> set d"
  unfolding dict_ok_def by (rule map_of_eq_Some_iff)

lemma dict_getd_set [dict_simps, simp]:
  "dict_getd (dict_set k v d) k' w = (if k' = k then v else dict_getd d k' w)"
  by (simp add: dict_getd_def)

lemma dict_update_Nil [simp]: "dict_update d [] = d"
  by (simp add: dict_update_def)

lemma dict_update_Cons [simp]:
  "dict_update d ((k, v) # e) = dict_update (dict_set k v d) e"
  by (simp add: dict_update_def)

lemma dict_get_update:
  "dict_ok e \<Longrightarrow> map_of (dict_update d e) k =
     (case map_of e k of None \<Rightarrow> map_of d k | Some v \<Rightarrow> Some v)"
proof (induction e arbitrary: d)
  case Nil
  then show ?case by simp
next
  case (Cons p e)
  obtain k1 v1 where p: "p = (k1, v1)" by (cases p)
  have ok: "dict_ok e" and notin: "map_of e k1 = None"
    using Cons.prems p by (auto simp: dict_ok_def map_of_eq_None_iff)
  show ?case using Cons.IH [OF ok] notin p by (auto split: option.splits)
qed

lemma map_of_map_values: "map_of (map (\<lambda>(k, v). (k, f k v)) d) k = map_option (f k) (map_of d k)"
  by (induction d) auto

lemma dict_ok_map_values [simp]: "dict_ok (map (\<lambda>(k, v). (k, f k v)) d) = dict_ok d"
  by (simp add: dict_ok_def comp_def case_prod_beta)

subsection \<open>JSON values\<close>

text \<open>
  The values that \<^verbatim>\<open>json\<close> reads and writes. A text that holds JSON (a column of a database, a file,
  a Redis value) is represented by the value it encodes, or by \<open>None\<close> when it is not JSON.
\<close>

datatype json =
    JNull
  | JBool bool
  | JInt int
  | JFloat real
  | JStr string
  | JList "json list"
  | JObj "(string \<times> json) list"

type_synonym json_obj = "(string, json) dict"

fun is_obj :: "json \<Rightarrow> bool" where
  "is_obj (JObj _) = True"
| "is_obj _ = False"

fun truthy :: "json \<Rightarrow> bool" where
  "truthy JNull = False"
| "truthy (JBool b) = b"
| "truthy (JInt i) = (i \<noteq> 0)"
| "truthy (JFloat x) = (x \<noteq> 0)"
| "truthy (JStr s) = (s \<noteq> [])"
| "truthy (JList xs) = (xs \<noteq> [])"
| "truthy (JObj d) = (d \<noteq> [])"

definition json_get :: "json \<Rightarrow> string \<Rightarrow> json \<Rightarrow> exn + json" where
  \<comment> \<open>\<^verbatim>\<open>v.get(k, d)\<close>: only a \<^verbatim>\<open>dict\<close> has that method\<close>
  "json_get v k d =
     (case v of JObj o' \<Rightarrow> Inr (dict_getd o' k d) | _ \<Rightarrow> Inl (PyException ''AttributeError'' ''get''))"

definition str_with :: "(json \<Rightarrow> string) \<Rightarrow> json \<Rightarrow> string" where
  \<comment> \<open>\<^verbatim>\<open>str(v)\<close>, with the rendering of anything but a string as a parameter\<close>
  "str_with render v = (case v of JStr s \<Rightarrow> s | _ \<Rightarrow> render v)"

subsection \<open>Slices and truth values\<close>

definition slice_to :: "int \<Rightarrow> 'a list \<Rightarrow> 'a list" where
  \<comment> \<open>\<^verbatim>\<open>xs[:i]\<close>: a negative index counts from the end\<close>
  "slice_to i xs = take (nat (if i < 0 then int (length xs) + i else i)) xs"

definition slice_from :: "int \<Rightarrow> 'a list \<Rightarrow> 'a list" where
  \<comment> \<open>\<^verbatim>\<open>xs[i:]\<close>: a negative index counts from the end\<close>
  "slice_from i xs = drop (nat (if i < 0 then int (length xs) + i else i)) xs"

definition py_trunc :: "real \<Rightarrow> int" where
  \<comment> \<open>\<^verbatim>\<open>int(x)\<close> of a float\<close>
  "py_trunc x = (if x < 0 then \<lceil>x\<rceil> else \<lfloor>x\<rfloor>)"

definition py_round :: "real \<Rightarrow> int" where
  \<comment> \<open>\<^verbatim>\<open>round(x)\<close>: halves go to the even neighbour\<close>
  "py_round x =
     (let n = \<lfloor>x\<rfloor>; d = x - real_of_int n
      in if d < 1/2 then n else if d > 1/2 then n + 1 else if even n then n else n + 1)"

definition round_to :: "nat \<Rightarrow> real \<Rightarrow> real" where
  \<comment> \<open>\<^verbatim>\<open>round(x, d)\<close>\<close>
  "round_to d x = real_of_int (py_round (x * 10 ^ d)) / 10 ^ d"

definition truthy_str :: "string option \<Rightarrow> bool" where
  "truthy_str s \<longleftrightarrow> s \<noteq> None \<and> s \<noteq> Some []"

lemma length_slice_to: "0 \<le> i \<Longrightarrow> length (slice_to i xs) = min (length xs) (nat i)"
  by (simp add: slice_to_def)

lemma set_slice_to: "set (slice_to i xs) \<subseteq> set xs"
  by (simp add: slice_to_def set_take_subset)

lemma set_slice_from: "set (slice_from i xs) \<subseteq> set xs"
  by (simp add: slice_from_def set_drop_subset)

lemma nth_append_from_end:
  assumes "n \<le> int (length ys)"
  shows "(xs @ ys) ! nat (int (length (xs @ ys)) - n) = ys ! nat (int (length ys) - n)"
proof -
  have "nat (int (length (xs @ ys)) - n) = length xs + nat (int (length ys) - n)"
    using assms by simp
  then show ?thesis by (simp only: nth_append_length_plus)
qed

fun exn_str :: "exn \<Rightarrow> string" where
  \<comment> \<open>\<^verbatim>\<open>str(e)\<close>\<close>
  "exn_str (CircuitBreakerOpenError m) = m"
| "exn_str (PyException _ m) = m"
| "exn_str (PyBaseException m) = m"

fun is_exception :: "exn \<Rightarrow> bool" where
  \<comment> \<open>caught by \<^verbatim>\<open>except Exception\<close>\<close>
  "is_exception (PyBaseException _) = False"
| "is_exception _ = True"

lemma filter_map_key_unchanged:
  assumes "\<And>x. x \<in> set xs \<Longrightarrow> P x \<Longrightarrow> f x = x" and "\<And>x. x \<in> set xs \<Longrightarrow> P (f x) = P x"
  shows "filter P (map f xs) = filter P xs"
  using assms by (induction xs) auto

lemma find_SomeD: "find P xs = Some x \<Longrightarrow> x \<in> set xs \<and> P x"
  by (induction xs) (auto split: if_splits)

lemma sorted_prefix_dominates:
  assumes "sorted_wrt P xs" and "a \<in> set (take k xs)" and "b \<in> set xs" and "b \<notin> set (take k xs)"
  shows "P a b"
proof -
  have "sorted_wrt P (take k xs @ drop k xs)" using assms(1) by simp
  moreover have "b \<in> set (drop k xs)" using assms(3,4) by (metis Un_iff append_take_drop_id set_append)
  ultimately show ?thesis using assms(2) by (simp only: sorted_wrt_append)
qed

lemma find_unique:
  "x \<in> set xs \<Longrightarrow> P x \<Longrightarrow> (\<And>y. y \<in> set xs \<Longrightarrow> P y \<Longrightarrow> y = x) \<Longrightarrow> find P xs = Some x"
proof (induction xs)
  case (Cons a xs)
  show ?case
  proof (cases "P a")
    case True
    with Cons.prems(3) [of a] show ?thesis by simp
  next
    case False
    then have "x \<in> set xs" using Cons.prems(1,2) by auto
    then have "find P xs = Some x"
      by (rule Cons.IH [OF _ Cons.prems(2)]) (erule (1) Cons.prems(3) [OF list.set_intros(2)])
    with False show ?thesis by simp
  qed
qed simp

lemma map_filter_cong:
  "(\<And>x. x \<in> set xs \<Longrightarrow> f x = g x) \<Longrightarrow> List.map_filter f xs = List.map_filter g xs"
  by (induction xs) (auto split: option.split)

lemma map_filter_map: "List.map_filter f (map g xs) = List.map_filter (\<lambda>x. f (g x)) xs"
  by (induction xs) (auto split: option.split)

lemma map_filter_filter:
  "List.map_filter f (filter P xs) = List.map_filter (\<lambda>x. if P x then f x else None) xs"
  by (induction xs) (auto split: option.split)

subsection \<open>Strings\<close>

fun split_on :: "char \<Rightarrow> string \<Rightarrow> string list" where
  \<comment> \<open>\<^verbatim>\<open>s.split(c)\<close>: never empty, keeps empty fields\<close>
  "split_on c [] = [[]]"
| "split_on c (x # xs) =
     (if x = c then [] # split_on c xs
      else (case split_on c xs of [] \<Rightarrow> [[x]] | p # ps \<Rightarrow> (x # p) # ps))"

definition py_space :: "char \<Rightarrow> bool" where
  \<comment> \<open>\<^verbatim>\<open>str.isspace\<close> on the first 256 code points\<close>
  "py_space c \<longleftrightarrow> (of_char c :: nat) \<in> {9, 10, 11, 12, 13, 28, 29, 30, 31, 32, 133, 160}"

definition strip :: "string \<Rightarrow> string" where
  "strip s = rev (dropWhile py_space (rev (dropWhile py_space s)))"

definition py_lower :: "string \<Rightarrow> string" where
  \<comment> \<open>\<^verbatim>\<open>str.lower\<close> on the first 256 code points\<close>
  "py_lower = map (\<lambda>c. let n = of_char c :: nat in
     if 65 \<le> n \<and> n \<le> 90 \<or> 192 \<le> n \<and> n \<le> 222 \<and> n \<noteq> 215 then char_of (n + 32) else c)"

definition py_upper :: "string \<Rightarrow> string" where
  \<comment> \<open>\<^verbatim>\<open>str.upper\<close> on the first 256 code points, but for the two letters whose capital lies outside\<close>
  "py_upper s = concat (map (\<lambda>c. let n = of_char c :: nat in
     if 97 \<le> n \<and> n \<le> 122 \<or> 224 \<le> n \<and> n \<le> 254 \<and> n \<noteq> 247 then [char_of (n - 32)]
     else if n = 223 then ''SS'' else [c]) s)"

fun int_digits :: "int \<Rightarrow> bool \<Rightarrow> string \<Rightarrow> int option" where
  \<comment> \<open>the digits of \<^verbatim>\<open>int(s)\<close>; an underscore may stand between two digits\<close>
  "int_digits acc d [] = (if d then Some acc else None)"
| "int_digits acc d (c # cs) =
     (if CHR ''0'' \<le> c \<and> c \<le> CHR ''9''
      then int_digits (acc * 10 + (of_char c - 48)) True cs
      else if c = CHR ''_'' \<and> d \<and> cs \<noteq> [] then int_digits acc False cs
      else None)"

definition py_int :: "string \<Rightarrow> int option" where
  \<comment> \<open>\<^verbatim>\<open>int(s)\<close>, \<open>None\<close> for the \<^verbatim>\<open>ValueError\<close>\<close>
  "py_int s =
     (case strip s of
        [] \<Rightarrow> None
      | c # ds \<Rightarrow>
          (if c = CHR ''-'' then map_option uminus (int_digits 0 False ds)
           else if c = CHR ''+'' then int_digits 0 False ds
           else int_digits 0 False (c # ds)))"

fun nat_str :: "nat \<Rightarrow> string" where
  \<comment> \<open>\<^verbatim>\<open>str(n)\<close>\<close>
  "nat_str n =
     (if n < 10 then [char_of (48 + n)] else nat_str (n div 10) @ [char_of (48 + n mod 10)])"

declare nat_str.simps [simp del]

definition json_int :: "json \<Rightarrow> exn + int" where
  \<comment> \<open>\<^verbatim>\<open>int(v)\<close>\<close>
  "json_int v =
     (case v of
        JInt i \<Rightarrow> Inr i
      | JBool b \<Rightarrow> Inr (if b then 1 else 0)
      | JFloat x \<Rightarrow> Inr (if x < 0 then \<lceil>x\<rceil> else \<lfloor>x\<rfloor>)
      | JStr s \<Rightarrow> (case py_int s of Some i \<Rightarrow> Inr i | None \<Rightarrow> Inl (ValueError ''invalid literal for int()''))
      | _ \<Rightarrow> Inl (PyException ''TypeError'' ''int()''))"

definition starts_with :: "string \<Rightarrow> string \<Rightarrow> bool" where
  "starts_with p s \<longleftrightarrow> take (length p) s = p"

lemma digit_char:
  "m < 10 \<Longrightarrow> CHR ''0'' \<le> char_of (48 + m :: nat) \<and> char_of (48 + m) \<le> CHR ''9''"
  "m < 10 \<Longrightarrow> (of_char (char_of (48 + m :: nat)) :: int) = 48 + int m"
  "m < 10 \<Longrightarrow> \<not> py_space (char_of (48 + m :: nat))"
proof -
  have nat: "(of_char (char_of (48 + m :: nat)) :: nat) = 48 + m" if "m < 10" for m
    using that by (simp add: of_char_mod_256)
  show "CHR ''0'' \<le> char_of (48 + m :: nat) \<and> char_of (48 + m) \<le> CHR ''9''" if "m < 10" for m
    using that by (simp add: less_eq_char_def nat)
  show "(of_char (char_of (48 + m :: nat)) :: int) = 48 + int m" if "m < 10" for m
    using nat [OF that] by (metis of_nat_add of_nat_numeral of_nat_of_char)
  show "\<not> py_space (char_of (48 + m :: nat))" if "m < 10" for m
    using that by (auto simp: py_space_def nat)
qed

lemma int_digits_append:
  "int_digits acc d xs = Some i \<Longrightarrow> m < 10 \<Longrightarrow>
   int_digits acc d (xs @ [char_of (48 + m :: nat)]) = Some (i * 10 + int m)"
  by (induction acc d xs rule: int_digits.induct) (auto simp: digit_char split: if_splits)

lemma nat_str_step:
  "n < 10 \<Longrightarrow> nat_str n = [char_of (48 + n)]"
  "\<not> n < 10 \<Longrightarrow> nat_str n = nat_str (n div 10) @ [char_of (48 + n mod 10)]"
  by (simp_all add: nat_str.simps [of n])

lemma nat_str_nonempty [simp]: "nat_str n \<noteq> []"
  by (cases "n < 10") (simp_all add: nat_str_step)

lemma int_digits_nat_str: "int_digits 0 d (nat_str n) = Some (int n)"
proof (induction n rule: nat_str.induct)
  case (1 n)
  show ?case
  proof (cases "n < 10")
    case True
    then show ?thesis by (simp add: nat_str_step digit_char)
  next
    case False
    have "int (n div 10) * 10 + int (n mod 10) = int n" by presburger
    then show ?thesis
      using int_digits_append [OF 1 [OF False], of "n mod 10"] by (simp add: nat_str_step(2) [OF False])
  qed
qed

lemma nat_str_digits: "c \<in> set (nat_str n) \<Longrightarrow> CHR ''0'' \<le> c \<and> c \<le> CHR ''9'' \<and> \<not> py_space c"
proof (induction n rule: nat_str.induct)
  case (1 n)
  show ?case
  proof (cases "n < 10")
    case True
    with 1 show ?thesis by (simp add: nat_str_step digit_char)
  next
    case False
    with 1 show ?thesis using digit_char [of "n mod 10"] by (auto simp: nat_str_step(2) [OF False])
  qed
qed

lemma strip_no_space: "(\<And>c. c \<in> set s \<Longrightarrow> \<not> py_space c) \<Longrightarrow> strip s = s"
proof -
  assume a: "\<And>c. c \<in> set s \<Longrightarrow> \<not> py_space c"
  have "dropWhile py_space xs = xs" if "set xs \<subseteq> set s" for xs
    using that a by (cases xs) auto
  then show ?thesis by (simp add: strip_def)
qed

lemma py_int_nat_str [simp]: "py_int (nat_str n) = Some (int n)"
proof -
  have "strip (nat_str n) = nat_str n" by (rule strip_no_space) (simp add: nat_str_digits)
  moreover obtain c cs where c: "nat_str n = c # cs" by (cases "nat_str n") simp_all
  moreover have "c \<noteq> CHR ''-'' \<and> c \<noteq> CHR ''+''"
    using nat_str_digits [of c n] c by (auto simp: less_eq_char_def)
  ultimately show ?thesis
    using int_digits_nat_str [of False n] by (simp add: py_int_def del: int_digits.simps)
qed

lemma split_on_nonempty [simp]: "split_on c s \<noteq> []"
  by (induction s) (auto split: list.split)

lemma split_on_append: "split_on c (xs @ c # ys) = split_on c xs @ split_on c ys"
  by (induction xs) (auto split: list.split)

subsection \<open>Invariants of deterministic machines\<close>

locale invariant_system =
  fixes step :: "'s \<Rightarrow> 'e \<Rightarrow> 's"
    and invar :: "'s \<Rightarrow> bool"
  assumes step_invar: "invar s \<Longrightarrow> invar (step s e)"
begin

lemma run_invar: "invar s \<Longrightarrow> invar (foldl step s es)"
  by (induction es arbitrary: s) (auto intro: step_invar)

lemma prefix_invar: "invar s \<Longrightarrow> invar (foldl step s (take n es))"
  by (rule run_invar)

end

subsection \<open>Counters that trip at a limit\<close>

text \<open>
  The contract that the circuit breaker and the dead letter queue share: as long as the object is
  armed every failure is counted, and the failure that brings the count to the limit trips it for
  good.
\<close>

locale trip_counter =
  fixes fail :: "'x \<Rightarrow> 'b \<Rightarrow> 'b"
    and armed :: "'b \<Rightarrow> bool"
    and tripped :: "'b \<Rightarrow> bool"
    and count :: "'b \<Rightarrow> int"
    and limit :: "'b \<Rightarrow> int"
  assumes limit_fail: "armed b \<Longrightarrow> limit (fail x b) = limit b"
    and count_fail: "armed b \<Longrightarrow> count (fail x b) = count b + 1"
    and armed_fail: "armed b \<Longrightarrow> count b + 1 < limit b \<Longrightarrow> armed (fail x b)"
    and trip_fail: "armed b \<Longrightarrow> limit b \<le> count b + 1 \<Longrightarrow> tripped (fail x b)"
    and tripped_fail: "tripped b \<Longrightarrow> tripped (fail x b)"
    and armed_not_tripped: "armed b \<Longrightarrow> \<not> tripped b"
begin

lemma run_armed:
  "armed b \<Longrightarrow> count b + int (length xs) < limit b \<Longrightarrow>
   armed (foldl (\<lambda>a x. fail x a) b xs) \<and>
   count (foldl (\<lambda>a x. fail x a) b xs) = count b + int (length xs) \<and>
   limit (foldl (\<lambda>a x. fail x a) b xs) = limit b"
proof (induction xs arbitrary: b)
  case Nil
  then show ?case by simp
next
  case (Cons x xs)
  have "armed (fail x b)" using Cons.prems by (intro armed_fail) auto
  with Cons.IH [of "fail x b"] Cons.prems show ?case
    by (simp add: limit_fail count_fail)
qed

lemma run_tripped: "tripped b \<Longrightarrow> tripped (foldl (\<lambda>a x. fail x a) b xs)"
  by (induction xs arbitrary: b) (auto intro: tripped_fail)

lemma run_trips:
  assumes "armed b" and "count b < limit b" and len: "limit b \<le> count b + int (length xs)"
  shows "tripped (foldl (\<lambda>a x. fail x a) b xs)"
proof -
  let ?k = "nat (limit b - count b) - 1"
  have k: "?k < length xs" using assms by linarith
  let ?c = "foldl (\<lambda>a x. fail x a) b (take ?k xs)"
  have c: "armed ?c \<and> count ?c = count b + int ?k \<and> limit ?c = limit b"
    using run_armed [of b "take ?k xs"] assms k by simp
  then have "tripped (fail (xs ! ?k) ?c)" using assms by (intro trip_fail) auto
  moreover have "foldl (\<lambda>a x. fail x a) b xs =
      foldl (\<lambda>a x. fail x a) (fail (xs ! ?k) ?c) (drop (Suc ?k) xs)"
    by (subst id_take_nth_drop [OF k]) simp
  ultimately show ?thesis by (simp add: run_tripped)
qed

lemma trips_iff:
  assumes "armed b" and "count b < limit b"
  shows "tripped (foldl (\<lambda>a x. fail x a) b xs) \<longleftrightarrow> limit b \<le> count b + int (length xs)"
  using run_trips [OF assms] run_armed [OF assms(1)] armed_not_tripped
  by (meson not_le)

end

end
