(* ===== verification/Circuit_Breaker.thy ===== *)
theory Circuit_Breaker
  imports Prelude
begin

text \<open>
  The circuit breaker of \<^verbatim>\<open>proxy/app/shared/circuit_breaker.py\<close>: the \<^verbatim>\<open>State\<close> enum, the
  \<^verbatim>\<open>CircuitBreaker\<close> object with every operation that changes it, and the module-level registry.
  Readings of \<^verbatim>\<open>time.monotonic()\<close> are arguments; \<^verbatim>\<open>failure\<close> takes the clock up to twice and so
  has two. The gauge and the counter published for the breaker's own label are fields of its
  record. A guarded function is a state transformer, because a coroutine guarded by \<^verbatim>\<open>call\<close> can be
  suspended while other calls use the same breaker.
\<close>

subsection \<open>Data\<close>

datatype state = CLOSED | OPEN | HALF_OPEN

fun metric_value :: "state \<Rightarrow> int" where
  "metric_value CLOSED = 0"
| "metric_value OPEN = 1"
| "metric_value HALF_OPEN = 2"

record breaker =
  cb_name :: string
  failure_threshold :: int
  cooldown_seconds :: real
  half_open_max :: int
  cb_state :: state
  failure_count :: int
  last_failure_time :: real
  half_open_calls :: int
  opened_at :: real
  state_gauge :: int
  failures_total :: nat

definition init_breaker :: "string \<Rightarrow> int \<Rightarrow> real \<Rightarrow> int \<Rightarrow> breaker" where
  "init_breaker name threshold cooldown hmax =
     \<lparr>cb_name = name, failure_threshold = threshold, cooldown_seconds = cooldown,
      half_open_max = hmax, cb_state = CLOSED, failure_count = 0, last_failure_time = 0,
      half_open_calls = 0, opened_at = 0, state_gauge = metric_value CLOSED,
      failures_total = 0\<rparr>"

subsection \<open>Operations\<close>

definition maybe_transition :: "real \<Rightarrow> breaker \<Rightarrow> breaker" where
  "maybe_transition now b =
     (if cb_state b = OPEN then
        (let elapsed = now - opened_at b in
         if elapsed \<ge> cooldown_seconds b
         then b\<lparr>cb_state := HALF_OPEN, half_open_calls := 0,
                state_gauge := metric_value HALF_OPEN\<rparr>
         else b)
      else b)"

definition read_state :: "real \<Rightarrow> breaker \<Rightarrow> state \<times> breaker" where
  "read_state now b = (let b' = maybe_transition now b in (cb_state b', b'))"

definition transition :: "state \<Rightarrow> breaker \<Rightarrow> breaker" where
  "transition new_state b = b\<lparr>cb_state := new_state, state_gauge := metric_value new_state\<rparr>"

definition success :: "breaker \<Rightarrow> breaker" where
  "success b =
     (let b' = b\<lparr>failure_count := 0\<rparr> in
      if cb_state b' \<noteq> CLOSED then transition CLOSED b' else b')"

definition failure :: "real \<Rightarrow> real \<Rightarrow> breaker \<Rightarrow> breaker" where
  "failure t1 t2 b =
     (let b' = b\<lparr>failure_count := failure_count b + 1, last_failure_time := t1,
                 failures_total := failures_total b + 1\<rparr> in
      if cb_state b' = HALF_OPEN then transition OPEN (b'\<lparr>opened_at := t2\<rparr>)
      else if cb_state b' = CLOSED \<and> failure_count b' \<ge> failure_threshold b'
      then transition OPEN (b'\<lparr>opened_at := t2\<rparr>)
      else b')"

definition check_and_enter :: "real \<Rightarrow> breaker \<Rightarrow> exn option \<times> breaker" where
  "check_and_enter now b =
     (let (current_state, b') = read_state now b in
      if current_state = OPEN then (Some (CircuitBreakerOpenError (cb_name b')), b')
      else if current_state = HALF_OPEN then
        (if half_open_calls b' \<ge> half_open_max b'
         then (Some (CircuitBreakerOpenError (cb_name b')), b')
         else (None, b'\<lparr>half_open_calls := half_open_calls b' + 1\<rparr>))
      else (None, b'))"

definition settle :: "real \<Rightarrow> real \<Rightarrow> exn + 'r \<Rightarrow> breaker \<Rightarrow> breaker" where
  \<comment> \<open>the \<^verbatim>\<open>try\<close>/\<^verbatim>\<open>except Exception\<close> around the guarded function, once its outcome is known\<close>
  "settle t1 t2 outcome b =
     (case outcome of
        Inr r \<Rightarrow> success b
      | Inl (CircuitBreakerOpenError n) \<Rightarrow> b
      | Inl (PyException c m) \<Rightarrow> failure t1 t2 b
      | Inl (PyBaseException c) \<Rightarrow> b)"

definition call_sync ::
  "real \<Rightarrow> real \<Rightarrow> real \<Rightarrow> (breaker \<Rightarrow> (exn + 'r) \<times> breaker) \<Rightarrow> breaker \<Rightarrow> (exn + 'r) \<times> breaker" where
  "call_sync now t1 t2 fn b =
     (case check_and_enter now b of
        (Some e, b') \<Rightarrow> (Inl e, b')
      | (None, b') \<Rightarrow> (let (outcome, b'') = fn b' in (outcome, settle t1 t2 outcome b'')))"

definition call ::
  "real \<Rightarrow> real \<Rightarrow> real \<Rightarrow> (breaker \<Rightarrow> (exn + 'r) \<times> breaker) + (breaker \<Rightarrow> (exn + 'r) \<times> breaker)
   \<Rightarrow> breaker \<Rightarrow> (exn + 'r) \<times> breaker" where
  \<comment> \<open>the coroutine: \<open>Inl\<close> is an async function, awaited, \<open>Inr\<close> a plain one\<close>
  "call now t1 t2 fn b =
     (case check_and_enter now b of
        (Some e, b') \<Rightarrow> (Inl e, b')
      | (None, b') \<Rightarrow>
          (let (outcome, b'') = (case fn of Inl async_fn \<Rightarrow> async_fn b' | Inr sync_fn \<Rightarrow> sync_fn b')
           in (outcome, settle t1 t2 outcome b'')))"

subsection \<open>Registry\<close>

type_synonym breakers = "(string, breaker) dict"

definition get_breaker ::
  "string \<Rightarrow> int \<Rightarrow> real \<Rightarrow> int \<Rightarrow> breakers \<Rightarrow> breaker \<times> breakers" where
  "get_breaker name threshold cooldown hmax bs =
     (case dict_get bs name of
        Some b \<Rightarrow> (b, bs)
      | None \<Rightarrow> (let b = init_breaker name threshold cooldown hmax in (b, dict_set name b bs)))"

definition get_all_breakers :: "breakers \<Rightarrow> breakers" where
  "get_all_breakers bs = bs"

definition reset_all_breakers :: "breakers \<Rightarrow> breakers" where
  "reset_all_breakers bs =
     map (\<lambda>(n, b). (n, transition CLOSED (b\<lparr>failure_count := 0, half_open_calls := 0\<rparr>))) bs"

subsection \<open>Interleaved use\<close>

text \<open>
  Several calls can be in flight on one breaker. Each contributes an \<open>Enter\<close> and, if it was
  admitted, later an \<open>Exit\<close>; in between the other calls' events may come. \<open>Read\<close> is an access to
  the \<^verbatim>\<open>state\<close> property.
\<close>

datatype cb_event = Enter real | Exit real real "exn + unit" | Read real

fun cb_step :: "breaker \<Rightarrow> cb_event \<Rightarrow> breaker" where
  "cb_step b (Enter now) = snd (check_and_enter now b)"
| "cb_step b (Exit t1 t2 r) = settle t1 t2 r b"
| "cb_step b (Read now) = snd (read_state now b)"

definition breaker_wf :: "breaker \<Rightarrow> bool" where
  "breaker_wf b \<longleftrightarrow>
     1 \<le> failure_threshold b \<and> 0 \<le> half_open_max b \<and>
     state_gauge b = metric_value (cb_state b) \<and>
     0 \<le> failure_count b \<and> failure_count b \<le> int (failures_total b) \<and>
     0 \<le> half_open_calls b \<and> half_open_calls b \<le> half_open_max b \<and>
     (cb_state b = CLOSED \<longrightarrow> failure_count b < failure_threshold b)"

subsection \<open>Lemmas\<close>

lemmas breaker_defs =
  maybe_transition_def read_state_def transition_def success_def failure_def
  check_and_enter_def settle_def Let_def

lemma maybe_transition_cases:
  "maybe_transition now b =
     (if cb_state b = OPEN \<and> now - opened_at b \<ge> cooldown_seconds b
      then b\<lparr>cb_state := HALF_OPEN, half_open_calls := 0, state_gauge := 2\<rparr> else b)"
  by (simp add: maybe_transition_def)

lemma wf_init: "1 \<le> t \<Longrightarrow> 0 \<le> h \<Longrightarrow> breaker_wf (init_breaker n t c h)"
  by (simp add: breaker_wf_def init_breaker_def)

lemma wf_maybe_transition: "breaker_wf b \<Longrightarrow> breaker_wf (maybe_transition now b)"
  by (simp add: breaker_wf_def maybe_transition_cases)

lemma wf_success: "breaker_wf b \<Longrightarrow> breaker_wf (success b)"
  by (auto simp: breaker_wf_def breaker_defs)

lemma wf_failure: "breaker_wf b \<Longrightarrow> breaker_wf (failure t1 t2 b)"
  by (cases "cb_state b") (auto simp: breaker_wf_def breaker_defs)

lemma wf_check_and_enter: "breaker_wf b \<Longrightarrow> breaker_wf (snd (check_and_enter now b))"
  by (auto simp: breaker_wf_def check_and_enter_def read_state_def Let_def
      maybe_transition_cases)

lemma wf_settle: "breaker_wf b \<Longrightarrow> breaker_wf (settle t1 t2 r b)"
  by (auto simp: settle_def wf_success wf_failure split: sum.split exn.split)

lemma cb_step_wf: "breaker_wf b \<Longrightarrow> breaker_wf (cb_step b e)"
  by (cases e) (auto simp: wf_check_and_enter wf_settle read_state_def Let_def
      wf_maybe_transition)

interpretation cb: invariant_system cb_step breaker_wf
  by unfold_locales (rule cb_step_wf)

text \<open>A run of failing calls on a closed breaker counts up to the threshold and then opens.\<close>

interpretation cb_trip: trip_counter "\<lambda>(t1, t2). failure t1 t2"
    "\<lambda>b. cb_state b = CLOSED" "\<lambda>b. cb_state b = OPEN" failure_count failure_threshold
  by unfold_locales (auto simp: failure_def transition_def Let_def split: prod.splits)

lemma fail_run_eq:
  "foldl (\<lambda>a x. (case x of (t1, t2) \<Rightarrow> failure t1 t2) a) = foldl (\<lambda>a (t1, t2). failure t1 t2 a)"
  by (rule arg_cong [where f = foldl]) (simp add: fun_eq_iff split: prod.splits)

lemmas failures_keep_closed = cb_trip.run_armed [unfolded fail_run_eq]

lemma open_rejects:
  "cb_state b = OPEN \<Longrightarrow> now - opened_at b < cooldown_seconds b \<Longrightarrow>
   check_and_enter now b = (Some (CircuitBreakerOpenError (cb_name b)), b)"
  by (simp add: check_and_enter_def read_state_def maybe_transition_cases)

lemma open_probes:
  "cb_state b = OPEN \<Longrightarrow> cooldown_seconds b \<le> now - opened_at b \<Longrightarrow> 1 \<le> half_open_max b \<Longrightarrow>
   check_and_enter now b =
     (None, b\<lparr>cb_state := HALF_OPEN, half_open_calls := 1, state_gauge := 2\<rparr>)"
  by (simp add: check_and_enter_def read_state_def maybe_transition_cases)

definition exhausted :: "breaker \<Rightarrow> bool" where
  \<comment> \<open>half-open with every probe slot taken\<close>
  "exhausted b \<longleftrightarrow> cb_state b = HALF_OPEN \<and> half_open_max b \<le> half_open_calls b"

lemma exhausted_rejects:
  "exhausted b \<Longrightarrow> check_and_enter now b = (Some (CircuitBreakerOpenError (cb_name b)), b)"
  by (simp add: exhausted_def check_and_enter_def read_state_def maybe_transition_cases)


lemma failure_open: "cb_state b = OPEN \<Longrightarrow> cb_state (failure t1 t2 b) = OPEN \<and>
   opened_at (failure t1 t2 b) = opened_at b"
  by (simp add: failure_def)

lemma failures_keep_open:
  "cb_state b = OPEN \<Longrightarrow>
   cb_state (foldl (\<lambda>a (t1, t2). failure t1 t2 a) b ts) = OPEN \<and>
   opened_at (foldl (\<lambda>a (t1, t2). failure t1 t2 a) b ts) = opened_at b"
proof (induction ts arbitrary: b)
  case Nil
  then show ?case by simp
next
  case (Cons p ts)
  then show ?case by (cases p) (simp add: failure_open)
qed

lemma failure_at_threshold:
  "cb_state b = CLOSED \<Longrightarrow> failure_threshold b \<le> failure_count b + 1 \<Longrightarrow>
   cb_state (failure t1 t2 b) = OPEN \<and> opened_at (failure t1 t2 b) = t2"
  by (simp add: failure_def transition_def Let_def)

definition cancelled_call :: "real \<Rightarrow> string \<Rightarrow> breaker \<Rightarrow> breaker" where
  \<comment> \<open>an awaited coroutine that is cancelled: \<^verbatim>\<open>CancelledError\<close> is no \<^verbatim>\<open>Exception\<close>\<close>
  "cancelled_call now c b =
     snd (call now now now (Inl (\<lambda>b'. (Inl (PyBaseException c) :: exn + unit, b'))) b)"

lemma cancelled_call_half_open:
  "cb_state b = HALF_OPEN \<Longrightarrow> half_open_calls b < half_open_max b \<Longrightarrow>
   cancelled_call now c b = b\<lparr>half_open_calls := half_open_calls b + 1\<rparr>"
  by (simp add: cancelled_call_def call_def check_and_enter_def read_state_def
      maybe_transition_cases settle_def)

lemma cancelled_calls_half_open:
  "cb_state b = HALF_OPEN \<Longrightarrow> half_open_calls b + int n \<le> half_open_max b \<Longrightarrow>
   (cancelled_call now c ^^ n) b = b\<lparr>half_open_calls := half_open_calls b + int n\<rparr>"
proof (induction n)
  case 0
  then show ?case by simp
next
  case (Suc n)
  then show ?case by (simp add: cancelled_call_half_open)
qed

lemma cancelled_call_open:
  "cb_state b = OPEN \<Longrightarrow> cooldown_seconds b \<le> now - opened_at b \<Longrightarrow> 1 \<le> half_open_max b \<Longrightarrow>
   cancelled_call now c b = b\<lparr>cb_state := HALF_OPEN, half_open_calls := 1, state_gauge := 2\<rparr>"
  by (simp add: cancelled_call_def call_def open_probes settle_def)

abbreviation fail_run :: "breaker \<Rightarrow> (real \<times> real) list \<Rightarrow> breaker" where
  "fail_run \<equiv> foldl (\<lambda>a (t1, t2). failure t1 t2 a)"

lemma fail_run_short:
  "int (length ts) < t \<Longrightarrow> cb_state (fail_run (init_breaker n t c h) ts) = CLOSED"
  using failures_keep_closed [of "init_breaker n t c h" ts] by (simp add: init_breaker_def)

lemma fail_run_long:
  assumes t: "1 \<le> t" and len: "t \<le> int (length ts)"
  shows "cb_state (fail_run (init_breaker n t c h) ts) = OPEN \<and>
         opened_at (fail_run (init_breaker n t c h) ts) = snd (ts ! (nat t - 1))"
proof -
  let ?b = "init_breaker n t c h" and ?k = "nat t - 1"
  obtain t1 t2 where p: "ts ! ?k = (t1, t2)" by (cases "ts ! ?k")
  have k: "?k < length ts" using len t by linarith
  have split: "ts = take ?k ts @ (t1, t2) # drop (Suc ?k) ts"
    using id_take_nth_drop [OF k] p by simp
  let ?c = "fail_run ?b (take ?k ts)"
  have "cb_state ?c = CLOSED \<and> failure_count ?c = int ?k \<and> failure_threshold ?c = t"
    using failures_keep_closed [of ?b "take ?k ts"] k t by (simp add: init_breaker_def)
  then have opened: "cb_state (failure t1 t2 ?c) = OPEN \<and> opened_at (failure t1 t2 ?c) = t2"
    using t by (intro failure_at_threshold) auto
  have "fail_run ?b ts = fail_run (failure t1 t2 ?c) (drop (Suc ?k) ts)"
    by (subst split) simp
  then show ?thesis using failures_keep_open opened p by simp
qed

subsection \<open>Properties\<close>

text \<open>
  C10. Whatever calls are interleaved on a breaker built with a threshold of at least one and a
  non-negative probe limit, the published gauge always shows its state, the probe count stays
  within the limit, the failure count never exceeds the published total, and a closed breaker has
  seen fewer consecutive failures than its threshold.
\<close>
theorem breaker_runs_wf:
  assumes "1 \<le> t" and "0 \<le> h"
  shows "breaker_wf (foldl cb_step (init_breaker n t c h) es)"
  using wf_init [OF assms] by (rule cb.run_invar)

theorem breaker_runs_wf_witness:
  "breaker_wf (foldl cb_step (init_breaker ''llm'' 2 30 1)
     [Enter 0, Exit 1 1 (Inl (PyException ''TimeoutError'' [])), Read 2, Enter 3])"
  by (rule breaker_runs_wf) simp_all

text \<open>
  A fresh breaker that records only failures is closed as long as they are fewer than the
  threshold and open from the threshold on, and the cooldown is counted from the failure that
  reached the threshold.
\<close>
theorem opens_at_threshold:
  assumes "1 \<le> t"
  shows "cb_state (fail_run (init_breaker n t c h) ts) =
           (if int (length ts) < t then CLOSED else OPEN) \<and>
         (t \<le> int (length ts) \<longrightarrow>
            opened_at (fail_run (init_breaker n t c h) ts) = snd (ts ! (nat t - 1)))"
  using fail_run_short fail_run_long [OF assms] by auto

theorem opens_at_threshold_witness:
  "cb_state (fail_run (init_breaker ''q'' 2 30 1) [(1, 1), (5, 6)]) = OPEN \<and>
   opened_at (fail_run (init_breaker ''q'' 2 30 1) [(1, 1), (5, 6)]) = 6"
  using opens_at_threshold [of 2 "''q''" 30 1 "[(1, 1), (5, 6)]"] by simp

text \<open>
  While an open breaker's cooldown runs, a guarded call is rejected without running the
  function or changing the breaker. Once the cooldown is over the function runs in the half-open
  state: a normal return closes the breaker and clears the failure count, and any exception
  re-opens it with a new cooldown.
\<close>
theorem open_breaker_call:
  assumes "cb_state b = OPEN" and "1 \<le> half_open_max b"
  shows "(now - opened_at b < cooldown_seconds b \<longrightarrow>
            call_sync now t1 t2 fn b = (Inl (CircuitBreakerOpenError (cb_name b)), b)) \<and>
         (cooldown_seconds b \<le> now - opened_at b \<longrightarrow>
            (\<forall>r. let b' = snd (call_sync now t1 t2 (\<lambda>s. (Inr r, s)) b) in
               cb_state b' = CLOSED \<and> failure_count b' = 0) \<and>
            (\<forall>c m. let b' = snd (call_sync now t1 t2 (\<lambda>s. (Inl (PyException c m) :: exn + 'r, s)) b) in
               cb_state b' = OPEN \<and> opened_at b' = t2 \<and> failure_count b' = failure_count b + 1))"
  using assms
  by (simp add: call_sync_def open_rejects open_probes settle_def success_def failure_def
      transition_def Let_def)

theorem open_breaker_call_witness:
  "call_sync 10 10 10 (\<lambda>s. (Inr (7::int), s)) (fail_run (init_breaker ''q'' 1 30 1) [(0, 0)]) =
     (Inl (CircuitBreakerOpenError ''q''), fail_run (init_breaker ''q'' 1 30 1) [(0, 0)])"
  using open_breaker_call [of "fail_run (init_breaker ''q'' 1 30 1) [(0, 0)]" 10 10 10
      "\<lambda>s. (Inr (7::int), s)"]
  by (simp add: failure_def init_breaker_def transition_def)

text \<open>
  A cancelled probe is never given back. If \<^verbatim>\<open>half_open_max\<close> awaited probes of a breaker whose
  cooldown is over are cancelled, no call is in flight any more and yet the breaker rejects every
  later call, at every later time, and stays as it is: only an explicit \<^verbatim>\<open>success\<close>, \<^verbatim>\<open>failure\<close> or
  reset from outside gets it out of the half-open state.
\<close>
theorem cancelled_probes_block_forever:
  assumes "cb_state b = OPEN" and "cooldown_seconds b \<le> now - opened_at b"
    and "1 \<le> half_open_max b"
  shows "let b' = (cancelled_call now c ^^ nat (half_open_max b)) b in
         cb_state b' = HALF_OPEN \<and>
         (\<forall>later. check_and_enter later b' = (Some (CircuitBreakerOpenError (cb_name b)), b'))"
proof -
  let ?h = "half_open_max b"
  let ?b1 = "b\<lparr>cb_state := HALF_OPEN, half_open_calls := 1, state_gauge := 2\<rparr>"
  let ?b' = "(cancelled_call now c ^^ nat ?h) b"
  have "?b' = (cancelled_call now c ^^ (nat ?h - 1)) (cancelled_call now c b)"
    using assms(3) by (metis Suc_diff_1 zero_less_nat_eq funpow_swap1 funpow.simps(2)
        comp_apply zero_less_one_class.zero_less_one order_less_le_trans)
  also have "\<dots> = (cancelled_call now c ^^ (nat ?h - 1)) ?b1"
    by (simp only: cancelled_call_open [OF assms])
  also have "\<dots> = ?b1\<lparr>half_open_calls := ?h\<rparr>"
    using cancelled_calls_half_open [of ?b1 "nat ?h - 1" now c] assms(3) by simp
  finally have eq: "?b' = ?b1\<lparr>half_open_calls := ?h\<rparr>" .
  then have "exhausted ?b'" by (simp add: exhausted_def)
  then show ?thesis using exhausted_rejects eq by (simp add: Let_def)
qed

theorem cancelled_probes_block_forever_witness:
  "let b' = (cancelled_call 40 ''CancelledError'' ^^ 2)
              (fail_run (init_breaker ''llm'' 1 30 2) [(0, 0)]) in
   cb_state b' = HALF_OPEN \<and>
   (\<forall>later. check_and_enter later b' = (Some (CircuitBreakerOpenError ''llm''), b'))"
  using cancelled_probes_block_forever
    [of "fail_run (init_breaker ''llm'' 1 30 2) [(0, 0)]" 40 "''CancelledError''"]
  by (simp add: failure_def init_breaker_def transition_def numeral_2_eq_2)

text \<open>
  The registry hands out one breaker per name: looking a name up twice gives the object of the
  first lookup, with the parameters of the first lookup, whatever parameters the second asks for,
  and no lookup disturbs the breakers registered under other names.
\<close>
lemma get_breaker_once:
  "let (b1, bs1) = get_breaker n t1 c1 h1 bs; (b2, bs2) = get_breaker n t2 c2 h2 bs1 in
   b2 = b1 \<and> bs2 = bs1 \<and> dict_get bs2 n = Some b1 \<and>
   (\<forall>m. m \<noteq> n \<longrightarrow> dict_get bs2 m = dict_get bs m)"
  by (auto simp: get_breaker_def Let_def split: option.splits)

end
