(* ===== verification/Retry.thy ===== *)
theory Retry
  imports Circuit_Breaker
begin

text \<open>
  The retry utility of \<^verbatim>\<open>proxy/app/shared/retry.py\<close>: backoff delays, the retryability test, the
  pre-flight check against a named circuit breaker and the attempt loop of \<^verbatim>\<open>sync_retry\<close> and
  \<^verbatim>\<open>async_retry\<close>. The callable is a state transformer over the breaker registry, indexed by the
  attempt; the draws of \<^verbatim>\<open>random.uniform(0.75, 1.25)\<close> and the clock readings of each attempt are
  arguments. The delays slept are part of the result. While \<^verbatim>\<open>async_retry\<close> awaits its sleep other
  tasks may use the breakers: \<open>others\<close> is what they do to the registry meanwhile.
\<close>

datatype backoff_strategy = CONSTANT | LINEAR | EXPONENTIAL

record retry_config =
  max_attempts :: int
  base_delay :: real
  max_delay :: real
  strategy :: backoff_strategy
  jitter :: bool
  retryable_exceptions :: "string list"
  circuit_breaker_name :: "string option"
  on_retry :: "(nat \<Rightarrow> exn \<Rightarrow> real \<Rightarrow> exn option) option"

definition default_config :: retry_config where
  "default_config =
     \<lparr>max_attempts = 3, base_delay = 1, max_delay = 60, strategy = EXPONENTIAL, jitter = True,
      retryable_exceptions = [], circuit_breaker_name = None, on_retry = None\<rparr>"

datatype retry_exn = RetryExhaustedError int exn | Propagated exn

definition compute_delay :: "real \<Rightarrow> nat \<Rightarrow> retry_config \<Rightarrow> real" where
  "compute_delay u attempt config =
     (let delay = (case strategy config of
                     CONSTANT \<Rightarrow> base_delay config
                   | LINEAR \<Rightarrow> base_delay config * (real attempt + 1)
                   | EXPONENTIAL \<Rightarrow> base_delay config * 2 ^ attempt);
          delay = min delay (max_delay config)
      in if jitter config then delay * u else delay)"

definition record_circuit_breaker :: "real \<Rightarrow> real \<Rightarrow> string \<Rightarrow> bool \<Rightarrow> breakers \<Rightarrow> breakers" where
  "record_circuit_breaker t1 t2 name ok bs =
     (let (b, bs') = get_breaker name 5 30 2 bs
      in dict_set name (if ok then success b else failure t1 t2 b) bs')"

definition is_retryable :: "(exn \<Rightarrow> string \<Rightarrow> bool) \<Rightarrow> exn \<Rightarrow> retry_config \<Rightarrow> bool" where
  "is_retryable isinstance e config =
     (if retryable_exceptions config = [] then True
      else list_ex (isinstance e) (retryable_exceptions config))"

abbreviation guarded :: "retry_config \<Rightarrow> bool" where
  "guarded config \<equiv> truthy_str (circuit_breaker_name config)"

abbreviation guard_name :: "retry_config \<Rightarrow> string" where
  "guard_name config \<equiv> (case circuit_breaker_name config of None \<Rightarrow> [] | Some n \<Rightarrow> n)"

definition preflight :: "real \<Rightarrow> retry_config \<Rightarrow> breakers \<Rightarrow> exn option \<times> breakers" where
  "preflight now config bs =
     (if guarded config then
        (let (b, bs') = get_breaker (guard_name config) 5 30 2 bs;
             (st, b') = read_state now b;
             bs'' = dict_set (guard_name config) b' bs'
         in if st = OPEN
            then (Some (CircuitBreakerOpenError
                    (''Circuit breaker '' @ CHR 0x27 # guard_name config @ CHR 0x27 # '' is OPEN'')), bs'')
            else (None, bs''))
      else (None, bs))"

fun retry_loop ::
  "(exn \<Rightarrow> string \<Rightarrow> bool) \<Rightarrow> retry_config \<Rightarrow> (nat \<Rightarrow> breakers \<Rightarrow> (exn + 'r) \<times> breakers) \<Rightarrow>
   (nat \<Rightarrow> real \<times> real) \<Rightarrow> (nat \<Rightarrow> real) \<Rightarrow> (nat \<Rightarrow> breakers \<Rightarrow> breakers) \<Rightarrow>
   nat list \<Rightarrow> exn option \<Rightarrow> breakers \<Rightarrow> (retry_exn + 'r) \<times> breakers \<times> real list" where
  "retry_loop isinstance config fn clock u others [] last_error bs =
     (Inl (RetryExhaustedError (max_attempts config)
        (case last_error of None \<Rightarrow> PyException ''RuntimeError'' ''unknown'' | Some e \<Rightarrow> e)), bs, [])"
| "retry_loop isinstance config fn clock u others (attempt # rest) last_error bs =
     (let (outcome, bs1) = fn attempt bs; (t1, t2) = clock attempt in
      case outcome of
        Inr result \<Rightarrow>
          (Inr result,
           if guarded config then record_circuit_breaker t1 t2 (guard_name config) True bs1 else bs1, [])
      | Inl (PyBaseException c) \<Rightarrow> (Inl (Propagated (PyBaseException c)), bs1, [])
      | Inl e \<Rightarrow>
          (let bs2 = (if guarded config
                      then record_circuit_breaker t1 t2 (guard_name config) False bs1 else bs1) in
           if \<not> is_retryable isinstance e config then (Inl (Propagated e), bs2, [])
           else if int attempt < max_attempts config - 1 then
             (let delay = compute_delay (u attempt) attempt config in
              case (case on_retry config of None \<Rightarrow> None | Some cb \<Rightarrow> cb attempt e delay) of
                Some e' \<Rightarrow> (Inl (Propagated e'), bs2, [])
              | None \<Rightarrow>
                  (let (r, bs3, sleeps) = retry_loop isinstance config fn clock u others rest (Some e)
                                            (others attempt bs2)
                   in (r, bs3, delay # sleeps)))
           else (Inl (RetryExhaustedError (max_attempts config) e), bs2, [])))"

definition async_retry ::
  "(exn \<Rightarrow> string \<Rightarrow> bool) \<Rightarrow> real \<Rightarrow> retry_config option \<Rightarrow> (nat \<Rightarrow> breakers \<Rightarrow> (exn + 'r) \<times> breakers) \<Rightarrow>
   (nat \<Rightarrow> real \<times> real) \<Rightarrow> (nat \<Rightarrow> real) \<Rightarrow> (nat \<Rightarrow> breakers \<Rightarrow> breakers) \<Rightarrow> breakers \<Rightarrow>
   (retry_exn + 'r) \<times> breakers \<times> real list" where
  "async_retry isinstance now config_opt fn clock u others bs =
     (let config = (case config_opt of None \<Rightarrow> default_config | Some c \<Rightarrow> c) in
      case preflight now config bs of
        (Some e, bs') \<Rightarrow> (Inl (Propagated e), bs', [])
      | (None, bs') \<Rightarrow>
          retry_loop isinstance config fn clock u others [0..<nat (max_attempts config)] None bs')"

definition sync_retry ::
  "(exn \<Rightarrow> string \<Rightarrow> bool) \<Rightarrow> real \<Rightarrow> retry_config option \<Rightarrow> (nat \<Rightarrow> breakers \<Rightarrow> (exn + 'r) \<times> breakers) \<Rightarrow>
   (nat \<Rightarrow> real \<times> real) \<Rightarrow> (nat \<Rightarrow> real) \<Rightarrow> breakers \<Rightarrow> (retry_exn + 'r) \<times> breakers \<times> real list" where
  "sync_retry isinstance now config_opt fn clock u bs =
     (let config = (case config_opt of None \<Rightarrow> default_config | Some c \<Rightarrow> c) in
      case preflight now config bs of
        (Some e, bs') \<Rightarrow> (Inl (Propagated e), bs', [])
      | (None, bs') \<Rightarrow>
          retry_loop isinstance config fn clock u (\<lambda>_ s. s) [0..<nat (max_attempts config)] None bs')"

subsection \<open>Delays\<close>

lemma compute_delay_bounds:
  assumes "0 \<le> base_delay c" and "0 \<le> max_delay c" and "3/4 \<le> u" and "u \<le> 5/4"
  shows "0 \<le> compute_delay u n c" and "compute_delay u n c \<le> 5/4 * max_delay c"
proof -
  define raw where "raw = (case strategy c of CONSTANT \<Rightarrow> base_delay c
      | LINEAR \<Rightarrow> base_delay c * (real n + 1) | EXPONENTIAL \<Rightarrow> base_delay c * 2 ^ n)"
  let ?d = "min raw (max_delay c)"
  have raw0: "0 \<le> raw" using assms(1) by (auto simp: raw_def split: backoff_strategy.split)
  then have d0: "0 \<le> ?d" and dm: "?d \<le> max_delay c" using assms(2) by auto
  have eq: "compute_delay u n c = (if jitter c then ?d * u else ?d)"
    by (simp add: compute_delay_def raw_def Let_def)
  have "?d * u \<le> max_delay c * (5/4)" using d0 dm assms by (intro mult_mono) auto
  then show "0 \<le> compute_delay u n c" and "compute_delay u n c \<le> 5/4 * max_delay c"
    using d0 dm assms by (auto simp: eq)
qed

text \<open>The loop sleeps once before each further attempt, for the delay of the attempt it follows.\<close>

lemma retry_loop_sleeps:
  "retry_loop isi c fn clk u oth xs le bs = (r, bs', sleeps) \<Longrightarrow>
   \<exists>k. k \<le> length xs \<and> sleeps = map (\<lambda>a. compute_delay (u a) a c) (take k xs) \<and>
       (xs \<noteq> [] \<longrightarrow> int (last xs) \<ge> max_attempts c - 1 \<longrightarrow> k < length xs)"
proof (induction xs arbitrary: le bs bs' sleeps r)
  case Nil
  then show ?case by auto
next
  case (Cons a xs)
  obtain out b1 where f: "fn a bs = (out, b1)" by (cases "fn a bs")
  obtain t1 t2 where clk: "clk a = (t1, t2)" by (cases "clk a")
  show ?case
  proof (cases "sleeps = []")
    case True
    then show ?thesis by (intro exI [of _ 0]) auto
  next
    case False
    let ?d = "compute_delay (u a) a c"
    from False Cons.prems obtain le1 bs1 r1 bs2 sl
      where rec: "retry_loop isi c fn clk u oth xs le1 bs1 = (r1, bs2, sl)"
        and sl: "sleeps = ?d # sl" and guard: "int a < max_attempts c - 1"
      by (auto simp: f clk Let_def split: sum.splits exn.splits if_splits option.splits prod.splits)
    from Cons.IH [OF rec] obtain k where k: "k \<le> length xs"
      "sl = map (\<lambda>a. compute_delay (u a) a c) (take k xs)"
      "xs \<noteq> [] \<longrightarrow> int (last xs) \<ge> max_attempts c - 1 \<longrightarrow> k < length xs" by blast
    show ?thesis using k sl guard by (intro exI [of _ "Suc k"]) auto
  qed
qed

subsection \<open>The loop against its specification\<close>

fun stops :: "(exn \<Rightarrow> string \<Rightarrow> bool) \<Rightarrow> retry_config \<Rightarrow> exn + 'r \<Rightarrow> bool" where
  \<comment> \<open>outcomes after which no further attempt is made\<close>
  "stops isi c (Inr r) = True"
| "stops isi c (Inl (PyBaseException k)) = True"
| "stops isi c (Inl e) = (\<not> is_retryable isi e c)"

definition finish :: "exn + 'r \<Rightarrow> retry_exn + 'r" where
  "finish outcome = (case outcome of Inr r \<Rightarrow> Inr r | Inl e \<Rightarrow> Inl (Propagated e))"

definition retry_spec ::
  "(exn \<Rightarrow> string \<Rightarrow> bool) \<Rightarrow> retry_config \<Rightarrow> (nat \<Rightarrow> exn + 'r) \<Rightarrow> (nat \<Rightarrow> real) \<Rightarrow> nat \<Rightarrow>
   (retry_exn + 'r) \<times> real list" where
  \<comment> \<open>from attempt \<open>i\<close> on: the first outcome that stops decides, else the last error is wrapped\<close>
  "retry_spec isi c out u i =
     (let n = nat (max_attempts c); delays = (\<lambda>k. map (\<lambda>a. compute_delay (u a) a c) [i..<k]) in
      case find (\<lambda>a. stops isi c (out a)) [i..<n] of
        Some a \<Rightarrow> (finish (out a), delays a)
      | None \<Rightarrow> (Inl (RetryExhaustedError (max_attempts c) (projl (out (n - 1)))), delays (n - 1)))"

lemma find_upt_ge: "find P [i..<n] = Some a \<Longrightarrow> i \<le> a \<and> a < n"
  by (auto simp: find_Some_iff)

lemma retry_spec_stop: "i < nat (max_attempts c) \<Longrightarrow> stops isi c (out i) \<Longrightarrow>
   retry_spec isi c out u i = (finish (out i), [])"
  by (simp add: retry_spec_def upt_conv_Cons)

lemma retry_spec_last: "Suc i = nat (max_attempts c) \<Longrightarrow> \<not> stops isi c (out i) \<Longrightarrow>
   retry_spec isi c out u i = (Inl (RetryExhaustedError (max_attempts c) (projl (out i))), [])"
  by (drule sym) (simp add: retry_spec_def upt_conv_Cons)

lemma retry_spec_next:
  assumes "Suc i < nat (max_attempts c)" and "\<not> stops isi c (out i)"
  shows "retry_spec isi c out u i =
    (let (r, sl) = retry_spec isi c out u (Suc i) in (r, compute_delay (u i) i c # sl))"
proof -
  let ?n = "nat (max_attempts c)"
  have upt: "[i..<?n] = i # [Suc i..<?n]" using assms(1) by (simp add: upt_conv_Cons)
  have fnd: "find (\<lambda>a. stops isi c (out a)) [i..<?n] = find (\<lambda>a. stops isi c (out a)) [Suc i..<?n]"
    using assms(2) by (simp add: upt)
  have cons: "i < k \<Longrightarrow> map f [i..<k] = f i # map f [Suc i..<k]" for f :: "nat \<Rightarrow> real" and k
    by (simp add: upt_conv_Cons)
  show ?thesis
  proof (cases "find (\<lambda>a. stops isi c (out a)) [Suc i..<?n]")
    case None
    then show ?thesis using assms fnd by (simp add: retry_spec_def cons Let_def)
  next
    case (Some a)
    then have "i < a" by (auto dest: find_upt_ge)
    with Some fnd show ?thesis by (simp add: retry_spec_def cons Let_def)
  qed
qed

lemma retry_loop_spec:
  assumes plain: "\<not> guarded c" "on_retry c = None"
  shows "i < nat (max_attempts c) \<Longrightarrow>
   retry_loop isi c (\<lambda>a s. (out a, s)) clk u (\<lambda>_ s. s) [i..<nat (max_attempts c)] le bs =
     (fst (retry_spec isi c out u i), bs, snd (retry_spec isi c out u i))"
proof (induction "nat (max_attempts c) - i" arbitrary: i le)
  case 0
  then show ?case by simp
next
  case (Suc k)
  let ?n = "nat (max_attempts c)"
  have upt: "[i..<?n] = i # [Suc i..<?n]" using Suc.prems by (simp add: upt_conv_Cons)
  obtain t1 t2 where clk: "clk i = (t1, t2)" by (cases "clk i")
  show ?case
  proof (cases "stops isi c (out i)")
    case True
    then show ?thesis using Suc.prems plain
      by (cases "(isi, c, out i)" rule: stops.cases)
         (auto simp: upt clk retry_spec_stop finish_def)
  next
    case False
    then obtain e where e: "out i = Inl e" "is_retryable isi e c" "\<forall>k. e \<noteq> PyBaseException k"
      by (cases "(isi, c, out i)" rule: stops.cases) auto
    show ?thesis
    proof (cases "Suc i < ?n")
      case True
      then have IH: "retry_loop isi c (\<lambda>a s. (out a, s)) clk u (\<lambda>_ s. s) [Suc i..<?n] (Some e) bs =
          (fst (retry_spec isi c out u (Suc i)), bs, snd (retry_spec isi c out u (Suc i)))"
        using Suc.hyps by auto
      have lt: "int i < max_attempts c - 1" using True by linarith
      show ?thesis using e lt plain IH True False
        by (cases e) (auto simp: upt clk retry_spec_next Let_def split: prod.splits)
    next
      case last: False
      then have "Suc i = ?n" "\<not> int i < max_attempts c - 1" using Suc.prems by linarith+
      then show ?thesis using e plain False
        by (cases e) (auto simp: upt clk retry_spec_last)
    qed
  qed
qed

subsection \<open>The loop and its breaker\<close>

lemma get_record_failure:
  "dict_get (record_circuit_breaker t1 t2 n False bs) n =
     Some (failure t1 t2 (fst (get_breaker n 5 30 2 bs)))"
  by (simp add: record_circuit_breaker_def split: prod.splits)

lemma fst_get_breaker: "dict_get bs n = Some b \<Longrightarrow> fst (get_breaker n t c h bs) = b"
  by (simp add: get_breaker_def)

lemma retry_loop_feeds_breaker:
  assumes g: "circuit_breaker_name c = Some nm" "nm \<noteq> []" and plain: "on_retry c = None"
    and retr: "is_retryable isi (PyException k m) c"
  shows "i < nat (max_attempts c) \<Longrightarrow>
    dict_get (fst (snd (retry_loop isi c (\<lambda>a s. (Inl (PyException k m) :: exn + 'r, s)) clk u
        (\<lambda>_ s. s) [i..<nat (max_attempts c)] le bs))) nm =
      Some (fail_run (fst (get_breaker nm 5 30 2 bs)) (map clk [i..<nat (max_attempts c)]))"
proof (induction "nat (max_attempts c) - i" arbitrary: i le bs)
  case 0
  then show ?case by simp
next
  case (Suc d)
  let ?n = "nat (max_attempts c)"
  have upt: "[i..<?n] = i # [Suc i..<?n]" using Suc.prems by (simp add: upt_conv_Cons)
  obtain t1 t2 where clk: "clk i = (t1, t2)" by (cases "clk i")
  have gd: "guarded c" using g by (simp add: truthy_str_def)
  let ?bs = "record_circuit_breaker t1 t2 nm False bs"
  show ?case
  proof (cases "Suc i < ?n")
    case True
    then have lt: "int i < max_attempts c - 1" by linarith
    have "dict_get (fst (snd (retry_loop isi c (\<lambda>a s. (Inl (PyException k m) :: exn + 'r, s)) clk u
        (\<lambda>_ s. s) [Suc i..<?n] (Some (PyException k m)) ?bs))) nm =
      Some (fail_run (fst (get_breaker nm 5 30 2 ?bs)) (map clk [Suc i..<?n]))"
      using Suc.hyps True by auto
    then show ?thesis using lt gd g plain retr
      by (auto simp: upt clk Let_def get_record_failure fst_get_breaker split: prod.splits)
  next
    case False
    then have "[Suc i..<?n] = []" and "\<not> int i < max_attempts c - 1"
      using Suc.prems by (simp, linarith)
    then show ?thesis using gd g plain retr
      by (simp add: upt clk get_record_failure)
  qed
qed

subsection \<open>Properties\<close>

text \<open>
  C27. Without a breaker and a callback, \<^verbatim>\<open>sync_retry\<close> with at least one attempt allowed computes
  exactly its specification: attempts are made in order until the first one that returns, raises a
  non-retryable exception or is interrupted, and that outcome is the result; if all allowed
  attempts raise retryable exceptions, \<^verbatim>\<open>RetryExhaustedError\<close> carries the last of them. Between
  attempts it sleeps the computed delays, and only those.
\<close>
theorem sync_retry_refines_spec:
  assumes "\<not> guarded c" and "on_retry c = None" and "1 \<le> max_attempts c"
  shows "sync_retry isi now (Some c) (\<lambda>a s. (out a, s)) clk u bs =
    (fst (retry_spec isi c out u 0), bs, snd (retry_spec isi c out u 0))"
  using retry_loop_spec [of c 0 isi out clk u None bs] assms
  by (simp add: sync_retry_def preflight_def)

definition flaky :: "nat \<Rightarrow> exn + int" where
  "flaky a = (if a < 2 then Inl (PyException ''ConnectionError'' []) else Inr 42)"

theorem sync_retry_refines_spec_witness:
  "sync_retry (\<lambda>_ _. False) 0 (Some default_config) (\<lambda>a s. (flaky a, s)) (\<lambda>_. (0, 0)) (\<lambda>_. 1) [] =
    (Inr 42, [], [1, 2])"
proof -
  have "find (\<lambda>a. stops (\<lambda>_ _. False) default_config (flaky a)) [0..<3] = Some 2"
    by (simp add: upt_rec flaky_def default_config_def is_retryable_def)
  then have "retry_spec (\<lambda>_ _. False) default_config flaky (\<lambda>_. 1) 0 = (Inr 42, [1, 2])"
    by (simp add: retry_spec_def default_config_def finish_def flaky_def upt_rec compute_delay_def)
  then show ?thesis
    using sync_retry_refines_spec
      [of default_config "\<lambda>_ _. False" 0 flaky "\<lambda>_. (0, 0)" "\<lambda>_. 1" "[]"]
    by (simp add: default_config_def truthy_str_def)
qed

text \<open>
  Whatever the callable, the breaker and the concurrent tasks do, \<^verbatim>\<open>async_retry\<close> with
  non-negative delays and jitter draws from \<^verbatim>\<open>[0.75, 1.25]\<close> sleeps fewer times than it has
  attempts, and every sleep lasts between 0 and 1.25 times the configured maximum.
\<close>
theorem async_retry_sleeps_bounded:
  assumes "async_retry isi now (Some c) fn clk u oth bs = (r, bs', sleeps)"
    and "1 \<le> max_attempts c" and "0 \<le> base_delay c" and "0 \<le> max_delay c"
    and "\<And>a. 3/4 \<le> u a \<and> u a \<le> 5/4"
  shows "int (length sleeps) < max_attempts c \<and>
         (\<forall>d \<in> set sleeps. 0 \<le> d \<and> d \<le> 5/4 * max_delay c)"
proof (cases "fst (preflight now c bs)")
  case (Some e)
  then show ?thesis using assms(1,2) by (auto simp: async_retry_def split: prod.splits)
next
  case None
  let ?xs = "[0..<nat (max_attempts c)]"
  from None assms(1) obtain bs1
    where "retry_loop isi c fn clk u oth ?xs None bs1 = (r, bs', sleeps)"
    by (auto simp: async_retry_def split: prod.splits)
  from retry_loop_sleeps [OF this] obtain k where
    k: "sleeps = map (\<lambda>a. compute_delay (u a) a c) (take k ?xs)"
    "?xs \<noteq> [] \<longrightarrow> int (last ?xs) \<ge> max_attempts c - 1 \<longrightarrow> k < length ?xs" by blast
  have "k < length ?xs" using k(2) assms(2) by (simp add: last_upt)
  then have "int (length sleeps) < max_attempts c" using k(1) assms(2) by simp
  moreover have "\<forall>d \<in> set sleeps. 0 \<le> d \<and> d \<le> 5/4 * max_delay c"
    using k(1) compute_delay_bounds [of c] assms by auto
  ultimately show ?thesis by blast
qed

theorem async_retry_sleeps_bounded_witness:
  "\<exists>sleeps. async_retry (\<lambda>_ _. False) 0 (Some default_config) (\<lambda>a s. (flaky a, s)) (\<lambda>_. (0, 0))
      (\<lambda>_. 1) (\<lambda>_ s. s) [] = (Inr 42, [], sleeps) \<and>
    int (length sleeps) < 3 \<and> list_all (\<lambda>d. 0 \<le> d \<and> d \<le> 75) sleeps"
proof -
  have run: "async_retry (\<lambda>_ _. False) 0 (Some default_config) (\<lambda>a s. (flaky a, s)) (\<lambda>_. (0, 0))
      (\<lambda>_. 1) (\<lambda>_ s. s) [] = (Inr 42, [], [1, 2])"
    by (simp add: async_retry_def preflight_def truthy_str_def default_config_def upt_rec flaky_def
        is_retryable_def compute_delay_def)
  from async_retry_sleeps_bounded [OF run] run show ?thesis
    by (intro exI [of _ "[1, 2]"]) (simp add: default_config_def)
qed

text \<open>
  When the named breaker is open and still cooling down, neither retry function calls the
  callable at all: the \<^verbatim>\<open>CircuitBreakerOpenError\<close> is raised at once, whatever the callable.
\<close>
theorem retry_respects_open_breaker:
  assumes "circuit_breaker_name c = Some nm" and "nm \<noteq> []" and "dict_get bs nm = Some b"
    and "cb_state b = OPEN" and "now - opened_at b < cooldown_seconds b"
  shows "\<exists>e bs'. preflight now c bs = (Some e, bs') \<and> dict_get bs' nm = Some b \<and>
    (\<forall>fn clk u. sync_retry isi now (Some c) fn clk u bs = (Inl (Propagated e), bs', [])) \<and>
    (\<forall>fn clk u oth. async_retry isi now (Some c) fn clk u oth bs = (Inl (Propagated e), bs', []))"
  using assms
  by (simp add: sync_retry_def async_retry_def preflight_def truthy_str_def get_breaker_def
      read_state_def maybe_transition_cases)

definition open_registry :: breakers where
  "open_registry = [(''qdrant'', fail_run (init_breaker ''qdrant'' 1 30 2) [(0, 0)])]"

theorem retry_respects_open_breaker_witness:
  "\<exists>e bs'. preflight 5 (default_config\<lparr>circuit_breaker_name := Some ''qdrant''\<rparr>) open_registry =
      (Some e, bs') \<and>
    (\<forall>fn clk u. sync_retry (\<lambda>_ _. False) 5 (Some (default_config\<lparr>circuit_breaker_name := Some ''qdrant''\<rparr>))
       (fn :: nat \<Rightarrow> breakers \<Rightarrow> (exn + int) \<times> breakers) clk u open_registry =
         (Inl (Propagated e), bs', []))"
  using retry_respects_open_breaker
    [of "default_config\<lparr>circuit_breaker_name := Some ''qdrant''\<rparr>" "''qdrant''" open_registry
        "fail_run (init_breaker ''qdrant'' 1 30 2) [(0, 0)]" 5 "\<lambda>_ _. False"]
  by (auto simp: open_registry_def failure_def init_breaker_def transition_def)

text \<open>
  A guarded \<^verbatim>\<open>sync_retry\<close> that fails retryably on all its attempts records every one of them:
  the breaker it creates under the configured name has been through exactly that many failures, so
  with the registry's default threshold it ends up open if and only if at least five attempts were
  allowed.
\<close>
theorem exhausted_retry_opens_breaker:
  assumes "circuit_breaker_name c = Some nm" and "nm \<noteq> []" and "on_retry c = None"
    and "is_retryable isi (PyException k m) c" and "1 \<le> max_attempts c" and "dict_get bs nm = None"
  shows "\<exists>b. dict_get (fst (snd (sync_retry isi now (Some c)
                (\<lambda>a s. (Inl (PyException k m) :: exn + 'r, s)) clk u bs))) nm = Some b \<and>
             (cb_state b = OPEN \<longleftrightarrow> 5 \<le> max_attempts c)"
proof -
  let ?n = "nat (max_attempts c)" and ?b0 = "init_breaker nm 5 30 2"
  obtain bs1 where pre: "preflight now c bs = (None, bs1)" and reg: "dict_get bs1 nm = Some ?b0"
    using assms by (simp add: preflight_def truthy_str_def get_breaker_def read_state_def
        maybe_transition_cases init_breaker_def Let_def)
  have "dict_get (fst (snd (sync_retry isi now (Some c)
      (\<lambda>a s. (Inl (PyException k m) :: exn + 'r, s)) clk u bs))) nm =
      Some (fail_run ?b0 (map clk [0..<?n]))"
    using retry_loop_feeds_breaker [OF assms(1-4), of 0 clk u None bs1] assms(5) pre
    by (simp add: sync_retry_def fst_get_breaker [OF reg])
  moreover have "cb_state (fail_run ?b0 (map clk [0..<?n])) = OPEN \<longleftrightarrow> 5 \<le> max_attempts c"
    using fail_run_short [of "map clk [0..<?n]" 5 nm 30 2]
      fail_run_long [of 5 "map clk [0..<?n]" nm 30 2] assms(5) by (cases "max_attempts c < 5") auto
  ultimately show ?thesis by blast
qed

theorem exhausted_retry_opens_breaker_witness:
  "\<exists>b. dict_get (fst (snd (sync_retry (\<lambda>_ _. False) 0
          (Some (default_config\<lparr>circuit_breaker_name := Some ''neo4j''\<rparr>))
          (\<lambda>a s. (Inl (PyException ''OSError'' []) :: exn + int, s)) (\<lambda>a. (real a, real a)) (\<lambda>_. 1) []))) ''neo4j''
        = Some b \<and> (cb_state b = OPEN \<longleftrightarrow> 5 \<le> (3::int))"
  using exhausted_retry_opens_breaker
    [of "default_config\<lparr>circuit_breaker_name := Some ''neo4j''\<rparr>" "''neo4j''" "\<lambda>_ _. False"
        "''OSError''" "[]" "[]" 0 "\<lambda>a. (real a, real a)" "\<lambda>_. 1"]
  by (simp add: default_config_def is_retryable_def)

end
