(* ===== verification/Rate_Limiter.thy ===== *)
theory Rate_Limiter
  imports Prelude
begin

text \<open>
  The token-bucket rate limiter of \<^verbatim>\<open>proxy/app/shared/rate_limiter.py\<close>: the bucket, the limiter
  with one bucket per key, the cleanup of idle buckets, and the middleware that derives the key
  from the request and answers 429. Readings of \<^verbatim>\<open>time.monotonic()\<close> are arguments. Header values
  are byte strings (Starlette decodes them as Latin-1). The asyncio lock only serialises the
  dictionary accesses, which are single steps here.
\<close>

subsection \<open>Data and operations\<close>

record bucket =
  rate :: real
  burst :: int
  tokens :: real
  last_refill :: real

definition init_bucket :: "real \<Rightarrow> real \<Rightarrow> int \<Rightarrow> bucket" where
  "init_bucket now r b = \<lparr>rate = r, burst = b, tokens = real_of_int b, last_refill = now\<rparr>"

definition refill :: "real \<Rightarrow> bucket \<Rightarrow> bucket" where
  "refill now b =
     (let elapsed = now - last_refill b in
      b\<lparr>tokens := min (real_of_int (burst b)) (tokens b + elapsed * rate b), last_refill := now\<rparr>)"

definition consume :: "real \<Rightarrow> int \<Rightarrow> bucket \<Rightarrow> (exn + bool \<times> real) \<times> bucket" where
  "consume now n b =
     (let b' = refill now b in
      if tokens b' \<ge> real_of_int n
      then (Inr (True, 0), b'\<lparr>tokens := tokens b' - real_of_int n\<rparr>)
      else if rate b' = 0 then (Inl ZeroDivisionError, b')
      else (let wait = (real_of_int n - tokens b') / rate b' in (Inr (False, wait), b')))"

record limiter =
  rate_per_minute :: int
  limiter_burst :: int
  buckets :: "(string, bucket) dict"

definition init_limiter :: "int \<Rightarrow> int \<Rightarrow> limiter" where
  "init_limiter rpm b = \<lparr>rate_per_minute = rpm, limiter_burst = b, buckets = []\<rparr>"

definition rate_per_second :: "limiter \<Rightarrow> real" where
  "rate_per_second l = real_of_int (rate_per_minute l) / 60"

definition get_bucket :: "real \<Rightarrow> string \<Rightarrow> limiter \<Rightarrow> bucket \<times> limiter" where
  "get_bucket now key l =
     (case dict_get (buckets l) key of
        Some b \<Rightarrow> (b, l)
      | None \<Rightarrow> (let b = init_bucket now (rate_per_second l) (limiter_burst l)
                 in (b, l\<lparr>buckets := dict_set key b (buckets l)\<rparr>)))"

definition is_allowed :: "real \<Rightarrow> real \<Rightarrow> string \<Rightarrow> limiter \<Rightarrow> (exn + bool \<times> real) \<times> limiter" where
  "is_allowed t1 t2 key l =
     (let (b, l') = get_bucket t1 key l; (r, b') = consume t2 1 b
      in (r, l'\<lparr>buckets := dict_set key b' (buckets l')\<rparr>))"

definition cleanup_expired :: "real \<Rightarrow> real \<Rightarrow> limiter \<Rightarrow> limiter" where
  "cleanup_expired now max_age l =
     (let expired = map fst (filter (\<lambda>(k, b). now - last_refill b > max_age) (buckets l))
      in l\<lparr>buckets := foldl (\<lambda>d k. dict_del k d) (buckets l) expired\<rparr>)"

definition init_rate_limiter :: "int \<Rightarrow> int \<Rightarrow> limiter option \<Rightarrow> limiter \<times> limiter option" where
  "init_rate_limiter rpm b g = (let l = init_limiter rpm b in (l, Some l))"

record request =
  authorization :: "string option"
  x_forwarded_for :: "string option"
  client_host :: "string option"

definition extract_key :: "int \<Rightarrow> request \<Rightarrow> string" where
  "extract_key trusted_proxy_count req =
     (let auth_header = (case authorization req of None \<Rightarrow> [] | Some h \<Rightarrow> h) in
      if starts_with ''Bearer '' auth_header then ''apikey:'' @ drop 7 auth_header
      else
        (let host = (case client_host req of None \<Rightarrow> ''unknown'' | Some h \<Rightarrow> h);
             host' = (case x_forwarded_for req of
                        None \<Rightarrow> host
                      | Some xf \<Rightarrow>
                          (if xf \<noteq> [] \<and> trusted_proxy_count > 0 then
                             (let ips = map strip (split_on (CHR '','') xf);
                                  idx = int (length ips) - trusted_proxy_count
                              in if idx \<ge> 0 then ips ! nat idx else host)
                           else host))
         in ''ip:'' @ host'))"

datatype 'a response = TooManyRequests int | Passed 'a

definition dispatch ::
  "int \<Rightarrow> real \<Rightarrow> real \<Rightarrow> (request \<Rightarrow> 'a) \<Rightarrow> request \<Rightarrow> limiter \<Rightarrow> (exn + 'a response) \<times> limiter" where
  "dispatch tpc t1 t2 call_next req l =
     (let key = extract_key tpc req; (r, l') = is_allowed t1 t2 key l in
      case r of
        Inl e \<Rightarrow> (Inl e, l')
      | Inr (allowed, retry_after) \<Rightarrow>
          (if \<not> allowed
           then (let retry_seconds = max 1 (\<lfloor>retry_after\<rfloor> + 1) in (Inr (TooManyRequests retry_seconds), l'))
           else (Inr (Passed (call_next req)), l')))"

subsection \<open>Buckets\<close>

definition bucket_wf :: "bucket \<Rightarrow> bool" where
  "bucket_wf b \<longleftrightarrow> 0 < rate b \<and> 0 \<le> burst b \<and> 0 \<le> tokens b \<and> tokens b \<le> real_of_int (burst b)"

lemma bucket_wf_init: "0 < r \<Longrightarrow> 0 \<le> n \<Longrightarrow> bucket_wf (init_bucket now r n)"
  by (simp add: bucket_wf_def init_bucket_def)

lemma consume_frame [simp]:
  "rate (snd (consume t n b)) = rate b" "burst (snd (consume t n b)) = burst b"
  "last_refill (snd (consume t n b)) = t"
  by (simp_all add: consume_def refill_def Let_def)

lemma consume_wf:
  assumes "bucket_wf b" and "last_refill b \<le> t" and "0 \<le> n"
  shows "bucket_wf (snd (consume t n b))"
proof -
  have "0 \<le> (t - last_refill b) * rate b" using assms by (simp add: bucket_wf_def)
  then show ?thesis using assms by (auto simp: bucket_wf_def consume_def refill_def Let_def)
qed

lemma consume_cost:
  assumes "bucket_wf b" and "last_refill b \<le> t"
  shows "(if fst (consume t 1 b) = Inr (True, 0) then 1 else 0) + tokens (snd (consume t 1 b))
           \<le> tokens b + rate b * (t - last_refill b)"
  using assms by (auto simp: consume_def refill_def Let_def min_def bucket_wf_def field_simps)

lemma consume_never_raises: "0 < rate b \<Longrightarrow> fst (consume t n b) \<noteq> Inl e"
  by (simp add: consume_def refill_def Let_def)

lemma consume_after_wait:
  assumes wf: "bucket_wf b" and lr: "last_refill b \<le> t" and b1: "1 \<le> burst b"
    and denied: "consume t 1 b = (Inr (False, w), b')" and later: "t + w \<le> t'"
  shows "fst (consume t' 1 b') = Inr (True, 0)"
proof -
  have r: "0 < rate b" using wf by (simp add: bucket_wf_def)
  have b': "b' = refill t b" and w: "w = (1 - tokens b') / rate b" and low: "tokens b' < 1"
    using denied by (auto simp: consume_def Let_def refill_def split: if_splits)
  have "rate b * w = 1 - tokens b'" using w r by simp
  moreover have "rate b * w \<le> rate b * (t' - t)" using r later by (intro mult_left_mono) auto
  ultimately have "1 \<le> tokens b' + (t' - t) * rate b" by (simp add: mult.commute)
  moreover have "last_refill b' = t" "rate b' = rate b" "burst b' = burst b"
    by (simp_all add: b' refill_def Let_def)
  ultimately show ?thesis using b1 by (simp add: consume_def refill_def Let_def)
qed

subsection \<open>Requests of one key among those of others\<close>

fun served :: "string \<Rightarrow> limiter \<Rightarrow> (real \<times> string) list \<Rightarrow> nat" where
  \<comment> \<open>how many of a list of timed requests with key \<open>k\<close> the limiter lets through\<close>
  "served k l [] = 0"
| "served k l ((t, k') # es) =
     (let (r, l') = is_allowed t t k' l in
      (if k' = k \<and> r = Inr (True, 0) then 1 else 0) + served k l' es)"

declare served.simps(2) [simp del]

lemma served_Cons [simp]:
  "served k l ((t, k') # es) =
     (if k' = k \<and> fst (is_allowed t t k' l) = Inr (True, 0) then 1 else 0) +
     served k (snd (is_allowed t t k' l)) es"
  by (simp add: served.simps split: prod.splits)

lemma is_allowed_frame [simp]:
  "rate_per_minute (snd (is_allowed t1 t2 k l)) = rate_per_minute l"
  "limiter_burst (snd (is_allowed t1 t2 k l)) = limiter_burst l"
  by (auto simp: is_allowed_def get_bucket_def Let_def split: option.splits prod.splits)

lemma is_allowed_other:
  "k' \<noteq> k \<Longrightarrow> dict_get (buckets (snd (is_allowed t1 t2 k' l))) k = dict_get (buckets l) k"
  by (auto simp: is_allowed_def get_bucket_def Let_def split: option.splits prod.splits)

lemma is_allowed_known:
  "dict_get (buckets l) k = Some b \<Longrightarrow>
   fst (is_allowed t1 t2 k l) = fst (consume t2 1 b) \<and>
   dict_get (buckets (snd (is_allowed t1 t2 k l))) k = Some (snd (consume t2 1 b))"
  by (auto simp: is_allowed_def get_bucket_def split: prod.splits)

lemma is_allowed_new:
  "dict_get (buckets l) k = None \<Longrightarrow>
   let b = init_bucket t1 (rate_per_second l) (limiter_burst l) in
   fst (is_allowed t1 t2 k l) = fst (consume t2 1 b) \<and>
   dict_get (buckets (snd (is_allowed t1 t2 k l))) k = Some (snd (consume t2 1 b))"
  by (auto simp: is_allowed_def get_bucket_def Let_def split: prod.splits)

lemma last_times_mono: "sorted (t0 # ts) \<Longrightarrow> (t0::real) \<le> last (t0 # ts)"
  by (cases ts rule: rev_cases) (auto simp: sorted_append)

lemma served_known:
  "dict_get (buckets l) k = Some b \<Longrightarrow> bucket_wf b \<Longrightarrow> sorted (last_refill b # map fst es) \<Longrightarrow>
   real (served k l es) \<le> tokens b + rate b * (last (last_refill b # map fst es) - last_refill b)"
proof (induction es arbitrary: l b)
  case Nil
  then show ?case by (simp add: bucket_wf_def)
next
  case (Cons e es)
  obtain t k' where e: "e = (t, k')" by (cases e)
  let ?l = "snd (is_allowed t t k' l)" and ?T = "last (t # map fst es)"
  have srt: "last_refill b \<le> t" "sorted (t # map fst es)" using Cons.prems(3) e by auto
  have r0: "0 < rate b" using Cons.prems(2) by (simp add: bucket_wf_def)
  show ?case
  proof (cases "k' = k")
    case True
    let ?b = "snd (consume t 1 b)"
    have "real (served k ?l es) \<le> tokens ?b + rate b * (?T - t)"
      using Cons.IH [of ?l ?b] is_allowed_known [OF Cons.prems(1), of t t] True srt
        consume_wf [OF Cons.prems(2) srt(1), of 1] by simp
    moreover have "(if fst (consume t 1 b) = Inr (True, 0) then 1 else 0) + tokens ?b
        \<le> tokens b + rate b * (t - last_refill b)"
      using consume_cost [OF Cons.prems(2) srt(1)] .
    ultimately show ?thesis
      using is_allowed_known [OF Cons.prems(1), of t t] True e
      by (auto simp: algebra_simps)
  next
    case False
    have "sorted (last_refill b # map fst es)" using Cons.prems(3) e by auto
    then have "real (served k ?l es)
        \<le> tokens b + rate b * (last (last_refill b # map fst es) - last_refill b)"
      using Cons.IH [of ?l b] Cons.prems(1,2) is_allowed_other [OF False] by simp
    moreover have "last (last_refill b # map fst es) \<le> ?T" using srt by (cases es) auto
    then have "rate b * (last (last_refill b # map fst es) - last_refill b)
        \<le> rate b * (?T - last_refill b)"
      using r0 by simp
    ultimately show ?thesis using False e by simp
  qed
qed

lemma consume_capped:
  "(if fst (consume t 1 b) = Inr (True, 0) then 1 else 0) + tokens (snd (consume t 1 b)) \<le> real_of_int (burst b)"
  by (auto simp: consume_def refill_def Let_def)

fun limiter_run :: "limiter \<Rightarrow> (real \<times> string) list \<Rightarrow> limiter" where
  \<comment> \<open>the limiter after a list of timed requests\<close>
  "limiter_run l [] = l"
| "limiter_run l ((t, k) # es) = limiter_run (snd (is_allowed t t k l)) es"

definition limiter_ok :: "string \<Rightarrow> real \<Rightarrow> limiter \<Rightarrow> bool" where
  \<comment> \<open>the configuration is sensible, and the bucket of the key is a bucket of the limiter that was last refilled by the time\<close>
  "limiter_ok k T l \<longleftrightarrow> 0 < rate_per_second l \<and> 0 \<le> limiter_burst l \<and>
     (case dict_get (buckets l) k of
        None \<Rightarrow> True
      | Some b \<Rightarrow> bucket_wf b \<and> rate b = rate_per_second l \<and> burst b = limiter_burst l \<and> last_refill b \<le> T)"

lemma limiter_ok_later: "limiter_ok k T l \<Longrightarrow> T \<le> T' \<Longrightarrow> limiter_ok k T' l"
  by (auto simp: limiter_ok_def split: option.splits)

lemma is_allowed_same:
  assumes "limiter_ok k T l" and "T \<le> t"
  obtains b where "bucket_wf b" and "rate b = rate_per_second l" and "burst b = limiter_burst l" and "last_refill b \<le> t"
    and "fst (is_allowed t t k l) = fst (consume t 1 b)"
    and "dict_get (buckets (snd (is_allowed t t k l))) k = Some (snd (consume t 1 b))"
proof (cases "dict_get (buckets l) k")
  case None
  let ?b = "init_bucket t (rate_per_second l) (limiter_burst l)"
  have "bucket_wf ?b" using assms(1) by (auto simp: limiter_ok_def intro: bucket_wf_init)
  with is_allowed_new [OF None, of t t] show ?thesis by (intro that [of ?b]) (simp_all add: init_bucket_def Let_def)
next
  case (Some b)
  with assms is_allowed_known [OF Some, of t t] show ?thesis by (intro that [of b]) (auto simp: limiter_ok_def)
qed

lemma is_allowed_ok:
  assumes "limiter_ok k T l" and "T \<le> t"
  shows "limiter_ok k t (snd (is_allowed t t k' l))"
proof (cases "k' = k")
  case True
  from is_allowed_same [OF assms] obtain b where b: "bucket_wf b" "rate b = rate_per_second l" "burst b = limiter_burst l"
    "last_refill b \<le> t" "dict_get (buckets (snd (is_allowed t t k l))) k = Some (snd (consume t 1 b))" by blast
  with consume_wf [OF b(1,4), of 1] assms(1) True show ?thesis by (simp add: limiter_ok_def rate_per_second_def)
next
  case False
  have "rate_per_second (snd (is_allowed t t k' l)) = rate_per_second l" "limiter_burst (snd (is_allowed t t k' l)) = limiter_burst l"
    by (simp_all add: rate_per_second_def)
  with limiter_ok_later [OF assms] is_allowed_other [OF False, of t t l] show ?thesis
    unfolding limiter_ok_def by (simp only:)
qed

lemma limiter_run_ok:
  "limiter_ok k T l \<Longrightarrow> sorted (T # map fst es) \<Longrightarrow> T' \<ge> last (T # map fst es) \<Longrightarrow> limiter_ok k T' (limiter_run l es)"
proof (induction es arbitrary: T l)
  case (Cons e es)
  obtain t k' where e: "e = (t, k')" by (cases e)
  have "limiter_ok k t (snd (is_allowed t t k' l))" using Cons.prems(1,2) e by (intro is_allowed_ok) auto
  from Cons.IH [OF this] Cons.prems(2,3) e show ?case by simp
qed (auto intro: limiter_ok_later)

lemma limiter_run_frame:
  "rate_per_second (limiter_run l es) = rate_per_second l \<and> limiter_burst (limiter_run l es) = limiter_burst l"
  by (induction l es rule: limiter_run.induct) (auto simp: rate_per_second_def)

lemma sorted_start:
  assumes "sorted (ts @ t1 # us)"
  shows "sorted (hd (ts @ [t1]) # ts) \<and> last (hd (ts @ [t1]) # ts) \<le> (t1 :: real)"
proof (cases ts)
  case (Cons a as)
  have "last ts \<in> set ts" using Cons by simp
  then have "last ts \<le> t1" using assms by (simp add: sorted_append)
  with assms Cons show ?thesis by (simp add: sorted_append)
qed simp

lemma served_window:
  "limiter_ok k t0 l \<Longrightarrow> sorted (t0 # map fst es) \<Longrightarrow>
   real (served k l es) \<le> real_of_int (limiter_burst l) + rate_per_second l * (last (t0 # map fst es) - t0)"
proof (induction es arbitrary: l t0)
  case Nil
  then show ?case by (simp add: limiter_ok_def)
next
  case (Cons e es)
  obtain t k' where e: "e = (t, k')" by (cases e)
  let ?l = "snd (is_allowed t t k' l)" and ?T = "last (t # map fst es)"
  have srt: "t0 \<le> t" "sorted (t # map fst es)" using Cons.prems(2) e by auto
  have rps: "0 < rate_per_second l" using Cons.prems(1) by (simp add: limiter_ok_def)
  have frame: "rate_per_second ?l = rate_per_second l" "limiter_burst ?l = limiter_burst l" by (simp_all add: rate_per_second_def)
  have less: "rate_per_second l * (?T - t) \<le> rate_per_second l * (?T - t0)" using srt(1) rps by simp
  show ?case
  proof (cases "k' = k")
    case True
    from is_allowed_same [OF Cons.prems(1) srt(1)] obtain b where b: "bucket_wf b" "rate b = rate_per_second l"
      "burst b = limiter_burst l" "last_refill b \<le> t" "fst (is_allowed t t k l) = fst (consume t 1 b)"
      "dict_get (buckets (snd (is_allowed t t k l))) k = Some (snd (consume t 1 b))" by blast
    have "real (served k ?l es) \<le> tokens (snd (consume t 1 b)) + rate_per_second l * (?T - t)"
      using served_known [of ?l k "snd (consume t 1 b)" es] b True srt(2) consume_wf [OF b(1,4), of 1] by simp
    moreover have "(if fst (is_allowed t t k l) = Inr (True, 0) then 1 else 0) + tokens (snd (consume t 1 b))
        \<le> real_of_int (limiter_burst l)"
      using consume_capped [of t b] b(3,5) by simp
    ultimately show ?thesis using True e less by auto
  next
    case False
    have "real (served k ?l es) \<le> real_of_int (limiter_burst l) + rate_per_second l * (?T - t)"
      using Cons.IH [OF is_allowed_ok [OF Cons.prems(1) srt(1)] srt(2), of k'] by (simp only: frame)
    with False e less show ?thesis by simp
  qed
qed

subsection \<open>Cleanup\<close>

lemma get_dict_dels:
  "dict_get (foldl (\<lambda>d k. dict_del k d) d ks) k' = (if k' \<in> set ks then None else dict_get d k')"
  by (induction ks arbitrary: d) auto

lemma cleanup_get:
  assumes "dict_ok (buckets l)"
  shows "dict_get (buckets (cleanup_expired now age l)) k =
    (case dict_get (buckets l) k of
       None \<Rightarrow> None
     | Some b \<Rightarrow> if now - last_refill b > age then None else Some b)"
proof -
  have "k \<in> set (map fst (filter (\<lambda>(k, b). now - last_refill b > age) (buckets l))) \<longleftrightarrow>
      (\<exists>b. dict_get (buckets l) k = Some b \<and> now - last_refill b > age)"
    unfolding dict_ok_get_iff [OF assms] by force
  then show ?thesis
    by (auto simp: cleanup_expired_def get_dict_dels split: option.splits)
qed

lemma refill_full:
  assumes wf: "bucket_wf b" and old: "now - last_refill b > age" and "now \<le> t"
    and enough: "real_of_int (burst b) \<le> rate b * age"
  shows "refill t b = b\<lparr>tokens := real_of_int (burst b), last_refill := t\<rparr>"
proof -
  have "rate b * age \<le> rate b * (t - last_refill b)"
    using wf old assms(3) by (intro mult_left_mono) (auto simp: bucket_wf_def)
  moreover have "0 \<le> tokens b" using wf by (simp add: bucket_wf_def)
  ultimately have "real_of_int (burst b) \<le> tokens b + (t - last_refill b) * rate b"
    using enough by (subst mult.commute) linarith
  then show ?thesis by (simp add: refill_def Let_def)
qed

subsection \<open>Properties\<close>

text \<open>
  C11. The limit holds for every key and in every window, whatever other keys are used meanwhile: after any history of
  requests, all at times in order and with a positive rate configured, of the requests with one key that arrive between two times
  the limiter lets through at most the burst size plus the configured rate times the time between them. However long the
  key was idle before, no more than the burst has been saved up.
\<close>
theorem rate_limit_enforced:
  assumes "0 < rpm" and "0 \<le> b" and "sorted (map fst past @ t1 # map fst es @ [t2])"
  shows "real (served k (limiter_run (init_limiter rpm b) past) es) \<le> real_of_int b + real_of_int rpm / 60 * (t2 - t1)"
proof -
  let ?l = "init_limiter rpm b" and ?T = "hd (map fst past @ [t1])"
  have "limiter_ok k ?T ?l" using assms(1,2) by (simp add: limiter_ok_def init_limiter_def rate_per_second_def)
  moreover note sorted_start [OF assms(3)]
  ultimately have ok: "limiter_ok k t1 (limiter_run ?l past)" by (blast intro: limiter_run_ok)
  have srt: "sorted (t1 # map fst es)" using assms(3) by (simp add: sorted_append)
  have T: "last (t1 # map fst es) \<le> t2"
  proof -
    have "\<forall>x \<in> set (t1 # map fst es). x \<le> t2" using assms(3) by (auto simp: sorted_append)
    then show ?thesis using last_in_set [of "t1 # map fst es"] by blast
  qed
  from served_window [OF ok srt] have "real (served k (limiter_run ?l past) es) \<le>
      real_of_int b + real_of_int rpm / 60 * (last (t1 # map fst es) - t1)"
    using limiter_run_frame [of ?l past] by (simp add: init_limiter_def rate_per_second_def)
  moreover have "real_of_int rpm / 60 * (last (t1 # map fst es) - t1) \<le> real_of_int rpm / 60 * (t2 - t1)"
    using T assms(1) by (intro mult_left_mono) auto
  ultimately show ?thesis by linarith
qed

theorem rate_limit_enforced_witness:
  "real (served ''ip:a'' (limiter_run (init_limiter 60 1) [(0, ''ip:a'')]) [(90, ''ip:a''), (90, ''ip:b''), (91, ''ip:a'')]) \<le> 2"
  using rate_limit_enforced [of 60 1 "[(0, ''ip:a'')]" 90 "[(90, ''ip:a''), (90, ''ip:b''), (91, ''ip:a'')]" 91 "''ip:a''"]
  by simp

text \<open>
  The \<^verbatim>\<open>Retry-After\<close> answer is honest: when the middleware answers 429 with \<open>s\<close> seconds for a
  key, \<open>s\<close> is at least 1, and if no other request with that key comes in between, the next one,
  \<open>s\<close> seconds later or more, is let through.
\<close>
theorem retry_after_suffices:
  assumes known: "dict_get (buckets l) (extract_key n req) = Some b"
    and wf: "bucket_wf b" and "1 \<le> burst b" and "last_refill b \<le> t2"
    and denied: "dispatch n t1 t2 nxt req l = (Inr (TooManyRequests s), l')"
    and later: "t2 + real_of_int s \<le> t2'"
  shows "1 \<le> s \<and> fst (dispatch n t1' t2' nxt req l') = Inr (Passed (nxt req))"
proof -
  let ?k = "extract_key n req"
  obtain w where cons: "fst (consume t2 1 b) = Inr (False, w)" and s: "s = max 1 (\<lfloor>w\<rfloor> + 1)"
    and l': "l' = snd (is_allowed t1 t2 ?k l)"
    using denied is_allowed_known [OF known, of t1 t2]
    by (auto simp: dispatch_def Let_def split: prod.splits sum.splits if_splits)
  have "t2 + w \<le> t2'" using later s by linarith
  then have "fst (consume t2' 1 (snd (consume t2 1 b))) = Inr (True, 0)"
    using cons assms by (intro consume_after_wait [of b t2 w]) (auto simp: prod_eq_iff)
  moreover have "dict_get (buckets l') ?k = Some (snd (consume t2 1 b))"
    using is_allowed_known [OF known] l' by simp
  ultimately show ?thesis using s is_allowed_known [of l' ?k _ t1' t2']
    by (auto simp: dispatch_def split: prod.splits)
qed

definition sample_request :: request where
  "sample_request = \<lparr>authorization = None, x_forwarded_for = None, client_host = Some ''10.0.0.9''\<rparr>"

definition drained :: limiter where
  "drained = \<lparr>rate_per_minute = 60, limiter_burst = 1,
     buckets = [(''ip:10.0.0.9'', \<lparr>rate = 1, burst = 1, tokens = 0, last_refill = 0\<rparr>)]\<rparr>"

theorem retry_after_suffices_witness:
  "\<exists>l'. dispatch 0 0 0 (\<lambda>_. 200 :: int) sample_request drained = (Inr (TooManyRequests 2), l') \<and>
     fst (dispatch 0 2 2 (\<lambda>_. 200 :: int) sample_request l') = Inr (Passed 200)"
proof -
  have d: "dispatch 0 0 0 (\<lambda>_. 200 :: int) sample_request drained =
      (Inr (TooManyRequests 2), snd (dispatch 0 0 0 (\<lambda>_. 200 :: int) sample_request drained))"
    by (simp add: dispatch_def sample_request_def drained_def extract_key_def starts_with_def
        is_allowed_def get_bucket_def consume_def refill_def Let_def)
  have "fst (dispatch 0 2 2 (\<lambda>_. 200 :: int) sample_request
      (snd (dispatch 0 0 0 (\<lambda>_. 200 :: int) sample_request drained))) = Inr (Passed 200)"
    using retry_after_suffices [OF _ _ _ _ d, of _ 2 2]
    by (simp add: drained_def sample_request_def extract_key_def starts_with_def bucket_wf_def)
  with d show ?thesis by blast
qed

text \<open>
  Dropping idle buckets changes no decision: if in the cleanup age a bucket refills completely
  (as it does with the default age of 300 seconds and the default limits), then every key is
  answered after \<^verbatim>\<open>cleanup_expired\<close> exactly as it would have been without it.
\<close>
theorem cleanup_transparent:
  assumes "dict_ok (buckets l)" and "now \<le> t"
    and wf: "\<And>b. dict_get (buckets l) k = Some b \<Longrightarrow> bucket_wf b \<and> rate b = rate_per_second l \<and>
               burst b = limiter_burst l"
    and "real_of_int (limiter_burst l) \<le> rate_per_second l * age"
  shows "fst (is_allowed t t k (cleanup_expired now age l)) = fst (is_allowed t t k l)"
proof -
  let ?l = "cleanup_expired now age l"
  have fr: "rate_per_second ?l = rate_per_second l" "limiter_burst ?l = limiter_burst l"
    by (simp_all add: cleanup_expired_def rate_per_second_def Let_def)
  have get: "dict_get (buckets ?l) k = (case dict_get (buckets l) k of None \<Rightarrow> None
      | Some b \<Rightarrow> if now - last_refill b > age then None else Some b)"
    using assms(1) by (rule cleanup_get)
  show ?thesis
  proof (cases "dict_get (buckets l) k")
    case None
    then show ?thesis using get fr is_allowed_new [of l k t t] is_allowed_new [of ?l k t t]
      by (simp add: Let_def)
  next
    case (Some b)
    show ?thesis
    proof (cases "now - last_refill b > age")
      case True
      have "refill t b = refill t (init_bucket t (rate_per_second l) (limiter_burst l))"
        using refill_full [OF _ True assms(2)] wf [OF Some] assms(4)
        by (simp add: refill_def init_bucket_def Let_def)
      then have "fst (consume t 1 b) = fst (consume t 1 (init_bucket t (rate_per_second l) (limiter_burst l)))"
        by (simp add: consume_def)
      then show ?thesis using Some True get fr is_allowed_known [OF Some, of t t]
          is_allowed_new [of ?l k t t] by (simp add: Let_def)
    next
      case False
      then show ?thesis using Some get is_allowed_known [OF Some, of t t]
          is_allowed_known [of ?l k b t t] by simp
    qed
  qed
qed

theorem cleanup_transparent_witness:
  "fst (is_allowed 400 400 ''ip:10.0.0.9'' (cleanup_expired 400 300 drained)) =
   fst (is_allowed 400 400 ''ip:10.0.0.9'' drained)"
  by (rule cleanup_transparent)
    (auto simp: drained_def dict_ok_def bucket_wf_def rate_per_second_def)

text \<open>
  A client cannot choose its bucket through \<^verbatim>\<open>X-Forwarded-For\<close>: whatever it puts in front of
  the entries that the trusted proxies append, the key of the request is the same.
\<close>
theorem forwarded_prefix_ignored:
  assumes "0 < n" and "n \<le> int (length (split_on (CHR '','') appended))" and "appended \<noteq> []"
  shows "extract_key n (req\<lparr>x_forwarded_for := Some (spoofed @ CHR '','' # appended)\<rparr>) =
         extract_key n (req\<lparr>x_forwarded_for := Some appended\<rparr>)"
proof -
  let ?p = "map strip (split_on (CHR '','') spoofed)" and ?q = "map strip (split_on (CHR '','') appended)"
  have "(?p @ ?q) ! nat (int (length (?p @ ?q)) - n) = ?q ! nat (int (length ?q) - n)"
    using assms(2) by (intro nth_append_from_end) simp
  then show ?thesis using assms by (simp add: extract_key_def Let_def split_on_append)
qed

theorem forwarded_prefix_ignored_witness:
  "extract_key 1 (sample_request\<lparr>x_forwarded_for := Some ''6.6.6.6,1.2.3.4''\<rparr>) = ''ip:1.2.3.4''"
  using forwarded_prefix_ignored
    [where n = 1 and appended = "''1.2.3.4''" and req = sample_request and spoofed = "''6.6.6.6''"]
  by (simp add: sample_request_def extract_key_def starts_with_def strip_def py_space_def)

end
