(* ===== verification/Access_Control.thy ===== *)
theory Access_Control
  imports Prelude
begin

text \<open>
  Row-level security: \<^verbatim>\<open>proxy/app/shared/access_control.py\<close> (role levels, the payload filters
  pushed down to Qdrant, the filtering of retrieved chunks, the document and source checks), the
  \<^verbatim>\<open>UserContext\<close> of \<^verbatim>\<open>proxy/app/auth/jwt.py\<close>, and the domain layer's own rules
  (\<^verbatim>\<open>proxy/app/domain/entities.py\<close>, \<^verbatim>\<open>services.py\<close> and their adapters in
  \<^verbatim>\<open>core/retrieval.py\<close>). How Qdrant evaluates a field condition is not part of the repository: it
  is the parameter \<open>satisfies\<close> of the theorems that need it.
\<close>

subsection \<open>Users, levels and roles\<close>

record user_context =
  user_id :: string
  username :: string
  roles :: "string list"
  groups :: "string list"
  access_level :: string
  namespace :: string

definition is_admin :: "user_context \<Rightarrow> bool" where
  "is_admin u \<longleftrightarrow> ''admin'' \<in> set (roles u)"

definition is_expert :: "user_context \<Rightarrow> bool" where
  "is_expert u \<longleftrightarrow> ''expert'' \<in> set (roles u)"

definition is_authenticated :: "user_context \<Rightarrow> bool" where
  "is_authenticated u \<longleftrightarrow> user_id u \<noteq> ''anonymous''"

definition effective_namespace :: "user_context \<Rightarrow> string" where
  "effective_namespace u =
     (if namespace u \<noteq> [] then namespace u
      else if groups u \<noteq> [] then hd (groups u) else [])"

definition anonymous :: user_context where
  "anonymous = \<lparr>user_id = ''anonymous'', username = ''anonymous'', roles = [''viewer''],
     groups = [''everyone''], access_level = ''public'', namespace = []\<rparr>"

definition ACCESS_LEVELS :: "string list" where
  "ACCESS_LEVELS = [''public'', ''internal'', ''confidential'', ''restricted'']"

definition access_level_rank :: "string \<Rightarrow> int option" where
  "access_level_rank l =
     map_of (zip ACCESS_LEVELS [0, 1, 2, 3]) l"

definition ROLE_MAX_LEVEL :: "(string, string) dict" where
  "ROLE_MAX_LEVEL = [(''admin'', ''restricted''), (''expert'', ''confidential''),
     (''developer'', ''confidential''), (''viewer'', ''internal''), (''external'', ''public'')]"

definition ROLE_ACCESS :: "(string, string list) dict" where
  "ROLE_ACCESS =
     [(''admin'', [''public'', ''internal'', ''confidential'', ''restricted'']),
      (''expert'', [''public'', ''internal'', ''confidential'']),
      (''developer'', [''public'', ''internal'', ''confidential'']),
      (''viewer'', [''public'', ''internal'']),
      (''external'', [''public''])]"

definition role_allowed_levels :: "user_context \<Rightarrow> string list" where
  "role_allowed_levels u =
     (let allowed = concat (map (\<lambda>r. dict_getd ROLE_ACCESS r []) (roles u));
          allowed = (if allowed = [] then [''public''] else allowed)
      in sort_key (\<lambda>l. case access_level_rank l of None \<Rightarrow> 0 | Some i \<Rightarrow> i) (remdups allowed))"

subsection \<open>Chunks\<close>

record acl =
  acl_level :: "string option"
  acl_groups :: "string list option"
  acl_users :: "string list option"

record chunk =
  chunk_ref :: string
  chunk_top :: acl
  chunk_payload :: acl

definition first_of :: "'a option \<Rightarrow> 'a option \<Rightarrow> 'a \<Rightarrow> 'a" where
  \<comment> \<open>\<^verbatim>\<open>chunk.get(k, chunk.get("payload", {}).get(k, default))\<close>\<close>
  "first_of a b d = (case a of Some x \<Rightarrow> x | None \<Rightarrow> (case b of Some y \<Rightarrow> y | None \<Rightarrow> d))"

abbreviation chunk_level :: "chunk \<Rightarrow> string" where
  "chunk_level c \<equiv> first_of (acl_level (chunk_top c)) (acl_level (chunk_payload c)) ''public''"

abbreviation chunk_groups :: "chunk \<Rightarrow> string list" where
  "chunk_groups c \<equiv> first_of (acl_groups (chunk_top c)) (acl_groups (chunk_payload c)) []"

abbreviation chunk_users :: "chunk \<Rightarrow> string list" where
  "chunk_users c \<equiv> first_of (acl_users (chunk_top c)) (acl_users (chunk_payload c)) []"

subsection \<open>Filters for Qdrant\<close>

datatype match = MatchAny "string list" | MatchValue string

datatype condition = FieldCondition string match

datatype clause = One condition | Must "condition list"

definition build_access_filter :: "user_context \<Rightarrow> condition list option" where
  "build_access_filter u =
     (if is_admin u then None
      else
        (let allowed = role_allowed_levels u;
             conditions = [FieldCondition ''access_level'' (MatchAny allowed)];
             conditions = (if ''confidential'' \<in> set allowed \<and> groups u \<noteq> []
                           then conditions @ [FieldCondition ''allowed_groups'' (MatchAny (groups u))]
                           else conditions);
             conditions = (if ''restricted'' \<in> set allowed \<and> username u \<noteq> []
                           then conditions @ [FieldCondition ''allowed_users'' (MatchValue (username u))]
                           else conditions)
         in Some conditions))"

definition build_access_filter_should :: "user_context \<Rightarrow> clause list option" where
  "build_access_filter_should u =
     (if is_admin u then None
      else
        (let allowed = role_allowed_levels u;
             base_levels = filter (\<lambda>l. l \<in> {''public'', ''internal''}) allowed;
             clauses = (if base_levels \<noteq> []
                        then [One (FieldCondition ''access_level'' (MatchAny base_levels))] else []);
             clauses = (if ''confidential'' \<in> set allowed \<and> groups u \<noteq> []
                        then clauses @ [Must [FieldCondition ''access_level'' (MatchValue ''confidential''),
                                              FieldCondition ''allowed_groups'' (MatchAny (groups u))]]
                        else clauses);
             clauses = (if ''restricted'' \<in> set allowed \<and> username u \<noteq> []
                        then clauses @ [Must [FieldCondition ''access_level'' (MatchValue ''restricted''),
                                              FieldCondition ''allowed_users'' (MatchValue (username u))]]
                        else clauses)
         in Some clauses))"

definition pushed_down :: "(condition \<Rightarrow> acl \<Rightarrow> bool) \<Rightarrow> condition list option \<Rightarrow> acl \<Rightarrow> bool" where
  \<comment> \<open>\<^verbatim>\<open>hybrid_search\<close> turns the conditions into \<^verbatim>\<open>models.Filter(must=...)\<close>, or no filter at all\<close>
  "pushed_down satisfies f p =
     (case f of None \<Rightarrow> True | Some cs \<Rightarrow> list_all (\<lambda>c. satisfies c p) cs)"

definition clause_holds :: "(condition \<Rightarrow> acl \<Rightarrow> bool) \<Rightarrow> acl \<Rightarrow> clause \<Rightarrow> bool" where
  "clause_holds satisfies p cl =
     (case cl of One c \<Rightarrow> satisfies c p | Must cs \<Rightarrow> list_all (\<lambda>c. satisfies c p) cs)"

subsection \<open>Filtering after retrieval\<close>

definition chunk_visible :: "user_context \<Rightarrow> chunk \<Rightarrow> bool" where
  \<comment> \<open>one round of the loop of \<^verbatim>\<open>filter_chunks\<close>: false where it continues without appending\<close>
  "chunk_visible u c =
     (let allowed = role_allowed_levels u; level = chunk_level c in
      if level \<notin> set allowed then False
      else if level = ''confidential'' \<and>
              (groups u = [] \<or>
               (chunk_groups c \<noteq> [] \<and> \<not> list_ex (\<lambda>g. g \<in> set (groups u)) (chunk_groups c)))
      then False
      else if level = ''restricted'' \<and> chunk_users c \<noteq> [] \<and> username u \<notin> set (chunk_users c)
      then False
      else True)"

definition filter_chunks :: "chunk list \<Rightarrow> user_context \<Rightarrow> chunk list" where
  "filter_chunks cs u = (if is_admin u then cs else filter (chunk_visible u) cs)"

definition filter_chunks_list :: "chunk list \<Rightarrow> user_context \<Rightarrow> chunk list" where
  "filter_chunks_list cs u = filter_chunks cs u"

definition RESTRICTED_SOURCES :: "string list" where
  "RESTRICTED_SOURCES = [''hr'', ''security'', ''finance'', ''legal'', ''executive'']"

definition can_access_source :: "user_context \<Rightarrow> string \<Rightarrow> string \<Rightarrow> bool" where
  "can_access_source u source_type source_id =
     (if is_admin u then True
      else if source_type \<in> set RESTRICTED_SOURCES \<and> \<not> is_expert u then False
      else
        (let ranks = map (\<lambda>r. case access_level_rank (dict_getd ROLE_MAX_LEVEL r ''public'') of
                                None \<Rightarrow> 0 | Some i \<Rightarrow> i) (roles u);
             user_max_level_rank = (if ranks = [] then 0 else foldl max (hd ranks) (tl ranks))
         in user_max_level_rank \<ge> 0))"

definition can_access_document ::
  "user_context \<Rightarrow> string \<Rightarrow> string list option \<Rightarrow> string list option \<Rightarrow> bool" where
  "can_access_document u level allowed_groups allowed_users =
     (let gs = (case allowed_groups of None \<Rightarrow> [] | Some x \<Rightarrow> x);
          us = (case allowed_users of None \<Rightarrow> [] | Some x \<Rightarrow> x) in
      if is_admin u then True
      else if level \<notin> set (role_allowed_levels u) then False
      else if level = ''confidential'' \<and> gs \<noteq> [] \<and>
              (groups u = [] \<or> \<not> list_ex (\<lambda>g. g \<in> set (groups u)) gs) then False
      else if level = ''restricted'' \<and> us \<noteq> [] \<and> username u \<notin> set us then False
      else True)"

subsection \<open>The domain layer's rules\<close>

record domain_user =
  du_id :: string
  du_username :: string
  du_roles :: "string list"
  du_groups :: "string list"

record domain_chunk =
  dc_id :: string
  dc_text :: string
  dc_access_level :: string
  dc_allowed_groups :: "string list"
  dc_allowed_users :: "string list"

record hit =
  hit_id :: string
  hit_text :: "string option"
  hit_payload :: acl
  hit_attrs :: acl

definition domain_is_admin :: "domain_user \<Rightarrow> bool" where
  "domain_is_admin u \<longleftrightarrow> ''admin'' \<in> set (du_roles u)"

definition can_access :: "domain_user \<Rightarrow> string \<Rightarrow> string list \<Rightarrow> string list \<Rightarrow> bool" where
  "can_access u level allowed_groups allowed_users =
     (if domain_is_admin u then True
      else if level = ''public'' then True
      else if du_id u \<in> set allowed_users then True
      else list_ex (\<lambda>g. g \<in> set (du_groups u)) allowed_groups)"

definition filter_chunks_by_access :: "domain_chunk list \<Rightarrow> domain_user option \<Rightarrow> domain_chunk list" where
  "filter_chunks_by_access cs user =
     (case user of
        None \<Rightarrow> cs
      | Some u \<Rightarrow>
          (if domain_is_admin u then cs
           else filter (\<lambda>c. can_access u (dc_access_level c) (dc_allowed_groups c) (dc_allowed_users c)) cs))"

definition to_domain :: "hit \<Rightarrow> domain_chunk" where
  "to_domain h =
     (let text = (case hit_text h of None \<Rightarrow> [] | Some t \<Rightarrow> t);
          level = first_of (acl_level (hit_payload h)) (acl_level (hit_attrs h)) ''public'';
          gs = first_of (acl_groups (hit_payload h)) (acl_groups (hit_attrs h)) [];
          us = first_of (acl_users (hit_payload h)) (acl_users (hit_attrs h)) []
      in \<lparr>dc_id = hit_id h, dc_text = text,
          dc_access_level = (if level = [] then ''public'' else level),
          dc_allowed_groups = gs, dc_allowed_users = us\<rparr>)"

definition domain_filter_chunks_by_access ::
  "hit list \<Rightarrow> string \<Rightarrow> string \<Rightarrow> string list \<Rightarrow> string list \<Rightarrow> bool \<Rightarrow> hit list" where
  "domain_filter_chunks_by_access hs uid uname rs gs admin =
     (if admin then hs
      else if uid = [] then hs
      else
        (let user = \<lparr>du_id = uid, du_username = uname, du_roles = rs, du_groups = gs\<rparr>;
             filtered = filter_chunks_by_access (map to_domain hs) (Some user);
             by_id = foldl (\<lambda>d h. dict_set (hit_id h) h d) [] hs
         in map (\<lambda>d. the (dict_get by_id (dc_id d))) (filter (\<lambda>d. dict_has by_id (dc_id d)) filtered)))"

record domain_filter =
  df_must :: "condition list"
  df_should :: "condition list"

definition domain_service_filter :: "domain_user option \<Rightarrow> domain_filter option" where
  "domain_service_filter user =
     (case user of
        None \<Rightarrow> None
      | Some u \<Rightarrow>
          (if domain_is_admin u then None
           else Some \<lparr>df_must = [FieldCondition ''access_level'' (MatchValue ''public'')],
                      df_should = [FieldCondition ''allowed_users'' (MatchAny [du_id u]),
                                   FieldCondition ''allowed_groups'' (MatchAny (du_groups u))]\<rparr>))"

definition domain_build_access_filter ::
  "string \<Rightarrow> string \<Rightarrow> string list \<Rightarrow> string list \<Rightarrow> bool \<Rightarrow> domain_filter option" where
  "domain_build_access_filter uid uname rs gs admin =
     (if admin \<or> uid = [] then
        (if admin
         then domain_service_filter
                (Some \<lparr>du_id = uid, du_username = uname, du_roles = [''admin''], du_groups = gs\<rparr>)
         else None)
      else domain_service_filter
             (Some \<lparr>du_id = uid, du_username = uname, du_roles = rs, du_groups = gs\<rparr>))"

subsection \<open>Levels of a role\<close>

lemma role_levels:
  "l \<in> set (dict_getd ROLE_ACCESS r []) \<longleftrightarrow>
     (l = ''public'' \<and> r \<in> {''admin'', ''expert'', ''developer'', ''viewer'', ''external''}) \<or>
     (l = ''internal'' \<and> r \<in> {''admin'', ''expert'', ''developer'', ''viewer''}) \<or>
     (l = ''confidential'' \<and> r \<in> {''admin'', ''expert'', ''developer''}) \<or>
     (l = ''restricted'' \<and> r = ''admin'')"
  by (auto simp: dict_getd_def ROLE_ACCESS_def)

lemma allowed_levels_iff:
  "l \<in> set (role_allowed_levels u) \<longleftrightarrow>
     l = ''public'' \<or> (\<exists>r \<in> set (roles u). l \<in> set (dict_getd ROLE_ACCESS r []))"
proof -
  let ?a = "concat (map (\<lambda>r. dict_getd ROLE_ACCESS r []) (roles u))"
  have eq: "set (role_allowed_levels u) = (if ?a = [] then {''public''} else set ?a)"
    by (simp add: role_allowed_levels_def Let_def)
  have "''public'' \<in> set ?a" if "?a \<noteq> []"
  proof -
    from that obtain l' where "l' \<in> set ?a" by (meson list.set_sel(1))
    then obtain r where "r \<in> set (roles u)" "l' \<in> set (dict_getd ROLE_ACCESS r [])" by auto
    then have "''public'' \<in> set (dict_getd ROLE_ACCESS r [])" by (auto simp: role_levels)
    with \<open>r \<in> set (roles u)\<close> show ?thesis by auto
  qed
  then show ?thesis unfolding eq by auto
qed

lemma bounded_levels:
  \<comment> \<open>the propositional content of the next lemma, over variables instead of literals\<close>
  assumes "a \<notin> R"
  shows "(l = p \<or> (\<exists>r \<in> R. (l = p \<and> r \<in> {a, e, d, v, x}) \<or> (l = i \<and> r \<in> {a, e, d, v}) \<or>
       (l = c \<and> r \<in> {a, e, d}) \<or> (l = s \<and> r = a))) \<longleftrightarrow>
     (l = p \<or> (l = i \<and> (\<exists>r \<in> R. r \<in> {e, d, v})) \<or> (l = c \<and> (\<exists>r \<in> R. r \<in> {e, d})))"
  using assms by blast

lemma allowed_non_admin:
  assumes "\<not> is_admin u"
  shows "l \<in> set (role_allowed_levels u) \<longleftrightarrow>
     l = ''public'' \<or>
     (l = ''internal'' \<and> (\<exists>r \<in> set (roles u). r \<in> {''expert'', ''developer'', ''viewer''})) \<or>
     (l = ''confidential'' \<and> (\<exists>r \<in> set (roles u). r \<in> {''expert'', ''developer''}))"
  using assms unfolding allowed_levels_iff role_levels is_admin_def by (rule bounded_levels)

lemma allowed_mono:
  "set (roles u) \<subseteq> set (roles u') \<Longrightarrow> set (role_allowed_levels u) \<subseteq> set (role_allowed_levels u')"
  by (intro subsetI) (unfold allowed_levels_iff, blast)

lemma chunk_visible_iff:
  "chunk_visible u c \<longleftrightarrow>
     chunk_level c \<in> set (role_allowed_levels u) \<and>
     (chunk_level c = ''confidential'' \<longrightarrow>
        groups u \<noteq> [] \<and> (chunk_groups c = [] \<or> set (chunk_groups c) \<inter> set (groups u) \<noteq> {})) \<and>
     (chunk_level c = ''restricted'' \<longrightarrow> chunk_users c = [] \<or> username u \<in> set (chunk_users c))"
  by (auto simp: chunk_visible_def Let_def list_ex_iff)

subsection \<open>Properties\<close>

text \<open>
  C1. What a non-administrator gets back from \<^verbatim>\<open>filter_chunks\<close>: never a chunk of an unknown level
  and never a restricted one; an internal chunk only with the role of expert, developer or viewer;
  a confidential chunk only with the role of expert or developer and with a group that, if the
  chunk names groups, is one of them.
\<close>
theorem filter_chunks_confidentiality:
  assumes "\<not> is_admin u" and "c \<in> set (filter_chunks cs u)"
  shows "c \<in> set cs \<and>
    (chunk_level c = ''public'' \<or>
     chunk_level c = ''internal'' \<and> (\<exists>r \<in> set (roles u). r \<in> {''expert'', ''developer'', ''viewer''}) \<or>
     chunk_level c = ''confidential'' \<and> (\<exists>r \<in> set (roles u). r \<in> {''expert'', ''developer''}) \<and>
       (\<exists>g \<in> set (groups u). chunk_groups c = [] \<or> g \<in> set (chunk_groups c)))"
proof -
  have vis: "chunk_visible u c" and mem: "c \<in> set cs"
    using assms by (auto simp: filter_chunks_def)
  have lev: "chunk_level c \<in> set (role_allowed_levels u)"
    and conf: "chunk_level c = ''confidential'' \<Longrightarrow>
      groups u \<noteq> [] \<and> (chunk_groups c = [] \<or> set (chunk_groups c) \<inter> set (groups u) \<noteq> {})"
    using vis by (auto simp: chunk_visible_iff)
  have "chunk_level c = ''confidential'' \<Longrightarrow>
      \<exists>g \<in> set (groups u). chunk_groups c = [] \<or> g \<in> set (chunk_groups c)"
    using conf by (cases "groups u") auto
  with lev mem show ?thesis unfolding allowed_non_admin [OF assms(1)] by blast
qed

abbreviation no_acl :: acl where
  "no_acl \<equiv> \<lparr>acl_level = None, acl_groups = None, acl_users = None\<rparr>"

definition dev_user :: user_context where
  "dev_user = \<lparr>user_id = ''u1'', username = ''ann'', roles = [''developer''], groups = [''core''],
     access_level = ''internal'', namespace = []\<rparr>"

definition core_chunk :: chunk where
  "core_chunk = \<lparr>chunk_ref = ''c1'', chunk_top = no_acl,
     chunk_payload = \<lparr>acl_level = Some ''confidential'', acl_groups = Some [''core''], acl_users = None\<rparr>\<rparr>"

theorem filter_chunks_confidentiality_witness:
  "core_chunk \<in> set (filter_chunks [core_chunk] dev_user) \<and>
   (\<exists>g \<in> set (groups dev_user). g \<in> set (chunk_groups core_chunk))"
proof -
  have "core_chunk \<in> set (filter_chunks [core_chunk] dev_user)" "\<not> is_admin dev_user"
    by (auto simp: filter_chunks_def chunk_visible_iff allowed_levels_iff role_levels is_admin_def
        dev_user_def core_chunk_def first_of_def)
  with filter_chunks_confidentiality [OF this(2,1)] show ?thesis
    by (simp add: core_chunk_def first_of_def)
qed

text \<open>
  Gaining roles or groups never loses access: every chunk that \<^verbatim>\<open>filter_chunks\<close> shows to a user
  is also shown to a user of the same name with at least those roles and groups.
\<close>
theorem filter_chunks_monotone:
  assumes "set (roles u) \<subseteq> set (roles u')" and "set (groups u) \<subseteq> set (groups u')"
    and "username u = username u'"
  shows "set (filter_chunks cs u) \<subseteq> set (filter_chunks cs u')"
proof -
  have "chunk_visible u' c" if "chunk_visible u c" for c
    using that allowed_mono [OF assms(1)] assms(2,3) by (auto simp: chunk_visible_iff)
  moreover have "is_admin u \<Longrightarrow> is_admin u'" using assms(1) by (auto simp: is_admin_def)
  ultimately show ?thesis by (auto simp: filter_chunks_def)
qed

theorem filter_chunks_monotone_witness:
  "set (filter_chunks [core_chunk] dev_user) \<subseteq>
   set (filter_chunks [core_chunk] (dev_user\<lparr>roles := [''developer'', ''viewer'']\<rparr>))"
  by (rule filter_chunks_monotone) (auto simp: dev_user_def)

text \<open>
  The chunk filter and the document check agree except in one place: on a confidential document
  that names no groups, \<^verbatim>\<open>can_access_document\<close> admits a user without any group, whom
  \<^verbatim>\<open>filter_chunks\<close> turns away. Everywhere else the filter keeps a chunk exactly when the document
  check grants its metadata.
\<close>
theorem filter_agrees_with_document_check:
  "c \<in> set (filter_chunks [c] u) \<longleftrightarrow>
     can_access_document u (chunk_level c) (Some (chunk_groups c)) (Some (chunk_users c)) \<and>
     \<not> (\<not> is_admin u \<and> chunk_level c = ''confidential'' \<and> chunk_groups c = [] \<and> groups u = [])"
  by (auto simp: filter_chunks_def chunk_visible_iff can_access_document_def Let_def list_ex_iff)

text \<open>
  The filter that is pushed down to Qdrant hides public documents. The documentation of
  \<^verbatim>\<open>build_access_filter\<close> says that public documents are always visible, and \<^verbatim>\<open>filter_chunks\<close> does
  keep them; but since \<^verbatim>\<open>hybrid_search\<close> requires every condition of the filter, a developer who is
  a member of some group never gets a public document that names no groups. (Assumed of Qdrant: a
  match-any condition on \<^verbatim>\<open>allowed_groups\<close> needs a listed group in the payload.)
\<close>
theorem pushdown_hides_public:
  assumes qdrant: "\<And>vs p. satisfies (FieldCondition ''allowed_groups'' (MatchAny vs)) p \<Longrightarrow>
      \<exists>gs. acl_groups p = Some gs \<and> set vs \<inter> set gs \<noteq> {}"
    and "\<not> is_admin u" and "''developer'' \<in> set (roles u)" and "groups u \<noteq> []"
    and "acl_level p = Some ''public''" and "acl_groups p = None"
  shows "\<not> pushed_down satisfies (build_access_filter u) p \<and>
    chunk_visible u \<lparr>chunk_ref = i, chunk_top = no_acl, chunk_payload = p\<rparr>"
proof -
  have conf: "''confidential'' \<in> set (role_allowed_levels u)" and pub: "''public'' \<in> set (role_allowed_levels u)"
    using assms(2,3) by (auto simp: allowed_non_admin)
  then have "FieldCondition ''allowed_groups'' (MatchAny (groups u)) \<in> set (the (build_access_filter u))"
    and "build_access_filter u \<noteq> None"
    using assms(2,4) by (auto simp: build_access_filter_def Let_def)
  then have "\<not> pushed_down satisfies (build_access_filter u) p"
    using qdrant assms(6) by (fastforce simp: pushed_down_def list_all_iff)
  moreover have "chunk_visible u \<lparr>chunk_ref = i, chunk_top = no_acl, chunk_payload = p\<rparr>"
    using pub assms(5) by (simp add: chunk_visible_iff first_of_def)
  ultimately show ?thesis by blast
qed

definition sample_match :: "condition \<Rightarrow> acl \<Rightarrow> bool" where
  "sample_match c p =
     (case c of FieldCondition k m \<Rightarrow>
        (let vals = (if k = ''access_level'' then (case acl_level p of None \<Rightarrow> [] | Some l \<Rightarrow> [l])
                     else if k = ''allowed_groups'' then (case acl_groups p of None \<Rightarrow> [] | Some g \<Rightarrow> g)
                     else (case acl_users p of None \<Rightarrow> [] | Some us \<Rightarrow> us))
         in case m of MatchAny vs \<Rightarrow> list_ex (\<lambda>v. v \<in> set vals) vs | MatchValue v \<Rightarrow> v \<in> set vals))"

lemma sample_match_simps:
  "sample_match (FieldCondition ''access_level'' (MatchAny vs)) q \<longleftrightarrow> (\<exists>v \<in> set vs. acl_level q = Some v)"
  "sample_match (FieldCondition ''access_level'' (MatchValue v)) q \<longleftrightarrow> acl_level q = Some v"
  "sample_match (FieldCondition ''allowed_groups'' (MatchAny vs)) q \<longleftrightarrow>
     (\<exists>gs. acl_groups q = Some gs \<and> set vs \<inter> set gs \<noteq> {})"
  by (cases "acl_level q"; cases "acl_groups q"; fastforce simp: sample_match_def list_ex_iff)+

theorem pushdown_hides_public_witness:
  "\<not> pushed_down sample_match (build_access_filter dev_user) (no_acl\<lparr>acl_level := Some ''public''\<rparr>)"
  using pushdown_hides_public [of sample_match dev_user "no_acl\<lparr>acl_level := Some ''public''\<rparr>" "''c2''"]
  by (simp add: sample_match_simps is_admin_def dev_user_def)

text \<open>
  The alternative filter \<^verbatim>\<open>build_access_filter_should\<close> is exact where the pushed-down one is
  not: under Qdrant's reading of its clauses it selects precisely the payloads that
  \<^verbatim>\<open>filter_chunks\<close> would keep, but for confidential ones that name no common group.
\<close>
theorem should_filter_exact:
  assumes level_any: "\<And>vs q. satisfies (FieldCondition ''access_level'' (MatchAny vs)) q \<longleftrightarrow>
      (\<exists>v \<in> set vs. acl_level q = Some v)"
    and level_value: "\<And>v q. satisfies (FieldCondition ''access_level'' (MatchValue v)) q \<longleftrightarrow>
      acl_level q = Some v"
    and groups_any: "\<And>vs q. satisfies (FieldCondition ''allowed_groups'' (MatchAny vs)) q \<longleftrightarrow>
      (\<exists>gs. acl_groups q = Some gs \<and> set vs \<inter> set gs \<noteq> {})"
    and "\<not> is_admin u" and "acl_level p = Some l"
    and f: "build_access_filter_should u = Some clauses"
  shows "list_ex (clause_holds satisfies p) clauses
    \<longleftrightarrow> chunk_visible u \<lparr>chunk_ref = i, chunk_top = no_acl, chunk_payload = p\<rparr> \<and>
        (l = ''confidential'' \<longrightarrow> (\<exists>gs. acl_groups p = Some gs \<and> set (groups u) \<inter> set gs \<noteq> {}))"
proof -
  let ?A = "set (role_allowed_levels u)"
  have pub: "''public'' \<in> ?A" and res: "''restricted'' \<notin> ?A"
    using assms(4) by (auto simp: allowed_non_admin)
  have base: "filter (\<lambda>x. x \<in> {''public'', ''internal''}) (role_allowed_levels u) \<noteq> []"
    using pub by (auto simp: filter_empty_conv)
  have cls: "clauses = One (FieldCondition ''access_level''
        (MatchAny (filter (\<lambda>x. x \<in> {''public'', ''internal''}) (role_allowed_levels u)))) #
      (if ''confidential'' \<in> ?A \<and> groups u \<noteq> []
       then [Must [FieldCondition ''access_level'' (MatchValue ''confidential''),
                   FieldCondition ''allowed_groups'' (MatchAny (groups u))]] else [])"
    using f assms(4) res base unfolding build_access_filter_should_def Let_def by (auto split: if_splits)
  have "list_ex (clause_holds satisfies p) clauses
      \<longleftrightarrow> (l \<in> ?A \<and> l \<in> {''public'', ''internal''}) \<or>
          (''confidential'' \<in> ?A \<and> groups u \<noteq> [] \<and> l = ''confidential'' \<and>
           (\<exists>gs. acl_groups p = Some gs \<and> set (groups u) \<inter> set gs \<noteq> {}))"
    using assms(5) by (auto simp: cls clause_holds_def level_any level_value groups_any)
  also have "\<dots> \<longleftrightarrow> chunk_visible u \<lparr>chunk_ref = i, chunk_top = no_acl, chunk_payload = p\<rparr> \<and>
        (l = ''confidential'' \<longrightarrow> (\<exists>gs. acl_groups p = Some gs \<and> set (groups u) \<inter> set gs \<noteq> {}))"
  proof (cases "l = ''confidential''")
    case True
    then show ?thesis using assms(5) by (auto simp: chunk_visible_iff first_of_def)
  next
    case False
    have "l \<in> ?A \<Longrightarrow> l \<in> {''public'', ''internal''}" and "l \<in> ?A \<Longrightarrow> l \<noteq> ''restricted''"
      using False res by (auto simp only: allowed_non_admin [OF assms(4)] insert_iff)
    with False assms(5) show ?thesis by (simp add: chunk_visible_iff first_of_def) blast
  qed
  finally show ?thesis .
qed

theorem should_filter_exact_witness:
  "list_ex (clause_holds sample_match (chunk_payload core_chunk)) (the (build_access_filter_should dev_user))"
proof -
  have na: "\<not> is_admin dev_user" by (simp add: is_admin_def dev_user_def)
  obtain cl where cl: "build_access_filter_should dev_user = Some cl"
    using na by (simp add: build_access_filter_should_def Let_def)
  have vis: "chunk_visible dev_user \<lparr>chunk_ref = [], chunk_top = no_acl, chunk_payload = chunk_payload core_chunk\<rparr>"
    by (simp add: chunk_visible_iff allowed_levels_iff role_levels dev_user_def core_chunk_def first_of_def)
  have lev: "acl_level (chunk_payload core_chunk) = Some ''confidential''"
    and grp: "\<exists>gs. acl_groups (chunk_payload core_chunk) = Some gs \<and> set (groups dev_user) \<inter> set gs \<noteq> {}"
    by (simp_all add: core_chunk_def dev_user_def)
  show ?thesis
    using should_filter_exact [OF sample_match_simps na lev cl, of "[]"] vis grp by (simp only: cl option.sel simp_thms)
qed

text \<open>
  The domain layer gives an anonymous caller everything. Where the adapter's comment says that
  an anonymous user sees public content, \<^verbatim>\<open>domain_filter_chunks_by_access\<close> without a user id
  returns every chunk unfiltered, and the domain service does the same for a missing user, however
  the chunks are classified.
\<close>
theorem anonymous_sees_everything:
  "domain_filter_chunks_by_access hs [] uname rs gs False = hs \<and>
   filter_chunks_by_access ds None = ds \<and>
   domain_build_access_filter [] uname rs gs False = None"
  by (simp add: domain_filter_chunks_by_access_def filter_chunks_by_access_def
      domain_build_access_filter_def)

text \<open>
  The role comparison in \<^verbatim>\<open>can_access_source\<close> never denies anything: only the sources on the
  restricted list are ever refused, and only to users that are neither expert nor administrator.
\<close>
theorem can_access_source_iff:
  "can_access_source u st sid \<longleftrightarrow> is_admin u \<or> is_expert u \<or> st \<notin> set RESTRICTED_SOURCES"
proof -
  have "0 \<le> foldl max (r :: int) rs" if "0 \<le> r" for r rs
    using that by (induction rs arbitrary: r) auto
  moreover have "0 \<le> (case access_level_rank l of None \<Rightarrow> 0 | Some i \<Rightarrow> i)" for l
    by (auto simp: access_level_rank_def ACCESS_LEVELS_def split: option.splits if_splits)
  ultimately show ?thesis
    by (cases "roles u") (auto simp: can_access_source_def Let_def)
qed

end
