(* ===== verification/Dead_Letter_Queue.thy ===== *)
theory Dead_Letter_Queue
  imports Prelude
begin

text \<open>
  The dead letter queue, \<^verbatim>\<open>proxy/app/shared/dlq.py\<close>. The table \<^verbatim>\<open>dlq_messages\<close> is the list of its
  rows in the order of their ids together with the counter behind \<^verbatim>\<open>AUTOINCREMENT\<close>; several queues
  may share one database file. Every SQL statement is a function on that table. A column with JSON
  text is the value it encodes. Each operation takes the clock reading it makes.
\<close>

subsection \<open>The table\<close>

record message =
  mid :: int
  mqueue :: string
  payload :: json_obj
  merror :: string
  retry_count :: int
  mmax_retries :: int
  status :: string
  created_at :: real
  last_error_at :: real
  next_retry_at :: real
  metadata :: json_obj

record dlq_db =
  rows :: "message list"
  seq :: int

record dlq =
  queue_name :: string
  dlq_max_retries :: int
  backoff_base :: real

definition init_dlq :: "string \<Rightarrow> int \<Rightarrow> real \<Rightarrow> (string, dlq) dict \<Rightarrow> dlq \<times> (string, dlq) dict" where
  "init_dlq name mr base instances =
     (let q = \<lparr>queue_name = name, dlq_max_retries = mr, backoff_base = base\<rparr>
      in (q, dict_set name q instances))"

definition init_db :: "dlq_db option \<Rightarrow> dlq_db" where
  \<comment> \<open>\<^verbatim>\<open>CREATE TABLE IF NOT EXISTS\<close>\<close>
  "init_db d = (case d of None \<Rightarrow> \<lparr>rows = [], seq = 0\<rparr> | Some x \<Rightarrow> x)"

definition get_queue :: "(string, dlq) dict \<Rightarrow> string \<Rightarrow> dlq option" where
  "get_queue instances name = dict_get instances name"

definition reset_all_queues :: "(string, dlq) dict \<Rightarrow> (string, dlq) dict" where
  "reset_all_queues instances = []"

subsection \<open>Operations\<close>

definition dlq_add ::
  "dlq \<Rightarrow> real \<Rightarrow> json_obj \<Rightarrow> string \<Rightarrow> json_obj option \<Rightarrow> int option \<Rightarrow> dlq_db \<Rightarrow> int \<times> dlq_db" where
  "dlq_add q now p err meta mr d =
     (let max_retries = (case mr of None \<Rightarrow> dlq_max_retries q | Some n \<Rightarrow> n);
          i = seq d + 1;
          row = \<lparr>mid = i, mqueue = queue_name q, payload = p, merror = err, retry_count = 0,
                 mmax_retries = max_retries, status = ''pending'', created_at = now,
                 last_error_at = now, next_retry_at = now,
                 metadata = (case meta of None \<Rightarrow> [] | Some m \<Rightarrow> m)\<rparr>
      in (i, \<lparr>rows = rows d @ [row], seq = i\<rparr>))"

definition selects :: "dlq \<Rightarrow> int \<Rightarrow> message \<Rightarrow> bool" where
  \<comment> \<open>\<^verbatim>\<open>WHERE id = ? AND queue = ?\<close>\<close>
  "selects q i m \<longleftrightarrow> mid m = i \<and> mqueue m = queue_name q"

definition dlq_get :: "dlq \<Rightarrow> int \<Rightarrow> dlq_db \<Rightarrow> message option" where
  "dlq_get q i d = find (selects q i) (rows d)"

definition ack :: "dlq \<Rightarrow> int \<Rightarrow> dlq_db \<Rightarrow> bool \<times> dlq_db" where
  "ack q i d =
     (list_ex (selects q i) (rows d), d\<lparr>rows := filter (\<lambda>m. \<not> selects q i m) (rows d)\<rparr>)"

definition nack_row :: "real \<Rightarrow> real \<times> string \<Rightarrow> message \<Rightarrow> message" where
  "nack_row base x m =
     (case x of (now, err) \<Rightarrow>
        (let n = retry_count m + 1; dies = n \<ge> mmax_retries m in
         m\<lparr>retry_count := n,
           status := (if dies then ''dead'' else ''pending''),
           last_error_at := now,
           next_retry_at := (if dies then 0 else now + base ^ nat n),
           merror := (if err \<noteq> [] then err else merror m)\<rparr>))"

definition nack :: "dlq \<Rightarrow> real \<Rightarrow> int \<Rightarrow> string \<Rightarrow> dlq_db \<Rightarrow> bool \<times> dlq_db" where
  "nack q now i err d =
     (case dlq_get q i d of
        None \<Rightarrow> (False, d)
      | Some _ \<Rightarrow>
          (True, d\<lparr>rows := map (\<lambda>m. if mid m = i then nack_row (backoff_base q) (now, err) m else m)
                            (rows d)\<rparr>))"

definition process :: "dlq \<Rightarrow> dlq_db \<Rightarrow> message list" where
  "process q d =
     sort_key created_at (filter (\<lambda>m. mqueue m = queue_name q \<and> status m = ''pending'') (rows d))"

definition dead :: "dlq \<Rightarrow> dlq_db \<Rightarrow> message list" where
  "dead q d =
     sort_key (\<lambda>m. - last_error_at m)
       (filter (\<lambda>m. mqueue m = queue_name q \<and> status m = ''dead'') (rows d))"

record retry_stats =
  processed :: nat
  failed :: nat
  dead_count :: nat
  total :: nat

fun retry_rows ::
  "dlq \<Rightarrow> (int \<Rightarrow> real) \<Rightarrow> (int \<Rightarrow> json_obj \<Rightarrow> exn option) \<Rightarrow> message list \<Rightarrow> retry_stats \<Rightarrow> dlq_db \<Rightarrow>
   (exn + retry_stats) \<times> dlq_db" where
  "retry_rows q clock handler [] s d = (Inr s, d)"
| "retry_rows q clock handler (m # ms) s d =
     (case handler (mid m) (payload m) of
        None \<Rightarrow>
          retry_rows q clock handler ms (s\<lparr>processed := processed s + 1\<rparr>) (snd (ack q (mid m) d))
      | Some e \<Rightarrow>
          (if is_exception e
           then retry_rows q clock handler ms (s\<lparr>failed := failed s + 1\<rparr>)
                  (snd (nack q (clock (mid m)) (mid m) (exn_str e) d))
           else (Inl e, d)))"

definition dlq_retry ::
  "dlq \<Rightarrow> (int \<Rightarrow> real) \<Rightarrow> (int \<Rightarrow> json_obj \<Rightarrow> exn option) \<Rightarrow> dlq_db \<Rightarrow> (exn + retry_stats) \<times> dlq_db" where
  \<comment> \<open>a message is handed to the handler at most once per call, so that what the handler does and
     what the clock shows at that moment are functions of its id\<close>
  "dlq_retry q clock handler d =
     (let ms = process q d in
      retry_rows q clock handler ms \<lparr>processed = 0, failed = 0, dead_count = 0, total = length ms\<rparr> d)"

record queue_stats =
  st_total :: nat
  st_pending :: nat
  st_failed :: int
  st_dead :: nat

definition stats :: "dlq \<Rightarrow> dlq_db \<Rightarrow> queue_stats" where
  "stats q d =
     (let mine = filter (\<lambda>m. mqueue m = queue_name q) (rows d);
          t = length mine;
          p = length (filter (\<lambda>m. status m = ''pending'') mine);
          k = length (filter (\<lambda>m. status m = ''dead'') mine)
      in \<lparr>st_total = t, st_pending = p, st_failed = int t - int p - int k, st_dead = k\<rparr>)"

definition clear :: "dlq \<Rightarrow> string option \<Rightarrow> dlq_db \<Rightarrow> nat \<times> dlq_db" where
  "clear q st d =
     (let hit = (\<lambda>m. mqueue m = queue_name q \<and> (case st of None \<Rightarrow> True | Some s \<Rightarrow> status m = s)) in
      (length (filter hit (rows d)), d\<lparr>rows := filter (\<lambda>m. \<not> hit m) (rows d)\<rparr>))"

definition requeue :: "dlq \<Rightarrow> real \<Rightarrow> int \<Rightarrow> dlq_db \<Rightarrow> bool \<times> dlq_db" where
  "requeue q now i d =
     (let hit = (\<lambda>m. selects q i m \<and> status m = ''dead'') in
      (list_ex hit (rows d),
       d\<lparr>rows := map (\<lambda>m. if hit m
                        then m\<lparr>status := ''pending'', retry_count := 0, next_retry_at := now\<rparr>
                        else m) (rows d)\<rparr>))"

subsection \<open>Runs\<close>

datatype dlq_event =
    Add dlq real json_obj string "json_obj option" "int option"
  | Ack dlq int
  | Nack dlq real int string
  | Retry dlq "int \<Rightarrow> real" "int \<Rightarrow> json_obj \<Rightarrow> exn option"
  | Clear dlq "string option"
  | Requeue dlq real int

fun dlq_step :: "dlq_db \<Rightarrow> dlq_event \<Rightarrow> dlq_db" where
  "dlq_step d (Add q now p err meta mr) = snd (dlq_add q now p err meta mr d)"
| "dlq_step d (Ack q i) = snd (ack q i d)"
| "dlq_step d (Nack q now i err) = snd (nack q now i err d)"
| "dlq_step d (Retry q clock handler) = snd (dlq_retry q clock handler d)"
| "dlq_step d (Clear q st) = snd (clear q st d)"
| "dlq_step d (Requeue q now i) = snd (requeue q now i d)"

fun event_queue :: "dlq_event \<Rightarrow> string" where
  "event_queue (Add q _ _ _ _ _) = queue_name q"
| "event_queue (Ack q _) = queue_name q"
| "event_queue (Nack q _ _ _) = queue_name q"
| "event_queue (Retry q _ _) = queue_name q"
| "event_queue (Clear q _) = queue_name q"
| "event_queue (Requeue q _ _) = queue_name q"

definition row_wf :: "message \<Rightarrow> bool" where
  "row_wf m \<longleftrightarrow> 0 \<le> retry_count m \<and>
     (status m = ''pending'' \<and> (retry_count m = 0 \<or> retry_count m < mmax_retries m) \<or>
      status m = ''dead'' \<and> mmax_retries m \<le> retry_count m)"

definition dlq_wf :: "dlq_db \<Rightarrow> bool" where
  "dlq_wf d \<longleftrightarrow> sorted_wrt (<) (map mid (rows d)) \<and> 0 \<le> seq d \<and>
     (\<forall>m \<in> set (rows d). row_wf m \<and> 1 \<le> mid m \<and> mid m \<le> seq d)"

subsection \<open>Preservation\<close>

lemma nack_row_keeps [simp]:
  "mid (nack_row b x m) = mid m" "mqueue (nack_row b x m) = mqueue m"
  "payload (nack_row b x m) = payload m" "mmax_retries (nack_row b x m) = mmax_retries m"
  "retry_count (nack_row b x m) = retry_count m + 1"
  by (simp_all add: nack_row_def Let_def split: prod.split)

lemma status_nack_row:
  "status (nack_row b x m) = (if mmax_retries m \<le> retry_count m + 1 then ''dead'' else ''pending'')"
  by (simp add: nack_row_def Let_def split: prod.split)

lemma row_wf_nack: "row_wf m \<Longrightarrow> row_wf (nack_row b x m)"
  by (auto simp: row_wf_def status_nack_row)

lemma dlq_wf_filter: "dlq_wf d \<Longrightarrow> dlq_wf (d\<lparr>rows := filter P (rows d)\<rparr>)"
  by (auto simp: dlq_wf_def sorted_wrt_map sorted_wrt_filter)

lemma dlq_wf_map:
  assumes "dlq_wf d" and "\<And>m. mid (f m) = mid m" and "\<And>m. row_wf m \<Longrightarrow> row_wf (f m)"
  shows "dlq_wf (d\<lparr>rows := map f (rows d)\<rparr>)"
  using assms by (auto simp: dlq_wf_def comp_def)

lemma dlq_wf_add: "dlq_wf d \<Longrightarrow> dlq_wf (snd (dlq_add q now p err meta mr d))"
  by (force simp: dlq_wf_def dlq_add_def Let_def sorted_wrt_append row_wf_def)

lemma dlq_wf_ack: "dlq_wf d \<Longrightarrow> dlq_wf (snd (ack q i d))"
  by (simp add: ack_def dlq_wf_filter)

lemma dlq_wf_nack: "dlq_wf d \<Longrightarrow> dlq_wf (snd (nack q now i err d))"
  by (auto simp: nack_def row_wf_nack intro: dlq_wf_map split: option.split)

lemma dlq_wf_requeue: "dlq_wf d \<Longrightarrow> dlq_wf (snd (requeue q now i d))"
  unfolding requeue_def Let_def by (auto simp: row_wf_def intro!: dlq_wf_map)

lemma dlq_wf_retry_rows: "dlq_wf d \<Longrightarrow> dlq_wf (snd (retry_rows q clock handler ms s d))"
  by (induction ms arbitrary: s d) (auto simp: dlq_wf_ack dlq_wf_nack split: option.split)

lemma dlq_wf_step: "dlq_wf d \<Longrightarrow> dlq_wf (dlq_step d e)"
  by (cases e) (auto simp: dlq_wf_add dlq_wf_ack dlq_wf_nack dlq_wf_requeue dlq_retry_def Let_def
      dlq_wf_retry_rows clear_def dlq_wf_filter)

interpretation dlq_inv: invariant_system dlq_step dlq_wf
  by unfold_locales (rule dlq_wf_step)

interpretation dlq_trip: trip_counter
  "\<lambda>x. nack_row base x" "\<lambda>m. status m \<noteq> ''dead''"
  "\<lambda>m. status m = ''dead'' \<and> mmax_retries m \<le> retry_count m" retry_count mmax_retries
  by unfold_locales (auto simp: status_nack_row)

subsection \<open>Rows under an operation\<close>

lemma find_selects:
  assumes "sorted_wrt (<) (map mid ms)"
  shows "find (selects q i) ms = Some m \<longleftrightarrow> m \<in> set ms \<and> selects q i m"
  using assms
proof (induction ms)
  case (Cons a ms)
  then show ?case by (auto simp: selects_def)
qed simp

lemma dlq_get_iff:
  "dlq_wf d \<Longrightarrow> dlq_get q i d = Some m \<longleftrightarrow> m \<in> set (rows d) \<and> mid m = i \<and> mqueue m = queue_name q"
  by (simp add: dlq_get_def dlq_wf_def find_selects selects_def)

lemma nack_hit:
  assumes "dlq_wf d" and "dlq_get q i d = Some m"
  shows "nack q now i err d =
    (True, d\<lparr>rows := map (\<lambda>r. if selects q i r then nack_row (backoff_base q) (now, err) r else r) (rows d)\<rparr>)"
proof -
  have m: "m \<in> set (rows d)" "mid m = i" "mqueue m = queue_name q"
    using assms by (auto simp: dlq_get_iff)
  have dist: "distinct (map mid (rows d))"
    using assms(1) by (auto simp: dlq_wf_def strict_sorted_iff)
  have "mid r = i \<longleftrightarrow> selects q i r" if "r \<in> set (rows d)" for r
    using that m dist by (auto simp: selects_def distinct_map inj_on_def)
  then show ?thesis using assms(2) by (simp add: nack_def cong: map_cong)
qed

lemma get_nack:
  assumes "dlq_wf d" and "dlq_get q i d = Some m"
  shows "dlq_get q i (snd (nack q now i err d)) = Some (nack_row (backoff_base q) (now, err) m)"
proof -
  have "dlq_wf (snd (nack q now i err d))" using assms(1) by (rule dlq_wf_nack)
  then show ?thesis
    using assms by (force simp: nack_hit [OF assms] dlq_get_iff selects_def)
qed

lemma get_nacks:
  assumes "dlq_wf d" and "dlq_get q i d = Some m"
  shows "dlq_get q i (foldl (\<lambda>a (now, err). snd (nack q now i err a)) d xs) =
    Some (foldl (\<lambda>a x. nack_row (backoff_base q) x a) m xs)"
  using assms
proof (induction xs arbitrary: d m)
  case (Cons x xs)
  obtain now err where x: "x = (now, err)" by (cases x)
  from Cons.IH [OF dlq_wf_nack [OF Cons.prems(1)] get_nack [OF Cons.prems]] show ?case
    by (simp add: x)
qed simp

subsection \<open>What one call of retry does\<close>

definition retry_outcome ::
  "dlq \<Rightarrow> (int \<Rightarrow> real) \<Rightarrow> (int \<Rightarrow> json_obj \<Rightarrow> exn option) \<Rightarrow> message \<Rightarrow> message option" where
  "retry_outcome q clock handler m =
     map_option (\<lambda>e. nack_row (backoff_base q) (clock (mid m), exn_str e) m) (handler (mid m) (payload m))"

lemma distinct_mids: "dlq_wf d \<Longrightarrow> distinct (map mid (rows d))"
  by (simp add: dlq_wf_def strict_sorted_iff)

lemma same_mid: "dlq_wf d \<Longrightarrow> m \<in> set (rows d) \<Longrightarrow> r \<in> set (rows d) \<Longrightarrow> mid m = mid r \<longleftrightarrow> m = r"
  using distinct_mids by (auto simp: distinct_map inj_on_def)

lemma retry_rows_eq:
  assumes "dlq_wf d" and "distinct (map mid ms)" and "set ms \<subseteq> set (rows d)"
    and "\<And>m. m \<in> set ms \<Longrightarrow> mqueue m = queue_name q"
    and "\<And>m e. m \<in> set ms \<Longrightarrow> handler (mid m) (payload m) = Some e \<Longrightarrow> is_exception e"
  shows "retry_rows q clock handler ms s d =
    (Inr (s\<lparr>processed := processed s + length (filter (\<lambda>m. handler (mid m) (payload m) = None) ms),
           failed := failed s + length (filter (\<lambda>m. handler (mid m) (payload m) \<noteq> None) ms)\<rparr>),
     d\<lparr>rows := List.map_filter (\<lambda>m. if m \<in> set ms then retry_outcome q clock handler m else Some m) (rows d)\<rparr>)"
  using assms
proof (induction ms arbitrary: s d)
  case Nil
  have "List.map_filter Some xs = xs" for xs :: "message list" by (induction xs) auto
  then show ?case by simp
next
  case (Cons m ms)
  have m: "m \<in> set (rows d)" "mqueue m = queue_name q" and notin: "mid m \<notin> mid ` set ms"
    and dist: "distinct (map mid ms)"
    and queue: "\<And>r. r \<in> set ms \<Longrightarrow> mqueue r = queue_name q"
    and exn: "\<And>r e. r \<in> set ms \<Longrightarrow> handler (mid r) (payload r) = Some e \<Longrightarrow> is_exception e"
    using Cons.prems by auto
  have get: "dlq_get q (mid m) d = Some m" using Cons.prems(1) m by (simp add: dlq_get_iff)
  have sel: "selects q (mid m) r \<longleftrightarrow> r = m" if "r \<in> set (rows d)" for r
    using same_mid [OF Cons.prems(1) m(1) that] m(2) by (auto simp: selects_def)
  show ?case
  proof (cases "handler (mid m) (payload m)")
    case None
    let ?d = "snd (ack q (mid m) d)"
    have d: "?d = d\<lparr>rows := filter (\<lambda>r. r \<noteq> m) (rows d)\<rparr>"
      by (simp add: ack_def sel cong: filter_cong)
    have sub: "set ms \<subseteq> set (rows ?d)" using Cons.prems(3) notin by (auto simp: d)
    note IH = Cons.IH [OF dlq_wf_ack [OF Cons.prems(1)] dist sub queue exn]
    have "List.map_filter (\<lambda>r. if r \<in> set ms then retry_outcome q clock handler r else Some r) (rows ?d) =
        List.map_filter (\<lambda>r. if r \<in> set (m # ms) then retry_outcome q clock handler r else Some r) (rows d)"
      using None by (simp add: d map_filter_filter) (rule map_filter_cong, auto simp: retry_outcome_def)
    then show ?thesis by (simp add: None IH) (simp add: d)
  next
    case (Some e)
    let ?x = "(clock (mid m), exn_str e)"
    let ?n = "nack_row (backoff_base q) ?x m"
    let ?d = "snd (nack q (clock (mid m)) (mid m) (exn_str e) d)"
    have d: "?d = d\<lparr>rows := map (\<lambda>r. if r = m then ?n else r) (rows d)\<rparr>"
      using sel by (simp add: nack_hit [OF Cons.prems(1) get] cong: map_cong)
    have n: "?n \<notin> set ms" using notin by (metis imageI nack_row_keeps(1))
    have sub: "set ms \<subseteq> set (rows ?d)" using Cons.prems(3) notin by (force simp: d)
    note IH = Cons.IH [OF dlq_wf_nack [OF Cons.prems(1)] dist sub queue exn]
    have "List.map_filter (\<lambda>r. if r \<in> set ms then retry_outcome q clock handler r else Some r) (rows ?d) =
        List.map_filter (\<lambda>r. if r \<in> set (m # ms) then retry_outcome q clock handler r else Some r) (rows d)"
      using Some n by (simp add: d map_filter_map) (rule map_filter_cong, auto simp: retry_outcome_def)
    moreover have "is_exception e" using Cons.prems(5) Some by auto
    ultimately show ?thesis by (simp add: Some IH) (simp add: d)
  qed
qed

lemma process_rows:
  "set (process q d) = {m \<in> set (rows d). mqueue m = queue_name q \<and> status m = ''pending''}"
  by (auto simp: process_def)

lemma distinct_process: "dlq_wf d \<Longrightarrow> distinct (map mid (process q d))"
  using distinct_mids unfolding process_def
  by (metis (no_types, lifting) distinct_map distinct_map_filter distinct_sort set_sort)

subsection \<open>Properties\<close>

fun issued_by :: "dlq_db \<Rightarrow> dlq_event \<Rightarrow> int list" where
  \<comment> \<open>the ids that \<^verbatim>\<open>add\<close> returns to its callers\<close>
  "issued_by d (Add q now p err meta mr) = [fst (dlq_add q now p err meta mr d)]"
| "issued_by d _ = []"

fun issued :: "dlq_db \<Rightarrow> dlq_event list \<Rightarrow> int list" where
  \<comment> \<open>along a run, in the order of the calls\<close>
  "issued d [] = []"
| "issued d (e # es) = issued_by d e @ issued (dlq_step d e) es"

lemma seq_retry_rows: "seq (snd (retry_rows q clock h ms s d)) = seq d"
  by (induction ms arbitrary: s d) (auto simp: ack_def nack_def split: option.split)

lemma seq_step:
  "seq d \<le> seq (dlq_step d e) \<and> list_all (\<lambda>i. seq d < i \<and> i \<le> seq (dlq_step d e)) (issued_by d e)"
  by (cases e) (auto simp: dlq_add_def Let_def ack_def nack_def dlq_retry_def seq_retry_rows clear_def requeue_def split: option.split)

lemma issued_increase: "sorted_wrt (<) (issued d es) \<and> list_all (\<lambda>i. seq d < i) (issued d es)"
proof (induction es arbitrary: d)
  case (Cons e es)
  have "sorted_wrt (<) (issued_by d e)" by (cases e) simp_all
  with Cons.IH [of "dlq_step d e"] seq_step [of d e] show ?case
    by (fastforce simp: sorted_wrt_append list_all_iff)
qed simp

lemma mids_retry_rows: "mid ` set (rows (snd (retry_rows q clock h ms s d))) \<subseteq> mid ` set (rows d)"
proof (induction ms arbitrary: s d)
  case (Cons m ms)
  have "mid ` set (rows (snd (ack q i d))) \<subseteq> mid ` set (rows d)"
    "mid ` set (rows (snd (nack q now i err d))) \<subseteq> mid ` set (rows d)" for i now err
    by (auto simp: ack_def nack_def split: option.split)
  with Cons.IH show ?case by (auto split: option.split) (meson image_eqI subsetD subset_trans)+
qed simp

lemma mids_step: "mid ` set (rows (dlq_step d e)) \<subseteq> mid ` set (rows d) \<union> set (issued_by d e)"
proof (cases e)
  case (Retry q clock h)
  then show ?thesis using mids_retry_rows by (auto simp: dlq_retry_def Let_def)
qed (auto simp: dlq_add_def Let_def ack_def nack_def clear_def requeue_def split: option.split)

lemma mids_run: "mid ` set (rows (foldl dlq_step d es)) \<subseteq> mid ` set (rows d) \<union> set (issued d es)"
proof (induction es arbitrary: d)
  case (Cons e es)
  from Cons.IH [of "dlq_step d e"] mids_step [of d e] show ?case by auto
qed simp

text \<open>
  C23. Every run of queue operations, of any number of queues on one database, keeps the table
  sound: ids increase with insertion, and every message is
  either pending, with retries left or not yet retried, or dead with its retries used up. The ids that \<^verbatim>\<open>add\<close> returns
  along the whole run increase strictly, so that no id is handed out twice, not even after its message was
  deleted, and every stored message has an id that was handed out.
\<close>
theorem dlq_runs_wf:
  "dlq_wf (foldl dlq_step (init_db None) es) \<and> sorted_wrt (<) (issued (init_db None) es) \<and>
   mid ` set (rows (foldl dlq_step (init_db None) es)) \<subseteq> set (issued (init_db None) es)"
proof (intro conjI)
  show "dlq_wf (foldl dlq_step (init_db None) es)"
    by (rule dlq_inv.run_invar) (simp add: dlq_wf_def init_db_def)
  show "sorted_wrt (<) (issued (init_db None) es)" using issued_increase by blast
  show "mid ` set (rows (foldl dlq_step (init_db None) es)) \<subseteq> set (issued (init_db None) es)"
    using mids_run [of "init_db None" es] by (simp add: init_db_def)
qed

text \<open>
  A message dies with exactly its last permitted failure: after any number of \<^verbatim>\<open>nack\<close> calls a
  message that was alive is still stored, with every failure counted while it lives, and it is dead
  if and only if the failures have reached its retry limit.
\<close>
theorem dead_iff_retries_exhausted:
  assumes "dlq_wf d" and "dlq_get q i d = Some m"
    and "status m = ''pending''" and "retry_count m < mmax_retries m"
  shows "\<exists>m'. dlq_get q i (foldl (\<lambda>a (now, err). snd (nack q now i err a)) d xs) = Some m' \<and>
    payload m' = payload m \<and>
    (status m' = ''dead'' \<longleftrightarrow> mmax_retries m \<le> retry_count m + int (length xs))"
proof -
  let ?m = "foldl (\<lambda>a x. nack_row (backoff_base q) x a) m xs"
  have armed: "status m \<noteq> ''dead''" using assms(3) by simp
  have "payload ?m = payload m" by (induction xs rule: rev_induct) auto
  moreover have "status ?m = ''dead'' \<longleftrightarrow> mmax_retries m \<le> retry_count m + int (length xs)"
    using dlq_trip.trips_iff [OF armed assms(4), of _ xs] dlq_trip.run_armed [OF armed, of xs]
    by (metis not_le)
  ultimately show ?thesis using get_nacks [OF assms(1,2)] by blast
qed

definition sample_queue :: dlq where
  "sample_queue = \<lparr>queue_name = ''llm'', dlq_max_retries = 2, backoff_base = 2\<rparr>"

definition sample_db :: dlq_db where
  "sample_db = snd (dlq_add sample_queue 0 [] ''timeout'' None None (init_db None))"

lemma sample_db_wf: "dlq_wf sample_db"
  unfolding sample_db_def by (rule dlq_wf_add) (simp add: dlq_wf_def init_db_def)

theorem dead_iff_retries_exhausted_witness:
  "\<exists>m. dlq_get sample_queue 1
     (foldl (\<lambda>a (now, err). snd (nack sample_queue now 1 err a)) sample_db [(1, ''x''), (2, ''y'')]) = Some m \<and>
     status m = ''dead''"
proof -
  obtain m where m: "dlq_get sample_queue 1 sample_db = Some m" "status m = ''pending''"
      "retry_count m < mmax_retries m" "retry_count m = 0" "mmax_retries m = 2"
    by (simp add: sample_db_def dlq_add_def init_db_def sample_queue_def dlq_get_def selects_def)
  show ?thesis
    using dead_iff_retries_exhausted [OF sample_db_wf m(1-3), of "[(1, ''x''), (2, ''y'')]"] m(4,5) by auto
qed

text \<open>
  One call of \<^verbatim>\<open>retry\<close> is exactly this: every pending message of the queue is given to the
  handler once, whatever its back-off time; those it accepts are removed, those it rejects get one
  failure more, and all other rows stay as they are. The counts it returns add up to the messages
  it took, except that \<^verbatim>\<open>dead\<close> is always reported as 0, also when messages have just died.
\<close>
theorem retry_refines_row_map:
  assumes "dlq_wf d"
    and "\<And>m e. m \<in> set (process q d) \<Longrightarrow> handler (mid m) (payload m) = Some e \<Longrightarrow> is_exception e"
  shows "\<exists>s. dlq_retry q clock handler d =
      (Inr s, d\<lparr>rows := List.map_filter
         (\<lambda>m. if mqueue m = queue_name q \<and> status m = ''pending'' then retry_outcome q clock handler m
              else Some m) (rows d)\<rparr>) \<and>
    total s = length (process q d) \<and> processed s + failed s = total s \<and> dead_count s = 0 \<and>
    failed s = length (filter (\<lambda>m. handler (mid m) (payload m) \<noteq> None) (process q d))"
proof -
  let ?ms = "process q d"
  have "retry_rows q clock handler ?ms s d =
    (Inr (s\<lparr>processed := processed s + length (filter (\<lambda>m. handler (mid m) (payload m) = None) ?ms),
           failed := failed s + length (filter (\<lambda>m. handler (mid m) (payload m) \<noteq> None) ?ms)\<rparr>),
     d\<lparr>rows := List.map_filter (\<lambda>m. if m \<in> set ?ms then retry_outcome q clock handler m else Some m) (rows d)\<rparr>)"
    for s
    by (rule retry_rows_eq [OF assms(1) distinct_process [OF assms(1)]])
      (auto simp: process_rows intro: assms(2))
  moreover have "List.map_filter (\<lambda>m. if m \<in> set ?ms then retry_outcome q clock handler m else Some m) (rows d) =
      List.map_filter (\<lambda>m. if mqueue m = queue_name q \<and> status m = ''pending'' then retry_outcome q clock handler m
        else Some m) (rows d)"
    by (rule map_filter_cong) (auto simp: process_rows)
  ultimately show ?thesis
    using sum_length_filter_compl [of "\<lambda>m. handler (mid m) (payload m) = None" ?ms]
    by (simp add: dlq_retry_def Let_def)
qed

theorem retry_refines_row_map_witness:
  "\<exists>s d. dlq_retry sample_queue (\<lambda>_. 5) (\<lambda>_ _. Some (ValueError ''bad'')) sample_db = (Inr s, d) \<and>
     total s = 1 \<and> failed s = 1 \<and> dead_count s = 0"
proof -
  have "length (process sample_queue sample_db) = 1"
    by (simp add: sample_db_def dlq_add_def init_db_def sample_queue_def process_def)
  then show ?thesis
    using retry_refines_row_map [OF sample_db_wf, of sample_queue "\<lambda>_ _. Some (ValueError ''bad'')" "\<lambda>_. 5"]
    by fastforce
qed

lemma step_other_queues:
  assumes "dlq_wf d"
  shows "filter (\<lambda>m. mqueue m \<noteq> event_queue e) (rows (dlq_step d e)) =
    filter (\<lambda>m. mqueue m \<noteq> event_queue e) (rows d)"
proof -
  have nack: "filter (\<lambda>m. mqueue m \<noteq> queue_name q) (rows (snd (nack q now i err a))) =
      filter (\<lambda>m. mqueue m \<noteq> queue_name q) (rows a)" if "dlq_wf a" for q now i err a
  proof (cases "dlq_get q i a")
    case None
    then show ?thesis by (simp add: nack_def)
  next
    case (Some m)
    let ?f = "\<lambda>r. if selects q i r then nack_row (backoff_base q) (now, err) r else r"
    have "filter (\<lambda>m. mqueue m \<noteq> queue_name q) (map ?f (rows a)) = filter (\<lambda>m. mqueue m \<noteq> queue_name q) (rows a)"
      by (rule filter_map_key_unchanged) (simp_all add: selects_def)
    then show ?thesis by (simp only: nack_hit [OF that Some] snd_conv) simp
  qed
  have ack: "filter (\<lambda>m. mqueue m \<noteq> queue_name q) (rows (snd (ack q i a))) =
      filter (\<lambda>m. mqueue m \<noteq> queue_name q) (rows a)" for q i a
    by (auto simp: ack_def selects_def intro: filter_cong)
  have retry: "filter (\<lambda>m. mqueue m \<noteq> queue_name q) (rows (snd (retry_rows q clock h ms s a))) =
      filter (\<lambda>m. mqueue m \<noteq> queue_name q) (rows a)" if "dlq_wf a" for q clock h ms s a
    using that by (induction ms arbitrary: s a) (auto simp: ack nack dlq_wf_ack dlq_wf_nack split: option.split)
  show ?thesis
  proof (cases e)
    case (Requeue q now i)
    show ?thesis unfolding Requeue dlq_step.simps requeue_def Let_def
      by (auto simp: selects_def split: if_splits intro!: filter_map_key_unchanged)
  qed (auto simp: dlq_add_def Let_def ack nack assms dlq_retry_def retry clear_def intro: filter_cong)
qed

text \<open>
  Queues that share a database do not touch each other: an operation of one queue, a whole
  \<^verbatim>\<open>retry\<close> or \<^verbatim>\<open>clear\<close> included, leaves the rows of every other queue exactly as they were, in
  any state that a run of operations can reach.
\<close>
theorem queues_isolated:
  assumes "event_queue e \<noteq> queue_name q"
  shows "filter (\<lambda>m. mqueue m = queue_name q) (rows (foldl dlq_step (init_db None) (es @ [e]))) =
    filter (\<lambda>m. mqueue m = queue_name q) (rows (foldl dlq_step (init_db None) es))"
proof -
  let ?d = "foldl dlq_step (init_db None) es"
  have wf: "dlq_wf ?d" by (rule dlq_inv.run_invar) (simp add: dlq_wf_def init_db_def)
  have "filter (\<lambda>m. mqueue m = queue_name q) xs =
      filter (\<lambda>m. mqueue m = queue_name q) (filter (\<lambda>m. mqueue m \<noteq> event_queue e) xs)" for xs
    using assms by (auto intro: filter_cong)
  then show ?thesis using step_other_queues [OF wf, of e] by (metis foldl_append foldl_Cons foldl_Nil)
qed

theorem queues_isolated_witness:
  "filter (\<lambda>m. mqueue m = ''llm'') (rows (dlq_step sample_db (Clear \<lparr>queue_name = ''rerank'', dlq_max_retries = 1, backoff_base = 2\<rparr> None)))
     = rows sample_db"
  using queues_isolated [of "Clear \<lparr>queue_name = ''rerank'', dlq_max_retries = 1, backoff_base = 2\<rparr> None"
      sample_queue "[Add sample_queue 0 [] ''timeout'' None None]"]
  by (simp add: sample_queue_def sample_db_def dlq_add_def init_db_def Let_def)

text \<open>The status \<^verbatim>\<open>failed\<close> that \<^verbatim>\<open>stats\<close> reports never occurs: the three counts always add up to it being 0.\<close>

lemma stats_failed_zero:
  assumes "dlq_wf d"
  shows "st_failed (stats q d) = 0"
proof -
  let ?ms = "filter (\<lambda>m. mqueue m = queue_name q) (rows d)"
  have "filter (\<lambda>m. status m \<noteq> ''pending'') ?ms = filter (\<lambda>m. status m = ''dead'') ?ms"
    using assms by (intro filter_cong) (auto simp: dlq_wf_def row_wf_def)
  then show ?thesis
    using sum_length_filter_compl [of "\<lambda>m. status m = ''pending''" ?ms] by (simp add: stats_def Let_def)
qed

end
