(* ===== verification/Cache.thy ===== *)
theory Cache
  imports Prelude
begin

text \<open>
  The response cache, \<^verbatim>\<open>proxy/app/shared/cache.py\<close>: the in-memory store with expiry, the Redis
  store over a client that is a parameter, the manager that prefixes keys and counts hits, and the
  semantic cache on top of it. Cached values are JSON values; Python's \<^verbatim>\<open>None\<close> is \<open>JNull\<close>, so that a
  miss and a stored \<^verbatim>\<open>None\<close> are the same, as they are for the callers. The embedding model and the
  MD5 digests are parameters.
\<close>

subsection \<open>The in-memory store\<close>

type_synonym store = "(string, json \<times> real) dict"

definition is_expired :: "real \<Rightarrow> real \<Rightarrow> bool" where
  "is_expired now expire_ts \<longleftrightarrow> expire_ts < now"

definition get_value :: "real \<Rightarrow> string \<Rightarrow> store \<Rightarrow> json \<times> store" where
  "get_value now k s =
     (case dict_get s k of
        None \<Rightarrow> (JNull, s)
      | Some (v, expire_ts) \<Rightarrow> if is_expired now expire_ts then (JNull, dict_del k s) else (v, s))"

definition set_value :: "real \<Rightarrow> string \<Rightarrow> json \<Rightarrow> real \<Rightarrow> store \<Rightarrow> bool \<times> store" where
  "set_value now k v ttl s = (True, dict_set k (v, now + ttl) s)"

definition delete_value :: "string \<Rightarrow> store \<Rightarrow> bool \<times> store" where
  "delete_value k s = (if dict_has s k then (True, dict_del k s) else (False, s))"

definition clear_store :: "store \<Rightarrow> store" where
  "clear_store s = []"

subsection \<open>Backends\<close>

text \<open>
  What \<^verbatim>\<open>CacheManager\<close> calls on its backend. \<open>live s t k\<close> is what the backend's state \<open>s\<close> holds for
  key \<open>k\<close> at time \<open>t\<close>.
\<close>

record 's backend =
  bget :: "real \<Rightarrow> string \<Rightarrow> 's \<Rightarrow> json \<times> 's"
  bset :: "real \<Rightarrow> string \<Rightarrow> json \<Rightarrow> real \<Rightarrow> 's \<Rightarrow> bool \<times> 's"
  bdelete :: "string \<Rightarrow> 's \<Rightarrow> bool \<times> 's"
  bclear :: "'s \<Rightarrow> 's"

definition memory_backend :: "store backend" where
  "memory_backend = \<lparr>bget = get_value, bset = set_value, bdelete = delete_value, bclear = clear_store\<rparr>"

definition live :: "store \<Rightarrow> real \<Rightarrow> string \<Rightarrow> json" where
  "live s t k =
     (case dict_get s k of None \<Rightarrow> JNull | Some (v, e) \<Rightarrow> if is_expired t e then JNull else v)"

record 's cache_manager =
  key_prefix :: string
  backend_state :: 's
  cache_hits :: nat
  cache_misses :: nat

definition init_cache_manager :: "string \<Rightarrow> 's \<Rightarrow> 's cache_manager" where
  "init_cache_manager p s = \<lparr>key_prefix = p, backend_state = s, cache_hits = 0, cache_misses = 0\<rparr>"

definition full_key :: "'s cache_manager \<Rightarrow> string \<Rightarrow> string" where
  "full_key c k = (if key_prefix c \<noteq> [] then key_prefix c @ k else k)"

definition cache_get :: "'s backend \<Rightarrow> real \<Rightarrow> string \<Rightarrow> 's cache_manager \<Rightarrow> json \<times> 's cache_manager" where
  "cache_get b now k c =
     (let (v, s) = bget b now (full_key c k) (backend_state c);
          c = c\<lparr>backend_state := s\<rparr>
      in if v \<noteq> JNull then (v, c\<lparr>cache_hits := cache_hits c + 1\<rparr>)
         else (v, c\<lparr>cache_misses := cache_misses c + 1\<rparr>))"

definition cache_set ::
  "'s backend \<Rightarrow> real \<Rightarrow> string \<Rightarrow> json \<Rightarrow> real \<Rightarrow> 's cache_manager \<Rightarrow> bool \<times> 's cache_manager" where
  "cache_set b now k v ttl c =
     (let (ok, s) = bset b now (full_key c k) v ttl (backend_state c) in (ok, c\<lparr>backend_state := s\<rparr>))"

definition cache_delete :: "'s backend \<Rightarrow> string \<Rightarrow> 's cache_manager \<Rightarrow> bool \<times> 's cache_manager" where
  "cache_delete b k c =
     (let (ok, s) = bdelete b (full_key c k) (backend_state c) in (ok, c\<lparr>backend_state := s\<rparr>))"

definition cache_clear :: "'s backend \<Rightarrow> 's cache_manager \<Rightarrow> 's cache_manager" where
  "cache_clear b c = c\<lparr>backend_state := bclear b (backend_state c)\<rparr>"

subsection \<open>The Redis store\<close>

text \<open>
  The Redis client and the \<^verbatim>\<open>json\<close> codec are parameters. The synchronous operations turn every
  failure of the client into a miss; \<^verbatim>\<open>get\<close> and \<^verbatim>\<open>set\<close> let it through.
\<close>

record 'r redis_client =
  redis_get :: "string \<Rightarrow> 'r \<Rightarrow> (exn + string option) \<times> 'r"
  redis_setex :: "string \<Rightarrow> real \<Rightarrow> string \<Rightarrow> 'r \<Rightarrow> (exn + unit) \<times> 'r"
  redis_delete :: "string \<Rightarrow> 'r \<Rightarrow> (exn + int) \<times> 'r"

definition decode_redis :: "(string \<Rightarrow> json option) \<Rightarrow> string \<Rightarrow> json" where
  "decode_redis loads s = (case loads s of Some j \<Rightarrow> j | None \<Rightarrow> JStr s)"

definition encode_redis :: "(json \<Rightarrow> string) \<Rightarrow> json \<Rightarrow> string" where
  "encode_redis dumps v = (case v of JStr s \<Rightarrow> s | _ \<Rightarrow> dumps v)"

definition redis_cache_get ::
  "'r redis_client \<Rightarrow> (string \<Rightarrow> json option) \<Rightarrow> string \<Rightarrow> 'r \<Rightarrow> (exn + json) \<times> 'r" where
  "redis_cache_get cl loads k r =
     (case redis_get cl k r of
        (Inl e, r) \<Rightarrow> (Inl e, r)
      | (Inr None, r) \<Rightarrow> (Inr JNull, r)
      | (Inr (Some s), r) \<Rightarrow> (Inr (decode_redis loads s), r))"

definition redis_cache_set ::
  "'r redis_client \<Rightarrow> (json \<Rightarrow> string) \<Rightarrow> string \<Rightarrow> json \<Rightarrow> real \<Rightarrow> 'r \<Rightarrow> (exn + bool) \<times> 'r" where
  "redis_cache_set cl dumps k v ttl r =
     (case redis_setex cl k ttl (encode_redis dumps v) r of
        (Inl e, r) \<Rightarrow> (Inl e, r)
      | (Inr _, r) \<Rightarrow> (Inr True, r))"

definition redis_cache_delete :: "'r redis_client \<Rightarrow> string \<Rightarrow> 'r \<Rightarrow> (exn + bool) \<times> 'r" where
  "redis_cache_delete cl k r =
     (case redis_delete cl k r of (Inl e, r) \<Rightarrow> (Inl e, r) | (Inr n, r) \<Rightarrow> (Inr (n > 0), r))"

definition guard_sync :: "'a \<Rightarrow> (exn + 'a) \<times> 'r \<Rightarrow> (exn + 'a) \<times> 'r" where
  \<comment> \<open>\<^verbatim>\<open>except Exception\<close> with a default result\<close>
  "guard_sync d x =
     (case x of (Inl e, r) \<Rightarrow> (if is_exception e then Inr d else Inl e, r) | (Inr v, r) \<Rightarrow> (Inr v, r))"

definition redis_get_sync ::
  "'r redis_client \<Rightarrow> (string \<Rightarrow> json option) \<Rightarrow> string \<Rightarrow> 'r \<Rightarrow> (exn + json) \<times> 'r" where
  "redis_get_sync cl loads k r = guard_sync JNull (redis_cache_get cl loads k r)"

definition redis_set_sync ::
  "'r redis_client \<Rightarrow> (json \<Rightarrow> string) \<Rightarrow> string \<Rightarrow> json \<Rightarrow> real \<Rightarrow> 'r \<Rightarrow> (exn + bool) \<times> 'r" where
  "redis_set_sync cl dumps k v ttl r = guard_sync False (redis_cache_set cl dumps k v ttl r)"

definition redis_delete_sync :: "'r redis_client \<Rightarrow> string \<Rightarrow> 'r \<Rightarrow> (exn + bool) \<times> 'r" where
  "redis_delete_sync cl k r = guard_sync False (redis_cache_delete cl k r)"

subsection \<open>The semantic cache\<close>

text \<open>
  \<open>embed\<close> is the embedding model, with \<open>None\<close> when it is missing or fails; \<open>bucket_md5\<close> the first 8
  hex digits of the MD5 digest over the rounded components (sign and hundredths of each), \<open>query_md5\<close>
  the first 16 of the digest over the query, \<open>str_of\<close> Python's \<^verbatim>\<open>str\<close> on a value that is not a string.
\<close>

record sem_env =
  embed :: "string \<Rightarrow> real list option"
  bucket_md5 :: "(bool \<times> int) list \<Rightarrow> string"
  query_md5 :: "string \<Rightarrow> string"
  str_of :: "json \<Rightarrow> string"
  threshold :: real
  sem_ttl :: real

definition SEMANTIC_CACHE_BUCKET_SIZE :: nat where
  "SEMANTIC_CACHE_BUCKET_SIZE = 50"

definition SEMANTIC_CACHE_MAX_SCAN_ENTRIES :: nat where
  "SEMANTIC_CACHE_MAX_SCAN_ENTRIES = 200"

definition round_half_even :: "real \<Rightarrow> int" where
  "round_half_even x =
     (let f = \<lfloor>x\<rfloor>; r = x - of_int f in
      if r < 1/2 then f else if r > 1/2 then f + 1 else if even f then f else f + 1)"

definition bucket_key :: "sem_env \<Rightarrow> real list \<Rightarrow> string" where
  "bucket_key E emb =
     ''sem_cache:bucket:'' @ bucket_md5 E (map (\<lambda>x. (x < 0, \<bar>round_half_even (100 * x)\<bar>)) (take 8 emb))"

definition entry_key :: "sem_env \<Rightarrow> string \<Rightarrow> string" where
  "entry_key E q = ''sem_cache:entry:'' @ query_md5 E q"

definition cosine_similarity :: "real list \<Rightarrow> real list \<Rightarrow> real" where
  "cosine_similarity a b = max 0 (min 1 (sum_list (map2 (*) a b)))"

fun number :: "json \<Rightarrow> real option" where
  "number (JFloat x) = Some x"
| "number (JInt i) = Some (of_int i)"
| "number (JBool b) = Some (if b then 1 else 0)"
| "number _ = None"

fun numbers :: "json list \<Rightarrow> real list option" where
  "numbers [] = Some []"
| "numbers (j # js) =
     (case number j of None \<Rightarrow> None | Some x \<Rightarrow> map_option (\<lambda>xs. x # xs) (numbers js))"

definition entry_sim :: "real list \<Rightarrow> json \<Rightarrow> exn + real" where
  "entry_sim a b =
     (case b of
        JList js \<Rightarrow>
          (case numbers (take (length a) js) of
             None \<Rightarrow> Inl (PyException ''TypeError'' ''unsupported operand'')
           | Some xs \<Rightarrow> Inr (cosine_similarity a xs))
      | _ \<Rightarrow> Inl (PyException ''TypeError'' ''zip argument is not iterable''))"

datatype verdict = Skip | Return string | Raise exn

definition judge_entry :: "sem_env \<Rightarrow> real list \<Rightarrow> json \<Rightarrow> verdict" where
  \<comment> \<open>the body of the loop of \<^verbatim>\<open>get\<close>, after the entry has been fetched\<close>
  "judge_entry E emb v =
     (case v of
        JNull \<Rightarrow> Skip
      | JObj entry \<Rightarrow>
          (let stored = dict_getd entry ''e'' JNull in
           if stored = JNull then Skip
           else
             (case entry_sim emb stored of
                Inl e \<Rightarrow> Raise e
              | Inr sim \<Rightarrow>
                  (if sim \<ge> threshold E
                   then (case dict_getd entry ''r'' JNull of
                           JNull \<Rightarrow> Skip | JStr r \<Rightarrow> Return r | x \<Rightarrow> Return (str_of E x))
                   else Skip)))
      | _ \<Rightarrow> Raise (PyException ''AttributeError'' ''get''))"

fun scan_entries ::
  "'s backend \<Rightarrow> sem_env \<Rightarrow> real \<Rightarrow> real list \<Rightarrow> json list \<Rightarrow> 's cache_manager \<Rightarrow>
   (exn + string option) \<times> 's cache_manager" where
  "scan_entries b E now emb [] c = (Inr None, c)"
| "scan_entries b E now emb (JStr i # ids) c =
     (let (v, c) = cache_get b now i c in
      case judge_entry E emb v of
        Skip \<Rightarrow> scan_entries b E now emb ids c
      | Return r \<Rightarrow> (Inr (Some r), c)
      | Raise e \<Rightarrow> (Inl e, c))"
| "scan_entries b E now emb (_ # ids) c = (Inl (PyException ''TypeError'' ''key''), c)"

definition sem_get ::
  "'s backend \<Rightarrow> sem_env \<Rightarrow> real \<Rightarrow> string \<Rightarrow> 's cache_manager \<Rightarrow>
   (exn + string option) \<times> 's cache_manager" where
  "sem_get b E now query c =
     (case embed E query of
        None \<Rightarrow> (Inr None, c)
      | Some emb \<Rightarrow>
          (case cache_get b now (bucket_key E emb) c of
             (JList ids, c) \<Rightarrow> scan_entries b E now emb (take SEMANTIC_CACHE_MAX_SCAN_ENTRIES ids) c
           | (_, c) \<Rightarrow> (Inr None, c)))"

definition sem_entry :: "real list \<Rightarrow> string \<Rightarrow> string \<Rightarrow> json" where
  "sem_entry emb response query =
     JObj [(''e'', JList (map JFloat emb)), (''r'', JStr response), (''q'', JStr (take 200 query))]"

definition sem_set ::
  "'s backend \<Rightarrow> sem_env \<Rightarrow> real \<Rightarrow> string \<Rightarrow> string \<Rightarrow> 's cache_manager \<Rightarrow> bool \<times> 's cache_manager" where
  "sem_set b E now query response c =
     (case embed E query of
        None \<Rightarrow> (False, c)
      | Some emb \<Rightarrow>
          (let i = entry_key E query; bucket = bucket_key E emb;
               c = snd (cache_set b now i (sem_entry emb response query) (sem_ttl E) c);
               (raw, c) = cache_get b now bucket c;
               ids = (case raw of JList ids \<Rightarrow> ids | _ \<Rightarrow> [])
           in if JStr i \<notin> set ids
              then (let ids = JStr i # ids;
                        ids = (if length ids > SEMANTIC_CACHE_BUCKET_SIZE
                               then take SEMANTIC_CACHE_BUCKET_SIZE ids else ids)
                    in (True, snd (cache_set b now bucket (JList ids) (sem_ttl E * 2) c)))
              else (True, c)))"

subsection \<open>What every backend promises its manager\<close>

locale cache_backend =
  fixes b :: "'s backend"
    and live_in :: "'s \<Rightarrow> real \<Rightarrow> string \<Rightarrow> json"
  assumes get_live: "fst (bget b now k s) = live_in s now k"
    and get_keeps: "now \<le> t \<Longrightarrow> live_in (snd (bget b now k s)) t k' = live_in s t k'"
    and set_live: "live_in (snd (bset b now k v ttl s)) t k' =
      (if k' = k then (if now + ttl < t then JNull else v) else live_in s t k')"
    and delete_live: "live_in (snd (bdelete b k s)) t k' = (if k' = k then JNull else live_in s t k')"
    and clear_live: "live_in (bclear b s) t k' = JNull"
begin

definition view :: "'s cache_manager \<Rightarrow> real \<Rightarrow> string \<Rightarrow> json" where
  "view c t k = live_in (backend_state c) t (full_key c k)"

lemma full_key_upd [simp]:
  "full_key (c\<lparr>backend_state := s\<rparr>) k = full_key c k"
  "full_key (c\<lparr>cache_hits := n\<rparr>) k = full_key c k"
  "full_key (c\<lparr>cache_misses := n\<rparr>) k = full_key c k"
  by (simp_all add: full_key_def)

lemma full_key_inj [simp]: "full_key c k = full_key c k' \<longleftrightarrow> k = k'"
  by (simp add: full_key_def)

lemma cache_get_view: "fst (cache_get b now k c) = view c now k"
  by (simp add: cache_get_def view_def get_live [symmetric] Let_def case_prod_beta)

lemma cache_get_keeps: "now \<le> t \<Longrightarrow> view (snd (cache_get b now k c)) t k' = view c t k'"
  by (simp add: cache_get_def view_def Let_def case_prod_beta get_keeps)

lemma cache_set_view:
  "view (snd (cache_set b now k v ttl c)) t k' =
     (if k' = k then (if now + ttl < t then JNull else v) else view c t k')"
  by (simp add: cache_set_def view_def Let_def case_prod_beta set_live)

lemma cache_delete_view:
  "view (snd (cache_delete b k c)) t k' = (if k' = k then JNull else view c t k')"
  by (simp add: cache_delete_def view_def Let_def case_prod_beta delete_live)

lemma cache_clear_view: "view (cache_clear b c) t k = JNull"
  by (simp add: cache_clear_def view_def clear_live)

lemma cache_get_pair: "cache_get b now k c = (view c now k, snd (cache_get b now k c))"
  by (simp add: cache_get_view [symmetric])

lemma scan_JStr:
  "scan_entries b E now emb (JStr i # ids) c =
     (case judge_entry E emb (view c now i) of
        Skip \<Rightarrow> scan_entries b E now emb ids (snd (cache_get b now i c))
      | Return r \<Rightarrow> (Inr (Some r), snd (cache_get b now i c))
      | Raise e \<Rightarrow> (Inl e, snd (cache_get b now i c)))"
  by (subst scan_entries.simps, subst cache_get_pair) simp

lemma scan_hit:
  assumes "fst (scan_entries b E now emb ids c) = Inr (Some r)"
  shows "\<exists>i. JStr i \<in> set ids \<and> judge_entry E emb (view c now i) = Return r"
  using assms
proof (induction ids arbitrary: c)
  case (Cons j ids)
  show ?case
  proof (cases j)
    case (JStr i)
    show ?thesis
      using Cons.prems Cons.IH [of "snd (cache_get b now i c)"] unfolding JStr scan_JStr
      by (auto simp: cache_get_keeps split: verdict.splits)
  qed (use Cons.prems in auto)
qed simp

lemma sem_get_hit:
  assumes "fst (sem_get b E now q c) = Inr (Some r)"
  shows "\<exists>emb ids i. embed E q = Some emb \<and> view c now (bucket_key E emb) = JList ids \<and>
    JStr i \<in> set ids \<and> judge_entry E emb (view c now i) = Return r"
proof -
  obtain emb where emb: "embed E q = Some emb"
    using assms by (cases "embed E q") (auto simp: sem_get_def)
  let ?k = "bucket_key E emb" let ?c = "snd (cache_get b now ?k c)"
  obtain ids where ids: "view c now ?k = JList ids"
    and scan: "fst (scan_entries b E now emb (take SEMANTIC_CACHE_MAX_SCAN_ENTRIES ids) ?c) = Inr (Some r)"
    using assms unfolding sem_get_def emb option.case
    by (subst (asm) cache_get_pair) (cases "view c now ?k"; simp)
  obtain i where "JStr i \<in> set (take SEMANTIC_CACHE_MAX_SCAN_ENTRIES ids)"
    and "judge_entry E emb (view ?c now i) = Return r"
    using scan_hit [OF scan] by blast
  then show ?thesis using emb ids by (auto simp: cache_get_keeps dest: in_set_takeD)
qed

definition set_bucket :: "sem_env \<Rightarrow> real \<Rightarrow> string \<Rightarrow> string \<Rightarrow> real list \<Rightarrow> 's cache_manager \<Rightarrow> json list" where
  \<comment> \<open>the bucket that \<^verbatim>\<open>set\<close> finds after it has stored the entry\<close>
  "set_bucket E now q r emb c =
     (case view (snd (cache_set b now (entry_key E q) (sem_entry emb r q) (sem_ttl E) c)) now (bucket_key E emb) of
        JList ids \<Rightarrow> ids | _ \<Rightarrow> [])"

lemma sem_set_view:
  assumes "embed E q = Some emb" and "now \<le> t"
  shows "view (snd (sem_set b E now q r c)) t k =
    (let i = entry_key E q; ids = set_bucket E now q r emb c in
     if k = bucket_key E emb \<and> JStr i \<notin> set ids
     then (if now + sem_ttl E * 2 < t then JNull else JList (take SEMANTIC_CACHE_BUCKET_SIZE (JStr i # ids)))
     else if k = i then (if now + sem_ttl E < t then JNull else sem_entry emb r q)
     else view c t k)"
  using assms(2) unfolding sem_set_def assms(1) option.case Let_def set_bucket_def
  by (subst cache_get_pair) (auto simp: cache_set_view cache_get_keeps)

end

subsection \<open>The in-memory store keeps the contract\<close>

interpretation mem: cache_backend memory_backend live
proof
  show "fst (bget memory_backend now k s) = live s now k" for now k s
    by (auto simp: memory_backend_def get_value_def live_def split: option.split)
  show "live (snd (bget memory_backend now k s)) t k' = live s t k'" if "now \<le> t" for now t k s k'
    using that by (auto simp: memory_backend_def get_value_def live_def is_expired_def split: option.split)
  show "live (snd (bset memory_backend now k v ttl s)) t k' =
      (if k' = k then (if now + ttl < t then JNull else v) else live s t k')" for now k v ttl s t k'
    by (simp add: memory_backend_def set_value_def live_def is_expired_def)
  show "live (snd (bdelete memory_backend k s)) t k' = (if k' = k then JNull else live s t k')" for k s t k'
    by (auto simp: memory_backend_def delete_value_def live_def split: option.split)
  show "live (bclear memory_backend s) t k' = JNull" for s t k'
    by (simp add: memory_backend_def clear_store_def live_def)
qed

lemma entry_not_bucket [simp]: "entry_key E q \<noteq> bucket_key E emb" "bucket_key E emb \<noteq> entry_key E q"
  by (simp_all add: entry_key_def bucket_key_def)

lemma numbers_floats [simp]: "numbers (map JFloat xs) = Some xs"
  by (induction xs) auto

lemma judge_own_entry:
  "threshold E \<le> cosine_similarity emb emb \<Longrightarrow> judge_entry E emb (sem_entry emb r q) = Return r"
  by (simp add: judge_entry_def sem_entry_def dict_getd_def entry_sim_def Let_def)

definition bucket_ids :: "sem_env \<Rightarrow> real list \<Rightarrow> real \<Rightarrow> store cache_manager \<Rightarrow> json list" where
  "bucket_ids E emb now c =
     (case live (backend_state c) now (full_key c (bucket_key E emb)) of JList ids \<Rightarrow> ids | _ \<Rightarrow> [])"

lemma set_bucket_eq: "mem.set_bucket E now q r emb c = bucket_ids E emb now c"
  by (simp add: mem.set_bucket_def mem.cache_set_view bucket_ids_def mem.view_def [symmetric])

lemma sem_get_first:
  assumes "embed E q = Some emb" and "mem.view c t (bucket_key E emb) = JList (JStr i # ids)"
    and "judge_entry E emb (mem.view c t i) = Return r"
  shows "fst (sem_get memory_backend E t q c) = Inr (Some r)"
proof -
  let ?c = "snd (cache_get memory_backend t (bucket_key E emb) c)"
  have "sem_get memory_backend E t q c =
      scan_entries memory_backend E t emb (take SEMANTIC_CACHE_MAX_SCAN_ENTRIES (JStr i # ids)) ?c"
    unfolding sem_get_def assms(1) option.case by (subst mem.cache_get_pair) (simp add: assms(2))
  also have "\<dots> = scan_entries memory_backend E t emb (JStr i # take 199 ids) ?c"
    by (simp add: SEMANTIC_CACHE_MAX_SCAN_ENTRIES_def)
  finally show ?thesis
    unfolding mem.scan_JStr by (simp add: mem.cache_get_keeps assms(3))
qed

subsection \<open>Properties\<close>

text \<open>
  What \<^verbatim>\<open>CacheManager.set\<close> stores in memory is what \<^verbatim>\<open>get\<close> returns until the time to live is
  over, and nothing after that. Managers that share a store interfere only through equal full keys:
  for any second manager \<^verbatim>\<open>get\<close> answers as before unless prefix and key spell the same full key.
\<close>
theorem cache_set_then_get:
  "fst (cache_get memory_backend t k' (c'\<lparr>backend_state := backend_state (snd (cache_set memory_backend now k v ttl c))\<rparr>)) =
     (if full_key c' k' = full_key c k then (if now + ttl < t then JNull else v)
      else fst (cache_get memory_backend t k' (c'\<lparr>backend_state := backend_state c\<rparr>)))"
proof -
  have "live (backend_state (snd (cache_set memory_backend now k v ttl c))) t x =
      (if x = full_key c k then (if now + ttl < t then JNull else v) else live (backend_state c) t x)" for x
    by (simp add: cache_set_def Let_def case_prod_beta mem.set_live)
  then show ?thesis by (simp add: mem.cache_get_view mem.view_def)
qed

text \<open>
  C40. The semantic cache answers a repeated question: once a response has been stored for a query
  that its bucket did not yet list, the same query returns that response for as long as the time to
  live, provided the query's embedding is similar enough to itself (which holds for normalized
  embeddings and a threshold up to 1).
\<close>
theorem semantic_set_then_get:
  assumes "embed E q = Some emb" and "threshold E \<le> cosine_similarity emb emb" and "0 \<le> sem_ttl E"
    and "now \<le> t" and "t \<le> now + sem_ttl E"
    and "JStr (entry_key E q) \<notin> set (bucket_ids E emb now c)"
  shows "fst (sem_get memory_backend E t q (snd (sem_set memory_backend E now q r c))) = Inr (Some r)"
proof -
  let ?i = "entry_key E q" let ?c = "snd (sem_set memory_backend E now q r c)"
  let ?ids = "mem.set_bucket E now q r emb c"
  have fresh: "JStr ?i \<notin> set ?ids" using assms(6) by (simp add: set_bucket_eq)
  have "mem.view ?c t (bucket_key E emb) = JList (JStr ?i # take 49 ?ids)"
    and "mem.view ?c t ?i = sem_entry emb r q"
    using fresh assms(3-5)
    by (simp_all add: mem.sem_set_view [OF assms(1,4)] Let_def SEMANTIC_CACHE_BUCKET_SIZE_def)
  then show ?thesis using judge_own_entry [OF assms(2)] by (intro sem_get_first [OF assms(1)]) auto
qed

definition sample_env :: sem_env where
  "sample_env = \<lparr>embed = (\<lambda>q. Some [1, 0]), bucket_md5 = (\<lambda>_. ''b''), query_md5 = (\<lambda>q. q),
     str_of = (\<lambda>_. []), threshold = 92/100, sem_ttl = 300\<rparr>"

theorem semantic_set_then_get_witness:
  "fst (sem_get memory_backend sample_env 10 ''q'' (snd (sem_set memory_backend sample_env 0 ''q'' ''answer''
     (init_cache_manager ''rag:'' [])))) = Inr (Some ''answer'')"
  by (rule semantic_set_then_get [of sample_env "''q''" "[1, 0]" 0 10])
    (simp_all add: sample_env_def cosine_similarity_def bucket_ids_def init_cache_manager_def live_def)

lemma judge_return:
  assumes "judge_entry E emb v = Return r"
  shows "\<exists>entry s. v = JObj entry \<and> entry_sim emb (dict_getd entry ''e'' JNull) = Inr s \<and>
    threshold E \<le> s \<and> dict_getd entry ''r'' JNull \<in> {x. x = JStr r \<or> x \<noteq> JNull \<and> r = str_of E x}"
proof (cases v)
  case (JObj entry)
  let ?e = "dict_getd entry ''e'' JNull" let ?r = "dict_getd entry ''r'' JNull"
  have ne: "?e \<noteq> JNull" using assms JObj by (auto simp: judge_entry_def Let_def)
  then obtain s where s: "entry_sim emb ?e = Inr s" "threshold E \<le> s"
    using assms JObj by (auto simp: judge_entry_def Let_def split: sum.splits if_splits)
  then have "?r = JStr r \<or> ?r \<noteq> JNull \<and> r = str_of E ?r"
    using assms JObj ne by (cases ?r) (auto simp: judge_entry_def Let_def)
  with JObj s show ?thesis by auto
qed (use assms in \<open>auto simp: judge_entry_def\<close>)

text \<open>
  A hit of the semantic cache is justified: the response it returns belongs to an entry that is
  alive at that moment, is listed in the bucket of the query, and whose stored embedding is at least
  as similar to the query's as the threshold demands.
\<close>
theorem semantic_hit_sound:
  assumes "fst (sem_get memory_backend E now q c) = Inr (Some r)"
  shows "\<exists>emb i entry s. embed E q = Some emb \<and> JStr i \<in> set (bucket_ids E emb now c) \<and>
    live (backend_state c) now (full_key c i) = JObj entry \<and>
    entry_sim emb (dict_getd entry ''e'' JNull) = Inr s \<and> threshold E \<le> s \<and>
    dict_getd entry ''r'' JNull \<in> {x. x = JStr r \<or> x \<noteq> JNull \<and> r = str_of E x}"
proof -
  obtain emb ids i where emb: "embed E q = Some emb" and ids: "mem.view c now (bucket_key E emb) = JList ids"
    and i: "JStr i \<in> set ids" and ret: "judge_entry E emb (mem.view c now i) = Return r"
    using mem.sem_get_hit [OF assms] by blast
  have "JStr i \<in> set (bucket_ids E emb now c)" using ids i by (simp add: bucket_ids_def mem.view_def)
  with emb judge_return [OF ret] show ?thesis unfolding mem.view_def by blast
qed

definition sample_manager :: "store cache_manager" where
  "sample_manager = init_cache_manager [] [(bucket_key sample_env [1, 0], (JList [JStr ''e1''], 9)),
     (''e1'', (JObj [(''e'', JList [JFloat 1, JFloat 0]), (''r'', JStr ''a'')], 9))]"

theorem semantic_hit_sound_witness:
  "\<exists>emb i entry s. embed sample_env ''q'' = Some emb \<and> JStr i \<in> set (bucket_ids sample_env emb 1 sample_manager) \<and>
    live (backend_state sample_manager) 1 (full_key sample_manager i) = JObj entry \<and>
    entry_sim emb (dict_getd entry ''e'' JNull) = Inr s \<and> 92/100 \<le> s"
proof -
  have hit: "fst (sem_get memory_backend sample_env 1 ''q'' sample_manager) = Inr (Some ''a'')"
    by (rule sem_get_first [where ids = "[]" and emb = "[1, 0]" and i = "''e1''"])
      (simp_all add: mem.view_def sample_manager_def init_cache_manager_def full_key_def live_def is_expired_def
        sample_env_def bucket_key_def judge_entry_def dict_getd_def entry_sim_def cosine_similarity_def)
  have "threshold sample_env = 92/100" by (simp add: sample_env_def)
  with semantic_hit_sound [OF hit] show ?thesis by metis
qed

text \<open>
  A renewed entry does not keep its bucket alive: \<^verbatim>\<open>set\<close> writes the bucket, and so renews its
  time to live, only when the entry's id is new to it. When a listed entry is stored again, the
  entry lives for a full time to live, but as soon as the old bucket expires the query misses.
\<close>
theorem renewed_entry_lost_with_bucket:
  assumes "embed E q = Some emb" and "JStr (entry_key E q) \<in> set (bucket_ids E emb now c)"
    and "now \<le> t" and "t \<le> now + sem_ttl E"
    and "live (backend_state c) t (full_key c (bucket_key E emb)) = JNull"
  shows "cache_get memory_backend t (entry_key E q) (snd (sem_set memory_backend E now q r c)) =
      (sem_entry emb r q, snd (cache_get memory_backend t (entry_key E q) (snd (sem_set memory_backend E now q r c)))) \<and>
    fst (sem_get memory_backend E t q (snd (sem_set memory_backend E now q r c))) = Inr None"
proof -
  let ?c = "snd (sem_set memory_backend E now q r c)"
  have "mem.view ?c t (entry_key E q) = sem_entry emb r q"
    and bucket: "mem.view ?c t (bucket_key E emb) = JNull"
    using assms(2,4,5) by (auto simp: mem.sem_set_view [OF assms(1,3)] Let_def set_bucket_eq mem.view_def [symmetric])
  moreover have "fst (sem_get memory_backend E t q ?c) = Inr None"
    unfolding sem_get_def assms(1) option.case by (subst mem.cache_get_pair) (simp add: bucket)
  ultimately show ?thesis by (metis mem.cache_get_pair)
qed

theorem renewed_entry_lost_with_bucket_witness:
  "fst (sem_get memory_backend sample_env 601 ''q'' (snd (sem_set memory_backend sample_env 500 ''q'' ''new''
     (snd (sem_set memory_backend sample_env 0 ''q'' ''old'' (init_cache_manager [] [])))))) = Inr None"
proof -
  let ?c = "snd (sem_set memory_backend sample_env 0 ''q'' ''old'' (init_cache_manager [] []))"
  have emb: "embed sample_env ''q'' = Some [1, 0]" and ttl: "sem_ttl sample_env = 300"
    by (simp_all add: sample_env_def)
  have none: "bucket_ids sample_env [1, 0] 0 (init_cache_manager [] []) = []"
    by (simp add: bucket_ids_def init_cache_manager_def live_def)
  have v: "mem.view ?c t (bucket_key sample_env [1, 0]) =
      (if 600 < t then JNull else JList [JStr (entry_key sample_env ''q'')])" if "0 \<le> t" for t
    by (simp add: mem.sem_set_view [OF emb that] Let_def set_bucket_eq none SEMANTIC_CACHE_BUCKET_SIZE_def ttl)
  show ?thesis
    by (rule conjunct2 [OF renewed_entry_lost_with_bucket [OF emb]])
      (use v [of 500] v [of 601] in \<open>simp_all add: bucket_ids_def mem.view_def [symmetric] ttl\<close>)
qed

text \<open>No bucket ever lists more than 50 entries, whatever queries are stored and looked up.\<close>

definition lists_bounded :: "store \<Rightarrow> bool" where
  "lists_bounded s \<longleftrightarrow>
     (\<forall>k e ids. map_of s k = Some (JList ids, e) \<longrightarrow> length ids \<le> SEMANTIC_CACHE_BUCKET_SIZE)"

lemma lists_bounded_get:
  "lists_bounded (backend_state c) \<Longrightarrow> lists_bounded (backend_state (snd (cache_get memory_backend now k c)))"
  by (auto simp: cache_get_def Let_def memory_backend_def get_value_def lists_bounded_def split: option.split)

lemma lists_bounded_set:
  assumes "lists_bounded (backend_state c)"
  shows "lists_bounded (backend_state (snd (sem_set memory_backend E now q r c)))"
proof (cases "embed E q")
  case (Some emb)
  let ?c = "snd (cache_set memory_backend now (entry_key E q) (sem_entry emb r q) (sem_ttl E) c)"
  have "lists_bounded (backend_state ?c)"
    using assms by (simp add: cache_set_def memory_backend_def set_value_def lists_bounded_def sem_entry_def Let_def)
  then have "lists_bounded (backend_state (snd (cache_get memory_backend now (bucket_key E emb) ?c)))"
    by (rule lists_bounded_get)
  then show ?thesis
    by (auto simp: sem_set_def Some Let_def case_prod_beta cache_set_def memory_backend_def set_value_def
        lists_bounded_def SEMANTIC_CACHE_BUCKET_SIZE_def)
qed (use assms in \<open>simp add: sem_set_def\<close>)

lemma semantic_buckets_bounded:
  "lists_bounded (backend_state (foldl (\<lambda>c (now, q, r). snd (sem_set memory_backend E now q r c))
     (init_cache_manager p []) xs))"
proof (induction xs rule: rev_induct)
  case Nil
  show ?case by (simp add: init_cache_manager_def lists_bounded_def)
qed (auto intro: lists_bounded_set)

text \<open>
  A string that is itself JSON does not survive the Redis store: it is written as it is and read
  back decoded, so that a cached text \<^verbatim>\<open>null\<close> even becomes a miss.
\<close>

lemma redis_string_decoded:
  assumes "redis_setex cl k ttl s r = (Inr (), r')" and "redis_get cl k r' = (Inr (Some s), r')"
    and "loads s = Some JNull"
  shows "redis_cache_get cl loads k (snd (redis_cache_set cl dumps k (JStr s) ttl r)) = (Inr JNull, r')"
  using assms by (simp add: redis_cache_get_def redis_cache_set_def encode_redis_def decode_redis_def)

end
