(* ===== verification/Wal.thy ===== *)
theory Wal
  imports Prelude
begin

text \<open>
  The checkpoint log of the ETL pipelines, \<^verbatim>\<open>etl/indexer/wal_manager.py\<close>: the three backends and the
  manager. The file backend is modelled down to the content of the JSON file and the ways in which
  opening and writing it can fail; the Redis client and the HTTP calls to the proxy are parameters.
  The manager runs against any backend. File locks are modelled only as far as the removal of
  a stale lock file: every operation below runs alone.
\<close>

subsection \<open>Backends\<close>

record 'w wal_backend =
  wal_read :: "'w \<Rightarrow> exn + json"
  wal_write :: "json_obj \<Rightarrow> 'w \<Rightarrow> (exn + unit) \<times> 'w"

datatype file_content = Missing | Garbage | Text json

datatype disk = Healthy | Unreadable | Unwritable | Full

record wal_file =
  content :: file_content
  disk :: disk
  lock_mtime :: "real option"

abbreviation OSError :: exn where
  "OSError \<equiv> PyException ''OSError'' ''wal''"

definition STALE_LOCK_MINUTES :: real where
  "STALE_LOCK_MINUTES = 10"

definition release_stale_lock :: "real \<Rightarrow> wal_file \<Rightarrow> bool \<times> wal_file" where
  "release_stale_lock now f =
     (case lock_mtime f of
        None \<Rightarrow> (False, f)
      | Some m \<Rightarrow>
          (if now - m > STALE_LOCK_MINUTES * 60 then (True, f\<lparr>lock_mtime := None\<rparr>) else (False, f)))"

definition file_read_raw :: "wal_file \<Rightarrow> exn + json" where
  "file_read_raw f =
     (if disk f = Unreadable \<and> content f \<noteq> Missing then Inl OSError
      else case content f of Missing \<Rightarrow> Inr (JObj []) | Garbage \<Rightarrow> Inr (JObj []) | Text j \<Rightarrow> Inr j)"

definition file_write_raw :: "json_obj \<Rightarrow> wal_file \<Rightarrow> (exn + unit) \<times> wal_file" where
  \<comment> \<open>\<^verbatim>\<open>open(path, "w")\<close> empties the file before \<^verbatim>\<open>json.dump\<close> writes it\<close>
  "file_write_raw d f =
     (case disk f of
        Unwritable \<Rightarrow> (Inl OSError, f)
      | Full \<Rightarrow> (Inl OSError, f\<lparr>content := Garbage\<rparr>)
      | _ \<Rightarrow> (Inr (), f\<lparr>content := Text (JObj d)\<rparr>))"

definition init_file_backend :: "wal_file \<Rightarrow> (exn + unit) \<times> wal_file" where
  "init_file_backend f = (if content f = Missing then file_write_raw [] f else (Inr (), f))"

definition file_backend :: "wal_file wal_backend" where
  "file_backend = \<lparr>wal_read = file_read_raw, wal_write = file_write_raw\<rparr>"

text \<open>
  Redis: \<open>wr_keys\<close> answers \<^verbatim>\<open>KEYS prefix:*\<close>, \<open>wr_get\<close> a \<^verbatim>\<open>GET\<close> (a text, as the JSON it encodes or
  \<open>None\<close> when it is not JSON), \<open>wr_pipe\<close> executes a pipeline of \<^verbatim>\<open>SET\<close> commands.
\<close>

record 'r wal_redis =
  wr_keys :: "'r \<Rightarrow> string \<Rightarrow> exn + string list"
  wr_get :: "'r \<Rightarrow> string \<Rightarrow> exn + json option option"
  wr_pipe :: "'r \<Rightarrow> (string \<times> json) list \<Rightarrow> exn + 'r"

fun redis_collect :: "'r wal_redis \<Rightarrow> 'r \<Rightarrow> nat \<Rightarrow> string list \<Rightarrow> json_obj \<Rightarrow> exn + json_obj" where
  "redis_collect cl r n [] res = Inr res"
| "redis_collect cl r n (k # ks) res =
     (case wr_get cl r k of
        Inl e \<Rightarrow> Inl e
      | Inr v \<Rightarrow>
          redis_collect cl r n ks
            (dict_set (drop (n + 1) k)
               (case v of None \<Rightarrow> JObj [] | Some None \<Rightarrow> JObj [] | Some (Some j) \<Rightarrow> j) res))"

definition redis_read :: "'r wal_redis \<Rightarrow> string \<Rightarrow> 'r \<Rightarrow> exn + json" where
  "redis_read cl prefix r =
     (case (case wr_keys cl r prefix of
              Inl e \<Rightarrow> Inl e
            | Inr ks \<Rightarrow> redis_collect cl r (length prefix) ks []) of
        Inr d \<Rightarrow> Inr (JObj d)
      | Inl e \<Rightarrow> if is_exception e then Inr (JObj []) else Inl e)"

definition redis_write :: "'r wal_redis \<Rightarrow> string \<Rightarrow> json_obj \<Rightarrow> 'r \<Rightarrow> (exn + unit) \<times> 'r" where
  "redis_write cl prefix d r =
     (case wr_pipe cl r (map (\<lambda>(name, v). (prefix @ '':'' @ name, v)) d) of
        Inl e \<Rightarrow> (Inl e, r)
      | Inr r' \<Rightarrow> (Inr (), r'))"

definition redis_backend :: "'r wal_redis \<Rightarrow> string \<Rightarrow> 'r wal_backend" where
  "redis_backend cl prefix = \<lparr>wal_read = redis_read cl prefix, wal_write = redis_write cl prefix\<rparr>"

text \<open>
  The proxy: \<open>http_get\<close> is the body of the reply to \<^verbatim>\<open>GET /v1/admin/etl/wal\<close>, \<open>http_post\<close> sends one
  checkpoint and returns the status.
\<close>

record 'p wal_http =
  http_get :: "'p \<Rightarrow> exn + json"
  http_post :: "'p \<Rightarrow> string \<Rightarrow> json \<Rightarrow> (exn + int) \<times> 'p"

definition proxy_read :: "'p wal_http \<Rightarrow> 'p \<Rightarrow> exn + json" where
  "proxy_read cl p =
     (case (case http_get cl p of Inl e \<Rightarrow> Inl e | Inr j \<Rightarrow> json_get j ''checkpoints'' (JObj [])) of
        Inr j \<Rightarrow> Inr j
      | Inl e \<Rightarrow> if is_exception e then Inr (JObj []) else Inl e)"

fun proxy_write :: "'p wal_http \<Rightarrow> json_obj \<Rightarrow> 'p \<Rightarrow> (exn + unit) \<times> 'p" where
  "proxy_write cl [] p = (Inr (), p)"
| "proxy_write cl ((name, v) # d) p =
     (case http_post cl p name v of
        (Inl e, p) \<Rightarrow> (Inl e, p)
      | (Inr status, p) \<Rightarrow> proxy_write cl d p)"

definition proxy_backend :: "'p wal_http \<Rightarrow> 'p wal_backend" where
  "proxy_backend cl = \<lparr>wal_read = proxy_read cl, wal_write = proxy_write cl\<rparr>"

subsection \<open>The manager\<close>

definition read_wal :: "'w wal_backend \<Rightarrow> 'w \<Rightarrow> exn + json" where
  "read_wal b w =
     (case wal_read b w of
        Inr j \<Rightarrow> Inr j
      | Inl e \<Rightarrow> if is_exception e then Inr (JObj []) else Inl e)"

definition update_wal :: "'w wal_backend \<Rightarrow> (json \<Rightarrow> exn + json_obj) \<Rightarrow> 'w \<Rightarrow> (exn + unit) \<times> 'w" where
  "update_wal b f w =
     (case read_wal b w of
        Inl e \<Rightarrow> (Inl e, w)
      | Inr data \<Rightarrow> (case f data of Inl e \<Rightarrow> (Inl e, w) | Inr d \<Rightarrow> wal_write b d w))"

definition get_checkpoint :: "'w wal_backend \<Rightarrow> string \<Rightarrow> string option \<Rightarrow> 'w \<Rightarrow> exn + json" where
  "get_checkpoint b pipeline key w =
     (case read_wal b w of
        Inl e \<Rightarrow> Inl e
      | Inr data \<Rightarrow>
          (case json_get data pipeline (JObj []) of
             Inl e \<Rightarrow> Inl e
           | Inr pd \<Rightarrow> if truthy_str key then json_get pd (the key) JNull else Inr pd))"

definition merge_checkpoint :: "string \<Rightarrow> json_obj \<Rightarrow> json \<Rightarrow> exn + json_obj" where
  \<comment> \<open>the closure \<^verbatim>\<open>update\<close> of \<^verbatim>\<open>set_checkpoint\<close>\<close>
  "merge_checkpoint pipeline upd data =
     (case data of
        JObj d \<Rightarrow>
          (case dict_getd d pipeline (JObj []) of
             JObj cp \<Rightarrow> Inr (dict_set pipeline (JObj (dict_update cp upd)) d)
           | _ \<Rightarrow> Inl (PyException ''AttributeError'' ''update''))
      | _ \<Rightarrow> Inl (PyException ''TypeError'' ''data''))"

definition set_checkpoint ::
  "'w wal_backend \<Rightarrow> string \<Rightarrow> string \<Rightarrow> json_obj \<Rightarrow> 'w \<Rightarrow> (exn + unit) \<times> 'w" where
  "set_checkpoint b now pipeline updates w =
     update_wal b (merge_checkpoint pipeline (dict_set ''_updated_at'' (JStr now) updates)) w"

definition update_last_run :: "'w wal_backend \<Rightarrow> string \<Rightarrow> string \<Rightarrow> string option \<Rightarrow> 'w \<Rightarrow> (exn + unit) \<times> 'w" where
  "update_last_run b now pipeline last_run w =
     set_checkpoint b now pipeline
       [(''last_run'', JStr (case last_run of None \<Rightarrow> now | Some s \<Rightarrow> s))] w"

definition get_str :: "'w wal_backend \<Rightarrow> (json \<Rightarrow> string) \<Rightarrow> string \<Rightarrow> string \<Rightarrow> 'w \<Rightarrow> exn + string option" where
  "get_str b render pipeline key w =
     (case get_checkpoint b pipeline (Some key) w of
        Inl e \<Rightarrow> Inl e
      | Inr v \<Rightarrow> Inr (if v = JNull then None else Some (str_with render v)))"

definition get_last_run :: "'w wal_backend \<Rightarrow> (json \<Rightarrow> string) \<Rightarrow> string \<Rightarrow> 'w \<Rightarrow> exn + string option" where
  "get_last_run b render pipeline w = get_str b render pipeline ''last_run'' w"

definition update_offset :: "'w wal_backend \<Rightarrow> string \<Rightarrow> string \<Rightarrow> int \<Rightarrow> 'w \<Rightarrow> (exn + unit) \<times> 'w" where
  "update_offset b now pipeline n w = set_checkpoint b now pipeline [(''offset'', JInt n)] w"

definition get_offset :: "'w wal_backend \<Rightarrow> string \<Rightarrow> 'w \<Rightarrow> exn + int" where
  "get_offset b pipeline w =
     (case get_checkpoint b pipeline (Some ''offset'') w of
        Inl e \<Rightarrow> Inl e
      | Inr v \<Rightarrow> if truthy v then json_int v else Inr 0)"

definition update_last_id :: "'w wal_backend \<Rightarrow> string \<Rightarrow> string \<Rightarrow> string \<Rightarrow> 'w \<Rightarrow> (exn + unit) \<times> 'w" where
  "update_last_id b now pipeline i w = set_checkpoint b now pipeline [(''last_id'', JStr i)] w"

definition get_last_id :: "'w wal_backend \<Rightarrow> (json \<Rightarrow> string) \<Rightarrow> string \<Rightarrow> 'w \<Rightarrow> exn + string option" where
  "get_last_id b render pipeline w = get_str b render pipeline ''last_id'' w"

definition hash_map_of :: "'w wal_backend \<Rightarrow> string \<Rightarrow> 'w \<Rightarrow> exn + json" where
  \<comment> \<open>\<^verbatim>\<open>self.get_checkpoint(pipeline, "hash_map") or {}\<close>\<close>
  "hash_map_of b pipeline w =
     (case get_checkpoint b pipeline (Some ''hash_map'') w of
        Inl e \<Rightarrow> Inl e
      | Inr v \<Rightarrow> Inr (if truthy v then v else JObj []))"

definition update_hash_state ::
  "'w wal_backend \<Rightarrow> string \<Rightarrow> string \<Rightarrow> string \<Rightarrow> string \<Rightarrow> 'w \<Rightarrow> (exn + unit) \<times> 'w" where
  "update_hash_state b now pipeline doc_id chunk_hash w =
     (case hash_map_of b pipeline w of
        Inl e \<Rightarrow> (Inl e, w)
      | Inr (JObj hm) \<Rightarrow>
          set_checkpoint b now pipeline
            [(''hash_map'', JObj (dict_set doc_id (JStr chunk_hash) hm))] w
      | Inr _ \<Rightarrow> (Inl (PyException ''TypeError'' ''item assignment''), w))"

definition get_hash_state ::
  "'w wal_backend \<Rightarrow> (json \<Rightarrow> string) \<Rightarrow> string \<Rightarrow> string \<Rightarrow> 'w \<Rightarrow> exn + string option" where
  "get_hash_state b render pipeline doc_id w =
     (case hash_map_of b pipeline w of
        Inl e \<Rightarrow> Inl e
      | Inr hm \<Rightarrow>
          (case json_get hm doc_id JNull of
             Inl e \<Rightarrow> Inl e
           | Inr v \<Rightarrow> Inr (if v = JNull then None else Some (str_with render v))))"

definition drop_checkpoint :: "string \<Rightarrow> bool \<Rightarrow> json \<Rightarrow> exn + json_obj" where
  \<comment> \<open>the closure \<^verbatim>\<open>update\<close> of \<^verbatim>\<open>reset_pipeline\<close>\<close>
  "drop_checkpoint pipeline keep_last_run data =
     (case data of
        JObj d \<Rightarrow>
          (if keep_last_run
           then (case json_get (dict_getd d pipeline (JObj [])) ''last_run'' JNull of
                   Inl e \<Rightarrow> Inl e
                 | Inr lr \<Rightarrow>
                     Inr (dict_set pipeline (JObj (if truthy lr then [(''last_run'', lr)] else [])) d))
           else Inr (dict_del pipeline d))
      | _ \<Rightarrow> Inl (PyException ''AttributeError'' ''get''))"

definition reset_pipeline :: "'w wal_backend \<Rightarrow> string \<Rightarrow> bool \<Rightarrow> 'w \<Rightarrow> (exn + unit) \<times> 'w" where
  "reset_pipeline b pipeline keep_last_run w = update_wal b (drop_checkpoint pipeline keep_last_run) w"

definition reset_all :: "'w wal_backend \<Rightarrow> 'w \<Rightarrow> (exn + unit) \<times> 'w" where
  "reset_all b w = update_wal b (\<lambda>_. Inr []) w"

definition get_all_pipelines :: "'w wal_backend \<Rightarrow> 'w \<Rightarrow> exn + string list" where
  "get_all_pipelines b w =
     (case read_wal b w of
        Inl e \<Rightarrow> Inl e
      | Inr (JObj d) \<Rightarrow> Inr (dict_keys d)
      | Inr _ \<Rightarrow> Inl (PyException ''AttributeError'' ''keys''))"

definition vacuum_one :: "(string \<Rightarrow> int option) \<Rightarrow> int \<Rightarrow> json_obj \<Rightarrow> json_obj" where
  \<comment> \<open>\<open>age\<close>: whole days since an ISO timestamp, \<open>None\<close> when it cannot be parsed or subtracted\<close>
  "vacuum_one age max_age cp =
     (case dict_getd cp ''_updated_at'' JNull of
        JStr ts \<Rightarrow>
          (case age ts of
             None \<Rightarrow> cp
           | Some n \<Rightarrow> if ts \<noteq> [] \<and> n > max_age then dict_del ''processed_ids'' (dict_del ''hash_map'' cp) else cp)
      | _ \<Rightarrow> cp)"

fun vacuum_all :: "(string \<Rightarrow> int option) \<Rightarrow> int \<Rightarrow> json_obj \<Rightarrow> exn + json_obj" where
  "vacuum_all age max_age [] = Inr []"
| "vacuum_all age max_age ((p, JObj cp) # d) =
     (case vacuum_all age max_age d of
        Inl e \<Rightarrow> Inl e
      | Inr d' \<Rightarrow> Inr ((p, JObj (vacuum_one age max_age cp)) # d'))"
| "vacuum_all age max_age ((p, v) # d) = Inl (PyException ''AttributeError'' ''get'')"

definition vacuum :: "'w wal_backend \<Rightarrow> (string \<Rightarrow> int option) \<Rightarrow> int \<Rightarrow> 'w \<Rightarrow> (exn + unit) \<times> 'w" where
  "vacuum b age max_age w =
     update_wal b (\<lambda>data. case data of JObj d \<Rightarrow> vacuum_all age max_age d
                                  | _ \<Rightarrow> Inl (PyException ''AttributeError'' ''items'')) w"

subsection \<open>The contract of a backend\<close>

text \<open>
  \<^verbatim>\<open>BaseWALBackend\<close> promises that \<^verbatim>\<open>read\<close> returns the complete state and \<^verbatim>\<open>write\<close> replaces it. What
  the manager does on top of that is proved once, for every backend that keeps the promise.
\<close>

locale wal_store =
  fixes b :: "'w wal_backend"
    and view :: "'w \<Rightarrow> json_obj"
    and ok :: "'w \<Rightarrow> bool"
  assumes read_ok: "ok w \<Longrightarrow> wal_read b w = Inr (JObj (view w))"
    and write_ok: "ok w \<Longrightarrow> \<exists>w'. wal_write b d w = (Inr (), w') \<and> ok w' \<and> view w' = d"
begin

lemma read_wal_ok: "ok w \<Longrightarrow> read_wal b w = Inr (JObj (view w))"
  by (simp add: read_wal_def read_ok)

lemma update_wal_ok:
  "ok w \<Longrightarrow> f (JObj (view w)) = Inr d \<Longrightarrow> \<exists>w'. update_wal b f w = (Inr (), w') \<and> ok w' \<and> view w' = d"
  using write_ok [of w d] by (simp add: update_wal_def read_wal_ok)

lemma get_checkpoint_ok:
  "ok w \<Longrightarrow> get_checkpoint b p key w =
     (let pd = dict_getd (view w) p (JObj []) in
      if truthy_str key then json_get pd (the key) JNull else Inr pd)"
  by (simp add: get_checkpoint_def read_wal_ok json_get_def Let_def)

lemma set_checkpoint_ok:
  assumes "ok w" and "dict_getd (view w) p (JObj []) = JObj cp"
  shows "\<exists>w'. set_checkpoint b now p updates w = (Inr (), w') \<and> ok w' \<and>
    view w' = dict_set p (JObj (dict_update cp (dict_set ''_updated_at'' (JStr now) updates))) (view w)"
  unfolding set_checkpoint_def using assms by (intro update_wal_ok) (simp_all add: merge_checkpoint_def)

lemma set_then_get:
  assumes "ok w" and "dict_getd (view w) p (JObj []) = JObj cp" and "dict_ok updates"
  shows "\<exists>w'. set_checkpoint b now p updates w = (Inr (), w') \<and> ok w' \<and>
    (\<forall>p' k. k \<noteq> [] \<longrightarrow> get_checkpoint b p' (Some k) w' =
      (if p' = p
       then Inr (if k = ''_updated_at'' then JStr now
                 else case map_of updates k of Some v \<Rightarrow> v | None \<Rightarrow> dict_getd cp k JNull)
       else get_checkpoint b p' (Some k) w))"
proof -
  obtain w' where w': "set_checkpoint b now p updates w = (Inr (), w')" "ok w'"
    "view w' = dict_set p (JObj (dict_update cp (dict_set ''_updated_at'' (JStr now) updates))) (view w)"
    using set_checkpoint_ok [OF assms(1,2)] by blast
  have "dict_ok (dict_set ''_updated_at'' (JStr now) updates)" using assms(3) by simp
  then have "dict_getd (dict_update cp (dict_set ''_updated_at'' (JStr now) updates)) k JNull =
      (if k = ''_updated_at'' then JStr now
       else case map_of updates k of Some v \<Rightarrow> v | None \<Rightarrow> dict_getd cp k JNull)" for k
    by (simp add: dict_getd_def dict_get_update split: option.split)
  then have "get_checkpoint b p' (Some k) w' =
      (if p' = p
       then Inr (if k = ''_updated_at'' then JStr now
                 else case map_of updates k of Some v \<Rightarrow> v | None \<Rightarrow> dict_getd cp k JNull)
       else get_checkpoint b p' (Some k) w)" if "k \<noteq> []" for p' k
    using that assms(1) w'(2)
    by (simp add: get_checkpoint_ok w'(3) truthy_str_def json_get_def Let_def)
  then show ?thesis using w'(1,2) by blast
qed

lemma reset_pipeline_ok:
  "ok w \<Longrightarrow> \<exists>w'. reset_pipeline b p False w = (Inr (), w') \<and> ok w' \<and> view w' = dict_del p (view w)"
  unfolding reset_pipeline_def by (intro update_wal_ok) (simp_all add: drop_checkpoint_def)

lemma reset_all_ok: "ok w \<Longrightarrow> \<exists>w'. reset_all b w = (Inr (), w') \<and> ok w' \<and> view w' = []"
  unfolding reset_all_def by (intro update_wal_ok) simp_all

end

subsection \<open>The file keeps the contract\<close>

fun file_view :: "file_content \<Rightarrow> json_obj" where
  "file_view (Text (JObj d)) = d"
| "file_view _ = []"

definition file_ok :: "wal_file \<Rightarrow> bool" where
  "file_ok f \<longleftrightarrow> disk f = Healthy \<and> (case content f of Text j \<Rightarrow> is_obj j | _ \<Rightarrow> True)"

interpretation fw: wal_store file_backend "\<lambda>f. file_view (content f)" file_ok
proof
  show "wal_read file_backend f = Inr (JObj (file_view (content f)))" if "file_ok f" for f
    using that by (auto simp: file_backend_def file_read_raw_def file_ok_def
        split: file_content.splits elim: is_obj.elims)
  show "\<exists>f'. wal_write file_backend d f = (Inr (), f') \<and> file_ok f' \<and> file_view (content f') = d"
    if "file_ok f" for f d
    using that by (simp add: file_backend_def file_write_raw_def file_ok_def)
qed

subsection \<open>Properties\<close>

text \<open>
  C36. Checkpoints written to the log file are read back: on a healthy disk, and also when the file
  was missing or corrupted before, \<^verbatim>\<open>set_checkpoint\<close> succeeds; afterwards every key of the pipeline
  has its new value or, when it was not among the updates, its old one, the update time is recorded,
  and the other pipelines read as before.
\<close>
theorem checkpoint_set_then_get:
  assumes "file_ok f" and "dict_getd (file_view (content f)) p (JObj []) = JObj cp" and "dict_ok updates"
  shows "\<exists>f'. set_checkpoint file_backend now p updates f = (Inr (), f') \<and> file_ok f' \<and>
    (\<forall>p' k. k \<noteq> [] \<longrightarrow> get_checkpoint file_backend p' (Some k) f' =
      (if p' = p
       then Inr (if k = ''_updated_at'' then JStr now
                 else case map_of updates k of Some v \<Rightarrow> v | None \<Rightarrow> dict_getd cp k JNull)
       else get_checkpoint file_backend p' (Some k) f))"
  using assms by (rule fw.set_then_get)

definition sample_file :: wal_file where
  "sample_file = \<lparr>content = Garbage, disk = Healthy, lock_mtime = None\<rparr>"

theorem checkpoint_set_then_get_witness:
  "\<exists>f'. set_checkpoint file_backend ''t1'' ''jira'' [(''offset'', JInt 50)] sample_file = (Inr (), f') \<and>
     get_checkpoint file_backend ''jira'' (Some ''offset'') f' = Inr (JInt 50)"
proof -
  have ok: "file_ok sample_file" "dict_getd (file_view (content sample_file)) ''jira'' (JObj []) = JObj []"
      "dict_ok [(''offset'', JInt 50)]"
    by (simp_all add: file_ok_def sample_file_def dict_getd_def dict_ok_def)
  obtain f' where f': "set_checkpoint file_backend ''t1'' ''jira'' [(''offset'', JInt 50)] sample_file = (Inr (), f')"
    and get: "\<forall>p' k. k \<noteq> [] \<longrightarrow> get_checkpoint file_backend p' (Some k) f' =
      (if p' = ''jira''
       then Inr (if k = ''_updated_at'' then JStr ''t1''
                 else case map_of [(''offset'', JInt 50)] k of Some v \<Rightarrow> v | None \<Rightarrow> dict_getd [] k JNull)
       else get_checkpoint file_backend p' (Some k) sample_file)"
    using checkpoint_set_then_get [OF ok, of "''t1''"] by blast
  from get have "get_checkpoint file_backend ''jira'' (Some ''offset'') f' = Inr (JInt 50)" by simp
  with f' show ?thesis by blast
qed

text \<open>
  The document hashes that the indexer keeps in the log are a map: after \<^verbatim>\<open>update_hash_state\<close>
  the document has the new hash, and the hash of every other document of the pipeline is what it
  was.
\<close>
theorem hash_state_roundtrip:
  assumes "file_ok f" and "dict_getd (file_view (content f)) p (JObj []) = JObj cp"
    and "dict_getd cp ''hash_map'' JNull \<in> {JNull, JObj hm}"
  shows "\<exists>f'. update_hash_state file_backend now p doc h f = (Inr (), f') \<and>
    get_hash_state file_backend render p doc' f' =
      (if doc' = doc then Inr (Some h) else get_hash_state file_backend render p doc' f)"
proof -
  let ?hm = "if dict_getd cp ''hash_map'' JNull = JNull then [] else hm"
  have hm: "hash_map_of file_backend p f = Inr (JObj ?hm)"
    using assms by (auto simp: hash_map_of_def fw.get_checkpoint_ok truthy_str_def json_get_def)
  let ?new = "JObj (dict_set doc (JStr h) ?hm)"
  obtain f' where f': "set_checkpoint file_backend now p [(''hash_map'', ?new)] f = (Inr (), f')" "file_ok f'"
    and get: "\<And>p' k. k \<noteq> [] \<Longrightarrow> get_checkpoint file_backend p' (Some k) f' =
      (if p' = p then Inr (if k = ''_updated_at'' then JStr now
           else case map_of [(''hash_map'', ?new)] k of Some v \<Rightarrow> v | None \<Rightarrow> dict_getd cp k JNull)
       else get_checkpoint file_backend p' (Some k) f)"
    using fw.set_then_get [OF assms(1,2), of "[(''hash_map'', ?new)]" now] by (auto simp: dict_ok_def)
  have "dict_set doc (JStr h) ?hm \<noteq> []" by (metis dict_get_set map_of.simps(1) option.distinct(1))
  then have "hash_map_of file_backend p f' = Inr ?new" by (simp add: hash_map_of_def get)
  then show ?thesis
    using f'(1) hm by (simp add: update_hash_state_def get_hash_state_def json_get_def str_with_def)
qed

theorem hash_state_roundtrip_witness:
  "\<exists>f'. update_hash_state file_backend ''t1'' ''indexing'' ''doc1'' ''h1'' sample_file = (Inr (), f') \<and>
    get_hash_state file_backend (\<lambda>_. []) ''indexing'' ''doc1'' f' = Inr (Some ''h1'')"
  using hash_state_roundtrip [of sample_file "''indexing''" "[]" "[]" "''t1''" "''doc1''" "''h1''" "\<lambda>_. []" "''doc1''"]
  by (simp add: file_ok_def sample_file_def dict_getd_def)

text \<open>
  A failed write loses the whole log. The file is emptied before the new text is written, so
  when the disk is full \<^verbatim>\<open>set_checkpoint\<close> raises, and what every later reader finds is a log without
  any pipeline: the checkpoints of all pipelines are gone, not just the update.
\<close>
theorem full_disk_erases_log:
  assumes "content f = Text (JObj d)" and "disk f = Full" and "dict_getd d p (JObj []) = JObj cp"
  shows "\<exists>f'. set_checkpoint file_backend now p updates f = (Inl OSError, f') \<and>
    get_all_pipelines file_backend f' = Inr [] \<and>
    get_checkpoint file_backend p' None f' = Inr (JObj [])"
proof -
  have "set_checkpoint file_backend now p updates f = (Inl OSError, f\<lparr>content := Garbage\<rparr>)"
    using assms by (simp add: set_checkpoint_def update_wal_def read_wal_def file_backend_def
        file_read_raw_def merge_checkpoint_def file_write_raw_def)
  then show ?thesis
    using assms(2) by (simp add: get_all_pipelines_def get_checkpoint_def read_wal_def file_backend_def
        file_read_raw_def json_get_def dict_getd_def truthy_str_def dict_keys_def)
qed

definition full_disk :: wal_file where
  "full_disk = \<lparr>content = Text (JObj [(''gitlab'', JObj [(''offset'', JInt 9)])]), disk = Full, lock_mtime = None\<rparr>"

theorem full_disk_erases_log_witness:
  "\<exists>f'. set_checkpoint file_backend ''t1'' ''jira'' [(''offset'', JInt 50)] full_disk = (Inl OSError, f') \<and>
     get_all_pipelines file_backend f' = Inr [] \<and>
     get_checkpoint file_backend ''gitlab'' None f' = Inr (JObj [])"
  by (rule full_disk_erases_log [where d = "[(''gitlab'', JObj [(''offset'', JInt 9)])]" and cp = "[]"])
    (simp_all add: full_disk_def dict_getd_def)

text \<open>
  On Redis a reset resets nothing. The backend's \<^verbatim>\<open>write\<close> sets one key per remaining pipeline
  and deletes none, so that after \<^verbatim>\<open>reset_pipeline\<close> the pipeline's own key still holds its
  checkpoint, and after \<^verbatim>\<open>reset_all\<close> every key does. (Assumed of Redis: a pipeline of \<^verbatim>\<open>SET\<close>
  commands leaves the other keys alone.)
\<close>
theorem redis_reset_keeps_checkpoints:
  assumes redis: "\<And>r kvs r' k. wr_pipe cl r kvs = Inr r' \<Longrightarrow> k \<notin> fst ` set kvs \<Longrightarrow> wr_get cl r' k = wr_get cl r k"
    and "reset_pipeline (redis_backend cl prefix) p False r = (Inr (), r1)"
    and "reset_all (redis_backend cl prefix) r = (Inr (), r2)"
  shows "wr_get cl r1 (prefix @ '':'' @ p) = wr_get cl r (prefix @ '':'' @ p) \<and> wr_get cl r2 k = wr_get cl r k"
proof -
  obtain d where d: "read_wal (redis_backend cl prefix) r = Inr (JObj d)"
    using assms(2) by (auto simp: reset_pipeline_def update_wal_def drop_checkpoint_def
        split: sum.splits json.splits)
  have "wr_pipe cl r (map (\<lambda>(name, v). (prefix @ '':'' @ name, v)) (dict_del p d)) = Inr r1"
    using assms(2) d by (auto simp: reset_pipeline_def update_wal_def drop_checkpoint_def
        redis_backend_def redis_write_def split: sum.splits)
  moreover have "prefix @ '':'' @ p \<notin> fst ` set (map (\<lambda>(name, v). (prefix @ '':'' @ name, v)) (dict_del p d))"
    by (auto simp: dict_del_def AList.delete_eq)
  moreover have "wr_pipe cl r [] = Inr r2"
    using assms(3) d by (auto simp: reset_all_def update_wal_def redis_backend_def redis_write_def
        split: sum.splits)
  ultimately show ?thesis using redis by fastforce
qed

definition alist_redis :: "(string, json) dict wal_redis" where
  "alist_redis =
     \<lparr>wr_keys = (\<lambda>r p. Inr (filter (starts_with (p @ '':'')) (map fst r))),
      wr_get = (\<lambda>r k. Inr (map_option Some (dict_get r k))),
      wr_pipe = (\<lambda>r kvs. Inr (dict_update r kvs))\<rparr>"

lemma dict_update_other: "k \<notin> fst ` set kvs \<Longrightarrow> map_of (dict_update r kvs) k = map_of r k"
proof (induction kvs arbitrary: r)
  case (Cons a kvs)
  then show ?case by (cases a) simp
qed simp

theorem redis_reset_keeps_checkpoints_witness:
  "\<exists>r1. reset_pipeline (redis_backend alist_redis ''etl:wal'') ''jira'' False
      [(''etl:wal:jira'', JObj [(''offset'', JInt 50)])] = (Inr (), r1) \<and>
     wr_get alist_redis r1 ''etl:wal:jira'' = Inr (Some (Some (JObj [(''offset'', JInt 50)])))"
proof -
  let ?r = "[(''etl:wal:jira'', JObj [(''offset'', JInt 50)])]" let ?b = "redis_backend alist_redis ''etl:wal''"
  have read: "read_wal ?b ?r = Inr (JObj [(''jira'', JObj [(''offset'', JInt 50)])])"
    by (simp add: read_wal_def redis_backend_def redis_read_def alist_redis_def starts_with_def dict_set_def)
  have p: "reset_pipeline ?b ''jira'' False ?r = (Inr (), ?r)"
    using read by (simp add: reset_pipeline_def update_wal_def drop_checkpoint_def dict_del_def)
      (simp add: redis_backend_def redis_write_def alist_redis_def)
  have a: "reset_all ?b ?r = (Inr (), ?r)"
    using read by (simp add: reset_all_def update_wal_def)
      (simp add: redis_backend_def redis_write_def alist_redis_def)
  have law: "wr_pipe alist_redis r kvs = Inr r' \<Longrightarrow> k \<notin> fst ` set kvs \<Longrightarrow>
      wr_get alist_redis r' k = wr_get alist_redis r k" for r kvs r' k
    by (auto simp: alist_redis_def dict_update_other)
  show ?thesis
    using redis_reset_keeps_checkpoints [OF law p a] p by (simp add: alist_redis_def)
qed

text \<open>
  A read that fails is taken for an empty log, so that the next \<^verbatim>\<open>set_checkpoint\<close> replaces the
  whole state by the one pipeline it was called for.
\<close>

lemma failed_read_erases_log:
  assumes "wal_read b w = Inl e" and "is_exception e"
  shows "set_checkpoint b now p updates w =
    wal_write b [(p, JObj (dict_update [] (dict_set ''_updated_at'' (JStr now) updates)))] w"
  using assms by (simp add: set_checkpoint_def update_wal_def read_wal_def merge_checkpoint_def
      dict_getd_def dict_set_def)

text \<open>Vacuuming drops nothing but the two bulky fields of checkpoints that are older than the limit.\<close>

lemma vacuum_one_keeps:
  "k \<notin> {''hash_map'', ''processed_ids''} \<Longrightarrow> map_of (vacuum_one age n cp) k = map_of cp k"
  by (auto simp: vacuum_one_def split: json.split option.split)

lemma vacuum_all_keeps:
  "vacuum_all age n d = Inr d' \<Longrightarrow> map fst d' = map fst d \<and>
     list_all2 (\<lambda>v v'. \<exists>cp. v = JObj cp \<and> v' = JObj (vacuum_one age n cp)) (map snd d) (map snd d')"
  by (induction age n d arbitrary: d' rule: vacuum_all.induct) (auto split: sum.splits)

end
