(* ===== verification/Canary.thy ===== *)
theory Canary
  imports Prelude
begin

text \<open>
  The canary controller, \<^verbatim>\<open>proxy/app/model_evolution/canary_controller.py\<close>: traffic splits, recorded
  outcomes and the rollback decision. The six dictionaries of the object are the fields of a record.
  Random numbers and clock readings are arguments of the operations. Prometheus counters and gauges
  are not modelled; no decision reads them.
\<close>

subsection \<open>State\<close>

datatype canary_phase = IDLE | RAMP_5 | RAMP_25 | RAMP_50 | RAMP_75 | FULL | ROLLBACK

record canary_config =
  model_name :: string
  stable_version :: string
  canary_version :: string
  canary_percent :: real
  min_samples :: int
  rollback_thresholds :: "(string, real \<times> string) dict"
  cooldown_seconds :: real

definition default_thresholds :: "(string, real \<times> string) dict" where
  "default_thresholds = [(''error_rate'', (5/100, ''gt'')), (''p95_latency_ms'', (10000, ''gt''))]"

definition default_canary_config :: "string \<Rightarrow> canary_config" where
  "default_canary_config name =
     \<lparr>model_name = name, stable_version = ''baseline'', canary_version = [], canary_percent = 0,
      min_samples = 100, rollback_thresholds = default_thresholds, cooldown_seconds = 3600\<rparr>"

record outcomes =
  n_success :: nat
  n_error :: nat

record controller =
  configs :: "(string, canary_config) dict"
  phases :: "(string, canary_phase) dict"
  phase_started_at :: "(string, real) dict"
  cooldown_until :: "(string, real) dict"
  canary_stats :: "(string, (string, outcomes) dict) dict"
  latencies :: "(string, (string, real list) dict) dict"

definition init_controller :: controller where
  "init_controller = \<lparr>configs = [], phases = [], phase_started_at = [], cooldown_until = [],
     canary_stats = [], latencies = []\<rparr>"

subsection \<open>Configuration\<close>

definition infer_phase :: "real \<Rightarrow> canary_phase" where
  "infer_phase p =
     (if p \<le> 0 then IDLE
      else if p < 5/100 then RAMP_5
      else if p < 25/100 then RAMP_25
      else if p < 50/100 then RAMP_50
      else if p < 75/100 then RAMP_75
      else FULL)"

fun phase_to_int :: "canary_phase \<Rightarrow> int" where
  "phase_to_int IDLE = 0"
| "phase_to_int RAMP_5 = 1"
| "phase_to_int RAMP_25 = 2"
| "phase_to_int RAMP_50 = 3"
| "phase_to_int RAMP_75 = 4"
| "phase_to_int FULL = 5"
| "phase_to_int ROLLBACK = 6"

definition set_split :: "string \<Rightarrow> real \<Rightarrow> controller \<Rightarrow> (exn + unit) \<times> controller" where
  "set_split name p c =
     (if \<not> (0 \<le> p \<and> p \<le> 1) then (Inl (ValueError ''canary_percent must be between 0.0 and 1.0''), c)
      else
        (let cfg = dict_getd (configs c) name (default_canary_config name);
             ph = (if p = 0 then IDLE else if p \<ge> 1 then FULL else infer_phase p)
         in (Inr (), c\<lparr>configs := dict_set name (cfg\<lparr>canary_percent := p\<rparr>) (configs c),
                       phases := dict_set name ph (phases c)\<rparr>)))"

definition configure ::
  "real \<Rightarrow> string \<Rightarrow> string \<Rightarrow> string \<Rightarrow> real \<Rightarrow> int \<Rightarrow> (string, real \<times> string) dict option \<Rightarrow> real \<Rightarrow>
   controller \<Rightarrow> controller" where
  "configure now name stable_v canary_v p n thresholds cooldown c =
     (let th = (case thresholds of None \<Rightarrow> default_thresholds
                | Some t \<Rightarrow> if t = [] then default_thresholds else t);
          cfg = \<lparr>model_name = name, stable_version = stable_v, canary_version = canary_v, canary_percent = p,
                 min_samples = n, rollback_thresholds = th, cooldown_seconds = cooldown\<rparr>
      in c\<lparr>configs := dict_set name cfg (configs c),
           phases := dict_set name (if p = 0 then IDLE else infer_phase p) (phases c),
           phase_started_at := dict_set name now (phase_started_at c)\<rparr>)"

subsection \<open>Routing and results\<close>

definition in_cooldown :: "real \<Rightarrow> string \<Rightarrow> controller \<Rightarrow> bool" where
  "in_cooldown now name c \<longleftrightarrow> dict_getd (cooldown_until c) name 0 > now"

definition route :: "real \<Rightarrow> real \<Rightarrow> string \<Rightarrow> controller \<Rightarrow> string" where
  "route now rnd name c =
     (case dict_get (configs c) name of
        None \<Rightarrow> ''stable''
      | Some cfg \<Rightarrow>
          (let p = (if in_cooldown now name c then 0 else canary_percent cfg)
           in if rnd < p then ''canary'' else ''stable''))"

definition no_outcomes :: outcomes where
  "no_outcomes = \<lparr>n_success = 0, n_error = 0\<rparr>"

definition record_result :: "string \<Rightarrow> string \<Rightarrow> bool \<Rightarrow> real \<Rightarrow> controller \<Rightarrow> controller" where
  "record_result name target success latency_ms c =
     (let st = dict_getd (canary_stats c) name [];
          o' = dict_getd st target no_outcomes;
          o' = (if success then o'\<lparr>n_success := n_success o' + 1\<rparr> else o'\<lparr>n_error := n_error o' + 1\<rparr>);
          c = c\<lparr>canary_stats := dict_set name (dict_set target o' st) (canary_stats c)\<rparr>
      in if latency_ms > 0
         then (let lt = dict_getd (latencies c) name [] in
               c\<lparr>latencies :=
                   dict_set name (dict_set target (dict_getd lt target [] @ [latency_ms]) lt) (latencies c)\<rparr>)
         else c)"

subsection \<open>Rollback\<close>

definition outcomes_of :: "string \<Rightarrow> string \<Rightarrow> controller \<Rightarrow> outcomes" where
  "outcomes_of name target c = dict_getd (dict_getd (canary_stats c) name []) target no_outcomes"

record canary_metrics =
  total_stable :: nat
  total_canary :: nat
  errors_stable :: nat
  errors_canary :: nat
  stable_error_rate :: real
  canary_error_rate :: real

definition get_metrics :: "string \<Rightarrow> controller \<Rightarrow> canary_metrics" where
  "get_metrics name c =
     (let s = outcomes_of name ''stable'' c; k = outcomes_of name ''canary'' c;
          ts = n_success s + n_error s; tk = n_success k + n_error k
      in \<lparr>total_stable = ts, total_canary = tk, errors_stable = n_error s, errors_canary = n_error k,
          stable_error_rate = (if ts > 0 then real (n_error s) / real ts else 0),
          canary_error_rate = (if tk > 0 then real (n_error k) / real tk else 0)\<rparr>)"

definition comparator :: "string \<Rightarrow> (real \<Rightarrow> real \<Rightarrow> bool) option" where
  "comparator s =
     map_of [(''gt'', \<lambda>a b. a > b), (''gte'', \<lambda>a b. a \<ge> b), (''lt'', \<lambda>a b. a < b), (''lte'', \<lambda>a b. a \<le> b)] s"

fun any_breached :: "real \<Rightarrow> (string, real \<times> string) dict \<Rightarrow> bool" where
  "any_breached rate [] = False"
| "any_breached rate ((metric, threshold, comparison) # ts) =
     (if metric \<noteq> ''error_rate'' then any_breached rate ts
      else case comparator comparison of
             None \<Rightarrow> any_breached rate ts
           | Some f \<Rightarrow> if f rate threshold then True else any_breached rate ts)"

definition should_rollback :: "real \<Rightarrow> string \<Rightarrow> controller \<Rightarrow> bool" where
  "should_rollback now name c =
     (case dict_get (configs c) name of
        None \<Rightarrow> False
      | Some cfg \<Rightarrow>
          (let ph = dict_getd (phases c) name IDLE; k = outcomes_of name ''canary'' c in
           if ph \<in> {IDLE, FULL, ROLLBACK} then False
           else if in_cooldown now name c then False
           else if int (n_success k + n_error k) < min_samples cfg then False
           else any_breached (canary_error_rate (get_metrics name c)) (rollback_thresholds cfg)))"

definition rollback :: "real \<Rightarrow> string \<Rightarrow> controller \<Rightarrow> controller" where
  "rollback now name c =
     (let cfg = dict_getd (configs c) name (default_canary_config name)
      in c\<lparr>configs := dict_set name (cfg\<lparr>canary_percent := 0\<rparr>) (configs c),
           phases := dict_set name ROLLBACK (phases c),
           cooldown_until := dict_set name (now + cooldown_seconds cfg) (cooldown_until c)\<rparr>)"

definition promote :: "string \<Rightarrow> controller \<Rightarrow> controller" where
  "promote name c =
     (case dict_get (configs c) name of
        None \<Rightarrow> c
      | Some cfg \<Rightarrow>
          c\<lparr>configs := dict_set name (cfg\<lparr>canary_percent := 1, stable_version := canary_version cfg,
                                        canary_version := []\<rparr>) (configs c),
            phases := dict_set name FULL (phases c)\<rparr>)"

subsection \<open>Status\<close>

record canary_status =
  st_phase :: canary_phase
  st_split :: "real \<times> real"
  st_stable_version :: string
  st_canary_version :: string
  st_cooldown_remaining :: real
  st_metrics :: canary_metrics

definition canary_status_of :: "real \<Rightarrow> string option \<Rightarrow> controller \<Rightarrow> (string, canary_status) dict" where
  "canary_status_of now name c =
     (let names = (if truthy_str name then [the name] else dict_keys (configs c))
      in List.map_filter (\<lambda>n.
           case dict_get (configs c) n of
             None \<Rightarrow> None
           | Some cfg \<Rightarrow>
               Some (n, \<lparr>st_phase = dict_getd (phases c) n IDLE,
                         st_split = (1 - canary_percent cfg, canary_percent cfg),
                         st_stable_version = stable_version cfg, st_canary_version = canary_version cfg,
                         st_cooldown_remaining = max 0 (dict_getd (cooldown_until c) n 0 - now),
                         st_metrics = get_metrics n c\<rparr>)) names)"

definition get_phase :: "string \<Rightarrow> controller \<Rightarrow> canary_phase" where
  "get_phase name c = dict_getd (phases c) name IDLE"

definition get_split :: "string \<Rightarrow> controller \<Rightarrow> real \<times> real" where
  "get_split name c =
     (case dict_get (configs c) name of
        None \<Rightarrow> (1, 0)
      | Some cfg \<Rightarrow> (let cp = max 0 (min 1 (canary_percent cfg)) in (1 - cp, cp)))"

definition reset_canary :: "string option \<Rightarrow> controller \<Rightarrow> controller" where
  "reset_canary name c =
     (if truthy_str name
      then (let n = the name in
            \<lparr>configs = dict_del n (configs c), phases = dict_del n (phases c),
             phase_started_at = dict_del n (phase_started_at c),
             cooldown_until = dict_del n (cooldown_until c),
             canary_stats = dict_del n (canary_stats c), latencies = dict_del n (latencies c)\<rparr>)
      else init_controller)"

subsection \<open>Runs\<close>

datatype canary_event =
    SetSplit string real
  | Configure real string string string real int "(string, real \<times> string) dict option" real
  | Result string string bool real
  | Rollback real string
  | Promote string
  | Reset "string option"

fun canary_step :: "controller \<Rightarrow> canary_event \<Rightarrow> controller" where
  "canary_step c (SetSplit n p) = snd (set_split n p c)"
| "canary_step c (Configure now n s k p m th cd) = configure now n s k p m th cd c"
| "canary_step c (Result n t ok l) = record_result n t ok l c"
| "canary_step c (Rollback now n) = rollback now n c"
| "canary_step c (Promote n) = promote n c"
| "canary_step c (Reset n) = reset_canary n c"

definition canary_wf :: "controller \<Rightarrow> bool" where
  "canary_wf c \<longleftrightarrow>
     (\<forall>n. dict_has (configs c) n \<longleftrightarrow> dict_has (phases c) n) \<and>
     (\<forall>n cfg. dict_get (configs c) n = Some cfg \<longrightarrow>
        (get_phase n c \<in> {IDLE, ROLLBACK} \<longleftrightarrow> canary_percent cfg \<le> 0) \<and>
        (get_phase n c = FULL \<longleftrightarrow> 75/100 \<le> canary_percent cfg))"

subsection \<open>Preservation\<close>

lemma infer_phase_iff:
  "infer_phase p = IDLE \<longleftrightarrow> p \<le> 0" "infer_phase p = FULL \<longleftrightarrow> 75/100 \<le> p" "infer_phase p \<noteq> ROLLBACK"
  by (simp_all add: infer_phase_def)

lemma canary_wf_upd:
  assumes "canary_wf c" and "configs d = dict_set n cfg (configs c)" and "phases d = dict_set n ph (phases c)"
    and "ph \<in> {IDLE, ROLLBACK} \<longleftrightarrow> canary_percent cfg \<le> 0" and "ph = FULL \<longleftrightarrow> 75/100 \<le> canary_percent cfg"
  shows "canary_wf d"
  using assms by (simp add: canary_wf_def get_phase_def)

lemma canary_wf_same:
  "canary_wf c \<Longrightarrow> configs d = configs c \<Longrightarrow> phases d = phases c \<Longrightarrow> canary_wf d"
  by (simp add: canary_wf_def get_phase_def)

lemma record_result_keeps [simp]:
  "configs (record_result n t ok l c) = configs c" "phases (record_result n t ok l c) = phases c"
  "cooldown_until (record_result n t ok l c) = cooldown_until c"
  by (simp_all add: record_result_def Let_def)

lemma canary_wf_split: "canary_wf c \<Longrightarrow> canary_wf (snd (set_split n p c))"
proof (cases "0 \<le> p \<and> p \<le> 1")
  case True
  assume "canary_wf c"
  then show ?thesis
    by (rule canary_wf_upd [where n = n
          and cfg = "dict_getd (configs c) n (default_canary_config n)\<lparr>canary_percent := p\<rparr>"
          and ph = "if p = 0 then IDLE else if p \<ge> 1 then FULL else infer_phase p"])
      (use True in \<open>simp_all add: set_split_def Let_def infer_phase_iff\<close>)
qed (auto simp: set_split_def)

lemma canary_wf_configure: "canary_wf c \<Longrightarrow> canary_wf (configure now n s k p m th cd c)"
  by (rule canary_wf_upd [where n = n and ph = "if p = 0 then IDLE else infer_phase p"])
    (auto simp: configure_def Let_def infer_phase_iff split: if_splits)

lemma canary_wf_rollback: "canary_wf c \<Longrightarrow> canary_wf (rollback now n c)"
  by (rule canary_wf_upd) (auto simp: rollback_def Let_def)

lemma canary_wf_promote: "canary_wf c \<Longrightarrow> canary_wf (promote n c)"
proof (cases "dict_get (configs c) n")
  case (Some cfg)
  assume "canary_wf c"
  then show ?thesis
    by (rule canary_wf_upd [where n = n and ph = FULL
          and cfg = "cfg\<lparr>canary_percent := 1, stable_version := canary_version cfg, canary_version := []\<rparr>"])
      (simp_all add: promote_def Some)
qed (simp add: promote_def)

lemma canary_wf_reset: "canary_wf c \<Longrightarrow> canary_wf (reset_canary n c)"
  by (auto simp: reset_canary_def Let_def canary_wf_def get_phase_def init_controller_def dict_getd_def)

lemma canary_wf_step: "canary_wf c \<Longrightarrow> canary_wf (canary_step c e)"
  by (cases e) (auto simp: canary_wf_split canary_wf_configure canary_wf_rollback canary_wf_promote
      canary_wf_reset intro: canary_wf_same)

interpretation canary: invariant_system canary_step canary_wf
  by unfold_locales (rule canary_wf_step)

lemma canary_wf_init: "canary_wf init_controller"
  by (simp add: canary_wf_def init_controller_def)

subsection \<open>Recorded outcomes\<close>

abbreviation record_all :: "string \<Rightarrow> (string \<times> bool \<times> real) list \<Rightarrow> controller \<Rightarrow> controller" where
  "record_all name rs c \<equiv> foldl (\<lambda>c (t, ok, l). record_result name t ok l c) c rs"

lemma outcomes_record:
  "outcomes_of name t (record_result name t' ok l c) =
     (let o' = outcomes_of name t c in
      if t = t' then (if ok then o'\<lparr>n_success := n_success o' + 1\<rparr> else o'\<lparr>n_error := n_error o' + 1\<rparr>)
      else o')"
  by (simp add: outcomes_of_def record_result_def Let_def)

lemma outcomes_record_all:
  "n_success (outcomes_of name t (record_all name rs c)) =
     n_success (outcomes_of name t c) + length (filter (\<lambda>(t', ok, l). t' = t \<and> ok) rs) \<and>
   n_error (outcomes_of name t (record_all name rs c)) =
     n_error (outcomes_of name t c) + length (filter (\<lambda>(t', ok, l). t' = t \<and> \<not> ok) rs)"
  by (induction rs arbitrary: c) (auto simp: outcomes_record Let_def)

lemma split_outcomes:
  "length (filter (\<lambda>(t', ok, l). t' = t \<and> ok) rs) + length (filter (\<lambda>(t', ok, l). t' = t \<and> \<not> ok) rs) =
   length (filter (\<lambda>(t', ok, l). t' = t) rs)"
  by (induction rs) auto

lemma record_all_keeps:
  "configs (record_all name rs c) = configs c \<and> phases (record_all name rs c) = phases c \<and>
   cooldown_until (record_all name rs c) = cooldown_until c"
  by (induction rs arbitrary: c) auto

lemma any_breached_default: "any_breached r default_thresholds \<longleftrightarrow> 5/100 < r"
  by (simp add: default_thresholds_def comparator_def)

subsection \<open>Properties\<close>

text \<open>
  Phase and traffic split always agree: in every state that a sequence of controller operations
  can reach, a model without canary traffic is idle or rolled back, one with at least 75% canary
  traffic is in phase \<^verbatim>\<open>FULL\<close>, and every other configured model is in one of the ramp phases.
\<close>
theorem canary_phase_matches_split:
  "canary_wf (foldl canary_step init_controller es)"
  by (rule canary.run_invar) (rule canary_wf_init)

text \<open>
  The rollback decision is the one that the thresholds describe: for a model configured with
  a canary share below 75% and the default thresholds, after any sequence of recorded results and
  outside a cooldown, \<^verbatim>\<open>should_rollback\<close> holds exactly if enough canary requests have been seen and
  more than 5% of them failed. The recorded latencies play no part, although the default thresholds
  name a 95th percentile.
\<close>
theorem should_rollback_iff_error_rate:
  fixes rs :: "(string \<times> bool \<times> real) list"
  defines "errors \<equiv> length (filter (\<lambda>(t, ok, l). t = ''canary'' \<and> \<not> ok) rs)"
    and "seen \<equiv> length (filter (\<lambda>(t, ok, l). t = ''canary'') rs)"
  assumes "0 < p" and "p < 75/100" and "\<not> dict_has (canary_stats c) name" and "\<not> in_cooldown now' name c"
  shows "should_rollback now' name (record_all name rs (configure now name s k p n None cd c)) \<longleftrightarrow>
    n \<le> int seen \<and> 5/100 * real seen < real errors"
proof -
  let ?c = "configure now name s k p n None cd c" let ?d = "record_all name rs ?c"
  let ?o = "outcomes_of name ''canary'' ?d"
  have start: "outcomes_of name ''canary'' ?c = no_outcomes"
    using assms(5) by (simp add: outcomes_of_def configure_def Let_def dict_getd_def)
  have err: "n_error ?o = errors" using outcomes_record_all [of name "''canary''" ?c rs]
    by (simp add: errors_def start no_outcomes_def)
  have tot: "n_success ?o + n_error ?o = seen"
    using outcomes_record_all [of name "''canary''" ?c rs]
      split_outcomes [of "''canary''" rs] by (simp add: seen_def start no_outcomes_def)
  have rate: "canary_error_rate (get_metrics name ?d) = (if 0 < seen then real errors / real seen else 0)"
    using err tot by (simp add: get_metrics_def Let_def)
  have le: "errors \<le> seen" using err tot by linarith
  have ph: "dict_getd (phases ?c) name IDLE \<notin> {IDLE, FULL, ROLLBACK}"
    using assms(3,4) by (auto simp: configure_def Let_def infer_phase_def)
  have cool: "\<not> in_cooldown now' name ?d"
    using assms(6) by (simp add: in_cooldown_def record_all_keeps) (simp add: configure_def Let_def)
  obtain cfg where cfg: "dict_get (configs ?c) name = Some cfg" "min_samples cfg = n"
      "rollback_thresholds cfg = default_thresholds"
    by (simp add: configure_def Let_def)
  have sr: "should_rollback now' name ?d \<longleftrightarrow> \<not> int (n_success ?o + n_error ?o) < n \<and>
      any_breached (canary_error_rate (get_metrics name ?d)) default_thresholds"
    using ph cool by (simp add: should_rollback_def record_all_keeps Let_def cfg)
  have "should_rollback now' name ?d \<longleftrightarrow> n \<le> int seen \<and> 5/100 < (if 0 < seen then real errors / real seen else 0)"
    unfolding sr tot rate any_breached_default by (simp only: not_less)
  also have "\<dots> \<longleftrightarrow> n \<le> int seen \<and> 5/100 * real seen < real errors"
    using le by (auto simp: field_simps)
  finally show ?thesis .
qed

theorem should_rollback_iff_error_rate_witness:
  "should_rollback 10 ''llm'' (record_all ''llm'' [(''canary'', False, 5), (''stable'', True, 5), (''canary'', True, 5)]
     (configure 0 ''llm'' ''v1'' ''v2'' (1/10) 2 None 60 init_controller))"
  by (subst should_rollback_iff_error_rate) (simp_all add: init_controller_def in_cooldown_def dict_getd_def)

text \<open>
  A canary that gets 75% of the traffic or more is never rolled back automatically: such
  a split is classified as \<^verbatim>\<open>FULL\<close>, the phase of a finished promotion, and \<^verbatim>\<open>should_rollback\<close> is
  false there in every reachable state, even if every request has failed.
\<close>
theorem large_canary_never_rolled_back:
  assumes "dict_get (configs (foldl canary_step init_controller es)) name = Some cfg"
    and "75/100 \<le> canary_percent cfg"
  shows "\<not> should_rollback now name (foldl canary_step init_controller es)"
proof -
  have "canary_wf (foldl canary_step init_controller es)"
    by (rule canary.run_invar) (rule canary_wf_init)
  with assms have "get_phase name (foldl canary_step init_controller es) = FULL" by (simp add: canary_wf_def)
  then show ?thesis using assms(1) by (simp add: should_rollback_def get_phase_def)
qed

theorem large_canary_never_rolled_back_witness:
  "\<not> should_rollback 10 ''llm'' (foldl canary_step init_controller
     [Configure 0 ''llm'' ''v1'' ''v2'' (8/10) 1 None 60, Result ''llm'' ''canary'' False 5,
      Result ''llm'' ''canary'' False 5])"
  by (rule large_canary_never_rolled_back [where cfg = "\<lparr>model_name = ''llm'', stable_version = ''v1'',
        canary_version = ''v2'', canary_percent = 8/10, min_samples = 1,
        rollback_thresholds = default_thresholds, cooldown_seconds = 60\<rparr>"])
    (simp_all add: configure_def init_controller_def)

definition lifts_cooldown :: "string \<Rightarrow> canary_event \<Rightarrow> bool" where
  \<comment> \<open>the operations that may overwrite the cooldown of a model\<close>
  "lifts_cooldown name e =
     (case e of Rollback _ n \<Rightarrow> n = name | Reset n \<Rightarrow> \<not> truthy_str n \<or> n = Some name | _ \<Rightarrow> False)"

lemma cooldown_kept:
  "\<not> lifts_cooldown name e \<Longrightarrow> dict_getd (cooldown_until (canary_step c e)) name 0 = dict_getd (cooldown_until c) name 0"
  by (cases e) (auto simp: lifts_cooldown_def set_split_def configure_def rollback_def promote_def reset_canary_def
      Let_def truthy_str_def dict_getd_def split: option.splits)

lemma cooldown_kept_run:
  "list_all (\<lambda>e. \<not> lifts_cooldown name e) es \<Longrightarrow>
   dict_getd (cooldown_until (foldl canary_step c es)) name 0 = dict_getd (cooldown_until c) name 0"
  by (induction es arbitrary: c) (auto simp: cooldown_kept)

text \<open>
  A rollback takes the canary out of traffic for the whole cooldown: whatever splits,
  configurations, promotions and results follow, until the cooldown that was configured at the
  moment of the rollback is over every request is routed to the stable version, and no further
  automatic rollback is asked for.
\<close>
theorem rollback_enforces_cooldown:
  assumes "list_all (\<lambda>e. \<not> lifts_cooldown name e) es" and "0 \<le> rnd"
    and "now' < now + cooldown_seconds (dict_getd (configs c) name (default_canary_config name))"
  shows "route now' rnd name (foldl canary_step (rollback now name c) es) = ''stable'' \<and>
    \<not> should_rollback now' name (foldl canary_step (rollback now name c) es)"
proof -
  let ?d = "foldl canary_step (rollback now name c) es"
  have "in_cooldown now' name ?d"
    using assms(3) cooldown_kept_run [OF assms(1), of "rollback now name c"]
    by (simp add: in_cooldown_def) (simp add: rollback_def Let_def)
  then show ?thesis
    using assms(2) by (auto simp: route_def should_rollback_def Let_def split: option.split)
qed

theorem rollback_enforces_cooldown_witness:
  "route 100 (1/2) ''llm'' (foldl canary_step (rollback 0 ''llm'' init_controller) [SetSplit ''llm'' 1, Promote ''llm''])
     = ''stable''"
  using rollback_enforces_cooldown [of "''llm''" "[SetSplit ''llm'' 1, Promote ''llm'']" "1/2" 100 0 init_controller]
  by (simp add: lifts_cooldown_def init_controller_def dict_getd_def default_canary_config_def)

text \<open>
  A new canary inherits the record of the old one: configuring a new version leaves the counted
  outcomes in place, so that it can be condemned before it has served a request.
\<close>

lemma configure_keeps_stats:
  "canary_stats (configure now name s k p n th cd c) = canary_stats c"
  by (simp add: configure_def Let_def)

end
