(* ===== verification/Model_Registry.thy ===== *)
theory Model_Registry
  imports Prelude "HOL-Library.List_Lexorder"
begin

text \<open>
  The model registry, \<^verbatim>\<open>proxy/app/model_evolution/model_registry.py\<close>: versions of models with their
  life cycle, and the JSON file that mirrors them. Version labels are strings that the code compares
  through \<^verbatim>\<open>int\<close>; a label that is not a number makes those operations raise, as it does here. The
  file is written through a temporary file and a rename, so that a save either happens or does not.
\<close>

subsection \<open>State\<close>

record model_version =
  mv_name :: string
  version :: string
  artifact_path :: string
  metrics :: "(string, real) dict"
  mv_status :: string
  mv_created_at :: string

type_synonym versions = "(string, model_version) dict"

record registry =
  models :: "(string, versions) dict"
  saved :: "json option option"
  \<comment> \<open>the file: missing, not JSON (\<open>Some None\<close>), or a JSON value\<close>

definition new_version :: "string \<Rightarrow> string \<Rightarrow> string \<Rightarrow> string \<Rightarrow> (string, real) dict \<Rightarrow> string \<Rightarrow> string \<Rightarrow> model_version" where
  \<comment> \<open>the dataclass with its \<^verbatim>\<open>__post_init__\<close>\<close>
  "new_version now n v path ms st created =
     \<lparr>mv_name = n, version = v, artifact_path = path, metrics = ms, mv_status = st,
      mv_created_at = (if created = [] then now else created)\<rparr>"

subsection \<open>Persistence\<close>

definition to_dict :: "model_version \<Rightarrow> json" where
  "to_dict m =
     JObj [(''name'', JStr (mv_name m)), (''version'', JStr (version m)),
           (''artifact_path'', JStr (artifact_path m)),
           (''metrics'', JObj (map (\<lambda>(k, x). (k, JFloat x)) (metrics m))),
           (''status'', JStr (mv_status m)), (''created_at'', JStr (mv_created_at m))]"

definition field :: "json_obj \<Rightarrow> string \<Rightarrow> string option \<Rightarrow> exn + string" where
  \<comment> \<open>\<^verbatim>\<open>d[k]\<close>, or \<^verbatim>\<open>d.get(k, dflt)\<close>. A field of another type than the dataclass declares, which the
     registry never writes, is not represented: it shows up here as a \<^verbatim>\<open>TypeError\<close>\<close>
  "field d k dflt =
     (case dict_get d k of
        Some (JStr s) \<Rightarrow> Inr s
      | Some _ \<Rightarrow> Inl (PyException ''TypeError'' k)
      | None \<Rightarrow> (case dflt of Some s \<Rightarrow> Inr s | None \<Rightarrow> Inl (KeyError k)))"

fun floats_of :: "json_obj \<Rightarrow> exn + (string, real) dict" where
  "floats_of [] = Inr []"
| "floats_of ((k, JFloat x) # d) = (case floats_of d of Inl e \<Rightarrow> Inl e | Inr r \<Rightarrow> Inr ((k, x) # r))"
| "floats_of ((k, JInt i) # d) = (case floats_of d of Inl e \<Rightarrow> Inl e | Inr r \<Rightarrow> Inr ((k, of_int i) # r))"
| "floats_of ((k, v) # d) = Inl (PyException ''TypeError'' k)"

definition from_dict :: "string \<Rightarrow> json \<Rightarrow> exn + model_version" where
  "from_dict now j =
     (case j of
        JObj d \<Rightarrow>
          (case field d ''name'' None of Inl e \<Rightarrow> Inl e | Inr n \<Rightarrow>
           case field d ''version'' None of Inl e \<Rightarrow> Inl e | Inr v \<Rightarrow>
           case field d ''artifact_path'' None of Inl e \<Rightarrow> Inl e | Inr p \<Rightarrow>
           case (case dict_getd d ''metrics'' (JObj []) of
                   JObj ms \<Rightarrow> floats_of ms | _ \<Rightarrow> Inl (PyException ''TypeError'' ''metrics'')) of
             Inl e \<Rightarrow> Inl e | Inr ms \<Rightarrow>
           case field d ''status'' (Some ''staging'') of Inl e \<Rightarrow> Inl e | Inr st \<Rightarrow>
           case field d ''created_at'' (Some []) of Inl e \<Rightarrow> Inl e | Inr ca \<Rightarrow>
           Inr (new_version now n v p ms st ca))
      | _ \<Rightarrow> Inl (PyException ''TypeError'' ''subscript''))"

fun map_values :: "('a \<Rightarrow> exn + 'b) \<Rightarrow> ('k \<times> 'a) list \<Rightarrow> exn + ('k \<times> 'b) list" where
  "map_values f [] = Inr []"
| "map_values f ((k, x) # xs) =
     (case f x of
        Inl e \<Rightarrow> Inl e
      | Inr y \<Rightarrow> (case map_values f xs of Inl e \<Rightarrow> Inl e | Inr ys \<Rightarrow> Inr ((k, y) # ys)))"

definition items_of :: "json \<Rightarrow> exn + json_obj" where
  "items_of j = (case j of JObj d \<Rightarrow> Inr d | _ \<Rightarrow> Inl (PyException ''AttributeError'' ''items''))"

definition load :: "string \<Rightarrow> json option option \<Rightarrow> exn + registry" where
  "load now file =
     (case file of
        None \<Rightarrow> Inr \<lparr>models = [], saved = file\<rparr>
      | Some None \<Rightarrow> Inr \<lparr>models = [], saved = file\<rparr>
      | Some (Some data) \<Rightarrow>
          (case json_get data ''models'' (JObj []) of
             Inl e \<Rightarrow> Inl e
           | Inr ms \<Rightarrow>
               (case items_of ms of
                  Inl e \<Rightarrow> Inl e
                | Inr d \<Rightarrow>
                    (case map_values (\<lambda>vs. case items_of vs of Inl e \<Rightarrow> Inl e | Inr vd \<Rightarrow> map_values (from_dict now) vd) d of
                       Inl e \<Rightarrow> Inl e
                     | Inr m \<Rightarrow> Inr \<lparr>models = m, saved = file\<rparr>))))"

definition to_json :: "(string, versions) dict \<Rightarrow> json" where
  "to_json m = JObj [(''models'', JObj (map (\<lambda>(n, vs). (n, JObj (map (\<lambda>(v, mv). (v, to_dict mv)) vs))) m))]"

definition save :: "registry \<Rightarrow> registry" where
  "save r = r\<lparr>saved := Some (Some (to_json (models r)))\<rparr>"

subsection \<open>Operations\<close>

definition register ::
  "string \<Rightarrow> string \<Rightarrow> string \<Rightarrow> (string, real) dict option \<Rightarrow> string option \<Rightarrow> registry \<Rightarrow>
   (exn + model_version) \<times> registry" where
  "register now name path ms ver r =
     (if name = [] then (Inl (ValueError ''model name must not be empty''), r)
      else if path = [] then (Inl (ValueError ''artifact_path must not be empty''), r)
      else
        (let vs = dict_getd (models r) name [];
             r = r\<lparr>models := dict_set name vs (models r)\<rparr>;
             v = (case ver of None \<Rightarrow> nat_str (length vs + 1) | Some v \<Rightarrow> v)
         in if dict_has vs v then (Inl (ValueError ''already exists''), r)
            else
              (let mv = new_version now name v path (case ms of None \<Rightarrow> [] | Some x \<Rightarrow> x) ''staging'' []
               in (Inr mv, save (r\<lparr>models := dict_set name (dict_set v mv vs) (models r)\<rparr>)))))"

definition get_or_raise :: "string \<Rightarrow> string \<Rightarrow> registry \<Rightarrow> exn + model_version" where
  "get_or_raise name v r =
     (case dict_get (models r) name of
        None \<Rightarrow> Inl (KeyError ''model'')
      | Some vs \<Rightarrow> (case dict_get vs v of None \<Rightarrow> Inl (KeyError ''version'') | Some mv \<Rightarrow> Inr mv))"

definition get_version :: "string \<Rightarrow> string \<Rightarrow> registry \<Rightarrow> exn + model_version" where
  "get_version name v r = get_or_raise name v r"

definition numbered :: "versions \<Rightarrow> (int \<times> string \<times> model_version) list option" where
  \<comment> \<open>the keys that \<^verbatim>\<open>sorted\<close> and \<^verbatim>\<open>max\<close> compute; \<open>None\<close> when some version is not a number\<close>
  "numbered vs =
     (if list_all (\<lambda>(k, mv). py_int (version mv) \<noteq> None) vs
      then Some (map (\<lambda>(k, mv). (the (py_int (version mv)), k, mv)) vs) else None)"

abbreviation not_a_number :: exn where
  "not_a_number \<equiv> ValueError ''invalid literal for int()''"

definition latest_production :: "versions \<Rightarrow> exn + (string \<times> model_version) option" where
  "latest_production vs =
     (case numbered vs of
        None \<Rightarrow> Inl not_a_number
      | Some ns \<Rightarrow>
          Inr (map_option snd (find (\<lambda>(i, k, mv). mv_status mv = ''production'') (sort_key (\<lambda>(i, _). - i) ns))))"

definition get_latest_production :: "string \<Rightarrow> registry \<Rightarrow> exn + model_version option" where
  "get_latest_production name r =
     (case dict_get (models r) name of
        None \<Rightarrow> Inr None
      | Some vs \<Rightarrow> (case latest_production vs of Inl e \<Rightarrow> Inl e | Inr x \<Rightarrow> Inr (map_option snd x)))"

fun max_first :: "(int \<times> 'a) \<Rightarrow> (int \<times> 'a) list \<Rightarrow> int \<times> 'a" where
  \<comment> \<open>\<^verbatim>\<open>max\<close> keeps the first of several greatest elements\<close>
  "max_first x [] = x"
| "max_first x (y # ys) = max_first (if fst y > fst x then y else x) ys"

definition get_latest :: "string \<Rightarrow> registry \<Rightarrow> exn + model_version option" where
  "get_latest name r =
     (case dict_get (models r) name of
        None \<Rightarrow> Inr None
      | Some vs \<Rightarrow>
          (if vs = [] then Inr None
           else if \<not> list_all (\<lambda>(k, mv). py_int k \<noteq> None) vs then Inl not_a_number
           else
             (let ks = map (\<lambda>(k, mv). (the (py_int k), mv)) vs
              in Inr (Some (snd (max_first (hd ks) (tl ks)))))))"

definition list_models :: "registry \<Rightarrow> string list" where
  "list_models r = sort (dict_keys (models r))"

definition list_versions :: "string \<Rightarrow> registry \<Rightarrow> exn + model_version list" where
  "list_versions name r =
     (case dict_get (models r) name of
        None \<Rightarrow> Inr []
      | Some vs \<Rightarrow>
          (case numbered vs of
             None \<Rightarrow> Inl not_a_number
           | Some ns \<Rightarrow> Inr (map (\<lambda>(i, k, mv). mv) (sort_key fst ns))))"

definition list_by_status :: "string \<Rightarrow> string \<Rightarrow> registry \<Rightarrow> exn + model_version list" where
  "list_by_status name st r =
     (case list_versions name r of Inl e \<Rightarrow> Inl e | Inr mvs \<Rightarrow> Inr (filter (\<lambda>m. mv_status m = st) mvs))"

definition set_status :: "string \<Rightarrow> string \<Rightarrow> versions \<Rightarrow> versions" where
  \<comment> \<open>\<^verbatim>\<open>mv.status = ...\<close> on the object stored under a key\<close>
  "set_status k st vs = map (\<lambda>(k', mv). (k', if k' = k then mv\<lparr>mv_status := st\<rparr> else mv)) vs"

definition archive_previous_production :: "string \<Rightarrow> versions \<Rightarrow> versions" where
  "archive_previous_production new_v vs =
     map (\<lambda>(k, mv). (k, if mv_status mv = ''production'' \<and> version mv \<noteq> new_v
                        then mv\<lparr>mv_status := ''archived''\<rparr> else mv)) vs"

definition promote_version :: "string \<Rightarrow> string \<Rightarrow> registry \<Rightarrow> (exn + model_version) \<times> registry" where
  "promote_version name v r =
     (case get_or_raise name v r of
        Inl e \<Rightarrow> (Inl e, r)
      | Inr mv \<Rightarrow>
          (let vs = dict_getd (models r) name [];
               vs = (if mv_status mv = ''staging'' then set_status v ''canary'' vs
                     else if mv_status mv = ''canary''
                     then set_status v ''production'' (archive_previous_production v vs)
                     else vs);
               r = save (r\<lparr>models := dict_set name vs (models r)\<rparr>)
           in (Inr (the (dict_get vs v)), r)))"

definition find_previous_production :: "string \<Rightarrow> versions \<Rightarrow> exn + (string \<times> model_version) option" where
  "find_previous_production current vs =
     (let cs = filter (\<lambda>(k, mv). mv_status mv = ''archived'' \<and> version mv \<noteq> current) vs
      in if cs = [] then Inr None
         else case numbered cs of
                None \<Rightarrow> Inl not_a_number
              | Some ns \<Rightarrow> Inr (Some (snd (max_first (hd ns) (tl ns)))))"

definition rollback_model :: "string \<Rightarrow> registry \<Rightarrow> (exn + model_version) \<times> registry" where
  "rollback_model name r =
     (case dict_get (models r) name of
        None \<Rightarrow> (Inl (KeyError ''model''), r)
      | Some vs \<Rightarrow>
          (case latest_production vs of
             Inl e \<Rightarrow> (Inl e, r)
           | Inr None \<Rightarrow> (Inl (ValueError ''No current production version''), r)
           | Inr (Some (ck, cur)) \<Rightarrow>
               (case find_previous_production (version cur) vs of
                  Inl e \<Rightarrow> (Inl e, r)
                | Inr None \<Rightarrow> (Inl (ValueError ''No previous production version''), r)
                | Inr (Some (pk, prev)) \<Rightarrow>
                    (Inr (prev\<lparr>mv_status := ''production''\<rparr>),
                     save (r\<lparr>models := dict_set name
                              (set_status pk ''production'' (set_status ck ''archived'' vs)) (models r)\<rparr>)))))"

definition update_metrics :: "string \<Rightarrow> string \<Rightarrow> (string, real) dict \<Rightarrow> registry \<Rightarrow> (exn + unit) \<times> registry" where
  "update_metrics name v ms r =
     (case get_or_raise name v r of
        Inl e \<Rightarrow> (Inl e, r)
      | Inr mv \<Rightarrow>
          (Inr (), save (r\<lparr>models := dict_set name
             (map (\<lambda>(k, m). (k, if k = v then m\<lparr>metrics := ms\<rparr> else m)) (dict_getd (models r) name []))
             (models r)\<rparr>)))"

definition delete_version :: "string \<Rightarrow> string \<Rightarrow> registry \<Rightarrow> (exn + unit) \<times> registry" where
  "delete_version name v r =
     (case get_or_raise name v r of
        Inl e \<Rightarrow> (Inl e, r)
      | Inr mv \<Rightarrow>
          (let vs = dict_del v (dict_getd (models r) name [])
           in (Inr (), save (r\<lparr>models := (if vs = [] then dict_del name (models r)
                                          else dict_set name vs (models r))\<rparr>))))"

subsection \<open>Runs\<close>

datatype registry_event =
    Register string string string "(string, real) dict option" "string option"
  | PromoteVersion string string
  | RollbackModel string
  | UpdateMetrics string string "(string, real) dict"
  | DeleteVersion string string

fun registry_step :: "registry \<Rightarrow> registry_event \<Rightarrow> registry" where
  "registry_step r (Register now n p ms v) = snd (register now n p ms v r)"
| "registry_step r (PromoteVersion n v) = snd (promote_version n v r)"
| "registry_step r (RollbackModel n) = snd (rollback_model n r)"
| "registry_step r (UpdateMetrics n v ms) = snd (update_metrics n v ms r)"
| "registry_step r (DeleteVersion n v) = snd (delete_version n v r)"

definition empty_registry :: registry where
  "empty_registry = \<lparr>models = [], saved = None\<rparr>"

definition production_keys :: "versions \<Rightarrow> string set" where
  "production_keys vs = {k. \<exists>mv. map_of vs k = Some mv \<and> mv_status mv = ''production''}"

definition labelled :: "string \<Rightarrow> versions \<Rightarrow> bool" where
  "labelled n vs \<longleftrightarrow> dict_ok vs \<and> (\<forall>k mv. map_of vs k = Some mv \<longrightarrow> version mv = k \<and> mv_name mv = n)"

definition versions_wf :: "string \<Rightarrow> versions \<Rightarrow> bool" where
  "versions_wf n vs \<longleftrightarrow> labelled n vs \<and> (\<forall>k \<in> production_keys vs. \<forall>k' \<in> production_keys vs. k = k')"

definition registry_wf :: "registry \<Rightarrow> bool" where
  "registry_wf r \<longleftrightarrow> dict_ok (models r) \<and> (\<forall>n vs. map_of (models r) n = Some vs \<longrightarrow> versions_wf n vs)"

subsection \<open>Preservation\<close>

lemma models_save [simp]: "models (save r) = models r"
  by (simp add: save_def)

lemma registry_wf_save [simp]: "registry_wf (save r) = registry_wf r"
  by (simp add: registry_wf_def)

lemma registry_wf_set:
  "registry_wf r \<Longrightarrow> versions_wf n vs \<Longrightarrow> registry_wf (r\<lparr>models := dict_set n vs (models r)\<rparr>)"
  by (simp add: registry_wf_def)

lemma registry_wf_set_again:
  "registry_wf r \<Longrightarrow> versions_wf n ws \<Longrightarrow> registry_wf (r\<lparr>models := dict_set n ws (dict_set n vs (models r))\<rparr>)"
  by (simp add: registry_wf_def)

lemma versions_wf_Nil [simp]: "versions_wf n []"
  by (simp add: versions_wf_def labelled_def production_keys_def)

lemma registry_wf_getd: "registry_wf r \<Longrightarrow> versions_wf n (dict_getd (models r) n [])"
  by (auto simp: registry_wf_def dict_getd_def split: option.split)

lemma map_of_set_status:
  "map_of (set_status k st vs) k' = map_option (\<lambda>mv. if k' = k then mv\<lparr>mv_status := st\<rparr> else mv) (map_of vs k')"
  unfolding set_status_def by (rule map_of_map_values)

lemma map_of_archive:
  "map_of (archive_previous_production v vs) k =
     map_option (\<lambda>mv. if mv_status mv = ''production'' \<and> version mv \<noteq> v then mv\<lparr>mv_status := ''archived''\<rparr> else mv)
       (map_of vs k)"
  unfolding archive_previous_production_def by (rule map_of_map_values)

lemma labelled_map_values:
  assumes "labelled n vs" and "\<And>k mv. version (f k mv) = version mv \<and> mv_name (f k mv) = mv_name mv"
  shows "labelled n (map (\<lambda>(k, mv). (k, f k mv)) vs)"
  using assms unfolding labelled_def dict_ok_map_values map_of_map_values by auto

lemma labelled_set_status: "labelled n vs \<Longrightarrow> labelled n (set_status k st vs)"
  unfolding set_status_def by (rule labelled_map_values) simp_all

lemma labelled_archive: "labelled n vs \<Longrightarrow> labelled n (archive_previous_production v vs)"
  unfolding archive_previous_production_def by (rule labelled_map_values) simp_all

lemma production_keys_map:
  "production_keys (map (\<lambda>(k, mv). (k, f k mv)) vs) =
     {k. \<exists>mv. map_of vs k = Some mv \<and> mv_status (f k mv) = ''production''}"
  by (simp only: production_keys_def map_of_map_values map_option_eq_Some) blast

lemma production_keys_other:
  "st \<noteq> ''production'' \<Longrightarrow> production_keys (set_status k st vs) = production_keys vs - {k}"
  unfolding set_status_def production_keys_map by (auto simp: production_keys_def)

lemma production_keys_set:
  "production_keys (set_status k ''production'' vs) \<subseteq> insert k (production_keys vs)"
  unfolding set_status_def production_keys_map by (auto simp: production_keys_def)

lemma production_keys_archive:
  "labelled n vs \<Longrightarrow> production_keys (archive_previous_production v vs) \<subseteq> {v}"
  unfolding archive_previous_production_def production_keys_map
  by (auto simp: labelled_def split: if_splits)

lemma versions_wf_set_status:
  "versions_wf n vs \<Longrightarrow> st \<noteq> ''production'' \<Longrightarrow> versions_wf n (set_status k st vs)"
  by (simp add: versions_wf_def labelled_set_status production_keys_other)

lemma versions_wf_produce:
  assumes "versions_wf n vs"
  shows "versions_wf n (set_status v ''production'' (archive_previous_production v vs))"
proof -
  let ?new = "set_status v ''production'' (archive_previous_production v vs)"
  have lab: "labelled n vs" using assms by (simp add: versions_wf_def)
  have "production_keys ?new \<subseteq> {v}"
    using production_keys_set [of v "archive_previous_production v vs"] production_keys_archive [OF lab, of v] by blast
  moreover have "labelled n ?new" using lab by (intro labelled_set_status labelled_archive)
  ultimately show ?thesis unfolding versions_wf_def by blast
qed

lemma versions_wf_swap:
  assumes "versions_wf n vs" and "ck \<in> production_keys vs"
  shows "versions_wf n (set_status pk ''production'' (set_status ck ''archived'' vs))"
proof -
  have "production_keys vs = {ck}" using assms by (auto simp: versions_wf_def)
  then have "production_keys (set_status ck ''archived'' vs) = {}" by (simp add: production_keys_other)
  then have "production_keys (set_status pk ''production'' (set_status ck ''archived'' vs)) \<subseteq> {pk}"
    using production_keys_set [of pk "set_status ck ''archived'' vs"] by simp
  then show ?thesis using assms(1) by (auto simp: versions_wf_def labelled_set_status)
qed

lemma versions_wf_add:
  assumes "versions_wf n vs" and "map_of vs k = None"
  shows "versions_wf n (dict_set k (new_version now n k p m ''staging'' []) vs)"
proof -
  have "production_keys (dict_set k (new_version now n k p m ''staging'' []) vs) \<subseteq> production_keys vs"
    by (auto simp: production_keys_def new_version_def split: if_splits)
  moreover have "labelled n (dict_set k (new_version now n k p m ''staging'' []) vs)"
    using assms by (simp add: versions_wf_def labelled_def new_version_def)
  ultimately show ?thesis using assms(1) unfolding versions_wf_def by blast
qed

lemma registry_wf_register: "registry_wf r \<Longrightarrow> registry_wf (snd (register now n p ms v r))"
  using registry_wf_getd [of r n]
  by (auto simp: register_def Let_def versions_wf_add intro!: registry_wf_set registry_wf_set_again)

lemma registry_wf_promote: "registry_wf r \<Longrightarrow> registry_wf (snd (promote_version n v r))"
  using registry_wf_getd [of r n]
  by (auto simp: promote_version_def Let_def versions_wf_set_status versions_wf_produce
      intro!: registry_wf_set split: sum.split)

lemma registry_wf_metrics: "registry_wf r \<Longrightarrow> registry_wf (snd (update_metrics n v ms r))"
proof -
  assume wf: "registry_wf r"
  let ?vs = "dict_getd (models r) n []"
  let ?new = "map (\<lambda>(k, m). (k, if k = v then m\<lparr>metrics := ms\<rparr> else m)) ?vs"
  have "production_keys ?new = production_keys ?vs"
    unfolding production_keys_map by (auto simp: production_keys_def)
  then have "versions_wf n ?new"
    using registry_wf_getd [OF wf, of n] by (auto simp: versions_wf_def intro!: labelled_map_values)
  with wf show ?thesis
    by (auto simp: update_metrics_def intro!: registry_wf_set split: sum.split)
qed

lemma registry_wf_delete: "registry_wf r \<Longrightarrow> registry_wf (snd (delete_version n v r))"
proof -
  assume wf: "registry_wf r"
  let ?vs = "dict_getd (models r) n []"
  have "production_keys (dict_del v ?vs) \<subseteq> production_keys ?vs" and "labelled n ?vs \<longrightarrow> labelled n (dict_del v ?vs)"
    by (auto simp: production_keys_def labelled_def)
  then have "versions_wf n (dict_del v ?vs)"
    using registry_wf_getd [OF wf, of n] unfolding versions_wf_def by blast
  moreover have "registry_wf (r\<lparr>models := dict_del n (models r)\<rparr>)" using wf by (simp add: registry_wf_def)
  ultimately show ?thesis
    using wf by (auto simp: delete_version_def Let_def intro!: registry_wf_set split: sum.split)
qed

lemma numbered_set: "numbered vs = Some ns \<Longrightarrow> (i, k, mv) \<in> set ns \<Longrightarrow> (k, mv) \<in> set vs \<and> py_int (version mv) = Some i"
  by (fastforce simp: numbered_def list_all_iff split: if_splits)

lemma numbered_has:
  assumes "numbered vs = Some ns" and "(k, mv) \<in> set vs"
  shows "\<exists>i. py_int (version mv) = Some i \<and> (i, k, mv) \<in> set ns"
proof -
  have ns: "ns = map (\<lambda>(k, mv). (the (py_int (version mv)), k, mv)) vs" and "py_int (version mv) \<noteq> None"
    using assms by (auto simp: numbered_def list_all_iff split: if_splits)
  then obtain i where "py_int (version mv) = Some i" by blast
  with assms(2) show ?thesis unfolding ns by force
qed

lemma latest_production_in:
  assumes "latest_production vs = Inr (Some (k, mv))"
  shows "(k, mv) \<in> set vs \<and> mv_status mv = ''production''"
proof -
  obtain ns i where ns: "numbered vs = Some ns"
    and f: "find (\<lambda>(i, k, mv). mv_status mv = ''production'') (sort_key (\<lambda>(i, _). - i) ns) = Some (i, k, mv)"
    using assms by (auto simp: latest_production_def split: option.splits)
  from find_SomeD [OF f] have "(i, k, mv) \<in> set ns \<and> mv_status mv = ''production''" by simp
  with numbered_set [OF ns] show ?thesis by blast
qed

lemma max_first_in: "max_first x xs \<in> set (x # xs) \<and> (\<forall>y \<in> set (x # xs). fst y \<le> fst (max_first x xs))"
proof (induction xs arbitrary: x)
  case (Cons y ys)
  show ?case using Cons.IH [of "if fst y > fst x then y else x"] by (auto split: if_splits)
qed simp

lemma find_previous_in:
  assumes "find_previous_production c vs = Inr (Some (k, mv))"
  shows "(k, mv) \<in> set vs \<and> mv_status mv = ''archived'' \<and> version mv \<noteq> c \<and>
    (\<exists>i. py_int (version mv) = Some i \<and>
      (\<forall>k' mv'. (k', mv') \<in> set vs \<and> mv_status mv' = ''archived'' \<and> version mv' \<noteq> c \<longrightarrow>
         (\<exists>j \<le> i. py_int (version mv') = Some j)))"
proof -
  let ?cs = "filter (\<lambda>(k, mv). mv_status mv = ''archived'' \<and> version mv \<noteq> c) vs"
  obtain ns where ne: "?cs \<noteq> []" and ns: "numbered ?cs = Some ns"
    and m: "snd (max_first (hd ns) (tl ns)) = (k, mv)"
    using assms by (auto simp: find_previous_production_def Let_def split: if_splits option.splits)
  let ?m = "max_first (hd ns) (tl ns)"
  have ns': "hd ns # tl ns = ns" using ne ns by (cases ns) (auto simp: numbered_def split: if_splits)
  have "?m \<in> set ns" and top: "\<forall>y \<in> set ns. fst y \<le> fst ?m"
    using max_first_in [of "hd ns" "tl ns"] unfolding ns' by blast+
  then obtain i where i: "(i, k, mv) \<in> set ns" and fst: "fst ?m = i" using m by (metis prod.collapse)
  have bound: "(\<exists>j \<le> i. py_int (version mv') = Some j)" if mem: "(k', mv') \<in> set ?cs" for k' mv'
  proof -
    obtain j where "py_int (version mv') = Some j" "(j, k', mv') \<in> set ns"
      using numbered_has [OF ns mem] by blast
    then show ?thesis using top fst by force
  qed
  have "\<forall>k' mv'. (k', mv') \<in> set vs \<and> mv_status mv' = ''archived'' \<and> version mv' \<noteq> c \<longrightarrow>
      (\<exists>j \<le> i. py_int (version mv') = Some j)"
  proof (intro allI impI)
    fix k' mv'
    assume "(k', mv') \<in> set vs \<and> mv_status mv' = ''archived'' \<and> version mv' \<noteq> c"
    then show "\<exists>j \<le> i. py_int (version mv') = Some j" by (intro bound [of k' mv']) simp
  qed
  moreover have "(k, mv) \<in> set vs \<and> mv_status mv = ''archived'' \<and> version mv \<noteq> c"
    and "py_int (version mv) = Some i"
    using numbered_set [OF ns i] by simp_all
  ultimately show ?thesis by blast
qed

lemma versions_wf_mem: "versions_wf n vs \<Longrightarrow> (k, mv) \<in> set vs \<longleftrightarrow> map_of vs k = Some mv"
  by (simp add: versions_wf_def labelled_def dict_ok_get_iff)

lemma registry_wf_rollback: "registry_wf r \<Longrightarrow> registry_wf (snd (rollback_model n r))"
proof -
  assume wf: "registry_wf r"
  have "registry_wf (save (r\<lparr>models := dict_set n (set_status pk ''production'' (set_status ck ''archived'' vs)) (models r)\<rparr>))"
    if "map_of (models r) n = Some vs" "latest_production vs = Inr (Some (ck, cur))" for vs ck cur pk
  proof -
    have vs: "versions_wf n vs" using wf that(1) by (simp add: registry_wf_def)
    have "map_of vs ck = Some cur \<and> mv_status cur = ''production''"
      using latest_production_in [OF that(2)] versions_wf_mem [OF vs] by simp
    then have "ck \<in> production_keys vs" by (simp add: production_keys_def)
    with vs wf show ?thesis by (simp only: registry_wf_save) (rule registry_wf_set, simp_all add: versions_wf_swap)
  qed
  with wf show ?thesis
    by (auto simp: rollback_model_def split: option.split sum.split)
qed

lemma registry_wf_step: "registry_wf r \<Longrightarrow> registry_wf (registry_step r e)"
  by (cases e) (simp_all add: registry_wf_register registry_wf_promote registry_wf_rollback
      registry_wf_metrics registry_wf_delete)

interpretation reg: invariant_system registry_step registry_wf
  by unfold_locales (rule registry_wf_step)

lemma registry_wf_empty: "registry_wf empty_registry"
  by (simp add: registry_wf_def empty_registry_def)

subsection \<open>Saving and loading\<close>

lemma floats_roundtrip: "floats_of (map (\<lambda>(k, x). (k, JFloat x)) ms) = Inr ms"
  by (induction ms) auto

lemma from_to_dict: "mv_created_at m \<noteq> [] \<Longrightarrow> from_dict now (to_dict m) = Inr m"
  by (simp add: from_dict_def to_dict_def field_def dict_getd_def floats_roundtrip new_version_def)

lemma map_values_roundtrip:
  "(\<And>k x. (k, x) \<in> set xs \<Longrightarrow> f (g x) = Inr x) \<Longrightarrow> map_values f (map (\<lambda>(k, x). (k, g x)) xs) = Inr xs"
proof (induction xs)
  case (Cons p xs)
  obtain a b where p: "p = (a, b)" by (cases p)
  have "f (g b) = Inr b" using Cons.prems [of a b] p by simp
  moreover have "map_values f (map (\<lambda>(k, x). (k, g x)) xs) = Inr xs"
    by (rule Cons.IH) (use Cons.prems in \<open>meson list.set_intros(2)\<close>)
  ultimately show ?case by (simp add: p)
qed simp

subsection \<open>Rollback\<close>

lemma latest_production_unique:
  assumes "versions_wf n vs" and "(k, mv) \<in> set vs" and "mv_status mv = ''production''" and "numbered vs = Some ns"
  shows "latest_production vs = Inr (Some (k, mv))"
proof -
  obtain i where i: "(i, k, mv) \<in> set ns" and num: "py_int (version mv) = Some i"
    using numbered_has [OF assms(4,2)] by blast
  let ?P = "\<lambda>(i :: int, k :: string, mv). mv_status mv = ''production''"
  have uniq: "x = (i, k, mv)" if x: "x \<in> set (sort_key (\<lambda>(i, _). - i) ns)" "?P x" for x
  proof -
    obtain i' k' mv' where x': "x = (i', k', mv')" by (cases x)
    have "(k', mv') \<in> set vs" "py_int (version mv') = Some i'" and "mv_status mv' = ''production''"
      using x x' numbered_set [OF assms(4), of i' k' mv'] by simp_all
    moreover then have "k' = k"
      using assms(1-3) unfolding versions_wf_mem [OF assms(1)] by (auto simp: versions_wf_def production_keys_def)
    ultimately show ?thesis
      using assms(2) num unfolding versions_wf_mem [OF assms(1)] x' by simp
  qed
  have "find ?P (sort_key (\<lambda>(i, _). - i) ns) = Some (i, k, mv)"
    by (rule find_unique [OF _ _ uniq]) (use i assms(3) in simp_all)
  then show ?thesis by (simp add: latest_production_def assms(4))
qed

lemma numbered_set_status: "numbered vs \<noteq> None \<Longrightarrow> numbered (set_status k st vs) \<noteq> None"
  by (simp add: numbered_def set_status_def list_all_iff case_prod_beta split: if_splits)

lemma latest_numbered: "latest_production vs = Inr x \<Longrightarrow> numbered vs \<noteq> None"
  by (auto simp: latest_production_def split: option.splits)

lemma rollback_model_Inr:
  assumes "registry_wf r" and "rollback_model n r = (Inr p, r')"
  obtains vs ck cur pk prev where "map_of (models r) n = Some vs" and "versions_wf n vs"
    and "latest_production vs = Inr (Some (ck, cur))" and "map_of vs ck = Some cur"
    and "find_previous_production (version cur) vs = Inr (Some (pk, prev))" and "map_of vs pk = Some prev"
    and "p = prev\<lparr>mv_status := ''production''\<rparr>"
    and "map_of (models r') n = Some (set_status pk ''production'' (set_status ck ''archived'' vs))"
proof -
  obtain vs where vs: "map_of (models r) n = Some vs"
    using assms(2) by (auto simp: rollback_model_def split: option.splits)
  obtain ck cur where cur: "latest_production vs = Inr (Some (ck, cur))"
    using assms(2) vs by (auto simp: rollback_model_def split: sum.splits option.splits)
  obtain pk prev where prev: "find_previous_production (version cur) vs = Inr (Some (pk, prev))"
    using assms(2) vs cur by (auto simp: rollback_model_def split: sum.splits option.splits)
  have wf: "versions_wf n vs" using assms(1) vs by (simp add: registry_wf_def)
  have "p = prev\<lparr>mv_status := ''production''\<rparr>"
    and "map_of (models r') n = Some (set_status pk ''production'' (set_status ck ''archived'' vs))"
    using assms(2) vs cur prev by (auto simp: rollback_model_def)
  moreover have "map_of vs ck = Some cur" and "map_of vs pk = Some prev"
    using latest_production_in [OF cur] find_previous_in [OF prev] unfolding versions_wf_mem [OF wf] by simp_all
  ultimately show thesis by (intro that [OF vs wf cur _ prev])
qed

subsection \<open>Properties\<close>

text \<open>
  C26. At most one version of a model is in production: this holds in every state that a sequence of
  registrations, promotions, rollbacks, metric updates and deletions can reach, together with the
  agreement between a version's label and the key it is stored under.
\<close>
theorem registry_single_production:
  "registry_wf (foldl registry_step empty_registry es)"
  by (rule reg.run_invar) (rule registry_wf_empty)

text \<open>
  The file that \<^verbatim>\<open>_save\<close> writes brings back the registry: loading it in a new process yields the
  same models, versions, metrics, statuses and times, in the same order.
\<close>
theorem save_load_roundtrip:
  assumes "list_all (\<lambda>(n, vs). list_all (\<lambda>(k, mv). mv_created_at mv \<noteq> []) vs) (models r)"
  shows "load now (saved (save r)) = Inr (save r)"
proof -
  let ?f = "\<lambda>vs. case items_of vs of Inl e \<Rightarrow> Inl e | Inr vd \<Rightarrow> map_values (from_dict now) vd"
  have "?f (JObj (map (\<lambda>(v, mv). (v, to_dict mv)) vs)) = Inr vs" if "(n, vs) \<in> set (models r)" for n vs
  proof -
    have "from_dict now (to_dict mv) = Inr mv" if "(k, mv) \<in> set vs" for k mv
      using assms that \<open>(n, vs) \<in> set (models r)\<close> by (intro from_to_dict) (auto simp: list_all_iff)
    then have "map_values (from_dict now) (map (\<lambda>(v, mv). (v, to_dict mv)) vs) = Inr vs"
      by (rule map_values_roundtrip)
    then show ?thesis by (simp add: items_of_def)
  qed
  then have "map_values ?f (map (\<lambda>(n, vs). (n, JObj (map (\<lambda>(v, mv). (v, to_dict mv)) vs))) (models r)) = Inr (models r)"
    by (rule map_values_roundtrip)
  then show ?thesis
    by (simp add: load_def save_def to_json_def json_get_def dict_getd_def items_of_def)
qed

definition sample_registry :: registry where
  "sample_registry = foldl registry_step empty_registry
     [Register ''t1'' ''llm'' ''/m/1'' None None, Register ''t2'' ''llm'' ''/m/2'' None None,
      PromoteVersion ''llm'' ''1'', PromoteVersion ''llm'' ''1'',
      PromoteVersion ''llm'' ''2'', PromoteVersion ''llm'' ''2'']"

lemma nat_str_small [simp]: "nat_str (Suc 0) = ''1''" "nat_str 2 = ''2''"
  by code_simp+

lemma sample_registry_models:
  "models sample_registry =
     [(''llm'',
       [(''1'', \<lparr>mv_name = ''llm'', version = ''1'', artifact_path = ''/m/1'', metrics = [],
                mv_status = ''archived'', mv_created_at = ''t1''\<rparr>),
        (''2'', \<lparr>mv_name = ''llm'', version = ''2'', artifact_path = ''/m/2'', metrics = [],
                mv_status = ''production'', mv_created_at = ''t2''\<rparr>)])]"
  by code_simp

theorem save_load_roundtrip_witness:
  "load ''t9'' (saved (save sample_registry)) = Inr (save sample_registry)"
  by (rule save_load_roundtrip) (simp add: sample_registry_models)

text \<open>
  What a rollback does: if it succeeds, the version that was in production is archived, the
  archived version with the greatest number among the others is in production, and no other version
  has changed.
\<close>
theorem rollback_model_effect:
  assumes "registry_wf r" and "rollback_model n r = (Inr p, r')"
  shows "\<exists>cur vs vs'. get_latest_production n r = Inr (Some cur) \<and> get_latest_production n r' = Inr (Some p) \<and>
    map_of (models r) n = Some vs \<and> map_of (models r') n = Some vs' \<and>
    map_of vs (version p) = Some (p\<lparr>mv_status := ''archived''\<rparr>) \<and>
    map_of vs' (version cur) = Some (cur\<lparr>mv_status := ''archived''\<rparr>) \<and>
    (\<forall>k. k \<noteq> version p \<and> k \<noteq> version cur \<longrightarrow> map_of vs' k = map_of vs k)"
proof -
  obtain vs ck cur pk prev where vs: "map_of (models r) n = Some vs" "versions_wf n vs"
    and cur: "latest_production vs = Inr (Some (ck, cur))" "map_of vs ck = Some cur"
    and prev: "find_previous_production (version cur) vs = Inr (Some (pk, prev))" "map_of vs pk = Some prev"
    and p: "p = prev\<lparr>mv_status := ''production''\<rparr>"
    and r': "map_of (models r') n = Some (set_status pk ''production'' (set_status ck ''archived'' vs))"
    by (rule rollback_model_Inr [OF assms]) (rule that, assumption+)
  let ?vs' = "set_status pk ''production'' (set_status ck ''archived'' vs)"
  have lab: "version cur = ck" "version prev = pk" using vs(2) cur(2) prev(2) by (auto simp: versions_wf_def labelled_def)
  have st: "mv_status cur = ''production''" "mv_status prev = ''archived''" and ne: "pk \<noteq> ck"
    using latest_production_in [OF cur(1)] find_previous_in [OF prev(1)] lab by auto
  have wf': "versions_wf n ?vs'"
    by (rule versions_wf_swap [OF vs(2)]) (simp add: production_keys_def cur(2) st(1))
  have "(pk, p) \<in> set ?vs'"
    unfolding versions_wf_mem [OF wf'] map_of_set_status using prev(2) ne p by simp
  moreover obtain ns where "numbered ?vs' = Some ns"
    using numbered_set_status [OF numbered_set_status [OF latest_numbered [OF cur(1)]]] by blast
  ultimately have "latest_production ?vs' = Inr (Some (pk, p))"
    by (intro latest_production_unique [OF wf']) (simp_all add: p)
  then have "get_latest_production n r' = Inr (Some p)" by (simp add: get_latest_production_def r')
  moreover have "get_latest_production n r = Inr (Some cur)" by (simp add: get_latest_production_def vs(1) cur(1))
  moreover have "map_of vs (version p) = Some (p\<lparr>mv_status := ''archived''\<rparr>)" using lab p prev(2) st(2) by simp
  moreover have "map_of ?vs' (version cur) = Some (cur\<lparr>mv_status := ''archived''\<rparr>)"
    using lab cur(2) ne by (simp add: map_of_set_status)
  moreover have "\<forall>k. k \<noteq> version p \<and> k \<noteq> version cur \<longrightarrow> map_of ?vs' k = map_of vs k"
    using lab p by (simp add: map_of_set_status option.map_ident)
  ultimately show ?thesis using vs(1) r' by blast
qed

lemma sample_rollback:
  "\<exists>p r'. rollback_model ''llm'' sample_registry = (Inr p, r') \<and> version p = ''1''"
proof -
  have "(case rollback_model ''llm'' sample_registry of (Inr p, r') \<Rightarrow> version p = ''1'' | _ \<Rightarrow> False)"
    by code_simp
  then show ?thesis by (auto split: prod.splits sum.splits)
qed

theorem rollback_model_effect_witness:
  "\<exists>p r'. rollback_model ''llm'' sample_registry = (Inr p, r') \<and> version p = ''1'' \<and>
     get_latest_production ''llm'' r' = Inr (Some p)"
proof -
  obtain p r' where r: "rollback_model ''llm'' sample_registry = (Inr p, r')" "version p = ''1''"
    using sample_rollback by blast
  have "registry_wf sample_registry"
    unfolding sample_registry_def by (rule reg.run_invar) (rule registry_wf_empty)
  from rollback_model_effect [OF this r(1)] r show ?thesis by blast
qed

text \<open>
  Two rollbacks in a row cancel out. The rolled-back version counts as archived, and the next
  rollback picks the archived version with the greatest number: if the version that misbehaved was
  the newest, a second rollback puts it back into production instead of going further back.
\<close>
theorem double_rollback_returns:
  assumes "registry_wf r" and "rollback_model n r = (Inr p, r')"
    and "get_latest_production n r = Inr (Some cur)" and "py_int (version cur) = Some c"
    and newest: "\<And>vs k mv i. map_of (models r) n = Some vs \<Longrightarrow> map_of vs k = Some mv \<Longrightarrow>
      k \<noteq> version cur \<Longrightarrow> py_int k = Some i \<Longrightarrow> i < c"
    and "rollback_model n r' = (Inr q, r'')"
  shows "q = cur"
proof -
  obtain vs ck cur' pk prev where vs: "map_of (models r) n = Some vs" "versions_wf n vs"
    and cur: "latest_production vs = Inr (Some (ck, cur'))" "map_of vs ck = Some cur'"
    and prev: "find_previous_production (version cur') vs = Inr (Some (pk, prev))" "map_of vs pk = Some prev"
    and p: "p = prev\<lparr>mv_status := ''production''\<rparr>"
    and r': "map_of (models r') n = Some (set_status pk ''production'' (set_status ck ''archived'' vs))"
    by (rule rollback_model_Inr [OF assms(1,2)]) (rule that, assumption+)
  have cur': "cur' = cur" using assms(3) vs(1) cur(1) by (simp add: get_latest_production_def)
  have lab: "version cur = ck" "version prev = pk"
    using vs(2) cur(2) prev(2) cur' by (auto simp: versions_wf_def labelled_def)
  have ne: "pk \<noteq> ck" using find_previous_in [OF prev(1)] lab cur' by auto
  have wf': "registry_wf r'" using registry_wf_rollback [OF assms(1), of n] assms(2) by simp
  obtain ws dk cur2 qk prev2 where ws: "map_of (models r') n = Some ws" "versions_wf n ws"
    and cur2: "latest_production ws = Inr (Some (dk, cur2))" "map_of ws dk = Some cur2"
    and prev2: "find_previous_production (version cur2) ws = Inr (Some (qk, prev2))" "map_of ws qk = Some prev2"
    and q: "q = prev2\<lparr>mv_status := ''production''\<rparr>"
    by (rule rollback_model_Inr [OF wf' assms(6)]) (rule that, assumption+)
  have ws_eq: "ws = set_status pk ''production'' (set_status ck ''archived'' vs)" using ws(1) r' by simp
  have keys: "map_of ws k = map_option (\<lambda>mv. if k = pk then mv\<lparr>mv_status := ''production''\<rparr>
      else if k = ck then mv\<lparr>mv_status := ''archived''\<rparr> else mv) (map_of vs k)" for k
    using ne by (cases "map_of vs k") (simp_all add: ws_eq map_of_set_status)
  have at_ck: "map_of ws ck = Some (cur\<lparr>mv_status := ''archived''\<rparr>)" using cur(2) cur' ne by (simp add: keys)
  have "pk \<in> production_keys ws" using prev(2) by (simp add: production_keys_def keys)
  moreover have "dk \<in> production_keys ws"
    using cur2(2) latest_production_in [OF cur2(1)] by (simp add: production_keys_def)
  ultimately have "dk = pk" using ws(2) by (simp add: versions_wf_def)
  moreover have lab2: "version cur2 = dk" "version prev2 = qk"
    using ws(2) cur2(2) prev2(2) by (auto simp: versions_wf_def labelled_def)
  ultimately have cand: "(ck, cur\<lparr>mv_status := ''archived''\<rparr>) \<in> set ws \<and>
      mv_status (cur\<lparr>mv_status := ''archived''\<rparr>) = ''archived'' \<and>
      version (cur\<lparr>mv_status := ''archived''\<rparr>) \<noteq> version cur2"
    using at_ck ne lab by (simp add: versions_wf_mem [OF ws(2)])
  obtain i where i: "py_int qk = Some i" and top: "\<forall>k' mv'. (k', mv') \<in> set ws \<and> mv_status mv' = ''archived'' \<and>
      version mv' \<noteq> version cur2 \<longrightarrow> (\<exists>j \<le> i. py_int (version mv') = Some j)"
    using find_previous_in [OF prev2(1)] unfolding lab2(2) by (elim conjE exE) (rule that)
  have "\<exists>j \<le> i. py_int (version (cur\<lparr>mv_status := ''archived''\<rparr>)) = Some j" using top cand by blast
  then have "c \<le> i" using assms(4) by simp
  moreover obtain mv where "map_of vs qk = Some mv" using prev2(2) by (auto simp: keys)
  ultimately have "qk = ck" using newest [OF vs(1), of qk mv i] i lab by fastforce
  then have "prev2 = cur\<lparr>mv_status := ''archived''\<rparr>" using prev2(2) at_ck by simp
  then show ?thesis using q latest_production_in [OF cur(1)] cur' by simp
qed

theorem double_rollback_returns_witness:
  "\<exists>p r' q r''. rollback_model ''llm'' sample_registry = (Inr p, r') \<and> version p = ''1'' \<and>
     rollback_model ''llm'' r' = (Inr q, r'') \<and> get_latest_production ''llm'' sample_registry = Inr (Some q)"
proof -
  have "(case rollback_model ''llm'' sample_registry of (Inr p, r') \<Rightarrow> version p = ''1'' \<and>
      (case rollback_model ''llm'' r' of (Inr q, r'') \<Rightarrow> True | _ \<Rightarrow> False) | _ \<Rightarrow> False)"
    by code_simp
  then obtain p r' q r'' where r: "rollback_model ''llm'' sample_registry = (Inr p, r')" "version p = ''1''"
      "rollback_model ''llm'' r' = (Inr q, r'')"
    by (auto split: prod.splits sum.splits)
  have wf: "registry_wf sample_registry"
    unfolding sample_registry_def by (rule reg.run_invar) (rule registry_wf_empty)
  have "(case get_latest_production ''llm'' sample_registry of Inr (Some c) \<Rightarrow> version c = ''2'' | _ \<Rightarrow> False)"
    by code_simp
  then obtain cur where cur: "get_latest_production ''llm'' sample_registry = Inr (Some cur)" "version cur = ''2''"
    by (auto split: sum.splits option.splits)
  have two: "py_int ''2'' = Some 2" and one: "py_int ''1'' = Some 1" by code_simp+
  have "q = cur"
    by (rule double_rollback_returns [OF wf r(1) cur(1) _ _ r(3), of 2])
      (auto simp: cur(2) two one sample_registry_models split: if_splits)
  with r cur show ?thesis by blast
qed

text \<open>
  The automatic version label is the number of stored versions plus one: after a deletion it
  collides with a version that still exists, and registering fails.
\<close>

lemma auto_version_collides:
  "fst (register ''t3'' ''llm'' ''/m/3'' None None (snd (delete_version ''llm'' ''1'' sample_registry))) =
     Inl (ValueError ''already exists'')"
  by code_simp

text \<open>A version label that is not a number makes every listing of the model raise.\<close>

lemma non_numeric_version_raises:
  "fst (rollback_model ''llm'' (snd (register ''t3'' ''llm'' ''/m/3'' None (Some ''v3'') sample_registry))) =
     Inl not_a_number"
  by code_simp

end
