(* ===== verification/Api_Keys.thy ===== *)
theory Api_Keys
  imports Prelude
begin

text \<open>
  API keys, \<^verbatim>\<open>proxy/app/auth/api_keys.py\<close>: issue, rotation, validation, revocation, expiry and
  cleanup. Random tokens and key ids are arguments of the operations, the SHA-256 digest is
  a parameter. A timestamp in a string field is \<open>Iso t\<close> when it is the ISO text of time \<open>t\<close> (in
  seconds), any other text is \<open>Txt s\<close>.
\<close>

subsection \<open>State\<close>

datatype stamp = Iso real | Txt string

record api_key =
  key_id :: string
  key_hash :: string
  key_user :: string
  key_roles :: "string list"
  key_created_at :: stamp
  expires_at :: "stamp option"
  last_used :: "stamp option"
  last_rotated_at :: "stamp option"
  rotated_from_key_id :: "string option"
  is_active :: bool
  key_metadata :: "(string, stamp) dict"

record key_manager =
  keys :: "(string, api_key) dict"
  key_to_user :: "(string, string) dict"

definition init_manager :: key_manager where
  "init_manager = \<lparr>keys = [], key_to_user = []\<rparr>"

definition MAX_KEYS_PER_USER :: nat where
  "MAX_KEYS_PER_USER = 10"

definition DEFAULT_KEY_TTL_DAYS :: int where
  "DEFAULT_KEY_TTL_DAYS = 90"

fun fromisoformat :: "stamp \<Rightarrow> real option" where
  "fromisoformat (Iso t) = Some t"
| "fromisoformat (Txt s) = None"

definition expiry :: "api_key \<Rightarrow> real option" where
  \<comment> \<open>\<open>None\<close> when the field is missing, empty, or cannot be parsed\<close>
  "expiry k = (case expires_at k of None \<Rightarrow> None | Some x \<Rightarrow> fromisoformat x)"

definition key_expired :: "real \<Rightarrow> api_key \<Rightarrow> bool" where
  "key_expired now k = (case expiry k of None \<Rightarrow> False | Some t \<Rightarrow> now > t)"

definition age_days :: "real \<Rightarrow> api_key \<Rightarrow> real option" where
  "age_days now k = map_option (\<lambda>t. (now - t) / 86400) (fromisoformat (key_created_at k))"

subsection \<open>Operations\<close>

definition list_keys :: "real \<Rightarrow> string option \<Rightarrow> bool \<Rightarrow> key_manager \<Rightarrow> api_key list" where
  "list_keys now user include_inactive s =
     (let ks = dict_values (keys s);
          ks = (if truthy_str user then filter (\<lambda>k. key_user k = the user) ks else ks)
      in if include_inactive then ks else filter (\<lambda>k. is_active k \<and> \<not> key_expired now k) ks)"

definition issued_key ::
  "(string \<Rightarrow> string) \<Rightarrow> real \<Rightarrow> string \<Rightarrow> string \<Rightarrow> string \<Rightarrow> string list option \<Rightarrow> int option \<Rightarrow> string option \<Rightarrow> api_key" where
  \<comment> \<open>the \<^verbatim>\<open>ApiKey\<close> object that \<^verbatim>\<open>generate_key\<close> stores\<close>
  "issued_key sha now token kid user rs ttl_days rotated_from =
     (let ttl = (case ttl_days of None \<Rightarrow> DEFAULT_KEY_TTL_DAYS
                 | Some n \<Rightarrow> if n = 0 then DEFAULT_KEY_TTL_DAYS else n)
      in \<lparr>key_id = kid, key_hash = sha (''sk-'' @ token), key_user = user,
          key_roles = (case rs of None \<Rightarrow> [''user''] | Some x \<Rightarrow> if x = [] then [''user''] else x),
          key_created_at = Iso now, expires_at = Some (Iso (now + of_int ttl * 86400)),
          last_used = None,
          last_rotated_at = (if truthy_str rotated_from then Some (Iso now) else None),
          rotated_from_key_id = rotated_from, is_active = True, key_metadata = []\<rparr>)"

definition generate_key ::
  "(string \<Rightarrow> string) \<Rightarrow> real \<Rightarrow> string \<Rightarrow> string \<Rightarrow> string \<Rightarrow> string list option \<Rightarrow> int option \<Rightarrow> string option \<Rightarrow>
   key_manager \<Rightarrow> (exn + string) \<times> key_manager" where
  "generate_key sha now token kid user rs ttl_days rotated_from s =
     (if length (list_keys now (Some user) False s) \<ge> MAX_KEYS_PER_USER
      then (Inl (ValueError ''maximum of active API keys''), s)
      else
        (Inr (''sk-'' @ token),
         s\<lparr>keys := dict_set kid (issued_key sha now token kid user rs ttl_days rotated_from) (keys s),
           key_to_user := dict_set (sha (''sk-'' @ token)) user (key_to_user s)\<rparr>))"

lemma issued_key_simps [simp]:
  "key_user (issued_key sha now token kid user rs ttl rot) = user"
  "key_hash (issued_key sha now token kid user rs ttl rot) = sha (''sk-'' @ token)"
  "is_active (issued_key sha now token kid user rs ttl rot)"
  by (simp_all add: issued_key_def Let_def)

definition update_key :: "string \<Rightarrow> (api_key \<Rightarrow> api_key) \<Rightarrow> key_manager \<Rightarrow> key_manager" where
  \<comment> \<open>assignments to the attributes of the object stored under a key id\<close>
  "update_key kid f s = s\<lparr>keys := map (\<lambda>(i, k). (i, if i = kid then f k else k)) (keys s)\<rparr>"

definition replaced_by :: "string \<Rightarrow> string" where
  "replaced_by new_key =
     (if CHR ''_'' \<in> set new_key then take 8 (last (split_on CHR ''_'' new_key)) else ''unknown'')"

definition rotate_key ::
  "(string \<Rightarrow> string) \<Rightarrow> real \<Rightarrow> string \<Rightarrow> string \<Rightarrow> string \<Rightarrow> int option \<Rightarrow> key_manager \<Rightarrow>
   (exn + string option) \<times> key_manager" where
  "rotate_key sha now token kid old_id ttl_days s =
     (case dict_get (keys s) old_id of
        None \<Rightarrow> (Inr None, s)
      | Some old \<Rightarrow>
          (if \<not> is_active old then (Inr None, s)
           else
             (case generate_key sha now token kid (key_user old) (Some (key_roles old)) ttl_days (Some old_id) s of
                (Inl e, s) \<Rightarrow> (Inl e, s)
              | (Inr new_key, s) \<Rightarrow>
                  (Inr (Some new_key),
                   update_key old_id
                     (\<lambda>k. k\<lparr>key_metadata :=
                        dict_set ''replaced_by'' (Txt (replaced_by new_key))
                          (dict_set ''overlap_till'' (Iso (now + 86400)) (key_metadata k))\<rparr>) s))))"

definition validate_key ::
  "(string \<Rightarrow> string) \<Rightarrow> real \<Rightarrow> string \<Rightarrow> key_manager \<Rightarrow> api_key option \<times> key_manager" where
  "validate_key sha now key s =
     (if key = [] \<or> \<not> starts_with ''sk-'' key then (None, s)
      else
        (let h = sha key in
         if \<not> truthy_str (dict_get (key_to_user s) h) then (None, s)
         else
           (case find (\<lambda>(i, k). key_hash k = h \<and> is_active k) (keys s) of
              None \<Rightarrow> (None, s)
            | Some (i, k) \<Rightarrow>
                (if key_expired now k then (None, s)
                 else (Some (k\<lparr>last_used := Some (Iso now)\<rparr>),
                       update_key i (\<lambda>k. k\<lparr>last_used := Some (Iso now)\<rparr>) s)))))"

definition revoke_key :: "string \<Rightarrow> key_manager \<Rightarrow> bool \<times> key_manager" where
  "revoke_key kid s =
     (if dict_has (keys s) kid then (True, update_key kid (\<lambda>k. k\<lparr>is_active := False\<rparr>) s) else (False, s))"

definition expire_key :: "real \<Rightarrow> string \<Rightarrow> key_manager \<Rightarrow> bool \<times> key_manager" where
  "expire_key now kid s =
     (if dict_has (keys s) kid then (True, update_key kid (\<lambda>k. k\<lparr>expires_at := Some (Iso now)\<rparr>) s)
      else (False, s))"

definition remove_key :: "key_manager \<Rightarrow> string \<Rightarrow> key_manager" where
  "remove_key s kid =
     (case dict_get (keys s) kid of
        None \<Rightarrow> s
      | Some k \<Rightarrow> s\<lparr>key_to_user := dict_del (key_hash k) (key_to_user s), keys := dict_del kid (keys s)\<rparr>)"

definition cleanup_expired_keys :: "real \<Rightarrow> key_manager \<Rightarrow> nat \<times> key_manager" where
  "cleanup_expired_keys now s =
     (let old = map fst (filter (\<lambda>(i, k). case expiry k of None \<Rightarrow> False | Some t \<Rightarrow> t < now - 30 * 86400) (keys s))
      in (length old, foldl remove_key s old))"

record key_health =
  total_keys :: nat
  active_keys :: nat
  expired_keys :: nat
  keys_near_expiry :: nat

definition get_key_health :: "real \<Rightarrow> key_manager \<Rightarrow> key_health" where
  "get_key_health now s =
     (let ks = dict_values (keys s) in
      \<lparr>total_keys = length ks,
       active_keys = length (filter is_active ks),
       expired_keys = length (filter (key_expired now) ks),
       keys_near_expiry = length (filter (\<lambda>k. is_active k \<and>
          (case expiry k of None \<Rightarrow> False | Some t \<Rightarrow> t < now + 7 * 86400 \<and> \<not> key_expired now k)) ks)\<rparr>)"

subsection \<open>Runs\<close>

datatype key_event =
    Generate string string string "string list option" "int option"
  | Rotate string string string "int option"
  | Validate string
  | Revoke string
  | Expire string
  | Cleanup

fun key_step :: "(string \<Rightarrow> string) \<Rightarrow> key_manager \<Rightarrow> real \<times> key_event \<Rightarrow> key_manager" where
  "key_step sha s (now, Generate token kid user rs ttl) = snd (generate_key sha now token kid user rs ttl None s)"
| "key_step sha s (now, Rotate token kid old ttl) = snd (rotate_key sha now token kid old ttl s)"
| "key_step sha s (now, Validate key) = snd (validate_key sha now key s)"
| "key_step sha s (now, Revoke kid) = snd (revoke_key kid s)"
| "key_step sha s (now, Expire kid) = snd (expire_key now kid s)"
| "key_step sha s (now, Cleanup) = snd (cleanup_expired_keys now s)"

subsection \<open>The limit per user\<close>

definition usable :: "real \<Rightarrow> string \<Rightarrow> api_key \<Rightarrow> bool" where
  "usable t u k \<longleftrightarrow> key_user k = u \<and> is_active k \<and> \<not> key_expired t k"

definition usable_count :: "real \<Rightarrow> string \<Rightarrow> key_manager \<Rightarrow> nat" where
  "usable_count t u s = length (filter (\<lambda>p. usable t u (snd p)) (keys s))"

lemma list_keys_count: "u \<noteq> [] \<Longrightarrow> length (list_keys t (Some u) False s) = usable_count t u s"
  by (simp add: list_keys_def usable_count_def truthy_str_def dict_values_def filter_map usable_def
      comp_def conj_commute conj_left_commute)

lemma key_expired_mono: "t \<le> t' \<Longrightarrow> key_expired t k \<Longrightarrow> key_expired t' k"
  by (auto simp: key_expired_def split: option.splits)

lemma length_filter_imp: "(\<And>x. x \<in> set xs \<Longrightarrow> P x \<Longrightarrow> Q x) \<Longrightarrow> length (filter P xs) \<le> length (filter Q xs)"
  by (induction xs) auto

lemma usable_count_antimono: "t \<le> t' \<Longrightarrow> usable_count t' u s \<le> usable_count t u s"
  unfolding usable_count_def by (rule length_filter_imp) (auto simp: usable_def intro: key_expired_mono)

lemma usable_count_set:
  "length (filter (\<lambda>p. P (snd p)) (dict_set kid k0 d)) \<le> length (filter (\<lambda>p. P (snd p)) d) + 1"
  unfolding dict_set_def by (induction d) auto

lemma usable_count_update:
  assumes "\<And>k. usable t u (f k) \<Longrightarrow> usable t u k"
  shows "usable_count t u (update_key kid f s) \<le> usable_count t u s"
proof -
  have "length (filter (\<lambda>p. usable t u (snd p)) (map (\<lambda>(i, k). (i, if i = kid then f k else k)) d)) \<le>
      length (filter (\<lambda>p. usable t u (snd p)) d)" for d
    by (induction d) (auto simp: assms split: if_splits)
  then show ?thesis by (simp add: usable_count_def update_key_def)
qed

lemma usable_count_del: "usable_count t u (remove_key s kid) \<le> usable_count t u s"
proof -
  have "length (filter (\<lambda>p. usable t u (snd p)) (dict_del kid d)) \<le> length (filter (\<lambda>p. usable t u (snd p)) d)" for d
    unfolding dict_del_def by (induction d) auto
  then show ?thesis by (simp add: remove_key_def usable_count_def split: option.split)
qed

lemma usable_count_cleanup: "usable_count t u (snd (cleanup_expired_keys now s)) \<le> usable_count t u s"
proof -
  have "usable_count t u (foldl remove_key s ids) \<le> usable_count t u s" for ids
    by (induction ids arbitrary: s) (auto intro: order_trans usable_count_del)
  then show ?thesis by (simp add: cleanup_expired_keys_def Let_def)
qed

lemma usable_count_validate: "usable_count t u (snd (validate_key sha now key s)) \<le> usable_count t u s"
  by (auto simp: validate_key_def Let_def usable_def key_expired_def expiry_def
      intro!: usable_count_update split: option.split)

lemma usable_count_revoke: "usable_count t u (snd (revoke_key kid s)) \<le> usable_count t u s"
  by (auto simp: revoke_key_def usable_def intro!: usable_count_update)

lemma usable_count_expire: "now < t \<Longrightarrow> usable_count t u (snd (expire_key now kid s)) \<le> usable_count t u s"
  by (auto simp: expire_key_def usable_def key_expired_def expiry_def intro!: usable_count_update)

lemma usable_count_other:
  "key_user k0 \<noteq> u \<Longrightarrow> length (filter (\<lambda>p. usable t u (snd p)) (dict_set kid k0 d)) \<le> length (filter (\<lambda>p. usable t u (snd p)) d)"
  unfolding dict_set_def by (induction d) (auto simp: usable_def)

lemma usable_count_generate:
  assumes "u \<noteq> []" and "now \<le> t" and "usable_count t u s \<le> MAX_KEYS_PER_USER"
  shows "usable_count t u (snd (generate_key sha now token kid user rs ttl rot s)) \<le> MAX_KEYS_PER_USER"
proof (cases "length (list_keys now (Some user) False s) \<ge> MAX_KEYS_PER_USER")
  case True
  with assms(3) show ?thesis by (simp add: generate_key_def)
next
  case False
  let ?k = "issued_key sha now token kid user rs ttl rot"
  have eq: "usable_count t u (snd (generate_key sha now token kid user rs ttl rot s)) =
      length (filter (\<lambda>p. usable t u (snd p)) (dict_set kid ?k (keys s)))"
    using False by (simp add: generate_key_def usable_count_def)
  show ?thesis
  proof (cases "user = u")
    case True
    then have "usable_count t u s < MAX_KEYS_PER_USER"
      using False usable_count_antimono [OF assms(2), of u s] list_keys_count [OF assms(1), of now s] by auto
    then show ?thesis
      unfolding eq using usable_count_set [of "usable t u" kid ?k "keys s"] by (simp add: usable_count_def)
  next
    case False
    then show ?thesis
      unfolding eq using usable_count_other [of ?k u t kid "keys s"] assms(3) by (simp add: usable_count_def)
  qed
qed

lemma rotate_key_state:
  "\<exists>u rs g. let s1 = snd (generate_key sha now token kid u rs ttl (Some old) s); s' = snd (rotate_key sha now token kid old ttl s) in
     s' = s \<or> s' = s1 \<or> s' = update_key old (\<lambda>k. k\<lparr>key_metadata := g (key_metadata k)\<rparr>) s1"
proof (cases "dict_get (keys s) old")
  case (Some k)
  obtain x s1 where g: "generate_key sha now token kid (key_user k) (Some (key_roles k)) ttl (Some old) s = (x, s1)"
    by (cases "generate_key sha now token kid (key_user k) (Some (key_roles k)) ttl (Some old) s")
  show ?thesis
    by (rule exI [of _ "key_user k"], rule exI [of _ "Some (key_roles k)"],
        rule exI [of _ "\<lambda>m. dict_set ''replaced_by'' (Txt (replaced_by (projr x))) (dict_set ''overlap_till'' (Iso (now + 86400)) m)"])
      (simp add: rotate_key_def Some g split: sum.split)
qed (simp add: rotate_key_def)

lemma usable_count_rotate:
  assumes "u \<noteq> []" and "now \<le> t" and "usable_count t u s \<le> MAX_KEYS_PER_USER"
  shows "usable_count t u (snd (rotate_key sha now token kid old ttl s)) \<le> MAX_KEYS_PER_USER"
proof -
  have upd: "usable_count t u (update_key old (\<lambda>k. k\<lparr>key_metadata := g (key_metadata k)\<rparr>) s') \<le> usable_count t u s'" for g s'
    by (rule usable_count_update) (simp add: usable_def key_expired_def expiry_def)
  obtain v rs g where "let s1 = snd (generate_key sha now token kid v rs ttl (Some old) s);
      s' = snd (rotate_key sha now token kid old ttl s) in
      s' = s \<or> s' = s1 \<or> s' = update_key old (\<lambda>k. k\<lparr>key_metadata := g (key_metadata k)\<rparr>) s1"
    using rotate_key_state by blast
  moreover note usable_count_generate [OF assms, of sha token kid v rs ttl "Some old"]
  moreover note order_trans [OF upd [of g "snd (generate_key sha now token kid v rs ttl (Some old) s)"] this]
  ultimately show ?thesis using assms(3) by (auto simp: Let_def)
qed

lemma usable_count_step:
  assumes "u \<noteq> []" and "now < t" and "usable_count t u s \<le> MAX_KEYS_PER_USER"
  shows "usable_count t u (key_step sha s (now, e)) \<le> MAX_KEYS_PER_USER"
  using assms by (cases e)
    (auto intro: usable_count_generate usable_count_rotate order_trans [OF usable_count_validate]
      order_trans [OF usable_count_revoke] order_trans [OF usable_count_expire] order_trans [OF usable_count_cleanup])

subsection \<open>Keys that stay dead, keys that stay alive\<close>

definition hash_dead :: "string \<Rightarrow> key_manager \<Rightarrow> bool" where
  "hash_dead h s \<longleftrightarrow> list_all (\<lambda>(i, k). key_hash k = h \<longrightarrow> \<not> is_active k) (keys s)"

fun issues :: "(string \<Rightarrow> string) \<Rightarrow> string \<Rightarrow> key_event \<Rightarrow> bool" where
  \<comment> \<open>the event draws a token with the given digest\<close>
  "issues sha h (Generate token _ _ _ _) = (sha (''sk-'' @ token) = h)"
| "issues sha h (Rotate token _ _ _) = (sha (''sk-'' @ token) = h)"
| "issues sha h _ = False"

lemma hash_dead_update:
  assumes "\<And>k. key_hash (f k) = key_hash k \<and> (is_active (f k) \<longrightarrow> is_active k)" and "hash_dead h s"
  shows "hash_dead h (update_key kid f s)"
  using assms(2) unfolding hash_dead_def update_key_def list_all_iff by (auto simp: assms(1) split: if_splits)

lemma dict_set_mem: "p \<in> set (dict_set k v d) \<Longrightarrow> p = (k, v) \<or> p \<in> set d"
  unfolding dict_set_def by (induction d) (auto split: if_splits)

lemma dict_del_mem: "p \<in> set (dict_del k d) \<Longrightarrow> p \<in> set d"
  unfolding dict_del_def by (induction d) (auto split: if_splits)

lemma hash_dead_generate:
  "hash_dead h s \<Longrightarrow> h \<noteq> sha (''sk-'' @ token) \<Longrightarrow> hash_dead h (snd (generate_key sha now token kid u rs ttl rot s))"
  unfolding hash_dead_def generate_key_def list_all_iff by (auto dest: dict_set_mem)

lemma hash_dead_remove: "hash_dead h s \<Longrightarrow> hash_dead h (foldl remove_key s ids)"
proof (induction ids arbitrary: s)
  case (Cons i ids)
  have "hash_dead h (remove_key s i)"
    using Cons.prems by (auto simp: hash_dead_def remove_key_def list_all_iff split: option.split dest: dict_del_mem)
  then show ?case using Cons.IH by simp
qed simp

lemma hash_dead_step: "hash_dead h s \<Longrightarrow> \<not> issues sha h e \<Longrightarrow> hash_dead h (key_step sha s (now, e))"
proof (cases e)
  case (Rotate token kid old ttl)
  assume dead: "hash_dead h s" and "\<not> issues sha h e"
  then have gen: "hash_dead h (snd (generate_key sha now token kid u rs ttl rot s))" for u rs rot
    using Rotate by (intro hash_dead_generate) auto
  show ?thesis
    using rotate_key_state [of sha now token kid ttl old s] dead gen unfolding Rotate
    by (auto simp: Let_def intro!: hash_dead_update)
qed (auto simp: hash_dead_generate validate_key_def revoke_key_def expire_key_def cleanup_expired_keys_def Let_def
    intro: hash_dead_update hash_dead_remove split: option.split)

lemma hash_dead_invalid: "hash_dead h s \<Longrightarrow> sha key = h \<Longrightarrow> fst (validate_key sha t key s) = None"
proof -
  assume "hash_dead h s" and h: "sha key = h"
  then have "find (\<lambda>(i, k). key_hash k = h \<and> is_active k) (keys s) = None"
    by (auto simp: hash_dead_def list_all_iff find_None_iff)
  then show ?thesis using h by (simp add: validate_key_def Let_def)
qed

lemma validate_unique:
  assumes "(i, k) \<in> set (keys s)" and "key_hash k = sha key"
    and "\<And>j x. (j, x) \<in> set (keys s) \<Longrightarrow> key_hash x = sha key \<Longrightarrow> j = i \<and> x = k"
  shows "fst (validate_key sha t key s) =
    (if starts_with ''sk-'' key \<and> truthy_str (dict_get (key_to_user s) (sha key)) \<and> is_active k \<and> \<not> key_expired t k
     then Some (k\<lparr>last_used := Some (Iso t)\<rparr>) else None)"
proof -
  have "find (\<lambda>(i, k). key_hash k = sha key \<and> is_active k) (keys s) = (if is_active k then Some (i, k) else None)"
  proof (cases "is_active k")
    case True
    have "find (\<lambda>(i, k). key_hash k = sha key \<and> is_active k) (keys s) = Some (i, k)"
      by (rule find_unique [OF assms(1)]) (use True assms(2,3) in auto)
    with True show ?thesis by simp
  next
    case False
    then have "find (\<lambda>(i, k). key_hash k = sha key \<and> is_active k) (keys s) = None"
      using assms(3) unfolding find_None_iff by blast
    with False show ?thesis by simp
  qed
  moreover have "\<not> starts_with ''sk-'' []" by (simp add: starts_with_def)
  ultimately show ?thesis by (auto simp: validate_key_def Let_def)
qed

subsection \<open>Properties\<close>

text \<open>
  A generated key is accepted until its time to live is over, and only until then: validation
  returns the stored key with its user and roles exactly while the current time does not exceed the
  time of issue plus the requested days, where a request for 0 days means the default of 90.
  (Assumed: the fresh key's digest is not in use.)
\<close>
theorem generated_key_validates:
  assumes "generate_key sha now token kid user rs ttl rot s = (Inr key, s')" and "user \<noteq> []"
    and "list_all (\<lambda>(i, k). key_hash k \<noteq> sha (''sk-'' @ token)) (keys s)" and "dict_ok (keys s)"
  shows "fst (validate_key sha t key s') =
    (if t \<le> now + of_int (case ttl of None \<Rightarrow> 90 | Some n \<Rightarrow> if n = 0 then 90 else n) * 86400
     then Some ((issued_key sha now token kid user rs ttl rot)\<lparr>last_used := Some (Iso t)\<rparr>) else None)"
proof -
  let ?k = "issued_key sha now token kid user rs ttl rot"
  have key: "key = ''sk-'' @ token" and ks: "keys s' = dict_set kid ?k (keys s)"
    and users: "dict_get (key_to_user s') (sha key) = Some user"
    using assms(1) by (auto simp: generate_key_def split: if_splits)
  have ok: "dict_ok (keys s')" using assms(4) by (simp add: ks)
  have mem: "(kid, ?k) \<in> set (keys s')" unfolding dict_ok_get_iff [OF ok, symmetric] by (simp add: ks)
  have uniq: "j = kid \<and> x = ?k" if "(j, x) \<in> set (keys s')" "key_hash x = sha key" for j x
    using that dict_set_mem [of "(j, x)" kid ?k "keys s"] assms(3) by (auto simp: ks key list_all_iff)
  have exp: "key_expired t ?k \<longleftrightarrow> \<not> t \<le> now + of_int (case ttl of None \<Rightarrow> 90 | Some n \<Rightarrow> if n = 0 then 90 else n) * 86400"
    by (simp add: key_expired_def expiry_def issued_key_def Let_def DEFAULT_KEY_TTL_DAYS_def not_le
        split: option.split)
  show ?thesis
    using assms(2) users by (subst validate_unique [of kid ?k s' sha key t, OF mem _ uniq]) (simp_all add: exp key starts_with_def truthy_str_def)
qed

definition sample_sha :: "string \<Rightarrow> string" where
  "sample_sha s = ''h'' @ s"

definition sample_keys :: key_manager where
  "sample_keys = snd (generate_key sample_sha 0 ''abc'' ''k1'' ''ann'' None None None init_manager)"

theorem generated_key_validates_witness:
  "fst (validate_key sample_sha 7776000 ''sk-abc'' sample_keys) \<noteq> None \<and>
   fst (validate_key sample_sha 7776001 ''sk-abc'' sample_keys) = None"
proof -
  have g: "generate_key sample_sha 0 ''abc'' ''k1'' ''ann'' None None None init_manager = (Inr ''sk-abc'', sample_keys)"
    by (simp add: generate_key_def sample_keys_def init_manager_def list_keys_def dict_values_def MAX_KEYS_PER_USER_def)
  show ?thesis
    using generated_key_validates [OF g, of 7776000] generated_key_validates [OF g, of 7776001]
    by (simp add: init_manager_def)
qed

text \<open>
  No user ever has more than ten usable keys: after any sequence of operations the keys of
  a user that are active and not expired number at most ten.
\<close>
theorem key_limit_respected:
  assumes "u \<noteq> []" and "list_all (\<lambda>(now, e). now < t) es"
  shows "length (list_keys t (Some u) False (foldl (key_step sha) init_manager es)) \<le> 10"
proof -
  have "usable_count t u (foldl (key_step sha) init_manager es) \<le> MAX_KEYS_PER_USER"
    using assms(2)
  proof (induction es rule: rev_induct)
    case Nil
    show ?case by (simp add: usable_count_def init_manager_def)
  next
    case (snoc e es)
    obtain now ev where e: "e = (now, ev)" by (cases e)
    then show ?case using snoc usable_count_step [OF assms(1), of now t] by simp
  qed
  then show ?thesis using list_keys_count [OF assms(1)] by (simp add: MAX_KEYS_PER_USER_def)
qed

theorem key_limit_respected_witness:
  "length (list_keys 2 (Some ''ann'') False
     (foldl (key_step sample_sha) init_manager [(0, Generate ''a'' ''k1'' ''ann'' None None), (1, Revoke ''k1'')])) \<le> 10"
  by (rule key_limit_respected) simp_all

text \<open>
  C19. Revocation is final: once the key with some digest has been revoked, validation refuses it at
  every later time, whatever keys are issued, rotated, expired or cleaned up in between, as long as
  none of them is drawn with the same digest.
\<close>
theorem revoked_key_stays_dead:
  assumes "map_of (keys s) kid = Some k" and "dict_ok (keys s)"
    and "list_all (\<lambda>(i, x). key_hash x = key_hash k \<longrightarrow> i = kid) (keys s)"
    and "list_all (\<lambda>(now, e). \<not> issues sha (key_hash k) e) es" and "sha key = key_hash k"
  shows "fst (validate_key sha t key (foldl (key_step sha) (snd (revoke_key kid s)) es)) = None"
proof -
  have "hash_dead (key_hash k) (snd (revoke_key kid s))"
    using assms(1,3) unfolding hash_dead_def revoke_key_def update_key_def list_all_iff
    by (auto split: if_splits)
  then have "hash_dead (key_hash k) (foldl (key_step sha) (snd (revoke_key kid s)) es)"
    using assms(4)
  proof (induction es rule: rev_induct)
    case (snoc e es)
    then show ?case by (cases e) (simp add: hash_dead_step)
  qed simp
  then show ?thesis using assms(5) by (rule hash_dead_invalid)
qed

theorem revoked_key_stays_dead_witness:
  "fst (validate_key sample_sha 5 ''sk-abc'' (foldl (key_step sample_sha) (snd (revoke_key ''k1'' sample_keys))
     [(1, Generate ''xyz'' ''k2'' ''ann'' None None)])) = None"
proof -
  have k: "keys sample_keys = [(''k1'', issued_key sample_sha 0 ''abc'' ''k1'' ''ann'' None None None)]"
    by (simp add: generate_key_def sample_keys_def init_manager_def list_keys_def dict_values_def
        MAX_KEYS_PER_USER_def dict_set_def)
  show ?thesis
    by (rule revoked_key_stays_dead [where k = "issued_key sample_sha 0 ''abc'' ''k1'' ''ann'' None None None"])
      (simp_all add: k dict_ok_def sample_sha_def)
qed

text \<open>
  Rotation never retires the old key. Its documentation says that the old key is deactivated
  after an overlap of 24 hours, and the rotation does record when the overlap ends, but validation
  does not look at it: at every time the old key is accepted after the rotation exactly if it was
  before.
\<close>
theorem rotated_key_not_retired:
  assumes "rotate_key sha now token kid old_id ttl s = (Inr (Some new), s')"
    and "map_of (keys s) old_id = Some k" and "dict_ok (keys s)" and "kid \<noteq> old_id"
    and "list_all (\<lambda>(i, x). key_hash x = key_hash k \<longrightarrow> i = old_id) (keys s)"
    and "sha old_key = key_hash k" and "sha (''sk-'' @ token) \<noteq> key_hash k"
  shows "fst (validate_key sha t old_key s') = None \<longleftrightarrow> fst (validate_key sha t old_key s) = None"
proof -
  let ?n = "issued_key sha now token kid (key_user k) (Some (key_roles k)) ttl (Some old_id)"
  define m where "m x = dict_set ''replaced_by'' (Txt (replaced_by new))
      (dict_set ''overlap_till'' (Iso (now + 86400)) (key_metadata x))" for x :: api_key
  have ks: "keys s' = map (\<lambda>(i, x). (i, if i = old_id then x\<lparr>key_metadata := m x\<rparr> else x)) (dict_set kid ?n (keys s))"
    and users: "key_to_user s' = dict_set (sha (''sk-'' @ token)) (key_user k) (key_to_user s)"
    using assms(1,2) by (auto simp: rotate_key_def generate_key_def update_key_def m_def split: if_splits)
  let ?k = "k\<lparr>key_metadata := m k\<rparr>"
  have ok: "dict_ok (keys s')" using assms(3) by (simp add: ks)
  have mem: "(old_id, k) \<in> set (keys s)" using assms(2,3) by (simp add: dict_ok_get_iff [symmetric])
  have "map_of (keys s') old_id = Some ?k" unfolding ks map_of_map_values using assms(2,4) by simp
  then have mem': "(old_id, ?k) \<in> set (keys s')" by (rule map_of_SomeD)
  have uniq: "j = old_id \<and> x = k" if "(j, x) \<in> set (keys s)" "key_hash x = sha old_key" for j x
  proof -
    have "j = old_id" using that assms(5,6) by (auto simp: list_all_iff)
    with that(1) mem assms(3) show ?thesis by (auto simp: dict_ok_get_iff [symmetric])
  qed
  have uniq': "j = old_id \<and> x = ?k" if jx: "(j, x) \<in> set (keys s')" and h: "key_hash x = sha old_key" for j x
  proof -
    obtain y where y: "(j, y) \<in> set (dict_set kid ?n (keys s))" "x = (if j = old_id then y\<lparr>key_metadata := m y\<rparr> else y)"
      using jx by (auto simp: ks)
    then have "key_hash y = sha old_key" using h by (auto split: if_splits)
    moreover have "(j, y) \<in> set (keys s)" using dict_set_mem [OF y(1)] calculation assms(6,7) by auto
    ultimately show ?thesis using uniq y by simp
  qed
  have same: "dict_get (key_to_user s') (sha old_key) = dict_get (key_to_user s) (sha old_key)"
    using assms(6,7) by (simp add: users)
  have "is_active ?k = is_active k" "key_expired t ?k = key_expired t k"
    by (simp_all add: key_expired_def expiry_def)
  then show ?thesis
    using validate_unique [of old_id k s sha old_key t, OF mem _ uniq]
      validate_unique [of old_id ?k s' sha old_key t, OF mem' _ uniq'] assms(6)
    by (simp add: same [unfolded assms(6)])
qed

theorem rotated_key_not_retired_witness:
  "\<exists>s'. rotate_key sample_sha 10 ''xyz'' ''k2'' ''k1'' None sample_keys = (Inr (Some ''sk-xyz''), s') \<and>
     fst (validate_key sample_sha 1000000 ''sk-abc'' s') \<noteq> None"
proof -
  let ?k = "issued_key sample_sha 0 ''abc'' ''k1'' ''ann'' None None None"
  have k: "keys sample_keys = [(''k1'', ?k)]" and u: "key_to_user sample_keys = [(sample_sha ''sk-abc'', ''ann'')]"
    by (simp_all add: generate_key_def sample_keys_def init_manager_def list_keys_def dict_values_def
        MAX_KEYS_PER_USER_def dict_set_def)
  obtain s' where s': "rotate_key sample_sha 10 ''xyz'' ''k2'' ''k1'' None sample_keys = (Inr (Some ''sk-xyz''), s')"
    by (simp add: rotate_key_def k generate_key_def list_keys_def dict_values_def MAX_KEYS_PER_USER_def truthy_str_def
        key_expired_def expiry_def issued_key_def Let_def DEFAULT_KEY_TTL_DAYS_def)
  have "fst (validate_key sample_sha 1000000 ''sk-abc'' sample_keys) \<noteq> None"
    by (simp add: validate_key_def k u starts_with_def truthy_str_def key_expired_def expiry_def issued_key_def
        Let_def DEFAULT_KEY_TTL_DAYS_def)
  then have "fst (validate_key sample_sha 1000000 ''sk-abc'' s') \<noteq> None"
    by (subst rotated_key_not_retired [OF s', where k = ?k]) (simp_all add: k dict_ok_def sample_sha_def)
  with s' show ?thesis by blast
qed

text \<open>A user who has reached the limit cannot rotate a key: the replacement counts as one more.\<close>

lemma rotation_blocked_at_limit:
  assumes "map_of (keys s) old_id = Some k" and "is_active k"
    and "MAX_KEYS_PER_USER \<le> length (list_keys now (Some (key_user k)) False s)"
  shows "rotate_key sha now token kid old_id ttl s = (Inl (ValueError ''maximum of active API keys''), s)"
  using assms by (simp add: rotate_key_def generate_key_def)

text \<open>A key whose expiry cannot be parsed never expires.\<close>

lemma malformed_expiry_never_expires: "expires_at k = Some (Txt s) \<Longrightarrow> \<not> key_expired now k"
  by (simp add: key_expired_def expiry_def)

end
