(* ===== verification/Version_Store.thy ===== *)
theory Version_Store
  imports Prelude "HOL-Library.List_Lexorder" "HOL-Library.Multiset"
begin

text \<open>
  Chunk versioning of the ETL side, \<^verbatim>\<open>etl/chunker/hash_versioning.py\<close>: the content hash, the hot
  directory with the current chunks of every document, the history in cold storage and the
  incremental update that compares hashes. A chunk is its hash and the rest of its dictionary.
  History is kept as Parquet when pandas is installed and as JSON lines otherwise; the two differ
  in how they are read and pruned, so the store carries a flag.
\<close>

subsection \<open>Chunks and their hash\<close>

record vchunk =
  vhash :: string
  vfields :: json_obj

abbreviation vtext :: "vchunk \<Rightarrow> json" where
  "vtext c \<equiv> dict_getd (vfields c) ''text'' JNull"

fun strings_of :: "json list \<Rightarrow> string list option" where
  "strings_of [] = Some []"
| "strings_of (JStr s # js) = map_option (\<lambda>xs. s # xs) (strings_of js)"
| "strings_of (_ # js) = None"

definition sorted_strings :: "json \<Rightarrow> exn + json" where
  \<comment> \<open>\<^verbatim>\<open>sorted(v)\<close> for a list of strings; other contents are not ordered here and raise\<close>
  "sorted_strings v =
     (case v of
        JList js \<Rightarrow>
          (case strings_of js of
             Some ss \<Rightarrow> Inr (JList (map JStr (sort ss)))
           | None \<Rightarrow> Inl (PyException ''TypeError'' ''not comparable''))
      | _ \<Rightarrow> Inl (PyException ''TypeError'' ''not iterable''))"

definition compute_chunk_hash :: "(json \<Rightarrow> string) \<Rightarrow> json_obj \<Rightarrow> exn + string" where
  \<comment> \<open>\<open>sha\<close>: the SHA-256 digest of the JSON text with sorted keys\<close>
  "compute_chunk_hash sha c =
     (let get = (\<lambda>k. dict_getd c k (JStr [])) in
      case sorted_strings (dict_getd c ''keywords'' (JList [])) of
        Inl e \<Rightarrow> Inl e
      | Inr kw \<Rightarrow>
          (case sorted_strings (dict_getd c ''entities'' (JList [])) of
             Inl e \<Rightarrow> Inl e
           | Inr en \<Rightarrow>
               Inr (sha (JObj [(''doc_title'', get ''doc_title''), (''entities'', en), (''keywords'', kw),
                               (''source_id'', get ''source_id''), (''source_type'', get ''source_type''),
                               (''summary'', get ''summary''), (''text'', get ''text''),
                               (''title'', get ''title''), (''version'', get ''version'')]))))"

subsection \<open>The store\<close>

datatype cold_record =
    VersionRecord string string "string option" vchunk
  | DeletionRecord string string string

record wal_entry =
  last_hash :: string
  last_modified :: string
  num_chunks :: nat

record vstore =
  hot :: "(string, vchunk list) dict"
  cold :: "(string, cold_record list) dict"
  doc_wal :: "(string, wal_entry) dict"
  pandas :: bool

definition init_vstore :: "bool \<Rightarrow> vstore" where
  "init_vstore p = \<lparr>hot = [], cold = [], doc_wal = [], pandas = p\<rparr>"

definition get_last_hash :: "string \<Rightarrow> vstore \<Rightarrow> string option" where
  "get_last_hash doc s = map_option last_hash (dict_get (doc_wal s) doc)"

definition append_cold :: "string \<Rightarrow> cold_record \<Rightarrow> vstore \<Rightarrow> vstore" where
  "append_cold doc r s = s\<lparr>cold := dict_set doc (dict_getd (cold s) doc [] @ [r]) (cold s)\<rparr>"

definition append_to_cold_storage :: "string \<Rightarrow> string \<Rightarrow> vchunk \<Rightarrow> string option \<Rightarrow> vstore \<Rightarrow> vstore" where
  "append_to_cold_storage now doc c old s = append_cold doc (VersionRecord doc now old c) s"

definition log_deletion :: "string \<Rightarrow> string \<Rightarrow> string \<Rightarrow> vstore \<Rightarrow> vstore" where
  "log_deletion now doc h s = append_cold doc (DeletionRecord doc now h) s"

definition save_chunks_to_hot :: "string \<Rightarrow> vchunk list \<Rightarrow> vstore \<Rightarrow> vstore" where
  "save_chunks_to_hot doc cs s = s\<lparr>hot := dict_set doc cs (hot s)\<rparr>"

definition load_hot_chunks :: "string \<Rightarrow> vstore \<Rightarrow> vchunk list" where
  "load_hot_chunks doc s = dict_getd (hot s) doc []"

definition update_doc_wal :: "string \<Rightarrow> string \<Rightarrow> vchunk list \<Rightarrow> vstore \<Rightarrow> vstore" where
  "update_doc_wal now doc cs s =
     s\<lparr>doc_wal := dict_set doc \<lparr>last_hash = (if cs = [] then [] else vhash (last cs)),
                             last_modified = now, num_chunks = length cs\<rparr> (doc_wal s)\<rparr>"

definition hash_map :: "vchunk list \<Rightarrow> (string, vchunk) dict" where
  \<comment> \<open>\<^verbatim>\<open>{ch["hash"]: ch for ch in chunks}\<close>\<close>
  "hash_map cs = foldl (\<lambda>d c. dict_set (vhash c) c d) [] cs"

fun collect_added ::
  "string \<Rightarrow> string \<Rightarrow> (string, vchunk) dict \<Rightarrow> (string \<times> vchunk) list \<Rightarrow> vstore \<Rightarrow> vchunk list \<times> vstore" where
  "collect_added now doc old [] s = ([], s)"
| "collect_added now doc old ((h, c) # new) s =
     (case dict_get old h of
        None \<Rightarrow> (let (cs, s') = collect_added now doc old new s in (c # cs, s'))
      | Some o' \<Rightarrow>
          (if vtext o' \<noteq> vtext c
           then (let (cs, s') = collect_added now doc old new (append_to_cold_storage now doc c (Some h) s)
                 in (c # cs, s'))
           else collect_added now doc old new s))"

definition update_document_chunks ::
  "string \<Rightarrow> string \<Rightarrow> vchunk list \<Rightarrow> bool \<Rightarrow> vstore \<Rightarrow> (vchunk list \<times> string list) \<times> vstore" where
  "update_document_chunks now doc new_chunks force s =
     (if force \<or> \<not> truthy_str (get_last_hash doc s)
      then ((new_chunks, []), update_doc_wal now doc new_chunks (save_chunks_to_hot doc new_chunks s))
      else
        (let old = hash_map (load_hot_chunks doc s);
             new = hash_map new_chunks;
             (added, s) = collect_added now doc old new s;
             deleted = filter (\<lambda>h. \<not> dict_has new h) (dict_keys old);
             s = (if added \<noteq> [] \<or> deleted \<noteq> []
                  then foldl (\<lambda>s h. log_deletion now doc h s)
                         (foldl (\<lambda>s c. append_to_cold_storage now doc c None s)
                            (save_chunks_to_hot doc new_chunks s) added) deleted
                  else s)
         in ((added, deleted), update_doc_wal now doc new_chunks s)))"

definition get_incremental_chunks :: "string \<Rightarrow> string \<Rightarrow> vchunk list \<Rightarrow> vstore \<Rightarrow> vchunk list \<times> vstore" where
  "get_incremental_chunks now doc cs s =
     (let ((added, _), s) = update_document_chunks now doc cs False s in (added, s))"

definition get_all_current_chunks :: "vstore \<Rightarrow> vchunk list" where
  "get_all_current_chunks s = concat (dict_values (hot s))"

definition df_tail :: "int \<Rightarrow> 'a list \<Rightarrow> 'a list" where
  \<comment> \<open>\<^verbatim>\<open>df.tail(n)\<close>: for negative \<open>n\<close> all but the first rows\<close>
  "df_tail n xs = (if n \<ge> 0 then drop (length xs - nat n) xs else drop (nat (- n)) xs)"

definition get_chunk_history :: "string \<Rightarrow> int \<Rightarrow> vstore \<Rightarrow> cold_record list" where
  "get_chunk_history doc limit s =
     (let rs = dict_getd (cold s) doc [] in
      if pandas s then df_tail limit rs else take (nat (max 1 limit)) rs)"

definition cleanup_old_versions :: "string \<Rightarrow> int \<Rightarrow> vstore \<Rightarrow> vstore" where
  "cleanup_old_versions doc keep s =
     (case dict_get (cold s) doc of
        None \<Rightarrow> s
      | Some rs \<Rightarrow>
          (if int (length rs) > keep
           then s\<lparr>cold := dict_set doc (if pandas s then df_tail keep rs else slice_from (- keep) rs) (cold s)\<rparr>
           else s))"

definition reset_store :: "string option \<Rightarrow> vstore \<Rightarrow> vstore" where
  "reset_store doc s =
     (if truthy_str doc
      then s\<lparr>hot := dict_del (the doc) (hot s), doc_wal := dict_del (the doc) (doc_wal s)\<rparr>
      else s\<lparr>hot := [], doc_wal := []\<rparr>)"

subsection \<open>The hash\<close>

lemma sort_mset_eq: "mset xs = mset ys \<Longrightarrow> sort xs = sort (ys :: 'a :: linorder list)"
  by (metis mset_sort properties_for_sort sorted_sort)

lemma strings_of_map [simp]: "strings_of (map JStr ss) = Some ss"
  by (induction ss) auto

subsection \<open>What an update returns\<close>

lemma hash_map_get: "map_of (hash_map cs) h = (case filter (\<lambda>c. vhash c = h) cs of [] \<Rightarrow> None | _ \<Rightarrow> Some (last (filter (\<lambda>c. vhash c = h) cs)))"
proof (induction cs rule: rev_induct)
  case (snoc c cs)
  then show ?case by (auto simp: hash_map_def split: list.splits)
qed (simp add: hash_map_def)

lemma hash_map_none: "map_of (hash_map cs) h = None \<longleftrightarrow> h \<notin> vhash ` set cs"
proof (induction cs rule: rev_induct)
  case (snoc c cs)
  then show ?case by (simp add: hash_map_def)
qed (simp add: hash_map_def)

lemma dom_hash_map: "dom (map_of (hash_map cs)) = vhash ` set cs"
  using hash_map_none [of cs] by (auto simp: dom_def)

lemma hash_map_in: "map_of (hash_map cs) h = Some c \<Longrightarrow> c \<in> set cs \<and> vhash c = h"
proof -
  assume "map_of (hash_map cs) h = Some c"
  then have "filter (\<lambda>c. vhash c = h) cs \<noteq> []" and "c = last (filter (\<lambda>c. vhash c = h) cs)"
    by (auto simp: hash_map_get split: list.splits)
  then have "c \<in> set (filter (\<lambda>c. vhash c = h) cs)" by (metis last_in_set)
  then show ?thesis by simp
qed

lemma dict_ok_hash_map [simp]: "dict_ok (hash_map cs)"
proof (induction cs rule: rev_induct)
  case (snoc c cs)
  then show ?case by (simp add: hash_map_def)
qed (simp add: hash_map_def)

definition differs :: "(string, vchunk) dict \<Rightarrow> string \<times> vchunk \<Rightarrow> bool" where
  "differs old p = (case dict_get old (fst p) of None \<Rightarrow> True | Some o' \<Rightarrow> vtext o' \<noteq> vtext (snd p))"

lemma collect_added_fst: "fst (collect_added now doc old new s) = map snd (filter (differs old) new)"
  by (induction now doc old new s rule: collect_added.induct)
    (auto simp: differs_def Let_def case_prod_beta split: option.split)

lemma append_keeps [simp]:
  "hot (append_to_cold_storage now doc c o' s) = hot s" "doc_wal (append_to_cold_storage now doc c o' s) = doc_wal s"
  "hot (log_deletion now doc h s) = hot s" "doc_wal (log_deletion now doc h s) = doc_wal s"
  by (simp_all add: append_to_cold_storage_def log_deletion_def append_cold_def)

lemma collect_added_keeps:
  "hot (snd (collect_added now doc old new s)) = hot s"
  by (induction now doc old new s rule: collect_added.induct)
    (auto simp: Let_def case_prod_beta split: option.split)

lemma fold_append_keeps:
  "hot (foldl (\<lambda>s c. append_to_cold_storage now doc c None s) s cs) = hot s"
  "hot (foldl (\<lambda>s h. log_deletion now doc h s) s hs) = hot s"
  by (induction cs arbitrary: s; simp) (induction hs arbitrary: s; simp)

lemma update_incremental:
  assumes "truthy_str (get_last_hash doc s)"
  shows "fst (update_document_chunks now doc cs False s) =
    (map snd (filter (differs (hash_map (load_hot_chunks doc s))) (hash_map cs)),
     filter (\<lambda>h. h \<notin> vhash ` set cs) (dict_keys (hash_map (load_hot_chunks doc s))))"
  using assms by (simp add: update_document_chunks_def Let_def case_prod_beta collect_added_fst hash_map_none)

lemma update_forced:
  "force \<or> \<not> truthy_str (get_last_hash doc s) \<Longrightarrow> fst (update_document_chunks now doc cs force s) = (cs, [])"
  by (simp add: update_document_chunks_def)

subsection \<open>Properties\<close>

lemma added_hashes:
  "vhash ` set (map snd (filter (differs (hash_map os)) (hash_map cs))) =
     {h \<in> vhash ` set cs. h \<notin> vhash ` set os \<or>
        vtext (the (map_of (hash_map os) h)) \<noteq> vtext (the (map_of (hash_map cs) h))}"
  (is "?L = ?R")
proof (intro equalityI subsetI)
  fix h assume "h \<in> ?L"
  then obtain k c where kc: "(k, c) \<in> set (hash_map cs)" "differs (hash_map os) (k, c)" "h = vhash c" by auto
  then have get: "map_of (hash_map cs) k = Some c" by (simp add: dict_ok_get_iff)
  with hash_map_in [OF get] kc show "h \<in> ?R"
    by (auto simp: differs_def hash_map_none [symmetric] split: option.splits)
next
  fix h assume h: "h \<in> ?R"
  then obtain c where c: "map_of (hash_map cs) h = Some c" using hash_map_none [of cs h] by blast
  then have "(h, c) \<in> set (hash_map cs)" by (rule map_of_SomeD)
  moreover have "differs (hash_map os) (h, c)"
    using h c by (auto simp: differs_def hash_map_none [symmetric] split: option.splits)
  ultimately show "h \<in> ?L" using hash_map_in [OF c] by force
qed

text \<open>
  C31. The incremental update computes exactly the difference: for a document that is already known,
  the chunks to index are those whose hash is new or whose stored text differs, the hashes to delete
  are those of the stored chunks that are gone, and when there is neither, the stored chunks stay
  untouched.
\<close>
theorem update_is_exact_difference:
  assumes "truthy_str (get_last_hash doc s)"
    and "update_document_chunks now doc cs False s = ((added, deleted), s')"
  shows "set added \<subseteq> set cs \<and>
    vhash ` set added = {h \<in> vhash ` set cs. h \<notin> vhash ` set (load_hot_chunks doc s) \<or>
       vtext (the (map_of (hash_map (load_hot_chunks doc s)) h)) \<noteq> vtext (the (map_of (hash_map cs) h))} \<and>
    set deleted = vhash ` set (load_hot_chunks doc s) - vhash ` set cs \<and>
    load_hot_chunks doc s' = (if added = [] \<and> deleted = [] then load_hot_chunks doc s else cs)"
proof -
  let ?os = "load_hot_chunks doc s"
  have a: "added = map snd (filter (differs (hash_map ?os)) (hash_map cs))"
    and d: "deleted = filter (\<lambda>h. h \<notin> vhash ` set cs) (dict_keys (hash_map ?os))"
    using update_incremental [OF assms(1), of now cs] assms(2) by simp_all
  have "set added \<subseteq> set cs"
    using hash_map_in by (fastforce simp: a dict_ok_get_iff [OF dict_ok_hash_map, symmetric])
  moreover have "set deleted = vhash ` set ?os - vhash ` set cs"
    unfolding d set_filter set_dict_keys dom_hash_map by auto
  moreover have "load_hot_chunks doc s' = (if added = [] \<and> deleted = [] then ?os else cs)"
    using assms a d hash_map_none [of cs]
    by (auto simp: update_document_chunks_def load_hot_chunks_def Let_def case_prod_beta collect_added_fst
        update_doc_wal_def fold_append_keeps collect_added_keeps save_chunks_to_hot_def)
  ultimately show ?thesis using added_hashes [of ?os cs] by (simp only: a)
qed

definition sample_vstore :: vstore where
  "sample_vstore = \<lparr>hot = [(''d'', [\<lparr>vhash = ''aaa'', vfields = [(''text'', JStr ''v1'')]\<rparr>])], cold = [],
     doc_wal = [(''d'', \<lparr>last_hash = ''aaa'', last_modified = ''t0'', num_chunks = 1\<rparr>)], pandas = True\<rparr>"

theorem update_is_exact_difference_witness:
  "\<exists>added s'. update_document_chunks ''t1'' ''d'' [\<lparr>vhash = ''bbb'', vfields = [(''text'', JStr ''v2'')]\<rparr>] False sample_vstore
      = ((added, [''aaa'']), s') \<and> vhash ` set added = {''bbb''}"
proof -
  let ?cs = "[\<lparr>vhash = ''bbb'', vfields = [(''text'', JStr ''v2'')]\<rparr>]"
  obtain added deleted s' where u: "update_document_chunks ''t1'' ''d'' ?cs False sample_vstore = ((added, deleted), s')"
    by (metis surj_pair)
  have t: "truthy_str (get_last_hash ''d'' sample_vstore)"
    by (simp add: truthy_str_def get_last_hash_def sample_vstore_def)
  have "deleted = [''aaa'']"
    using u by (simp add: update_document_chunks_def sample_vstore_def get_last_hash_def truthy_str_def hash_map_def
        load_hot_chunks_def dict_getd_def dict_set_def dict_keys_def Let_def split: if_splits)
  moreover have "vhash ` set added = {''bbb''}"
    using update_is_exact_difference [OF t u] by (auto simp: sample_vstore_def load_hot_chunks_def dict_getd_def)
  ultimately show ?thesis using u by blast
qed

text \<open>
  The hash does not see who may read a chunk: dictionaries that agree on the nine hashed fields, with
  keywords and entities in any order, have the same hash, whatever their other fields say.
\<close>

lemma chunk_hash_ignores_other_fields:
  assumes "\<And>k. k \<in> {''text'', ''title'', ''source_type'', ''source_id'', ''version'', ''doc_title'', ''summary''} \<Longrightarrow>
      map_of c k = map_of c' k"
    and "map_of c ''keywords'' = Some (JList (map JStr ks))" and "map_of c' ''keywords'' = Some (JList (map JStr ks'))"
    and "map_of c ''entities'' = Some (JList (map JStr es))" and "map_of c' ''entities'' = Some (JList (map JStr es'))"
    and "mset ks = mset ks'" and "mset es = mset es'"
  shows "compute_chunk_hash sha c = compute_chunk_hash sha c'"
  using assms sort_mset_eq [OF assms(6)] sort_mset_eq [OF assms(7)]
  by (simp add: compute_chunk_hash_def sorted_strings_def dict_getd_def)

text \<open>
  With JSON lines, asking to keep no history keeps all of it (the slice \<^verbatim>\<open>lines[-0:]\<close> is the whole
  list), and the history returned is the oldest part where Parquet returns the newest.
\<close>

lemma cleanup_keep_zero:
  assumes "\<not> pandas s" and "map_of (cold s) doc = Some rs" and "rs \<noteq> []"
  shows "map_of (cold (cleanup_old_versions doc 0 s)) doc = Some rs"
  using assms by (simp add: cleanup_old_versions_def slice_from_def)

lemma history_ends_differ:
  assumes "map_of (cold s) doc = Some rs" and "1 \<le> limit" and "limit < int (length rs)"
  shows "get_chunk_history doc limit (s\<lparr>pandas := False\<rparr>) = take (nat limit) rs \<and>
    get_chunk_history doc limit (s\<lparr>pandas := True\<rparr>) = drop (length rs - nat limit) rs"
  using assms by (simp add: get_chunk_history_def dict_getd_def df_tail_def)

end
