(* ===== verification/Live_Lake.thy ===== *)
theory Live_Lake
  imports Version_Store
begin

text \<open>
  The two-tier storage of the ETL side: the Qdrant indexer (\<^verbatim>\<open>etl/indexer/qdrant_hybrid.py\<close>, the
  conversion of chunks to points and the write operations) and \<^verbatim>\<open>LiveVectorLake\<close>
  (\<^verbatim>\<open>etl/indexer/live_vector_lake.py\<close>) that keeps it in step with the version store. The Qdrant
  client, the embedding model and the UUID digest are parameters. Timestamps are ISO texts, compared
  as texts as the code does.
\<close>

subsection \<open>The indexer\<close>

record 'v point =
  pid :: string
  pvector :: 'v
  ppayload :: json_obj

record ('v, 'q) qdrant =
  upsert :: "'v point list \<Rightarrow> 'q \<Rightarrow> (exn + unit) \<times> 'q"
  delete_points :: "string list \<Rightarrow> 'q \<Rightarrow> (exn + unit) \<times> 'q"
  uuid5 :: "string \<Rightarrow> string"
  vectors :: "string \<Rightarrow> 'v"
  batch_size :: nat

definition payload_fields :: "(string \<times> json) list" where
  \<comment> \<open>the copied fields and their defaults, in the order of the code\<close>
  "payload_fields =
     [(''title'', JStr []), (''source_type'', JStr []), (''source_id'', JStr []), (''version'', JStr []),
      (''doc_title'', JStr []), (''keywords'', JList []), (''entities'', JList []), (''summary'', JStr []),
      (''position'', JInt 0), (''semantic_key'', JStr [])]"

definition acl_fields :: "(string \<times> json) list" where
  "acl_fields =
     [(''created_at'', JStr []), (''updated_at'', JStr []), (''access_level'', JStr ''public''),
      (''allowed_groups'', JList []), (''allowed_users'', JList [])]"

definition chunk_payload_of :: "string \<Rightarrow> vchunk \<Rightarrow> json_obj" where
  "chunk_payload_of text c =
     (let get = (\<lambda>(k, d). (k, dict_getd (vfields c) k d)) in
      filter (\<lambda>(k, v). v \<noteq> JNull)
        ((''text'', JStr text) # map get payload_fields @ [(''chunk_hash'', JStr (vhash c))] @ map get acl_fields))"

definition chunk_to_point :: "('v, 'q) qdrant \<Rightarrow> vchunk \<Rightarrow> 'v point option" where
  \<comment> \<open>a chunk whose text is not a string does not occur; it is skipped like an empty one\<close>
  "chunk_to_point cl c =
     (if vhash c = [] then None
      else case dict_getd (vfields c) ''text'' (JStr []) of
             JStr text \<Rightarrow>
               (if text = [] then None
                else Some \<lparr>pid = uuid5 cl (vhash c), pvector = vectors cl text, ppayload = chunk_payload_of text c\<rparr>)
           | _ \<Rightarrow> None)"

fun upsert_singly :: "('v, 'q) qdrant \<Rightarrow> 'v point list \<Rightarrow> 'q \<Rightarrow> (exn + nat) \<times> 'q" where
  "upsert_singly cl [] q = (Inr 0, q)"
| "upsert_singly cl (p # ps) q =
     (case upsert cl [p] q of
        (Inr _, q) \<Rightarrow>
          (case upsert_singly cl ps q of (Inr n, q) \<Rightarrow> (Inr (Suc n), q) | (Inl e, q) \<Rightarrow> (Inl e, q))
      | (Inl e, q) \<Rightarrow> if is_exception e then upsert_singly cl ps q else (Inl e, q))"

definition index_batch :: "('v, 'q) qdrant \<Rightarrow> vchunk list \<Rightarrow> 'q \<Rightarrow> (exn + nat) \<times> 'q" where
  "index_batch cl batch q =
     (let points = List.map_filter (chunk_to_point cl) batch in
      if points = [] then (Inr 0, q)
      else
        (case upsert cl points q of
           (Inr _, q) \<Rightarrow> (Inr (length points), q)
         | (Inl e, q) \<Rightarrow> if is_exception e then upsert_singly cl points q else (Inl e, q)))"

function index_chunks :: "('v, 'q) qdrant \<Rightarrow> vchunk list \<Rightarrow> 'q \<Rightarrow> (exn + nat) \<times> 'q" where
  "index_chunks cl cs q =
     (if batch_size cl = 0 then (Inl (ValueError ''range() arg 3 must not be zero''), q)
      else if cs = [] then (Inr 0, q)
      else
        (case index_batch cl (take (batch_size cl) cs) q of
           (Inl e, q) \<Rightarrow> (Inl e, q)
         | (Inr n, q) \<Rightarrow>
             (case index_chunks cl (drop (batch_size cl) cs) q of
                (Inl e, q) \<Rightarrow> (Inl e, q)
              | (Inr m, q) \<Rightarrow> (Inr (n + m), q))))"
  by pat_completeness auto

termination by (relation "measure (\<lambda>(cl, cs, q). length cs)") auto

declare index_chunks.simps [simp del]

definition delete_chunks :: "('v, 'q) qdrant \<Rightarrow> string list \<Rightarrow> 'q \<Rightarrow> (exn + nat) \<times> 'q" where
  "delete_chunks cl ids q =
     (if ids = [] then (Inr 0, q)
      else
        (case delete_points cl (map (uuid5 cl) ids) q of
           (Inr _, q) \<Rightarrow> (Inr (length ids), q)
         | (Inl e, q) \<Rightarrow> (if is_exception e then Inr 0 else Inl e, q)))"

definition live_upsert :: "('v, 'q) qdrant \<Rightarrow> vchunk \<Rightarrow> 'q \<Rightarrow> (exn + bool) \<times> 'q" where
  "live_upsert cl c q =
     (case chunk_to_point cl c of
        None \<Rightarrow> (Inr False, q)
      | Some p \<Rightarrow>
          (case upsert cl [p] q of
             (Inr _, q) \<Rightarrow> (Inr True, q)
           | (Inl e, q) \<Rightarrow> (if is_exception e then Inr False else Inl e, q)))"

definition live_delete :: "('v, 'q) qdrant \<Rightarrow> string \<Rightarrow> 'q \<Rightarrow> (exn + bool) \<times> 'q" where
  "live_delete cl i q =
     (if i = [] then (Inr False, q)
      else
        (case delete_points cl [uuid5 cl i] q of
           (Inr _, q) \<Rightarrow> (Inr True, q)
         | (Inl e, q) \<Rightarrow> (if is_exception e then Inr False else Inl e, q)))"

subsection \<open>The lake\<close>

record lake_row =
  row_time :: string
  row_op :: string
  row_hash :: string
  row_fields :: json_obj

definition COLD_FIELDS :: "(string \<times> json) list" where
  "COLD_FIELDS =
     [(''text'', JNull), (''title'', JNull), (''source_type'', JNull), (''source_id'', JNull), (''version'', JNull),
      (''doc_title'', JNull), (''keywords'', JList []), (''entities'', JList []), (''summary'', JStr [])]"

record 'q lake =
  vstore_of :: vstore
  index_of :: 'q
  lake_cold :: "(string, lake_row list) dict"
  lake_pandas :: bool

definition lake_append :: "string \<Rightarrow> string \<Rightarrow> vchunk list \<Rightarrow> string \<Rightarrow> 'q lake \<Rightarrow> 'q lake" where
  "lake_append now doc cs op l =
     (if \<not> lake_pandas l then l
      else
        (let rows = map (\<lambda>c. \<lparr>row_time = now, row_op = op, row_hash = vhash c,
                               row_fields = map (\<lambda>(k, d). (k, dict_getd (vfields c) k d)) COLD_FIELDS\<rparr>) cs
         in l\<lparr>lake_cold := dict_set doc (dict_getd (lake_cold l) doc [] @ rows) (lake_cold l)\<rparr>))"

definition sync_document ::
  "('v, 'q) qdrant \<Rightarrow> string \<Rightarrow> string \<Rightarrow> vchunk list \<Rightarrow> bool \<Rightarrow> 'q lake \<Rightarrow> (exn + nat \<times> nat) \<times> 'q lake" where
  "sync_document cl now doc cs force l =
     (let ((added, deleted), vs) = update_document_chunks now doc cs force (vstore_of l);
          l = l\<lparr>vstore_of := vs\<rparr>;
          (ra, q) = (if added \<noteq> [] then index_chunks cl added (index_of l) else (Inr 0, index_of l));
          l = l\<lparr>index_of := q\<rparr>
      in case ra of
           Inl e \<Rightarrow> (Inl e, l)
         | Inr n \<Rightarrow>
             (let (rd, q) = (if deleted \<noteq> [] then delete_chunks cl deleted (index_of l) else (Inr 0, index_of l));
                  l = l\<lparr>index_of := q\<rparr>
              in case rd of
                   Inl e \<Rightarrow> (Inl e, l)
                 | Inr m \<Rightarrow>
                     (let l = (if added \<noteq> [] then lake_append now doc added ''upsert'' l else l);
                          l = (if deleted \<noteq> []
                               then lake_append now doc (map (\<lambda>h. \<lparr>vhash = h, vfields = []\<rparr>) deleted) ''delete'' l
                               else l)
                      in (Inr (n, m), l))))"

fun bulk_sync ::
  "('v, 'q) qdrant \<Rightarrow> string \<Rightarrow> (string \<times> vchunk list) list \<Rightarrow> bool \<Rightarrow> 'q lake \<Rightarrow>
   (exn + (string, nat \<times> nat) dict) \<times> 'q lake" where
  "bulk_sync cl now [] force l = (Inr [], l)"
| "bulk_sync cl now ((doc, cs) # ds) force l =
     (case sync_document cl now doc cs force l of
        (Inl e, l) \<Rightarrow> (Inl e, l)
      | (Inr r, l) \<Rightarrow>
          (case bulk_sync cl now ds force l of
             (Inl e, l) \<Rightarrow> (Inl e, l)
           | (Inr rs, l) \<Rightarrow> (Inr ((doc, r) # rs), l)))"

definition get_document_history :: "string \<Rightarrow> int \<Rightarrow> 'q lake \<Rightarrow> lake_row list" where
  "get_document_history doc limit l =
     (if lake_pandas l then df_tail limit (dict_getd (lake_cold l) doc []) else [])"

fun snapshot_chunks :: "string list \<Rightarrow> lake_row list \<Rightarrow> vchunk list" where
  \<comment> \<open>the loop of \<^verbatim>\<open>rollback_document\<close>; the first argument is \<^verbatim>\<open>seen_hashes\<close>\<close>
  "snapshot_chunks seen [] = []"
| "snapshot_chunks seen (r # rs) =
     (if row_op r = ''upsert'' \<and> row_hash r \<notin> set seen
      then \<lparr>vhash = row_hash r, vfields = row_fields r\<rparr> # snapshot_chunks (row_hash r # seen) rs
      else snapshot_chunks seen rs)"

definition rollback_document ::
  "('v, 'q) qdrant \<Rightarrow> string \<Rightarrow> string \<Rightarrow> string \<Rightarrow> 'q lake \<Rightarrow> (exn + nat) \<times> 'q lake" where
  "rollback_document cl now doc to_timestamp l =
     (let history = get_document_history doc 100 l;
          snapshot = filter (\<lambda>r. row_time r \<le> to_timestamp) history
      in if snapshot = [] then (Inr 0, l)
         else
           (let cs = snapshot_chunks [] snapshot;
                l = l\<lparr>vstore_of := reset_store (Some doc) (vstore_of l)\<rparr>
            in case sync_document cl now doc cs True l of
                 (Inl e, l) \<Rightarrow> (Inl e, l)
               | (Inr (added, _), l) \<Rightarrow> (Inr added, l)))"

definition lake_cleanup :: "string \<Rightarrow> int \<Rightarrow> 'q lake \<Rightarrow> 'q lake" where
  "lake_cleanup doc keep l = l\<lparr>vstore_of := cleanup_old_versions doc keep (vstore_of l)\<rparr>"

definition incremental_index_pipeline ::
  "('v, 'q) qdrant \<Rightarrow> string \<Rightarrow> string \<Rightarrow> vchunk list \<Rightarrow> bool \<Rightarrow> 'q lake \<Rightarrow> (exn + bool) \<times> 'q lake" where
  "incremental_index_pipeline cl now doc cs force l =
     (case sync_document cl now doc cs force l of
        (Inl e, l) \<Rightarrow> (Inl e, l)
      | (Inr (a, d), l) \<Rightarrow> (Inr (a + d > 0), l))"

subsection \<open>A client that accepts every write\<close>

definition overlay :: "(string \<Rightarrow> 'v point option) \<Rightarrow> 'v point list \<Rightarrow> string \<Rightarrow> 'v point option" where
  \<comment> \<open>what is stored under an id after points have been written over a collection\<close>
  "overlay f ps i = (let xs = filter (\<lambda>p. pid p = i) ps in if xs = [] then f i else Some (last xs))"

definition accepting :: "('v, 'q) qdrant \<Rightarrow> ('q \<Rightarrow> string \<Rightarrow> 'v point option) \<Rightarrow> bool" where
  \<comment> \<open>documented behaviour of Qdrant: an upsert replaces or adds by id, a deletion removes by id\<close>
  "accepting cl look \<longleftrightarrow>
     (\<forall>ps q. \<exists>q'. upsert cl ps q = (Inr (), q') \<and> look q' = overlay (look q) ps) \<and>
     (\<forall>ids q. \<exists>q'. delete_points cl ids q = (Inr (), q') \<and> look q' = (\<lambda>i. if i \<in> set ids then None else look q i))"

lemma overlay_Nil [simp]: "overlay f [] = f"
  by (simp add: overlay_def fun_eq_iff)

lemma overlay_append: "overlay (overlay f xs) ys = overlay f (xs @ ys)"
  by (simp add: overlay_def fun_eq_iff Let_def)

lemma overlay_None: "overlay f ps i = None \<longleftrightarrow> i \<notin> pid ` set ps \<and> f i = None"
proof -
  have "filter (\<lambda>p. pid p = i) ps = [] \<longleftrightarrow> i \<notin> pid ` set ps" by (auto simp: filter_empty_conv)
  then show ?thesis by (auto simp: overlay_def Let_def)
qed

lemma overlay_other: "i \<notin> pid ` set ps \<Longrightarrow> overlay f ps i = f i"
proof -
  assume "i \<notin> pid ` set ps"
  then have "filter (\<lambda>p. pid p = i) ps = []" by (auto simp: filter_empty_conv)
  then show ?thesis by (simp add: overlay_def)
qed

lemma overlay_in: "i \<in> pid ` set ps \<Longrightarrow> \<exists>p \<in> set ps. pid p = i \<and> overlay f ps i = Some p"
proof -
  assume i: "i \<in> pid ` set ps"
  let ?xs = "filter (\<lambda>p. pid p = i) ps"
  have ne: "?xs \<noteq> []" using i by (auto simp: filter_empty_conv)
  then have "last ?xs \<in> set ?xs" by (rule last_in_set)
  moreover have "overlay f ps i = Some (last ?xs)" using ne by (simp add: overlay_def Let_def)
  ultimately show ?thesis by auto
qed

lemma map_filter_append: "List.map_filter f (xs @ ys) = List.map_filter f xs @ List.map_filter f ys"
  by (simp add: List.map_filter_def)

lemma accepting_upsert:
  "accepting cl look \<Longrightarrow> \<exists>q'. upsert cl ps q = (Inr (), q') \<and> look q' = overlay (look q) ps"
  by (simp add: accepting_def)

lemma accepting_delete:
  "accepting cl look \<Longrightarrow> \<exists>q'. delete_points cl ids q = (Inr (), q') \<and>
     look q' = (\<lambda>i. if i \<in> set ids then None else look q i)"
  by (simp add: accepting_def)

lemma index_batch_accepting:
  assumes "accepting cl look"
  shows "\<exists>n q'. index_batch cl cs q = (Inr n, q') \<and>
     look q' = overlay (look q) (List.map_filter (chunk_to_point cl) cs)"
proof (cases "List.map_filter (chunk_to_point cl) cs")
  case Nil
  then show ?thesis by (simp add: index_batch_def)
next
  case (Cons p ps)
  obtain q' where "upsert cl (p # ps) q = (Inr (), q')" "look q' = overlay (look q) (p # ps)"
    using accepting_upsert [OF assms] by blast
  with Cons show ?thesis by (simp add: index_batch_def Let_def)
qed

lemma index_chunks_accepting:
  assumes "accepting cl look" and "0 < batch_size cl"
  shows "\<exists>n q'. index_chunks cl cs q = (Inr n, q') \<and>
    look q' = overlay (look q) (List.map_filter (chunk_to_point cl) cs)"
proof (induction cs arbitrary: q rule: length_induct)
  case (1 cs)
  show ?case
  proof (cases "cs = []")
    case True
    with assms(2) show ?thesis by (simp add: index_chunks.simps)
  next
    case False
    obtain n q1 where b: "index_batch cl (take (batch_size cl) cs) q = (Inr n, q1)"
      "look q1 = overlay (look q) (List.map_filter (chunk_to_point cl) (take (batch_size cl) cs))"
      using index_batch_accepting [OF assms(1)] by blast
    have "length (drop (batch_size cl) cs) < length cs" using False assms(2) by simp
    then obtain m q2 where r: "index_chunks cl (drop (batch_size cl) cs) q1 = (Inr m, q2)"
      "look q2 = overlay (look q1) (List.map_filter (chunk_to_point cl) (drop (batch_size cl) cs))"
      using 1 by blast
    have "index_chunks cl cs q = (Inr (n + m), q2)"
      using False assms(2) by (subst index_chunks.simps) (simp add: b r)
    moreover have "look q2 = overlay (look q) (List.map_filter (chunk_to_point cl) cs)"
      unfolding r(2) b(2) overlay_append map_filter_append [symmetric] by simp
    ultimately show ?thesis by blast
  qed
qed

lemma delete_chunks_accepting:
  assumes "accepting cl look"
  shows "\<exists>n q'. delete_chunks cl ids q = (Inr n, q') \<and>
     look q' = (\<lambda>i. if i \<in> uuid5 cl ` set ids then None else look q i)"
proof (cases "ids = []")
  case False
  obtain q' where "delete_points cl (map (uuid5 cl) ids) q = (Inr (), q')"
    "look q' = (\<lambda>i. if i \<in> set (map (uuid5 cl) ids) then None else look q i)"
    using accepting_delete [OF assms] by blast
  with False show ?thesis by (simp add: delete_chunks_def)
qed (simp add: delete_chunks_def)

lemma lake_append_keeps [simp]:
  "index_of (lake_append now doc cs op l) = index_of l" "vstore_of (lake_append now doc cs op l) = vstore_of l"
  by (simp_all add: lake_append_def Let_def)

lemma sync_accepting:
  assumes "accepting cl look" and "0 < batch_size cl"
    and "update_document_chunks now doc cs force (vstore_of l) = ((added, deleted), vs)"
  shows "\<exists>r l'. sync_document cl now doc cs force l = (Inr r, l') \<and> vstore_of l' = vs \<and>
    look (index_of l') = (\<lambda>i. if i \<in> uuid5 cl ` set deleted then None
      else overlay (look (index_of l)) (List.map_filter (chunk_to_point cl) added) i)"
proof -
  obtain n q1 where a: "index_chunks cl added (index_of l) = (Inr n, q1)"
    and look1: "look q1 = overlay (look (index_of l)) (List.map_filter (chunk_to_point cl) added)"
    using index_chunks_accepting [OF assms(1,2)] by blast
  let ?q = "if added = [] then index_of l else q1"
  obtain m q2 where d: "delete_chunks cl deleted ?q = (Inr m, q2)"
    and look2: "look q2 = (\<lambda>i. if i \<in> uuid5 cl ` set deleted then None else look ?q i)"
    using delete_chunks_accepting [OF assms(1)] by blast
  have q: "look ?q = overlay (look (index_of l)) (List.map_filter (chunk_to_point cl) added)"
    using look1 by simp
  have "\<exists>r l'. sync_document cl now doc cs force l = (Inr r, l') \<and> vstore_of l' = vs \<and>
      index_of l' = (if deleted = [] then ?q else q2)"
    using a d by (cases "added = []"; cases "deleted = []") (simp_all add: sync_document_def assms(3) Let_def)
  then obtain r l' where s: "sync_document cl now doc cs force l = (Inr r, l')" "vstore_of l' = vs"
    and idx: "index_of l' = (if deleted = [] then ?q else q2)"
    by blast
  have "look (index_of l') = (\<lambda>i. if i \<in> uuid5 cl ` set deleted then None
      else overlay (look (index_of l)) (List.map_filter (chunk_to_point cl) added) i)"
  proof (cases "deleted = []")
    case True
    with idx have "index_of l' = ?q" by simp
    then show ?thesis unfolding True by (simp only: q) simp
  next
    case False
    then show ?thesis using idx look2 [unfolded q] by simp
  qed
  with s show ?thesis by blast
qed

lemma points_of_chunks:
  "pid ` set (List.map_filter (chunk_to_point cl) cs) = uuid5 cl ` vhash ` set (filter (\<lambda>c. chunk_to_point cl c \<noteq> None) cs)"
proof (induction cs)
  case (Cons c cs)
  have "chunk_to_point cl c = Some p \<Longrightarrow> pid p = uuid5 cl (vhash c)" for p
    by (auto simp: chunk_to_point_def split: if_splits json.splits)
  with Cons show ?case by (cases "chunk_to_point cl c") auto
qed simp

definition alist_client :: "(unit, (string, unit point) dict) qdrant" where
  "alist_client =
     \<lparr>upsert = (\<lambda>ps q. (Inr (), foldl (\<lambda>d p. dict_set (pid p) p d) q ps)),
      delete_points = (\<lambda>ids q. (Inr (), filter (\<lambda>(i, p). i \<notin> set ids) q)),
      uuid5 = (\<lambda>h. CHR ''u'' # h), vectors = (\<lambda>_. ()), batch_size = 100\<rparr>"

lemma alist_client_accepting: "accepting alist_client map_of"
proof -
  have up: "map_of (foldl (\<lambda>d p. dict_set (pid p) p d) q ps) = overlay (map_of q) ps" for q and ps :: "unit point list"
  proof (induction ps rule: rev_induct)
    case (snoc p ps)
    then show ?case by (auto simp: fun_eq_iff overlay_def Let_def)
  qed simp
  have "map_of (filter (\<lambda>(i, p). i \<notin> set ids) q) i = (if i \<in> set ids then None else map_of q i)"
    for ids i and q :: "(string, unit point) dict"
    by (induction q) auto
  with up show ?thesis by (auto simp: accepting_def alist_client_def)
qed

lemma alist_client_simps [simp]:
  "batch_size alist_client = 100" "uuid5 alist_client h = CHR ''u'' # h" "inj (uuid5 alist_client)"
  by (simp_all add: alist_client_def inj_def)

definition text_chunk :: "string \<Rightarrow> string \<Rightarrow> vchunk" where
  "text_chunk h s = \<lparr>vhash = h, vfields = [(''text'', JStr s)]\<rparr>"

lemma text_chunk_point: "h \<noteq> [] \<Longrightarrow> s \<noteq> [] \<Longrightarrow> chunk_to_point cl (text_chunk h s) \<noteq> None"
  by (simp add: chunk_to_point_def text_chunk_def dict_getd_def)

definition known_lake :: "(string, unit point) dict lake" where
  \<comment> \<open>one document with one public chunk, stored and indexed\<close>
  "known_lake = \<lparr>vstore_of = sample_vstore,
     index_of = [(''uaaa'', \<lparr>pid = ''uaaa'', pvector = (), ppayload = [(''access_level'', JStr ''public'')]\<rparr>)],
     lake_cold = [(''d'', [\<lparr>row_time = ''t0'', row_op = ''upsert'', row_hash = ''aaa'',
        row_fields = map (\<lambda>(k, d). (k, dict_getd [(''text'', JStr ''v1'')] k d)) COLD_FIELDS\<rparr>])],
     lake_pandas = True\<rparr>"

lemma known_lake_simps [simp]:
  "truthy_str (get_last_hash ''d'' (vstore_of known_lake))"
  "load_hot_chunks ''d'' (vstore_of known_lake) = [text_chunk ''aaa'' ''v1'']"
  by (simp_all add: known_lake_def sample_vstore_def get_last_hash_def truthy_str_def load_hot_chunks_def
      dict_getd_def text_chunk_def)

subsection \<open>Properties\<close>

lemma map_filter_set: "set (List.map_filter f xs) = {y. \<exists>x \<in> set xs. f x = Some y}"
  by (induction xs) (auto split: option.splits)

text \<open>
  C12. An incremental synchronisation brings the index up to date: if the document's stored chunks
  were all in the index before, then afterwards, of the hashes that occur in the old or the new
  version, exactly those of the new version are in the index, and nothing else in the index has
  changed. (Assumed: Qdrant accepts every write, the UUID digest does not collide, and the new
  chunks have a hash and a text.)
\<close>
theorem sync_brings_index_up_to_date:
  assumes "accepting cl look" and "0 < batch_size cl" and "inj (uuid5 cl)"
    and "truthy_str (get_last_hash doc (vstore_of l))"
    and "list_all (\<lambda>c. chunk_to_point cl c \<noteq> None) cs"
    and "list_all (\<lambda>c. look (index_of l) (uuid5 cl (vhash c)) \<noteq> None) (load_hot_chunks doc (vstore_of l))"
  shows "\<exists>r l'. sync_document cl now doc cs False l = (Inr r, l') \<and>
    (\<forall>h. if h \<in> vhash ` set (load_hot_chunks doc (vstore_of l)) \<union> vhash ` set cs
         then (look (index_of l') (uuid5 cl h) \<noteq> None \<longleftrightarrow> h \<in> vhash ` set cs)
         else look (index_of l') (uuid5 cl h) = look (index_of l) (uuid5 cl h))"
proof -
  let ?os = "load_hot_chunks doc (vstore_of l)"
  obtain added deleted vs where u: "update_document_chunks now doc cs False (vstore_of l) = ((added, deleted), vs)"
    by (metis surj_pair)
  have a: "added = map snd (filter (differs (hash_map ?os)) (hash_map cs))"
    and d: "deleted = filter (\<lambda>h. h \<notin> vhash ` set cs) (dict_keys (hash_map ?os))"
    using update_incremental [OF assms(4), of now cs] u by simp_all
  have dset: "set deleted = vhash ` set ?os - vhash ` set cs"
    unfolding d set_filter set_dict_keys dom_hash_map by auto
  have sub: "set added \<subseteq> set cs"
    using hash_map_in by (fastforce simp: a dict_ok_get_iff [OF dict_ok_hash_map, symmetric])
  have aset: "vhash ` set cs - vhash ` set ?os \<subseteq> vhash ` set added" "vhash ` set added \<subseteq> vhash ` set cs"
    using added_hashes [of ?os cs] sub by (auto simp: a)
  have "filter (\<lambda>c. chunk_to_point cl c \<noteq> None) added = added"
    using sub assms(5) by (auto simp: list_all_iff filter_id_conv)
  then have pts: "pid ` set (List.map_filter (chunk_to_point cl) added) = uuid5 cl ` vhash ` set added"
    by (simp only: points_of_chunks)
  obtain r l' where s: "sync_document cl now doc cs False l = (Inr r, l')"
    and look: "look (index_of l') = (\<lambda>i. if i \<in> uuid5 cl ` set deleted then None
      else overlay (look (index_of l)) (List.map_filter (chunk_to_point cl) added) i)"
    using sync_accepting [OF assms(1,2) u] by blast
  have inj: "uuid5 cl h \<in> uuid5 cl ` A \<longleftrightarrow> h \<in> A" for h A using assms(3) by (simp add: inj_image_mem_iff)
  have none: "look (index_of l') (uuid5 cl h) = None \<longleftrightarrow> h \<in> set deleted \<or> h \<notin> vhash ` set added \<and> look (index_of l) (uuid5 cl h) = None" for h
    by (simp only: look inj pts overlay_None if_bool_eq_conj split: if_split) (simp add: overlay_None pts inj)
  have same: "look (index_of l') (uuid5 cl h) = look (index_of l) (uuid5 cl h)"
    if "h \<notin> set deleted" "h \<notin> vhash ` set added" for h
    using that by (simp add: look inj overlay_other pts)
  have "if h \<in> vhash ` set ?os \<union> vhash ` set cs
      then (look (index_of l') (uuid5 cl h) \<noteq> None \<longleftrightarrow> h \<in> vhash ` set cs)
      else look (index_of l') (uuid5 cl h) = look (index_of l) (uuid5 cl h)" for h
  proof -
    have "h \<in> set deleted \<longleftrightarrow> h \<in> vhash ` set ?os \<and> h \<notin> vhash ` set cs" by (simp add: dset)
    moreover have "h \<in> vhash ` set ?os \<Longrightarrow> look (index_of l) (uuid5 cl h) \<noteq> None"
      using assms(6) by (auto simp: list_all_iff)
    moreover have "h \<in> vhash ` set cs \<Longrightarrow> h \<notin> vhash ` set ?os \<Longrightarrow> h \<in> vhash ` set added"
      and "h \<in> vhash ` set added \<Longrightarrow> h \<in> vhash ` set cs"
      using aset by blast+
    ultimately show ?thesis using none [of h] same [of h] by (simp split: if_split) blast
  qed
  with s show ?thesis by blast
qed

theorem sync_brings_index_up_to_date_witness:
  "\<exists>r l'. sync_document alist_client ''t1'' ''d'' [text_chunk ''bbb'' ''v2''] False known_lake = (Inr r, l') \<and>
     map_of (index_of l') ''ubbb'' \<noteq> None \<and> map_of (index_of l') ''uaaa'' = None"
proof -
  have "list_all (\<lambda>c. chunk_to_point alist_client c \<noteq> None) [text_chunk ''bbb'' ''v2'']"
    using text_chunk_point [of "''bbb''" "''v2''" alist_client] by simp
  moreover have "list_all (\<lambda>c. map_of (index_of known_lake) (uuid5 alist_client (vhash c)) \<noteq> None)
      (load_hot_chunks ''d'' (vstore_of known_lake))"
    by (simp add: text_chunk_def) (simp add: known_lake_def)
  ultimately obtain r l' where s: "sync_document alist_client ''t1'' ''d'' [text_chunk ''bbb'' ''v2''] False known_lake = (Inr r, l')"
    and h: "\<forall>h. if h \<in> vhash ` set (load_hot_chunks ''d'' (vstore_of known_lake)) \<union> vhash ` set [text_chunk ''bbb'' ''v2'']
         then (map_of (index_of l') (uuid5 alist_client h) \<noteq> None \<longleftrightarrow> h \<in> vhash ` set [text_chunk ''bbb'' ''v2''])
         else map_of (index_of l') (uuid5 alist_client h) = map_of (index_of known_lake) (uuid5 alist_client h)"
    using sync_brings_index_up_to_date [OF alist_client_accepting, of "''d''" known_lake "[text_chunk ''bbb'' ''v2'']" "''t1''"]
    by auto
  show ?thesis using s h [rule_format, of "''bbb''"] h [rule_format, of "''aaa''"] by (auto simp: text_chunk_def)
qed

text \<open>
  A change of access rights alone never reaches the index. When a document is extracted again
  with the same hashes and texts (the chunker hashes the text, and \<^verbatim>\<open>compute_chunk_hash\<close> leaves out
  the access fields as well), synchronising it touches neither the index nor the stored chunks: a
  document that has become confidential stays searchable as public.
\<close>
theorem access_change_not_indexed:
  assumes "truthy_str (get_last_hash doc (vstore_of l))"
    and "vhash ` set cs = vhash ` set (load_hot_chunks doc (vstore_of l))"
    and "\<And>c o'. c \<in> set cs \<Longrightarrow> o' \<in> set (load_hot_chunks doc (vstore_of l)) \<Longrightarrow> vhash c = vhash o' \<Longrightarrow> vtext c = vtext o'"
  shows "\<exists>l'. sync_document cl now doc cs False l = (Inr (0, 0), l') \<and> index_of l' = index_of l \<and>
    load_hot_chunks doc (vstore_of l') = load_hot_chunks doc (vstore_of l)"
proof -
  let ?os = "load_hot_chunks doc (vstore_of l)"
  obtain added deleted vs where u: "update_document_chunks now doc cs False (vstore_of l) = ((added, deleted), vs)"
    by (metis surj_pair)
  have a: "added = map snd (filter (differs (hash_map ?os)) (hash_map cs))"
    and d: "deleted = filter (\<lambda>h. h \<notin> vhash ` set cs) (dict_keys (hash_map ?os))"
    using update_incremental [OF assms(1), of now cs] u by simp_all
  have "set deleted = {}" unfolding d set_filter set_dict_keys dom_hash_map assms(2) by auto
  then have d': "deleted = []" by simp
  have "\<not> differs (hash_map ?os) (h, c)" if "(h, c) \<in> set (hash_map cs)" for h c
  proof -
    have c: "c \<in> set cs" "vhash c = h" using that hash_map_in by (simp_all add: dict_ok_get_iff)
    then obtain o' where o': "map_of (hash_map ?os) h = Some o'" using hash_map_none [of ?os h] assms(2) by blast
    have "vtext c = vtext o'" by (rule assms(3)) (use c hash_map_in [OF o'] in simp_all)
    with o' show ?thesis by (simp add: differs_def)
  qed
  then have a': "added = []" by (auto simp: a filter_empty_conv)
  have "hot vs = hot (vstore_of l)"
    using u assms(1) a a' d d' hash_map_none [of cs]
    by (auto simp: update_document_chunks_def Let_def case_prod_beta collect_added_fst update_doc_wal_def collect_added_keeps)
  then show ?thesis using u by (simp add: sync_document_def a' d' load_hot_chunks_def)
qed

theorem access_change_not_indexed_witness:
  "\<exists>l'. sync_document alist_client ''t1'' ''d''
      [\<lparr>vhash = ''aaa'', vfields = [(''text'', JStr ''v1''), (''access_level'', JStr ''confidential'')]\<rparr>] False known_lake =
      (Inr (0, 0), l') \<and> index_of l' = index_of known_lake"
  using access_change_not_indexed [of "''d''" known_lake
      "[\<lparr>vhash = ''aaa'', vfields = [(''text'', JStr ''v1''), (''access_level'', JStr ''confidential'')]\<rparr>]" alist_client "''t1''"]
  by (auto simp: text_chunk_def dict_getd_def)

definition cold_rows_wf :: "string \<Rightarrow> 'q lake \<Rightarrow> bool" where
  \<comment> \<open>the rows of the document have the columns that \<^verbatim>\<open>_append_to_cold_storage\<close> writes\<close>
  "cold_rows_wf doc l \<longleftrightarrow>
     list_all (\<lambda>r. map fst (row_fields r) = map fst COLD_FIELDS) (dict_getd (lake_cold l) doc [])"

lemma cold_rows_wf_append: "cold_rows_wf doc l \<Longrightarrow> cold_rows_wf doc (lake_append now doc' cs op l)"
  by (auto simp: cold_rows_wf_def lake_append_def Let_def list_all_iff comp_def case_prod_beta)

lemma cold_fields_no_access: "(''access_level'' \<in> set (map fst COLD_FIELDS)) = False"
  by (simp add: COLD_FIELDS_def)

lemma snapshot_fields: "c \<in> set (snapshot_chunks seen rs) \<Longrightarrow> \<exists>r \<in> set rs. vfields c = row_fields r"
  by (induction seen rs rule: snapshot_chunks.induct) (auto split: if_splits)

lemma map_of_non_null:
  "dict_ok d \<Longrightarrow> map_of d k = Some v \<Longrightarrow> v \<noteq> JNull \<Longrightarrow> map_of (filter (\<lambda>(k, v). v \<noteq> JNull) d) k = Some v"
  by (simp add: dict_ok_get_iff)

lemma payload_public:
  assumes "map_of (vfields c) ''access_level'' = None"
  shows "map_of (chunk_payload_of t c) ''access_level'' = Some (JStr ''public'')"
  unfolding chunk_payload_of_def Let_def
  by (rule map_of_non_null)
    (simp_all add: payload_fields_def acl_fields_def dict_ok_def dict_getd_def assms)

text \<open>
  A rollback publishes what it restores. Cold storage does not record who may read a chunk, so
  that every chunk that \<^verbatim>\<open>rollback_document\<close> puts back into the index is indexed with access level
  \<^verbatim>\<open>public\<close>, whatever its level was before.
\<close>
theorem rollback_makes_public:
  assumes "accepting cl look" and "0 < batch_size cl" and "cold_rows_wf doc l"
    and "c \<in> set (snapshot_chunks [] (filter (\<lambda>r. row_time r \<le> ts) (get_document_history doc 100 l)))"
    and "chunk_to_point cl c \<noteq> None"
  shows "\<exists>n l' p. rollback_document cl now doc ts l = (Inr n, l') \<and>
    look (index_of l') (uuid5 cl (vhash c)) = Some p \<and>
    map_of (ppayload p) ''access_level'' = Some (JStr ''public'')"
proof -
  let ?rs = "filter (\<lambda>r. row_time r \<le> ts) (get_document_history doc 100 l)"
  let ?cs = "snapshot_chunks [] ?rs"
  let ?l = "l\<lparr>vstore_of := reset_store (Some doc) (vstore_of l)\<rparr>"
  have ne: "?rs \<noteq> []" using assms(4) by auto
  have "fst (update_document_chunks now doc ?cs True (vstore_of ?l)) = (?cs, [])" by (rule update_forced) simp
  then obtain vs where u: "update_document_chunks now doc ?cs True (vstore_of ?l) = ((?cs, []), vs)"
    by (metis fst_conv surj_pair)
  obtain r l' where s: "sync_document cl now doc ?cs True ?l = (Inr r, l')"
    and look: "look (index_of l') = overlay (look (index_of ?l)) (List.map_filter (chunk_to_point cl) ?cs)"
    using sync_accepting [OF assms(1,2) u] by auto
  have "uuid5 cl (vhash c) \<in> pid ` set (List.map_filter (chunk_to_point cl) ?cs)"
    using assms(4,5) by (auto simp: points_of_chunks)
  then obtain p where p: "p \<in> set (List.map_filter (chunk_to_point cl) ?cs)"
      "look (index_of l') (uuid5 cl (vhash c)) = Some p"
    using overlay_in look by metis
  then obtain c' where c': "c' \<in> set ?cs" "chunk_to_point cl c' = Some p" by (auto simp: map_filter_set)
  obtain row where row: "row \<in> set ?rs" "vfields c' = row_fields row" using snapshot_fields [OF c'(1)] by blast
  have "set (get_document_history doc 100 l) \<subseteq> set (dict_getd (lake_cold l) doc [])"
    by (auto simp: get_document_history_def df_tail_def dest: in_set_dropD)
  then have "map fst (vfields c') = map fst COLD_FIELDS"
    using row assms(3) by (auto simp: cold_rows_wf_def list_all_iff)
  then have "''access_level'' \<notin> set (map fst (vfields c'))" by (simp only: cold_fields_no_access not_False_eq_True)
  then have "map_of (vfields c') ''access_level'' = None" by (simp add: map_of_eq_None_iff)
  moreover obtain t where "ppayload p = chunk_payload_of t c'"
    using c'(2) by (auto simp: chunk_to_point_def split: if_splits json.splits)
  ultimately have "map_of (ppayload p) ''access_level'' = Some (JStr ''public'')" using payload_public by simp
  moreover have "rollback_document cl now doc ts l = (Inr (fst r), l')"
    using ne s by (simp add: rollback_document_def Let_def case_prod_beta)
  ultimately show ?thesis using p(2) by blast
qed

theorem rollback_makes_public_witness:
  "\<exists>n l' p. rollback_document alist_client ''t9'' ''d'' ''t5'' known_lake = (Inr n, l') \<and>
    map_of (index_of l') ''uaaa'' = Some p \<and> map_of (ppayload p) ''access_level'' = Some (JStr ''public'')"
proof -
  let ?c = "\<lparr>vhash = ''aaa'', vfields = map (\<lambda>(k, d). (k, dict_getd [(''text'', JStr ''v1'')] k d)) COLD_FIELDS\<rparr>"
  have wf: "cold_rows_wf ''d'' known_lake"
    by (simp add: cold_rows_wf_def known_lake_def dict_getd_def comp_def case_prod_beta)
  have mem: "?c \<in> set (snapshot_chunks [] (filter (\<lambda>r. row_time r \<le> ''t5'') (get_document_history ''d'' 100 known_lake)))"
    by (simp add: get_document_history_def known_lake_def dict_getd_def df_tail_def)
  have pt: "chunk_to_point alist_client ?c \<noteq> None"
    by (simp add: chunk_to_point_def COLD_FIELDS_def dict_getd_def)
  show ?thesis
    using rollback_makes_public [OF alist_client_accepting _ wf mem pt, of "''t9''"] by auto
qed

text \<open>
  Documents that contain the same text share one point, because the chunker's hash is that of
  the text alone; removing the chunk from one of them removes it from the index although the other
  still lists it among its current chunks.
\<close>
lemma shared_chunk_lost:
  assumes "accepting cl look" and "0 < batch_size cl" and "truthy_str (get_last_hash doc (vstore_of l))"
    and "c \<in> set (load_hot_chunks doc (vstore_of l))" and "vhash c \<notin> vhash ` set cs"
    and "doc' \<noteq> doc" and "c \<in> set (load_hot_chunks doc' (vstore_of l))"
  shows "\<exists>r l'. sync_document cl now doc cs False l = (Inr r, l') \<and>
    look (index_of l') (uuid5 cl (vhash c)) = None \<and> c \<in> set (load_hot_chunks doc' (vstore_of l'))"
proof -
  obtain added deleted vs where u: "update_document_chunks now doc cs False (vstore_of l) = ((added, deleted), vs)"
    by (metis surj_pair)
  have d: "deleted = filter (\<lambda>h. h \<notin> vhash ` set cs) (dict_keys (hash_map (load_hot_chunks doc (vstore_of l))))"
    using update_incremental [OF assms(3), of now cs] u by simp
  have "vhash c \<in> set deleted" unfolding d set_filter set_dict_keys dom_hash_map using assms(4,5) by auto
  moreover obtain r l' where s: "sync_document cl now doc cs False l = (Inr r, l')" "vstore_of l' = vs"
    and look: "look (index_of l') = (\<lambda>i. if i \<in> uuid5 cl ` set deleted then None
      else overlay (look (index_of l)) (List.map_filter (chunk_to_point cl) added) i)"
    using sync_accepting [OF assms(1,2) u] by blast
  moreover have "load_hot_chunks doc' vs = load_hot_chunks doc' (vstore_of l)"
    using u assms(3,6) by (auto simp: update_document_chunks_def load_hot_chunks_def Let_def case_prod_beta
        update_doc_wal_def fold_append_keeps collect_added_keeps save_chunks_to_hot_def split: if_splits)
  ultimately show ?thesis using assms(7) by simp
qed

end
