(* ===== verification/Embedding_Cache.thy ===== *)
theory Embedding_Cache
  imports Cache
begin

text \<open>
  The two-level cache of query embeddings in \<^verbatim>\<open>proxy/app/core/retrieval.py\<close> and the function
  \<^verbatim>\<open>_compute_dense_embedding\<close> that puts it in front of the shared cache and the embedding model. The MD5
  digest, the JSON printer and parser and the model are parameters.
\<close>

subsection \<open>Definitions\<close>

fun split_words :: "string \<Rightarrow> string \<Rightarrow> string list" where
  \<comment> \<open>\<^verbatim>\<open>s.split()\<close>, with the characters of the current word\<close>
  "split_words w [] = (if w = [] then [] else [w])"
| "split_words w (c # cs) =
     (if py_space c then (if w = [] then split_words [] cs else w # split_words [] cs)
      else split_words (w @ [c]) cs)"

definition py_split :: "string \<Rightarrow> string list" where
  "py_split s = split_words [] s"

record 'e embedding_cache =
  ec_max_size :: int
  similarity_threshold :: real
  exact_cache :: "(string, 'e) dict"
  query_embeddings :: "(string \<times> 'e) list"

definition init_embedding_cache :: "int \<Rightarrow> real \<Rightarrow> 'e embedding_cache" where
  "init_embedding_cache max_size th =
     \<lparr>ec_max_size = max_size, similarity_threshold = th, exact_cache = [], query_embeddings = []\<rparr>"

definition hash_query :: "(string \<Rightarrow> string) \<Rightarrow> string \<Rightarrow> string" where
  "hash_query md5 query = md5 (strip (py_lower query))"

definition words_overlap :: "real \<Rightarrow> string \<Rightarrow> string \<Rightarrow> bool" where
  \<comment> \<open>one round of the loop over the cached queries\<close>
  "words_overlap th query_lower cached_query =
     (let words1 = set (py_split query_lower); words2 = set (py_split (py_lower cached_query))
      in words1 \<noteq> {} \<and> words2 \<noteq> {} \<and>
         real (card (words1 \<inter> words2)) / real (max (card words1) (card words2)) \<ge> th)"

definition ec_get :: "(string \<Rightarrow> string) \<Rightarrow> string \<Rightarrow> 'e embedding_cache \<Rightarrow> 'e option" where
  "ec_get md5 query c =
     (case dict_get (exact_cache c) (hash_query md5 query) of
        Some e \<Rightarrow> Some e
      | None \<Rightarrow>
          map_option snd
            (find (\<lambda>(q, e). words_overlap (similarity_threshold c) (py_lower query) q) (query_embeddings c)))"

definition ec_set :: "(string \<Rightarrow> string) \<Rightarrow> string \<Rightarrow> 'e \<Rightarrow> 'e embedding_cache \<Rightarrow> 'e embedding_cache" where
  "ec_set md5 query embedding c =
     (let c = c\<lparr>exact_cache := dict_set (hash_query md5 query) embedding (exact_cache c),
               query_embeddings := query_embeddings c @ [(query, embedding)]\<rparr>;
          n = int (length (exact_cache c))
      in if n > ec_max_size c
         then (let keys_to_remove = slice_to (n - ec_max_size c) (dict_keys (exact_cache c))
               in c\<lparr>exact_cache := foldl (\<lambda>d k. dict_del k d) (exact_cache c) keys_to_remove,
                    query_embeddings := slice_from (- ec_max_size c) (query_embeddings c)\<rparr>)
         else c)"

definition ec_len :: "'e embedding_cache \<Rightarrow> nat" where
  "ec_len c = length (exact_cache c)"

definition decode_cached :: "(string \<Rightarrow> json option) \<Rightarrow> json \<Rightarrow> json" where
  \<comment> \<open>a cached list is returned as it is, a text is parsed, anything else makes \<^verbatim>\<open>json.loads\<close> raise a
     \<^verbatim>\<open>TypeError\<close> and is returned as it is\<close>
  "decode_cached loads cached =
     (case cached of JStr s \<Rightarrow> (case loads s of Some v \<Rightarrow> v | None \<Rightarrow> cached) | _ \<Rightarrow> cached)"

record 's embed_env =
  md5_of :: "string \<Rightarrow> string"
  json_dumps :: "json \<Rightarrow> string"
  json_loads :: "string \<Rightarrow> json option"
  encode :: "string \<Rightarrow> exn + json"
  cache_of :: "'s backend option"
  \<comment> \<open>\<^verbatim>\<open>cache_manager\<close>, or \<open>None\<close> when there is none\<close>

definition embed_key :: "'s embed_env \<Rightarrow> string \<Rightarrow> string" where
  "embed_key E text = ''embed:'' @ md5_of E text"

definition compute_dense_embedding ::
  "'s embed_env \<Rightarrow> real \<Rightarrow> string \<Rightarrow> json embedding_cache \<times> 's cache_manager
   \<Rightarrow> (exn + json) \<times> json embedding_cache \<times> 's cache_manager" where
  "compute_dense_embedding E now text st =
     (let (ec, cm) = st in
      case ec_get (md5_of E) text ec of
        Some e \<Rightarrow> (Inr e, ec, cm)
      | None \<Rightarrow>
          (let (cached, cm) = (case cache_of E of None \<Rightarrow> (JNull, cm) | Some b \<Rightarrow> cache_get b now (embed_key E text) cm)
           in if cached \<noteq> JNull then (Inr (decode_cached (json_loads E) cached), ec, cm)
              else
                (case encode E text of
                   Inl e \<Rightarrow> (Inl e, ec, cm)
                 | Inr vec \<Rightarrow>
                     (let cm = (case cache_of E of
                                  None \<Rightarrow> cm
                                | Some b \<Rightarrow> snd (cache_set b now (embed_key E text) (JStr (json_dumps E vec)) 3600 cm))
                      in (Inr vec, ec_set (md5_of E) text vec ec, cm)))))"

subsection \<open>Size and contents\<close>

definition ec_wf :: "'e embedding_cache \<Rightarrow> bool" where
  "ec_wf c \<longleftrightarrow> dict_ok (exact_cache c) \<and> int (length (exact_cache c)) \<le> ec_max_size c"

lemma del_first_keys:
  "dict_ok d \<Longrightarrow> foldl (\<lambda>d k. dict_del k d) d (take n (dict_keys d)) = drop n d"
proof (induction d arbitrary: n)
  case (Cons kv d)
  obtain k v where kv: "kv = (k, v)" by fastforce
  from Cons.prems kv have ok: "dict_ok d" and k: "k \<notin> fst ` set d" by (auto simp: dict_ok_def)
  have "dict_del k ((k, v) # d) = d"
    using k by (force simp: dict_del_def AList.delete_eq filter_id_conv)
  with Cons.IH [OF ok] kv show ?case by (cases n) (simp_all add: dict_keys_def)
qed (simp add: dict_keys_def)

lemma length_dict_set:
  "length (dict_set k v d) = (if dict_has d k then length d else Suc (length d))"
  unfolding dict_set_def by (induction d) (auto split: if_splits)

lemma dict_set_new: "k \<notin> fst ` set d \<Longrightarrow> dict_set k v d = d @ [(k, v)]"
  unfolding dict_set_def by (induction d) auto

lemma ec_set_simps:
  assumes "ec_wf c" and "0 \<le> ec_max_size c"
  shows "exact_cache (ec_set md5 q e c) =
      (let d = dict_set (hash_query md5 q) e (exact_cache c) in
       if int (length d) > ec_max_size c then drop (nat (int (length d) - ec_max_size c)) d else d)"
    and "ec_max_size (ec_set md5 q e c) = ec_max_size c"
    and "similarity_threshold (ec_set md5 q e c) = similarity_threshold c"
proof -
  have ok: "dict_ok (dict_set (hash_query md5 q) e (exact_cache c))" using assms(1) by (simp add: ec_wf_def)
  show "exact_cache (ec_set md5 q e c) =
      (let d = dict_set (hash_query md5 q) e (exact_cache c) in
       if int (length d) > ec_max_size c then drop (nat (int (length d) - ec_max_size c)) d else d)"
    by (simp add: ec_set_def Let_def slice_to_def del_first_keys [OF ok])
qed (simp_all add: ec_set_def Let_def)

lemma ec_set_wf:
  assumes "ec_wf c" and "0 \<le> ec_max_size c"
  shows "ec_wf (ec_set md5 q e c)"
proof -
  have "dict_ok (drop n (dict_set (hash_query md5 q) e (exact_cache c)))" for n
    using assms(1) by (simp add: ec_wf_def dict_ok_def drop_map [symmetric] distinct_drop dict_ok_set [unfolded dict_ok_def])
  with assms show ?thesis by (auto simp: ec_wf_def ec_set_simps [OF assms] Let_def)
qed

lemma ec_init_wf: "0 \<le> n \<Longrightarrow> ec_wf (init_embedding_cache n th)"
  by (simp add: ec_wf_def init_embedding_cache_def)

lemma ec_set_then_get:
  assumes "ec_wf c" and "1 \<le> ec_max_size c"
  shows "ec_get md5 q (ec_set md5 q e c) = Some e"
proof -
  let ?h = "hash_query md5 q" and ?d = "exact_cache c"
  have "map_of (exact_cache (ec_set md5 q e c)) ?h = Some e"
  proof (cases "int (length (dict_set ?h e ?d)) > ec_max_size c")
    case True
    with assms have new: "?h \<notin> fst ` set ?d" and len: "int (length ?d) = ec_max_size c"
      by (auto simp: length_dict_set ec_wf_def map_of_eq_None_iff split: if_splits)
    have "dict_set ?h e ?d = ?d @ [(?h, e)]" using new by (rule dict_set_new)
    moreover have "map_of (drop 1 ?d) ?h = None"
      using new by (auto simp: map_of_eq_None_iff dest: in_set_dropD)
    ultimately show ?thesis
      using True assms len by (simp add: ec_set_simps Let_def map_add_def)
  qed (use assms in \<open>simp add: ec_set_simps Let_def\<close>)
  then show ?thesis by (simp add: ec_get_def)
qed

subsection \<open>Properties\<close>

text \<open>
  A query is embedded once: when neither cache knows it and the model returns a vector, that vector
  is the result, and from then on the same query gets the same vector from the local cache,
  whatever the model and the shared cache would say.
\<close>

theorem embedding_computed_once:
  assumes "ec_wf ec" and "1 \<le> ec_max_size ec" and "ec_get (md5_of E) text ec = None"
    and "cache_of E = Some b" and "fst (cache_get b now (embed_key E text) cm) = JNull"
    and "encode E text = Inr vec"
  shows "\<exists>ec' cm'. compute_dense_embedding E now text (ec, cm) = (Inr vec, ec', cm') \<and> ec_wf ec' \<and>
    (\<forall>E' now' cm''. md5_of E' = md5_of E \<longrightarrow>
       compute_dense_embedding E' now' text (ec', cm'') = (Inr vec, ec', cm''))"
  using assms ec_set_then_get [OF assms(1,2)] ec_set_wf [OF assms(1)]
  by (auto simp: compute_dense_embedding_def split: prod.splits)

definition sample_embed_env :: "store embed_env" where
  "sample_embed_env =
     \<lparr>md5_of = id, json_dumps = (\<lambda>v. ''[1.0]''), json_loads = (\<lambda>s. None),
      encode = (\<lambda>s. Inr (JList [JFloat 1])), cache_of = Some memory_backend\<rparr>"

theorem embedding_computed_once_witness:
  "\<exists>ec' cm'. compute_dense_embedding sample_embed_env 0 ''vpn''
     (init_embedding_cache 1000 (95/100), init_cache_manager ''rag:'' []) = (Inr (JList [JFloat 1]), ec', cm')"
proof -
  have "ec_wf (init_embedding_cache 1000 (95/100) :: json embedding_cache)" by (simp add: ec_init_wf)
  then show ?thesis
    using embedding_computed_once [of "init_embedding_cache 1000 (95/100)" sample_embed_env "''vpn''" memory_backend 0
        "init_cache_manager ''rag:'' []" "JList [JFloat 1]"]
    by (fastforce simp: sample_embed_env_def ec_get_def init_embedding_cache_def cache_get_def
        memory_backend_def get_value_def init_cache_manager_def)
qed

text \<open>
  Two different questions made of the same words share one embedding. The documentation describes the
  second level of the cache as cosine similarity above 0.95; what is compared is the overlap of the
  word sets, so a reordered question gets the vector of the cached one whatever the words mean in
  their order.
\<close>

theorem reordered_query_same_embedding:
  assumes "1 \<le> n" and "th \<le> 1" and "py_split (py_lower q) \<noteq> []"
    and "set (py_split (py_lower q')) = set (py_split (py_lower q))"
  shows "ec_get md5 q' (ec_set md5 q e (init_embedding_cache n th)) = Some e"
proof -
  have "words_overlap th (py_lower q') q"
    using assms by (simp add: words_overlap_def Let_def card_gt_0_iff)
  then show ?thesis
    using assms(1) by (simp add: ec_get_def ec_set_def init_embedding_cache_def Let_def dict_set_def)
qed

theorem reordered_query_same_embedding_witness:
  "ec_get id ''man bites dog'' (ec_set id ''Dog bites man'' (7 :: int) (init_embedding_cache 1000 (95/100))) = Some 7"
  by (rule reordered_query_same_embedding) (simp, simp, code_simp, code_simp)

text \<open>
  The list behind the second level is not bounded by the configured size: it is trimmed only when the
  exact level overflows, and storing a known query again does not make that grow. Storing one
  query \<open>n\<close> times leaves \<open>n\<close> entries, through which every later miss has to go.
\<close>

theorem repeated_query_grows_cache:
  assumes "1 \<le> max_size"
  shows "length (query_embeddings ((ec_set md5 q e ^^ n) (init_embedding_cache max_size th))) = n"
proof -
  have "length (query_embeddings ((ec_set md5 q e ^^ n) (init_embedding_cache max_size th))) = n \<and>
    exact_cache ((ec_set md5 q e ^^ n) (init_embedding_cache max_size th)) \<in> {[], [(hash_query md5 q, e)]} \<and>
    ec_max_size ((ec_set md5 q e ^^ n) (init_embedding_cache max_size th)) = max_size"
    using assms by (induction n) (auto simp: init_embedding_cache_def ec_set_def Let_def dict_set_def)
  then show ?thesis by blast
qed

theorem repeated_query_grows_cache_witness:
  "length (query_embeddings ((ec_set id ''vpn'' (1 :: int) ^^ 5000) (init_embedding_cache 1000 (95/100)))) = 5000"
  by (rule repeated_query_grows_cache) simp

end
