(* ===== verification/Retrieval.thy ===== *)
theory Retrieval
  imports Circuit_Breaker Access_Control Embedding_Cache
begin

text \<open>
  The retrieval pipeline, \<^verbatim>\<open>proxy/app/core/retrieval.py\<close>: rank fusion, score filter, knee-point pruning,
  time decay and the hybrid search that composes them behind the circuit breaker, and the scoring
  service of \<^verbatim>\<open>proxy/app/domain/services.py\<close>. Scores are real numbers. Qdrant and the embedding model
  are parameters; a search result is an id, a score and a payload.
\<close>

subsection \<open>Rank fusion\<close>

record 'p scored_point =
  sp_id :: string
  score :: real
  sp_payload :: 'p

definition compute_rrf_score :: "int \<Rightarrow> int \<Rightarrow> int \<Rightarrow> exn + real" where
  "compute_rrf_score dense_rank sparse_rank k =
     (if k + dense_rank = 0 \<or> k + sparse_rank = 0 then Inl ZeroDivisionError
      else Inr (1 / real_of_int (k + dense_rank) + 1 / real_of_int (k + sparse_rank)))"

fun add_ranks ::
  "(int \<Rightarrow> exn + real) \<Rightarrow> int \<Rightarrow> 'p scored_point list \<Rightarrow> (string, real) dict \<Rightarrow> exn + (string, real) dict" where
  \<comment> \<open>one of the two loops, with what a rank contributes as an argument\<close>
  "add_ranks f rank [] scores = Inr scores"
| "add_ranks f rank (hit # hits) scores =
     (case f rank of
        Inl e \<Rightarrow> Inl e
      | Inr x \<Rightarrow> add_ranks f (rank + 1) hits
                   (dict_set (sp_id hit) (dict_getd scores (sp_id hit) 0 + x) scores))"

definition by_id :: "'p scored_point list \<Rightarrow> (string, 'p scored_point) dict \<Rightarrow> (string, 'p scored_point) dict" where
  "by_id hits d = foldl (\<lambda>d h. dict_set (sp_id h) h d) d hits"

definition reciprocal_rank_fusion ::
  "'p scored_point list \<Rightarrow> 'p scored_point list \<Rightarrow> int \<Rightarrow> exn + 'p scored_point list" where
  "reciprocal_rank_fusion dense sparse k =
     (let sparse_sentinel = k + max (int (length sparse)) 1;
          dense_sentinel = k + max (int (length dense)) 1
      in case add_ranks (\<lambda>rank. compute_rrf_score rank sparse_sentinel k) 1 dense [] of
           Inl e \<Rightarrow> Inl e
         | Inr scores \<Rightarrow>
             (case add_ranks (\<lambda>rank. compute_rrf_score dense_sentinel rank k) 1 sparse scores of
                Inl e \<Rightarrow> Inl e
              | Inr scores \<Rightarrow>
                  (let sorted_ids = sort_key (\<lambda>i. - dict_getd scores i 0) (dict_keys scores);
                       all_results = by_id sparse (by_id dense [])
                   in Inr (List.map_filter (dict_get all_results) sorted_ids))))"

subsection \<open>Knee-point pruning\<close>

fun argmax_from :: "real \<Rightarrow> nat \<Rightarrow> nat \<Rightarrow> real list \<Rightarrow> nat" where
  "argmax_from best k i [] = k"
| "argmax_from best k i (x # xs) =
     (if best < x then argmax_from x i (Suc i) xs else argmax_from best k (Suc i) xs)"

fun argmax :: "real list \<Rightarrow> nat" where
  \<comment> \<open>\<^verbatim>\<open>np.argmax\<close>: the first position of the largest entry\<close>
  "argmax [] = 0"
| "argmax (x # xs) = argmax_from x 0 1 xs"

definition norm2 :: "real \<times> real \<Rightarrow> real" where
  \<comment> \<open>\<^verbatim>\<open>np.linalg.norm\<close> of a vector with two entries\<close>
  "norm2 v = sqrt (fst v * fst v + snd v * snd v)"

definition line_distance :: "real \<times> real \<Rightarrow> real \<times> real \<Rightarrow> real \<times> real \<Rightarrow> real" where
  \<comment> \<open>distance of \<open>point\<close> from the line through \<open>p1\<close> in the direction \<open>unit\<close>\<close>
  "line_distance p1 unit point =
     (let vec = (fst point - fst p1, snd point - snd p1);
          proj_length = fst vec * fst unit + snd vec * snd unit;
          proj_point = (fst p1 + proj_length * fst unit, snd p1 + proj_length * snd unit)
      in norm2 (fst point - fst proj_point, snd point - snd proj_point))"

definition normalized :: "real list \<Rightarrow> (real \<times> real) list" where
  \<comment> \<open>the points \<^verbatim>\<open>(x_norm[i], y_norm[i])\<close> of the score curve\<close>
  "normalized scores =
     (let lo = Min (set scores); hi = Max (set scores)
      in map (\<lambda>i. (real i / real (length scores - 1), (scores ! i - lo) / (hi - lo))) [0..<length scores])"

definition knee_point_pruning :: "'p scored_point list \<Rightarrow> real \<Rightarrow> 'p scored_point list" where
  "knee_point_pruning results sensitivity =
     (if length results \<le> 2 then results
      else
        (let scores = map score results; n = length scores in
         if Max (set scores) = Min (set scores)
         then slice_to (max 2 (py_trunc (real n * sensitivity))) results
         else
           (let points = normalized scores;
                p1 = hd points; p2 = last points;
                line_vec = (fst p2 - fst p1, snd p2 - snd p1);
                line_len = norm2 line_vec
            in if line_len = 0 then slice_to (max 2 (py_trunc (real n * sensitivity))) results
               else
                 (let unit = (fst line_vec / line_len, snd line_vec / line_len);
                      distances = map (line_distance p1 unit) points;
                      dist_arr = map (\<lambda>d. d * (1 + sensitivity)) distances;
                      knee_idx = max (argmax dist_arr) 1
                  in take (knee_idx + 1) results))))"

fun largest_drop :: "real \<Rightarrow> nat \<Rightarrow> nat \<Rightarrow> real \<Rightarrow> real list \<Rightarrow> nat" where
  "largest_drop max_drop knee i prev [] = knee"
| "largest_drop max_drop knee i prev (s # ss) =
     (if prev - s > max_drop then largest_drop (prev - s) i (Suc i) s ss
      else largest_drop max_drop knee (Suc i) s ss)"

definition find_knee_point :: "real list \<Rightarrow> nat" where
  "find_knee_point scores =
     (if length scores < 3 then length scores
      else largest_drop 0 (length scores) 1 (hd scores) (tl scores))"

definition domain_find_knee_point :: "'p scored_point list \<Rightarrow> 'p scored_point list" where
  "domain_find_knee_point results =
     (if length results \<le> 2 then results
      else take (max (find_knee_point (map score results)) 2) results)"

subsection \<open>Score filter\<close>

definition MIN_STRONG_SOURCES :: nat where
  "MIN_STRONG_SOURCES = 2"

record thresholds =
  strong_threshold :: real
  borderline_threshold :: real

definition default_score_thresholds :: thresholds where
  \<comment> \<open>the values used when the environment does not set them\<close>
  "default_score_thresholds = \<lparr>strong_threshold = 32/100, borderline_threshold = 25/100\<rparr>"

definition filter_results_by_score ::
  "thresholds \<Rightarrow> 'p scored_point list \<Rightarrow> 'p scored_point list \<times> string" where
  "filter_results_by_score th results =
     (if results = [] then ([], ''insufficient'')
      else
        (let strong = filter (\<lambda>r. score r \<ge> strong_threshold th) results;
             borderline = filter (\<lambda>r. borderline_threshold th \<le> score r \<and> score r < strong_threshold th) results
         in if length strong \<ge> MIN_STRONG_SOURCES then (strong @ take 2 borderline, ''strong'')
            else if strong \<noteq> [] then (strong @ take 1 borderline, ''borderline'')
            else if borderline \<noteq> [] then (take 3 borderline, ''borderline'')
            else ([], ''insufficient'')))"

subsection \<open>Time decay\<close>

definition py_or :: "json \<Rightarrow> json \<Rightarrow> json" where
  "py_or a b = (if truthy a then a else b)"

definition parse_timestamp :: "(string \<Rightarrow> real option) \<Rightarrow> json \<Rightarrow> exn + real option" where
  \<comment> \<open>\<open>fromiso\<close> is \<^verbatim>\<open>datetime.fromisoformat\<close> followed by \<^verbatim>\<open>timestamp\<close>, \<open>None\<close> where it raises \<^verbatim>\<open>ValueError\<close>; a value
     without the method \<^verbatim>\<open>endswith\<close> raises an error that is not caught\<close>
  "parse_timestamp fromiso v =
     (case v of
        JNull \<Rightarrow> Inr None
      | JBool b \<Rightarrow> Inr (Some (if b then 1 else 0))
      | JInt i \<Rightarrow> Inr (Some (real_of_int i))
      | JFloat x \<Rightarrow> Inr (Some x)
      | JStr s \<Rightarrow> Inr (fromiso (if s \<noteq> [] \<and> last s = CHR ''Z'' then butlast s @ ''+00:00'' else s))
      | _ \<Rightarrow> Inl (PyException ''AttributeError'' ''endswith''))"

definition json_number :: "json \<Rightarrow> exn + real" where
  \<comment> \<open>the operand of a multiplication with a float\<close>
  "json_number v =
     (case v of
        JBool b \<Rightarrow> Inr (if b then 1 else 0)
      | JInt i \<Rightarrow> Inr (real_of_int i)
      | JFloat x \<Rightarrow> Inr x
      | _ \<Rightarrow> Inl (PyException ''TypeError'' ''operand''))"

definition decay_chunk :: "(string \<Rightarrow> real option) \<Rightarrow> real \<Rightarrow> int \<Rightarrow> json_obj \<Rightarrow> exn + json_obj" where
  \<comment> \<open>one round of the loop of \<^verbatim>\<open>apply_time_decay\<close>\<close>
  "decay_chunk fromiso now decay_days chunk =
     (let payload = dict_getd chunk ''payload'' (JObj []) in
      case (json_get payload ''updated_at'' JNull, json_get payload ''created_at'' JNull) of
        (Inr u, Inr c) \<Rightarrow>
          (let ts_raw = py_or u (py_or c (py_or (dict_getd chunk ''updated_at'' JNull)
                                               (dict_getd chunk ''created_at'' JNull)))
           in case parse_timestamp fromiso ts_raw of
                Inl e \<Rightarrow> Inl e
              | Inr None \<Rightarrow> Inr chunk
              | Inr (Some ts) \<Rightarrow>
                  (let age_days = max 0 ((now - ts) / 86400) in
                   if decay_days = 0 then Inl ZeroDivisionError
                   else
                     (let boost = exp (- age_days / real_of_int decay_days) in
                      case json_number (dict_getd chunk ''score'' (JFloat 0)) of
                        Inl e \<Rightarrow> Inl e
                      | Inr s \<Rightarrow> Inr (dict_set ''time_boost'' (JFloat boost)
                                        (dict_set ''score'' (JFloat (s * (1 + boost))) chunk)))))
      | (Inl e, _) \<Rightarrow> Inl e
      | (_, Inl e) \<Rightarrow> Inl e)"

fun apply_time_decay ::
  "(string \<Rightarrow> real option) \<Rightarrow> real \<Rightarrow> int \<Rightarrow> json_obj list \<Rightarrow> exn + json_obj list" where
  "apply_time_decay fromiso now decay_days [] = Inr []"
| "apply_time_decay fromiso now decay_days (chunk # chunks) =
     (case decay_chunk fromiso now decay_days chunk of
        Inl e \<Rightarrow> Inl e
      | Inr c \<Rightarrow> map_sum id (\<lambda>cs. c # cs) (apply_time_decay fromiso now decay_days chunks))"

subsection \<open>Confidence\<close>

record confidence_score =
  cs_value :: real
  cs_factors :: "(string, real) dict"
  cs_action :: string

definition is_confident :: "confidence_score \<Rightarrow> bool" where
  "is_confident c \<longleftrightarrow> cs_value c \<ge> 6/10"

definition needs_review :: "confidence_score \<Rightarrow> bool" where
  "needs_review c \<longleftrightarrow> cs_value c < 5/10"

definition compute_confidence :: "real list \<Rightarrow> real \<Rightarrow> int \<Rightarrow> real \<Rightarrow> confidence_score" where
  "compute_confidence score_distribution coverage_ratio result_count recency_decay =
     (if score_distribution = []
      then \<lparr>cs_value = 0,
            cs_factors = [(''score'', 0), (''coverage'', 0), (''count'', 0), (''recency'', 0)],
            cs_action = ''FALLBACK''\<rparr>
      else
        (let avg_score = sum_list score_distribution / real (length score_distribution);
             score_factor = min (avg_score / (8/10)) 1 * (4/10);
             coverage_factor = min coverage_ratio 1 * (3/10);
             count_factor = min (real_of_int result_count / 5) 1 * (2/10);
             recency_factor = recency_decay * (1/10);
             value = score_factor + coverage_factor + count_factor + recency_factor
         in \<lparr>cs_value = value,
             cs_factors = [(''score'', score_factor), (''coverage'', coverage_factor),
                           (''count'', count_factor), (''recency'', recency_factor)],
             cs_action = (if value \<ge> 6/10 then ''USE'' else if value \<ge> 4/10 then ''REWRITE''
                          else if value \<ge> 2/10 then ''EXPAND'' else ''FALLBACK'')\<rparr>))"

subsection \<open>Hybrid search\<close>

record ('s, 'v, 'p) retriever =
  client_ready :: bool
  embedder_ready :: bool
  \<comment> \<open>whether the client and the embedder exist after \<^verbatim>\<open>initialize_retrieval\<close>\<close>
  embed_env :: "'s embed_env"
  sparse_embedding :: "string \<Rightarrow> exn + 'v option"
  query_dense :: "json \<Rightarrow> condition list option \<Rightarrow> int \<Rightarrow> exn + 'p scored_point list"
  query_sparse :: "'v \<Rightarrow> condition list option \<Rightarrow> int \<Rightarrow> exn + 'p scored_point list"
  score_thresholds :: thresholds

record 's retrieval_state =
  rs_breakers :: breakers
  rs_embeddings :: "json embedding_cache"
  rs_cache :: "'s cache_manager"

abbreviation RetrievalDegradedError :: "string \<Rightarrow> exn" where
  "RetrievalDegradedError \<equiv> PyException ''RetrievalDegradedError''"

definition query_filter :: "string option \<Rightarrow> string option \<Rightarrow> condition list option \<Rightarrow> condition list option" where
  "query_filter version ns access_filter =
     (let conditions = (if truthy_str version then [FieldCondition ''version'' (MatchValue (the version))] else []);
          conditions = (if truthy_str ns
                        then conditions @ [FieldCondition ''namespace'' (MatchValue (the ns))] else conditions);
          conditions = conditions @ (case access_filter of None \<Rightarrow> [] | Some cs \<Rightarrow> cs)
      in if conditions \<noteq> [] then Some conditions else None)"

definition guarded_query ::
  "real \<times> real \<times> real \<Rightarrow> exn + 'p scored_point list \<Rightarrow> breakers \<Rightarrow> (exn + 'p scored_point list) \<times> breakers" where
  \<comment> \<open>a query through the breaker of Qdrant: an open breaker means no results\<close>
  "guarded_query clk outcome bs =
     (let (now, t1, t2) = clk;
          (b, bs) = get_breaker ''qdrant'' 5 30 2 bs;
          (r, b) = call_sync now t1 t2 (\<lambda>b. (outcome, b)) b;
          bs = dict_set ''qdrant'' b bs
      in case r of
           Inl (CircuitBreakerOpenError n) \<Rightarrow> (Inr [], bs)
         | _ \<Rightarrow> (r, bs))"

definition fuse :: "'p scored_point list \<Rightarrow> 'p scored_point list \<Rightarrow> int \<Rightarrow> exn + 'p scored_point list" where
  "fuse dense sparse top_k =
     (if sparse \<noteq> [] then map_sum id (slice_to top_k) (reciprocal_rank_fusion dense sparse 60) else Inr dense)"

definition USE_KNEE_POINT_PRUNING :: bool where
  "USE_KNEE_POINT_PRUNING = True"

definition KNEE_SENSITIVITY :: real where
  "KNEE_SENSITIVITY = 5/10"

definition postprocess :: "thresholds \<Rightarrow> 'p scored_point list \<Rightarrow> 'p scored_point list" where
  "postprocess th combined =
     (let filtered = fst (filter_results_by_score th combined)
      in if USE_KNEE_POINT_PRUNING \<and> length filtered > 5 then knee_point_pruning filtered KNEE_SENSITIVITY
         else filtered)"

definition query_both ::
  "('s, 'v, 'p) retriever \<Rightarrow> real \<times> real \<times> real \<Rightarrow> real \<times> real \<times> real \<Rightarrow> json \<Rightarrow> 'v option \<Rightarrow> condition list option
   \<Rightarrow> int \<Rightarrow> breakers \<Rightarrow> (exn + 'p scored_point list \<times> 'p scored_point list) \<times> breakers" where
  \<comment> \<open>the dense search, then the sparse one if there is a sparse vector\<close>
  "query_both R clk1 clk2 dense_vec sparse_vec q_filter top_k bs =
     (case guarded_query clk1 (query_dense R dense_vec q_filter top_k) bs of
        (Inl e, bs) \<Rightarrow> (Inl e, bs)
      | (Inr dense, bs) \<Rightarrow>
          (case sparse_vec of
             None \<Rightarrow> (Inr (dense, []), bs)
           | Some v \<Rightarrow>
               (case guarded_query clk2 (query_sparse R v q_filter top_k) bs of
                  (Inl e, bs) \<Rightarrow> (Inl e, bs)
                | (Inr sparse, bs) \<Rightarrow> (Inr (dense, sparse), bs))))"

definition hybrid_search ::
  "('s, 'v, 'p) retriever \<Rightarrow> real \<Rightarrow> real \<times> real \<times> real \<Rightarrow> real \<times> real \<times> real \<Rightarrow> string \<Rightarrow> string option \<Rightarrow> int
   \<Rightarrow> string option \<Rightarrow> condition list option \<Rightarrow> 's retrieval_state
   \<Rightarrow> (exn + 'p scored_point list) \<times> 's retrieval_state" where
  "hybrid_search R now clk1 clk2 query version top_k ns access_filter st =
     (if \<not> client_ready R then (Inl (RetrievalDegradedError ''qdrant_unavailable''), st)
      else if \<not> embedder_ready R then (Inl (RetrievalDegradedError ''no_embedder''), st)
      else
        (let q_filter = query_filter version ns access_filter;
             (rd, ec, cm) = compute_dense_embedding (embed_env R) now query (rs_embeddings st, rs_cache st);
             st = st\<lparr>rs_embeddings := ec, rs_cache := cm\<rparr>
         in case rd of
              Inl e \<Rightarrow> (Inl e, st)
            | Inr dense_vec \<Rightarrow>
                (case sparse_embedding R query of
                   Inl e \<Rightarrow> (Inl e, st)
                 | Inr sparse_vec \<Rightarrow>
                     (case query_both R clk1 clk2 dense_vec sparse_vec q_filter top_k (rs_breakers st) of
                        (Inl e, bs) \<Rightarrow> (Inl e, st\<lparr>rs_breakers := bs\<rparr>)
                      | (Inr (dense, sparse), bs) \<Rightarrow>
                          (map_sum id (postprocess (score_thresholds R)) (fuse dense sparse top_k),
                           st\<lparr>rs_breakers := bs\<rparr>)))))"

subsection \<open>Rank fusion against its formula\<close>

fun rank_sum :: "(int \<Rightarrow> real) \<Rightarrow> int \<Rightarrow> 'p scored_point list \<Rightarrow> string \<Rightarrow> real" where
  "rank_sum f r [] i = 0"
| "rank_sum f r (h # hs) i = (if sp_id h = i then f r else 0) + rank_sum f (r + 1) hs i"

abbreviation ids :: "'p scored_point list \<Rightarrow> string set" where
  "ids hs \<equiv> sp_id ` set hs"

definition fused_value :: "int \<Rightarrow> 'p scored_point list \<Rightarrow> 'p scored_point list \<Rightarrow> string \<Rightarrow> real" where
  \<comment> \<open>what the two loops add up for an id: each occurrence counts its own rank and the sentinel rank of
     the other list\<close>
  "fused_value k dense sparse i =
     rank_sum (\<lambda>r. 1 / real_of_int (k + r) + 1 / real_of_int (2 * k + max (int (length sparse)) 1)) 1 dense i +
     rank_sum (\<lambda>r. 1 / real_of_int (2 * k + max (int (length dense)) 1) + 1 / real_of_int (k + r)) 1 sparse i"

definition canonical_rrf :: "int \<Rightarrow> 'p scored_point list \<Rightarrow> 'p scored_point list \<Rightarrow> string \<Rightarrow> real" where
  \<comment> \<open>reciprocal rank fusion as it is usually defined: an absent id contributes nothing\<close>
  "canonical_rrf k dense sparse i =
     rank_sum (\<lambda>r. 1 / real_of_int (k + r)) 1 dense i + rank_sum (\<lambda>r. 1 / real_of_int (k + r)) 1 sparse i"

lemma add_ranks_spec:
  assumes "\<And>r. rank \<le> r \<Longrightarrow> f r = Inr (g r)" and "dict_ok d"
  shows "\<exists>d'. add_ranks f rank hits d = Inr d' \<and> dict_ok d' \<and> dom (map_of d') = dom (map_of d) \<union> ids hits \<and>
    (\<forall>i. dict_getd d' i 0 = dict_getd d i 0 + rank_sum g rank hits i)"
  using assms
proof (induction hits arbitrary: rank d)
  case (Cons h hs)
  let ?d = "dict_set (sp_id h) (dict_getd d (sp_id h) 0 + g rank) d"
  have f: "f rank = Inr (g rank)" using Cons.prems(1) by simp
  have "\<exists>d'. add_ranks f (rank + 1) hs ?d = Inr d' \<and> dict_ok d' \<and> dom (map_of d') = dom (map_of ?d) \<union> ids hs \<and>
      (\<forall>i. dict_getd d' i 0 = dict_getd ?d i 0 + rank_sum g (rank + 1) hs i)"
    by (rule Cons.IH) (use Cons.prems in auto)
  then obtain d' where d': "add_ranks f (rank + 1) hs ?d = Inr d'" "dict_ok d'"
      "dom (map_of d') = dom (map_of ?d) \<union> ids hs"
      "\<forall>i. dict_getd d' i 0 = dict_getd ?d i 0 + rank_sum g (rank + 1) hs i"
    by blast
  have "dom (map_of ?d) = insert (sp_id h) (dom (map_of d))" by (auto split: if_splits)
  with f d' show ?case by auto
qed simp

lemma compute_rrf_ok:
  "0 \<le> k \<Longrightarrow> 1 \<le> r \<Longrightarrow> 1 \<le> s \<Longrightarrow>
   compute_rrf_score r s k = Inr (1 / real_of_int (k + r) + 1 / real_of_int (k + s))"
  by (simp add: compute_rrf_score_def)

lemma by_id_get:
  "map_of (by_id hits d) i = (case find (\<lambda>h. sp_id h = i) (rev hits) of Some h \<Rightarrow> Some h | None \<Rightarrow> map_of d i)"
proof (induction hits rule: rev_induct)
  case (snoc h hs)
  then show ?case by (simp add: by_id_def)
qed (simp add: by_id_def)

lemma find_id_cases:
  "case find (\<lambda>h. sp_id h = i) (rev hits) of
     Some h \<Rightarrow> sp_id h = i \<and> h \<in> set hits | None \<Rightarrow> i \<notin> ids hits"
  by (auto simp: find_None_iff dest: find_SomeD split: option.splits)

lemma map_filter_total:
  assumes "\<And>x. x \<in> set xs \<Longrightarrow> f x = Some (g x)"
  shows "List.map_filter f xs = map g xs"
  using assms by (induction xs) (simp_all add: List.map_filter_simps)

lemma rrf_scores:
  assumes "0 \<le> k"
  shows "\<exists>scores. dict_ok scores \<and> dom (map_of scores) = ids dense \<union> ids sparse \<and>
    (\<forall>i. dict_getd scores i 0 = fused_value k dense sparse i) \<and>
    reciprocal_rank_fusion dense sparse k =
      Inr (List.map_filter (dict_get (by_id sparse (by_id dense [])))
        (sort_key (\<lambda>i. - dict_getd scores i 0) (dict_keys scores)))"
proof -
  let ?ss = "k + max (int (length sparse)) 1" and ?ds = "k + max (int (length dense)) 1"
  have "\<exists>d'. add_ranks (\<lambda>rank. compute_rrf_score rank ?ss k) 1 dense [] = Inr d' \<and> dict_ok d' \<and>
      dom (map_of d') = dom (map_of ([] :: (string, real) dict)) \<union> ids dense \<and>
      (\<forall>i. dict_getd d' i 0 = dict_getd [] i 0 +
        rank_sum (\<lambda>r. 1 / real_of_int (k + r) + 1 / real_of_int (k + ?ss)) 1 dense i)"
    by (rule add_ranks_spec, rule compute_rrf_ok) (use assms in auto)
  then obtain d1 where d1: "add_ranks (\<lambda>rank. compute_rrf_score rank ?ss k) 1 dense [] = Inr d1" "dict_ok d1"
      "dom (map_of d1) = ids dense"
      "\<forall>i. dict_getd d1 i 0 = rank_sum (\<lambda>r. 1 / real_of_int (k + r) + 1 / real_of_int (k + ?ss)) 1 dense i"
    by (auto simp: dict_getd_def)
  have "\<exists>d'. add_ranks (\<lambda>rank. compute_rrf_score ?ds rank k) 1 sparse d1 = Inr d' \<and> dict_ok d' \<and>
      dom (map_of d') = dom (map_of d1) \<union> ids sparse \<and>
      (\<forall>i. dict_getd d' i 0 = dict_getd d1 i 0 +
        rank_sum (\<lambda>r. 1 / real_of_int (k + ?ds) + 1 / real_of_int (k + r)) 1 sparse i)"
    by (rule add_ranks_spec, rule compute_rrf_ok) (use assms d1(2) in auto)
  then obtain d2 where d2: "add_ranks (\<lambda>rank. compute_rrf_score ?ds rank k) 1 sparse d1 = Inr d2" "dict_ok d2"
      "dom (map_of d2) = ids dense \<union> ids sparse"
      "\<forall>i. dict_getd d2 i 0 =
         dict_getd d1 i 0 + rank_sum (\<lambda>r. 1 / real_of_int (k + ?ds) + 1 / real_of_int (k + r)) 1 sparse i"
    using d1(3) by auto
  have sums: "k + ?ss = 2 * k + max (int (length sparse)) 1" "k + ?ds = 2 * k + max (int (length dense)) 1" by simp_all
  have "\<forall>i. dict_getd d2 i 0 = fused_value k dense sparse i"
    using d1(4) d2(4) unfolding fused_value_def sums by simp
  moreover have "reciprocal_rank_fusion dense sparse k =
      Inr (List.map_filter (dict_get (by_id sparse (by_id dense [])))
        (sort_key (\<lambda>i. - dict_getd d2 i 0) (dict_keys d2)))"
    using d1(1) d2(1) by (simp add: reciprocal_rank_fusion_def Let_def)
  ultimately show ?thesis using d2(2,3) by blast
qed

subsection \<open>Properties of the fusion\<close>

text \<open>
  C37. Rank fusion returns every id of the two lists once, ordered by the sum that the two loops compute
  for it, greatest first; the object returned for an id is taken from the sparse list
  whenever that list has it.
\<close>

theorem rrf_fusion_correct:
  assumes "0 \<le> k"
  shows "\<exists>out. reciprocal_rank_fusion dense sparse k = Inr out \<and>
    distinct (map sp_id out) \<and> ids out = ids dense \<union> ids sparse \<and>
    sorted_wrt (\<lambda>a b. fused_value k dense sparse (sp_id a) \<ge> fused_value k dense sparse (sp_id b)) out \<and>
    (\<forall>h \<in> set out. h \<in> set (if sp_id h \<in> ids sparse then sparse else dense))"
proof -
  obtain scores where ok: "dict_ok scores" and dom: "dom (map_of scores) = ids dense \<union> ids sparse"
    and val: "\<And>i. dict_getd scores i 0 = fused_value k dense sparse i"
    and eq: "reciprocal_rank_fusion dense sparse k =
      Inr (List.map_filter (dict_get (by_id sparse (by_id dense [])))
        (sort_key (\<lambda>i. - dict_getd scores i 0) (dict_keys scores)))"
    using rrf_scores [OF assms] by blast
  define order where "order = sort_key (\<lambda>i. - fused_value k dense sparse i) (dict_keys scores)"
  define pick where "pick i = the (map_of (by_id sparse (by_id dense [])) i)" for i
  have set: "set order = ids dense \<union> ids sparse" using dom by (simp add: order_def)
  have pick: "map_of (by_id sparse (by_id dense [])) i = Some (pick i) \<and> sp_id (pick i) = i \<and>
      pick i \<in> set (if i \<in> ids sparse then sparse else dense)" if "i \<in> set order" for i
    using that set find_id_cases [of i sparse] find_id_cases [of i dense]
    by (auto simp: pick_def by_id_get split: option.splits)
  then have out: "reciprocal_rank_fusion dense sparse k = Inr (map pick order)"
    unfolding eq val order_def [symmetric] by (simp add: map_filter_total)
  have ids: "map sp_id (map pick order) = order" using pick by (simp add: map_idI)
  have "sorted_wrt (\<lambda>a b. fused_value k dense sparse a \<ge> fused_value k dense sparse b) order"
    using sorted_sort_key [of "\<lambda>i. - fused_value k dense sparse i" "dict_keys scores"]
    by (simp add: order_def sorted_map)
  then have "sorted_wrt (\<lambda>a b. fused_value k dense sparse (sp_id a) \<ge> fused_value k dense sparse (sp_id b)) (map pick order)"
    using pick by (simp add: sorted_wrt_map) (metis (no_types, lifting) sorted_wrt_mono_rel)
  moreover have "distinct order" using ok by (simp add: order_def dict_keys_def dict_ok_def)
  moreover have "ids (map pick order) = ids dense \<union> ids sparse"
    using ids set by (metis list.set_map)
  moreover have "\<forall>h \<in> set (map pick order). h \<in> set (if sp_id h \<in> ids sparse then sparse else dense)"
    using pick by auto
  ultimately show ?thesis using out ids by metis
qed

definition point :: "string \<Rightarrow> real \<Rightarrow> unit scored_point" where
  "point i s = \<lparr>sp_id = i, score = s, sp_payload = ()\<rparr>"

theorem rrf_fusion_correct_witness:
  "\<exists>out. reciprocal_rank_fusion [point ''a'' (9/10), point ''b'' (5/10)] [point ''b'' (3/10)] 60 = Inr out \<and>
    ids out = {''a'', ''b''}"
  using rrf_fusion_correct [of 60 "[point ''a'' (9/10), point ''b'' (5/10)]" "[point ''b'' (3/10)]"]
  by (auto simp: point_def)

lemma rank_sum_absent: "i \<notin> ids hs \<Longrightarrow> rank_sum f r hs i = 0"
  by (induction hs arbitrary: r) auto

lemma rank_sum_nth:
  assumes "distinct (map sp_id hs)" and "n < length hs"
  shows "rank_sum f r hs (sp_id (hs ! n)) = f (r + int n)"
  using assms
proof (induction hs arbitrary: r n)
  case (Cons h hs)
  show ?case
  proof (cases n)
    case 0
    then show ?thesis using Cons.prems by (simp add: rank_sum_absent)
  next
    case (Suc m)
    with Cons.prems have "sp_id h \<noteq> sp_id (hs ! m)" by (auto simp: image_iff dest: nth_mem)
    with Suc Cons.prems Cons.IH [of m "r + 1"] show ?thesis by (simp add: ac_simps)
  qed
qed simp

text \<open>
  The sentinel rank does change the order. The documentation says that the list in which a hit is
  absent contributes next to nothing and never meaningfully shifts the ordering; but it is the shorter
  list that has the better sentinel. When keyword search has a single hit and dense search
  fills its 50 places with others, the best keyword hit falls behind the first eleven dense hits,
  where reciprocal rank fusion would put it level with the first and ahead of the rest.
\<close>

theorem sentinel_demotes_keyword_hit:
  assumes "distinct (map sp_id dense)" and "50 \<le> length dense" and "sp_id s \<notin> ids dense"
    and "1 \<le> j" and "j \<le> 10"
  shows "fused_value 60 dense [s] (sp_id s) < fused_value 60 dense [s] (sp_id (dense ! j)) \<and>
    canonical_rrf 60 dense [s] (sp_id (dense ! j)) < canonical_rrf 60 dense [s] (sp_id s)"
proof -
  have j: "j < length dense" using assms by simp
  then have other: "sp_id s \<noteq> sp_id (dense ! j)" using assms(3) by (metis image_eqI nth_mem)
  let ?n = "real (length dense)"
  have n: "max (int (length dense)) 1 = int (length dense)" using assms(2) by simp
  have "fused_value 60 dense [s] (sp_id s) = 1 / (120 + ?n) + 1/61"
    using assms(3) by (simp add: fused_value_def rank_sum_absent n)
  moreover have "fused_value 60 dense [s] (sp_id (dense ! j)) = 1 / (61 + real j) + 1/121"
    using other by (simp add: fused_value_def rank_sum_nth [OF assms(1) j])
  moreover have "1 / (120 + ?n) \<le> 1 / 170" using assms(2) by (simp add: field_simps)
  moreover have "1 / 71 \<le> 1 / (61 + real j)" using assms(5) by (simp add: field_simps)
  ultimately have "fused_value 60 dense [s] (sp_id s) < fused_value 60 dense [s] (sp_id (dense ! j))" by linarith
  moreover have "canonical_rrf 60 dense [s] (sp_id s) = 1/61"
    using assms(3) by (simp add: canonical_rrf_def rank_sum_absent)
  moreover have "canonical_rrf 60 dense [s] (sp_id (dense ! j)) = 1 / (61 + real j)"
    using other by (simp add: canonical_rrf_def rank_sum_nth [OF assms(1) j])
  moreover have "1 / (61 + real j) < 1/61" using assms(4) by (simp add: field_simps)
  ultimately show ?thesis by presburger
qed

definition filler :: "nat \<Rightarrow> unit scored_point" where
  "filler i = point (nat_str i) (1/2)"

theorem sentinel_demotes_keyword_hit_witness:
  "fused_value 60 (map filler [0..<50]) [point ''kw'' 7] ''kw'' < fused_value 60 (map filler [0..<50]) [point ''kw'' 7] ''10''"
proof -
  have "inj (\<lambda>i. sp_id (filler i))"
  proof (rule injI)
    fix i j assume "sp_id (filler i) = sp_id (filler j)"
    then have "py_int (nat_str i) = py_int (nat_str j)" by (simp add: filler_def point_def)
    then show "i = j" by simp
  qed
  then have d: "distinct (map sp_id (map filler [0..<50]))"
    by (simp add: distinct_map comp_def inj_on_def inj_def)
  have "py_int ''kw'' = None" by code_simp
  then have "sp_id (point ''kw'' 7) \<notin> ids (map filler [0..<50])"
    by (auto simp: filler_def point_def dest: arg_cong [where f = py_int])
  with d have "fused_value 60 (map filler [0..<50]) [point ''kw'' 7] (sp_id (point ''kw'' 7)) <
      fused_value 60 (map filler [0..<50]) [point ''kw'' 7] (sp_id (map filler [0..<50] ! 10))"
    using sentinel_demotes_keyword_hit [of "map filler [0..<50]" "point ''kw'' 7" 10] by simp
  moreover have "sp_id (map filler [0..<50] ! 10) = ''10''" by code_simp
  ultimately show ?thesis by (simp add: point_def)
qed

subsection \<open>The knee of the score curve\<close>

lemma argmax_from_scale:
  "0 < c \<Longrightarrow> argmax_from (best * c) k i (map (\<lambda>x. x * c) xs) = argmax_from best k i xs"
  by (induction xs arbitrary: best k i) auto

lemma argmax_scale: "0 < c \<Longrightarrow> argmax (map (\<lambda>x. x * c) xs) = argmax xs"
  by (cases xs) (simp_all add: argmax_from_scale)

lemma length_normalized [simp]: "length (normalized scores) = length scores"
  by (simp add: normalized_def Let_def)

lemma normalized_nth:
  "i < length scores \<Longrightarrow> normalized scores ! i =
     (real i / real (length scores - 1), (scores ! i - Min (set scores)) / (Max (set scores) - Min (set scores)))"
  by (simp add: normalized_def Let_def)

lemma normalized_ends:
  assumes "2 < length scores"
  shows "hd (normalized scores) = (0, (hd scores - Min (set scores)) / (Max (set scores) - Min (set scores)))"
    and "last (normalized scores) = (1, (last scores - Min (set scores)) / (Max (set scores) - Min (set scores)))"
proof -
  have ne: "scores \<noteq> []" "normalized scores \<noteq> []" using assms by (auto simp: normalized_def Let_def)
  show "hd (normalized scores) = (0, (hd scores - Min (set scores)) / (Max (set scores) - Min (set scores)))"
    using assms ne by (simp add: hd_conv_nth normalized_nth)
  show "last (normalized scores) = (1, (last scores - Min (set scores)) / (Max (set scores) - Min (set scores)))"
    using assms ne by (simp add: last_conv_nth normalized_nth)
qed

lemma line_not_degenerate:
  assumes "2 < length scores"
  shows "norm2 (fst (last (normalized scores)) - fst (hd (normalized scores)), y) \<noteq> 0"
proof -
  have "0 < 1 + y * y" by (simp add: add_pos_nonneg)
  then show ?thesis using assms by (simp add: normalized_ends norm2_def)
qed

definition curve_distances :: "real list \<Rightarrow> real list" where
  \<comment> \<open>the list \<^verbatim>\<open>distances\<close> before it is scaled\<close>
  "curve_distances scores =
     (let points = normalized scores; p1 = hd points; p2 = last points;
          v = (fst p2 - fst p1, snd p2 - snd p1)
      in map (line_distance p1 (fst v / norm2 v, snd v / norm2 v)) points)"

lemma knee_eq:
  assumes "2 < length results" and "Max (score ` set results) \<noteq> Min (score ` set results)"
  shows "knee_point_pruning results s =
    take (max (argmax (map (\<lambda>d. d * (1 + s)) (curve_distances (map score results)))) 1 + 1) results"
  using assms line_not_degenerate [of "map score results"]
  by (simp add: knee_point_pruning_def curve_distances_def Let_def)

text \<open>
  The sensitivity has no influence. It is documented as the degree of pruning, from 0 that keeps
  everything to 1 for the standard knee; but it multiplies every distance by the same factor and so
  never moves the largest one. Only when all scores are equal does it matter.
\<close>

theorem knee_ignores_sensitivity:
  assumes "Max (score ` set results) \<noteq> Min (score ` set results)" and "- 1 < s" and "- 1 < s'"
  shows "knee_point_pruning results s = knee_point_pruning results s'"
proof (cases "2 < length results")
  case True
  then show ?thesis using assms by (simp add: knee_eq argmax_scale)
qed (simp add: knee_point_pruning_def)

theorem knee_ignores_sensitivity_witness:
  "knee_point_pruning [point ''a'' 9, point ''b'' 8, point ''c'' 1, point ''d'' 0] 0 =
   knee_point_pruning [point ''a'' 9, point ''b'' 8, point ''c'' 1, point ''d'' 0] 1"
  by (rule knee_ignores_sensitivity) (simp_all add: point_def)

lemma distance_from_diagonal:
  "line_distance (0, 1) (1 / sqrt 2, - 1 / sqrt 2) (x, y) = \<bar>x + y - 1\<bar> / sqrt 2"
proof -
  let ?w = "x + y - 1" and ?p = "x * (1 / sqrt 2) + (y - 1) * (- 1 / sqrt 2)"
  have "?p * (1 / sqrt 2) = (x - y + 1) * ((1 / sqrt 2) * (1 / sqrt 2))" by (simp add: algebra_simps diff_divide_distrib)
  also have "(1 / sqrt 2) * (1 / sqrt 2) = (1/2 :: real)" by simp
  finally have p: "?p * (1 / sqrt 2) = (x - y + 1) / 2" "?p * (- 1 / sqrt 2) = - ((x - y + 1) / 2)" by simp_all
  have "line_distance (0, 1) (1 / sqrt 2, - 1 / sqrt 2) (x, y) = norm2 (?w / 2, ?w / 2)"
    unfolding line_distance_def Let_def fst_conv snd_conv p diff_0_right by (simp add: field_simps)
  also have "\<dots> = sqrt (?w ^ 2 / 2)" by (simp add: norm2_def power2_eq_square field_simps)
  also have "\<dots> = \<bar>?w\<bar> / sqrt 2" by (simp add: real_sqrt_divide)
  finally show ?thesis .
qed

lemma descending_ends:
  assumes "sorted_wrt (\<ge>) scores" and "scores \<noteq> []"
  shows "Max (set scores) = hd scores" and "Min (set scores) = (last scores :: real)"
proof -
  from assms have "\<forall>x \<in> set scores. x \<le> hd scores" by (cases scores) auto
  then show "Max (set scores) = hd scores" using assms(2) by (intro Max_eqI) auto
  have "\<forall>x \<in> set scores. last scores \<le> x"
    using assms(1) by (induction scores) (auto simp: last_in_set)
  then show "Min (set scores) = last scores" using assms(2) by (intro Min_eqI) auto
qed

lemma descending_distances:
  assumes "2 < length scores" and "sorted_wrt (\<ge>) scores" and "hd scores \<noteq> last scores"
  shows "curve_distances scores = map (\<lambda>(x, y). \<bar>x + y - 1\<bar> * (1 / sqrt 2)) (normalized scores)"
proof -
  have ne: "scores \<noteq> []" using assms(1) by auto
  have ends: "hd (normalized scores) = (0, 1)" "last (normalized scores) = (1, 0)"
    using assms by (simp_all add: normalized_ends descending_ends [OF assms(2) ne])
  have "norm2 (1, - 1) = sqrt 2" by (simp add: norm2_def)
  then show ?thesis
    using distance_from_diagonal by (auto simp: curve_distances_def Let_def ends)
qed

text \<open>
  What the pruning computes: for results in descending order of their scores (not all equal), the
  cut is after the first point that is furthest from the straight line between the first and the last,
  that is, where the sum of the normalized rank and the normalized score differs most from 1; but
  never before the second result.
\<close>

theorem knee_reference:
  assumes "2 < length results" and "sorted_wrt (\<ge>) (map score results)"
    and "score (hd results) \<noteq> score (last results)" and "- 1 < s"
  shows "knee_point_pruning results s =
    take (max (argmax (map (\<lambda>(x, y). \<bar>x + y - 1\<bar>) (normalized (map score results)))) 1 + 1) results"
proof -
  have ne: "results \<noteq> []" "map score results \<noteq> []" using assms(1) by auto
  have diff: "Max (score ` set results) \<noteq> Min (score ` set results)"
    using descending_ends [OF assms(2) ne(2)] assms(3) ne(1) by (simp add: hd_map last_map)
  have "curve_distances (map score results) =
      map (\<lambda>d. d * (1 / sqrt 2)) (map (\<lambda>(x, y). \<bar>x + y - 1\<bar>) (normalized (map score results)))"
    using descending_distances [of "map score results"] assms ne by (simp add: hd_map last_map split_def)
  moreover have "0 < 1 + s" "0 < 1 / sqrt 2" using assms(4) by simp_all
  ultimately have "argmax (map (\<lambda>d. d * (1 + s)) (curve_distances (map score results))) =
      argmax (map (\<lambda>(x, y). \<bar>x + y - 1\<bar>) (normalized (map score results)))"
    by (simp only: argmax_scale)
  with knee_eq [OF assms(1) diff, of s] show ?thesis by (simp only:)
qed

theorem knee_reference_witness:
  "knee_point_pruning [point ''a'' 9, point ''b'' 8, point ''c'' 1, point ''d'' 0] (1/2) =
   take 2 [point ''a'' 9, point ''b'' 8, point ''c'' 1, point ''d'' 0]"
  using knee_reference [of "[point ''a'' 9, point ''b'' 8, point ''c'' 1, point ''d'' 0]" "1/2"]
  by (simp add: point_def normalized_def Let_def upt_rec)

subsection \<open>Score filter, time decay and confidence\<close>

text \<open>
  The two-level score filter: the verdict is \<^verbatim>\<open>insufficient\<close> exactly if no result reaches the
  borderline threshold, and only then is nothing returned; it is \<^verbatim>\<open>strong\<close> exactly if at least two results
  reach the strong threshold. All strong results are kept in their order, at most three others
  accompany them, and nothing below the borderline threshold is returned.
\<close>

theorem score_filter_spec:
  assumes "borderline_threshold th \<le> strong_threshold th" and "filter_results_by_score th rs = (out, q)"
  shows "(q = ''insufficient'' \<longleftrightarrow> (\<forall>r \<in> set rs. score r < borderline_threshold th)) \<and>
    (q = ''strong'' \<longleftrightarrow> 2 \<le> length (filter (\<lambda>r. strong_threshold th \<le> score r) rs)) \<and>
    (out = [] \<longleftrightarrow> q = ''insufficient'') \<and>
    filter (\<lambda>r. strong_threshold th \<le> score r) out = filter (\<lambda>r. strong_threshold th \<le> score r) rs \<and>
    (\<forall>r \<in> set out. r \<in> set rs \<and> borderline_threshold th \<le> score r) \<and>
    length (filter (\<lambda>r. score r < strong_threshold th) out) \<le> 3"
proof -
  define strong where "strong = filter (\<lambda>r. strong_threshold th \<le> score r) rs"
  define border where
    "border = filter (\<lambda>r. borderline_threshold th \<le> score r \<and> score r < strong_threshold th) rs"
  have s: "\<And>r. r \<in> set strong \<longleftrightarrow> r \<in> set rs \<and> strong_threshold th \<le> score r" by (auto simp: strong_def)
  have b: "\<And>r. r \<in> set border \<longleftrightarrow> r \<in> set rs \<and> borderline_threshold th \<le> score r \<and> score r < strong_threshold th"
    by (auto simp: border_def)
  have part: "filter (\<lambda>r. strong_threshold th \<le> score r) strong = strong"
      "filter (\<lambda>r. score r < strong_threshold th) strong = []"
      "filter (\<lambda>r. strong_threshold th \<le> score r) (take n border) = []" for n
    using b in_set_takeD [of _ n border] by (fastforce simp: strong_def filter_empty_conv)+
  have none: "strong = [] \<and> border = [] \<longleftrightarrow> (\<forall>r \<in> set rs. score r < borderline_threshold th)"
    using assms(1) by (force simp: strong_def border_def filter_empty_conv)
  have len: "length (filter (\<lambda>r. score r < strong_threshold th) (take n border)) \<le> n" for n
    by (rule order_trans [OF length_filter_le]) simp
  have out: "(out, q) = (if 2 \<le> length strong then (strong @ take 2 border, ''strong'')
      else if strong \<noteq> [] then (strong @ take 1 border, ''borderline'')
      else if border \<noteq> [] then (take 3 border, ''borderline'') else ([], ''insufficient''))"
    unfolding assms(2) [symmetric] filter_results_by_score_def Let_def MIN_STRONG_SOURCES_def
    by (cases "rs = []") (simp_all only: strong_def border_def filter.simps list.size, simp_all)
  have kept: "\<forall>r \<in> set out. r \<in> set rs \<and> borderline_threshold th \<le> score r"
    using out s b assms(1) by (fastforce split: if_splits dest: in_set_takeD)
  consider "2 \<le> length strong" | "length strong < 2" "strong \<noteq> []" | "strong = []" "border \<noteq> []"
    | "strong = []" "border = []" by linarith
  then show ?thesis
  proof cases
    case 1
    then have "strong \<noteq> []" by auto
    with 1 out kept none part len [of 2] show ?thesis by (auto simp: strong_def [symmetric])
  next
    case 2
    with out kept none part len [of 1] show ?thesis by (auto simp: strong_def [symmetric])
  next
    case 3
    with out kept none part len [of 3] show ?thesis by (auto simp: strong_def [symmetric])
  next
    case 4
    with out kept none show ?thesis by (auto simp: strong_def [symmetric])
  qed
qed

theorem score_filter_spec_witness:
  "filter_results_by_score default_score_thresholds [point ''a'' (9/10), point ''b'' (3/10), point ''c'' (1/10)] =
     ([point ''a'' (9/10), point ''b'' (3/10)], ''borderline'') \<and>
   \<not> 2 \<le> length (filter (\<lambda>r. 32/100 \<le> score r) [point ''a'' (9/10), point ''b'' (3/10), point ''c'' (1/10)])"
proof -
  have eq: "filter_results_by_score default_score_thresholds [point ''a'' (9/10), point ''b'' (3/10), point ''c'' (1/10)] =
     ([point ''a'' (9/10), point ''b'' (3/10)], ''borderline'')"
    by (simp add: filter_results_by_score_def default_score_thresholds_def MIN_STRONG_SOURCES_def point_def)
  show ?thesis using score_filter_spec [OF _ eq] eq by (simp add: default_score_thresholds_def)
qed

definition boosted_from :: "json_obj \<Rightarrow> json_obj \<Rightarrow> bool" where
  \<comment> \<open>\<open>c'\<close> is the chunk \<open>c\<close> itself, or \<open>c\<close> with its score raised by a factor between 1 and 2\<close>
  "boosted_from c c' \<longleftrightarrow> c' = c \<or>
     (\<exists>s boost. json_number (dict_getd c ''score'' (JFloat 0)) = Inr s \<and> 0 < boost \<and> boost \<le> 1 \<and>
        c' = dict_set ''time_boost'' (JFloat boost) (dict_set ''score'' (JFloat (s * (1 + boost))) c))"

lemma decay_chunk_cases:
  assumes "decay_chunk fromiso now days c = Inr c'"
  shows "c' = c \<or> (\<exists>ts s. json_number (dict_getd c ''score'' (JFloat 0)) = Inr s \<and>
    (let boost = exp (- max 0 ((now - ts) / 86400) / real_of_int days)
     in c' = dict_set ''time_boost'' (JFloat boost) (dict_set ''score'' (JFloat (s * (1 + boost))) c)))"
  using assms unfolding decay_chunk_def Let_def
  by (auto split: sum.splits option.splits if_splits)

lemma decay_chunk_boosts:
  assumes "decay_chunk fromiso now days c = Inr c'" and "0 < days"
  shows "boosted_from c c'"
  using decay_chunk_cases [OF assms(1)]
proof
  assume "\<exists>ts s. json_number (dict_getd c ''score'' (JFloat 0)) = Inr s \<and>
    (let boost = exp (- max 0 ((now - ts) / 86400) / real_of_int days)
     in c' = dict_set ''time_boost'' (JFloat boost) (dict_set ''score'' (JFloat (s * (1 + boost))) c))"
  then obtain ts s boost where "json_number (dict_getd c ''score'' (JFloat 0)) = Inr s"
      "boost = exp (- max 0 ((now - ts) / 86400) / real_of_int days)"
      "c' = dict_set ''time_boost'' (JFloat boost) (dict_set ''score'' (JFloat (s * (1 + boost))) c)"
    unfolding Let_def by blast
  moreover from this(2) have "0 < boost" "boost \<le> 1" using assms(2) by simp_all
  ultimately show ?thesis unfolding boosted_from_def by blast
qed (simp add: boosted_from_def)

text \<open>
  Time decay never lowers a score. The documentation says that older chunks are decayed; what
  happens is that the score of every chunk with a timestamp is multiplied by a factor of more than 1
  and at most 2, that a chunk without one is left alone, and that neither the number nor the order
  nor any other field of the chunks changes.
\<close>

theorem time_decay_only_boosts:
  assumes "apply_time_decay fromiso now days cs = Inr cs'" and "0 < days"
  shows "list_all2 boosted_from cs cs'"
  using assms(1)
proof (induction cs arbitrary: cs')
  case (Cons c cs)
  then obtain c1 cs1 where "decay_chunk fromiso now days c = Inr c1" "apply_time_decay fromiso now days cs = Inr cs1"
      "cs' = c1 # cs1"
    by (auto simp: map_sum_def split: sum.splits)
  with Cons.IH assms(2) decay_chunk_boosts show ?case by auto
qed simp

theorem time_decay_only_boosts_witness:
  "\<exists>c'. apply_time_decay (\<lambda>s. None) 0 180 [[(''score'', JFloat 1), (''created_at'', JInt (- 86400))]] = Inr [c'] \<and>
     boosted_from [(''score'', JFloat 1), (''created_at'', JInt (- 86400))] c'"
proof -
  obtain c' where c': "apply_time_decay (\<lambda>s. None) 0 180 [[(''score'', JFloat 1), (''created_at'', JInt (- 86400))]] = Inr [c']"
    by (simp add: decay_chunk_def dict_getd_def json_get_def py_or_def parse_timestamp_def json_number_def Let_def)
  with time_decay_only_boosts [OF c'] show ?thesis by simp
qed

text \<open>
  The confidence of the domain service stays between 0 and 1 when its inputs are in range, and the
  pipeline is told to use the results exactly when the score object calls itself confident.
\<close>

theorem confidence_in_range:
  assumes "\<forall>s \<in> set scores. 0 \<le> s" and "0 \<le> coverage" and "0 \<le> n" and "0 \<le> recency" and "recency \<le> 1"
  shows "0 \<le> cs_value (compute_confidence scores coverage n recency) \<and>
    cs_value (compute_confidence scores coverage n recency) \<le> 1 \<and>
    (cs_action (compute_confidence scores coverage n recency) = ''USE'' \<longleftrightarrow>
     is_confident (compute_confidence scores coverage n recency))"
proof (cases "scores = []")
  case False
  define avg where "avg = sum_list scores / real (length scores)"
  have "0 \<le> sum_list scores" using assms(1) by (intro sum_list_nonneg) auto
  then have "0 \<le> avg" by (simp add: avg_def)
  then obtain a b d where abd: "a = min (avg / (8/10)) 1" "b = min coverage 1" "d = min (real_of_int n / 5) 1"
      and "0 \<le> a" "0 \<le> b" "0 \<le> d" "a \<le> 1" "b \<le> 1" "d \<le> 1"
    using assms by simp
  moreover have "cs_value (compute_confidence scores coverage n recency) =
      a * (4/10) + b * (3/10) + d * (2/10) + recency * (1/10)"
    using False unfolding abd by (simp add: compute_confidence_def Let_def avg_def)
  ultimately have "0 \<le> cs_value (compute_confidence scores coverage n recency) \<and>
      cs_value (compute_confidence scores coverage n recency) \<le> 1"
    using assms(4,5) by (simp del: abd)
  moreover have "cs_action (compute_confidence scores coverage n recency) = ''USE'' \<longleftrightarrow>
      is_confident (compute_confidence scores coverage n recency)"
    using False by (simp add: compute_confidence_def Let_def is_confident_def)
  ultimately show ?thesis by blast
qed (simp add: compute_confidence_def is_confident_def)

theorem confidence_in_range_witness:
  "cs_value (compute_confidence [9/10, 7/10] 1 2 1) \<le> 1"
  using confidence_in_range [of "[9/10, 7/10]" 1 2 1] by simp

subsection \<open>Properties of the search\<close>

lemma set_knee: "set (knee_point_pruning results s) \<subseteq> set results"
  by (auto simp: knee_point_pruning_def Let_def dest: in_set_takeD set_slice_to [THEN subsetD])

lemma set_score_filter: "set (fst (filter_results_by_score th rs)) \<subseteq> set rs"
  by (auto simp: filter_results_by_score_def Let_def dest: in_set_takeD)

lemma set_postprocess: "set (postprocess th rs) \<subseteq> set rs"
proof -
  have "set (knee_point_pruning (fst (filter_results_by_score th rs)) s) \<subseteq> set rs" for s
    by (rule subset_trans [OF set_knee set_score_filter])
  then show ?thesis using set_score_filter [of th rs] by (simp add: postprocess_def Let_def)
qed

lemma in_map_filterD: "y \<in> set (List.map_filter f xs) \<Longrightarrow> \<exists>x \<in> set xs. f x = Some y"
  by (induction xs) (auto simp: List.map_filter_simps split: option.splits)

lemma by_id_in: "map_of (by_id sparse (by_id dense [])) i = Some h \<Longrightarrow> h \<in> set dense \<union> set sparse"
  by (auto simp: by_id_get split: option.splits dest: find_SomeD)

lemma set_rrf: "reciprocal_rank_fusion dense sparse k = Inr out \<Longrightarrow> set out \<subseteq> set dense \<union> set sparse"
  using by_id_in by (fastforce simp: reciprocal_rank_fusion_def Let_def split: sum.splits dest: in_map_filterD)

lemma set_fuse: "fuse dense sparse k = Inr out \<Longrightarrow> set out \<subseteq> set dense \<union> set sparse"
  using set_rrf set_slice_to
  by (fastforce simp: fuse_def map_sum_def split: if_splits sum.splits)

lemma guarded_query_cases:
  assumes "guarded_query clk outcome bs = (Inr hits, bs')"
  shows "hits = [] \<or> outcome = Inr hits"
  using assms
  by (auto simp: guarded_query_def call_sync_def Let_def split: prod.splits sum.splits exn.splits option.splits)

lemma query_both_sources:
  assumes "query_both R clk1 clk2 dv sv f k bs = (Inr (dense, sparse), bs')"
  shows "(dense = [] \<or> (\<exists>v. query_dense R v f k = Inr dense)) \<and>
    (sparse = [] \<or> (\<exists>v. query_sparse R v f k = Inr sparse))"
  using assms unfolding query_both_def
  by (auto split: prod.splits sum.splits option.splits dest!: guarded_query_cases)

lemma hybrid_search_sources:
  assumes "hybrid_search R now clk1 clk2 query version top_k ns f st = (Inr out, st')" and "h \<in> set out"
  shows "\<exists>hits. h \<in> set hits \<and>
    ((\<exists>v. query_dense R v (query_filter version ns f) top_k = Inr hits) \<or>
     (\<exists>v. query_sparse R v (query_filter version ns f) top_k = Inr hits))"
proof -
  from assms(1) obtain dv sv bs dense sparse bs' combined where
    both: "query_both R clk1 clk2 dv sv (query_filter version ns f) top_k bs = (Inr (dense, sparse), bs')"
    and combined: "fuse dense sparse top_k = Inr combined"
    and out: "out = postprocess (score_thresholds R) combined"
    unfolding hybrid_search_def Let_def map_sum_def
    by (auto split: if_splits prod.splits sum.splits)
  have "h \<in> set dense \<union> set sparse" using assms(2) out set_postprocess set_fuse [OF combined] by blast
  then have "(h \<in> set dense \<and> dense \<noteq> []) \<or> (h \<in> set sparse \<and> sparse \<noteq> [])" by auto
  with query_both_sources [OF both] show ?thesis by blast
qed

lemma query_filter_keeps:
  assumes "c \<in> set cs"
  shows "\<exists>cs'. query_filter version ns (Some cs) = Some cs' \<and> c \<in> set cs'"
proof -
  have "cs \<noteq> []" using assms by auto
  with assms show ?thesis by (simp add: query_filter_def Let_def)
qed

lemma guarded_query_fresh: "\<exists>bs. guarded_query clk (Inr hits) [] = (Inr hits, bs)"
  by (cases clk) (simp add: guarded_query_def call_sync_def get_breaker_def init_breaker_def
      check_and_enter_def read_state_def maybe_transition_def Let_def)

lemma guarded_query_open:
  assumes "dict_get bs ''qdrant'' = Some b" and "cb_state b = OPEN" and "t - opened_at b < cooldown_seconds b"
  shows "guarded_query (t, x, y) outcome bs = (Inr [], dict_set ''qdrant'' b bs)"
  using assms by (simp add: guarded_query_def call_sync_def get_breaker_def check_and_enter_def read_state_def
      maybe_transition_def Let_def)

lemma postprocess_Nil: "postprocess th [] = []"
  by (simp add: postprocess_def filter_results_by_score_def)

text \<open>
  C2. Search results stay within the caller's levels: when the filter of a user who is not an
  administrator is pushed down, every result of \<^verbatim>\<open>hybrid_search\<close>, whichever of the two searches found
  it and whatever fusion, score filter and pruning did, has an access level that the user's roles
  allow. (Assumed of Qdrant: a point returned for a \<^verbatim>\<open>must\<close> filter satisfies all its conditions, and a
  match-any condition on a keyword field needs one of the listed values there.)
\<close>

theorem hybrid_search_confined:
  fixes R :: "('s, 'v, acl) retriever"
  assumes must_dense: "\<And>v cs k hits h c. query_dense R v (Some cs) k = Inr hits \<Longrightarrow> h \<in> set hits \<Longrightarrow>
      c \<in> set cs \<Longrightarrow> satisfies c (sp_payload h)"
    and must_sparse: "\<And>v cs k hits h c. query_sparse R v (Some cs) k = Inr hits \<Longrightarrow> h \<in> set hits \<Longrightarrow>
      c \<in> set cs \<Longrightarrow> satisfies c (sp_payload h)"
    and match_any: "\<And>vs p. satisfies (FieldCondition ''access_level'' (MatchAny vs)) p \<Longrightarrow>
      \<exists>l \<in> set vs. acl_level p = Some l"
    and "\<not> is_admin u"
    and search: "hybrid_search R now clk1 clk2 query version top_k ns (build_access_filter u) st = (Inr out, st')"
    and "h \<in> set out"
  shows "\<exists>l \<in> set (role_allowed_levels u). acl_level (sp_payload h) = Some l"
proof -
  define c where "c = FieldCondition ''access_level'' (MatchAny (role_allowed_levels u))"
  obtain cs where cs: "build_access_filter u = Some cs" "c \<in> set cs"
    using assms(4) by (auto simp: build_access_filter_def Let_def c_def)
  then obtain cs' where f: "query_filter version ns (build_access_filter u) = Some cs'" "c \<in> set cs'"
    using query_filter_keeps by metis
  obtain hits where "h \<in> set hits" and
    "(\<exists>v. query_dense R v (Some cs') top_k = Inr hits) \<or> (\<exists>v. query_sparse R v (Some cs') top_k = Inr hits)"
    using hybrid_search_sources [OF search assms(6)] f(1) by auto
  then have "satisfies c (sp_payload h)" using f(2) must_dense must_sparse by blast
  then show ?thesis using match_any unfolding c_def by blast
qed

definition level_holds :: "condition \<Rightarrow> acl \<Rightarrow> bool" where
  \<comment> \<open>a reading of conditions for the witness\<close>
  "level_holds c p = (case c of
     FieldCondition key (MatchAny vs) \<Rightarrow> (if key = ''access_level'' then \<exists>l \<in> set vs. acl_level p = Some l else True)
   | FieldCondition key (MatchValue v) \<Rightarrow> True)"

definition sample_points :: "acl scored_point list" where
  "sample_points =
     [\<lparr>sp_id = ''1'', score = 9/10, sp_payload = no_acl\<lparr>acl_level := Some ''public''\<rparr>\<rparr>,
      \<lparr>sp_id = ''2'', score = 8/10, sp_payload = no_acl\<lparr>acl_level := Some ''restricted''\<rparr>\<rparr>]"

definition sample_retriever :: "(store, unit, acl) retriever" where
  "sample_retriever =
     \<lparr>client_ready = True, embedder_ready = True, embed_env = sample_embed_env, sparse_embedding = (\<lambda>q. Inr None),
      query_dense = (\<lambda>v f k. Inr (filter (\<lambda>h. case f of None \<Rightarrow> True
                        | Some cs \<Rightarrow> list_all (\<lambda>c. level_holds c (sp_payload h)) cs) sample_points)),
      query_sparse = (\<lambda>v f k. Inr []), score_thresholds = default_score_thresholds\<rparr>"

definition sample_state :: "store retrieval_state" where
  "sample_state = \<lparr>rs_breakers = [], rs_embeddings = init_embedding_cache 1000 (95/100),
     rs_cache = init_cache_manager ''rag:'' []\<rparr>"

theorem hybrid_search_confined_witness:
  "\<exists>out st'. hybrid_search sample_retriever 0 (0, 0, 0) (0, 0, 0) ''vpn'' None 50 None (build_access_filter anonymous) sample_state
       = (Inr out, st') \<and>
     (\<forall>h \<in> set out. \<exists>l \<in> set (role_allowed_levels anonymous). acl_level (sp_payload h) = Some l)"
proof -
  obtain ec cm where "compute_dense_embedding (embed_env sample_retriever) 0 ''vpn''
      (rs_embeddings sample_state, rs_cache sample_state) = (Inr (JList [JFloat 1]), ec, cm)"
    by (simp add: compute_dense_embedding_def sample_retriever_def sample_embed_env_def sample_state_def ec_get_def
        init_embedding_cache_def cache_get_def memory_backend_def get_value_def init_cache_manager_def)
  moreover obtain hits where d: "query_dense sample_retriever (JList [JFloat 1])
      (query_filter None None (build_access_filter anonymous)) 50 = Inr hits"
    by (simp add: sample_retriever_def)
  moreover obtain bs where "guarded_query (0, 0, 0) (Inr hits) (rs_breakers sample_state) = (Inr hits, bs)"
    using guarded_query_fresh [of "(0, 0, 0)" hits] by (auto simp: sample_state_def)
  moreover have "client_ready sample_retriever" "embedder_ready sample_retriever"
      "sparse_embedding sample_retriever q = Inr None" for q
    by (simp_all add: sample_retriever_def)
  ultimately obtain out st' where r: "hybrid_search sample_retriever 0 (0, 0, 0) (0, 0, 0) ''vpn'' None 50 None
      (build_access_filter anonymous) sample_state = (Inr out, st')"
    by (simp add: hybrid_search_def query_both_def fuse_def Let_def split: prod.splits)
  have "\<exists>l \<in> set (role_allowed_levels anonymous). acl_level (sp_payload h) = Some l" if "h \<in> set out" for h
  proof (rule hybrid_search_confined [OF _ _ _ _ r that, where satisfies = level_holds])
    show "\<not> is_admin anonymous" by (simp add: is_admin_def anonymous_def)
    show "\<exists>l \<in> set vs. acl_level p = Some l" if "level_holds (FieldCondition ''access_level'' (MatchAny vs)) p" for vs p
      using that by (simp add: level_holds_def)
    show "level_holds c (sp_payload h)"
      if "query_dense sample_retriever v (Some cs) k = Inr hits" "h \<in> set hits" "c \<in> set cs" for v cs k hits h c
      using that by (auto simp: sample_retriever_def list_all_iff)
    show "level_holds c (sp_payload h)"
      if "query_sparse sample_retriever v (Some cs) k = Inr hits" "h \<in> set hits" "c \<in> set cs" for v cs k hits h c
      using that by (simp add: sample_retriever_def)
  qed
  with r show ?thesis by blast
qed

text \<open>
  An open breaker degrades the search to no results: while the breaker of Qdrant cools down,
  \<^verbatim>\<open>hybrid_search\<close> returns the empty list, whatever Qdrant would have answered, and leaves the breaker as
  it is.
\<close>

theorem hybrid_search_open_breaker:
  assumes "client_ready R" and "embedder_ready R"
    and "fst (compute_dense_embedding (embed_env R) now query (rs_embeddings st, rs_cache st)) = Inr vec"
    and "sparse_embedding R query = Inr sv"
    and "dict_get (rs_breakers st) ''qdrant'' = Some b" and "cb_state b = OPEN"
    and "t1 - opened_at b < cooldown_seconds b" and "t2 - opened_at b < cooldown_seconds b"
  shows "\<exists>st'. hybrid_search R now (t1, f1, g1) (t2, f2, g2) query version top_k ns f st = (Inr [], st') \<and>
    dict_get (rs_breakers st') ''qdrant'' = Some b"
proof -
  obtain ec cm where "compute_dense_embedding (embed_env R) now query (rs_embeddings st, rs_cache st) = (Inr vec, ec, cm)"
    using assms(3) by (metis prod.collapse)
  with assms show ?thesis
    by (simp add: guarded_query_open postprocess_Nil hybrid_search_def query_both_def fuse_def Let_def split: option.splits)
qed

theorem hybrid_search_open_breaker_witness:
  "\<exists>st'. hybrid_search (sample_retriever\<lparr>embed_env := sample_embed_env\<lparr>cache_of := None\<rparr>\<rparr>) 0 (1, 1, 1) (1, 1, 1) ''vpn'' None 50 None None
     (sample_state\<lparr>rs_breakers := [(''qdrant'', (init_breaker ''qdrant'' 5 30 2)\<lparr>cb_state := OPEN\<rparr>)]\<rparr>) = (Inr [], st')"
  using hybrid_search_open_breaker [of "sample_retriever\<lparr>embed_env := sample_embed_env\<lparr>cache_of := None\<rparr>\<rparr>" 0 "''vpn''"
      "sample_state\<lparr>rs_breakers := [(''qdrant'', (init_breaker ''qdrant'' 5 30 2)\<lparr>cb_state := OPEN\<rparr>)]\<rparr>"
      "JList [JFloat 1]" None "(init_breaker ''qdrant'' 5 30 2)\<lparr>cb_state := OPEN\<rparr>" 1 1 1 1 1 1 None 50 None None]
  by (simp add: sample_retriever_def sample_embed_env_def sample_state_def compute_dense_embedding_def ec_get_def
      init_embedding_cache_def init_breaker_def) blast

end
