(* ===== verification/Graph_Search.thy ===== *)
theory Graph_Search
  imports Embedding_Cache "HOL-Library.Product_Lexorder" "HOL-Library.List_Lexorder"
begin

text \<open>
  The graph side of \<^verbatim>\<open>proxy/app/core/retrieval.py\<close>: the breadth-first exploration of an entity graph
  (\<^verbatim>\<open>MultiHopGraphExplorer\<close>) and the search over community summaries through an inverted index
  (\<^verbatim>\<open>GlobalSearch\<close>). The work list of the exploration is shown to shrink in a measure that weighs an
  entry by the size of the tree that can still grow from it. Python does not fix the order in which a set is
  enumerated: the enumeration is a parameter.
\<close>

subsection \<open>Multi-hop exploration\<close>

record explorer =
  max_hops :: int
  max_results_per_hop :: int
  cycle_detection :: bool

definition default_explorer :: explorer where
  "default_explorer = \<lparr>max_hops = 2, max_results_per_hop = 10, cycle_detection = True\<rparr>"

type_synonym entity_map = "(string, string list) dict"

record path_info =
  pi_path :: "string list"
  pi_score :: real
  pi_hops :: int

definition neighbors_of :: "entity_map \<Rightarrow> string \<Rightarrow> string list" where
  "neighbors_of em e = dict_getd em e []"

definition score_path :: "string list \<Rightarrow> entity_map \<Rightarrow> real" where
  "score_path path em =
     (if path = [] then 0
      else
        (let total_connectivity = sum_list (map (\<lambda>e. min (int (length (neighbors_of em e))) 10) path);
             max_possible = int (length path) * 10;
             connectivity_score = (if max_possible > 0 then real_of_int total_connectivity / real_of_int max_possible else 0);
             length_penalty = 1 / (1 + real (length path) * (1/10))
         in connectivity_score * length_penalty))"

definition branching :: "entity_map \<Rightarrow> nat" where
  \<comment> \<open>no entity has more neighbours than this\<close>
  "branching em = sum_list (map (\<lambda>(e, ns). length ns) em)"

definition work_left :: "explorer \<Rightarrow> entity_map \<Rightarrow> string \<times> string list \<times> int \<Rightarrow> nat" where
  "work_left X em entry = (case entry of (e, path, hops) \<Rightarrow> (branching em + 2) ^ nat (max_hops X - hops))"

lemma length_neighbors: "length (neighbors_of em e) \<le> branching em"
  by (induction em) (auto simp: neighbors_of_def dict_getd_def branching_def)

definition expand :: "explorer \<Rightarrow> entity_map \<Rightarrow> string \<Rightarrow> string list \<Rightarrow> int \<Rightarrow> (string \<times> string list \<times> int) list" where
  \<comment> \<open>the entries that the loop over the neighbours appends to the queue\<close>
  "expand X em current path hops =
     map (\<lambda>n. (n, path @ [n], hops + 1))
       (filter (\<lambda>n. \<not> (cycle_detection X \<and> n \<in> set path))
          (slice_to (max_results_per_hop X) (neighbors_of em current)))"

lemma work_left_expand:
  assumes "hops < max_hops X"
  shows "sum_list (map (work_left X em) (expand X em current path hops)) < work_left X em (current, path, hops)"
proof -
  let ?B = "branching em" and ?d = "nat (max_hops X - (hops + 1))"
  have d: "nat (max_hops X - hops) = Suc ?d" using assms by simp
  have "map (work_left X em) (expand X em current path hops) =
      map (\<lambda>e. (?B + 2) ^ ?d) (expand X em current path hops)"
    by (simp add: expand_def work_left_def)
  then have "sum_list (map (work_left X em) (expand X em current path hops)) =
      length (expand X em current path hops) * (?B + 2) ^ ?d"
    by (simp only: sum_list_triv of_nat_id)
  also have "length (expand X em current path hops) \<le> length (slice_to (max_results_per_hop X) (neighbors_of em current))"
    by (simp add: expand_def)
  then have "length (expand X em current path hops) \<le> ?B"
    using length_neighbors [of em current] by (simp add: slice_to_def)
  then have "length (expand X em current path hops) * (?B + 2) ^ ?d \<le> ?B * (?B + 2) ^ ?d" by (rule mult_le_mono1)
  also have "\<dots> < (?B + 2) * (?B + 2) ^ ?d" by simp
  finally show ?thesis by (simp add: work_left_def d)
qed

function bfs_explore ::
  "explorer \<Rightarrow> entity_map \<Rightarrow> (string \<times> string list \<times> int) list \<Rightarrow> string set \<Rightarrow> path_info list \<times> string set" where
  "bfs_explore X em [] visited = ([], visited)"
| "bfs_explore X em ((current, path, hops) # queue) visited =
     (if cycle_detection X \<and> current \<in> visited then bfs_explore X em queue visited
      else
        (let visited = (if cycle_detection X then insert current visited else visited) in
         if neighbors_of em current = [] then
           (let (paths, visited) = bfs_explore X em queue visited
            in (\<lparr>pi_path = path, pi_score = score_path path em, pi_hops = hops\<rparr> # paths, visited))
         else if hops \<ge> max_hops X then
           (let (paths, visited) = bfs_explore X em queue visited
            in (\<lparr>pi_path = path, pi_score = score_path path em, pi_hops = hops\<rparr> # paths, visited))
         else bfs_explore X em (queue @ expand X em current path hops) visited))"
  by pat_completeness auto

termination
proof (relation "measure (\<lambda>(X, em, queue, visited). sum_list (map (work_left X em) queue))", goal_cases)
  case (5 X em current path hops queue visited x)
  then show ?case using work_left_expand [of hops X em current path] by simp
qed (auto simp: work_left_def)

fun explore_from ::
  "explorer \<Rightarrow> entity_map \<Rightarrow> string list \<Rightarrow> string set \<Rightarrow> path_info list" where
  "explore_from X em [] visited = []"
| "explore_from X em (entity # entities) visited =
     (let (paths, visited) = bfs_explore X em [(entity, [entity], 0)] visited
      in paths @ explore_from X em entities visited)"

definition explore :: "explorer \<Rightarrow> string list \<Rightarrow> entity_map \<Rightarrow> path_info list" where
  "explore X start_entities em =
     (if start_entities = [] \<or> em = [] then []
      else slice_to (max_results_per_hop X * 2)
             (sort_key (\<lambda>p. (- pi_score p, pi_hops p)) (explore_from X em start_entities {})))"

subsection \<open>What the exploration returns\<close>

definition is_walk :: "entity_map \<Rightarrow> string list \<Rightarrow> bool" where
  "is_walk em path \<longleftrightarrow> path \<noteq> [] \<and> successively (\<lambda>a b. b \<in> set (neighbors_of em a)) path"

definition entry_ok :: "explorer \<Rightarrow> entity_map \<Rightarrow> string set \<Rightarrow> string \<Rightarrow> string list \<Rightarrow> int \<Rightarrow> bool" where
  \<comment> \<open>what every entry of the queue satisfies\<close>
  "entry_ok X em starts current path hops \<longleftrightarrow>
     is_walk em path \<and> hd path \<in> starts \<and> last path = current \<and> hops = int (length path) - 1 \<and>
     hops \<le> max 0 (max_hops X) \<and> (cycle_detection X \<longrightarrow> distinct path)"

definition path_ok :: "explorer \<Rightarrow> entity_map \<Rightarrow> string set \<Rightarrow> path_info \<Rightarrow> bool" where
  "path_ok X em starts p \<longleftrightarrow>
     entry_ok X em starts (last (pi_path p)) (pi_path p) (pi_hops p) \<and> pi_score p = score_path (pi_path p) em"

lemma expand_ok:
  assumes "entry_ok X em starts current path hops" and "hops < max_hops X"
    and "(n, path', hops') \<in> set (expand X em current path hops)"
  shows "entry_ok X em starts n path' hops'"
proof -
  have n: "n \<in> set (neighbors_of em current)" "cycle_detection X \<longrightarrow> n \<notin> set path" "path' = path @ [n]" "hops' = hops + 1"
    using assms(3) set_slice_to by (fastforce simp: expand_def)+
  with assms(1,2) show ?thesis by (auto simp: entry_ok_def is_walk_def successively_append_iff)
qed

declare bfs_explore.simps(2) [simp del]

abbreviation visit :: "explorer \<Rightarrow> string \<Rightarrow> string set \<Rightarrow> string set" where
  "visit X current visited \<equiv> (if cycle_detection X then insert current visited else visited)"

lemma bfs_seen:
  "cycle_detection X \<Longrightarrow> current \<in> visited \<Longrightarrow>
   bfs_explore X em ((current, path, hops) # queue) visited = bfs_explore X em queue visited"
  by (simp add: bfs_explore.simps(2))

lemma bfs_leaf:
  assumes "\<not> (cycle_detection X \<and> current \<in> visited)" and "neighbors_of em current = [] \<or> hops \<ge> max_hops X"
  shows "bfs_explore X em ((current, path, hops) # queue) visited =
    (\<lparr>pi_path = path, pi_score = score_path path em, pi_hops = hops\<rparr> #
       fst (bfs_explore X em queue (visit X current visited)),
     snd (bfs_explore X em queue (visit X current visited)))"
  unfolding bfs_explore.simps(2) Let_def split_beta using assms by auto

lemma bfs_inner:
  assumes "\<not> (cycle_detection X \<and> current \<in> visited)" and "neighbors_of em current \<noteq> []" and "hops < max_hops X"
  shows "bfs_explore X em ((current, path, hops) # queue) visited =
    bfs_explore X em (queue @ expand X em current path hops) (visit X current visited)"
  unfolding bfs_explore.simps(2) Let_def using assms by auto

lemma bfs_explore_ok:
  assumes "\<forall>(current, path, hops) \<in> set queue. entry_ok X em starts current path hops"
  shows "\<forall>p \<in> set (fst (bfs_explore X em queue visited)). path_ok X em starts p"
  using assms
proof (induction X em queue visited rule: bfs_explore.induct)
  case (2 X em current path hops queue visited)
  have e: "entry_ok X em starts current path hops" using 2(5) by simp
  then have this_ok: "path_ok X em starts \<lparr>pi_path = path, pi_score = score_path path em, pi_hops = hops\<rparr>"
    by (auto simp: path_ok_def entry_ok_def)
  have rest: "\<forall>(current, path, hops) \<in> set queue. entry_ok X em starts current path hops" using 2(5) by simp
  consider (seen) "cycle_detection X \<and> current \<in> visited"
    | (leaf) "\<not> (cycle_detection X \<and> current \<in> visited)" "neighbors_of em current = [] \<or> hops \<ge> max_hops X"
    | (inner) "\<not> (cycle_detection X \<and> current \<in> visited)" "neighbors_of em current \<noteq> []" "hops < max_hops X"
    by linarith
  then show ?case
  proof cases
    case seen
    with 2(1) rest show ?thesis by (simp add: bfs_seen)
  next
    case leaf
    have "\<forall>p \<in> set (fst (bfs_explore X em queue (visit X current visited))). path_ok X em starts p"
      using leaf 2(2,3) rest by (cases "neighbors_of em current = []") auto
    with this_ok show ?thesis by (simp add: bfs_leaf [OF leaf])
  next
    case inner
    have "\<forall>(current', path', hops') \<in> set (queue @ expand X em current path hops). entry_ok X em starts current' path' hops'"
      using rest expand_ok [OF e inner(3)] by auto
    with inner 2(4) show ?thesis unfolding bfs_inner [OF inner] by simp
  qed
qed simp

lemma explore_from_ok:
  assumes "set entities \<subseteq> starts"
  shows "\<forall>p \<in> set (explore_from X em entities visited). path_ok X em starts p"
  using assms
proof (induction entities arbitrary: visited)
  case (Cons e es)
  have "\<forall>(current, path, hops) \<in> set [(e, [e], 0 :: int)]. entry_ok X em starts current path hops"
    using Cons.prems by (simp add: entry_ok_def is_walk_def)
  from bfs_explore_ok [OF this, of visited] Cons show ?case by (simp add: split_beta Let_def ball_Un)
qed simp

lemma score_path_bounds: "0 \<le> score_path path em \<and> score_path path em \<le> 1"
proof (cases "path = []")
  case False
  define total where "total = sum_list (map (\<lambda>e. min (int (length (neighbors_of em e))) 10) path)"
  define penalty where "penalty = 1 / (1 + real (length path) * (1/10))"
  have "0 \<le> total \<and> total \<le> int (length path) * 10" unfolding total_def by (induction path) auto
  then have "0 \<le> real_of_int total" "real_of_int total \<le> real (length path) * 10" by linarith+
  moreover have "0 < real (length path) * 10" using False by simp
  ultimately have "0 \<le> real_of_int total / (real (length path) * 10)" "real_of_int total / (real (length path) * 10) \<le> 1"
    by (simp_all add: divide_le_eq)
  moreover have "0 \<le> penalty" "penalty \<le> 1" by (simp_all add: penalty_def)
  moreover have "score_path path em = real_of_int total / (real (length path) * 10) * penalty"
    using False by (simp add: score_path_def Let_def total_def penalty_def)
  ultimately show ?thesis by (metis mult_le_one mult_nonneg_nonneg)
qed (simp add: score_path_def)

subsection \<open>Properties of the exploration\<close>

text \<open>
  Every path that the exploration returns is a walk in the entity map that begins at a start entity,
  has as many edges as its hop count says and no more than the configured maximum, repeats no entity
  when cycles are detected, and has a score between 0 and 1; at most twice the configured number of
  paths is returned, best score first.
\<close>

theorem explore_sound:
  assumes "0 \<le> max_results_per_hop X" and "0 \<le> max_hops X"
  shows "length (explore X starts em) \<le> 2 * nat (max_results_per_hop X) \<and>
    sorted_wrt (\<lambda>p q. pi_score p \<ge> pi_score q) (explore X starts em) \<and>
    (\<forall>p \<in> set (explore X starts em).
       is_walk em (pi_path p) \<and> hd (pi_path p) \<in> set starts \<and> int (length (pi_path p)) = pi_hops p + 1 \<and>
       pi_hops p \<le> max_hops X \<and> (cycle_detection X \<longrightarrow> distinct (pi_path p)) \<and> 0 \<le> pi_score p \<and> pi_score p \<le> 1)"
proof -
  let ?all = "explore_from X em starts {}"
  have "sorted_wrt (\<lambda>p q. pi_score p \<ge> pi_score q) (sort_key (\<lambda>p. (- pi_score p, pi_hops p)) ?all)"
    using sorted_sort_key [of "\<lambda>p. (- pi_score p, pi_hops p)" ?all]
    unfolding sorted_map by (rule sorted_wrt_mono_rel [rotated]) (auto simp: less_eq_prod_def)
  then have "sorted_wrt (\<lambda>p q. pi_score p \<ge> pi_score q) (explore X starts em)"
    by (simp add: explore_def slice_to_def sorted_wrt_take)
  moreover have "set (explore X starts em) \<subseteq> set ?all"
    using set_slice_to [of "max_results_per_hop X * 2" "sort_key (\<lambda>p. (- pi_score p, pi_hops p)) ?all"]
    by (simp add: explore_def)
  then have "\<forall>p \<in> set (explore X starts em). path_ok X em (set starts) p"
    using explore_from_ok [of starts "set starts" X em "{}"] by blast
  moreover have "length (explore X starts em) \<le> 2 * nat (max_results_per_hop X)"
    using assms(1) by (auto simp: explore_def length_slice_to nat_mult_distrib)
  ultimately show ?thesis
    using assms(2) score_path_bounds by (auto simp: path_ok_def entry_ok_def)
qed

theorem explore_sound_witness:
  "explore default_explorer [''vpn''] [(''vpn'', [''gateway'', ''user'']), (''gateway'', [''rack''])] \<noteq> [] \<and>
   length (explore default_explorer [''vpn''] [(''vpn'', [''gateway'', ''user'']), (''gateway'', [''rack''])]) \<le> 20"
proof -
  have "explore default_explorer [''vpn''] [(''vpn'', [''gateway'', ''user'']), (''gateway'', [''rack''])] \<noteq> []"
    by code_simp
  then show ?thesis
    using explore_sound [of default_explorer "[''vpn'']" "[(''vpn'', [''gateway'', ''user'']), (''gateway'', [''rack''])]"]
    by (simp add: default_explorer_def)
qed

text \<open>
  Entities that refer to each other are not found. A neighbour that is already on the path is skipped,
  and a path is recorded only at an entity without neighbours or at the depth limit; where two entities
  have only each other as neighbours, the exploration from either of them returns nothing at all.
\<close>

theorem mutual_links_lost:
  assumes "neighbors_of em a = [b]" and "neighbors_of em b = [a]" and "a \<noteq> b"
    and "2 \<le> max_hops X" and "cycle_detection X"
  shows "explore X [a] em = []"
proof -
  have a: "expand X em a [a] 0 = [] \<or> expand X em a [a] 0 = [(b, [a, b], 1)]"
    using assms by (auto simp: expand_def slice_to_def take_Cons split: nat.splits)
  have b: "expand X em b [a, b] 1 = []"
    using assms by (auto simp: expand_def slice_to_def take_Cons split: nat.splits)
  have "fst (bfs_explore X em [(a, [a], 0)] {}) = []"
    using a assms by (auto simp: bfs_inner b)
  then show ?thesis by (simp add: explore_def split_beta Let_def slice_to_def)
qed

theorem mutual_links_lost_witness:
  "explore default_explorer [''alice''] [(''alice'', [''bob'']), (''bob'', [''alice''])] = []"
  by (rule mutual_links_lost [where b = "''bob''"])
    (simp_all add: neighbors_of_def dict_getd_def default_explorer_def)

subsection \<open>Search over community summaries\<close>

record community =
  com_id :: string
  com_summary :: string
  com_entities :: "string list"
  com_members :: "string list"

record community_hit =
  community_id :: string
  hit_summary :: string
  key_entities :: "string list"
  community_score :: real
  hit_members :: "string list"

definition words_of :: "string \<Rightarrow> string list" where
  \<comment> \<open>\<^verbatim>\<open>s.lower().split()\<close>\<close>
  "words_of s = py_split (py_lower s)"

definition index_add :: "nat \<Rightarrow> (string, nat set) dict \<Rightarrow> string \<Rightarrow> (string, nat set) dict" where
  \<comment> \<open>\<^verbatim>\<open>self._word_index.setdefault(word, set()).add(i)\<close>\<close>
  "index_add i index word = dict_set word (insert i (dict_getd index word {})) index"

fun build_index :: "nat \<Rightarrow> community list \<Rightarrow> (string, nat set) dict \<Rightarrow> (string, nat set) dict" where
  "build_index i [] index = index"
| "build_index i (c # cs) index = build_index (Suc i) cs (foldl (index_add i) index (words_of (com_summary c)))"

record set_order =
  enum_words :: "string set \<Rightarrow> string list"
  enum_ids :: "nat set \<Rightarrow> nat list"

definition count_hits :: "set_order \<Rightarrow> (string, nat set) dict \<Rightarrow> string set \<Rightarrow> (nat, int) dict" where
  "count_hits O' index query_words =
     foldl (\<lambda>hits word.
              case dict_get index word of
                None \<Rightarrow> hits
              | Some ids \<Rightarrow> foldl (\<lambda>hits i. dict_set i (dict_getd hits i 0 + 1) hits) hits (enum_ids O' ids))
       [] (enum_words O' query_words)"

definition community_result :: "community list \<Rightarrow> (nat, int) dict \<Rightarrow> nat \<Rightarrow> nat \<Rightarrow> community_hit" where
  "community_result cs hits num_query_words i =
     \<lparr>community_id = com_id (cs ! i), hit_summary = com_summary (cs ! i), key_entities = com_entities (cs ! i),
      community_score = real_of_int (dict_getd hits i 0) / real num_query_words, hit_members = com_members (cs ! i)\<rparr>"

definition global_search :: "set_order \<Rightarrow> community list \<Rightarrow> string \<Rightarrow> int \<Rightarrow> community_hit list" where
  "global_search O' cs query top_k =
     (if cs = [] then []
      else
        (let query_words = set (words_of query);
             hits = count_hits O' (build_index 0 cs []) query_words
         in if hits = [] then []
            else
              (let num_query_words = max (card query_words) 1;
                   candidates = slice_to (top_k * 2) (sort_key (\<lambda>i. - dict_getd hits i 0) (dict_keys hits));
                   scored = map (community_result cs hits num_query_words) candidates
               in slice_to top_k (sort_key (\<lambda>r. - community_score r) scored))))"

fun join_with :: "string \<Rightarrow> string list \<Rightarrow> string" where
  \<comment> \<open>\<^verbatim>\<open>sep.join(xs)\<close>\<close>
  "join_with sep [] = []"
| "join_with sep [x] = x"
| "join_with sep (x # y # xs) = x @ sep @ join_with sep (y # xs)"

definition format_communities :: "community_hit list \<Rightarrow> string" where
  "format_communities results =
     join_with [CHR 0x0A, CHR 0x0A]
       (map (\<lambda>(i, r). ''[Community '' @ nat_str i @ ''] '' @ hit_summary r @ [CHR 0x0A] @
               ''Key entities: '' @ join_with '', '' (take 5 (key_entities r)))
          (enumerate 1 results))"

subsection \<open>The index against direct comparison\<close>

definition overlap :: "community list \<Rightarrow> string \<Rightarrow> nat \<Rightarrow> nat" where
  \<comment> \<open>how many words of the query occur in the summary\<close>
  "overlap cs query i = card (set (words_of query) \<inter> set (words_of (com_summary (cs ! i))))"

lemma index_add_words:
  "dict_getd (foldl (index_add i) index ws) w {} =
     (if w \<in> set ws then insert i (dict_getd index w {}) else dict_getd index w {}) \<and>
   dom (map_of (foldl (index_add i) index ws)) = dom (map_of index) \<union> set ws"
proof (induction ws arbitrary: index)
  case (Cons x ws)
  have "dict_getd (index_add i index x) w {} = (if w = x then insert i (dict_getd index w {}) else dict_getd index w {})"
      "dom (map_of (index_add i index x)) = insert x (dom (map_of index))"
    by (auto simp: index_add_def split: if_splits)
  with Cons.IH [of "index_add i index x"] show ?case by auto
qed simp

lemma build_index_spec:
  "dict_getd (build_index k cs index) w {} =
     dict_getd index w {} \<union> {k + i | i. i < length cs \<and> w \<in> set (words_of (com_summary (cs ! i)))} \<and>
   dom (map_of (build_index k cs index)) = dom (map_of index) \<union> (\<Union>c \<in> set cs. set (words_of (com_summary c)))"
proof (induction cs arbitrary: k index)
  case (Cons c cs)
  have "{k + i | i. i < length (c # cs) \<and> w \<in> set (words_of (com_summary ((c # cs) ! i)))} =
      (if w \<in> set (words_of (com_summary c)) then {k} else {}) \<union>
      {Suc k + i | i. i < length cs \<and> w \<in> set (words_of (com_summary (cs ! i)))}"
    by (auto simp: less_Suc_eq_0_disj)
  with Cons.IH [of "Suc k" "foldl (index_add k) index (words_of (com_summary c))"]
    index_add_words [of k index "words_of (com_summary c)"]
  show ?case by auto
qed simp

definition order_ok :: "set_order \<Rightarrow> bool" where
  \<comment> \<open>enumerating a set gives each of its elements once\<close>
  "order_ok O' \<longleftrightarrow> (\<forall>S. finite S \<longrightarrow> set (enum_words O' S) = S \<and> distinct (enum_words O' S)) \<and>
     (\<forall>S. finite S \<longrightarrow> set (enum_ids O' S) = S \<and> distinct (enum_ids O' S))"

lemma bump_ids:
  fixes hits :: "(nat, int) dict"
  assumes "dict_ok hits" and "distinct is"
  defines "hits' \<equiv> foldl (\<lambda>hits i. dict_set i (dict_getd hits i 0 + 1) hits) hits is"
  shows "dict_ok hits' \<and> dom (map_of hits') = dom (map_of hits) \<union> set is \<and>
    dict_getd hits' j 0 = dict_getd hits j 0 + (if j \<in> set is then 1 else 0)"
  using assms(1,2) unfolding hits'_def
proof (induction "is" arbitrary: hits)
  case (Cons i "is")
  let ?h = "dict_set i (dict_getd hits i 0 + 1) hits"
  have "dom (map_of ?h) = insert i (dom (map_of hits))" by (auto split: if_splits)
  with Cons.IH [of ?h] Cons.prems show ?case by auto
qed simp

lemma count_hits_spec:
  assumes "order_ok O'" and "finite Q" and "\<And>w. finite (dict_getd index w {})"
  shows "dict_ok (count_hits O' index Q) \<and>
    dom (map_of (count_hits O' index Q)) = (\<Union>w \<in> Q. dict_getd index w {}) \<and>
    dict_getd (count_hits O' index Q) j 0 = int (card {w \<in> Q. j \<in> dict_getd index w {}})"
proof -
  define step where "step hits word = (case dict_get index word of None \<Rightarrow> hits
      | Some ids \<Rightarrow> foldl (\<lambda>hits i. dict_set i (dict_getd hits i 0 + 1) hits) hits (enum_ids O' ids))"
    for hits :: "(nat, int) dict" and word
  have step: "dict_ok (step hits w) \<and> dom (map_of (step hits w)) = dom (map_of hits) \<union> dict_getd index w {} \<and>
      dict_getd (step hits w) j 0 = dict_getd hits j 0 + (if j \<in> dict_getd index w {} then 1 else 0)"
    if "dict_ok hits" for hits w
  proof (cases "dict_get index w")
    case None
    then show ?thesis using that by (simp add: step_def dict_getd_def)
  next
    case (Some S)
    then have S: "dict_getd index w {} = S" by (simp add: dict_getd_def)
    with assms(1) assms(3) [of w] have "set (enum_ids O' S) = S" "distinct (enum_ids O' S)" by (simp_all add: order_ok_def)
    with bump_ids [OF that, of "enum_ids O' S" j] show ?thesis unfolding S step_def Some by simp
  qed
  have run: "distinct ws \<Longrightarrow> dict_ok hits \<Longrightarrow> dict_ok (foldl step hits ws) \<and>
      dom (map_of (foldl step hits ws)) = dom (map_of hits) \<union> (\<Union>w \<in> set ws. dict_getd index w {}) \<and>
      dict_getd (foldl step hits ws) j 0 = dict_getd hits j 0 + int (card {w \<in> set ws. j \<in> dict_getd index w {}})"
    for ws hits
  proof (induction ws arbitrary: hits)
    case (Cons w ws)
    have "{x \<in> set (w # ws). j \<in> dict_getd index x {}} =
        (if j \<in> dict_getd index w {} then insert w {x \<in> set ws. j \<in> dict_getd index x {}}
         else {x \<in> set ws. j \<in> dict_getd index x {}})" by auto
    with Cons.prems have "card {x \<in> set (w # ws). j \<in> dict_getd index x {}} =
        (if j \<in> dict_getd index w {} then 1 else 0) + card {x \<in> set ws. j \<in> dict_getd index x {}}" by simp
    with Cons.IH [of "step hits w"] Cons.prems step [of hits w] show ?case by auto
  qed simp
  have "count_hits O' index Q = foldl step [] (enum_words O' Q)" by (simp add: count_hits_def step_def [abs_def])
  with run [of "enum_words O' Q" "[]"] assms(1,2) show ?thesis by (simp add: order_ok_def dict_getd_def)
qed

lemma hits_overlap:
  assumes "order_ok O'"
  shows "dict_ok (count_hits O' (build_index 0 cs []) (set (words_of q))) \<and>
    dom (map_of (count_hits O' (build_index 0 cs []) (set (words_of q)))) = {i. i < length cs \<and> 0 < overlap cs q i} \<and>
    (\<forall>i < length cs. dict_getd (count_hits O' (build_index 0 cs []) (set (words_of q))) i 0 = int (overlap cs q i))"
proof -
  have idx: "dict_getd (build_index 0 cs []) w {} = {i. i < length cs \<and> w \<in> set (words_of (com_summary (cs ! i)))}" for w
    using build_index_spec [of 0 cs "[]" w] by (simp add: dict_getd_def)
  have fin: "finite (dict_getd (build_index 0 cs []) w {})" for w unfolding idx by simp
  have card: "card {w \<in> set (words_of q). w \<in> set (words_of (com_summary (cs ! i)))} = overlap cs q i" for i
    by (simp add: overlap_def Int_def)
  have "(\<Union>w \<in> set (words_of q). dict_getd (build_index 0 cs []) w {}) = {i. i < length cs \<and> 0 < overlap cs q i}"
    unfolding idx overlap_def by (auto simp: card_gt_0_iff)
  with count_hits_spec [OF assms, of "set (words_of q)" "build_index 0 cs []", OF _ fin] show ?thesis
    by (auto simp: idx card)
qed

definition direct_result :: "community list \<Rightarrow> string \<Rightarrow> nat \<Rightarrow> community_hit" where
  \<comment> \<open>the result for a community with the score computed by comparing the texts\<close>
  "direct_result cs q i =
     \<lparr>community_id = com_id (cs ! i), hit_summary = com_summary (cs ! i), key_entities = com_entities (cs ! i),
      community_score = real (overlap cs q i) / real (max (card (set (words_of q))) 1), hit_members = com_members (cs ! i)\<rparr>"

text \<open>
  The inverted index computes what comparing the texts would: the results are communities that
  share words with the query, scored by the share of the query's words found in the summary, the best
  first; as many as asked for, or all with a common word if there are fewer; and no community that is left
  out has more words in common than one that is returned. This holds in whatever order Python
  enumerates sets.
\<close>

theorem global_search_direct:
  assumes "order_ok O'" and "0 \<le> top_k"
  shows "\<exists>is. global_search O' cs q top_k = map (direct_result cs q) is \<and> distinct is \<and>
    length is = min (nat top_k) (card {i. i < length cs \<and> 0 < overlap cs q i}) \<and>
    (\<forall>i \<in> set is. i < length cs \<and> 0 < overlap cs q i) \<and>
    sorted_wrt (\<lambda>i j. overlap cs q i \<ge> overlap cs q j) is \<and>
    (\<forall>i \<in> set is. \<forall>j < length cs. j \<notin> set is \<longrightarrow> overlap cs q j \<le> overlap cs q i)"
proof -
  define hits where "hits = count_hits O' (build_index 0 cs []) (set (words_of q))"
  define order where "order = sort_key (\<lambda>i. - dict_getd hits i 0) (dict_keys hits)"
  define k where "k = nat top_k"
  have ok: "dict_ok hits" and dom: "dom (map_of hits) = {i. i < length cs \<and> 0 < overlap cs q i}"
    and val: "\<And>i. i < length cs \<Longrightarrow> dict_getd hits i 0 = int (overlap cs q i)"
    using hits_overlap [OF assms(1), of cs q] unfolding hits_def by blast+
  have set_order: "set order = {i. i < length cs \<and> 0 < overlap cs q i}" using dom by (simp add: order_def)
  have "distinct order" using ok by (simp add: order_def dict_keys_def dict_ok_def)
  have sorted: "sorted_wrt (\<lambda>i j. overlap cs q i \<ge> overlap cs q j) order"
  proof (rule sorted_wrt_mono_rel [rotated])
    show "sorted_wrt (\<lambda>i j. - dict_getd hits i 0 \<le> - dict_getd hits j 0) order"
      using sorted_sort_key [of "\<lambda>i. - dict_getd hits i 0" "dict_keys hits"] by (simp add: order_def sorted_map)
  qed (use set_order val in auto)
  let ?res = "community_result cs hits (max (card (set (words_of q))) 1)"
  have res: "?res i = direct_result cs q i" if "i \<in> set order" for i
    using that set_order val by (simp add: community_result_def direct_result_def)
  have "sorted (map (\<lambda>r. - community_score r) (map (direct_result cs q) (take n order)))" for n
    using sorted_wrt_take [OF sorted, of n]
    by (auto simp: sorted_map sorted_wrt_map direct_result_def divide_right_mono elim!: sorted_wrt_mono_rel [rotated])
  then have id: "sort_key (\<lambda>r. - community_score r) (map (direct_result cs q) (take n order)) =
      map (direct_result cs q) (take n order)" for n
    by (simp add: sort_key_id_if_sorted)
  have search: "global_search O' cs q top_k = map (direct_result cs q) (take k order)"
  proof (cases "hits = []")
    case True
    then have "order = []" by (simp add: order_def dict_keys_def)
    with True show ?thesis by (simp add: global_search_def hits_def Let_def)
  next
    case False
    then have "cs \<noteq> []" using dom by (cases hits) auto
    have eq: "map ?res (take n order) = map (direct_result cs q) (take n order)" for n
      using res by (auto dest: in_set_takeD)
    have "global_search O' cs q top_k =
        slice_to top_k (sort_key (\<lambda>r. - community_score r) (map ?res (slice_to (top_k * 2) order)))"
      using False \<open>cs \<noteq> []\<close> by (simp add: global_search_def hits_def order_def Let_def)
    also have "slice_to (top_k * 2) order = take (2 * k) order"
      using assms(2) by (simp add: slice_to_def k_def nat_mult_distrib mult.commute)
    also have "slice_to top_k (sort_key (\<lambda>r. - community_score r) (map ?res (take (2 * k) order))) =
        take k (map (direct_result cs q) (take (2 * k) order))"
      unfolding eq id using assms(2) by (simp add: slice_to_def k_def)
    finally show ?thesis by (simp add: take_map min_def)
  qed
  have "length order = card {i. i < length cs \<and> 0 < overlap cs q i}"
    using \<open>distinct order\<close> set_order by (metis distinct_card)
  moreover have "overlap cs q j \<le> overlap cs q i"
    if "i \<in> set (take k order)" "j < length cs" "j \<notin> set (take k order)" for i j
    using that sorted_prefix_dominates [OF sorted that(1), of j] set_order by (cases "0 < overlap cs q j") auto
  ultimately show ?thesis
    using search \<open>distinct order\<close> set_order sorted_wrt_take [OF sorted, of k]
    by (intro exI [of _ "take k order"]) (auto simp: k_def min.commute dest: in_set_takeD)
qed

definition sorted_order :: set_order where
  "sorted_order = \<lparr>enum_words = sorted_list_of_set, enum_ids = sorted_list_of_set\<rparr>"

definition sample_communities :: "community list" where
  "sample_communities =
     [\<lparr>com_id = ''c1'', com_summary = ''Mail servers'', com_entities = [], com_members = []\<rparr>,
      \<lparr>com_id = ''c2'', com_summary = ''VPN and access'', com_entities = [], com_members = []\<rparr>]"

theorem global_search_direct_witness:
  "\<exists>is. global_search sorted_order sample_communities ''vpn access'' 5 = map (direct_result sample_communities ''vpn access'') is \<and>
     length is = 1"
proof -
  have "{i. i < length sample_communities \<and> 0 < overlap sample_communities ''vpn access'' i} = {1}"
  proof -
    have o: "overlap sample_communities ''vpn access'' 0 = 0" "overlap sample_communities ''vpn access'' 1 = 2" by code_simp+
    have "i = 0 \<or> i = 1" if "i < length sample_communities" for i using that by (auto simp: sample_communities_def)
    with o show ?thesis by (fastforce simp: sample_communities_def)
  qed
  moreover have "order_ok sorted_order" by (simp add: order_ok_def sorted_order_def)
  ultimately show ?thesis using global_search_direct [of sorted_order 5 sample_communities "''vpn access''"] by auto
qed

end
