(* ===== verification/Token_Budget.thy ===== *)
theory Token_Budget
  imports Embedding_Cache
begin

text \<open>
  The token economy of \<^verbatim>\<open>proxy/app/core/token_optimizer.py\<close> and the value object \<^verbatim>\<open>TokenBudget\<close> of
  \<^verbatim>\<open>proxy/app/domain/value_objects.py\<close>: cost estimates, the compression strategies, the division of a budget
  and the greedy packing of chunks. A chunk is a dictionary whose fields read here are strings.
  The regular expressions are written out as scanners over the first 256 code points; products with
  decimal fractions are exact, where Python rounds.
\<close>

subsection \<open>Texts\<close>

type_synonym chunk_dict = "(string, string) dict"

abbreviation field :: "chunk_dict \<Rightarrow> string \<Rightarrow> string" where
  "field chunk k \<equiv> dict_getd chunk k []"

definition word_char :: "char \<Rightarrow> bool" where
  \<comment> \<open>\<^verbatim>\<open>\w\<close>\<close>
  "word_char c \<longleftrightarrow> (let n = of_char c :: nat in
     48 \<le> n \<and> n \<le> 57 \<or> 65 \<le> n \<and> n \<le> 90 \<or> n = 95 \<or> 97 \<le> n \<and> n \<le> 122 \<or>
     n \<in> {170, 178, 179, 181, 185, 186, 188, 189, 190} \<or> 192 \<le> n \<and> n \<noteq> 215 \<and> n \<noteq> 247)"

fun words_from :: "string \<Rightarrow> string \<Rightarrow> string list" where
  \<comment> \<open>\<^verbatim>\<open>re.findall(r"\w+", text)\<close>, with the characters of the current word\<close>
  "words_from w [] = (if w = [] then [] else [w])"
| "words_from w (c # cs) =
     (if word_char c then words_from (w @ [c]) cs
      else if w = [] then words_from [] cs else w # words_from [] cs)"

definition find_words :: "string \<Rightarrow> string list" where
  "find_words text = words_from [] text"

fun tokens_from :: "string \<Rightarrow> string \<Rightarrow> string list" where
  "tokens_from w [] = (if w = [] then [] else [w])"
| "tokens_from w (c # cs) =
     (if word_char c then tokens_from (w @ [c]) cs
      else (if w = [] then [] else [w]) @ (if py_space c then [] else [[c]]) @ tokens_from [] cs)"

definition tokenize_words :: "string \<Rightarrow> string list" where
  \<comment> \<open>\<^verbatim>\<open>re.findall(r"\w+|[^\w\s]", text)\<close>\<close>
  "tokenize_words text = tokens_from [] text"

function sentences_from :: "string \<Rightarrow> string \<Rightarrow> string list" where
  "sentences_from s [] = [s]"
| "sentences_from s (c # cs) =
     (if py_space c \<and> s \<noteq> [] \<and> last s \<in> {CHR ''.'', CHR ''!'', CHR ''?''}
      then s # sentences_from [] (dropWhile py_space cs)
      else sentences_from (s @ [c]) cs)"
  by pat_completeness auto

termination
  by (relation "measure (\<lambda>(s, cs). length cs)") (auto simp: less_Suc_eq_le length_dropWhile_le)

definition split_sentences :: "string \<Rightarrow> string list" where
  \<comment> \<open>\<^verbatim>\<open>re.split(r"(?<=[.!?])\s+", text)\<close>\<close>
  "split_sentences text = sentences_from [] text"

definition join :: "string \<Rightarrow> string list \<Rightarrow> string" where
  \<comment> \<open>\<^verbatim>\<open>sep.join(parts)\<close>\<close>
  "join sep parts = (case parts of [] \<Rightarrow> [] | p # ps \<Rightarrow> p @ concat (map (\<lambda>q. sep @ q) ps))"

abbreviation blank_line :: string where
  "blank_line \<equiv> [CHR 0x0A, CHR 0x0A]"

subsection \<open>Cost estimates\<close>

definition count_bpe_tokens :: "string \<Rightarrow> int" where
  "count_bpe_tokens text =
     (if text = [] then 0 else max 1 \<lfloor>real (length (tokenize_words text)) * (13/10)\<rfloor>)"

definition estimate_token_cost :: "string \<Rightarrow> int" where
  "estimate_token_cost text =
     (if text = [] then 0
      else
        (let char_estimate = max 1 (int (length text) div 4);
             word_tokens = length (tokenize_words text);
             word_estimate = max 1 \<lfloor>real word_tokens * (13/10)\<rfloor>
         in max 1 \<lfloor>real_of_int char_estimate * (4/10) + real_of_int word_estimate * (6/10)\<rfloor>))"

subsection \<open>Compression strategies\<close>

fun relevance_parts :: "int \<Rightarrow> int \<Rightarrow> int \<Rightarrow> chunk_dict list \<Rightarrow> string list" where
  \<comment> \<open>the loop of \<^verbatim>\<open>_compress_relevance\<close>\<close>
  "relevance_parts budget per_chunk used [] = []"
| "relevance_parts budget per_chunk used (chunk # chunks) =
     (let text = strip (field chunk ''text'') in
      if text = [] then relevance_parts budget per_chunk used chunks
      else if used + per_chunk > budget then
        (let remaining = budget - used in if remaining > 50 then [slice_to (remaining * 4) text] else [])
      else slice_to (per_chunk * 4) text # relevance_parts budget per_chunk (used + per_chunk) chunks)"

definition compress_relevance :: "chunk_dict list \<Rightarrow> int \<Rightarrow> string" where
  "compress_relevance chunks max_tokens =
     (let per_chunk = max 50 (max_tokens div max 1 (int (length chunks)))
      in join blank_line (relevance_parts max_tokens per_chunk 0 chunks))"

definition propositions :: "chunk_dict list \<Rightarrow> string list" where
  "propositions chunks =
     concat (map (\<lambda>chunk.
       (let text = strip (field chunk ''text'')
        in if text = [] then [] else filter (\<lambda>s. length s > 20) (map strip (split_sentences text)))) chunks)"

fun pack_sentences :: "int \<Rightarrow> string \<Rightarrow> string list \<Rightarrow> string" where
  \<comment> \<open>append sentences while the estimate of the whole stays within the budget\<close>
  "pack_sentences max_tokens result [] = result"
| "pack_sentences max_tokens result (prop # props) =
     (let candidate = result @ prop @ '' '' in
      if estimate_token_cost candidate > max_tokens then result else pack_sentences max_tokens candidate props)"

definition compress_proposition :: "chunk_dict list \<Rightarrow> int \<Rightarrow> string" where
  "compress_proposition chunks max_tokens = strip (pack_sentences max_tokens [] (propositions chunks))"

fun pack_segments :: "int \<Rightarrow> int \<Rightarrow> int \<Rightarrow> string list \<Rightarrow> string list" where
  \<comment> \<open>the loops of \<^verbatim>\<open>_compress_summary\<close> and \<^verbatim>\<open>_compress_hierarchical\<close> over the segments of the non-empty
     chunks; \<open>rest\<close> is the smallest remainder that is still filled\<close>
  "pack_segments budget rest used [] = []"
| "pack_segments budget rest used (segment # segments) =
     (let cost = estimate_token_cost segment in
      if used + cost > budget then
        (let remaining = budget - used in if remaining > rest then [slice_to (remaining * 4) segment] else [])
      else segment # pack_segments budget rest (used + cost) segments)"

definition compress_summary :: "chunk_dict list \<Rightarrow> int \<Rightarrow> string" where
  "compress_summary chunks max_tokens =
     (let texts = filter (\<lambda>t. t \<noteq> []) (map (\<lambda>c. strip (field c ''text'')) chunks)
      in join blank_line (pack_segments max_tokens 20 0 (map (\<lambda>t. join '' '' (take 2 (split_sentences t))) texts)))"

definition hierarchical_segment :: "nat \<Rightarrow> string \<Rightarrow> string" where
  "hierarchical_segment i text =
     (if i < 3 then text
      else if i < 8 then join '' '' (take 3 (split_sentences text))
      else (case split_sentences text of s # ss \<Rightarrow> s | [] \<Rightarrow> take 200 text))"

definition compress_hierarchical :: "chunk_dict list \<Rightarrow> int \<Rightarrow> string" where
  "compress_hierarchical chunks max_tokens =
     (let texts = filter (\<lambda>(i, t). t \<noteq> []) (enumerate 0 (map (\<lambda>c. strip (field c ''text'')) chunks))
      in join blank_line (pack_segments max_tokens 50 0 (map (\<lambda>(i, t). hierarchical_segment i t) texts)))"

definition compress_context :: "chunk_dict list \<Rightarrow> int \<Rightarrow> string \<Rightarrow> string" where
  "compress_context chunks max_tokens strategy =
     (if chunks = [] then []
      else if strategy = ''relevance'' then compress_relevance chunks max_tokens
      else if strategy = ''proposition'' then compress_proposition chunks max_tokens
      else if strategy = ''summary'' then compress_summary chunks max_tokens
      else if strategy = ''hierarchical'' then compress_hierarchical chunks max_tokens
      else compress_relevance chunks max_tokens)"

definition keyword_overlap :: "string set \<Rightarrow> string \<Rightarrow> real" where
  "keyword_overlap query_keywords s =
     (let s_tokens = set (find_words (py_lower s))
      in if s_tokens = {} then 0 else real (card (query_keywords \<inter> s_tokens)) / real (card query_keywords))"

definition extract_chunk :: "string set \<Rightarrow> nat \<Rightarrow> string \<Rightarrow> string" where
  "extract_chunk query_keywords max_sentences text =
     (let sentences = split_sentences text in
      if length sentences \<le> max_sentences then strip text
      else join '' '' (take max_sentences (sort_key (\<lambda>s. - keyword_overlap query_keywords s) sentences)))"

definition extractive_compress :: "string list \<Rightarrow> string \<Rightarrow> nat \<Rightarrow> string" where
  "extractive_compress chunks query max_sentences =
     (let query_keywords = set (find_words (py_lower query)) in
      if chunks = [] then []
      else if query = [] \<or> query_keywords = {} then join blank_line chunks
      else join blank_line
             (map (extract_chunk query_keywords max_sentences) (filter (\<lambda>t. strip t \<noteq> []) chunks)))"

subsection \<open>Compression by word rarity\<close>

definition word_freq :: "string list \<Rightarrow> (string, nat) dict" where
  "word_freq words = foldl (\<lambda>d w. dict_set w (dict_getd d w 0 + 1) d) [] words"

definition rarity :: "string list \<Rightarrow> (string, real) dict" where
  \<comment> \<open>\<^verbatim>\<open>{w: 1.0 - (cnt / total) for w, cnt in word_freq.items()}\<close>\<close>
  "rarity words = map (\<lambda>(w, cnt). (w, 1 - real cnt / real (length words))) (word_freq words)"

definition compute_token_surprise :: "string \<Rightarrow> (string, real) dict \<Rightarrow> (string, real) dict" where
  "compute_token_surprise text vocab =
     (if text = [] \<or> vocab = [] then []
      else foldl (\<lambda>d w. dict_set w (dict_getd vocab w (5/10)) d) [] (find_words (py_lower text)))"

definition score_sentences :: "(string, real) dict \<Rightarrow> string \<Rightarrow> (string \<times> real) list" where
  \<comment> \<open>the sentences with the average weight of their words, best first\<close>
  "score_sentences weight text =
     sort_key (\<lambda>x. - snd x)
       (map (\<lambda>s.
          (let s_words = find_words (py_lower s)
           in (s, if s_words = [] then 0
                  else sum_list (map (\<lambda>w. dict_getd weight w (5/10)) s_words) / real (length s_words))))
          (filter (\<lambda>s. s \<noteq> []) (map strip (split_sentences text))))"

fun pack_partial :: "int \<Rightarrow> string \<Rightarrow> (string \<times> real) list \<Rightarrow> string" where
  "pack_partial budget result [] = result"
| "pack_partial budget result ((sentence, v) # rest) =
     (let candidate = result @ sentence @ '' '' in
      if estimate_token_cost candidate > budget then
        (let remaining_chars = budget * 4 - int (length result)
         in if remaining_chars > 20 then result @ slice_to remaining_chars sentence else result)
      else pack_partial budget (result @ sentence @ '' '') rest)"

definition compress_by_perplexity :: "string \<Rightarrow> int \<Rightarrow> string" where
  "compress_by_perplexity text budget =
     (let words = find_words (py_lower text) in
      if words = [] then text
      else
        (let vocab = rarity words; surprises = compute_token_surprise text vocab
         in strip (pack_partial budget [] (score_sentences surprises text))))"

definition compress_by_keyword :: "string \<Rightarrow> int \<Rightarrow> string" where
  "compress_by_keyword text budget =
     (let words = find_words (py_lower text) in
      if words = [] then text
      else (let word_importance = rarity words
            in strip (pack_partial budget [] (score_sentences word_importance text))))"

definition compress_with_perplexity :: "string \<Rightarrow> int \<Rightarrow> string \<Rightarrow> string" where
  "compress_with_perplexity text budget strategy =
     (if text = [] \<or> strip text = [] then []
      else if strategy = ''none'' then text
      else if estimate_token_cost text \<le> budget then text
      else if strategy = ''perplexity'' then compress_by_perplexity text budget
      else compress_by_keyword text budget)"

subsection \<open>Budgets\<close>

definition smart_token_budget :: "int \<Rightarrow> int \<Rightarrow> (string, int) dict" where
  "smart_token_budget available_tokens num_chunks =
     (if available_tokens < 1000 then
        [(''system_prompt'', max 50 (available_tokens div 5)),
         (''context_total'', max 100 (available_tokens * 3 div 5)),
         (''history'', 0),
         (''response'', max 50 (available_tokens div 5))]
      else
        (let system_prompt = min 2000 (available_tokens div 10);
             response = min 4096 (available_tokens div 5);
             history = min 8000 (available_tokens div 6);
             context_total = available_tokens - system_prompt - response - history;
             (context_total, history) = (if context_total < 0 then (max 100 (available_tokens * 2 div 3), 0)
                                         else (context_total, history));
             context_per_chunk = (if num_chunks > 0 then max 100 (context_total div max 1 num_chunks) else context_total)
         in [(''system_prompt'', system_prompt), (''context_total'', context_total),
             (''context_per_chunk'', context_per_chunk), (''history'', history), (''response'', response)]))"

record token_budget =
  tb_total :: int
  tb_used :: int
  tb_reserved :: int

definition remaining_tokens :: "token_budget \<Rightarrow> int" where
  "remaining_tokens b = max 0 (tb_total b - tb_used b - tb_reserved b)"

definition utilization :: "token_budget \<Rightarrow> real" where
  "utilization b = (if tb_total b > 0 then real_of_int (tb_used b) / real_of_int (tb_total b) else 0)"

definition can_fit :: "int \<Rightarrow> token_budget \<Rightarrow> bool" where
  "can_fit tokens b \<longleftrightarrow> tokens \<le> remaining_tokens b"

definition allocate :: "int \<Rightarrow> token_budget \<Rightarrow> token_budget" where
  "allocate tokens b = \<lparr>tb_total = tb_total b, tb_used = tb_used b + tokens, tb_reserved = tb_reserved b\<rparr>"

definition build_token_budget :: "int \<Rightarrow> int \<Rightarrow> token_budget" where
  "build_token_budget available_tokens reserved = \<lparr>tb_total = available_tokens, tb_used = 0, tb_reserved = reserved\<rparr>"

fun fit_loop :: "(string \<Rightarrow> int) \<Rightarrow> int \<Rightarrow> int \<Rightarrow> chunk_dict list \<Rightarrow> chunk_dict list \<times> int" where
  "fit_loop cost limit used [] = ([], used)"
| "fit_loop cost limit used (chunk # chunks) =
     (let c = cost (field chunk ''text'') in
      if used + c > limit then ([], used)
      else (let (selected, used) = fit_loop cost limit (used + c) chunks in (chunk # selected, used)))"

definition fit_chunks_into_budget ::
  "chunk_dict list \<Rightarrow> token_budget \<Rightarrow> (string \<Rightarrow> int) option \<Rightarrow> chunk_dict list \<times> token_budget" where
  "fit_chunks_into_budget chunks budget estimate_cost =
     (let cost = (case estimate_cost of None \<Rightarrow> estimate_token_cost | Some f \<Rightarrow> f);
          (selected, used) = fit_loop cost (remaining_tokens budget) (tb_used budget) chunks
      in (selected, allocate (used - tb_used budget) budget))"

definition token_budget_from_dict :: "(string, int) dict \<Rightarrow> token_budget" where
  "token_budget_from_dict alloc =
     (let total = sum_list (dict_values alloc) in \<lparr>tb_total = total, tb_used = 0, tb_reserved = total\<rparr>)"

definition enrich_chunk_headers :: "chunk_dict \<Rightarrow> chunk_dict \<Rightarrow> chunk_dict" where
  "enrich_chunk_headers chunk doc_context =
     (let header_parts =
            concat (map (\<lambda>(label, k). let v = field doc_context k in if v \<noteq> [] then [''['' @ label @ '': '' @ v @ '']''] else [])
              [(''Type'', ''doc_type''), (''Doc'', ''title''), (''Section'', ''section''), (''Version'', ''version'')])
      in if header_parts \<noteq> []
         then dict_set ''text'' (join '' '' header_parts @ [CHR 0x0A] @ field chunk ''text'') chunk
         else chunk)"

subsection \<open>Packing under a budget\<close>

abbreviation packed_cost :: "(string \<Rightarrow> int) \<Rightarrow> chunk_dict list \<Rightarrow> int" where
  "packed_cost cost cs \<equiv> sum_list (map (\<lambda>c. cost (field c ''text'')) cs)"

lemma fit_loop_spec:
  assumes "fit_loop cost limit used cs = (sel, used')"
  shows "\<exists>n \<le> length cs. sel = take n cs \<and> used' = used + packed_cost cost sel \<and> (used \<le> limit \<longrightarrow> used' \<le> limit) \<and>
    (n < length cs \<longrightarrow> limit < used' + cost (field (cs ! n) ''text''))"
  using assms
proof (induction cs arbitrary: used sel used')
  case (Cons c cs)
  let ?c = "cost (field c ''text'')"
  show ?case
  proof (cases "used + ?c > limit")
    case True
    with Cons.prems show ?thesis by (intro exI [of _ 0]) simp
  next
    case False
    with Cons.prems obtain sel1 where sel1: "fit_loop cost limit (used + ?c) cs = (sel1, used')" "sel = c # sel1"
      by (auto simp: Let_def split: prod.splits)
    from Cons.IH [OF sel1(1)] obtain n where "n \<le> length cs" "sel1 = take n cs" "used' = used + ?c + packed_cost cost sel1"
        "used + ?c \<le> limit \<longrightarrow> used' \<le> limit" "n < length cs \<longrightarrow> limit < used' + cost (field (cs ! n) ''text'')"
      by blast
    with sel1(2) False show ?thesis by (intro exI [of _ "Suc n"]) simp
  qed
qed simp

text \<open>
  Packing chunks into a fresh budget is greedy and exact: the selected chunks are a prefix of the
  list, the new budget records exactly their cost, that cost fits into what remained, and the first
  chunk that is left out would not have fitted.
\<close>

theorem fit_chunks_greedy:
  assumes "tb_used b = 0" and "fit_chunks_into_budget cs b (Some cost) = (sel, b')"
  shows "\<exists>n \<le> length cs. sel = take n cs \<and>
    tb_used b' = packed_cost cost sel \<and> tb_used b' \<le> remaining_tokens b \<and>
    (n < length cs \<longrightarrow> remaining_tokens b < tb_used b' + cost (field (cs ! n) ''text''))"
proof -
  obtain used where "fit_loop cost (remaining_tokens b) 0 cs = (sel, used)" "b' = allocate used b"
    using assms by (auto simp: fit_chunks_into_budget_def split: prod.splits)
  moreover have "0 \<le> remaining_tokens b" by (simp add: remaining_tokens_def)
  ultimately show ?thesis using fit_loop_spec [of cost "remaining_tokens b" 0 cs sel used] assms(1)
    by (auto simp: allocate_def)
qed

definition sample_texts :: "chunk_dict list" where
  "sample_texts = [[(''text'', ''aaaa'')], [(''text'', ''bbbbbbbb'')]]"

theorem fit_chunks_greedy_witness:
  "\<exists>n \<le> length sample_texts.
     fst (fit_chunks_into_budget sample_texts (build_token_budget 6 0) (Some (int \<circ> length))) = take n sample_texts"
  using fit_chunks_greedy [of "build_token_budget 6 0" sample_texts "int \<circ> length", OF _ prod.collapse [symmetric]]
  by (auto simp: build_token_budget_def)

text \<open>
  A budget that is already in use counts the used tokens twice: the loop starts from the used tokens
  and compares with what remains after them. From the point where half of the budget is
  used, nothing is selected any more, even a chunk of which the budget itself says that it fits.
\<close>

theorem used_tokens_counted_twice:
  assumes "remaining_tokens b \<le> tb_used b" and "0 < cost (field c ''text'')" and "can_fit (cost (field c ''text'')) b"
  shows "fit_chunks_into_budget (c # cs) b (Some cost) = ([], b)"
  using assms by (simp add: fit_chunks_into_budget_def allocate_def)

theorem used_tokens_counted_twice_witness:
  "fit_chunks_into_budget [[(''text'', ''VPN'')]] \<lparr>tb_total = 1000, tb_used = 500, tb_reserved = 0\<rparr> (Some (int \<circ> length)) =
     ([], \<lparr>tb_total = 1000, tb_used = 500, tb_reserved = 0\<rparr>)"
  by (rule used_tokens_counted_twice) (simp_all add: remaining_tokens_def can_fit_def dict_getd_def)

text \<open>A budget made from an allocation is reserved completely, so that nothing can be packed into it.\<close>

lemma allocation_leaves_nothing:
  "0 < cost (field c ''text'') \<Longrightarrow> fst (fit_chunks_into_budget (c # cs) (token_budget_from_dict alloc) (Some cost)) = []"
  by (simp add: fit_chunks_into_budget_def token_budget_from_dict_def remaining_tokens_def Let_def)

text \<open>
  The smart budget divides up exactly what is available: from 1000 tokens on, the shares of system prompt,
  context, history and response are not negative and add up to the available tokens.
\<close>

theorem smart_budget_exact:
  assumes "1000 \<le> available"
  shows "\<exists>s c h r. map_of (smart_token_budget available n) ''system_prompt'' = Some s \<and>
    map_of (smart_token_budget available n) ''context_total'' = Some c \<and>
    map_of (smart_token_budget available n) ''history'' = Some h \<and>
    map_of (smart_token_budget available n) ''response'' = Some r \<and>
    0 \<le> s \<and> 0 \<le> c \<and> 0 \<le> h \<and> 0 \<le> r \<and> s + c + h + r = available"
proof -
  define s r h where "s = min 2000 (available div 10)" and "r = min 4096 (available div 5)"
    and "h = min 8000 (available div 6)"
  have le: "0 \<le> s" "s \<le> available div 10" "0 \<le> r" "r \<le> available div 5" "0 \<le> h" "h \<le> available div 6"
    using assms by (simp_all add: s_def r_def h_def)
  have "10 * (available div 10) \<le> available" "5 * (available div 5) \<le> available" "6 * (available div 6) \<le> available"
    by simp_all
  with le assms have c: "0 \<le> available - s - r - h" by linarith
  define p where "p = (if n > 0 then max 100 ((available - s - r - h) div max 1 n) else available - s - r - h)"
  have "smart_token_budget available n =
      [(''system_prompt'', s), (''context_total'', available - s - r - h), (''context_per_chunk'', p), (''history'', h), (''response'', r)]"
    using assms c by (simp add: smart_token_budget_def Let_def s_def [symmetric] r_def [symmetric] h_def [symmetric] p_def)
  then show ?thesis using le c by simp
qed

theorem smart_budget_exact_witness:
  "\<exists>s c h r. s + c + h + r = (8000 :: int) \<and> map_of (smart_token_budget 8000 4) ''response'' = Some r"
  using smart_budget_exact [of 8000 4] by auto

text \<open>Below 200 tokens the minimum shares promise more than there is.\<close>

lemma small_budget_overcommitted:
  "0 \<le> available \<Longrightarrow> available < 200 \<Longrightarrow> available < sum_list (dict_values (smart_token_budget available n))"
  by (simp add: smart_token_budget_def dict_values_def)

subsection \<open>Compression against the budget\<close>

lemma fold_dict_set_getd:
  "dict_getd (foldl (\<lambda>d w. dict_set w (g w) d) d ws) w x = (if w \<in> set ws then g w else dict_getd d w x)"
  by (induction ws arbitrary: d) auto

lemma dom_word_freq: "dom (map_of (foldl (\<lambda>d w. dict_set w (f d w) d) d ws)) = dom (map_of d) \<union> set ws"
  by (induction ws arbitrary: d) (auto split: if_splits)

lemma surprise_is_rarity:
  assumes "find_words (py_lower text) \<noteq> []"
  defines "vocab \<equiv> rarity (find_words (py_lower text))"
  shows "dict_getd (compute_token_surprise text vocab) w (5/10) = dict_getd vocab w (5/10)"
proof -
  let ?ws = "find_words (py_lower text)"
  have dom: "dom (map_of vocab) = set ?ws"
  proof -
    have "dom (map_of (word_freq ?ws)) = set ?ws"
      using dom_word_freq [of "\<lambda>d w. Suc (dict_getd d w 0)" "[]" ?ws] by (simp add: word_freq_def)
    moreover have "map_of vocab w = map_option (\<lambda>cnt. 1 - real cnt / real (length ?ws)) (map_of (word_freq ?ws) w)" for w
      using map_of_map_values [of "\<lambda>w cnt. 1 - real cnt / real (length ?ws)"] by (simp add: vocab_def rarity_def)
    ultimately show ?thesis by (auto simp: dom_def)
  qed
  then have "vocab \<noteq> []" using assms(1) by auto
  moreover have "text \<noteq> []" using assms(1) by (auto simp: find_words_def py_lower_def)
  moreover have "w \<notin> set ?ws \<Longrightarrow> dict_getd vocab w (5/10) = 5/10" using dom by (auto simp: dict_getd_def split: option.splits)
  moreover have "dict_getd [] w (5/10) = (5/10 :: real)" by (simp add: dict_getd_def)
  ultimately show ?thesis
    unfolding compute_token_surprise_def
    by (cases "w \<in> set ?ws") (simp_all only: fold_dict_set_getd if_True if_False simp_thms)
qed

text \<open>
  The two compression strategies are one. The strategy \<^verbatim>\<open>perplexity\<close> is documented to keep the words that
  surprise a language model and to fall back to keyword density without one; both compute the same
  weights from the word counts of the text, and return the same result for every text and budget.
\<close>

theorem perplexity_is_keyword:
  "compress_with_perplexity text budget ''perplexity'' = compress_with_perplexity text budget ''keyword''"
proof -
  have "score_sentences (compute_token_surprise text (rarity (find_words (py_lower text)))) text =
      score_sentences (rarity (find_words (py_lower text))) text"
    if "find_words (py_lower text) \<noteq> []"
    unfolding score_sentences_def surprise_is_rarity [OF that] ..
  then show ?thesis
    by (simp add: compress_with_perplexity_def compress_by_perplexity_def compress_by_keyword_def Let_def)
qed

lemma length_join: "length (join sep ps) = sum_list (map length ps) + length sep * (length ps - 1)"
proof (cases ps)
  case (Cons p qs)
  have "length (concat (map (\<lambda>q. sep @ q) qs)) = sum_list (map length qs) + length sep * length qs"
    by (induction qs) simp_all
  with Cons show ?thesis by (simp add: join_def)
qed (simp add: join_def)

lemma relevance_parts_bound:
  assumes "used \<le> budget" and "0 \<le> per_chunk"
  shows "int (sum_list (map length (relevance_parts budget per_chunk used cs))) \<le> 4 * (budget - used) \<and>
    length (relevance_parts budget per_chunk used cs) \<le> length cs"
  using assms
proof (induction cs arbitrary: used)
  case (Cons c cs)
  let ?t = "strip (field c ''text'')"
  consider "?t = []" | "?t \<noteq> []" "used + per_chunk > budget" | "?t \<noteq> []" "used + per_chunk \<le> budget" by linarith
  then show ?case
  proof cases
    case 1
    then show ?thesis using Cons.IH [OF Cons.prems] by simp
  next
    case 2
    then show ?thesis using Cons.prems by (auto simp: length_slice_to Let_def min_def le_nat_iff)
  next
    case 3
    then have "int (length (slice_to (per_chunk * 4) ?t)) \<le> per_chunk * 4" using Cons.prems by (simp add: length_slice_to)
    with 3 Cons.IH [of "used + per_chunk"] Cons.prems show ?thesis by (simp add: Let_def)
  qed
qed simp

text \<open>
  Compression by relevance keeps to the budget at four characters per token: apart from the blank lines
  between the parts, the result is never longer than four times the allowed tokens.
\<close>

theorem relevance_within_budget:
  assumes "0 \<le> max_tokens"
  shows "int (length (compress_relevance cs max_tokens)) \<le> 4 * max_tokens + 2 * int (length cs)"
proof -
  define ps where "ps = relevance_parts max_tokens (max 50 (max_tokens div max 1 (int (length cs)))) 0 cs"
  have "int (sum_list (map length ps)) \<le> 4 * max_tokens" "length ps \<le> length cs"
    using relevance_parts_bound [of 0 max_tokens "max 50 (max_tokens div max 1 (int (length cs)))" cs] assms
    by (simp_all add: ps_def)
  moreover have "length (compress_relevance cs max_tokens) = sum_list (map length ps) + 2 * (length ps - 1)"
    by (simp add: compress_relevance_def Let_def length_join ps_def)
  ultimately show ?thesis by linarith
qed

theorem relevance_within_budget_witness:
  "int (length (compress_relevance sample_texts 100)) \<le> 404"
  using relevance_within_budget [of 100 sample_texts] by (simp add: sample_texts_def)

lemma space_not_word: "py_space c \<Longrightarrow> \<not> word_char c"
  by (auto simp: py_space_def word_char_def Let_def)

lemma tokens_trailing: "py_space c \<Longrightarrow> tokens_from w (cs @ [c]) = tokens_from w cs"
  by (induction w cs rule: tokens_from.induct) (auto simp: space_not_word)

lemma tokens_strip: "tokenize_words (strip s) = tokenize_words s"
proof -
  have lead: "tokens_from [] (dropWhile py_space t) = tokens_from [] t" for t
    by (induction t) (auto simp: space_not_word)
  have trail: "tokens_from w (rev (dropWhile py_space (rev t))) = tokens_from w t" for w t
    by (induction t rule: rev_induct) (auto simp: tokens_trailing)
  show ?thesis by (simp add: strip_def tokenize_words_def lead trail)
qed

lemma length_strip: "length (strip s) \<le> length s"
  unfolding strip_def by (metis length_dropWhile_le length_rev order_trans)

lemma estimate_strip: "estimate_token_cost (strip s) \<le> estimate_token_cost s"
proof (cases "strip s = []")
  case False
  then have "s \<noteq> []" by (auto simp: strip_def)
  define c c' where "c = max 1 (int (length s) div 4)" and "c' = max 1 (int (length (strip s)) div 4)"
  define w where "w = max 1 \<lfloor>real (length (tokenize_words s)) * (13/10)\<rfloor>"
  have "int (length (strip s)) div 4 \<le> int (length s) div 4" using length_strip [of s] by (intro zdiv_mono1) simp_all
  then have "c' \<le> c" by (simp add: c_def c'_def)
  then have "\<lfloor>real_of_int c' * (4/10) + real_of_int w * (6/10)\<rfloor> \<le> \<lfloor>real_of_int c * (4/10) + real_of_int w * (6/10)\<rfloor>"
    by (intro floor_mono) simp
  moreover have "estimate_token_cost s = max 1 \<lfloor>real_of_int c * (4/10) + real_of_int w * (6/10)\<rfloor>"
    using \<open>s \<noteq> []\<close> by (simp add: estimate_token_cost_def Let_def c_def w_def)
  moreover have "estimate_token_cost (strip s) = max 1 \<lfloor>real_of_int c' * (4/10) + real_of_int w * (6/10)\<rfloor>"
    using False by (simp add: estimate_token_cost_def Let_def c'_def w_def tokens_strip)
  ultimately show ?thesis by linarith
qed (simp add: estimate_token_cost_def Let_def)

lemma pack_sentences_bound:
  "estimate_token_cost result \<le> max_tokens \<Longrightarrow> estimate_token_cost (pack_sentences max_tokens result props) \<le> max_tokens"
  by (induction props arbitrary: result) (auto simp: Let_def)

text \<open>Compression to propositions keeps to the budget by the optimizer's own estimate of the result.\<close>

theorem proposition_within_budget:
  assumes "0 \<le> max_tokens"
  shows "estimate_token_cost (compress_proposition cs max_tokens) \<le> max_tokens"
proof -
  have "estimate_token_cost [] \<le> max_tokens" using assms by (simp add: estimate_token_cost_def)
  from pack_sentences_bound [OF this] estimate_strip show ?thesis
    unfolding compress_proposition_def by (rule order_trans [rotated])
qed

theorem proposition_within_budget_witness:
  "estimate_token_cost (compress_proposition sample_texts 100) \<le> 100"
  by (rule proposition_within_budget) simp

end
