(* ===== verification/Context_Builder.thy ===== *)
theory Context_Builder
  imports Token_Budget "HOL-Library.List_Lexorder" "HOL-Library.Multiset"
begin

text \<open>
  Assembly of the prompt context, \<^verbatim>\<open>proxy/app/core/context/\<close> (\<^verbatim>\<open>builder.py\<close>, \<^verbatim>\<open>versioning.py\<close>,
  \<^verbatim>\<open>compression.py\<close>) and \<^verbatim>\<open>proxy/app/core/reorder.py\<close>: deduplication, version resolution, grouping,
  reordering and packing under a token budget. SHA-256 and the rendering of scores in headers are
  parameters. The configuration flags are arguments.
\<close>

type_synonym scored_chunk = "chunk_dict \<times> real"

subsection \<open>Deduplication and grouping\<close>

definition context_chunk_hash :: "(string \<Rightarrow> string) \<Rightarrow> chunk_dict \<Rightarrow> string" where
  "context_chunk_hash sha chunk =
     sha (field chunk ''text'' @ ''|'' @ field chunk ''source_type'' @ ''|'' @ field chunk ''source_id'' @ ''|'' @
          field chunk ''version'' @ ''|'' @ field chunk ''doc_title'')"

fun dedup_loop :: "(string \<Rightarrow> string) \<Rightarrow> string set \<Rightarrow> scored_chunk list \<Rightarrow> scored_chunk list" where
  "dedup_loop sha seen [] = []"
| "dedup_loop sha seen (x # xs) =
     (let h = context_chunk_hash sha (fst x) in
      if h \<notin> seen then x # dedup_loop sha (insert h seen) xs else dedup_loop sha seen xs)"

definition deduplicate_chunks :: "(string \<Rightarrow> string) \<Rightarrow> scored_chunk list \<Rightarrow> scored_chunk list" where
  "deduplicate_chunks sha xs = dedup_loop sha {} xs"

definition group_by :: "('a \<Rightarrow> string) \<Rightarrow> 'a list \<Rightarrow> (string, 'a list) dict" where
  \<comment> \<open>the loop that fills a \<^verbatim>\<open>defaultdict(list)\<close>\<close>
  "group_by key xs = foldl (\<lambda>d x. dict_set (key x) (dict_getd d (key x) [] @ [x]) d) [] xs"

definition semantic_key :: "chunk_dict \<Rightarrow> string" where
  "semantic_key chunk = (case dict_get chunk ''semantic_key'' of Some k \<Rightarrow> k | None \<Rightarrow> field chunk ''hash'')"

fun texts_of :: "scored_chunk list \<Rightarrow> exn + string list" where
  "texts_of [] = Inr []"
| "texts_of (x # xs) =
     (case dict_get (fst x) ''text'' of
        None \<Rightarrow> Inl (KeyError ''text'')
      | Some t \<Rightarrow> map_sum id (\<lambda>ts. t # ts) (texts_of xs))"

definition merge_group :: "scored_chunk list \<Rightarrow> exn + scored_chunk" where
  "merge_group grp =
     (if length grp = 1 then Inr (hd grp)
      else (case texts_of grp of
              Inl e \<Rightarrow> Inl e
            | Inr ts \<Rightarrow> Inr (dict_set ''text'' (join blank_line ts) (fst (hd grp)),
                             sum_list (map snd grp) / real (length grp))))"

fun merge_groups :: "scored_chunk list list \<Rightarrow> exn + scored_chunk list" where
  "merge_groups [] = Inr []"
| "merge_groups (g # gs) =
     (case merge_group g of Inl e \<Rightarrow> Inl e | Inr x \<Rightarrow> map_sum id (\<lambda>xs. x # xs) (merge_groups gs))"

definition group_by_semantic_key :: "scored_chunk list \<Rightarrow> exn + scored_chunk list" where
  "group_by_semantic_key xs = merge_groups (dict_values (group_by (\<lambda>x. semantic_key (fst x)) xs))"

subsection \<open>Versions\<close>

definition split_version :: "string \<Rightarrow> string list" where
  \<comment> \<open>\<^verbatim>\<open>re.split(r"[.-]", v)\<close>\<close>
  "split_version v = split_on (CHR ''.'') (map (\<lambda>c. if c = CHR ''-'' then CHR ''.'' else c) v)"

definition is_digit_char :: "char \<Rightarrow> bool" where
  \<comment> \<open>\<^verbatim>\<open>str.isdigit\<close>, which also accepts superscripts\<close>
  "is_digit_char c \<longleftrightarrow> (let n = of_char c :: nat in 48 \<le> n \<and> n \<le> 57 \<or> n \<in> {178, 179, 185})"

definition version_key :: "chunk_dict \<Rightarrow> int list" where
  "version_key chunk =
     (let parts = filter (\<lambda>p. p \<noteq> [] \<and> list_all is_digit_char p) (split_version (dict_getd chunk ''version'' ''0''))
      in if list_all (\<lambda>p. py_int p \<noteq> None) parts then map (\<lambda>p. the (py_int p)) parts else [0])"

fun max_by :: "('a \<Rightarrow> 'b :: linorder) \<Rightarrow> 'a \<Rightarrow> 'a list \<Rightarrow> 'a" where
  \<comment> \<open>\<^verbatim>\<open>max(x # xs, key=f)\<close>: the first of the greatest\<close>
  "max_by f x [] = x"
| "max_by f x (y # ys) = (if f x < f y then max_by f y ys else max_by f x ys)"

definition resolve_group :: "string option \<Rightarrow> scored_chunk list \<Rightarrow> scored_chunk list" where
  "resolve_group requested grp =
     (let filtered = filter (\<lambda>x. dict_get (fst x) ''version'' = requested) grp in
      if truthy_str requested \<and> filtered \<noteq> [] then filtered
      else [max_by (\<lambda>x. version_key (fst x)) (hd grp) (tl grp)])"

definition source_of :: "scored_chunk \<Rightarrow> string" where
  "source_of x = dict_getd (fst x) ''source_id'' ''unknown''"

definition resolve_versions :: "string option \<Rightarrow> scored_chunk list \<Rightarrow> scored_chunk list" where
  "resolve_versions requested xs = concat (map (resolve_group requested) (dict_values (group_by source_of xs)))"

subsection \<open>Order\<close>

definition evens :: "'a list \<Rightarrow> 'a list" where
  "evens xs = map snd (filter (\<lambda>(i, x). even i) (enumerate 0 xs))"

definition odds :: "'a list \<Rightarrow> 'a list" where
  "odds xs = map snd (filter (\<lambda>(i, x). odd i) (enumerate 0 xs))"

definition by_score :: "('a \<Rightarrow> real) \<Rightarrow> 'a list \<Rightarrow> 'a list" where
  \<comment> \<open>\<^verbatim>\<open>sorted(xs, key=score, reverse=True)\<close>\<close>
  "by_score sc xs = sort_key (\<lambda>x. - sc x) xs"

definition reorder_chunks :: "('c \<times> real) list \<Rightarrow> ('c \<times> real) list" where
  "reorder_chunks xs =
     (if length xs \<le> 2 then xs
      else (let sorted_chunks = by_score snd xs in evens sorted_chunks @ rev (odds sorted_chunks)))"

definition reorder_for_long_context :: "('c \<Rightarrow> real) \<Rightarrow> 'c list \<Rightarrow> 'c list" where
  \<comment> \<open>\<open>sc\<close> reads \<^verbatim>\<open>chunk.get("score", 0.0)\<close>\<close>
  "reorder_for_long_context sc chunks =
     (if chunks = [] then []
      else if length chunks = 1 then chunks
      else if length chunks = 2 then by_score sc chunks
      else (let s = by_score sc chunks in [s ! 0] @ drop 2 s @ [s ! 1]))"

subsection \<open>Assembly\<close>

definition estimate_tokens :: "string \<Rightarrow> int" where
  "estimate_tokens text = int (length text) div 4"

definition extract_relevant_segments :: "string \<Rightarrow> string \<Rightarrow> string" where
  "extract_relevant_segments text query =
     (let query_tokens = set (find_words (py_lower query)) in
      if text = [] \<or> query = [] \<or> query_tokens = {} then text
      else
        (let sentences = split_sentences text in
         if length sentences \<le> 3 then text
         else
           (let overlap = (\<lambda>s. (let s_tokens = set (find_words (py_lower s)) in
                  if s_tokens = {} then 0 else real (card (query_tokens \<inter> s_tokens)) / real (card query_tokens)));
                scored = map (\<lambda>s. (s, overlap s)) sentences;
                threshold = max (5/100) (sum_list (map snd scored) / real (length scored) * (5/10));
                relevant = map fst (filter (\<lambda>(s, sc). sc \<ge> threshold) scored)
            in if relevant \<noteq> [] then join '' '' relevant else join '' '' (map fst (take 3 scored)))))"

subsection \<open>Strips and modalities\<close>

record knowledge_strip =
  strip_text :: string
  strip_score :: real
  strip_source_type :: string
  strip_doc_title :: string
  chunk_index :: nat
  sentence_index :: nat

definition decompose_to_strips :: "scored_chunk list \<Rightarrow> real \<Rightarrow> knowledge_strip list" where
  "decompose_to_strips xs relevance_threshold =
     (let strips = concat (map (\<lambda>(chunk_idx, chunk, score).
            (let text = strip (field chunk ''text'') in
             if text = [] then []
             else concat (map (\<lambda>(sent_idx, sentence).
                    (let sentence = strip sentence in
                     if length sentence < 10 then []
                     else [\<lparr>strip_text = sentence, strip_score = score,
                            strip_source_type = dict_getd chunk ''source_type'' ''unknown'',
                            strip_doc_title = field chunk ''doc_title'',
                            chunk_index = chunk_idx, sentence_index = sent_idx\<rparr>]))
                  (enumerate 0 (split_sentences text))))) (enumerate 0 xs))
      in if relevance_threshold > 0 then filter (\<lambda>s. strip_score s \<ge> relevance_threshold) strips else strips)"

fun take_budget :: "int \<Rightarrow> int \<Rightarrow> string list \<Rightarrow> string list" where
  \<comment> \<open>the loops over tables and code: stop at the first item that no longer fits\<close>
  "take_budget budget used [] = []"
| "take_budget budget used (x # xs) =
     (let tokens = estimate_tokens x in
      if used + tokens > budget then [] else x # take_budget budget (used + tokens) xs)"

fun take_texts :: "int \<Rightarrow> int \<Rightarrow> string list \<Rightarrow> string list" where
  \<comment> \<open>the loop over the text chunks: as above, with a truncated last chunk\<close>
  "take_texts budget used [] = []"
| "take_texts budget used (x # xs) =
     (let tokens = estimate_tokens x in
      if used + tokens > budget
      then (if budget - used > 50 then [slice_to ((budget - used) * 4) x @ ''...''] else [])
      else x # take_texts budget (used + tokens) xs)"

definition frame_code :: "string \<Rightarrow> string" where
  "frame_code code = ''```'' @ [CHR 0x0A] @ code @ [CHR 0x0A] @ ''```''"

definition assemble_multimodal_context ::
  "string list \<Rightarrow> string list \<Rightarrow> string list \<Rightarrow> string list \<Rightarrow> int \<Rightarrow> string" where
  \<comment> \<open>with \<^verbatim>\<open>MULTI_MODAL_ENABLED\<close>, a constant that is true\<close>
  "assemble_multimodal_context chunks images tables code_blocks max_tokens =
     (let total_items = length chunks + length images + length tables + length code_blocks in
      if total_items = 0 then []
      else
        (let text_budget = py_trunc (real_of_int max_tokens * (5/10));
             table_budget = py_trunc (real_of_int max_tokens * (2/10));
             code_budget = py_trunc (real_of_int max_tokens * (2/10))
         in join blank_line
              (take_texts text_budget 0 chunks @ take_budget table_budget 0 tables @
               map frame_code (take_budget code_budget 0 code_blocks) @
               filter (\<lambda>img. estimate_tokens img < 20) images)))"

subsection \<open>The context of a prompt\<close>

definition chunk_header :: "(real \<Rightarrow> string) \<Rightarrow> chunk_dict \<Rightarrow> real \<Rightarrow> string" where
  \<comment> \<open>\<open>fmt\<close> renders a score with three digits\<close>
  "chunk_header fmt chunk score =
     ''['' @ dict_getd chunk ''source_type'' ''unknown'' @ ''] '' @ field chunk ''doc_title'' @ '' / '' @
     field chunk ''title'' @ '' (v'' @ dict_getd chunk ''version'' ''latest'' @ '') [rel='' @ fmt score @ '']'' @ [CHR 0x0A]"

fun assemble :: "(chunk_dict \<Rightarrow> real \<Rightarrow> string) \<Rightarrow> int \<Rightarrow> int \<Rightarrow> scored_chunk list \<Rightarrow> string list \<times> int" where
  \<comment> \<open>the loop of \<^verbatim>\<open>build_context\<close>: the parts and the final \<^verbatim>\<open>total_tokens\<close>\<close>
  "assemble header max_tokens total_tokens [] = ([], total_tokens)"
| "assemble header max_tokens total_tokens ((chunk, score) # rest) =
     (let text = strip (field chunk ''text'') in
      if text = [] then assemble header max_tokens total_tokens rest
      else
        (let part = header chunk score @ text @ blank_line;
             part_tokens = estimate_tokens part
         in if total_tokens + part_tokens > max_tokens then
              (let remaining = max_tokens - total_tokens
               in if remaining > 50
                  then ([header chunk score @ slice_to (remaining * 4) text @ ''...'' @ blank_line], total_tokens)
                  else ([], total_tokens))
            else
              (let (parts, total) = assemble header max_tokens (total_tokens + part_tokens) rest
               in (part # parts, total))))"

record context_config =
  reorder_enabled :: bool
  token_optimizer_enabled :: bool
  fmt_score :: "real \<Rightarrow> string"

definition build_context :: "context_config \<Rightarrow> scored_chunk list \<Rightarrow> int \<Rightarrow> bool \<Rightarrow> bool \<Rightarrow> string" where
  "build_context cfg xs max_tokens include_metadata sort_by_score =
     (if xs = [] then []
      else
        (let xs = (if reorder_enabled cfg then reorder_chunks xs else xs);
             xs = (if sort_by_score then by_score snd xs else xs);
             header = (if include_metadata then chunk_header (fmt_score cfg) else (\<lambda>c s. []));
             (parts, total_tokens) = assemble header max_tokens 0 xs;
             final_context = concat parts
         in if token_optimizer_enabled cfg \<and> total_tokens > max_tokens
            then (let compressed = compress_context (map fst xs) max_tokens ''hierarchical''
                  in if compressed \<noteq> [] then compressed else final_context)
            else final_context))"

definition prepare_context ::
  "context_config \<Rightarrow> (string \<Rightarrow> string) \<Rightarrow> scored_chunk list \<Rightarrow> string option \<Rightarrow> int \<Rightarrow> bool \<Rightarrow> bool \<Rightarrow> bool \<Rightarrow> exn + string" where
  "prepare_context cfg sha xs requested_version max_tokens deduplicate resolve_versions_flag group_semantic =
     (if xs = [] then Inr []
      else
        (let result = (if deduplicate then deduplicate_chunks sha xs else xs);
             result = (if resolve_versions_flag then resolve_versions requested_version result else result)
         in case (if group_semantic then group_by_semantic_key result else Inr result) of
              Inl e \<Rightarrow> Inl e
            | Inr result \<Rightarrow> Inr (build_context cfg result max_tokens True True)))"

subsection \<open>Deduplication keeps the first of each class\<close>

lemma dedup_loop_append:
  "dedup_loop sha seen (xs @ ys) =
     dedup_loop sha seen xs @ dedup_loop sha (seen \<union> (\<lambda>x. context_chunk_hash sha (fst x)) ` set xs) ys"
  by (induction xs arbitrary: seen) (auto simp: Let_def insert_absorb)

lemma filter_enumerate_snoc:
  "filter P (enumerate 0 (xs @ [x])) = filter P (enumerate 0 xs) @ (if P (length xs, x) then [(length xs, x)] else [])"
  by (simp add: enumerate_append_eq)

text \<open>Deduplication returns, in their order, exactly the chunks before which no chunk with the same hash occurs.\<close>

theorem deduplicate_first_of_each:
  "deduplicate_chunks sha xs =
     map snd (filter (\<lambda>(i, x). \<forall>j < i. context_chunk_hash sha (fst (xs ! j)) \<noteq> context_chunk_hash sha (fst x))
                (enumerate 0 xs))"
  unfolding deduplicate_chunks_def
proof (induction xs rule: rev_induct)
  case (snoc x xs)
  let ?h = "\<lambda>x. context_chunk_hash sha (fst x)"
  have "filter (\<lambda>(i, y). \<forall>j < i. ?h ((xs @ [x]) ! j) \<noteq> ?h y) (enumerate 0 xs) =
        filter (\<lambda>(i, y). \<forall>j < i. ?h (xs ! j) \<noteq> ?h y) (enumerate 0 xs)"
    by (rule filter_cong) (auto simp: in_set_enumerate_eq nth_append)
  moreover have "(\<forall>j < length xs. ?h ((xs @ [x]) ! j) \<noteq> ?h x) \<longleftrightarrow> ?h x \<notin> ?h ` set xs"
    by (auto simp: nth_append image_iff) (metis fst_conv in_set_conv_nth, metis nth_mem)
  ultimately show ?case
    by (simp add: dedup_loop_append filter_enumerate_snoc snoc Let_def)
qed simp

theorem deduplicate_first_of_each_witness:
  "deduplicate_chunks (\<lambda>s. s) [([(''text'', ''a'')], 1), ([(''text'', ''b'')], 2), ([(''text'', ''a'')], 3)] =
     [([(''text'', ''a'')], 1), ([(''text'', ''b'')], 2)]"
  unfolding deduplicate_first_of_each
  by (simp add: context_chunk_hash_def dict_getd_def less_Suc_eq)

subsection \<open>Reordering against the loss in the middle\<close>

lemma mset_by_score [simp]: "mset (by_score sc xs) = mset xs"
  by (simp add: by_score_def)

lemma length_by_score [simp]: "length (by_score sc xs) = length xs"
  by (simp add: by_score_def)

lemma parity_shift:
  "map snd (filter (\<lambda>(i, x). even i) (enumerate (Suc (Suc n)) xs)) = map snd (filter (\<lambda>(i, x). even i) (enumerate n xs))"
  "map snd (filter (\<lambda>(i, x). odd i) (enumerate (Suc (Suc n)) xs)) = map snd (filter (\<lambda>(i, x). odd i) (enumerate n xs))"
  by (induction xs arbitrary: n) auto

lemma evens_simps [simp]: "evens [] = []" "evens [x] = [x]" "evens (x # y # zs) = x # evens zs"
  by (simp_all add: evens_def parity_shift)

lemma odds_simps [simp]: "odds [] = []" "odds [x] = []" "odds (x # y # zs) = y # odds zs"
  by (simp_all add: odds_def parity_shift)

lemma mset_evens_odds: "mset (evens xs) + mset (odds xs) = mset xs"
  by (induction xs rule: induct_list012) auto

lemma mset_reorder_chunks: "mset (reorder_chunks xs) = mset xs"
  by (simp add: reorder_chunks_def Let_def mset_evens_odds)

lemma length_evens [simp]: "length (evens xs) = Suc (length xs) div 2"
  by (induction xs rule: induct_list012) auto

lemma length_odds [simp]: "length (odds xs) = length xs div 2"
  by (induction xs rule: induct_list012) auto

lemma evens_nth: "2 * i < length xs \<Longrightarrow> evens xs ! i = xs ! (2 * i)"
  by (induction xs arbitrary: i rule: induct_list012) (auto simp: nth_Cons split: nat.splits)

lemma odds_nth: "2 * i + 1 < length xs \<Longrightarrow> odds xs ! i = xs ! (2 * i + 1)"
  by (induction xs arbitrary: i rule: induct_list012) (auto simp: nth_Cons split: nat.splits)

text \<open>The U shape: of three or more chunks, those of even rank stand at the start in their order and those of odd rank
  at the end in the opposite order, so that the best comes first and the second best last; nothing is lost or duplicated.\<close>

theorem reorder_chunks_u_shape:
  assumes "2 < length xs"
  shows "mset (reorder_chunks xs) = mset xs \<and>
    (\<forall>i. 2 * i < length xs \<longrightarrow> reorder_chunks xs ! i = by_score snd xs ! (2 * i)) \<and>
    (\<forall>i. 2 * i + 1 < length xs \<longrightarrow>
      reorder_chunks xs ! (length xs - Suc i) = by_score snd xs ! (2 * i + 1))"
proof (intro conjI allI impI)
  show "mset (reorder_chunks xs) = mset xs" by (rule mset_reorder_chunks)
next
  fix i assume i: "2 * i < length xs"
  then have "i < Suc (length xs) div 2" by linarith
  then show "reorder_chunks xs ! i = by_score snd xs ! (2 * i)"
    using assms i by (simp add: reorder_chunks_def Let_def nth_append evens_nth)
next
  fix i assume i: "2 * i + 1 < length xs"
  then have *: "\<not> length xs - Suc i < Suc (length xs) div 2" "i < length xs div 2"
    "length xs - Suc i - Suc (length xs) div 2 = length xs div 2 - Suc i"
    "length xs div 2 + (i + Suc (length xs) div 2) - length xs = i"
    by linarith+
  show "reorder_chunks xs ! (length xs - Suc i) = by_score snd xs ! (2 * i + 1)"
    using assms i by (simp add: reorder_chunks_def Let_def nth_append rev_nth * odds_nth)
qed

theorem reorder_chunks_u_shape_witness:
  "reorder_chunks [(''a'', 1/2), (''b'', 9/10), (''c'', 3/10), (''d'', 4/5)] ! 0 = (''b'', 9/10) \<and>
   reorder_chunks [(''a'', 1/2), (''b'', 9/10), (''c'', 3/10), (''d'', 4/5)] ! 3 = (''d'', 4/5)"
proof -
  let ?xs = "[(''a'', 1/2), (''b'', 9/10), (''c'', 3/10), (''d'', 4/5 :: real)]"
  have "2 < length ?xs" by simp
  from reorder_chunks_u_shape [OF this]
  have "2 * 0 < length ?xs \<longrightarrow> reorder_chunks ?xs ! 0 = by_score snd ?xs ! (2 * 0)"
    and "2 * 0 + 1 < length ?xs \<longrightarrow> reorder_chunks ?xs ! (length ?xs - Suc 0) = by_score snd ?xs ! (2 * 0 + 1)"
    by blast+
  then show ?thesis by (simp add: by_score_def numeral_3_eq_3)
qed

lemma by_score_unique:
  assumes "distinct (map snd xs)" and "mset ys = mset xs"
  shows "by_score snd ys = by_score snd xs"
proof (rule map_sorted_distinct_set_unique [where f = "\<lambda>x. - snd x"])
  have d: "distinct (map (\<lambda>x. - snd x) xs)"
    using assms(1) by (simp add: distinct_map inj_on_def)
  moreover have "mset (map (\<lambda>x. - snd x) ys) = mset (map (\<lambda>x. - snd x) xs)"
    using assms(2) by simp
  ultimately have d': "distinct (map (\<lambda>x. - snd x) ys)"
    by (metis mset_eq_imp_distinct_iff)
  have eq: "set ys = set xs" using assms(2) by (rule mset_eq_setD)
  show "inj_on (\<lambda>x. - snd x) (set (by_score snd ys) \<union> set (by_score snd xs))"
    using d eq by (simp add: distinct_map by_score_def)
  show "sorted (map (\<lambda>x. - snd x) (by_score snd ys))" "sorted (map (\<lambda>x. - snd x) (by_score snd xs))"
    by (simp_all add: by_score_def)
  show "distinct (map (\<lambda>x. - snd x) (by_score snd ys))" "distinct (map (\<lambda>x. - snd x) (by_score snd xs))"
    using d d' by (simp_all add: by_score_def distinct_map)
  show "set (by_score snd ys) = set (by_score snd xs)"
    using eq by (simp add: by_score_def)
qed

text \<open>\<^verbatim>\<open>build_context\<close> sorts after it has reordered: with pairwise different scores, the setting
  \<^verbatim>\<open>REORDER_ENABLED\<close> has no effect on a context that is sorted by score, which is what every caller asks for.\<close>

theorem reorder_undone_by_sort:
  assumes "distinct (map snd xs)"
  shows "build_context (cfg\<lparr>reorder_enabled := True\<rparr>) xs max_tokens meta True =
         build_context (cfg\<lparr>reorder_enabled := False\<rparr>) xs max_tokens meta True"
  using by_score_unique [OF assms mset_reorder_chunks]
  by (auto simp: build_context_def Let_def case_prod_unfold)

definition sample_context_config :: context_config where
  "sample_context_config = \<lparr>reorder_enabled = True, token_optimizer_enabled = True, fmt_score = (\<lambda>s. [])\<rparr>"

theorem reorder_undone_by_sort_witness:
  "build_context (sample_context_config\<lparr>reorder_enabled := True\<rparr>)
     [([(''text'', ''a'')], 3), ([(''text'', ''b'')], 2), ([(''text'', ''c'')], 1)] 100 False True =
   ''a'' @ blank_line @ ''b'' @ blank_line @ ''c'' @ blank_line"
proof -
  have "distinct (map snd [([(''text'', ''a'')], 3 :: real), ([(''text'', ''b'')], 2), ([(''text'', ''c'')], 1)])"
    by simp
  note reorder_undone_by_sort [OF this, of sample_context_config 100 False]
  moreover have "build_context (sample_context_config\<lparr>reorder_enabled := False\<rparr>)
     [([(''text'', ''a'')], 3), ([(''text'', ''b'')], 2), ([(''text'', ''c'')], 1)] 100 False True =
     ''a'' @ blank_line @ ''b'' @ blank_line @ ''c'' @ blank_line"
    by (simp add: build_context_def sample_context_config_def by_score_def estimate_tokens_def dict_getd_def
        strip_def py_space_def)
  ultimately show ?thesis by (simp only:)
qed

subsection \<open>The token budget\<close>

lemma assemble_total: "t \<le> m \<Longrightarrow> snd (assemble header m t xs) \<le> m"
  by (induction header m t xs rule: assemble.induct) (auto simp: Let_def split: prod.splits)

definition ordered_chunks :: "context_config \<Rightarrow> bool \<Rightarrow> scored_chunk list \<Rightarrow> scored_chunk list" where
  "ordered_chunks cfg by_sc xs =
     (let ys = (if reorder_enabled cfg then reorder_chunks xs else xs) in if by_sc then by_score snd ys else ys)"

lemma build_context_parts:
  assumes "0 \<le> m"
  shows "build_context cfg xs m meta by_sc =
    concat (fst (assemble (if meta then chunk_header (fmt_score cfg) else (\<lambda>c s. [])) m 0 (ordered_chunks cfg by_sc xs)))"
proof -
  have "\<not> m < snd (assemble header m 0 ys)" for header ys
    using assemble_total [OF assms, of header ys] by simp
  moreover have "ordered_chunks cfg by_sc [] = []"
    by (simp add: ordered_chunks_def reorder_chunks_def by_score_def)
  ultimately show ?thesis
    by (cases "xs = []") (simp_all add: build_context_def ordered_chunks_def Let_def case_prod_unfold)
qed

text \<open>The assembly never counts more than \<^verbatim>\<open>max_tokens\<close>, so that for a budget that is not negative the
  compression of \<^verbatim>\<open>TOKEN_OPTIMIZER_ENABLED\<close> is never reached.\<close>

theorem token_optimizer_unreachable:
  assumes "0 \<le> max_tokens"
  shows "build_context (cfg\<lparr>token_optimizer_enabled := True\<rparr>) xs max_tokens meta by_sc =
         build_context (cfg\<lparr>token_optimizer_enabled := False\<rparr>) xs max_tokens meta by_sc"
  by (simp add: build_context_parts [OF assms] ordered_chunks_def)

theorem token_optimizer_unreachable_witness:
  "build_context (sample_context_config\<lparr>token_optimizer_enabled := True\<rparr>) [([(''text'', ''abcdefgh'')], 1)] 1 False True = []"
proof -
  have "(0 :: int) \<le> 1" by simp
  note token_optimizer_unreachable [OF this, of sample_context_config "[([(''text'', ''abcdefgh'')], 1)]" False True]
  moreover have "build_context (sample_context_config\<lparr>token_optimizer_enabled := False\<rparr>)
      [([(''text'', ''abcdefgh'')], 1)] 1 False True = []"
    by (simp add: build_context_def sample_context_config_def by_score_def reorder_chunks_def estimate_tokens_def
        dict_getd_def strip_def py_space_def)
  ultimately show ?thesis by (simp only:)
qed

lemma assemble_length:
  assumes "\<And>c s. (c, s) \<in> set xs \<Longrightarrow> length (header c s) \<le> H" and "0 \<le> t" and "t \<le> m"
  shows "int (length (concat (fst (assemble header m t xs)))) \<le> 4 * (m - t) + 3 * int (length xs) + int H + 5"
  using assms
proof (induction header m t xs rule: assemble.induct)
  case (2 header m t chunk score rest)
  let ?text = "strip (field chunk ''text'')"
  let ?part = "header chunk score @ ?text @ blank_line"
  have hd: "int (length (header chunk score)) \<le> int H" using "2.prems"(1) [of chunk score] by simp
  have rest: "\<And>c s. (c, s) \<in> set rest \<Longrightarrow> length (header c s) \<le> H" using "2.prems"(1) by simp
  show ?case
  proof (cases "?text = []")
    case True
    then show ?thesis using "2.IH"(1) [OF refl True rest "2.prems"(2,3)] by simp
  next
    case False
    show ?thesis
    proof (cases "t + estimate_tokens ?part > m")
      case True
      have "int (length (slice_to ((m - t) * 4) ?text)) \<le> 4 * (m - t)"
        using "2.prems"(2,3) length_slice_to [of "(m - t) * 4" ?text] by simp
      then show ?thesis using True False hd by (simp add: Let_def)
    next
      case fits: False
      have "int (length ?part) \<le> 4 * estimate_tokens ?part + 3"
        unfolding estimate_tokens_def by presburger
      moreover have "0 \<le> estimate_tokens ?part" by (simp add: estimate_tokens_def)
      moreover note "2.IH"(2) [OF refl False refl refl _ rest]
      ultimately show ?thesis using fits False "2.prems"(2,3) by (simp add: Let_def case_prod_unfold)
    qed
  qed
qed simp

text \<open>The size of a context: with headers of at most \<open>H\<close> characters, it has at most four characters per token of the
  budget, three more per chunk that rounding lost, one more header and the five characters that close a truncated chunk.\<close>

theorem context_length_bound:
  assumes "\<And>c s. (c, s) \<in> set xs \<Longrightarrow> length (chunk_header (fmt_score cfg) c s) \<le> H" and "0 \<le> max_tokens"
  shows "int (length (build_context cfg xs max_tokens meta by_sc)) \<le> 4 * max_tokens + 3 * int (length xs) + int H + 5"
proof -
  have *: "mset (ordered_chunks cfg by_sc xs) = mset xs"
    by (simp add: ordered_chunks_def Let_def mset_reorder_chunks)
  have "length ((if meta then chunk_header (fmt_score cfg) else (\<lambda>c s. [])) c s) \<le> H"
    if "(c, s) \<in> set (ordered_chunks cfg by_sc xs)" for c s
    using assms(1) [of c s] that mset_eq_setD [OF *] by simp
  note assemble_length [where header = "if meta then chunk_header (fmt_score cfg) else (\<lambda>c s. [])"
      and xs = "ordered_chunks cfg by_sc xs", OF this order_refl assms(2)]
  then show ?thesis by (simp add: build_context_parts [OF assms(2)] mset_eq_length [OF *])
qed

theorem context_length_bound_witness:
  "int (length (build_context sample_context_config [([(''text'', ''abcdefgh'')], 1)] 60 True True)) \<le> 279"
  by (rule order_trans [OF context_length_bound [where H = 31]])
    (simp_all add: chunk_header_def dict_getd_def sample_context_config_def)

subsection \<open>Version resolution\<close>

lemma group_by_snoc:
  "group_by key (xs @ [x]) = dict_set (key x) (dict_getd (group_by key xs) (key x) [] @ [x]) (group_by key xs)"
  by (simp add: group_by_def)

lemma group_by_spec:
  "dict_ok (group_by key xs) \<and>
   map_of (group_by key xs) = (\<lambda>k. if k \<in> key ` set xs then Some (filter (\<lambda>x. key x = k) xs) else None)"
proof (induction xs rule: rev_induct)
  case (snoc x xs)
  then show ?case
    by (intro conjI ext) (auto simp: group_by_snoc dict_getd_def filter_empty_conv image_iff eq_commute [of "[]"])
qed (simp add: group_by_def)

lemma dict_values_keys: "dict_ok d \<Longrightarrow> dict_values d = map (\<lambda>k. the (map_of d k)) (dict_keys d)"
  by (auto simp: dict_values_def dict_keys_def dict_ok_def)

lemma group_by_values:
  "dict_values (group_by key xs) = map (\<lambda>k. filter (\<lambda>x. key x = k) xs) (dict_keys (group_by key xs))"
  "set (dict_keys (group_by key xs)) = key ` set xs" "distinct (dict_keys (group_by key xs))"
proof -
  have ok: "dict_ok (group_by key xs)" and
    map: "map_of (group_by key xs) = (\<lambda>k. if k \<in> key ` set xs then Some (filter (\<lambda>x. key x = k) xs) else None)"
    using group_by_spec [of key xs] by blast+
  show keys: "set (dict_keys (group_by key xs)) = key ` set xs"
    by (simp only: set_dict_keys map dom_if) auto
  show "dict_values (group_by key xs) = map (\<lambda>k. filter (\<lambda>x. key x = k) xs) (dict_keys (group_by key xs))"
    unfolding dict_values_keys [OF ok] using keys by (auto simp: map simp del: set_dict_keys)
  show "distinct (dict_keys (group_by key xs))"
    using ok by (simp add: dict_ok_def dict_keys_def)
qed

lemma max_by_in: "max_by f x xs \<in> set (x # xs)"
  by (induction xs arbitrary: x) auto

lemma max_by_greatest: "y \<in> set (x # xs) \<Longrightarrow> f y \<le> f (max_by f x xs)"
proof (induction xs arbitrary: x y)
  case (Cons z zs)
  have "f x \<le> f (max_by f x zs)" "f z \<le> f (max_by f z zs)" by (simp_all add: Cons.IH)
  then show ?case using Cons by (auto dest: order.trans less_imp_le simp: not_less)
qed simp

lemma filter_key_concat:
  assumes "distinct ks" and "\<And>k x. k \<in> set ks \<Longrightarrow> x \<in> set (f k) \<Longrightarrow> key x = k"
  shows "filter (\<lambda>x. key x = k) (concat (map f ks)) = (if k \<in> set ks then f k else [])"
  using assms
proof (induction ks)
  case (Cons a ks)
  have "filter (\<lambda>x. key x = k) (f a) = (if a = k then f a else [])"
    using Cons.prems(2) [of a] by (auto simp: filter_empty_conv filter_id_conv)
  then show ?case using Cons by auto
qed simp

lemma resolve_group_sub: "grp \<noteq> [] \<Longrightarrow> set (resolve_group requested grp) \<subseteq> set grp"
  using max_by_in [of "\<lambda>x. version_key (fst x)" "hd grp" "tl grp"]
  by (auto simp: resolve_group_def Let_def)

lemma resolve_versions_by_source:
  "filter (\<lambda>x. source_of x = s) (resolve_versions requested xs) =
     (if s \<in> source_of ` set xs then resolve_group requested (filter (\<lambda>x. source_of x = s) xs) else [])"
proof -
  let ?ks = "dict_keys (group_by source_of xs)"
  let ?f = "\<lambda>k. resolve_group requested (filter (\<lambda>x. source_of x = k) xs)"
  have eq: "resolve_versions requested xs = concat (map ?f ?ks)"
    by (simp add: resolve_versions_def group_by_values(1) comp_def)
  have "source_of x = k" if "k \<in> set ?ks" "x \<in> set (?f k)" for k x
  proof -
    have "filter (\<lambda>x. source_of x = k) xs \<noteq> []"
      using that(1) unfolding group_by_values(2) by (auto simp: filter_empty_conv)
    then show ?thesis using resolve_group_sub [of "filter (\<lambda>x. source_of x = k) xs" requested] that(2) by auto
  qed
  from filter_key_concat [where f = ?f and key = source_of and ks = ?ks, OF group_by_values(3) this, where k = s]
  show ?thesis unfolding eq group_by_values(2) by simp
qed

text \<open>Version resolution works on each source on its own. When some chunk of the source has the requested version, all
  chunks of that version are kept; otherwise exactly one chunk of the source is kept, the first one of the highest
  version, and its other chunks of the same version are dropped too.\<close>

theorem resolve_versions_spec:
  assumes "s \<in> source_of ` set xs"
  shows "if truthy_str requested \<and> (\<exists>x \<in> set xs. source_of x = s \<and> dict_get (fst x) ''version'' = requested)
    then filter (\<lambda>x. source_of x = s) (resolve_versions requested xs) =
      filter (\<lambda>x. source_of x = s \<and> dict_get (fst x) ''version'' = requested) xs
    else (\<exists>best \<in> set xs. filter (\<lambda>x. source_of x = s) (resolve_versions requested xs) = [best] \<and>
      source_of best = s \<and>
      (\<forall>x \<in> set xs. source_of x = s \<longrightarrow> version_key (fst x) \<le> version_key (fst best)))"
    (is "if ?found then ?all else ?one")
proof -
  let ?grp = "filter (\<lambda>x. source_of x = s) xs"
  let ?kept = "filter (\<lambda>x. source_of x = s) (resolve_versions requested xs)"
  have kept: "?kept = resolve_group requested ?grp"
    using assms(1) by (simp add: resolve_versions_by_source)
  have some: "filter (\<lambda>x. dict_get (fst x) ''version'' = requested) ?grp \<noteq> [] \<longleftrightarrow>
      (\<exists>x \<in> set xs. source_of x = s \<and> dict_get (fst x) ''version'' = requested)"
    unfolding filter_filter filter_empty_conv by blast
  have ?all if ?found
    using that some unfolding kept resolve_group_def Let_def by (simp add: filter_filter conj_commute)
  moreover have ?one if *: "\<not> ?found"
  proof -
    define best where "best = max_by (\<lambda>x. version_key (fst x)) (hd ?grp) (tl ?grp)"
    have "?grp \<noteq> []" using assms(1) by (auto simp: filter_empty_conv)
    then have grp: "hd ?grp # tl ?grp = ?grp" by simp
    have "best \<in> set ?grp" using max_by_in [of _ "hd ?grp" "tl ?grp"] unfolding best_def grp .
    moreover have "version_key (fst x) \<le> version_key (fst best)" if "x \<in> set ?grp" for x
      using max_by_greatest [of x "hd ?grp" "tl ?grp"] that unfolding best_def grp .
    moreover have "?kept = [best]"
      using * some unfolding kept resolve_group_def Let_def best_def by auto
    ultimately show ?thesis by auto
  qed
  ultimately show ?thesis by simp
qed

theorem resolve_versions_spec_witness:
  "\<exists>best \<in> set [([(''version'', ''1.2''), (''text'', ''a'')], 1 :: real), ([(''version'', ''1.10''), (''text'', ''b'')], 1),
                ([(''version'', ''1.10''), (''text'', ''c'')], 1)].
     filter (\<lambda>x. source_of x = ''unknown'')
       (resolve_versions None [([(''version'', ''1.2''), (''text'', ''a'')], 1), ([(''version'', ''1.10''), (''text'', ''b'')], 1),
                ([(''version'', ''1.10''), (''text'', ''c'')], 1)]) = [best]"
proof -
  let ?xs = "[([(''version'', ''1.2''), (''text'', ''a'')], 1 :: real), ([(''version'', ''1.10''), (''text'', ''b'')], 1),
                ([(''version'', ''1.10''), (''text'', ''c'')], 1)]"
  have "''unknown'' \<in> source_of ` set ?xs"
    unfolding list.set(2) image_insert insert_iff source_of_def dict_getd_def by simp
  from resolve_versions_spec [OF this, of None] show ?thesis
    by (simp only: truthy_str_def simp_thms if_False) blast
qed

end
