(* ===== verification/Rerank.thy ===== *)
theory Rerank
  imports Circuit_Breaker Embedding_Cache "HOL-Library.Multiset"
begin

text \<open>
  Reranking, \<^verbatim>\<open>proxy/app/core/rerank.py\<close>: the guarded call of the cross-encoder, the score cache, the adaptive cut,
  \<^verbatim>\<open>rerank_chunks\<close>, late interaction, \<^verbatim>\<open>hybrid_rerank\<close>, the two-stage reranker and the training pairs. The cross-encoder,
  the fast encoder, MD5, and the conversion of floats to texts and back are parameters. Fine-tuning is a call into
  libraries and is not modelled.
\<close>

subsection \<open>Scores of the cross-encoder\<close>

record rerank_env =
  predict :: "(string \<times> string) list \<Rightarrow> exn + real list"
  reranker_loaded :: bool
  \<comment> \<open>\<^verbatim>\<open>reranker is not None\<close> once \<^verbatim>\<open>initialize_reranker\<close> has run\<close>
  rr_md5 :: "string \<Rightarrow> string"
  float_str :: "real \<Rightarrow> string"
  float_of :: "string \<Rightarrow> real option"
  RERANKER_MAX_LENGTH :: int
  ADAPTIVE_TOP_K_ENABLED :: bool
  ADAPTIVE_TOP_K_MIN :: int

definition truncate_text :: "int \<Rightarrow> string \<Rightarrow> string" where
  "truncate_text max_tokens text =
     (let max_chars = max_tokens * 4 in if int (length text) > max_chars then slice_to max_chars text else text)"

definition call_reranker_safe ::
  "rerank_env \<Rightarrow> real \<times> real \<times> real \<Rightarrow> (string \<times> string) list \<Rightarrow> breakers \<Rightarrow> (exn + real list) \<times> breakers" where
  "call_reranker_safe E clk pairs bs =
     (if \<not> reranker_loaded E then (Inr (replicate (length pairs) (5/10)), bs)
      else
        (let (now, t1, t2) = clk;
             (b, bs) = get_breaker ''reranker'' 5 30 2 bs;
             (r, b) = call_sync now t1 t2 (\<lambda>b. (predict E pairs, b)) b;
             bs = dict_set ''reranker'' b bs
         in case r of
              Inl (CircuitBreakerOpenError n) \<Rightarrow> (Inr (replicate (length pairs) (5/10)), bs)
            | _ \<Rightarrow> (r, bs)))"

definition get_cache_key :: "rerank_env \<Rightarrow> string \<Rightarrow> string \<Rightarrow> string" where
  "get_cache_key E query chunk_text = ''rerank:'' @ rr_md5 E (query @ ''|'' @ chunk_text)"

definition py_float :: "rerank_env \<Rightarrow> json \<Rightarrow> exn + real" where
  \<comment> \<open>\<^verbatim>\<open>float(v)\<close>\<close>
  "py_float E v =
     (case v of
        JStr s \<Rightarrow> (case float_of E s of Some x \<Rightarrow> Inr x | None \<Rightarrow> Inl (ValueError ''could not convert string to float''))
      | JInt i \<Rightarrow> Inr (real_of_int i)
      | JFloat x \<Rightarrow> Inr x
      | JBool c \<Rightarrow> Inr (if c then 1 else 0)
      | _ \<Rightarrow> Inl (PyException ''TypeError'' ''float() argument''))"

subsection \<open>The adaptive cut\<close>

fun best_above :: "real \<Rightarrow> real \<Rightarrow> int \<Rightarrow> int \<times> real \<Rightarrow> int \<Rightarrow> real list \<Rightarrow> int \<times> real" where
  \<comment> \<open>the loop that looks for the score furthest above the chord\<close>
  "best_above first spread n best i [] = best"
| "best_above first spread n best i (s # ss) =
     (let chord_y = first - spread * (real_of_int i / real_of_int (n - 1));
          above = s - chord_y
      in best_above first spread n (if above > snd best then (i, above) else best) (i + 1) ss)"

definition adaptive_top_k :: "int \<Rightarrow> real list \<Rightarrow> int \<Rightarrow> real \<Rightarrow> int" where
  "adaptive_top_k k_min sorted_scores requested_k sensitivity =
     (if requested_k \<le> 0 then 0
      else
        (let n = min (int (length sorted_scores)) requested_k in
         if n \<le> k_min then n
         else
           (let scores = slice_to n sorted_scores;
                spread = hd scores - last scores
            in if spread \<le> 1 / 10 ^ 9 then requested_k
               else
                 (let best_idx = fst (best_above (hd scores) spread n (-1, (5/100) * spread) 0 scores) in
                  if best_idx < 0 then requested_k
                  else
                    (let knee = best_idx + 1;
                         relaxed = knee + py_round (real_of_int (requested_k - knee) * (1 - min (max sensitivity 0) 1))
                     in max k_min (min requested_k relaxed))))))"

subsection \<open>Ranking\<close>

fun lookup_scores ::
  "'s backend \<Rightarrow> rerank_env \<Rightarrow> real \<Rightarrow> (string \<times> string) list \<Rightarrow> 's cache_manager
   \<Rightarrow> (exn + real option list) \<times> 's cache_manager" where
  "lookup_scores b E now [] cm = (Inr [], cm)"
| "lookup_scores b E now ((q, c) # ps) cm =
     (let (cached, cm) = cache_get b now (get_cache_key E q c) cm in
      if cached \<noteq> JNull then
        (case py_float E cached of
           Inl e \<Rightarrow> (Inl e, cm)
         | Inr x \<Rightarrow> (let (r, cm) = lookup_scores b E now ps cm in (map_sum id (\<lambda>xs. Some x # xs) r, cm)))
      else (let (r, cm) = lookup_scores b E now ps cm in (map_sum id (\<lambda>xs. None # xs) r, cm)))"

abbreviation IndexError :: exn where
  "IndexError \<equiv> PyException ''IndexError'' ''list index out of range''"

fun store_scores ::
  "'s backend \<Rightarrow> rerank_env \<Rightarrow> real \<Rightarrow> (string \<times> string) list \<Rightarrow> real list \<Rightarrow> 's cache_manager
   \<Rightarrow> exn option \<times> 's cache_manager" where
  "store_scores b E now [] computed cm = (None, cm)"
| "store_scores b E now (p # ps) [] cm = (Some IndexError, cm)"
| "store_scores b E now ((q, c) # ps) (x # xs) cm =
     store_scores b E now ps xs (snd (cache_set b now (get_cache_key E q c) (JStr (float_str E x)) 3600 cm))"

fun fill_scores :: "real option list \<Rightarrow> real list \<Rightarrow> real list" where
  \<comment> \<open>\<^verbatim>\<open>scores[j] = computed[idx]\<close> for the indices that were not cached\<close>
  "fill_scores [] xs = []"
| "fill_scores (Some s # ss) xs = s # fill_scores ss xs"
| "fill_scores (None # ss) (x # xs) = x # fill_scores ss xs"
| "fill_scores (None # ss) [] = 0 # fill_scores ss []"

definition uncached_pairs :: "(string \<times> string) list \<Rightarrow> real option list \<Rightarrow> (string \<times> string) list" where
  "uncached_pairs pairs opts = map fst (filter (\<lambda>(p, s). s = None) (zip pairs opts))"

definition cached_scores ::
  "'s backend \<Rightarrow> rerank_env \<Rightarrow> real \<Rightarrow> real \<times> real \<times> real \<Rightarrow> (string \<times> string) list \<Rightarrow> breakers \<Rightarrow> 's cache_manager
   \<Rightarrow> (exn + real list) \<times> breakers \<times> 's cache_manager" where
  "cached_scores b E now clk pairs bs cm =
     (case lookup_scores b E now pairs cm of
        (Inl e, cm) \<Rightarrow> (Inl e, bs, cm)
      | (Inr opts, cm) \<Rightarrow>
          (let uncached = uncached_pairs pairs opts in
           if uncached \<noteq> [] then
             (case call_reranker_safe E clk uncached bs of
                (Inl e, bs) \<Rightarrow> (Inl e, bs, cm)
              | (Inr computed, bs) \<Rightarrow>
                  (case store_scores b E now uncached computed cm of
                     (Some e, cm) \<Rightarrow> (Inl e, bs, cm)
                   | (None, cm) \<Rightarrow> (Inr (fill_scores opts computed), bs, cm)))
           else (Inr (fill_scores opts []), bs, cm)))"

definition rank_indices :: "rerank_env \<Rightarrow> int \<Rightarrow> real list \<Rightarrow> nat list" where
  "rank_indices E top_k scores =
     (let indexed_scores = sort_key (\<lambda>x. - snd x) (enumerate 0 scores);
          effective_k = (if ADAPTIVE_TOP_K_ENABLED E
                         then adaptive_top_k (ADAPTIVE_TOP_K_MIN E) (map snd indexed_scores) top_k (5/10) else top_k)
      in map fst (slice_to effective_k indexed_scores))"

definition rerank_chunks ::
  "'s backend \<Rightarrow> rerank_env \<Rightarrow> real \<Rightarrow> real \<times> real \<times> real \<Rightarrow> string \<Rightarrow> string list \<Rightarrow> int \<Rightarrow> bool
   \<Rightarrow> breakers \<times> 's cache_manager \<Rightarrow> (exn + nat list) \<times> breakers \<times> 's cache_manager" where
  "rerank_chunks b E now clk query chunks top_k use_cache st =
     (if chunks = [] then (Inr [], st)
      else
        (let (bs, cm) = st;
             pairs = map (\<lambda>c. (query, truncate_text (RERANKER_MAX_LENGTH E) c)) chunks;
             (r, st) = (if use_cache then cached_scores b E now clk pairs bs cm
                        else (let (r, bs) = call_reranker_safe E clk pairs bs in (r, bs, cm)))
         in (map_sum id (rank_indices E top_k) r, st)))"

definition rerank_chunks_with_scores ::
  "'s backend \<Rightarrow> rerank_env \<Rightarrow> real \<Rightarrow> real \<times> real \<times> real \<Rightarrow> string \<Rightarrow> string list \<Rightarrow> int \<Rightarrow> bool
   \<Rightarrow> breakers \<times> 's cache_manager \<Rightarrow> (exn + (nat \<times> real) list) \<times> breakers \<times> 's cache_manager" where
  "rerank_chunks_with_scores b E now clk query chunks top_k use_cache st =
     (case rerank_chunks b E now clk query chunks top_k use_cache st of
        (Inl e, st) \<Rightarrow> (Inl e, st)
      | (Inr indices, st) \<Rightarrow>
          (if \<not> reranker_loaded E then (Inr (zip indices (replicate (length indices) 0)), st)
           else (map_sum id (zip indices)
                   (predict E (map (\<lambda>i. (query, truncate_text (RERANKER_MAX_LENGTH E) (chunks ! i))) indices)), st)))"

subsection \<open>Late interaction\<close>

definition dot :: "real list \<Rightarrow> real list \<Rightarrow> real" where
  "dot a b = sum_list (map (\<lambda>(x, y). x * y) (zip a b))"

definition cosine_similarity_single :: "real list \<Rightarrow> real list \<Rightarrow> real" where
  "cosine_similarity_single a b =
     (let norm_a = sqrt (dot a a); norm_b = sqrt (dot b b)
      in if norm_a = 0 \<or> norm_b = 0 then 0 else dot a b / (norm_a * norm_b))"

definition colbert_score :: "real list list \<Rightarrow> real list list \<Rightarrow> real" where
  "colbert_score query_tokens doc_tokens =
     (if query_tokens = [] \<or> doc_tokens = [] then 0
      else sum_list (map (\<lambda>q. foldl (\<lambda>m d. max m (cosine_similarity_single q d)) 0 doc_tokens) query_tokens)
           / real (length query_tokens))"

record doc =
  doc_text :: string
  doc_tokens :: "(real list list \<times> real list list) option"
  \<comment> \<open>\<^verbatim>\<open>metadata\<close> with \<^verbatim>\<open>query_tokens\<close> and \<^verbatim>\<open>colbert_tokens\<close>\<close>

record ranked_doc =
  ranked :: doc
  first_score :: real
  \<comment> \<open>\<^verbatim>\<open>colbert_score\<close>, or \<^verbatim>\<open>fast_score\<close>\<close>
  cross_score :: real
  final_score :: real

definition colbert_of :: "doc \<Rightarrow> real" where
  "colbert_of d = (case doc_tokens d of Some (q, t) \<Rightarrow> colbert_score q t | None \<Rightarrow> 0)"

definition hybrid_rerank ::
  "'s backend \<Rightarrow> rerank_env \<Rightarrow> real \<Rightarrow> real \<times> real \<times> real \<Rightarrow> string \<Rightarrow> doc list \<Rightarrow> real \<Rightarrow> real
   \<Rightarrow> breakers \<times> 's cache_manager \<Rightarrow> (exn + ranked_doc list) \<times> breakers \<times> 's cache_manager" where
  "hybrid_rerank b E now clk query documents colbert_weight cross_encoder_weight st =
     (if documents = [] then (Inr [], st)
      else
        (let colbert_scores = map colbert_of documents in
         case rerank_chunks b E now clk query (map doc_text documents) 20 True st of
           (Inl e, st) \<Rightarrow> (Inl e, st)
         | (Inr cross_scores, st) \<Rightarrow>
             (if length cross_scores < length documents then (Inl IndexError, st)
              else
                (let combined = map (\<lambda>(i, d).
                       \<lparr>ranked = d, first_score = colbert_scores ! i, cross_score = real (cross_scores ! i),
                        final_score = colbert_weight * (colbert_scores ! i) + cross_encoder_weight * real (cross_scores ! i)\<rparr>)
                       (enumerate 0 documents)
                 in (Inr (sort_key (\<lambda>d. - final_score d) combined), st)))))"

subsection \<open>Two stages\<close>

record 'v two_stage =
  fast_top_k :: int
  final_top_k :: int
  query_embed_cache :: "(string, 'v) dict"
  doc_embed_cache :: "(string, 'v) dict"

record 'v fast_encoder =
  encode_query :: "string \<Rightarrow> 'v option"
  encode_docs :: "string list \<Rightarrow> 'v list option"
  dot_all :: "'v list \<Rightarrow> 'v \<Rightarrow> real list option"
  \<comment> \<open>\<open>None\<close> where the call raises\<close>

definition MODEL_MAX_LENGTHS :: "(string, int) dict" where
  "MODEL_MAX_LENGTHS =
     [(''BAAI/bge-reranker-v2-m3'', 8192), (''BAAI/bge-reranker-large'', 512), (''BAAI/bge-reranker-base'', 512),
      (''cross-encoder/ms-marco-MiniLM-L-6-v2'', 512), (''cross-encoder/ms-marco-MiniLM-L-12-v2'', 512),
      (''cross-encoder/ms-marco-MiniLM-L-4-v2'', 512), (''mixedbread-ai/mxbai-rerank-large-v1'', 512)]"

fun contains :: "string \<Rightarrow> string \<Rightarrow> bool" where
  \<comment> \<open>\<^verbatim>\<open>sub in s\<close>\<close>
  "contains sub [] = (sub = [])"
| "contains sub (c # cs) = (take (length sub) (c # cs) = sub \<or> contains sub cs)"

definition detect_max_length :: "string option \<Rightarrow> int" where
  "detect_max_length cross_encoder_model =
     (let model_name = (case cross_encoder_model of Some m \<Rightarrow> m | None \<Rightarrow> []) in
      case dict_get MODEL_MAX_LENGTHS model_name of
        Some n \<Rightarrow> n
      | None \<Rightarrow> if contains ''v2'' model_name \<and> contains ''reranker'' (py_lower model_name) then 8192 else 512)"

fun fill_embs :: "'v option list \<Rightarrow> 'v list \<Rightarrow> 'v list" where
  "fill_embs [] es = []"
| "fill_embs (Some e # os) es = e # fill_embs os es"
| "fill_embs (None # os) (e # es) = e # fill_embs os es"
| "fill_embs (None # os) [] = []"

definition query_embedding :: "'v fast_encoder \<Rightarrow> string \<Rightarrow> 'v two_stage \<Rightarrow> 'v option \<times> 'v two_stage" where
  "query_embedding F query t =
     (case dict_get (query_embed_cache t) query of
        Some e \<Rightarrow> (Some e, t)
      | None \<Rightarrow>
          (case encode_query F query of
             None \<Rightarrow> (None, t)
           | Some e \<Rightarrow>
               (let c = dict_set query e (query_embed_cache t)
                in (Some e, t\<lparr>query_embed_cache := (if length c > 256 then tl c else c)\<rparr>))))"

definition remember_doc :: "(string, 'v) dict \<Rightarrow> string \<times> 'v \<Rightarrow> (string, 'v) dict" where
  "remember_doc c p = (if length c < 1024 then dict_set (fst p) (snd p) c else c)"

definition fast_score :: "'v fast_encoder option \<Rightarrow> string \<Rightarrow> string list \<Rightarrow> 'v two_stage \<Rightarrow> real list \<times> 'v two_stage" where
  "fast_score encoder query documents t =
     (let neutral = replicate (length documents) (5/10) in
      case encoder of
        None \<Rightarrow> (neutral, t)
      | Some F \<Rightarrow>
          (case query_embedding F query t of
             (None, t) \<Rightarrow> (neutral, t)
           | (Some query_emb, t) \<Rightarrow>
               (let found = map (dict_get (doc_embed_cache t)) documents;
                    uncached_docs = filter (\<lambda>d. \<not> dict_has (doc_embed_cache t) d) documents
                in case (if uncached_docs \<noteq> [] then encode_docs F uncached_docs else Some []) of
                     None \<Rightarrow> (neutral, t)
                   | Some new_embs \<Rightarrow>
                       (let t = t\<lparr>doc_embed_cache := foldl remember_doc (doc_embed_cache t) (zip uncached_docs new_embs)\<rparr>
                        in if length new_embs < length uncached_docs then (neutral, t)
                           else (case dot_all F (fill_embs found new_embs) query_emb of
                                   None \<Rightarrow> (neutral, t)
                                 | Some scores \<Rightarrow> (scores, t))))))"

definition cross_encoder_score ::
  "'s backend \<Rightarrow> rerank_env \<Rightarrow> real \<Rightarrow> real \<times> real \<times> real \<Rightarrow> string \<Rightarrow> string list
   \<Rightarrow> breakers \<times> 's cache_manager \<Rightarrow> (exn + real list) \<times> breakers \<times> 's cache_manager" where
  "cross_encoder_score b E now clk query documents st =
     (let (r, st) = rerank_chunks b E now clk query documents (int (length documents)) True st
      in (map_sum id (map real) r, st))"

definition two_stage_rerank ::
  "'s backend \<Rightarrow> rerank_env \<Rightarrow> 'v fast_encoder option \<Rightarrow> real \<Rightarrow> real \<times> real \<times> real \<Rightarrow> string \<Rightarrow> doc list
   \<Rightarrow> 'v two_stage \<Rightarrow> breakers \<times> 's cache_manager
   \<Rightarrow> (exn + ranked_doc list) \<times> 'v two_stage \<times> breakers \<times> 's cache_manager" where
  "two_stage_rerank b E encoder now clk query documents t st =
     (if documents = [] then (Inr [], t, st)
      else
        (let (fast_scores, t) = fast_score encoder query (map doc_text documents) t;
             scored_docs = sort_key (\<lambda>x. - snd x) (zip documents fast_scores);
             top_fast = slice_to (fast_top_k t) scored_docs
         in case cross_encoder_score b E now clk query (map (\<lambda>(d, s). doc_text d) top_fast) st of
              (Inl e, st) \<Rightarrow> (Inl e, t, st)
            | (Inr cross_scores, st) \<Rightarrow>
                (let results = map (\<lambda>(i, d, fs).
                       (let cs = (if i < length cross_scores then cross_scores ! i else 0)
                        in \<lparr>ranked = d, first_score = fs, cross_score = cs, final_score = (2/10) * fs + (8/10) * cs\<rparr>))
                       (enumerate 0 top_fast)
                 in (Inr (slice_to (final_top_k t) (sort_key (\<lambda>d. - final_score d) results)), t, st))))"

subsection \<open>Training pairs from feedback\<close>

record feedback_file =
  fb_query :: string
  fb_chunks :: "(string \<times> string) list"
  \<comment> \<open>\<^verbatim>\<open>id\<close> and \<^verbatim>\<open>text\<close>\<close>
  positive_ids :: "string set"
  negative_ids :: "string set"

definition file_pairs :: "feedback_file \<Rightarrow> (string \<times> string \<times> real) list" where
  "file_pairs data =
     concat (map (\<lambda>(cid, text).
         if text = [] then []
         else if cid \<in> positive_ids data then [(fb_query data, text, 1)]
         else if cid \<in> negative_ids data then [(fb_query data, text, 0)]
         else [])
       (dict_update [] (fb_chunks data)))"

definition collect_training_pairs :: "bool \<Rightarrow> feedback_file option list option \<Rightarrow> (string \<times> string \<times> real) list" where
  \<comment> \<open>the files of the feedback directory in the order of their names, \<open>None\<close> where one cannot be read\<close>
  "collect_training_pairs RERANKER_FT_ENABLED feedback_dir =
     (if \<not> RERANKER_FT_ENABLED then []
      else (case feedback_dir of
              None \<Rightarrow> []
            | Some files \<Rightarrow> concat (map (\<lambda>f. case f of None \<Rightarrow> [] | Some data \<Rightarrow> file_pairs data) files)))"

subsection \<open>The adaptive cut stays within its bounds\<close>

lemma adaptive_top_k_upper:
  "1 \<le> k_min \<Longrightarrow> 0 < k \<Longrightarrow> adaptive_top_k k_min scores k sensitivity \<le> k"
  by (auto simp: adaptive_top_k_def Let_def min_def max_def)

lemma adaptive_top_k_lower:
  "1 \<le> k_min \<Longrightarrow> 0 < k \<Longrightarrow> min (min (int (length scores)) k) k_min \<le> adaptive_top_k k_min scores k sensitivity"
  by (auto simp: adaptive_top_k_def Let_def min_def max_def)

text \<open>The number of chunks after the adaptive cut is at most the requested one and at least the configured minimum, or all
  there are when these are fewer.\<close>

theorem adaptive_top_k_bounds:
  assumes "1 \<le> k_min" and "0 < requested_k"
  shows "min (min (int (length scores)) requested_k) k_min \<le> adaptive_top_k k_min scores requested_k sensitivity \<and>
    adaptive_top_k k_min scores requested_k sensitivity \<le> requested_k"
  using adaptive_top_k_lower [OF assms] adaptive_top_k_upper [OF assms] by blast

theorem adaptive_top_k_bounds_witness:
  "adaptive_top_k 3 [1, 1, 1, 1] 4 (1/2) \<le> 4"
  using adaptive_top_k_bounds [of 3 4 "[1, 1, 1, 1]" "1/2"] by simp

subsection \<open>The ranking\<close>

lemma ranked_enumerate:
  fixes scores :: "real list"
  defines "s \<equiv> sort_key (\<lambda>x. - snd x) (enumerate 0 scores)"
  shows "distinct (map fst s)" and "set s = set (enumerate 0 scores)" and "length s = length scores"
    and "sorted_wrt (\<lambda>x y. snd y \<le> snd x) s"
proof -
  have "mset (map fst s) = mset (map fst (enumerate 0 scores))" by (simp only: s_def mset_map mset_sort)
  then have "mset (map fst s) = mset [0..<length scores]" by (simp only: map_fst_enumerate add_0)
  then show "distinct (map fst s)" by (metis distinct_upt mset_eq_imp_distinct_iff)
  show "set s = set (enumerate 0 scores)" "length s = length scores" by (simp_all add: s_def)
  have "sorted (map (\<lambda>x. - snd x) s)" by (simp add: s_def)
  then show "sorted_wrt (\<lambda>x y. snd y \<le> snd x) s" by (simp add: sorted_wrt_map)
qed

text \<open>Reranking returns the positions of the chunks with the highest scores: no position twice, as many as asked for or
  all there are, in descending order of score, and no chunk that is left out scores higher than one that is returned.\<close>

theorem rank_indices_top:
  assumes "\<not> ADAPTIVE_TOP_K_ENABLED E" and "0 \<le> top_k"
  shows "distinct (rank_indices E top_k scores) \<and>
    set (rank_indices E top_k scores) \<subseteq> {..<length scores} \<and>
    length (rank_indices E top_k scores) = min (nat top_k) (length scores) \<and>
    sorted_wrt (\<lambda>i j. scores ! j \<le> scores ! i) (rank_indices E top_k scores) \<and>
    (\<forall>i \<in> set (rank_indices E top_k scores). \<forall>j < length scores.
       j \<notin> set (rank_indices E top_k scores) \<longrightarrow> scores ! j \<le> scores ! i)"
proof -
  define s where "s = sort_key (\<lambda>x. - snd x) (enumerate 0 scores)"
  note s = ranked_enumerate [where scores = scores, folded s_def]
  have r: "rank_indices E top_k scores = take (nat top_k) (map fst s)"
    using assms by (simp add: rank_indices_def s_def [symmetric] slice_to_def take_map)
  have s_eq: "s = map (\<lambda>i. (i, scores ! i)) (map fst s)"
  proof (rule nth_equalityI)
    fix i assume "i < length s"
    then have "s ! i \<in> set (enumerate 0 scores)" unfolding s(2) [symmetric] by (rule nth_mem)
    then show "s ! i = map (\<lambda>i. (i, scores ! i)) (map fst s) ! i"
      using \<open>i < length s\<close> by (auto simp: in_set_enumerate_eq prod_eq_iff)
  qed simp
  have sorted: "sorted_wrt (\<lambda>i j. scores ! j \<le> scores ! i) (map fst s)"
    using s(4) by (subst (asm) s_eq) (simp add: sorted_wrt_map)
  have "set (map fst s) = set (map fst (enumerate 0 scores))" by (simp only: set_map s(2))
  then have set: "set (map fst s) = {..<length scores}" by (simp only: map_fst_enumerate) auto
  show ?thesis
    unfolding r using s(1,3) set sorted sorted_prefix_dominates [OF sorted]
    by (auto simp: sorted_wrt_take dest: in_set_takeD)
qed

definition sample_rerank_env :: rerank_env where
  "sample_rerank_env =
     \<lparr>predict = (\<lambda>ps. Inr (map (\<lambda>(q, c). if last (''|'' @ c) = CHR ''b'' then 1 else 0) ps)), reranker_loaded = True,
      rr_md5 = (\<lambda>s. s), float_str = (\<lambda>x. if x = 1 then ''1'' else if x = 0 then ''0'' else ''0.5''),
      float_of = (\<lambda>s. if s = ''1'' then Some 1 else if s = ''0'' then Some 0 else Some (1/2)),
      RERANKER_MAX_LENGTH = 8, ADAPTIVE_TOP_K_ENABLED = False, ADAPTIVE_TOP_K_MIN = 3\<rparr>"

theorem rank_indices_top_witness:
  "length (rank_indices sample_rerank_env 2 [1, 3, 2]) = 2"
proof -
  have "\<not> ADAPTIVE_TOP_K_ENABLED sample_rerank_env" "(0 :: int) \<le> 2" by (simp_all add: sample_rerank_env_def)
  from rank_indices_top [OF this, of "[1, 3, 2]"] show ?thesis by (elim conjE) simp
qed

subsection \<open>The score cache\<close>

definition scores_right ::
  "('s cache_manager \<Rightarrow> real \<Rightarrow> string \<Rightarrow> json) \<Rightarrow> rerank_env \<Rightarrow> (string \<times> string) set \<Rightarrow> (string \<times> string \<Rightarrow> real) \<Rightarrow> real
   \<Rightarrow> 's cache_manager \<Rightarrow> bool" where
  \<comment> \<open>what is cached for the pairs of \<open>U\<close>, seen through \<open>view\<close>, now or later, are the texts of their scores \<open>f\<close>\<close>
  "scores_right view E U f now c \<longleftrightarrow>
     (\<forall>p \<in> U. \<forall>t. now \<le> t \<longrightarrow> view c t (get_cache_key E (fst p) (snd p)) \<in> {JNull, JStr (float_str E (f p))})"

definition score_used ::
  "('s cache_manager \<Rightarrow> real \<Rightarrow> string \<Rightarrow> json) \<Rightarrow> rerank_env \<Rightarrow> (string \<times> string \<Rightarrow> real) \<Rightarrow> (string \<times> string \<Rightarrow> real) \<Rightarrow> real
   \<Rightarrow> 's cache_manager \<Rightarrow> string \<times> string \<Rightarrow> real" where
  \<comment> \<open>the score \<open>f\<close> of a pair that is not cached, what its text reads back as, \<open>g\<close>, for one that is\<close>
  "score_used view E f g now c p = (if view c now (get_cache_key E (fst p) (snd p)) = JNull then f p else g p)"

lemma fill_scores_all:
  "fill_scores (map (\<lambda>p. if P p then None else Some (g p)) ps)
     (map f (uncached_pairs ps (map (\<lambda>p. if P p then None else Some (g p)) ps))) = map (\<lambda>p. if P p then f p else g p) ps"
  by (induction ps) (auto simp: uncached_pairs_def)

lemma set_uncached_pairs: "set (uncached_pairs ps opts) \<subseteq> set ps"
  by (auto simp: uncached_pairs_def dest: set_zip_leftD)

lemma fill_scores_cached: "fill_scores (replicate n (Some x)) [] = replicate n x"
  by (induction n) auto

lemma fill_scores_new: "fill_scores (replicate n None) (replicate n x) = replicate n x"
  by (induction n) auto

lemma uncached_none: "uncached_pairs ps (replicate (length ps) None) = ps"
  by (induction ps) (auto simp: uncached_pairs_def)

lemma uncached_some: "uncached_pairs ps (replicate (length ps) (Some x)) = []"
  by (induction ps) (auto simp: uncached_pairs_def)

context cache_backend
begin

lemma lookup_right:
  assumes "\<And>p. p \<in> U \<Longrightarrow> float_of E (float_str E (f p)) = Some (g p)" and "scores_right view E U f now c" and "set ps \<subseteq> U"
  shows "\<exists>c'. lookup_scores b E now ps c =
      (Inr (map (\<lambda>p. if view c now (get_cache_key E (fst p) (snd p)) = JNull then None else Some (g p)) ps), c') \<and>
    (\<forall>t k. now \<le> t \<longrightarrow> view c' t k = view c t k)"
  using assms(2,3)
proof (induction ps arbitrary: c)
  case (Cons p ps)
  obtain q ch where p: "p = (q, ch)" by (cases p)
  obtain v c1 where get: "cache_get b now (get_cache_key E q ch) c = (v, c1)" by fastforce
  then have v: "v = view c now (get_cache_key E q ch)" using cache_get_view by (metis fst_conv)
  have keep: "view c1 t k = view c t k" if "now \<le> t" for t k using cache_get_keeps [OF that] get by (metis snd_conv)
  then have "scores_right view E U f now c1" using Cons.prems(1) unfolding scores_right_def by simp
  from Cons.IH [OF this] Cons.prems(2) obtain c' where rest: "lookup_scores b E now ps c1 =
      (Inr (map (\<lambda>p. if view c1 now (get_cache_key E (fst p) (snd p)) = JNull then None else Some (g p)) ps), c')"
    "\<forall>t k. now \<le> t \<longrightarrow> view c' t k = view c1 t k" by auto
  have "v = JNull \<or> v = JStr (float_str E (f p))"
    using Cons.prems(1) [unfolded scores_right_def, rule_format, of p now] Cons.prems(2) unfolding v by (auto simp: p)
  then show ?case
    using get rest assms(1) [of p] Cons.prems(2) keep v by (auto simp: p py_float_def)
qed simp

lemma store_right:
  assumes "inj_on (\<lambda>p. get_cache_key E (fst p) (snd p)) U" and "scores_right view E U f now c" and "set ps \<subseteq> U"
  shows "\<exists>c'. store_scores b E now ps (map f ps) c = (None, c') \<and> scores_right view E U f now c'"
  using assms(2,3)
proof (induction ps arbitrary: c)
  case (Cons p ps)
  obtain q ch where p: "p = (q, ch)" by (cases p)
  let ?c = "snd (cache_set b now (get_cache_key E q ch) (JStr (float_str E (f p))) 3600 c)"
  have "view ?c t (get_cache_key E (fst p') (snd p')) \<in> {JNull, JStr (float_str E (f p'))}" if "now \<le> t" "p' \<in> U" for t p'
  proof (cases "p' = p")
    case False
    have "p \<in> U" using Cons.prems(2) by simp
    with inj_onD [OF assms(1), of p' p] that(2) False have "get_cache_key E (fst p') (snd p') \<noteq> get_cache_key E q ch" by (auto simp: p)
    with that Cons.prems(1) show ?thesis unfolding cache_set_view scores_right_def by simp
  qed (simp add: cache_set_view p)
  then have "scores_right view E U f now ?c" unfolding scores_right_def by blast
  from Cons.IH [OF this] Cons.prems(2) show ?case by (simp add: p)
qed simp

lemma cached_scores_right:
  assumes "\<And>p. p \<in> U \<Longrightarrow> float_of E (float_str E (f p)) = Some (g p)"
    and "inj_on (\<lambda>p. get_cache_key E (fst p) (snd p)) U"
    and "\<And>qs. set qs \<subseteq> U \<Longrightarrow> \<exists>bs'. call_reranker_safe E clk qs bs = (Inr (map f qs), bs')"
    and "scores_right view E U f now c" and "set ps \<subseteq> U"
  shows "\<exists>bs' c'. cached_scores b E now clk ps bs c = (Inr (map (score_used view E f g now c) ps), bs', c') \<and>
    scores_right view E U f now c'"
proof -
  let ?P = "\<lambda>p. view c now (get_cache_key E (fst p) (snd p)) = JNull"
  let ?opts = "map (\<lambda>p. if ?P p then None else Some (g p)) ps"
  obtain c1 where look: "lookup_scores b E now ps c = (Inr ?opts, c1)" "\<forall>t k. now \<le> t \<longrightarrow> view c1 t k = view c t k"
    using lookup_right [where f = f and g = g, OF assms(1,4,5)] by blast
  have right: "scores_right view E U f now c1" using assms(4) look(2) unfolding scores_right_def by simp
  let ?un = "uncached_pairs ps ?opts"
  have un: "set ?un \<subseteq> U" using set_uncached_pairs assms(5) by blast
  obtain bs' where call: "call_reranker_safe E clk ?un bs = (Inr (map f ?un), bs')" using assms(3) [OF un] by blast
  obtain c2 where store: "store_scores b E now ?un (map f ?un) c1 = (None, c2)" "scores_right view E U f now c2"
    using store_right [where f = f, OF assms(2) right un] by blast
  have fill: "fill_scores ?opts (map f ?un) = map (score_used view E f g now c) ps"
    unfolding fill_scores_all score_used_def ..
  show ?thesis
  proof (cases "?un = []")
    case True
    then show ?thesis using look(1) right fill by (simp add: cached_scores_def)
  next
    case False
    then show ?thesis using look(1) call store fill by (simp add: cached_scores_def)
  qed
qed

lemma lookup_none:
  assumes "\<And>p. p \<in> set ps \<Longrightarrow> view c now (get_cache_key E (fst p) (snd p)) = JNull"
  shows "\<exists>c'. lookup_scores b E now ps c = (Inr (replicate (length ps) None), c')"
  using assms
proof (induction ps arbitrary: c)
  case (Cons p ps)
  obtain q ch where p: "p = (q, ch)" by (cases p)
  obtain v c1 where get: "cache_get b now (get_cache_key E q ch) c = (v, c1)" by fastforce
  then have "v = JNull" using Cons.prems [of p] cache_get_view [of now "get_cache_key E q ch" c] by (simp add: p)
  moreover have "view c1 now (get_cache_key E (fst p') (snd p')) = JNull" if "p' \<in> set ps" for p'
    using Cons.prems [of p'] that cache_get_keeps [of now now "get_cache_key E q ch" c] get by simp
  from Cons.IH [OF this] obtain c' where "lookup_scores b E now ps c1 = (Inr (replicate (length ps) None), c')" by blast
  ultimately show ?case using get by (simp add: p)
qed simp

lemma lookup_same:
  assumes "\<And>p. p \<in> set ps \<Longrightarrow> view c now (get_cache_key E (fst p) (snd p)) = JStr s" and "float_of E s = Some x"
  shows "\<exists>c'. lookup_scores b E now ps c = (Inr (replicate (length ps) (Some x)), c')"
  using assms(1)
proof (induction ps arbitrary: c)
  case (Cons p ps)
  obtain q ch where p: "p = (q, ch)" by (cases p)
  obtain v c1 where get: "cache_get b now (get_cache_key E q ch) c = (v, c1)" by fastforce
  then have "v = JStr s" using Cons.prems [of p] cache_get_view [of now "get_cache_key E q ch" c] by (simp add: p)
  moreover have "view c1 now (get_cache_key E (fst p') (snd p')) = JStr s" if "p' \<in> set ps" for p'
    using Cons.prems [of p'] that cache_get_keeps [of now now "get_cache_key E q ch" c] get by simp
  from Cons.IH [OF this] obtain c' where "lookup_scores b E now ps c1 = (Inr (replicate (length ps) (Some x)), c')" by blast
  ultimately show ?case using get assms(2) by (simp add: p py_float_def)
qed simp

lemma store_same:
  "\<exists>c'. store_scores b E now ps (replicate (length ps) x) c = (None, c') \<and>
     (\<forall>t k. t \<le> now + 3600 \<longrightarrow>
        view c' t k = (if k \<in> (\<lambda>p. get_cache_key E (fst p) (snd p)) ` set ps then JStr (float_str E x) else view c t k))"
proof (induction ps arbitrary: c)
  case (Cons p ps)
  obtain q ch where p: "p = (q, ch)" by (cases p)
  let ?c = "snd (cache_set b now (get_cache_key E q ch) (JStr (float_str E x)) 3600 c)"
  from Cons.IH [of ?c] obtain c' where "store_scores b E now ps (replicate (length ps) x) ?c = (None, c')" and
    view: "\<And>t k. t \<le> now + 3600 \<Longrightarrow>
        view c' t k = (if k \<in> (\<lambda>p. get_cache_key E (fst p) (snd p)) ` set ps then JStr (float_str E x) else view ?c t k)"
    by blast
  then show ?case by (simp add: p cache_set_view)
qed simp

lemma neutral_scores_stay:
  assumes "\<And>p. p \<in> set ps \<Longrightarrow> view c now (get_cache_key E (fst p) (snd p)) = JNull" and "ps \<noteq> []"
    and "call_reranker_safe E clk ps bs = (Inr (replicate (length ps) x), bs1)"
    and "float_of E (float_str E x) = Some x" and "t \<le> now + 3600"
  shows "\<exists>c1. cached_scores b E now clk ps bs c = (Inr (replicate (length ps) x), bs1, c1) \<and>
    (\<exists>c2. cached_scores b (E\<lparr>predict := p'\<rparr>) t clk' ps bs2 c1 = (Inr (replicate (length ps) x), bs2, c2))"
proof -
  obtain c0 where look: "lookup_scores b E now ps c = (Inr (replicate (length ps) None), c0)"
    using lookup_none assms(1) by blast
  obtain c1 where store: "store_scores b E now ps (replicate (length ps) x) c0 = (None, c1)" and
    all: "\<And>k. view c1 t k =
      (if k \<in> (\<lambda>p. get_cache_key E (fst p) (snd p)) ` set ps then JStr (float_str E x) else view c0 t k)"
    using store_same [of E now ps x c0] assms(5) by blast
  have view: "view c1 t (get_cache_key E (fst p) (snd p)) = JStr (float_str E x)" if "p \<in> set ps" for p
    using that by (simp only: all image_eqI if_True)
  let ?E = "E\<lparr>predict := p'\<rparr>"
  have E: "get_cache_key ?E = get_cache_key E" "float_of ?E = float_of E" by (simp_all add: get_cache_key_def fun_eq_iff)
  obtain c2 where "lookup_scores b ?E t ps c1 = (Inr (replicate (length ps) (Some x)), c2)"
    using lookup_same [of ps c1 t ?E "float_str E x" x] view assms(4) unfolding E by blast
  then have "cached_scores b ?E t clk' ps bs2 c1 = (Inr (replicate (length ps) x), bs2, c2)"
    by (simp add: cached_scores_def uncached_some fill_scores_cached)
  moreover have "cached_scores b E now clk ps bs c = (Inr (replicate (length ps) x), bs1, c1)"
    using look store assms(2,3) by (simp add: cached_scores_def uncached_none fill_scores_new)
  ultimately show ?thesis by blast
qed

end

lemma closed_breaker_predicts:
  assumes "reranker_loaded E" and "predict E ps = Inr xs"
    and "cb_state (fst (get_breaker ''reranker'' 5 30 2 bs)) = CLOSED"
  shows "\<exists>bs'. call_reranker_safe E clk ps bs = (Inr xs, bs')"
  using assms by (cases clk) (auto simp: call_reranker_safe_def call_sync_def check_and_enter_def read_state_def
      maybe_transition_def Let_def split: prod.splits)

lemma open_breaker_neutral:
  assumes "reranker_loaded E" and "dict_get bs ''reranker'' = Some brk" and "cb_state brk = OPEN"
    and "t0 - opened_at brk < cooldown_seconds brk"
  shows "\<exists>bs'. call_reranker_safe E (t0, x, y) ps bs = (Inr (replicate (length ps) (5/10)), bs')"
  using assms by (simp add: call_reranker_safe_def get_breaker_def call_sync_def check_and_enter_def read_state_def
      maybe_transition_def Let_def)

text \<open>C39. What the score cache does to a ranking: if it holds, for the pairs of a set \<open>U\<close>, nothing but the texts of their
  scores \<open>f\<close>, then a request whose pairs are in \<open>U\<close> is ranked by these scores, a cached one being what its text reads back as,
  \<open>g\<close>, and the cache is still right afterwards. So the cache is transparent up to the rounding of \<^verbatim>\<open>str\<close> and \<^verbatim>\<open>float\<close>.
  (Assumed: the breaker is closed, the cross-encoder scores each pair of \<open>U\<close> on its own, and no two pairs of \<open>U\<close> have the same
  cache key; keys do collide, see \<open>cache_key_ambiguous\<close>.)\<close>

theorem rerank_cache_transparent:
  assumes "reranker_loaded E" and "\<And>ps. set ps \<subseteq> U \<Longrightarrow> predict E ps = Inr (map f ps)"
    and "cb_state (fst (get_breaker ''reranker'' 5 30 2 bs)) = CLOSED"
    and "\<And>p. p \<in> U \<Longrightarrow> float_of E (float_str E (f p)) = Some (g p)"
    and "inj_on (\<lambda>p. get_cache_key E (fst p) (snd p)) U"
    and "scores_right mem.view E U f now cm" and "chunks \<noteq> []"
    and "set (map (\<lambda>c. (query, truncate_text (RERANKER_MAX_LENGTH E) c)) chunks) \<subseteq> U"
  shows "\<exists>bs' cm'. rerank_chunks memory_backend E now clk query chunks top_k True (bs, cm) =
      (Inr (rank_indices E top_k
         (map (\<lambda>c. score_used mem.view E f g now cm (query, truncate_text (RERANKER_MAX_LENGTH E) c)) chunks)), bs', cm') \<and>
    scores_right mem.view E U f now cm'"
proof -
  let ?ps = "map (\<lambda>c. (query, truncate_text (RERANKER_MAX_LENGTH E) c)) chunks"
  have "\<exists>bs'. call_reranker_safe E clk qs bs = (Inr (map f qs), bs')" if "set qs \<subseteq> U" for qs
    by (rule closed_breaker_predicts [OF assms(1) assms(2) [OF that] assms(3)])
  from mem.cached_scores_right [where f = f and g = g and U = U, OF assms(4,5) this assms(6,8)]
  obtain bs' cm' where
    "cached_scores memory_backend E now clk ?ps bs cm = (Inr (map (score_used mem.view E f g now cm) ?ps), bs', cm')"
    "scores_right mem.view E U f now cm'" by blast
  then show ?thesis using assms(7) by (simp add: rerank_chunks_def comp_def)
qed

definition overlap :: "string \<times> string \<Rightarrow> real" where
  \<comment> \<open>the share of a chunk that occurs in the query\<close>
  "overlap p = real (length (filter (\<lambda>c. c \<in> set (fst p)) (snd p))) / real (length (snd p) + 1)"

definition rounding_env :: rerank_env where
  \<comment> \<open>scores by overlap, written with one digit, rounded down\<close>
  "rounding_env =
     sample_rerank_env\<lparr>predict := (\<lambda>ps. Inr (map overlap ps)),
       float_str := (\<lambda>x. if x \<ge> 6/10 then ''0.6'' else if x \<ge> 3/10 then ''0.3'' else ''0.0''),
       float_of := (\<lambda>s. if s = ''0.6'' then Some (6/10) else if s = ''0.3'' then Some (3/10) else Some 0)\<rparr>"

definition one_score :: "store cache_manager" where
  "one_score = snd (cache_set memory_backend 0 (get_cache_key rounding_env ''q'' ''aq'') (JStr ''0.3'') 3600 (init_cache_manager ''rag:'' []))"

lemma one_score_view:
  "mem.view one_score t k = (if k = get_cache_key rounding_env ''q'' ''aq'' then (if t \<le> 3600 then JStr ''0.3'' else JNull) else JNull)"
  by (simp add: one_score_def mem.cache_set_view) (simp add: mem.view_def live_def init_cache_manager_def)

theorem rerank_cache_transparent_witness:
  "\<exists>bs' cm'. rerank_chunks memory_backend rounding_env 0 (0, 0, 0) ''q'' [''aq'', ''qq''] 1 True ([], one_score) = (Inr [1], bs', cm')"
proof -
  let ?U = "{(''q'', ''aq''), (''q'', ''qq'')}"
  let ?g = "\<lambda>p. if p = (''q'', ''qq'') then 6/10 else (3/10 :: real)"
  have f: "overlap (''q'', ''aq'') = 1/3" "overlap (''q'', ''qq'') = 2/3" by (simp_all add: overlap_def)
  have l: "reranker_loaded rounding_env" by (simp add: rounding_env_def sample_rerank_env_def)
  have p: "predict rounding_env ps = Inr (map overlap ps)" for ps by (simp add: rounding_env_def)
  have c: "cb_state (fst (get_breaker ''reranker'' 5 30 2 [])) = CLOSED"
    by (simp add: get_breaker_def init_breaker_def Let_def)
  have r: "float_of rounding_env (float_str rounding_env (overlap p)) = Some (?g p)" if "p \<in> ?U" for p
    using that by (auto simp: f rounding_env_def)
  have k: "get_cache_key rounding_env ''q'' ''aq'' = ''rerank:q|aq''" "get_cache_key rounding_env ''q'' ''qq'' = ''rerank:q|qq''"
    by (simp_all add: get_cache_key_def rounding_env_def sample_rerank_env_def)
  have i: "inj_on (\<lambda>p. get_cache_key rounding_env (fst p) (snd p)) ?U" by (simp add: k)
  have s: "scores_right mem.view rounding_env ?U overlap 0 one_score"
    by (simp add: scores_right_def one_score_view k f) (simp add: rounding_env_def)
  have m: "RERANKER_MAX_LENGTH rounding_env = 8" by (simp add: rounding_env_def sample_rerank_env_def)
  have tr: "truncate_text 8 ''aq'' = ''aq''" "truncate_text 8 ''qq'' = ''qq''" by (simp_all add: truncate_text_def)
  have used: "score_used mem.view rounding_env overlap ?g 0 one_score (''q'', ''aq'') = 3/10"
    "score_used mem.view rounding_env overlap ?g 0 one_score (''q'', ''qq'') = 2/3"
    by (simp_all add: score_used_def one_score_view k f)
  have rank: "rank_indices rounding_env 1 [3/10, 2/3] = [1]"
    by (simp add: rank_indices_def rounding_env_def sample_rerank_env_def slice_to_def)
  show ?thesis
    using rerank_cache_transparent [where f = overlap and g = ?g and U = ?U and query = "''q''" and top_k = 1 and clk = "(0, 0, 0)"
        and chunks = "[''aq'', ''qq'']", OF l p c r i s]
    by (simp only: m tr used rank list.map list.set) blast
qed

text \<open>The neutral scores of an outage are cached like real ones: for an hour after one request has met the open breaker,
  the same request is answered in the order of the input, although breaker and cross-encoder have recovered.\<close>

theorem outage_scores_cached:
  assumes "reranker_loaded E" and "dict_get bs ''reranker'' = Some brk" and "cb_state brk = OPEN"
    and "t0 - opened_at brk < cooldown_seconds brk"
    and "\<And>c. c \<in> set chunks \<Longrightarrow>
      mem.view cm now (get_cache_key E query (truncate_text (RERANKER_MAX_LENGTH E) c)) = JNull"
    and "float_of E (float_str E (5/10)) = Some (5/10)" and "t \<le> now + 3600" and "chunks \<noteq> []"
  shows "\<exists>bs1 cm1 cm2.
    rerank_chunks memory_backend E now (t0, x, y) query chunks top_k True (bs, cm) =
      (Inr (rank_indices E top_k (replicate (length chunks) (5/10))), bs1, cm1) \<and>
    rerank_chunks memory_backend (E\<lparr>predict := p\<rparr>) t clk query chunks top_k True (bs2, cm1) =
      (Inr (rank_indices E top_k (replicate (length chunks) (5/10))), bs2, cm2)"
proof -
  let ?ps = "map (\<lambda>c. (query, truncate_text (RERANKER_MAX_LENGTH E) c)) chunks"
  obtain bs1 where call: "call_reranker_safe E (t0, x, y) ?ps bs = (Inr (replicate (length ?ps) (5/10)), bs1)"
    using open_breaker_neutral [OF assms(1-4)] by blast
  have none: "mem.view cm now (get_cache_key E (fst p) (snd p)) = JNull" if "p \<in> set ?ps" for p
    using that assms(5) by auto
  have "?ps \<noteq> []" using assms(8) by simp
  from mem.neutral_scores_stay [OF none this call assms(6,7), of p clk bs2]
  obtain c1 c2 where "cached_scores memory_backend E now (t0, x, y) ?ps bs cm = (Inr (replicate (length ?ps) (5/10)), bs1, c1)"
    "cached_scores memory_backend (E\<lparr>predict := p\<rparr>) t clk ?ps bs2 c1 = (Inr (replicate (length ?ps) (5/10)), bs2, c2)"
    by blast
  moreover have "rank_indices (E\<lparr>predict := p\<rparr>) = rank_indices E" by (simp add: rank_indices_def fun_eq_iff Let_def)
  ultimately show ?thesis using assms(8) by (simp add: rerank_chunks_def)
qed

definition open_reranker :: breakers where
  "open_reranker = [(''reranker'', (init_breaker ''reranker'' 5 30 2)\<lparr>cb_state := OPEN\<rparr>)]"

theorem outage_scores_cached_witness:
  "\<exists>bs1 cm1 cm2.
    rerank_chunks memory_backend sample_rerank_env 0 (0, 0, 0) ''q'' [''a'', ''b''] 1 True
      (open_reranker, init_cache_manager ''rag:'' []) = (Inr [0], bs1, cm1) \<and>
    rerank_chunks memory_backend sample_rerank_env 1800 (1800, 0, 0) ''q'' [''a'', ''b''] 1 True ([], cm1) =
      (Inr [0], [], cm2)"
proof -
  have "reranker_loaded sample_rerank_env" by (simp add: sample_rerank_env_def)
  moreover have "dict_get open_reranker ''reranker'' = Some ((init_breaker ''reranker'' 5 30 2)\<lparr>cb_state := OPEN\<rparr>)"
    by (simp add: open_reranker_def)
  moreover have "cb_state ((init_breaker ''reranker'' 5 30 2)\<lparr>cb_state := OPEN\<rparr>) = OPEN" by simp
  moreover have "0 - opened_at ((init_breaker ''reranker'' 5 30 2)\<lparr>cb_state := OPEN\<rparr>)
      < cooldown_seconds ((init_breaker ''reranker'' 5 30 2)\<lparr>cb_state := OPEN\<rparr>)" by (simp add: init_breaker_def)
  moreover have "mem.view (init_cache_manager ''rag:'' []) 0 k = JNull" for k
    by (simp add: mem.view_def live_def init_cache_manager_def)
  moreover have "float_of sample_rerank_env (float_str sample_rerank_env (5/10)) = Some (5/10)"
    by (simp add: sample_rerank_env_def)
  moreover have "1800 \<le> (0 :: real) + 3600" "[''a'', ''b''] \<noteq> []" by simp_all
  moreover have "rank_indices sample_rerank_env 1 (replicate (length [''a'', ''b'']) (5/10)) = [0]"
    by (simp add: sample_rerank_env_def rank_indices_def slice_to_def)
  moreover have "sample_rerank_env\<lparr>predict := predict sample_rerank_env\<rparr> = sample_rerank_env" by simp
  ultimately show ?thesis
    using outage_scores_cached [of sample_rerank_env open_reranker _ 0 "[''a'', ''b'']" "init_cache_manager ''rag:'' []"
        0 "''q''" 1800 0 0 1 "predict sample_rerank_env" "(1800, 0, 0)" "[]"] by metis
qed

lemma cache_key_ambiguous: "get_cache_key E (q @ ''|'' @ a) c = get_cache_key E q (a @ ''|'' @ c)"
  by (simp add: get_cache_key_def)

subsection \<open>Positions taken for scores\<close>

lemma map_sum_InrD: "map_sum id g r = Inr y \<Longrightarrow> \<exists>x. y = g x"
  by (cases r) auto

lemma length_rank_indices:
  assumes "1 \<le> ADAPTIVE_TOP_K_MIN E" and "0 < k"
  shows "int (length (rank_indices E k scores)) \<le> k"
proof -
  let ?n = "adaptive_top_k (ADAPTIVE_TOP_K_MIN E) (map snd (sort_key (\<lambda>x. - snd x) (enumerate 0 scores))) k (5/10)"
  have "?n \<le> k" by (rule adaptive_top_k_upper [OF assms])
  moreover have "0 \<le> ?n" using assms by (intro order_trans [OF _ adaptive_top_k_lower [OF assms]]) simp
  ultimately have "?n \<le> k" "0 \<le> ?n" by blast+
  then show ?thesis using assms(2) by (auto simp: rank_indices_def Let_def slice_to_def min_def)
qed

text \<open>\<^verbatim>\<open>hybrid_rerank\<close> asks for the default of twenty positions and then indexes them by document: with more than twenty
  documents it never returns a ranking, and raises an \<^verbatim>\<open>IndexError\<close> whenever the reranking itself succeeds.\<close>

theorem hybrid_rerank_raises:
  assumes "20 < length documents" and "1 \<le> ADAPTIVE_TOP_K_MIN E"
  shows "\<exists>e. fst (hybrid_rerank b E now clk query documents w1 w2 st) = Inl e \<and>
    (isl (fst (rerank_chunks b E now clk query (map doc_text documents) 20 True st)) \<or> e = IndexError)"
proof -
  obtain r st' where Pair: "rerank_chunks b E now clk query (map doc_text documents) 20 True st = (r, st')"
    by (metis surj_pair)
  show ?thesis
  proof (cases r)
    case (Inl e)
    then show ?thesis using assms(1) Pair by (auto simp: hybrid_rerank_def)
  next
    case (Inr idx)
    from Pair [unfolded this rerank_chunks_def] assms(1) obtain scores where "idx = rank_indices E 20 scores"
      by (auto simp: Let_def split: prod.splits if_splits dest!: map_sum_InrD)
    then have "length idx < length documents" using length_rank_indices [OF assms(2), of 20 scores] assms(1) by simp
    then show ?thesis using Pair Inr assms(1) by (auto simp: hybrid_rerank_def)
  qed
qed

theorem hybrid_rerank_raises_witness:
  "\<exists>e. fst (hybrid_rerank memory_backend sample_rerank_env 0 (0, 0, 0) ''q''
      (replicate 21 \<lparr>doc_text = ''a'', doc_tokens = None\<rparr>) (3/10) (7/10) ([], init_cache_manager ''rag:'' [])) = Inl e"
  using hybrid_rerank_raises [of "replicate 21 \<lparr>doc_text = ''a'', doc_tokens = None\<rparr>" sample_rerank_env memory_backend 0
      "(0, 0, 0)" "''q''" "3/10" "7/10" "([], init_cache_manager ''rag:'' [])"]
  by (auto simp: sample_rerank_env_def)

lemma insort_key_last:
  fixes k :: "'a \<Rightarrow> 'b :: linorder"
  shows "\<forall>y \<in> set ys. k y < k x \<Longrightarrow> insort_key k x ys = ys @ [x]"
  by (induction ys) (auto simp: not_le)

lemma sort_key_rev:
  fixes f :: "'a \<Rightarrow> real"
  shows "sorted_wrt (\<lambda>x y. f x < f y) xs \<Longrightarrow> sort_key (\<lambda>x. - f x) xs = rev xs"
  by (induction xs) (auto intro: insort_key_last)

lemma enumerate_zip_replicate:
  "enumerate n (zip xs (replicate (length xs) c)) = map (\<lambda>(i, x). (i, x, c)) (enumerate n xs)"
  by (induction xs arbitrary: n) auto

lemma sorted_enumerate_map:
  assumes "\<And>i j x y. i < j \<Longrightarrow> f (g (i, x)) < (f (g (j, y)) :: real)"
  shows "sorted_wrt (\<lambda>x y. f x < f y) (map g (enumerate n xs))"
  by (induction xs arbitrary: n) (auto simp: in_set_enumerate_eq intro!: assms)

text \<open>The second stage of the two-stage reranker takes positions for scores: of documents that the cross-encoder ranks in
  the order in which they come, with equal fast scores, it returns the reverse order, the worst document first.\<close>

theorem two_stage_reverses:
  assumes "documents \<noteq> []" and "int (length documents) \<le> fast_top_k t"
    and "rerank_chunks b E now clk query (map doc_text documents) (int (length documents)) True st =
      (Inr [0..<length documents], st')"
  shows "\<exists>out. fst (two_stage_rerank b E None now clk query documents t st) = Inr out \<and>
    map ranked out = slice_to (final_top_k t) (rev documents)"
proof -
  let ?n = "length documents"
  let ?top = "zip documents (replicate ?n (5/10))"
  let ?g = "\<lambda>(i, d). \<lparr>ranked = d, first_score = 5/10, cross_score = real i, final_score = (2/10) * (5/10) + (8/10) * real i\<rparr>"
  have sorted: "sort_key (\<lambda>x. - snd x) ?top = ?top"
    by (rule sort_key_id_if_sorted) (auto simp: sorted_iff_nth_mono)
  have top: "slice_to (fast_top_k t) ?top = ?top" using assms(1,2) by (auto simp: slice_to_def)
  have texts: "map (\<lambda>(d, s). doc_text d) ?top = map doc_text documents"
    by (simp add: map_zip_map2 case_prod_unfold map_fst_zip flip: map_map [of doc_text fst, unfolded comp_def])
  have "sorted_wrt (\<lambda>x y. final_score x < final_score y) (map ?g (enumerate 0 documents))"
    by (rule sorted_enumerate_map) simp
  from sort_key_rev [OF this]
  have rev: "sort_key (\<lambda>d. - final_score d) (map ?g (enumerate 0 documents)) = rev (map ?g (enumerate 0 documents))" .
  have results: "map (\<lambda>(i, d, fs).
      \<lparr>ranked = d, first_score = fs, cross_score = (if i < ?n then map real [0..<?n] ! i else 0),
       final_score = (2/10) * fs + (8/10) * (if i < ?n then map real [0..<?n] ! i else 0)\<rparr>) (enumerate 0 ?top)
      = map ?g (enumerate 0 documents)"
    unfolding enumerate_zip_replicate by (auto simp: in_set_enumerate_eq)
  have cross: "cross_encoder_score b E now clk query (map (\<lambda>(d, s). doc_text d) ?top) st = (Inr (map real [0..<?n]), st')"
    unfolding texts cross_encoder_score_def length_map assms(3) by simp
  have n: "length [0..<?n] = ?n" by simp
  have "fst (two_stage_rerank b E None now clk query documents t st) =
      Inr (slice_to (final_top_k t) (rev (map ?g (enumerate 0 documents))))"
    by (simp only: two_stage_rerank_def assms(1) if_False fast_score_def Let_def option.case prod.case length_map n sorted top
        cross sum.case results rev fst_conv)
  moreover have "map ranked (rev (map ?g (enumerate 0 documents))) = rev documents"
    by (simp add: rev_map [symmetric] comp_def case_prod_unfold)
  then have "map ranked (slice_to k (rev (map ?g (enumerate 0 documents)))) = slice_to k (rev documents)" for k
    by (simp add: slice_to_def take_map [symmetric])
  ultimately show ?thesis by blast
qed

theorem two_stage_reverses_witness:
  "\<exists>out. fst (two_stage_rerank memory_backend sample_rerank_env (None :: unit fast_encoder option) 0 (0, 0, 0) ''q''
      [\<lparr>doc_text = ''b'', doc_tokens = None\<rparr>, \<lparr>doc_text = ''a'', doc_tokens = None\<rparr>]
      \<lparr>fast_top_k = 20, final_top_k = 1, query_embed_cache = [], doc_embed_cache = []\<rparr>
      ([], init_cache_manager ''rag:'' [])) = Inr out \<and> map ranked out = [\<lparr>doc_text = ''a'', doc_tokens = None\<rparr>]"
proof -
  let ?docs = "[\<lparr>doc_text = ''b'', doc_tokens = None\<rparr>, \<lparr>doc_text = ''a'', doc_tokens = None\<rparr>]"
  let ?t = "\<lparr>fast_top_k = 20, final_top_k = 1, query_embed_cache = [] :: (string, unit) dict, doc_embed_cache = []\<rparr>"
  have "\<exists>st'. rerank_chunks memory_backend sample_rerank_env 0 (0, 0, 0) ''q'' (map doc_text ?docs) (int (length ?docs)) True
      ([], init_cache_manager ''rag:'' []) = (Inr [0..<length ?docs], st')"
    by (simp add: rerank_chunks_def cached_scores_def sample_rerank_env_def truncate_text_def cache_get_def memory_backend_def
        get_value_def full_key_def init_cache_manager_def get_cache_key_def uncached_pairs_def call_reranker_safe_def
        get_breaker_def init_breaker_def call_sync_def check_and_enter_def read_state_def maybe_transition_def
        cache_set_def set_value_def rank_indices_def slice_to_def Let_def)
  then obtain st' where "rerank_chunks memory_backend sample_rerank_env 0 (0, 0, 0) ''q'' (map doc_text ?docs) (int (length ?docs)) True
      ([], init_cache_manager ''rag:'' []) = (Inr [0..<length ?docs], st')" by blast
  from two_stage_reverses [OF _ _ this, of ?t] show ?thesis by (simp add: slice_to_def)
qed

subsection \<open>Late interaction scores\<close>

lemma dot_Cons [simp]: "dot (x # a) (y # b) = x * y + dot a b" "dot [] b = 0" "dot a [] = 0"
  by (simp_all add: dot_def)

lemma dot_self_nonneg: "0 \<le> dot a a"
  by (induction a) simp_all

lemma dot_Cauchy_Schwarz: "(dot a b)\<^sup>2 \<le> dot a a * dot b b"
proof (induction a b rule: list_induct2')
  case (4 x a y b)
  let ?A = "dot a a" and ?B = "dot b b" and ?D = "dot a b"
  have nn: "0 \<le> ?A" "0 \<le> ?B" by (rule dot_self_nonneg)+
  have "(2 * x * y * ?D)\<^sup>2 = 4 * x\<^sup>2 * y\<^sup>2 * ?D\<^sup>2" by (simp add: power2_eq_square)
  also have "\<dots> \<le> 4 * x\<^sup>2 * y\<^sup>2 * (?A * ?B)" using 4 by (intro mult_left_mono) auto
  also have "\<dots> \<le> (x\<^sup>2 * ?B + y\<^sup>2 * ?A)\<^sup>2"
    using zero_le_power2 [of "x\<^sup>2 * ?B - y\<^sup>2 * ?A"] by (simp add: power2_eq_square algebra_simps)
  finally have "2 * x * y * ?D \<le> x\<^sup>2 * ?B + y\<^sup>2 * ?A" by (rule power2_le_imp_le) (use nn in simp)
  then show ?case using 4 by (simp add: power2_eq_square algebra_simps)
qed simp_all

lemma cosine_le_1: "cosine_similarity_single a b \<le> 1"
proof -
  have "dot a b \<le> sqrt (dot a a) * sqrt (dot b b)"
    using real_sqrt_le_mono [OF dot_Cauchy_Schwarz [of a b]] by (simp add: real_sqrt_mult)
  moreover have "0 \<le> sqrt (dot a a) * sqrt (dot b b)" by (simp add: dot_self_nonneg)
  ultimately show ?thesis by (auto simp: cosine_similarity_single_def Let_def divide_le_eq)
qed

lemma fold_max_bounds:
  "(\<And>d. d \<in> set ds \<Longrightarrow> g d \<le> 1) \<Longrightarrow> 0 \<le> m \<Longrightarrow> m \<le> (1 :: real) \<Longrightarrow>
   0 \<le> foldl (\<lambda>m d. max m (g d)) m ds \<and> foldl (\<lambda>m d. max m (g d)) m ds \<le> 1"
  by (induction ds arbitrary: m) auto

lemma sum_list_bounds:
  "(\<And>x. x \<in> set xs \<Longrightarrow> 0 \<le> f x \<and> f x \<le> (1 :: real)) \<Longrightarrow> 0 \<le> sum_list (map f xs) \<and> sum_list (map f xs) \<le> real (length xs)"
  by (induction xs) (auto simp: add_mono)

text \<open>A late interaction score lies between 0 and 1, for token vectors of whatever lengths.\<close>

theorem colbert_score_range: "0 \<le> colbert_score qs ds \<and> colbert_score qs ds \<le> 1"
proof -
  have "0 \<le> foldl (\<lambda>m d. max m (cosine_similarity_single q d)) 0 ds \<and>
      foldl (\<lambda>m d. max m (cosine_similarity_single q d)) 0 ds \<le> 1" for q
    by (rule fold_max_bounds) (simp_all add: cosine_le_1)
  then have "0 \<le> sum_list (map (\<lambda>q. foldl (\<lambda>m d. max m (cosine_similarity_single q d)) 0 ds) qs) \<and>
      sum_list (map (\<lambda>q. foldl (\<lambda>m d. max m (cosine_similarity_single q d)) 0 ds) qs) \<le> real (length qs)"
    by (intro sum_list_bounds) simp
  then show ?thesis by (simp add: colbert_score_def divide_le_eq)
qed

end
