(* ===== verification/Orchestrator.thy ===== *)
theory Orchestrator
  imports Retrieval Rerank Context_Builder
begin

text \<open>
  The agentic orchestrator, \<^verbatim>\<open>proxy/app/core/orchestrator/\<close> (\<^verbatim>\<open>graph.py\<close>, \<^verbatim>\<open>nodes.py\<close>): the state of a question, one function
  per node, the routing functions and the state graph they form.

  The state is a dictionary from keys to values; the keys are a data type, those of \<^verbatim>\<open>RAGState\<close> and those that only the
  nodes know. A node takes the state and returns a partial update, or raises. Language models, tools and the knowledge
  graph are functions of an environment that may change a world of their own; search and reranking too, so that the nodes
  can be read without their caches and breakers, and \<open>pipeline_env\<close> fills them in with the functions of the other
  theories. LangGraph itself is third-party code: how it writes a node's output into the state is an argument, and what its
  documentation says about it is a hypothesis where it is needed. The prompts that are in Russian are parameters.
\<close>

subsection \<open>State\<close>

datatype key =
    Query | Version | Rewritten_query | Rewrite_count | Retrieved_chunks | Reranked_chunks | Graph_context | Context
  | Answer | Sufficient | Temperature | Max_tokens | Stream | Tool_calls | Tool_results | Tool_loop_count | Tools_enabled
  | Confidence | Needs_escalation | Escalation_reason | Needs_self_critique | Self_critique_score | Needs_rewrite
  | Self_critique_count | Max_rewrites | Needs_reflection | Reflection_count | Reflection_gaps

definition RAGState :: "key set" where
  "RAGState = {Query, Version, Rewritten_query, Rewrite_count, Retrieved_chunks, Reranked_chunks, Graph_context, Context,
     Answer, Sufficient, Temperature, Max_tokens, Stream, Tool_calls, Tool_results, Tool_loop_count, Tools_enabled}"

record tool_call =
  tc_id :: "string option"
  tc_function :: string

record tool_result =
  tr_call_id :: string
  tr_name :: string
  tr_content :: string
  tr_error :: "string option"

datatype val =
    VNone | VStr string | VInt int | VReal real | VBool bool
  | VChunks "json_obj list" | VScored "scored_chunk list" | VCalls "tool_call list" | VResults "tool_result list"

type_synonym rag_state = "key \<rightharpoonup> val"

fun truthy_val :: "val option \<Rightarrow> bool" where
  "truthy_val (Some (VBool b)) = b"
| "truthy_val (Some (VStr s)) = (s \<noteq> [])"
| "truthy_val (Some (VInt i)) = (i \<noteq> 0)"
| "truthy_val (Some (VReal x)) = (x \<noteq> 0)"
| "truthy_val (Some (VChunks c)) = (c \<noteq> [])"
| "truthy_val (Some (VScored c)) = (c \<noteq> [])"
| "truthy_val (Some (VCalls c)) = (c \<noteq> [])"
| "truthy_val (Some (VResults c)) = (c \<noteq> [])"
| "truthy_val _ = False"

definition state_str :: "rag_state \<Rightarrow> key \<Rightarrow> string" where
  "state_str s k = (case s k of Some (VStr x) \<Rightarrow> x | _ \<Rightarrow> [])"

definition get_int :: "rag_state \<Rightarrow> key \<Rightarrow> int \<Rightarrow> int" where
  "get_int s k d = (case s k of Some (VInt i) \<Rightarrow> i | _ \<Rightarrow> d)"

definition get_real :: "rag_state \<Rightarrow> key \<Rightarrow> real \<Rightarrow> real" where
  "get_real s k d = (case s k of Some (VReal x) \<Rightarrow> x | _ \<Rightarrow> d)"

definition get_chunks :: "rag_state \<Rightarrow> json_obj list" where
  "get_chunks s = (case s Retrieved_chunks of Some (VChunks c) \<Rightarrow> c | _ \<Rightarrow> [])"

definition get_scored :: "rag_state \<Rightarrow> scored_chunk list" where
  "get_scored s = (case s Reranked_chunks of Some (VScored c) \<Rightarrow> c | _ \<Rightarrow> [])"

definition get_calls :: "rag_state \<Rightarrow> tool_call list" where
  "get_calls s = (case s Tool_calls of Some (VCalls c) \<Rightarrow> c | _ \<Rightarrow> [])"

definition get_results :: "rag_state \<Rightarrow> tool_result list" where
  "get_results s = (case s Tool_results of Some (VResults c) \<Rightarrow> c | _ \<Rightarrow> [])"

definition the_query :: "rag_state \<Rightarrow> exn + string" where
  \<comment> \<open>\<^verbatim>\<open>state["query"]\<close>\<close>
  "the_query s = (case s Query of Some (VStr q) \<Rightarrow> Inr q | _ \<Rightarrow> Inl (KeyError ''query''))"

definition query_to_use :: "rag_state \<Rightarrow> exn + string" where
  \<comment> \<open>\<^verbatim>\<open>state.get("rewritten_query") or state["query"]\<close>\<close>
  "query_to_use s = (if state_str s Rewritten_query \<noteq> [] then Inr (state_str s Rewritten_query) else the_query s)"

definition any_query :: "rag_state \<Rightarrow> string" where
  \<comment> \<open>\<^verbatim>\<open>state.get("rewritten_query") or state.get("query", "")\<close>\<close>
  "any_query s = (if state_str s Rewritten_query \<noteq> [] then state_str s Rewritten_query else state_str s Query)"

subsection \<open>Environment\<close>

record found =
  found_id :: string
  hit_score :: real
  hit_payload :: json_obj

record 'w rag_env =
  llm :: "(string \<times> string) list \<Rightarrow> real \<Rightarrow> int \<Rightarrow> 'w \<Rightarrow> (exn + string) \<times> 'w"
  slm :: "string \<Rightarrow> int \<Rightarrow> real \<Rightarrow> 'w \<Rightarrow> (exn + string option) \<times> 'w"
  search :: "string \<Rightarrow> string option \<Rightarrow> int \<Rightarrow> 'w \<Rightarrow> (exn + found list) \<times> 'w"
  rerank_texts :: "string \<Rightarrow> string list \<Rightarrow> int \<Rightarrow> 'w \<Rightarrow> (exn + nat list) \<times> 'w"
  graph_query :: "string \<Rightarrow> 'w \<Rightarrow> (exn + string) \<times> 'w"
  run_tool :: "tool_call \<Rightarrow> 'w \<Rightarrow> (exn + tool_result) \<times> 'w"
  confidence_of :: "string \<Rightarrow> string \<Rightarrow> string \<Rightarrow> 'w \<Rightarrow> (exn + real \<times> string list) \<times> 'w"
  from_iso :: "string \<Rightarrow> real option"
  clock :: real
  sha256 :: "string \<Rightarrow> string"
  context_cfg :: context_config
  rewrite_prompt :: "string \<Rightarrow> string"
  system_prompt :: "string \<Rightarrow> string"
  graph_text :: "string \<Rightarrow> string"
  MAX_RETRIEVAL_LOOPS :: int
  MAX_CHUNKS_RETRIEVAL :: int
  MAX_CHUNKS_AFTER_RERANK :: int
  USE_GRAPH_EXPANSION :: bool
  HALLUCINATION_CHECK_ENABLED :: bool
  CONFIDENCE_THRESHOLD :: real
  MAX_VERIFY_LOOPS :: int
  SELF_CRITIQUE_ENABLED :: bool
  REFLECTION_ENABLED :: bool
  REFLECTION_DEPTH :: int

datatype node_output = Update rag_state | Text string
  \<comment> \<open>what a node function returns: a dictionary, or, for \<^verbatim>\<open>check_sufficiency\<close>, the name of a route\<close>

subsection \<open>Nodes\<close>

definition rewrite_query :: "'w rag_env \<Rightarrow> rag_state \<Rightarrow> 'w \<Rightarrow> (exn + rag_state) \<times> 'w" where
  "rewrite_query E s w =
     (case the_query s of
        Inl e \<Rightarrow> (Inl e, w)
      | Inr query \<Rightarrow>
          (let rewrite_count = get_int s Rewrite_count 0 in
           if rewrite_count \<ge> MAX_RETRIEVAL_LOOPS E
           then (Inr [Rewritten_query \<mapsto> VStr query, Rewrite_count \<mapsto> VInt rewrite_count], w)
           else
             (let (r, w) = llm E [(''user'', rewrite_prompt E query)] (1/10) 100 w in
              case r of
                Inr rewritten \<Rightarrow>
                  (Inr [Rewritten_query \<mapsto> VStr (strip rewritten), Rewrite_count \<mapsto> VInt (rewrite_count + 1)], w)
              | Inl e \<Rightarrow>
                  (if is_exception e
                   then (Inr [Rewritten_query \<mapsto> VStr query, Rewrite_count \<mapsto> VInt (rewrite_count + 1)], w)
                   else (Inl e, w)))))"

definition chunk_of_hit :: "found \<Rightarrow> json_obj" where
  "chunk_of_hit h =
     [(''id'', JStr (found_id h)), (''text'', dict_getd (hit_payload h) ''text'' (JStr [])), (''score'', JFloat (hit_score h)),
      (''payload'', JObj (hit_payload h))]"

definition retrieve :: "'w rag_env \<Rightarrow> rag_state \<Rightarrow> 'w \<Rightarrow> (exn + rag_state) \<times> 'w" where
  "retrieve E s w =
     (case query_to_use s of
        Inl e \<Rightarrow> (Inl e, w)
      | Inr query \<Rightarrow>
          (let version = (case s Version of Some (VStr v) \<Rightarrow> Some v | _ \<Rightarrow> None);
               (r, w) = search E query version (MAX_CHUNKS_RETRIEVAL E) w
           in case r of
                Inl e \<Rightarrow> (if is_exception e then (Inr [Retrieved_chunks \<mapsto> VChunks []], w) else (Inl e, w))
              | Inr results \<Rightarrow>
                  (map_sum id (\<lambda>chunks. [Retrieved_chunks \<mapsto> VChunks chunks])
                     (apply_time_decay (from_iso E) (clock E) 180 (map chunk_of_hit results)), w)))"

definition graph_expand :: "'w rag_env \<Rightarrow> rag_state \<Rightarrow> 'w \<Rightarrow> (exn + rag_state) \<times> 'w" where
  "graph_expand E s w =
     (if \<not> USE_GRAPH_EXPANSION E then (Inr [Graph_context \<mapsto> VStr []], w)
      else
        (case query_to_use s of
           Inl e \<Rightarrow> (Inl e, w)
         | Inr query \<Rightarrow>
             (let (r, w) = graph_query E query w in
              case r of
                Inr graph_results \<Rightarrow> (Inr [Graph_context \<mapsto> VStr (graph_text E graph_results)], w)
              | Inl e \<Rightarrow> (if is_exception e then (Inr [Graph_context \<mapsto> VStr []], w) else (Inl e, w)))))"

fun sum_scores :: "json_obj list \<Rightarrow> exn + real" where
  "sum_scores [] = Inr 0"
| "sum_scores (c # cs) =
     (case (json_number (dict_getd c ''score'' (JInt 0)), sum_scores cs) of
        (Inr x, Inr y) \<Rightarrow> Inr (x + y) | (Inl e, _) \<Rightarrow> Inl e | (_, Inl e) \<Rightarrow> Inl e)"

definition check_sufficiency :: "'w rag_env \<Rightarrow> rag_state \<Rightarrow> exn + string" where
  "check_sufficiency E s =
     (let chunks = get_chunks s in
      if chunks = [] then Inr ''rewrite''
      else
        (case sum_scores chunks of
           Inl e \<Rightarrow> Inl e
         | Inr s_total \<Rightarrow>
             (let avg_score = s_total / real (length chunks) in
              if avg_score < 6/10 \<and> get_int s Rewrite_count 0 < MAX_RETRIEVAL_LOOPS E then Inr ''rewrite''
              else Inr ''rerank'')))"

fun texts_and_scores :: "json_obj list \<Rightarrow> exn + (string \<times> real) list" where
  \<comment> \<open>\<^verbatim>\<open>c["text"]\<close> and \<^verbatim>\<open>c["score"]\<close> of every chunk\<close>
  "texts_and_scores [] = Inr []"
| "texts_and_scores (c # cs) =
     (case (dict_get c ''text'', dict_get c ''score'') of
        (None, _) \<Rightarrow> Inl (KeyError ''text'')
      | (Some (JStr t), Some v) \<Rightarrow>
          (case (json_number v, texts_and_scores cs) of
             (Inr x, Inr xs) \<Rightarrow> Inr ((t, x) # xs) | (Inl e, _) \<Rightarrow> Inl e | (_, Inl e) \<Rightarrow> Inl e)
      | (Some (JStr t), None) \<Rightarrow> Inl (KeyError ''score'')
      | _ \<Rightarrow> Inl (PyException ''TypeError'' ''text''))"

definition text_fields :: "json_obj \<Rightarrow> chunk_dict" where
  \<comment> \<open>the entries of a chunk that are texts, the only ones the context functions read\<close>
  "text_fields c = List.map_filter (\<lambda>(k, v). case v of JStr s \<Rightarrow> Some (k, s) | _ \<Rightarrow> None) c"

definition rerank :: "'w rag_env \<Rightarrow> rag_state \<Rightarrow> 'w \<Rightarrow> (exn + rag_state) \<times> 'w" where
  "rerank E s w =
     (let chunks = get_chunks s in
      if chunks = [] then (Inr [Reranked_chunks \<mapsto> VScored []], w)
      else
        (case (query_to_use s, texts_and_scores chunks) of
           (Inr query, Inr ts) \<Rightarrow>
             (let (r, w) = rerank_texts E query (map fst ts) (MAX_CHUNKS_AFTER_RERANK E) w in
              case r of
                Inl e \<Rightarrow> (Inl e, w)
              | Inr indices \<Rightarrow>
                  (if list_all (\<lambda>i. i < length chunks) indices
                   then (let reranked = map (\<lambda>i. (text_fields (chunks ! i), snd (ts ! i))) indices
                         in (Inr [Reranked_chunks \<mapsto> VScored (deduplicate_chunks (sha256 E) reranked)], w))
                   else (Inl IndexError, w)))
         | (Inl e, _) \<Rightarrow> (Inl e, w)
         | (_, Inl e) \<Rightarrow> (Inl e, w)))"

definition build_context_node :: "'w rag_env \<Rightarrow> rag_state \<Rightarrow> 'w \<Rightarrow> (exn + rag_state) \<times> 'w" where
  "build_context_node E s w =
     (case query_to_use s of
        Inl e \<Rightarrow> (Inl e, w)
      | Inr query \<Rightarrow>
          (let chunks_with_scores = get_scored s;
               graph_ctx = state_str s Graph_context;
               max_tokens = get_int s Max_tokens 120000;
               context = build_context (context_cfg E) chunks_with_scores max_tokens True True;
               approx_tokens = estimate_token_cost context;
               context =
                 (if real_of_int approx_tokens > real_of_int max_tokens * (9/10) \<and> chunks_with_scores \<noteq> []
                  then (let chunk_texts = map (\<lambda>(chunk, _). field chunk ''text'') chunks_with_scores;
                            compressed_text = extractive_compress chunk_texts query 3;
                            compressed_chunks = map (\<lambda>(chunk, sc). (dict_set ''text'' compressed_text chunk, sc))
                                                  (take 1 chunks_with_scores)
                        in build_context (context_cfg E) compressed_chunks max_tokens True True)
                  else context);
               context = (if graph_ctx \<noteq> [] then context @ graph_ctx else context)
           in (Inr [Context \<mapsto> VStr context, Sufficient \<mapsto> VBool True], w)))"

definition generate :: "'w rag_env \<Rightarrow> rag_state \<Rightarrow> 'w \<Rightarrow> (exn + rag_state) \<times> 'w" where
  "generate E s w =
     (case the_query s of
        Inl e \<Rightarrow> (Inl e, w)
      | Inr user_query \<Rightarrow>
          (let messages = [(''system'', system_prompt E (state_str s Context)), (''user'', user_query)];
               (r, w) = llm E messages (get_real s Temperature (2/10)) (get_int s Max_tokens 4096) w
           in (map_sum id (\<lambda>answer. [Answer \<mapsto> VStr answer]) r, w)))"

definition check_confidence :: "'w rag_env \<Rightarrow> rag_state \<Rightarrow> 'w \<Rightarrow> (exn + rag_state) \<times> 'w" where
  "check_confidence E s w =
     (let answer = state_str s Answer;
          rewrite_count = get_int s Rewrite_count 0
      in if answer = []
         then (Inr [Confidence \<mapsto> VNone, Needs_escalation \<mapsto> VBool False, Needs_self_critique \<mapsto> VBool False], w)
         else if \<not> HALLUCINATION_CHECK_ENABLED E
         then (Inr [Confidence \<mapsto> VReal (7/10), Needs_escalation \<mapsto> VBool False, Needs_self_critique \<mapsto> VBool False], w)
         else
           (let (r, w) = confidence_of E (any_query s) (state_str s Context) answer w in
            case r of
              Inl e \<Rightarrow> (Inl e, w)
            | Inr (sc, uncertainties) \<Rightarrow>
                (let needs_escalation = (sc < CONFIDENCE_THRESHOLD E \<and> rewrite_count < MAX_VERIFY_LOOPS E);
                     needs_self_critique =
                       (if \<not> SELF_CRITIQUE_ENABLED E then VBool False
                        else if strip answer = [] then VStr []
                        else VBool (\<not> needs_escalation \<and> get_int s Self_critique_count 0 < 1))
                 in (Inr [Confidence \<mapsto> VReal sc, Needs_escalation \<mapsto> VBool needs_escalation,
                          Escalation_reason \<mapsto> VStr (if needs_escalation then join ''; '' uncertainties else []),
                          Needs_self_critique \<mapsto> needs_self_critique], w))))"

abbreviation newline :: string where
  "newline \<equiv> [CHR 0x0A]"

definition critique_prompt :: "string \<Rightarrow> string \<Rightarrow> string" where
  "critique_prompt query answer =
     ''Rate the following answer's usefulness on a scale of 1 to 5.'' @ newline @
     ''Consider: relevance, accuracy, completeness, clarity.'' @ newline @
     ''On a new line, write ONLY the integer score, then optionally one improvement suggestion.'' @ blank_line @
     ''User question: '' @ query @ blank_line @ ''Answer: '' @ answer @ blank_line @ ''Score (1-5):''"

definition parse_score :: "string \<Rightarrow> int option" where
  \<comment> \<open>the first digit, clamped, or 3; \<open>None\<close> where \<^verbatim>\<open>int\<close> raises\<close>
  "parse_score score_text =
     (case find is_digit_char score_text of
        None \<Rightarrow> Some 3
      | Some c \<Rightarrow> map_option (\<lambda>n. max 1 (min 5 n)) (py_int [c]))"

definition critique_update :: "int \<Rightarrow> bool \<Rightarrow> int \<Rightarrow> rag_state" where
  "critique_update sc needs n =
     [Self_critique_score \<mapsto> VInt sc, Needs_rewrite \<mapsto> VBool needs, Self_critique_count \<mapsto> VInt n]"

definition self_critique :: "'w rag_env \<Rightarrow> rag_state \<Rightarrow> 'w \<Rightarrow> (exn + rag_state) \<times> 'w" where
  "self_critique E s w =
     (let answer = state_str s Answer;
          rewrite_count = get_int s Rewrite_count 0;
          critique_count = get_int s Self_critique_count 0;
          max_rewrites = get_int s Max_rewrites 2
      in if strip answer = [] then (Inr (critique_update 0 False critique_count), w)
         else if rewrite_count \<ge> max_rewrites then (Inr (critique_update 3 False critique_count), w)
         else
           (let (r, w) = slm E (critique_prompt (any_query s) answer) 50 0 w in
            case r of
              Inr result \<Rightarrow>
                (case parse_score (if truthy_str result then strip (the result) else ''3'') of
                   Some sc \<Rightarrow>
                     (Inr (critique_update sc (sc < 3 \<and> rewrite_count < max_rewrites) (critique_count + 1)), w)
                 | None \<Rightarrow> (Inr (critique_update 3 False (critique_count + 1)), w))
            | Inl e \<Rightarrow>
                (if is_exception e then (Inr (critique_update 3 False (critique_count + 1)), w) else (Inl e, w))))"

definition reflection_prompt :: "string \<Rightarrow> string \<Rightarrow> string \<Rightarrow> string" where
  "reflection_prompt query context answer =
     ''You are an answer quality evaluator. Determine if the answer is fully supported by the context.'' @ newline @
     ''Reply with ONLY one of these exact words: FULLY_SUPPORTED, PARTIALLY_SUPPORTED, or NOT_SUPPORTED.'' @ newline @
     ''If PARTIALLY_SUPPORTED or NOT_SUPPORTED, on the next line write: MISSING: <what information is '' @
     ''missing>'' @ blank_line @ ''User question: '' @ query @ blank_line @ ''Context:'' @ newline @ context @ blank_line @
     ''Answer: '' @ answer @ blank_line @ ''Evaluation:''"

fun after_first :: "string \<Rightarrow> string \<Rightarrow> string option" where
  \<comment> \<open>\<^verbatim>\<open>s.split(sub, 1)[1]\<close> when \<^verbatim>\<open>sub in s\<close>\<close>
  "after_first sub [] = (if sub = [] then Some [] else None)"
| "after_first sub (c # cs) =
     (if take (length sub) (c # cs) = sub then Some (drop (length sub) (c # cs)) else after_first sub cs)"

definition self_reflection :: "'w rag_env \<Rightarrow> rag_state \<Rightarrow> 'w \<Rightarrow> (exn + rag_state) \<times> 'w" where
  "self_reflection E s w =
     (let answer = state_str s Answer;
          reflection_count = get_int s Reflection_count 0;
          accept = (\<lambda>n. [Needs_reflection \<mapsto> VBool False, Reflection_count \<mapsto> VInt n])
      in if \<not> REFLECTION_ENABLED E \<or> strip answer = [] \<or> reflection_count \<ge> REFLECTION_DEPTH E
         then (Inr (accept reflection_count), w)
         else
           (let (r, w) = slm E (reflection_prompt (any_query s) (state_str s Context) answer) 100 0 w in
            case r of
              Inl e \<Rightarrow> (if is_exception e then (Inr (accept (reflection_count + 1)), w) else (Inl e, w))
            | Inr result \<Rightarrow>
                (let response_text = (if truthy_str result then py_upper (strip (the result)) else []) in
                 if starts_with response_text ''FULLY_SUPPORTED'' then (Inr (accept (reflection_count + 1)), w)
                 else
                   (let missing_info = (case after_first ''MISSING:'' response_text of Some m \<Rightarrow> strip m | None \<Rightarrow> [])
                    in (Inr [Needs_reflection \<mapsto> VBool True, Reflection_count \<mapsto> VInt (reflection_count + 1),
                             Reflection_gaps \<mapsto> VStr missing_info], w)))))"

fun run_tools :: "'w rag_env \<Rightarrow> tool_call list \<Rightarrow> 'w \<Rightarrow> (exn + tool_result list) \<times> 'w" where
  "run_tools E [] w = (Inr [], w)"
| "run_tools E (tc # tcs) w =
     (let (r, w) = run_tool E tc w in
      case (case r of
              Inr result \<Rightarrow>
                Inr (result\<lparr>tr_call_id := (case tc_id tc of Some i \<Rightarrow> i | None \<Rightarrow> tr_call_id result)\<rparr>)
            | Inl e \<Rightarrow>
                (if is_exception e
                 then Inr \<lparr>tr_call_id = (case tc_id tc of Some i \<Rightarrow> i | None \<Rightarrow> []), tr_name = tc_function tc,
                           tr_content = ''Error: '' @ exn_str e, tr_error = Some (exn_str e)\<rparr>
                 else Inl e)) of
        Inl e \<Rightarrow> (Inl e, w)
      | Inr x \<Rightarrow> (let (r, w) = run_tools E tcs w in (map_sum id (\<lambda>xs. x # xs) r, w)))"

definition call_tools :: "'w rag_env \<Rightarrow> rag_state \<Rightarrow> 'w \<Rightarrow> (exn + rag_state) \<times> 'w" where
  "call_tools E s w =
     (let (r, w) = run_tools E (get_calls s) w
      in (map_sum id (\<lambda>new. [Tool_results \<mapsto> VResults (get_results s @ new),
                              Tool_loop_count \<mapsto> VInt (get_int s Tool_loop_count 0 + 1), Tool_calls \<mapsto> VCalls []]) r, w))"

subsection \<open>The graph\<close>

definition self_critique_route :: "rag_state \<Rightarrow> string" where
  "self_critique_route s = (if truthy_val (s Needs_rewrite) then ''rewrite'' else ''done'')"

definition self_reflection_route :: "rag_state \<Rightarrow> string" where
  "self_reflection_route s = (if truthy_val (s Needs_reflection) then ''retrieve'' else ''done'')"

definition route_after_generate :: "rag_state \<Rightarrow> string" where
  "route_after_generate s =
     (let max_tool_loops = 5 in
      if get_calls s \<noteq> [] \<and> get_int s Tool_loop_count 0 < max_tool_loops then ''call_tools'' else ''reflect'')"

definition confidence_route :: "rag_state \<Rightarrow> string" where
  "confidence_route s =
     (if truthy_val (s Needs_escalation) then ''escalate''
      else if truthy_val (s Needs_self_critique) then ''self_critique'' else ''done'')"

datatype node =
    N_rewrite | N_retrieve | N_graph_expand | N_rerank | N_build_context | N_generate | N_check_sufficiency
  | N_self_reflection | N_check_confidence | N_self_critique | N_call_tools | END

datatype edge = Edge node | Conditional_edges "rag_state \<Rightarrow> exn + string" "(string, node) dict"

record 'w rag_graph =
  nodes :: "(node, 'w rag_env \<Rightarrow> rag_state \<Rightarrow> 'w \<Rightarrow> (exn + node_output) \<times> 'w) dict"
  entry_point :: node
  edges :: "(node, edge) dict"

definition updating ::
  "('w rag_env \<Rightarrow> rag_state \<Rightarrow> 'w \<Rightarrow> (exn + rag_state) \<times> 'w) \<Rightarrow> 'w rag_env \<Rightarrow> rag_state \<Rightarrow> 'w \<Rightarrow> (exn + node_output) \<times> 'w" where
  "updating f E s w = (let (r, w) = f E s w in (map_sum id Update r, w))"

definition build_rag_graph :: "'w rag_env \<Rightarrow> 'w rag_graph" where
  "build_rag_graph E =
     \<lparr>nodes =
        [(N_rewrite, updating rewrite_query), (N_retrieve, updating retrieve), (N_graph_expand, updating graph_expand),
         (N_rerank, updating rerank), (N_build_context, updating build_context_node), (N_generate, updating generate),
         (N_check_sufficiency, \<lambda>E s w. (map_sum id Text (check_sufficiency E s), w)),
         (N_self_reflection, updating self_reflection), (N_check_confidence, updating check_confidence),
         (N_self_critique, updating self_critique), (N_call_tools, updating call_tools)],
      entry_point = N_rewrite,
      edges =
        [(N_rewrite, Edge N_retrieve), (N_retrieve, Edge N_check_sufficiency),
         (N_check_sufficiency,
          Conditional_edges (check_sufficiency E) [(''rewrite'', N_rewrite), (''rerank'', N_rerank)]),
         (N_build_context, Edge N_generate),
         (N_generate, Conditional_edges (\<lambda>s. Inr (route_after_generate s))
            [(''call_tools'', N_call_tools), (''reflect'', N_self_reflection)]),
         (N_call_tools, Edge N_generate),
         (N_self_reflection, Conditional_edges (\<lambda>s. Inr (self_reflection_route s))
            [(''retrieve'', N_retrieve), (''done'', N_check_confidence)]),
         (N_check_confidence, Conditional_edges (\<lambda>s. Inr (confidence_route s))
            [(''escalate'', N_rewrite), (''self_critique'', N_self_critique), (''done'', END)]),
         (N_self_critique, Conditional_edges (\<lambda>s. Inr (self_critique_route s))
            [(''rewrite'', N_rewrite), (''done'', END)]),
         (N_rerank, Edge N_graph_expand), (N_graph_expand, Edge N_build_context)]\<rparr>"

definition follow :: "edge option \<Rightarrow> rag_state \<Rightarrow> exn + node" where
  \<comment> \<open>the node an edge leads to, once the source node's update is in the state\<close>
  "follow e s =
     (case e of
        None \<Rightarrow> Inr END
      | Some (Edge n) \<Rightarrow> Inr n
      | Some (Conditional_edges route targets) \<Rightarrow>
          (case route s of
             Inl x \<Rightarrow> Inl x
           | Inr r \<Rightarrow> (case dict_get targets r of Some n \<Rightarrow> Inr n | None \<Rightarrow> Inl (KeyError r))))"

type_synonym 'w config = "node \<times> rag_state \<times> 'w"

type_synonym write_rule = "rag_state \<Rightarrow> node_output \<Rightarrow> exn + rag_state"
  \<comment> \<open>how the runtime merges the output of a node into the state\<close>

definition rag_step :: "write_rule \<Rightarrow> 'w rag_env \<Rightarrow> 'w config \<Rightarrow> exn + 'w config" where
  "rag_step write E c =
     (let (n, s, w) = c; G = build_rag_graph E in
      case dict_get (nodes G) n of
        None \<Rightarrow> Inl (KeyError ''node'')
      | Some f \<Rightarrow>
          (case f E s w of
             (Inl e, w) \<Rightarrow> Inl e
           | (Inr out, w) \<Rightarrow>
               (case write s out of
                  Inl e \<Rightarrow> Inl e
                | Inr s \<Rightarrow> map_sum id (\<lambda>n. (n, s, w)) (follow (dict_get (edges G) n) s))))"

datatype outcome = Finished rag_state | Failed exn | Out_of_steps

fun run_graph :: "write_rule \<Rightarrow> 'w rag_env \<Rightarrow> nat \<Rightarrow> 'w config \<Rightarrow> outcome" where
  \<comment> \<open>at most so many node executions, which the runtime calls its recursion limit\<close>
  "run_graph write E fuel (n, s, w) =
     (if n = END then Finished s
      else (case fuel of
              0 \<Rightarrow> Out_of_steps
            | Suc k \<Rightarrow> (case rag_step write E (n, s, w) of Inl e \<Rightarrow> Failed e | Inr c \<Rightarrow> run_graph write E k c)))"

definition invoke :: "write_rule \<Rightarrow> 'w rag_env \<Rightarrow> nat \<Rightarrow> rag_state \<Rightarrow> 'w \<Rightarrow> outcome" where
  "invoke write E recursion_limit inputs w =
     run_graph write E recursion_limit (entry_point (build_rag_graph E), inputs, w)"

declare run_graph.simps [simp del]

subsection \<open>The search and the reranking of the pipeline\<close>

record 's pipeline_world =
  pw_retrieval :: "'s retrieval_state"
  pw_rerank_cache :: "'s cache_manager"

definition hit_of_point :: "json_obj scored_point \<Rightarrow> found" where
  "hit_of_point p = \<lparr>found_id = sp_id p, hit_score = score p, hit_payload = sp_payload p\<rparr>"

definition pipeline_search ::
  "('s, 'v, json_obj) retriever \<Rightarrow> real \<Rightarrow> real \<times> real \<times> real \<Rightarrow> string \<Rightarrow> string option \<Rightarrow> int \<Rightarrow> 's pipeline_world
   \<Rightarrow> (exn + found list) \<times> 's pipeline_world" where
  \<comment> \<open>\<^verbatim>\<open>hybrid_search(query=..., version=..., top_k=...)\<close>: no name space and no access filter\<close>
  "pipeline_search R now clk query version top_k w =
     (let (r, st) = hybrid_search R now clk clk query version top_k None None (pw_retrieval w)
      in (map_sum id (map hit_of_point) r, w\<lparr>pw_retrieval := st\<rparr>))"

definition pipeline_rerank ::
  "'s backend \<Rightarrow> rerank_env \<Rightarrow> real \<Rightarrow> real \<times> real \<times> real \<Rightarrow> string \<Rightarrow> string list \<Rightarrow> int \<Rightarrow> 's pipeline_world
   \<Rightarrow> (exn + nat list) \<times> 's pipeline_world" where
  "pipeline_rerank b RE now clk query texts top_k w =
     (let (r, bs, cm) = rerank_chunks b RE now clk query texts top_k True (rs_breakers (pw_retrieval w), pw_rerank_cache w)
      in (r, w\<lparr>pw_retrieval := (pw_retrieval w)\<lparr>rs_breakers := bs\<rparr>, pw_rerank_cache := cm\<rparr>))"

definition pipeline_env ::
  "'s pipeline_world rag_env \<Rightarrow> ('s, 'v, json_obj) retriever \<Rightarrow> 's backend \<Rightarrow> rerank_env \<Rightarrow> real \<times> real \<times> real
   \<Rightarrow> 's pipeline_world rag_env" where
  \<comment> \<open>an environment with the search and the reranking of the other theories\<close>
  "pipeline_env E R b RE clk =
     E\<lparr>search := pipeline_search R (clock E) clk, rerank_texts := pipeline_rerank b RE (clock E) clk\<rparr>"

subsection \<open>One step of the graph\<close>

definition step_to ::
  "write_rule \<Rightarrow> rag_state \<Rightarrow> (exn + rag_state) \<times> 'w \<Rightarrow> (rag_state \<Rightarrow> node) \<Rightarrow> exn + 'w config" where
  "step_to write s r nxt =
     (case r of
        (Inl e, w) \<Rightarrow> Inl e
      | (Inr u, w) \<Rightarrow> (case write s (Update u) of Inl e \<Rightarrow> Inl e | Inr s' \<Rightarrow> Inr (nxt s', s', w)))"

lemma step_toE:
  assumes "step_to write s r nxt = Inr c"
  obtains u w s' where "r = (Inr u, w)" "write s (Update u) = Inr s'" "c = (nxt s', s', w)"
  using assms by (auto simp: step_to_def split: prod.splits sum.splits)

lemma rag_step_simps:
  "rag_step write E (N_rewrite, s, w) = step_to write s (rewrite_query E s w) (\<lambda>s. N_retrieve)"
  "rag_step write E (N_retrieve, s, w) = step_to write s (retrieve E s w) (\<lambda>s. N_check_sufficiency)"
  "rag_step write E (N_rerank, s, w) = step_to write s (rerank E s w) (\<lambda>s. N_graph_expand)"
  "rag_step write E (N_graph_expand, s, w) = step_to write s (graph_expand E s w) (\<lambda>s. N_build_context)"
  "rag_step write E (N_build_context, s, w) = step_to write s (build_context_node E s w) (\<lambda>s. N_generate)"
  "rag_step write E (N_generate, s, w) = step_to write s (generate E s w)
     (\<lambda>s. if get_calls s \<noteq> [] \<and> get_int s Tool_loop_count 0 < 5 then N_call_tools else N_self_reflection)"
  "rag_step write E (N_call_tools, s, w) = step_to write s (call_tools E s w) (\<lambda>s. N_generate)"
  "rag_step write E (N_self_reflection, s, w) = step_to write s (self_reflection E s w)
     (\<lambda>s. if truthy_val (s Needs_reflection) then N_retrieve else N_check_confidence)"
  "rag_step write E (N_check_confidence, s, w) = step_to write s (check_confidence E s w)
     (\<lambda>s. if truthy_val (s Needs_escalation) then N_rewrite
          else if truthy_val (s Needs_self_critique) then N_self_critique else END)"
  "rag_step write E (N_self_critique, s, w) = step_to write s (self_critique E s w)
     (\<lambda>s. if truthy_val (s Needs_rewrite) then N_rewrite else END)"
  by (simp_all add: rag_step_def build_rag_graph_def updating_def step_to_def follow_def route_after_generate_def
      self_reflection_route_def confidence_route_def self_critique_route_def Let_def case_prod_unfold
      split: sum.split)

lemma rag_step_check:
  "rag_step write E (N_check_sufficiency, s, w) =
     (case check_sufficiency E s of
        Inl e \<Rightarrow> Inl e
      | Inr t \<Rightarrow>
          (case write s (Text t) of
             Inl e \<Rightarrow> Inl e
           | Inr s' \<Rightarrow>
               (case check_sufficiency E s' of
                  Inl e \<Rightarrow> Inl e
                | Inr r \<Rightarrow> Inr (if r = ''rewrite'' then N_rewrite else N_rerank, s', w))))"
proof -
  have "check_sufficiency E x = Inr r \<Longrightarrow> r = ''rewrite'' \<or> r = ''rerank''" for x r
    by (auto simp: check_sufficiency_def Let_def split: if_splits sum.splits)
  then show ?thesis
    by (auto simp: rag_step_def build_rag_graph_def follow_def Let_def split: sum.split)
qed

subsection \<open>The route that is also a node\<close>

definition rejects_text :: "write_rule \<Rightarrow> bool" where
  \<comment> \<open>the output of a node has to be a dictionary\<close>
  "rejects_text write \<longleftrightarrow> (\<forall>s t. isl (write s (Text t)))"

lemma run_graph_step:
  "n \<noteq> END \<Longrightarrow> run_graph write E (Suc k) (n, s, w) =
     (case rag_step write E (n, s, w) of Inl e \<Rightarrow> Failed e | Inr c \<Rightarrow> run_graph write E k c)"
  "n \<noteq> END \<Longrightarrow> run_graph write E 0 (n, s, w) = Out_of_steps"
  "run_graph write E k (END, s, w) = Finished s"
  by (simp_all add: run_graph.simps)

lemma check_node_fails: "rejects_text write \<Longrightarrow> isl (rag_step write E (N_check_sufficiency, s, w))"
  by (auto simp: rag_step_check rejects_text_def isl_def split: sum.splits) (metis sum.exhaust_sel sum.distinct(1))

lemma run_check_fails:
  assumes "rejects_text write"
  shows "run_graph write E k (N_check_sufficiency, s, w) \<noteq> Finished s'"
  using check_node_fails [OF assms, of E s w] by (cases k) (auto simp: run_graph_step isl_def split: sum.splits)

lemma third_node_fails:
  assumes "rejects_text write"
  shows "\<exists>e. run_graph write E (Suc (Suc (Suc k))) (N_rewrite, s, w) = Failed e"
proof -
  have check: "\<exists>e. run_graph write E (Suc k) (N_check_sufficiency, s2, w2) = Failed e" for s2 w2
    using check_node_fails [OF assms, of E s2 w2] by (auto simp: run_graph_step isl_def)
  have retrieve: "\<exists>e. run_graph write E (Suc (Suc k)) (N_retrieve, s1, w1) = Failed e" for s1 w1
    using check by (auto simp: run_graph_step(1) rag_step_simps step_to_def split: sum.split prod.split)
  show ?thesis
    using retrieve by (auto simp: run_graph_step(1) rag_step_simps step_to_def split: sum.split prod.split)
qed

text \<open>
  C30. Every question on the agentic path ends in an error, at the third node at the latest. \<^verbatim>\<open>check_sufficiency\<close> is
  registered as a node as well as a route and, as a node, returns the name of the route; a runtime that accepts only
  dictionaries from nodes, as LangGraph documents (\<^verbatim>\<open>INVALID_GRAPH_NODE_RETURN_VALUE\<close>), raises there. So the graph always
  ends, whatever the models, the search and the tools do, and never with an answer.
\<close>

theorem orchestrator_always_fails:
  assumes "rejects_text write" and "3 \<le> recursion_limit"
  shows "\<exists>e. invoke write E recursion_limit inputs w = Failed e"
proof -
  have "recursion_limit = Suc (Suc (Suc (recursion_limit - 3)))" using assms(2) by simp
  with third_node_fails [OF assms(1), of E "recursion_limit - 3" inputs w] show ?thesis by (simp add: invoke_def build_rag_graph_def)
qed

definition strict_write :: write_rule where
  "strict_write s out =
     (case out of
        Update u \<Rightarrow> Inr (\<lambda>k. if k \<in> RAGState then (case u k of Some v \<Rightarrow> Some v | None \<Rightarrow> s k) else None)
      | Text t \<Rightarrow> Inl (PyException ''InvalidUpdateError'' t))"

definition sample_rag_env :: "'w rag_env" where
  "sample_rag_env =
     \<lparr>llm = (\<lambda>ms temp n w. (Inr ''answer'', w)), slm = (\<lambda>p n temp w. (Inr None, w)),
      search = (\<lambda>q v k w. (Inr [\<lparr>found_id = ''1'', hit_score = 1/2, hit_payload = [(''text'', JStr ''a'')]\<rparr>], w)),
      rerank_texts = (\<lambda>q ts k w. (Inr [0], w)), graph_query = (\<lambda>q w. (Inr [], w)),
      run_tool = (\<lambda>tc w. (Inl (ValueError []), w)), confidence_of = (\<lambda>q c a w. (Inr (0, []), w)),
      from_iso = (\<lambda>s. None), clock = 0, sha256 = (\<lambda>s. s),
      context_cfg = \<lparr>reorder_enabled = True, token_optimizer_enabled = True, fmt_score = (\<lambda>s. [])\<rparr>,
      rewrite_prompt = (\<lambda>q. q), system_prompt = (\<lambda>q. q), graph_text = (\<lambda>q. q),
      MAX_RETRIEVAL_LOOPS = 3, MAX_CHUNKS_RETRIEVAL = 50, MAX_CHUNKS_AFTER_RERANK = 20, USE_GRAPH_EXPANSION = False,
      HALLUCINATION_CHECK_ENABLED = True, CONFIDENCE_THRESHOLD = 5/10, MAX_VERIFY_LOOPS = 2, SELF_CRITIQUE_ENABLED = True,
      REFLECTION_ENABLED = True, REFLECTION_DEPTH = 2\<rparr>"

lemma sample_llm: "llm sample_rag_env = (\<lambda>ms temp n w. (Inr ''answer'', w))"
  unfolding sample_rag_env_def by (simp only: rag_env.select_convs)

lemma sample_search:
  "search sample_rag_env =
     (\<lambda>q v k w. (Inr [\<lparr>found_id = ''1'', hit_score = 1/2, hit_payload = [(''text'', JStr ''a'')]\<rparr>], w))"
  unfolding sample_rag_env_def by (simp only: rag_env.select_convs)

theorem orchestrator_always_fails_witness:
  "\<exists>e. invoke strict_write sample_rag_env 25 [Query \<mapsto> VStr ''q''] () = Failed e"
  by (rule orchestrator_always_fails) (simp_all add: rejects_text_def strict_write_def)

text \<open>In the repaired graph the bound \<^verbatim>\<open>MAX_RETRIEVAL_LOOPS\<close> would not bound the loop either: when nothing was found, the route
  leads back to rewriting, however often the query was rewritten before.\<close>

lemma empty_search_rewrites: "get_chunks s = [] \<Longrightarrow> check_sufficiency E s = Inr ''rewrite''"
  by (simp add: check_sufficiency_def)

subsection \<open>Loops that are never taken\<close>

inductive reachable :: "write_rule \<Rightarrow> 'w rag_env \<Rightarrow> 'w config \<Rightarrow> 'w config \<Rightarrow> bool" for "write" E where
  start: "reachable write E c c"
| step: "reachable write E c (n, s, w) \<Longrightarrow> n \<noteq> END \<Longrightarrow> rag_step write E (n, s, w) = Inr c' \<Longrightarrow> reachable write E c c'"

definition declared_only :: "write_rule \<Rightarrow> bool" where
  \<comment> \<open>documented for a state schema: its keys are the channels of the graph, and nothing else is part of the state\<close>
  "declared_only write \<longleftrightarrow> (\<forall>s out s' k. write s out = Inr s' \<longrightarrow> k \<notin> RAGState \<longrightarrow> s' k = None)"

lemma declared_onlyD: "declared_only write \<Longrightarrow> write s out = Inr s' \<Longrightarrow> k \<notin> RAGState \<Longrightarrow> s' k = None"
  unfolding declared_only_def by blast

lemma undeclared [simp]:
  "Needs_reflection \<notin> RAGState" "Needs_escalation \<notin> RAGState" "Needs_self_critique \<notin> RAGState" "Needs_rewrite \<notin> RAGState"
  by (simp_all add: RAGState_def)

lemma declared_flags:
  assumes "declared_only write" and "write s out = Inr s'"
  shows "\<not> truthy_val (s' Needs_reflection) \<and> \<not> truthy_val (s' Needs_escalation) \<and> \<not> truthy_val (s' Needs_self_critique)"
  using declared_onlyD [OF assms] by simp

lemma step_drops_undeclared:
  fixes E :: "'w rag_env"
  assumes "declared_only write" and "rag_step write E (n, s, w) = Inr (n', s', w')" and "n \<noteq> END" and "k \<notin> RAGState"
  shows "s' k = None"
proof -
  have "s' k = None" if "step_to write s r nxt = Inr (n', s', w')" for r :: "(exn + rag_state) \<times> 'w" and nxt
    using that declared_onlyD [OF assms(1) _ assms(4)] by (auto elim!: step_toE)
  then show ?thesis
    using assms(2-4) declared_onlyD [OF assms(1) _ assms(4)]
    by (cases n) (auto simp: rag_step_simps rag_step_check split: sum.splits)
qed

text \<open>The loops that follow an answer are never taken. The flags that steer them (\<^verbatim>\<open>needs_reflection\<close>, \<^verbatim>\<open>needs_escalation\<close>,
  \<^verbatim>\<open>needs_self_critique\<close>) are not declared in \<^verbatim>\<open>RAGState\<close>, so that a runtime with the declared keys only never shows them
  to a route: the node for self-critique is never reached, reflection always proceeds to the confidence check, and the
  confidence check always ends the run.\<close>

theorem answer_loops_dead:
  assumes "declared_only write" and "reachable write E (N_rewrite, inputs, w0) (n, s, w)"
    and "\<And>k. k \<notin> RAGState \<Longrightarrow> inputs k = None"
  shows "n \<noteq> N_self_critique \<and>
    (\<forall>c'. rag_step write E (n, s, w) = Inr c' \<longrightarrow>
       (n = N_self_reflection \<longrightarrow> fst c' = N_check_confidence) \<and> (n = N_check_confidence \<longrightarrow> fst c' = END))"
proof -
  have inv: "(\<forall>k. k \<notin> RAGState \<longrightarrow> s k = None) \<and> n \<noteq> N_self_critique"
    using assms(2)
  proof (induction "(N_rewrite, inputs, w0)" "(n, s, w)" arbitrary: n s w rule: reachable.induct)
    case start
    then show ?case using assms(3) by simp
  next
    case (step n s w n' s' w')
    then have drop: "s' k = None" if "k \<notin> RAGState" for k
      using step_drops_undeclared [OF assms(1) step(4,3)] that by blast
    moreover have "n' \<noteq> N_self_critique"
      using step drop by (cases n) (auto simp: rag_step_simps rag_step_check elim!: step_toE split: sum.splits if_splits)
    ultimately show ?case by blast
  qed
  have "fst c' = N_check_confidence" if "rag_step write E (N_self_reflection, s, w) = Inr c'" for c'
    using that by (auto simp: rag_step_simps elim!: step_toE dest: declared_flags [OF assms(1)])
  moreover have "fst c' = END" if "rag_step write E (N_check_confidence, s, w) = Inr c'" for c'
    using that by (auto simp: rag_step_simps elim!: step_toE dest: declared_flags [OF assms(1)])
  ultimately show ?thesis using inv by blast
qed

lemma strict_declared: "declared_only strict_write"
  by (auto simp: declared_only_def strict_write_def split: node_output.splits)

theorem answer_loops_dead_witness:
  "\<exists>s. reachable strict_write sample_rag_env (N_rewrite, [Query \<mapsto> VStr ''q''], ()) (N_retrieve, s, ()) \<and>
     N_retrieve \<noteq> N_self_critique"
proof -
  have "\<exists>s'. rag_step strict_write sample_rag_env (N_rewrite, [Query \<mapsto> VStr ''q''], ()) = Inr (N_retrieve, s', ())"
    by (auto simp: rag_step_simps step_to_def rewrite_query_def the_query_def sample_llm strict_write_def Let_def)
  then obtain s' where "rag_step strict_write sample_rag_env (N_rewrite, [Query \<mapsto> VStr ''q''], ()) = Inr (N_retrieve, s', ())"
    by blast
  then have r: "reachable strict_write sample_rag_env (N_rewrite, [Query \<mapsto> VStr ''q''], ()) (N_retrieve, s', ())"
    by (rule reachable.step [OF reachable.start, rotated]) simp
  have "[Query \<mapsto> VStr ''q''] k = None" if "k \<notin> RAGState" for k using that by (cases "k = Query") (auto simp: RAGState_def)
  from answer_loops_dead [OF strict_declared r this] r show ?thesis by blast
qed

subsection \<open>Access control and metadata\<close>

text \<open>C5. The agentic path retrieves without access control. The retrieval node passes neither a name space nor an access filter
  to the search, so that for a question without a version it obtains exactly what a database would return that ignores all
  filters; the caller's roles and groups are no part of the state at all.\<close>

theorem agentic_retrieval_unfiltered:
  assumes "s Version = None"
  shows "retrieve (pipeline_env E R b RE clk) s w =
    retrieve (pipeline_env E (R\<lparr>query_dense := (\<lambda>v f k. query_dense R v None k),
                               query_sparse := (\<lambda>v f k. query_sparse R v None k)\<rparr>) b RE clk) s w"
proof -
  have both: "query_both (R\<lparr>query_dense := (\<lambda>v f k. query_dense R v None k),
                       query_sparse := (\<lambda>v f k. query_sparse R v None k)\<rparr>) c1 c2 v sv None k bs =
      query_both R c1 c2 v sv None k bs" for c1 c2 v sv k bs
    by (simp add: query_both_def cong: sum.case_cong prod.case_cong option.case_cong)
  have "hybrid_search R now c1 c2 q None k None None st =
      hybrid_search (R\<lparr>query_dense := (\<lambda>v f k. query_dense R v None k),
                       query_sparse := (\<lambda>v f k. query_sparse R v None k)\<rparr>) now c1 c2 q None k None None st" for now c1 c2 q k st
    by (simp add: hybrid_search_def query_filter_def truthy_str_def both cong: sum.case_cong prod.case_cong)
  then show ?thesis
    using assms by (cases "query_to_use s") (simp_all add: retrieve_def pipeline_env_def pipeline_search_def
        cong: sum.case_cong prod.case_cong)
qed

definition filtering_retriever :: "(store, unit, json_obj) retriever" where
  \<comment> \<open>a database that returns a confidential document unless it is given a filter\<close>
  "filtering_retriever =
     \<lparr>client_ready = True, embedder_ready = True, embed_env = sample_embed_env, sparse_embedding = (\<lambda>q. Inr None),
      query_dense = (\<lambda>v f k. Inr (if f = None
        then [\<lparr>sp_id = ''1'', score = 9/10, sp_payload = [(''access_level'', JStr ''confidential'')]\<rparr>] else [])),
      query_sparse = (\<lambda>v f k. Inr []), score_thresholds = default_score_thresholds\<rparr>"

theorem agentic_retrieval_unfiltered_witness:
  "retrieve (pipeline_env sample_rag_env filtering_retriever memory_backend sample_rerank_env (0, 0, 0)) [Query \<mapsto> VStr ''q'']
     \<lparr>pw_retrieval = \<lparr>rs_breakers = [], rs_embeddings = init_embedding_cache 10 1, rs_cache = init_cache_manager ''rag:'' []\<rparr>,
      pw_rerank_cache = init_cache_manager ''rag:'' []\<rparr> =
   retrieve (pipeline_env sample_rag_env (filtering_retriever\<lparr>
       query_dense := (\<lambda>v f k. query_dense filtering_retriever v None k),
       query_sparse := (\<lambda>v f k. query_sparse filtering_retriever v None k)\<rparr>) memory_backend sample_rerank_env (0, 0, 0))
     [Query \<mapsto> VStr ''q'']
     \<lparr>pw_retrieval = \<lparr>rs_breakers = [], rs_embeddings = init_embedding_cache 10 1, rs_cache = init_cache_manager ''rag:'' []\<rparr>,
      pw_rerank_cache = init_cache_manager ''rag:'' []\<rparr>"
  by (rule agentic_retrieval_unfiltered) simp

definition hit_fields :: "found \<Rightarrow> chunk_dict" where
  "hit_fields h = (''id'', found_id h) # (case dict_getd (hit_payload h) ''text'' (JStr []) of JStr t \<Rightarrow> [(''text'', t)] | _ \<Rightarrow> [])"

lemma text_fields_Cons:
  "text_fields ((k, v) # c) = (case v of JStr s \<Rightarrow> [(k, s)] | _ \<Rightarrow> []) @ text_fields c" "text_fields [] = []"
  by (cases v) (simp_all add: text_fields_def List.map_filter_def)

lemma text_fields_hit: "text_fields (chunk_of_hit h) = hit_fields h"
  by (simp add: chunk_of_hit_def hit_fields_def text_fields_Cons)

lemma text_fields_boosted:
  "text_fields (dict_set ''time_boost'' (JFloat x) (dict_set ''score'' (JFloat y) (chunk_of_hit h))) = hit_fields h"
  by (simp add: chunk_of_hit_def hit_fields_def text_fields_Cons dict_set_def)

lemma decayed_fields: "decay_chunk f now d (chunk_of_hit h) = Inr c \<Longrightarrow> text_fields c = hit_fields h"
  using decay_chunk_cases [of f now d "chunk_of_hit h" c] text_fields_hit text_fields_boosted unfolding Let_def by metis

lemma retrieved_fields:
  assumes "apply_time_decay f now d (map chunk_of_hit hs) = Inr cs" and "c \<in> set cs"
  shows "\<exists>h. text_fields c = hit_fields h"
  using assms
proof (induction hs arbitrary: cs)
  case (Cons h hs)
  then obtain c1 cs1 where "decay_chunk f now d (chunk_of_hit h) = Inr c1"
      "apply_time_decay f now d (map chunk_of_hit hs) = Inr cs1" "cs = c1 # cs1"
    by (auto simp: map_sum_def split: sum.splits)
  with Cons.IH Cons.prems(2) decayed_fields show ?case by auto
qed simp

lemma hit_header:
  "chunk_header fmt (hit_fields h) sc = ''[unknown]  /  (vlatest) [rel='' @ fmt sc @ '']'' @ [CHR 0x0A]"
  by (cases "dict_getd (hit_payload h) ''text'' (JStr [])") (simp_all add: chunk_header_def hit_fields_def dict_getd_def)

text \<open>What the agentic path retrieves loses its provenance: the retrieval node leaves source, title and version in the
  payload, while the context is built from fields beside it, so that every chunk appears in the prompt under the same
  header, from an unknown source in its latest version.\<close>

theorem agentic_headers_uniform:
  assumes "retrieve E s w = (Inr u, w')" and "u Retrieved_chunks = Some (VChunks cs)" and "c \<in> set cs"
  shows "chunk_header fmt (text_fields c) sc = ''[unknown]  /  (vlatest) [rel='' @ fmt sc @ '']'' @ [CHR 0x0A]"
proof -
  obtain x where x: "query_to_use s = Inr x" using assms(1) by (auto simp: retrieve_def split: sum.splits)
  define v where "v = (case s Version of Some (VStr v) \<Rightarrow> Some v | _ \<Rightarrow> None)"
  obtain r w1 where r: "search E x v (MAX_CHUNKS_RETRIEVAL E) w = (r, w1)" by fastforce
  have "\<exists>hs. apply_time_decay (from_iso E) (clock E) 180 (map chunk_of_hit hs) = Inr cs"
  proof (cases r)
    case (Inl e)
    then have "cs = []" using assms(1,2) r by (auto simp: retrieve_def x v_def [symmetric] split: if_splits)
    then show ?thesis by (intro exI [of _ "[]"]) simp
  next
    case (Inr hs)
    then show ?thesis
      using assms(1,2) r by (cases "apply_time_decay (from_iso E) (clock E) 180 (map chunk_of_hit hs)")
        (auto simp: retrieve_def x v_def [symmetric])
  qed
  then obtain h where "text_fields c = hit_fields h" using retrieved_fields [OF _ assms(3)] by blast
  then show ?thesis by (simp only: hit_header)
qed

theorem agentic_headers_uniform_witness:
  "chunk_header (\<lambda>x. ''0.5'') (text_fields (chunk_of_hit \<lparr>found_id = ''1'', hit_score = 1/2,
       hit_payload = [(''text'', JStr ''a''), (''source_type'', JStr ''jira'')]\<rparr>)) (1/2) =
     ''[unknown]  /  (vlatest) [rel=0.5]'' @ [CHR 0x0A]"
proof -
  let ?h = "\<lparr>found_id = ''1'', hit_score = 1/2, hit_payload = [(''text'', JStr ''a''), (''source_type'', JStr ''jira'')]\<rparr>"
  let ?E = "(sample_rag_env :: unit rag_env)\<lparr>search := (\<lambda>q v k w. (Inr [?h], w))\<rparr>"
  have "decay_chunk (from_iso ?E) (clock ?E) 180 (chunk_of_hit ?h) = Inr (chunk_of_hit ?h)"
    by (simp add: decay_chunk_def chunk_of_hit_def dict_getd_def json_get_def py_or_def parse_timestamp_def)
  then have "retrieve ?E [Query \<mapsto> VStr ''q''] () = (Inr [Retrieved_chunks \<mapsto> VChunks [chunk_of_hit ?h]], ())"
    by (simp add: retrieve_def query_to_use_def the_query_def state_str_def)
  from agentic_headers_uniform [OF this, of "[chunk_of_hit ?h]" "chunk_of_hit ?h" "\<lambda>x. ''0.5''" "1/2"]
  show ?thesis by simp
qed

end
