(* ===== verification/Confidence.thy ===== *)
theory Confidence
  imports Retrieval Rerank Token_Budget
begin

text \<open>
  Confidence of an answer, \<^verbatim>\<open>proxy/app/core/confidence.py\<close>: decomposition into claims, grounding of claims in the context,
  calibration of the threshold, the confidence report with its alert, retrieval quality, verification of claims and the
  decision whether to answer at all. The NLI model and the rendering of a list of claims are parameters. Texts are over
  the first 256 code points, so that the Cyrillic uncertainty phrases cannot occur in them and are left out.
\<close>

subsection \<open>Claims\<close>

function claim_parts :: "string \<Rightarrow> string \<Rightarrow> string list" where
  \<comment> \<open>\<^verbatim>\<open>re.split(r"(?<=[.!?])\s+|\n|(?<=;)\s+", text)\<close>, with the characters of the current part\<close>
  "claim_parts s [] = [s]"
| "claim_parts s (c # cs) =
     (if py_space c \<and> s \<noteq> [] \<and> last s \<in> {CHR ''.'', CHR ''!'', CHR ''?''}
      then s # claim_parts [] (dropWhile py_space cs)
      else if c = CHR 0x0A then s # claim_parts [] cs
      else if py_space c \<and> s \<noteq> [] \<and> last s = CHR '';'' then s # claim_parts [] (dropWhile py_space cs)
      else claim_parts (s @ [c]) cs)"
  by pat_completeness auto

termination
  by (relation "measure (\<lambda>(s, cs). length cs)") (auto simp: less_Suc_eq_le length_dropWhile_le)

definition rstrip_of :: "string \<Rightarrow> string \<Rightarrow> string" where
  "rstrip_of chars s = rev (dropWhile (\<lambda>c. c \<in> set chars) (rev s))"

definition drop_bullet :: "string \<Rightarrow> string" where
  \<comment> \<open>\<^verbatim>\<open>re.sub\<close> of a leading bullet; the third bullet of the source is no character of the model\<close>
  "drop_bullet s =
     (case s of c # cs \<Rightarrow> if c = CHR ''-'' \<or> c = CHR ''*'' then dropWhile py_space cs else s | [] \<Rightarrow> [])"

definition decompose_into_claims :: "string \<Rightarrow> string list" where
  "decompose_into_claims answer =
     (if strip answer = [] then []
      else filter (\<lambda>c. length c \<ge> 10)
             (map (\<lambda>part. strip (drop_bullet (rstrip_of '';.'' (strip part)))) (claim_parts [] (strip answer))))"

definition word_set :: "string \<Rightarrow> string set" where
  "word_set text = set (find_words (py_lower text))"

definition cosine_proxy :: "string \<Rightarrow> string \<Rightarrow> real" where
  "cosine_proxy text_a text_b =
     (let tokens_a = word_set text_a; tokens_b = word_set text_b in
      if tokens_a = {} \<or> tokens_b = {} then 0
      else real (card (tokens_a \<inter> tokens_b)) / sqrt (real (card tokens_a * card tokens_b)))"

definition check_claim_supported :: "string \<Rightarrow> string \<Rightarrow> bool" where
  "check_claim_supported claim context \<longleftrightarrow>
     (if strip context = [] then False
      else
        (let claim_tokens = word_set claim in
         if claim_tokens = {} then False
         else
           (let keyword_share = real (card (claim_tokens \<inter> word_set context)) / real (card claim_tokens);
                combined = (5/10) * cosine_proxy claim context + (5/10) * keyword_share
            in combined \<ge> 25/100)))"

record grounding_report =
  gr_score :: real
  supported_claims :: nat
  total_claims :: nat
  unsupported :: "string list"

definition nli_lightweight :: "string list \<Rightarrow> string \<Rightarrow> grounding_report" where
  "nli_lightweight claims context =
     (let supported = length (filter (\<lambda>c. check_claim_supported c context) claims)
      in \<lparr>gr_score = round_to 3 (if claims \<noteq> [] then real supported / real (length claims) else 0),
          supported_claims = supported, total_claims = length claims,
          unsupported = filter (\<lambda>c. \<not> check_claim_supported c context) claims\<rparr>)"

definition compute_nli_grounding :: "(string \<Rightarrow> string \<Rightarrow> grounding_report) option \<Rightarrow> string \<Rightarrow> string \<Rightarrow> grounding_report" where
  \<comment> \<open>the argument is the real NLI model, when there is one\<close>
  "compute_nli_grounding nli_model answer context =
     (let claims = decompose_into_claims answer in
      if strip answer = [] \<or> claims = [] then \<lparr>gr_score = 0, supported_claims = 0, total_claims = 0, unsupported = []\<rparr>
      else if strip context = []
      then \<lparr>gr_score = 0, supported_claims = 0, total_claims = length claims, unsupported = claims\<rparr>
      else (case nli_model of Some m \<Rightarrow> m answer context | None \<Rightarrow> nli_lightweight claims context))"

subsection \<open>Calibration\<close>

definition f1_of :: "(real \<times> bool) list \<Rightarrow> real \<Rightarrow> real" where
  "f1_of test_cases th =
     (let tp = length (filter (\<lambda>(s, ok). s \<ge> th \<and> ok) test_cases);
          fp = length (filter (\<lambda>(s, ok). s \<ge> th \<and> \<not> ok) test_cases);
          fn = length (filter (\<lambda>(s, ok). \<not> s \<ge> th \<and> ok) test_cases);
          precision = (if tp + fp > 0 then real tp / real (tp + fp) else 0);
          recall = (if tp + fn > 0 then real tp / real (tp + fn) else 0)
      in if precision + recall > 0 then 2 * precision * recall / (precision + recall) else 0)"

definition try_candidate :: "(real \<times> bool) list \<Rightarrow> real \<times> real \<Rightarrow> real \<Rightarrow> real \<times> real" where
  "try_candidate test_cases best candidate =
     (let (best_f1, best_threshold) = best; f1 = f1_of test_cases candidate in
      if f1 > best_f1 then (f1, candidate)
      else if f1 = best_f1 \<and> candidate < best_threshold then (best_f1, candidate) else best)"

definition try_midpoint :: "(real \<times> bool) list \<Rightarrow> real \<times> real \<Rightarrow> real \<Rightarrow> real \<times> real" where
  "try_midpoint test_cases best mid =
     (let f1 = f1_of test_cases mid in if f1 > fst best then (f1, mid) else best)"

definition midpoints :: "real list \<Rightarrow> real list" where
  "midpoints xs = map (\<lambda>(a, b). (a + b) / 2) (zip xs (tl xs))"

definition best_candidate :: "(real \<times> bool) list \<Rightarrow> real \<times> real" where
  "best_candidate test_cases = foldl (try_candidate test_cases) (0, 5/10) (map fst test_cases)"

definition calibrate_threshold :: "real \<Rightarrow> (real \<times> bool) list \<Rightarrow> real" where
  \<comment> \<open>the first argument is \<^verbatim>\<open>CONFIDENCE_THRESHOLD\<close>\<close>
  "calibrate_threshold configured test_cases =
     (if test_cases = [] then configured
      else round_to 3 (snd (foldl (try_midpoint test_cases) (best_candidate test_cases)
                              (midpoints (sort (remdups (map fst test_cases)))))))"

subsection \<open>The confidence report\<close>

record confidence_report =
  cr_score :: real
  cr_needs_review :: bool
  cr_uncertainties :: "string list"
  cr_recommendation :: string
  cr_domain :: confidence_score

record confidence_env =
  nli_model :: "(string \<Rightarrow> string \<Rightarrow> grounding_report) option"
  nli_enabled :: bool
  \<comment> \<open>\<^verbatim>\<open>NLI_GROUNDING_ENABLED or HALLUCINATION_CHECK_ENABLED\<close>\<close>
  nli_text :: "grounding_report \<Rightarrow> string"
  \<comment> \<open>the text about the unsupported claims\<close>
  ALERT_CONFIDENCE_THRESHOLD :: real

definition uncertainty_phrases :: "string list" where
  "uncertainty_phrases =
     [''I don't know'', ''I'm not sure'', ''I cannot'', ''no information'', ''unclear'', ''uncertain'', ''possibly'', ''maybe'']"

definition found_phrases :: "string \<Rightarrow> string list" where
  "found_phrases answer = filter (\<lambda>p. contains p (py_lower answer)) uncertainty_phrases"

definition heuristic_score :: "string \<Rightarrow> string \<Rightarrow> real \<times> string list" where
  \<comment> \<open>the penalties before grounding\<close>
  "heuristic_score context answer =
     (let short = length (strip context) < 20;
          thin = (context \<noteq> [] \<and> real (length context) < real (length answer) * (5/10));
          phrases = found_phrases answer;
          brief = length (strip answer) < 20
      in (7/10 - (if short then 4/10 else 0) - (if thin then 2/10 else 0) - (if phrases \<noteq> [] then 2/10 else 0)
            - (if brief then 15/100 else 0),
          (if short then [''Retrieved context is empty or very short''] else []) @
          (if thin then [''Context is much shorter than answer''] else []) @
          (if phrases \<noteq> [] then [''Answer contains uncertainty phrases: '' @ join '', '' phrases] else []) @
          (if brief then [''Answer is very short''] else [])))"

definition compute_answer_confidence :: "confidence_env \<Rightarrow> string \<Rightarrow> string \<Rightarrow> confidence_report" where
  "compute_answer_confidence C context answer =
     (let (h, uncertainties) = heuristic_score context answer;
          grounded = (nli_enabled C \<and> strip answer \<noteq> [] \<and> strip context \<noteq> []);
          nli_report = compute_nli_grounding (nli_model C) answer context;
          uncertainties = (if grounded \<and> unsupported nli_report \<noteq> [] then uncertainties @ [nli_text C nli_report]
                           else uncertainties);
          sc = (if grounded then (6/10) * h + (4/10) * gr_score nli_report else h);
          sc = max 0 (min 1 sc);
          review = sc < 5/10;
          reported = round_to 2 sc
      in \<lparr>cr_score = reported, cr_needs_review = review, cr_uncertainties = uncertainties,
          cr_recommendation = (if review
            then ''Consider rewording query, expanding retrieved context, or flagging for human review.'' else []),
          cr_domain = \<lparr>cs_value = reported,
            cs_factors = [(''nli'', if grounded then gr_score nli_report else 0), (''context_heuristic'', sc),
                          (''needs_review'', if review then 1 else 0)],
            cs_action = (if reported \<ge> 6/10 then ''USE'' else if reported \<ge> 4/10 then ''REWRITE'' else ''FALLBACK'')\<rparr>\<rparr>)"

definition low_confidence_alert :: "confidence_env \<Rightarrow> confidence_report \<Rightarrow> bool" where
  \<comment> \<open>whether \<^verbatim>\<open>_dispatch_low_confidence_alert_sync\<close> logs and sends an alert\<close>
  "low_confidence_alert C r \<longleftrightarrow> \<not> cr_score r \<ge> ALERT_CONFIDENCE_THRESHOLD C"

definition compute_confidence_score :: "nat \<Rightarrow> nat \<Rightarrow> real option \<Rightarrow> nat \<Rightarrow> confidence_score" where
  "compute_confidence_score context_length answer_length nli_score uncertainty_hits =
     (let sc = 7/10 - (if context_length < 20 then 4/10 else 0)
             - (if context_length \<noteq> 0 \<and> real context_length < real answer_length * (5/10) then 2/10 else 0)
             - (if uncertainty_hits > 0 then 2/10 else 0) - (if answer_length < 20 then 15/100 else 0);
          sc = (case nli_score of Some n \<Rightarrow> (6/10) * sc + (4/10) * n | None \<Rightarrow> sc);
          sc = max 0 (min 1 sc)
      in \<lparr>cs_value = round_to 2 sc,
          cs_factors = [(''nli'', case nli_score of Some n \<Rightarrow> n | None \<Rightarrow> 0), (''context_heuristic'', sc),
                        (''uncertainty_hits'', real uncertainty_hits)],
          cs_action = (if sc \<ge> 6/10 then ''USE'' else if sc \<ge> 4/10 then ''REWRITE''
                       else if sc \<ge> 2/10 then ''EXPAND'' else ''FALLBACK'')\<rparr>)"

subsection \<open>Retrieval quality\<close>

record retrieval_quality_report =
  rq_classification :: string
  correct_count :: nat
  incorrect_count :: nat
  ambiguous_count :: nat
  total_count :: nat
  correct_rate :: real
  rq_recommendations :: "string list"

definition score_chunk_relevance :: "string \<Rightarrow> string \<Rightarrow> real" where
  "score_chunk_relevance query chunk_text =
     (if query = [] \<or> chunk_text = [] then 0
      else
        (let query_tokens = word_set query; chunk_tokens = word_set chunk_text in
         if query_tokens = {} then 0
         else
           (let overlap_ratio = real (card (query_tokens \<inter> chunk_tokens)) / real (card query_tokens);
                combined = (4/10) * overlap_ratio + (6/10) * cosine_proxy query chunk_text
            in min 1 combined)))"

definition quality_advice :: "nat \<Rightarrow> nat \<Rightarrow> nat \<Rightarrow> nat \<Rightarrow> string list" where
  \<comment> \<open>the recommendations; the dash of the second one is no character of the model\<close>
  "quality_advice correct incorrect ambiguous n =
     (if incorrect > 0 then [nat_str incorrect @ ''/'' @ nat_str n @ '' chunks are irrelevant to the query.''] else []) @
     (if ambiguous > 0 then [nat_str ambiguous @ ''/'' @ nat_str n @ '' chunks are partially relevant - consider query refinement.''] else []) @
     (if correct = 0 \<and> n > 0 then [''No highly relevant chunks found. Consider re-running retrieval with HyDE enabled.''] else []) @
     (if real correct / real n \<ge> 5/10 then [''Retrieval quality is acceptable.''] else [])"

definition evaluate_retrieval_quality :: "string \<Rightarrow> string list \<Rightarrow> retrieval_quality_report" where
  \<comment> \<open>of the chunks only their texts are read\<close>
  "evaluate_retrieval_quality query texts =
     (if texts = []
      then \<lparr>rq_classification = ''Incorrect'', correct_count = 0, incorrect_count = 0, ambiguous_count = 0,
            total_count = 0, correct_rate = 0,
            rq_recommendations = [''No chunks retrieved. Consider expanding retrieval scope or checking index.'']\<rparr>
      else
        (let scores = map (score_chunk_relevance query) texts;
             correct = length (filter (\<lambda>s. s > 7/10) scores);
             incorrect = length (filter (\<lambda>s. \<not> s > 7/10 \<and> s < 3/10) scores);
             ambiguous = length (filter (\<lambda>s. \<not> s > 7/10 \<and> \<not> s < 3/10) scores);
             n = length texts;
             rate = (if n > 0 then real correct / real n else 0)
         in \<lparr>rq_classification = (if rate \<ge> 5/10 then ''Correct''
                                  else if rate = 0 \<and> incorrect = n then ''Incorrect'' else ''Ambiguous''),
             correct_count = correct, incorrect_count = incorrect, ambiguous_count = ambiguous, total_count = n,
             correct_rate = round_to 3 rate, rq_recommendations = quality_advice correct incorrect ambiguous n\<rparr>))"

subsection \<open>Verification of the answer\<close>

record verification_report =
  verification_rate :: real
  vr_supported :: "string list"
  vr_unsupported :: "string list"
  vr_total :: nat

definition verify_answer_claims :: "string \<Rightarrow> string \<Rightarrow> verification_report" where
  "verify_answer_claims answer context =
     (let claims = decompose_into_claims answer in
      if strip answer = [] \<or> claims = []
      then \<lparr>verification_rate = 0, vr_supported = [], vr_unsupported = [], vr_total = 0\<rparr>
      else if strip context = []
      then \<lparr>verification_rate = 0, vr_supported = [], vr_unsupported = claims, vr_total = length claims\<rparr>
      else
        (let supported = filter (\<lambda>c. check_claim_supported c context) claims
         in \<lparr>verification_rate = round_to 3 (real (length supported) / real (length claims)),
             vr_supported = supported, vr_unsupported = filter (\<lambda>c. \<not> check_claim_supported c context) claims,
             vr_total = length claims\<rparr>))"

definition stop_words :: "string list" where
  "stop_words =
     [''the'', ''a'', ''an'', ''is'', ''are'', ''was'', ''were'', ''be'', ''been'', ''being'', ''have'', ''has'', ''had'',
      ''do'', ''does'', ''did'', ''will'', ''would'', ''could'', ''should'', ''may'', ''might'', ''can'', ''shall'', ''to'',
      ''of'', ''in'', ''for'', ''on'', ''with'', ''at'', ''by'', ''from'', ''as'', ''into'', ''through'', ''during'']"

definition claim_keywords :: "string \<Rightarrow> string set" where
  "claim_keywords claim = set (py_split (py_lower claim)) - set stop_words"

definition keywords_supported :: "string \<Rightarrow> string \<Rightarrow> bool" where
  "keywords_supported context_lower claim \<longleftrightarrow>
     (let keywords = claim_keywords claim;
          matched = card (Set.filter (\<lambda>kw. contains kw context_lower) keywords)
      in card keywords > 0 \<and> real matched / real (card keywords) \<ge> 3/10)"

definition critique_claims :: "string \<Rightarrow> string list" where
  "critique_claims answer = filter (\<lambda>s. s \<noteq> [] \<and> length s > 10) (map strip (split_on (CHR ''.'') answer))"

definition self_critique_answer :: "(real \<Rightarrow> string) \<Rightarrow> string \<Rightarrow> string \<Rightarrow> real \<Rightarrow> bool \<times> real \<times> string" where
  \<comment> \<open>the first argument renders a number with two decimals\<close>
  "self_critique_answer fmt2 context answer th =
     (let claims = critique_claims answer in
      if answer = [] \<or> context = [] then (True, 5, ''No verification needed'')
      else if claims = [] then (True, 5, ''No claims to verify'')
      else
        (let n = length claims;
             supported = length (filter (keywords_supported (py_lower context)) claims);
             support_ratio = real supported / real n;
             sc = 1 + support_ratio * 4;
             is_valid = sc \<ge> th;
             reason = ''Support ratio: '' @ fmt2 support_ratio @ '' ('' @ nat_str supported @ ''/'' @ nat_str n @ '' claims supported)''
         in (is_valid, sc, if is_valid then reason else ''Answer not well supported by context. '' @ reason)))"

definition should_generate_answer :: "real list \<Rightarrow> nat \<Rightarrow> bool \<times> string" where
  \<comment> \<open>the argument holds the scores of the chunks\<close>
  "should_generate_answer scores min_strong_sources =
     (if scores = [] then (False, ''No relevant documents found in knowledge base'')
      else
        (let strong_count = length (filter (\<lambda>s. s \<ge> 32/100) scores) in
         if strong_count < min_strong_sources then
           (False, if strong_count > 0
                   then ''Only '' @ nat_str strong_count @ '' relevant source(s) found (need '' @ nat_str min_strong_sources
                        @ ''). Insufficient data for reliable answer.''
                   else ''No sufficiently relevant sources found. Cannot provide reliable answer.'')
         else (True, ''Sufficient relevant sources found'')))"

subsection \<open>Properties of the calibration\<close>

lemma f1_nonneg: "0 \<le> f1_of tc x"
  by (simp add: f1_of_def Let_def)

lemma f1_cong:
  assumes "\<And>p. p \<in> set tc \<Longrightarrow> (fst p \<ge> x) = (fst p \<ge> y)"
  shows "f1_of tc x = f1_of tc y"
proof -
  have "filter (\<lambda>(s, ok). s \<ge> x \<and> ok) tc = filter (\<lambda>(s, ok). s \<ge> y \<and> ok) tc"
    and "filter (\<lambda>(s, ok). s \<ge> x \<and> \<not> ok) tc = filter (\<lambda>(s, ok). s \<ge> y \<and> \<not> ok) tc"
    and "filter (\<lambda>(s, ok). \<not> s \<ge> x \<and> ok) tc = filter (\<lambda>(s, ok). \<not> s \<ge> y \<and> ok) tc"
    by (rule filter_cong; use assms in force)+
  then show ?thesis by (simp add: f1_of_def)
qed

lemma f1_no_hits:
  assumes "\<And>p. p \<in> set tc \<Longrightarrow> fst p \<ge> x \<Longrightarrow> \<not> snd p"
  shows "f1_of tc x = 0"
proof -
  have "filter (\<lambda>(s, ok). s \<ge> x \<and> ok) tc = []" using assms by (fastforce simp: filter_empty_conv)
  then show ?thesis by (simp add: f1_of_def Let_def)
qed

lemma f1_at_candidate: "f1_of tc x = 0 \<or> (\<exists>c \<in> fst ` set tc. f1_of tc x = f1_of tc c)"
proof (cases "\<exists>p \<in> set tc. fst p \<ge> x")
  case True
  let ?S = "{s \<in> fst ` set tc. s \<ge> x}"
  have S: "finite ?S" "?S \<noteq> {}" using True by auto
  have "f1_of tc x = f1_of tc (Min ?S)"
    by (rule f1_cong) (use S in \<open>auto intro: order_trans [OF _ Min_le] simp: Min_le_iff\<close>)
  then show ?thesis using Min_in [OF S] by blast
next
  case False
  then show ?thesis by (auto intro: f1_no_hits)
qed

lemma best_candidate_fold:
  assumes "b = foldl (try_candidate tc) (0, h) cs"
  shows "0 \<le> fst b \<and> (\<forall>c \<in> set cs. f1_of tc c \<le> fst b \<and> (f1_of tc c = fst b \<longrightarrow> snd b \<le> c)) \<and>
    (fst b = 0 \<and> snd b \<in> insert h (set cs) \<and> snd b \<le> h \<or> 0 < fst b \<and> snd b \<in> set cs \<and> f1_of tc (snd b) = fst b)"
  using assms
proof (induction cs arbitrary: b rule: rev_induct)
  case (snoc c cs)
  obtain f t where a: "foldl (try_candidate tc) (0, h) cs = (f, t)" by force
  note IH = snoc.IH [OF a [symmetric]]
  have b: "b = try_candidate tc (f, t) c" using snoc.prems a by simp
  show ?case
  proof (cases "f1_of tc c > f")
    case True
    then have "b = (f1_of tc c, c)" using b by (simp add: try_candidate_def Let_def)
    then show ?thesis using IH True by force
  next
    case nbig: False
    show ?thesis
    proof (cases "f1_of tc c = f \<and> c < t")
      case True
      then have "b = (f, c)" using b by (simp add: try_candidate_def Let_def)
      then show ?thesis using IH True by force
    next
      case False
      then have "b = (f, t)" using b nbig by (auto simp: try_candidate_def Let_def)
      then show ?thesis using IH nbig False by force
    qed
  qed
qed simp

lemma best_candidate_max: "f1_of tc x \<le> fst (best_candidate tc)"
proof -
  note B = best_candidate_fold [of "best_candidate tc" tc "5/10" "map fst tc", OF best_candidate_def]
  then show ?thesis using f1_at_candidate [of tc x] by force
qed

lemma best_candidate_value: "f1_of tc (snd (best_candidate tc)) = fst (best_candidate tc)"
  using best_candidate_fold [of "best_candidate tc" tc "5/10" "map fst tc", OF best_candidate_def]
    best_candidate_max [of tc "snd (best_candidate tc)"] f1_nonneg [of tc "snd (best_candidate tc)"] by force

lemma midpoint_pass_id: "foldl (try_midpoint tc) (best_candidate tc) ms = best_candidate tc"
proof (induction ms)
  case (Cons m ms)
  have "try_midpoint tc (best_candidate tc) m = best_candidate tc"
    using best_candidate_max [of tc m] by (simp add: try_midpoint_def Let_def)
  then show ?case using Cons.IH by simp
qed simp

text \<open>
  Before it is rounded, the calibrated threshold maximises F1 over all real thresholds, although only the scores of the
  cases are tried: the pass over the midpoints never changes the result. Of the scores that reach the maximum it is the
  least.
\<close>

theorem calibration_optimal:
  assumes "test_cases \<noteq> []"
  shows "\<exists>t. calibrate_threshold configured test_cases = round_to 3 t \<and> (\<forall>x. f1_of test_cases x \<le> f1_of test_cases t) \<and>
    (\<forall>c \<in> fst ` set test_cases. f1_of test_cases c = f1_of test_cases t \<longrightarrow> t \<le> c) \<and>
    foldl (try_midpoint test_cases) (best_candidate test_cases)
      (midpoints (sort (remdups (map fst test_cases)))) = best_candidate test_cases"
proof (intro exI conjI)
  show "calibrate_threshold configured test_cases = round_to 3 (snd (best_candidate test_cases))"
    using assms by (simp add: calibrate_threshold_def midpoint_pass_id)
  show "\<forall>x. f1_of test_cases x \<le> f1_of test_cases (snd (best_candidate test_cases))"
    using best_candidate_max best_candidate_value by metis
  show "\<forall>c \<in> fst ` set test_cases. f1_of test_cases c = f1_of test_cases (snd (best_candidate test_cases)) \<longrightarrow>
      snd (best_candidate test_cases) \<le> c"
    using best_candidate_fold [of "best_candidate test_cases" test_cases "5/10" "map fst test_cases", OF best_candidate_def]
    by (auto simp: best_candidate_value)
qed (rule midpoint_pass_id)

theorem calibration_optimal_witness:
  "\<exists>t. calibrate_threshold (6/10) [(9/10, True), (4/10, False)] = round_to 3 t \<and>
    f1_of [(9/10, True), (4/10, False)] (65/100) \<le> f1_of [(9/10, True), (4/10, False)] t"
  using calibration_optimal [of "[(9/10, True), (4/10, False)]" "6/10"] by blast

text \<open>
  Without a single correct case the calibration does not refuse: it returns the least score (at most one half), the
  threshold that accepts every one of the wrong answers it was given at or below one half.
\<close>

theorem calibration_accepts_wrong_answers:
  assumes "test_cases \<noteq> []" and "\<forall>(s, ok) \<in> set test_cases. \<not> ok"
  shows "calibrate_threshold configured test_cases = round_to 3 (min (5/10) (Min (fst ` set test_cases)))"
proof -
  let ?b = "best_candidate test_cases" and ?S = "fst ` set test_cases"
  have z: "f1_of test_cases x = 0" for x by (rule f1_no_hits) (use assms(2) in auto)
  note B = best_candidate_fold [of ?b test_cases "5/10" "map fst test_cases", OF best_candidate_def]
  have f: "fst ?b = 0" using B z best_candidate_value [of test_cases] by metis
  have le: "snd ?b \<le> c" if "c \<in> ?S" for c using B f z that by auto
  have mem: "snd ?b \<in> insert (5/10) ?S" using B by auto
  have "snd ?b \<le> 5/10" using B f by auto
  moreover have S: "finite ?S" "?S \<noteq> {}" using assms(1) by simp_all
  have "snd ?b \<le> Min ?S" using le S by simp
  moreover have "min (5/10) (Min ?S) \<le> snd ?b"
  proof (cases "snd ?b = 5/10")
    case False
    then have "Min ?S \<le> snd ?b" using mem S(1) by (intro Min_le) blast+
    then show ?thesis by (rule min.coboundedI2)
  qed simp
  ultimately have "snd ?b = min (5/10) (Min ?S)" by simp
  then show ?thesis using assms(1) by (simp add: calibrate_threshold_def midpoint_pass_id)
qed

theorem calibration_accepts_wrong_answers_witness:
  "calibrate_threshold (6/10) [(2/10, False), (9/10, False)] = round_to 3 (min (5/10) (Min {2/10, 9/10}))"
  using calibration_accepts_wrong_answers [of "[(2/10, False), (9/10, False)]" "6/10"] by simp

lemma py_round_floor: "0 \<le> x \<Longrightarrow> 0 \<le> py_round x"
  by (simp add: py_round_def Let_def)

lemma py_round_le_int: "x \<le> real_of_int n \<Longrightarrow> py_round x \<le> n"
  by (auto simp: py_round_def Let_def floor_le_iff; linarith)

lemma int_le_py_round: "real_of_int n \<le> x \<Longrightarrow> n \<le> py_round x"
  by (auto simp: py_round_def Let_def le_floor_iff; linarith)

lemma round_to_bounds:
  assumes "real_of_int a \<le> x * 10 ^ d" and "x * 10 ^ d \<le> real_of_int c"
  shows "real_of_int a / 10 ^ d \<le> round_to d x \<and> round_to d x \<le> real_of_int c / 10 ^ d"
  using int_le_py_round [OF assms(1)] py_round_le_int [OF assms(2)] by (simp add: round_to_def divide_right_mono)

text \<open>
  Rounding the threshold to three digits can lose the optimum: with one correct case of score 0.7006 the calibrated
  threshold is 0.701, which rejects that case, so its F1 is 0 although F1 1 is reached just below.
\<close>

theorem calibration_rounding_loses:
  "calibrate_threshold configured [(7006/10000, True)] = 701/1000 \<and> f1_of [(7006/10000, True)] (701/1000) = 0 \<and>
   f1_of [(7006/10000, True)] (7006/10000) = 1"
  by (simp add: calibrate_threshold_def best_candidate_def try_candidate_def midpoints_def f1_of_def round_to_def py_round_def
        Let_def floor_eq_iff)

subsection \<open>Properties of the report\<close>

lemma lightweight_score: "0 \<le> gr_score (nli_lightweight claims context) \<and> gr_score (nli_lightweight claims context) \<le> 1"
proof -
  define x where "x = (if claims \<noteq> [] then real (length (filter (\<lambda>c. check_claim_supported c context) claims)) / real (length claims)
                       else 0)"
  have "0 \<le> x" "x \<le> 1" by (simp_all add: x_def divide_le_eq_1)
  then have "0 \<le> round_to 3 x \<and> round_to 3 x \<le> 1" using round_to_bounds [of 0 x 3 1000] by simp
  then show ?thesis by (simp add: nli_lightweight_def x_def Let_def)
qed

lemma grounding_score:
  "0 \<le> gr_score (compute_nli_grounding None answer context) \<and> gr_score (compute_nli_grounding None answer context) \<le> 1"
  using lightweight_score by (simp add: compute_nli_grounding_def Let_def)

lemma heuristic_ceiling: "fst (heuristic_score context answer) \<le> 7/10"
proof -
  have "7/10 - (if a then 4/10 else 0) - (if b then 2/10 else 0) - (if c then 2/10 else 0) - (if d then 15/100 else 0)
      \<le> (7/10 :: real)" for a b c d
    by (cases a; cases b; cases c; cases d) simp_all
  then show ?thesis by (simp only: heuristic_score_def Let_def fst_conv)
qed

lemma contains_set: "contains p s \<Longrightarrow> set p \<subseteq> set s"
proof (induction s)
  case (Cons c cs)
  show ?case
  proof (cases "take (length p) (c # cs) = p")
    case True
    then show ?thesis using set_take_subset [of "length p" "c # cs"] by simp
  next
    case False
    then show ?thesis using Cons by auto
  qed
qed simp

definition raw_score :: "confidence_env \<Rightarrow> string \<Rightarrow> string \<Rightarrow> real" where
  \<comment> \<open>the score before it is rounded\<close>
  "raw_score C context answer =
     (let h = fst (heuristic_score context answer) in
      max 0 (min 1 (if nli_enabled C \<and> strip answer \<noteq> [] \<and> strip context \<noteq> []
        then (6/10) * h + (4/10) * gr_score (compute_nli_grounding (nli_model C) answer context) else h)))"

lemma report_of_raw:
  "cr_score (compute_answer_confidence C context answer) = round_to 2 (raw_score C context answer) \<and>
   cr_needs_review (compute_answer_confidence C context answer) = (raw_score C context answer < 5/10)"
  by (simp add: compute_answer_confidence_def raw_score_def Let_def split: prod.split)

text \<open>
  Without the NLI model a reported confidence lies between 0 and 0.82: the heuristics start from 0.7 and only subtract,
  and grounding weighs four tenths. A report that asks for review has a score of at most one half, one that does not at
  least one half.
\<close>

theorem confidence_ceiling:
  assumes "nli_model C = None"
  shows "0 \<le> cr_score (compute_answer_confidence C context answer) \<and>
    cr_score (compute_answer_confidence C context answer) \<le> 82/100 \<and>
    (if cr_needs_review (compute_answer_confidence C context answer)
     then cr_score (compute_answer_confidence C context answer) \<le> 1/2
     else cr_score (compute_answer_confidence C context answer) \<ge> 1/2)"
proof -
  let ?r = "raw_score C context answer"
  have r: "0 \<le> ?r" "?r \<le> 82/100"
    using grounding_score [of answer "context"] heuristic_ceiling [of "context" answer]
    by (auto simp: raw_score_def Let_def assms max_def min_def)
  then have "0 \<le> round_to 2 ?r \<and> round_to 2 ?r \<le> 82/100" using round_to_bounds [of 0 ?r 2 82] by simp
  moreover have "round_to 2 ?r \<le> 1/2" if "?r < 5/10" using round_to_bounds [of 0 ?r 2 50] r that by simp
  moreover have "round_to 2 ?r \<ge> 1/2" if "\<not> ?r < 5/10" using round_to_bounds [of 50 ?r 2 100] r that by simp
  ultimately show ?thesis by (simp add: report_of_raw)
qed

definition offline_confidence :: confidence_env where
  "offline_confidence = \<lparr>nli_model = None, nli_enabled = True, nli_text = (\<lambda>r. ''NLI''), ALERT_CONFIDENCE_THRESHOLD = 3/10\<rparr>"

theorem confidence_ceiling_witness:
  "cr_score (compute_answer_confidence offline_confidence ''Paris is the capital of France.'' ''Paris is the capital.'') \<le> 82/100"
  using confidence_ceiling [of offline_confidence "''Paris is the capital of France.''" "''Paris is the capital.''"]
  by (simp add: offline_confidence_def)

text \<open>
  Three of the uncertainty phrases never count: the answer is lower-cased before the phrases are looked for, and they
  hold a capital I.
\<close>

theorem capital_phrases_never_found:
  "set (found_phrases answer) \<subseteq> {''no information'', ''unclear'', ''uncertain'', ''possibly'', ''maybe''}"
proof -
  have low: "CHR ''I'' \<notin> set (py_lower answer)"
    by (auto simp: py_lower_def Let_def dest!: arg_cong [where f = "of_char :: char \<Rightarrow> nat"] split: if_splits)
  have "\<not> contains p (py_lower answer)" if "CHR ''I'' \<in> set p" for p
  proof -
    show ?thesis using contains_set [of p "py_lower answer"] that low by blast
  qed
  then show ?thesis by (simp add: found_phrases_def uncertainty_phrases_def)
qed

text \<open>
  A claim is supported as soon as half of its words occur somewhere in the context, whatever the claim says about them.
\<close>

theorem half_of_the_words_support:
  assumes "strip context \<noteq> []" and "word_set claim \<noteq> {}"
    and "card (word_set claim) \<le> 2 * card (word_set claim \<inter> word_set context)"
  shows "check_claim_supported claim context"
proof -
  have fin: "finite (word_set claim)" by (simp add: word_set_def)
  then have pos: "0 < card (word_set claim)" using assms(2) by (simp add: card_gt_0_iff)
  define r where "r = real (card (word_set claim \<inter> word_set context)) / real (card (word_set claim))"
  have "1/2 \<le> r" using assms(3) pos by (simp add: r_def field_simps)
  moreover have "0 \<le> cosine_proxy claim context" by (simp add: cosine_proxy_def Let_def)
  ultimately have "(5/10) * cosine_proxy claim context + (5/10) * r \<ge> 25/100" by linarith
  then show ?thesis using assms(1,2) unfolding check_claim_supported_def Let_def r_def by (simp only: if_False not_False_eq_True)
qed

theorem half_of_the_words_support_witness: "check_claim_supported ''not safe'' ''safe use''"
proof -
  have w: "word_set ''not safe'' = {''not'', ''safe''}" "word_set ''safe use'' = {''safe'', ''use''}"
    by (simp_all add: word_set_def find_words_def py_lower_def word_char_def Let_def)
  have "strip ''safe use'' \<noteq> []" by code_simp
  then show ?thesis
    using half_of_the_words_support [of "''safe use''" "''not safe''"] by (simp add: w Int_insert_left)
qed

text \<open>
  The grounding that lowers the confidence and the verification of the claims are one computation: without the NLI model
  they agree on the score, on the unsupported claims and on the counts, for every answer and context.
\<close>

theorem grounding_is_verification:
  "gr_score (compute_nli_grounding None answer context) = verification_rate (verify_answer_claims answer context) \<and>
   unsupported (compute_nli_grounding None answer context) = vr_unsupported (verify_answer_claims answer context) \<and>
   supported_claims (compute_nli_grounding None answer context) = length (vr_supported (verify_answer_claims answer context)) \<and>
   total_claims (compute_nli_grounding None answer context) = vr_total (verify_answer_claims answer context)"
  by (simp add: compute_nli_grounding_def verify_answer_claims_def nli_lightweight_def Let_def)

lemma filter_three_way:
  "length (filter P xs) + length (filter (\<lambda>x. \<not> P x \<and> Q x) xs) + length (filter (\<lambda>x. \<not> P x \<and> \<not> Q x) xs) = length xs"
  by (induction xs) auto

lemma filter_excludes: "length (filter (\<lambda>x. \<not> P x \<and> Q x) xs) = length xs \<Longrightarrow> length (filter P xs) = 0"
  using filter_three_way [of P xs Q] by linarith

text \<open>
  The three counts of the retrieval report partition the chunks; the classification is Correct exactly when at least
  half of the (one or more) chunks are highly relevant, and Incorrect exactly when all of them are irrelevant.
\<close>

theorem retrieval_report_partition:
  "correct_count (evaluate_retrieval_quality query texts) + incorrect_count (evaluate_retrieval_quality query texts) +
     ambiguous_count (evaluate_retrieval_quality query texts) = length texts \<and>
   (rq_classification (evaluate_retrieval_quality query texts) = ''Correct'') =
     (texts \<noteq> [] \<and> 2 * correct_count (evaluate_retrieval_quality query texts) \<ge> length texts) \<and>
   (rq_classification (evaluate_retrieval_quality query texts) = ''Incorrect'') =
     (incorrect_count (evaluate_retrieval_quality query texts) = length texts)"
proof (cases "texts = []")
  case False
  define n where "n = length texts"
  define R where "R = evaluate_retrieval_quality query texts"
  define ss where "ss = map (score_chunk_relevance query) texts"
  define c where "c = length (filter (\<lambda>s. s > 7/10) ss)"
  define i where "i = length (filter (\<lambda>s. \<not> s > 7/10 \<and> s < 3/10) ss)"
  define a where "a = length (filter (\<lambda>s. \<not> s > 7/10 \<and> \<not> s < 3/10) ss)"
  have n: "0 < n" using False by (simp add: n_def)
  have R: "R = \<lparr>rq_classification = (if real c / real n \<ge> 5/10 then ''Correct''
        else if real c / real n = 0 \<and> i = n then ''Incorrect'' else ''Ambiguous''),
      correct_count = c, incorrect_count = i, ambiguous_count = a, total_count = n,
      correct_rate = round_to 3 (real c / real n), rq_recommendations = quality_advice c i a n\<rparr>"
    unfolding R_def c_def i_def a_def ss_def n_def evaluate_retrieval_quality_def Let_def
    by (simp only: False if_False if_True length_greater_0_conv not_False_eq_True)
  have sum: "c + i + a = n"
    using filter_three_way [of "\<lambda>s. s > 7/10" ss "\<lambda>s. s < 3/10"] by (simp add: c_def i_def a_def n_def ss_def)
  have half: "(real c / real n \<ge> 5/10) = (2 * c \<ge> n)" using n by (simp add: field_simps) linarith
  have zero: "(real c / real n = 0) = (c = 0)" using n by simp
  have "correct_count R + incorrect_count R + ambiguous_count R = n \<and>
      (rq_classification R = ''Correct'') = (2 * correct_count R \<ge> n) \<and>
      (rq_classification R = ''Incorrect'') = (incorrect_count R = n)"
    unfolding R half zero using sum n by auto
  then show ?thesis using False unfolding R_def n_def by blast
qed (simp add: evaluate_retrieval_quality_def)

end
