(* ===== verification/Chunker.thy ===== *)
theory Chunker
  imports Token_Budget "HOL-Library.Sublist"
begin

text \<open>
  The semantic chunker, \<^verbatim>\<open>etl/chunker/semantic_chunker.py\<close>: splitting of Markdown by headings and paragraphs, packing
  into chunks, overlap, merging of short chunks, contextual enrichment, heading and document chunks, and
  \<^verbatim>\<open>MDKeyChunker\<close> over them. Texts are over the first 256 code points, so that the Cyrillic and the CJK branches of the
  token estimate are never taken. SHA-256, the conversion of HTML to Markdown, entity recognition and the enrichment by a
  language model are parameters.
\<close>

subsection \<open>Chunks and documents\<close>

record etl_chunk =
  c_text :: string
  c_hash :: string
  c_title :: string
  c_summary :: string
  c_keywords :: "string list"
  c_entities :: "string list"
  c_questions :: "string list"
  c_semantic_key :: string
  c_source_type :: string
  c_source_id :: string
  c_version :: string
  c_doc_title :: string
  c_parent :: json_obj
  c_position :: int
  c_tokens :: int
  c_original :: string
  c_enriched :: bool
  c_level :: string
  c_groups :: "string list"
  c_users :: "string list"

definition new_chunk :: "string \<Rightarrow> string \<Rightarrow> etl_chunk" where
  \<comment> \<open>\<^verbatim>\<open>Chunk(text=..., hash=...)\<close> with the defaults of the other fields\<close>
  "new_chunk text h =
     \<lparr>c_text = text, c_hash = h, c_title = [], c_summary = [], c_keywords = [], c_entities = [], c_questions = [],
      c_semantic_key = [], c_source_type = [], c_source_id = [], c_version = [], c_doc_title = [], c_parent = [],
      c_position = 0, c_tokens = 0, c_original = [], c_enriched = False, c_level = ''public'', c_groups = [], c_users = []\<rparr>"

record source_metadata =
  \<comment> \<open>the keys of the dictionary that the chunker reads; \<open>None\<close> where the key is absent\<close>
  sm_source_type :: "string option"
  sm_source_id :: "string option"
  sm_version :: "string option"
  sm_doc_title :: "string option"
  sm_section_title :: "string option"
  sm_level :: "string option"
  sm_groups :: "string list option"
  sm_users :: "string list option"

abbreviation str_or :: "string \<Rightarrow> string option \<Rightarrow> string" where
  "str_or d v \<equiv> (case v of Some s \<Rightarrow> s | None \<Rightarrow> d)"

abbreviation list_or :: "string list option \<Rightarrow> string list" where
  "list_or v \<equiv> (case v of Some xs \<Rightarrow> xs | None \<Rightarrow> [])"

definition no_metadata :: source_metadata where
  "no_metadata = \<lparr>sm_source_type = None, sm_source_id = None, sm_version = None, sm_doc_title = None,
     sm_section_title = None, sm_level = None, sm_groups = None, sm_users = None\<rparr>"

record sem_chunker =
  sc_max_tokens :: int
  sc_overlap_tokens :: int
  sc_min_tokens :: int
  sc_contextual :: bool
  sha256 :: "string \<Rightarrow> string"
  enum_strings :: "string set \<Rightarrow> string list"
  \<comment> \<open>the order in which a set is enumerated\<close>

definition latin :: "char \<Rightarrow> bool" where
  "latin c \<longleftrightarrow> (let n = of_char c :: nat in 65 \<le> n \<and> n \<le> 90 \<or> 97 \<le> n \<and> n \<le> 122 \<or> 192 \<le> n)"

definition estimate_chunk_tokens :: "string \<Rightarrow> int" where
  "estimate_chunk_tokens text =
     (if text = [] then 0
      else max 1 (py_trunc (real (length (filter latin text)) / 4 + real (length (filter (\<lambda>c. \<not> latin c) text)) / 4)))"

subsection \<open>Splitting Markdown\<close>

abbreviation newline_char :: char where
  "newline_char \<equiv> CHR 0x0A"

definition heading_at :: "string \<Rightarrow> (nat \<times> string \<times> string) option" where
  \<comment> \<open>the pattern \<^verbatim>\<open>(#{1,3})\s+(.+)$\<close> at the start of a line: level, stripped heading, rest of the text. White space may
     run over the end of the line; when only white space is left the match backs up to its last character that is no
     line end\<close>
  "heading_at s =
     (let n = length (takeWhile (\<lambda>c. c = CHR ''#'') s);
          ws = takeWhile py_space (drop n s);
          after = dropWhile py_space (drop n s)
      in if n = 0 \<or> 3 < n \<or> ws = [] then None
         else if after \<noteq> []
         then Some (n, strip (takeWhile (\<lambda>c. c \<noteq> newline_char) after), dropWhile (\<lambda>c. c \<noteq> newline_char) after)
         else (let back = rev (tl ws) in
               if dropWhile (\<lambda>c. c = newline_char) back = [] then None
               else Some (n, [], takeWhile (\<lambda>c. c = newline_char) back)))"

lemma heading_at_shorter:
  assumes "heading_at s = Some (n, h, rest)"
  shows "length rest < length s"
proof -
  let ?k = "length (takeWhile (\<lambda>c. c = CHR ''#'') s)"
  let ?ws = "takeWhile py_space (drop ?k s)" and ?a = "dropWhile py_space (drop ?k s)"
  have s: "length s = ?k + (length ?ws + length ?a)"
    by (metis length_append takeWhile_dropWhile_id append_take_drop_id length_drop
        add_diff_inverse_nat length_takeWhile_le linorder_not_less)
  have k: "0 < ?k" using assms by (auto simp: heading_at_def Let_def split: if_splits)
  have "length rest \<le> length ?ws + length ?a"
  proof (cases "?a = []")
    case True
    then have "rest = takeWhile (\<lambda>c. c = newline_char) (rev (tl ?ws))"
      using assms by (auto simp: heading_at_def Let_def split: if_splits)
    then have "length rest \<le> length (rev (tl ?ws))" by (simp only: length_takeWhile_le)
    then show ?thesis by simp
  next
    case False
    then have "rest = dropWhile (\<lambda>c. c \<noteq> newline_char) ?a"
      using assms by (auto simp: heading_at_def Let_def split: if_splits)
    then show ?thesis by (simp add: length_dropWhile_le trans_le_add2)
  qed
  then show ?thesis using s k by linarith
qed

function scan_headings :: "bool \<Rightarrow> string \<Rightarrow> string \<times> (nat \<times> nat \<times> string \<times> string) list" where
  \<comment> \<open>\<^verbatim>\<open>heading_re.finditer\<close>: the text before the first heading, then for each heading how many characters were left at its
     start, its level, its text and what follows it; the flag says whether a line starts here\<close>
  "scan_headings start [] = ([], [])"
| "scan_headings start (c # cs) =
     (case (if start then heading_at (c # cs) else None) of
        Some (n, h, rest) \<Rightarrow>
          (let (content, secs) = scan_headings False rest in ([], (length (c # cs), n, h, content) # secs))
      | None \<Rightarrow> (let (pre, secs) = scan_headings (c = newline_char) cs in (c # pre, secs)))"
  by pat_completeness auto

termination
  by (relation "measure (\<lambda>(start, s). length s)") (auto split: if_splits dest: heading_at_shorter)

declare scan_headings.simps(2) [simp del]

record md_section =
  md_heading :: string
  md_level :: nat
  md_content :: string

definition split_markdown_by_headings :: "string \<Rightarrow> md_section list" where
  "split_markdown_by_headings md_text =
     (let secs = snd (scan_headings True md_text) in
      if secs = [] then [\<lparr>md_heading = ''root'', md_level = 0, md_content = strip md_text\<rparr>]
      else map (\<lambda>(left, n, h, content). \<lparr>md_heading = h, md_level = n, md_content = strip content\<rparr>) secs)"

lemma paragraph_rest_shorter:
  "length (rev (takeWhile (\<lambda>x. x \<noteq> newline_char) (rev (takeWhile py_space cs))) @ dropWhile py_space cs) \<le> length cs"
proof -
  have "length (takeWhile (\<lambda>x. x \<noteq> newline_char) (rev (takeWhile py_space cs))) \<le> length (rev (takeWhile py_space cs))"
    by (rule length_takeWhile_le)
  then show ?thesis by simp (metis add_le_mono1 length_append takeWhile_dropWhile_id)
qed

function paragraphs_from :: "string \<Rightarrow> string \<Rightarrow> string list" where
  \<comment> \<open>\<^verbatim>\<open>re.split(r"\n\s*\n", text)\<close>, with the characters of the current paragraph\<close>
  "paragraphs_from p [] = [p]"
| "paragraphs_from p (c # cs) =
     (let ws = takeWhile py_space cs in
      if c = newline_char \<and> newline_char \<in> set ws
      then p # paragraphs_from [] (rev (takeWhile (\<lambda>x. x \<noteq> newline_char) (rev ws)) @ dropWhile py_space cs)
      else paragraphs_from (p @ [c]) cs)"
  by pat_completeness auto

termination
  by (relation "measure (\<lambda>(p, s). length s)") (use paragraph_rest_shorter in \<open>auto simp: less_Suc_eq_le\<close>)

definition split_by_paragraphs :: "string \<Rightarrow> string list" where
  "split_by_paragraphs text = filter (\<lambda>p. p \<noteq> []) (map strip (paragraphs_from [] text))"

subsection \<open>Packing into chunks\<close>

definition create_chunk :: "sem_chunker \<Rightarrow> string \<Rightarrow> int \<Rightarrow> source_metadata \<Rightarrow> string \<Rightarrow> etl_chunk" where
  "create_chunk S text position m heading =
     (new_chunk text (sha256 S text))
       \<lparr>c_title := heading, c_source_type := str_or [] (sm_source_type m), c_source_id := str_or [] (sm_source_id m),
        c_version := str_or [] (sm_version m), c_doc_title := str_or [] (sm_doc_title m), c_position := position,
        c_tokens := estimate_chunk_tokens text, c_level := str_or ''public'' (sm_level m),
        c_groups := list_or (sm_groups m), c_users := list_or (sm_users m)\<rparr>"

fun pack_paragraphs ::
  "sem_chunker \<Rightarrow> source_metadata \<Rightarrow> string \<Rightarrow> string \<Rightarrow> string \<Rightarrow> int \<Rightarrow> string list \<Rightarrow> etl_chunk list \<times> int" where
  \<comment> \<open>the loop over the paragraphs of a section, with the current text; also what follows the loop\<close>
  "pack_paragraphs S m heading lead current position [] =
     (if strip current \<noteq> [] then ([create_chunk S current position m heading], position + 1) else ([], position))"
| "pack_paragraphs S m heading lead current position (para # ps) =
     (if strip para = [] then pack_paragraphs S m heading lead current position ps
      else
        (let candidate = (if current \<noteq> [] then current @ blank_line @ para else para) in
         if estimate_chunk_tokens candidate > sc_max_tokens S \<and> current \<noteq> [] then
           (if strip current \<noteq> [] then
              (let (cs, n) = pack_paragraphs S m heading lead (lead @ para) (position + 1) ps
               in (create_chunk S current position m heading # cs, n))
            else pack_paragraphs S m heading lead (lead @ para) position ps)
         else if current = [] then pack_paragraphs S m heading lead para position ps
         else pack_paragraphs S m heading lead (current @ blank_line @ para) position ps))"

definition heading_prefix :: "md_section \<Rightarrow> string" where
  "heading_prefix sec =
     (if md_heading sec \<noteq> ''root''
      then replicate (max (md_level sec) 1) (CHR ''#'') @ '' '' @ md_heading sec @ [newline_char] else [])"

fun pack_sections :: "sem_chunker \<Rightarrow> source_metadata \<Rightarrow> int \<Rightarrow> md_section list \<Rightarrow> etl_chunk list" where
  "pack_sections S m position [] = []"
| "pack_sections S m position (sec # secs) =
     (let (cs, position) = pack_paragraphs S m (md_heading sec) (heading_prefix sec) (heading_prefix sec) position
                             (split_by_paragraphs (md_content sec))
      in cs @ pack_sections S m position secs)"

definition retext :: "(string \<Rightarrow> string) \<Rightarrow> string \<Rightarrow> etl_chunk \<Rightarrow> etl_chunk" where
  \<comment> \<open>a new text with its hash and its token count\<close>
  "retext sha text c = c\<lparr>c_text := text, c_hash := sha text, c_tokens := estimate_chunk_tokens text\<rparr>"

fun overlap_from :: "sem_chunker \<Rightarrow> string \<Rightarrow> etl_chunk list \<Rightarrow> etl_chunk list" where
  "overlap_from S prev [] = []"
| "overlap_from S prev (c # cs) =
     (let overlap_chars = sc_overlap_tokens S * 4;
          snippet = (if int (length prev) > overlap_chars then slice_from (- overlap_chars) prev else prev);
          c = (if prev \<noteq> []
               then retext (sha256 S) (''[previous context: ...'' @ snippet @ '']'' @ blank_line @ c_text c) c else c)
      in c # overlap_from S (c_text c) cs)"

definition apply_chunk_overlap :: "sem_chunker \<Rightarrow> etl_chunk list \<Rightarrow> etl_chunk list" where
  "apply_chunk_overlap S cs =
     (if sc_overlap_tokens S \<le> 0 \<or> length cs \<le> 1 then cs else overlap_from S [] cs)"

fun merge_from :: "sem_chunker \<Rightarrow> etl_chunk \<Rightarrow> etl_chunk list \<Rightarrow> etl_chunk list" where
  "merge_from S buffer [] = [buffer]"
| "merge_from S buffer (c # cs) =
     (let combined_tokens = c_tokens buffer + c_tokens c in
      if combined_tokens \<le> sc_max_tokens S \<and> (c_tokens buffer < sc_min_tokens S \<or> c_tokens c < sc_min_tokens S) then
        merge_from S ((retext (sha256 S) (c_text buffer @ blank_line @ c_text c) buffer)
          \<lparr>c_keywords := c_keywords buffer @ c_keywords c, c_entities := c_entities buffer @ c_entities c,
           c_questions := c_questions buffer @ c_questions c\<rparr>) cs
      else buffer # merge_from S c cs)"

definition merge_short_chunks :: "sem_chunker \<Rightarrow> etl_chunk list \<Rightarrow> etl_chunk list" where
  "merge_short_chunks S cs = (case cs of [] \<Rightarrow> [] | c # rest \<Rightarrow> merge_from S c rest)"

subsection \<open>Contextual enrichment\<close>

fun find_sub :: "string \<Rightarrow> string \<Rightarrow> nat option" where
  \<comment> \<open>\<^verbatim>\<open>s.find(sub)\<close>, \<open>None\<close> for -1\<close>
  "find_sub sub [] = (if sub = [] then Some 0 else None)"
| "find_sub sub (c # cs) =
     (if take (length sub) (c # cs) = sub then Some 0 else map_option Suc (find_sub sub cs))"

record doc_section =
  ds_heading :: string
  ds_level :: nat
  ds_start :: nat
  ds_end :: nat

definition parse_document_sections :: "string \<Rightarrow> doc_section list" where
  "parse_document_sections text =
     (let secs = snd (scan_headings True text); n = length text;
          ends = map (\<lambda>(left, x). n - left) (tl secs) @ [n]
      in if secs = [] then [\<lparr>ds_heading = [], ds_level = 0, ds_start = 0, ds_end = n\<rparr>]
         else map (\<lambda>((left, lvl, h, content), e). \<lparr>ds_heading = h, ds_level = lvl, ds_start = n - left, ds_end = e\<rparr>)
                (zip secs ends))"

definition shown_text :: "etl_chunk \<Rightarrow> string" where
  "shown_text c = (if c_original c \<noteq> [] then c_original c else c_text c)"

definition find_section_for_chunk :: "etl_chunk \<Rightarrow> doc_section list \<Rightarrow> string \<Rightarrow> string" where
  "find_section_for_chunk c sections full_text =
     (case find_sub (shown_text c) full_text of
        None \<Rightarrow> []
      | Some pos \<Rightarrow> (case find (\<lambda>sec. ds_start sec \<le> pos) (rev sections) of Some sec \<Rightarrow> ds_heading sec | None \<Rightarrow> []))"

fun take_sentences :: "nat \<Rightarrow> nat \<Rightarrow> string list \<Rightarrow> string list \<times> nat" where
  \<comment> \<open>the loops over the surrounding sentences: those that are kept, in the order of the visit, and the characters used\<close>
  "take_sentences limit used [] = ([], used)"
| "take_sentences limit used (s # ss) =
     (if used + length s > limit then ([], used)
      else if strip s \<noteq> [] then
        (let (kept, used) = take_sentences limit (used + length s) ss in (strip s # kept, used))
      else take_sentences limit used ss)"

definition MAX_CONTEXT_TOKENS :: nat where
  "MAX_CONTEXT_TOKENS = 100"

definition extract_surrounding_context :: "etl_chunk \<Rightarrow> string \<Rightarrow> string" where
  "extract_surrounding_context c full_text =
     (case find_sub (shown_text c) full_text of
        None \<Rightarrow> []
      | Some pos \<Rightarrow>
          (let chunk_end = pos + length (shown_text c);
               before = strip (drop (pos - 300) (take pos full_text));
               after = strip (take 300 (drop chunk_end full_text));
               limit = MAX_CONTEXT_TOKENS * 4;
               (kept, used) = take_sentences limit 0 (rev (split_sentences before));
               (kept', used') = take_sentences limit used (split_sentences after)
           in join '' '' (rev kept @ kept')))"

definition build_chunk_context :: "etl_chunk \<Rightarrow> doc_section list \<Rightarrow> string \<Rightarrow> string \<Rightarrow> string" where
  "build_chunk_context c sections doc_title full_text =
     (let heading = find_section_for_chunk c sections full_text;
          surrounding = extract_surrounding_context c full_text
      in join [newline_char]
           ((if doc_title \<noteq> [] then [''Document: '' @ doc_title] else []) @
            (if heading \<noteq> [] then [''Section: '' @ heading] else []) @
            (if surrounding \<noteq> [] then [''Context: '' @ surrounding] else [])))"

definition enrich_contextual :: "(string \<Rightarrow> string) \<Rightarrow> string \<Rightarrow> doc_section list \<Rightarrow> string \<Rightarrow> etl_chunk \<Rightarrow> etl_chunk" where
  \<comment> \<open>one round of the loop of \<^verbatim>\<open>enrich_chunks\<close>\<close>
  "enrich_contextual sha full_text sections doc_title c =
     (if c_original c \<noteq> [] then c
      else
        (let c = c\<lparr>c_original := c_text c, c_enriched := True\<rparr>;
             context = build_chunk_context c sections doc_title full_text;
             text = context @ blank_line @ c_text c
         in if context \<noteq> []
            then c\<lparr>c_text := text, c_hash := sha text, c_tokens := max 1 (py_trunc (real (length text) / 4))\<rparr>
            else c))"

definition enrich_chunks :: "sem_chunker \<Rightarrow> etl_chunk list \<Rightarrow> string \<Rightarrow> source_metadata \<Rightarrow> etl_chunk list" where
  "enrich_chunks S cs full_text m =
     (if \<not> sc_contextual S \<or> cs = [] then cs
      else map (enrich_contextual (sha256 S) full_text (parse_document_sections full_text) (str_or [] (sm_doc_title m))) cs)"

definition chunk_markdown_with_overlap :: "sem_chunker \<Rightarrow> string \<Rightarrow> source_metadata \<Rightarrow> etl_chunk list" where
  \<comment> \<open>a missing metadata dictionary is the empty one\<close>
  "chunk_markdown_with_overlap S md_text m =
     (let cs = pack_sections S m 0 (split_markdown_by_headings md_text);
          cs = merge_short_chunks S (apply_chunk_overlap S cs)
      in if sc_contextual S \<and> m \<noteq> no_metadata then enrich_chunks S cs md_text m else cs)"

subsection \<open>Chunking of HTML\<close>

record html_library =
  \<comment> \<open>the optional libraries; \<open>None\<close> where one is not installed\<close>
  markdownify :: "(string \<Rightarrow> string) option"
  soup_elements :: "(string \<Rightarrow> (string \<times> string) list) option"
  \<comment> \<open>tag and text of the headings, paragraphs, lists and tables in document order\<close>
  markdown_to_html :: "(string \<Rightarrow> string) option"

abbreviation ImportError :: "string \<Rightarrow> exn" where
  "ImportError \<equiv> PyException ''ImportError''"

fun soup_sections :: "string \<Rightarrow> string list \<Rightarrow> (string \<times> string) list \<Rightarrow> (string \<times> string) list" where
  "soup_sections heading content [] = (if content \<noteq> [] then [(heading, join [newline_char] content)] else [])"
| "soup_sections heading content ((tag, text) # es) =
     (if tag \<in> {''h1'', ''h2'', ''h3''}
      then (if content \<noteq> [] then [(heading, join [newline_char] content)] else []) @ soup_sections text [] es
      else soup_sections heading (content @ [text]) es)"

fun pack_html_paragraphs ::
  "sem_chunker \<Rightarrow> source_metadata \<Rightarrow> string \<Rightarrow> string \<Rightarrow> int \<Rightarrow> string list \<Rightarrow> etl_chunk list \<times> int" where
  "pack_html_paragraphs S m heading current position [] =
     (if current \<noteq> [] then ([create_chunk S current position m heading], position + 1) else ([], position))"
| "pack_html_paragraphs S m heading current position (para # ps) =
     (if strip para = [] then pack_html_paragraphs S m heading current position ps
      else if estimate_chunk_tokens (current @ para) > sc_max_tokens S \<and> current \<noteq> [] then
        (let (cs, n) = pack_html_paragraphs S m heading (''## '' @ heading @ [newline_char] @ para) (position + 1) ps
         in (create_chunk S current position m heading # cs, n))
      else if current = [] then pack_html_paragraphs S m heading para position ps
      else pack_html_paragraphs S m heading (current @ blank_line @ para) position ps)"

fun pack_html_sections :: "sem_chunker \<Rightarrow> source_metadata \<Rightarrow> int \<Rightarrow> (string \<times> string) list \<Rightarrow> etl_chunk list" where
  "pack_html_sections S m position [] = []"
| "pack_html_sections S m position ((heading, content) # secs) =
     (let (cs, position) = pack_html_paragraphs S m heading
                             (if heading \<noteq> ''root'' then ''## '' @ heading @ [newline_char] else []) position
                             (split_by_paragraphs content)
      in cs @ pack_html_sections S m position secs)"

definition chunk_html :: "html_library \<Rightarrow> sem_chunker \<Rightarrow> string \<Rightarrow> source_metadata \<Rightarrow> exn + etl_chunk list" where
  "chunk_html L S html m =
     (case markdownify L of
        Some to_md \<Rightarrow> Inr (chunk_markdown_with_overlap S (to_md html) m)
      | None \<Rightarrow>
          (case soup_elements L of
             None \<Rightarrow> Inl (ImportError ''BeautifulSoup4'')
           | Some elements \<Rightarrow>
               (let cs = pack_html_sections S m 0 (soup_sections ''root'' [] (elements html));
                    cs = merge_short_chunks S (apply_chunk_overlap S cs)
                in Inr (if sc_contextual S \<and> m \<noteq> no_metadata then enrich_chunks S cs html m else cs))))"

definition chunk_markdown :: "html_library \<Rightarrow> sem_chunker \<Rightarrow> string \<Rightarrow> source_metadata \<Rightarrow> exn + etl_chunk list" where
  "chunk_markdown L S markdown_text m =
     (case markdown_to_html L of
        None \<Rightarrow> Inl (ImportError ''markdown'')
      | Some to_html \<Rightarrow> chunk_html L S (to_html markdown_text) m)"

definition prepend_context :: "string \<Rightarrow> source_metadata \<Rightarrow> string" where
  "prepend_context chunk_text m =
     (let part = (\<lambda>label v. if str_or [] v \<noteq> [] then [label @ str_or [] v] else []);
          context_parts = part ''Document: '' (sm_doc_title m) @ part ''Section: '' (sm_section_title m) @
                          part ''Source: '' (sm_source_type m)
      in if context_parts \<noteq> [] then join '' | '' context_parts @ blank_line @ chunk_text else chunk_text)"

subsection \<open>Heading chunks and the document chunk\<close>

record heading_info =
  h_text :: string
  h_level :: int
  h_anchor :: string

datatype heading_node = Heading_node (node_info: heading_info) (node_children: "heading_node list")

type_synonym open_nodes = "(heading_info \<times> heading_node list) list"

fun close_top :: "open_nodes \<Rightarrow> heading_node list \<Rightarrow> open_nodes \<times> heading_node list" where
  \<comment> \<open>the top of the stack gets no further children: it is the last child of the node under it, or the last root\<close>
  "close_top [] roots = ([], roots)"
| "close_top [(h, cs)] roots = ([], roots @ [Heading_node h cs])"
| "close_top ((h, cs) # (h', cs') # st) roots = ((h', cs' @ [Heading_node h cs]) # st, roots)"

lemma close_top_shorter: "st \<noteq> [] \<Longrightarrow> length (fst (close_top st roots)) < length st"
  by (cases "(st, roots)" rule: close_top.cases) auto

function close_while :: "int \<Rightarrow> open_nodes \<Rightarrow> heading_node list \<Rightarrow> open_nodes \<times> heading_node list" where
  \<comment> \<open>\<^verbatim>\<open>while stack and stack[-1]["level"] >= h["level"]: stack.pop()\<close>\<close>
  "close_while level st roots =
     (if st \<noteq> [] \<and> h_level (fst (hd st)) \<ge> level
      then (let (st', roots') = close_top st roots in close_while level st' roots') else (st, roots))"
  by pat_completeness auto

termination
  by (relation "measure (\<lambda>(level, st, roots). length st)") (simp, metis close_top_shorter fst_conv in_measure case_prod_conv)

declare close_while.simps [simp del]

definition add_heading :: "open_nodes \<times> heading_node list \<Rightarrow> heading_info \<Rightarrow> open_nodes \<times> heading_node list" where
  "add_heading tree h =
     (case tree of (st, roots) \<Rightarrow> (let (st, roots) = close_while (h_level h) st roots in ((h, []) # st, roots)))"

fun close_all :: "open_nodes \<Rightarrow> heading_node list \<Rightarrow> heading_node list" where
  "close_all [] roots = roots"
| "close_all [(h, cs)] roots = roots @ [Heading_node h cs]"
| "close_all ((h, cs) # (h', cs') # st) roots = close_all ((h', cs' @ [Heading_node h cs]) # st) roots"

definition build_heading_tree :: "heading_info list \<Rightarrow> heading_node list" where
  \<comment> \<open>the nodes are shared between the tree and the stack in the code; a node on the stack is the last child of the one
     under it, and here it becomes its child when it is popped\<close>
  "build_heading_tree hs = (case foldl add_heading ([], []) hs of (st, roots) \<Rightarrow> close_all st roots)"

fun find_node_in_tree :: "heading_node list \<Rightarrow> string \<Rightarrow> int \<Rightarrow> heading_node option" where
  "find_node_in_tree [] text level = None"
| "find_node_in_tree (Heading_node h cs # ns) text level =
     (if h_text h = text \<and> h_level h = level then Some (Heading_node h cs)
      else (case find_node_in_tree cs text level of
              Some n \<Rightarrow> Some n
            | None \<Rightarrow> find_node_in_tree ns text level))"

definition extract_headings :: "heading_info list \<Rightarrow> heading_info list" where
  \<comment> \<open>the argument holds the h1, h2 and h3 elements of the page\<close>
  "extract_headings elems = filter (\<lambda>h. h_text h \<noteq> []) elems"

definition heading_chunk ::
  "(string \<Rightarrow> string) \<Rightarrow> heading_node list \<Rightarrow> source_metadata \<Rightarrow> nat \<times> heading_info \<Rightarrow> etl_chunk" where
  "heading_chunk sha tree m ih =
     (let (i, h) = ih;
          page_id = str_or [] (sm_source_id m); page_title = str_or [] (sm_doc_title m);
          children = (case find_node_in_tree tree (h_text h) (h_level h) of
                        Some n \<Rightarrow> map (\<lambda>c. h_text (node_info c)) (node_children n) | None \<Rightarrow> []);
          text = join [newline_char]
            ((if page_title \<noteq> [] then [''Document: '' @ page_title] else []) @
             [replicate (nat (h_level h)) (CHR ''#'') @ '' '' @ h_text h] @
             (if children \<noteq> [] then [''Sections: '' @ join '', '' children] else []))
      in (new_chunk text (sha text))
           \<lparr>c_title := h_text h, c_source_type := ''heading'', c_source_id := page_id, c_doc_title := page_title,
            c_position := int i, c_tokens := estimate_chunk_tokens text, c_keywords := h_text h # children,
            c_parent := [(''heading_text'', JStr (h_text h)), (''heading_level'', JInt (h_level h)),
                         (''anchor_id'', JStr (h_anchor h)), (''page_id'', JStr page_id), (''page_title'', JStr page_title),
                         (''child_headings'', JList (map JStr children))],
            c_original := h_text h\<rparr>)"

definition create_heading_chunks :: "(string \<Rightarrow> string) \<Rightarrow> heading_info list \<Rightarrow> source_metadata \<Rightarrow> etl_chunk list" where
  "create_heading_chunks sha elems m =
     (let hs = extract_headings elems in map (heading_chunk sha (build_heading_tree hs) m) (enumerate 0 hs))"

function drop_heading_marks :: "bool \<Rightarrow> string \<Rightarrow> string" where
  \<comment> \<open>\<^verbatim>\<open>re.sub(r"^#+\s*", "", text, flags=re.MULTILINE)\<close>\<close>
  "drop_heading_marks start [] = []"
| "drop_heading_marks start (c # cs) =
     (if start \<and> c = CHR ''#''
      then (let rest = dropWhile (\<lambda>c. c = CHR ''#'') cs; ws = takeWhile py_space rest
            in drop_heading_marks (ws \<noteq> [] \<and> last ws = newline_char) (dropWhile py_space rest))
      else c # drop_heading_marks (c = newline_char) cs)"
  by pat_completeness auto

termination
proof (relation "measure (\<lambda>(start, s). length s)")
  fix start c cs rest ws
  assume "rest = dropWhile (\<lambda>c. c = CHR ''#'') (cs :: string)"
  then have "length (dropWhile py_space rest) \<le> length cs"
    by (simp add: length_dropWhile_le le_trans [OF length_dropWhile_le])
  then show "((ws \<noteq> [] \<and> last ws = newline_char, dropWhile py_space rest), (start, c # cs))
      \<in> measure (\<lambda>(start, s). length s)"
    by simp
qed auto

definition create_document_chunk :: "(string \<Rightarrow> string) \<Rightarrow> string \<Rightarrow> source_metadata \<Rightarrow> etl_chunk" where
  "create_document_chunk sha markdown_text m =
     (let page_title = str_or ''Untitled'' (sm_doc_title m); page_id = str_or [] (sm_source_id m);
          first_line = hd (split_on newline_char markdown_text);
          clean_text = strip (drop_heading_marks True markdown_text);
          preview = take 500 clean_text @ (if length clean_text > 500 then ''...'' else []);
          text = ''# '' @ page_title @ blank_line @ preview
      in (new_chunk text (sha text))
           \<lparr>c_title := page_title, c_summary := preview, c_source_type := ''document'', c_source_id := page_id,
            c_doc_title := page_title, c_tokens := estimate_chunk_tokens text, c_keywords := [page_title],
            c_parent := [(''page_id'', JStr page_id), (''page_title'', JStr page_title), (''first_line'', JStr first_line)]\<rparr>)"

subsection \<open>Enrichment and packing by key\<close>

record slm_data =
  slm_summary :: string
  slm_keywords :: "string list"
  slm_questions :: "string list"

record metadata_enricher =
  entities_of :: "string \<Rightarrow> string list"
  \<comment> \<open>the named entities of a text, none without a spaCy model\<close>
  questions_of :: "string \<Rightarrow> string list"
  \<comment> \<open>the questions found by the pattern, which only matches Cyrillic words\<close>
  use_slm :: bool
  slm_answer :: "string \<Rightarrow> slm_data"
  \<comment> \<open>what the model returns; a failed call returns nothing, the three empty values\<close>

definition extract_keywords_tfidf :: "string \<Rightarrow> nat \<Rightarrow> string list" where
  \<comment> \<open>the words of at least four characters by frequency; the stop words of the code are Cyrillic\<close>
  "extract_keywords_tfidf text top_n =
     (let ws = filter (\<lambda>w. length w \<ge> 4) (find_words (py_lower text))
      in map fst (take top_n (sort_key (\<lambda>(w, n). - int n) (word_freq ws))))"

definition generate_summary :: "string \<Rightarrow> string" where
  "generate_summary text =
     (let sentences = split_sentences text in
      if length sentences \<le> 2 then text else join '' '' (take 2 sentences) @ ''...'')"

definition apply_slm_enrichment :: "metadata_enricher \<Rightarrow> etl_chunk \<Rightarrow> etl_chunk" where
  "apply_slm_enrichment N c =
     (let d = slm_answer N (c_text c);
          c = (if slm_summary d \<noteq> [] then c\<lparr>c_summary := slm_summary d\<rparr> else c);
          c = (if slm_keywords d \<noteq> [] then c\<lparr>c_keywords := slm_keywords d\<rparr> else c)
      in if slm_questions d \<noteq> [] then c\<lparr>c_questions := slm_questions d\<rparr> else c)"

definition enrich_one :: "metadata_enricher option \<Rightarrow> source_metadata \<Rightarrow> etl_chunk \<Rightarrow> etl_chunk" where
  "enrich_one enricher m c =
     (let c = c\<lparr>c_source_type := str_or [] (sm_source_type m), c_source_id := str_or [] (sm_source_id m),
                c_version := str_or [] (sm_version m), c_doc_title := str_or [] (sm_doc_title m),
                c_level := str_or (c_level c) (sm_level m)\<rparr>;
          c = (if list_or (sm_groups m) \<noteq> [] then c\<lparr>c_groups := list_or (sm_groups m)\<rparr> else c);
          c = (if list_or (sm_users m) \<noteq> [] then c\<lparr>c_users := list_or (sm_users m)\<rparr> else c)
      in case enricher of
           None \<Rightarrow> c
         | Some N \<Rightarrow>
             (let c = c\<lparr>c_entities := entities_of N (c_text c), c_keywords := extract_keywords_tfidf (c_text c) 5,
                        c_summary := generate_summary (c_text c), c_questions := questions_of N (c_text c)\<rparr>
              in if use_slm N then apply_slm_enrichment N c else c))"

fun propagate :: "(string \<Rightarrow> string) \<Rightarrow> json_obj \<Rightarrow> etl_chunk list \<Rightarrow> etl_chunk list" where
  "propagate sha prev [] = []"
| "propagate sha prev (c # cs) =
     (let (c, prev) =
            (if c_semantic_key c = [] then (c\<lparr>c_parent := prev\<rparr>, prev)
             else (c, [(''title'', JStr (c_title c)), (''keywords'', JList (map JStr (c_keywords c))),
                       (''entities'', JList (map JStr (c_entities c)))]));
          title = dict_getd (c_parent c) ''title'' JNull;
          lead = ''Context: '' @ c_doc_title c @ (case title of JStr t \<Rightarrow> if t \<noteq> [] then '' > '' @ t else [] | _ \<Rightarrow> []);
          text = ''['' @ lead @ '']'' @ [newline_char] @ c_text c
      in c\<lparr>c_text := text, c_hash := sha text\<rparr> # propagate sha prev cs)"

definition apply_rolling_key_propagation :: "(string \<Rightarrow> string) \<Rightarrow> etl_chunk list \<Rightarrow> etl_chunk list" where
  "apply_rolling_key_propagation sha cs =
     propagate sha [] (map (\<lambda>c. c\<lparr>c_original := c_text c, c_enriched := True\<rparr>) cs)"

definition pack_key :: "etl_chunk \<Rightarrow> string" where
  "pack_key c = (if c_semantic_key c \<noteq> [] then c_semantic_key c else ''_unique_'' @ c_hash c)"

fun group_chunks :: "(string, etl_chunk list) dict \<Rightarrow> etl_chunk list \<Rightarrow> (string, etl_chunk list) dict" where
  "group_chunks d [] = d"
| "group_chunks d (c # cs) = group_chunks (dict_set (pack_key c) (dict_getd d (pack_key c) [] @ [c]) d) cs"

abbreviation rule_line :: string where
  "rule_line \<equiv> blank_line @ ''---'' @ blank_line"

definition pack_group :: "sem_chunker \<Rightarrow> string \<times> etl_chunk list \<Rightarrow> etl_chunk" where
  "pack_group S kg =
     (let (k, grp) = kg in
      if length grp = 1 then hd grp
      else
        (let text = join rule_line (map c_text grp); c = hd grp
         in (new_chunk text (sha256 S text))
              \<lparr>c_title := c_title c, c_summary := c_summary c,
               c_keywords := enum_strings S (\<Union> (set (map (\<lambda>c. set (c_keywords c)) grp))),
               c_entities := enum_strings S (\<Union> (set (map (\<lambda>c. set (c_entities c)) grp))),
               c_questions := take 5 (concat (map c_questions grp)), c_semantic_key := k,
               c_source_type := c_source_type c, c_source_id := c_source_id c, c_version := c_version c,
               c_doc_title := c_doc_title c, c_parent := c_parent c, c_position := c_position c\<rparr>))"

definition pack_by_semantic_key :: "sem_chunker \<Rightarrow> etl_chunk list \<Rightarrow> etl_chunk list" where
  "pack_by_semantic_key S cs = map (pack_group S) (group_chunks [] cs)"

definition do_chunking ::
  "html_library \<Rightarrow> sem_chunker \<Rightarrow> string \<Rightarrow> string \<Rightarrow> source_metadata \<Rightarrow> exn + etl_chunk list" where
  "do_chunking L S content content_type m =
     (let enriched_content = prepend_context content m in
      if content_type = ''markdown'' then chunk_markdown L S enriched_content m else chunk_html L S enriched_content m)"

definition md_process_document ::
  "html_library \<Rightarrow> sem_chunker \<Rightarrow> metadata_enricher option \<Rightarrow> string \<Rightarrow> string \<Rightarrow> source_metadata \<Rightarrow> exn + etl_chunk list" where
  "md_process_document L S enricher content content_type m =
     map_sum id (\<lambda>cs. pack_by_semantic_key S
                        (apply_rolling_key_propagation (sha256 S) (map (enrich_one enricher m) cs)))
       (do_chunking L S content content_type m)"

subsection \<open>The text before the first heading\<close>

lemma heading_at_hash: "heading_at s = Some x \<Longrightarrow> s \<noteq> [] \<and> hd s = CHR ''#''"
  by (cases s) (auto simp: heading_at_def Let_def split: if_splits)

lemma scan_pass:
  assumes "CHR ''#'' \<notin> set pre"
  shows "scan_headings start (pre @ s) =
    (pre @ fst (scan_headings (if pre = [] then start else last pre = newline_char) s),
     snd (scan_headings (if pre = [] then start else last pre = newline_char) s))"
  using assms
proof (induction pre arbitrary: start)
  case (Cons c cs)
  have "heading_at (c # cs @ s) = None"
    using Cons.prems heading_at_hash [of "c # cs @ s"] by (cases "heading_at (c # cs @ s)") auto
  then have "scan_headings start (c # cs @ s) =
      (let (pre, secs) = scan_headings (c = newline_char) (cs @ s) in (c # pre, secs))"
    by (simp add: scan_headings.simps(2))
  then show ?case using Cons by (simp add: Let_def split: prod.split)
qed simp

text \<open>
  What stands before the first heading of a document is lost: a text that starts with lines without a heading mark gives
  the same sections as the text without these lines, and, when no context is added, the same chunks.
\<close>

theorem preamble_lost:
  assumes "CHR ''#'' \<notin> set pre" and "pre = [] \<or> last pre = newline_char" and "snd (scan_headings True md) \<noteq> []"
  shows "split_markdown_by_headings (pre @ md) = split_markdown_by_headings md \<and>
    (\<not> sc_contextual S \<longrightarrow> chunk_markdown_with_overlap S (pre @ md) m = chunk_markdown_with_overlap S md m)"
proof -
  have "snd (scan_headings True (pre @ md)) = snd (scan_headings True md)"
    using assms(2) by (auto simp: scan_pass [OF assms(1)])
  then have "split_markdown_by_headings (pre @ md) = split_markdown_by_headings md"
    using assms(3) by (simp add: split_markdown_by_headings_def Let_def)
  then show ?thesis by (simp add: chunk_markdown_with_overlap_def Let_def)
qed

definition sample_chunker :: sem_chunker where
  "sample_chunker = \<lparr>sc_max_tokens = 20, sc_overlap_tokens = 2, sc_min_tokens = 1, sc_contextual = False,
     sha256 = (\<lambda>s. ''h'' @ s), enum_strings = (\<lambda>A. [])\<rparr>"

theorem preamble_lost_witness:
  "chunk_markdown_with_overlap sample_chunker (''Never publish'' @ [newline_char] @ ''# A'' @ [newline_char] @ ''b'') no_metadata =
   chunk_markdown_with_overlap sample_chunker (''# A'' @ [newline_char] @ ''b'') no_metadata"
proof -
  have "snd (scan_headings True (''# A'' @ [newline_char] @ ''b'')) \<noteq> []" by code_simp
  then show ?thesis
    using preamble_lost [of "''Never publish'' @ [newline_char]" "''# A'' @ [newline_char] @ ''b''" sample_chunker no_metadata]
    by (simp add: sample_chunker_def)
qed

subsection \<open>No paragraph is lost\<close>

lemma strip_Nil_iff: "strip s = [] \<longleftrightarrow> (\<forall>c \<in> set s. py_space c)"
proof -
  have "strip s = [] \<longleftrightarrow> dropWhile py_space s = []"
  proof
    assume "strip s = []"
    then have "\<forall>c \<in> set (dropWhile py_space s). py_space c" by (simp add: strip_def)
    then show "dropWhile py_space s = []" by (metis hd_dropWhile list.set_sel(1))
  qed (auto simp: strip_def dest: set_dropWhileD)
  then show ?thesis by simp
qed

lemma strip_strip_Nil [simp]: "strip (strip s) = [] \<longleftrightarrow> strip s = []"
proof
  assume all: "strip (strip s) = []"
  show "strip s = []"
  proof (rule ccontr)
    assume n: "strip s \<noteq> []"
    then have "\<not> py_space (last (strip s))"
      using hd_dropWhile [of py_space "rev (dropWhile py_space s)"] by (simp add: strip_def last_rev)
    then show False using all n by (auto simp: strip_Nil_iff [of "strip s"])
  qed
next
  assume "strip s = []"
  then show "strip (strip s) = []" by (simp add: strip_Nil_iff [of "[]"])
qed

abbreviation holds_text :: "etl_chunk list \<Rightarrow> string \<Rightarrow> bool" where
  "holds_text cs p \<equiv> \<exists>c \<in> set cs. sublist p (c_text c)"

lemma create_chunk_text [simp]: "c_text (create_chunk S text n m h) = text"
  by (simp add: create_chunk_def new_chunk_def)

lemma holds_text_append: "holds_text (cs @ ds) p \<longleftrightarrow> holds_text cs p \<or> holds_text ds p"
  by auto

lemma holds_text_trans: "sublist p q \<Longrightarrow> holds_text cs q \<Longrightarrow> holds_text cs p"
  by (meson sublist_order.order_trans)

lemma pack_paragraphs_keeps:
  "(strip current \<noteq> [] \<longrightarrow> holds_text (fst (pack_paragraphs S m h lead current n ps)) current) \<and>
   (\<forall>p \<in> set ps. strip p \<noteq> [] \<longrightarrow> holds_text (fst (pack_paragraphs S m h lead current n ps)) p)"
proof (induction ps arbitrary: current n)
  case (Cons p ps)
  show ?case
  proof (cases "strip p = []")
    case False
    have sub: "sublist p (lead @ p)" "sublist p (current @ blank_line @ p)" "sublist current (current @ blank_line @ p)"
      by (simp_all add: sublist_def) (metis append.assoc append_Nil2 append_Cons append_Nil)+
    have nb: "strip (lead @ p) \<noteq> []" "strip (current @ blank_line @ p) \<noteq> []"
      using False by (auto simp: strip_Nil_iff)
    note IH1 = Cons.IH [of "lead @ p" "n + 1"] and IH2 = Cons.IH [of "lead @ p" n]
      and IH3 = Cons.IH [of p n] and IH4 = Cons.IH [of "current @ blank_line @ p" n]
    let ?big = "estimate_chunk_tokens (current @ blank_line @ p) > sc_max_tokens S"
    consider (cut) "?big" "current \<noteq> []" "strip current \<noteq> []" | (skip) "?big" "current \<noteq> []" "strip current = []"
      | (first) "current = []" | (more) "\<not> ?big" "current \<noteq> []" by blast
    then show ?thesis
    proof cases
      case cut
      then have "fst (pack_paragraphs S m h lead current n (p # ps)) =
          create_chunk S current n m h # fst (pack_paragraphs S m h lead (lead @ p) (n + 1) ps)"
        using False by (simp add: Let_def split: prod.split)
      then show ?thesis using IH1 nb(1) holds_text_trans [OF sub(1)] by simp
    next
      case skip
      then have "pack_paragraphs S m h lead current n (p # ps) = pack_paragraphs S m h lead (lead @ p) n ps"
        using False by (simp add: Let_def)
      then show ?thesis using IH2 nb(1) holds_text_trans [OF sub(1)] skip(3) by simp
    next
      case first
      then have "pack_paragraphs S m h lead current n (p # ps) = pack_paragraphs S m h lead p n ps"
        using False by (simp add: Let_def)
      then show ?thesis using IH3 False first by (simp add: strip_def)
    next
      case more
      then have "pack_paragraphs S m h lead current n (p # ps) = pack_paragraphs S m h lead (current @ blank_line @ p) n ps"
        using False by (simp add: Let_def)
      then show ?thesis
        using IH4 nb(2) holds_text_trans [OF sub(2)] holds_text_trans [OF sub(3)] by (simp add: False)
    qed
  next
    case True
    then show ?thesis using Cons.IH [of current n] by simp
  qed
qed simp

lemma pack_sections_keeps:
  assumes "sec \<in> set secs" and "p \<in> set (split_by_paragraphs (md_content sec))"
  shows "holds_text (pack_sections S m n secs) p"
  using assms(1)
proof (induction secs arbitrary: n)
  case (Cons s secs)
  obtain cs k where packed: "pack_paragraphs S m (md_heading s) (heading_prefix s) (heading_prefix s) n
      (split_by_paragraphs (md_content s)) = (cs, k)" by force
  have "strip p \<noteq> []" if "p \<in> set (split_by_paragraphs t)" for t
    using that by (auto simp: split_by_paragraphs_def)
  then have "holds_text cs p" if "s = sec"
    using pack_paragraphs_keeps [of "heading_prefix s" S m "md_heading s" "heading_prefix s" n
        "split_by_paragraphs (md_content s)"] assms(2) packed that by auto
  moreover have "holds_text (pack_sections S m k secs) p" if "s \<noteq> sec" using Cons that by simp
  ultimately show ?case by (auto simp: packed)
qed simp

lemma retext_text [simp]: "c_text (retext sha t c) = t"
  by (simp add: retext_def)

lemma sublist_behind: "sublist p t \<Longrightarrow> sublist p (s @ t)"
  by (simp add: sublist_append)

lemma sublist_front: "sublist p s \<Longrightarrow> sublist p (s @ t)"
  by (simp add: sublist_append)

lemma overlap_keeps: "holds_text cs p \<Longrightarrow> holds_text (overlap_from S prev cs) p"
proof (induction cs arbitrary: prev)
  case (Cons c cs)
  show ?case
  proof (cases "sublist p (c_text c)")
    case True
    then show ?thesis
      using sublist_behind [of p "blank_line @ c_text c"] sublist_behind [of p "c_text c" blank_line]
      by (auto simp: Let_def sublist_Cons_right sublist_append)
  next
    case False
    then have "holds_text cs p" using Cons.prems by simp
    then show ?thesis using Cons.IH by (simp add: Let_def)
  qed
qed simp

lemma apply_overlap_keeps: "holds_text cs p \<Longrightarrow> holds_text (apply_chunk_overlap S cs) p"
  using overlap_keeps by (simp add: apply_chunk_overlap_def)

lemma merge_from_keeps: "holds_text (b # cs) p \<Longrightarrow> holds_text (merge_from S b cs) p"
proof (induction cs arbitrary: b)
  case (Cons c cs)
  let ?m = "(retext (sha256 S) (c_text b @ blank_line @ c_text c) b)
      \<lparr>c_keywords := c_keywords b @ c_keywords c, c_entities := c_entities b @ c_entities c,
       c_questions := c_questions b @ c_questions c\<rparr>"
  have "holds_text (?m # cs) p"
    using Cons.prems sublist_front [of p "c_text b" "blank_line @ c_text c"] sublist_behind [of p "c_text c" "c_text b @ blank_line"]
    by auto
  then have "holds_text (merge_from S ?m cs) p" by (rule Cons.IH)
  moreover have "holds_text (b # merge_from S c cs) p" using Cons.prems Cons.IH [of c] by auto
  ultimately show ?case by (simp add: Let_def)
qed simp

lemma merge_keeps: "holds_text cs p \<Longrightarrow> holds_text (merge_short_chunks S cs) p"
  using merge_from_keeps by (cases cs) (simp_all add: merge_short_chunks_def)

lemma enrich_contextual_text: "sublist (c_text c) (c_text (enrich_contextual sha t secs title c))"
  using sublist_behind [of "c_text c" "blank_line @ c_text c"] sublist_behind [of "c_text c" "c_text c" blank_line]
  by (simp add: enrich_contextual_def Let_def)

lemma enrich_keeps:
  assumes "holds_text cs p"
  shows "holds_text (enrich_chunks S cs t m) p"
proof (cases "\<not> sc_contextual S \<or> cs = []")
  case False
  obtain c where "c \<in> set cs" "sublist p (c_text c)" using assms by blast
  then have "sublist p (c_text (enrich_contextual (sha256 S) t (parse_document_sections t) (str_or [] (sm_doc_title m)) c))"
    using enrich_contextual_text by (rule_tac sublist_order.order_trans)
  then show ?thesis using False \<open>c \<in> set cs\<close> by (auto simp: enrich_chunks_def)
qed (use assms in \<open>simp add: enrich_chunks_def\<close>)

text \<open>
  C33. Behind the first heading nothing is lost: every paragraph of every section occurs, unchanged and contiguous, in the text of
  some chunk, whatever the limits, the overlap, the merging and the enrichment do.
\<close>

theorem chunks_keep_paragraphs:
  assumes "sec \<in> set (split_markdown_by_headings md)" and "p \<in> set (split_by_paragraphs (md_content sec))"
  shows "\<exists>c \<in> set (chunk_markdown_with_overlap S md m). sublist p (c_text c)"
proof -
  have "holds_text (merge_short_chunks S (apply_chunk_overlap S (pack_sections S m 0 (split_markdown_by_headings md)))) p"
    by (rule merge_keeps, rule apply_overlap_keeps, rule pack_sections_keeps [OF assms])
  then show ?thesis by (simp add: chunk_markdown_with_overlap_def Let_def enrich_keeps)
qed

theorem chunks_keep_paragraphs_witness:
  "\<exists>c \<in> set (chunk_markdown_with_overlap sample_chunker (''# A'' @ [newline_char] @ ''Text'') no_metadata). sublist ''Text'' (c_text c)"
proof (rule chunks_keep_paragraphs)
  show "\<lparr>md_heading = ''A'', md_level = 1, md_content = ''Text''\<rparr> \<in> set (split_markdown_by_headings (''# A'' @ [newline_char] @ ''Text''))"
    by code_simp
  show "''Text'' \<in> set (split_by_paragraphs (md_content \<lparr>md_heading = ''A'', md_level = 1, md_content = ''Text''\<rparr>))"
    by code_simp
qed

subsection \<open>Size of the chunks\<close>

lemma estimate_length [code]: "estimate_chunk_tokens t = (if t = [] then 0 else max 1 (int (length t) div 4))"
proof -
  have "length (filter latin t) + length (filter (\<lambda>c. \<not> latin c) t) = length t" by (rule sum_length_filter_compl)
  then have sum: "real (length (filter latin t)) / 4 + real (length (filter (\<lambda>c. \<not> latin c) t)) / 4 = real (length t) / 4"
    by (simp flip: add_divide_distrib of_nat_add)
  have "py_trunc (real (length t) / 4) = int (length t) div 4"
    using floor_divide_of_nat_eq [of "length t" 4, where 'a = real] by (simp add: py_trunc_def zdiv_int)
  then show ?thesis by (simp only: estimate_chunk_tokens_def sum)
qed

definition fits :: "etl_chunk \<Rightarrow> int \<Rightarrow> bool" where
  "fits c n \<longleftrightarrow> c_tokens c = estimate_chunk_tokens (c_text c) \<and> estimate_chunk_tokens (c_text c) \<le> n"

definition sized :: "etl_chunk list \<Rightarrow> int \<Rightarrow> bool" where
  "sized cs n \<longleftrightarrow> (\<forall>c \<in> set cs. fits c n)"

lemma sized_simps [simp]:
  "sized [] n" "sized (c # cs) n \<longleftrightarrow> fits c n \<and> sized cs n" "sized (cs @ ds) n \<longleftrightarrow> sized cs n \<and> sized ds n"
  by (auto simp: sized_def)

lemma sized_mono: "sized cs n \<Longrightarrow> n \<le> k \<Longrightarrow> sized cs k"
  by (auto simp: sized_def fits_def)

lemma create_chunk_tokens [simp]: "c_tokens (create_chunk S text n m h) = estimate_chunk_tokens text"
  by (simp add: create_chunk_def new_chunk_def)

lemma create_chunk_fits [simp]: "fits (create_chunk S text k m h) n \<longleftrightarrow> estimate_chunk_tokens text \<le> n"
  by (simp add: fits_def)

lemma pack_paragraphs_sized:
  assumes "\<And>p. p \<in> set ps \<Longrightarrow> estimate_chunk_tokens (lead @ p) \<le> sc_max_tokens S"
    and "estimate_chunk_tokens current \<le> sc_max_tokens S" and "current = [] \<Longrightarrow> lead = []"
  shows "sized (fst (pack_paragraphs S m h lead current n ps)) (sc_max_tokens S)"
  using assms
proof (induction ps arbitrary: current n)
  case (Cons p ps)
  have fits: "sized (fst (pack_paragraphs S m h lead t k ps)) (sc_max_tokens S)"
    if "estimate_chunk_tokens t \<le> sc_max_tokens S" and "t = [] \<Longrightarrow> lead = []" for t k
    by (rule Cons.IH) (use Cons.prems(1) that in auto)
  have lp: "estimate_chunk_tokens (lead @ p) \<le> sc_max_tokens S" using Cons.prems(1) by simp
  show ?case
  proof (cases "strip p = []")
    case True
    then show ?thesis using fits Cons.prems(2,3) by simp
  next
    case False
    show ?thesis
    proof (cases "current = []")
      case True
      then show ?thesis using False lp Cons.prems(3) fits [of p n] by (simp add: Let_def)
    next
      case c: False
      show ?thesis
        using False c Cons.prems(2) fits [of "lead @ p"] fits [of "current @ blank_line @ p"] lp
        by (simp add: Let_def not_le split_beta)
    qed
  qed
qed simp

lemma pack_sections_sized:
  assumes "\<And>sec p. sec \<in> set secs \<Longrightarrow> p \<in> set (split_by_paragraphs (md_content sec)) \<Longrightarrow>
      estimate_chunk_tokens (heading_prefix sec @ p) \<le> sc_max_tokens S"
    and "\<And>sec. sec \<in> set secs \<Longrightarrow> estimate_chunk_tokens (heading_prefix sec) \<le> sc_max_tokens S"
  shows "sized (pack_sections S m n secs) (sc_max_tokens S)"
  using assms
proof (induction secs arbitrary: n)
  case (Cons s secs)
  obtain cs k where packed: "pack_paragraphs S m (md_heading s) (heading_prefix s) (heading_prefix s) n
      (split_by_paragraphs (md_content s)) = (cs, k)" by force
  have "sized (fst (pack_paragraphs S m (md_heading s) (heading_prefix s) (heading_prefix s) n
      (split_by_paragraphs (md_content s)))) (sc_max_tokens S)"
    by (rule pack_paragraphs_sized) (use Cons.prems in auto)
  then have "sized cs (sc_max_tokens S)" by (simp only: packed fst_conv)
  moreover have "sized (pack_sections S m k secs) (sc_max_tokens S)" by (rule Cons.IH) (use Cons.prems in auto)
  ultimately show ?case by (auto simp: packed)
qed simp

lemma retext_tokens [simp]: "c_tokens (retext sha t c) = estimate_chunk_tokens t"
  by (simp add: retext_def)

lemma estimate_le: "estimate_chunk_tokens t \<le> n \<longleftrightarrow> t = [] \<and> 0 \<le> n \<or> t \<noteq> [] \<and> 1 \<le> n \<and> int (length t) \<le> 4 * n + 3"
  unfolding estimate_length by auto

lemma overlap_sized:
  assumes "0 < sc_overlap_tokens S" and "sized cs n"
  shows "sized (overlap_from S prev cs) (n + sc_overlap_tokens S + 7)"
  using assms(2)
proof (induction cs arbitrary: prev)
  case (Cons c cs)
  let ?k = "sc_overlap_tokens S * 4"
  let ?snip = "if int (length prev) > ?k then slice_from (- ?k) prev else prev"
  let ?t = "''[previous context: ...'' @ ?snip @ '']'' @ blank_line @ c_text c"
  have snip: "int (length ?snip) \<le> ?k" using assms(1) by (auto simp: slice_from_def)
  have c: "fits c n" using Cons.prems by simp
  then have "int (length (c_text c)) \<le> 4 * n + 3" "0 \<le> n" unfolding fits_def estimate_le by auto
  then have "estimate_chunk_tokens ?t \<le> n + sc_overlap_tokens S + 7" using snip assms(1) unfolding estimate_le by simp
  then have "fits (retext (sha256 S) ?t c) (n + sc_overlap_tokens S + 7)" unfolding fits_def retext_text retext_tokens by blast
  moreover have "fits c (n + sc_overlap_tokens S + 7)" using c assms(1) by (simp add: fits_def)
  moreover have "sized (overlap_from S prev' cs) (n + sc_overlap_tokens S + 7)" for prev' using Cons by simp
  ultimately show ?case unfolding overlap_from.simps Let_def sized_simps by (cases "prev = []") (simp_all only: if_True if_False simp_thms)
qed simp

lemma merge_sized:
  assumes "sized (b # cs) n" and "sc_max_tokens S + 2 \<le> n"
  shows "sized (merge_from S b cs) n"
  using assms(1)
proof (induction cs arbitrary: b)
  case (Cons c cs)
  let ?t = "c_text b @ blank_line @ c_text c"
  let ?m = "(retext (sha256 S) ?t b)
      \<lparr>c_keywords := c_keywords b @ c_keywords c, c_entities := c_entities b @ c_entities c,
       c_questions := c_questions b @ c_questions c\<rparr>"
  have "fits ?m n" if sum: "c_tokens b + c_tokens c \<le> sc_max_tokens S"
  proof -
    have len: "int (length t) \<le> 4 * estimate_chunk_tokens t + 3 \<and> 0 \<le> estimate_chunk_tokens t" for t
      by (auto simp: estimate_length)
    have "estimate_chunk_tokens (c_text b) + estimate_chunk_tokens (c_text c) \<le> sc_max_tokens S"
      using sum Cons.prems by (simp add: fits_def)
    then have "estimate_chunk_tokens ?t \<le> n"
      using assms(2) len [of "c_text b"] len [of "c_text c"] unfolding estimate_le by simp
    then show ?thesis by (simp add: fits_def)
  qed
  then have "sized (merge_from S ?m cs) n" if "c_tokens b + c_tokens c \<le> sc_max_tokens S"
    using Cons.IH [of ?m] Cons.prems that by simp
  moreover have "sized (b # merge_from S c cs) n" using Cons.IH [of c] Cons.prems by simp
  ultimately show ?case by (simp add: Let_def)
qed simp

text \<open>
  The size of the chunks, before context is added. Where every paragraph fits the limit together with its heading, a chunk
  exceeds the limit by no more than the overlap and seven tokens, for the words around the overlap.
\<close>

theorem chunk_size_bound:
  assumes "\<forall>sec \<in> set (split_markdown_by_headings md). estimate_chunk_tokens (heading_prefix sec) \<le> sc_max_tokens S \<and>
      (\<forall>p \<in> set (split_by_paragraphs (md_content sec)). estimate_chunk_tokens (heading_prefix sec @ p) \<le> sc_max_tokens S)"
    and "\<not> sc_contextual S" and "0 \<le> sc_overlap_tokens S"
    and "c \<in> set (chunk_markdown_with_overlap S md m)"
  shows "c_tokens c = estimate_chunk_tokens (c_text c) \<and> c_tokens c \<le> sc_max_tokens S + sc_overlap_tokens S + 7"
proof -
  let ?n = "sc_max_tokens S + sc_overlap_tokens S + 7"
  let ?cs = "pack_sections S m 0 (split_markdown_by_headings md)"
  have "sized ?cs (sc_max_tokens S)" by (rule pack_sections_sized) (use assms(1) in blast)+
  then have "sized (apply_chunk_overlap S ?cs) ?n"
    using overlap_sized [of S ?cs "sc_max_tokens S" "[]"] sized_mono [of ?cs "sc_max_tokens S" ?n] assms(3)
    by (cases "sc_overlap_tokens S = 0") (auto simp: apply_chunk_overlap_def)
  then have "sized (merge_short_chunks S (apply_chunk_overlap S ?cs)) ?n"
    using merge_sized [of _ _ ?n S] assms(3) by (cases "apply_chunk_overlap S ?cs") (simp_all add: merge_short_chunks_def)
  then have "sized (chunk_markdown_with_overlap S md m) ?n"
    using assms(2) by (simp add: chunk_markdown_with_overlap_def Let_def)
  then show ?thesis using assms(4) by (simp add: sized_def fits_def)
qed

definition two_paragraphs :: string where
  "two_paragraphs = replicate 72 (CHR ''x'') @ blank_line @ replicate 72 (CHR ''y'')"

lemma limit_exceeded: "map c_tokens (chunk_markdown_with_overlap sample_chunker two_paragraphs no_metadata) = [18, 26]"
  by code_simp

theorem chunk_size_bound_witness:
  "c_tokens (chunk_markdown_with_overlap sample_chunker two_paragraphs no_metadata ! 1) \<le> 29"
proof -
  let ?cs = "chunk_markdown_with_overlap sample_chunker two_paragraphs no_metadata"
  have s: "\<not> sc_contextual sample_chunker" "sc_max_tokens sample_chunker = 20" "sc_overlap_tokens sample_chunker = 2"
    by (simp_all add: sample_chunker_def)
  have fit: "\<forall>sec \<in> set (split_markdown_by_headings two_paragraphs).
      estimate_chunk_tokens (heading_prefix sec) \<le> sc_max_tokens sample_chunker \<and>
      (\<forall>p \<in> set (split_by_paragraphs (md_content sec)). estimate_chunk_tokens (heading_prefix sec @ p) \<le> sc_max_tokens sample_chunker)"
    by code_simp
  have "length (map c_tokens ?cs) = 2" by (simp only: limit_exceeded) simp
  then have c: "?cs ! 1 \<in> set ?cs" by simp
  from chunk_size_bound [OF fit s(1) _ c] show ?thesis by (simp add: s)
qed

subsection \<open>Rights of the chunks\<close>

definition has_rights :: "source_metadata \<Rightarrow> etl_chunk \<Rightarrow> bool" where
  "has_rights m c \<longleftrightarrow> c_semantic_key c = [] \<and> c_level c = str_or ''public'' (sm_level m) \<and> c_groups c = list_or (sm_groups m) \<and> c_users c = list_or (sm_users m)"

abbreviation all_rights :: "source_metadata \<Rightarrow> etl_chunk list \<Rightarrow> bool" where
  "all_rights m cs \<equiv> list_all (has_rights m) cs"

lemma create_chunk_rights [simp]: "has_rights m (create_chunk S text n m h)"
  by (simp add: has_rights_def create_chunk_def new_chunk_def)

lemma retext_rights [simp]: "has_rights m (retext sha t c) = has_rights m c"
  by (simp add: has_rights_def retext_def)

lemma pack_paragraphs_rights: "all_rights m (fst (pack_paragraphs S m h lead current n ps))"
proof (induction ps arbitrary: current n)
  case (Cons p ps)
  show ?case
    unfolding pack_paragraphs.simps Let_def split_beta
    using Cons.IH by (simp only: fst_conv list.pred_inject create_chunk_rights simp_thms split: if_split)
qed simp

lemma pack_sections_rights: "all_rights m (pack_sections S m n secs)"
proof (induction S m n secs rule: pack_sections.induct)
  case (2 S m n sec secs)
  then show ?case
    using pack_paragraphs_rights [of m S "md_heading sec" "heading_prefix sec" "heading_prefix sec" n
        "split_by_paragraphs (md_content sec)"]
    by (auto split: prod.split)
qed simp

lemma pack_html_paragraphs_rights: "all_rights m (fst (pack_html_paragraphs S m h current n ps))"
  by (induction ps arbitrary: current n) (simp_all add: Let_def split_beta)

lemma pack_html_sections_rights: "all_rights m (pack_html_sections S m n secs)"
proof (induction S m n secs rule: pack_html_sections.induct)
  case (2 S m n heading content secs)
  then show ?case
    using pack_html_paragraphs_rights [of m S heading "if heading \<noteq> ''root'' then ''## '' @ heading @ [newline_char] else []" n
        "split_by_paragraphs content"]
    by (auto split: prod.split)
qed simp

lemma overlap_rights: "all_rights m cs \<Longrightarrow> all_rights m (overlap_from S prev cs)"
  by (induction cs arbitrary: prev) (simp_all add: Let_def)

lemma merge_from_rights: "all_rights m (b # cs) \<Longrightarrow> all_rights m (merge_from S b cs)"
  by (induction cs arbitrary: b) (simp_all add: Let_def has_rights_def retext_def)

lemma finish_rights: "all_rights m cs \<Longrightarrow> all_rights m (merge_short_chunks S (apply_chunk_overlap S cs))"
  using overlap_rights [of m cs S "[]"] merge_from_rights [of m]
  by (cases "apply_chunk_overlap S cs") (auto simp: merge_short_chunks_def apply_chunk_overlap_def split: if_splits)

lemma enrich_rights: "all_rights m cs \<Longrightarrow> all_rights m (enrich_chunks S cs t m')"
  by (auto simp: enrich_chunks_def list_all_iff enrich_contextual_def Let_def has_rights_def)

lemma chunk_markdown_rights: "all_rights m (chunk_markdown_with_overlap S md m)"
  using finish_rights [OF pack_sections_rights] enrich_rights by (simp add: chunk_markdown_with_overlap_def Let_def)

lemma do_chunking_rights: "do_chunking L S content ty m = Inr cs \<Longrightarrow> all_rights m cs"
  using chunk_markdown_rights finish_rights [OF pack_html_sections_rights] enrich_rights
  by (auto simp: do_chunking_def chunk_markdown_def chunk_html_def Let_def split: option.splits if_splits)

lemma enrich_one_rights: "has_rights m c \<Longrightarrow> has_rights m (enrich_one N m c)"
  by (simp add: enrich_one_def has_rights_def Let_def apply_slm_enrichment_def split: option.split)

lemma propagate_rights: "all_rights m cs \<Longrightarrow> all_rights m (propagate sha prev cs)"
  by (induction cs arbitrary: prev) (simp_all add: Let_def has_rights_def)

lemma rolling_rights: "all_rights m cs \<Longrightarrow> all_rights m (apply_rolling_key_propagation sha cs)"
  unfolding apply_rolling_key_propagation_def by (rule propagate_rights) (simp add: list_all_iff has_rights_def)

lemma chunks_with_rights:
  "do_chunking L S content ty m = Inr cs \<Longrightarrow>
   all_rights m (apply_rolling_key_propagation sha (map (enrich_one N m) cs))"
  by (rule rolling_rights) (use do_chunking_rights enrich_one_rights in \<open>force simp: list_all_iff\<close>)

subsection \<open>The tree of headings\<close>

fun preorder :: "heading_node list \<Rightarrow> heading_info list" where
  "preorder [] = []"
| "preorder (Heading_node h cs # ns) = h # preorder cs @ preorder ns"

function forest :: "heading_info list \<Rightarrow> heading_node list" where
  \<comment> \<open>the tree by its meaning: under a heading stand the deeper ones that follow it directly\<close>
  "forest [] = []"
| "forest (h # hs) =
     Heading_node h (forest (takeWhile (\<lambda>x. h_level x > h_level h) hs)) # forest (dropWhile (\<lambda>x. h_level x > h_level h) hs)"
  by pat_completeness auto

termination
  by (relation "measure length") (simp_all add: less_Suc_eq_le length_takeWhile_le length_dropWhile_le)

abbreviation node_level :: "heading_node \<Rightarrow> int" where
  "node_level n \<equiv> h_level (node_info n)"

abbreviation may_follow :: "heading_node list \<Rightarrow> int \<Rightarrow> bool" where
  "may_follow ns l \<equiv> ns \<noteq> [] \<longrightarrow> l \<le> node_level (last ns)"

fun nested :: "heading_node list \<Rightarrow> bool" where
  "nested [] = True"
| "nested (Heading_node h cs # ns) \<longleftrightarrow>
     (\<forall>c \<in> set cs. h_level h < node_level c) \<and> nested cs \<and> (ns \<noteq> [] \<longrightarrow> node_level (hd ns) \<le> h_level h) \<and> nested ns"

lemma preorder_append: "preorder (ns @ ms) = preorder ns @ preorder ms"
  by (induction ns rule: preorder.induct) simp_all

lemma nested_snoc:
  "nested (ns @ [Heading_node h cs]) \<longleftrightarrow>
     nested ns \<and> (\<forall>c \<in> set cs. h_level h < node_level c) \<and> nested cs \<and> may_follow ns (h_level h)"
proof (induction ns rule: nested.induct)
  case (2 h' cs' ns)
  then show ?case by (cases ns) (auto simp: hd_append)
qed auto

lemma nested_deeper:
  "nested ns \<Longrightarrow> \<forall>n \<in> set ns. l < node_level n \<Longrightarrow> \<forall>x \<in> set (preorder ns). l < h_level x"
proof (induction ns arbitrary: l rule: nested.induct)
  case (2 h cs ns)
  have h: "l < h_level h" using "2.prems"(2) by simp
  have "nested cs" "nested ns" "\<forall>n \<in> set ns. l < node_level n" using "2.prems" by simp_all
  moreover have "\<forall>c \<in> set cs. l < node_level c" using h "2.prems"(1) by (meson less_trans nested.simps(2))
  ultimately have "\<forall>x \<in> set (preorder cs). l < h_level x" "\<forall>x \<in> set (preorder ns). l < h_level x"
    using "2.IH" by blast+
  then show ?case using h by (simp add: ball_Un)
qed simp

lemma forest_preorder: "nested ns \<Longrightarrow> forest (preorder ns) = ns"
proof (induction ns rule: nested.induct)
  case (2 h cs ns)
  have deep: "\<forall>x \<in> set (preorder cs). h_level h < h_level x" using "2.prems" nested_deeper [of cs "h_level h"] by simp
  have stop: "preorder ns \<noteq> [] \<Longrightarrow> \<not> h_level h < h_level (hd (preorder ns))"
    using "2.prems" by (cases ns rule: preorder.cases) auto
  have "takeWhile (\<lambda>x. h_level x > h_level h) (preorder cs @ preorder ns) = preorder cs"
    using deep stop by (cases "preorder ns") (simp_all add: takeWhile_append2)
  moreover have "dropWhile (\<lambda>x. h_level x > h_level h) (preorder cs @ preorder ns) = preorder ns"
    using deep stop by (cases "preorder ns") (simp_all add: dropWhile_append2)
  ultimately show ?case using 2 by simp
qed simp

fun open_preorder :: "open_nodes \<Rightarrow> heading_info list" where
  "open_preorder [] = []"
| "open_preorder ((h, cs) # st) = open_preorder st @ h # preorder cs"

lemma close_top_preorder:
  "close_top st roots = (st', roots') \<Longrightarrow> preorder roots' @ open_preorder st' = preorder roots @ open_preorder st"
  by (cases "(st, roots)" rule: close_top.cases) (auto simp: preorder_append)

lemma close_while_stop: "\<not> (st \<noteq> [] \<and> h_level (fst (hd st)) \<ge> l) \<Longrightarrow> close_while l st roots = (st, roots)"
  by (subst close_while.simps) (simp only: if_False)

lemma close_while_go:
  "st \<noteq> [] \<and> h_level (fst (hd st)) \<ge> l \<Longrightarrow> close_top st roots = (s, r) \<Longrightarrow> close_while l st roots = close_while l s r"
  by (subst close_while.simps) simp

lemma close_while_preorder:
  "close_while l st roots = (st', roots') \<Longrightarrow> preorder roots' @ open_preorder st' = preorder roots @ open_preorder st"
proof (induction l st roots arbitrary: st' roots' rule: close_while.induct)
  case (1 l st roots)
  show ?case
  proof (cases "st \<noteq> [] \<and> h_level (fst (hd st)) \<ge> l")
    case True
    obtain s r where top: "close_top st roots = (s, r)" by force
    then have "close_while l s r = (st', roots')" using "1.prems" close_while_go [OF True top] by simp
    then show ?thesis using "1.IH" [OF True top [symmetric] refl, of st' roots'] top close_top_preorder [OF top] by simp
  next
    case False
    then show ?thesis using "1.prems" by (simp add: close_while_stop)
  qed
qed

lemma close_all_preorder: "preorder (close_all st roots) = preorder roots @ open_preorder st"
  by (induction st roots rule: close_all.induct) (simp_all add: preorder_append)

fun stack_ok :: "open_nodes \<Rightarrow> heading_node list \<Rightarrow> bool" where
  "stack_ok [] roots = nested roots"
| "stack_ok ((h, cs) # st) roots \<longleftrightarrow>
     nested cs \<and> (\<forall>c \<in> set cs. h_level h < node_level c) \<and>
     (case st of [] \<Rightarrow> may_follow roots (h_level h)
      | (h', cs') # _ \<Rightarrow> h_level h' < h_level h \<and> may_follow cs' (h_level h)) \<and> stack_ok st roots"

definition room_for :: "int \<Rightarrow> open_nodes \<Rightarrow> heading_node list \<Rightarrow> bool" where
  \<comment> \<open>a heading of that level may become the next child of the top, or the next root\<close>
  "room_for l st roots \<longleftrightarrow> (case st of [] \<Rightarrow> may_follow roots l | (h, cs) # _ \<Rightarrow> may_follow cs l)"

lemma close_top_ok:
  assumes "stack_ok st roots" and "st \<noteq> []" and "h_level (fst (hd st)) \<ge> l" and "close_top st roots = (st', roots')"
  shows "stack_ok st' roots' \<and> room_for l st' roots'"
proof (cases "(st, roots)" rule: close_top.cases)
  case (2 h cs roots)
  then show ?thesis using assms by (auto simp: nested_snoc room_for_def)
next
  case (3 h cs h' cs' st'' roots)
  then have eq: "st' = (h', cs' @ [Heading_node h cs]) # st''" "roots' = roots" using assms(4) by simp_all
  have "stack_ok ((h', cs') # st'') roots" "nested cs" "\<forall>c \<in> set cs. h_level h < node_level c" "h_level h' < h_level h"
    "may_follow cs' (h_level h)"
    using assms(1) 3 by simp_all
  then have "stack_ok st' roots'" unfolding eq stack_ok.simps nested_snoc by simp
  moreover have "room_for l st' roots'" using assms(3) 3 by (simp add: eq room_for_def)
  ultimately show ?thesis by blast
qed (use assms(2) in simp)

lemma close_while_ok:
  assumes "stack_ok st roots" and "room_for l st roots" and "close_while l st roots = (st', roots')"
  shows "stack_ok st' roots' \<and> room_for l st' roots' \<and> (st' \<noteq> [] \<longrightarrow> h_level (fst (hd st')) < l)"
  using assms
proof (induction l st roots arbitrary: st' roots' rule: close_while.induct)
  case (1 l st roots)
  show ?case
  proof (cases "st \<noteq> [] \<and> h_level (fst (hd st)) \<ge> l")
    case True
    obtain s r where top: "close_top st roots = (s, r)" by force
    then have "close_while l s r = (st', roots')" using "1.prems"(3) close_while_go [OF True top] by simp
    then show ?thesis
      using "1.IH" [OF True top [symmetric] refl, of st' roots'] close_top_ok [OF "1.prems"(1) _ _ top] True by blast
  next
    case False
    then show ?thesis using "1.prems" close_while_stop [OF False] by auto
  qed
qed

lemma close_all_nested: "stack_ok st roots \<Longrightarrow> nested (close_all st roots)"
  by (induction st roots rule: close_all.induct) (auto simp: nested_snoc split: list.splits)

abbreviation fresh_top :: "open_nodes \<Rightarrow> heading_node list \<Rightarrow> bool" where
  "fresh_top st roots \<equiv> (case st of [] \<Rightarrow> roots = [] | (h, cs) # _ \<Rightarrow> cs = [])"

lemma add_heading_ok:
  assumes "stack_ok st roots" and "fresh_top st roots" and "add_heading (st, roots) h = (st', roots')"
  shows "stack_ok st' roots' \<and> fresh_top st' roots' \<and>
    preorder roots' @ open_preorder st' = preorder roots @ open_preorder st @ [h]"
proof -
  obtain s r where cw: "close_while (h_level h) st roots = (s, r)" by force
  have new: "st' = (h, []) # s" "roots' = r" using assms(3) cw by (auto simp: add_heading_def)
  have "room_for (h_level h) st roots" using assms(2) by (auto simp: room_for_def split: list.splits)
  then have ok: "stack_ok s r" "room_for (h_level h) s r" "s \<noteq> [] \<longrightarrow> h_level (fst (hd s)) < h_level h"
    using close_while_ok [OF assms(1) _ cw] by blast+
  then have "stack_ok ((h, []) # s) r" by (auto simp: room_for_def split: list.splits)
  then show ?thesis using new close_while_preorder [OF cw] by simp
qed

lemma add_headings_ok:
  "foldl add_heading ([], []) hs = (st, roots) \<Longrightarrow>
   stack_ok st roots \<and> fresh_top st roots \<and> preorder roots @ open_preorder st = hs"
proof (induction hs arbitrary: st roots rule: rev_induct)
  case (snoc h hs)
  obtain s r where a: "foldl add_heading ([], []) hs = (s, r)" by force
  from snoc.IH [OF a] snoc.prems a add_heading_ok [of s r h st roots] show ?case by simp
qed simp

text \<open>
  C38. The tree that the stack of open headings builds is the one that the levels define: under a heading stand, in their order,
  the deeper headings that follow it directly.
\<close>

theorem heading_tree_correct: "build_heading_tree hs = forest hs \<and> preorder (build_heading_tree hs) = hs"
proof -
  obtain st roots where f: "foldl add_heading ([], []) hs = (st, roots)" by force
  then have b: "build_heading_tree hs = close_all st roots" by (simp add: build_heading_tree_def)
  have "nested (close_all st roots)" "preorder (close_all st roots) = hs"
    using add_headings_ok [OF f] by (simp_all add: close_all_nested close_all_preorder)
  then show ?thesis using forest_preorder [of "close_all st roots"] b by simp
qed

lemma repeated_heading_children:
  \<comment> \<open>of two headings with the same text and level both get the children of the first\<close>
  "map (\<lambda>c. c_keywords c) (create_heading_chunks sha
      [\<lparr>h_text = ''Setup'', h_level = 1, h_anchor = []\<rparr>, \<lparr>h_text = ''Linux'', h_level = 2, h_anchor = []\<rparr>,
       \<lparr>h_text = ''Setup'', h_level = 1, h_anchor = []\<rparr>, \<lparr>h_text = ''Windows'', h_level = 2, h_anchor = []\<rparr>] no_metadata) =
   [[''Setup'', ''Linux''], [''Linux''], [''Setup'', ''Linux''], [''Windows'']]"
  by (simp add: create_heading_chunks_def extract_headings_def heading_tree_correct heading_chunk_def new_chunk_def Let_def)

subsection \<open>Packing by key\<close>

abbreviation same_key :: "etl_chunk list \<Rightarrow> string \<Rightarrow> etl_chunk list" where
  "same_key cs k \<equiv> filter (\<lambda>c. pack_key c = k) cs"

lemma group_chunks_get:
  "map_of (group_chunks d cs) k = (if same_key cs k = [] then map_of d k else Some (dict_getd d k [] @ same_key cs k))"
proof (induction cs arbitrary: d)
  case (Cons c cs)
  then show ?case by (auto simp: dict_getd_def)
qed simp

lemma packed_group:
  assumes "c \<in> set cs"
  shows "pack_group S (pack_key c, same_key cs (pack_key c)) \<in> set (pack_by_semantic_key S cs)"
proof -
  have "map_of (group_chunks [] cs) (pack_key c) = Some (same_key cs (pack_key c))"
    using assms by (auto simp: group_chunks_get dict_getd_def filter_empty_conv)
  then show ?thesis unfolding pack_by_semantic_key_def by (force dest: map_of_SomeD)
qed

lemma joined_part: "t \<in> set ts \<Longrightarrow> sublist t (join sep ts)"
proof (induction ts)
  case (Cons x xs)
  then show ?case by (cases xs) (auto simp: join_def sublist_front sublist_behind)
qed simp

lemma propagate_no_keys:
  "list_all (\<lambda>c. c_semantic_key c = []) cs \<Longrightarrow>
   propagate sha [] cs =
     map (\<lambda>c. (let t = ''[Context: '' @ c_doc_title c @ '']'' @ [newline_char] @ c_text c
               in c\<lparr>c_parent := [], c_text := t, c_hash := sha t\<rparr>)) cs"
  by (induction cs) (simp_all add: Let_def dict_getd_def)

lemma cascade_dead:
  \<comment> \<open>no chunk ever gets a semantic key, so that no metadata is handed from one chunk to the next\<close>
  assumes "do_chunking L S content ty m = Inr cs"
    and "c \<in> set (apply_rolling_key_propagation sha (map (enrich_one N m) cs))"
  shows "c_semantic_key c = [] \<and> c_parent c = [] \<and> starts_with (''[Context: '' @ c_doc_title c @ '']'') (c_text c)"
proof -
  let ?ds = "map (\<lambda>c. c\<lparr>c_original := c_text c, c_enriched := True\<rparr>) (map (enrich_one N m) cs)"
  have "list_all (has_rights m) (map (enrich_one N m) cs)"
    using do_chunking_rights [OF assms(1)] enrich_one_rights by (force simp: list_all_iff)
  then have keys: "list_all (\<lambda>c. c_semantic_key c = []) ?ds" by (simp add: list_all_iff has_rights_def)
  then have "c \<in> set (propagate sha [] ?ds)" using assms(2) by (simp add: apply_rolling_key_propagation_def)
  then show ?thesis
    using keys unfolding propagate_no_keys [OF keys] by (auto simp: list_all_iff Let_def starts_with_def)
qed

text \<open>
  What happens to the rights of a document on their way into its chunks. Every chunk is created with the level, the groups and
  the users of the document, but chunks that share their hash are packed into one that does not inherit them: whenever two
  chunks of a document have the same text, that text is stored as \<^verbatim>\<open>public\<close>. A chunk that shares its key with no other keeps
  the rights.
\<close>

theorem packing_rights:
  assumes "do_chunking L S content ty m = Inr cs"
    and "packed = apply_rolling_key_propagation (sha256 S) (map (enrich_one N m) cs)" and "c \<in> set packed"
  shows "\<exists>out q. md_process_document L S N content ty m = Inr out \<and> q \<in> set out \<and> sublist (c_text c) (c_text q) \<and>
    (if length (filter (\<lambda>x. c_hash x = c_hash c) packed) = 1
     then q = c \<and> c_level q = str_or ''public'' (sm_level m) \<and> c_groups q = list_or (sm_groups m) \<and>
          c_users q = list_or (sm_users m)
     else c_level q = ''public'' \<and> c_groups q = [] \<and> c_users q = [])"
proof -
  let ?g = "same_key packed (pack_key c)"
  let ?q = "pack_group S (pack_key c, ?g)"
  have rights: "list_all (has_rights m) packed"
    using chunks_with_rights [OF assms(1), of "sha256 S" N] assms(2) by (simp add: comp_def)
  then have key: "pack_key x = ''_unique_'' @ c_hash x" if "x \<in> set packed" for x
    using that by (simp add: pack_key_def list_all_iff has_rights_def)
  have g: "?g = filter (\<lambda>x. c_hash x = c_hash c) packed"
    by (rule filter_cong) (auto simp: key assms(3))
  have mem: "c \<in> set ?g" using assms(3) by simp
  have out: "md_process_document L S N content ty m = Inr (pack_by_semantic_key S packed)"
    using assms(1,2) by (simp add: md_process_document_def)
  have q: "?q \<in> set (pack_by_semantic_key S packed)" by (rule packed_group [OF assms(3)])
  show ?thesis
  proof (cases "length ?g = 1")
    case True
    then have "?g = [c]" using mem by (cases ?g) auto
    then have "?q = c" by (simp add: pack_group_def)
    then show ?thesis using out q rights assms(3) True g by (fastforce simp: list_all_iff has_rights_def)
  next
    case False
    have "sublist (c_text c) (join rule_line (map c_text ?g))" by (rule joined_part) (use mem in simp)
    then have "sublist (c_text c) (c_text ?q) \<and> c_level ?q = ''public'' \<and> c_groups ?q = [] \<and> c_users ?q = []"
      using False by (simp add: pack_group_def Let_def new_chunk_def)
    then show ?thesis using out q False g by auto
  qed
qed

definition plain_html :: html_library where
  "plain_html = \<lparr>markdownify = Some (\<lambda>s. s), soup_elements = None, markdown_to_html = Some (\<lambda>s. s)\<rparr>"

definition restricted_metadata :: source_metadata where
  "restricted_metadata = no_metadata\<lparr>sm_level := Some ''restricted'', sm_users := Some [''ceo'']\<rparr>"

definition repeated_text :: string where
  "repeated_text = ''# A'' @ [newline_char] @ ''Board memo'' @ [newline_char] @ ''# A'' @ [newline_char] @ ''Board memo''"

definition separate_chunker :: sem_chunker where
  "separate_chunker = sample_chunker\<lparr>sc_overlap_tokens := 0, sc_min_tokens := 0\<rparr>"

definition repeated_chunks :: "etl_chunk list" where
  "repeated_chunks =
     (case do_chunking plain_html separate_chunker repeated_text ''html'' restricted_metadata of Inr cs \<Rightarrow> cs | Inl e \<Rightarrow> [])"

definition repeated_packed :: "etl_chunk list" where
  "repeated_packed = apply_rolling_key_propagation (sha256 separate_chunker) (map (enrich_one None restricted_metadata) repeated_chunks)"

lemma repeated_run: "do_chunking plain_html separate_chunker repeated_text ''html'' restricted_metadata = Inr repeated_chunks"
  unfolding repeated_chunks_def by (simp add: do_chunking_def chunk_html_def plain_html_def)

lemma repeated_eval: "map (\<lambda>c. (c_level c, c_users c)) repeated_packed = [(''restricted'', [''ceo'']), (''restricted'', [''ceo''])]"
  "length (filter (\<lambda>x. c_hash x = c_hash (hd repeated_packed)) repeated_packed) = 2"
  by code_simp+

theorem packing_rights_witness:
  "\<exists>out q. md_process_document plain_html separate_chunker None repeated_text ''html'' restricted_metadata = Inr out \<and>
    q \<in> set out \<and> sublist (c_text (hd repeated_packed)) (c_text q) \<and> c_level q = ''public''"
proof -
  have "repeated_packed \<noteq> []" using repeated_eval(1) by auto
  then have "hd repeated_packed \<in> set repeated_packed" by simp
  from packing_rights [OF repeated_run repeated_packed_def this] show ?thesis
    unfolding repeated_eval(2) by auto
qed

end
