(* ===== verification/Acl_Extraction.thy ===== *)
theory Acl_Extraction
  imports Access_Control
begin

text \<open>
  Extraction of access rights from the source systems, \<^verbatim>\<open>etl/extractors/acl_extractor.py\<close>: Confluence restrictions,
  Jira security levels, GitLab visibility, and the mapping of a space or project key to a department. The JSON documents are
  records of the fields that are read. The last section puts the extracted rights against the checks of \<open>Access_Control\<close>.
\<close>

record document_acl =
  da_level :: string
  da_groups :: "string list"
  da_users :: "string list"
  da_source :: "(string, string) dict"

definition empty_acl :: document_acl where
  "empty_acl = \<lparr>da_level = ''public'', da_groups = [], da_users = [], da_source = []\<rparr>"

definition DEFAULT_DEPARTMENT_MAP :: "(string, string) dict" where
  "DEFAULT_DEPARTMENT_MAP =
     [(''ENG'', ''engineering''), (''DEV'', ''engineering''), (''FE'', ''engineering''), (''BE'', ''engineering''),
      (''HR'', ''hr''), (''FIN'', ''finance''), (''MKT'', ''marketing''), (''OPS'', ''operations''), (''SEC'', ''security''),
      (''QA'', ''quality''), (''PM'', ''product''), (''DES'', ''design''), (''INFRA'', ''infrastructure''), (''DATA'', ''data''),
      (''SRE'', ''sre''), (''LEGAL'', ''legal''), (''SUP'', ''support'')]"

definition key_prefix :: "string \<Rightarrow> string" where
  "key_prefix k = (if CHR ''-'' \<in> set k then py_upper (hd (split_on (CHR ''-'') k)) else py_upper k)"

definition map_department_from_space :: "string \<Rightarrow> string" where
  "map_department_from_space space_key =
     (if space_key = [] then ''general'' else dict_getd DEFAULT_DEPARTMENT_MAP (key_prefix space_key) ''general'')"

definition map_department_from_project :: "string \<Rightarrow> string" where
  "map_department_from_project project_key =
     (if project_key = [] then [] else dict_getd DEFAULT_DEPARTMENT_MAP (key_prefix project_key) [])"

subsection \<open>Confluence\<close>

record subject =
  subject_id :: string
  subject_type :: string

record confluence_page =
  restrictions :: "subject list list"
  \<comment> \<open>the subjects of each read restriction\<close>
  space_key_field :: string
  space_object_key :: string
  labels :: "string list"

definition add_subject :: "subject \<Rightarrow> document_acl \<Rightarrow> document_acl" where
  "add_subject s a =
     (if subject_type s = ''group'' then a\<lparr>da_groups := da_groups a @ [subject_id s]\<rparr>
      else if subject_type s = ''user'' then a\<lparr>da_users := da_users a @ [subject_id s]\<rparr> else a)"

fun unique :: "string list \<Rightarrow> string list" where
  \<comment> \<open>\<^verbatim>\<open>list(dict.fromkeys(xs))\<close>: first occurrences in their order\<close>
  "unique [] = []"
| "unique (x # xs) = x # unique (filter (\<lambda>y. y \<noteq> x) xs)"

definition extract_confluence_acl :: "confluence_page \<Rightarrow> document_acl" where
  "extract_confluence_acl page =
     (let a = empty_acl;
          a = (if restrictions page \<noteq> []
               then fold add_subject (concat (restrictions page)) (a\<lparr>da_level := ''restricted''\<rparr>) else a);
          space_key = (if space_key_field page \<noteq> [] then space_key_field page else space_object_key page);
          a = (if space_key \<noteq> []
               then (let a = a\<lparr>da_source := dict_set ''space_key'' space_key (da_source a)\<rparr>;
                         department = map_department_from_space space_key
                     in if department \<noteq> [] \<and> department \<noteq> ''general'' \<and> department \<notin> set (da_groups a)
                        then a\<lparr>da_groups := da_groups a @ [department]\<rparr> else a)
               else a);
          a = (if list_ex (\<lambda>l. py_lower l \<in> {''confidential'', ''restricted'', ''internal''}) (labels page) \<and> da_level a = ''public''
               then a\<lparr>da_level := ''internal''\<rparr> else a)
      in a\<lparr>da_groups := unique (da_groups a), da_users := unique (da_users a)\<rparr>)"

subsection \<open>Jira\<close>

record jira_issue =
  security :: "(string \<times> string) option"
  \<comment> \<open>name and id of the security level, \<open>None\<close> when neither place has a non-empty one\<close>
  project_object_key :: string
  project_key_field :: string

definition extract_jira_acl :: "jira_issue \<Rightarrow> document_acl" where
  "extract_jira_acl issue =
     (let a = empty_acl;
          a = (case security issue of
                 None \<Rightarrow> a
               | Some (name, i) \<Rightarrow> a\<lparr>da_level := ''restricted'',
                   da_source := dict_set ''security_level'' i (dict_set ''security_scheme'' name (da_source a))\<rparr>);
          project_key = (if project_object_key issue \<noteq> [] then project_object_key issue else project_key_field issue);
          a = (if project_key \<noteq> []
               then (let a = a\<lparr>da_source := dict_set ''project_key'' project_key (da_source a)\<rparr>;
                         department = map_department_from_project project_key
                     in if department \<noteq> [] then a\<lparr>da_groups := da_groups a @ [department]\<rparr> else a)
               else a)
      in a\<lparr>da_groups := unique (da_groups a), da_users := unique (da_users a)\<rparr>)"

subsection \<open>GitLab\<close>

record gitlab_member =
  member_type :: string
  member_name :: "string option"
  member_path :: "string option"
  member_username :: "string option"

record gitlab_project =
  visibility :: "string option"
  project_members :: "gitlab_member list"

definition add_member :: "gitlab_member \<Rightarrow> document_acl \<Rightarrow> document_acl" where
  "add_member mb a =
     (if py_lower (member_type mb) = ''group''
      then a\<lparr>da_groups := da_groups a @ [first_of (member_name mb) (member_path mb) []]\<rparr>
      else a\<lparr>da_users := da_users a @ [first_of (member_username mb) (member_name mb) []]\<rparr>)"

definition extract_gitlab_acl :: "gitlab_project \<Rightarrow> gitlab_member list option \<Rightarrow> document_acl" where
  "extract_gitlab_acl project members =
     (let a = empty_acl; vis = (case visibility project of Some v \<Rightarrow> v | None \<Rightarrow> ''internal'');
          member_list = (case members of Some (mb # mbs) \<Rightarrow> mb # mbs | _ \<Rightarrow> project_members project);
          a = (if vis = ''private'' then fold (add_member) member_list (a\<lparr>da_level := ''restricted''\<rparr>)
               else if vis = ''internal'' then a\<lparr>da_level := ''internal''\<rparr>
               else a\<lparr>da_level := ''public''\<rparr>);
          a = a\<lparr>da_source := dict_set ''visibility'' vis (da_source a)\<rparr>
      in a\<lparr>da_groups := unique (da_groups a), da_users := unique (da_users a)\<rparr>)"

subsection \<open>Properties\<close>

lemma set_unique [simp]: "set (unique xs) = set xs"
  by (induction xs rule: unique.induct) auto

lemma distinct_unique [simp]: "distinct (unique xs)"
  by (induction xs rule: unique.induct) auto

lemma fold_level:
  "(\<And>x a. da_level (f x a) = da_level a) \<Longrightarrow> da_level (fold f xs a) = da_level a"
  by (induction xs arbitrary: a) simp_all

lemma add_subject_level [simp]: "da_level (add_subject s a) = da_level a"
  by (simp add: add_subject_def)

lemma add_member_level [simp]: "da_level (add_member mb a) = da_level a"
  by (simp add: add_member_def)

inductive extracted :: "document_acl \<Rightarrow> bool" where
  \<comment> \<open>the rights that the three extractors can produce\<close>
  confluence: "extracted (extract_confluence_acl page)"
| jira: "extracted (extract_jira_acl issue)"
| gitlab: "extracted (extract_gitlab_acl project members)"

lemma confluence_level:
  "da_level (extract_confluence_acl page) =
     (if restrictions page \<noteq> [] then ''restricted''
      else if list_ex (\<lambda>l. py_lower l \<in> {''confidential'', ''restricted'', ''internal''}) (labels page) then ''internal''
      else ''public'')"
proof -
  have "da_level (fold add_subject ss a) = da_level a" for ss a by (rule fold_level) simp
  then show ?thesis by (simp add: extract_confluence_acl_def Let_def empty_acl_def)
qed

lemma jira_level: "da_level (extract_jira_acl issue) = (if security issue = None then ''public'' else ''restricted'')"
  by (auto simp: extract_jira_acl_def Let_def empty_acl_def split: option.splits)

lemma gitlab_level:
  "da_level (extract_gitlab_acl project members) =
     (case visibility project of
        None \<Rightarrow> ''internal''
      | Some v \<Rightarrow> if v = ''private'' then ''restricted'' else if v = ''internal'' then ''internal'' else ''public'')"
proof -
  have "da_level (fold (add_member) ms a) = da_level a" for ms a by (rule fold_level) simp
  then show ?thesis by (auto simp: extract_gitlab_acl_def Let_def empty_acl_def split: option.splits)
qed

lemma extracted_level: "extracted a \<Longrightarrow> da_level a = ''public'' \<or> da_level a = ''internal'' \<or> da_level a = ''restricted''"
  by (induction rule: extracted.induct) (simp_all add: confluence_level jira_level gitlab_level split: option.splits)

abbreviation carries :: "chunk \<Rightarrow> document_acl \<Rightarrow> bool" where
  \<comment> \<open>a chunk that has the rights of its document\<close>
  "carries c a \<equiv> chunk_level c = da_level a \<and> chunk_groups c = da_groups a \<and> chunk_users c = da_users a"

text \<open>
  The groups and users that the extractors collect never decide anything in the filter of the retrieval: no source produces the
  level \<^verbatim>\<open>confidential\<close>, the only one whose groups are compared, and \<^verbatim>\<open>restricted\<close> is closed to everyone but
  administrators. A page restricted to a group or a user is thus invisible to that group and that user.
\<close>

theorem extracted_lists_never_decide:
  assumes "extracted a" and "carries c a" and "\<not> is_admin u"
  shows "chunk_visible u c \<longleftrightarrow>
    da_level a = ''public'' \<or> (da_level a = ''internal'' \<and> (\<exists>r \<in> set (roles u). r \<in> {''expert'', ''developer'', ''viewer''}))"
proof -
  have eq: "chunk_level c = da_level a" using assms(2) by blast
  from extracted_level [OF assms(1)] consider "da_level a = ''public''" | "da_level a = ''internal''" | "da_level a = ''restricted''"
    by blast
  then show ?thesis
    by cases (simp_all add: chunk_visible_iff eq allowed_non_admin [OF assms(3)])
qed

definition engineering_page :: confluence_page where
  "engineering_page = \<lparr>restrictions = [[\<lparr>subject_id = ''alice'', subject_type = ''user''\<rparr>]], space_key_field = ''ENG'',
     space_object_key = [], labels = []\<rparr>"

definition alice :: user_context where
  "alice = \<lparr>user_id = ''1'', username = ''alice'', roles = [''developer''], groups = [''engineering''],
     access_level = ''confidential'', namespace = []\<rparr>"

definition chunk_of_acl :: "document_acl \<Rightarrow> chunk" where
  "chunk_of_acl a = \<lparr>chunk_ref = [], chunk_top = \<lparr>acl_level = None, acl_groups = None, acl_users = None\<rparr>,
     chunk_payload = \<lparr>acl_level = Some (da_level a), acl_groups = Some (da_groups a), acl_users = Some (da_users a)\<rparr>\<rparr>"

lemma carries_chunk_of_acl: "carries (chunk_of_acl a) a"
  by (simp add: chunk_of_acl_def first_of_def)

theorem extracted_lists_never_decide_witness:
  "''alice'' \<in> set (da_users (extract_confluence_acl engineering_page)) \<and>
   \<not> chunk_visible alice (chunk_of_acl (extract_confluence_acl engineering_page))"
proof
  have e: "extract_confluence_acl engineering_page =
      \<lparr>da_level = ''restricted'', da_groups = [''engineering''], da_users = [''alice''], da_source = [(''space_key'', ''ENG'')]\<rparr>"
    by code_simp
  show "''alice'' \<in> set (da_users (extract_confluence_acl engineering_page))" by (simp add: e)
  have "\<not> is_admin alice" by (simp add: is_admin_def alice_def)
  from extracted_lists_never_decide [OF extracted.confluence carries_chunk_of_acl this, of engineering_page]
  show "\<not> chunk_visible alice (chunk_of_acl (extract_confluence_acl engineering_page))"
    by (simp add: e)
qed

lemma fold_subjects:
  "da_groups (fold add_subject ss a) = da_groups a @ map subject_id (filter (\<lambda>s. subject_type s = ''group'') ss) \<and>
   da_users (fold add_subject ss a) = da_users a @ map subject_id (filter (\<lambda>s. subject_type s = ''user'') ss)"
  by (induction ss arbitrary: a) (simp_all add: add_subject_def)

lemma unique_append_old: "set ys \<subseteq> set xs \<Longrightarrow> unique (xs @ ys) = unique xs"
proof (induction xs arbitrary: ys rule: unique.induct)
  case (1 ys)
  then show ?case by simp
next
  case (2 x xs)
  have "set (filter (\<lambda>y. y \<noteq> x) ys) \<subseteq> set (filter (\<lambda>y. y \<noteq> x) xs)" using "2.prems" by auto
  then show ?case using "2.IH" by simp
qed

text \<open>
  The rights of a Confluence page exactly: the level, the groups of the restrictions in their order followed by the department
  of the space, the users of the restrictions, all without repetition.
\<close>

theorem confluence_acl_exact:
  "let subjects = concat (restrictions page);
       key = (if space_key_field page \<noteq> [] then space_key_field page else space_object_key page);
       department = map_department_from_space key
   in da_level (extract_confluence_acl page) =
        (if restrictions page \<noteq> [] then ''restricted''
         else if list_ex (\<lambda>l. py_lower l \<in> {''confidential'', ''restricted'', ''internal''}) (labels page) then ''internal''
         else ''public'') \<and>
      da_groups (extract_confluence_acl page) =
        unique (map subject_id (filter (\<lambda>s. subject_type s = ''group'') subjects) @
                (if department = ''general'' then [] else [department])) \<and>
      da_users (extract_confluence_acl page) = unique (map subject_id (filter (\<lambda>s. subject_type s = ''user'') subjects))"
proof -
  define key where "key = (if space_key_field page \<noteq> [] then space_key_field page else space_object_key page)"
  define d where "d = map_department_from_space key"
  define gs where "gs = map subject_id (filter (\<lambda>s. subject_type s = ''group'') (concat (restrictions page)))"
  define us where "us = map subject_id (filter (\<lambda>s. subject_type s = ''user'') (concat (restrictions page)))"
  have general: "key = [] \<Longrightarrow> d = ''general''" by (simp add: d_def map_department_from_space_def)
  have "d \<noteq> []"
    unfolding d_def map_department_from_space_def dict_getd_def DEFAULT_DEPARTMENT_MAP_def
    by (auto split: option.split dest!: map_of_SomeD)
  then have "da_groups (extract_confluence_acl page) = unique (gs @ (if d = ''general'' \<or> d \<in> set gs then [] else [d]))"
      "da_users (extract_confluence_acl page) = unique us"
    using fold_subjects [of "concat (restrictions page)" "empty_acl\<lparr>da_level := ''restricted''\<rparr>"] general
    unfolding extract_confluence_acl_def Let_def key_def [symmetric] d_def [symmetric]
    by (auto simp: gs_def us_def empty_acl_def split del: if_split split: if_split)
  moreover have "unique (gs @ (if d = ''general'' \<or> d \<in> set gs then [] else [d])) = unique (gs @ (if d = ''general'' then [] else [d]))"
    using unique_append_old [of "[d]" gs] by auto
  ultimately show ?thesis
    unfolding Let_def key_def [symmetric] d_def [symmetric] gs_def [symmetric] us_def [symmetric] confluence_level by simp
qed

text \<open>
  The department of the space is added to the groups even of a page that is restricted to named users: under the rule of the
  domain layer the whole department can read it.
\<close>

theorem department_reads_restricted_page:
  assumes "map_department_from_space (if space_key_field page \<noteq> [] then space_key_field page else space_object_key page) = d"
    and "d \<noteq> ''general''" and "d \<in> set (du_groups u)"
  shows "can_access u (da_level (extract_confluence_acl page)) (da_groups (extract_confluence_acl page))
    (da_users (extract_confluence_acl page))"
proof -
  have "d \<in> set (da_groups (extract_confluence_acl page))"
    using confluence_acl_exact [of page] assms(1,2) by (simp add: Let_def)
  then show ?thesis using assms(3) by (auto simp: can_access_def list_ex_iff)
qed

theorem department_reads_restricted_page_witness:
  "can_access \<lparr>du_id = ''2'', du_username = ''bob'', du_roles = [], du_groups = [''engineering'']\<rparr>
     (da_level (extract_confluence_acl engineering_page)) (da_groups (extract_confluence_acl engineering_page))
     (da_users (extract_confluence_acl engineering_page))"
proof (rule department_reads_restricted_page)
  show "map_department_from_space (if space_key_field engineering_page \<noteq> [] then space_key_field engineering_page
      else space_object_key engineering_page) = ''engineering''"
    by code_simp
qed simp_all

end
