(* ===== verification/Patterns.thy ===== *)
theory Patterns
  imports Prelude
begin

text \<open>
  Regular expressions as the sources use them with \<^verbatim>\<open>re\<close>: a backtracking matcher that lists what can be left after a
  match, in the order in which Python tries the alternatives. A position is the character before it, none at the start of
  the text, and the text that is left. Texts are over the first 256 code points; alternatives of a source pattern that
  only match other characters are left out where it is translated.
\<close>

datatype pattern =
    Pempty
  | Pchar "char \<Rightarrow> bool"
  | Pseq pattern pattern
  | Palt pattern pattern
  | Pmany "char \<Rightarrow> bool"
  | Pstart
  | Pend

type_synonym position = "char option \<times> string"

fun many :: "(char \<Rightarrow> bool) \<Rightarrow> position \<Rightarrow> position list" where
  \<comment> \<open>a greedy star over a class of characters, the longest match first\<close>
  "many f (p, []) = [(p, [])]"
| "many f (p, c # cs) = (if f c then many f (Some c, cs) @ [(p, c # cs)] else [(p, c # cs)])"

fun rests :: "pattern \<Rightarrow> position \<Rightarrow> position list" where
  "rests Pempty x = [x]"
| "rests (Pchar f) (p, s) = (case s of [] \<Rightarrow> [] | c # cs \<Rightarrow> if f c then [(Some c, cs)] else [])"
| "rests (Pseq a b) x = concat (map (rests b) (rests a x))"
| "rests (Palt a b) x = rests a x @ rests b x"
| "rests (Pmany f) x = many f x"
| "rests Pstart (p, s) = (if p = None then [(p, s)] else [])"
| "rests Pend (p, s) = (if s = [] \<or> s = [CHR 0x0A] then [(p, s)] else [])"

fun search_from :: "pattern \<Rightarrow> char option \<Rightarrow> string \<Rightarrow> bool" where
  "search_from r p [] = (rests r (p, []) \<noteq> [])"
| "search_from r p (c # cs) = (rests r (p, c # cs) \<noteq> [] \<or> search_from r (Some c) cs)"

definition pattern_search :: "pattern \<Rightarrow> string \<Rightarrow> bool" where
  "pattern_search r s = search_from r None s"

definition pattern_match :: "pattern \<Rightarrow> string \<Rightarrow> bool" where
  "pattern_match r s \<longleftrightarrow> rests r (None, s) \<noteq> []"

definition same_letter :: "char \<Rightarrow> char \<Rightarrow> bool" where
  "same_letter c d \<longleftrightarrow> py_lower [c] = py_lower [d]"

fun word :: "string \<Rightarrow> pattern" where
  \<comment> \<open>the characters of the text, upper or lower case\<close>
  "word [] = Pempty"
| "word [c] = Pchar (same_letter c)"
| "word (c # cs) = Pseq (Pchar (same_letter c)) (word cs)"

fun any_of :: "string list \<Rightarrow> pattern" where
  "any_of [] = Pchar (\<lambda>c. False)"
| "any_of [w] = word w"
| "any_of (w # ws) = Palt (word w) (any_of ws)"

fun in_order :: "pattern list \<Rightarrow> pattern" where
  "in_order [] = Pempty"
| "in_order [r] = r"
| "in_order (r # rs) = Pseq r (in_order rs)"

abbreviation spaces :: pattern where
  "spaces \<equiv> Pmany py_space"

abbreviation spaces1 :: pattern where
  "spaces1 \<equiv> Pseq (Pchar py_space) (Pmany py_space)"

abbreviation optional :: "pattern \<Rightarrow> pattern" where
  "optional r \<equiv> Palt r Pempty"

definition digit :: "char \<Rightarrow> bool" where
  "digit c \<longleftrightarrow> (let n = of_char c :: nat in 48 \<le> n \<and> n \<le> 57)"

lemma many_suffix: "y \<in> set (many f x) \<Longrightarrow> \<exists>u. snd x = u @ snd y"
proof (induction f x rule: many.induct)
  case (2 f p c cs)
  then show ?case
  proof (cases "y \<in> set (many f (Some c, cs)) \<and> f c")
    case True
    then obtain u where "cs = u @ snd y" using 2(1) by auto
    then have "snd (p, c # cs) = (c # u) @ snd y" by simp
    then show ?thesis by blast
  next
    case False
    then have "y = (p, c # cs)" using 2(2) by (simp split: if_splits)
    then show ?thesis by simp
  qed
qed simp

lemma rests_suffix: "y \<in> set (rests r x) \<Longrightarrow> \<exists>u. snd x = u @ snd y"
proof (induction r x arbitrary: y rule: rests.induct)
  case (2 f p s)
  then show ?case by (cases s) (auto split: if_splits)
next
  case (3 a b x)
  then obtain z where z: "z \<in> set (rests a x)" "y \<in> set (rests b z)" by auto
  obtain u v where "snd x = u @ snd z" "snd z = v @ snd y" using 3 z by blast
  then have "snd x = (u @ v) @ snd y" by simp
  then show ?case by blast
next
  case (4 a b x)
  then have "y \<in> set (rests a x) \<or> y \<in> set (rests b x)" by simp
  then show ?case using "4.IH"(1) [of y] "4.IH"(2) [of y] by blast
next
  case (5 f x)
  then show ?case using many_suffix by simp
qed (auto split: if_splits)

lemma pattern_search_start: "pattern_match r s \<Longrightarrow> pattern_search r s"
  by (cases s) (simp_all add: pattern_match_def pattern_search_def)

end
