(* ===== verification/Quality_Filter.thy ===== *)
theory Quality_Filter
  imports Patterns Version_Store Embedding_Cache
begin

text \<open>
  The chunk quality filter, \<^verbatim>\<open>etl/indexer/chunk_quality.py\<close>: detection of boilerplate by patterns, scoring of the chunks by
  a remote reranker, and the cut at a threshold. The answer of the reranker is a parameter. Texts are over the first 256
  code points, so that the Cyrillic alternatives of the patterns and the dashes beyond it never match. Log output and the
  statistics are left out, as are the notes written into the dictionaries of dropped chunks.
\<close>

subsection \<open>Boilerplate\<close>

definition COPYRIGHT_SIGN :: char where
  "COPYRIGHT_SIGN = CHR 0xA9"

definition BOILERPLATE_PATTERNS :: "pattern list" where
  "BOILERPLATE_PATTERNS =
     [in_order [word ''last'', spaces, word ''modified''],
      word ''all rights reserved'',
      in_order [word ''copyright'', spaces, Pchar (\<lambda>c. c = COPYRIGHT_SIGN)],
      word ''powered by'',
      Pseq (word ''terms of '') (any_of [''use'', ''service'']),
      word ''privacy policy'',
      in_order [word ''cookie'', spaces1, any_of [''notice'', ''policy'']],
      in_order [Pstart, word ''home'', spaces, Pchar (\<lambda>c. c \<in> {CHR ''>'', CHR 0xBB, CHR ''/''}), spaces],
      Pseq (word ''breadcrumb'') (optional (word ''s'')),
      in_order [Pstart, any_of [''previous'', ''next'', ''prev''], spaces, optional (word ''page'')],
      word ''footer'',
      in_order [Pstart, spaces, Palt (Pchar (\<lambda>c. c = COPYRIGHT_SIGN)) (word ''(c)''), spaces,
                Pchar digit, Pchar digit, Pchar digit, Pchar digit],
      any_of [''subscribe'', ''unsubscribe''],
      word ''follow us'',
      any_of [''facebook'', ''twitter'', ''instagram'', ''linkedin'', ''telegram'', ''vkontakte''],
      in_order [Pstart, Palt (Pseq (word ''comment'') (optional (word ''s''))) (Pseq (word ''discussion'') (optional (word ''s''))),
                spaces, Pmany (\<lambda>c. c = CHR '':'' \<or> c = CHR '';''), spaces, Pend],
      in_order [Pstart, word ''leave a'', spaces1, any_of [''comment'', ''reply'']]]"

definition MINIMAL_CONTENT_PATTERNS :: "pattern list" where
  "MINIMAL_CONTENT_PATTERNS =
     (let dash = Pchar (\<lambda>c. c = CHR ''-'') in
      [in_order [Pstart, spaces, Pend],
       in_order [Pstart, spaces, dash, dash, dash, Pmany (\<lambda>c. c = CHR ''-''), spaces, Pend],
       in_order [Pstart, spaces, Pchar (\<lambda>c. c = CHR ''*'' \<or> c = CHR 0xB7), spaces, Pend]])"

definition MIN_CONTENT_CHARS :: nat where
  "MIN_CONTENT_CHARS = 20"

definition MIN_CONTENT_WORDS :: nat where
  "MIN_CONTENT_WORDS = 3"

definition detect_boilerplate :: "string \<Rightarrow> bool" where
  \<comment> \<open>without the reason that is returned beside the decision\<close>
  "detect_boilerplate chunk_text =
     (let text = strip chunk_text in
      list_ex (\<lambda>r. pattern_match r text) MINIMAL_CONTENT_PATTERNS \<or> length text < MIN_CONTENT_CHARS \<or>
      length (py_split text) < MIN_CONTENT_WORDS \<or> list_ex (\<lambda>r. pattern_search r text) BOILERPLATE_PATTERNS)"

subsection \<open>Scores\<close>

datatype rerank_reply =
  \<comment> \<open>an error status or a failed call; else index and score of each result, with the defaults of missing fields\<close>
    Rerank_failed
  | Rerank_results "(int \<times> real) list"

type_synonym reranker = "string \<Rightarrow> string list \<Rightarrow> rerank_reply"

record quality_filter =
  qf_threshold :: real
  qf_detect_boilerplate :: bool
  qf_max_chunks :: int
  qf_healthy :: bool

fun place_scores :: "(int \<times> real) list \<Rightarrow> real list \<Rightarrow> exn + real list" where
  \<comment> \<open>\<^verbatim>\<open>scores[idx] = ...\<close>, where a negative index counts from the end\<close>
  "place_scores [] scores = Inr scores"
| "place_scores ((idx, s) # rs) scores =
     (if idx \<ge> int (length scores) then place_scores rs scores
      else if idx \<ge> 0 then place_scores rs (scores[nat idx := s])
      else if idx \<ge> - int (length scores) then place_scores rs (scores[nat (int (length scores) + idx) := s])
      else Inl (PyException ''IndexError'' ''list assignment index out of range''))"

definition score_chunks :: "reranker \<Rightarrow> string \<Rightarrow> string list \<Rightarrow> quality_filter \<Rightarrow> (exn + real list) \<times> quality_filter" where
  "score_chunks post query texts F =
     (if texts = [] \<or> query = [] then (Inr (replicate (length texts) (1/2)), F)
      else
        (case post query texts of
           Rerank_failed \<Rightarrow> (Inr (replicate (length texts) (1/2)), F\<lparr>qf_healthy := False\<rparr>)
         | Rerank_results rs \<Rightarrow> (place_scores rs (replicate (length texts) 0), F)))"

subsection \<open>The filter\<close>

definition str_value :: "json \<Rightarrow> string" where
  \<comment> \<open>a text field; other contents do not occur\<close>
  "str_value v = (case v of JStr s \<Rightarrow> s | _ \<Rightarrow> [])"

definition chunk_heading :: "vchunk \<Rightarrow> string" where
  "chunk_heading c =
     (let heading = str_value (dict_getd (vfields c) ''heading'' (JStr []))
      in if heading \<noteq> [] then heading else str_value (dict_getd (vfields c) ''section'' (JStr [])))"

fun heading_scores :: "reranker \<Rightarrow> vchunk list \<Rightarrow> quality_filter \<Rightarrow> (exn + real list) \<times> quality_filter" where
  "heading_scores post [] F = (Inr [], F)"
| "heading_scores post (c # cs) F =
     (let (r, F) = (if chunk_heading c \<noteq> []
                    then score_chunks post (chunk_heading c) [str_value (vtext c)] F else (Inr [0], F))
      in case r of
           Inl e \<Rightarrow> (Inl e, F)
         | Inr scores \<Rightarrow>
             (case heading_scores post cs F of
                (Inl e, F) \<Rightarrow> (Inl e, F)
              | (Inr hs, F) \<Rightarrow> (Inr ((if scores \<noteq> [] then hd scores else 0) # hs), F)))"

definition combined_score :: "real \<Rightarrow> real \<Rightarrow> real" where
  "combined_score title_score heading_score = 6/10 * title_score + 4/10 * heading_score"

definition note_scores :: "real \<Rightarrow> real \<Rightarrow> vchunk \<Rightarrow> vchunk" where
  "note_scores t h c =
     c\<lparr>vfields := dict_set ''_quality_combined'' (JFloat (round_to 4 (combined_score t h)))
         (dict_set ''_quality_heading_score'' (JFloat (round_to 4 h))
           (dict_set ''_quality_title_score'' (JFloat (round_to 4 t)) (vfields c)))\<rparr>"

definition quality_filter_chunks ::
  "reranker \<Rightarrow> string \<Rightarrow> vchunk list \<Rightarrow> quality_filter \<Rightarrow> (exn + vchunk list) \<times> quality_filter" where
  "quality_filter_chunks post doc_title chunks F =
     (let chunks = (if int (length chunks) > qf_max_chunks F then slice_to (qf_max_chunks F) chunks else chunks);
          kept = filter (\<lambda>c. \<not> (qf_detect_boilerplate F \<and> detect_boilerplate (str_value (dict_getd (vfields c) ''text'' (JStr [])))))
                   chunks
      in if kept = [] then (Inr [], F)
         else
           (case score_chunks post doc_title (map (\<lambda>c. str_value (vtext c)) kept) F of
              (Inl e, F) \<Rightarrow> (Inl e, F)
            | (Inr title_scores, F) \<Rightarrow>
                (case heading_scores post kept F of
                   (Inl e, F) \<Rightarrow> (Inl e, F)
                 | (Inr hs, F) \<Rightarrow>
                     (Inr (map (\<lambda>(c, t, h). note_scores t h c)
                             (filter (\<lambda>(c, t, h). combined_score t h \<ge> qf_threshold F)
                                (zip kept (zip title_scores hs)))), F))))"

subsection \<open>Chunks without headings\<close>

definition examined :: "quality_filter \<Rightarrow> vchunk list \<Rightarrow> vchunk list" where
  \<comment> \<open>the chunks that come to be scored\<close>
  "examined F chunks =
     filter (\<lambda>c. \<not> (qf_detect_boilerplate F \<and> detect_boilerplate (str_value (dict_getd (vfields c) ''text'' (JStr [])))))
       (if int (length chunks) > qf_max_chunks F then slice_to (qf_max_chunks F) chunks else chunks)"

lemma heading_scores_none:
  "\<forall>c \<in> set cs. chunk_heading c = [] \<Longrightarrow> heading_scores post cs F = (Inr (replicate (length cs) 0), F)"
  by (induction cs) simp_all

lemma examined_subset: "set (examined F cs) \<subseteq> set cs"
  by (auto simp: examined_def slice_to_def dest: in_set_takeD split: if_splits)

lemma quality_without_headings:
  assumes "\<forall>c \<in> set cs. chunk_heading c = []" and "examined F cs \<noteq> []"
    and "score_chunks post doc_title (map (\<lambda>c. str_value (vtext c)) (examined F cs)) F = (Inr ts, F')"
  shows "fst (quality_filter_chunks post doc_title cs F) =
    Inr (map (\<lambda>(c, t). note_scores t 0 c)
          (filter (\<lambda>(c, t). combined_score t 0 \<ge> qf_threshold F') (zip (examined F cs) ts)))"
proof -
  let ?k = "examined F cs"
  have h: "heading_scores post ?k F' = (Inr (replicate (length ?k) 0), F')"
    using assms(1) examined_subset [of F cs] by (intro heading_scores_none) blast
  have z: "zip ks (zip ts (replicate (length ks) 0)) = map (\<lambda>(c, t). (c, t, 0)) (zip ks ts)" for ks :: "vchunk list" and ts :: "real list"
    by (induction ks ts rule: list_induct2') simp_all
  show ?thesis
    unfolding quality_filter_chunks_def Let_def examined_def [symmetric] using assms(2)
    by (simp add: assms(3) h z filter_map comp_def case_prod_unfold)
qed

end
