(* ===== verification/Ingestion.thy ===== *)
theory Ingestion
  imports Chunker Live_Lake Quality_Filter Access_Control
begin

text \<open>
  The two ingestion pipelines, \<^verbatim>\<open>etl/scheduler/run_etl.py\<close> (collection of the extracted files, chunking, enrichment,
  indexing, stripping of the stored texts) and \<^verbatim>\<open>etl/scheduler/streaming_pipeline.py\<close>, over \<open>Chunker\<close>, \<open>Quality_Filter\<close> and
  \<open>Live_Lake\<close>. The files of an extractor are records of the fields that are read, \<open>None\<close> where one may be null; the other
  fields are kept as they are. HTML parsing, the enrichment service and the embedder are parameters. A request to shut
  down is a predicate on the number of the round at which it is seen. Writing of files and log output are left out.
\<close>

subsection \<open>Extracted files\<close>

record page_export =
  pg_id :: string
  pg_title :: string
  pg_view :: string
  pg_storage :: string
  pg_version :: string
  pg_fields :: json_obj

record issue_export =
  is_key :: string
  is_summary :: string
  is_description :: "string option"
  is_comments :: "(string option \<times> string) list"
  is_fields :: json_obj

record project_export =
  pr_id :: json
  pr_namespace :: string
  pr_visibility :: string

record commit_export =
  cm_id :: string
  cm_title :: "string option"
  cm_message :: string
  cm_diffs :: "(string \<times> string) list"
  cm_author :: string
  cm_created :: string

record mr_export =
  mr_iid :: string
  mr_title :: "string option"
  mr_description :: "string option"
  mr_discussions :: "(string \<times> string) option list option list"
  \<comment> \<open>the notes, author and body, of each discussion\<close>
  mr_state :: string
  mr_author :: string

record raw_dir =
  \<comment> \<open>a directory of one page, issue or project, with the files that exist in it\<close>
  rd_name :: string
  rd_page :: "page_export option"
  rd_issue :: "issue_export option"
  rd_project :: "project_export option"
  rd_commits :: "commit_export list option"
  rd_mrs :: "mr_export list option"
  rd_files :: "(string \<times> string) list option"

type_synonym source_dir = "raw_dir list option"
  \<comment> \<open>\<open>None\<close>: the directory does not exist\<close>

record etl_doc =
  doc_id :: string
  doc_source :: string
  doc_name :: string
  doc_content :: "string option"
  doc_ctype :: string
  doc_metadata :: json_obj

abbreviation TypeError :: "string \<Rightarrow> exn" where
  "TypeError \<equiv> PyException ''TypeError''"

definition copied :: "string list \<Rightarrow> string list \<Rightarrow> json_obj \<Rightarrow> json_obj" where
  \<comment> \<open>\<^verbatim>\<open>{k: data.get(k, ...)}\<close> with an empty text as the default, or an empty list for the keys in the second list\<close>
  "copied ks list_keys d = map (\<lambda>k. (k, dict_getd d k (if k \<in> set list_keys then JList [] else JStr []))) ks"

definition page_document :: "raw_dir \<Rightarrow> page_export \<Rightarrow> etl_doc" where
  "page_document dir page =
     \<lparr>doc_id = ''confluence_'' @ pg_id page, doc_source = ''confluence'', doc_name = pg_title page,
      doc_content = Some (if pg_view page \<noteq> [] then pg_view page else pg_storage page), doc_ctype = ''html'',
      doc_metadata =
        (''version'', JStr (pg_version page)) #
        copied [''space'', ''space_key''] [] (pg_fields page) @ [(''page_id'', JStr (pg_id page))] @
        copied [''author'', ''contributors'', ''labels''] [''contributors'', ''labels''] (pg_fields page) @
        [(''restrictions'', dict_getd (pg_fields page) ''restrictions'' (JObj []))] @
        copied [''created_at'', ''updated_at''] [] (pg_fields page) @ [(''url'', JStr (rd_name dir))]\<rparr>"

definition comment_text :: "string option \<times> string \<Rightarrow> string" where
  "comment_text c =
     blank_line @ ''Comment by '' @ (case fst c of None \<Rightarrow> ''Unknown'' | Some a \<Rightarrow> if a \<noteq> [] then a else ''Unknown'') @ '': '' @ snd c"

definition issue_document :: "issue_export \<Rightarrow> string option \<Rightarrow> etl_doc" where
  "issue_document issue content =
     \<lparr>doc_id = ''jira_'' @ is_key issue, doc_source = ''jira'', doc_name = is_summary issue, doc_content = content,
      doc_ctype = ''html'',
      doc_metadata =
        (''key'', JStr (is_key issue)) #
        copied [''status'', ''priority'', ''assignee'', ''reporter'', ''project_key'', ''issue_type'', ''labels'', ''components'',
                ''created'', ''updated''] [''labels'', ''components''] (is_fields issue)\<rparr>"

definition project_metadata :: "raw_dir \<Rightarrow> json_obj" where
  "project_metadata dir =
     (case rd_project dir of
        None \<Rightarrow> [(''project_id'', JStr (rd_name dir)), (''namespace'', JStr []), (''visibility'', JStr [])]
      | Some p \<Rightarrow> [(''project_id'', pr_id p), (''namespace'', JStr (pr_namespace p)), (''visibility'', JStr (pr_visibility p))])"

definition commit_document :: "raw_dir \<Rightarrow> commit_export \<Rightarrow> etl_doc" where
  "commit_document dir c =
     \<lparr>doc_id = ''gitlab_commit_'' @ cm_id c, doc_source = ''gitlab_commit'',
      doc_name = (case cm_title c of Some t \<Rightarrow> t | None \<Rightarrow> take 8 (cm_id c)),
      doc_content = Some (cm_message c @ concat (map (\<lambda>(path, diff). [newline_char] @ path @ '': '' @ take 200 diff) (take 5 (cm_diffs c)))),
      doc_ctype = ''markdown'',
      doc_metadata = [(''sha'', JStr (cm_id c)), (''author'', JStr (cm_author c)), (''date'', JStr (cm_created c))] @ project_metadata dir\<rparr>"

definition mr_document :: "raw_dir \<Rightarrow> mr_export \<Rightarrow> string \<Rightarrow> string \<Rightarrow> etl_doc" where
  "mr_document dir mr title content =
     \<lparr>doc_id = ''gitlab_mr_'' @ mr_iid mr, doc_source = ''gitlab_merge_request'', doc_name = title, doc_content = Some content,
      doc_ctype = ''markdown'',
      doc_metadata = [(''iid'', JStr (mr_iid mr)), (''state'', JStr (mr_state mr)), (''author'', JStr (mr_author mr))] @ project_metadata dir\<rparr>"

definition file_document :: "raw_dir \<Rightarrow> string \<times> string \<Rightarrow> etl_doc" where
  "file_document dir f =
     \<lparr>doc_id = ''gitlab_file_'' @ fst f, doc_source = ''gitlab_code'', doc_name = fst f, doc_content = Some (snd f),
      doc_ctype = ''plaintext'', doc_metadata = (''path'', JStr (fst f)) # project_metadata dir\<rparr>"

subsection \<open>Collection by the batch pipeline\<close>

fun collect_each :: "('a \<Rightarrow> exn + 'b list) \<Rightarrow> 'a list \<Rightarrow> exn + 'b list" where
  "collect_each f [] = Inr []"
| "collect_each f (x # xs) =
     (case f x of
        Inl e \<Rightarrow> Inl e
      | Inr ys \<Rightarrow> (case collect_each f xs of Inl e \<Rightarrow> Inl e | Inr zs \<Rightarrow> Inr (ys @ zs)))"

fun add_comments :: "string option \<Rightarrow> (string option \<times> string) list \<Rightarrow> exn + string option" where
  "add_comments content [] = Inr content"
| "add_comments content (c # cs) =
     (if snd c = [] then add_comments content cs
      else case content of
             None \<Rightarrow> Inl (TypeError ''unsupported operand'')
           | Some s \<Rightarrow> add_comments (Some (s @ comment_text c)) cs)"

definition note_text :: "string \<times> string \<Rightarrow> string" where
  "note_text n = [newline_char] @ fst n @ '': '' @ snd n"

definition discussion_text :: "(string \<times> string) option list option \<Rightarrow> exn + string list" where
  "discussion_text d =
     (case d of
        None \<Rightarrow> Inl (PyException ''AttributeError'' ''get'')
      | Some notes \<Rightarrow>
          collect_each (\<lambda>n. case n of None \<Rightarrow> Inl (TypeError ''not subscriptable'') | Some n \<Rightarrow> Inr [note_text n]) notes)"

definition collect_page :: "raw_dir \<Rightarrow> exn + etl_doc list" where
  "collect_page dir = (case rd_page dir of None \<Rightarrow> Inr [] | Some page \<Rightarrow> Inr [page_document dir page])"

definition collect_issue :: "raw_dir \<Rightarrow> exn + etl_doc list" where
  "collect_issue dir =
     (case rd_issue dir of
        None \<Rightarrow> Inr []
      | Some issue \<Rightarrow> map_sum id (\<lambda>content. [issue_document issue content]) (add_comments (is_description issue) (is_comments issue)))"

definition collect_mr :: "raw_dir \<Rightarrow> mr_export \<Rightarrow> exn + etl_doc list" where
  "collect_mr dir mr =
     (case (mr_title mr, mr_description mr) of
        (Some title, Some description) \<Rightarrow>
          map_sum id (\<lambda>notes. [mr_document dir mr title (title @ [newline_char] @ description @ concat notes)])
            (collect_each discussion_text (mr_discussions mr))
      | _ \<Rightarrow> Inl (TypeError ''unsupported operand''))"

definition collect_project :: "raw_dir \<Rightarrow> exn + etl_doc list" where
  "collect_project dir =
     (case collect_each (collect_mr dir) (case rd_mrs dir of None \<Rightarrow> [] | Some mrs \<Rightarrow> mrs) of
        Inl e \<Rightarrow> Inl e
      | Inr mrs \<Rightarrow>
          Inr (map (commit_document dir) (take 100 (case rd_commits dir of None \<Rightarrow> [] | Some cs \<Rightarrow> cs)) @ mrs @
               map (file_document dir) (case rd_files dir of None \<Rightarrow> [] | Some fs \<Rightarrow> fs)))"

definition source_names :: "string list" where
  "source_names = [''confluence'', ''jira'', ''gitlab'']"

definition collect_source :: "source_dir \<times> string \<Rightarrow> exn + etl_doc list" where
  "collect_source src =
     (case fst src of
        None \<Rightarrow> Inr []
      | Some dirs \<Rightarrow>
          if snd src = ''confluence'' then collect_each collect_page dirs
          else if snd src = ''jira'' then collect_each collect_issue dirs
          else if snd src = ''gitlab'' then collect_each collect_project dirs
          else Inr [])"

definition collect_all_documents :: "source_dir list \<Rightarrow> exn + etl_doc list" where
  "collect_all_documents extract_dirs = collect_each collect_source (zip extract_dirs source_names)"

definition extract_dirs_of :: "(string, 'd) dict \<Rightarrow> (string \<times> exn option \<times> 'd option) list \<Rightarrow> 'd list" where
  \<comment> \<open>the loop of \<^verbatim>\<open>main\<close> over the extractors, in the order in which they finish, without a request to shut down\<close>
  "extract_dirs_of default_dirs results =
     List.map_filter (\<lambda>(name, err, output_dir). if err \<noteq> None then dict_get default_dirs name else output_dir) results"

subsection \<open>Collection by the streaming pipeline\<close>

definition extract_confluence_docs :: "raw_dir list \<Rightarrow> etl_doc list" where
  "extract_confluence_docs dirs =
     List.map_filter (\<lambda>dir. map_option (page_document dir) (rd_page dir)) dirs"

definition streamed_comments :: "string option \<Rightarrow> (string option \<times> string) list \<Rightarrow> string option" where
  "streamed_comments content cs =
     foldl (\<lambda>content c. if snd c = [] then content
                        else (case content of
                                Some s \<Rightarrow> Some (if s \<noteq> [] then s @ comment_text c else comment_text c)
                              | None \<Rightarrow> Some (comment_text c))) content cs"

definition extract_jira_docs :: "raw_dir list \<Rightarrow> etl_doc list" where
  "extract_jira_docs dirs =
     List.map_filter (\<lambda>dir. map_option
         (\<lambda>issue. issue_document issue (streamed_comments (is_description issue) (is_comments issue))) (rd_issue dir)) dirs"

definition streamed_mr :: "raw_dir \<Rightarrow> mr_export \<Rightarrow> etl_doc" where
  "streamed_mr dir mr =
     (let title = (case mr_title mr of Some t \<Rightarrow> t | None \<Rightarrow> []);
          description = (case mr_description mr of Some d \<Rightarrow> d | None \<Rightarrow> []);
          notes = concat (map (\<lambda>d. case d of None \<Rightarrow> [] | Some ns \<Rightarrow> List.map_filter id ns) (mr_discussions mr));
          content = foldl (\<lambda>content n. if content \<noteq> [] then content @ note_text n else note_text n)
                      (title @ [newline_char] @ description) notes
      in mr_document dir mr title content)"

definition extract_gitlab_docs :: "raw_dir list \<Rightarrow> etl_doc list" where
  "extract_gitlab_docs dirs =
     concat (map (\<lambda>dir.
         map (commit_document dir) (take 100 (case rd_commits dir of None \<Rightarrow> [] | Some cs \<Rightarrow> cs)) @
         map (streamed_mr dir) (case rd_mrs dir of None \<Rightarrow> [] | Some mrs \<Rightarrow> mrs) @
         map (file_document dir) (case rd_files dir of None \<Rightarrow> [] | Some fs \<Rightarrow> fs)) dirs)"

definition extract_documents_generator :: "(string \<Rightarrow> source_dir) \<Rightarrow> etl_doc list" where
  "extract_documents_generator default_dirs =
     concat (map (\<lambda>name.
         case default_dirs name of
           None \<Rightarrow> []
         | Some dirs \<Rightarrow>
             if name = ''confluence'' then extract_confluence_docs dirs
             else if name = ''jira'' then extract_jira_docs dirs
             else if name = ''gitlab'' then extract_gitlab_docs dirs
             else []) source_names)"

subsection \<open>Both pipelines collect the same documents\<close>

lemma collect_each_concat:
  assumes "\<And>x z. x \<in> set xs \<Longrightarrow> f x = Inr z \<Longrightarrow> z = g x" and "collect_each f xs = Inr ys"
  shows "ys = concat (map g xs)"
  using assms
proof (induction xs arbitrary: ys)
  case (Cons x xs)
  obtain z zs where z: "f x = Inr z" "collect_each f xs = Inr zs" "ys = z @ zs"
    using Cons.prems(2) by (auto split: sum.splits)
  have "z = g x" by (rule Cons.prems(1)) (use z in simp_all)
  moreover have "zs = concat (map g xs)"
    by (rule Cons.IH [OF _ z(2)]) (use Cons.prems(1) in simp)
  ultimately show ?case using z(3) by simp
qed simp

lemma collect_each_nothing: "\<forall>x \<in> set xs. f x = Inr [] \<Longrightarrow> collect_each f xs = Inr []"
  by (induction xs) simp_all

lemma concat_map_optional: "concat (map (\<lambda>x. case h x of None \<Rightarrow> [] | Some y \<Rightarrow> [f x y]) xs) = List.map_filter (\<lambda>x. map_option (f x) (h x)) xs"
  by (induction xs) (simp_all split: option.splits)

lemma map_filter_options: "List.map_filter (map_option f) xs = map f (List.map_filter id xs)"
  by (induction xs) (simp_all split: option.splits)

lemma add_comments_streamed: "add_comments content cs = Inr r \<Longrightarrow> streamed_comments content cs = r"
proof (induction content cs rule: add_comments.induct)
  case (2 content c cs)
  show ?case
  proof (cases "snd c = []")
    case True
    with 2 show ?thesis by (simp add: streamed_comments_def)
  next
    case False
    then obtain t where t: "content = Some t" using "2.prems" by (cases content) simp_all
    have "add_comments (Some (t @ comment_text c)) cs = Inr r" using "2.prems" False t by simp
    then have "streamed_comments (Some (t @ comment_text c)) cs = r" by (rule "2.IH"(2) [OF False t])
    then show ?thesis using False t by (cases "t = []") (simp_all add: streamed_comments_def)
  qed
qed (simp add: streamed_comments_def)

lemma discussion_notes:
  assumes "discussion_text d = Inr ts"
  shows "concat ts = concat (map note_text (case d of None \<Rightarrow> [] | Some ns \<Rightarrow> List.map_filter id ns))"
proof -
  obtain ns where ns: "d = Some ns" using assms by (auto simp: discussion_text_def split: option.splits)
  have "ts = concat (map (\<lambda>n. case n of None \<Rightarrow> [] | Some n \<Rightarrow> [note_text n]) ns)"
    by (rule collect_each_concat [where f = "\<lambda>n. case n of None \<Rightarrow> Inl (TypeError ''not subscriptable'') | Some n \<Rightarrow> Inr [note_text n]"])
      (use assms ns in \<open>auto simp: discussion_text_def split: option.splits\<close>)
  then have "ts = map note_text (List.map_filter id ns)"
    using concat_map_optional [where h = id and f = "\<lambda>_. note_text" and xs = ns] by (simp add: map_filter_options)
  then show ?thesis using ns by simp
qed

lemma foldl_notes:
  "content \<noteq> [] \<Longrightarrow> foldl (\<lambda>content n. if content \<noteq> [] then content @ note_text n else note_text n) content ns =
    content @ concat (map note_text ns)"
  by (induction ns arbitrary: content) simp_all

lemma collect_discussions:
  "collect_each discussion_text ds = Inr ts \<Longrightarrow>
   concat ts = concat (map note_text (concat (map (\<lambda>d. case d of None \<Rightarrow> [] | Some ns \<Rightarrow> List.map_filter id ns) ds)))"
proof (induction ds arbitrary: ts)
  case (Cons d ds)
  then obtain us vs where "discussion_text d = Inr us" "collect_each discussion_text ds = Inr vs" "ts = us @ vs"
    by (auto split: sum.splits)
  then show ?case using discussion_notes Cons.IH by simp
qed simp

lemma collect_mr_streamed: "collect_mr dir mr = Inr ds \<Longrightarrow> ds = [streamed_mr dir mr]"
  by (auto simp: collect_mr_def streamed_mr_def foldl_notes collect_discussions map_sum_def
      split: option.splits sum.splits)

text \<open>
  C35. Whatever the batch pipeline collects from the three directories, the streaming pipeline collects too, in the same order:
  where the two differ, the batch pipeline raises. (It does on an issue with comments or a merge request whose
  description is null; no exception is caught around it, so that one such document ends the run.)
\<close>

theorem batch_collects_like_streaming:
  assumes "collect_all_documents (map dirs source_names) = Inr ds"
  shows "extract_documents_generator dirs = ds"
proof -
  have page: "z = (case rd_page x of None \<Rightarrow> [] | Some p \<Rightarrow> [page_document x p])" if "collect_page x = Inr z" for x z
    using that by (simp add: collect_page_def split: option.splits)
  have issue: "z = (case rd_issue x of None \<Rightarrow> []
      | Some i \<Rightarrow> [issue_document i (streamed_comments (is_description i) (is_comments i))])"
    if "collect_issue x = Inr z" for x z
    using that add_comments_streamed by (auto simp: collect_issue_def map_sum_def split: option.splits sum.splits)
  have project: "z = map (commit_document x) (take 100 (case rd_commits x of None \<Rightarrow> [] | Some cs \<Rightarrow> cs)) @
      map (streamed_mr x) (case rd_mrs x of None \<Rightarrow> [] | Some mrs \<Rightarrow> mrs) @
      map (file_document x) (case rd_files x of None \<Rightarrow> [] | Some fs \<Rightarrow> fs)"
    if x: "collect_project x = Inr z" for x z
  proof -
    obtain mrs where mrs: "collect_each (collect_mr x) (case rd_mrs x of None \<Rightarrow> [] | Some mrs \<Rightarrow> mrs) = Inr mrs"
      using x by (auto simp: collect_project_def split: sum.splits)
    have "mrs = concat (map (\<lambda>mr. [streamed_mr x mr]) (case rd_mrs x of None \<Rightarrow> [] | Some mrs \<Rightarrow> mrs))"
      by (rule collect_each_concat [OF _ mrs]) (rule collect_mr_streamed)
    with x mrs show ?thesis by (simp add: collect_project_def)
  qed
  have each: "collect_source (dirs name, name) = Inr z \<Longrightarrow>
      z = (case dirs name of None \<Rightarrow> [] | Some ds \<Rightarrow>
             if name = ''confluence'' then extract_confluence_docs ds
             else if name = ''jira'' then extract_jira_docs ds
             else if name = ''gitlab'' then extract_gitlab_docs ds else [])" for name z
    unfolding collect_source_def extract_confluence_docs_def extract_jira_docs_def extract_gitlab_docs_def
      concat_map_optional [symmetric]
    by (auto split: option.splits if_splits intro!: collect_each_concat page issue project)
  have "zip (map dirs source_names) source_names = map (\<lambda>name. (dirs name, name)) source_names"
    by (simp add: zip_map1 zip_same_conv_map)
  then have "collect_each collect_source (map (\<lambda>name. (dirs name, name)) source_names) = Inr ds"
    using assms by (simp add: collect_all_documents_def)
  from collect_each_concat [OF _ this, of "\<lambda>(d, name). case d of None \<Rightarrow> [] | Some ds \<Rightarrow>
             if name = ''confluence'' then extract_confluence_docs ds
             else if name = ''jira'' then extract_jira_docs ds
             else if name = ''gitlab'' then extract_gitlab_docs ds else []"] each
  show ?thesis by (auto simp: extract_documents_generator_def comp_def)
qed

definition bare_dir :: "string \<Rightarrow> raw_dir" where
  "bare_dir name = \<lparr>rd_name = name, rd_page = None, rd_issue = None, rd_project = None, rd_commits = None, rd_mrs = None, rd_files = None\<rparr>"

definition sample_page :: page_export where
  "sample_page = \<lparr>pg_id = ''7'', pg_title = ''T'', pg_view = ''text'', pg_storage = [], pg_version = ''2'',
     pg_fields = [(''acl'', JObj [(''access_level'', JStr ''restricted'')])]\<rparr>"

definition sample_issue :: issue_export where
  "sample_issue = \<lparr>is_key = ''A-1'', is_summary = ''S'', is_description = Some ''d'', is_comments = [(None, ''c'')], is_fields = []\<rparr>"

definition sample_mr :: "string option \<Rightarrow> mr_export" where
  "sample_mr description = \<lparr>mr_iid = ''3'', mr_title = Some ''M'', mr_description = description,
     mr_discussions = [Some [Some (''ann'', ''ok'')]], mr_state = ''open'', mr_author = ''bob''\<rparr>"

definition sample_dirs :: "string option \<Rightarrow> string \<Rightarrow> source_dir" where
  "sample_dirs description name =
     (if name = ''confluence'' then Some [(bare_dir ''p'')\<lparr>rd_page := Some sample_page\<rparr>]
      else if name = ''jira'' then Some [(bare_dir ''i'')\<lparr>rd_issue := Some sample_issue\<rparr>]
      else if name = ''gitlab'' then Some [(bare_dir ''g'')\<lparr>rd_mrs := Some [sample_mr description]\<rparr>]
      else None)"

lemma sample_collected:
  "case collect_all_documents (map (sample_dirs (Some ''x'')) source_names) of Inr ds \<Rightarrow> length ds = 3 | Inl _ \<Rightarrow> False"
  by code_simp

theorem batch_collects_like_streaming_witness:
  "length (extract_documents_generator (sample_dirs (Some ''x''))) = 3"
  using sample_collected batch_collects_like_streaming [of "sample_dirs (Some ''x'')"] by (auto split: sum.splits)

lemma null_description_aborts:
  "collect_all_documents (map (sample_dirs None) source_names) = Inl (TypeError ''unsupported operand'') \<and>
   length (extract_documents_generator (sample_dirs None)) = 3"
  by code_simp

subsection \<open>Directories are told apart by their position\<close>

definition foreign :: "string \<Rightarrow> raw_dir \<Rightarrow> bool" where
  \<comment> \<open>the directory holds none of the files that are read for the source\<close>
  "foreign name dir =
     (if name = ''confluence'' then rd_page dir = None
      else if name = ''jira'' then rd_issue dir = None
      else rd_commits dir = None \<and> rd_mrs dir = None \<and> rd_files dir = None)"

lemma foreign_nothing: "list_all (foreign name) dirs \<Longrightarrow> collect_source (Some dirs, name) = Inr []"
  by (auto simp: collect_source_def foreign_def list_all_iff collect_page_def collect_issue_def collect_project_def
      intro!: collect_each_nothing)

text \<open>
  The batch pipeline pairs the directories of the extractors with the fixed names confluence, jira and gitlab by position.
  Their list has no entry for a source that is not configured and is in the order in which the extractors finish. When no
  directory is at the place of its source, the run collects no document, and nothing is reported.
\<close>

theorem misplaced_directories_lost:
  assumes "list_all (\<lambda>(name, err, output_dir). err = None) results"
    and "list_all (\<lambda>((name, err, output_dir), place). \<exists>dirs. output_dir = Some (Some dirs) \<and> list_all (foreign place) dirs)
           (zip results source_names)"
  shows "collect_all_documents (extract_dirs_of default_dirs results) = Inr []"
proof -
  have split: "collect_each collect_source (zip (extract_dirs_of default_dirs results) places) = Inr []"
    if "list_all (\<lambda>(name, err, output_dir). err = None) results"
      and "list_all (\<lambda>((name, err, output_dir), place). \<exists>dirs. output_dir = Some (Some dirs) \<and> list_all (foreign place) dirs)
           (zip results places)" for places :: "string list"
    using that
  proof (induction results arbitrary: places)
    case (Cons r rs)
    obtain name err d where r: "r = (name, err, d)" by (cases r)
    show ?case
    proof (cases places)
      case (Cons place ps)
      obtain dirs where d: "d = Some (Some dirs)" "list_all (foreign place) dirs"
        using Cons.prems(2) r Cons by auto
      have "collect_each collect_source (zip (extract_dirs_of default_dirs rs) ps) = Inr []"
        by (rule Cons.IH) (use Cons.prems Cons in simp_all)
      with r d Cons Cons.prems(1) foreign_nothing show ?thesis by (simp add: extract_dirs_of_def)
    qed simp
  qed (simp add: extract_dirs_of_def)
  show ?thesis unfolding collect_all_documents_def by (rule split) (use assms in simp_all)
qed

theorem misplaced_directories_lost_witness:
  "collect_all_documents (extract_dirs_of []
     [(''jira'', None, Some (sample_dirs None ''jira'')), (''gitlab'', None, Some (sample_dirs None ''gitlab''))]) = Inr [] \<and>
   extract_jira_docs (the (sample_dirs None ''jira'')) \<noteq> []"
proof
  show "collect_all_documents (extract_dirs_of []
     [(''jira'', None, Some (sample_dirs None ''jira'')), (''gitlab'', None, Some (sample_dirs None ''gitlab''))]) = Inr []"
    by (rule misplaced_directories_lost)
      (simp_all add: sample_dirs_def bare_dir_def foreign_def source_names_def)
qed code_simp

end
