(* ===== verification/Pipelines.thy ===== *)
theory Pipelines
  imports Ingestion
begin

text \<open>
  From documents to the index: chunking, enrichment and indexing of the batch pipeline (\<^verbatim>\<open>etl/scheduler/run_etl.py\<close>), the
  stripping of stored texts after it, and the streaming pipeline's treatment of a document
  (\<^verbatim>\<open>etl/scheduler/streaming_pipeline.py\<close>). The last section follows access rights through both.
\<close>

subsection \<open>Chunking\<close>

definition vchunk_of :: "etl_chunk \<Rightarrow> vchunk" where
  \<comment> \<open>\<^verbatim>\<open>ch.__dict__\<close>, with the hash beside the other fields\<close>
  "vchunk_of c =
     \<lparr>vhash = c_hash c,
      vfields =
        [(''text'', JStr (c_text c)), (''title'', JStr (c_title c)), (''summary'', JStr (c_summary c)),
         (''keywords'', JList (map JStr (c_keywords c))), (''entities'', JList (map JStr (c_entities c))),
         (''hypothetical_questions'', JList (map JStr (c_questions c))), (''semantic_key'', JStr (c_semantic_key c)),
         (''source_type'', JStr (c_source_type c)), (''source_id'', JStr (c_source_id c)), (''version'', JStr (c_version c)),
         (''doc_title'', JStr (c_doc_title c)), (''parent_metadata'', JObj (c_parent c)), (''position'', JInt (c_position c)),
         (''tokens_approx'', JInt (c_tokens c)), (''original_text'', JStr (c_original c)), (''enriched'', JBool (c_enriched c)),
         (''access_level'', JStr (c_level c)), (''allowed_groups'', JList (map JStr (c_groups c))),
         (''allowed_users'', JList (map JStr (c_users c)))]\<rparr>"

record chunk_env =
  ce_html :: html_library
  ce_headings :: "string \<Rightarrow> heading_info list"
  \<comment> \<open>the headings of a page; none without BeautifulSoup\<close>
  ce_base :: sem_chunker
  ce_enricher :: "metadata_enricher option"
  ce_quality :: "(reranker \<times> quality_filter) option"

definition quality_of :: "reranker \<Rightarrow> quality_filter \<Rightarrow> string \<Rightarrow> vchunk list \<Rightarrow> exn + vchunk list" where
  \<comment> \<open>nothing reads the health flag that a call may change\<close>
  "quality_of post F title cs = fst (quality_filter_chunks post title cs F)"

definition doc_source_metadata :: "etl_doc \<Rightarrow> source_metadata" where
  "doc_source_metadata d =
     no_metadata\<lparr>sm_source_type := Some (doc_source d), sm_source_id := Some (doc_id d),
       sm_version := Some (str_value (dict_getd (doc_metadata d) ''version'' (JStr ''latest''))), sm_doc_title := Some (doc_name d)\<rparr>"

definition process_content :: "chunk_env \<Rightarrow> etl_doc \<Rightarrow> exn + etl_chunk list" where
  \<comment> \<open>\<^verbatim>\<open>chunker.process_document\<close>; joining the context and a null content is an error\<close>
  "process_content E d =
     (case doc_content d of
        None \<Rightarrow> Inl (TypeError ''can only concatenate str'')
      | Some content \<Rightarrow>
          md_process_document (ce_html E) (ce_base E) (ce_enricher E) content (doc_ctype d) (doc_source_metadata d))"

definition keep_quality :: "chunk_env \<Rightarrow> etl_doc \<Rightarrow> vchunk list \<Rightarrow> exn + vchunk list" where
  "keep_quality E d cs =
     (case ce_quality E of
        Some (post, F) \<Rightarrow> if cs \<noteq> [] then quality_of post F (doc_name d) cs else Inr cs
      | None \<Rightarrow> Inr cs)"

definition page_chunks :: "chunk_env \<Rightarrow> etl_doc \<Rightarrow> vchunk list" where
  "page_chunks E d =
     (case doc_content d of
        None \<Rightarrow> []
      | Some html \<Rightarrow> map vchunk_of (create_heading_chunks (sha256 (ce_base E)) (ce_headings E html) (doc_source_metadata d)))"

definition page_document_chunk :: "chunk_env \<Rightarrow> etl_doc \<Rightarrow> string \<Rightarrow> vchunk" where
  "page_document_chunk E d md_text = vchunk_of (create_document_chunk (sha256 (ce_base E)) md_text (doc_source_metadata d))"

definition html_page :: "etl_doc \<Rightarrow> bool" where
  "html_page d \<longleftrightarrow> doc_source d = ''confluence'' \<and> doc_ctype d = ''html''"

definition chunk_document :: "chunk_env \<Rightarrow> etl_doc \<Rightarrow> vchunk list \<times> vchunk list \<times> vchunk list" where
  \<comment> \<open>one round of the loop of \<^verbatim>\<open>run_chunking\<close>: content, heading and document chunks. A document that fails gives none. Without
     markdownify the document chunk is made of the HTML\<close>
  "chunk_document E d =
     (case process_content E d of
        Inl e \<Rightarrow> ([], [], [])
      | Inr chunks \<Rightarrow>
          (case keep_quality E d (map vchunk_of chunks) of
             Inl e \<Rightarrow> ([], [], [])
           | Inr cs \<Rightarrow>
               if html_page d
               then (let content = (case doc_content d of Some s \<Rightarrow> s | None \<Rightarrow> []);
                         md_text = (case markdownify (ce_html E) of Some to_md \<Rightarrow> to_md content | None \<Rightarrow> content)
                     in (cs, page_chunks E d, [page_document_chunk E d md_text]))
               else (cs, [], [])))"

definition until_shutdown :: "(nat \<Rightarrow> bool) \<Rightarrow> 'a list \<Rightarrow> 'a list" where
  \<comment> \<open>the rounds of a loop that breaks as soon as the shutdown event is seen\<close>
  "until_shutdown stop xs = map snd (takeWhile (\<lambda>(i, x). \<not> stop i) (enumerate 0 xs))"

definition run_chunking :: "(nat \<Rightarrow> bool) \<Rightarrow> chunk_env \<Rightarrow> etl_doc list \<Rightarrow> vchunk list" where
  "run_chunking stop E documents =
     (let outs = map (chunk_document E) (until_shutdown stop documents)
      in concat (map fst outs) @ concat (map (\<lambda>(cs, hs, ds). hs) outs) @ concat (map (\<lambda>(cs, hs, ds). ds) outs))"

subsection \<open>Enrichment\<close>

record enrichment =
  en_keywords :: "string list"
  en_entities :: "string list"
  en_questions :: "string list"
  en_summary :: string

definition set_strings :: "string \<Rightarrow> string list \<Rightarrow> vchunk \<Rightarrow> vchunk" where
  "set_strings k xs c = c\<lparr>vfields := dict_set k (JList (map JStr xs)) (vfields c)\<rparr>"

definition run_enrichment :: "(nat \<Rightarrow> bool) \<Rightarrow> (string \<Rightarrow> exn + enrichment) option \<Rightarrow> vchunk list \<Rightarrow> vchunk list" where
  \<comment> \<open>the enricher is called with the text; the metadata it is given is always empty, since no chunk has such a field\<close>
  "run_enrichment stop enricher cs =
     (case enricher of
        None \<Rightarrow> cs
      | Some enrich \<Rightarrow>
          (let n = length (until_shutdown stop cs) in
           map (\<lambda>c. case enrich (str_value (dict_getd (vfields c) ''text'' (JStr []))) of
                      Inl e \<Rightarrow> c
                    | Inr r \<Rightarrow>
                        (let c = set_strings ''hypothetical_questions'' (en_questions r)
                                   (set_strings ''entities'' (en_entities r) (set_strings ''keywords'' (en_keywords r) c))
                         in if en_summary r \<noteq> [] then c\<lparr>vfields := dict_set ''summary'' (JStr (en_summary r)) (vfields c)\<rparr> else c))
             (take n cs) @ drop n cs))"

definition enrich_present :: "(string \<Rightarrow> exn + enrichment) \<Rightarrow> vchunk \<Rightarrow> vchunk" where
  \<comment> \<open>\<^verbatim>\<open>_enrich_one\<close> of the streaming pipeline, which keeps a field when the answer for it is empty\<close>
  "enrich_present enrich c =
     (case enrich (str_value (dict_getd (vfields c) ''text'' (JStr []))) of
        Inl e \<Rightarrow> c
      | Inr r \<Rightarrow>
          (let put = (\<lambda>k xs c. if xs \<noteq> [] then set_strings k xs c else c);
               c = put ''hypothetical_questions'' (en_questions r) (put ''entities'' (en_entities r) (put ''keywords'' (en_keywords r) c))
           in if en_summary r \<noteq> [] then c\<lparr>vfields := dict_set ''summary'' (JStr (en_summary r)) (vfields c)\<rparr> else c))"

subsection \<open>Indexing\<close>

fun group_by_document :: "(string, vchunk list) dict \<Rightarrow> vchunk list \<Rightarrow> (string, vchunk list) dict" where
  "group_by_document d [] = d"
| "group_by_document d (c # cs) =
     (let k = str_value (dict_getd (vfields c) ''source_id'' (JStr ''unknown''))
      in group_by_document (dict_set k (dict_getd d k [] @ [c]) d) cs)"

fun sync_all :: "('v, 'q) qdrant \<Rightarrow> string \<Rightarrow> (string \<times> vchunk list) list \<Rightarrow> 'q lake \<Rightarrow> (exn + nat \<times> nat) \<times> 'q lake" where
  "sync_all cl now [] l = (Inr (0, 0), l)"
| "sync_all cl now ((doc, cs) # gs) l =
     (case sync_document cl now doc cs False l of
        (Inl e, l) \<Rightarrow> (Inl e, l)
      | (Inr (a, d), l) \<Rightarrow>
          (case sync_all cl now gs l of
             (Inl e, l) \<Rightarrow> (Inl e, l)
           | (Inr (a', d'), l) \<Rightarrow> (Inr (a + a', d + d'), l)))"

definition run_indexing :: "(nat \<Rightarrow> bool) \<Rightarrow> ('v, 'q) qdrant \<Rightarrow> string \<Rightarrow> vchunk list \<Rightarrow> 'q lake \<Rightarrow> (exn + nat \<times> nat) \<times> 'q lake" where
  \<comment> \<open>returns the totals that are written to the checkpoint log\<close>
  "run_indexing stop cl now chunks l = sync_all cl now (until_shutdown stop (group_by_document [] chunks)) l"

definition strip_chunk :: "vchunk \<Rightarrow> vchunk" where
  "strip_chunk c =
     c\<lparr>vfields := map (\<lambda>(k, d). (k, dict_getd (vfields c) k (JStr d)))
         [(''source_id'', ''unknown''), (''version'', ''latest''), (''doc_title'', []), (''source_type'', [])]\<rparr>"

definition strip_chunk_full_text :: "bool \<Rightarrow> vstore \<Rightarrow> nat \<times> vstore" where
  \<comment> \<open>without the count of freed bytes\<close>
  "strip_chunk_full_text dry_run s =
     (length (hot s), if dry_run then s else s\<lparr>hot := map (\<lambda>(doc, cs). (doc, map strip_chunk cs)) (hot s)\<rparr>)"

subsection \<open>The streaming pipeline\<close>

record streaming_result =
  sr_chunks_count :: nat
  sr_chunks_indexed :: nat
  sr_failed :: nat

fun index_streamed :: "('v, 'q) qdrant \<Rightarrow> (vchunk \<Rightarrow> bool) \<Rightarrow> vchunk list \<Rightarrow> 'q \<Rightarrow> (exn + nat) \<times> 'q" where
  \<comment> \<open>the chunks whose embedding did not fail, one by one; an exception of the client is caught\<close>
  "index_streamed cl embedded [] q = (Inr 0, q)"
| "index_streamed cl embedded (c # cs) q =
     (let (r, q) =
            (if \<not> embedded c then (Inr 0, q)
             else case chunk_to_point cl c of
                    None \<Rightarrow> (Inr 0, q)
                  | Some p \<Rightarrow>
                      (case upsert cl [p] q of
                         (Inr _, q) \<Rightarrow> (Inr 1, q)
                       | (Inl e, q) \<Rightarrow> if is_exception e then (Inr 0, q) else (Inl e, q)))
      in case r of
           Inl e \<Rightarrow> (Inl e, q)
         | Inr n \<Rightarrow> (case index_streamed cl embedded cs q of (Inl e, q) \<Rightarrow> (Inl e, q) | (Inr m, q) \<Rightarrow> (Inr (n + m), q)))"

definition page_extras :: "chunk_env \<Rightarrow> etl_doc \<Rightarrow> vchunk list" where
  \<comment> \<open>without markdownify no document chunk is made\<close>
  "page_extras E d =
     (if html_page d
      then page_chunks E d @
           (case (markdownify (ce_html E), doc_content d) of
              (Some to_md, Some html) \<Rightarrow> [page_document_chunk E d (to_md html)] | _ \<Rightarrow> [])
      else [])"

definition enrich_streamed :: "(string \<Rightarrow> exn + enrichment) option \<Rightarrow> vchunk list \<Rightarrow> vchunk list" where
  "enrich_streamed enricher cs = (case enricher of Some enrich \<Rightarrow> map (enrich_present enrich) cs | None \<Rightarrow> cs)"

definition streamed_chunks :: "chunk_env \<Rightarrow> (string \<Rightarrow> exn + enrichment) option \<Rightarrow> etl_doc \<Rightarrow> exn + (nat \<times> vchunk list) option" where
  \<comment> \<open>the number of chunks that is reported and the chunks to index, \<open>None\<close> when chunking failed; \<open>Inl\<close> when the quality
     filter raises\<close>
  "streamed_chunks E enricher d =
     (case process_content E d of
        Inl e \<Rightarrow> Inr None
      | Inr chunks \<Rightarrow>
          (case keep_quality E d (enrich_streamed enricher (map vchunk_of chunks)) of
             Inl e \<Rightarrow> Inl e
           | Inr cs \<Rightarrow> Inr (Some (length cs, cs @ page_extras E d))))"

definition stream_document ::
  "chunk_env \<Rightarrow> (string \<Rightarrow> exn + enrichment) option \<Rightarrow> (vchunk \<Rightarrow> bool) \<Rightarrow> ('v, 'q) qdrant \<Rightarrow> etl_doc \<Rightarrow> 'q \<Rightarrow>
   (exn + streaming_result) \<times> 'q" where
  "stream_document E enricher embedded cl d q =
     (case streamed_chunks E enricher d of
        Inl e \<Rightarrow> (Inl e, q)
      | Inr None \<Rightarrow> (Inr \<lparr>sr_chunks_count = 0, sr_chunks_indexed = 0, sr_failed = 1\<rparr>, q)
      | Inr (Some (n, cs)) \<Rightarrow>
          (case index_streamed cl embedded cs q of
             (Inl e, q) \<Rightarrow> (Inl e, q)
           | (Inr indexed, q) \<Rightarrow>
               (Inr \<lparr>sr_chunks_count = n, sr_chunks_indexed = indexed,
                     sr_failed = length (filter (\<lambda>c. \<not> embedded c) cs) + (length (filter embedded cs) - indexed)\<rparr>, q)))"

fun stream_documents ::
  "chunk_env \<Rightarrow> (string \<Rightarrow> exn + enrichment) option \<Rightarrow> (vchunk \<Rightarrow> bool) \<Rightarrow> ('v, 'q) qdrant \<Rightarrow> etl_doc list \<Rightarrow> 'q \<Rightarrow>
   (exn + streaming_result list) \<times> 'q" where
  "stream_documents E enricher embedded cl [] q = (Inr [], q)"
| "stream_documents E enricher embedded cl (d # ds) q =
     (case stream_document E enricher embedded cl d q of
        (Inl e, q) \<Rightarrow> (Inl e, q)
      | (Inr r, q) \<Rightarrow>
          (case stream_documents E enricher embedded cl ds q of
             (Inl e, q) \<Rightarrow> (Inl e, q)
           | (Inr rs, q) \<Rightarrow> (Inr (r # rs), q)))"

definition run_streaming ::
  "(nat \<Rightarrow> bool) \<Rightarrow> chunk_env \<Rightarrow> (string \<Rightarrow> exn + enrichment) option \<Rightarrow> (vchunk \<Rightarrow> bool) \<Rightarrow> ('v, 'q) qdrant \<Rightarrow>
   (string \<Rightarrow> source_dir) \<Rightarrow> 'q \<Rightarrow> (exn + streaming_result list) \<times> 'q" where
  "run_streaming stop E enricher embedded cl dirs q =
     stream_documents E enricher embedded cl (until_shutdown stop (extract_documents_generator dirs)) q"

subsection \<open>Access rights\<close>

definition open_chunk :: "etl_chunk \<Rightarrow> bool" where
  "open_chunk c \<longleftrightarrow> c_level c = ''public'' \<and> c_groups c = [] \<and> c_users c = []"

lemma dict_set_subset: "set (dict_set k v d) \<subseteq> insert (k, v) (set d)"
  unfolding dict_set_def by (induction d) auto

lemma group_chunks_parts:
  assumes "\<And>k g. (k, g) \<in> set d \<Longrightarrow> g \<noteq> [] \<and> set g \<subseteq> A" and "set cs \<subseteq> A" and "(k, g) \<in> set (group_chunks d cs)"
  shows "g \<noteq> [] \<and> set g \<subseteq> A"
  using assms
proof (induction cs arbitrary: d)
  case (Cons c cs)
  let ?g = "dict_getd d (pack_key c) [] @ [c]"
  have old: "set (dict_getd d (pack_key c) []) \<subseteq> A"
  proof (cases "map_of d (pack_key c)")
    case (Some g)
    then show ?thesis using Cons.prems(1) [OF map_of_SomeD [OF Some]] by (simp add: dict_getd_def)
  qed (simp add: dict_getd_def)
  have "g' \<noteq> [] \<and> set g' \<subseteq> A" if "(k', g') \<in> set (dict_set (pack_key c) ?g d)" for k' g'
  proof (cases "(k', g') = (pack_key c, ?g)")
    case True
    then show ?thesis using old Cons.prems(2) by simp
  next
    case False
    then have "(k', g') \<in> set d" using that dict_set_subset [of "pack_key c" ?g d] by blast
    then show ?thesis by (rule Cons.prems(1))
  qed
  then show ?case by (rule Cons.IH) (use Cons.prems(2,3) in simp_all)
qed simp

lemma pack_group_open: "g \<noteq> [] \<Longrightarrow> \<forall>c \<in> set g. open_chunk c \<Longrightarrow> open_chunk (pack_group S (k, g))"
proof (cases "length g = 1")
  case True
  assume "g \<noteq> []" and "\<forall>c \<in> set g. open_chunk c"
  then have "open_chunk (hd g)" by simp
  with True show ?thesis by (simp add: pack_group_def)
next
  case False
  then show ?thesis by (simp add: pack_group_def Let_def open_chunk_def new_chunk_def)
qed

lemma packed_open:
  assumes "\<forall>c \<in> set cs. open_chunk c" and "q \<in> set (pack_by_semantic_key S cs)"
  shows "open_chunk q"
proof -
  obtain k g where q: "q = pack_group S (k, g)" and "(k, g) \<in> set (group_chunks [] cs)"
    using assms(2) by (auto simp: pack_by_semantic_key_def)
  then have "g \<noteq> []" and "set g \<subseteq> set cs" using group_chunks_parts [of "[]" "set cs" cs k g] by auto
  then show ?thesis unfolding q using assms(1) by (intro pack_group_open) auto
qed

lemma process_content_open: "process_content E d = Inr cs \<Longrightarrow> c \<in> set cs \<Longrightarrow> open_chunk c"
proof -
  assume p: "process_content E d = Inr cs" and c: "c \<in> set cs"
  let ?m = "doc_source_metadata d"
  obtain content where content: "doc_content d = Some content" using p by (auto simp: process_content_def split: option.splits)
  obtain ds where ds: "do_chunking (ce_html E) (ce_base E) content (doc_ctype d) ?m = Inr ds"
    and cs: "cs = pack_by_semantic_key (ce_base E)
      (apply_rolling_key_propagation (sha256 (ce_base E)) (map (enrich_one (ce_enricher E) ?m) ds))"
    using p content by (auto simp: process_content_def md_process_document_def map_sum_def split: sum.splits)
  have "all_rights ?m (apply_rolling_key_propagation (sha256 (ce_base E)) (map (enrich_one (ce_enricher E) ?m) ds))"
    by (rule chunks_with_rights [OF ds])
  then have "\<forall>x \<in> set (apply_rolling_key_propagation (sha256 (ce_base E)) (map (enrich_one (ce_enricher E) ?m) ds)). open_chunk x"
    by (simp add: list_all_iff has_rights_def open_chunk_def doc_source_metadata_def no_metadata_def)
  from packed_open [OF this] c cs show "open_chunk c" by simp
qed

definition public_fields :: "json_obj \<Rightarrow> bool" where
  "public_fields d \<longleftrightarrow> map_of d ''access_level'' = Some (JStr ''public'') \<and> map_of d ''allowed_groups'' = Some (JList []) \<and>
     map_of d ''allowed_users'' = Some (JList [])"

abbreviation all_public :: "vchunk list \<Rightarrow> bool" where
  "all_public cs \<equiv> \<forall>c \<in> set cs. public_fields (vfields c)"

lemma vchunk_of_public: "open_chunk c \<Longrightarrow> public_fields (vfields (vchunk_of c))"
  by (simp add: open_chunk_def public_fields_def vchunk_of_def)

definition access_keys :: "string set" where
  "access_keys = {''access_level'', ''allowed_groups'', ''allowed_users''}"

lemma public_set: "k \<notin> access_keys \<Longrightarrow> public_fields (dict_set k v d) = public_fields d"
  by (simp add: public_fields_def access_keys_def eq_commute [of k])

lemma other_keys:
  "''_quality_combined'' \<notin> access_keys" "''_quality_heading_score'' \<notin> access_keys" "''_quality_title_score'' \<notin> access_keys"
  "''keywords'' \<notin> access_keys" "''entities'' \<notin> access_keys" "''hypothetical_questions'' \<notin> access_keys" "''summary'' \<notin> access_keys"
  by (simp_all add: access_keys_def)

lemma quality_public:
  assumes "quality_of post F title cs = Inr out" and "all_public cs"
  shows "all_public out"
proof
  fix c assume "c \<in> set out"
  then obtain c' t h where c: "c = note_scores t h c'" and "c' \<in> set (examined F cs)"
    using assms(1) unfolding quality_of_def quality_filter_chunks_def Let_def examined_def [symmetric]
    by (auto split: if_splits sum.splits prod.splits) (blast dest: set_zip_leftD)
  then have "public_fields (vfields c')" using assms(2) examined_subset by blast
  then show "public_fields (vfields c)" by (simp add: c note_scores_def public_set other_keys)
qed

lemma page_chunks_public: "all_public (page_chunks E d)" "public_fields (vfields (page_document_chunk E d md))"
proof -
  have "open_chunk (heading_chunk sha tree m ih)" for sha tree m ih
    by (simp add: heading_chunk_def open_chunk_def new_chunk_def Let_def split_beta)
  then show "all_public (page_chunks E d)"
    by (auto simp: page_chunks_def create_heading_chunks_def Let_def intro: vchunk_of_public split: option.splits)
  have "open_chunk (create_document_chunk sha t m)" for sha t m
    by (simp add: create_document_chunk_def open_chunk_def new_chunk_def Let_def)
  then show "public_fields (vfields (page_document_chunk E d md))"
    by (simp add: page_document_chunk_def vchunk_of_public)
qed

lemma kept_public: "keep_quality E d cs = Inr out \<Longrightarrow> all_public cs \<Longrightarrow> all_public out"
  using quality_public by (auto simp: keep_quality_def split: option.splits prod.splits if_splits)

lemma content_public: "process_content E d = Inr cs \<Longrightarrow> all_public (map vchunk_of cs)"
  using process_content_open vchunk_of_public by (simp only: set_map ball_simps) blast

lemma chunk_document_public:
  "all_public (fst (chunk_document E d))" "all_public (fst (snd (chunk_document E d)))" "all_public (snd (snd (chunk_document E d)))"
proof -
  have "all_public (fst (chunk_document E d)) \<and> all_public (fst (snd (chunk_document E d))) \<and>
      all_public (snd (snd (chunk_document E d)))"
  proof (cases "process_content E d")
    case (Inl e)
    then show ?thesis by (simp add: chunk_document_def)
  next
    case chunks: (Inr chunks)
    show ?thesis
    proof (cases "keep_quality E d (map vchunk_of chunks)")
      case (Inl e)
      then show ?thesis by (simp add: chunk_document_def chunks)
    next
      case (Inr cs)
      have "all_public cs" by (rule kept_public [OF Inr content_public [OF chunks]])
      then show ?thesis using page_chunks_public by (simp add: chunk_document_def chunks Inr Let_def)
    qed
  qed
  then show "all_public (fst (chunk_document E d))" "all_public (fst (snd (chunk_document E d)))"
    "all_public (snd (snd (chunk_document E d)))" by simp_all
qed

lemma run_chunking_public: "all_public (run_chunking stop E ds)"
  using chunk_document_public by (auto simp: run_chunking_def Let_def split_beta)

lemma set_strings_public: "k \<notin> access_keys \<Longrightarrow> public_fields (vfields (set_strings k xs c)) = public_fields (vfields c)"
  by (simp add: set_strings_def public_set)

lemma enrich_present_public: "public_fields (vfields (enrich_present f c)) = public_fields (vfields c)"
  by (simp add: enrich_present_def Let_def set_strings_public other_keys public_set split: sum.split)

lemma run_enrichment_public: "all_public cs \<Longrightarrow> all_public (run_enrichment stop en cs)"
  by (auto simp: run_enrichment_def Let_def set_strings_public other_keys public_set split: option.splits sum.splits
      dest: in_set_takeD in_set_dropD)

lemma page_extras_public: "all_public (page_extras E d)"
  using page_chunks_public by (auto simp: page_extras_def split: option.splits)

lemma streamed_public:
  assumes "streamed_chunks E en d = Inr (Some (n, cs))"
  shows "all_public cs"
proof -
  obtain chunks where chunks: "process_content E d = Inr chunks"
    using assms by (auto simp: streamed_chunks_def split: sum.splits)
  obtain ks where ks: "keep_quality E d (enrich_streamed en (map vchunk_of chunks)) = Inr ks" and cs: "cs = ks @ page_extras E d"
    using assms chunks by (auto simp: streamed_chunks_def split: sum.splits)
  have "all_public (enrich_streamed en (map vchunk_of chunks))"
    using content_public [OF chunks] by (simp add: enrich_streamed_def enrich_present_public split: option.split)
  then have "all_public ks" by (rule kept_public [OF ks])
  then show ?thesis using page_extras_public by (auto simp: cs)
qed

subsubsection \<open>What reaches the index\<close>

definition payload_acl :: "json_obj \<Rightarrow> acl" where
  "payload_acl p =
     (let strings = (\<lambda>k. case map_of p k of Some (JList js) \<Rightarrow> strings_of js | _ \<Rightarrow> None) in
      \<lparr>acl_level = (case map_of p ''access_level'' of Some (JStr s) \<Rightarrow> Some s | _ \<Rightarrow> None),
       acl_groups = strings ''allowed_groups'', acl_users = strings ''allowed_users''\<rparr>)"

definition visible_to_all :: "json_obj \<Rightarrow> bool" where
  "visible_to_all p \<longleftrightarrow> (\<forall>u i. chunk_visible u \<lparr>chunk_ref = i, chunk_top = no_acl, chunk_payload = payload_acl p\<rparr>)"

lemma public_payload:
  assumes "public_fields (vfields c)"
  shows "public_fields (chunk_payload_of t c)"
proof -
  have acc: "map_of (vfields c) ''access_level'' = Some (JStr ''public'')"
    "map_of (vfields c) ''allowed_groups'' = Some (JList [])" "map_of (vfields c) ''allowed_users'' = Some (JList [])"
    using assms by (simp_all add: public_fields_def)
  show ?thesis
    unfolding public_fields_def chunk_payload_of_def Let_def
    by (intro conjI map_of_non_null) (simp_all add: payload_fields_def acl_fields_def dict_ok_def dict_getd_def acc)
qed

lemma point_public: "chunk_to_point cl c = Some p \<Longrightarrow> public_fields (vfields c) \<Longrightarrow> public_fields (ppayload p)"
  using public_payload by (auto simp: chunk_to_point_def split: if_splits json.splits)

lemma public_visible:
  assumes "public_fields p"
  shows "visible_to_all p"
proof -
  have "acl_level (payload_acl p) = Some ''public''" using assms by (simp add: public_fields_def payload_acl_def)
  then have "chunk_visible u \<lparr>chunk_ref = i, chunk_top = no_acl, chunk_payload = payload_acl p\<rparr>" for u i
    by (simp add: chunk_visible_def first_of_def Let_def allowed_levels_iff)
  then show ?thesis by (simp add: visible_to_all_def)
qed

definition public_index :: "(string \<Rightarrow> 'v point option) \<Rightarrow> bool" where
  "public_index f \<longleftrightarrow> (\<forall>i p. f i = Some p \<longrightarrow> public_fields (ppayload p))"

lemma public_overlay:
  assumes "public_index f" and "all_public cs"
  shows "public_index (overlay f (List.map_filter (chunk_to_point cl) cs))"
proof -
  have "public_fields (ppayload p)" if "overlay f (List.map_filter (chunk_to_point cl) cs) i = Some p" for i p
  proof (cases "i \<in> pid ` set (List.map_filter (chunk_to_point cl) cs)")
    case True
    then obtain p' where "p' \<in> set (List.map_filter (chunk_to_point cl) cs)"
      and "overlay f (List.map_filter (chunk_to_point cl) cs) i = Some p'"
      using overlay_in by metis
    then have "p \<in> set (List.map_filter (chunk_to_point cl) cs)" using that by simp
    then show ?thesis using assms(2) point_public by (auto simp: map_filter_set)
  next
    case False
    then show ?thesis using that assms(1) by (simp add: overlay_other public_index_def)
  qed
  then show ?thesis by (simp add: public_index_def)
qed

lemma added_subset: "update_document_chunks now doc cs force s = ((added, deleted), s') \<Longrightarrow> set added \<subseteq> set cs"
proof (cases "force \<or> \<not> truthy_str (get_last_hash doc s)")
  case True
  assume "update_document_chunks now doc cs force s = ((added, deleted), s')"
  then show ?thesis using update_forced [OF True, of now cs] by simp
next
  case False
  assume u: "update_document_chunks now doc cs force s = ((added, deleted), s')"
  have "added = map snd (filter (differs (hash_map (load_hot_chunks doc s))) (hash_map cs))"
    using u False update_incremental [of doc s now cs] by simp
  then have "set added \<subseteq> snd ` set (hash_map cs)" by auto
  also have "\<dots> \<subseteq> set cs" using hash_map_in by (fastforce simp: dict_ok_get_iff [symmetric])
  finally show ?thesis .
qed

lemma sync_public:
  assumes "accepting cl look" and "0 < batch_size cl" and "public_index (look (index_of l))" and "all_public cs"
    and "sync_document cl now doc cs force l = (r, l')"
  shows "public_index (look (index_of l'))"
proof -
  obtain added deleted vs where u: "update_document_chunks now doc cs force (vstore_of l) = ((added, deleted), vs)"
    by (metis surj_pair)
  have idx: "look (index_of l') = (\<lambda>i. if i \<in> uuid5 cl ` set deleted then None
      else overlay (look (index_of l)) (List.map_filter (chunk_to_point cl) added) i)"
    using sync_accepting [OF assms(1,2) u] assms(5) by auto
  have "all_public added" using added_subset [OF u] assms(4) by blast
  from public_overlay [OF assms(3) this, of cl] show ?thesis unfolding idx by (simp add: public_index_def)
qed

lemma sync_all_public:
  assumes "accepting cl look" and "0 < batch_size cl"
  shows "public_index (look (index_of l)) \<Longrightarrow> \<forall>g \<in> set gs. all_public (snd g) \<Longrightarrow> sync_all cl now gs l = (r, l') \<Longrightarrow>
    public_index (look (index_of l'))"
proof (induction gs arbitrary: l r l')
  case (Cons g gs)
  obtain doc cs where g: "g = (doc, cs)" by (cases g)
  obtain r1 l1 where s: "sync_document cl now doc cs False l = (r1, l1)" by (metis surj_pair)
  have pub: "public_index (look (index_of l1))"
    using sync_public [OF assms Cons.prems(1) _ s] Cons.prems(2) g by simp
  show ?case
  proof (cases r1)
    case (Inl e)
    then show ?thesis using Cons.prems(3) g s pub by simp
  next
    case (Inr x)
    obtain r2 l2 where s2: "sync_all cl now gs l1 = (r2, l2)" by (metis surj_pair)
    have "public_index (look (index_of l2))" by (rule Cons.IH [OF pub _ s2]) (use Cons.prems(2) in simp)
    moreover have "l' = l2" using Cons.prems(3) g s s2 Inr by (cases x) (simp split: sum.splits prod.splits)
    ultimately show ?thesis by simp
  qed
qed simp

lemma grouped_public:
  "\<forall>g \<in> set d. all_public (snd g) \<Longrightarrow> all_public cs \<Longrightarrow> \<forall>g \<in> set (group_by_document d cs). all_public (snd g)"
proof (induction cs arbitrary: d)
  case (Cons c cs)
  let ?k = "str_value (dict_getd (vfields c) ''source_id'' (JStr ''unknown''))"
  have "all_public (dict_getd d ?k [])"
    using Cons.prems(1) by (cases "map_of d ?k") (auto simp: dict_getd_def dest: map_of_SomeD)
  then have "all_public (dict_getd d ?k [] @ [c])" using Cons.prems(2) by auto
  then have "\<forall>g \<in> set (dict_set ?k (dict_getd d ?k [] @ [c]) d). all_public (snd g)"
    using Cons.prems(1) dict_set_subset [of ?k "dict_getd d ?k [] @ [c]" d] by fastforce
  from Cons.IH [OF this] Cons.prems(2) show ?case by (simp add: Let_def)
qed simp

lemma set_until_shutdown: "set (until_shutdown stop xs) \<subseteq> set xs"
proof -
  have "set (until_shutdown stop xs) \<subseteq> snd ` set (enumerate 0 xs)"
    by (auto simp: until_shutdown_def dest: set_takeWhileD)
  also have "\<dots> = set (map snd (enumerate 0 xs))" by (simp only: set_map)
  also have "\<dots> = set xs" by (simp only: map_snd_enumerate)
  finally show ?thesis .
qed

lemma run_indexing_public:
  assumes "accepting cl look" and "0 < batch_size cl" and "public_index (look (index_of l))" and "all_public cs"
    and "run_indexing stop cl now cs l = (r, l')"
  shows "public_index (look (index_of l'))"
proof -
  have "\<forall>g \<in> set (group_by_document [] cs). all_public (snd g)" by (rule grouped_public [OF _ assms(4)]) simp
  then have "\<forall>g \<in> set (until_shutdown stop (group_by_document [] cs)). all_public (snd g)"
    by (meson set_until_shutdown subsetD)
  then show ?thesis by (rule sync_all_public [OF assms(1-3)]) (use assms(5) in \<open>simp only: run_indexing_def\<close>)
qed

lemma index_streamed_public:
  assumes "accepting cl look"
  shows "public_index (look q) \<Longrightarrow> all_public cs \<Longrightarrow> index_streamed cl embedded cs q = (r, q') \<Longrightarrow> public_index (look q')"
proof (induction cs arbitrary: q r q')
  case (Cons c cs)
  obtain q1 n where step: "index_streamed cl embedded (c # cs) q =
      (case index_streamed cl embedded cs q1 of (Inl e, q) \<Rightarrow> (Inl e, q) | (Inr m, q) \<Rightarrow> (Inr (n + m), q))"
    and q1: "look q1 = look q \<or> look q1 = overlay (look q) (List.map_filter (chunk_to_point cl) [c])"
  proof (cases "embedded c \<and> chunk_to_point cl c \<noteq> None")
    case True
    then obtain p where p: "chunk_to_point cl c = Some p" by auto
    obtain q1 where "upsert cl [p] q = (Inr (), q1)" "look q1 = overlay (look q) [p]"
      using accepting_upsert [OF assms] by blast
    then show ?thesis using that [of "Suc 0" q1] True p by (simp only: index_streamed.simps Let_def) simp
  next
    case False
    then show ?thesis using that [of 0 q] by (auto simp: Let_def)
  qed
  have "public_index (look q1)"
    using q1 Cons.prems(1,2) public_overlay [of "look q" "[c]" cl] by auto
  moreover obtain r2 q2 where "index_streamed cl embedded cs q1 = (r2, q2)" by (metis surj_pair)
  ultimately have "public_index (look q2)" and "q' = q2"
    using Cons.IH Cons.prems(2,3) step by (auto split: sum.splits)
  then show ?case by simp
qed simp

lemma stream_public:
  assumes "accepting cl look"
  shows "public_index (look q) \<Longrightarrow> stream_documents E en embedded cl ds q = (r, q') \<Longrightarrow> public_index (look q')"
proof (induction ds arbitrary: q r q')
  case (Cons d ds)
  obtain r1 q1 where s: "stream_document E en embedded cl d q = (r1, q1)" by (metis surj_pair)
  have pub: "public_index (look q1)"
  proof (cases "streamed_chunks E en d")
    case (Inl e)
    then show ?thesis using s Cons.prems(1) by (simp add: stream_document_def)
  next
    case (Inr x)
    show ?thesis
    proof (cases x)
      case None
      then show ?thesis using s Inr Cons.prems(1) by (simp add: stream_document_def)
    next
      case (Some nc)
      obtain n cs where nc: "nc = (n, cs)" by (cases nc)
      obtain r2 q2 where i: "index_streamed cl embedded cs q = (r2, q2)" by (metis surj_pair)
      have "public_index (look q2)"
        using index_streamed_public [OF assms Cons.prems(1) _ i] streamed_public Inr Some nc by blast
      moreover have "q1 = q2" using s Inr Some nc i by (simp add: stream_document_def split: sum.splits)
      ultimately show ?thesis by simp
    qed
  qed
  show ?case
  proof (cases r1)
    case (Inl e)
    then show ?thesis using Cons.prems(2) s pub by simp
  next
    case (Inr x)
    obtain r2 q2 where s2: "stream_documents E en embedded cl ds q1 = (r2, q2)" by (metis surj_pair)
    have "public_index (look q2)" by (rule Cons.IH [OF pub s2])
    moreover have "q' = q2" using Cons.prems(2) s s2 Inr by (simp split: sum.splits)
    ultimately show ?thesis by simp
  qed
qed simp

inductive ingested ::
  "('v, 'q) qdrant \<Rightarrow> ('q \<Rightarrow> string \<Rightarrow> 'v point option) \<Rightarrow> 'q lake \<Rightarrow> bool"
  for cl :: "('v, 'q) qdrant" and look :: "'q \<Rightarrow> string \<Rightarrow> 'v point option" where
  Start: "look (index_of l) = (\<lambda>i. None) \<Longrightarrow> ingested cl look l"
| Batch: "ingested cl look l \<Longrightarrow> collect_all_documents dirs = Inr ds \<Longrightarrow>
    run_indexing stop cl now (run_enrichment stop' en (run_chunking stop'' E ds)) l = (r, l') \<Longrightarrow> ingested cl look l'"
| Stream: "ingested cl look l \<Longrightarrow> run_streaming stop E en embedded cl dirs (index_of l) = (r, q) \<Longrightarrow>
    ingested cl look (l\<lparr>index_of := q\<rparr>)"
| Strip: "ingested cl look l \<Longrightarrow> ingested cl look (l\<lparr>vstore_of := snd (strip_chunk_full_text dry_run (vstore_of l))\<rparr>)"

text \<open>
  C7. The rights of a source document never reach the index. Whatever the extracted files say about restrictions, security
  levels, visibility or labels, and however batch runs, streaming runs and clean-ups follow each other on an index that was
  empty: every point of it is stored as \<^verbatim>\<open>public\<close>, without groups and users, and the access filter shows it to every user.
  (Both pipelines hand the chunker only type, id, version and title of a document. Assumed: Qdrant accepts every write.)
\<close>

theorem ingestion_makes_public:
  assumes "ingested cl look l" and "accepting cl look" and "0 < batch_size cl" and "look (index_of l) i = Some p"
  shows "map_of (ppayload p) ''access_level'' = Some (JStr ''public'') \<and> visible_to_all (ppayload p)"
proof -
  have "public_index (look (index_of l))"
    using assms(1)
  proof (induction rule: ingested.induct)
    case (Start l)
    then show ?case by (simp add: public_index_def)
  next
    case (Batch l dirs ds stop now stop' en stop'' E r l')
    show ?case
      by (rule run_indexing_public [OF assms(2,3) Batch.IH _ Batch.hyps(3)]) (rule run_enrichment_public [OF run_chunking_public])
  next
    case (Stream l stop E en embedded dirs r q)
    then show ?case using stream_public [OF assms(2) Stream.IH] by (simp add: run_streaming_def)
  next
    case (Strip l dry_run)
    then show ?case by simp
  qed
  then have "public_fields (ppayload p)" using assms(4) by (simp add: public_index_def)
  then show ?thesis using public_visible by (simp add: public_fields_def)
qed

definition sample_setup :: chunk_env where
  "sample_setup = \<lparr>ce_html = plain_html, ce_headings = (\<lambda>html. []), ce_base = separate_chunker, ce_enricher = None, ce_quality = None\<rparr>"

definition empty_lake :: "(string, unit point) dict lake" where
  "empty_lake = \<lparr>vstore_of = init_vstore True, index_of = [], lake_cold = [], lake_pandas = False\<rparr>"

definition sample_run :: "(exn + nat \<times> nat) \<times> (string, unit point) dict lake" where
  "sample_run =
     run_indexing (\<lambda>i. False) alist_client ''t''
       (run_enrichment (\<lambda>i. False) None
          (run_chunking (\<lambda>i. False) sample_setup [page_document (bare_dir ''p'') sample_page])) empty_lake"

lemma sample_run_indexes: "case index_of (snd sample_run) of [] \<Rightarrow> False | (i, p) # ps \<Rightarrow> True"
  by code_simp

theorem ingestion_makes_public_witness:
  "\<exists>i p. map_of (index_of (snd sample_run)) i = Some p \<and> map_of (ppayload p) ''access_level'' = Some (JStr ''public'')"
proof -
  have "ingested alist_client map_of empty_lake" by (rule ingested.Start) (simp add: empty_lake_def fun_eq_iff)
  moreover have "collect_all_documents [sample_dirs None ''confluence''] = Inr [page_document (bare_dir ''p'') sample_page]"
    by (simp add: collect_all_documents_def source_names_def sample_dirs_def collect_source_def collect_page_def
        page_document_def bare_dir_def)
  ultimately have ing: "ingested alist_client map_of (snd sample_run)"
    unfolding sample_run_def by (rule ingested.Batch) (rule prod.collapse [symmetric])
  obtain i p ps where "index_of (snd sample_run) = (i, p) # ps"
    using sample_run_indexes by (cases "index_of (snd sample_run)") auto
  then have look: "map_of (index_of (snd sample_run)) i = Some p" by simp
  from ingestion_makes_public [OF ing alist_client_accepting _ look] look show ?thesis by auto
qed

subsection \<open>What is not removed from the index\<close>

lemma index_streamed_keeps:
  assumes "accepting cl look"
  shows "index_streamed cl embedded cs q = (r, q') \<Longrightarrow> i \<notin> uuid5 cl ` vhash ` set cs \<Longrightarrow> look q' i = look q i"
proof (induction cs arbitrary: q r q')
  case (Cons c cs)
  obtain n q1 where step: "index_streamed cl embedded (c # cs) q =
      (case index_streamed cl embedded cs q1 of (Inl e, q) \<Rightarrow> (Inl e, q) | (Inr m, q) \<Rightarrow> (Inr (n + m), q))"
    and q1: "look q1 i = look q i"
  proof (cases "embedded c \<and> chunk_to_point cl c \<noteq> None")
    case True
    then obtain p where p: "chunk_to_point cl c = Some p" by auto
    obtain q1 where q1: "upsert cl [p] q = (Inr (), q1)" "look q1 = overlay (look q) [p]"
      using accepting_upsert [OF assms] by blast
    have "pid p = uuid5 cl (vhash c)" using p by (auto simp: chunk_to_point_def split: if_splits json.splits)
    then have "look q1 i = look q i" using q1(2) Cons.prems(2) by (simp add: overlay_other)
    then show ?thesis using that [of "Suc 0" q1] True p q1(1) by simp
  next
    case False
    then show ?thesis using that [of 0 q] by (auto simp: Let_def)
  qed
  obtain r2 q2 where "index_streamed cl embedded cs q1 = (r2, q2)" by (metis surj_pair)
  moreover from this have "look q2 i = look q1 i" using Cons.IH Cons.prems(2) by simp
  ultimately show ?case using q1 Cons.prems(1) step by (auto split: sum.splits)
qed simp

text \<open>
  The streaming pipeline, the default mode, never removes anything: after it has processed a document again, every point
  whose id is not that of one of the new chunks is as it was. The chunks of an earlier version of the document that no
  longer occur stay in the index and are found by searches.
\<close>

theorem streaming_keeps_stale_chunks:
  assumes "accepting cl look" and "inj (uuid5 cl)"
    and "stream_document E en embedded cl d q = (r, q')"
    and "\<And>n cs. streamed_chunks E en d = Inr (Some (n, cs)) \<Longrightarrow> h \<notin> vhash ` set cs"
  shows "look q' (uuid5 cl h) = look q (uuid5 cl h)"
proof (cases "streamed_chunks E en d")
  case (Inl e)
  then show ?thesis using assms(3) by (simp add: stream_document_def)
next
  case (Inr x)
  show ?thesis
  proof (cases x)
    case None
    then show ?thesis using assms(3) Inr by (simp add: stream_document_def)
  next
    case (Some nc)
    obtain n cs where nc: "nc = (n, cs)" by (cases nc)
    obtain r2 q2 where i: "index_streamed cl embedded cs q = (r2, q2)" by (metis surj_pair)
    have "uuid5 cl h \<notin> uuid5 cl ` vhash ` set cs"
      using assms(4) Inr Some nc inj_image_mem_iff [OF assms(2)] by simp
    from index_streamed_keeps [OF assms(1) i this] show ?thesis
      using assms(3) Inr Some nc i by (auto simp: stream_document_def split: sum.splits)
  qed
qed

lemma hash_map_distinct: "distinct (map vhash cs) \<Longrightarrow> hash_map cs = map (\<lambda>c. (vhash c, c)) cs"
proof (induction cs rule: rev_induct)
  case (snoc x xs)
  have "dict_set (vhash x) x (map (\<lambda>c. (vhash c, c)) xs) = map (\<lambda>c. (vhash c, c)) xs @ [(vhash x, x)]"
    using snoc.prems unfolding dict_set_def by (induction xs) auto
  with snoc show ?case by (simp add: hash_map_def)
qed (simp add: hash_map_def)

lemma load_stripped: "load_hot_chunks doc (snd (strip_chunk_full_text False s)) = map strip_chunk (load_hot_chunks doc s)"
  by (simp add: strip_chunk_full_text_def load_hot_chunks_def dict_getd_def map_of_map_values split: option.split)

lemma strip_chunk_simps [simp]: "vhash (strip_chunk c) = vhash c" "vtext (strip_chunk c) = JNull"
  by (simp_all add: strip_chunk_def dict_getd_def)

lemma update_same_hashes:
  assumes "truthy_str (get_last_hash doc s)" and "distinct (map vhash cs)" and "load_hot_chunks doc s = map f cs"
    and "\<And>c. vhash (f c) = vhash c"
  shows "fst (update_document_chunks now doc cs False s) = (filter (\<lambda>c. vtext (f c) \<noteq> vtext c) cs, [])"
proof -
  have old: "hash_map (map f cs) = map (\<lambda>c. (vhash c, f c)) cs"
    using assms(2,4) hash_map_distinct [of "map f cs"] by (simp add: comp_def)
  have look: "map_of (map (\<lambda>c. (vhash c, f c)) cs) (vhash c) = Some (f c)" if "c \<in> set cs" for c
    using that assms(2) by (simp add: map_of_eq_Some_iff comp_def)
  have "filter (differs (map (\<lambda>c. (vhash c, f c)) cs)) (map (\<lambda>c. (vhash c, c)) cs) =
      map (\<lambda>c. (vhash c, c)) (filter (\<lambda>c. vtext (f c) \<noteq> vtext c) cs)"
    unfolding filter_map by (rule arg_cong [where f = "map _"], rule filter_cong) (simp_all add: differs_def look)
  then show ?thesis
    using update_incremental [OF assms(1), of now cs] hash_map_distinct [OF assms(2)]
    by (simp add: assms(3) old comp_def dict_keys_def)
qed

text \<open>
  After the clean-up has stripped the texts of the stored chunks, the next synchronisation of an unchanged document takes
  every chunk for a changed one: all of them are embedded and written to the index again.
\<close>

theorem stripped_store_reindexes:
  assumes "truthy_str (get_last_hash doc s)" and "distinct (map vhash cs)"
    and "load_hot_chunks doc s = cs" and "\<forall>c \<in> set cs. vtext c \<noteq> JNull"
  shows "fst (update_document_chunks now doc cs False s) = ([], []) \<and>
    fst (update_document_chunks now doc cs False (snd (strip_chunk_full_text False s))) = (cs, [])"
proof
  show "fst (update_document_chunks now doc cs False s) = ([], [])"
    using update_same_hashes [OF assms(1,2), of "\<lambda>c. c"] assms(3) by simp
  have "truthy_str (get_last_hash doc (snd (strip_chunk_full_text False s)))"
    using assms(1) by (simp add: strip_chunk_full_text_def get_last_hash_def)
  from update_same_hashes [OF this assms(2), of strip_chunk now] assms(3,4)
  show "fst (update_document_chunks now doc cs False (snd (strip_chunk_full_text False s))) = (cs, [])"
    by (simp add: load_stripped filter_id_conv eq_commute [of JNull])
qed

theorem stripped_store_reindexes_witness:
  "fst (update_document_chunks ''t'' ''d'' [text_chunk ''aaa'' ''v1''] False (snd (strip_chunk_full_text False sample_vstore))) =
    ([text_chunk ''aaa'' ''v1''], [])"
proof -
  have "truthy_str (get_last_hash ''d'' sample_vstore)" "load_hot_chunks ''d'' sample_vstore = [text_chunk ''aaa'' ''v1'']"
    using known_lake_simps by (simp_all add: known_lake_def)
  from stripped_store_reindexes [OF this(1) _ this(2)] show ?thesis by (simp add: text_chunk_def dict_getd_def)
qed

theorem streaming_keeps_stale_chunks_witness:
  "\<exists>p. map_of (snd (stream_document sample_setup None (\<lambda>c. True) alist_client
      (page_document (bare_dir ''p'') sample_page) (index_of known_lake))) ''uaaa'' = Some p"
proof -
  let ?d = "page_document (bare_dir ''p'') sample_page"
  have "list_all (\<lambda>c. vhash c \<noteq> ''aaa'') (case streamed_chunks sample_setup None ?d of Inr (Some (n, cs)) \<Rightarrow> cs | _ \<Rightarrow> [])"
    by code_simp
  then have "''aaa'' \<notin> vhash ` set cs" if "streamed_chunks sample_setup None ?d = Inr (Some (n, cs))" for n cs
    using that by (auto simp: list_all_iff)
  moreover obtain r q where run: "stream_document sample_setup None (\<lambda>c. True) alist_client ?d (index_of known_lake) = (r, q)"
    by (metis surj_pair)
  ultimately have "map_of q (uuid5 alist_client ''aaa'') = map_of (index_of known_lake) (uuid5 alist_client ''aaa'')"
    by (intro streaming_keeps_stale_chunks [OF alist_client_accepting alist_client_simps(3) run])
  then have "\<exists>p. map_of q ''uaaa'' = Some p" by (simp add: known_lake_def)
  then show ?thesis by (simp add: run)
qed

subsection \<open>The quality filter in an outage\<close>

lemma chunk_dict_no_heading: "chunk_heading (vchunk_of c) = []"
  by (simp add: chunk_heading_def vchunk_of_def dict_getd_def str_value_def)

text \<open>
  The quality filter weighs the score against the title with 0.6 and that against the heading with 0.4, but the chunks of
  the pipelines have no field \<^verbatim>\<open>heading\<close> or \<^verbatim>\<open>section\<close>. When the reranker fails, which is announced as a graceful
  degradation that skips the filter, every chunk gets 0.3 in all: with a threshold above that the whole document is
  dropped.
\<close>

theorem outage_drops_documents:
  assumes "\<forall>title texts. post title texts = Rerank_failed"
  shows "quality_of post F title (map vchunk_of cs) =
    Inr (if qf_threshold F \<le> 3 / 10 then map (note_scores (1 / 2) 0) (examined F (map vchunk_of cs)) else [])"
proof (cases "examined F (map vchunk_of cs) = []")
  case True
  then have "quality_filter_chunks post title (map vchunk_of cs) F = (Inr [], F)"
    unfolding quality_filter_chunks_def Let_def examined_def [symmetric] by simp
  then show ?thesis using True by (simp add: quality_of_def)
next
  case False
  let ?k = "examined F (map vchunk_of cs)"
  obtain F' where F': "score_chunks post title (map (\<lambda>c. str_value (vtext c)) ?k) F = (Inr (replicate (length ?k) (1 / 2)), F')"
    and th: "qf_threshold F' = qf_threshold F"
    using assms by (cases "title = []") (simp_all add: score_chunks_def False)
  have z: "zip ks (replicate (length ks) x) = map (\<lambda>c. (c, x)) ks" for ks :: "vchunk list" and x :: real
    by (induction ks) simp_all
  have "quality_of post F title (map vchunk_of cs) =
      Inr (map (\<lambda>(c, t). note_scores t 0 c)
          (filter (\<lambda>(c, t). combined_score t 0 \<ge> qf_threshold F') (zip ?k (replicate (length ?k) (1 / 2)))))"
    unfolding quality_of_def by (rule quality_without_headings [OF _ False F']) (simp add: chunk_dict_no_heading)
  then show ?thesis by (simp add: z th combined_score_def filter_map comp_def)
qed

theorem outage_drops_documents_witness:
  "quality_of (\<lambda>title texts. Rerank_failed)
     \<lparr>qf_threshold = 4 / 10, qf_detect_boilerplate = True, qf_max_chunks = 500, qf_healthy = True\<rparr> ''Title''
     (map vchunk_of [new_chunk ''A paragraph of some length.'' ''h'']) = Inr []"
  by (subst outage_drops_documents) simp_all

end
