(* ===== verification/Event_Processor.thy ===== *)
theory Event_Processor
  imports Pipelines
begin

text \<open>
  The event-driven pipeline: \<^verbatim>\<open>etl/scheduler/event_processor.py\<close> turns webhook events into documents and puts them into the
  index or removes them, \<^verbatim>\<open>etl/scheduler/stream_consumer.py\<close> feeds it from a Redis stream with a consumer group, and
  \<^verbatim>\<open>delete_by_source_id\<close> of \<^verbatim>\<open>etl/indexer/qdrant_hybrid.py\<close>. A payload is the JSON value its text encodes, \<open>None\<close> when it is
  not JSON. Redis, the scroll call of Qdrant and the rendering of values that are no texts are parameters.
\<close>

subsection \<open>Events to documents\<close>

record event =
  ev_source :: string
  ev_type :: string
  ev_doc_id :: string
  ev_payload :: "json option"

definition SKIP_EVENT_TYPES :: "string list" where
  "SKIP_EVENT_TYPES = [''comment_created'', ''comment_updated'', ''comment_removed'']"

definition DELETE_EVENT_TYPES :: "string list" where
  "DELETE_EVENT_TYPES = [''page_removed'', ''page_deleted'']"

definition and_then :: "exn + 'a \<Rightarrow> ('a \<Rightarrow> exn + 'b) \<Rightarrow> exn + 'b" where
  "and_then x f = (case x of Inl e \<Rightarrow> Inl e | Inr v \<Rightarrow> f v)"

fun json_path :: "json \<Rightarrow> string list \<Rightarrow> string \<Rightarrow> exn + json" where
  \<comment> \<open>\<^verbatim>\<open>v.get(k1, {}).get(k2, {})...get(k)\<close>\<close>
  "json_path v [] k = json_get v k JNull"
| "json_path v (k1 # ks) k = and_then (json_get v k1 (JObj [])) (\<lambda>w. json_path w ks k)"

definition or_else :: "exn + json \<Rightarrow> (unit \<Rightarrow> exn + json) \<Rightarrow> exn + json" where
  \<comment> \<open>\<^verbatim>\<open>a or b\<close>, where \<^verbatim>\<open>b\<close> is evaluated only when \<^verbatim>\<open>a\<close> is false\<close>
  "or_else a b = and_then a (\<lambda>v. if truthy v then Inr v else b ())"

definition stripped_text :: "json \<Rightarrow> exn + string" where
  "stripped_text v = (case v of JStr s \<Rightarrow> Inr (strip s) | _ \<Rightarrow> Inl (PyException ''AttributeError'' ''strip''))"

definition normalize_document_id :: "string \<Rightarrow> string \<Rightarrow> string" where
  "normalize_document_id source ident =
     (let lead = source @ ''_'' in if starts_with lead ident then ident else lead @ ident)"

definition prefixed :: "string \<Rightarrow> string \<Rightarrow> string \<Rightarrow> string" where
  "prefixed test lead ident = (if starts_with test ident then ident else lead @ ident)"

definition confluence_document :: "(json \<Rightarrow> string) \<Rightarrow> string \<Rightarrow> string \<Rightarrow> json \<Rightarrow> exn + etl_doc option" where
  "confluence_document render event_type ident payload =
     and_then (json_get payload ''page'' payload) (\<lambda>page.
     and_then (json_get page ''title'' (JStr [])) (\<lambda>title.
     and_then (or_else (json_path page [''body'', ''storage''] ''value'')
                (\<lambda>_. or_else (json_path page [''body'', ''view''] ''value'')
                       (\<lambda>_. or_else (json_get page ''body_storage_raw'' JNull) (\<lambda>_. Inr (JStr []))))) (\<lambda>content.
     and_then (stripped_text content) (\<lambda>text.
       if text = [] then Inr None
       else
         and_then (json_get page ''version'' (JObj [])) (\<lambda>version.
         and_then (if is_obj version then json_get version ''number'' (JStr ''latest'') else Inr version) (\<lambda>number.
         and_then (json_get page ''id'' (JStr ident)) (\<lambda>page_id.
         and_then (json_get page ''space'' JNull) (\<lambda>space.
         and_then (if is_obj space then json_get space ''key'' (JStr []) else Inr (JStr [])) (\<lambda>space_key.
           Inr (Some
             \<lparr>doc_id = prefixed ''confluence_'' ''confluence_'' ident, doc_source = ''confluence'', doc_name = str_value title,
              doc_content = Some (str_value content), doc_ctype = ''html'',
              doc_metadata = [(''version'', JStr (str_with render number)), (''page_id'', JStr (str_with render page_id)),
                (''space_key'', space_key), (''event_type'', JStr event_type)]\<rparr>))))))))))"

definition json_list :: "json \<Rightarrow> exn + json list" where
  \<comment> \<open>slicing and iterating; what is no list raises\<close>
  "json_list v = (case v of JList xs \<Rightarrow> Inr xs | _ \<Rightarrow> Inl (TypeError ''not a list''))"

definition json_text :: "json \<Rightarrow> exn + string" where
  "json_text v = (case v of JStr s \<Rightarrow> Inr s | _ \<Rightarrow> Inl (TypeError ''expected str''))"

definition diff_part :: "(json \<Rightarrow> string) \<Rightarrow> json \<Rightarrow> exn + string list" where
  "diff_part render diff =
     and_then (json_get diff ''new_path'' (JStr [])) (\<lambda>path.
     and_then (json_get diff ''diff'' (JStr [])) (\<lambda>d.
     and_then (json_text d) (\<lambda>text. Inr [str_with render path @ '': '' @ take 200 text])))"

definition commit_parts :: "(json \<Rightarrow> string) \<Rightarrow> json \<Rightarrow> exn + string list" where
  "commit_parts render commit =
     and_then (json_get commit ''message'' (JStr [])) (\<lambda>message.
     and_then (json_get commit ''diff'' (JList [])) (\<lambda>diffs.
     and_then (json_list diffs) (\<lambda>ds.
     and_then (collect_each (diff_part render) (take 5 ds)) (\<lambda>parts.
     and_then (if truthy message then map_sum id (\<lambda>s. [s]) (json_text message) else Inr []) (\<lambda>m. Inr (m @ parts))))))"

definition push_document :: "(json \<Rightarrow> string) \<Rightarrow> string \<Rightarrow> json \<Rightarrow> json \<Rightarrow> exn + etl_doc option" where
  "push_document render ident project_name payload =
     and_then (json_get payload ''commits'' (JList [])) (\<lambda>commits.
     and_then (json_list commits) (\<lambda>cs.
     and_then (collect_each (commit_parts render) (take 100 cs)) (\<lambda>parts.
       let content = join [newline_char] parts in
       if strip content = [] then Inr None
       else Inr (Some
         \<lparr>doc_id = prefixed ''gitlab_'' ''gitlab_push_'' ident, doc_source = ''gitlab_commit'',
          doc_name = ''Push to '' @ str_with render project_name, doc_content = Some content, doc_ctype = ''markdown'',
          doc_metadata = [(''project'', project_name), (''event_type'', JStr ''push'')]\<rparr>))))"

definition gitlab_document :: "(json \<Rightarrow> string) \<Rightarrow> string \<Rightarrow> string \<Rightarrow> json \<Rightarrow> exn + etl_doc option" where
  "gitlab_document render event_type ident payload =
     and_then (json_get payload ''project'' (JObj [])) (\<lambda>project.
     and_then (if is_obj project then json_get project ''name'' (JStr ident) else Inr (JStr ident)) (\<lambda>project_name.
       if event_type = ''push'' then push_document render ident project_name payload
       else if event_type = ''merge_request'' \<or> event_type = ''wiki_page'' then
         and_then (json_get payload ''object_attributes'' (JObj [])) (\<lambda>attrs.
         and_then (json_get attrs ''title'' (JStr [])) (\<lambda>title.
         and_then (or_else (json_get attrs ''description'' (JStr []))
                     (\<lambda>_. or_else (json_get attrs ''content'' (JStr [])) (\<lambda>_. Inr title))) (\<lambda>content.
           let text = str_with render content; mr = (event_type = ''merge_request'') in
           if strip text = [] then Inr None
           else Inr (Some
             \<lparr>doc_id = prefixed ''gitlab_'' (if mr then ''gitlab_mr_'' else ''gitlab_wiki_'') ident,
              doc_source = (if mr then ''gitlab_merge_request'' else ''gitlab_wiki''), doc_name = str_value title,
              doc_content = Some text, doc_ctype = ''markdown'',
              doc_metadata = [(''project'', project_name), (''event_type'', JStr event_type)]\<rparr>))))
       else Inr None))"

definition event_to_document :: "(json \<Rightarrow> string) \<Rightarrow> string \<Rightarrow> string \<Rightarrow> string \<Rightarrow> json \<Rightarrow> exn + etl_doc option" where
  "event_to_document render source event_type ident payload =
     (if event_type \<in> set SKIP_EVENT_TYPES then Inr None
      else if source = ''confluence'' then confluence_document render event_type ident payload
      else if source = ''gitlab'' then gitlab_document render event_type ident payload
      else Inr None)"

subsection \<open>Deletion by document\<close>

type_synonym ('q, 'o) scroll = "string \<Rightarrow> nat \<Rightarrow> 'o option \<Rightarrow> 'q \<Rightarrow> (exn + string list \<times> 'o option) \<times> 'q"
  \<comment> \<open>one page of the ids of the points with a source id, from an offset on, and the offset of the next page\<close>

partial_function (option) delete_pages ::
  "('v, 'q) qdrant \<Rightarrow> ('q, 'o) scroll \<Rightarrow> string \<Rightarrow> 'o option \<Rightarrow> nat \<Rightarrow> 'q \<Rightarrow> ((exn + nat) \<times> 'q) option" where
  "delete_pages cl scr source_id next_offset deleted q =
     (case scr source_id (batch_size cl) next_offset q of
        (Inl e, q1) \<Rightarrow> Some (if is_exception e then Inr 0 else Inl e, q1)
      | (Inr (ids, next_offset1), q1) \<Rightarrow>
          (case (if ids = [] then (Inr (), q1) else delete_points cl ids q1) of
             (Inl e, q2) \<Rightarrow> Some (if is_exception e then Inr 0 else Inl e, q2)
           | (Inr _, q2) \<Rightarrow>
               (if next_offset1 = None then Some (Inr (deleted + length ids), q2)
                else delete_pages cl scr source_id next_offset1 (deleted + length ids) q2)))"

definition delete_by_source_id ::
  "('v, 'q) qdrant \<Rightarrow> ('q, 'o) scroll \<Rightarrow> string \<Rightarrow> 'q \<Rightarrow> ((exn + nat) \<times> 'q) option" where
  \<comment> \<open>\<open>None\<close>: the loop does not end\<close>
  "delete_by_source_id cl scr source_id q =
     (if source_id = [] then Some (Inr 0, q) else delete_pages cl scr source_id None 0 q)"

subsection \<open>The processor\<close>

record event_stats =
  st_processed :: nat
  st_skipped :: nat
  st_failed :: nat
  st_chunks_indexed :: nat

record ('v, 'q, 'o) event_env =
  \<comment> \<open>whether the chunker and the indexer can be created at this call, what they are, and the optional enricher\<close>
  ee_chunker_ok :: bool
  ee_indexer_ok :: bool
  ee_enricher :: "(string \<Rightarrow> exn + enrichment) option"
  ee_chunks :: chunk_env
  ee_client :: "('v, 'q) qdrant"
  ee_scroll :: "('q, 'o) scroll"
  ee_render :: "json \<Rightarrow> string"

record 'q processor =
  ep_chunker_ready :: bool
  ep_indexer_ready :: bool
  ep_enricher_checked :: bool
  ep_enricher :: "(string \<Rightarrow> exn + enrichment) option"
  ep_stats :: event_stats
  ep_index :: 'q
  ep_store :: vstore

definition ensure_components :: "('v, 'q, 'o) event_env \<Rightarrow> 'q processor \<Rightarrow> bool \<times> 'q processor" where
  "ensure_components E P =
     (if ep_chunker_ready P \<and> ep_indexer_ready P then (True, P)
      else if \<not> ep_chunker_ready P \<and> \<not> ee_chunker_ok E then (False, P)
      else
        (let P = P\<lparr>ep_chunker_ready := True\<rparr> in
         if \<not> ep_indexer_ready P \<and> \<not> ee_indexer_ok E then (False, P)
         else
           (let P = P\<lparr>ep_indexer_ready := True\<rparr> in
            (True, if ep_enricher_checked P then P else P\<lparr>ep_enricher_checked := True, ep_enricher := ee_enricher E\<rparr>))))"

definition count_failed :: "'q processor \<Rightarrow> 'q processor" where
  "count_failed P = P\<lparr>ep_stats := (ep_stats P)\<lparr>st_failed := st_failed (ep_stats P) + 1\<rparr>\<rparr>"

definition count_skipped :: "'q processor \<Rightarrow> 'q processor" where
  "count_skipped P = P\<lparr>ep_stats := (ep_stats P)\<lparr>st_skipped := st_skipped (ep_stats P) + 1\<rparr>\<rparr>"

definition count_processed :: "nat \<Rightarrow> 'q processor \<Rightarrow> 'q processor" where
  "count_processed n P =
     P\<lparr>ep_stats := (ep_stats P)\<lparr>st_processed := st_processed (ep_stats P) + 1,
                                 st_chunks_indexed := st_chunks_indexed (ep_stats P) + n\<rparr>\<rparr>"

definition delete_document ::
  "('v, 'q, 'o) event_env \<Rightarrow> string \<Rightarrow> string \<Rightarrow> 'q processor \<Rightarrow> ((exn + bool) \<times> 'q processor) option" where
  \<comment> \<open>\<open>None\<close>: the loop over the pages does not end\<close>
  "delete_document E source ident P =
     (let document_id = normalize_document_id source ident; (ok, P) = ensure_components E P in
      if \<not> ok then Some (Inr False, P)
      else
        map_option
          (\<lambda>(r, q).
             (let P = P\<lparr>ep_index := q\<rparr> in
              case r of
                Inl e \<Rightarrow> (if is_exception e then Inr False else Inl e, P)
              | Inr deleted \<Rightarrow> (Inr True, P\<lparr>ep_store := reset_store (Some document_id) (ep_store P)\<rparr>)))
          (delete_by_source_id (ee_client E) (ee_scroll E) document_id (ep_index P)))"

definition index_document :: "('v, 'q, 'o) event_env \<Rightarrow> etl_doc \<Rightarrow> 'q processor \<Rightarrow> (exn + bool) \<times> 'q processor" where
  \<comment> \<open>the part of \<^verbatim>\<open>process_event\<close> after the event has become a document\<close>
  "index_document E d P =
     (let (ok, P) = ensure_components E P in
      if \<not> ok then (Inr False, count_failed P)
      else
        (case process_content (ee_chunks E) d of
           Inl e \<Rightarrow> (Inr False, count_failed P)
         | Inr chunks \<Rightarrow>
             (let cs = enrich_streamed (ep_enricher P) (map vchunk_of chunks) in
              if cs = [] then (Inr True, count_skipped P)
              else
                (let (r, q) = index_chunks (ee_client E) cs (ep_index P); P = P\<lparr>ep_index := q\<rparr> in
                 case r of
                   Inl e \<Rightarrow> if is_exception e then (Inr False, count_failed P) else (Inl e, P)
                 | Inr indexed \<Rightarrow>
                     if indexed = 0 then (Inr False, count_failed P) else (Inr True, count_processed indexed P)))))"

definition process_event :: "('v, 'q, 'o) event_env \<Rightarrow> event \<Rightarrow> 'q processor \<Rightarrow> ((exn + bool) \<times> 'q processor) option" where
  "process_event E ev P =
     (if ev_source ev = [] then Some (Inr False, P)
      else
        (case ev_payload ev of
           None \<Rightarrow> Some (Inr False, P)
         | Some payload \<Rightarrow>
             if ev_type ev \<in> set DELETE_EVENT_TYPES \<and> ev_source ev \<in> {''confluence'', ''gitlab''}
             then map_option
                    (\<lambda>(r, P). case r of
                                Inl e \<Rightarrow> (Inl e, P)
                              | Inr ok \<Rightarrow> (Inr ok, if ok then count_processed 0 P else count_failed P))
                    (delete_document E (ev_source ev) (ev_doc_id ev) P)
             else
               (case event_to_document (ee_render E) (ev_source ev) (ev_type ev) (ev_doc_id ev) payload of
                  Inl e \<Rightarrow> Some (Inl e, P)
                | Inr None \<Rightarrow> Some (Inr True, count_skipped P)
                | Inr (Some d) \<Rightarrow> Some (index_document E d P))))"

subsection \<open>The consumer\<close>

record ('m, 'r) redis_ops =
  rd_group_create :: "'r \<Rightarrow> (exn + unit) \<times> 'r"
  rd_read_new :: "nat \<Rightarrow> 'r \<Rightarrow> (exn + (string \<times> 'm) list) \<times> 'r"
  \<comment> \<open>\<^verbatim>\<open>XREADGROUP ... >\<close>, at most the given number of messages\<close>
  rd_ack :: "string \<Rightarrow> 'r \<Rightarrow> (exn + unit) \<times> 'r"
  rd_pending :: "'r \<Rightarrow> (exn + nat) \<times> 'r"
  rd_autoclaim :: "'r \<Rightarrow> (exn + (string \<times> 'm) list) \<times> 'r"

type_synonym ('m, 's) event_handler = "'m \<Rightarrow> 's \<Rightarrow> (exn + bool) \<times> 's"

definition claim_pending :: "('m, 'r) redis_ops \<Rightarrow> 'r \<Rightarrow> (exn + nat) \<times> 'r" where
  "claim_pending R r =
     (let guard = (\<lambda>(x, r). (case x of Inl e \<Rightarrow> if is_exception e then Inr 0 else Inl e | Inr n \<Rightarrow> Inr n, r)) in
      case rd_pending R r of
        (Inl e, r) \<Rightarrow> guard (Inl e, r)
      | (Inr n, r) \<Rightarrow>
          if n = 0 then (Inr 0, r)
          else (case rd_autoclaim R r of
                  (Inl e, r) \<Rightarrow> guard (Inl e, r)
                | (Inr claimed, r) \<Rightarrow> (Inr (length claimed), r)))"

definition acknowledge :: "('m, 'r) redis_ops \<Rightarrow> bool \<Rightarrow> string \<Rightarrow> 'r \<Rightarrow> (exn + nat) \<times> 'r" where
  "acknowledge R success i r =
     (if \<not> success then (Inr 0, r)
      else case rd_ack R i r of
             (Inr _, r) \<Rightarrow> (Inr 1, r)
           | (Inl e, r) \<Rightarrow> (if is_exception e then Inr 0 else Inl e, r))"

fun consume_messages ::
  "('m, 'r) redis_ops \<Rightarrow> ('m, 's) event_handler \<Rightarrow> (string \<times> 'm) list \<Rightarrow> 's \<Rightarrow> 'r \<Rightarrow> (exn + nat) \<times> string list \<times> 's \<times> 'r" where
  \<comment> \<open>the number of acknowledged messages; also the ids of the messages that were handed to the handler, in their order\<close>
  "consume_messages R h [] s r = (Inr 0, [], s, r)"
| "consume_messages R h ((i, m) # ms) s r =
     (case h m s of
        (Inl e, s) \<Rightarrow> (Inl e, [i], s, r)
      | (Inr success, s) \<Rightarrow>
          (let (a, r) = acknowledge R success i r
           in case a of
                Inl e \<Rightarrow> (Inl e, [i], s, r)
              | Inr k \<Rightarrow>
                  (let (n, is, s, r) = consume_messages R h ms s r
                   in (map_sum id (\<lambda>n. k + n) n, i # is, s, r))))"

definition consume_batch ::
  "('m, 'r) redis_ops \<Rightarrow> ('m, 's) event_handler \<Rightarrow> nat \<Rightarrow> 's \<Rightarrow> 'r \<Rightarrow> (exn + nat) \<times> string list \<times> 's \<times> 'r" where
  "consume_batch R h limit s r =
     (case rd_group_create R r of
        (g, r) \<Rightarrow>
          (case (case g of Inl e \<Rightarrow> if is_exception e then Inr () else Inl e | Inr _ \<Rightarrow> Inr ()) of
             Inl e \<Rightarrow> (Inl e, [], s, r)
           | Inr _ \<Rightarrow>
               (case rd_read_new R limit r of
                  (Inl e, r) \<Rightarrow> (if is_exception e then Inr 0 else Inl e, [], s, r)
                | (Inr ms, r) \<Rightarrow> consume_messages R h ms s r)))"

fun consume_loop ::
  "('m, 'r) redis_ops \<Rightarrow> ('m, 's) event_handler \<Rightarrow> nat \<Rightarrow> nat \<Rightarrow> 's \<Rightarrow> 'r \<Rightarrow> string list \<times> 's \<times> 'r" where
  \<comment> \<open>rounds of the loop of \<^verbatim>\<open>run_forever\<close> while it runs: an exception is logged and the next round follows; an interrupt or
     another exception that is no \<^verbatim>\<open>Exception\<close> ends it\<close>
  "consume_loop R h limit 0 s r = ([], s, r)"
| "consume_loop R h limit (Suc k) s r =
     (case consume_batch R h limit s r of
        (x, is, s, r) \<Rightarrow>
          (if (case x of Inl e \<Rightarrow> \<not> is_exception e | Inr _ \<Rightarrow> False) then (is, s, r)
           else (let (js, s, r) = consume_loop R h limit k s r in (is @ js, s, r))))"

definition run_forever ::
  "('m, 'r) redis_ops \<Rightarrow> ('m, 's) event_handler \<Rightarrow> nat \<Rightarrow> nat \<Rightarrow> 's \<Rightarrow> 'r \<Rightarrow> string list \<times> 's \<times> 'r" where
  "run_forever R h limit k s r =
     (case claim_pending R r of
        (Inl e, r) \<Rightarrow> ([], s, r)
      | (Inr n, r) \<Rightarrow> consume_loop R h limit k s r)"

fun service ::
  "('m, 'r) redis_ops \<Rightarrow> ('m, 's) event_handler \<Rightarrow> nat \<Rightarrow> (nat \<times> 's) list \<Rightarrow> 'r \<Rightarrow> string list \<times> 'r" where
  \<comment> \<open>a consumer that is started again and again, each time with its rounds and its initial state\<close>
  "service R h limit [] r = ([], r)"
| "service R h limit ((k, s) # starts) r =
     (let (is, s, r) = run_forever R h limit k s r; (js, r) = service R h limit starts r in (is @ js, r))"

subsection \<open>Deleted documents\<close>

lemma ensure_ready: "ep_chunker_ready P \<Longrightarrow> ep_indexer_ready P \<Longrightarrow> ensure_components E P = (True, P)"
  by (simp add: ensure_components_def)

definition ready :: "('v, 'q, 'o) event_env \<Rightarrow> 'q processor \<Rightarrow> bool" where
  \<comment> \<open>the components exist or can be created now\<close>
  "ready E P \<longleftrightarrow> (ep_chunker_ready P \<or> ee_chunker_ok E) \<and> (ep_indexer_ready P \<or> ee_indexer_ok E)"

lemma ensure_components_ready: "fst (ensure_components E P) \<longleftrightarrow> ready E P"
  by (simp add: ensure_components_def ready_def Let_def)

lemma ensure_components_keeps:
  "ep_index (snd (ensure_components E P)) = ep_index P" "ep_stats (snd (ensure_components E P)) = ep_stats P"
  "ep_store (snd (ensure_components E P)) = ep_store P"
  by (simp_all add: ensure_components_def Let_def)

definition deletion_event :: "event \<Rightarrow> bool" where
  "deletion_event ev \<longleftrightarrow> ev_type ev \<in> set DELETE_EVENT_TYPES \<and> ev_source ev \<in> {''confluence'', ''gitlab''} \<and> ev_payload ev \<noteq> None"

lemma process_deletion:
  assumes "deletion_event ev" and "ready E P"
    and "delete_by_source_id (ee_client E) (ee_scroll E) (normalize_document_id (ev_source ev) (ev_doc_id ev)) (ep_index P) =
      Some (Inr n, q)"
  shows "\<exists>P'. process_event E ev P = Some (Inr True, P') \<and> ep_index P' = q \<and>
    ep_stats P' = (ep_stats P)\<lparr>st_processed := st_processed (ep_stats P) + 1\<rparr>"
proof -
  obtain P1 where P1: "ensure_components E P = (True, P1)"
    using assms(2) ensure_components_ready [of E P] by (cases "ensure_components E P") simp
  have keep: "ep_index P1 = ep_index P" "ep_stats P1 = ep_stats P" using ensure_components_keeps [of E P] P1 by simp_all
  obtain payload where "ev_payload ev = Some payload" and src: "ev_source ev \<noteq> []"
    using assms(1) by (auto simp: deletion_event_def)
  then show ?thesis
    using assms(1,3) P1 keep
    by (simp add: process_event_def deletion_event_def delete_document_def count_processed_def Let_def)
qed

text \<open>
  A deletion that fails is acknowledged. \<^verbatim>\<open>delete_by_source_id\<close> catches the errors of Qdrant and returns 0, so that, as it
  says, the event can be retried; \<^verbatim>\<open>_delete_document\<close> takes any number for a success. When the first page of points cannot
  be read, the event is counted as processed and acknowledged, and the document stays in the index.
\<close>

theorem failed_deletion_acknowledged:
  assumes "deletion_event ev" and "ready E P"
    and "ee_scroll E (normalize_document_id (ev_source ev) (ev_doc_id ev)) (batch_size (ee_client E)) None (ep_index P) = (Inl e, ep_index P)"
    and "is_exception e"
  shows "\<exists>P'. process_event E ev P = Some (Inr True, P') \<and> ep_index P' = ep_index P \<and>
    st_processed (ep_stats P') = st_processed (ep_stats P) + 1 \<and> st_failed (ep_stats P') = st_failed (ep_stats P)"
proof -
  have ne: "normalize_document_id (ev_source ev) (ev_doc_id ev) \<noteq> []"
    by (cases "ev_doc_id ev") (simp_all add: normalize_document_id_def Let_def starts_with_def)
  have "delete_by_source_id (ee_client E) (ee_scroll E) (normalize_document_id (ev_source ev) (ev_doc_id ev)) (ep_index P) =
      Some (Inr 0, ep_index P)"
    using ne assms(3,4) by (simp add: delete_by_source_id_def delete_pages.simps)
  from process_deletion [OF assms(1,2) this] show ?thesis by force
qed

definition matching :: "(string \<Rightarrow> 'v point option) \<Rightarrow> string \<Rightarrow> string set" where
  "matching f source_id = {i. \<exists>p. f i = Some p \<and> map_of (ppayload p) ''source_id'' = Some (JStr source_id)}"

definition scrolling :: "('q \<Rightarrow> string \<Rightarrow> 'v point option) \<Rightarrow> ('q, string) scroll \<Rightarrow> bool" where
  \<comment> \<open>documented behaviour of Qdrant: the matching points in the order of their ids, from the offset on, and the id of the
     point after the page, if there is one\<close>
  "scrolling look scr \<longleftrightarrow>
     (\<forall>src n off q. scr src n off q =
        (let ids = sorted_list_of_set {i \<in> matching (look q) src. \<forall>o'. off = Some o' \<longrightarrow> o' \<le> i}
         in (Inr (take n ids, if n < length ids then Some (ids ! n) else None), q)))"

lemma matching_deleted: "matching (\<lambda>i. if i \<in> D then None else f i) src = matching f src - D"
  by (auto simp: matching_def)

lemma delete_pages_all:
  assumes "accepting cl look" and "scrolling look scr" and "0 < batch_size cl"
  shows "finite (matching (look q) src) \<Longrightarrow> \<forall>i \<in> matching (look q) src. \<forall>o'. off = Some o' \<longrightarrow> o' \<le> i \<Longrightarrow>
    \<exists>q'. delete_pages cl scr src off d q = Some (Inr (d + card (matching (look q) src)), q') \<and>
      look q' = (\<lambda>i. if i \<in> matching (look q) src then None else look q i)"
proof (induction "card (matching (look q) src)" arbitrary: q off d rule: less_induct)
  case less
  let ?M = "matching (look q) src" and ?n = "batch_size cl"
  define ids where "ids = sorted_list_of_set ?M"
  have ids: "set ids = ?M" "distinct ids" "sorted ids" "length ids = card ?M"
    using less.prems(1) by (simp_all add: ids_def)
  have page: "scr src ?n off q = (Inr (take ?n ids, if ?n < length ids then Some (ids ! ?n) else None), q)"
  proof -
    have "{i \<in> ?M. \<forall>o'. off = Some o' \<longrightarrow> o' \<le> i} = ?M" using less.prems(2) by blast
    then show ?thesis using assms(2) by (simp add: scrolling_def ids_def Let_def)
  qed
  let ?D = "set (take ?n ids)"
  obtain q2 where del: "(if take ?n ids = [] then (Inr (), q) else delete_points cl (take ?n ids) q) = (Inr (), q2)"
    and look2: "look q2 = (\<lambda>i. if i \<in> ?D then None else look q i)"
    using accepting_delete [OF assms(1), of "take ?n ids" q] by (cases "take ?n ids = []") auto
  have M2: "matching (look q2) src = ?M - ?D" unfolding look2 by (rule matching_deleted)
  have step: "delete_pages cl scr src off d q =
      (if ?n < length ids then delete_pages cl scr src (Some (ids ! ?n)) (d + length (take ?n ids)) q2
       else Some (Inr (d + length (take ?n ids)), q2))"
    by (subst delete_pages.simps, simp only: page prod.case sum.case del) simp
  have D: "?D \<subseteq> ?M" using ids(1) set_take_subset by metis
  show ?case
  proof (cases "?n < length ids")
    case False
    then have "take ?n ids = ids" by simp
    then show ?thesis using step look2 ids False by simp
  next
    case True
    have cD: "card ?D = ?n" using True ids(2) by (simp add: distinct_card)
    have c2: "card (?M - ?D) = card ?M - ?n" using D less.prems(1) cD by (simp add: card_Diff_subset finite_subset)
    have lt: "card (matching (look q2) src) < card ?M" using M2 c2 True ids(4) assms(3) by simp
    have "\<forall>i \<in> ?M - ?D. ids ! ?n \<le> i"
    proof
      fix i assume i: "i \<in> ?M - ?D"
      then obtain k where k: "k < length ids" "ids ! k = i" using ids(1) by (metis Diff_iff in_set_conv_nth)
      have "\<not> k < ?n"
      proof
        assume "k < ?n"
        then have "i \<in> ?D" using k by (metis in_set_conv_nth length_take min_less_iff_conj nth_take)
        with i show False by simp
      qed
      then show "ids ! ?n \<le> i" using k ids(3) by (metis linorder_not_less sorted_nth_mono)
    qed
    then have "\<exists>q'. delete_pages cl scr src (Some (ids ! ?n)) (d + length (take ?n ids)) q2 =
        Some (Inr (d + length (take ?n ids) + card (matching (look q2) src)), q') \<and>
        look q' = (\<lambda>i. if i \<in> matching (look q2) src then None else look q2 i)"
      by (intro less.hyps [OF lt]) (use M2 less.prems(1) in simp_all)
    then obtain q' where rec: "delete_pages cl scr src (Some (ids ! ?n)) (d + length (take ?n ids)) q2 =
        Some (Inr (d + length (take ?n ids) + card (matching (look q2) src)), q')"
      and look': "look q' = (\<lambda>i. if i \<in> matching (look q2) src then None else look q2 i)" by blast
    have "length (take ?n ids) + card (matching (look q2) src) = card ?M" using True M2 c2 ids(4) by simp
    then have "delete_pages cl scr src off d q = Some (Inr (d + card ?M), q')"
      using step rec True by (simp add: add.assoc)
    moreover have "look q' = (\<lambda>i. if i \<in> ?M then None else look q i)"
      unfolding look' M2 using D by (auto simp: look2 fun_eq_iff)
    ultimately show ?thesis by blast
  qed
qed

text \<open>
  C16. When Qdrant works, a deletion ends and removes exactly the points of the document: the scroll through the pages reaches
  all of them although points are deleted in between. (Assumed: Qdrant accepts every write, and a scroll lists the matching
  points in the order of their ids.)
\<close>

theorem deletion_removes_document:
  assumes "deletion_event ev" and "ready E P" and "accepting (ee_client E) look" and "scrolling look (ee_scroll E)"
    and "0 < batch_size (ee_client E)"
    and "D = matching (look (ep_index P)) (normalize_document_id (ev_source ev) (ev_doc_id ev))" and "finite D"
  shows "\<exists>P'. process_event E ev P = Some (Inr True, P') \<and>
    look (ep_index P') = (\<lambda>i. if i \<in> D then None else look (ep_index P) i)"
proof -
  let ?i = "normalize_document_id (ev_source ev) (ev_doc_id ev)"
  have ne: "?i \<noteq> []"
    by (cases "ev_doc_id ev") (simp_all add: normalize_document_id_def Let_def starts_with_def)
  obtain q' where "delete_pages (ee_client E) (ee_scroll E) ?i None 0 (ep_index P) = Some (Inr (card D), q')"
    and look': "look q' = (\<lambda>i. if i \<in> D then None else look (ep_index P) i)"
    using delete_pages_all [OF assms(3,4,5), of "ep_index P" ?i None 0] assms(6,7) by auto
  then have "delete_by_source_id (ee_client E) (ee_scroll E) ?i (ep_index P) = Some (Inr (card D), q')"
    using ne by (simp add: delete_by_source_id_def)
  from process_deletion [OF assms(1,2) this] look' show ?thesis by auto
qed

definition sorted_scroll :: "((string, unit point) dict, string) scroll" where
  "sorted_scroll src n off q =
     (let ids = sorted_list_of_set {i \<in> matching (map_of q) src. \<forall>o'. off = Some o' \<longrightarrow> o' \<le> i}
      in (Inr (take n ids, if n < length ids then Some (ids ! n) else None), q))"

definition sample_event_env :: "((string, unit point) dict, string) scroll \<Rightarrow> (unit, (string, unit point) dict, string) event_env" where
  "sample_event_env scr = \<lparr>ee_chunker_ok = True, ee_indexer_ok = True, ee_enricher = None, ee_chunks = sample_setup,
     ee_client = alist_client, ee_scroll = scr, ee_render = (\<lambda>v. [])\<rparr>"

definition sample_processor :: "(string, unit point) dict processor" where
  "sample_processor = \<lparr>ep_chunker_ready = False, ep_indexer_ready = False, ep_enricher_checked = False, ep_enricher = None,
     ep_stats = \<lparr>st_processed = 0, st_skipped = 0, st_failed = 0, st_chunks_indexed = 0\<rparr>,
     ep_index = [(''u1'', \<lparr>pid = ''u1'', pvector = (), ppayload = [(''source_id'', JStr ''confluence_7'')]\<rparr>)],
     ep_store = init_vstore True\<rparr>"

definition removal :: event where
  "removal = \<lparr>ev_source = ''confluence'', ev_type = ''page_removed'', ev_doc_id = ''7'', ev_payload = Some (JObj [])\<rparr>"

lemma removal_simps [simp]:
  "deletion_event removal" "ready (sample_event_env scr) sample_processor" "ee_client (sample_event_env scr) = alist_client"
  "ee_scroll (sample_event_env scr) = scr" "normalize_document_id (ev_source removal) (ev_doc_id removal) = ''confluence_7''"
  by (simp_all add: deletion_event_def removal_def DELETE_EVENT_TYPES_def ready_def sample_event_env_def
      normalize_document_id_def starts_with_def)

theorem failed_deletion_acknowledged_witness:
  "\<exists>P'. process_event (sample_event_env (\<lambda>src n off q. (Inl (PyException ''ConnectionError'' []), q))) removal sample_processor =
      Some (Inr True, P') \<and> map_of (ep_index P') ''u1'' \<noteq> None"
proof -
  let ?E = "sample_event_env (\<lambda>src n off q. (Inl (PyException ''ConnectionError'' []), q))"
  have "\<exists>P'. process_event ?E removal sample_processor = Some (Inr True, P') \<and> ep_index P' = ep_index sample_processor \<and>
      st_processed (ep_stats P') = st_processed (ep_stats sample_processor) + 1 \<and>
      st_failed (ep_stats P') = st_failed (ep_stats sample_processor)"
    by (rule failed_deletion_acknowledged [where e = "PyException ''ConnectionError'' []"]) simp_all
  then show ?thesis by (auto simp: sample_processor_def)
qed

theorem deletion_removes_document_witness:
  "\<exists>P'. process_event (sample_event_env sorted_scroll) removal sample_processor = Some (Inr True, P') \<and> map_of (ep_index P') ''u1'' = None"
proof -
  let ?E = "sample_event_env sorted_scroll"
  have scr: "scrolling map_of (ee_scroll ?E)" by (simp add: scrolling_def sorted_scroll_def)
  have D: "matching (map_of (ep_index sample_processor)) (normalize_document_id (ev_source removal) (ev_doc_id removal)) = {''u1''}"
    by (auto simp: matching_def sample_processor_def)
  have acc: "accepting (ee_client ?E) map_of" by (simp add: alist_client_accepting)
  from deletion_removes_document [OF removal_simps(1,2) acc scr _ D [symmetric]] show ?thesis by auto
qed

subsection \<open>Ids of documents\<close>

lemma and_then_Some: "and_then x f = Inr y \<longleftrightarrow> (\<exists>v. x = Inr v \<and> f v = Inr y)"
  by (simp add: and_then_def split: sum.split)

text \<open>
  The id under which a Confluence page is indexed from an event is the one that a deletion event looks for. For GitLab it
  is not: unless the id in the event already starts with \<^verbatim>\<open>gitlab_\<close>, documents are indexed under \<^verbatim>\<open>gitlab_push_\<close>,
  \<^verbatim>\<open>gitlab_mr_\<close> or \<^verbatim>\<open>gitlab_wiki_\<close> and deletions look for \<^verbatim>\<open>gitlab_\<close>, so that a deleted wiki page stays in the index.
\<close>

theorem deletion_ids:
  assumes "event_to_document render source ty ident payload = Inr (Some d)"
  shows "if source = ''confluence'' then doc_id d = normalize_document_id source ident
    else source = ''gitlab'' \<and> (doc_id d = normalize_document_id source ident \<longleftrightarrow> starts_with ''gitlab_'' ident)"
proof (cases "source = ''confluence''")
  case True
  then have "confluence_document render ty ident payload = Inr (Some d)"
    using assms by (simp add: event_to_document_def split: if_splits)
  then show ?thesis using True
    by (auto simp: confluence_document_def and_then_Some prefixed_def normalize_document_id_def split: if_splits)
next
  case False
  then have src: "source = ''gitlab''" and g: "gitlab_document render ty ident payload = Inr (Some d)"
    using assms by (auto simp: event_to_document_def split: if_splits)
  obtain lead where lead: "doc_id d = prefixed ''gitlab_'' lead ident" "lead \<in> {''gitlab_push_'', ''gitlab_mr_'', ''gitlab_wiki_''}"
    using g by (auto simp: gitlab_document_def push_document_def and_then_Some Let_def split: if_splits)
  have "lead @ ident \<noteq> ''gitlab_'' @ ident" using lead(2) by auto
  then show ?thesis using lead(1) src by (auto simp: prefixed_def normalize_document_id_def)
qed

theorem deletion_ids_witness:
  "case event_to_document (\<lambda>v. []) ''gitlab'' ''wiki_page'' ''home''
      (JObj [(''object_attributes'', JObj [(''title'', JStr ''Home''), (''content'', JStr ''Text'')])]) of
    Inr (Some d) \<Rightarrow> doc_id d \<noteq> normalize_document_id ''gitlab'' ''home'' | _ \<Rightarrow> False"
proof -
  let ?e = "event_to_document (\<lambda>v. []) ''gitlab'' ''wiki_page'' ''home''
      (JObj [(''object_attributes'', JObj [(''title'', JStr ''Home''), (''content'', JStr ''Text'')])])"
  have "case ?e of Inr (Some d) \<Rightarrow> True | _ \<Rightarrow> False" by code_simp
  then obtain d where d: "?e = Inr (Some d)" by (auto split: sum.splits option.splits)
  have "\<not> starts_with ''gitlab_'' ''home''" by (simp add: starts_with_def)
  then show ?thesis using deletion_ids [OF d] by (simp add: d)
qed

subsection \<open>Each message is handed over at most once\<close>

definition delivers_once :: "('m, 'r) redis_ops \<Rightarrow> ('r \<Rightarrow> string set) \<Rightarrow> bool" where
  \<comment> \<open>documented behaviour of Redis for a group that is not destroyed: \<^verbatim>\<open>XREADGROUP\<close> with \<^verbatim>\<open>>\<close> gives messages that were never
     delivered to the group before, and what was delivered stays so; others may be delivered messages at any time\<close>
  "delivers_once R deliv \<longleftrightarrow>
     (\<forall>n r ms r'. rd_read_new R n r = (Inr ms, r') \<longrightarrow>
        distinct (map fst ms) \<and> set (map fst ms) \<inter> deliv r = {} \<and> deliv r \<union> set (map fst ms) \<subseteq> deliv r') \<and>
     (\<forall>n r. deliv r \<subseteq> deliv (snd (rd_read_new R n r))) \<and> (\<forall>r. deliv r \<subseteq> deliv (snd (rd_group_create R r))) \<and>
     (\<forall>i r. deliv r \<subseteq> deliv (snd (rd_ack R i r))) \<and> (\<forall>r. deliv r \<subseteq> deliv (snd (rd_pending R r))) \<and>
     (\<forall>r. deliv r \<subseteq> deliv (snd (rd_autoclaim R r)))"

lemma delivers_once_reads:
  assumes "delivers_once R deliv" and "rd_read_new R n r = (Inr ms, r')"
  shows "distinct (map fst ms) \<and> set (map fst ms) \<inter> deliv r = {} \<and> deliv r \<union> set (map fst ms) \<subseteq> deliv r'"
  by (rule conjunct1 [OF assms(1) [unfolded delivers_once_def], rule_format, OF assms(2)])

lemma delivers_once_grows:
  assumes "delivers_once R deliv"
  shows "rd_read_new R n r = (y, r') \<Longrightarrow> deliv r \<subseteq> deliv r'" and "rd_group_create R r = (x, r') \<Longrightarrow> deliv r \<subseteq> deliv r'"
    and "rd_ack R i r = (x, r') \<Longrightarrow> deliv r \<subseteq> deliv r'" and "rd_pending R r = (c, r') \<Longrightarrow> deliv r \<subseteq> deliv r'"
    and "rd_autoclaim R r = (y, r') \<Longrightarrow> deliv r \<subseteq> deliv r'"
proof -
  have grow: "\<forall>n r. deliv r \<subseteq> deliv (snd (rd_read_new R n r))" "\<forall>r. deliv r \<subseteq> deliv (snd (rd_group_create R r))"
    "\<forall>i r. deliv r \<subseteq> deliv (snd (rd_ack R i r))" "\<forall>r. deliv r \<subseteq> deliv (snd (rd_pending R r))"
    "\<forall>r. deliv r \<subseteq> deliv (snd (rd_autoclaim R r))"
    by (insert assms [unfolded delivers_once_def]) (elim conjE; assumption)+
  show "rd_read_new R n r = (y, r') \<Longrightarrow> deliv r \<subseteq> deliv r'" using grow(1) [rule_format, of r n] by simp
  show "rd_group_create R r = (x, r') \<Longrightarrow> deliv r \<subseteq> deliv r'" using grow(2) [rule_format, of r] by simp
  show "rd_ack R i r = (x, r') \<Longrightarrow> deliv r \<subseteq> deliv r'" using grow(3) [rule_format, of r i] by simp
  show "rd_pending R r = (c, r') \<Longrightarrow> deliv r \<subseteq> deliv r'" using grow(4) [rule_format, of r] by simp
  show "rd_autoclaim R r = (y, r') \<Longrightarrow> deliv r \<subseteq> deliv r'" using grow(5) [rule_format, of r] by simp
qed

lemma consume_messages_handed:
  assumes "delivers_once R deliv"
  shows "consume_messages R h ms s r = (x, is, s', r') \<Longrightarrow> (\<exists>k. is = take k (map fst ms)) \<and> deliv r \<subseteq> deliv r'"
proof (induction ms arbitrary: s r x "is" s' r')
  case (Cons im ms)
  obtain i m where im: "im = (i, m)" by (cases im)
  obtain y s1 where h: "h m s = (y, s1)" by (metis surj_pair)
  show ?case
  proof (cases y)
    case (Inl e)
    then have "is = take 1 (map fst (im # ms))" and "r' = r" using Cons.prems im h by auto
    then show ?thesis by blast
  next
    case (Inr success)
    obtain a r1 where a: "acknowledge R success i r = (a, r1)" by (metis surj_pair)
    have d1: "deliv r \<subseteq> deliv r1"
    proof (cases success)
      case True
      obtain b r2 where "rd_ack R i r = (b, r2)" by (metis surj_pair)
      moreover from this have "r1 = r2" using a True by (simp add: acknowledge_def split: sum.splits)
      ultimately show ?thesis using delivers_once_grows(3) [OF assms] by simp
    qed (use a in \<open>simp add: acknowledge_def\<close>)
    show ?thesis
    proof (cases a)
      case (Inl e)
      then have "is = take 1 (map fst (im # ms))" and "r' = r1" using Cons.prems im h Inr a by auto
      then show ?thesis using d1 by blast
    next
      case k: (Inr k)
      obtain n js s2 r2 where rec: "consume_messages R h ms s1 r1 = (n, js, s2, r2)" by (metis surj_pair)
      then have out: "is = i # js" "r' = r2" using Cons.prems im h Inr a k by auto
      obtain l where "js = take l (map fst ms)" and "deliv r1 \<subseteq> deliv r2" using Cons.IH [OF rec] by blast
      then have "is = take (Suc l) (map fst (im # ms))" "deliv r \<subseteq> deliv r'" using out im d1 by auto
      then show ?thesis by blast
    qed
  qed
qed simp

lemma consume_batch_handed:
  assumes "delivers_once R deliv" and "consume_batch R h n s r = (x, is, s', r')"
  shows "distinct is \<and> set is \<inter> deliv r = {} \<and> set is \<subseteq> deliv r' \<and> deliv r \<subseteq> deliv r'"
proof -
  obtain g r0 where g: "rd_group_create R r = (g, r0)" by (metis surj_pair)
  have d0: "deliv r \<subseteq> deliv r0" by (rule delivers_once_grows(2) [OF assms(1) g])
  show ?thesis
  proof (cases "case g of Inl e \<Rightarrow> \<not> is_exception e | Inr _ \<Rightarrow> False")
    case True
    then have "is = []" "r' = r0" using assms(2) g by (auto simp: consume_batch_def split: sum.splits)
    then show ?thesis using d0 by simp
  next
    case False
    have go: "consume_batch R h n s r = (case rd_read_new R n r0 of
                  (Inl e, r) \<Rightarrow> (if is_exception e then Inr 0 else Inl e, [], s, r)
                | (Inr ms, r) \<Rightarrow> consume_messages R h ms s r)"
      using False g by (cases g) (simp_all add: consume_batch_def)
    obtain y r1 where rd: "rd_read_new R n r0 = (y, r1)" by (metis surj_pair)
    show ?thesis
    proof (cases y)
      case (Inl e)
      have "deliv r0 \<subseteq> deliv r1" by (rule delivers_once_grows(1) [OF assms(1)]) (use rd Inl in simp)
      then show ?thesis using go rd Inl d0 assms(2) by auto
    next
      case (Inr ms)
      have del: "distinct (map fst ms) \<and> set (map fst ms) \<inter> deliv r0 = {} \<and> deliv r0 \<union> set (map fst ms) \<subseteq> deliv r1"
        by (rule delivers_once_reads [OF assms(1)]) (use rd Inr in simp)
      have "consume_messages R h ms s r1 = (x, is, s', r')" using go rd Inr assms(2) by simp
      from consume_messages_handed [OF assms(1) this] obtain k where k: "is = take k (map fst ms)" "deliv r1 \<subseteq> deliv r'" by blast
      have "set is \<subseteq> set (map fst ms)" unfolding k(1) by (rule set_take_subset)
      moreover have "distinct is" unfolding k(1) using del by (simp only: distinct_take)
      ultimately show ?thesis using del d0 k(2) by blast
    qed
  qed
qed

lemma consume_loop_handed:
  assumes "delivers_once R deliv"
  shows "consume_loop R h n k s r = (is, s', r') \<Longrightarrow>
    distinct is \<and> set is \<inter> deliv r = {} \<and> set is \<subseteq> deliv r' \<and> deliv r \<subseteq> deliv r'"
proof (induction k arbitrary: s r "is" s' r')
  case (Suc k)
  obtain x js s1 r1 where b: "consume_batch R h n s r = (x, js, s1, r1)" by (metis surj_pair)
  note batch = consume_batch_handed [OF assms b]
  show ?case
  proof (cases "case x of Inl e \<Rightarrow> \<not> is_exception e | Inr _ \<Rightarrow> False")
    case True
    then have "is = js" "r' = r1" using Suc.prems b by simp_all
    then show ?thesis using batch by simp
  next
    case False
    obtain ks s2 r2 where rest: "consume_loop R h n k s1 r1 = (ks, s2, r2)" by (metis surj_pair)
    have "is = js @ ks" "r' = r2" using Suc.prems b False rest by simp_all
    moreover note Suc.IH [OF rest]
    ultimately show ?thesis using batch by auto
  qed
qed simp

lemma claim_pending_grows:
  assumes "delivers_once R deliv"
  shows "claim_pending R r = (x, r') \<Longrightarrow> deliv r \<subseteq> deliv r'"
proof -
  assume c: "claim_pending R r = (x, r')"
  obtain y r1 where p: "rd_pending R r = (y, r1)" by (metis surj_pair)
  obtain z r2 where a: "rd_autoclaim R r1 = (z, r2)" by (metis surj_pair)
  have "r' = r1 \<or> r' = r2" using c by (auto simp: claim_pending_def p a Let_def split: sum.splits if_splits)
  with delivers_once_grows(4) [OF assms p] delivers_once_grows(5) [OF assms a] show ?thesis by blast
qed

lemma run_forever_handed:
  assumes "delivers_once R deliv" and "run_forever R h n k s r = (is, s', r')"
  shows "distinct is \<and> set is \<inter> deliv r = {} \<and> set is \<subseteq> deliv r' \<and> deliv r \<subseteq> deliv r'"
proof -
  obtain y r1 where c: "claim_pending R r = (y, r1)" by (metis surj_pair)
  note d = claim_pending_grows [OF assms(1) c]
  show ?thesis
  proof (cases y)
    case (Inl e)
    then show ?thesis using assms(2) c d by (simp add: run_forever_def)
  next
    case (Inr m)
    then have "consume_loop R h n k s r1 = (is, s', r')" using assms(2) c by (simp add: run_forever_def)
    from consume_loop_handed [OF assms(1) this] d show ?thesis by auto
  qed
qed

lemma service_handed:
  assumes "delivers_once R deliv"
  shows "service R h n starts r = (is, r') \<Longrightarrow> distinct is \<and> set is \<inter> deliv r = {} \<and> set is \<subseteq> deliv r' \<and> deliv r \<subseteq> deliv r'"
proof (induction starts arbitrary: r "is" r')
  case (Cons st starts)
  obtain k s where st: "st = (k, s)" by (cases st)
  obtain js s1 r1 where one: "run_forever R h n k s r = (js, s1, r1)" by (metis surj_pair)
  obtain ks r2 where rest: "service R h n starts r1 = (ks, r2)" by (metis surj_pair)
  have "is = js @ ks" "r' = r2" using Cons.prems st one rest by simp_all
  moreover note run_forever_handed [OF assms one] Cons.IH [OF rest]
  ultimately show ?case by auto
qed simp

text \<open>
  C15. An event is never retried. Take any batch of a running consumer, whether it created the group or met the one that is
  there: it hands an initial part of what it read to the processor, and neither the later rounds of that run (\<open>js\<close>) nor any
  later start of the consumer (\<open>ls\<close>), each of which claims the pending messages first, ever hands over one of the messages that
  were read: not those whose processing failed and that were left unacknowledged to be retried, and not the rest of a batch
  that an exception of the processor ended. This rests on what Redis documents for a group that is not destroyed.
\<close>

theorem events_never_retried:
  assumes "delivers_once R deliv" and "rd_group_create R r = (g, r0)"
    and "(case g of Inl e \<Rightarrow> is_exception e | Inr u \<Rightarrow> True)" and "rd_read_new R n r0 = (Inr ms, r1)"
    and "consume_batch R h n s r = (x, is, s', r')" and "consume_loop R h n k s' r' = (js, s2, r2)"
    and "service R h n starts r2 = (ls, r3)"
  shows "(\<exists>l. is = take l (map fst ms)) \<and> distinct (is @ js @ ls) \<and> set (js @ ls) \<inter> set (map fst ms) = {}"
proof -
  note d1 = delivers_once_reads [OF assms(1,4)]
  have "consume_messages R h ms s r1 = (x, is, s', r')" using assms(2-5) by (cases g) (simp_all add: consume_batch_def)
  from consume_messages_handed [OF assms(1) this] obtain l where l: "is = take l (map fst ms)" and d: "deliv r1 \<subseteq> deliv r'" by blast
  note loop = consume_loop_handed [OF assms(1,6)] and serv = service_handed [OF assms(1,7)]
  have sub: "set is \<subseteq> set (map fst ms)" unfolding l by (rule set_take_subset)
  have "distinct is" using d1 unfolding l by (simp only: distinct_take)
  moreover have "set (map fst ms) \<subseteq> deliv r'" using d1 d by blast
  then have "set js \<inter> set (map fst ms) = {}" "set ls \<inter> set (map fst ms) = {}" "set ls \<inter> set js = {}"
    using loop serv by blast+
  ultimately show ?thesis using l sub loop serv by auto
qed

definition sample_id :: "nat \<Rightarrow> string" where
  "sample_id i = replicate i (CHR ''x'')"

definition sample_stream :: "(bool, nat) redis_ops" where
  \<comment> \<open>a stream of messages whose state is the number of delivered ones, nine in all; the group is there once one is delivered,
     and message 1 is always pending\<close>
  "sample_stream =
     \<lparr>rd_group_create = (\<lambda>r. (if r = 0 then Inr () else Inl (PyException ''ResponseError'' ''BUSYGROUP''), r)),
      rd_read_new = (\<lambda>n r. (Inr (map (\<lambda>i. (sample_id i, i \<noteq> 1)) [r..<max r (min 9 (r + n))]), max r (min 9 (r + n)))),
      rd_ack = (\<lambda>i r. (Inr (), r)), rd_pending = (\<lambda>r. (Inr 1, r)), rd_autoclaim = (\<lambda>r. (Inr [(sample_id 1, False)], r))\<rparr>"

lemma sample_stream_once: "delivers_once sample_stream (\<lambda>r. sample_id ` {..<r})"
proof -
  have inj: "inj sample_id" by (auto simp: inj_def sample_id_def)
  show ?thesis unfolding delivers_once_def
  proof (intro conjI allI impI)
    fix n r ms r' assume "rd_read_new sample_stream n r = (Inr ms, r')"
    then have ms: "map fst ms = map sample_id [r..<r']" and le: "r \<le> r'"
      by (auto simp: sample_stream_def comp_def)
    show "distinct (map fst ms)" unfolding ms using inj by (simp add: distinct_map inj_on_def inj_def)
    show "set (map fst ms) \<inter> sample_id ` {..<r} = {}" unfolding ms using inj by (auto simp: inj_eq)
    show "sample_id ` {..<r} \<union> set (map fst ms) \<subseteq> sample_id ` {..<r'}" unfolding ms using le by auto
  qed (auto simp: sample_stream_def)
qed

theorem events_never_retried_witness:
  "consume_batch sample_stream (\<lambda>m s. (Inr m, s)) 2 () 1 = (Inr 1, [sample_id 1, sample_id 2], (), 3) \<and>
   sample_id 1 \<notin> set (fst (consume_loop sample_stream (\<lambda>m s. (Inr m, s)) 2 5 () 3)) \<and>
   sample_id 1 \<notin> set (fst (service sample_stream (\<lambda>m s. (Inr m, s)) 2 [(3, ()), (4, ())]
     (snd (snd (consume_loop sample_stream (\<lambda>m s. (Inr m, s)) 2 5 () 3)))))"
proof -
  let ?h = "\<lambda>m s. (Inr m, s)"
  have b: "consume_batch sample_stream ?h 2 () 1 = (Inr 1, [sample_id 1, sample_id 2], (), 3)"
    by (simp add: consume_batch_def sample_stream_def acknowledge_def upt_rec numeral_2_eq_2 numeral_3_eq_3)
  obtain js s2 r2 where l: "consume_loop sample_stream ?h 2 5 () 3 = (js, s2, r2)" by (metis surj_pair)
  obtain ls r3 where v: "service sample_stream ?h 2 [(3, ()), (4, ())] r2 = (ls, r3)" by (metis surj_pair)
  have "set (js @ ls) \<inter> set (map fst [(sample_id 1, False), (sample_id 2, True)]) = {}"
    using events_never_retried [OF sample_stream_once _ _ _ b l v, of "Inl (PyException ''ResponseError'' ''BUSYGROUP'')" 1
        "[(sample_id 1, False), (sample_id 2, True)]" 3]
    by (simp add: sample_stream_def upt_rec numeral_2_eq_2 numeral_3_eq_3)
  then show ?thesis using b l v by auto
qed

subsection \<open>Updates\<close>

lemma update_keeps_stale_chunks:
  \<comment> \<open>an update event writes the new chunks and removes nothing\<close>
  assumes "accepting (ee_client E) look" and "0 < batch_size (ee_client E)" and "inj (uuid5 (ee_client E))"
    and "index_document E d P = (r, P')"
    and "\<And>cs. process_content (ee_chunks E) d = Inr cs \<Longrightarrow> h \<notin> c_hash ` set cs"
  shows "look (ep_index P') (uuid5 (ee_client E) h) = look (ep_index P) (uuid5 (ee_client E) h)"
proof -
  obtain ok P1 where P1: "ensure_components E P = (ok, P1)" by (metis surj_pair)
  have keep: "ep_index P1 = ep_index P" using ensure_components_keeps(1) [of E P] P1 by simp
  show ?thesis
  proof (cases "ok \<and> (\<exists>cs. process_content (ee_chunks E) d = Inr cs)")
    case False
    then have "ep_index P' = ep_index P"
      using assms(4) P1 keep
      by (cases "process_content (ee_chunks E) d"; cases "ok") (auto simp: index_document_def count_failed_def)
    then show ?thesis by simp
  next
    case True
    then obtain cs where cs: "process_content (ee_chunks E) d = Inr cs" and ok: "ok" by blast
    let ?vs = "enrich_streamed (ep_enricher P1) (map vchunk_of cs)"
    have "vhash (enrich_present f v) = vhash v" for f v
      by (simp add: enrich_present_def set_strings_def Let_def split: sum.split)
    then have "vhash ` set ?vs = c_hash ` set cs"
      by (auto simp: enrich_streamed_def vchunk_of_def image_image split: option.split)
    then have h: "h \<notin> vhash ` set ?vs" using assms(5) [OF cs] by simp
    obtain n q where q: "index_chunks (ee_client E) ?vs (ep_index P1) = (Inr n, q)"
      and look: "look q = overlay (look (ep_index P1)) (List.map_filter (chunk_to_point (ee_client E)) ?vs)"
      using index_chunks_accepting [OF assms(1,2)] by blast
    have "ep_index P' = ep_index P \<or> ep_index P' = q"
      using assms(4) P1 cs ok keep q
      by (auto simp: index_document_def Let_def count_failed_def count_skipped_def count_processed_def split: if_splits)
    moreover have "uuid5 (ee_client E) h \<notin> pid ` set (List.map_filter (chunk_to_point (ee_client E)) ?vs)"
      unfolding points_of_chunks using h inj_image_mem_iff [OF assms(3)] by auto
    then have "look q (uuid5 (ee_client E) h) = look (ep_index P) (uuid5 (ee_client E) h)"
      unfolding look keep by (rule overlay_other)
    ultimately show ?thesis by auto
  qed
qed

end
