(* ===== verification/Query_Routing.thy ===== *)
theory Query_Routing
  imports Patterns Confidence
begin

text \<open>
  The query router, \<^verbatim>\<open>proxy/app/core/query_router.py\<close>: the direct patterns, the heuristic complexity of a query, its
  classification and the retrieval parameters of a class. Texts are over the first 256 code points: the Russian patterns,
  boosters and keywords of the source match none of them and are left out, and a text without Cyrillic letters is
  graded by the English formula.
\<close>

subsection \<open>Direct patterns\<close>

definition word_boundary :: "position \<Rightarrow> bool" where
  \<comment> \<open>\<^verbatim>\<open>\b\<close>\<close>
  "word_boundary x =
     ((case fst x of None \<Rightarrow> False | Some c \<Rightarrow> word_char c) \<noteq> (case snd x of [] \<Rightarrow> False | c # cs \<Rightarrow> word_char c))"

definition DIRECT_PATTERNS :: "pattern list" where
  \<comment> \<open>the alternatives between \<^verbatim>\<open>^(\<close> and \<^verbatim>\<open>)\b\<close>\<close>
  "DIRECT_PATTERNS =
     [any_of [''hi'', ''hello'', ''hey'', ''good morning'', ''good afternoon'', ''good evening''],
      any_of [''thank'', ''thanks'', ''thank you''],
      any_of [''yes'', ''no'', ''ok'', ''okay'', ''sure''],
      any_of [''bye'', ''goodbye'', ''see you''],
      any_of [''what time'', ''what date'', ''what day''],
      any_of [''how are you'', ''how do you do''],
      any_of [''help'', ''menu'', ''options'']]"

definition is_direct :: "string \<Rightarrow> bool" where
  "is_direct query_lower = list_ex (\<lambda>r. list_ex word_boundary (rests r (None, query_lower))) DIRECT_PATTERNS"

definition COMPLEX_BOOSTERS :: "(string \<times> int) list" where
  "COMPLEX_BOOSTERS =
     [(''compare'', 3), (''contrast'', 3), (''differences between'', 3), (''vs'', 2), (''versus'', 2), (''pros and cons'', 3),
      (''advantages and disadvantages'', 3), (''step by step'', 2), (''explain the relationship'', 3),
      (''how does .* affect'', 2), (''what would happen if'', 2), (''first .* then .* finally'', 2), (''trade-?off'', 2),
      (''alternative'', 1), (''analyze'', 2), (''evaluate'', 2), (''benchmark'', 2)]"

definition SIMPLE_BOOSTERS :: "(string \<times> int) list" where
  "SIMPLE_BOOSTERS =
     [(''what is'', 2), (''what are'', 2), (''how to'', 1), (''how do'', 1), (''how can'', 1), (''where is'', 1),
      (''when is'', 1), (''define'', 2), (''meaning of'', 2), (''list of'', 1), (''give me'', 1), (''show me'', 1),
      (''find'', 1)]"

definition RETRIEVAL_KEYWORDS :: "string list" where
  "RETRIEVAL_KEYWORDS =
     [''document'', ''documentation'', ''guide'', ''manual'', ''specification'', ''config'', ''configuration'', ''setting'',
      ''parameter'', ''option'', ''error'', ''issue'', ''problem'', ''bug'', ''fix'', ''solution'', ''how to'', ''how do'',
      ''how can'', ''what is'', ''what are'', ''explain'', ''describe'', ''define'', ''meaning'', ''example'', ''sample'',
      ''template'', ''pattern'', ''version'', ''release'', ''changelog'', ''update'']"

subsection \<open>Readability\<close>

definition word_count :: "string \<Rightarrow> nat" where
  "word_count text = length (filter (\<lambda>w. w \<noteq> []) (py_split text))"

fun runs_from :: "(char \<Rightarrow> bool) \<Rightarrow> string \<Rightarrow> string \<Rightarrow> string list" where
  \<comment> \<open>\<^verbatim>\<open>re.findall(r"[...]+", text)\<close>, with the characters of the current run\<close>
  "runs_from f w [] = (if w = [] then [] else [w])"
| "runs_from f w (c # cs) =
     (if f c then runs_from f (w @ [c]) cs else if w = [] then runs_from f [] cs else w # runs_from f [] cs)"

definition sentence_count :: "string \<Rightarrow> nat" where
  "sentence_count text = max 1 (length (runs_from (\<lambda>c. c \<in> {CHR ''.'', CHR ''!'', CHR ''?''}) [] text))"

definition latin_letter :: "char \<Rightarrow> bool" where
  "latin_letter c \<longleftrightarrow> CHR ''A'' \<le> c \<and> c \<le> CHR ''Z'' \<or> CHR ''a'' \<le> c \<and> c \<le> CHR ''z''"

definition syllable_count_en :: "string \<Rightarrow> nat" where
  \<comment> \<open>on a word of letters, as \<^verbatim>\<open>flesch_kincaid_grade\<close> calls it: there is no punctuation to strip and its only word
    boundaries are its ends\<close>
  "syllable_count_en w =
     (let w = py_lower w in
      if w = [] then 0
      else
        (let w = (if last w = CHR ''e'' then butlast w else w)
         in max 1 (length (runs_from (\<lambda>c. c \<in> set ''aeiouy'') [] w))))"

definition flesch_kincaid_grade :: "string \<Rightarrow> real" where
  "flesch_kincaid_grade text =
     (let ws = runs_from latin_letter [] text in
      if ws = [] then 0
      else
        (let sentences = max 1 (sentence_count text);
             syllables = sum_list (map syllable_count_en ws);
             words_n = length ws
         in 39/100 * (real words_n / real sentences) + 118/10 * (real syllables / real words_n) - 1559/100))"

subsection \<open>Complexity\<close>

definition boost :: "(string \<times> int) list \<Rightarrow> string \<Rightarrow> int" where
  "boost table text = sum_list (map snd (filter (\<lambda>(phrase, b). contains phrase text) table))"

definition base_score :: "nat \<Rightarrow> int" where
  "base_score words_n =
     (if words_n \<le> 2 then 1 else if words_n \<le> 5 then 3 else if words_n \<le> 10 then 5 else if words_n \<le> 18 then 7 else 9)"

definition complexity_score :: "string \<Rightarrow> int" where
  "complexity_score query =
     (let text = strip query in
      if text = [] then 1
      else
        (let text_lower = py_lower text;
             words_n = word_count text;
             sc = base_score words_n;
             sc = sc + boost COMPLEX_BOOSTERS text_lower;
             sc = sc - boost SIMPLE_BOOSTERS text_lower;
             questions = length (filter (\<lambda>c. c = CHR ''?'') text_lower);
             sc = (if questions > 1 then sc + 2 else if questions = 1 \<and> words_n > 8 then sc + 1 else sc);
             readability = flesch_kincaid_grade text;
             sc = (if readability > 12 then sc + 2 else if readability > 8 then sc + 1 else sc)
         in max 1 (min 10 sc)))"

definition MULTI_THRESHOLD :: int where
  "MULTI_THRESHOLD = 7"

definition DIRECT_THRESHOLD :: int where
  "DIRECT_THRESHOLD = 3"

definition classify :: "string \<Rightarrow> string" where
  "classify query =
     (let query_lower = strip (py_lower query) in
      if query_lower = [] then ''direct''
      else if is_direct query_lower then ''direct''
      else
        (let sc = complexity_score query;
             has_retrieval_kw = list_ex (\<lambda>kw. contains kw query_lower) RETRIEVAL_KEYWORDS
         in if length (py_split query_lower) \<le> 3 \<and> \<not> has_retrieval_kw \<and> sc \<le> DIRECT_THRESHOLD then ''direct''
            else if sc \<ge> MULTI_THRESHOLD then ''multi'' else ''single''))"

record retrieval_params =
  rp_retrieve :: bool
  rp_top_k :: int
  rp_rerank :: bool
  rp_max_iterations :: int

definition get_retrieval_params :: "string \<Rightarrow> retrieval_params" where
  "get_retrieval_params complexity =
     (if complexity = ''direct'' then \<lparr>rp_retrieve = False, rp_top_k = 0, rp_rerank = False, rp_max_iterations = 0\<rparr>
      else if complexity = ''single'' then \<lparr>rp_retrieve = True, rp_top_k = 10, rp_rerank = True, rp_max_iterations = 1\<rparr>
      else \<lparr>rp_retrieve = True, rp_top_k = 15, rp_rerank = True, rp_max_iterations = 3\<rparr>)"

definition dynamic_top_k_from_complexity :: "int \<Rightarrow> int \<Rightarrow> int" where
  "dynamic_top_k_from_complexity complexity max_default =
     dict_getd [(1, 5), (2, 5), (3, 10), (4, 10), (5, 15), (6, 20), (7, 25), (8, 35), (9, 40), (10, 50)]
       complexity max_default"

definition retrieves :: "string \<Rightarrow> bool" where
  \<comment> \<open>what \<^verbatim>\<open>process_rag_query\<close> asks the router\<close>
  "retrieves query = rp_retrieve (get_retrieval_params (classify query))"

subsection \<open>Properties\<close>

lemma clamped: "1 \<le> max 1 (min 10 x) \<and> max 1 (min 10 x) \<le> (10 :: int)"
  by simp

lemma complexity_score_range: "1 \<le> complexity_score q \<and> complexity_score q \<le> 10"
  unfolding complexity_score_def Let_def by (cases "strip q = []") (simp_all only: if_True if_False clamped, simp)

lemma retrieves_iff: "retrieves q \<longleftrightarrow> classify q \<noteq> ''direct''"
  by (simp add: retrieves_def get_retrieval_params_def)

lemma classify_cases: "classify q = ''direct'' \<or> classify q = ''single'' \<or> classify q = ''multi''"
  unfolding classify_def Let_def by meson

lemma rests_word_prefix: "w \<noteq> [] \<Longrightarrow> py_lower w = w \<Longrightarrow> (Some (last w), s) \<in> set (rests (word w) (p, w @ s))"
proof (induction w arbitrary: p rule: word.induct)
  case (3 c d cs)
  have lower: "py_lower (d # cs) = d # cs" "same_letter c c"
    using "3.prems"(2) by (simp_all add: py_lower_def same_letter_def)
  have "(Some (last (d # cs)), s) \<in> set (rests (word (d # cs)) (Some c, (d # cs) @ s))"
    by (rule "3.IH") (simp_all add: lower)
  with lower(2) show ?case by simp
qed (simp_all add: same_letter_def)

lemma any_of_word: "w \<in> set ws \<Longrightarrow> set (rests (word w) x) \<subseteq> set (rests (any_of ws) x)"
  by (induction ws rule: any_of.induct) auto

definition lower_char :: "char \<Rightarrow> char" where
  "lower_char c = (let n = of_char c :: nat in
     if 65 \<le> n \<and> n \<le> 90 \<or> 192 \<le> n \<and> n \<le> 222 \<and> n \<noteq> 215 then char_of (n + 32) else c)"

lemma py_lower_map: "py_lower = map lower_char"
  by (simp add: py_lower_def lower_char_def [abs_def])

lemma lower_no_word: "\<not> word_char c \<Longrightarrow> lower_char c = c"
  by (auto simp: word_char_def lower_char_def Let_def)

lemma strip_after:
  assumes "w \<noteq> []" and "\<not> py_space (hd w)" and "\<not> py_space (last w)"
  shows "strip (w @ t) = w @ rev (dropWhile py_space (rev t))"
proof -
  have "dropWhile py_space (w @ t) = w @ t" using assms(1,2) by (cases w) auto
  moreover have "dropWhile py_space (rev w) = rev w" using assms(1,3) by (cases "rev w") (auto simp: hd_rev [symmetric])
  moreover have "dropWhile py_space (rev t @ rev w) =
      (if dropWhile py_space (rev t) = [] then dropWhile py_space (rev w) else dropWhile py_space (rev t) @ rev w)"
    by (auto simp: dropWhile_append)
  ultimately show ?thesis by (simp add: strip_def)
qed

lemma rstrip_prefix: "\<exists>u. t = rev (dropWhile py_space (rev t)) @ u"
proof -
  have "rev t = takeWhile py_space (rev t) @ dropWhile py_space (rev t)" by simp
  then have "t = rev (takeWhile py_space (rev t) @ dropWhile py_space (rev t))" by (metis rev_rev_ident)
  then show ?thesis by (metis rev_append)
qed

definition direct_words :: "string list" where
  "direct_words = [''hi'', ''hello'', ''hey'', ''yes'', ''no'', ''ok'', ''okay'', ''sure'', ''help'', ''menu'', ''options'']"

lemma direct_word_shape:
  "w \<in> set direct_words \<Longrightarrow> py_lower w = w \<and> w \<noteq> [] \<and> \<not> py_space (hd w) \<and> \<not> py_space (last w) \<and> word_char (last w)"
  unfolding direct_words_def by (simp, elim disjE) (simp_all add: py_lower_def py_space_def word_char_def)

lemma direct_word_pattern: "w \<in> set direct_words \<Longrightarrow> \<exists>ws. any_of ws \<in> set DIRECT_PATTERNS \<and> w \<in> set ws"
  unfolding direct_words_def DIRECT_PATTERNS_def by (simp only: list.set insert_iff empty_iff) (elim disjE; fastforce)

text \<open>
  A question that opens with a greeting or a filler word is taken for small talk: whatever follows one of these words
  after a character that ends it, no retrieval takes place.
\<close>
theorem greeting_skips_retrieval:
  assumes "w \<in> set direct_words" and "s = [] \<or> \<not> word_char (hd s)"
  shows "\<not> retrieves (w @ s)"
proof -
  note shape = direct_word_shape [OF assms(1)]
  obtain ws where ws: "any_of ws \<in> set DIRECT_PATTERNS" "w \<in> set ws" using direct_word_pattern [OF assms(1)] by blast
  define t where "t = rev (dropWhile py_space (rev (py_lower s)))"
  have q: "strip (py_lower (w @ s)) = w @ t"
    using strip_after [of w "py_lower s"] shape by (simp add: t_def py_lower_map)
  obtain u where u: "py_lower s = t @ u" using rstrip_prefix [of "py_lower s"] t_def by blast
  have "t = [] \<or> \<not> word_char (hd t)"
  proof (cases t)
    case (Cons c cs)
    with u obtain d ds where "s = d # ds" "c = lower_char d" by (cases s) (auto simp: py_lower_map)
    with assms(2) Cons show ?thesis by (simp add: lower_no_word)
  qed simp
  then have "word_boundary (Some (last w), t)" using shape by (cases t) (simp_all add: word_boundary_def)
  moreover have "(Some (last w), t) \<in> set (rests (any_of ws) (None, w @ t))"
    using any_of_word [OF ws(2)] rests_word_prefix [of w t None] shape by blast
  ultimately have "is_direct (w @ t)" using ws(1) unfolding is_direct_def list_ex_iff by blast
  with q shape have "classify (w @ s) = ''direct''" by (simp add: classify_def)
  then show ?thesis by (simp add: retrieves_iff)
qed

theorem greeting_skips_retrieval_witness: "\<not> retrieves ''help, the replication lag of the ledger keeps growing''"
proof -
  have "''help'' \<in> set direct_words" by (simp add: direct_words_def)
  from greeting_skips_retrieval [OF this, of "'', the replication lag of the ledger keeps growing''"]
  show ?thesis by (simp add: word_char_def)
qed

text \<open>
  Three boosters are written as regular expressions but looked up as plain text: in a query without the characters
  \<^verbatim>\<open>*\<close> and \<^verbatim>\<open>?\<close> they count for nothing.
\<close>
lemma regex_boosters_dead:
  assumes "CHR ''*'' \<notin> set q" and "CHR ''?'' \<notin> set q"
  shows "boost COMPLEX_BOOSTERS q =
    boost (filter (\<lambda>(p, b). CHR ''*'' \<notin> set p \<and> CHR ''?'' \<notin> set p) COMPLEX_BOOSTERS) q"
proof -
  have "filter (\<lambda>(p, b). contains p q) (filter (\<lambda>(p, b). CHR ''*'' \<notin> set p \<and> CHR ''?'' \<notin> set p) table) =
      filter (\<lambda>(p, b). contains p q) table" for table :: "(string \<times> int) list"
    using assms contains_set unfolding filter_filter by (intro filter_cong refl) fastforce
  then show ?thesis by (simp add: boost_def)
qed

end
