(* ===== verification/Conversation.thy ===== *)
theory Conversation
  imports Embedding_Cache Token_Budget "HOL-Library.List_Lexorder"
begin

text \<open>
  The memory tiers of \<^verbatim>\<open>proxy/app/shared/memory_manager.py\<close>: working memory, the entity tracker, the conversation memory with
  its summaries, the query cache, and the store of conversations by session. Clock readings, the rendering of values in
  texts and MD5 are parameters. The clean-up task that runs every few minutes is its body \<open>prune_expired_sessions\<close>.
\<close>

subsection \<open>Working memory\<close>

type_synonym working_memory = "(string, json \<times> real) dict"

definition remember :: "real \<Rightarrow> string \<Rightarrow> json \<Rightarrow> real \<Rightarrow> working_memory \<Rightarrow> working_memory" where
  "remember now key v ttl m = dict_set key (v, now + ttl) m"

definition recall :: "real \<Rightarrow> string \<Rightarrow> working_memory \<Rightarrow> json option \<times> working_memory" where
  "recall now key m =
     (case dict_get m key of
        None \<Rightarrow> (None, m)
      | Some (v, expire_at) \<Rightarrow> (if now > expire_at then (None, dict_del key m) else (Some v, m)))"

definition forget :: "string \<Rightarrow> working_memory \<Rightarrow> working_memory" where
  "forget key m = dict_del key m"

definition clean_expired :: "real \<Rightarrow> working_memory \<Rightarrow> working_memory" where
  "clean_expired now m = filter (\<lambda>(k, v, e). \<not> now > e) m"

definition clip :: "int \<Rightarrow> string \<Rightarrow> string" where
  "clip max_tokens text = (if int (length text) > max_tokens * 4 then slice_to (max_tokens * 4) text @ ''...'' else text)"

abbreviation newline :: string where
  "newline \<equiv> [CHR 0x0A]"

definition get_all_for_context :: "(json \<Rightarrow> string) \<Rightarrow> real \<Rightarrow> int \<Rightarrow> working_memory \<Rightarrow> string \<times> working_memory" where
  "get_all_for_context render now max_tokens m =
     (let m = clean_expired now m in
      if m = [] then ([], m)
      else (clip max_tokens (join newline (map (\<lambda>(k, v, e). ''- '' @ k @ '': '' @ str_with render v) m)), m))"

definition working_memory_len :: "real \<Rightarrow> working_memory \<Rightarrow> nat \<times> working_memory" where
  "working_memory_len now m = (let m = clean_expired now m in (length m, m))"

subsection \<open>Entities\<close>

record entity_tracker =
  entity_counts :: "(string, nat) dict"
  max_entities :: nat

definition strip_chars :: "char set \<Rightarrow> string \<Rightarrow> string" where
  \<comment> \<open>\<^verbatim>\<open>s.strip(chars)\<close>\<close>
  "strip_chars cs s = rev (dropWhile (\<lambda>c. c \<in> cs) (rev (dropWhile (\<lambda>c. c \<in> cs) s)))"

definition is_upper :: "char \<Rightarrow> bool" where
  \<comment> \<open>\<^verbatim>\<open>str.isupper\<close> of one character\<close>
  "is_upper c \<longleftrightarrow> (let n = of_char c :: nat in 65 \<le> n \<and> n \<le> 90 \<or> 192 \<le> n \<and> n \<le> 222 \<and> n \<noteq> 215)"

definition mentions :: "string \<Rightarrow> string list" where
  "mentions text =
     filter (\<lambda>w. length w > 2 \<and> (is_upper (hd w) \<or> CHR ''_'' \<in> set w \<or> CHR ''-'' \<in> set w))
       (map (strip_chars (set (''.,;:!?()[]{}'' @ [CHR 0x27, CHR 0x22]))) (py_split text))"

fun least_key :: "string \<Rightarrow> nat \<Rightarrow> (string, nat) dict \<Rightarrow> string" where
  \<comment> \<open>\<^verbatim>\<open>min(keys, key=count)\<close>: the first of the least\<close>
  "least_key k n [] = k"
| "least_key k n ((k', n') # d) = (if n' < n then least_key k' n' d else least_key k n d)"

lemma least_key_in: "least_key k n d = k \<or> dict_get d (least_key k n d) \<noteq> None"
  by (induction k n d rule: least_key.induct) (auto split: if_splits)

function prune_entities :: "nat \<Rightarrow> (string, nat) dict \<Rightarrow> (string, nat) dict" where
  "prune_entities m d =
     (case d of
        [] \<Rightarrow> []
      | (k, n) # rest \<Rightarrow>
          (if length d > m then prune_entities m (dict_del (least_key k n rest) d) else d))"
  by pat_completeness auto

termination
proof (relation "measure (\<lambda>(m, d). length d)", simp)
  fix m :: nat and d rest :: "(string, nat) dict" and x k n
  assume d: "d = x # rest" "(k, n) = x"
  have "dict_get d (least_key k n rest) \<noteq> None" using least_key_in [of k n rest] d by auto
  then obtain v where "(least_key k n rest, v) \<in> set d" by (auto dest: map_of_SomeD)
  then have "length (dict_del (least_key k n rest) d) < length d"
    unfolding dict_del_def AList.delete_eq by (intro length_filter_less) auto
  then show "((m, dict_del (least_key k n rest) d), m, d) \<in> measure (\<lambda>(m, d). length d)" by simp
qed

declare prune_entities.simps [simp del]

definition track :: "string \<Rightarrow> entity_tracker \<Rightarrow> entity_tracker" where
  "track text t =
     (let d = foldl (\<lambda>d w. dict_set w (dict_getd d w 0 + 1) d) (entity_counts t) (mentions text)
      in t\<lparr>entity_counts := (if length d > max_entities t then prune_entities (max_entities t) d else d)\<rparr>)"

definition get_top_entities :: "nat \<Rightarrow> entity_tracker \<Rightarrow> string list" where
  "get_top_entities top_n t = map fst (take top_n (sort_key (\<lambda>x. - int (snd x)) (entity_counts t)))"

definition entity_context :: "entity_tracker \<Rightarrow> string" where
  "entity_context t =
     (let entities = get_top_entities 5 t in
      if entities = [] then [] else ''Entities mentioned in conversation: '' @ join '', '' entities)"

subsection \<open>Conversation memory\<close>

record turn =
  turn_role :: string
  turn_content :: string
  turn_time :: real
  turn_metadata :: json_obj

record conversation =
  turns :: "turn list"
  summaries :: "string list"
  max_turns_stored :: int
  summary_threshold_tokens :: int
  tracker :: entity_tracker
  total_token_estimate :: int

definition new_conversation :: "int \<Rightarrow> conversation" where
  \<comment> \<open>\<^verbatim>\<open>ConversationMemory(summary_threshold_tokens=...)\<close>\<close>
  "new_conversation threshold_tokens =
     \<lparr>turns = [], summaries = [], max_turns_stored = 100, summary_threshold_tokens = threshold_tokens,
      tracker = \<lparr>entity_counts = [], max_entities = 500\<rparr>, total_token_estimate = 0\<rparr>"

definition token_guess :: "string \<Rightarrow> int" where
  "token_guess s = int (length s) div 4"

definition add_turn :: "real \<Rightarrow> string \<Rightarrow> string \<Rightarrow> json_obj \<Rightarrow> conversation \<Rightarrow> conversation" where
  "add_turn now role content metadata c =
     (let c = c\<lparr>turns := turns c @ [\<lparr>turn_role = role, turn_content = content, turn_time = now, turn_metadata = metadata\<rparr>]\<rparr>;
          c = c\<lparr>tracker := track content (tracker c)\<rparr>;
          c = c\<lparr>total_token_estimate := total_token_estimate c + token_guess content\<rparr>
      in if int (length (turns c)) > max_turns_stored c
         then c\<lparr>turns := slice_from (- max_turns_stored c) (turns c)\<rparr> else c)"

definition turn_line :: "turn \<Rightarrow> string" where
  "turn_line t = turn_role t @ '': '' @ turn_content t"

definition get_context :: "int \<Rightarrow> int \<Rightarrow> bool \<Rightarrow> conversation \<Rightarrow> string" where
  "get_context max_turns max_tokens include_entities c =
     (let lines = map turn_line (slice_from (- max_turns) (turns c));
          entities_str = entity_context (tracker c);
          lines = (if include_entities \<and> entities_str \<noteq> [] then entities_str # lines else lines)
      in clip max_tokens (join newline lines))"

definition context_message :: "conversation \<Rightarrow> (string \<times> string) list" where
  "context_message c =
     (let entities_str = entity_context (tracker c)
      in if entities_str \<noteq> [] then [(''system'', ''[Context] '' @ entities_str)] else [])"

definition get_context_as_messages :: "int \<Rightarrow> conversation \<Rightarrow> (string \<times> string) list" where
  "get_context_as_messages max_turns c =
     context_message c @ map (\<lambda>t. (turn_role t, turn_content t)) (slice_from (- max_turns) (turns c))"

definition get_full_history_as_messages :: "int \<Rightarrow> conversation \<Rightarrow> (string \<times> string) list" where
  "get_full_history_as_messages max_turns c =
     context_message c @
     (if summaries c \<noteq> [] then [(''system'', ''[Previous conversation summary]'' @ newline @ join newline (summaries c))] else []) @
     map (\<lambda>t. (turn_role t, turn_content t)) (slice_from (- max_turns) (turns c))"

definition conversation_tokens :: "conversation \<Rightarrow> int" where
  \<comment> \<open>\<^verbatim>\<open>estimate_tokens\<close>\<close>
  "conversation_tokens c = total_token_estimate c + sum_list (map token_guess (summaries c))"

definition needs_summarization :: "int option \<Rightarrow> conversation \<Rightarrow> bool" where
  "needs_summarization threshold_tokens c =
     (conversation_tokens c >
        (case threshold_tokens of None \<Rightarrow> summary_threshold_tokens c
         | Some t \<Rightarrow> if t = 0 then summary_threshold_tokens c else t))"

definition summary_part :: "turn \<Rightarrow> string" where
  "summary_part t =
     py_upper (take 1 (turn_role t)) @ '': '' @
     map (\<lambda>ch. if ch = CHR 0x0A then CHR '' '' else ch) (take 120 (turn_content t)) @ ''...''"

definition summarize_older_turns :: "int \<Rightarrow> conversation \<Rightarrow> conversation" where
  "summarize_older_turns keep_recent c =
     (if int (length (turns c)) \<le> keep_recent then c
      else
        (let older = slice_to (- keep_recent) (turns c);
             recent = slice_from (- keep_recent) (turns c);
             ss = summaries c @ [''[SUMMARY] '' @ join '' | '' (map summary_part older)]
         in c\<lparr>turns := recent, total_token_estimate := sum_list (map (\<lambda>t. token_guess (turn_content t)) recent),
              summaries := (if length ss > 3 then slice_from (- 3) ss else ss)\<rparr>))"

definition clear_memory :: "conversation \<Rightarrow> conversation" where
  "clear_memory c = c\<lparr>turns := [], summaries := [], tracker := (tracker c)\<lparr>entity_counts := []\<rparr>, total_token_estimate := 0\<rparr>"

definition enrich_query_with_context :: "conversation \<Rightarrow> string \<Rightarrow> string" where
  "enrich_query_with_context c user_query =
     (if turns c = [] then user_query
      else
        (let entities = get_top_entities 5 (tracker c);
             parts = (if entities \<noteq> [] then [''[Entities: '' @ join '', '' entities @ '']''] else []);
             recent = get_context 2 2000 False c;
             parts = parts @ (if recent \<noteq> [] then [''[Previous conversation:'' @ newline @ recent @ newline @ '']''] else [])
         in if parts = [] then user_query else join newline (parts @ [''Current question: '' @ user_query])))"

subsection \<open>Query cache\<close>

record query_cache =
  qc_cache :: "(string, string \<times> real) dict"
  qc_embeddings :: "(string, real list) dict"

definition query_cosine :: "real list \<Rightarrow> real list \<Rightarrow> real" where
  "query_cosine a b =
     (if a = [] \<or> b = [] \<or> length a \<noteq> length b then 0
      else
        (let dot = sum_list (map2 (*) a b);
             norm_a = sqrt (sum_list (map (\<lambda>x. x * x) a));
             norm_b = sqrt (sum_list (map (\<lambda>x. x * x) b))
         in if norm_a = 0 \<or> norm_b = 0 then 0 else dot / (norm_a * norm_b)))"

fun best_entry ::
  "real \<Rightarrow> real list \<Rightarrow> string option \<Rightarrow> real \<Rightarrow> (string \<times> string \<times> real) list \<Rightarrow> query_cache
   \<Rightarrow> (string option \<times> real) \<times> query_cache" where
  \<comment> \<open>the loop of \<^verbatim>\<open>find_similar\<close>, which deletes what has expired\<close>
  "best_entry now q best_key best_score [] qc = ((best_key, best_score), qc)"
| "best_entry now q best_key best_score ((key, r, expire_at) # es) qc =
     (if now > expire_at
      then best_entry now q best_key best_score es
             (qc\<lparr>qc_cache := dict_del key (qc_cache qc), qc_embeddings := dict_del key (qc_embeddings qc)\<rparr>)
      else
        (case dict_get (qc_embeddings qc) key of
           None \<Rightarrow> best_entry now q best_key best_score es qc
         | Some e \<Rightarrow>
             (let sc = query_cosine q e
              in if sc > best_score then best_entry now q (Some key) sc es qc
                 else best_entry now q best_key best_score es qc)))"

definition find_similar :: "real \<Rightarrow> real list \<Rightarrow> real \<Rightarrow> query_cache \<Rightarrow> string option \<times> query_cache" where
  "find_similar now q thr qc =
     (let ((best_key, best_score), qc) = best_entry now q None 0 (qc_cache qc) qc
      in (if truthy_str best_key \<and> best_score \<ge> thr
          then map_option fst (dict_get (qc_cache qc) (the best_key)) else None, qc))"

definition store_query :: "(real list \<Rightarrow> string) \<Rightarrow> real \<Rightarrow> real list \<Rightarrow> string \<Rightarrow> real \<Rightarrow> query_cache \<Rightarrow> query_cache" where
  \<comment> \<open>the first argument is the MD5 digest of the components rounded to six digits\<close>
  "store_query hash now q response ttl qc =
     (let key = hash q
      in qc\<lparr>qc_embeddings := dict_set key q (qc_embeddings qc), qc_cache := dict_set key (response, now + ttl) (qc_cache qc)\<rparr>)"

definition clear_query_cache :: "query_cache \<Rightarrow> query_cache" where
  "clear_query_cache qc = \<lparr>qc_cache = [], qc_embeddings = []\<rparr>"

record memory_manager =
  working_mem :: working_memory
  conversation_mem :: conversation
  query_mem :: query_cache

definition get_full_context :: "(json \<Rightarrow> string) \<Rightarrow> real \<Rightarrow> int \<Rightarrow> int \<Rightarrow> memory_manager \<Rightarrow> string \<times> memory_manager" where
  "get_full_context render now max_turns max_tokens m =
     (let (wm, w) = get_all_for_context render now (max_tokens div 2) (working_mem m);
          parts = (if wm \<noteq> [] then [''Working memory:'' @ newline @ wm] else []);
          cm = get_context max_turns max_tokens True (conversation_mem m);
          parts = parts @ (if cm \<noteq> [] then [''Conversation history:'' @ newline @ cm] else [])
      in (join blank_line parts, m\<lparr>working_mem := w\<rparr>))"

subsection \<open>Sessions\<close>

type_synonym conversation_store = "(string, conversation \<times> real) dict"

definition store_max_entries :: nat where
  "store_max_entries = 1000"

definition prune_store :: "conversation_store \<Rightarrow> conversation_store" where
  "prune_store s =
     (if length s > store_max_entries
      then (let ks = sort (dict_keys s);
                to_remove = take (length ks - store_max_entries div 2) ks
            in foldl (\<lambda>s k. dict_del k s) s to_remove)
      else s)"

definition get_conversation ::
  "real \<Rightarrow> int \<Rightarrow> real \<Rightarrow> string \<Rightarrow> conversation_store \<Rightarrow> (exn + conversation) \<times> conversation_store" where
  \<comment> \<open>arguments: \<^verbatim>\<open>SESSION_TTL\<close>, \<^verbatim>\<open>CONVERSATION_SUMMARY_THRESHOLD_TOKENS\<close>, the time\<close>
  "get_conversation ttl threshold_tokens now sid s =
     (let fresh = (\<lambda>s.
            (let s = prune_store (dict_set sid (new_conversation threshold_tokens, now) s)
             in (case dict_get s sid of None \<Rightarrow> Inl (KeyError sid) | Some (c, t) \<Rightarrow> Inr c, s)))
      in case dict_get s sid of
           None \<Rightarrow> fresh s
         | Some (memory, created_at) \<Rightarrow>
             (if ttl > 0 \<and> now - created_at > ttl then fresh (dict_del sid s) else (Inr memory, s)))"

definition prune_expired_sessions :: "real \<Rightarrow> real \<Rightarrow> conversation_store \<Rightarrow> nat \<times> conversation_store" where
  "prune_expired_sessions ttl now s =
     (if ttl \<le> 0 then (0, s)
      else (let expired = map fst (filter (\<lambda>(k, c, created_at). now - created_at > ttl) s)
            in (length expired, foldl (\<lambda>s k. dict_del k s) s expired)))"

definition clear_conversation :: "string \<Rightarrow> conversation_store \<Rightarrow> conversation_store" where
  "clear_conversation sid s = (if dict_has s sid then dict_del sid s else s)"

subsection \<open>The store of sessions\<close>

lemma foldl_del: "foldl (\<lambda>s k. dict_del k s) s ks = filter (\<lambda>p. fst p \<notin> set ks) s"
proof (induction ks arbitrary: s)
  case (Cons k ks)
  have "dict_del k s = filter (\<lambda>p. fst p \<noteq> k) s"
    by (simp add: dict_del_def AList.delete_eq) (rule filter_cong; auto)
  with Cons.IH show ?case by (simp add: conj_commute)
qed simp

lemma dict_set_absent: "map_of s k = None \<Longrightarrow> dict_set k v s = s @ [(k, v)]"
  unfolding dict_set_def by (induction s) (auto split: if_splits)

lemma map_of_filter_keys: "map_of (filter (\<lambda>p. P (fst p)) s) k = (if P k then map_of s k else None)"
  by (induction s) auto

lemma length_prune_store:
  assumes "dict_ok s"
  shows "dict_ok (prune_store s) \<and> length (prune_store s) = (if length s > 1000 then 500 else length s)"
proof (cases "length s > 1000")
  case True
  define ks where "ks = sort (dict_keys s)"
  let ?r = "take (length ks - 500) ks"
  have d: "distinct ks" "length ks = length s" "set ks = fst ` set s"
    using assms by (simp_all add: ks_def dict_ok_def dict_keys_def)
  have p: "prune_store s = filter (\<lambda>p. fst p \<notin> set ?r) s"
    using True by (simp add: prune_store_def Let_def store_max_entries_def foldl_del ks_def)
  have ok: "dict_ok (prune_store s)" unfolding p using assms by (rule dict_ok_filter)
  have u: "set ks = set ?r \<union> set (drop (length ks - 500) ks)" by (metis append_take_drop_id set_append)
  have i: "set ?r \<inter> set (drop (length ks - 500) ks) = {}" using d(1) by (rule set_take_disj_set_drop_if_distinct) simp
  have "fst ` set (prune_store s) = fst ` set s - set ?r" unfolding p by auto
  also have "\<dots> = set (drop (length ks - 500) ks)" using u i d(3) by blast
  finally have "card (fst ` set (prune_store s)) = 500"
    using True d(1,2) by (simp add: distinct_card)
  moreover have "card (fst ` set (prune_store s)) = length (prune_store s)"
    using ok by (metis dict_ok_def distinct_card length_map set_map)
  ultimately show ?thesis using ok True by simp
qed (use assms in \<open>simp add: prune_store_def store_max_entries_def\<close>)

text \<open>
  A full store turns new sessions away. When a thousand sessions are stored, the next one makes the store drop 501
  of them, in the order of their names and not of their age; a new session among the first 501 names drops itself, and
  \<^verbatim>\<open>get_conversation\<close> raises \<^verbatim>\<open>KeyError\<close>.
\<close>
theorem new_session_lost:
  assumes "dict_ok s" and "length s = 1000" and "\<not> dict_has s sid"
    and "length (filter (\<lambda>k. k < sid) (dict_keys s)) \<le> 500"
  shows "fst (get_conversation ttl th now sid s) = Inl (KeyError sid)"
proof -
  let ?s = "dict_set sid (new_conversation th, now) s"
  have none: "map_of s sid = None" using assms(3) by blast
  define ks where "ks = sort (dict_keys ?s)"
  have keys: "dict_keys ?s = dict_keys s @ [sid]" using none by (simp add: dict_set_absent dict_keys_def)
  have len: "length ks = 1001" "length ?s = 1001" using assms(2) none by (simp_all add: ks_def dict_keys_def dict_set_absent)
  have ok: "dict_ok ?s" using assms(1) by simp
  then have dist: "distinct ks" by (simp add: ks_def dict_ok_def dict_keys_def)
  have "sid \<in> set ks" by (simp add: ks_def keys)
  have "sid \<in> set (take 501 ks)"
  proof (rule ccontr)
    assume out: "sid \<notin> set (take 501 ks)"
    have "sorted_wrt (\<le>) ks" by (simp add: ks_def)
    from sorted_prefix_dominates [OF this _ \<open>sid \<in> set ks\<close> out]
    have "set (take 501 ks) \<subseteq> {k. k < sid}" using out by (force simp: order.order_iff_strict)
    moreover have "set (take 501 ks) \<subseteq> set (dict_keys s)"
    proof
      fix x assume x: "x \<in> set (take 501 ks)"
      then have "x \<in> set ks" by (rule in_set_takeD)
      then have "x \<in> set (dict_keys s @ [sid])" unfolding ks_def keys set_sort .
      with x out show "x \<in> set (dict_keys s)" by auto
    qed
    ultimately have "set (take 501 ks) \<subseteq> set (filter (\<lambda>k. k < sid) (dict_keys s))" by auto
    then have "card (set (take 501 ks)) \<le> length (filter (\<lambda>k. k < sid) (dict_keys s))"
      by (meson card_length card_mono finite_set le_trans)
    moreover have "card (set (take 501 ks)) = 501" using dist len(1) by (simp add: distinct_card)
    ultimately show False using assms(4) by simp
  qed
  moreover have "prune_store ?s = filter (\<lambda>p. fst p \<notin> set (take 501 ks)) ?s"
    using len by (simp add: prune_store_def store_max_entries_def Let_def foldl_del ks_def)
  ultimately have "map_of (prune_store ?s) sid = None"
    using map_of_filter_keys [where P = "\<lambda>k. k \<notin> set (take 501 ks)" and s = ?s] by simp
  then show ?thesis unfolding get_conversation_def Let_def none option.case by simp
qed

datatype session_event = Open_session real string | Save_session string conversation real | Tick_sessions real | Close_session string

definition session_step :: "real \<Rightarrow> int \<Rightarrow> conversation_store \<Rightarrow> session_event \<Rightarrow> conversation_store" where
  \<comment> \<open>a request that opens its session, the changes it makes to the conversation it holds, the clean-up task, and
    the end of a session\<close>
  "session_step ttl th s ev =
     (case ev of
        Open_session now sid \<Rightarrow> snd (get_conversation ttl th now sid s)
      | Save_session sid c created \<Rightarrow> (if dict_has s sid then dict_set sid (c, created) s else s)
      | Tick_sessions now \<Rightarrow> snd (prune_expired_sessions ttl now s)
      | Close_session sid \<Rightarrow> clear_conversation sid s)"

definition sessions_ok :: "conversation_store \<Rightarrow> bool" where
  "sessions_ok s \<longleftrightarrow> dict_ok s \<and> length s \<le> 1000"

lemma length_dict_set_present: "dict_has s k \<Longrightarrow> length (dict_set k v s) = length s"
  unfolding dict_set_def by (induction s) auto

lemma dict_del_filter: "dict_del k s = filter (\<lambda>p. fst p \<notin> {k}) s"
  using foldl_del [of s "[k]"] by simp

lemma sessions_ok_filter: "sessions_ok s \<Longrightarrow> sessions_ok (filter P s)"
  unfolding sessions_ok_def by (auto intro: order_trans [OF length_filter_le])

lemma sessions_ok_fresh: "sessions_ok s \<Longrightarrow> sessions_ok (prune_store (dict_set k v s))"
proof -
  assume s: "sessions_ok s"
  then have "dict_ok (dict_set k v s)" by (simp add: sessions_ok_def)
  note p = length_prune_store [OF this]
  show ?thesis
  proof (cases "length (dict_set k v s) > 1000")
    case True
    with p show ?thesis by (simp add: sessions_ok_def)
  next
    case False
    with p show ?thesis by (simp add: sessions_ok_def)
  qed
qed

interpretation sessions: invariant_system "session_step ttl th" sessions_ok for ttl th
proof
  fix s ev
  assume s: "sessions_ok s"
  show "sessions_ok (session_step ttl th s ev)"
  proof (cases ev)
    case (Open_session now sid)
    show ?thesis
      unfolding Open_session session_step_def session_event.case get_conversation_def Let_def dict_del_filter
      using s sessions_ok_fresh [OF s] sessions_ok_fresh [OF sessions_ok_filter [OF s]]
      by (auto split: option.split)
  next
    case (Save_session sid c created)
    with s show ?thesis by (auto simp: session_step_def sessions_ok_def length_dict_set_present)
  next
    case (Tick_sessions now)
    with s show ?thesis by (simp add: session_step_def prune_expired_sessions_def Let_def foldl_del sessions_ok_filter)
  next
    case (Close_session sid)
    with s show ?thesis by (simp add: session_step_def clear_conversation_def dict_del_filter sessions_ok_filter)
  qed
qed

text \<open>Whatever happens to it, the store of sessions never holds more than a thousand of them.\<close>

theorem session_store_bounded: "sessions_ok (foldl (session_step ttl th) [] evs)"
  by (rule sessions.run_invar) (simp add: sessions_ok_def)

subsection \<open>Conversations\<close>

text \<open>A session ends its time to live after it was opened, however recently it was used.\<close>

lemma session_age_from_opening:
  assumes "dict_get s sid = Some (c, created)" and "0 < ttl" and "ttl < now - created" and "length s \<le> 1000"
  shows "fst (get_conversation ttl th now sid s) = Inr (new_conversation th)"
proof -
  have l: "length (dict_del sid s) < 1000"
  proof -
    have "length (dict_del sid s) < length s"
      unfolding dict_del_filter by (rule length_filter_less [of "(sid, c, created)"]) (use assms(1) in \<open>auto dest: map_of_SomeD\<close>)
    with assms(4) show ?thesis by simp
  qed
  have "map_of (dict_del sid s) sid = None" by simp
  then have "length (dict_set sid v (dict_del sid s)) \<le> 1000" for v using l by (simp add: dict_set_absent)
  then have "prune_store (dict_set sid v (dict_del sid s)) = dict_set sid v (dict_del sid s)" for v
    by (simp add: prune_store_def store_max_entries_def not_less [symmetric])
  then show ?thesis using assms(1-3) by (simp add: get_conversation_def)
qed

lemma slice_from_neg: "0 < m \<Longrightarrow> length (slice_from (- m) xs) = min (length xs) (nat m)"
  by (auto simp: slice_from_def)

lemma turns_bounded:
  assumes "0 < max_turns_stored c"
  shows "int (length (turns (add_turn now r t md c))) \<le> max (max_turns_stored c) (int (length (turns c)))"
  using assms by (simp add: add_turn_def Let_def slice_from_neg)

text \<open>With \<^verbatim>\<open>keep_recent=0\<close> nothing is summarised: every turn stays, and the summaries get an empty one.\<close>

lemma summarize_none_keeps_all:
  "turns c \<noteq> [] \<Longrightarrow> turns (summarize_older_turns 0 c) = turns c"
  by (simp add: summarize_older_turns_def slice_from_def Let_def)

lemma summarized_turns:
  assumes "0 < k" and "k < int (length (turns c))"
  shows "turns (summarize_older_turns k c) = drop (length (turns c) - nat k) (turns c) \<and>
    total_token_estimate (summarize_older_turns k c) =
      sum_list (map (\<lambda>t. token_guess (turn_content t)) (turns (summarize_older_turns k c)))"
proof -
  have "nat (int (length (turns c)) - k) = length (turns c) - nat k" using assms by linarith
  with assms show ?thesis by (simp add: summarize_older_turns_def slice_from_def Let_def)
qed

lemma join_snoc: "xs \<noteq> [] \<Longrightarrow> join s (xs @ [x]) = join s xs @ s @ x"
  by (cases xs) (simp_all add: join_def)

lemma enrich_ends_with_question: "\<exists>p. enrich_query_with_context c q = p @ q"
proof -
  have "\<exists>p. join newline (parts @ [''Current question: '' @ q]) = p @ q" for parts
    by (cases "parts = []") (auto simp: join_snoc, simp add: join_def)
  then show ?thesis unfolding enrich_query_with_context_def Let_def
    by (cases "turns c = []") (auto simp del: append_assoc intro: exI [where x = "[]"])
qed

lemma fold_counts:
  "dict_getd (foldl (\<lambda>d w. dict_set w (dict_getd d w 0 + 1) d) d ws) w 0 = dict_getd d w 0 + count_list ws w"
  by (induction ws arbitrary: d) auto

text \<open>As long as the tracker is not full, the count of an entity is the number of its mentions in all tracked texts.\<close>

lemma track_counts:
  assumes "length (foldl (\<lambda>d w. dict_set w (dict_getd d w 0 + 1) d) (entity_counts t) (mentions text)) \<le> max_entities t"
  shows "dict_getd (entity_counts (track text t)) w 0 = dict_getd (entity_counts t) w 0 + count_list (mentions text) w"
  using assms fold_counts by (simp add: track_def Let_def)

lemma length_prune_entities: "length (prune_entities m d) \<le> max m 0 \<or> length (prune_entities m d) \<le> m"
proof (induction m d rule: prune_entities.induct)
  case (1 m d)
  show ?case
  proof (cases d)
    case (Cons x rest)
    obtain k n where "x = (k, n)" by (cases x)
    with 1 Cons show ?thesis by (subst (1 2) prune_entities.simps) auto
  qed (simp add: prune_entities.simps)
qed

lemma track_bounded: "length (entity_counts t) \<le> max_entities t \<Longrightarrow> length (entity_counts (track x t)) \<le> max_entities t"
  using length_prune_entities [of "max_entities t"] by (auto simp: track_def Let_def)

end
