(* ===== verification/Corrective_Retrieval.thy ===== *)
theory Corrective_Retrieval
  imports Confidence Context_Builder Graph_Search
begin

text \<open>
  What the pipeline decides from the scores of what it found: the evaluator of \<^verbatim>\<open>proxy/app/core/retrieval_evaluator.py\<close>, the
  knowledge status of \<^verbatim>\<open>knowledge_status.py\<close>, and the staged search of \<^verbatim>\<open>progressive_retrieval.py\<close> with the hypothetical
  documents of \<^verbatim>\<open>hyde.py\<close>. The small language model and the graph query are parameters.
\<close>

subsection \<open>Quality of a retrieval\<close>

record eval_chunk =
  ev_fields :: chunk_dict
  ev_score :: "real option"

definition HIGH_THRESHOLD :: real where "HIGH_THRESHOLD = 7/10"

definition MEDIUM_THRESHOLD :: real where "MEDIUM_THRESHOLD = 4/10"

definition LOW_THRESHOLD :: real where "LOW_THRESHOLD = 2/10"

definition compute_text_overlap_scores :: "string \<Rightarrow> eval_chunk list \<Rightarrow> real list" where
  "compute_text_overlap_scores query chunks =
     (let query_tokens = set (find_words (py_lower query)) in
      if query_tokens = {} then []
      else map (\<lambda>c.
        (let text = field (ev_fields c) ''text''; text_tokens = set (find_words (py_lower text)) in
         if text = [] then 0 else if text_tokens = {} then 0
         else real (card (query_tokens \<inter> text_tokens)) / real (card (query_tokens \<union> text_tokens)))) chunks)"

definition confidence_of :: "real list \<Rightarrow> real" where
  \<comment> \<open>the weighted sum of \<^verbatim>\<open>evaluate_quality\<close>, before it is clamped\<close>
  "confidence_of scores =
     (let n = real (length scores);
          avg_score = sum_list scores / n;
          variance = sum_list (map (\<lambda>s. (s - avg_score)^2) scores) / n;
          high_count = real (length (filter (\<lambda>s. s > HIGH_THRESHOLD) scores));
          med_count = real (length (filter (\<lambda>s. MEDIUM_THRESHOLD < s \<and> s \<le> HIGH_THRESHOLD) scores));
          coverage_ratio = (high_count * 1 + med_count * (1/2)) / max 1 n;
          result_count_factor = min 1 (n / 5);
          decay = 1 / (1 + variance)
      in avg_score * (4/10) + coverage_ratio * (3/10) + result_count_factor * (2/10) + decay * (1/10))"

definition evaluate_quality :: "string \<Rightarrow> eval_chunk list \<Rightarrow> real" where
  "evaluate_quality query chunks =
     (if chunks = [] then 0
      else
        (let scores = List.map_filter ev_score chunks;
             scores = (if scores = [] then compute_text_overlap_scores query chunks else scores)
         in if scores = [] then 0 else min 1 (max 0 (confidence_of scores))))"

definition get_action :: "real \<Rightarrow> string" where
  "get_action confidence =
     (if confidence \<ge> HIGH_THRESHOLD then ''USE''
      else if confidence \<ge> MEDIUM_THRESHOLD then ''REWRITE''
      else if confidence \<ge> LOW_THRESHOLD then ''EXPAND'' else ''FALLBACK'')"

fun clean_chunks :: "string set \<Rightarrow> eval_chunk list \<Rightarrow> eval_chunk list" where
  "clean_chunks seen [] = []"
| "clean_chunks seen (c # cs) =
     (let text = strip (field (ev_fields c) ''text'');
          text_signature = py_lower (take 120 text);
          sc = (case ev_score c of None \<Rightarrow> 1/2 | Some s \<Rightarrow> s)
      in if text = [] then clean_chunks seen cs
         else if text_signature \<in> seen then clean_chunks seen cs
         else if sc < LOW_THRESHOLD then clean_chunks seen cs
         else c # clean_chunks (insert text_signature seen) cs)"

definition shorten_chunk :: "eval_chunk \<Rightarrow> eval_chunk" where
  \<comment> \<open>without the mark \<^verbatim>\<open>_decomposed\<close>\<close>
  "shorten_chunk c =
     (let text = field (ev_fields c) ''text'' in
      if length text > 3000
      then (let key_sentences = filter (\<lambda>s. length s > 15) (split_sentences text)
            in if key_sentences \<noteq> []
               then c\<lparr>ev_fields := dict_set ''text'' (join '' '' (take 10 key_sentences)) (ev_fields c)\<rparr> else c)
      else c)"

definition decompose_chunks :: "eval_chunk list \<Rightarrow> eval_chunk list" where
  "decompose_chunks chunks = map shorten_chunk (clean_chunks {} chunks)"

definition evaluate_and_act :: "string \<Rightarrow> eval_chunk list \<Rightarrow> real \<times> string \<times> eval_chunk list" where
  "evaluate_and_act query chunks =
     (let confidence = evaluate_quality query chunks;
          action = get_action confidence;
          processed = (if action = ''FALLBACK'' then [] else if action = ''EXPAND'' then chunks else decompose_chunks chunks)
      in (confidence, action, processed))"

subsection \<open>Knowledge status\<close>

record knowledge_status =
  ks_status :: string
  ks_source_count :: nat
  ks_strong_source_count :: nat
  ks_max_score :: real

definition normalize_knowledge_status :: "string \<Rightarrow> string" where
  "normalize_knowledge_status status =
     dict_getd [(''grounded'', ''sufficient''), (''no_knowledge'', ''absent'')] status status"

definition determine_knowledge_status :: "real list \<Rightarrow> bool \<Rightarrow> knowledge_status" where
  \<comment> \<open>the argument holds the relevance of the sources\<close>
  "determine_knowledge_status scores should_generate =
     (if scores = [] then \<lparr>ks_status = ''absent'', ks_source_count = 0, ks_strong_source_count = 0, ks_max_score = 0\<rparr>
      else if \<not> should_generate
      then \<lparr>ks_status = ''insufficient'', ks_source_count = length scores, ks_strong_source_count = 0, ks_max_score = 0\<rparr>
      else
        (let strong_count = length (filter (\<lambda>s. s \<ge> 32/100) scores);
             max_score = Max (set scores)
         in \<lparr>ks_status = (if strong_count \<ge> MIN_STRONG_SOURCES then ''sufficient''
                          else if strong_count \<ge> 1 then ''insufficient'' else ''partial''),
             ks_source_count = length scores, ks_strong_source_count = strong_count, ks_max_score = max_score\<rparr>))"

subsection \<open>Hypothetical documents\<close>

definition hyde_prompt :: "string \<Rightarrow> string" where
  "hyde_prompt query =
     ''Write a short paragraph that answers the following question. '' @
     ''Use technical terminology and concrete details. Keep it under 3 sentences.'' @ blank_line @
     ''Question: '' @ query @ blank_line @ ''Answer:''"

definition generate_hypothetical_answer :: "(string \<Rightarrow> exn + string option) \<Rightarrow> string \<Rightarrow> string" where
  "generate_hypothetical_answer slm query =
     (if strip query = [] then []
      else
        (case slm (hyde_prompt query) of
           Inl e \<Rightarrow> query
         | Inr None \<Rightarrow> query
         | Inr (Some r) \<Rightarrow> (if strip r \<noteq> [] then strip r else query)))"

subsection \<open>Progressive retrieval\<close>

definition quality_sufficient :: "real \<Rightarrow> 'p scored_point list \<Rightarrow> bool" where
  "quality_sufficient strong results \<longleftrightarrow> length (filter (\<lambda>r. score r \<ge> strong) results) \<ge> MIN_STRONG_SOURCES"

fun dedup_new_only :: "string set \<Rightarrow> 'p scored_point list \<Rightarrow> 'p scored_point list \<times> string set" where
  "dedup_new_only seen [] = ([], seen)"
| "dedup_new_only seen (r # rs) =
     (if sp_id r \<notin> seen
      then (let (new, seen) = dedup_new_only (insert (sp_id r) seen) rs in (r # new, seen))
      else dedup_new_only seen rs)"

datatype 'p progress = Enough "'p scored_point list" string | Going_on "'p scored_point list" "string set"

type_synonym ('p, 'q) search = "nat \<Rightarrow> string \<Rightarrow> int \<Rightarrow> 'q \<Rightarrow> (exn + 'p scored_point list) \<times> 'q"
  \<comment> \<open>number of the call within the request, query, \<^verbatim>\<open>top_k\<close>, state\<close>

definition hyde_stage ::
  "('p, 'q) search \<Rightarrow> real \<Rightarrow> bool \<Rightarrow> (string \<Rightarrow> exn + string option) \<Rightarrow> string \<Rightarrow> int \<Rightarrow> 'q
   \<Rightarrow> (exn + string \<times> 'p progress) \<times> 'q" where
  \<comment> \<open>also returns the text that the later stages search with\<close>
  "hyde_stage search strong enabled slm query top_k st =
     (if \<not> enabled then (Inr (query, Going_on [] {}), st)
      else
        (let doc = generate_hypothetical_answer slm query in
         case search 0 doc top_k st of
           (Inl e, st) \<Rightarrow> ((if is_exception e then Inr (query, Going_on [] {}) else Inl e), st)
         | (Inr rs, st) \<Rightarrow>
             (if rs = [] then (Inr (query, Going_on [] {}), st)
              else if quality_sufficient strong rs then (Inr (doc, Enough rs ''hyde''), st)
              else (Inr (doc, Going_on rs (sp_id ` set rs)), st))))"

definition search_stage ::
  "('p, 'q) search \<Rightarrow> real \<Rightarrow> (unit \<Rightarrow> exn + string) \<Rightarrow> nat \<Rightarrow> string \<Rightarrow> string \<Rightarrow> int \<Rightarrow> 'p progress \<Rightarrow> 'q
   \<Rightarrow> (exn + 'p progress) \<times> 'q" where
  \<comment> \<open>\<open>graph\<close> is the query to the graph, made before the quality is judged; its result is only logged\<close>
  "search_stage search strong graph n name query top_k p st =
     (case p of
        Enough rs nm \<Rightarrow> (Inr p, st)
      | Going_on all_results seen \<Rightarrow>
          (case search n query top_k st of
             (Inl e, st) \<Rightarrow> (Inl e, st)
           | (Inr rs, st) \<Rightarrow>
               (let (new_only, seen) = dedup_new_only seen rs; all_results = all_results @ new_only in
                case graph () of
                  Inl e \<Rightarrow> (Inl e, st)
                | Inr g \<Rightarrow> (Inr (if quality_sufficient strong all_results then Enough all_results name
                                 else Going_on all_results seen), st))))"

definition progressive_retrieve ::
  "('p, 'q) search \<Rightarrow> real \<Rightarrow> bool \<Rightarrow> (string \<Rightarrow> exn + string option) \<Rightarrow> (string \<Rightarrow> exn + string) \<Rightarrow> string
   \<Rightarrow> int list \<Rightarrow> 'q \<Rightarrow> (exn + 'p scored_point list \<times> string) \<times> 'q" where
  "progressive_retrieve search strong hyde slm graph query stages st =
     (let first = (if stages \<noteq> [] then hd stages else 5); quiet = (\<lambda>_. Inr []) in
      case hyde_stage search strong hyde slm query first st of
        (Inl e, st) \<Rightarrow> (Inl e, st)
      | (Inr (search_query, p), st) \<Rightarrow>
          (case search_stage search strong quiet 1 ''direct'' search_query first p st of
             (Inl e, st) \<Rightarrow> (Inl e, st)
           | (Inr p, st) \<Rightarrow>
               (case (if length stages > 1
                      then search_stage search strong quiet 2 ''expanded'' search_query (stages ! 1) p st else (Inr p, st)) of
                  (Inl e, st) \<Rightarrow> (Inl e, st)
                | (Inr p, st) \<Rightarrow>
                    (case (if length stages > 2
                           then search_stage search strong (\<lambda>_. graph query) 3 ''graph_expanded'' search_query (stages ! 2) p st
                           else (Inr p, st)) of
                       (Inl e, st) \<Rightarrow> (Inl e, st)
                     | (Inr (Enough rs name), st) \<Rightarrow> (Inr (rs, name), st)
                     | (Inr (Going_on rs seen), st) \<Rightarrow> (Inr (rs, ''insufficient''), st)))))"

subsection \<open>The fallback is never taken\<close>

lemma avg_ge: "xs \<noteq> [] \<Longrightarrow> (\<And>x. x \<in> set xs \<Longrightarrow> a \<le> x) \<Longrightarrow> a \<le> sum_list xs / real (length xs)"
proof -
  assume ne: "xs \<noteq> []" and ge: "\<And>x. x \<in> set xs \<Longrightarrow> a \<le> x"
  have "real (length xs) * a \<le> sum_list xs" using ge by (induction xs) (auto simp: algebra_simps intro: add_mono)
  then show ?thesis using ne by (simp add: pos_le_divide_eq mult.commute)
qed

lemma avg_le: "xs \<noteq> [] \<Longrightarrow> (\<And>x. x \<in> set xs \<Longrightarrow> x \<le> a) \<Longrightarrow> sum_list xs / real (length xs) \<le> a"
proof -
  assume ne: "xs \<noteq> []" and le: "\<And>x. x \<in> set xs \<Longrightarrow> x \<le> a"
  have "sum_list xs \<le> real (length xs) * a" using le by (induction xs) (auto simp: algebra_simps intro: add_mono)
  then show ?thesis using ne by (simp add: pos_divide_le_eq mult.commute)
qed

lemma confidence_lower:
  assumes ne: "scores \<noteq> []" and ge: "\<And>s. s \<in> set scores \<Longrightarrow> 1/4 \<le> s"
  shows "1/5 \<le> confidence_of scores"
proof -
  define n where "n = real (length scores)"
  define avg where "avg = sum_list scores / n"
  define var where "var = sum_list (map (\<lambda>s. (s - avg)^2) scores) / n"
  define hi where "hi = real (length (filter (\<lambda>s. s > HIGH_THRESHOLD) scores))"
  define med where "med = real (length (filter (\<lambda>s. MEDIUM_THRESHOLD < s \<and> s \<le> HIGH_THRESHOLD) scores))"
  define cov where "cov = (hi * 1 + med * (1/2)) / max 1 n"
  define d where "d = 1 / (1 + var)"
  define r where "r = min 1 (n / 5)"
  have c: "confidence_of scores = avg * (4/10) + cov * (3/10) + r * (2/10) + d * (1/10)"
    by (simp add: confidence_of_def Let_def n_def avg_def var_def hi_def med_def cov_def r_def d_def)
  have n: "1 \<le> n" using ne unfolding n_def by (cases scores) auto
  have avg: "1/4 \<le> avg" unfolding avg_def n_def by (rule avg_ge [OF ne ge])
  have var0: "0 \<le> var" unfolding var_def n_def by (intro divide_nonneg_nonneg sum_list_nonneg) auto
  have cov0: "0 \<le> cov" "hi / n \<le> cov" unfolding cov_def using n by (simp_all add: hi_def med_def divide_right_mono)
  have decay: "0 \<le> d" using var0 by (simp add: d_def)
  show ?thesis
  proof (cases "5 \<le> n")
    case True
    then have "r = 1" by (simp add: r_def)
    with c avg cov0(1) decay show ?thesis by linarith
  next
    case False
    then have n5: "1/5 \<le> r" using n by (simp add: r_def)
    show ?thesis
    proof (cases "\<exists>s \<in> set scores. s > HIGH_THRESHOLD")
      case True
      then have "filter (\<lambda>s. s > HIGH_THRESHOLD) scores \<noteq> []" by (auto simp: filter_empty_conv)
      then have "1 \<le> hi" unfolding hi_def by (cases "filter (\<lambda>s. s > HIGH_THRESHOLD) scores") auto
      have "n \<le> 4"
      proof -
        have "length scores < 5" using False by (simp add: n_def)
        then show ?thesis by (simp add: n_def)
      qed
      with \<open>1 \<le> hi\<close> n have "1/4 \<le> hi / n" by (simp add: field_simps)
      with cov0(2) have "1/4 \<le> cov" by linarith
      with c avg n5 decay show ?thesis by linarith
    next
      case no_high: False
      then have le: "s \<le> 7/10" if "s \<in> set scores" for s using that by (auto simp: HIGH_THRESHOLD_def)
      have avg2: "avg \<le> 7/10" unfolding avg_def n_def by (rule avg_le [OF ne le])
      have "(s - avg)^2 \<le> 1" if "s \<in> set scores" for s
      proof -
        have "\<bar>s - avg\<bar> \<le> 1" using ge [OF that] le [OF that] avg avg2 by linarith
        then show ?thesis by (simp add: abs_square_le_1)
      qed
      then have var1: "(s - avg)^2 \<le> 1/4" if "s \<in> set scores" for s
      proof -
        have "\<bar>s - avg\<bar> \<le> 1/2" using ge [OF that] le [OF that] avg avg2 by linarith
        then have "\<bar>s - avg\<bar>^2 \<le> (1/2)^2" by (intro power_mono) auto
        then show ?thesis by (simp add: power2_eq_square)
      qed
      have "var \<le> 1/4"
        unfolding var_def n_def using avg_le [of "map (\<lambda>s. (s - avg)^2) scores" "1/4"] ne var1 by auto
      then have "8/10 \<le> d" using var0 by (simp add: d_def field_simps)
      with c avg n5 cov0(1) show ?thesis by linarith
    qed
  qed
qed

text \<open>
  The action \<^verbatim>\<open>FALLBACK\<close> is never taken on what the search returns: its score filter keeps nothing below 0.25, and from
  scores of at least 0.25 the evaluator always computes a confidence of at least 0.2.
\<close>
theorem fallback_unreachable:
  assumes "chunks \<noteq> []" and "list_all (\<lambda>c. case ev_score c of None \<Rightarrow> False | Some s \<Rightarrow> 1/4 \<le> s) chunks"
  shows "fst (snd (evaluate_and_act query chunks)) \<noteq> ''FALLBACK''"
proof -
  let ?s = "List.map_filter ev_score chunks"
  obtain c cs where "chunks = c # cs" using assms(1) by (cases chunks) auto
  with assms(2) have ne: "?s \<noteq> []" by (auto split: option.splits)
  have "1/4 \<le> s" if "s \<in> set ?s" for s
    using that assms(2) by (auto simp: map_filter_def list_all_iff split: option.splits)
  from confidence_lower [OF ne this] have "1/5 \<le> min 1 (max 0 (confidence_of ?s))" by simp
  moreover have "evaluate_quality query chunks = min 1 (max 0 (confidence_of ?s))"
    unfolding evaluate_quality_def Let_def using assms(1) ne by (simp only: if_False)
  ultimately have "LOW_THRESHOLD \<le> evaluate_quality query chunks" by (simp add: LOW_THRESHOLD_def)
  then show ?thesis unfolding evaluate_and_act_def get_action_def Let_def by simp
qed

theorem fallback_unreachable_witness:
  "fst (snd (evaluate_and_act ''q'' [\<lparr>ev_fields = [(''text'', ''t'')], ev_score = Some (1/4)\<rparr>])) \<noteq> ''FALLBACK''"
  by (rule fallback_unreachable) simp_all

subsection \<open>The statuses that are given\<close>

text \<open>
  The status of an answer takes three of the four documented values: the callers compute \<^verbatim>\<open>should_generate\<close> from the same
  scores with the same threshold, so that fewer than two strong sources always mean a refusal and never "partial".
\<close>
theorem status_of_scores:
  "ks_status (determine_knowledge_status scores (fst (should_generate_answer scores MIN_STRONG_SOURCES))) =
     (if scores = [] then ''absent''
      else if length (filter (\<lambda>s. s \<ge> 32/100) scores) \<ge> 2 then ''sufficient'' else ''insufficient'')"
proof -
  obtain k where k: "length (filter (\<lambda>s. s \<ge> 32/100) scores) = k" by blast
  show ?thesis
    unfolding determine_knowledge_status_def should_generate_answer_def MIN_STRONG_SOURCES_def Let_def k
    by (cases "scores = []"; cases "k < 2") (simp_all only: if_True if_False fst_conv knowledge_status.simps not_less simp_thms, simp_all)
qed

subsection \<open>What progressive retrieval returns\<close>

definition stage_names :: "string list" where
  "stage_names = [''hyde'', ''direct'', ''expanded'', ''graph_expanded'']"

definition progress_ok :: "real \<Rightarrow> ('p scored_point \<Rightarrow> bool) \<Rightarrow> 'p progress \<Rightarrow> bool" where
  "progress_ok strong Q p =
     (case p of
        Enough rs name \<Rightarrow> quality_sufficient strong rs \<and> name \<in> set stage_names \<and> distinct (map sp_id rs) \<and> list_all Q rs
      | Going_on rs seen \<Rightarrow>
          \<not> quality_sufficient strong rs \<and> seen = sp_id ` set rs \<and> distinct (map sp_id rs) \<and> list_all Q rs)"

definition searches_ok :: "('p scored_point \<Rightarrow> bool) \<Rightarrow> ('p, 'q) search \<Rightarrow> bool" where
  "searches_ok Q search \<longleftrightarrow>
     (\<forall>n q k st. case fst (search n q k st) of Inl e \<Rightarrow> True | Inr rs \<Rightarrow> distinct (map sp_id rs) \<and> list_all Q rs)"

lemma searches_okD:
  "searches_ok Q search \<Longrightarrow> search n q k st = (Inr rs, st') \<Longrightarrow> distinct (map sp_id rs) \<and> list_all Q rs"
  unfolding searches_ok_def by (drule spec [of _ n], drule spec [of _ q], drule spec [of _ k], drule spec [of _ st]) simp

lemma dedup_new_only_spec:
  "dedup_new_only seen rs = (new, seen') \<Longrightarrow>
   distinct (map sp_id new) \<and> sp_id ` set new \<inter> seen = {} \<and> seen' = seen \<union> sp_id ` set new \<and> set new \<subseteq> set rs"
  by (induction seen rs arbitrary: new seen' rule: dedup_new_only.induct)
    (force simp: Let_def split: if_splits prod.splits)+

lemma no_quality_Nil: "\<not> quality_sufficient strong []"
  by (simp add: quality_sufficient_def MIN_STRONG_SOURCES_def)

lemma hyde_stage_ok:
  assumes "searches_ok Q search" and "hyde_stage search strong enabled slm query k st = (Inr (sq, p), st')"
  shows "progress_ok strong Q p"
proof -
  let ?call = "search 0 (generate_hypothetical_answer slm query) k st"
  show ?thesis
  proof (cases enabled)
    case False
    with assms(2) show ?thesis by (auto simp: hyde_stage_def progress_ok_def no_quality_Nil)
  next
    case True
    obtain r st1 where r: "?call = (r, st1)" by (cases ?call)
    show ?thesis
    proof (cases r)
      case (Inl e)
      with assms(2) True r show ?thesis
        by (auto simp: hyde_stage_def Let_def progress_ok_def no_quality_Nil split: if_splits)
    next
      case (Inr rs)
      from searches_okD [OF assms(1)] r Inr have "distinct (map sp_id rs) \<and> list_all Q rs" by simp
      with assms(2) True r Inr show ?thesis
        by (auto simp: hyde_stage_def Let_def progress_ok_def no_quality_Nil stage_names_def split: if_splits)
    qed
  qed
qed

lemma search_stage_ok:
  assumes "searches_ok Q search" and "progress_ok strong Q p" and "name \<in> set stage_names"
    and "search_stage search strong graph n name q k p st = (Inr p', st')"
  shows "progress_ok strong Q p'"
proof (cases p)
  case (Enough rs nm)
  with assms(2,4) show ?thesis by (simp add: search_stage_def)
next
  case (Going_on rs seen)
  obtain new seen1 rs1 st1 g where s: "search n q k st = (Inr rs1, st1)" "dedup_new_only seen rs1 = (new, seen1)"
    and p': "p' = (if quality_sufficient strong (rs @ new) then Enough (rs @ new) name else Going_on (rs @ new) seen1)"
    using assms(4) unfolding Going_on search_stage_def progress.case Let_def
    by (auto split: prod.splits sum.splits)
  from searches_okD [OF assms(1) s(1)] dedup_new_only_spec [OF s(2)] assms(2,3) Going_on p' show ?thesis
    by (auto simp: progress_ok_def list_all_iff)
qed

lemma progressive_stages:
  assumes "searches_ok Q search"
    and "fst (progressive_retrieve search strong hyde slm graph query stages st) = Inr (rs, name)"
  shows "\<exists>p. progress_ok strong Q p \<and>
    (case p of Enough rs' nm \<Rightarrow> rs = rs' \<and> name = nm | Going_on rs' seen \<Rightarrow> rs = rs' \<and> name = ''insufficient'')"
proof -
  obtain st' where run: "progressive_retrieve search strong hyde slm graph query stages st = (Inr (rs, name), st')"
    using assms(2) by (metis prod.collapse)
  obtain sq p0 s0 p1 s1 p2 s2 p3 s3 f where
    h: "hyde_stage search strong hyde slm query f st = (Inr (sq, p0), s0)"
    and 1: "search_stage search strong (\<lambda>_. Inr []) 1 ''direct'' sq f p0 s0 = (Inr p1, s1)"
    and 2: "(if length stages > 1 then search_stage search strong (\<lambda>_. Inr []) 2 ''expanded'' sq (stages ! 1) p1 s1
             else (Inr p1, s1)) = (Inr p2, s2)"
    and 3: "(if length stages > 2 then search_stage search strong (\<lambda>_. graph query) 3 ''graph_expanded'' sq (stages ! 2) p2 s2
             else (Inr p2, s2)) = (Inr p3, s3)"
    and r: "(rs, name) = (case p3 of Enough rs nm \<Rightarrow> (rs, nm) | Going_on rs seen \<Rightarrow> (rs, ''insufficient''))"
    using run unfolding progressive_retrieve_def Let_def
    by (simp split: prod.splits sum.splits progress.splits)
  have names: "''direct'' \<in> set stage_names" "''expanded'' \<in> set stage_names" "''graph_expanded'' \<in> set stage_names"
    by (simp_all add: stage_names_def)
  note ok0 = hyde_stage_ok [OF assms(1) h]
  note ok1 = search_stage_ok [OF assms(1) ok0 names(1) 1]
  have ok2: "progress_ok strong Q p2"
    using search_stage_ok [OF assms(1) ok1 names(2)] ok1 2 by (auto split: if_splits)
  have "progress_ok strong Q p3"
    using search_stage_ok [OF assms(1) ok2 names(3)] ok2 3 by (auto split: if_splits)
  with r show ?thesis by (intro exI [of _ p3]) (auto split: progress.splits)
qed

text \<open>
  C28. The staged search keeps what it promises: provided each single search returns different points with a property \<open>Q\<close>, the
  result lists different points with that property, and it is called insufficient exactly when fewer than two of
  them are strong.
\<close>
theorem progressive_result:
  assumes "searches_ok Q search"
    and "fst (progressive_retrieve search strong hyde slm graph query stages st) = Inr (rs, name)"
  shows "distinct (map sp_id rs) \<and> list_all Q rs \<and> (name = ''insufficient'') = (\<not> quality_sufficient strong rs) \<and>
    name \<in> set (''insufficient'' # stage_names)"
proof -
  obtain p where p: "progress_ok strong Q p"
    and r: "case p of Enough rs' nm \<Rightarrow> rs = rs' \<and> name = nm | Going_on rs' seen \<Rightarrow> rs = rs' \<and> name = ''insufficient''"
    using progressive_stages [OF assms] by blast
  have "''insufficient'' \<notin> set stage_names" by (simp add: stage_names_def)
  with p r show ?thesis by (cases p) (auto simp: progress_ok_def)
qed

definition point_at :: "string \<Rightarrow> real \<Rightarrow> unit scored_point" where
  "point_at i x = \<lparr>sp_id = i, score = x, sp_payload = ()\<rparr>"

definition sample_staged :: "(unit, nat) search" where
  "sample_staged n q k st = (Inr (if n = 0 then [point_at ''a'' (1/4)] else [point_at ''a'' (1/4), point_at ''b'' (1/2)]), st + 1)"

lemma sample_staged_ok: "searches_ok (\<lambda>h. score h \<ge> 1/4) sample_staged"
  by (simp add: searches_ok_def sample_staged_def point_at_def)

lemma sample_progress:
  "fst (progressive_retrieve sample_staged (32/100) True (\<lambda>_. Inr None) (\<lambda>_. Inr []) ''q'' [5, 10, 20] 0) =
     Inr ([point_at ''a'' (1/4), point_at ''b'' (1/2)], ''insufficient'')"
  by (simp add: progressive_retrieve_def hyde_stage_def search_stage_def sample_staged_def point_at_def
      quality_sufficient_def MIN_STRONG_SOURCES_def)

theorem progressive_result_witness:
  "distinct (map sp_id [point_at ''a'' (1/4), point_at ''b'' (1/2)]) \<and>
   (''insufficient'' = ''insufficient'') = (\<not> quality_sufficient (32/100) [point_at ''a'' (1/4), point_at ''b'' (1/2)])"
  using progressive_result [OF sample_staged_ok sample_progress] by blast

text \<open>
  When the search for the hypothetical document finds anything, the question itself is never searched for: the stage
  called "direct" repeats the search for the hypothetical document, and so do the stages after it.
\<close>
theorem question_never_searched:
  assumes "fst (search 0 (generate_hypothetical_answer slm query) (if stages \<noteq> [] then hd stages else 5) st) = Inr (r # rs)"
    and "\<And>n k s. search' n (generate_hypothetical_answer slm query) k s = search n (generate_hypothetical_answer slm query) k s"
  shows "progressive_retrieve search' strong True slm graph query stages st =
    progressive_retrieve search strong True slm graph query stages st"
proof -
  let ?doc = "generate_hypothetical_answer slm query"
  let ?k = "if stages \<noteq> [] then hd stages else 5"
  obtain s1 where s1: "search 0 ?doc ?k st = (Inr (r # rs), s1)" using assms(1) by (metis prod.collapse)
  have stage: "search_stage search' strong g n nm ?doc k p s = search_stage search strong g n nm ?doc k p s" for g n nm k p s
    by (cases p) (simp_all add: search_stage_def assms(2))
  have hyde: "hyde_stage search' strong True slm query ?k st = hyde_stage search strong True slm query ?k st"
    by (simp add: hyde_stage_def assms(2))
  obtain p where h: "hyde_stage search strong True slm query ?k st = (Inr (?doc, p), s1)"
    using s1 by (cases "quality_sufficient strong (r # rs)") (simp_all add: hyde_stage_def Let_def)
  show ?thesis unfolding progressive_retrieve_def Let_def hyde h sum.case prod.case stage ..
qed

theorem question_never_searched_witness:
  "progressive_retrieve (\<lambda>n q k st. if q = ''doc'' then sample_staged n q k st else (Inr [], 99)) (32/100) True
     (\<lambda>_. Inr (Some ''doc'')) (\<lambda>_. Inr []) ''q'' [5] 0 =
   progressive_retrieve sample_staged (32/100) True (\<lambda>_. Inr (Some ''doc'')) (\<lambda>_. Inr []) ''q'' [5] 0"
proof -
  have doc: "generate_hypothetical_answer (\<lambda>_. Inr (Some ''doc'')) ''q'' = ''doc''"
    by (simp add: generate_hypothetical_answer_def strip_def py_space_def)
  show ?thesis
    by (rule question_never_searched [of _ _ _ _ _ "point_at ''a'' (1/4)" "[]"]) (simp_all add: doc sample_staged_def)
qed

text \<open>A graph that cannot be queried costs everything that was found: the last stage raises.\<close>

lemma graph_outage_discards:
  assumes "graph query = Inl e" and "progress_ok strong Q (Going_on rs seen)" and "search n q k st = (Inr rs', st')"
  shows "fst (search_stage search strong (\<lambda>_. graph query) n name q k (Going_on rs seen) st) = Inl e"
  using assms by (simp add: search_stage_def split_beta)

end
