(* ===== verification/Rag_Pipeline.thy ===== *)
theory Rag_Pipeline
  imports Corrective_Retrieval Query_Routing
begin

text \<open>
  The pipeline of the proxy, \<^verbatim>\<open>process_rag_query\<close> of \<^verbatim>\<open>proxy/app/main.py\<close>: the two answer caches, routing, the choice of the
  search, the filter for the user's rights, reranking, deduplication, sources, corrective retrieval, the context under
  its token budget, the prompt and the call of the language model. It composes the operations of the theories it
  imports. The language model, the texts of the language tables, the RAGAS metrics and SHA-256 are parameters; a clock
  reading is an argument. The self-critique at the end only writes to the log and is not part of it.
\<close>

subsection \<open>Data\<close>

record hit_payload =
  \<comment> \<open>the text fields of a point, and its access fields on the first level and below \<^verbatim>\<open>payload\<close>\<close>
  hp_fields :: chunk_dict
  hp_top :: acl
  hp_inner :: acl

type_synonym hits = "hit_payload scored_point list"

type_synonym message = "string \<times> string"

record source =
  src_chunk_id :: string
  src_source :: string
  src_title :: string
  src_version :: string
  src_relevance :: real
  src_preview :: string

datatype rag_result =
    Answer string string bool "source list" "(string, real) dict"
      \<comment> \<open>text, context, whether it came from a cache, sources, scores\<close>
  | For_stream string "message list" "source list"

record ('s, 'v) rag_env =
  rg_retriever :: "('s, 'v, hit_payload) retriever"
  rg_backend :: "'s backend"
  rg_semantic :: "sem_env option"
  rg_reranker :: rerank_env
  rg_context :: context_config
  rg_sha :: "string \<Rightarrow> string"
  rg_str :: "json \<Rightarrow> string"
  rg_slm :: "string \<Rightarrow> exn + string option"
  rg_graph :: "string \<Rightarrow> exn + string"
  rg_llm :: "message list \<Rightarrow> real \<Rightarrow> int \<Rightarrow> exn + string"
  rg_detect :: "string \<Rightarrow> string"
  rg_prompt :: "string option \<Rightarrow> string"
    \<comment> \<open>\<^verbatim>\<open>detect_language\<close> and \<^verbatim>\<open>get_system_prompt\<close> of \<^verbatim>\<open>shared/i18n.py\<close>\<close>
  rg_ragas :: "string \<Rightarrow> string \<Rightarrow> string list \<Rightarrow> (string, real) dict"
  rg_notice :: string
  rg_apology :: string
  rg_degraded :: bool
  rg_routing :: bool
  rg_progressive :: bool
  rg_hyde :: bool
  rg_stages :: string
  rg_max_retrieval :: int
  rg_max_rerank :: int

record rag_clock =
  ck_lookup :: real
  ck_search :: "nat \<Rightarrow> real \<times> (real \<times> real \<times> real) \<times> (real \<times> real \<times> real)"
  ck_rerank :: "real \<times> (real \<times> real \<times> real)"
  ck_store :: real

record 's rag_state =
  rs_retrieval :: "'s retrieval_state"
  rs_rerank_cache :: "'s cache_manager"
  rs_answers :: "'s cache_manager"

record rag_request =
  rq_query :: string
  rq_version :: "string option"
  rq_force_refresh :: bool
  rq_temperature :: real
  rq_max_tokens :: int
  rq_stream :: bool
  rq_others :: "message list"
  rq_user :: user_context
  rq_top_k :: "int option"
  rq_lang :: "string option"

subsection \<open>Answer caches\<close>

definition answer_key :: "user_context \<Rightarrow> string \<Rightarrow> string option \<Rightarrow> string" where
  "answer_key u query version =
     ''rag:'' @ user_id u @ '':'' @ query @ '':'' @ (if truthy_str version then the version else ''latest'')"

definition exact_answer ::
  "('s, 'v) rag_env \<Rightarrow> real \<Rightarrow> rag_request \<Rightarrow> 's cache_manager \<Rightarrow> string option \<times> 's cache_manager" where
  "exact_answer E now rq cm =
     (let (v, cm) = cache_get (rg_backend E) now (answer_key (rq_user rq) (rq_query rq) (rq_version rq)) cm
      in (if truthy v then Some (str_with (rg_str E) v) else None, cm))"

definition cached_answer ::
  "('s, 'v) rag_env \<Rightarrow> real \<Rightarrow> rag_request \<Rightarrow> 's cache_manager \<Rightarrow> (exn + string option) \<times> 's cache_manager" where
  "cached_answer E now rq cm =
     (if rq_force_refresh rq then (Inr None, cm)
      else
        (case (case rg_semantic E of None \<Rightarrow> (Inr None, cm) | Some S \<Rightarrow> sem_get (rg_backend E) S now (rq_query rq) cm) of
           (Inl e, cm) \<Rightarrow> (Inl e, cm)
         | (Inr r, cm) \<Rightarrow>
             (if truthy_str r then (Inr r, cm)
              else (let (r, cm) = exact_answer E now rq cm in (Inr r, cm)))))"

definition store_answer :: "('s, 'v) rag_env \<Rightarrow> real \<Rightarrow> rag_request \<Rightarrow> string \<Rightarrow> 's cache_manager \<Rightarrow> 's cache_manager" where
  "store_answer E now rq text cm =
     (if rq_force_refresh rq then cm
      else
        (let cm = snd (cache_set (rg_backend E) now (answer_key (rq_user rq) (rq_query rq) (rq_version rq)) (JStr text) 3600 cm)
         in case rg_semantic E of None \<Rightarrow> cm | Some S \<Rightarrow> snd (sem_set (rg_backend E) S now (rq_query rq) text cm)))"

subsection \<open>Search\<close>

definition rag_search ::
  "('s, 'v) rag_env \<Rightarrow> rag_clock \<Rightarrow> string option \<Rightarrow> condition list option \<Rightarrow> (hit_payload, 's retrieval_state) search" where
  "rag_search E clk version access_filter n query top_k st =
     (let (now, c1, c2) = ck_search clk n
      in hybrid_search (rg_retriever E) now c1 c2 query version top_k None access_filter st)"

definition top_k_of :: "('s, 'v) rag_env \<Rightarrow> rag_request \<Rightarrow> int" where
  "top_k_of E rq = (case rq_top_k rq of None \<Rightarrow> rg_max_retrieval E | Some k \<Rightarrow> if k = 0 then rg_max_retrieval E else k)"

definition parse_stages :: "string \<Rightarrow> exn + int list" where
  "parse_stages s =
     (let raw = filter (\<lambda>p. p \<noteq> [] \<and> list_all is_digit_char p) (map strip (split_on (CHR '','') s)) in
      if \<not> list_all (\<lambda>p. py_int p \<noteq> None) raw then Inl (ValueError ''invalid literal for int()'')
      else Inr (if raw \<noteq> [] then map (\<lambda>p. the (py_int p)) raw else [5, 10, 20]))"

definition find_hits ::
  "('s, 'v) rag_env \<Rightarrow> rag_clock \<Rightarrow> rag_request \<Rightarrow> 's retrieval_state \<Rightarrow> (exn + hits option) \<times> 's retrieval_state" where
  \<comment> \<open>\<open>None\<close> is the degraded mode\<close>
  "find_hits E clk rq st =
     (let search = rag_search E clk (rq_version rq) (build_access_filter (rq_user rq));
          (r, st) =
            (if \<not> embedder_ready (rg_retriever E) then (Inr None, st)
             else if rg_degraded E then (Inr None, st)
             else if rg_progressive E \<and> (rq_top_k rq = None \<or> rq_top_k rq = Some 0)
             then (case parse_stages (rg_stages E) of
                     Inl e \<Rightarrow> (Inl e, st)
                   | Inr stages \<Rightarrow>
                       (let (r, st) = progressive_retrieve search (strong_threshold (score_thresholds (rg_retriever E)))
                                        (rg_hyde E) (rg_slm E) (rg_graph E) (rq_query rq) stages st
                        in (map_sum id (\<lambda>x. Some (fst x)) r, st)))
             else (let (r, st) = search 0 (rq_query rq) (top_k_of E rq) st in (map_sum id Some r, st)))
      in case r of
           Inl e \<Rightarrow> ((if is_exception e then Inr None else Inl e), st)
         | Inr h \<Rightarrow> (Inr h, st))"

subsection \<open>From hits to sources and context\<close>

definition acl_chunk :: "hit_payload \<Rightarrow> chunk" where
  "acl_chunk p = \<lparr>chunk_ref = [], chunk_top = hp_top p, chunk_payload = hp_inner p\<rparr>"

definition filter_hits :: "user_context \<Rightarrow> hits \<Rightarrow> hits" where
  \<comment> \<open>\<^verbatim>\<open>filter_chunks\<close> on the payloads, each with its score\<close>
  "filter_hits u hs = (if is_admin u then hs else filter (\<lambda>h. chunk_visible u (acl_chunk (sp_payload h))) hs)"

definition source_entry :: "(string \<Rightarrow> string) \<Rightarrow> scored_chunk \<Rightarrow> source" where
  "source_entry sha x =
     \<lparr>src_chunk_id = context_chunk_hash sha (fst x),
      src_source = dict_getd (fst x) ''source_type'' ''unknown'',
      src_title = (if field (fst x) ''title'' \<noteq> [] then field (fst x) ''title'' else field (fst x) ''doc_title''),
      src_version = dict_getd (fst x) ''version'' ''unknown'',
      src_relevance = round_to 4 (snd x),
      src_preview = take 200 (field (fst x) ''text'')\<rparr>"

definition corrective_search ::
  "('s, 'v) rag_env \<Rightarrow> rag_clock \<Rightarrow> rag_request \<Rightarrow> string \<Rightarrow> hits \<Rightarrow> 's retrieval_state \<Rightarrow> (exn + hits) \<times> 's retrieval_state" where
  \<comment> \<open>the second search of the corrective actions and the merge into \<^verbatim>\<open>search_results\<close>\<close>
  "corrective_search E clk rq action search_results st =
     (let access_filter = build_access_filter (rq_user rq);
          (r, st) =
            (if action = ''REWRITE''
             then rag_search E clk (rq_version rq) access_filter 4 (''More specific: '' @ rq_query rq) (top_k_of E rq) st
             else if action = ''EXPAND''
             then rag_search E clk None access_filter 4 (rq_query rq) (top_k_of E rq * 2) st
             else (Inr [], st))
      in case r of
           Inl e \<Rightarrow> ((if is_exception e then Inr search_results else Inl e), st)
         | Inr additional \<Rightarrow> (Inr (search_results @ additional), st))"

definition context_for :: "('s, 'v) rag_env \<Rightarrow> string \<Rightarrow> scored_chunk list \<Rightarrow> string" where
  "context_for E action unique_chunks =
     (if action = ''FALLBACK'' then []
      else if action = ''EXPAND'' then build_context (rg_context E) unique_chunks 100000 True True
      else
        (let budget = dict_getd (smart_token_budget 130000 (int (length unique_chunks))) ''context_total'' 0;
             raw_context = build_context (rg_context E) unique_chunks budget True True
         in if budget < int (length raw_context) div 4
            then compress_context (map fst unique_chunks) budget ''hierarchical'' else raw_context))"

record gathered =
  ga_context :: string
  ga_sources :: "source list"
  ga_chunks :: "scored_chunk list"
    \<comment> \<open>\<^verbatim>\<open>chunks_for_eval\<close>\<close>

definition nothing_gathered :: gathered where
  "nothing_gathered = \<lparr>ga_context = [], ga_sources = [], ga_chunks = []\<rparr>"

definition gather ::
  "('s, 'v) rag_env \<Rightarrow> rag_clock \<Rightarrow> rag_request \<Rightarrow> hits \<Rightarrow> 's rag_state \<Rightarrow> (exn + gathered) \<times> 's rag_state" where
  "gather E clk rq search_results st =
     (if list_ex (\<lambda>h. dict_get (hp_fields (sp_payload h)) ''text'' = None) search_results
      then (Inl (KeyError ''text''), st)
      else
        (let visible = filter_hits (rq_user rq) search_results in
         if visible = [] then (Inr nothing_gathered, st)
         else
           (let texts = map (\<lambda>h. field (hp_fields (sp_payload h)) ''text'') visible;
                (now, c) = ck_rerank clk;
                (r, bs, rc) = rerank_chunks (rg_backend E) (rg_reranker E) now c (rq_query rq) texts (rg_max_rerank E) True
                                (rs_breakers (rs_retrieval st), rs_rerank_cache st);
                st = st\<lparr>rs_retrieval := (rs_retrieval st)\<lparr>rs_breakers := bs\<rparr>, rs_rerank_cache := rc\<rparr>
            in case r of
                 Inl e \<Rightarrow> (Inl e, st)
               | Inr indices \<Rightarrow>
                   (let reranked = map (\<lambda>i. (hp_fields (sp_payload (visible ! i)), score (visible ! i))) indices;
                        unique_chunks = deduplicate_chunks (rg_sha E) reranked;
                        sources = map (source_entry (rg_sha E)) unique_chunks;
                        for_eval = map (\<lambda>x. \<lparr>ev_fields = fst x, ev_score = Some (snd x)\<rparr>) unique_chunks;
                        (confidence, action, processed) = evaluate_and_act (rq_query rq) for_eval;
                        (s, rst) = corrective_search E clk rq action search_results (rs_retrieval st);
                        st = st\<lparr>rs_retrieval := rst\<rparr>
                    in case s of
                         Inl e \<Rightarrow> (Inl e, st)
                       | Inr search_results \<Rightarrow>
                           (Inr \<lparr>ga_context = context_for E action unique_chunks, ga_sources = sources,
                                 ga_chunks = unique_chunks\<rparr>, st)))))"

subsection \<open>The prompt and the answer\<close>

definition prompt_messages :: "string \<Rightarrow> rag_request \<Rightarrow> message list" where
  "prompt_messages system_prompt rq =
     (''system'', system_prompt) # filter (\<lambda>m. fst m \<noteq> ''system'') (rq_others rq) @ [(''user'', rq_query rq)]"

definition system_prompt_for :: "('s, 'v) rag_env \<Rightarrow> rag_request \<Rightarrow> gathered \<Rightarrow> string" where
  "system_prompt_for E rq g =
     (let should_gen = fst (should_generate_answer (map snd (ga_chunks g)) 2);
          resolved_lang = (if truthy_str (rq_lang rq) then the (rq_lang rq) else rg_detect E (rq_query rq));
          base_prompt = rg_prompt E (Some resolved_lang);
          nl = [CHR 0x0A]
      in (if \<not> should_gen then rg_notice E @ blank_line else []) @
         base_prompt @ blank_line @ ''Context:'' @ nl @ ga_context g)"

definition answer_from ::
  "('s, 'v) rag_env \<Rightarrow> rag_clock \<Rightarrow> rag_request \<Rightarrow> gathered \<Rightarrow> 's rag_state \<Rightarrow> (exn + rag_result) \<times> 's rag_state" where
  "answer_from E clk rq g st =
     (let messages = prompt_messages (system_prompt_for E rq g) rq in
      if rq_stream rq then (Inr (For_stream (ga_context g) messages (ga_sources g)), st)
      else
        (let reply = rg_llm E messages (rq_temperature rq) (rq_max_tokens rq);
             text = (case reply of Inl e \<Rightarrow> rg_apology E | Inr t \<Rightarrow> t)
         in case reply of
              Inl (PyBaseException m) \<Rightarrow> (Inl (PyBaseException m), st)
            | _ \<Rightarrow>
                (Inr (Answer text (ga_context g) False (ga_sources g)
                        (if ga_chunks g \<noteq> []
                         then rg_ragas E (rq_query rq) text (map (\<lambda>x. field (fst x) ''text'') (ga_chunks g)) else [])),
                 st\<lparr>rs_answers := store_answer E (ck_store clk) rq text (rs_answers st)\<rparr>)))"

definition direct_prompt :: string where
  "direct_prompt = ''You are a helpful assistant. Answer briefly and directly.''"

definition process_rag_query ::
  "('s, 'v) rag_env \<Rightarrow> rag_clock \<Rightarrow> rag_request \<Rightarrow> 's rag_state \<Rightarrow> (exn + rag_result) \<times> 's rag_state" where
  "process_rag_query E clk rq st =
     (let (r, cm) = cached_answer E (ck_lookup clk) rq (rs_answers st); st = st\<lparr>rs_answers := cm\<rparr> in
      case r of
        Inl e \<Rightarrow> (Inl e, st)
      | Inr (Some text) \<Rightarrow> (Inr (Answer text [] True [] []), st)
      | Inr None \<Rightarrow>
          (if rg_routing E \<and> \<not> retrieves (rq_query rq)
           then (map_sum id (\<lambda>text. Answer text [] False [] [])
                   (rg_llm E (prompt_messages direct_prompt rq) (rq_temperature rq) (rq_max_tokens rq)), st)
           else
             (let (h, rst) = find_hits E clk rq (rs_retrieval st); st = st\<lparr>rs_retrieval := rst\<rparr> in
              case h of
                Inl e \<Rightarrow> (Inl e, st)
              | Inr None \<Rightarrow> answer_from E clk rq nothing_gathered st
              | Inr (Some []) \<Rightarrow> answer_from E clk rq nothing_gathered st
              | Inr (Some search_results) \<Rightarrow>
                  (case gather E clk rq search_results st of
                     (Inl e, st) \<Rightarrow> (Inl e, st)
                   | (Inr g, st) \<Rightarrow> answer_from E clk rq g st))))"

subsection \<open>An answer is built from what the user may see\<close>

lemma filter_hits_is_filter_chunks:
  "map (\<lambda>h. acl_chunk (sp_payload h)) (filter_hits u hs) = filter_chunks (map (\<lambda>h. acl_chunk (sp_payload h)) hs) u"
  by (simp add: filter_hits_def filter_chunks_def filter_map comp_def)

lemma length_fill_scores: "length (fill_scores ss xs) = length ss"
  by (induction ss xs rule: fill_scores.induct) auto

lemma length_lookup_scores: "lookup_scores b E now ps cm = (Inr ss, cm') \<Longrightarrow> length ss = length ps"
proof (induction ps arbitrary: cm ss cm')
  case (Cons p ps)
  obtain q c where p: "p = (q, c)" by (cases p)
  from Cons.prems obtain s1 cm1 cm2 where "lookup_scores b E now ps cm1 = (Inr s1, cm2)" and "length ss = Suc (length s1)"
    unfolding p lookup_scores.simps Let_def
    by (auto simp: map_sum_def split: prod.splits if_splits sum.splits)
  with Cons.IH show ?case by auto
qed simp

lemma length_cached_scores:
  assumes "cached_scores b E now clk pairs bs cm = (Inr xs, st)"
  shows "length xs = length pairs"
proof -
  obtain opts cm1 where l: "lookup_scores b E now pairs cm = (Inr opts, cm1)"
    using assms unfolding cached_scores_def by (auto split: prod.splits sum.splits)
  have "\<exists>ys. xs = fill_scores opts ys"
    using assms unfolding cached_scores_def l
    by (auto simp: Let_def split: prod.splits sum.splits if_splits option.splits)
  with length_lookup_scores [OF l] length_fill_scores show ?thesis by auto
qed

lemma rank_indices_less: "i \<in> set (rank_indices E k scores) \<Longrightarrow> i < length scores"
  unfolding rank_indices_def Let_def by (auto simp: in_set_enumerate_eq dest!: subsetD [OF set_slice_to])

lemma rerank_chunks_less:
  assumes "rerank_chunks b E now clk q texts k True st = (Inr is, st')" and "i \<in> set is"
  shows "i < length texts"
proof (cases "texts = []")
  case False
  let ?pairs = "map (\<lambda>c. (q, truncate_text (RERANKER_MAX_LENGTH E) c)) texts"
  obtain bs cm where st: "st = (bs, cm)" by (cases st)
  obtain r s1 where c: "cached_scores b E now clk ?pairs bs cm = (r, s1)" by (metis surj_pair)
  from assms(1) False obtain xs where xs: "r = Inr xs" "is = rank_indices E k xs"
    unfolding rerank_chunks_def st Let_def by (auto simp: c map_sum_def split: sum.splits)
  with length_cached_scores [of b E now clk ?pairs bs cm xs s1] c have "length xs = length texts" by simp
  with rank_indices_less assms(2) xs(2) show ?thesis by metis
qed (use assms in \<open>simp add: rerank_chunks_def\<close>)

definition visible_chunks :: "user_context \<Rightarrow> hits \<Rightarrow> scored_chunk set" where
  \<comment> \<open>the chunks, with their scores, of those hits whose own access fields admit the user\<close>
  "visible_chunks u hs =
     {(hp_fields (sp_payload h), score h) | h. h \<in> set hs \<and> (is_admin u \<or> chunk_visible u (acl_chunk (sp_payload h)))}"

definition confined :: "('s, 'v) rag_env \<Rightarrow> user_context \<Rightarrow> hits \<Rightarrow> gathered \<Rightarrow> bool" where
  "confined E u hs g \<longleftrightarrow>
     set (ga_chunks g) \<subseteq> visible_chunks u hs \<and> ga_sources g = map (source_entry (rg_sha E)) (ga_chunks g) \<and>
     (\<exists>action. ga_context g = context_for E action (ga_chunks g))"

lemma confined_nothing: "confined E u hs nothing_gathered"
  by (simp add: confined_def nothing_gathered_def context_for_def exI [of _ "''FALLBACK''"])

lemma dedup_loop_subset: "set (dedup_loop sha seen xs) \<subseteq> set xs"
  by (induction sha seen xs rule: dedup_loop.induct) (auto simp: Let_def)

lemma gather_confined:
  assumes "gather E clk rq hs st = (Inr g, st')"
  shows "confined E (rq_user rq) hs g"
proof (cases "filter_hits (rq_user rq) hs = []")
  case True
  then have "g = nothing_gathered" using assms by (simp add: gather_def split: if_splits)
  then show ?thesis by (simp add: confined_nothing)
next
  case False
  let ?v = "filter_hits (rq_user rq) hs"
  let ?texts = "map (\<lambda>h. field (hp_fields (sp_payload h)) ''text'') ?v"
  obtain now c where clk: "ck_rerank clk = (now, c)" by (cases "ck_rerank clk")
  obtain r bs rc where rr: "rerank_chunks (rg_backend E) (rg_reranker E) now c (rq_query rq) ?texts (rg_max_rerank E) True
      (rs_breakers (rs_retrieval st), rs_rerank_cache st) = (r, bs, rc)" by (metis surj_pair)
  obtain indices where i: "r = Inr indices"
    using assms False unfolding gather_def Let_def clk prod.case rr by (auto split: if_splits sum.splits)
  let ?re = "map (\<lambda>i. (hp_fields (sp_payload (?v ! i)), score (?v ! i))) indices"
  let ?u = "deduplicate_chunks (rg_sha E) ?re"
  have g: "ga_chunks g = ?u \<and> ga_sources g = map (source_entry (rg_sha E)) ?u \<and> (\<exists>a. ga_context g = context_for E a ?u)"
    using assms False unfolding gather_def Let_def clk prod.case rr i sum.case
    by (auto split: if_splits sum.splits prod.splits)
  have "x \<in> visible_chunks (rq_user rq) hs" if "x \<in> set ?u" for x
  proof -
    have "x \<in> set ?re" using that dedup_loop_subset unfolding deduplicate_chunks_def by blast
    then obtain j where j: "j \<in> set indices" "x = (hp_fields (sp_payload (?v ! j)), score (?v ! j))" by auto
    have "j < length ?texts" by (rule rerank_chunks_less [OF rr [unfolded i] j(1)])
    then have "?v ! j \<in> set ?v" by simp
    then have "?v ! j \<in> set hs \<and> (is_admin (rq_user rq) \<or> chunk_visible (rq_user rq) (acl_chunk (sp_payload (?v ! j))))"
      by (auto simp: filter_hits_def split: if_splits)
    with j(2) show ?thesis unfolding visible_chunks_def by blast
  qed
  then have "set ?u \<subseteq> visible_chunks (rq_user rq) hs" by (rule subsetI)
  with g show ?thesis unfolding confined_def by (simp only: simp_thms)
qed

definition replied :: "('s, 'v) rag_env \<Rightarrow> rag_request \<Rightarrow> string \<Rightarrow> string \<Rightarrow> bool" where
  \<comment> \<open>\<open>text\<close> is the answer of the language model to the system prompt \<open>p\<close>, or the apology\<close>
  "replied E rq p text \<longleftrightarrow>
     text = (case rg_llm E (prompt_messages p rq) (rq_temperature rq) (rq_max_tokens rq) of Inl e \<Rightarrow> rg_apology E | Inr t \<Rightarrow> t)"

definition from_gathered :: "('s, 'v) rag_env \<Rightarrow> rag_request \<Rightarrow> gathered \<Rightarrow> rag_result \<Rightarrow> bool" where
  "from_gathered E rq g res =
     (case res of
        Answer text ctx cached srcs scores \<Rightarrow>
          \<not> cached \<and> ctx = ga_context g \<and> srcs = ga_sources g \<and>
          (replied E rq (system_prompt_for E rq g) text \<or> replied E rq direct_prompt text)
      | For_stream ctx ms srcs \<Rightarrow>
          ctx = ga_context g \<and> srcs = ga_sources g \<and> ms = prompt_messages (system_prompt_for E rq g) rq)"

lemma answer_from_gathered: "answer_from E clk rq g st = (Inr res, st') \<Longrightarrow> from_gathered E rq g res"
  by (auto simp: answer_from_def from_gathered_def replied_def Let_def split: if_splits sum.splits exn.splits)

definition served_from_cache :: "rag_result \<Rightarrow> bool" where
  "served_from_cache res = (case res of Answer text ctx cached srcs scores \<Rightarrow> cached | For_stream ctx ms srcs \<Rightarrow> False)"

definition hits_found :: "exn + hits option \<Rightarrow> hits" where
  "hits_found r = (case r of Inr (Some hs) \<Rightarrow> hs | _ \<Rightarrow> [])"

text \<open>
  C3. An answer that does not come from a cache is confined to what its user may see: its chunks are among those hits of its
  own search whose access fields admit the user (or the user is an administrator), whatever else the search returned; its
  context and its sources are computed from these chunks alone, and the prompt that the language model is given, if it is
  not the one of a question that is answered without retrieval, from them and the request.
\<close>
theorem rag_answer_confined:
  assumes "fst (process_rag_query E clk rq st) = Inr res" and "\<not> served_from_cache res"
  shows "\<exists>g. confined E (rq_user rq) (hits_found (fst (find_hits E clk rq (rs_retrieval st)))) g \<and> from_gathered E rq g res"
proof -
  obtain st' where run: "process_rag_query E clk rq st = (Inr res, st')" using assms(1) by (metis prod.collapse)
  obtain r cm where c: "cached_answer E (ck_lookup clk) rq (rs_answers st) = (r, cm)"
    by (cases "cached_answer E (ck_lookup clk) rq (rs_answers st)")
  let ?st = "st\<lparr>rs_answers := cm\<rparr>"
  obtain h rst where h: "find_hits E clk rq (rs_retrieval ?st) = (h, rst)" by (cases "find_hits E clk rq (rs_retrieval ?st)")
  let ?st2 = "?st\<lparr>rs_retrieval := rst\<rparr>"
  note run' = run [unfolded process_rag_query_def Let_def c prod.case h]
  consider (cached) a where "r = Inr (Some a)" | (direct) "r = Inr None" "rg_routing E \<and> \<not> retrieves (rq_query rq)"
    | (nothing) "r = Inr None" "answer_from E clk rq nothing_gathered ?st2 = (Inr res, st')"
    | (found) hits g s where "h = Inr (Some hits)" "gather E clk rq hits ?st2 = (Inr g, s)" "answer_from E clk rq g s = (Inr res, st')"
    using run' by (auto split: sum.splits option.splits if_splits list.splits prod.splits)
  then show ?thesis
  proof cases
    case cached
    with run' have "res = Answer a [] True [] []" by simp
    with assms(2) show ?thesis by (simp add: served_from_cache_def)
  next
    case direct
    with run' have "\<exists>a. res = Answer a [] False [] [] \<and> replied E rq direct_prompt a"
      by (auto simp: map_sum_def replied_def split: sum.splits)
    then have "from_gathered E rq nothing_gathered res" by (auto simp: from_gathered_def nothing_gathered_def)
    with confined_nothing show ?thesis by blast
  next
    case nothing
    with answer_from_gathered confined_nothing show ?thesis by blast
  next
    case found
    have "fst (find_hits E clk rq (rs_retrieval st)) = Inr (Some hits)" using h found(1) by simp
    with gather_confined [OF found(2)] answer_from_gathered [OF found(3)] show ?thesis by (auto simp: hits_found_def)
  qed
qed

subsection \<open>What the caches give away\<close>

context cache_backend
begin

lemma scan_keeps: "now \<le> t \<Longrightarrow> view (snd (scan_entries b E now emb entries c)) t k = view c t k"
proof (induction entries arbitrary: c)
  case (Cons j entries)
  show ?case
  proof (cases j)
    case (JStr i)
    show ?thesis
      using Cons unfolding JStr scan_JStr by (simp add: cache_get_keeps split: verdict.split)
  qed simp_all
qed simp

lemma sem_get_keeps: "now \<le> t \<Longrightarrow> view (snd (sem_get b E now q c)) t k = view c t k"
  unfolding sem_get_def
  by (subst cache_get_pair) (auto simp: cache_get_keeps scan_keeps split: option.split json.split)

end

lemma cached_answer_keeps:
  assumes "rg_backend E = memory_backend" and "now \<le> t"
  shows "mem.view (snd (cached_answer E now rq cm)) t k = mem.view cm t k"
  using assms mem.sem_get_keeps [OF assms(2)] mem.cache_get_keeps [OF assms(2)]
  unfolding cached_answer_def exact_answer_def Let_def assms(1)
  by (auto simp: split_beta split: option.split sum.split)

lemma gather_answers: "gather E clk rq hs st = (r, st') \<Longrightarrow> rs_answers st' = rs_answers st"
  by (auto simp: gather_def Let_def split: if_splits prod.splits sum.splits)

lemma answer_from_stores:
  "answer_from E clk rq g st = (Inr (Answer a ctx c srcs sc), st') \<Longrightarrow>
   rs_answers st' = store_answer E (ck_store clk) rq a (rs_answers st)"
  by (auto simp: answer_from_def Let_def split: if_splits sum.splits exn.splits)

lemma answer_stored:
  assumes "process_rag_query E clk rq st = (Inr (Answer a ctx False srcs sc), st')" and "\<not> rg_routing E"
  shows "rs_answers st' =
    store_answer E (ck_store clk) rq a (snd (cached_answer E (ck_lookup clk) rq (rs_answers st)))"
proof -
  obtain r cm where c: "cached_answer E (ck_lookup clk) rq (rs_answers st) = (r, cm)"
    by (cases "cached_answer E (ck_lookup clk) rq (rs_answers st)")
  let ?st = "st\<lparr>rs_answers := cm\<rparr>"
  obtain h rst where h: "find_hits E clk rq (rs_retrieval ?st) = (h, rst)" by (cases "find_hits E clk rq (rs_retrieval ?st)")
  let ?st2 = "?st\<lparr>rs_retrieval := rst\<rparr>"
  note run' = assms(1) [unfolded process_rag_query_def Let_def c prod.case h]
  consider (nothing) "answer_from E clk rq nothing_gathered ?st2 = (Inr (Answer a ctx False srcs sc), st')"
    | (found) hits g s where "gather E clk rq hits ?st2 = (Inr g, s)"
        "answer_from E clk rq g s = (Inr (Answer a ctx False srcs sc), st')"
    using run' assms(2) by (auto split: sum.splits option.splits if_splits list.splits prod.splits)
  then show ?thesis
  proof cases
    case nothing
    from answer_from_stores [OF this] c show ?thesis by simp
  next
    case found
    from answer_from_stores [OF found(2)] gather_answers [OF found(1)] c show ?thesis by simp
  qed
qed

lemma answer_key_fresh [simp]:
  "answer_key u q v \<noteq> bucket_key S emb" "bucket_key S emb \<noteq> answer_key u q v"
  "answer_key u q v \<noteq> entry_key S q'" "entry_key S q' \<noteq> answer_key u q v"
  by (simp_all add: answer_key_def bucket_key_def entry_key_def)

lemma semantic_stored:
  assumes "embed S q = Some emb" and "threshold S \<le> cosine_similarity emb emb" and "0 \<le> sem_ttl S"
    and "now \<le> t" and "t \<le> now + sem_ttl S" and "JStr (entry_key S q) \<notin> set (bucket_ids S emb now c)"
  shows "fst (sem_get memory_backend S t q (snd (sem_set memory_backend S now q r c))) = Inr (Some r)"
proof -
  let ?i = "entry_key S q" let ?c = "snd (sem_set memory_backend S now q r c)"
  have fresh: "JStr ?i \<notin> set (mem.set_bucket S now q r emb c)" using assms(6) by (simp add: set_bucket_eq)
  have "mem.view ?c t (bucket_key S emb) = JList (JStr ?i # take 49 (mem.set_bucket S now q r emb c))"
    and "mem.view ?c t ?i = sem_entry emb r q"
    using fresh assms(3-5)
    by (simp_all add: mem.sem_set_view [OF assms(1,4)] Let_def SEMANTIC_CACHE_BUCKET_SIZE_def)
  then show ?thesis using judge_own_entry [OF assms(2)] by (intro sem_get_first [OF assms(1)]) auto
qed

lemma bucket_ids_view: "bucket_ids S emb now c = (case mem.view c now (bucket_key S emb) of JList js \<Rightarrow> js | _ \<Rightarrow> [])"
  by (simp add: bucket_ids_def mem.view_def)

lemma process_hit:
  assumes "fst (cached_answer E (ck_lookup clk) rq (rs_answers st)) = Inr (Some a)"
  shows "fst (process_rag_query E clk rq st) = Inr (Answer a [] True [] [])"
  using assms unfolding process_rag_query_def Let_def by (auto simp: split_beta)

text \<open>
  C8. The semantic cache hands the answer of one user to every other: when a question has been answered for a user, and
  its bucket did not list it yet, whoever asks the same question within the time to live is given that very answer,
  whatever the groups and roles of the two users and whatever version each asked for.
\<close>
theorem semantic_answer_shared:
  assumes "process_rag_query E clk rq st = (Inr (Answer a ctx False srcs sc), st')"
    and "rg_backend E = memory_backend" and "rg_semantic E = Some S" and "\<not> rg_routing E" and "a \<noteq> []"
    and "\<not> rq_force_refresh rq" and "\<not> rq_force_refresh rq'" and "rq_query rq' = rq_query rq"
    and "embed S (rq_query rq) = Some emb" and "threshold S \<le> cosine_similarity emb emb" and "0 \<le> sem_ttl S"
    and "JStr (entry_key S (rq_query rq)) \<notin> set (bucket_ids S emb (ck_store clk) (rs_answers st))"
    and "ck_lookup clk \<le> ck_store clk" and "ck_store clk \<le> ck_lookup clk'" and "ck_lookup clk' \<le> ck_store clk + sem_ttl S"
  shows "fst (process_rag_query E clk' rq' st') = Inr (Answer a [] True [] [])"
proof -
  let ?q = "rq_query rq" let ?now = "ck_store clk"
  let ?cm1 = "snd (cached_answer E (ck_lookup clk) rq (rs_answers st))"
  let ?cm2 = "snd (cache_set memory_backend ?now (answer_key (rq_user rq) ?q (rq_version rq)) (JStr a) 3600 ?cm1)"
  have st': "rs_answers st' = snd (sem_set memory_backend S ?now ?q a ?cm2)"
    using answer_stored [OF assms(1,4)] assms(2,3,6) by (simp add: store_answer_def Let_def)
  have "mem.view ?cm2 ?now (bucket_key S emb) = mem.view (rs_answers st) ?now (bucket_key S emb)"
    by (simp add: mem.cache_set_view cached_answer_keeps [OF assms(2,13)])
  then have "JStr (entry_key S ?q) \<notin> set (bucket_ids S emb ?now ?cm2)"
    using assms(12) by (simp add: bucket_ids_view)
  from semantic_stored [OF assms(9,10,11,14,15) this]
  have "fst (sem_get memory_backend S (ck_lookup clk') ?q (rs_answers st')) = Inr (Some a)" by (simp add: st')
  then have "fst (cached_answer E (ck_lookup clk') rq' (rs_answers st')) = Inr (Some a)"
    using assms(2,3,5,7,8)
    by (cases "sem_get memory_backend S (ck_lookup clk') ?q (rs_answers st')") (simp add: cached_answer_def truthy_str_def)
  then show ?thesis by (rule process_hit)
qed

text \<open>
  C32. A failure of the language model is remembered: the apology that stands in for the answer is stored like an answer, and
  the same request is given the apology for an hour, whatever the model could answer by then.
\<close>
theorem outage_answer_cached:
  assumes "process_rag_query E clk rq st = (Inr (Answer (rg_apology E) ctx False srcs sc), st')"
    and "rg_backend E = memory_backend" and "rg_semantic E = None" and "\<not> rg_routing E" and "rg_apology E \<noteq> []"
    and "\<not> rq_force_refresh rq" and "ck_store clk \<le> ck_lookup clk'" and "ck_lookup clk' \<le> ck_store clk + 3600"
  shows "fst (process_rag_query (E\<lparr>rg_llm := llm\<rparr>) clk' rq st') = Inr (Answer (rg_apology E) [] True [] [])"
proof -
  let ?key = "answer_key (rq_user rq) (rq_query rq) (rq_version rq)"
  let ?cm = "snd (cached_answer E (ck_lookup clk) rq (rs_answers st))"
  have st': "rs_answers st' = snd (cache_set memory_backend (ck_store clk) ?key (JStr (rg_apology E)) 3600 ?cm)"
    using answer_stored [OF assms(1,4)] assms(2,3,6) by (simp add: store_answer_def)
  have "mem.view (rs_answers st') (ck_lookup clk') ?key = JStr (rg_apology E)"
    unfolding st' mem.cache_set_view using assms(8) by simp
  then have "fst (cache_get memory_backend (ck_lookup clk') ?key (rs_answers st')) = JStr (rg_apology E)"
    by (simp add: mem.cache_get_view)
  then have "fst (cached_answer (E\<lparr>rg_llm := llm\<rparr>) (ck_lookup clk') rq (rs_answers st')) = Inr (Some (rg_apology E))"
    using assms(2,3,5,6)
    by (cases "cache_get memory_backend (ck_lookup clk') ?key (rs_answers st')")
      (simp add: cached_answer_def exact_answer_def truthy_str_def str_with_def)
  then show ?thesis by (rule process_hit)
qed

subsection \<open>Corrective retrieval\<close>

definition only_exceptions :: "('s, 'v) rag_env \<Rightarrow> bool" where
  "only_exceptions E \<longleftrightarrow>
     (\<forall>clk v f n q k s. case fst (rag_search E clk v f n q k s) of Inl e \<Rightarrow> is_exception e | Inr h \<Rightarrow> True)"

lemma corrective_search_returns:
  assumes "only_exceptions E"
  shows "\<exists>more rst. corrective_search E clk rq action hs st = (Inr more, rst)"
proof -
  have x: "is_exception e" if "rag_search E clk v f n q k s = (Inl e, s')" for v f n q k s s' e
    using assms [unfolded only_exceptions_def, THEN spec [of _ clk], THEN spec [of _ v], THEN spec [of _ f],
      THEN spec [of _ n], THEN spec [of _ q], THEN spec [of _ k], THEN spec [of _ s]] that by simp
  have ok: "\<exists>more rst. (let (r, st) = z in case r of Inl e \<Rightarrow> ((if is_exception e then Inr hs else Inl e), st)
      | Inr additional \<Rightarrow> (Inr (hs @ additional), st)) = (Inr more, rst)"
    if "\<forall>e s'. z = (Inl e, s') \<longrightarrow> is_exception e" for z :: "(exn + hits) \<times> 'a retrieval_state"
    using that by (cases z; cases "fst z") auto
  show ?thesis
  proof (cases "action = ''REWRITE''")
    case True
    show ?thesis unfolding corrective_search_def if_P [OF True] Let_def [of "build_access_filter _"]
      by (rule ok) (intro allI impI, erule x)
  next
    case no_rewrite: False
    show ?thesis
    proof (cases "action = ''EXPAND''")
      case True
      show ?thesis unfolding corrective_search_def if_not_P [OF no_rewrite] if_P [OF True] Let_def [of "build_access_filter _"]
        by (rule ok) (intro allI impI, erule x)
    next
      case False
      show ?thesis unfolding corrective_search_def if_not_P [OF no_rewrite] if_not_P [OF False] Let_def by simp
    qed
  qed
qed

text \<open>
  The corrective actions correct nothing: whatever the knowledge base returns to the second search that the actions
  \<^verbatim>\<open>REWRITE\<close> and \<^verbatim>\<open>EXPAND\<close> make, context, sources and chunks stay those of the first.
\<close>
theorem corrective_search_ineffective:
  fixes E :: "('s, 'v) rag_env" and R :: "('s, 'v, hit_payload) retriever"
  assumes "only_exceptions E" and "only_exceptions (E\<lparr>rg_retriever := R\<rparr>)"
  shows "fst (gather (E\<lparr>rg_retriever := R\<rparr>) clk rq hs st) = fst (gather E clk rq hs st)"
proof -
  let ?E = "E\<lparr>rg_retriever := R\<rparr>"
  let ?v = "filter_hits (rq_user rq) hs"
  let ?texts = "map (\<lambda>h. field (hp_fields (sp_payload h)) ''text'') ?v"
  obtain now c where clk: "ck_rerank clk = (now, c)" by (cases "ck_rerank clk")
  obtain r bs rc where rr: "rerank_chunks (rg_backend E) (rg_reranker E) now c (rq_query rq) ?texts (rg_max_rerank E) True
      (rs_breakers (rs_retrieval st), rs_rerank_cache st) = (r, bs, rc)" by (metis surj_pair)
  let ?st = "st\<lparr>rs_retrieval := (rs_retrieval st)\<lparr>rs_breakers := bs\<rparr>, rs_rerank_cache := rc\<rparr>"
  have ctx: "context_for ?E a xs = context_for E a xs" for a xs by (simp add: context_for_def)
  have sel: "rg_backend ?E = rg_backend E" "rg_reranker ?E = rg_reranker E" "rg_max_rerank ?E = rg_max_rerank E" "rg_sha ?E = rg_sha E"
    by simp_all
  show ?thesis
  proof (cases r)
    case (Inl e)
    then show ?thesis unfolding gather_def Let_def clk prod.case sel rr sum.case by simp
  next
    case (Inr indices)
    let ?re = "map (\<lambda>i. (hp_fields (sp_payload (?v ! i)), score (?v ! i))) indices"
    define z where "z = evaluate_and_act (rq_query rq)
        (map (\<lambda>x. \<lparr>ev_fields = fst x, ev_score = Some (snd x)\<rparr>) (deduplicate_chunks (rg_sha E) ?re))"
    obtain conf action pr where "z = (conf, action, pr)" by (cases z)
    note ev = this [unfolded z_def]
    obtain m1 t1 where 1: "corrective_search E clk rq action hs (rs_retrieval ?st) = (Inr m1, t1)"
      using corrective_search_returns [OF assms(1)] by blast
    obtain m2 t2 where 2: "corrective_search ?E clk rq action hs (rs_retrieval ?st) = (Inr m2, t2)"
      using corrective_search_returns [OF assms(2)] by blast
    show ?thesis unfolding gather_def Let_def clk prod.case sel rr Inr sum.case ev 1 2 ctx by simp
  qed
qed

subsection \<open>Witnesses\<close>

definition offline_retriever :: "(store, unit, hit_payload) retriever" where
  "offline_retriever =
     \<lparr>client_ready = False, embedder_ready = False, embed_env = sample_embed_env, sparse_embedding = (\<lambda>q. Inr None),
      query_dense = (\<lambda>v f k. Inr []), query_sparse = (\<lambda>v f k. Inr []), score_thresholds = default_score_thresholds\<rparr>"

definition sample_rag :: "(store, unit) rag_env" where
  "sample_rag =
     \<lparr>rg_retriever = offline_retriever, rg_backend = memory_backend, rg_semantic = Some sample_env,
      rg_reranker = sample_rerank_env, rg_context = sample_context_config, rg_sha = (\<lambda>s. s), rg_str = (\<lambda>v. []),
      rg_slm = (\<lambda>p. Inr None), rg_graph = (\<lambda>q. Inr []), rg_llm = (\<lambda>ms t n. Inr ''salary list''), rg_detect = (\<lambda>q. ''en''), rg_prompt = (\<lambda>l. ''Answer.''),
      rg_ragas = (\<lambda>q a cs. []), rg_notice = ''No knowledge.'', rg_apology = ''Sorry.'', rg_degraded = False,
      rg_routing = False, rg_progressive = True, rg_hyde = True, rg_stages = ''5,10,20'', rg_max_retrieval = 50,
      rg_max_rerank = 20\<rparr>"

definition sample_clock :: "real \<Rightarrow> rag_clock" where
  "sample_clock t =
     \<lparr>ck_lookup = t, ck_search = (\<lambda>n. (t, (t, t, t), (t, t, t))), ck_rerank = (t, (t, t, t)), ck_store = t\<rparr>"

definition sample_request :: "user_context \<Rightarrow> rag_request" where
  "sample_request u =
     \<lparr>rq_query = ''who earns what?'', rq_version = None, rq_force_refresh = False, rq_temperature = 1/5, rq_max_tokens = 4096,
      rq_stream = False, rq_others = [], rq_user = u, rq_top_k = None, rq_lang = None\<rparr>"

definition sample_rag_state :: "store rag_state" where
  "sample_rag_state = \<lparr>rs_retrieval = sample_state, rs_rerank_cache = init_cache_manager [] [],
     rs_answers = init_cache_manager [] []\<rparr>"

lemma empty_answers: "cache_get memory_backend t k (init_cache_manager [] []) =
    (JNull, (init_cache_manager [] [])\<lparr>cache_misses := 1\<rparr>)"
  by (simp add: cache_get_def memory_backend_def get_value_def init_cache_manager_def)

lemma empty_lookup:
  assumes "rg_backend E = memory_backend" and "rg_semantic E = Some sample_env \<or> rg_semantic E = None"
  shows "\<exists>cm. cached_answer E t rq (init_cache_manager [] []) = (Inr None, cm)"
proof -
  have "fst (cached_answer E t rq (init_cache_manager [] [])) = Inr None"
  proof (cases "rq_force_refresh rq")
    case False
    have miss: "\<exists>cm. sem_get memory_backend sample_env t q (init_cache_manager [] []) = (Inr None, cm) \<and>
        fst (cache_get memory_backend t k cm) = JNull" for q k
      by (simp add: sem_get_def sample_env_def empty_answers init_cache_manager_def cache_get_def memory_backend_def get_value_def)
    obtain cm where cm: "sem_get memory_backend sample_env t (rq_query rq) (init_cache_manager [] []) = (Inr None, cm)"
      "fst (cache_get memory_backend t (answer_key (rq_user rq) (rq_query rq) (rq_version rq)) cm) = JNull"
      using miss by blast
    from assms(2) show ?thesis
    proof
      assume "rg_semantic E = Some sample_env"
      with False assms(1) cm show ?thesis
        by (simp add: cached_answer_def exact_answer_def truthy_str_def split_beta)
    next
      assume "rg_semantic E = None"
      with False assms(1) show ?thesis
        by (simp add: cached_answer_def exact_answer_def truthy_str_def empty_answers)
    qed
  qed (simp add: cached_answer_def)
  then show ?thesis by (metis prod.collapse)
qed

lemma sample_rag_simps [simp]:
  "rg_retriever sample_rag = offline_retriever" "rg_backend sample_rag = memory_backend" "rg_semantic sample_rag = Some sample_env"
  "rg_routing sample_rag = False" "rg_apology sample_rag = ''Sorry.''" "embedder_ready offline_retriever = False"
  "rg_llm sample_rag ms t n = Inr ''salary list''"
  by (simp_all add: sample_rag_def offline_retriever_def)

lemma sample_request_simps [simp]:
  "rq_query (sample_request u) = ''who earns what?''" "rq_force_refresh (sample_request u) = False"
  "rq_user (sample_request u) = u" "rq_version (sample_request u) = None" "rq_stream (sample_request u) = False"
  by (simp_all add: sample_request_def)

lemma offline_answer:
  assumes "rg_backend E = memory_backend" and "rg_semantic E = Some sample_env \<or> rg_semantic E = None"
    and "\<not> rg_routing E" and "rg_retriever E = offline_retriever"
    and "rg_llm E (prompt_messages (system_prompt_for E (sample_request u) nothing_gathered) (sample_request u))
          (rq_temperature (sample_request u)) (rq_max_tokens (sample_request u)) = r"
    and "r = Inr a \<or> r = Inl (PyException n m) \<and> a = rg_apology E"
  shows "\<exists>st'. process_rag_query E clk (sample_request u) sample_rag_state = (Inr (Answer a [] False [] []), st')"
proof -
  obtain cm where cm: "cached_answer E (ck_lookup clk) (sample_request u) (init_cache_manager [] []) = (Inr None, cm)"
    using empty_lookup [OF assms(1,2)] by blast
  have f: "find_hits E clk (sample_request u) s = (Inr None, s)" for s
    using assms(4) by (simp add: find_hits_def)
  have g: "ga_context nothing_gathered = []" "ga_sources nothing_gathered = []" "ga_chunks nothing_gathered = []"
    by (simp_all add: nothing_gathered_def)
  show ?thesis using assms(3,5,6) cm
    by (auto simp: process_rag_query_def sample_rag_state_def Let_def f answer_from_def g)
qed

theorem rag_answer_confined_witness:
  "\<exists>g. confined sample_rag anonymous (hits_found (fst (find_hits sample_rag (sample_clock 0) (sample_request anonymous)
       (rs_retrieval sample_rag_state)))) g \<and> ga_sources g = [] \<and>
     from_gathered sample_rag (sample_request anonymous) g (Answer ''salary list'' [] False [] [])"
proof -
  obtain st' where "process_rag_query sample_rag (sample_clock 0) (sample_request anonymous) sample_rag_state =
      (Inr (Answer ''salary list'' [] False [] []), st')"
    using offline_answer [of sample_rag] by fastforce
  then have "fst (process_rag_query sample_rag (sample_clock 0) (sample_request anonymous) sample_rag_state) =
      Inr (Answer ''salary list'' [] False [] [])" by simp
  from rag_answer_confined [OF this]
  show ?thesis by (auto simp: served_from_cache_def from_gathered_def)
qed

theorem semantic_answer_shared_witness:
  "fst (process_rag_query sample_rag (sample_clock 60) (sample_request anonymous)
     (snd (process_rag_query sample_rag (sample_clock 0) (sample_request dev_user) sample_rag_state))) =
   Inr (Answer ''salary list'' [] True [] [])"
proof -
  obtain st' where run: "process_rag_query sample_rag (sample_clock 0) (sample_request dev_user) sample_rag_state =
      (Inr (Answer ''salary list'' [] False [] []), st')"
    using offline_answer [of sample_rag] by fastforce
  have "fst (process_rag_query sample_rag (sample_clock 60) (sample_request anonymous) st') =
      Inr (Answer ''salary list'' [] True [] [])"
    by (rule semantic_answer_shared [OF run, where S = sample_env and emb = "[1, 0]"])
      (simp_all add: sample_clock_def sample_env_def cosine_similarity_def bucket_ids_def sample_rag_state_def
        init_cache_manager_def live_def)
  with run show ?thesis by simp
qed

theorem outage_answer_cached_witness:
  "fst (process_rag_query (sample_rag\<lparr>rg_semantic := None\<rparr>) (sample_clock 60) (sample_request anonymous)
     (snd (process_rag_query (sample_rag\<lparr>rg_semantic := None, rg_llm := (\<lambda>ms t n. Inl (PyException ''ConnectError'' []))\<rparr>)
        (sample_clock 0) (sample_request anonymous) sample_rag_state))) =
   Inr (Answer ''Sorry.'' [] True [] [])"
proof -
  let ?E = "sample_rag\<lparr>rg_semantic := None, rg_llm := (\<lambda>ms t n. Inl (PyException ''ConnectError'' []))\<rparr>"
  obtain st' where run: "process_rag_query ?E (sample_clock 0) (sample_request anonymous) sample_rag_state =
      (Inr (Answer (rg_apology ?E) [] False [] []), st')"
    using offline_answer [of ?E] by fastforce
  have "?E\<lparr>rg_llm := (\<lambda>ms t n. Inr ''salary list'')\<rparr> = sample_rag\<lparr>rg_semantic := None\<rparr>"
    by (simp add: sample_rag_def)
  with outage_answer_cached [OF run, of "sample_clock 60" "\<lambda>ms t n. Inr ''salary list''"] run show ?thesis
    by (simp add: sample_clock_def)
qed

theorem corrective_search_ineffective_witness:
  "fst (gather (sample_rag\<lparr>rg_retriever := offline_retriever\<lparr>client_ready := True\<rparr>\<rparr>) (sample_clock 0) (sample_request anonymous)
     [] sample_rag_state) = Inr nothing_gathered"
proof -
  have "only_exceptions sample_rag" "only_exceptions (sample_rag\<lparr>rg_retriever := offline_retriever\<lparr>client_ready := True\<rparr>\<rparr>)"
    by (simp_all add: only_exceptions_def rag_search_def hybrid_search_def offline_retriever_def split_beta)
  from corrective_search_ineffective [OF this, of "sample_clock 0" "sample_request anonymous" "[]" sample_rag_state]
  show ?thesis by (simp add: gather_def filter_hits_def)
qed

end
