(* ===== verification/Chat.thy ===== *)
theory Chat
  imports Rag_Pipeline Conversation
begin

text \<open>
  The chat endpoint, \<^verbatim>\<open>proxy/app/api/chat.py\<close>, with the input validation of \<^verbatim>\<open>shared/security.py\<close> and the clarifying
  questions of \<^verbatim>\<open>core/clarification.py\<close>: from the messages of a request through the conversation memory and the pipeline
  to the completion or the events of a stream. The language model, the pattern that finds a version in a query and the
  LangGraph runtime are parameters. Request ids, the audit log, tracing and feedback ids are left out. A long dash in a
  fixed text of the source is written as two hyphens.
\<close>

subsection \<open>Input validation\<close>

function drop_tags :: "string \<Rightarrow> string" where
  \<comment> \<open>\<^verbatim>\<open>re.sub(r"<[^>]*>", "", s)\<close>\<close>
  "drop_tags [] = []"
| "drop_tags (c # cs) =
     (if c = CHR ''<'' \<and> CHR ''>'' \<in> set cs then drop_tags (tl (dropWhile (\<lambda>d. d \<noteq> CHR ''>'') cs)) else c # drop_tags cs)"
  by pat_completeness auto

termination
proof (relation "measure length")
  fix c :: char and cs :: string
  have "length (tl (dropWhile (\<lambda>d. d \<noteq> CHR ''>'') cs)) \<le> length cs"
    using length_dropWhile_le [of "\<lambda>d. d \<noteq> CHR ''>''" cs] by simp
  then show "(tl (dropWhile (\<lambda>d. d \<noteq> CHR ''>'') cs), c # cs) \<in> measure length" by simp
qed simp_all

definition control_char :: "char \<Rightarrow> bool" where
  "control_char c \<longleftrightarrow> (let n = of_char c :: nat in n \<le> 8 \<or> n = 11 \<or> n = 12 \<or> 14 \<le> n \<and> n \<le> 31 \<or> n = 127)"

fun collapse_from :: "bool \<Rightarrow> string \<Rightarrow> string" where
  \<comment> \<open>\<^verbatim>\<open>re.sub(r"\s+", " ", s)\<close>, with whether the last character was a space\<close>
  "collapse_from sp [] = []"
| "collapse_from sp (c # cs) =
     (if py_space c then (if sp then collapse_from True cs else CHR '' '' # collapse_from True cs)
      else c # collapse_from False cs)"

definition MAX_QUERY_LENGTH :: nat where
  "MAX_QUERY_LENGTH = 8000"

definition validate_query :: "string \<Rightarrow> string" where
  "validate_query query =
     (let query = take MAX_QUERY_LENGTH query;
          query = drop_tags query;
          query = filter (\<lambda>c. \<not> control_char c) query
      in strip (collapse_from False query))"

definition validate_non_empty :: "string \<Rightarrow> nat \<Rightarrow> string option" where
  "validate_non_empty s max_len =
     (if strip s = [] then None
      else
        (let sanitized = filter (\<lambda>c. \<not> control_char c) (drop_tags (strip s));
             sanitized = (if length sanitized > max_len then take max_len sanitized else sanitized)
         in if sanitized \<noteq> [] then Some sanitized else None))"

definition validate_path_traversal :: "string \<Rightarrow> bool" where
  "validate_path_traversal path = (\<not> list_ex (\<lambda>d. contains d path) [''..'', ''~'', [CHR 0x00]])"

definition model_char :: "char \<Rightarrow> bool" where
  "model_char c \<longleftrightarrow> (let n = of_char c :: nat in 48 \<le> n \<and> n \<le> 57 \<or> 65 \<le> n \<and> n \<le> 90 \<or> 97 \<le> n \<and> n \<le> 122 \<or>
     c \<in> set ''_.-/:'')"

definition validate_model_name :: "string \<Rightarrow> bool" where
  \<comment> \<open>\<^verbatim>\<open>$\<close> also matches before a final newline\<close>
  "validate_model_name name =
     (let name' = (if name \<noteq> [] \<and> last name = CHR 0x0A then butlast name else name) in name' \<noteq> [] \<and> list_all model_char name')"

definition sanitize_headers :: "(string, string) dict \<Rightarrow> (string, string) dict" where
  "sanitize_headers headers =
     map (\<lambda>(k, v). (k, if py_lower k \<in> {''authorization'', ''cookie'', ''x-api-key'', ''x-auth-token'', ''set-cookie''}
                        then ''[REDACTED]'' else v)) headers"

subsection \<open>Clarifying questions\<close>

record clarification =
  cl_questions :: "string list"
  cl_needed :: bool
  cl_by :: string

definition no_clarification :: clarification where
  "no_clarification = \<lparr>cl_questions = [], cl_needed = False, cl_by = ''heuristic''\<rparr>"

definition titles_of :: "nat \<Rightarrow> source list \<Rightarrow> string list" where
  "titles_of n sources = filter (\<lambda>t. t \<noteq> []) (map src_title (take n sources))"

definition clarify_prompt :: "string \<Rightarrow> string \<Rightarrow> source list \<Rightarrow> string option \<Rightarrow> string" where
  "clarify_prompt query status sources lang =
     (let titles = titles_of 3 sources;
          preview = (if sources \<noteq> [] \<and> titles \<noteq> [] then ''Found documents: '' @ join '', '' titles @ ''.'' else []);
          target = (if truthy_str lang then the lang else ''the same language as the query'');
          nl = [CHR 0x0A]; dq = [CHR 0x22]
      in ''The user asked: '' @ dq @ query @ dq @ nl @ ''Knowledge base status: '' @ status @ nl @ preview @ nl @
         ''Generate 1-2 short clarifying questions in '' @ target @ '' '' @
         ''that would help refine the search to find better information. '' @
         ''Output ONLY the questions, one per line, starting with '' @ [CHR 0x27] @ ''- '' @ [CHR 0x27] @ ''.'')"

definition question_line :: "string \<Rightarrow> string option" where
  "question_line l =
     (let line = strip l in
      if starts_with ''- '' line \<and> length line > 3 then Some (strip (drop 2 line))
      else if line \<noteq> [] \<and> CHR ''?'' \<in> set line \<and> length line > 5 then Some line else None)"

definition generate_with_slm ::
  "bool \<Rightarrow> (string \<Rightarrow> exn + string option) \<Rightarrow> string \<Rightarrow> string \<Rightarrow> source list \<Rightarrow> string option \<Rightarrow> clarification" where
  "generate_with_slm available slm query status sources lang =
     (if \<not> available then no_clarification
      else
        (case slm (clarify_prompt query status sources lang) of
           Inl e \<Rightarrow> no_clarification
         | Inr r \<Rightarrow>
             (if \<not> truthy_str r then no_clarification
              else (let questions = take 2 (List.map_filter question_line (split_on (CHR 0x0A) (the r)))
                    in if questions \<noteq> [] then \<lparr>cl_questions = questions, cl_needed = True, cl_by = ''slm''\<rparr>
                       else no_clarification))))"

definition generate_heuristic :: "string \<Rightarrow> string \<Rightarrow> source list \<Rightarrow> clarification" where
  "generate_heuristic query status sources =
     (let status = normalize_knowledge_status status;
          titles = titles_of 2 sources;
          questions =
            (if status = ''absent''
             then [''Could you rephrase your question with more specific technical terms or product names?''] @
                  (if length (py_split query) > 10
                   then [''Would you like to break this down into smaller, more focused questions?''] else [])
             else if status = ''partial'' \<or> status = ''insufficient''
             then (if sources \<noteq> []
                   then (if titles \<noteq> []
                         then [''I found some information about '' @ [CHR 0x27] @ hd titles @ [CHR 0x27] @ '' -- '' @
                               ''could you clarify what specific aspect you are interested in?'']
                         else [''Could you clarify what specific aspect of this topic you are interested in?''])
                   else [''Could you provide more specific details about what you are looking for?''])
             else [])
      in \<lparr>cl_questions = take 2 questions, cl_needed = True, cl_by = ''heuristic''\<rparr>)"

definition generate_clarifying_questions ::
  "bool \<Rightarrow> (string \<Rightarrow> exn + string option) \<Rightarrow> string \<Rightarrow> string \<Rightarrow> source list \<Rightarrow> string option \<Rightarrow> clarification" where
  "generate_clarifying_questions available slm query status sources lang =
     (let status = normalize_knowledge_status status in
      if status = ''sufficient'' then no_clarification
      else
        (let r = generate_with_slm available slm query status sources lang
         in if cl_questions r \<noteq> [] then r else generate_heuristic query status sources))"

definition build_uncertainty_response ::
  "(real \<Rightarrow> string) \<Rightarrow> string \<Rightarrow> string \<Rightarrow> source list \<Rightarrow> clarification option \<Rightarrow> string" where
  \<comment> \<open>the first argument renders a number with two decimals\<close>
  "build_uncertainty_response fmt2 query status sources cl =
     (if normalize_knowledge_status status = ''sufficient'' then []
      else
        (let nl = [CHR 0x0A]; dq = [CHR 0x22]; sq = [CHR 0x27];
             found = map (\<lambda>s. ''- '' @ (if src_title s \<noteq> [] then src_title s else src_source s) @
                             '' (relevance: '' @ fmt2 (src_relevance s) @ '')'') (take 3 sources);
             numbered = (\<lambda>xs. map (\<lambda>(i, s). nat_str i @ ''. '' @ s) (enumerate 1 xs));
             suggestions =
               [if length (py_split query) < 4
                then ''Try adding more specific details or technical terms to your query.''
                else ''Try using different keywords or more precise terminology.'',
                ''Consider breaking your question into smaller, more focused parts.'']
         in join nl
              ([''I wasn'' @ sq @ ''t able to find fully reliable information about: '' @ dq @ query @ dq,
                if sources \<noteq> [] then nl @ ''What was found (partial matches):'' @ nl @ join nl found
                else nl @ ''What was found: No matching documents in the knowledge base.'',
                nl @ ''What'' @ sq @ ''s missing: Sufficiently relevant content to provide a confident answer.'',
                nl @ ''Suggestions to refine your query:''] @ numbered suggestions @
               (case cl of None \<Rightarrow> []
                | Some c \<Rightarrow> if cl_questions c \<noteq> [] then [nl @ ''Clarifying questions:''] @ numbered (cl_questions c) else []))))"

subsection \<open>Requests and responses\<close>

record chat_request =
  cq_model :: string
  cq_messages :: "message list"
  cq_temperature :: "real option"
  cq_max_tokens :: "int option"
  cq_stream :: bool
  cq_version :: "string option"
  cq_force_refresh :: bool
  cq_skip_generation :: bool
  cq_top_k :: "int option"
  cq_lang :: "string option"

record completion =
  co_content :: string
  co_confidence :: "real option"
  co_sources :: "source list option"
  co_ragas :: "(string, real) dict"
  co_status :: "string option"
  co_source_count :: "nat option"
  co_clarification_needed :: "bool option"
  co_questions :: "string list option"

datatype sse_event =
    Initial_chunk
  | Delta string
  | Refusal string
  | Final_meta real string nat
  | Status_meta string nat
  | Clarify_meta "string list"
  | Raw_text string
  | Stream_done
  | Stream_error

datatype chat_response = Http_error nat string | Completion completion | Events "sse_event list"

record ('s, 'v) chat_env =
  ce_rag :: "('s, 'v) rag_env"
  ce_confidence :: confidence_env
  ce_version_of :: "string \<Rightarrow> string option"
  ce_stream :: "message list \<Rightarrow> real \<Rightarrow> int \<Rightarrow> string list \<times> exn option"
    \<comment> \<open>the deltas of the model, and the exception that ended them\<close>
  ce_orchestrator :: "(string \<Rightarrow> string option \<Rightarrow> exn + string list \<times> string \<times> string \<times> scored_chunk list) option"
    \<comment> \<open>the keys of the final state of the agentic graph, its answer, context and \<^verbatim>\<open>reranked_chunks\<close>, where it is enabled\<close>
  ce_slm_available :: bool
  ce_fmt2 :: "real \<Rightarrow> string"
  ce_allow_ungrounded :: bool
  ce_clarification :: bool
  ce_max_turns :: int
  ce_session_ttl :: real
  ce_summary_threshold :: int

record chat_clock =
  cc_open :: real
  cc_rag :: rag_clock
  cc_turn :: real

record 's chat_state =
  cs_rag :: "'s rag_state"
  cs_conversations :: conversation_store

definition uses_rag :: "string \<Rightarrow> bool" where
  "uses_rag model \<longleftrightarrow> drop (length model - 4) model = ''+RAG'' \<or> model = ''rag-proxy''"

fun split_messages :: "message list \<Rightarrow> string option \<Rightarrow> string option \<times> message list" where
  \<comment> \<open>the loop that is announced as taking the last user message\<close>
  "split_messages [] q = (q, [])"
| "split_messages ((role, content) # ms) q =
     (let c = validate_query content in
      if role = ''user'' \<and> q = None then split_messages ms (Some c)
      else (let (q, others) = split_messages ms q in (q, (role, c) # others)))"

definition or_default :: "'a :: zero option \<Rightarrow> 'a \<Rightarrow> 'a" where
  \<comment> \<open>\<^verbatim>\<open>x or d\<close> on an optional number\<close>
  "or_default x d = (case x of None \<Rightarrow> d | Some v \<Rightarrow> if v = 0 then d else v)"

definition rag_request_of ::
  "chat_request \<Rightarrow> user_context \<Rightarrow> string option \<Rightarrow> message list \<Rightarrow> string \<Rightarrow> bool \<Rightarrow> rag_request" where
  "rag_request_of rq u version others query stream =
     \<lparr>rq_query = query, rq_version = version, rq_force_refresh = cq_force_refresh rq,
      rq_temperature = or_default (cq_temperature rq) (2/10), rq_max_tokens = or_default (cq_max_tokens rq) 4096,
      rq_stream = stream, rq_others = others, rq_user = u, rq_top_k = cq_top_k rq, rq_lang = cq_lang rq\<rparr>"

definition plain_completion :: "string \<Rightarrow> completion" where
  "plain_completion content =
     \<lparr>co_content = content, co_confidence = None, co_sources = None, co_ragas = [], co_status = None, co_source_count = None,
      co_clarification_needed = None, co_questions = None\<rparr>"

definition result_text :: "rag_result \<Rightarrow> string" where
  "result_text r = (case r of Answer a ctx cached srcs sc \<Rightarrow> a | For_stream ctx ms srcs \<Rightarrow> ctx)"

definition result_context :: "rag_result \<Rightarrow> string" where
  "result_context r = (case r of Answer a ctx cached srcs sc \<Rightarrow> ctx | For_stream ctx ms srcs \<Rightarrow> [])"

definition result_sources :: "rag_result \<Rightarrow> source list" where
  "result_sources r = (case r of Answer a ctx cached srcs sc \<Rightarrow> srcs | For_stream ctx ms srcs \<Rightarrow> srcs)"

definition result_ragas :: "rag_result \<Rightarrow> (string, real) dict" where
  "result_ragas r = (case r of Answer a ctx cached srcs sc \<Rightarrow> sc | For_stream ctx ms srcs \<Rightarrow> [])"

definition status_of_sources :: "source list \<Rightarrow> bool \<times> knowledge_status" where
  "status_of_sources srcs =
     (let scores = map src_relevance srcs; should_gen = fst (should_generate_answer scores 2)
      in (should_gen, determine_knowledge_status scores should_gen))"

definition clarify ::
  "('s, 'v) chat_env \<Rightarrow> chat_request \<Rightarrow> string \<Rightarrow> knowledge_status \<Rightarrow> source list \<Rightarrow> clarification option" where
  "clarify C rq query ks srcs =
     (if ce_clarification C \<and> ks_status ks \<in> {''partial'', ''insufficient'', ''absent''}
      then Some (generate_clarifying_questions (ce_slm_available C) (rg_slm (ce_rag C)) query (ks_status ks) srcs (cq_lang rq))
      else None)"

definition remember_turns ::
  "('s, 'v) chat_env \<Rightarrow> real \<Rightarrow> string \<Rightarrow> string \<Rightarrow> json_obj \<Rightarrow> conversation \<Rightarrow> conversation" where
  "remember_turns C now query answer metadata c =
     (let c = (if needs_summarization None c then summarize_older_turns (ce_max_turns C div 2) c else c)
      in add_turn now ''assistant'' answer metadata (add_turn now ''user'' query [] c))"

definition save_conversation :: "string \<Rightarrow> conversation \<Rightarrow> conversation_store \<Rightarrow> conversation_store" where
  \<comment> \<open>the object the store holds for the session is the one that was changed\<close>
  "save_conversation sid c s = (case dict_get s sid of None \<Rightarrow> s | Some (c', created) \<Rightarrow> dict_set sid (c, created) s)"

subsection \<open>The standard pipeline\<close>

definition session_id_of :: "user_context \<Rightarrow> string \<Rightarrow> string" where
  "session_id_of u client_ip = (if is_authenticated u then user_id u else client_ip)"

definition standard_completion ::
  "('s, 'v) chat_env \<Rightarrow> chat_clock \<Rightarrow> chat_request \<Rightarrow> user_context \<Rightarrow> string \<Rightarrow> string option \<Rightarrow> string \<Rightarrow> message list
   \<Rightarrow> 's chat_state \<Rightarrow> (exn + chat_response) \<times> 's chat_state" where
  "standard_completion C clk rq u client_ip version user_query others st =
     (let sid = session_id_of u client_ip;
          (r, conversations) = get_conversation (ce_session_ttl C) (ce_summary_threshold C) (cc_open clk) sid (cs_conversations st);
          st = st\<lparr>cs_conversations := conversations\<rparr>
      in case r of
           Inl e \<Rightarrow> (Inl e, st)
         | Inr conv \<Rightarrow>
             (let enriched = enrich_query_with_context conv user_query;
                  (r, rag) = process_rag_query (ce_rag C) (cc_rag clk) (rag_request_of rq u version others enriched False) (cs_rag st);
                  st = st\<lparr>cs_rag := rag\<rparr>
              in case r of
                   Inl e \<Rightarrow>
                     ((if is_exception e
                       then Inr (Http_error 503 ''Knowledge system temporarily unavailable. Please try again later.'') else Inl e), st)
                 | Inr res \<Rightarrow>
                     (let response_text = result_text res; srcs = result_sources res;
                          confidence = compute_answer_confidence (ce_confidence C) (result_context res) response_text;
                          (should_gen, ks) = status_of_sources srcs;
                          cl = clarify C rq user_query ks srcs;
                          final_response = (if ks_status ks = ''absent'' \<and> \<not> should_gen
                                            then rg_notice (ce_rag C) @ blank_line @ response_text else response_text);
                          conv = remember_turns C (cc_turn clk) user_query final_response
                                   [(''knowledge_status'', JStr (ks_status ks)), (''confidence'', JFloat (cr_score confidence))] conv
                      in (Inr (Completion
                            \<lparr>co_content = final_response, co_confidence = Some (cr_score confidence), co_sources = Some srcs,
                             co_ragas = result_ragas res, co_status = Some (ks_status ks), co_source_count = Some (ks_source_count ks),
                             co_clarification_needed = map_option cl_needed cl,
                             co_questions = (case cl of None \<Rightarrow> None | Some c \<Rightarrow> if cl_needed c then Some (cl_questions c) else None)\<rparr>),
                          st\<lparr>cs_conversations := save_conversation sid conv (cs_conversations st)\<rparr>))))"

definition clarify_events :: "clarification option \<Rightarrow> sse_event list" where
  "clarify_events cl =
     (case cl of None \<Rightarrow> [] | Some c \<Rightarrow> if cl_needed c then [Clarify_meta (cl_questions c)] else [])"

definition ungrounded_messages :: "('s, 'v) chat_env \<Rightarrow> chat_request \<Rightarrow> string \<Rightarrow> message list \<Rightarrow> message list" where
  \<comment> \<open>the prompt of the stream when the pipeline returned no messages\<close>
  "ungrounded_messages C rq user_query others =
     (''system'', rg_notice (ce_rag C) @ blank_line @ rg_prompt (ce_rag C) (cq_lang rq) @ blank_line @ ''Context:'' @ [CHR 0x0A])
     # filter (\<lambda>m. fst m \<noteq> ''system'') others @ [(''user'', user_query)]"

definition stream_events ::
  "('s, 'v) chat_env \<Rightarrow> chat_clock \<Rightarrow> chat_request \<Rightarrow> user_context \<Rightarrow> string \<Rightarrow> string option \<Rightarrow> string \<Rightarrow> message list
   \<Rightarrow> 's chat_state \<Rightarrow> (exn + sse_event list) \<times> 's chat_state" where
  \<comment> \<open>\<^verbatim>\<open>event_generator\<close>, run to its end\<close>
  "stream_events C clk rq u client_ip version user_query others st =
     (let fail = (\<lambda>e evs st. (if is_exception e then Inr (evs @ [Stream_error]) else Inl e, st));
          sid = session_id_of u client_ip;
          (r, conversations) = get_conversation (ce_session_ttl C) (ce_summary_threshold C) (cc_open clk) sid (cs_conversations st);
          st = st\<lparr>cs_conversations := conversations\<rparr>
      in case r of
           Inl e \<Rightarrow> fail e [Initial_chunk] st
         | Inr conv \<Rightarrow>
             (let enriched = enrich_query_with_context conv user_query;
                  (r, rag) = process_rag_query (ce_rag C) (cc_rag clk) (rag_request_of rq u version others enriched True) (cs_rag st);
                  st = st\<lparr>cs_rag := rag\<rparr>
              in case r of
                   Inl e \<Rightarrow> fail e [Initial_chunk] st
                 | Inr res \<Rightarrow>
                     (let srcs = result_sources res;
                          rag_context = (case res of Answer a ctx cached ss sc \<Rightarrow> a | For_stream ctx ms ss \<Rightarrow> ctx);
                          messages = (case res of Answer a ctx cached ss sc \<Rightarrow> [] | For_stream ctx ms ss \<Rightarrow> ms);
                          (should_gen, ks) = status_of_sources srcs;
                          cl = clarify C rq user_query ks srcs;
                          conv = (if needs_summarization None conv then summarize_older_turns (ce_max_turns C div 2) conv else conv);
                          st = st\<lparr>cs_conversations := save_conversation sid conv (cs_conversations st)\<rparr>;
                          save = (\<lambda>answer md. st\<lparr>cs_conversations := save_conversation sid
                            (add_turn (cc_turn clk) ''assistant'' answer md (add_turn (cc_turn clk) ''user'' user_query [] conv))
                            (cs_conversations st)\<rparr>)
                      in if messages = [] \<and> \<not> ce_allow_ungrounded C then
                           (let refusal = (if rag_context \<noteq> [] then rag_context
                                           else build_uncertainty_response (ce_fmt2 C) user_query (ks_status ks) srcs cl)
                            in (Inr ([Initial_chunk, Refusal refusal, Status_meta (ks_status ks) (ks_source_count ks)]
                                     @ clarify_events cl @ [Stream_done]),
                                save refusal [(''knowledge_status'', JStr (ks_status ks))]))
                         else
                           (let messages = (if messages = [] then ungrounded_messages C rq user_query others else messages);
                                (deltas, stop) = ce_stream C messages (or_default (cq_temperature rq) (2/10))
                                                   (or_default (cq_max_tokens rq) 4096)
                            in case stop of
                                 Some e \<Rightarrow> fail e (Initial_chunk # map Delta deltas) st
                               | None \<Rightarrow>
                                   (let full_answer = concat deltas;
                                        confidence = compute_answer_confidence (ce_confidence C) rag_context full_answer
                                    in (Inr (Initial_chunk # map Delta deltas @
                                             [Final_meta (cr_score confidence) (ks_status ks) (ks_source_count ks)] @
                                             clarify_events cl @ [Stream_done]),
                                        save full_answer [(''knowledge_status'', JStr (ks_status ks)),
                                                          (''confidence'', JFloat (cr_score confidence))]))))))"

subsection \<open>The endpoint\<close>

definition skip_generation ::
  "('s, 'v) chat_env \<Rightarrow> chat_clock \<Rightarrow> chat_request \<Rightarrow> user_context \<Rightarrow> string option \<Rightarrow> string \<Rightarrow> message list
   \<Rightarrow> 's chat_state \<Rightarrow> (exn + chat_response) \<times> 's chat_state" where
  "skip_generation C clk rq u version user_query others st =
     (let (r, rag) = process_rag_query (ce_rag C) (cc_rag clk) (rag_request_of rq u version others user_query True) (cs_rag st);
          st = st\<lparr>cs_rag := rag\<rparr>
      in case r of
           Inl e \<Rightarrow> (Inl e, st)
         | Inr res \<Rightarrow>
             (let ks = snd (status_of_sources (result_sources res))
              in (Inr (Completion ((plain_completion [])\<lparr>co_sources := Some (result_sources res), co_status := Some (ks_status ks),
                     co_source_count := Some (ks_source_count ks)\<rparr>)), st)))"

definition pass_through ::
  "('s, 'v) chat_env \<Rightarrow> chat_request \<Rightarrow> string \<Rightarrow> message list \<Rightarrow> exn + chat_response" where
  "pass_through C rq user_query others =
     (let messages = (''system'', ''You are a helpful assistant.'') # filter (\<lambda>m. fst m \<noteq> ''system'') others @ [(''user'', user_query)];
          temperature = or_default (cq_temperature rq) (2/10); max_tokens = or_default (cq_max_tokens rq) 4096
      in if cq_stream rq
         then (case ce_stream C messages temperature max_tokens of
                 (deltas, None) \<Rightarrow> Inr (Events (map Delta deltas @ [Stream_done]))
               | (deltas, Some e) \<Rightarrow> Inl e)
         else map_sum id (\<lambda>a. Completion (plain_completion a)) (rg_llm (ce_rag C) messages temperature max_tokens))"

definition agentic_completion ::
  "('s, 'v) chat_env \<Rightarrow> (string \<Rightarrow> string option \<Rightarrow> exn + string list \<times> string \<times> string \<times> scored_chunk list)
   \<Rightarrow> bool \<Rightarrow> string option \<Rightarrow> string \<Rightarrow> exn + chat_response" where
  \<comment> \<open>a stream iterates over the returned state, a dictionary: it sends the keys\<close>
  "agentic_completion C run stream version user_query =
     (case run user_query version of
        Inl e \<Rightarrow> (if is_exception e then Inr (Http_error 503 ''Agentic pipeline temporarily unavailable. Please try again.'')
                  else Inl e)
      | Inr (keys, answer, ctx, reranked) \<Rightarrow>
          (if stream then Inr (Events (map Raw_text keys))
           else
             (let srcs = map (source_entry (rg_sha (ce_rag C))) reranked;
                  confidence = compute_answer_confidence (ce_confidence C) ctx answer;
                  ks = determine_knowledge_status (map src_relevance srcs) True
              in Inr (Completion ((plain_completion answer)\<lparr>co_confidence := Some (cr_score confidence), co_sources := Some srcs,
                   co_status := Some (ks_status ks), co_source_count := Some (ks_source_count ks)\<rparr>)))))"

definition chat_completions ::
  "('s, 'v) chat_env \<Rightarrow> chat_clock \<Rightarrow> chat_request \<Rightarrow> user_context \<Rightarrow> string \<Rightarrow> 's chat_state
   \<Rightarrow> (exn + chat_response) \<times> 's chat_state" where
  "chat_completions C clk rq u client_ip st =
     (if validate_non_empty (cq_model rq) 256 = None then (Inr (Http_error 400 ''Invalid model name''), st)
      else
        (case split_messages (cq_messages rq) None of
           (q, others) \<Rightarrow>
             (if \<not> truthy_str q then (Inr (Http_error 400 ''No user message found''), st)
              else
                (let user_query = the q;
                     version = (if truthy_str (cq_version rq) then cq_version rq else ce_version_of C user_query)
                 in if cq_skip_generation rq then skip_generation C clk rq u version user_query others st
                    else if \<not> uses_rag (cq_model rq) then (pass_through C rq user_query others, st)
                    else
                      (case ce_orchestrator C of
                         Some run \<Rightarrow> (agentic_completion C run (cq_stream rq) version user_query, st)
                       | None \<Rightarrow>
                           (if cq_stream rq
                            then (let (r, st) = stream_events C clk rq u client_ip version user_query others st
                                  in (map_sum id Events r, st))
                            else standard_completion C clk rq u client_ip version user_query others st))))))"

subsection \<open>What validation guarantees\<close>

definition no_tag :: "string \<Rightarrow> bool" where
  "no_tag s \<longleftrightarrow> (\<nexists>a b c. s = a @ CHR ''<'' # b @ CHR ''>'' # c)"

lemma no_tag_Cons: "no_tag (c # s) \<longleftrightarrow> (c = CHR ''<'' \<longrightarrow> CHR ''>'' \<notin> set s) \<and> no_tag s"
proof -
  have "(\<exists>a b d. c # s = a @ CHR ''<'' # b @ CHR ''>'' # d) \<longleftrightarrow>
      (c = CHR ''<'' \<and> CHR ''>'' \<in> set s) \<or> (\<exists>a b d. s = a @ CHR ''<'' # b @ CHR ''>'' # d)" (is "?l \<longleftrightarrow> ?r")
  proof
    assume ?l
    then obtain a b d where e: "c # s = a @ CHR ''<'' # b @ CHR ''>'' # d" by blast
    then show ?r by (cases a) auto
  next
    assume ?r
    then show ?l
    proof
      assume "c = CHR ''<'' \<and> CHR ''>'' \<in> set s"
      then obtain b d where "c = CHR ''<''" "s = b @ CHR ''>'' # d" by (auto simp: in_set_conv_decomp)
      then have "c # s = [] @ CHR ''<'' # b @ CHR ''>'' # d" by simp
      then show ?l by blast
    next
      assume "\<exists>a b d. s = a @ CHR ''<'' # b @ CHR ''>'' # d"
      then obtain a b d where "s = a @ CHR ''<'' # b @ CHR ''>'' # d" by blast
      then have "c # s = (c # a) @ CHR ''<'' # b @ CHR ''>'' # d" by simp
      then show ?l by blast
    qed
  qed
  then show ?thesis unfolding no_tag_def by blast
qed

lemma set_drop_tags: "set (drop_tags s) \<subseteq> set s"
proof (induction s rule: drop_tags.induct)
  case (2 c cs)
  have "set (tl xs) \<subseteq> set xs" for xs :: string by (cases xs) auto
  then have "set (tl (dropWhile (\<lambda>d. d \<noteq> CHR ''>'') cs)) \<subseteq> set cs" by (blast dest: set_dropWhileD)
  with 2 show ?case by (cases "c = CHR ''<'' \<and> CHR ''>'' \<in> set cs") auto
qed simp

lemma length_drop_tags: "length (drop_tags s) \<le> length s"
proof (induction s rule: drop_tags.induct)
  case (2 c cs)
  have "length (tl (dropWhile (\<lambda>d. d \<noteq> CHR ''>'') cs)) \<le> length cs"
    using length_dropWhile_le [of "\<lambda>d. d \<noteq> CHR ''>''" cs] by simp
  with 2 show ?case by (cases "c = CHR ''<'' \<and> CHR ''>'' \<in> set cs") auto
qed simp

lemma no_tag_Nil: "no_tag []"
  by (simp add: no_tag_def)

lemma no_tag_drop_tags: "no_tag (drop_tags s)"
proof (induction s rule: drop_tags.induct)
  case (2 c cs)
  show ?case
  proof (cases "c = CHR ''<'' \<and> CHR ''>'' \<in> set cs")
    case False
    with 2 set_drop_tags [of cs] show ?thesis by (auto simp: no_tag_Cons)
  qed (use 2 in simp)
qed (simp add: no_tag_Nil)

lemma no_tag_filter: "no_tag s \<Longrightarrow> no_tag (filter P s)"
  by (induction s) (auto simp: no_tag_Cons)

lemma set_collapse: "set (collapse_from sp s) \<subseteq> insert (CHR '' '') (set s)"
  by (induction sp s rule: collapse_from.induct) auto

lemma no_tag_collapse: "no_tag s \<Longrightarrow> no_tag (collapse_from sp s)"
proof (induction sp s rule: collapse_from.induct)
  case (2 sp c cs)
  then show ?case using set_collapse [of _ cs] by (auto simp: no_tag_Cons)
qed (simp add: no_tag_Nil)

lemma length_collapse: "length (collapse_from sp s) \<le> length s"
  by (induction sp s rule: collapse_from.induct) auto

lemma strip_infix: "\<exists>a b. s = a @ strip s @ b"
proof -
  let ?d = "dropWhile py_space s"
  have "s = takeWhile py_space s @ ?d" by simp
  moreover have "?d = strip s @ rev (takeWhile py_space (rev ?d))"
    unfolding strip_def rev_append [symmetric] takeWhile_dropWhile_id by simp
  ultimately show ?thesis by metis
qed

lemma no_tag_infix: "no_tag (a @ s @ b) \<Longrightarrow> no_tag s"
  unfolding no_tag_def by (metis append.assoc append_Cons)

definition sanitized :: "string \<Rightarrow> bool" where
  "sanitized s \<longleftrightarrow> no_tag s \<and> list_all (\<lambda>c. \<not> control_char c) s \<and> length s \<le> MAX_QUERY_LENGTH"

lemma validate_query_sanitized: "sanitized (validate_query q)"
proof -
  let ?t = "take MAX_QUERY_LENGTH q"
  let ?f = "filter (\<lambda>c. \<not> control_char c) (drop_tags ?t)"
  let ?c = "collapse_from False ?f"
  obtain a b where ab: "?c = a @ validate_query q @ b"
    using strip_infix [of ?c] by (auto simp: validate_query_def Let_def)
  have "no_tag ?c" by (intro no_tag_collapse no_tag_filter no_tag_drop_tags)
  then have "no_tag (validate_query q)" unfolding ab by (rule no_tag_infix)
  moreover have "set (validate_query q) \<subseteq> insert (CHR '' '') (set ?f)"
  proof -
    have "set (validate_query q) \<subseteq> set ?c" unfolding ab by auto
    then show ?thesis using set_collapse [of False ?f] by blast
  qed
  then have "list_all (\<lambda>c. \<not> control_char c) (validate_query q)"
    by (auto simp: list_all_iff control_char_def)
  moreover have "length (validate_query q) \<le> 8000"
  proof -
    have "length (validate_query q) \<le> length ?c" using arg_cong [OF ab, of length] by simp
    also have "length ?c \<le> length (drop_tags ?t)" by (rule order_trans [OF length_collapse length_filter_le])
    also have "\<dots> \<le> 8000" using length_drop_tags [of ?t] by (simp add: MAX_QUERY_LENGTH_def)
    finally show ?thesis .
  qed
  ultimately show ?thesis by (simp add: sanitized_def MAX_QUERY_LENGTH_def)
qed

subsection \<open>What the user is answered\<close>

lemma split_messages_rest:
  "split_messages ms (Some q) = (Some q, map (\<lambda>(r, c). (r, validate_query c)) ms)"
  by (induction ms) (auto simp: Let_def)

lemma split_messages_skip:
  "(\<And>m. m \<in> set pre \<Longrightarrow> fst m \<noteq> ''user'') \<Longrightarrow> split_messages (pre @ ms) None =
     (fst (split_messages ms None), map (\<lambda>(r, c). (r, validate_query c)) pre @ snd (split_messages ms None))"
proof (induction pre)
  case (Cons m pre)
  obtain r c where m: "m = (r, c)" by (cases m)
  have "r \<noteq> ''user''" using Cons.prems [of m] m by simp
  with Cons m show ?case by (simp add: Let_def split_beta)
qed simp

lemma split_messages_contents:
  "split_messages ms q0 = (q, others) \<Longrightarrow>
     (q = q0 \<or> (\<exists>c. q = Some (validate_query c))) \<and> (\<forall>m \<in> set others. \<exists>c. snd m = validate_query c)"
proof (induction ms q0 arbitrary: q others rule: split_messages.induct)
  case (2 role c ms q0)
  show ?case
  proof (cases "role = ''user'' \<and> q0 = None")
    case True
    then have "split_messages ms (Some (validate_query c)) = (q, others)" using 2(3) by (simp add: Let_def)
    from 2(1) [OF refl True this] show ?thesis by auto
  next
    case False
    obtain q1 o1 where rest: "split_messages ms q0 = (q1, o1)" by (cases "split_messages ms q0")
    then have "q = q1" "others = (role, validate_query c) # o1" using 2(3) False by (auto simp: Let_def)
    with 2(2) [OF refl False rest] show ?thesis by auto
  qed
qed simp

lemma join_infix:
  assumes "p \<in> set ps"
  shows "\<exists>a b. join sep ps = a @ p @ b"
proof -
  obtain xs ys where ps: "ps = xs @ p # ys" using assms by (auto dest: split_list)
  show ?thesis
  proof (cases xs)
    case Nil
    then have "join sep ps = [] @ p @ concat (map (\<lambda>q. sep @ q) ys)" unfolding ps by (simp add: join_def)
    then show ?thesis by blast
  next
    case (Cons x zs)
    then have "join sep ps = (x @ concat (map (\<lambda>q. sep @ q) zs) @ sep) @ p @ concat (map (\<lambda>q. sep @ q) ys)"
      unfolding ps by (simp add: join_def)
    then show ?thesis by blast
  qed
qed

lemma enriched_holds_history:
  assumes "turns conv \<noteq> []" and "get_context 2 2000 False conv \<noteq> []"
  shows "\<exists>a b. enrich_query_with_context conv q = a @ get_context 2 2000 False conv @ b"
proof -
  let ?e = "get_top_entities 5 (tracker conv)" and ?r = "get_context 2 2000 False conv"
  let ?p = "''[Previous conversation:'' @ newline @ ?r @ newline @ '']''"
  let ?ps = "(if ?e \<noteq> [] then [''[Entities: '' @ join '', '' ?e @ '']''] else []) @ [?p]"
  have "enrich_query_with_context conv q = join newline (?ps @ [''Current question: '' @ q])"
    unfolding enrich_query_with_context_def Let_def if_not_P [OF assms(1)] if_P [OF assms(2)] by simp
  moreover obtain a b where "join newline (?ps @ [''Current question: '' @ q]) = a @ ?p @ b"
    using join_infix [of ?p "?ps @ [''Current question: '' @ q]" newline] by auto
  ultimately have "enrich_query_with_context conv q = (a @ ''[Previous conversation:'' @ newline) @ ?r @ (newline @ '']'' @ b)"
    by (simp only: append_assoc)
  then show ?thesis by blast
qed

text \<open>
  C20. Every message of a request is sanitized: the question and whatever else was sent reach the rest of the program without
  HTML tags and control characters, with at most 8000 characters each. The pipeline is then given the question as it is when the
  conversation is new, and otherwise behind a lead, which is made of the history (and need not be sanitized, as
  \<open>history_unsanitized\<close> shows).
\<close>
theorem request_sanitized:
  assumes "split_messages ms None = (Some q, others)"
  shows "sanitized q \<and> list_all (\<lambda>m. sanitized (snd m)) others \<and>
    (turns conv = [] \<longrightarrow> enrich_query_with_context conv q = q) \<and> (\<exists>lead. enrich_query_with_context conv q = lead @ q)"
proof -
  have "\<exists>c. q = validate_query c" "\<forall>m \<in> set others. \<exists>c. snd m = validate_query c"
    using split_messages_contents [OF assms] by auto
  then have "sanitized q" "list_all (\<lambda>m. sanitized (snd m)) others"
    using validate_query_sanitized by (auto simp: list_all_iff)
  moreover have "turns conv = [] \<longrightarrow> enrich_query_with_context conv q = q" by (simp add: enrich_query_with_context_def)
  ultimately show ?thesis using enrich_ends_with_question by blast
qed

theorem request_sanitized_witness:
  "sanitized ''hi'' \<and> sanitized ''ok'' \<and> enrich_query_with_context (new_conversation 2000) ''hi'' = ''hi''"
proof -
  have v: "validate_query ''<b>hi'' = ''hi''" "validate_query ''ok'' = ''ok''" by code_simp+
  have "split_messages [(''user'', ''<b>hi''), (''assistant'', ''ok'')] None = (Some ''hi'', [(''assistant'', ''ok'')])"
    by (simp add: v)
  from request_sanitized [OF this, of "new_conversation 2000"] show ?thesis by (simp add: new_conversation_def)
qed

text \<open>The answers of the model are history as they are: a tag in one of them is in the text that the pipeline searches with.\<close>

lemma history_unsanitized:
  "\<not> sanitized (enrich_query_with_context (add_turn 0 ''assistant'' ''<b>'' [] (new_conversation 2000)) q)"
proof -
  let ?c = "add_turn 0 ''assistant'' ''<b>'' [] (new_conversation 2000)"
  have t: "turns ?c = [\<lparr>turn_role = ''assistant'', turn_content = ''<b>'', turn_time = 0, turn_metadata = []\<rparr>]"
    by (simp add: add_turn_def new_conversation_def Let_def)
  have r: "get_context 2 2000 False ?c = ''assistant: <b>''"
    by (simp add: get_context_def t slice_from_def turn_line_def clip_def join_def)
  have "turns ?c \<noteq> []" "get_context 2 2000 False ?c \<noteq> []" by (simp_all only: t r list.distinct not_False_eq_True)
  from enriched_holds_history [OF this, of q] obtain a b where "enrich_query_with_context ?c q = a @ ''assistant: <b>'' @ b"
    unfolding r by blast
  then have "enrich_query_with_context ?c q = (a @ ''assistant: '') @ CHR ''<'' # ''b'' @ CHR ''>'' # b" by simp
  then have "\<not> no_tag (enrich_query_with_context ?c q)" unfolding no_tag_def by blast
  then show ?thesis by (simp only: sanitized_def simp_thms)
qed

text \<open>
  The question that is answered is the first of a conversation: where the comment announces the last user message, the
  loop keeps the first one as the query, and all later messages of the user become history.
\<close>
theorem first_message_answered:
  assumes "\<And>m. m \<in> set pre \<Longrightarrow> fst m \<noteq> ''user''"
  shows "split_messages (pre @ (''user'', first) # rest) None =
    (Some (validate_query first), map (\<lambda>(r, c). (r, validate_query c)) (pre @ rest))"
  using split_messages_skip [OF assms] split_messages_rest by (simp add: Let_def)

theorem first_message_answered_witness:
  "split_messages [(''system'', ''s''), (''user'', ''a''), (''assistant'', ''b''), (''user'', ''c'')] None =
     (Some ''a'', [(''system'', ''s''), (''assistant'', ''b''), (''user'', ''c'')])"
proof -
  have v: "validate_query ''s'' = ''s'' \<and> validate_query ''a'' = ''a'' \<and> validate_query ''b'' = ''b'' \<and> validate_query ''c'' = ''c''"
    by (simp add: validate_query_def MAX_QUERY_LENGTH_def control_char_def py_space_def strip_def)
  have "m \<in> set [(''system'', ''s'')] \<Longrightarrow> fst m \<noteq> ''user''" for m by simp
  from first_message_answered [OF this, where first = "''a''" and rest = "[(''assistant'', ''b''), (''user'', ''c'')]"] show ?thesis
    by (simp add: v)
qed

text \<open>
  A cached answer is disowned: the caches keep the text but not its sources, so that every hit is given the status
  "absent" and the notice that the knowledge base holds nothing on the topic, however well grounded the answer was.
\<close>
theorem cached_answer_disowned:
  assumes "get_conversation (ce_session_ttl C) (ce_summary_threshold C) (cc_open clk) (session_id_of u ip) (cs_conversations st) =
      (Inr conv, convs)"
    and "process_rag_query (ce_rag C) (cc_rag clk) (rag_request_of rq u version others (enrich_query_with_context conv q) False)
      (cs_rag st) = (Inr (Answer a [] True [] []), rag)"
  shows "\<exists>co st'. standard_completion C clk rq u ip version q others st = (Inr (Completion co), st') \<and>
    co_content co = rg_notice (ce_rag C) @ blank_line @ a \<and> co_status co = Some ''absent'' \<and> co_source_count co = Some 0"
proof -
  have s: "status_of_sources [] = (False, \<lparr>ks_status = ''absent'', ks_source_count = 0, ks_strong_source_count = 0, ks_max_score = 0\<rparr>)"
    by (simp add: status_of_sources_def determine_knowledge_status_def should_generate_answer_def)
  show ?thesis using assms by (simp add: standard_completion_def result_sources_def result_text_def result_context_def s Let_def)
qed

lemma agentic_stream_leaks_keys:
  "run q version = Inr (keys, answer, ctx, reranked) \<Longrightarrow>
     agentic_completion C run True version q = Inr (Events (map Raw_text keys))"
  by (simp add: agentic_completion_def)

text \<open>
  A stream throws a cached answer away: on a hit the pipeline returns no messages, and the model is asked again with a
  prompt that denies any knowledge and holds no context; of the cached answer nothing reaches the user.
\<close>
theorem stream_discards_cached_answer:
  assumes "get_conversation (ce_session_ttl C) (ce_summary_threshold C) (cc_open clk) (session_id_of u ip) (cs_conversations st) =
      (Inr conv, convs)"
    and "process_rag_query (ce_rag C) (cc_rag clk) (rag_request_of rq u version others (enrich_query_with_context conv q) True)
      (cs_rag st) = (Inr (Answer a [] True [] []), rag)"
    and "ce_allow_ungrounded C"
    and "ce_stream C (ungrounded_messages C rq q others) (or_default (cq_temperature rq) (2/10))
      (or_default (cq_max_tokens rq) 4096) = (deltas, None)"
  shows "\<exists>conf cl st'. stream_events C clk rq u ip version q others st =
    (Inr (Initial_chunk # map Delta deltas @ [Final_meta conf ''absent'' 0] @ clarify_events cl @ [Stream_done]), st')"
proof -
  have s: "status_of_sources [] = (False, \<lparr>ks_status = ''absent'', ks_source_count = 0, ks_strong_source_count = 0, ks_max_score = 0\<rparr>)"
    by (simp add: status_of_sources_def determine_knowledge_status_def should_generate_answer_def)
  show ?thesis using assms by (auto simp: stream_events_def result_sources_def s Let_def)
qed

definition sample_chat :: "(store, unit) chat_env" where
  "sample_chat =
     \<lparr>ce_rag = sample_rag\<lparr>rg_semantic := None\<rparr>, ce_confidence = offline_confidence, ce_version_of = (\<lambda>q. None),
      ce_stream = (\<lambda>ms t n. ([''no '', ''idea''], None)), ce_orchestrator = None, ce_slm_available = False,
      ce_fmt2 = (\<lambda>x. []), ce_allow_ungrounded = True, ce_clarification = False, ce_max_turns = 10, ce_session_ttl = 1800,
      ce_summary_threshold = 2000\<rparr>"

definition sample_chat_request :: chat_request where
  "sample_chat_request =
     \<lparr>cq_model = ''rag-proxy'', cq_messages = [(''user'', ''q'')], cq_temperature = None, cq_max_tokens = None, cq_stream = False,
      cq_version = None, cq_force_refresh = False, cq_skip_generation = False, cq_top_k = None, cq_lang = None\<rparr>"

definition sample_chat_clock :: chat_clock where
  "sample_chat_clock = \<lparr>cc_open = 0, cc_rag = sample_clock 0, cc_turn = 0\<rparr>"

definition sample_chat_state :: "store chat_state" where
  "sample_chat_state =
     \<lparr>cs_rag = sample_rag_state\<lparr>rs_answers :=
        init_cache_manager [] [(answer_key anonymous ''q'' None, (JStr ''well grounded'', 10))]\<rparr>, cs_conversations = []\<rparr>"

lemma sample_conversation:
  "\<exists>convs. get_conversation (ce_session_ttl sample_chat) (ce_summary_threshold sample_chat) (cc_open sample_chat_clock)
     (session_id_of u ip) (cs_conversations sample_chat_state) = (Inr (new_conversation 2000), convs)"
  by (simp add: sample_chat_def sample_chat_state_def sample_chat_clock_def get_conversation_def prune_store_def
      store_max_entries_def dict_set_def)

lemma sample_hit:
  "\<exists>rag. process_rag_query (ce_rag sample_chat) (cc_rag sample_chat_clock)
     (rag_request_of sample_chat_request anonymous None [] (enrich_query_with_context (new_conversation 2000) ''q'') stream)
     (cs_rag sample_chat_state) = (Inr (Answer ''well grounded'' [] True [] []), rag)"
proof -
  have e: "enrich_query_with_context (new_conversation 2000) ''q'' = ''q''"
    by (simp add: enrich_query_with_context_def new_conversation_def)
  let ?rq = "rag_request_of sample_chat_request anonymous None [] ''q'' stream"
  have "fst (cached_answer (ce_rag sample_chat) 0 ?rq (rs_answers (cs_rag sample_chat_state))) = Inr (Some ''well grounded'')"
    by (simp add: cached_answer_def exact_answer_def sample_chat_def sample_chat_state_def rag_request_of_def
        sample_chat_request_def truthy_str_def cache_get_def memory_backend_def get_value_def init_cache_manager_def
        full_key_def is_expired_def str_with_def)
  then have "fst (process_rag_query (ce_rag sample_chat) (cc_rag sample_chat_clock) ?rq (cs_rag sample_chat_state)) =
      Inr (Answer ''well grounded'' [] True [] [])"
    by (intro process_hit) (simp add: sample_chat_clock_def sample_clock_def)
  then show ?thesis unfolding e by (metis prod.collapse)
qed

theorem cached_answer_disowned_witness:
  "\<exists>co st'. standard_completion sample_chat sample_chat_clock sample_chat_request anonymous ''10.0.0.1'' None ''q'' []
     sample_chat_state = (Inr (Completion co), st') \<and> co_content co = ''No knowledge.'' @ blank_line @ ''well grounded''"
proof -
  obtain convs where c: "get_conversation (ce_session_ttl sample_chat) (ce_summary_threshold sample_chat)
      (cc_open sample_chat_clock) (session_id_of anonymous ''10.0.0.1'') (cs_conversations sample_chat_state) =
      (Inr (new_conversation 2000), convs)" using sample_conversation by blast
  obtain rag where r: "process_rag_query (ce_rag sample_chat) (cc_rag sample_chat_clock)
      (rag_request_of sample_chat_request anonymous None [] (enrich_query_with_context (new_conversation 2000) ''q'') False)
      (cs_rag sample_chat_state) = (Inr (Answer ''well grounded'' [] True [] []), rag)" using sample_hit by blast
  have "rg_notice (ce_rag sample_chat) = ''No knowledge.''" by (simp add: sample_chat_def sample_rag_def)
  with cached_answer_disowned [OF c r] show ?thesis by metis
qed

theorem stream_discards_cached_answer_witness:
  "\<exists>conf cl st'. stream_events sample_chat sample_chat_clock sample_chat_request anonymous ''10.0.0.1'' None ''q'' []
     sample_chat_state =
   (Inr (Initial_chunk # map Delta [''no '', ''idea''] @ [Final_meta conf ''absent'' 0] @ clarify_events cl @ [Stream_done]), st')"
proof -
  obtain convs where c: "get_conversation (ce_session_ttl sample_chat) (ce_summary_threshold sample_chat)
      (cc_open sample_chat_clock) (session_id_of anonymous ''10.0.0.1'') (cs_conversations sample_chat_state) =
      (Inr (new_conversation 2000), convs)" using sample_conversation by blast
  obtain rag where r: "process_rag_query (ce_rag sample_chat) (cc_rag sample_chat_clock)
      (rag_request_of sample_chat_request anonymous None [] (enrich_query_with_context (new_conversation 2000) ''q'') True)
      (cs_rag sample_chat_state) = (Inr (Answer ''well grounded'' [] True [] []), rag)" using sample_hit by blast
  show ?thesis by (rule stream_discards_cached_answer [OF c r]) (simp_all add: sample_chat_def)
qed

end
