(* ===== verification/Accounts.thy ===== *)
theory Accounts
  imports Prelude "HOL-Library.List_Lexorder" "HOL-Library.Multiset"
begin

text \<open>
  The user database, \<^verbatim>\<open>proxy/app/auth/user_db.py\<close>: accounts, refresh tokens, the blacklist of access tokens and the
  history of passwords, each a table of rows in insertion order. Bcrypt, SHA-256 and the random draws are parameters. A
  time stamp is its time: the ISO texts that the source compares are all in UTC and have one format, in which the
  order of the texts is the order of the times.
\<close>

subsection \<open>Tables\<close>

datatype json_column = Dumped "string list" | Raw_column string
  \<comment> \<open>what \<^verbatim>\<open>json.dumps\<close> wrote, or a text that was stored as it came\<close>

record user_row =
  ur_id :: string
  ur_name :: string
  ur_hash :: string
  ur_email :: string
  ur_roles :: json_column
  ur_groups :: json_column
  ur_level :: string
  ur_namespace :: string
  ur_active :: bool
  ur_created :: real
  ur_updated :: real

record token_row =
  tr_id :: string
  tr_user :: string
  tr_hash :: string
  tr_expires :: real
  tr_created :: real
  tr_revoked :: bool

record black_row =
  bl_jti :: string
  bl_expires :: real
  bl_since :: real

record password_row =
  pw_id :: nat
  pw_user :: string
  pw_hash :: string
  pw_created :: real

record user_db =
  db_users :: "user_row list"
  db_tokens :: "token_row list"
  db_blacklist :: "black_row list"
  db_passwords :: "password_row list"
  db_next :: nat

definition empty_db :: user_db where
  "empty_db = \<lparr>db_users = [], db_tokens = [], db_blacklist = [], db_passwords = [], db_next = 1\<rparr>"

record crypto =
  hashpw :: "string \<Rightarrow> string \<Rightarrow> exn + string"
    \<comment> \<open>\<^verbatim>\<open>bcrypt.hashpw(password, salt)\<close>\<close>
  checkpw :: "string \<Rightarrow> string \<Rightarrow> bool"
  sha256 :: "string \<Rightarrow> string"
  loads :: "string \<Rightarrow> string list option"
    \<comment> \<open>the list of strings that a text denotes in JSON\<close>

record user_info =
  \<comment> \<open>the dictionary made from a row\<close>
  ui_id :: string
  ui_name :: string
  ui_hash :: string
  ui_email :: string
  ui_roles :: "string list"
  ui_groups :: "string list"
  ui_level :: string
  ui_namespace :: string
  ui_active :: bool

fun parse_column :: "crypto \<Rightarrow> string list \<Rightarrow> json_column \<Rightarrow> string list" where
  "parse_column C d (Dumped xs) = xs"
| "parse_column C d (Raw_column s) = (case loads C s of None \<Rightarrow> d | Some xs \<Rightarrow> xs)"

definition row_to_dict :: "crypto \<Rightarrow> user_row \<Rightarrow> user_info" where
  "row_to_dict C r =
     \<lparr>ui_id = ur_id r, ui_name = ur_name r, ui_hash = ur_hash r, ui_email = ur_email r,
      ui_roles = parse_column C [''user''] (ur_roles r), ui_groups = parse_column C [] (ur_groups r),
      ui_level = ur_level r, ui_namespace = ur_namespace r, ui_active = ur_active r\<rparr>"

definition fold_char :: "char \<Rightarrow> char" where
  \<comment> \<open>the collation \<^verbatim>\<open>NOCASE\<close> folds the letters of ASCII\<close>
  "fold_char c = (let n = of_char c :: nat in if 65 \<le> n \<and> n \<le> 90 then char_of (n + 32) else c)"

definition nocase :: "string \<Rightarrow> string" where
  "nocase s = map fold_char s"

definition IntegrityError :: "string \<Rightarrow> exn" where
  "IntegrityError = PyException ''IntegrityError''"

subsection \<open>Accounts\<close>

definition insert_user :: "user_row \<Rightarrow> user_db \<Rightarrow> user_db option" where
  \<comment> \<open>\<open>None\<close> when a \<^verbatim>\<open>UNIQUE\<close> constraint fails\<close>
  "insert_user r db =
     (if list_ex (\<lambda>x. ur_id x = ur_id r \<or> nocase (ur_name x) = nocase (ur_name r)) (db_users db) then None
      else Some (db\<lparr>db_users := db_users db @ [r]\<rparr>))"

definition create_user ::
  "crypto \<Rightarrow> real \<Rightarrow> string \<Rightarrow> string \<Rightarrow> string \<Rightarrow> string \<Rightarrow> string \<Rightarrow> string list \<Rightarrow> string list \<Rightarrow> string \<Rightarrow> string \<Rightarrow> user_db
   \<Rightarrow> (exn + string \<times> string \<times> real) \<times> user_db" where
  \<comment> \<open>\<open>clock\<close> is the text of \<^verbatim>\<open>time.time()\<close>\<close>
  "create_user C now clock salt name password email rls grps level ns db =
     (let uid = take 24 (sha256 C (name @ '':'' @ clock)) in
      case hashpw C password salt of
        Inl e \<Rightarrow> (Inl e, db)
      | Inr h \<Rightarrow>
          (case insert_user \<lparr>ur_id = uid, ur_name = name, ur_hash = h, ur_email = email,
                  ur_roles = Dumped (if rls \<noteq> [] then rls else [''user'']), ur_groups = Dumped grps, ur_level = level,
                  ur_namespace = ns, ur_active = True, ur_created = now, ur_updated = now\<rparr> db of
             None \<Rightarrow> (Inl (ValueError (''Username '' @ name @ '' already exists'')), db)
           | Some db' \<Rightarrow> (Inr (uid, name, now), db')))"

definition get_user :: "crypto \<Rightarrow> string \<Rightarrow> user_db \<Rightarrow> user_info option" where
  "get_user C uid db = map_option (row_to_dict C) (find (\<lambda>r. ur_id r = uid \<and> ur_active r) (db_users db))"

definition get_user_by_username :: "crypto \<Rightarrow> string \<Rightarrow> user_db \<Rightarrow> user_info option" where
  "get_user_by_username C name db =
     map_option (row_to_dict C) (find (\<lambda>r. nocase (ur_name r) = nocase name \<and> ur_active r) (db_users db))"

definition verify_password :: "crypto \<Rightarrow> string \<Rightarrow> string \<Rightarrow> user_db \<Rightarrow> user_info option" where
  "verify_password C name password db =
     (case get_user_by_username C name db of
        None \<Rightarrow> None
      | Some u \<Rightarrow> if checkpw C password (ui_hash u) then Some u else None)"

record user_fields =
  \<comment> \<open>the keyword arguments of \<^verbatim>\<open>update_user\<close> that it lets through\<close>
  uf_email :: "string option"
  uf_roles :: "json_column option"
  uf_groups :: "json_column option"
  uf_level :: "string option"
  uf_namespace :: "string option"
  uf_active :: "bool option"

definition or_keep :: "'a option \<Rightarrow> 'a \<Rightarrow> 'a" where
  "or_keep x old = (case x of None \<Rightarrow> old | Some v \<Rightarrow> v)"

definition update_rows :: "('r \<Rightarrow> bool) \<Rightarrow> ('r \<Rightarrow> 'r) \<Rightarrow> 'r list \<Rightarrow> nat \<times> 'r list" where
  \<comment> \<open>an \<^verbatim>\<open>UPDATE\<close> with its row count\<close>
  "update_rows P f rs = (length (filter P rs), map (\<lambda>r. if P r then f r else r) rs)"

definition apply_fields :: "real \<Rightarrow> user_fields \<Rightarrow> user_row \<Rightarrow> user_row" where
  "apply_fields now f r =
     r\<lparr>ur_email := or_keep (uf_email f) (ur_email r), ur_roles := or_keep (uf_roles f) (ur_roles r),
       ur_groups := or_keep (uf_groups f) (ur_groups r), ur_level := or_keep (uf_level f) (ur_level r),
       ur_namespace := or_keep (uf_namespace f) (ur_namespace r), ur_active := or_keep (uf_active f) (ur_active r),
       ur_updated := now\<rparr>"

definition update_user :: "real \<Rightarrow> string \<Rightarrow> user_fields \<Rightarrow> user_db \<Rightarrow> bool \<times> user_db" where
  "update_user now uid f db =
     (if uf_email f = None \<and> uf_roles f = None \<and> uf_groups f = None \<and> uf_level f = None \<and> uf_namespace f = None \<and>
         uf_active f = None
      then (False, db)
      else
        (let (n, rs) = update_rows (\<lambda>r. ur_id r = uid) (apply_fields now f) (db_users db)
         in (n > 0, db\<lparr>db_users := rs\<rparr>)))"

definition delete_user :: "real \<Rightarrow> string \<Rightarrow> user_db \<Rightarrow> bool \<times> user_db" where
  "delete_user now uid db =
     (let (n, rs) = update_rows (\<lambda>r. ur_id r = uid) (\<lambda>r. r\<lparr>ur_active := False, ur_updated := now\<rparr>) (db_users db)
      in (n > 0, db\<lparr>db_users := rs\<rparr>))"

definition limit_offset :: "int \<Rightarrow> int \<Rightarrow> 'a list \<Rightarrow> 'a list" where
  "limit_offset l off xs = (let ys = drop (nat off) xs in if l < 0 then ys else take (nat l) ys)"

definition list_users :: "crypto \<Rightarrow> int \<Rightarrow> int \<Rightarrow> user_db \<Rightarrow> user_info list" where
  "list_users C l off db =
     map (row_to_dict C) (limit_offset l off (sort_key (\<lambda>r. nocase (ur_name r)) (filter ur_active (db_users db))))"

record legacy_user =
  \<comment> \<open>an entry of \<^verbatim>\<open>AUTH_VALID_USERS\<close> that is an object, with the defaults filled in\<close>
  lu_password :: string
  lu_id :: "string option"
  lu_roles :: "string list"
  lu_groups :: "string list"
  lu_level :: string
  lu_namespace :: string
  lu_email :: string

definition migrate_one :: "crypto \<Rightarrow> real \<Rightarrow> string \<Rightarrow> exn + user_db \<Rightarrow> string \<times> legacy_user option \<Rightarrow> exn + user_db" where
  "migrate_one C now salt db e =
     (case (db, e) of
        (Inl x, _) \<Rightarrow> Inl x
      | (Inr db, name, None) \<Rightarrow> Inr db
      | (Inr db, name, Some l) \<Rightarrow>
          (case hashpw C (lu_password l) salt of
             Inl x \<Rightarrow> Inl x
           | Inr h \<Rightarrow>
               Inr (or_keep (insert_user
                 \<lparr>ur_id = or_keep (lu_id l) (take 16 (sha256 C name)), ur_name = name, ur_hash = h, ur_email = lu_email l,
                  ur_roles = Dumped (lu_roles l), ur_groups = Dumped (lu_groups l), ur_level = lu_level l,
                  ur_namespace = lu_namespace l, ur_active = True, ur_created = now, ur_updated = now\<rparr> db) db)))"

definition migrate_legacy_users ::
  "crypto \<Rightarrow> real \<Rightarrow> string \<Rightarrow> (string, legacy_user option) dict option \<Rightarrow> user_db \<Rightarrow> exn + user_db" where
  \<comment> \<open>\<open>None\<close> for a variable that is empty or no JSON object; a value that is no object is \<open>None\<close> in the dictionary\<close>
  "migrate_legacy_users C now salt legacy db =
     (case legacy of
        None \<Rightarrow> Inr db
      | Some es \<Rightarrow> if db_users db \<noteq> [] then Inr db else foldl (migrate_one C now salt) (Inr db) es)"

subsection \<open>Refresh tokens\<close>

definition store_refresh_token ::
  "crypto \<Rightarrow> real \<Rightarrow> int \<Rightarrow> string \<Rightarrow> string \<Rightarrow> string \<Rightarrow> int option \<Rightarrow> user_db \<Rightarrow> (exn + string) \<times> user_db" where
  \<comment> \<open>\<open>tid\<close> is the drawn id, \<open>default_days\<close> the configured life time\<close>
  "store_refresh_token C now default_days tid uid raw ttl_days db =
     (let ttl = (case ttl_days of None \<Rightarrow> default_days | Some d \<Rightarrow> if d = 0 then default_days else d) in
      if list_ex (\<lambda>t. tr_id t = tid) (db_tokens db)
      then (Inl (IntegrityError ''UNIQUE constraint failed: refresh_tokens.id''), db)
      else if \<not> list_ex (\<lambda>r. ur_id r = uid) (db_users db)
      then (Inl (IntegrityError ''FOREIGN KEY constraint failed''), db)
      else (Inr tid, db\<lparr>db_tokens := db_tokens db @
              [\<lparr>tr_id = tid, tr_user = uid, tr_hash = sha256 C raw, tr_expires = now + of_int ttl * 86400, tr_created = now,
                tr_revoked = False\<rparr>]\<rparr>))"

definition live_token :: "crypto \<Rightarrow> real \<Rightarrow> string \<Rightarrow> token_row \<Rightarrow> bool" where
  "live_token C now raw t \<longleftrightarrow> tr_hash t = sha256 C raw \<and> \<not> tr_revoked t \<and> tr_expires t > now"

definition select_refresh_token :: "crypto \<Rightarrow> real \<Rightarrow> string \<Rightarrow> user_db \<Rightarrow> (string \<times> string) option" where
  \<comment> \<open>the \<^verbatim>\<open>SELECT\<close>: id and user of the token\<close>
  "select_refresh_token C now raw db = map_option (\<lambda>t. (tr_id t, tr_user t)) (find (live_token C now raw) (db_tokens db))"

definition mark_refresh_token :: "string \<Rightarrow> user_db \<Rightarrow> user_db" where
  \<comment> \<open>the \<^verbatim>\<open>UPDATE\<close>: by id, whether or not the token was revoked in the meantime\<close>
  "mark_refresh_token tid db =
     db\<lparr>db_tokens := snd (update_rows (\<lambda>x. tr_id x = tid) (\<lambda>x. x\<lparr>tr_revoked := True\<rparr>) (db_tokens db))\<rparr>"

definition consume_refresh_token_among ::
  "(user_db \<Rightarrow> user_db) \<Rightarrow> (user_db \<Rightarrow> user_db) \<Rightarrow> crypto \<Rightarrow> real \<Rightarrow> string \<Rightarrow> user_db \<Rightarrow> user_info option \<times> user_db" where
  \<comment> \<open>the coroutine with what other tasks do to the database at its awaits: \<open>before_update\<close> between \<^verbatim>\<open>SELECT\<close> and
    \<^verbatim>\<open>UPDATE\<close>, \<open>before_user\<close> between the commit and \<^verbatim>\<open>get_user\<close>\<close>
  "consume_refresh_token_among before_update before_user C now raw db =
     (case select_refresh_token C now raw db of
        None \<Rightarrow> (None, db)
      | Some (tid, uid) \<Rightarrow>
          (let db = before_user (mark_refresh_token tid (before_update db)) in (get_user C uid db, db)))"

definition consume_refresh_token :: "crypto \<Rightarrow> real \<Rightarrow> string \<Rightarrow> user_db \<Rightarrow> user_info option \<times> user_db" where
  \<comment> \<open>no other task in between\<close>
  "consume_refresh_token = consume_refresh_token_among (\<lambda>db. db) (\<lambda>db. db)"

lemma consume_refresh_token_alt:
  "consume_refresh_token C now raw db =
     (case find (live_token C now raw) (db_tokens db) of
        None \<Rightarrow> (None, db)
      | Some t \<Rightarrow> (get_user C (tr_user t) (mark_refresh_token (tr_id t) db), mark_refresh_token (tr_id t) db))"
  by (simp add: consume_refresh_token_def consume_refresh_token_among_def select_refresh_token_def Let_def split: option.split)

definition revoke_user_tokens :: "string \<Rightarrow> user_db \<Rightarrow> nat \<times> user_db" where
  "revoke_user_tokens uid db =
     (let (n, ts) = update_rows (\<lambda>t. tr_user t = uid \<and> \<not> tr_revoked t) (\<lambda>t. t\<lparr>tr_revoked := True\<rparr>) (db_tokens db)
      in (n, db\<lparr>db_tokens := ts\<rparr>))"

definition purge_expired :: "real \<Rightarrow> user_db \<Rightarrow> user_db" where
  "purge_expired now db = db\<lparr>db_tokens := filter (\<lambda>t. \<not> tr_expires t < now) (db_tokens db)\<rparr>"

subsection \<open>The blacklist of access tokens\<close>

definition cleanup_blacklist :: "nat \<Rightarrow> real \<Rightarrow> user_db \<Rightarrow> user_db" where
  "cleanup_blacklist max_entries now db =
     (let live = filter (\<lambda>b. \<not> bl_expires b < now) (db_blacklist db);
          oldest = map bl_jti (take (length live - max_entries) (sort_key bl_since live))
      in db\<lparr>db_blacklist := filter (\<lambda>b. bl_jti b \<notin> set oldest) live\<rparr>)"

definition add_to_blacklist :: "nat \<Rightarrow> real \<Rightarrow> string \<Rightarrow> real \<Rightarrow> user_db \<Rightarrow> user_db" where
  "add_to_blacklist max_entries now jti expires db =
     cleanup_blacklist max_entries now
       (if list_ex (\<lambda>b. bl_jti b = jti) (db_blacklist db) then db
        else db\<lparr>db_blacklist := db_blacklist db @ [\<lparr>bl_jti = jti, bl_expires = expires, bl_since = now\<rparr>]\<rparr>)"

definition is_blacklisted :: "string \<Rightarrow> user_db \<Rightarrow> bool" where
  "is_blacklisted jti db = list_ex (\<lambda>b. bl_jti b = jti) (db_blacklist db)"

subsection \<open>The history of passwords\<close>

definition add_password_to_history :: "real \<Rightarrow> string \<Rightarrow> string \<Rightarrow> user_db \<Rightarrow> exn + user_db" where
  "add_password_to_history now uid h db =
     (if \<not> list_ex (\<lambda>r. ur_id r = uid) (db_users db) then Inl (IntegrityError ''FOREIGN KEY constraint failed'')
      else Inr (db\<lparr>db_passwords := db_passwords db @ [\<lparr>pw_id = db_next db, pw_user = uid, pw_hash = h, pw_created = now\<rparr>],
                   db_next := db_next db + 1\<rparr>))"

definition newest_first :: "string \<Rightarrow> user_db \<Rightarrow> password_row list" where
  \<comment> \<open>\<^verbatim>\<open>ORDER BY created_at DESC\<close>; among equal times the order of insertion\<close>
  "newest_first uid db = sort_key (\<lambda>p. - pw_created p) (filter (\<lambda>p. pw_user p = uid) (db_passwords db))"

definition get_password_history :: "string \<Rightarrow> int \<Rightarrow> user_db \<Rightarrow> string list" where
  "get_password_history uid l db = map pw_hash (limit_offset l 0 (newest_first uid db))"

definition is_password_reused :: "crypto \<Rightarrow> string \<Rightarrow> string \<Rightarrow> int \<Rightarrow> user_db \<Rightarrow> bool" where
  "is_password_reused C uid password max_history db =
     list_ex (checkpw C password) (get_password_history uid max_history db)"

definition clear_password_history :: "string \<Rightarrow> user_db \<Rightarrow> nat \<times> user_db" where
  "clear_password_history uid db =
     (length (filter (\<lambda>p. pw_user p = uid) (db_passwords db)),
      db\<lparr>db_passwords := filter (\<lambda>p. pw_user p \<noteq> uid) (db_passwords db)\<rparr>)"

definition cleanup_old_password_history :: "int \<Rightarrow> user_db \<Rightarrow> nat \<times> user_db" where
  "cleanup_old_password_history max_entries db =
     (let keep = filter (\<lambda>p. pw_id p \<in> set (map pw_id (limit_offset max_entries 0 (newest_first (pw_user p) db)))) (db_passwords db)
      in (length (db_passwords db) - length keep, db\<lparr>db_passwords := keep\<rparr>))"

subsection \<open>Runs\<close>

datatype account_event =
  \<comment> \<open>\<open>Mark_token\<close> is the second half of a consumption that other tasks interrupt\<close>
    Migrate real string "(string, legacy_user option) dict option"
  | Create real string string string string string "string list" "string list" string string
  | Update real string user_fields
  | Delete real string
  | Store_token real int string string string "int option"
  | Consume real string
  | Mark_token string
  | Revoke_all string
  | Drop_expired real
  | Blacklist nat real string real
  | Add_password real string string
  | Clear_passwords string
  | Trim_passwords int

fun account_step :: "crypto \<Rightarrow> user_db \<Rightarrow> account_event \<Rightarrow> user_db" where
  "account_step C db (Migrate now salt legacy) = (case migrate_legacy_users C now salt legacy db of Inl x \<Rightarrow> db | Inr db' \<Rightarrow> db')"
| "account_step C db (Create now clock salt name password email rls grps level ns) =
     snd (create_user C now clock salt name password email rls grps level ns db)"
| "account_step C db (Update now uid f) = snd (update_user now uid f db)"
| "account_step C db (Delete now uid) = snd (delete_user now uid db)"
| "account_step C db (Store_token now days tid uid raw ttl) = snd (store_refresh_token C now days tid uid raw ttl db)"
| "account_step C db (Consume now raw) = snd (consume_refresh_token C now raw db)"
| "account_step C db (Mark_token tid) = mark_refresh_token tid db"
| "account_step C db (Revoke_all uid) = snd (revoke_user_tokens uid db)"
| "account_step C db (Drop_expired now) = purge_expired now db"
| "account_step C db (Blacklist m now jti e) = add_to_blacklist m now jti e db"
| "account_step C db (Add_password now uid h) = (case add_password_to_history now uid h db of Inl x \<Rightarrow> db | Inr db' \<Rightarrow> db')"
| "account_step C db (Clear_passwords uid) = snd (clear_password_history uid db)"
| "account_step C db (Trim_passwords n) = snd (cleanup_old_password_history n db)"

definition db_ok :: "user_db \<Rightarrow> bool" where
  "db_ok db \<longleftrightarrow>
     distinct (map ur_id (db_users db)) \<and> distinct (map (\<lambda>r. nocase (ur_name r)) (db_users db)) \<and>
     distinct (map tr_id (db_tokens db)) \<and> list_all (\<lambda>t. tr_user t \<in> ur_id ` set (db_users db)) (db_tokens db) \<and>
     distinct (map bl_jti (db_blacklist db)) \<and> distinct (map pw_id (db_passwords db)) \<and>
     list_all (\<lambda>p. pw_id p < db_next db \<and> pw_user p \<in> ur_id ` set (db_users db)) (db_passwords db)"

lemma update_rows_keeps:
  "(\<And>r. g (f r) = g r) \<Longrightarrow> map g (snd (update_rows P f rs)) = map g rs"
  by (simp add: update_rows_def)

lemma update_rows_image:
  assumes "\<And>r. g (f r) = g r"
  shows "g ` set (snd (update_rows P f rs)) = g ` set rs"
  using update_rows_keeps [where g = g and f = f, OF assms] by (metis list.set_map)

lemma insert_user_ok:
  assumes "insert_user r db = Some db'" and "db_ok db"
  shows "db_ok db'"
proof -
  have new: "ur_id r \<notin> ur_id ` set (db_users db)" "nocase (ur_name r) \<notin> (\<lambda>x. nocase (ur_name x)) ` set (db_users db)"
    using assms(1) by (auto simp: insert_user_def list_ex_iff image_iff split: if_splits)
  have db': "db' = db\<lparr>db_users := db_users db @ [r]\<rparr>" using assms(1) by (simp add: insert_user_def split: if_splits)
  from assms(2) new show ?thesis unfolding db' by (auto simp: db_ok_def list_all_iff)
qed

lemma create_user_db:
  "snd (create_user C now clock salt name password email rls grps level ns db) = db \<or>
   (\<exists>r. insert_user r db = Some (snd (create_user C now clock salt name password email rls grps level ns db)))"
  unfolding create_user_def Let_def by (auto split: sum.splits option.splits)

lemma users_update_ok:
  assumes "db_ok db" and "\<And>r. ur_id (f r) = ur_id r" and "\<And>r. ur_name (f r) = ur_name r"
  shows "db_ok (db\<lparr>db_users := snd (update_rows P f (db_users db))\<rparr>)"
proof -
  note i = update_rows_keeps [where g = ur_id and f = f, OF assms(2)] update_rows_image [where g = ur_id and f = f, OF assms(2)]
  have "map (\<lambda>r. nocase (ur_name r)) (snd (update_rows P f (db_users db))) = map (\<lambda>r. nocase (ur_name r)) (db_users db)"
    by (rule update_rows_keeps) (simp add: assms(3))
  with i assms(1) show ?thesis by (simp add: db_ok_def)
qed

lemma tokens_update_ok:
  assumes "db_ok db"
  shows "db_ok (db\<lparr>db_tokens := snd (update_rows P (\<lambda>t. t\<lparr>tr_revoked := True\<rparr>) (db_tokens db))\<rparr>)"
proof -
  have "map tr_id (snd (update_rows P (\<lambda>t. t\<lparr>tr_revoked := True\<rparr>) (db_tokens db))) = map tr_id (db_tokens db)"
    by (rule update_rows_keeps) simp
  moreover have "list_all (\<lambda>t. tr_user t \<in> A) (snd (update_rows P (\<lambda>t. t\<lparr>tr_revoked := True\<rparr>) ts)) = list_all (\<lambda>t. tr_user t \<in> A) ts"
    for A ts by (induction ts) (auto simp: update_rows_def)
  ultimately show ?thesis using assms by (simp add: db_ok_def)
qed

lemma mark_refresh_token_ok: "db_ok db \<Longrightarrow> db_ok (mark_refresh_token tid db)"
  unfolding mark_refresh_token_def by (rule tokens_update_ok)

lemma migrate_keeps:
  assumes one: "\<And>r db db'. insert_user r db = Some db' \<Longrightarrow> P db \<Longrightarrow> P db'"
    and "migrate_legacy_users C now salt legacy db = Inr db'" and "P db"
  shows "P db'"
proof -
  have step: "P db'" if "migrate_one C now salt (Inr db) e = Inr db'" "P db" for e db db'
    using that one by (auto simp: migrate_one_def or_keep_def split: prod.splits option.splits sum.splits)
  have failed: "foldl (migrate_one C now salt) (Inl x) es = Inl x" for x es
    by (induction es) (simp_all add: migrate_one_def)
  have "P db'" if "foldl (migrate_one C now salt) (Inr db) es = Inr db'" "P db" for es db
    using that
  proof (induction es arbitrary: db)
    case (Cons e es)
    show ?case
    proof (cases "migrate_one C now salt (Inr db) e")
      case (Inl x)
      with Cons.prems(1) failed show ?thesis by simp
    next
      case (Inr db1)
      with Cons.prems show ?thesis using Cons.IH [of db1] step [OF Inr] by simp
    qed
  qed simp
  with assms(2,3) show ?thesis by (auto simp: migrate_legacy_users_def split: option.splits if_splits)
qed

lemma cleanup_blacklist_ok: "db_ok db \<Longrightarrow> db_ok (cleanup_blacklist m now db)"
  by (auto simp: db_ok_def cleanup_blacklist_def Let_def intro!: distinct_map_filter)

lemma account_step_ok:
  assumes "db_ok db"
  shows "db_ok (account_step C db e)"
proof (cases e)
  case (Migrate now salt legacy)
  show ?thesis
  proof (cases "migrate_legacy_users C now salt legacy db")
    case (Inr db')
    from migrate_keeps [where P = db_ok, OF insert_user_ok Inr assms] show ?thesis by (simp add: Migrate Inr)
  qed (simp add: Migrate assms)
next
  case (Create now clock salt name password email rls grps level ns)
  from create_user_db [of C now clock salt name password email rls grps level ns db] assms insert_user_ok show ?thesis
    unfolding Create account_step.simps by metis
next
  case (Update now uid f)
  then show ?thesis using assms users_update_ok [OF assms, of "apply_fields now f"]
    by (simp add: update_user_def split_beta Let_def apply_fields_def)
next
  case (Delete now uid)
  then show ?thesis using users_update_ok [OF assms] by (simp add: delete_user_def split_beta)
next
  case (Store_token now days tid uid raw ttl)
  with assms show ?thesis
    by (auto simp: store_refresh_token_def Let_def db_ok_def list_ex_iff list_all_iff)
next
  case (Consume now raw)
  then show ?thesis using mark_refresh_token_ok [OF assms] assms
    by (auto simp: consume_refresh_token_alt split: option.splits)
next
  case (Mark_token tid)
  then show ?thesis using mark_refresh_token_ok [OF assms] by simp
next
  case (Revoke_all uid)
  then show ?thesis using tokens_update_ok [OF assms] by (simp add: revoke_user_tokens_def split_beta)
next
  case (Drop_expired now)
  with assms show ?thesis by (auto simp: purge_expired_def db_ok_def list_all_iff intro!: distinct_map_filter)
next
  case (Blacklist m now jti x)
  have "db_ok (if list_ex (\<lambda>b. bl_jti b = jti) (db_blacklist db) then db
      else db\<lparr>db_blacklist := db_blacklist db @ [\<lparr>bl_jti = jti, bl_expires = x, bl_since = now\<rparr>]\<rparr>)"
    using assms by (auto simp: db_ok_def list_ex_iff)
  with Blacklist show ?thesis by (simp only: account_step.simps add_to_blacklist_def cleanup_blacklist_ok)
next
  case (Add_password now uid h)
  with assms show ?thesis
    by (auto simp: add_password_to_history_def db_ok_def list_ex_iff list_all_iff)
next
  case (Clear_passwords uid)
  with assms show ?thesis by (auto simp: clear_password_history_def db_ok_def list_all_iff intro!: distinct_map_filter)
next
  case (Trim_passwords n)
  with assms show ?thesis
    by (auto simp: cleanup_old_password_history_def db_ok_def list_all_iff Let_def intro!: distinct_map_filter)
qed

interpretation accounts: invariant_system "account_step C" db_ok
  by unfold_locales (rule account_step_ok)

lemma accounts_consistent: "db_ok (foldl (account_step C) empty_db evs)"
  by (rule accounts.run_invar) (simp add: db_ok_def empty_db_def)

subsection \<open>Passwords\<close>

lemma find_last: "(\<And>x. x \<in> set xs \<Longrightarrow> \<not> P x) \<Longrightarrow> P y \<Longrightarrow> find P (xs @ [y]) = Some y"
  by (induction xs) auto

text \<open>
  Whoever registers can log in: after an account was created, the name in any capitalisation together with the
  password yields that account, provided bcrypt accepts the password for the hash that it made of it.
\<close>
theorem registered_user_logs_in:
  assumes "create_user C now clock salt name password email rls grps level ns db = (Inr (uid, nm, t), db')"
    and "\<And>h. hashpw C password salt = Inr h \<Longrightarrow> checkpw C password h"
    and "nocase name' = nocase name"
  shows "\<exists>u. verify_password C name' password db' = Some u \<and> ui_id u = uid \<and> ui_name u = name \<and>
    ui_roles u = (if rls \<noteq> [] then rls else [''user'']) \<and> ui_groups u = grps"
proof -
  obtain h where h: "hashpw C password salt = Inr h" using assms(1) by (auto simp: create_user_def Let_def split: sum.splits)
  define r where "r = \<lparr>ur_id = take 24 (sha256 C (name @ '':'' @ clock)), ur_name = name, ur_hash = h, ur_email = email,
      ur_roles = Dumped (if rls \<noteq> [] then rls else [''user'']), ur_groups = Dumped grps, ur_level = level,
      ur_namespace = ns, ur_active = True, ur_created = now, ur_updated = now\<rparr>"
  have ins: "insert_user r db = Some db'" and uid: "uid = ur_id r"
    using assms(1) unfolding create_user_def Let_def h sum.case r_def [symmetric] by (auto simp: r_def split: option.splits)
  have db': "db' = db\<lparr>db_users := db_users db @ [r]\<rparr>" using ins by (simp add: insert_user_def split: if_splits)
  have "\<not> (nocase (ur_name x) = nocase name' \<and> ur_active x)" if "x \<in> set (db_users db)" for x
    using ins that assms(3) by (auto simp: insert_user_def list_ex_iff r_def split: if_splits)
  then have "find (\<lambda>x. nocase (ur_name x) = nocase name' \<and> ur_active x) (db_users db') = Some r"
    unfolding db' using find_last [of "db_users db" _ r] by (simp add: r_def assms(3))
  moreover have "checkpw C password h" by (rule assms(2) [OF h])
  ultimately show ?thesis by (simp add: verify_password_def get_user_by_username_def row_to_dict_def uid) (simp add: r_def)
qed

definition plain_crypto :: crypto where
  \<comment> \<open>stand-ins that satisfy the laws: the salt and the password kept side by side\<close>
  "plain_crypto = \<lparr>hashpw = (\<lambda>p s. Inr (s @ ''$'' @ p)), checkpw = (\<lambda>p h. tl (dropWhile (\<lambda>c. c \<noteq> CHR ''$'') h) = p),
     sha256 = (\<lambda>s. s), loads = (\<lambda>s. None)\<rparr>"

lemmas account_ops = create_user_def insert_user_def store_refresh_token_def consume_refresh_token_alt mark_refresh_token_def live_token_def
  update_rows_def get_user_def plain_crypto_def empty_db_def

theorem registered_user_logs_in_witness:
  "\<exists>u. verify_password plain_crypto ''ANNA'' ''pw'' (snd (create_user plain_crypto 1 ''1'' ''s'' ''anna'' ''pw'' [] [] [''ops''] ''user'' []
     empty_db)) = Some u \<and> ui_groups u = [''ops'']"
proof -
  obtain uid nm t db' where c: "create_user plain_crypto 1 ''1'' ''s'' ''anna'' ''pw'' [] [] [''ops''] ''user'' [] empty_db =
      (Inr (uid, nm, t), db')" by (simp add: account_ops Let_def)
  have n: "nocase ''ANNA'' = nocase ''anna''" by code_simp
  from registered_user_logs_in [OF c _ n] show ?thesis unfolding c by (force simp: plain_crypto_def)
qed

lemma deleted_name_taken:
  assumes "r \<in> set (db_users db)" and "nocase (ur_name r) = nocase name" and "hashpw C password salt = Inr h"
  shows "fst (create_user C now clock salt name password email rls grps level ns (snd (delete_user t (ur_id r) db))) =
    Inl (ValueError (''Username '' @ name @ '' already exists''))"
proof -
  let ?db = "snd (delete_user t (ur_id r) db)"
  have "r\<lparr>ur_active := False, ur_updated := t\<rparr> \<in> set (db_users ?db)"
    using assms(1) by (auto simp: delete_user_def update_rows_def split_beta image_iff intro!: bexI [of _ r])
  then have e: "list_ex (\<lambda>y. ur_id y = ur_id x \<or> nocase (ur_name y) = nocase (ur_name x)) (db_users ?db)" if "ur_name x = name" for x
    unfolding list_ex_iff by (rule bexI [rotated]) (simp add: that assms(2))
  have "insert_user x ?db = None" if "ur_name x = name" for x unfolding insert_user_def by (rule if_P, rule e, rule that)
  then show ?thesis by (simp add: create_user_def assms(3) Let_def)
qed

subsection \<open>Refresh tokens are spent once\<close>

definition spent :: "crypto \<Rightarrow> string \<Rightarrow> user_db \<Rightarrow> bool" where
  "spent C raw db \<longleftrightarrow> list_all (\<lambda>t. tr_hash t = sha256 C raw \<longrightarrow> tr_revoked t) (db_tokens db)"

fun stores_again :: "crypto \<Rightarrow> string \<Rightarrow> account_event \<Rightarrow> bool" where
  "stores_again C raw (Store_token now days tid uid r ttl) \<longleftrightarrow> sha256 C r = sha256 C raw"
| "stores_again C raw _ \<longleftrightarrow> False"

lemma spent_not_live: "spent C raw db \<Longrightarrow> consume_refresh_token C now raw db = (None, db)"
  by (auto simp: spent_def consume_refresh_token_alt live_token_def list_all_iff find_None_iff split: option.splits dest!: find_SomeD)

lemma spent_update:
  "spent C raw db \<Longrightarrow> spent C raw (db\<lparr>db_tokens := snd (update_rows P (\<lambda>t. t\<lparr>tr_revoked := True\<rparr>) (db_tokens db))\<rparr>)"
  by (auto simp: spent_def list_all_iff update_rows_def)

lemma spent_same_tokens: "db_tokens db' = db_tokens db \<Longrightarrow> spent C raw db \<Longrightarrow> spent C raw db'"
  by (simp add: spent_def)

lemma create_user_tokens: "db_tokens (snd (create_user C now clock salt name password email rls grps level ns db)) = db_tokens db"
  by (auto simp: create_user_def insert_user_def Let_def split: sum.splits option.splits if_splits)

lemma insert_user_spent: "insert_user r db = Some db' \<Longrightarrow> spent C raw db \<Longrightarrow> spent C raw db'"
  by (auto simp: insert_user_def spent_def split: if_splits)

lemma step_spent:
  assumes "spent C raw db" and "\<not> stores_again C raw e"
  shows "spent C raw (account_step C db e)"
proof (cases e)
  case (Migrate now salt legacy)
  show ?thesis
  proof (cases "migrate_legacy_users C now salt legacy db")
    case (Inr db')
    from migrate_keeps [where P = "spent C raw", OF insert_user_spent Inr assms(1)] show ?thesis by (simp add: Migrate Inr)
  qed (simp add: Migrate assms)
next
  case (Store_token now days tid uid r ttl)
  with assms show ?thesis by (auto simp: store_refresh_token_def spent_def Let_def)
next
  case (Consume now r)
  then show ?thesis using spent_update [OF assms(1)] assms(1)
    by (auto simp: consume_refresh_token_alt mark_refresh_token_def split: option.splits)
next
  case (Mark_token tid)
  then show ?thesis using spent_update [OF assms(1)] by (simp add: mark_refresh_token_def)
next
  case (Revoke_all uid)
  then show ?thesis using spent_update [OF assms(1)] by (simp add: revoke_user_tokens_def split_beta)
next
  case (Drop_expired now)
  with assms(1) show ?thesis by (auto simp: purge_expired_def spent_def list_all_iff)
next
  case (Create now clock salt name password email rls grps level ns)
  with assms(1) show ?thesis by (simp add: spent_def create_user_tokens)
qed (use assms(1) in \<open>auto simp: update_user_def delete_user_def split_beta Let_def add_to_blacklist_def cleanup_blacklist_def
      add_password_to_history_def clear_password_history_def cleanup_old_password_history_def
      intro: spent_same_tokens [of _ db]\<close>)

lemma run_spent: "spent C raw db \<Longrightarrow> list_all (\<lambda>e. \<not> stores_again C raw e) evs \<Longrightarrow> spent C raw (foldl (account_step C) db evs)"
  by (induction evs arbitrary: db) (auto intro: step_spent)

definition known_as :: "crypto \<Rightarrow> string \<Rightarrow> string \<Rightarrow> user_db \<Rightarrow> bool" where
  \<comment> \<open>whatever row has the digest of \<open>raw\<close> has the id \<open>tid\<close>\<close>
  "known_as C raw tid db \<longleftrightarrow> list_all (\<lambda>t. tr_hash t = sha256 C raw \<longrightarrow> tr_id t = tid) (db_tokens db)"

lemma known_as_update:
  "known_as C raw tid db \<Longrightarrow> known_as C raw tid (db\<lparr>db_tokens := snd (update_rows P (\<lambda>t. t\<lparr>tr_revoked := True\<rparr>) (db_tokens db))\<rparr>)"
  by (auto simp: known_as_def list_all_iff update_rows_def)

lemma known_as_same_tokens: "db_tokens db' = db_tokens db \<Longrightarrow> known_as C raw tid db \<Longrightarrow> known_as C raw tid db'"
  by (simp add: known_as_def)

lemma insert_user_known_as: "insert_user r db = Some db' \<Longrightarrow> known_as C raw tid db \<Longrightarrow> known_as C raw tid db'"
  by (auto simp: insert_user_def known_as_def split: if_splits)

lemma step_known_as:
  assumes "known_as C raw tid db" and "\<not> stores_again C raw e"
  shows "known_as C raw tid (account_step C db e)"
proof (cases e)
  case (Migrate now salt legacy)
  show ?thesis
  proof (cases "migrate_legacy_users C now salt legacy db")
    case (Inr db')
    from migrate_keeps [where P = "known_as C raw tid", OF insert_user_known_as Inr assms(1)] show ?thesis by (simp add: Migrate Inr)
  qed (simp add: Migrate assms)
next
  case (Store_token now days i uid r ttl)
  with assms show ?thesis by (auto simp: store_refresh_token_def known_as_def Let_def)
next
  case (Consume now r)
  then show ?thesis using known_as_update [OF assms(1)] assms(1)
    by (auto simp: consume_refresh_token_alt mark_refresh_token_def split: option.splits)
next
  case (Mark_token i)
  then show ?thesis using known_as_update [OF assms(1)] by (simp add: mark_refresh_token_def)
next
  case (Revoke_all uid)
  then show ?thesis using known_as_update [OF assms(1)] by (simp add: revoke_user_tokens_def split_beta)
next
  case (Drop_expired now)
  with assms(1) show ?thesis by (auto simp: purge_expired_def known_as_def list_all_iff)
next
  case (Create now clock salt name password email rls grps level ns)
  with assms(1) show ?thesis by (simp add: known_as_def create_user_tokens)
qed (use assms(1) in \<open>auto simp: update_user_def delete_user_def split_beta Let_def add_to_blacklist_def cleanup_blacklist_def
      add_password_to_history_def clear_password_history_def cleanup_old_password_history_def
      intro: known_as_same_tokens [of _ db]\<close>)

lemma run_known_as:
  "known_as C raw tid db \<Longrightarrow> list_all (\<lambda>e. \<not> stores_again C raw e) evs \<Longrightarrow> known_as C raw tid (foldl (account_step C) db evs)"
  by (induction evs arbitrary: db) (auto intro: step_known_as)

lemma mark_spends: "known_as C raw tid db \<Longrightarrow> spent C raw (mark_refresh_token tid db)"
  by (auto simp: known_as_def spent_def mark_refresh_token_def update_rows_def list_all_iff)

lemma select_known_as:
  assumes "select_refresh_token C now raw db = Some (tid, uid)" and "distinct (map tr_hash (db_tokens db))"
  shows "known_as C raw tid db"
proof -
  obtain t where f: "find (live_token C now raw) (db_tokens db) = Some t" and tid: "tr_id t = tid"
    using assms(1) by (auto simp: select_refresh_token_def)
  then have t: "t \<in> set (db_tokens db)" "tr_hash t = sha256 C raw" by (auto dest!: find_SomeD simp: live_token_def)
  have "x = t" if "x \<in> set (db_tokens db)" "tr_hash x = sha256 C raw" for x
    using assms(2) that t by (auto simp: distinct_map inj_on_def)
  then show ?thesis using tid by (auto simp: known_as_def list_all_iff)
qed

text \<open>
  C6. A refresh token is refused once a use of it has come as far as its UPDATE: if a use selected the token in \<open>db\<close>, where
  no two tokens have the same digest, then whatever other tasks do to the database before its UPDATE (\<open>during\<close>, halves of
  other uses included) and after it (\<open>after\<close>), a use that begins then is refused and changes nothing, however it is interleaved,
  as long as no token with that digest is stored again.
\<close>
theorem spent_token_stays_spent:
  assumes "select_refresh_token C now raw db = Some (tid, uid)"
    and "distinct (map tr_hash (db_tokens db))"
    and "list_all (\<lambda>e. \<not> stores_again C raw e) (during @ after)"
    and "db' = foldl (account_step C) (mark_refresh_token tid (foldl (account_step C) db during)) after"
  shows "consume_refresh_token_among before_update before_user C now' raw db' = (None, db')"
proof -
  have "known_as C raw tid (foldl (account_step C) db during)"
    by (rule run_known_as [OF select_known_as [OF assms(1,2)]]) (use assms(3) in simp)
  from run_spent [OF mark_spends [OF this], of after] assms(3,4) have "spent C raw db'" by simp
  then have "find (live_token C now' raw) (db_tokens db') = None"
    by (auto simp: spent_def live_token_def list_all_iff find_None_iff)
  then show ?thesis by (simp add: consume_refresh_token_among_def select_refresh_token_def)
qed

definition one_session :: user_db where
  "one_session =
     \<lparr>db_users = [\<lparr>ur_id = ''u1'', ur_name = ''anna'', ur_hash = ''s$pw'', ur_email = [], ur_roles = Dumped [''user''],
        ur_groups = Dumped [], ur_level = ''user'', ur_namespace = [], ur_active = True, ur_created = 0, ur_updated = 0\<rparr>],
      db_tokens = [\<lparr>tr_id = ''t1'', tr_user = ''u1'', tr_hash = ''raw'', tr_expires = 100, tr_created = 0, tr_revoked = False\<rparr>],
      db_blacklist = [], db_passwords = [], db_next = 1\<rparr>"

theorem spent_token_stays_spent_witness:
  "fst (consume_refresh_token plain_crypto 3 ''raw''
     (foldl (account_step plain_crypto)
        (mark_refresh_token ''t1'' (foldl (account_step plain_crypto) one_session [Consume 1 ''raw'', Delete 1 ''u1'']))
        [Mark_token ''t1'', Store_token 2 7 ''t2'' ''u1'' ''other'' None])) = None"
proof -
  let ?during = "[Consume 1 ''raw'', Delete 1 ''u1'']"
  let ?after = "[Mark_token ''t1'', Store_token 2 7 ''t2'' ''u1'' ''other'' None]"
  have s: "select_refresh_token plain_crypto 1 ''raw'' one_session = Some (''t1'', ''u1'')"
    by (simp add: select_refresh_token_def live_token_def one_session_def plain_crypto_def)
  have d: "distinct (map tr_hash (db_tokens one_session))" by (simp add: one_session_def)
  have n: "list_all (\<lambda>e. \<not> stores_again plain_crypto ''raw'' e) (?during @ ?after)" by (simp add: plain_crypto_def)
  show ?thesis unfolding consume_refresh_token_def
    by (rule trans [OF arg_cong [where f = fst, OF spent_token_stays_spent [OF s d n refl]] fst_conv])
qed

lemma find_unique_key:
  assumes "distinct (map f xs)" and "x \<in> set xs" and "P x" and "\<And>y. P y \<Longrightarrow> f y = f x"
  shows "find P xs = Some x"
  using assms(1,2)
proof (induction xs)
  case (Cons a as)
  show ?case
  proof (cases "a = x")
    case True
    with assms(3) show ?thesis by simp
  next
    case False
    with Cons.prems have x: "x \<in> set as" by simp
    then have "f a \<noteq> f x" using Cons.prems(1) by (auto simp: image_iff)
    then have "\<not> P a" using assms(4) by blast
    with Cons.IH Cons.prems(1) x show ?thesis by simp
  qed
qed simp

lemma get_user_mark: "get_user C uid (mark_refresh_token tid db) = get_user C uid db"
  by (simp add: get_user_def mark_refresh_token_def)

text \<open>
  C13. One refresh token serves two requests that overlap: the UPDATE does not look at whether the token was revoked since
  the SELECT, so a use whose awaits let a second use of the same token run from beginning to end returns the user, as the
  second one does, although each of them was to consume the token alone; one after the other, the later use is refused.
  (The token is live at both times, no other token has its digest, and its user is active.)
\<close>
theorem concurrent_uses_both_succeed:
  assumes "t \<in> set (db_tokens db)" and "live_token C now raw t" and "live_token C now' raw t"
    and "distinct (map tr_hash (db_tokens db))" and "get_user C (tr_user t) db = Some u"
  shows "fst (consume_refresh_token C now' raw db) = Some u \<and>
    fst (consume_refresh_token_among (\<lambda>db. snd (consume_refresh_token C now' raw db)) (\<lambda>db. db) C now raw db) = Some u \<and>
    fst (consume_refresh_token C now raw (snd (consume_refresh_token C now' raw db))) = None"
proof -
  have f: "find (live_token C n raw) (db_tokens db) = Some t" if "live_token C n raw t" for n
    by (rule find_unique_key [where f = tr_hash and P = "live_token C n raw", OF assms(4,1) that]) (use that in \<open>auto simp: live_token_def\<close>)
  have s: "select_refresh_token C n raw db = Some (tr_id t, tr_user t)" if "live_token C n raw t" for n
    by (simp add: select_refresh_token_def f [OF that])
  from mark_spends [OF select_known_as [OF s [OF assms(2)] assms(4)]]
  have "fst (consume_refresh_token C now raw (mark_refresh_token (tr_id t) db)) = None" by (simp add: spent_not_live)
  then show ?thesis using assms(5)
    by (simp add: consume_refresh_token_alt f [OF assms(3)] consume_refresh_token_among_def s [OF assms(2)] get_user_mark Let_def)
qed

theorem concurrent_uses_both_succeed_witness:
  "\<exists>u. fst (consume_refresh_token_among (\<lambda>db. snd (consume_refresh_token plain_crypto 2 ''raw'' db)) (\<lambda>db. db)
     plain_crypto 1 ''raw'' one_session) = Some u \<and> ui_name u = ''anna''"
proof -
  obtain t where t: "db_tokens one_session = [t]" "live_token plain_crypto 1 ''raw'' t" "live_token plain_crypto 2 ''raw'' t"
      "tr_user t = ''u1''"
    by (simp add: one_session_def live_token_def plain_crypto_def)
  obtain u where u: "get_user plain_crypto ''u1'' one_session = Some u" "ui_name u = ''anna''"
    by (simp add: get_user_def one_session_def row_to_dict_def)
  from concurrent_uses_both_succeed [of t one_session plain_crypto 1 "''raw''" 2 u] t u show ?thesis by simp
qed

subsection \<open>The blacklist forgets\<close>

lemma is_blacklisted_iff: "is_blacklisted jti db \<longleftrightarrow> jti \<in> set (map bl_jti (db_blacklist db))"
  by (auto simp: is_blacklisted_def list_ex_iff)

lemma length_filter_jti:
  assumes "distinct (map bl_jti bs)" and "set js \<subseteq> bl_jti ` set bs" and "distinct js"
  shows "length (filter (\<lambda>b. bl_jti b \<notin> set js) bs) = length bs - length js"
proof -
  have "length (filter (\<lambda>b. bl_jti b \<in> set js) bs) = length js"
  proof -
    have d: "distinct (map bl_jti (filter (\<lambda>b. bl_jti b \<in> set js) bs))" using assms(1) by (rule distinct_map_filter)
    have "set (map bl_jti (filter (\<lambda>b. bl_jti b \<in> set js) bs)) = set js" using assms(2) by auto
    with d assms(3) distinct_card show ?thesis by (metis length_map)
  qed
  with sum_length_filter_compl [of "\<lambda>b. bl_jti b \<in> set js" bs] show ?thesis by simp
qed

lemma blacklist_after_cleanup:
  assumes "distinct (map bl_jti (db_blacklist db))"
  shows "length (db_blacklist (cleanup_blacklist m now db)) = min m (length (filter (\<lambda>b. \<not> bl_expires b < now) (db_blacklist db)))"
proof -
  define live where "live = filter (\<lambda>b. \<not> bl_expires b < now) (db_blacklist db)"
  define js where "js = map bl_jti (take (length live - m) (sort_key bl_since live))"
  have d: "distinct (map bl_jti live)" using assms by (simp add: live_def distinct_map_filter)
  have "mset (map bl_jti (sort_key bl_since live)) = mset (map bl_jti live)" by (simp only: mset_map mset_sort)
  then have "distinct (map bl_jti (sort_key bl_since live))" using d mset_eq_imp_distinct_iff by blast
  then have dj: "distinct js" unfolding js_def by (metis distinct_take take_map)
  have "set js \<subseteq> bl_jti ` set live" unfolding js_def by (auto dest: in_set_takeD)
  from length_filter_jti [OF d this dj] have "length (filter (\<lambda>b. bl_jti b \<notin> set js) live) = length live - length js" .
  moreover have "length js = length live - m" by (simp add: js_def)
  moreover have "db_blacklist (cleanup_blacklist m now db) = filter (\<lambda>b. bl_jti b \<notin> set js) live"
    unfolding cleanup_blacklist_def Let_def live_def js_def by simp
  ultimately have "length (db_blacklist (cleanup_blacklist m now db)) = min m (length live)" by simp
  then show ?thesis by (simp only: live_def)
qed

text \<open>
  The blacklist is bounded at the price of its purpose: it never holds more than its limit, and an entry that comes
  when the list is full of tokens that are still valid makes one of them valid again.
\<close>
theorem full_blacklist_forgets:
  assumes "db_ok db" and "length (db_blacklist db) = m" and "0 < m" and "\<not> is_blacklisted jti db" and "now \<le> e"
    and "list_all (\<lambda>b. now \<le> bl_expires b) (db_blacklist db)"
  shows "length (db_blacklist (add_to_blacklist m now jti e db)) = m \<and>
    list_ex (\<lambda>j. \<not> is_blacklisted j (add_to_blacklist m now jti e db)) (jti # map bl_jti (db_blacklist db))"
proof -
  let ?db = "db\<lparr>db_blacklist := db_blacklist db @ [\<lparr>bl_jti = jti, bl_expires = e, bl_since = now\<rparr>]\<rparr>"
  have a: "add_to_blacklist m now jti e db = cleanup_blacklist m now ?db"
    using assms(4) by (simp add: add_to_blacklist_def is_blacklisted_def)
  have d: "distinct (map bl_jti (db_blacklist ?db))"
    using assms(1,4) by (auto simp: db_ok_def is_blacklisted_def list_ex_iff)
  have "filter (\<lambda>b. \<not> bl_expires b < now) (db_blacklist ?db) = db_blacklist ?db"
    using assms(5,6) by (auto simp: filter_id_conv list_all_iff not_less)
  then have "length (filter (\<lambda>b. \<not> bl_expires b < now) (db_blacklist ?db)) = Suc m"
    using assms(2) by (simp only: user_db.simps length_append) simp
  with blacklist_after_cleanup [OF d, of m now] have l: "length (db_blacklist (cleanup_blacklist m now ?db)) = m" by simp
  let ?js = "map bl_jti (db_blacklist ?db)"
  let ?kept = "map bl_jti (db_blacklist (cleanup_blacklist m now ?db))"
  have "\<not> set ?js \<subseteq> set ?kept"
  proof
    assume "set ?js \<subseteq> set ?kept"
    then have "card (set ?js) \<le> card (set ?kept)" by (rule card_mono [OF finite_set])
    also have "\<dots> \<le> length ?kept" by (rule card_length)
    finally have "length ?js \<le> m" using distinct_card [OF d] l by simp
    then show False using assms(2) by simp
  qed
  then obtain j where "j \<in> set ?js" "j \<notin> set ?kept" by blast
  then have "list_ex (\<lambda>j. \<not> is_blacklisted j (cleanup_blacklist m now ?db)) (jti # map bl_jti (db_blacklist db))"
    unfolding list_ex_iff is_blacklisted_iff by (intro bexI [of _ j]) simp_all
  with l show ?thesis unfolding a by simp
qed

theorem full_blacklist_forgets_witness:
  "length (db_blacklist (add_to_blacklist 1 5 ''b'' 20 (empty_db\<lparr>db_blacklist := [\<lparr>bl_jti = ''a'', bl_expires = 9, bl_since = 4\<rparr>]\<rparr>))) = 1"
proof -
  have "db_ok (empty_db\<lparr>db_blacklist := [\<lparr>bl_jti = ''a'', bl_expires = 9, bl_since = 4\<rparr>]\<rparr>)" by (simp add: db_ok_def empty_db_def)
  from full_blacklist_forgets [OF this, of 1 "''b''" 5 20] show ?thesis by (simp add: is_blacklisted_def)
qed

subsection \<open>The history of passwords\<close>

lemma take_by_id:
  assumes "distinct (map f xs)"
  shows "filter (\<lambda>x. f x \<in> set (map f (take n xs))) xs = take n xs"
proof -
  have "f x \<notin> set (map f (take n xs))" if "x \<in> set (drop n xs)" for x
  proof -
    have "distinct (map f (take n xs) @ map f (drop n xs))" using assms by (metis append_take_drop_id map_append)
    with that show ?thesis by auto
  qed
  then have "filter (\<lambda>x. f x \<in> set (map f (take n xs))) (take n xs @ drop n xs) = take n xs"
    unfolding filter_append by (simp add: filter_id_conv)
  then show ?thesis by simp
qed

text \<open>
  Trimming the history keeps the newest passwords of every user: what is left for a user is what the query for the
  newest entries returned before.
\<close>
theorem trim_keeps_newest:
  assumes "db_ok db" and "0 \<le> n"
  shows "get_password_history uid (- 1) (snd (cleanup_old_password_history n db)) = get_password_history uid n db"
proof -
  let ?keep = "\<lambda>u p. pw_id p \<in> set (map pw_id (limit_offset n 0 (newest_first u db)))"
  have d: "distinct (map pw_id (newest_first uid db))"
  proof -
    have "distinct (map pw_id (filter (\<lambda>p. pw_user p = uid) (db_passwords db)))"
      using assms(1) by (simp add: db_ok_def distinct_map_filter)
    moreover have "mset (map pw_id (newest_first uid db)) = mset (map pw_id (filter (\<lambda>p. pw_user p = uid) (db_passwords db)))"
      by (simp only: newest_first_def mset_map mset_sort)
    ultimately show ?thesis using mset_eq_imp_distinct_iff by blast
  qed
  have "newest_first uid (snd (cleanup_old_password_history n db)) =
      sort_key (\<lambda>p. - pw_created p) (filter (?keep uid) (filter (\<lambda>p. pw_user p = uid) (db_passwords db)))"
    unfolding newest_first_def cleanup_old_password_history_def Let_def by (auto intro!: arg_cong [where f = "sort_key _"] filter_cong)
  also have "\<dots> = filter (?keep uid) (newest_first uid db)"
    unfolding newest_first_def by (simp only: filter_sort)
  also have "\<dots> = limit_offset n 0 (newest_first uid db)"
    using take_by_id [OF d, of "nat n"] assms(2) by (simp add: limit_offset_def Let_def)
  finally show ?thesis by (simp add: get_password_history_def limit_offset_def)
qed

theorem trim_keeps_newest_witness:
  "get_password_history ''u'' (- 1) (snd (cleanup_old_password_history 1 empty_db)) = get_password_history ''u'' 1 empty_db"
proof -
  have "db_ok empty_db" by (simp add: db_ok_def empty_db_def)
  then show ?thesis by (rule trim_keeps_newest) simp
qed

end
