(* ===== verification/Sessions.thy ===== *)
theory Sessions
  imports Accounts Api_Keys Access_Control
begin

text \<open>
  Authentication: the tokens of \<^verbatim>\<open>proxy/app/auth/jwt.py\<close> with its dependency and its middleware, the roles of
  \<^verbatim>\<open>auth/rbac.py\<close>, the directory login of \<^verbatim>\<open>auth/ldap.py\<close>, the check of new passwords of \<^verbatim>\<open>shared/security.py\<close> and the
  endpoints of \<^verbatim>\<open>api/auth_endpoints.py\<close>, over \<open>Accounts\<close> and \<open>Api_Keys\<close>. PyJWT, the directory server and the random
  draws are parameters. Audit log, metrics and tracing are left out.
\<close>

subsection \<open>Tokens\<close>

datatype http_exn = Http nat string | Raised exn

record claims =
  jc_sub :: "string option"
  jc_username :: "string option"
  jc_roles :: "string list option"
  jc_realm_roles :: "string list option"
    \<comment> \<open>\<^verbatim>\<open>realm_access.roles\<close>\<close>
  jc_groups :: "string list option"
  jc_level :: "string option"
  jc_namespace :: "string option"
  jc_iat :: "int option"
  jc_exp :: "int option"
  jc_jti :: "string option"

datatype jwt_error = Expired_signature | Invalid_token string

record auth_env =
  ae_enabled :: bool
  ae_secret :: string
  ae_algorithm :: string
  ae_public_key :: string
  ae_access_minutes :: int
  ae_refresh_days :: int
  ae_encode :: "claims \<Rightarrow> string \<Rightarrow> string \<Rightarrow> exn + string"
    \<comment> \<open>\<^verbatim>\<open>jwt.encode(payload, key, algorithm)\<close>\<close>
  ae_decode :: "string \<Rightarrow> string \<Rightarrow> string list \<Rightarrow> bool \<Rightarrow> real \<Rightarrow> jwt_error + claims"
    \<comment> \<open>\<^verbatim>\<open>jwt.decode(token, key, algorithms, verify_exp)\<close> at a time\<close>
  ae_crypto :: crypto

definition or_list :: "'a list \<Rightarrow> 'a list \<Rightarrow> 'a list" where
  "or_list x d = (if x \<noteq> [] then x else d)"

definition create_token ::
  "auth_env \<Rightarrow> real \<Rightarrow> string \<Rightarrow> string \<Rightarrow> string list \<Rightarrow> string list \<Rightarrow> string \<Rightarrow> string \<Rightarrow> int \<Rightarrow> string option \<Rightarrow> exn + string" where
  "create_token E now uid name rls grps level ns hours secret =
     (let t = py_trunc now;
          payload = \<lparr>jc_sub = Some uid, jc_username = Some name, jc_roles = Some rls, jc_realm_roles = None,
                     jc_groups = Some grps, jc_level = Some level, jc_namespace = Some ns, jc_iat = Some t,
                     jc_exp = Some (t + hours * 3600), jc_jti = None\<rparr>;
          key = (if truthy_str secret then the secret else ae_secret E)
      in if key = [] then Inl (ValueError ''JWT_SECRET is not configured'') else ae_encode E payload key (ae_algorithm E))"

definition create_mock_token ::
  "auth_env \<Rightarrow> real \<Rightarrow> string \<Rightarrow> string \<Rightarrow> string list \<Rightarrow> string list \<Rightarrow> string \<Rightarrow> string \<Rightarrow> string option \<Rightarrow> exn + string" where
  "create_mock_token E now uid name rls grps level ns secret =
     create_token E now uid name (or_list rls [''user'']) (or_list grps [''everyone'']) level ns 24
       (Some (if truthy_str secret then the secret else or_list (ae_secret E) ''test-secret-key-for-unit-tests''))"

definition get_verify_key :: "auth_env \<Rightarrow> string option" where
  "get_verify_key E =
     (let k = (if starts_with ''RS'' (py_upper (ae_algorithm E)) then ae_public_key E else ae_secret E)
      in if k = [] then None else Some k)"

definition decode_with :: "auth_env \<Rightarrow> bool \<Rightarrow> real \<Rightarrow> string \<Rightarrow> jwt_error + claims" where
  "decode_with E check_exp now token =
     ae_decode E token (case get_verify_key E of None \<Rightarrow> [] | Some k \<Rightarrow> k)
       (if ae_algorithm E \<noteq> [] then [ae_algorithm E] else [''HS256'']) check_exp now"

definition context_of :: "claims \<Rightarrow> user_context" where
  "context_of c =
     \<lparr>user_id = or_keep (jc_sub c) [], username = or_keep (jc_username c) [],
      roles = or_keep (jc_roles c) (or_keep (jc_realm_roles c) []), groups = or_keep (jc_groups c) [],
      access_level = or_keep (jc_level c) ''internal'', namespace = or_keep (jc_namespace c) []\<rparr>"

definition verify_token :: "auth_env \<Rightarrow> real \<Rightarrow> string \<Rightarrow> http_exn + user_context" where
  "verify_token E now token =
     (case decode_with E True now token of
        Inl Expired_signature \<Rightarrow> Inl (Http 401 ''Token has expired'')
      | Inl (Invalid_token m) \<Rightarrow> Inl (Http 401 (''Invalid token: '' @ m))
      | Inr c \<Rightarrow> Inr (context_of c))"

definition get_user_from_token :: "auth_env \<Rightarrow> real \<Rightarrow> string \<Rightarrow> user_context option" where
  "get_user_from_token E now token = (case decode_with E True now token of Inl e \<Rightarrow> None | Inr c \<Rightarrow> Some (context_of c))"

subsection \<open>Who calls\<close>

definition validate_api_key ::
  "auth_env \<Rightarrow> real \<Rightarrow> string \<Rightarrow> key_manager \<Rightarrow> (http_exn + user_context) \<times> key_manager" where
  "validate_api_key E now key km =
     (case validate_key (sha256 (ae_crypto E)) now key km of
        (None, km) \<Rightarrow> (Inl (Http 401 ''Invalid or revoked API key''), km)
      | (Some k, km) \<Rightarrow>
          (Inr \<lparr>user_id = key_user k, username = key_user k, roles = key_roles k, groups = [], access_level = ''internal'',
                namespace = []\<rparr>, km))"

definition verify_credential ::
  "auth_env \<Rightarrow> real \<Rightarrow> string \<Rightarrow> key_manager \<Rightarrow> (http_exn + user_context) \<times> key_manager" where
  "verify_credential E now token km =
     (if starts_with ''sk-'' token then validate_api_key E now token km else (verify_token E now token, km))"

definition request_token :: "(string, string) dict \<Rightarrow> string option \<Rightarrow> string option" where
  \<comment> \<open>the bearer credentials, if there are any, or else the header \<^verbatim>\<open>X-Auth-Token\<close>; names of headers in lower case\<close>
  "request_token headers credentials =
     (case credentials of Some c \<Rightarrow> Some c | None \<Rightarrow> dict_get headers ''x-auth-token'')"

definition header_user :: "(string, string) dict \<Rightarrow> string option" where
  "header_user headers =
     (if truthy_str (dict_get headers ''x-openwebui-user-id'') then dict_get headers ''x-openwebui-user-id''
      else dict_get headers ''x-forwarded-user'')"

definition get_auth_context ::
  "auth_env \<Rightarrow> real \<Rightarrow> (string, string) dict \<Rightarrow> string option \<Rightarrow> key_manager \<Rightarrow> (http_exn + user_context) \<times> key_manager" where
  "get_auth_context E now headers credentials km =
     (if \<not> ae_enabled E then (Inr anonymous, km)
      else if \<not> truthy_str (request_token headers credentials) then (Inl (Http 401 ''Authentication required''), km)
      else
        (case verify_credential E now (the (request_token headers credentials)) km of
           (Inl e, km) \<Rightarrow> (Inl e, km)
         | (Inr u, km) \<Rightarrow>
             (if truthy_str (header_user headers)
              then (Inr (u\<lparr>user_id := the (header_user headers), username := the (header_user headers)\<rparr>), km)
              else (Inr u, km))))"

definition get_optional_auth_context ::
  "auth_env \<Rightarrow> real \<Rightarrow> (string, string) dict \<Rightarrow> string option \<Rightarrow> key_manager \<Rightarrow> user_context \<times> key_manager" where
  "get_optional_auth_context E now headers credentials km =
     (let t = request_token headers credentials in
      if \<not> truthy_str t then (anonymous, km)
      else if starts_with ''sk-'' (the t)
      then (case validate_api_key E now (the t) km of (Inl e, km) \<Rightarrow> (anonymous, km) | (Inr u, km) \<Rightarrow> (u, km))
      else (or_keep (get_user_from_token E now (the t)) anonymous, km))"

subsection \<open>The middleware\<close>

definition PUBLIC_PATHS :: "string list" where
  "PUBLIC_PATHS =
     [''/v1/auth/login'', ''/v1/auth/register'', ''/v1/auth/refresh'', ''/v1/health'', ''/v1/health/live'',
      ''/v1/health/ready'', ''/v1/models'', ''/v1/widget'', ''/v1/widget.js'', ''/metrics'']"

definition rstrip_slash :: "string \<Rightarrow> string" where
  "rstrip_slash s = rev (dropWhile (\<lambda>c. c = CHR ''/'') (rev s))"

definition public_path :: "string \<Rightarrow> bool" where
  "public_path path \<longleftrightarrow> path \<in> set PUBLIC_PATHS \<or> rstrip_slash path \<in> set PUBLIC_PATHS"

definition bearer_token :: "(string, string) dict \<Rightarrow> string option" where
  "bearer_token headers =
     (let h = dict_getd headers ''authorization'' [] in
      if starts_with ''Bearer '' h then Some (drop 7 h) else dict_get headers ''x-auth-token'')"

datatype gate = Pass user_context | Deny nat string

definition middleware_dispatch ::
  "auth_env \<Rightarrow> real \<Rightarrow> string \<Rightarrow> (string, string) dict \<Rightarrow> key_manager \<Rightarrow> (exn + gate) \<times> key_manager" where
  "middleware_dispatch E now path headers km =
     (if \<not> ae_enabled E \<or> public_path path \<or> \<not> starts_with ''/v1/'' path then (Inr (Pass anonymous), km)
      else if \<not> truthy_str (bearer_token headers) then (Inr (Deny 401 ''Authentication required''), km)
      else
        (case verify_credential E now (the (bearer_token headers)) km of
           (Inl (Http s d), km) \<Rightarrow> (Inr (Deny s d), km)
         | (Inl (Raised e), km) \<Rightarrow> (Inl e, km)
         | (Inr u, km) \<Rightarrow> (Inr (Pass u), km)))"

subsection \<open>Keys of Keycloak\<close>

record jwk =
  jk_kid :: "string option"
  jk_kty :: "string option"
  jk_rest :: string

record jwks_cache =
  jw_keys :: "jwk list option"
  jw_time :: real

definition fetch_jwks_oidc :: "string \<Rightarrow> (exn + jwk list) \<Rightarrow> real \<Rightarrow> jwks_cache \<Rightarrow> jwk list option \<times> jwks_cache" where
  \<comment> \<open>with the answer of the server\<close>
  "fetch_jwks_oidc url reply now c =
     (if url = [] then (None, c)
      else if jw_keys c \<noteq> None \<and> now - jw_time c < 3600 then (jw_keys c, c)
      else (case reply of Inl e \<Rightarrow> (None, c) | Inr ks \<Rightarrow> (Some ks, \<lparr>jw_keys = Some ks, jw_time = now\<rparr>)))"

definition get_keycloak_verify_key :: "auth_env \<Rightarrow> (jwk \<Rightarrow> string option) \<Rightarrow> jwk list option \<Rightarrow> string option \<Rightarrow> string option" where
  \<comment> \<open>\<open>pem\<close> is \<^verbatim>\<open>_pem_from_jwk\<close>, \<open>None\<close> where the conversion fails\<close>
  "get_keycloak_verify_key E pem jwks kid =
     (case jwks of
        Some (k # ks) \<Rightarrow>
          (case (if truthy_str kid then find (\<lambda>k. jk_kid k = kid) (k # ks) else None) of
             Some x \<Rightarrow> pem x
           | None \<Rightarrow> (case find (\<lambda>k. jk_kty k = Some ''RSA'') (k # ks) of Some x \<Rightarrow> pem x | None \<Rightarrow> None))
      | _ \<Rightarrow> if ae_public_key E = [] then None else Some (ae_public_key E))"

subsection \<open>Token pairs\<close>

record token_pair =
  tp_access :: string
  tp_refresh :: string
  tp_expires_in :: int

definition access_claims :: "auth_env \<Rightarrow> real \<Rightarrow> string \<Rightarrow> user_info \<Rightarrow> claims" where
  "access_claims E now jti u =
     (let t = py_trunc now
      in \<lparr>jc_sub = Some (ui_id u), jc_username = Some (ui_name u), jc_roles = Some (ui_roles u), jc_realm_roles = None,
          jc_groups = Some (ui_groups u), jc_level = Some (ui_level u), jc_namespace = Some (ui_namespace u), jc_iat = Some t,
          jc_exp = Some (t + ae_access_minutes E * 60), jc_jti = Some jti\<rparr>)"

definition create_token_pair ::
  "auth_env \<Rightarrow> real \<Rightarrow> string \<Rightarrow> string \<Rightarrow> string \<Rightarrow> user_info \<Rightarrow> user_db \<Rightarrow> (exn + token_pair) \<times> user_db" where
  \<comment> \<open>\<open>jti\<close>, the refresh token \<open>raw\<close> and its id \<open>tid\<close> are drawn\<close>
  "create_token_pair E now jti raw tid u db =
     (if ae_secret E = [] then (Inl (ValueError ''JWT_SECRET is not configured''), db)
      else
        (case ae_encode E (access_claims E now jti u) (ae_secret E) (ae_algorithm E) of
           Inl e \<Rightarrow> (Inl e, db)
         | Inr access \<Rightarrow>
             (case store_refresh_token (ae_crypto E) now (ae_refresh_days E) tid (ui_id u) raw None db of
                (Inl e, db) \<Rightarrow> (Inl e, db)
              | (Inr i, db) \<Rightarrow>
                  (Inr \<lparr>tp_access = access, tp_refresh = raw, tp_expires_in = ae_access_minutes E * 60\<rparr>, db))))"

definition verify_refresh_token :: "auth_env \<Rightarrow> real \<Rightarrow> string \<Rightarrow> user_db \<Rightarrow> user_info option \<times> user_db" where
  \<comment> \<open>run without another task in between; \<^verbatim>\<open>consume_refresh_token_among\<close> says what else can happen\<close>
  "verify_refresh_token E now raw db = consume_refresh_token (ae_crypto E) now raw db"

definition blacklist_access_token :: "auth_env \<Rightarrow> nat \<Rightarrow> real \<Rightarrow> string \<Rightarrow> user_db \<Rightarrow> user_db" where
  "blacklist_access_token E max_entries now token db =
     (case decode_with E False now token of
        Inl e \<Rightarrow> db
      | Inr c \<Rightarrow>
          (if truthy_str (jc_jti c) then add_to_blacklist max_entries now (the (jc_jti c)) (of_int (or_keep (jc_exp c) 0)) db
           else db))"

subsection \<open>Roles\<close>

datatype role = ADMIN | EXPERT | USER | READ_ONLY

fun role_value :: "role \<Rightarrow> string" where
  "role_value ADMIN = ''admin''"
| "role_value EXPERT = ''expert''"
| "role_value USER = ''user''"
| "role_value READ_ONLY = ''read_only''"

fun ROLE_RANK :: "role \<Rightarrow> nat" where
  "ROLE_RANK ADMIN = 4"
| "ROLE_RANK EXPERT = 3"
| "ROLE_RANK USER = 2"
| "ROLE_RANK READ_ONLY = 1"

definition PERMISSION_MAP :: "(string, role) dict" where
  "PERMISSION_MAP =
     [(''admin:config'', ADMIN), (''admin:analytics'', ADMIN), (''admin:users'', ADMIN), (''admin:stats'', ADMIN),
      (''admin:metrics'', ADMIN), (''admin:warmup'', ADMIN), (''expert:kb:review'', EXPERT), (''expert:kb:flag'', EXPERT),
      (''expert:kb:flags'', EXPERT), (''expert:kb:reindex'', EXPERT), (''feedback'', EXPERT), (''feedback:submit'', EXPERT),
      (''feedback:review'', EXPERT), (''enrichment:trigger'', EXPERT), (''chat'', USER), (''chat:stream'', USER),
      (''widget:access'', USER), (''models:list'', READ_ONLY), (''health:check'', READ_ONLY), (''auth:login'', READ_ONLY),
      (''auth:refresh'', READ_ONLY), (''auth:register'', READ_ONLY), (''auth:logout'', READ_ONLY), (''auth:me'', READ_ONLY)]"

definition get_user_role :: "user_context \<Rightarrow> role" where
  "get_user_role u =
     (case find (\<lambda>r. role_value r \<in> set (map py_lower (roles u))) [ADMIN, EXPERT, USER, READ_ONLY] of
        None \<Rightarrow> READ_ONLY | Some r \<Rightarrow> r)"

definition has_permission :: "bool \<Rightarrow> user_context \<Rightarrow> string \<Rightarrow> bool" where
  "has_permission rbac_enabled u action =
     (if \<not> rbac_enabled then True
      else case dict_get PERMISSION_MAP action of
             None \<Rightarrow> False
           | Some r \<Rightarrow> ROLE_RANK (get_user_role u) \<ge> ROLE_RANK r)"

definition require_role :: "bool \<Rightarrow> role \<Rightarrow> user_context \<Rightarrow> http_exn + user_context" where
  "require_role rbac_enabled required u =
     (if \<not> rbac_enabled then Inr u
      else if ROLE_RANK (get_user_role u) < ROLE_RANK required
      then Inl (Http 403 (''Role '' @ [CHR 0x27] @ role_value (get_user_role u) @ [CHR 0x27] @ '' is not sufficient. Required: '' @
             [CHR 0x27] @ role_value required @ [CHR 0x27]))
      else Inr u)"

subsection \<open>Attempts\<close>

type_synonym attempts = "(string, nat \<times> real) dict"

definition LOGIN_MAX_ATTEMPTS :: nat where
  "LOGIN_MAX_ATTEMPTS = 5"

definition LOGIN_WINDOW_SECONDS :: real where
  "LOGIN_WINDOW_SECONDS = 300"

definition LOGIN_COOLDOWN_SECONDS :: real where
  "LOGIN_COOLDOWN_SECONDS = 900"

definition check_login_rate_limit :: "real \<Rightarrow> string \<Rightarrow> attempts \<Rightarrow> (http_exn + unit) \<times> attempts" where
  "check_login_rate_limit now ident att =
     (case dict_get att ident of
        None \<Rightarrow> (Inr (), dict_set ident (1, now) att)
      | Some (n, first) \<Rightarrow>
          (if now - first > LOGIN_WINDOW_SECONDS then (Inr (), dict_set ident (1, now) att)
           else if n \<ge> LOGIN_MAX_ATTEMPTS
           then (if now - first < LOGIN_COOLDOWN_SECONDS
                 then (Inl (Http 429 (''Too many login attempts. Try again in '' @
                         nat_str (nat (py_trunc (LOGIN_COOLDOWN_SECONDS - (now - first)))) @ '' seconds.'')), att)
                 else (Inr (), dict_set ident (1, now) att))
           else (Inr (), dict_set ident (n + 1, first) att)))"

subsection \<open>Registration\<close>

definition char_in :: "nat \<Rightarrow> nat \<Rightarrow> char \<Rightarrow> bool" where
  "char_in a b c \<longleftrightarrow> (let n = of_char c in a \<le> n \<and> n \<le> b)"

definition SPECIAL_CHARS :: "char set" where
  "SPECIAL_CHARS = set (''!@#$%^&*()_+-=[]{};:|,.<>/?~'' @ [CHR 0x27, CHR 0x22, CHR 0x5C, CHR 0x60])"

definition validate_strength :: "string \<Rightarrow> string option" where
  \<comment> \<open>\<^verbatim>\<open>PasswordStrengthValidator.validate\<close>, the error or \<open>None\<close>\<close>
  "validate_strength password =
     (if length password < 10 then Some ''Password must be at least 10 characters''
      else if length password > 128 then Some ''Password must be at most 128 characters''
      else if \<not> list_ex (char_in 65 90) password then Some ''Password must contain at least one uppercase letter''
      else if \<not> list_ex (char_in 97 122) password then Some ''Password must contain at least one lowercase letter''
      else if \<not> list_ex (char_in 48 57) password then Some ''Password must contain at least one digit''
      else if \<not> list_ex (\<lambda>c. c \<in> SPECIAL_CHARS) password then Some ''Password must contain at least one special character''
      else None)"

definition name_char :: "char \<Rightarrow> bool" where
  "name_char c \<longleftrightarrow> char_in 48 57 c \<or> char_in 65 90 c \<or> char_in 97 122 c \<or> c \<in> set ''_.-''"

definition register_request_ok :: "string \<Rightarrow> string \<Rightarrow> bool" where
  "register_request_ok name password \<longleftrightarrow>
     2 \<le> length name \<and> length name \<le> 64 \<and> list_all name_char name \<and> 10 \<le> length password \<and> length password \<le> 128"

record auth_state =
  au_db :: user_db
  au_attempts :: attempts

record auth_draws =
  dr_clock :: string
  dr_salt :: string
  dr_password :: string
  dr_jti :: string
  dr_refresh :: string
  dr_id :: string

definition auth_register ::
  "auth_env \<Rightarrow> real \<Rightarrow> auth_draws \<Rightarrow> string \<Rightarrow> string \<Rightarrow> string \<Rightarrow> string \<Rightarrow> auth_state
   \<Rightarrow> (http_exn + string \<times> string \<times> real) \<times> auth_state" where
  "auth_register E now d client_ip name password email st =
     (if \<not> register_request_ok name password then (Inl (Http 422 ''invalid request''), st)
      else
        (case check_login_rate_limit now (''register:'' @ client_ip) (au_attempts st) of
           (Inl e, att) \<Rightarrow> (Inl e, st\<lparr>au_attempts := att\<rparr>)
         | (Inr _, att) \<Rightarrow>
             (let st = st\<lparr>au_attempts := att\<rparr> in
              if \<not> ae_enabled E then (Inl (Http 400 ''Registration is not enabled. Set AUTH_ENABLED=true.''), st)
              else
                (case validate_strength password of
                   Some m \<Rightarrow> (Inl (Http 422 m), st)
                 | None \<Rightarrow>
                     (case create_user (ae_crypto E) now (dr_clock d) (dr_salt d) name password email [] [] ''user'' [] (au_db st) of
                        (Inl (PyException c m), db) \<Rightarrow>
                          ((if c = ''ValueError'' then Inl (Http 409 m) else Inl (Raised (PyException c m))), st\<lparr>au_db := db\<rparr>)
                      | (Inl e, db) \<Rightarrow> (Inl (Raised e), st\<lparr>au_db := db\<rparr>)
                      | (Inr u, db) \<Rightarrow> (Inr u, st\<lparr>au_db := db\<rparr>))))))"

subsection \<open>The directory\<close>

record ldap_env =
  ld_enabled :: bool
  ld_url :: string
  ld_template :: string
  ld_base_dn :: string
  ld_library :: bool
  ld_bind :: "string \<Rightarrow> string \<Rightarrow> bool"
    \<comment> \<open>whether the server accepts a name with a password\<close>

function replace_str :: "string \<Rightarrow> string \<Rightarrow> string \<Rightarrow> string" where
  "replace_str old new s =
     (if s = [] then []
      else if old \<noteq> [] \<and> starts_with old s then new @ replace_str old new (drop (length old) s)
      else hd s # replace_str old new (tl s))"
  by pat_completeness auto

termination
  by (relation "measure (\<lambda>(old, new, s). length s)") auto

declare replace_str.simps [simp del]

definition build_user_dn :: "ldap_env \<Rightarrow> string \<Rightarrow> string" where
  "build_user_dn L name =
     (let dn = replace_str ''{username}'' name (or_list (ld_template L) ''cn={username},{base_dn}'')
      in if ld_base_dn L \<noteq> [] then replace_str ''{base_dn}'' (ld_base_dn L) dn else dn)"

datatype ldap_user = Not_authenticated | Local_user user_info | Without_id
  \<comment> \<open>the last for a dictionary that lacks the key \<^verbatim>\<open>id\<close>\<close>

definition sync_ldap_user :: "crypto \<Rightarrow> real \<Rightarrow> auth_draws \<Rightarrow> string \<Rightarrow> user_db \<Rightarrow> (exn + ldap_user) \<times> user_db" where
  "sync_ldap_user C now d name db =
     (case get_user_by_username C name db of
        Some u \<Rightarrow> (Inr (Local_user u), db)
      | None \<Rightarrow>
          (case create_user C now (dr_clock d) (dr_salt d) name (dr_password d) (name @ ''@ldap'') [''user''] [] ''internal'' [] db of
             (Inr (uid, _), db) \<Rightarrow>
               (Inr (case get_user C uid db of Some u \<Rightarrow> Local_user u | None \<Rightarrow> Without_id), db)
           | (Inl (PyException c m), db) \<Rightarrow>
               (if c = ''ValueError''
                then (Inr (case get_user_by_username C name db of Some u \<Rightarrow> Local_user u | None \<Rightarrow> Without_id), db)
                else (Inl (PyException c m), db))
           | (Inl e, db) \<Rightarrow> (Inl e, db)))"

definition authenticate_ldap ::
  "ldap_env \<Rightarrow> crypto \<Rightarrow> real \<Rightarrow> auth_draws \<Rightarrow> string \<Rightarrow> string \<Rightarrow> user_db \<Rightarrow> (exn + ldap_user) \<times> user_db" where
  "authenticate_ldap L C now d name password db =
     (if \<not> ld_enabled L \<or> ld_url L = [] \<or> \<not> ld_library L \<or> build_user_dn L name = [] then (Inr Not_authenticated, db)
      else if \<not> ld_bind L (build_user_dn L name) password then (Inr Not_authenticated, db)
      else sync_ldap_user C now d name db)"

subsection \<open>Login, refresh and logout\<close>

definition local_or_ldap ::
  "auth_env \<Rightarrow> ldap_env \<Rightarrow> real \<Rightarrow> auth_draws \<Rightarrow> string \<Rightarrow> string \<Rightarrow> user_db \<Rightarrow> (exn + ldap_user) \<times> user_db" where
  "local_or_ldap E L now d name password db =
     (case verify_password (ae_crypto E) name password db of
        Some u \<Rightarrow> (Inr (Local_user u), db)
      | None \<Rightarrow>
          (if \<not> ld_enabled L then (Inr Not_authenticated, db)
           else
             (case authenticate_ldap L (ae_crypto E) now d name password db of
                (Inl e, db) \<Rightarrow> ((if is_exception e then Inr Not_authenticated else Inl e), db)
              | (Inr r, db) \<Rightarrow> (Inr r, db))))"

definition auth_login ::
  "auth_env \<Rightarrow> ldap_env \<Rightarrow> real \<Rightarrow> auth_draws \<Rightarrow> string \<Rightarrow> string \<Rightarrow> string \<Rightarrow> auth_state
   \<Rightarrow> (http_exn + token_pair \<times> user_info) \<times> auth_state" where
  "auth_login E L now d client_ip name password st =
     (case check_login_rate_limit now (''login:'' @ client_ip @ '':'' @ name) (au_attempts st) of
        (Inl e, att) \<Rightarrow> (Inl e, st\<lparr>au_attempts := att\<rparr>)
      | (Inr _, att) \<Rightarrow>
          (let st = st\<lparr>au_attempts := att\<rparr> in
           case local_or_ldap E L now d name password (au_db st) of
             (Inl e, db) \<Rightarrow> (Inl (Raised e), st\<lparr>au_db := db\<rparr>)
           | (Inr Not_authenticated, db) \<Rightarrow> (Inl (Http 401 ''Invalid credentials''), st\<lparr>au_db := db\<rparr>)
           | (Inr Without_id, db) \<Rightarrow> (Inl (Raised (KeyError ''id'')), st\<lparr>au_db := db\<rparr>)
           | (Inr (Local_user u), db) \<Rightarrow>
               (if \<not> ui_active u then (Inl (Http 403 ''Account is deactivated''), st\<lparr>au_db := db\<rparr>)
                else
                  (case create_token_pair E now (dr_jti d) (dr_refresh d) (dr_id d) u db of
                     (Inl e, db) \<Rightarrow> (Inl (Raised e), st\<lparr>au_db := db\<rparr>)
                   | (Inr tp, db) \<Rightarrow> (Inr (tp, u), st\<lparr>au_db := db\<rparr>)))))"

definition user_of_context :: "user_context \<Rightarrow> user_info" where
  "user_of_context u =
     \<lparr>ui_id = user_id u, ui_name = username u, ui_hash = [], ui_email = [], ui_roles = roles u, ui_groups = groups u,
      ui_level = access_level u, ui_namespace = namespace u, ui_active = True\<rparr>"

definition auth_refresh ::
  "auth_env \<Rightarrow> real \<Rightarrow> auth_draws \<Rightarrow> string \<Rightarrow> string \<Rightarrow> auth_state \<Rightarrow> (http_exn + token_pair) \<times> auth_state" where
  "auth_refresh E now d client_ip token st =
     (case check_login_rate_limit now (''refresh:'' @ client_ip) (au_attempts st) of
        (Inl e, att) \<Rightarrow> (Inl e, st\<lparr>au_attempts := att\<rparr>)
      | (Inr _, att) \<Rightarrow>
          (let st = st\<lparr>au_attempts := att\<rparr> in
           if \<not> ae_enabled E then (Inl (Http 400 ''Authentication is not enabled''), st)
           else
             (let (r, db) = verify_refresh_token E now token (au_db st); st = st\<lparr>au_db := db\<rparr> in
              case (case r of Some u \<Rightarrow> Inr u | None \<Rightarrow> map_sum id user_of_context (verify_token E now token)) of
                Inl e \<Rightarrow> (Inl e, st)
              | Inr u \<Rightarrow>
                  (case create_token_pair E now (dr_jti d) (dr_refresh d) (dr_id d) u db of
                     (Inl e, db) \<Rightarrow> (Inl (Raised e), st\<lparr>au_db := db\<rparr>)
                   | (Inr tp, db) \<Rightarrow> (Inr tp, st\<lparr>au_db := db\<rparr>)))))"

definition auth_logout :: "auth_env \<Rightarrow> real \<Rightarrow> user_context \<Rightarrow> string option \<Rightarrow> bool \<Rightarrow> user_db \<Rightarrow> user_db" where
  "auth_logout E now u refresh_token all_sessions db =
     (let db = (if truthy_str refresh_token then snd (consume_refresh_token (ae_crypto E) now (the refresh_token) db) else db)
      in if all_sessions \<and> is_authenticated u then snd (revoke_user_tokens (user_id u) db) else db)"

subsection \<open>Nobody enters without a credential\<close>

text \<open>
  C4. The middleware guards the interface: with authentication enabled, a request for a path below \<^verbatim>\<open>/v1/\<close> that is not one
  of the public ones gets through only with a token that verifies, and as the user of that token.
\<close>
theorem middleware_guards:
  assumes "fst (middleware_dispatch E now path headers km) = Inr (Pass u)"
    and "ae_enabled E" and "starts_with ''/v1/'' path" and "\<not> public_path path"
  shows "\<exists>t. bearer_token headers = Some t \<and> t \<noteq> [] \<and> fst (verify_credential E now t km) = Inr u"
proof -
  obtain t where t: "bearer_token headers = Some t" "t \<noteq> []"
    using assms by (cases "bearer_token headers") (auto simp: middleware_dispatch_def truthy_str_def split: if_splits)
  obtain r km' where r: "verify_credential E now t km = (r, km')" by (cases "verify_credential E now t km")
  from assms have "r = Inr u"
    unfolding middleware_dispatch_def by (auto simp: t r truthy_str_def split: sum.splits http_exn.splits)
  with t r show ?thesis by simp
qed

definition plain_auth :: auth_env where
  \<comment> \<open>stand-ins for PyJWT: one token that verifies, for an administrator, and every payload encoded as the same text\<close>
  "plain_auth =
     \<lparr>ae_enabled = True, ae_secret = ''k'', ae_algorithm = ''HS256'', ae_public_key = [], ae_access_minutes = 60,
      ae_refresh_days = 7, ae_encode = (\<lambda>c k a. Inr ''jwt''),
      ae_decode = (\<lambda>t k a x now. if t = ''jwt'' \<and> k = ''k''
         then Inr \<lparr>jc_sub = Some ''u1'', jc_username = Some ''anna'', jc_roles = Some [''admin''], jc_realm_roles = None,
                   jc_groups = Some [], jc_level = Some ''user'', jc_namespace = Some [], jc_iat = Some 0,
                   jc_exp = Some 3600, jc_jti = Some ''j''\<rparr>
         else Inl (Invalid_token ''bad'')),
      ae_crypto = plain_crypto\<rparr>"

lemma plain_token: "verify_token plain_auth now ''jwt'' = Inr \<lparr>user_id = ''u1'', username = ''anna'', roles = [''admin''], groups = [],
    access_level = ''user'', namespace = []\<rparr>"
  by (simp add: verify_token_def decode_with_def plain_auth_def get_verify_key_def context_of_def or_keep_def starts_with_def py_upper_def)

lemma plain_credential: "verify_credential plain_auth now ''jwt'' km = (verify_token plain_auth now ''jwt'', km)"
  by (simp add: verify_credential_def starts_with_def)

theorem middleware_guards_witness:
  "\<exists>t. bearer_token [(''authorization'', ''Bearer jwt'')] = Some t \<and>
     fst (verify_credential plain_auth 1 t init_manager) = verify_token plain_auth 1 ''jwt''"
proof -
  let ?h = "[(''authorization'', ''Bearer jwt'')]"
  have b: "bearer_token ?h = Some ''jwt''" by (simp add: bearer_token_def dict_getd_def starts_with_def)
  have p: "\<not> public_path ''/v1/chat/completions''" by (simp add: public_path_def PUBLIC_PATHS_def rstrip_slash_def)
  have v: "starts_with ''/v1/'' ''/v1/chat/completions''" by (simp add: starts_with_def)
  have e: "ae_enabled plain_auth" by (simp add: plain_auth_def)
  obtain u where u: "verify_token plain_auth 1 ''jwt'' = Inr u" using plain_token by blast
  have "fst (middleware_dispatch plain_auth 1 ''/v1/chat/completions'' ?h init_manager) = Inr (Pass u)"
    unfolding middleware_dispatch_def b by (simp add: p v e plain_credential u truthy_str_def)
  from middleware_guards [OF this e v p] u show ?thesis by auto
qed

text \<open>
  The identity is taken from a header: whoever holds any valid token becomes the user that a request header names, with
  the rights of the token.
\<close>
theorem header_names_the_user:
  assumes "ae_enabled E" and "request_token headers credentials = Some t" and "t \<noteq> []"
    and "verify_credential E now t km = (Inr u, km')"
    and "dict_get headers ''x-openwebui-user-id'' = Some v" and "v \<noteq> []"
  shows "get_auth_context E now headers credentials km = (Inr (u\<lparr>user_id := v, username := v\<rparr>), km')"
  using assms by (simp add: get_auth_context_def header_user_def truthy_str_def)

theorem header_names_the_user_witness:
  "\<exists>u. fst (get_auth_context plain_auth 1 [(''x-openwebui-user-id'', ''boss'')] (Some ''jwt'') init_manager) = Inr u \<and> user_id u = ''boss''"
proof -
  let ?h = "[(''x-openwebui-user-id'', ''boss'')]"
  obtain u where u: "verify_credential plain_auth 1 ''jwt'' init_manager = (Inr u, init_manager)"
    using plain_credential plain_token by simp
  have "get_auth_context plain_auth 1 ?h (Some ''jwt'') init_manager =
      (Inr (u\<lparr>user_id := ''boss'', username := ''boss''\<rparr>), init_manager)"
    by (rule header_names_the_user [OF _ _ _ u]) (simp_all add: plain_auth_def request_token_def)
  then show ?thesis by simp
qed

subsection \<open>Tokens that are issued\<close>

text \<open>
  An issued access token works: until it expires it verifies as the account it was issued for, with the roles and the
  groups that the account had then. It relies on PyJWT returning what it encoded under the same key and algorithm.
\<close>
theorem issued_token_verifies:
  assumes "fst (create_token_pair E now jti raw tid u db) = Inr tp"
    and "get_verify_key E = Some (ae_secret E)" and "ae_algorithm E \<noteq> []"
    and "\<And>c tok. ae_encode E c (ae_secret E) (ae_algorithm E) = Inr tok \<Longrightarrow> jc_exp c = Some x \<Longrightarrow> t < of_int x \<Longrightarrow>
      ae_decode E tok (ae_secret E) [ae_algorithm E] True t = Inr c"
    and "x = py_trunc now + ae_access_minutes E * 60" and "t < of_int x"
  shows "\<exists>ctx. verify_token E t (tp_access tp) = Inr ctx \<and> user_id ctx = ui_id u \<and> roles ctx = ui_roles u \<and> groups ctx = ui_groups u"
proof -
  let ?c = "access_claims E now jti u"
  obtain tok where tok: "ae_encode E ?c (ae_secret E) (ae_algorithm E) = Inr tok" "tp_access tp = tok"
    using assms(1) by (auto simp: create_token_pair_def split: if_splits sum.splits prod.splits)
  have "jc_exp ?c = Some x" by (simp add: access_claims_def Let_def assms(5))
  from assms(4) [OF tok(1) this assms(6)] have "verify_token E t (tp_access tp) = Inr (context_of ?c)"
    by (simp add: verify_token_def decode_with_def assms(2,3) tok(2))
  then show ?thesis by (simp add: context_of_def access_claims_def Let_def or_keep_def)
qed

definition claim_auth :: auth_env where
  \<comment> \<open>a codec that satisfies the law: it carries the subject of a payload of user \<open>u1\<close>, with fixed other claims\<close>
  "claim_auth = plain_auth\<lparr>ae_encode := (\<lambda>c k a. if c = access_claims plain_auth 0 ''j'' (user_of_context anonymous) then Inr ''jwt''
       else Inl (ValueError ''other'')),
     ae_decode := (\<lambda>t k a x now. if t = ''jwt'' then Inr (access_claims plain_auth 0 ''j'' (user_of_context anonymous))
       else Inl (Invalid_token ''bad''))\<rparr>"

theorem issued_token_verifies_witness:
  "\<exists>tp ctx. fst (create_token_pair claim_auth 0 ''j'' ''raw'' ''t9'' (user_of_context anonymous)
      (one_session\<lparr>db_users := map (\<lambda>r. r\<lparr>ur_id := ''anonymous''\<rparr>) (db_users one_session)\<rparr>)) = Inr tp \<and>
     verify_token claim_auth 10 (tp_access tp) = Inr ctx \<and> user_id ctx = ''anonymous''"
proof -
  let ?db = "one_session\<lparr>db_users := map (\<lambda>r. r\<lparr>ur_id := ''anonymous''\<rparr>) (db_users one_session)\<rparr>"
  let ?u = "user_of_context anonymous"
  have a: "access_claims claim_auth 0 ''j'' ?u = access_claims plain_auth 0 ''j'' ?u" by (simp add: access_claims_def claim_auth_def)
  have uid: "ui_id ?u = ''anonymous''" by (simp add: user_of_context_def anonymous_def)
  obtain tp where tp: "fst (create_token_pair claim_auth 0 ''j'' ''raw'' ''t9'' ?u ?db) = Inr tp"
    unfolding create_token_pair_def a uid
    by (simp add: claim_auth_def plain_auth_def store_refresh_token_def one_session_def access_claims_def Let_def)
  have k: "get_verify_key claim_auth = Some (ae_secret claim_auth)"
    by (simp add: get_verify_key_def claim_auth_def plain_auth_def starts_with_def py_upper_def)
  have x: "py_trunc 0 + ae_access_minutes claim_auth * 60 = 3600" by (simp add: claim_auth_def plain_auth_def py_trunc_def)
  have "\<exists>ctx. verify_token claim_auth 10 (tp_access tp) = Inr ctx \<and> user_id ctx = ui_id ?u \<and> roles ctx = ui_roles ?u \<and> groups ctx = ui_groups ?u"
    by (rule issued_token_verifies [OF tp k _ _ x [symmetric]]) (auto simp: claim_auth_def plain_auth_def split: if_splits)
  with tp uid show ?thesis by metis
qed

subsection \<open>Sessions that do not end\<close>

lemma delete_user_still_there:
  "list_ex (\<lambda>r. ur_id r = uid) (db_users db) \<Longrightarrow> list_ex (\<lambda>r. ur_id r = uid) (db_users (snd (delete_user t uid' db)))"
proof -
  have e: "list_ex (\<lambda>r. ur_id r = uid) rs \<longleftrightarrow> uid \<in> ur_id ` set rs" for rs by (auto simp: list_ex_iff)
  have "ur_id ` set (db_users (snd (delete_user t uid' db))) = ur_id ` set (db_users db)"
    using update_rows_image [where g = ur_id and f = "\<lambda>r. r\<lparr>ur_active := False, ur_updated := t\<rparr>" and P = "\<lambda>r. ur_id r = uid'"]
    by (simp add: delete_user_def split_beta)
  then show "list_ex (\<lambda>r. ur_id r = uid) (db_users db) \<Longrightarrow> ?thesis" unfolding e by blast
qed

lemma logout_users: "db_users (auth_logout E now u rt all db) = db_users db"
  by (simp add: auth_logout_def consume_refresh_token_alt mark_refresh_token_def revoke_user_tokens_def split_beta Let_def split: option.splits)

lemma find_revoked_tokens:
  assumes "find (live_token C t raw) ts = None"
  shows "find (live_token C t raw) (snd (update_rows P (\<lambda>x. x\<lparr>tr_revoked := True\<rparr>) ts)) = None"
  using assms by (auto simp: find_None_iff update_rows_def live_token_def)

lemma logout_not_live:
  assumes "find (live_token (ae_crypto E) t raw) (db_tokens db) = None"
  shows "find (live_token (ae_crypto E) t raw) (db_tokens (auth_logout E now u rt all db)) = None"
  using assms find_revoked_tokens
  by (simp add: auth_logout_def consume_refresh_token_alt mark_refresh_token_def revoke_user_tokens_def split_beta Let_def split: option.splits)

text \<open>
  C9. Neither logging out nor deletion ends a session: with an access token that has not expired, the endpoint that renews
  tokens issues a new pair, with the roles of the old token, although its user has logged out of all sessions and the
  account has been deleted since.
\<close>
theorem deleted_account_renews:
  assumes "ae_enabled E" and "ae_secret E \<noteq> []"
    and "verify_token E now token = Inr u"
    and "ae_encode E (access_claims E now (dr_jti d) (user_of_context u)) (ae_secret E) (ae_algorithm E) = Inr access"
    and "list_ex (\<lambda>r. ur_id r = user_id u) (db_users db)"
    and "find (live_token (ae_crypto E) now token) (db_tokens db) = None"
    and "au_db st = snd (delete_user t2 (user_id u) (auth_logout E t1 u rt True db))"
    and "\<not> list_ex (\<lambda>t. tr_id t = dr_id d) (db_tokens (au_db st))"
    and "dict_get (au_attempts st) (''refresh:'' @ ip) = None"
  shows "fst (auth_refresh E now d ip token st) =
    Inr \<lparr>tp_access = access, tp_refresh = dr_refresh d, tp_expires_in = ae_access_minutes E * 60\<rparr>"
proof -
  have "db_tokens (snd (delete_user t2 (user_id u) x)) = db_tokens x" for x by (simp add: delete_user_def split_beta)
  then have "find (live_token (ae_crypto E) now token) (db_tokens (au_db st)) = None"
    unfolding assms(7) using logout_not_live [OF assms(6)] by simp
  then have c: "verify_refresh_token E now token (au_db st) = (None, au_db st)"
    by (simp add: verify_refresh_token_def consume_refresh_token_alt)
  have there: "list_ex (\<lambda>r. ur_id r = user_id u) (db_users (au_db st))"
    unfolding assms(7) by (rule delete_user_still_there) (simp add: logout_users assms(5))
  have i: "ui_id (user_of_context u) = user_id u" by (simp add: user_of_context_def)
  show ?thesis
    using assms(1-4) there assms(8,9)
    by (simp add: auth_refresh_def check_login_rate_limit_def c create_token_pair_def store_refresh_token_def i Let_def)
qed

definition sample_draws :: auth_draws where
  "sample_draws = \<lparr>dr_clock = ''1'', dr_salt = ''s'', dr_password = ''p'', dr_jti = ''j2'', dr_refresh = ''r2'', dr_id = ''t2''\<rparr>"

theorem deleted_account_renews_witness:
  "\<exists>u. fst (auth_refresh plain_auth 10 sample_draws ''10.0.0.1'' ''jwt''
     \<lparr>au_db = snd (delete_user 6 ''u1'' (auth_logout plain_auth 5 u None True one_session)), au_attempts = []\<rparr>) =
     Inr \<lparr>tp_access = ''jwt'', tp_refresh = ''r2'', tp_expires_in = 3600\<rparr>"
proof -
  obtain u where u: "verify_token plain_auth 10 ''jwt'' = Inr u" "user_id u = ''u1''" using plain_token by simp
  let ?st = "\<lparr>au_db = snd (delete_user 6 (user_id u) (auth_logout plain_auth 5 u None True one_session)), au_attempts = []\<rparr>"
  have "fst (auth_refresh plain_auth 10 sample_draws ''10.0.0.1'' ''jwt'' ?st) =
      Inr \<lparr>tp_access = ''jwt'', tp_refresh = dr_refresh sample_draws, tp_expires_in = ae_access_minutes plain_auth * 60\<rparr>"
    by (rule deleted_account_renews [OF _ _ u(1), where db = one_session and ?t1.0 = 5 and ?t2.0 = 6 and rt = None])
      (simp_all add: u(2) plain_auth_def one_session_def sample_draws_def live_token_def plain_crypto_def auth_logout_def
        revoke_user_tokens_def update_rows_def delete_user_def truthy_str_def is_authenticated_def)
  then show ?thesis unfolding u(2) by (intro exI [of _ u]) (simp add: sample_draws_def plain_auth_def)
qed

subsection \<open>The limit on attempts\<close>

fun run_checks :: "(real \<times> string) list \<Rightarrow> attempts \<Rightarrow> bool list \<times> attempts" where
  \<comment> \<open>a series of attempts, each with its time and identifier: which are let through, and the table afterwards\<close>
  "run_checks [] a = ([], a)"
| "run_checks ((t, i) # es) a =
     (let (r, a) = check_login_rate_limit t i a; (rs, a) = run_checks es a
      in ((case r of Inr _ \<Rightarrow> True | Inl _ \<Rightarrow> False) # rs, a))"

definition let_through :: "string \<Rightarrow> (real \<times> string) list \<Rightarrow> attempts \<Rightarrow> nat" where
  \<comment> \<open>how many of the attempts under \<open>i\<close> are let through\<close>
  "let_through i es a = length (filter (\<lambda>((t, j), ok). j = i \<and> ok) (zip es (fst (run_checks es a))))"

definition attempts_ok :: "attempts \<Rightarrow> bool" where
  "attempts_ok a \<longleftrightarrow> (\<forall>i n f. dict_get a i = Some (n, f) \<longrightarrow> 1 \<le> n \<and> n \<le> LOGIN_MAX_ATTEMPTS)"

lemma let_through_Nil: "let_through i [] a = 0"
  by (simp add: let_through_def)

lemma let_through_Cons:
  "let_through i ((t, j) # es) a =
     (if j = i \<and> fst (check_login_rate_limit t j a) = Inr () then 1 else 0) +
     let_through i es (snd (check_login_rate_limit t j a))"
  by (auto simp: let_through_def split_beta Let_def split: sum.split)

lemma other_attempts: "j \<noteq> i \<Longrightarrow> dict_get (snd (check_login_rate_limit t j a)) i = dict_get a i"
  by (simp add: check_login_rate_limit_def dict_get_set split: option.split)

lemma first_attempt: "dict_get a i = None \<Longrightarrow> check_login_rate_limit t i a = (Inr (), dict_set i (1, t) a)"
  by (simp add: check_login_rate_limit_def)

lemma late_attempt:
  "dict_get a i = Some (n, f) \<Longrightarrow> f + 300 < t \<Longrightarrow> check_login_rate_limit t i a = (Inr (), dict_set i (1, t) a)"
  by (simp add: check_login_rate_limit_def LOGIN_WINDOW_SECONDS_def)

lemma next_attempt:
  "dict_get a i = Some (n, f) \<Longrightarrow> t \<le> f + 300 \<Longrightarrow> n < 5 \<Longrightarrow> check_login_rate_limit t i a = (Inr (), dict_set i (n + 1, f) a)"
  by (simp add: check_login_rate_limit_def LOGIN_WINDOW_SECONDS_def LOGIN_MAX_ATTEMPTS_def)

lemma sixth_attempt:
  assumes "dict_get a i = Some (n, f)" and "t \<le> f + 300" and "5 \<le> n"
  shows "fst (check_login_rate_limit t i a) \<noteq> Inr () \<and> snd (check_login_rate_limit t i a) = a"
  using assms by (simp add: check_login_rate_limit_def LOGIN_WINDOW_SECONDS_def LOGIN_MAX_ATTEMPTS_def LOGIN_COOLDOWN_SECONDS_def)

lemma attempts_ok_get: "attempts_ok a \<Longrightarrow> dict_get a i = Some (n, f) \<Longrightarrow> 1 \<le> n \<and> n \<le> 5"
  unfolding attempts_ok_def LOGIN_MAX_ATTEMPTS_def by blast

lemma attempts_ok_step: "attempts_ok a \<Longrightarrow> attempts_ok (snd (check_login_rate_limit t i a))"
  by (auto simp: attempts_ok_def check_login_rate_limit_def dict_get_set LOGIN_MAX_ATTEMPTS_def split: option.splits if_splits)

lemma attempts_ok_run: "attempts_ok a \<Longrightarrow> attempts_ok (snd (run_checks es a))"
  by (induction es a rule: run_checks.induct) (simp_all add: split_beta Let_def attempts_ok_step prod_eq_iff)

text \<open>While the window of an entry lasts, what is left of its five is the bound.\<close>

lemma let_through_window:
  assumes "dict_get a i = Some (n, f)" and "n \<le> 5" and "list_all (\<lambda>e. fst e \<le> f + 300) es"
  shows "let_through i es a \<le> 5 - n"
  using assms
proof (induction es arbitrary: a n)
  case (Cons e es)
  obtain t j where e: "e = (t, j)" by (cases e)
  have t: "t \<le> f + 300" and es: "list_all (\<lambda>e. fst e \<le> f + 300) es" using Cons.prems(3) by (simp_all add: e)
  consider "j \<noteq> i" | "j = i" "n < 5" | "j = i" "n = 5" using Cons.prems(2) by linarith
  then show ?case
  proof cases
    case 1
    with Cons.IH [OF _ Cons.prems(2) es] Cons.prems(1) show ?thesis by (simp add: e let_through_Cons other_attempts)
  next
    case 2
    have "let_through i es (dict_set i (n + 1, f) a) \<le> 5 - (n + 1)"
      by (rule Cons.IH [OF _ _ es]) (use 2 in \<open>simp_all add: dict_get_set\<close>)
    with 2 next_attempt [OF Cons.prems(1) t] show ?thesis by (simp add: e let_through_Cons)
  next
    case 3
    with sixth_attempt [OF Cons.prems(1) t] Cons.IH [OF Cons.prems(1,2) es] show ?thesis by (simp add: e let_through_Cons)
  qed
qed (simp add: let_through_Nil)

lemma let_through_any:
  assumes "attempts_ok a" and "list_all (\<lambda>e. t0 \<le> fst e \<and> fst e \<le> t0 + 300) es"
  shows "let_through i es a \<le> (case dict_get a i of None \<Rightarrow> 5 | Some (n, f) \<Rightarrow> 10 - n)"
  using assms
proof (induction es arbitrary: a)
  case (Cons e es)
  obtain t j where e: "e = (t, j)" by (cases e)
  have t: "t0 \<le> t" and es: "list_all (\<lambda>e. t0 \<le> fst e \<and> fst e \<le> t0 + 300) es" using Cons.prems(2) by (simp_all add: e)
  have fresh: "let_through i es (dict_set i (1, t) a) \<le> 5 - 1"
    by (rule let_through_window) (use es t in \<open>auto simp: dict_get_set list_all_iff\<close>)
  note IH = Cons.IH [OF attempts_ok_step [OF Cons.prems(1)] es]
  consider (other) "j \<noteq> i" | (none) "j = i" "dict_get a i = None"
    | (some) n f where "j = i" "dict_get a i = Some (n, f)" "1 \<le> n" "n \<le> 5"
    using attempts_ok_get [OF Cons.prems(1)] by (metis option.exhaust surj_pair)
  then show ?case
  proof cases
    case other
    then show ?thesis using IH [of t j] by (simp add: e let_through_Cons other_attempts)
  next
    case none
    then show ?thesis using fresh by (simp add: e let_through_Cons first_attempt)
  next
    case some
    show ?thesis
    proof (cases "f + 300 < t")
      case True
      then show ?thesis using fresh some by (simp add: e let_through_Cons late_attempt [OF some(2)])
    next
      case False
      then have w: "t \<le> f + 300" by simp
      show ?thesis
      proof (cases "n < 5")
        case True
        then show ?thesis using IH [of t i] some by (simp add: e let_through_Cons next_attempt [OF some(2) w] dict_get_set)
      next
        case False
        then show ?thesis using IH [of t i] some sixth_attempt [OF some(2) w] by (simp add: e let_through_Cons)
      qed
    qed
  qed
qed (simp add: let_through_Nil)

text \<open>
  C24. Guessing is slowed down, though by less than the announced five attempts in five minutes: after any attempts before,
  and whatever is tried under other identifiers, at most nine attempts under one identifier are let through in any 300
  seconds. Nine is reached, when the fixed window of the source ends within those seconds.
\<close>
theorem login_attempts_bounded:
  assumes "list_all (\<lambda>e. t \<le> fst e \<and> fst e \<le> t + 300) es"
  shows "let_through i es (snd (run_checks past [])) \<le> 9"
proof -
  have ok: "attempts_ok (snd (run_checks past []))" by (rule attempts_ok_run) (simp add: attempts_ok_def)
  from let_through_any [OF this assms, of i] ok show ?thesis
    by (cases "dict_get (snd (run_checks past [])) i") (fastforce dest: attempts_ok_get)+
qed

lemma nine_let_through:
  "let_through ''login:ip:anna'' (replicate 4 (299, ''login:ip:anna'') @ replicate 9 (301, ''login:ip:anna''))
     (snd (run_checks [(0, ''login:ip:anna'')] [])) = 9"
proof -
  have "let_through i (replicate 4 (299, i) @ replicate 9 (301, i)) (snd (run_checks [(0, i)] [])) = 9" for i
    by (simp add: let_through_def check_login_rate_limit_def LOGIN_WINDOW_SECONDS_def LOGIN_MAX_ATTEMPTS_def
        LOGIN_COOLDOWN_SECONDS_def dict_get_set numeral_eq_Suc)
  then show ?thesis .
qed

theorem login_attempts_bounded_witness:
  "let_through ''login:ip:anna'' (replicate 4 (299, ''login:ip:anna'') @ replicate 9 (301, ''login:ip:anna''))
     (snd (run_checks [(0, ''login:ip:anna'')] [])) \<le> 9"
  by (rule login_attempts_bounded [where t = 299]) (simp add: list_all_iff)

text \<open>The cooldown of 900 seconds that the refusal announces never applies: the count starts afresh after the window.\<close>

lemma cooldown_cut_short:
  "dict_get a i = Some (n, f) \<Longrightarrow> 300 < now - f \<Longrightarrow> fst (check_login_rate_limit now i a) = Inr ()"
  by (simp add: check_login_rate_limit_def LOGIN_WINDOW_SECONDS_def)

lemma refused_within_window:
  assumes "fst (check_login_rate_limit now i a) = Inl e"
  shows "\<exists>n f. dict_get a i = Some (n, f) \<and> now - f \<le> 300 \<and> 600 \<le> LOGIN_COOLDOWN_SECONDS - (now - f)"
  using assms by (auto simp: check_login_rate_limit_def LOGIN_WINDOW_SECONDS_def LOGIN_COOLDOWN_SECONDS_def
      split: option.splits if_splits)

subsection \<open>The directory and deleted accounts\<close>

lemma deleted_directory_user:
  assumes "insert_user x db = None" and "x = \<lparr>ur_id = take 24 (sha256 C (name @ '':'' @ dr_clock d)), ur_name = name, ur_hash = h,
      ur_email = name @ ''@ldap'', ur_roles = Dumped [''user''], ur_groups = Dumped [], ur_level = ''internal'', ur_namespace = [],
      ur_active = True, ur_created = now, ur_updated = now\<rparr>"
    and "hashpw C (dr_password d) (dr_salt d) = Inr h"
    and "get_user_by_username C name db = None"
  shows "sync_ldap_user C now d name db = (Inr Without_id, db)"
  using assms(1) by (simp add: sync_ldap_user_def create_user_def assms(3,4) Let_def assms(2))

lemma without_id_fails:
  assumes "check_login_rate_limit now (''login:'' @ ip @ '':'' @ name) (au_attempts st) = (Inr (), att)"
    and "local_or_ldap E L now d name password (au_db st) = (Inr Without_id, db)"
  shows "fst (auth_login E L now d ip name password st) = Inl (Raised (KeyError ''id''))"
proof -
  have "au_db (st\<lparr>au_attempts := att\<rparr>) = au_db st" by simp
  then show ?thesis unfolding auth_login_def by (simp only: assms prod.case sum.case Let_def ldap_user.case fst_conv)
qed

subsection \<open>Roles\<close>

lemma get_user_role_least:
  assumes "role_value r \<in> set (map py_lower (roles u))"
  shows "ROLE_RANK r \<le> ROLE_RANK (get_user_role u)"
  using assms by (cases r) (auto simp: get_user_role_def)

text \<open>More roles never take a permission away.\<close>

lemma permissions_monotone:
  assumes "set (roles u) \<subseteq> set (roles u')" and "has_permission b u action"
  shows "has_permission b u' action"
proof -
  have "ROLE_RANK (get_user_role u) \<le> ROLE_RANK (get_user_role u')"
  proof (cases "role_value (get_user_role u) \<in> set (map py_lower (roles u))")
    case True
    with assms(1) have "role_value (get_user_role u) \<in> set (map py_lower (roles u'))" by auto
    then show ?thesis by (rule get_user_role_least)
  next
    case False
    then have "get_user_role u = READ_ONLY"
      by (auto simp: get_user_role_def split: option.splits if_splits)
    then show ?thesis by (cases "get_user_role u'") auto
  qed
  with assms(2) show ?thesis by (auto simp: has_permission_def split: option.splits if_splits)
qed

end
