(* ===== verification/Adapters.thy ===== *)
theory Adapters
  imports Prelude "HOL-Library.List_Lexorder"
begin

text \<open>
  Hot reload of model adapters, \<^verbatim>\<open>proxy/app/model_evolution/adapter_manager.py\<close>: the life cycle of an adapter, loading and
  unloading by callbacks outside the lock, the swap of a running adapter, the count of requests in flight and the
  watcher of a directory. The callbacks, the file system and the clock are parameters; what other threads do while
  the lock is released is an arbitrary change of the table of adapters.
\<close>

subsection \<open>The life cycle\<close>

datatype adapter_state = UNLOADED | LOADING | ACTIVE | DRAINING | RETIRING | ERROR

fun state_value :: "adapter_state \<Rightarrow> string" where
  "state_value UNLOADED = ''unloaded''"
| "state_value LOADING = ''loading''"
| "state_value ACTIVE = ''active''"
| "state_value DRAINING = ''draining''"
| "state_value RETIRING = ''retiring''"
| "state_value ERROR = ''error''"

fun VALID_TRANSITIONS :: "adapter_state \<Rightarrow> adapter_state set" where
  "VALID_TRANSITIONS UNLOADED = {LOADING, ERROR}"
| "VALID_TRANSITIONS LOADING = {ACTIVE, ERROR}"
| "VALID_TRANSITIONS ACTIVE = {DRAINING, ERROR}"
| "VALID_TRANSITIONS DRAINING = {RETIRING, ACTIVE, LOADING, ERROR}"
| "VALID_TRANSITIONS RETIRING = {UNLOADED, ERROR}"
| "VALID_TRANSITIONS ERROR = {UNLOADED, LOADING, ACTIVE}"

record adapter =
  ad_name :: string
  ad_state :: adapter_state
  ad_version :: string
  ad_path :: "string option"
  ad_type :: string
  ad_base_model :: string
  ad_loaded_at :: "real option"
  ad_requests :: int
  ad_errors :: int

definition new_adapter :: "string \<Rightarrow> adapter" where
  "new_adapter name = \<lparr>ad_name = name, ad_state = UNLOADED, ad_version = ''base'', ad_path = None, ad_type = ''lora'',
     ad_base_model = [], ad_loaded_at = None, ad_requests = 0, ad_errors = 0\<rparr>"

definition transition_to :: "adapter_state \<Rightarrow> adapter \<Rightarrow> bool \<times> adapter" where
  "transition_to target a =
     (if target \<in> VALID_TRANSITIONS (ad_state a) then (True, a\<lparr>ad_state := target\<rparr>) else (False, a))"

definition moved :: "adapter_state \<Rightarrow> adapter \<Rightarrow> adapter" where
  \<comment> \<open>the transition of a caller that does not look at the result\<close>
  "moved target a = snd (transition_to target a)"

definition AdapterError :: "string \<Rightarrow> exn" where
  "AdapterError = PyException ''AdapterError''"

subsection \<open>The manager\<close>

type_synonym adapters = "(string, adapter) dict"

record callbacks =
  cb_load :: "string \<Rightarrow> (string \<Rightarrow> exn + bool) option"
    \<comment> \<open>the callback of an adapter, as a function of the path\<close>
  cb_unload :: "string \<Rightarrow> (exn + bool) option"
  cb_others :: "nat \<Rightarrow> adapters \<Rightarrow> adapters"
    \<comment> \<open>what other threads do at the \<open>n\<close>-th release of the lock\<close>

definition holding :: "callbacks \<Rightarrow> callbacks" where
  \<comment> \<open>a call made while the caller holds the lock, which is reentrant: no other thread gets in\<close>
  "holding C = C\<lparr>cb_others := (\<lambda>k m. m)\<rparr>"

definition register_adapter :: "adapter \<Rightarrow> adapters \<Rightarrow> (exn + unit) \<times> adapters" where
  "register_adapter a m =
     (if dict_has m (ad_name a) then (Inl (AdapterError (''Adapter '' @ ad_name a @ '' already registered'')), m)
      else (Inr (), dict_set (ad_name a) a m))"

definition get_adapter :: "string \<Rightarrow> adapters \<Rightarrow> exn + adapter" where
  "get_adapter name m = (case dict_get m name of None \<Rightarrow> Inl (KeyError (''Adapter '' @ name @ '' not registered'')) | Some a \<Rightarrow> Inr a)"

definition list_adapters :: "adapters \<Rightarrow> adapter list" where
  "list_adapters m = dict_values m"

definition change :: "string \<Rightarrow> (adapter \<Rightarrow> adapter) \<Rightarrow> adapters \<Rightarrow> adapters" where
  \<comment> \<open>assignments to the object that the table holds under a name; nothing ever removes it\<close>
  "change name f m = (case dict_get m name of None \<Rightarrow> m | Some a \<Rightarrow> dict_set name (f a) m)"

definition loaded :: "string \<Rightarrow> string \<Rightarrow> real \<Rightarrow> adapter \<Rightarrow> adapter" where
  "loaded path version now a =
     moved ACTIVE (a\<lparr>ad_version := version, ad_path := Some path, ad_loaded_at := Some now, ad_errors := 0\<rparr>)"

definition failed :: "adapter \<Rightarrow> adapter" where
  "failed a = (moved ERROR a)\<lparr>ad_errors := ad_errors (moved ERROR a) + 1\<rparr>"

definition load_adapter ::
  "callbacks \<Rightarrow> real \<Rightarrow> nat \<Rightarrow> string \<Rightarrow> string \<Rightarrow> string \<Rightarrow> adapters \<Rightarrow> (exn + unit) \<times> adapters" where
  "load_adapter C now k name path version m =
     (case dict_get m name of
        None \<Rightarrow> (Inl (AdapterError (''Cannot load adapter '' @ name @ '': not registered'')), m)
      | Some a \<Rightarrow>
          (if ad_state a = ACTIVE then (Inr (), m)
           else if \<not> fst (transition_to LOADING a)
           then (Inl (AdapterError (''Cannot load adapter '' @ name @ '': invalid transition from '' @ state_value (ad_state a))), m)
           else
             (let m = cb_others C k (change name (moved LOADING) m);
                  r = (case cb_load C name of None \<Rightarrow> Inr True | Some f \<Rightarrow> f path)
              in case r of
                   Inr True \<Rightarrow> (Inr (), change name (loaded path version now) m)
                 | Inr False \<Rightarrow> (Inl (AdapterError (''Failed to load adapter '' @ name)), change name failed m)
                 | Inl e \<Rightarrow>
                     (if is_exception e then (Inl (AdapterError (''Failed to load adapter '' @ name)), change name failed m)
                      else (Inl e, m)))))"

definition unloaded :: "adapter \<Rightarrow> adapter" where
  "unloaded a = (moved UNLOADED (moved RETIRING a))\<lparr>ad_path := None, ad_loaded_at := None\<rparr>"

definition unload_adapter :: "callbacks \<Rightarrow> nat \<Rightarrow> string \<Rightarrow> adapters \<Rightarrow> (exn + unit) \<times> adapters" where
  "unload_adapter C k name m =
     (case dict_get m name of
        None \<Rightarrow> (Inl (AdapterError (''Cannot unload adapter '' @ name @ '': not registered'')), m)
      | Some a \<Rightarrow>
          (if ad_state a = UNLOADED then (Inr (), m)
           else if ad_state a = ERROR
           then (Inr (), change name (\<lambda>a. (moved UNLOADED a)\<lparr>ad_path := None, ad_loaded_at := None\<rparr>) m)
           else
             (let m = cb_others C k (if ad_state a = ACTIVE then change name (moved DRAINING) m else m) in
              case (case cb_unload C name of None \<Rightarrow> Inr True | Some r \<Rightarrow> r) of
                Inr ok \<Rightarrow> (Inr (), change name unloaded m)
              | Inl e \<Rightarrow>
                  (if is_exception e then (Inl (AdapterError (''Failed to unload adapter '' @ name)), change name (moved ERROR) m)
                   else (Inl e, m)))))"

subsection \<open>Swapping a running adapter\<close>

fun drain_loop :: "callbacks \<Rightarrow> nat \<Rightarrow> nat \<Rightarrow> string \<Rightarrow> adapters \<Rightarrow> adapters" where
  \<comment> \<open>at most as many rounds as the first number; the lock is released after each\<close>
  "drain_loop C 0 k name m =
     change name (\<lambda>a. if ad_state a = DRAINING then moved UNLOADED (moved RETIRING a) else a) m"
| "drain_loop C (Suc n) k name m =
     (case dict_get m name of
        None \<Rightarrow> m
      | Some a \<Rightarrow>
          (if ad_requests a = 0 then change name (\<lambda>a. moved UNLOADED (moved RETIRING a)) m
           else drain_loop C n (k + 1) name (cb_others C k m)))"

definition drain_and_retire :: "callbacks \<Rightarrow> nat \<Rightarrow> string \<Rightarrow> adapters \<Rightarrow> adapters" where
  "drain_and_retire C k name m = drain_loop C 60 k name m"

definition hot_reload ::
  "callbacks \<Rightarrow> real \<Rightarrow> nat \<Rightarrow> string \<Rightarrow> string \<Rightarrow> string \<Rightarrow> adapters \<Rightarrow> (exn + unit) \<times> adapters" where
  "hot_reload C now k name path version m =
     (case dict_get m name of
        None \<Rightarrow> (Inl (AdapterError (''Cannot hot-reload adapter '' @ name @ '': not registered'')), m)
      | Some a \<Rightarrow>
          (if ad_state a = UNLOADED then load_adapter (holding C) now k name path version m
           else
             (let m = cb_others C k (change name (moved DRAINING) m) in
              case load_adapter C now (k + 1) name path version m of
                (Inl e, m) \<Rightarrow>
                  (Inl e, if is_exception e then change name (moved ACTIVE) m else m)
              | (Inr u, m) \<Rightarrow> (Inr (), if ad_path a \<noteq> None then drain_and_retire C (k + 2) name m else m))))"

subsection \<open>Requests and life cycle of the manager\<close>

definition begin_request :: "string \<Rightarrow> adapters \<Rightarrow> adapters" where
  "begin_request name m = change name (\<lambda>a. a\<lparr>ad_requests := ad_requests a + 1\<rparr>) m"

definition end_request :: "string \<Rightarrow> adapters \<Rightarrow> adapters" where
  "end_request name m = change name (\<lambda>a. if ad_requests a > 0 then a\<lparr>ad_requests := ad_requests a - 1\<rparr> else a) m"

definition record_error :: "string \<Rightarrow> adapters \<Rightarrow> adapters" where
  "record_error name m = change name (\<lambda>a. a\<lparr>ad_errors := ad_errors a + 1\<rparr>) m"

definition after_call :: "(exn + unit) \<times> adapters \<Rightarrow> (adapters \<Rightarrow> exn + adapters) \<Rightarrow> exn + adapters" where
  \<comment> \<open>a call whose \<^verbatim>\<open>AdapterError\<close> is caught and logged\<close>
  "after_call r f = (case r of (Inl e, m) \<Rightarrow> if is_exception e then f m else Inl e | (Inr u, m) \<Rightarrow> f m)"

definition on_new_version :: "callbacks \<Rightarrow> real \<Rightarrow> nat \<Rightarrow> string \<Rightarrow> string \<Rightarrow> string \<Rightarrow> adapters \<Rightarrow> exn + adapters" where
  \<comment> \<open>the callback of a watcher\<close>
  "on_new_version C now k name path version m = after_call (hot_reload C now k name path version m) Inr"

definition path_join :: "string \<Rightarrow> string \<Rightarrow> string" where
  \<comment> \<open>\<^verbatim>\<open>os.path.join\<close>\<close>
  "path_join a b = (if starts_with ''/'' b then b else if a = [] \<or> last a = CHR ''/'' then a @ b else a @ ''/'' @ b)"

fun reload_each :: "callbacks \<Rightarrow> real \<Rightarrow> (string \<Rightarrow> bool) \<Rightarrow> string option \<Rightarrow> string list \<Rightarrow> adapters \<Rightarrow> exn + adapters" where
  "reload_each C now isdir base [] m = Inr m"
| "reload_each C now isdir base (name # names) m =
     (case dict_get m name of
        None \<Rightarrow> reload_each C now isdir base names m
      | Some a \<Rightarrow>
          (if ad_state a = ACTIVE \<and> truthy_str base \<and> isdir (path_join (the base) name)
           then after_call (hot_reload (holding C) now 0 name (path_join (the base) name) (ad_version a) m)
                  (reload_each C now isdir base names)
           else reload_each C now isdir base names m))"

definition reload_all :: "callbacks \<Rightarrow> real \<Rightarrow> (string \<Rightarrow> bool) \<Rightarrow> string option \<Rightarrow> adapters \<Rightarrow> exn + adapters" where
  \<comment> \<open>under the lock from beginning to end\<close>
  "reload_all C now isdir base m = reload_each C now isdir base (dict_keys m) m"

fun unload_each :: "callbacks \<Rightarrow> string list \<Rightarrow> adapters \<Rightarrow> exn + adapters" where
  "unload_each C [] m = Inr m"
| "unload_each C (name # names) m =
     (case dict_get m name of
        None \<Rightarrow> unload_each C names m
      | Some a \<Rightarrow>
          (if ad_state a \<in> {ACTIVE, DRAINING} then after_call (unload_adapter (holding C) 0 name m) (unload_each C names)
           else unload_each C names m))"

definition shutdown :: "callbacks \<Rightarrow> adapters \<Rightarrow> exn + adapters" where
  "shutdown C m = unload_each C (dict_keys m) m"

subsection \<open>The watcher\<close>

record dir_entry =
  de_name :: string
  de_is_dir :: bool
  de_is_file :: bool
  de_mtime :: real

record watcher =
  wt_path :: string
  wt_adapter :: string
  wt_versions :: "(string, real) dict"
  wt_files :: "(string, real) dict"
  wt_patterns :: "string list"

definition DEFAULT_FILE_PATTERNS :: "string list" where
  "DEFAULT_FILE_PATTERNS =
     [''adapter_config.json'', ''adapter_model.*'', ''*.safetensors'', ''*.bin'', ''*.pt'', ''*.ckpt'', ''lora_weights.*'',
      ''pytorch_model.*'']"

definition new_watcher :: "string \<Rightarrow> string \<Rightarrow> watcher" where
  "new_watcher path name = \<lparr>wt_path = path, wt_adapter = name, wt_versions = [], wt_files = [], wt_patterns = []\<rparr>"

definition watch_directory :: "string list option \<Rightarrow> watcher \<Rightarrow> watcher" where
  "watch_directory ps w = w\<lparr>wt_patterns := (case ps of None \<Rightarrow> DEFAULT_FILE_PATTERNS | Some xs \<Rightarrow> xs)\<rparr>"

definition force_rescan :: "watcher \<Rightarrow> watcher" where
  "force_rescan w = w\<lparr>wt_versions := [], wt_files := []\<rparr>"

fun glob :: "string \<Rightarrow> string \<Rightarrow> bool" where
  \<comment> \<open>\<^verbatim>\<open>fnmatch\<close>, for patterns without brackets\<close>
  "glob [] s = (s = [])"
| "glob (p # ps) [] = (p = CHR ''*'' \<and> glob ps [])"
| "glob (p # ps) (c # s) =
     (if p = CHR ''*'' then glob ps (c # s) \<or> glob (p # ps) s
      else (p = CHR ''?'' \<or> p = c) \<and> glob ps s)"

definition matches_file_patterns :: "watcher \<Rightarrow> string \<Rightarrow> bool" where
  "matches_file_patterns w name = list_ex (\<lambda>p. glob p name) (wt_patterns w)"

definition scan_entry :: "watcher \<Rightarrow> dir_entry \<Rightarrow> (string \<times> string) option \<times> watcher" where
  \<comment> \<open>the path and the name that are reported, and what is known afterwards\<close>
  "scan_entry w e =
     (let path = path_join (wt_path w) (de_name e) in
      if de_is_dir e
      then (if dict_has (wt_versions w) path then (None, w)
            else (Some (path, de_name e), w\<lparr>wt_versions := dict_set path (de_mtime e) (wt_versions w)\<rparr>))
      else if wt_patterns w = [] \<or> \<not> de_is_file e \<or> \<not> matches_file_patterns w (de_name e) then (None, w)
      else if (case dict_get (wt_files w) path of None \<Rightarrow> True | Some t \<Rightarrow> de_mtime e > t)
      then (Some (path, de_name e), w\<lparr>wt_files := dict_set path (de_mtime e) (wt_files w)\<rparr>)
      else (None, w))"

fun scan_dir_entries :: "callbacks \<Rightarrow> real \<Rightarrow> nat \<Rightarrow> dir_entry list \<Rightarrow> watcher \<Rightarrow> adapters \<Rightarrow> (exn + adapters) \<times> watcher" where
  "scan_dir_entries C now k [] w m = (Inr m, w)"
| "scan_dir_entries C now k (e # es) w m =
     (case scan_entry w e of
        (None, w) \<Rightarrow> scan_dir_entries C now k es w m
      | (Some (path, name), w) \<Rightarrow>
          (case on_new_version C now k (wt_adapter w) path name m of
             Inl x \<Rightarrow> (Inl x, w)
           | Inr m \<Rightarrow> scan_dir_entries C now (k + 100) es w m))"

definition scan_directory ::
  "callbacks \<Rightarrow> real \<Rightarrow> dir_entry list option \<Rightarrow> watcher \<Rightarrow> adapters \<Rightarrow> (exn + adapters) \<times> watcher" where
  \<comment> \<open>\<open>None\<close> when the directory is missing or may not be read\<close>
  "scan_directory C now entries w m =
     (case entries of None \<Rightarrow> (Inr m, w) | Some es \<Rightarrow> scan_dir_entries C now 0 (sort_key de_name es) w m)"

subsection \<open>What a swap does\<close>

lemma dict_set_twice: "dict_set k v (dict_set k w d) = dict_set k v d"
  unfolding dict_set_def by (induction d) auto

lemma change_get: "dict_get (change name f m) n = (if n = name then map_option f (dict_get m name) else dict_get m n)"
  by (simp add: change_def split: option.splits)

lemma change_change: "change name g (change name f m) = change name (\<lambda>a. g (f a)) m"
  by (simp add: change_def dict_set_twice split: option.splits)

lemma change_cong: "dict_get m name = Some a \<Longrightarrow> f a = g a \<Longrightarrow> change name f m = change name g m"
  by (simp add: change_def)

lemma change_id: "dict_get m name = Some a \<Longrightarrow> f a = a \<Longrightarrow> change name f m = m"
proof -
  have "dict_get m name = Some a \<Longrightarrow> dict_set name a m = m"
    unfolding dict_set_def by (induction m) (auto split: if_splits)
  then show "dict_get m name = Some a \<Longrightarrow> f a = a \<Longrightarrow> ?thesis" by (simp add: change_def)
qed

lemmas adapter_moves = moved_def transition_to_def loaded_def failed_def unloaded_def

definition alone :: "callbacks \<Rightarrow> bool" where
  \<comment> \<open>no other thread changes the table\<close>
  "alone C \<longleftrightarrow> cb_others C = (\<lambda>k m. m)"

definition load_result :: "callbacks \<Rightarrow> string \<Rightarrow> string \<Rightarrow> exn + bool" where
  "load_result C name path = (case cb_load C name of None \<Rightarrow> Inr True | Some f \<Rightarrow> f path)"

lemma load_adapter_alone:
  assumes "alone C" and "dict_get m name = Some a" and "ad_state a \<in> {UNLOADED, DRAINING, ERROR}"
  shows "load_adapter C now k name path version m =
    (case load_result C name path of
       Inr True \<Rightarrow> (Inr (), change name (\<lambda>a. loaded path version now (moved LOADING a)) m)
     | Inr False \<Rightarrow> (Inl (AdapterError (''Failed to load adapter '' @ name)), change name (\<lambda>a. failed (moved LOADING a)) m)
     | Inl e \<Rightarrow> (if is_exception e
         then (Inl (AdapterError (''Failed to load adapter '' @ name)), change name (\<lambda>a. failed (moved LOADING a)) m)
         else (Inl e, change name (moved LOADING) m)))"
proof -
  have "ad_state a \<noteq> ACTIVE" "fst (transition_to LOADING a)" using assms(3) by (auto simp: transition_to_def)
  with assms(1,2) have "load_adapter C now k name path version m =
    (let m' = change name (moved LOADING) m in
     case load_result C name path of
       Inr True \<Rightarrow> (Inr (), change name (loaded path version now) m')
     | Inr False \<Rightarrow> (Inl (AdapterError (''Failed to load adapter '' @ name)), change name failed m')
     | Inl e \<Rightarrow> (if is_exception e then (Inl (AdapterError (''Failed to load adapter '' @ name)), change name failed m') else (Inl e, m')))"
    unfolding load_adapter_def Let_def load_result_def alone_def by (simp only: option.case if_False if_True not_True_eq_False)
  then show ?thesis unfolding Let_def change_change .
qed



definition callbacks_of :: "(exn + bool) \<Rightarrow> callbacks" where
  "callbacks_of r = \<lparr>cb_load = (\<lambda>n. Some (\<lambda>p. r)), cb_unload = (\<lambda>n. None), cb_others = (\<lambda>k m. m)\<rparr>"

lemma callbacks_of_simps: "alone (callbacks_of r)" "load_result (callbacks_of r) name path = r"
  by (simp_all add: callbacks_of_def alone_def load_result_def)


lemma failed_reload:
  assumes "alone C" and "dict_get m name = Some a" and "ad_state a \<in> {ACTIVE, DRAINING, ERROR}" and "load_result C name path = Inr False"
  shows "hot_reload C now k name path version m =
    (Inl (AdapterError (''Failed to load adapter '' @ name)),
     dict_set name (a\<lparr>ad_state := ACTIVE, ad_errors := ad_errors a + 1\<rparr>) m)"
proof -
  let ?d = "change name (moved DRAINING) m"
  have d: "dict_get ?d name = Some (moved DRAINING a)" using assms(2) by (simp add: change_get)
  have s: "ad_state (moved DRAINING a) \<in> {UNLOADED, DRAINING, ERROR}" using assms(3) by (auto simp: adapter_moves)
  have "load_adapter C now (k + 1) name path version ?d =
      (Inl (AdapterError (''Failed to load adapter '' @ name)), change name (\<lambda>a. failed (moved LOADING a)) ?d)"
    using load_adapter_alone [OF assms(1) d s] assms(4) by simp
  moreover have "moved ACTIVE (failed (moved LOADING (moved DRAINING a))) = a\<lparr>ad_state := ACTIVE, ad_errors := ad_errors a + 1\<rparr>"
    using assms(3) by (cases a) (auto simp: adapter_moves)
  then have "change name (moved ACTIVE) (change name (\<lambda>a. failed (moved LOADING a)) ?d) =
      dict_set name (a\<lparr>ad_state := ACTIVE, ad_errors := ad_errors a + 1\<rparr>) m"
    unfolding change_change by (simp add: change_def assms(2))
  ultimately show ?thesis using assms by (auto simp: hot_reload_def Let_def alone_def AdapterError_def)
qed

text \<open>
  A swap that fails leaves the running adapter as it was, active with its version and path; only the count of errors
  goes up.
\<close>
theorem failed_reload_restores:
  assumes "alone C" and "dict_get m name = Some a" and "ad_state a = ACTIVE" and "load_result C name path = Inr False"
  shows "dict_get (snd (hot_reload C now k name path version m)) name = Some (a\<lparr>ad_errors := ad_errors a + 1\<rparr>)"
proof -
  have "a\<lparr>ad_state := ACTIVE, ad_errors := ad_errors a + 1\<rparr> = a\<lparr>ad_errors := ad_errors a + 1\<rparr>" using assms(3) by (cases a) simp
  with failed_reload [OF assms(1,2) _ assms(4)] assms(3) show ?thesis by simp
qed

theorem failed_reload_restores_witness:
  "dict_get (snd (hot_reload (callbacks_of (Inr False)) 5 0 ''m'' ''/v2'' ''2'' [(''m'', (new_adapter ''m'')\<lparr>ad_state := ACTIVE\<rparr>)])) ''m'' =
     Some ((new_adapter ''m'')\<lparr>ad_state := ACTIVE, ad_errors := 1\<rparr>)"
  using failed_reload_restores [OF callbacks_of_simps(1) _ _ callbacks_of_simps(2),
      of "[(''m'', (new_adapter ''m'')\<lparr>ad_state := ACTIVE\<rparr>)]" "''m''" "(new_adapter ''m'')\<lparr>ad_state := ACTIVE\<rparr>"]
  by (simp add: new_adapter_def)

text \<open>
  The restoration is done blindly: an adapter that is in the error state, with nothing loaded, is declared active by a
  swap that fails.
\<close>
theorem failed_reload_activates_broken:
  assumes "alone C" and "dict_get m name = Some a" and "ad_state a = ERROR" and "ad_path a = None"
    and "load_result C name path = Inr False"
  shows "\<exists>a'. dict_get (snd (hot_reload C now k name path version m)) name = Some a' \<and> ad_state a' = ACTIVE \<and> ad_path a' = None"
  using failed_reload [OF assms(1,2) _ assms(5)] assms(3,4) by simp

theorem failed_reload_activates_broken_witness:
  "\<exists>a'. dict_get (snd (hot_reload (callbacks_of (Inr False)) 5 0 ''m'' ''/v2'' ''2'' [(''m'', (new_adapter ''m'')\<lparr>ad_state := ERROR\<rparr>)])) ''m'' =
     Some a' \<and> ad_state a' = ACTIVE \<and> ad_path a' = None"
  by (rule failed_reload_activates_broken [where a = "(new_adapter ''m'')\<lparr>ad_state := ERROR\<rparr>", OF callbacks_of_simps(1) _ _ _ callbacks_of_simps(2)]) (simp_all add: new_adapter_def)

text \<open>A load in progress is declared finished by a swap that is attempted meanwhile.\<close>

lemma reload_during_load:
  assumes "alone C" and "dict_get m name = Some a" and "ad_state a = LOADING"
  shows "dict_get (snd (hot_reload C now k name path version m)) name = Some (a\<lparr>ad_state := ACTIVE\<rparr>)"
proof -
  have m: "change name (moved DRAINING) m = m" by (rule change_id [OF assms(2)]) (use assms(3) in \<open>simp add: adapter_moves\<close>)
  have "\<exists>e. load_adapter C now (k + 1) name path version m = (Inl (AdapterError e), m)"
    using assms unfolding load_adapter_def transition_to_def by (auto simp del: append.simps)
  with assms m show ?thesis
    by (auto simp: hot_reload_def Let_def alone_def AdapterError_def change_get adapter_moves)
qed

lemma active_load_ignored:
  "dict_get m name = Some a \<Longrightarrow> ad_state a = ACTIVE \<Longrightarrow> load_adapter C now k name path version m = (Inr (), m)"
  by (simp add: load_adapter_def)

text \<open>Unloading while the weights are being loaded leaves the state \<^verbatim>\<open>loading\<close>.\<close>

lemma unload_during_load:
  assumes "alone C" and "dict_get m name = Some a" and "ad_state a = LOADING" and "cb_unload C name = None"
  shows "unload_adapter C k name m = (Inr (), dict_set name (a\<lparr>ad_path := None, ad_loaded_at := None\<rparr>) m)"
  using assms by (simp add: unload_adapter_def Let_def alone_def change_def unloaded_def moved_def transition_to_def)

text \<open>
  Unloading frees an adapter: from the active state it ends unloaded, without path and load time, whether the callback
  reports success or failure.
\<close>
theorem unload_frees:
  assumes "alone C" and "dict_get m name = Some a" and "ad_state a \<in> {ACTIVE, DRAINING}"
    and "(case cb_unload C name of None \<Rightarrow> Inr True | Some r \<Rightarrow> r) = Inr ok"
  shows "unload_adapter C k name m =
    (Inr (), dict_set name (a\<lparr>ad_state := UNLOADED, ad_path := None, ad_loaded_at := None\<rparr>) m)"
proof -
  let ?m = "if ad_state a = ACTIVE then change name (moved DRAINING) m else m"
  have "dict_get ?m name = Some (a\<lparr>ad_state := DRAINING\<rparr>)" using assms(2,3) by (cases a) (auto simp: change_get adapter_moves)
  then have "change name unloaded ?m = dict_set name (a\<lparr>ad_state := UNLOADED, ad_path := None, ad_loaded_at := None\<rparr>) m"
    using assms(2,3) by (cases a) (auto simp: change_def dict_set_twice adapter_moves split: option.splits)
  with assms show ?thesis by (auto simp: unload_adapter_def Let_def alone_def)
qed

theorem unload_frees_witness:
  "unload_adapter (callbacks_of (Inr True)) 0 ''m'' [(''m'', (new_adapter ''m'')\<lparr>ad_state := ACTIVE\<rparr>)] =
     (Inr (), [(''m'', new_adapter ''m'')])"
  using unload_frees [OF callbacks_of_simps(1), of "[(''m'', (new_adapter ''m'')\<lparr>ad_state := ACTIVE\<rparr>)]" "''m''"
      "(new_adapter ''m'')\<lparr>ad_state := ACTIVE\<rparr>" "Inr True" True 0]
  by (simp add: callbacks_of_def dict_set_def new_adapter_def)

subsection \<open>What the watcher loads\<close>

text \<open>Versions are taken in the order of their names as texts, so that the first scan ends with \<^verbatim>\<open>v9\<close> and not with \<^verbatim>\<open>v10\<close>.\<close>

lemma scan_order: "map de_name (sort_key de_name [\<lparr>de_name = ''v10'', de_is_dir = True, de_is_file = False, de_mtime = 2\<rparr>,
    \<lparr>de_name = ''v9'', de_is_dir = True, de_is_file = False, de_mtime = 1\<rparr>]) = [''v10'', ''v9'']"
  by (simp add: sort_key_def less_eq_list_code less_list_code)

text \<open>A directory is reported once: new weights under a known path are never noticed.\<close>

lemma known_directory_ignored:
  "de_is_dir e \<Longrightarrow> dict_has (wt_versions w) (path_join (wt_path w) (de_name e)) \<Longrightarrow> scan_entry w e = (None, w)"
  by (simp add: scan_entry_def Let_def)

end
