(* ===== verification/Tools.thy ===== *)
theory Tools
  imports Rerank Token_Budget
begin

text \<open>
  Tool calling, \<^verbatim>\<open>proxy/app/tools\<close>: the definitions and their formats for language models (\<^verbatim>\<open>definition.py\<close>), the registry
  with its providers (\<^verbatim>\<open>registry.py\<close>), the scheduling of calls that depend on each other, with retries
  (\<^verbatim>\<open>orchestrator.py\<close>), visibility and input checks (\<^verbatim>\<open>security.py\<close>) and what the audit log shows of parameters
  (\<^verbatim>\<open>audit.py\<close>). The handlers of the tools are parameters, which may answer each invocation differently. Durations are
  left out. Where the source enumerates a set, the list is in the order of first occurrence.
\<close>

subsection \<open>Definitions\<close>

datatype visibility = Vis_public | Vis_admin | Vis_expert | Vis_user

fun vis_value :: "visibility \<Rightarrow> string" where
  "vis_value Vis_public = ''public''"
| "vis_value Vis_admin = ''admin''"
| "vis_value Vis_expert = ''expert''"
| "vis_value Vis_user = ''user''"

record tool_param =
  tp_name :: string
  tp_type :: string
    \<comment> \<open>the name of the type; the source also takes the type itself\<close>
  tp_description :: string
  tp_required :: bool
  tp_default :: "json option"
  tp_enum :: "string list option"
  tp_items :: "string option"

record retry_policy =
  rp_max_retries :: int
  rp_backoff :: string
  rp_initial :: real
  rp_jitter :: bool

datatype reply = Returns json | Throws exn | Hangs

record tool =
  tl_name :: string
  tl_description :: string
  tl_params :: "tool_param list"
  tl_handler :: "(nat \<Rightarrow> json_obj \<Rightarrow> reply) option"
  tl_async :: "(nat \<Rightarrow> json_obj \<Rightarrow> reply) option"
    \<comment> \<open>with the number of the invocation\<close>
  tl_category :: string
  tl_tags :: "string list"
  tl_visibility :: visibility
  tl_retry :: "retry_policy option"
  tl_depends :: "string list"
  tl_provider :: string

definition TYPE_MAP :: "(string, string) dict" where
  "TYPE_MAP = [(''str'', ''string''), (''int'', ''integer''), (''float'', ''number''), (''bool'', ''boolean''), (''list'', ''array''),
     (''dict'', ''object'')]"

definition to_json_schema_property :: "tool_param \<Rightarrow> json" where
  "to_json_schema_property p =
     (let t = dict_getd TYPE_MAP (tp_type p) ''string'' in
      JObj ([(''type'', JStr t)] @
        (if tp_description p \<noteq> [] then [(''description'', JStr (tp_description p))] else []) @
        (case tp_enum p of None \<Rightarrow> [] | Some es \<Rightarrow> [(''enum'', JList (map JStr es))]) @
        (case tp_default p of None \<Rightarrow> [] | Some v \<Rightarrow> [(''default'', v)]) @
        (case tp_items p of
           None \<Rightarrow> []
         | Some i \<Rightarrow> if t = ''array'' then [(''items'', JObj [(''type'', JStr (dict_getd TYPE_MAP i ''string''))])] else [])))"

definition to_json_schema :: "tool \<Rightarrow> json" where
  "to_json_schema t =
     JObj [(''type'', JStr ''object''),
       (''properties'', JObj (foldl (\<lambda>d p. dict_set (tp_name p) (to_json_schema_property p) d) [] (tl_params t))),
       (''required'', JList (map (\<lambda>p. JStr (tp_name p)) (filter tp_required (tl_params t))))]"

definition to_openai_format :: "tool \<Rightarrow> json" where
  "to_openai_format t =
     JObj [(''type'', JStr ''function''),
       (''function'', JObj [(''name'', JStr (tl_name t)), (''description'', JStr (tl_description t)),
          (''parameters'', to_json_schema t)])]"

definition to_anthropic_format :: "tool \<Rightarrow> json" where
  "to_anthropic_format t =
     JObj [(''name'', JStr (tl_name t)), (''description'', JStr (tl_description t)), (''input_schema'', to_json_schema t)]"

record tool_result =
  tres_name :: string
  tres_call :: string
  tres_content :: string
  tres_error :: "string option"
  tres_retries :: nat

definition tool_error :: "string \<Rightarrow> string \<Rightarrow> tool_result" where
  "tool_error name e = \<lparr>tres_name = name, tres_call = [], tres_content = [], tres_error = Some e, tres_retries = 0\<rparr>"

definition result_status :: "tool_result \<Rightarrow> string" where
  "result_status r = (if truthy_str (tres_error r) then ''error'' else ''success'')"

record tool_call =
  tc_id :: string
  tc_name :: string
  tc_args :: json_obj

subsection \<open>The registry\<close>

record tool_registry =
  rg_tools :: "(string, tool) dict"
  rg_provided :: "(string, string set) dict"
    \<comment> \<open>the names that each provider has registered\<close>

definition new_registry :: tool_registry where
  "new_registry = \<lparr>rg_tools = [], rg_provided = []\<rparr>"

definition provider_of :: "tool \<Rightarrow> string" where
  "provider_of t = (if tl_provider t \<noteq> [] then tl_provider t else ''unknown'')"

definition register_tool :: "tool_registry \<Rightarrow> tool \<Rightarrow> tool_registry" where
  "register_tool R t =
     \<lparr>rg_tools = dict_set (tl_name t) t (rg_tools R),
      rg_provided = dict_set (provider_of t) (insert (tl_name t) (dict_getd (rg_provided R) (provider_of t) {})) (rg_provided R)\<rparr>"

definition unregister :: "string \<Rightarrow> tool_registry \<Rightarrow> bool \<times> tool_registry" where
  "unregister name R =
     (case dict_get (rg_tools R) name of
        None \<Rightarrow> (False, R)
      | Some t \<Rightarrow>
          (True, \<lparr>rg_tools = dict_del name (rg_tools R),
                  rg_provided = (case dict_get (rg_provided R) (provider_of t) of
                                   None \<Rightarrow> rg_provided R
                                 | Some ns \<Rightarrow> dict_set (provider_of t) (ns - {name}) (rg_provided R))\<rparr>))"

definition get_tool :: "tool_registry \<Rightarrow> string \<Rightarrow> tool option" where
  "get_tool R name = dict_get (rg_tools R) name"

definition ROLE_HIERARCHY :: "(string, string list) dict" where
  "ROLE_HIERARCHY = [(''admin'', [''public'', ''admin'', ''expert'', ''user'']), (''expert'', [''public'', ''expert'', ''user'']),
     (''user'', [''public'', ''user'']), (''read_only'', [''public''])]"

definition visible_for_role :: "visibility \<Rightarrow> string option \<Rightarrow> bool" where
  "visible_for_role v role =
     (case role of None \<Rightarrow> v = Vis_public | Some r \<Rightarrow> vis_value v \<in> set (dict_getd ROLE_HIERARCHY r [''public'']))"

definition list_tools :: "tool_registry \<Rightarrow> string option \<Rightarrow> string list option \<Rightarrow> string option \<Rightarrow> string option \<Rightarrow> tool list" where
  "list_tools R category tags visibility_filter provider =
     (let ts = dict_values (rg_tools R);
          ts = (case category of None \<Rightarrow> ts | Some c \<Rightarrow> filter (\<lambda>t. tl_category t = c) ts);
          ts = (case tags of None \<Rightarrow> ts | Some gs \<Rightarrow> filter (\<lambda>t. list_all (\<lambda>g. g \<in> set (tl_tags t)) gs) ts);
          ts = (case provider of None \<Rightarrow> ts | Some p \<Rightarrow> filter (\<lambda>t. tl_provider t = p) ts)
      in case visibility_filter of None \<Rightarrow> ts | Some r \<Rightarrow> filter (\<lambda>t. visible_for_role (tl_visibility t) (Some r)) ts)"

definition validate_params :: "tool \<Rightarrow> json_obj \<Rightarrow> string list" where
  "validate_params t params = map tp_name (filter (\<lambda>p. tp_required p \<and> \<not> dict_has params (tp_name p)) (tl_params t))"

datatype outcome = Result tool_result | Timed_out | Propagates exn

definition run_handler :: "(json \<Rightarrow> string) \<Rightarrow> string \<Rightarrow> reply \<Rightarrow> outcome" where
  \<comment> \<open>with the rendering of a content that is no string\<close>
  "run_handler str name r =
     (case r of
        Returns v \<Rightarrow> Result \<lparr>tres_name = name, tres_call = [], tres_content = str_with str v, tres_error = None, tres_retries = 0\<rparr>
      | Throws e \<Rightarrow> (if is_exception e then Result (tool_error name (exn_str e)) else Propagates e)
      | Hangs \<Rightarrow> Timed_out)"

definition checked_tool :: "tool_registry \<Rightarrow> string \<Rightarrow> json_obj \<Rightarrow> tool_result + tool" where
  "checked_tool R name params =
     (case get_tool R name of
        None \<Rightarrow> Inl (tool_error name (''Tool '' @ [CHR 0x27] @ name @ [CHR 0x27] @ '' not found''))
      | Some t \<Rightarrow>
          (if validate_params t params \<noteq> []
           then Inl (tool_error name (''Missing required parameters: '' @ join '', '' (validate_params t params)))
           else Inr t))"

definition execute :: "(json \<Rightarrow> string) \<Rightarrow> tool_registry \<Rightarrow> nat \<Rightarrow> string \<Rightarrow> json_obj \<Rightarrow> outcome" where
  "execute str R n name params =
     (case checked_tool R name params of
        Inl r \<Rightarrow> Result r
      | Inr t \<Rightarrow>
          (case tl_handler t of
             None \<Rightarrow> Result (tool_error name (''Tool '' @ [CHR 0x27] @ name @ [CHR 0x27] @ '' has no handler''))
           | Some h \<Rightarrow> run_handler str name (h n params)))"

definition execute_async :: "(json \<Rightarrow> string) \<Rightarrow> tool_registry \<Rightarrow> nat \<Rightarrow> string \<Rightarrow> json_obj \<Rightarrow> outcome" where
  "execute_async str R n name params =
     (case checked_tool R name params of
        Inl r \<Rightarrow> Result r
      | Inr t \<Rightarrow>
          (case (tl_async t, tl_handler t) of
             (Some h, _) \<Rightarrow> run_handler str name (h n params)
           | (None, Some h) \<Rightarrow> run_handler str name (h n params)
           | (None, None) \<Rightarrow> Result (tool_error name (''Tool '' @ [CHR 0x27] @ name @ [CHR 0x27] @ '' has no handler''))))"

definition get_tools_for_llm :: "tool_registry \<Rightarrow> string \<Rightarrow> string option \<Rightarrow> json list" where
  "get_tools_for_llm R provider_type user_role =
     map (if provider_type = ''anthropic'' then to_anthropic_format else to_openai_format) (list_tools R None None user_role None)"

definition validate_tool :: "tool \<Rightarrow> string list" where
  "validate_tool t =
     (if tl_name t = [] then [''Tool name is required''] else []) @
     (if tl_description t = [] then [''Tool description is required''] else []) @
     (if tl_handler t = None \<and> tl_async t = None then [''Tool must have a handler or async_handler''] else []) @
     (if \<not> distinct (map tp_name (tl_params t)) then [''Duplicate parameter names detected''] else [])"

definition get_dependency_graph :: "tool_registry \<Rightarrow> (string, string list) dict" where
  "get_dependency_graph R = foldl (\<lambda>g t. dict_set (tl_name t) (tl_depends t) g) [] (dict_values (rg_tools R))"

subsection \<open>Providers\<close>

definition discover :: "bool \<Rightarrow> exn + tool list \<Rightarrow> tool_registry \<Rightarrow> tool list \<times> tool_registry" where
  \<comment> \<open>\<^verbatim>\<open>asyncio.run\<close> raises when an event loop is running\<close>
  "discover running_loop found R =
     (case (if running_loop then Inl (PyException ''RuntimeError'' ''asyncio.run() cannot be called from a running event loop'') else found) of
        Inl e \<Rightarrow> ([], R)
      | Inr ts \<Rightarrow> (ts, foldl register_tool R ts))"

definition KNOWN_PROVIDERS :: "string list" where
  "KNOWN_PROVIDERS = [''sdk'', ''declarative'', ''openapi'']"

definition drop_tools :: "string set \<Rightarrow> tool_registry \<Rightarrow> tool_registry" where
  \<comment> \<open>\<^verbatim>\<open>unregister\<close> for every name of the set; the order does not matter\<close>
  "drop_tools ns R = foldl (\<lambda>R n. snd (unregister n R)) R (filter (\<lambda>n. n \<in> ns) (dict_keys (rg_tools R)))"

definition reload_provider :: "bool \<Rightarrow> (string \<Rightarrow> exn + tool list) \<Rightarrow> string \<Rightarrow> tool_registry \<Rightarrow> tool list \<times> tool_registry" where
  "reload_provider running_loop source name R =
     (let R = (case dict_get (rg_provided R) name of None \<Rightarrow> R | Some ns \<Rightarrow> drop_tools ns R)
      in if name \<in> set KNOWN_PROVIDERS then discover running_loop (source name) R else ([], R))"

definition discover_one :: "string \<Rightarrow> exn + tool list \<Rightarrow> (string, tool list) dict \<times> tool_registry \<Rightarrow> (string, tool list) dict \<times> tool_registry" where
  "discover_one name found st =
     (case found of
        Inl e \<Rightarrow> (dict_set name [] (fst st), snd st)
      | Inr ts \<Rightarrow> (dict_set name ts (fst st), foldl register_tool (snd st) ts))"

definition discover_all :: "bool \<Rightarrow> bool \<Rightarrow> (string \<Rightarrow> exn + tool list) \<Rightarrow> tool_registry \<Rightarrow> (string, tool list) dict \<times> tool_registry" where
  \<comment> \<open>whether the directory of declarative tools exists and whether specifications are configured\<close>
  "discover_all has_dir has_specs source R =
     (let st = discover_one ''sdk'' (source ''sdk'') ([], R);
          st = (if has_dir then discover_one ''declarative'' (source ''declarative'') st else st)
      in if has_specs then discover_one ''openapi'' (source ''openapi'') st else st)"

subsection \<open>Calls that depend on each other\<close>

definition needs :: "(string, string list) dict \<Rightarrow> string \<Rightarrow> string set" where
  "needs deps n = set (dict_getd deps n [])"

function level_loop :: "(string, string list) dict \<Rightarrow> string list \<Rightarrow> exn + string list list" where
  "level_loop deps remaining =
     (if remaining = [] then Inr []
      else
        (let level = filter (\<lambda>n. needs deps n \<inter> set remaining = {}) remaining in
         if level = [] then Inl (ValueError ''Circular dependency cycle detected among tools'')
         else map_sum id (\<lambda>ls. level # ls) (level_loop deps (filter (\<lambda>n. n \<notin> set level) remaining))))"
  by pat_completeness auto

termination
proof (relation "measure (\<lambda>(deps, remaining). length remaining)")
  fix deps :: "(string, string list) dict" and remaining level :: "string list"
  assume l: "level = filter (\<lambda>n. needs deps n \<inter> set remaining = {}) remaining" and "level \<noteq> []"
  then obtain n where "n \<in> set level" by (meson last_in_set)
  then have "n \<in> set remaining" using l by simp
  then have "length (filter (\<lambda>n. n \<notin> set level) remaining) < length remaining"
    by (rule length_filter_less) (use \<open>n \<in> set level\<close> in simp)
  then show "((deps, filter (\<lambda>n. n \<notin> set level) remaining), deps, remaining) \<in> measure (\<lambda>(deps, remaining). length remaining)"
    by simp
qed simp

declare level_loop.simps [simp del]

text \<open>The messages leave out the rendering of the sets of names.\<close>

definition dependencies :: "tool list \<Rightarrow> (string, string list) dict" where
  "dependencies tools = foldl (\<lambda>d t. dict_set (tl_name t) (tl_depends t) d) [] tools"

definition resolve_dependency_levels :: "tool list \<Rightarrow> exn + string list list" where
  "resolve_dependency_levels tools =
     (let names = remdups (map tl_name tools) in
      case find (\<lambda>t. \<not> list_all (\<lambda>d. d \<in> set names) (tl_depends t)) tools of
        Some t \<Rightarrow> Inl (ValueError (''Unresolved dependencies for '' @ tl_name t))
      | None \<Rightarrow> level_loop (dependencies tools) names)"

definition compute_backoff :: "(nat \<Rightarrow> real) \<Rightarrow> retry_policy option \<Rightarrow> nat \<Rightarrow> real" where
  \<comment> \<open>the first argument draws from the unit interval\<close>
  "compute_backoff draw policy attempt =
     (case policy of
        None \<Rightarrow> 0
      | Some p \<Rightarrow>
          (let delay = (if rp_backoff p = ''constant'' then rp_initial p
                        else if rp_backoff p = ''linear'' then rp_initial p * real attempt
                        else rp_initial p * 2 ^ (attempt - 1))
           in if rp_jitter p then delay * (1/2 + draw attempt) else delay))"

definition timeout_message :: "tool_call \<Rightarrow> string" where
  \<comment> \<open>without the seconds\<close>
  "timeout_message c = ''Tool '' @ [CHR 0x27] @ tc_name c @ [CHR 0x27] @ '' timed out''"

fun attempt_loop ::
  "(json \<Rightarrow> string) \<Rightarrow> tool_registry \<Rightarrow> tool_call \<Rightarrow> (nat \<Rightarrow> real) \<Rightarrow> retry_policy option \<Rightarrow> nat \<Rightarrow> nat \<Rightarrow> string option
   \<Rightarrow> (exn + tool_result) \<times> real list" where
  \<comment> \<open>the attempts that are left and the number of retries; the delays are returned\<close>
  "attempt_loop str R c draw policy 0 retries last_error =
     (Inr \<lparr>tres_name = tc_name c, tres_call = tc_id c, tres_content = [],
           tres_error = Some (if truthy_str last_error then the last_error else ''Unknown error''), tres_retries = retries\<rparr>, [])"
| "attempt_loop str R c draw policy (Suc left) retries last_error =
     (let again = (\<lambda>e. let (r, ds) = attempt_loop str R c draw policy left (retries + 1) e
                       in (r, compute_backoff draw policy (retries + 1) # ds))
      in case execute_async str R retries (tc_name c) (tc_args c) of
           Propagates e \<Rightarrow> (Inl e, [])
         | Result r \<Rightarrow>
             (if truthy_str (tres_error r) \<and> left \<noteq> 0 then again (tres_error r)
              else (Inr (r\<lparr>tres_call := tc_id c, tres_retries := retries\<rparr>), []))
         | Timed_out \<Rightarrow>
             (let e = Some (timeout_message c)
              in if left \<noteq> 0 then again e else attempt_loop str R c draw policy 0 retries e))"

definition execute_single ::
  "(json \<Rightarrow> string) \<Rightarrow> tool_registry \<Rightarrow> (nat \<Rightarrow> real) \<Rightarrow> tool_call \<Rightarrow> (exn + tool_result) \<times> real list" where
  "execute_single str R draw c =
     (let policy = (case get_tool R (tc_name c) of None \<Rightarrow> None | Some t \<Rightarrow> tl_retry t);
          max_retries = (case policy of None \<Rightarrow> 0 | Some p \<Rightarrow> rp_max_retries p)
      in attempt_loop str R c draw policy (nat (1 + max_retries)) 0 None)"

fun gather_results ::
  "(tool_call \<Rightarrow> exn + tool_result) \<Rightarrow> (string, tool_call) dict \<Rightarrow> string list \<Rightarrow> exn + (string, tool_result) dict" where
  \<comment> \<open>the calls of the levels; the first exception that propagates ends it\<close>
  "gather_results run calls [] = Inr []"
| "gather_results run calls (n # ns) =
     (case dict_get calls n of
        None \<Rightarrow> gather_results run calls ns
      | Some c \<Rightarrow>
          (case run c of
             Inl e \<Rightarrow> Inl e
           | Inr r \<Rightarrow> map_sum id (\<lambda>rs. (n, r) # rs) (gather_results run calls ns)))"

definition execute_all ::
  "(json \<Rightarrow> string) \<Rightarrow> tool_registry \<Rightarrow> (nat \<Rightarrow> real) \<Rightarrow> tool_call list \<Rightarrow> exn + tool_result list" where
  "execute_all str R draw calls =
     (if calls = [] then Inr []
      else
        (let name_to_call = foldl (\<lambda>d c. dict_set (tc_name c) c d) [] calls;
             tools = List.map_filter (\<lambda>c. get_tool R (tc_name c)) calls;
             missing = (\<lambda>m c. (tool_error (tc_name c) (m c))\<lparr>tres_call := tc_id c\<rparr>)
         in if tools = []
            then Inr (map (missing (\<lambda>c. ''Tool '' @ [CHR 0x27] @ tc_name c @ [CHR 0x27] @ '' not found'')) calls)
            else
              (case resolve_dependency_levels tools of
                 Inl e \<Rightarrow> Inl e
               | Inr levels \<Rightarrow>
                   (case gather_results (\<lambda>c. fst (execute_single str R draw c)) name_to_call (concat levels) of
                      Inl e \<Rightarrow> Inl e
                    | Inr results \<Rightarrow>
                        Inr (map (\<lambda>c. dict_getd results (tc_name c)
                                        (missing (\<lambda>c. ''No result for '' @ [CHR 0x27] @ tc_name c @ [CHR 0x27]) c)) calls)))))"

function pieces :: "nat \<Rightarrow> string \<Rightarrow> string list" where
  "pieces n s = (if s = [] \<or> n = 0 then [] else take n s # pieces n (drop n s))"
  by pat_completeness auto

termination
  by (relation "measure (\<lambda>(n, s). length s)") auto

declare pieces.simps [simp del]

definition execute_streaming :: "(json \<Rightarrow> string) \<Rightarrow> tool_registry \<Rightarrow> tool_call \<Rightarrow> exn + string list" where
  "execute_streaming str R c =
     (case get_tool R (tc_name c) of
        None \<Rightarrow> Inr [''Error: Tool '' @ [CHR 0x27] @ tc_name c @ [CHR 0x27] @ '' not found'']
      | Some t \<Rightarrow>
          (case execute_async str R 0 (tc_name c) (tc_args c) of
             Propagates e \<Rightarrow> Inl e
           | Timed_out \<Rightarrow> Inr [''Error: '' @ timeout_message c]
           | Result r \<Rightarrow> (if truthy_str (tres_error r) then Inr [the (tres_error r)] else Inr (pieces 1024 (tres_content r)))))"

subsection \<open>Visibility and input checks\<close>

definition RBAC_MATRIX :: "(string, string list) dict" where
  "RBAC_MATRIX = [(''admin'', [''public'', ''user'', ''expert'', ''admin'']), (''expert'', [''public'', ''user'', ''expert'']),
     (''user'', [''public'', ''user'']), (''read_only'', [''public'']), (''anonymous'', [''public''])]"

definition check_visibility :: "visibility \<Rightarrow> string option \<Rightarrow> bool" where
  "check_visibility v role =
     (let r = (if truthy_str role then the role else ''anonymous'')
      in vis_value v \<in> set (dict_getd RBAC_MATRIX r [''public'']))"

definition filter_tools :: "tool_registry \<Rightarrow> string option \<Rightarrow> tool list" where
  "filter_tools R role = filter (\<lambda>t. check_visibility (tl_visibility t) role) (dict_values (rg_tools R))"

definition filter_by_name :: "tool_registry \<Rightarrow> string \<Rightarrow> string option \<Rightarrow> tool option" where
  "filter_by_name R name role =
     (case get_tool R name of None \<Rightarrow> None | Some t \<Rightarrow> if check_visibility (tl_visibility t) role then Some t else None)"

definition dangerous :: "char \<Rightarrow> bool" where
  "dangerous c \<longleftrightarrow> (let n = of_char c :: nat in n \<le> 31 \<and> n \<noteq> 9)"

fun sanitize_value :: "json \<Rightarrow> json" where
  "sanitize_value (JStr s) = JStr (filter (\<lambda>c. \<not> dangerous c) s)"
| "sanitize_value (JObj d) = JObj (map (\<lambda>(k, v). (k, sanitize_value v)) d)"
| "sanitize_value (JList xs) = JList (map sanitize_value xs)"
| "sanitize_value v = v"

definition sanitize :: "json_obj option \<Rightarrow> json_obj" where
  "sanitize inputs = (case inputs of None \<Rightarrow> [] | Some d \<Rightarrow> map (\<lambda>(k, v). (k, sanitize_value v)) d)"

datatype input_error =
  \<comment> \<open>the messages of the source, as values\<close>
    Missing_parameter string
  | Wrong_type string string string
  | Not_in_enum string string
  | Wrong_item_type string string nat string

fun type_name :: "json \<Rightarrow> string" where
  "type_name JNull = ''NoneType''"
| "type_name (JBool b) = ''bool''"
| "type_name (JInt i) = ''int''"
| "type_name (JFloat x) = ''float''"
| "type_name (JStr s) = ''str''"
| "type_name (JList xs) = ''list''"
| "type_name (JObj d) = ''dict''"

definition resolve_string_type :: "string \<Rightarrow> string" where
  "resolve_string_type n = (if n \<in> {''str'', ''int'', ''float'', ''bool'', ''list'', ''dict''} then n else ''str'')"

definition has_type :: "string \<Rightarrow> json \<Rightarrow> bool" where
  "has_type t v \<longleftrightarrow> type_name v = t \<or> t = ''float'' \<and> type_name v = ''int''"

definition item_errors :: "string \<Rightarrow> string \<Rightarrow> json list \<Rightarrow> input_error list" where
  "item_errors name t items =
     (if t = ''str'' \<or> t = ''int''
      then List.map_filter (\<lambda>(i, v). if has_type t v then None else Some (Wrong_item_type name t i (type_name v))) (enumerate 0 items)
      else [])"

definition validate_type :: "tool_param \<Rightarrow> json \<Rightarrow> input_error list" where
  "validate_type p v =
     (let t = resolve_string_type (tp_type p) in
      if \<not> has_type t v then [Wrong_type (tp_name p) t (type_name v)]
      else
        (case v of
           JStr s \<Rightarrow> (case tp_enum p of None \<Rightarrow> [] | Some es \<Rightarrow> if s \<in> set es then [] else [Not_in_enum (tp_name p) s])
         | JList xs \<Rightarrow> (case tp_items p of None \<Rightarrow> [] | Some i \<Rightarrow> item_errors (tp_name p) (resolve_string_type i) xs)
         | _ \<Rightarrow> []))"

definition validate_inputs :: "tool_param list \<Rightarrow> json_obj \<Rightarrow> input_error list" where
  "validate_inputs ps inputs =
     concat (map (\<lambda>p.
       case dict_get inputs (tp_name p) of
         None \<Rightarrow> if tp_required p then [Missing_parameter (tp_name p)] else []
       | Some JNull \<Rightarrow> []
       | Some v \<Rightarrow> validate_type p v) ps)"

definition SECRET_KEYS :: "string list" where
  "SECRET_KEYS = [''password'', ''secret'', ''token'', ''api_key'', ''apikey'', ''authorization'']"

definition shorten :: "nat \<Rightarrow> string \<Rightarrow> string" where
  "shorten n s = (if length s > n then take n s @ ''...'' else s)"

definition sanitize_params :: "(json \<Rightarrow> string) \<Rightarrow> nat \<Rightarrow> json_obj \<Rightarrow> json_obj" where
  \<comment> \<open>with \<^verbatim>\<open>json.dumps\<close>\<close>
  "sanitize_params dumps n params =
     map (\<lambda>(k, v). (k,
       if py_lower k \<in> set SECRET_KEYS then JStr ''***''
       else (case v of
               JStr s \<Rightarrow> JStr (shorten n s)
             | JList xs \<Rightarrow> JStr (shorten n (dumps v))
             | JObj d \<Rightarrow> JStr (shorten n (dumps v))
             | _ \<Rightarrow> v))) params"

subsection \<open>The two role tables\<close>

lemma role_tables_set:
  "set (dict_getd [(a, [p, a', e', u']), (e, [p, e', u']), (u, [p, u']), (ro, [p])] r [p]) =
   set (dict_getd [(a, [p, u', e', a']), (e, [p, u', e']), (u, [p, u']), (ro, [p]), (an, [p])] r [p])"
  by (auto simp: dict_getd_def)

lemma roles_agree: "set (dict_getd ROLE_HIERARCHY r [''public'']) = set (dict_getd RBAC_MATRIX r [''public''])"
  unfolding ROLE_HIERARCHY_def RBAC_MATRIX_def by (rule role_tables_set)

lemma no_role: "dict_getd ROLE_HIERARCHY [] [''public''] = [''public'']"
  "dict_getd RBAC_MATRIX ''anonymous'' [''public''] = [''public'']"
  by (simp_all add: ROLE_HIERARCHY_def RBAC_MATRIX_def dict_getd_def)

lemma public_value: "vis_value v = ''public'' \<longleftrightarrow> v = Vis_public"
  by (cases v) simp_all

lemma visibility_checks_eq: "visible_for_role v role = check_visibility v role"
proof (cases role)
  case None
  then show ?thesis
    by (simp add: visible_for_role_def check_visibility_def truthy_str_def no_role public_value)
next
  case (Some r)
  show ?thesis
  proof (cases "r = []")
    case True
    then show ?thesis using Some
      by (simp add: visible_for_role_def check_visibility_def truthy_str_def no_role)
  next
    case False
    then have "truthy_str role" "the role = r" using Some by (simp_all add: truthy_str_def)
    then show ?thesis using Some roles_agree [of r]
      by (simp only: visible_for_role_def check_visibility_def option.case Let_def if_True)
  qed
qed

text \<open>
  The two role tables of the tools, one in the registry and one in the visibility filter, agree: for every visibility
  and every role, known, unknown, empty or absent, they give the same answer.
\<close>

theorem visibility_checks_agree:
  "visible_for_role v role = check_visibility v role \<and>
   list_tools R None None (Some r) None = filter_tools R (Some r)"
  by (simp add: visibility_checks_eq list_tools_def filter_tools_def)

text \<open>
  An anonymous caller, whose role is absent, is offered every tool of the registry in the model's format, the
  administrator's tools included: without a role the list is not filtered, where the visibility filter hides it.
\<close>

theorem anonymous_is_offered_all:
  assumes "dict_get (rg_tools R) n = Some t" "tl_visibility t \<noteq> Vis_public"
  shows "to_openai_format t \<in> set (get_tools_for_llm R ''openai'' None) \<and> filter_by_name R n None = None \<and> t \<notin> set (filter_tools R None)"
proof -
  have a: "t \<in> set (dict_values (rg_tools R))"
    using map_of_SomeD [OF assms(1)] by (force simp: dict_values_def)
  have b: "\<not> check_visibility (tl_visibility t) None"
    using assms(2) visibility_checks_eq [of "tl_visibility t" None] by (simp add: visible_for_role_def)
  have c: "get_tools_for_llm R ''openai'' None = map to_openai_format (dict_values (rg_tools R))"
    by (simp add: get_tools_for_llm_def list_tools_def)
  show ?thesis
    using a b assms(1) by (simp add: c filter_by_name_def filter_tools_def get_tool_def)
qed

subsection \<open>Dependency levels\<close>

primrec after_needs :: "(string, string list) dict \<Rightarrow> string set \<Rightarrow> string list list \<Rightarrow> bool" where
  \<comment> \<open>every name comes after all that it needs\<close>
  "after_needs deps ready [] = True"
| "after_needs deps ready (l # ls) = (list_all (\<lambda>n. needs deps n \<subseteq> ready) l \<and> after_needs deps (ready \<union> set l) ls)"

lemma level_loop_sound:
  assumes "level_loop deps todo = Inr ls" "distinct todo" "\<And>n. n \<in> set todo \<Longrightarrow> needs deps n \<subseteq> ready \<union> set todo"
  shows "distinct (concat ls) \<and> set (concat ls) = set todo \<and> after_needs deps ready ls"
  using assms
proof (induction deps todo arbitrary: ready ls rule: level_loop.induct)
  case (1 deps todo)
  define level where "level = filter (\<lambda>n. needs deps n \<inter> set todo = {}) todo"
  define rest where "rest = filter (\<lambda>n. n \<notin> set level) todo"
  show ?case
  proof (cases "todo = []")
    case True
    then show ?thesis using "1.prems"(1) by (simp add: level_loop.simps)
  next
    case False
    have e: "level_loop deps todo =
        (if level = [] then Inl (ValueError ''Circular dependency cycle detected among tools'')
         else map_sum id (\<lambda>ls. level # ls) (level_loop deps rest))"
      using False by (simp add: level_loop.simps [of deps todo] level_def rest_def Let_def)
    have l: "level \<noteq> []" using e "1.prems"(1) by (cases "level = []") simp_all
    obtain ls' where ls: "level_loop deps rest = Inr ls'" "ls = level # ls'"
      using e l "1.prems"(1) by (cases "level_loop deps rest") auto
    have parts: "set level \<union> set rest = set todo" "set level \<inter> set rest = {}"
      by (auto simp: level_def rest_def)
    have n: "needs deps n \<subseteq> (ready \<union> set level) \<union> set rest" if "n \<in> set rest" for n
      using "1.prems"(3) [of n] that parts by (auto simp: rest_def)
    have IH: "distinct (concat ls') \<and> set (concat ls') = set rest \<and> after_needs deps (ready \<union> set level) ls'"
      using "1.IH" [OF False level_def l, folded rest_def, OF ls(1) _ n] "1.prems"(2) by (simp add: rest_def)
    have lv: "list_all (\<lambda>n. needs deps n \<subseteq> ready) level"
      using "1.prems"(3) by (auto simp: level_def list_all_iff)
    show ?thesis
      using IH lv parts "1.prems"(2) by (auto simp: ls(2) level_def)
  qed
qed

lemma level_loop_stuck:
  assumes "level_loop deps todo = Inl e"
  shows "\<exists>C. C \<noteq> {} \<and> C \<subseteq> set todo \<and> (\<forall>n\<in>C. needs deps n \<inter> C \<noteq> {})"
  using assms
proof (induction deps todo arbitrary: e rule: level_loop.induct)
  case (1 deps todo)
  define level where "level = filter (\<lambda>n. needs deps n \<inter> set todo = {}) todo"
  define rest where "rest = filter (\<lambda>n. n \<notin> set level) todo"
  have ne: "todo \<noteq> []" using "1.prems" by (cases todo) (simp_all add: level_loop.simps)
  show ?case
  proof (cases "level = []")
    case True
    then have "\<forall>n\<in>set todo. needs deps n \<inter> set todo \<noteq> {}" by (simp add: level_def filter_empty_conv)
    then show ?thesis using ne by (intro exI [of _ "set todo"]) simp
  next
    case False
    then obtain e' where "level_loop deps rest = Inl e'"
      using "1.prems" ne by (auto simp: level_loop.simps [of deps todo] level_def rest_def Let_def map_sum_def split: sum.splits)
    from "1.IH" [OF ne level_def False, folded rest_def, OF this]
    show ?thesis by (auto simp: rest_def)
  qed
qed

lemma level_loop_no_cycle:
  assumes "level_loop deps todo = Inr ls" "C \<noteq> {}" "C \<subseteq> set todo"
  shows "\<exists>n\<in>C. needs deps n \<inter> C = {}"
  using assms
proof (induction deps todo arbitrary: ls rule: level_loop.induct)
  case (1 deps todo)
  define level where "level = filter (\<lambda>n. needs deps n \<inter> set todo = {}) todo"
  define rest where "rest = filter (\<lambda>n. n \<notin> set level) todo"
  have ne: "todo \<noteq> []" using "1.prems"(2,3) by auto
  show ?case
  proof (cases "C \<inter> set level = {}")
    case False
    then obtain n where "n \<in> C" "needs deps n \<inter> set todo = {}" by (auto simp: level_def)
    then show ?thesis using "1.prems"(3) by blast
  next
    case True
    then have C: "C \<subseteq> set rest" using "1.prems"(3) by (auto simp: rest_def)
    have e: "level_loop deps todo =
        (if level = [] then Inl (ValueError ''Circular dependency cycle detected among tools'')
         else map_sum id (\<lambda>ls. level # ls) (level_loop deps rest))"
      using ne by (simp add: level_loop.simps [of deps todo] level_def rest_def Let_def)
    have l: "level \<noteq> []" using e "1.prems"(1) by (cases "level = []") simp_all
    obtain ls' where "level_loop deps rest = Inr ls'"
      using e l "1.prems"(1) by (cases "level_loop deps rest") auto
    from "1.IH" [OF ne level_def l, folded rest_def, OF this "1.prems"(2) C] show ?thesis .
  qed
qed

lemma dependencies_get:
  "map_of (foldl (\<lambda>d t. dict_set (tl_name t) (tl_depends t) d) D tools) n =
     (case find (\<lambda>t. tl_name t = n) (rev tools) of None \<Rightarrow> map_of D n | Some t \<Rightarrow> Some (tl_depends t))"
  by (induction tools rule: rev_induct) auto

lemma needs_within:
  assumes "list_all (\<lambda>t. set (tl_depends t) \<subseteq> N) tools"
  shows "needs (dependencies tools) n \<subseteq> N"
  using assms unfolding needs_def dict_getd_def dependencies_def dependencies_get
  by (auto simp: list_all_iff split: option.splits dest!: find_SomeD)

lemma resolve_cases:
  "resolve_dependency_levels tools =
     (if list_all (\<lambda>t. set (tl_depends t) \<subseteq> tl_name ` set tools) tools
      then level_loop (dependencies tools) (remdups (map tl_name tools))
      else Inl (ValueError (''Unresolved dependencies for '' @ tl_name (hd (filter (\<lambda>t. \<not> set (tl_depends t) \<subseteq> tl_name ` set tools) tools)))))"
proof -
  have e: "find P xs = (if filter P xs = [] then None else Some (hd (filter P xs)))" for P and xs :: "tool list"
    by (induction xs) auto
  have p: "list_all (\<lambda>d. d \<in> set (remdups (map tl_name tools))) ds \<longleftrightarrow> set ds \<subseteq> tl_name ` set tools" for ds
    by (auto simp: list_all_iff)
  show ?thesis
    unfolding resolve_dependency_levels_def Let_def p e
    by (simp add: list_all_iff filter_empty_conv)
qed

lemma level_names:
  assumes "resolve_dependency_levels tools = Inr ls"
  shows "distinct (concat ls) \<and> set (concat ls) = tl_name ` set tools \<and> after_needs (dependencies tools) {} ls"
proof -
  let ?N = "tl_name ` set tools"
  have ok: "list_all (\<lambda>t. set (tl_depends t) \<subseteq> ?N) tools"
    and run: "level_loop (dependencies tools) (remdups (map tl_name tools)) = Inr ls"
    using assms by (simp_all add: resolve_cases split: if_splits)
  have "needs (dependencies tools) n \<subseteq> {} \<union> set (remdups (map tl_name tools))" for n
    using needs_within [OF ok, of n] by simp
  from level_loop_sound [OF run _ this] show ?thesis by simp
qed

text \<open>
  When the dependencies of the called tools are resolved, the levels are a schedule: they hold every called tool exactly
  once, and every tool comes after all the tools it depends on, in an earlier level.
\<close>

theorem levels_are_a_schedule:
  assumes "resolve_dependency_levels tools = Inr ls"
  shows "distinct (concat ls) \<and> set (concat ls) = tl_name ` set tools \<and> after_needs (dependencies tools) {} ls"
  using assms by (rule level_names)

text \<open>
  C22. Scheduling fails exactly when a called tool depends on a tool that is not called, or when there is a cycle: a set of
  called tools each of which needs one of the set. Every other set of calls is scheduled.
\<close>

theorem levels_fail_iff:
  "isl (resolve_dependency_levels tools) \<longleftrightarrow>
     list_ex (\<lambda>t. \<not> set (tl_depends t) \<subseteq> tl_name ` set tools) tools \<or>
     (\<exists>C. C \<noteq> {} \<and> C \<subseteq> tl_name ` set tools \<and> (\<forall>n\<in>C. needs (dependencies tools) n \<inter> C \<noteq> {}))"
proof (cases "list_all (\<lambda>t. set (tl_depends t) \<subseteq> tl_name ` set tools) tools")
  case False
  then show ?thesis by (auto simp: resolve_cases list_all_iff list_ex_iff)
next
  case True
  then have r: "resolve_dependency_levels tools = level_loop (dependencies tools) (remdups (map tl_name tools))"
    by (simp add: resolve_cases)
  have n: "\<not> list_ex (\<lambda>t. \<not> set (tl_depends t) \<subseteq> tl_name ` set tools) tools"
    using True by (auto simp: list_all_iff list_ex_iff)
  show ?thesis
  proof (cases "level_loop (dependencies tools) (remdups (map tl_name tools))")
    case (Inl e)
    then show ?thesis using level_loop_stuck [OF Inl] by (simp add: r)
  next
    case (Inr ls)
    then show ?thesis using level_loop_no_cycle [OF Inr] n by (auto simp: r)
  qed
qed

subsection \<open>Retries\<close>

lemma attempt_loop_bounds:
  assumes "attempt_loop str R c draw policy left k e = (Inr r, ds)"
  shows "tres_retries r = k + length ds \<and> length ds \<le> left - 1 \<and> tres_call r = tc_id c \<and>
    (length ds < left - 1 \<longrightarrow> \<not> truthy_str (tres_error r))"
  using assms
proof (induction left arbitrary: k e ds r)
  case 0
  then show ?case by auto
next
  case (Suc left)
  have again: "tres_retries r = k + length ds \<and> length ds \<le> left \<and> tres_call r = tc_id c \<and>
      (length ds < left \<longrightarrow> \<not> truthy_str (tres_error r))"
    if l: "left \<noteq> 0" and run: "(case attempt_loop str R c draw policy left (k + 1) e' of
        (r, ds) \<Rightarrow> (r, compute_backoff draw policy (k + 1) # ds)) = (Inr r, ds)" for e'
  proof -
    obtain ds' where a: "attempt_loop str R c draw policy left (k + 1) e' = (Inr r, ds')"
      and d: "ds = compute_backoff draw policy (k + 1) # ds'"
      using run by (auto split: prod.splits)
    show ?thesis using Suc.IH [OF a] l unfolding d by auto
  qed
  show ?case
  proof (cases "execute_async str R k (tc_name c) (tc_args c)")
    case (Result x)
    show ?thesis
    proof (cases "truthy_str (tres_error x) \<and> left \<noteq> 0")
      case True
      then have "(case attempt_loop str R c draw policy left (k + 1) (tres_error x) of
        (r, ds) \<Rightarrow> (r, compute_backoff draw policy (k + 1) # ds)) = (Inr r, ds)"
        using Suc.prems Result by simp
      with again True show ?thesis by simp
    next
      case False
      then have "r = x\<lparr>tres_call := tc_id c, tres_retries := k\<rparr>" "ds = []" using Suc.prems Result by (auto split: if_splits)
      then show ?thesis using False by auto
    qed
  next
    case Timed_out
    show ?thesis
    proof (cases "left = 0")
      case True
      then show ?thesis using Suc.prems Timed_out by (auto simp: Let_def)
    next
      case False
      with Timed_out Suc.prems show ?thesis
        using again [OF False] by (simp add: Let_def)
    qed
  next
    case (Propagates x)
    then show ?thesis using Suc.prems by simp
  qed
qed

text \<open>
  A tool call is retried at most as often as its policy says, waits once before every retry, reports their number and
  its own id, and ends before the budget is used up only with a result without an error.
\<close>

theorem tool_retries_bounded:
  assumes "execute_single str R draw c = (Inr r, ds)" "get_tool R (tc_name c) = Some t" "tl_retry t = Some p"
  shows "tres_retries r = length ds \<and> length ds \<le> nat (rp_max_retries p) \<and> tres_call r = tc_id c \<and>
    (length ds < nat (rp_max_retries p) \<longrightarrow> 0 \<le> rp_max_retries p \<longrightarrow> \<not> truthy_str (tres_error r))"
proof -
  have "attempt_loop str R c draw (Some p) (nat (1 + rp_max_retries p)) 0 None = (Inr r, ds)"
    using assms by (simp add: execute_single_def)
  from attempt_loop_bounds [OF this] show ?thesis by auto
qed

subsection \<open>Calls of the same tool\<close>

lemma gather_results_get:
  assumes "gather_results run calls ns = Inr rs"
  shows "map_of rs n = (if n \<in> set ns then (case map_of calls n of None \<Rightarrow> None | Some c \<Rightarrow> (case run c of Inl e \<Rightarrow> None | Inr r \<Rightarrow> Some r)) else None)"
  using assms
proof (induction ns arbitrary: rs)
  case Nil
  then show ?case by simp
next
  case (Cons m ns)
  show ?case
  proof (cases "map_of calls m")
    case None
    then show ?thesis using Cons by auto
  next
    case (Some c)
    show ?thesis
    proof (cases "run c")
      case (Inl e)
      then show ?thesis using Cons.prems Some by simp
    next
      case (Inr r)
      obtain rs' where "gather_results run calls ns = Inr rs'" "rs = (m, r) # rs'"
        using Cons.prems Some Inr by (cases "gather_results run calls ns") auto
      then show ?thesis using Cons.IH Some Inr by auto
    qed
  qed
qed

lemma gather_results_runs:
  assumes "gather_results run calls ns = Inr rs" "n \<in> set ns" "map_of calls n = Some c"
  shows "\<exists>r. run c = Inr r"
  using assms
  by (induction ns arbitrary: rs) (auto split: option.splits sum.splits simp: map_sum_def)

lemma name_to_call_get:
  "map_of (foldl (\<lambda>d c. dict_set (tc_name c) c d) D calls) n =
     (case find (\<lambda>c. tc_name c = n) (rev calls) of None \<Rightarrow> map_of D n | Some c \<Rightarrow> Some c)"
  by (induction calls rule: rev_induct) auto

definition registered_names :: "tool_registry \<Rightarrow> bool" where
  "registered_names R \<longleftrightarrow> list_all (\<lambda>(n, t). tl_name t = n) (rg_tools R)"

lemma registered_nameD: "registered_names R \<Longrightarrow> get_tool R n = Some t \<Longrightarrow> tl_name t = n"
  by (auto simp: registered_names_def get_tool_def list_all_iff dest!: map_of_SomeD)

text \<open>
  Several calls of one tool in a message collapse: only the last one is executed, and every call of that tool is
  answered with its result and its id, whatever arguments the call had.
\<close>

theorem calls_of_a_tool_collapse:
  assumes "execute_all str R draw calls = Inr rs" "registered_names R"
    and "c \<in> set calls" "get_tool R (tc_name c) = Some t" "find (\<lambda>d. tc_name d = tc_name c) (rev calls) = Some final"
  shows "length rs = length calls \<and>
    list_all (\<lambda>(d, r). tc_name d = tc_name c \<longrightarrow> Inr r = fst (execute_single str R draw final)) (zip calls rs)"
proof -
  define tools where "tools = List.map_filter (\<lambda>c. get_tool R (tc_name c)) calls"
  define table where "table = foldl (\<lambda>d c. dict_set (tc_name c) c d) [] calls"
  define run where "run = (\<lambda>c. fst (execute_single str R draw c))"
  have t: "t \<in> set tools" "tl_name t = tc_name c"
    using assms(2-4) by (auto simp: tools_def map_filter_def registered_nameD intro!: image_eqI [of _ _ c])
  have ne: "calls \<noteq> []" "tools \<noteq> []" using t assms(3) by auto
  obtain levels where lv: "resolve_dependency_levels tools = Inr levels"
    using assms(1) ne by (cases "resolve_dependency_levels tools") (simp_all add: execute_all_def Let_def flip: tools_def)
  obtain results where res: "gather_results run table (concat levels) = Inr results"
    using assms(1) ne lv
    by (cases "gather_results run table (concat levels)") (simp_all add: execute_all_def Let_def run_def table_def flip: tools_def)
  obtain g where rs: "rs = map (\<lambda>c. dict_getd results (tc_name c) (g c)) calls"
  proof -
    have "rs = map (\<lambda>c. dict_getd results (tc_name c)
       ((tool_error (tc_name c) (''No result for '' @ [CHR 0x27] @ tc_name c @ [CHR 0x27]))\<lparr>tres_call := tc_id c\<rparr>)) calls"
      using assms(1) ne lv res by (simp add: execute_all_def Let_def run_def table_def flip: tools_def)
    then show thesis by (rule that)
  qed
  have mem: "tc_name c \<in> set (concat levels)"
    using level_names [OF lv] t by force
  have get: "map_of table (tc_name c) = Some final"
    using assms(5) by (simp add: table_def name_to_call_get)
  obtain r where r: "run final = Inr r"
    using gather_results_runs [OF res mem get] by blast
  have "map_of results (tc_name c) = Some r"
    using gather_results_get [OF res, of "tc_name c"] mem get r by simp
  then show ?thesis
    using r by (auto simp: rs list_all_iff in_set_zip run_def dict_getd_def)
qed

subsection \<open>Cleaned inputs\<close>

fun harmless :: "json \<Rightarrow> bool" where
  "harmless (JStr s) = list_all (\<lambda>c. \<not> dangerous c) s"
| "harmless (JObj d) = list_all (\<lambda>(k, v). harmless v) d"
| "harmless (JList xs) = list_all harmless xs"
| "harmless v = True"

lemma sanitize_value_harmless: "harmless (sanitize_value v)"
  by (induction v rule: sanitize_value.induct) (auto simp: list_all_iff)

lemma sanitize_value_id: "harmless v \<Longrightarrow> sanitize_value v = v"
  by (induction v rule: sanitize_value.induct) (auto simp: list_all_iff filter_id_conv intro!: map_idI)

text \<open>
  Sanitizing the inputs of a tool leaves no control character but the tabulator in any string value, at any depth of
  lists and dictionaries, keeps the keys and values otherwise, and changes nothing the second time.
\<close>

theorem sanitized_inputs_harmless:
  "list_all (\<lambda>(k, v). harmless v) (sanitize (Some inputs)) \<and> dict_keys (sanitize (Some inputs)) = dict_keys inputs \<and>
   sanitize (Some (sanitize (Some inputs))) = sanitize (Some inputs)"
  by (auto simp: sanitize_def list_all_iff sanitize_value_harmless dict_keys_def sanitize_value_id)

subsection \<open>Reloading a provider\<close>

lemma unregister_get: "map_of (rg_tools (snd (unregister m R))) n = (if n = m then None else map_of (rg_tools R) n)"
  by (auto simp: unregister_def split: option.splits)

lemma drop_tools_get: "map_of (rg_tools (drop_tools ns R)) n = (if n \<in> ns then None else map_of (rg_tools R) n)"
proof -
  have f: "map_of (rg_tools (foldl (\<lambda>R n. snd (unregister n R)) R ms)) n = (if n \<in> set ms then None else map_of (rg_tools R) n)" for ms R
    by (induction ms arbitrary: R) (auto simp: unregister_get)
  show ?thesis by (auto simp: drop_tools_def f)
qed

lemma register_all_get:
  "map_of (rg_tools (foldl register_tool R ts)) n =
     (case find (\<lambda>t. tl_name t = n) (rev ts) of None \<Rightarrow> map_of (rg_tools R) n | Some t \<Rightarrow> Some t)"
  by (induction ts rule: rev_induct) (auto simp: register_tool_def)

lemma reload_refreshes:
  assumes "name \<in> set KNOWN_PROVIDERS" "source name = Inr ts"
  shows "get_tool (snd (reload_provider False source name R)) n =
    (case find (\<lambda>t. tl_name t = n) (rev ts) of
       Some t \<Rightarrow> Some t
     | None \<Rightarrow> if n \<in> dict_getd (rg_provided R) name {} then None else get_tool R n)"
  using assms
  by (auto simp: reload_provider_def discover_def get_tool_def register_all_get drop_tools_get Let_def dict_getd_def
      split: option.splits)

lemma reload_in_a_loop_empties:
  \<comment> \<open>a tool that another provider has registered under the name since goes as well\<close>
  "fst (reload_provider True source name R) = [] \<and>
   get_tool (snd (reload_provider True source name R)) n =
     (if n \<in> dict_getd (rg_provided R) name {} then None else get_tool R n)"
  by (auto simp: reload_provider_def discover_def get_tool_def drop_tools_get Let_def dict_getd_def split: option.splits)

subsection \<open>What the audit log shows\<close>

lemma secrets_masked:
  assumes "dict_get params k = Some v" "py_lower k \<in> set SECRET_KEYS"
  shows "dict_get (sanitize_params dumps n params) k = Some (JStr ''***'')"
  using assms unfolding sanitize_params_def by (simp add: map_of_map_values)

lemma nested_secret_logged:
  \<comment> \<open>the mask does not reach into dictionaries and lists\<close>
  assumes "dict_get params k = Some (JObj d)" "py_lower k \<notin> set SECRET_KEYS" "length (dumps (JObj d)) \<le> n"
  shows "dict_get (sanitize_params dumps n params) k = Some (JStr (dumps (JObj d)))"
  using assms unfolding sanitize_params_def by (simp add: map_of_map_values shorten_def)

subsection \<open>Concrete inputs\<close>

definition plain_tool :: "string \<Rightarrow> visibility \<Rightarrow> string list \<Rightarrow> tool" where
  \<comment> \<open>a tool that always answers \<open>ok\<close>\<close>
  "plain_tool n v deps =
     \<lparr>tl_name = n, tl_description = ''d'', tl_params = [], tl_handler = Some (\<lambda>k a. Returns (JStr ''ok'')), tl_async = None,
      tl_category = ''c'', tl_tags = [], tl_visibility = v, tl_retry = None, tl_depends = deps, tl_provider = ''sdk''\<rparr>"

lemma anonymous_is_offered_all_witness:
  "to_openai_format (plain_tool ''t'' Vis_admin []) \<in>
     set (get_tools_for_llm (register_tool new_registry (plain_tool ''t'' Vis_admin [])) ''openai'' None)"
  using anonymous_is_offered_all [of "register_tool new_registry (plain_tool ''t'' Vis_admin [])" "''t''" "plain_tool ''t'' Vis_admin []"]
  by (simp add: register_tool_def new_registry_def plain_tool_def)

lemma levels_are_a_schedule_witness:
  "after_needs (dependencies [plain_tool ''a'' Vis_user [''b''], plain_tool ''b'' Vis_user []]) {} [[''b''], [''a'']]"
  using levels_are_a_schedule [of "[plain_tool ''a'' Vis_user [''b''], plain_tool ''b'' Vis_user []]" "[[''b''], [''a'']]"]
  by (simp add: resolve_dependency_levels_def dependencies_def plain_tool_def level_loop.simps needs_def dict_getd_def dict_set_def)

lemma levels_fail_iff_witness:
  "isl (resolve_dependency_levels [plain_tool ''a'' Vis_user [''b''], plain_tool ''b'' Vis_user [''a'']])"
  using levels_fail_iff [of "[plain_tool ''a'' Vis_user [''b''], plain_tool ''b'' Vis_user [''a'']]"]
  by (auto simp: dependencies_def plain_tool_def needs_def dict_getd_def dict_set_def intro!: exI [of _ "{''a'', ''b''}"])

definition failing_tool :: tool where
  \<comment> \<open>answers at the second attempt\<close>
  "failing_tool = (plain_tool ''a'' Vis_user [])
     \<lparr>tl_handler := Some (\<lambda>k a. if k = 0 then Throws (ValueError ''x'') else Returns (JStr ''ok'')),
      tl_retry := Some \<lparr>rp_max_retries = 2, rp_backoff = ''constant'', rp_initial = 1, rp_jitter = False\<rparr>\<rparr>"

lemma tool_retries_bounded_witness:
  "length (snd (execute_single (\<lambda>v. []) (register_tool new_registry failing_tool) (\<lambda>n. 0) \<lparr>tc_id = ''1'', tc_name = ''a'', tc_args = []\<rparr>)) \<le> 2"
  using tool_retries_bounded [of "\<lambda>v. []" "register_tool new_registry failing_tool" "\<lambda>n. 0" "\<lparr>tc_id = ''1'', tc_name = ''a'', tc_args = []\<rparr>"
      "\<lparr>tres_name = ''a'', tres_call = ''1'', tres_content = ''ok'', tres_error = None, tres_retries = 1\<rparr>" "[1]" failing_tool
      "\<lparr>rp_max_retries = 2, rp_backoff = ''constant'', rp_initial = 1, rp_jitter = False\<rparr>"]
  by (simp add: execute_single_def register_tool_def new_registry_def failing_tool_def plain_tool_def get_tool_def dict_set_def
      eval_nat_numeral execute_async_def checked_tool_def validate_params_def run_handler_def tool_error_def truthy_str_def
      compute_backoff_def str_with_def)

lemma calls_of_a_tool_collapse_witness:
  "length [\<lparr>tres_name = ''a'', tres_call = ''2'', tres_content = ''ok'', tres_error = None, tres_retries = 0\<rparr>,
           \<lparr>tres_name = ''a'', tres_call = ''2'', tres_content = ''ok'', tres_error = None, tres_retries = 0\<rparr>] = 2 \<and>
   fst (execute_single (\<lambda>v. []) (register_tool new_registry (plain_tool ''a'' Vis_user [])) (\<lambda>n. 0) \<lparr>tc_id = ''2'', tc_name = ''a'', tc_args = []\<rparr>) =
     Inr \<lparr>tres_name = ''a'', tres_call = ''2'', tres_content = ''ok'', tres_error = None, tres_retries = 0\<rparr>"
  using calls_of_a_tool_collapse [of "\<lambda>v. []" "register_tool new_registry (plain_tool ''a'' Vis_user [])" "\<lambda>n. 0"
      "[\<lparr>tc_id = ''1'', tc_name = ''a'', tc_args = []\<rparr>, \<lparr>tc_id = ''2'', tc_name = ''a'', tc_args = []\<rparr>]"
      "[\<lparr>tres_name = ''a'', tres_call = ''2'', tres_content = ''ok'', tres_error = None, tres_retries = 0\<rparr>,
        \<lparr>tres_name = ''a'', tres_call = ''2'', tres_content = ''ok'', tres_error = None, tres_retries = 0\<rparr>]"
      "\<lparr>tc_id = ''1'', tc_name = ''a'', tc_args = []\<rparr>" "plain_tool ''a'' Vis_user []" "\<lparr>tc_id = ''2'', tc_name = ''a'', tc_args = []\<rparr>"]
  by (simp add: execute_all_def execute_single_def register_tool_def new_registry_def plain_tool_def get_tool_def dict_set_def
      execute_async_def checked_tool_def validate_params_def run_handler_def truthy_str_def str_with_def registered_names_def
      resolve_dependency_levels_def dependencies_def level_loop.simps needs_def dict_getd_def map_filter_def)

end
