(* ===== verification/Evaluation.thy ===== *)
theory Evaluation
  imports Confidence
begin

text \<open>
  Evaluation: the metrics of retrieval (\<^verbatim>\<open>proxy/app/core/evaluation.py\<close>), the gate that decides whether a model may be
  promoted (\<^verbatim>\<open>model_evolution/eval_gate.py\<close>), its metrics by natural language inference
  (\<^verbatim>\<open>model_evolution/nli_evaluator.py\<close>), the RAGAS scores with their cache (\<^verbatim>\<open>core/ragas_metrics.py\<close>,
  \<^verbatim>\<open>core/ragas_eval.py\<close>) and the detection of hallucinations (\<^verbatim>\<open>core/hallucination.py\<close>). The modules have their own
  copies of the functions on claims and words of \<^verbatim>\<open>core/confidence.py\<close>, which are those of theory \<open>Confidence\<close>. The
  inference model and the embedder are parameters.
\<close>

subsection \<open>Retrieval metrics\<close>

fun reciprocal_rank :: "nat \<Rightarrow> string set \<Rightarrow> string list \<Rightarrow> real" where
  \<comment> \<open>of the first relevant document; the first one has the given rank\<close>
  "reciprocal_rank rank relevant [] = 0"
| "reciprocal_rank rank relevant (doc # docs) =
     (if doc \<in> relevant then 1 / real rank else reciprocal_rank (rank + 1) relevant docs)"

definition compute_mrr :: "string list list \<Rightarrow> string set list \<Rightarrow> real" where
  "compute_mrr retrieved_lists relevant_sets =
     (let qs = filter (\<lambda>(retrieved, relevant). relevant \<noteq> {}) (zip retrieved_lists relevant_sets) in
      if retrieved_lists = [] then 0
      else if qs \<noteq> [] then sum_list (map (\<lambda>(retrieved, relevant). reciprocal_rank 1 relevant retrieved) qs) / real (length qs)
      else 0)"

definition compute_recall_at_k :: "string list \<Rightarrow> string set \<Rightarrow> nat \<Rightarrow> real" where
  "compute_recall_at_k retrieved relevant k =
     (if relevant = {} then 1 else real (card (set (take k retrieved) \<inter> relevant)) / real (card relevant))"

definition discounted :: "real list \<Rightarrow> real" where
  "discounted rels = (\<Sum>i<length rels. rels ! i / log 2 (real i + 2))"

definition compute_ndcg_at_k :: "string list \<Rightarrow> string set \<Rightarrow> nat \<Rightarrow> real" where
  "compute_ndcg_at_k retrieved relevant k =
     (if relevant = {} then 1
      else
        (let binary_relevance = map (\<lambda>doc. if doc \<in> relevant then 1 else 0) (take k retrieved);
             ideal_relevance = replicate (min (card relevant) k) 1 @ replicate (k - card relevant) 0;
             dcg = discounted (take k binary_relevance);
             idcg = discounted (take k ideal_relevance)
         in if idcg > 0 then dcg / idcg else 0))"

definition compute_precision_at_k :: "string list \<Rightarrow> string set \<Rightarrow> nat \<Rightarrow> real" where
  "compute_precision_at_k retrieved relevant k =
     (if retrieved = [] then 0
      else if k > 0 then real (card (set (take k retrieved) \<inter> relevant)) / real k else 0)"

definition average :: "real list \<Rightarrow> real" where
  "average xs = (if xs \<noteq> [] then sum_list xs / real (length xs) else 0)"

definition compute_all_metrics :: "string list list \<Rightarrow> string set list \<Rightarrow> (string, real) dict" where
  "compute_all_metrics retrieved_lists relevant_sets =
     (let each = (\<lambda>f k. average (map (\<lambda>(r, rel). f r rel k) (zip retrieved_lists relevant_sets)))
      in (''mrr'', compute_mrr retrieved_lists relevant_sets) #
         map (\<lambda>k. (''recall@'' @ nat_str k, each compute_recall_at_k k)) [5, 10, 20] @
         map (\<lambda>k. (''ndcg@'' @ nat_str k, each compute_ndcg_at_k k)) [5, 10] @
         map (\<lambda>k. (''precision@'' @ nat_str k, each compute_precision_at_k k)) [5] @
         [(''num_queries'', real (length retrieved_lists))])"

record eval_record =
  er_relevant_docs :: "string list"
    \<comment> \<open>empty when the record has no such key\<close>
  er_relevant_chunks :: "string list"
  er_retrieved_docs :: "string list"
  er_retrieved_chunks :: "string list"

definition extract_relevant :: "eval_record \<Rightarrow> string set" where
  "extract_relevant r = set (if er_relevant_docs r \<noteq> [] then er_relevant_docs r else er_relevant_chunks r)"

definition extract_retrieved :: "eval_record \<Rightarrow> string list" where
  "extract_retrieved r = (if er_retrieved_docs r \<noteq> [] then er_retrieved_docs r else er_retrieved_chunks r)"

record split_metrics =
  sm_mrr :: real
  sm_recall :: "(nat, real) dict"
  sm_ndcg :: "(nat, real) dict"
  sm_precision :: "(nat, real) dict"
  sm_queries :: int

definition split_by_k :: "nat list \<Rightarrow> nat list \<Rightarrow> nat list \<Rightarrow> (string, real) dict \<Rightarrow> split_metrics" where
  "split_by_k k_recall k_ndcg k_precision flat =
     (let of_name = (\<lambda>name k. (k, dict_getd flat (name @ nat_str k) 0)) in
      \<lparr>sm_mrr = dict_getd flat ''mrr'' 0, sm_recall = map (of_name ''recall@'') k_recall,
       sm_ndcg = map (of_name ''ndcg@'') k_ndcg, sm_precision = map (of_name ''precision@'') k_precision,
       sm_queries = py_trunc (dict_getd flat ''num_queries'' 0)\<rparr>)"

definition evaluate_dataset :: "nat list \<Rightarrow> nat list \<Rightarrow> nat list \<Rightarrow> int \<Rightarrow> eval_record list \<Rightarrow> split_metrics" where
  "evaluate_dataset k_recall k_ndcg k_precision top_k records =
     split_by_k k_recall k_ndcg k_precision
       (compute_all_metrics (map (\<lambda>r. slice_to top_k (extract_retrieved r)) records) (map extract_relevant records))"

subsection \<open>Metrics lie in the unit interval\<close>

lemma reciprocal_rank_bounds: "0 < n \<Longrightarrow> 0 \<le> reciprocal_rank n rel docs \<and> reciprocal_rank n rel docs \<le> 1"
  by (induction n rel docs rule: reciprocal_rank.induct) (auto simp: divide_le_eq)

lemma recall_bounds:
  assumes "finite rel"
  shows "0 \<le> compute_recall_at_k r rel k \<and> compute_recall_at_k r rel k \<le> 1"
  using assms by (auto simp: compute_recall_at_k_def divide_le_eq card_gt_0_iff intro!: card_mono)

lemma recall_mono:
  assumes "finite rel" "k \<le> k'"
  shows "compute_recall_at_k r rel k \<le> compute_recall_at_k r rel k'"
proof -
  have "set (take k r) \<inter> rel \<subseteq> set (take k' r) \<inter> rel" using set_take_subset_set_take [OF assms(2), of r] by blast
  then have "card (set (take k r) \<inter> rel) \<le> card (set (take k' r) \<inter> rel)" using assms(1) by (intro card_mono) auto
  then show ?thesis by (auto simp: compute_recall_at_k_def intro!: divide_right_mono)
qed

lemma recall_one_iff:
  assumes "finite rel" "rel \<noteq> {}"
  shows "compute_recall_at_k r rel k = 1 \<longleftrightarrow> rel \<subseteq> set (take k r)"
proof -
  have "card (set (take k r) \<inter> rel) = card rel \<longleftrightarrow> rel \<subseteq> set (take k r)"
    using card_subset_eq [OF assms(1), of "set (take k r) \<inter> rel"] by (auto simp: Int_absorb1)
  then show ?thesis using assms by (auto simp: compute_recall_at_k_def)
qed

text \<open>The gain of a list of hits never exceeds the gain of as many hits at the front.\<close>

definition weight :: "nat \<Rightarrow> real" where
  "weight i = 1 / log 2 (real i + 2)"

lemma weight_pos: "0 < weight i"
  by (simp add: weight_def zero_less_log_cancel_iff)

lemma weight_antimono: "i \<le> j \<Longrightarrow> weight j \<le> weight i"
  unfolding weight_def by (intro divide_left_mono) (auto simp: zero_less_log_cancel_iff intro!: mult_pos_pos)

lemma sum_weight_le:
  "finite A \<Longrightarrow> sum weight A \<le> sum weight {..<card A}"
proof (induction "card A" arbitrary: A)
  case 0
  then show ?case by simp
next
  case (Suc n)
  then have ne: "A \<noteq> {}" by auto
  define m where "m = Max A"
  have m: "m \<in> A" using Suc.prems ne by (simp add: m_def)
  have c: "card (A - {m}) = n" using Suc m by simp
  have "A \<subseteq> {..m}" using Suc.prems by (auto simp: m_def)
  then have "card A \<le> Suc m" using card_mono [of "{..m}" A] by simp
  then have "weight m \<le> weight n" using Suc.hyps(2) by (intro weight_antimono) simp
  moreover have "sum weight (A - {m}) \<le> sum weight {..<n}" using Suc.hyps(1) [of "A - {m}"] c Suc.prems by simp
  ultimately have "sum weight A \<le> sum weight {..<n} + weight n"
    using Suc.prems m by (simp add: sum.remove [of A m])
  then show ?case using Suc.hyps(2) [symmetric] by simp
qed

lemma discounted_hits:
  "discounted (map (\<lambda>d. if d \<in> rel then 1 else 0) ds) = sum weight {i. i < length ds \<and> ds ! i \<in> rel}"
proof -
  have "discounted (map (\<lambda>d. if d \<in> rel then 1 else 0) ds) = (\<Sum>i\<in>{..<length ds}. if ds ! i \<in> rel then weight i else 0)"
    unfolding discounted_def weight_def by (rule sum.cong) auto
  also have "\<dots> = sum weight ({..<length ds} \<inter> {i. ds ! i \<in> rel})"
    by (simp add: sum.inter_restrict)
  also have "{..<length ds} \<inter> {i. ds ! i \<in> rel} = {i. i < length ds \<and> ds ! i \<in> rel}" by auto
  finally show ?thesis .
qed

lemma discounted_ideal: "discounted (replicate n 1 @ replicate m 0) = sum weight {..<n}"
proof -
  have "discounted (replicate n 1 @ replicate m 0) = (\<Sum>i\<in>{..<n + m}. if i \<in> {..<n} then weight i else 0)"
    unfolding discounted_def weight_def by (rule sum.cong) (auto simp: nth_append)
  also have "\<dots> = sum weight ({..<n + m} \<inter> {..<n})" by (simp add: sum.inter_restrict)
  also have "{..<n + m} \<inter> {..<n} = {..<n}" by auto
  finally show ?thesis .
qed

lemma ndcg_eq:
  assumes "rel \<noteq> {}"
  shows "compute_ndcg_at_k r rel k =
    (let hits = {i. i < min k (length r) \<and> r ! i \<in> rel}; ideal = sum weight {..<min (card rel) k}
     in if ideal > 0 then sum weight hits / ideal else 0)"
proof -
  have h: "{i. i < length (take k r) \<and> take k r ! i \<in> rel} = {i. i < min k (length r) \<and> r ! i \<in> rel}" by auto
  have "length (replicate (min (card rel) k) 1 @ replicate (k - card rel) (0 :: real)) = k" by simp
  then have i: "take k (replicate (min (card rel) k) 1 @ replicate (k - card rel) (0 :: real)) =
      replicate (min (card rel) k) 1 @ replicate (k - card rel) 0" by simp
  have t: "take k (map f (take k r)) = map f (take k r)" for f :: "string \<Rightarrow> real" by simp
  show ?thesis
    using assms unfolding compute_ndcg_at_k_def Let_def t i discounted_hits discounted_ideal h by simp
qed

lemma card_hits:
  assumes "distinct (take k r)" "finite rel"
  shows "card {i. i < min k (length r) \<and> r ! i \<in> rel} \<le> min (card rel) k"
proof -
  let ?H = "{i. i < min k (length r) \<and> r ! i \<in> rel}"
  have inj: "inj_on (\<lambda>i. r ! i) ?H"
    using assms(1) by (auto simp: inj_on_def distinct_conv_nth)
  have "card ?H = card ((\<lambda>i. r ! i) ` ?H)" by (rule card_image [OF inj, symmetric])
  also have "\<dots> \<le> card rel" using assms(2) by (intro card_mono) auto
  finally have a: "card ?H \<le> card rel" .
  have "card ?H \<le> card {..<k}" by (intro card_mono) auto
  then show ?thesis using a by simp
qed

text \<open>
  C29. Normalised gain is normalised: when no document is retrieved twice among the first \<open>k\<close>, it lies between 0 and 1, and it
  is 1 when the relevant documents come first.
\<close>

theorem ndcg_normalised:
  assumes "distinct (take k r)" "finite rel" "0 < k"
  shows "0 \<le> compute_ndcg_at_k r rel k \<and> compute_ndcg_at_k r rel k \<le> 1 \<and>
    (set (take (min (card rel) k) r) \<subseteq> rel \<and> min (card rel) k \<le> length r \<longrightarrow> compute_ndcg_at_k r rel k = 1)"
proof (cases "rel = {}")
  case True
  then show ?thesis by (simp add: compute_ndcg_at_k_def)
next
  case False
  let ?H = "{i. i < min k (length r) \<and> r ! i \<in> rel}" and ?n = "min (card rel) k"
  have fin: "finite ?H" by simp
  have "0 < ?n" using False assms(2,3) by (simp add: card_gt_0_iff)
  then have pos: "0 < sum weight {..<?n}" by (intro sum_pos) (auto simp: weight_pos)
  have e: "compute_ndcg_at_k r rel k = sum weight ?H / sum weight {..<?n}"
    using pos by (simp add: ndcg_eq [OF False] Let_def)
  have le: "sum weight ?H \<le> sum weight {..<?n}"
  proof -
    have "sum weight ?H \<le> sum weight {..<card ?H}" by (rule sum_weight_le [OF fin])
    also have "\<dots> \<le> sum weight {..<?n}"
      using card_hits [OF assms(1,2)] by (intro sum_mono2) (auto simp: weight_pos less_imp_le)
    finally show ?thesis .
  qed
  have nonneg: "0 \<le> sum weight ?H" by (intro sum_nonneg) (simp add: weight_pos less_imp_le)
  have top: "sum weight ?H = sum weight {..<?n}" if "set (take ?n r) \<subseteq> rel" "?n \<le> length r"
  proof -
    have "{..<?n} \<subseteq> ?H"
    proof
      fix i assume i: "i \<in> {..<?n}"
      then have "i < length (take ?n r)" using that(2) by simp
      then have "take ?n r ! i \<in> rel" using that(1) nth_mem by blast
      then show "i \<in> ?H" using i that(2) by auto
    qed
    then have "sum weight {..<?n} \<le> sum weight ?H" using fin by (intro sum_mono2) (auto simp: weight_pos less_imp_le)
    then show ?thesis using le by simp
  qed
  show ?thesis using pos le nonneg top by (simp add: e divide_le_eq)
qed

theorem ndcg_normalised_witness:
  "compute_ndcg_at_k [''a'', ''b''] {''a''} 2 = 1"
  using ndcg_normalised [of 2 "[''a'', ''b'']" "{''a''}"] by simp

lemma weight_0: "weight 0 = 1"
  by (simp add: weight_def)

text \<open>
  A document that is retrieved twice is rewarded twice: for one relevant document, listed at the first two ranks, the
  normalised gain exceeds 1, whereas recall and precision count it once.
\<close>

theorem repeated_document_exceeds_one:
  "1 < compute_ndcg_at_k [d, d] {d} 2 \<and> compute_recall_at_k [d, d] {d} 2 = 1 \<and> compute_precision_at_k [d, d] {d} 2 = 1 / 2"
proof -
  have "{i. i < Suc (Suc 0) \<and> [d, d] ! i = d} = {0, 1}" by (auto simp: less_Suc_eq)
  then have "compute_ndcg_at_k [d, d] {d} 2 = weight 0 + weight 1"
    by (simp add: ndcg_eq weight_0 lessThan_Suc numeral_2_eq_2)
  then show ?thesis
    using weight_pos [of 1] by (simp add: weight_0 compute_recall_at_k_def compute_precision_at_k_def)
qed

lemma average_bounds:
  assumes "list_all (\<lambda>x. 0 \<le> x \<and> x \<le> 1) xs"
  shows "0 \<le> average xs \<and> average xs \<le> 1"
proof -
  have "0 \<le> sum_list xs \<and> sum_list xs \<le> real (length xs)"
    using assms by (induction xs) auto
  then show ?thesis by (auto simp: average_def divide_le_eq)
qed

lemma mrr_average:
  assumes "retrieved_lists \<noteq> []"
  shows "compute_mrr retrieved_lists relevant_sets =
    average (map (\<lambda>(r, rel). reciprocal_rank 1 rel r) (filter (\<lambda>(r, rel). rel \<noteq> {}) (zip retrieved_lists relevant_sets)))"
  using assms by (simp add: compute_mrr_def average_def Let_def)

lemma mrr_bounds: "0 \<le> compute_mrr rs rels \<and> compute_mrr rs rels \<le> 1"
proof (cases "rs = []")
  case True
  then show ?thesis by (simp add: compute_mrr_def)
next
  case False
  have "list_all (\<lambda>x. 0 \<le> x \<and> x \<le> 1) (map (\<lambda>(r, rel). reciprocal_rank 1 rel r) (filter (\<lambda>(r, rel). rel \<noteq> {}) (zip rs rels)))"
    by (auto simp: list_all_iff reciprocal_rank_bounds)
  from average_bounds [OF this] show ?thesis by (simp add: mrr_average [OF False])
qed

lemma unlabelled_each:
  assumes "rels = replicate (length rs) {}" "rs \<noteq> []" "\<And>r k. f r {} k = (c :: real)"
  shows "average (map (\<lambda>(r, rel). f r rel k) (zip rs rels)) = c"
proof -
  have "map (\<lambda>(r, rel). f r rel k) (zip rs rels) = replicate (length rs) c"
    using assms(1,3) by (auto intro!: nth_equalityI)
  then show ?thesis using assms(2) by (simp add: average_def sum_list_replicate)
qed

text \<open>
  Queries without labels count as perfect: when no query has relevant documents, recall and normalised gain are 1 for
  every cut, while the mean reciprocal rank, which skips such queries, and the precision are 0.
\<close>

theorem unlabelled_queries_perfect:
  assumes "rs \<noteq> []" "rels = replicate (length rs) {}" "k \<in> {5, 10, 20}" "list_all (\<lambda>r. r \<noteq> []) rs"
  shows "dict_get (compute_all_metrics rs rels) (''recall@'' @ nat_str k) = Some 1 \<and>
    dict_get (compute_all_metrics rs rels) ''mrr'' = Some 0 \<and>
    dict_get (compute_all_metrics rs rels) (''precision@'' @ nat_str 5) = Some 0"
proof -
  have recall: "average (map (\<lambda>(r, rel). compute_recall_at_k r rel k) (zip rs rels)) = 1" for k
    by (rule unlabelled_each [OF assms(2,1)]) (simp add: compute_recall_at_k_def)
  have prec: "average (map (\<lambda>(r, rel). compute_precision_at_k r rel k) (zip rs rels)) = 0" for k
    by (rule unlabelled_each [OF assms(2,1)]) (simp add: compute_precision_at_k_def)
  have "filter (\<lambda>(r, rel). rel \<noteq> {}) (zip rs rels) = []"
    using assms(2) by (auto simp: filter_empty_conv dest: set_zip_rightD)
  then have mrr: "compute_mrr rs rels = 0" by (simp add: compute_mrr_def Let_def)
  have n: "nat_str 5 = ''5''" "nat_str 10 = ''10''" "nat_str 20 = ''20''" by code_simp+
  show ?thesis
    using assms(3) unfolding compute_all_metrics_def Let_def recall prec mrr
    by (elim insertE emptyE) (simp_all add: n)
qed

theorem unlabelled_queries_perfect_witness:
  "dict_get (compute_all_metrics [[''a'']] [{}]) (''recall@'' @ nat_str 20) = Some 1"
  using unlabelled_queries_perfect [of "[[''a'']]" "[{}]" 20] by simp

subsection \<open>The gate\<close>

definition VALUE_SCORE_QUALITY_WEIGHT :: real where
  "VALUE_SCORE_QUALITY_WEIGHT = 7/10"

definition VALUE_SCORE_COST_WEIGHT :: real where
  "VALUE_SCORE_COST_WEIGHT = 3/10"

definition value_score :: "real \<Rightarrow> real \<Rightarrow> real \<Rightarrow> real \<Rightarrow> real" where
  "value_score quality cost_per_1k_tokens quality_min quality_max =
     (let q_span = quality_max - quality_min;
          norm_q = (if q_span \<le> 0 then 0 else (quality - quality_min) / q_span);
          norm_q = min (max norm_q 0) 1;
          cost_term = 1 / (1 + ln (1 + max cost_per_1k_tokens 0))
      in VALUE_SCORE_QUALITY_WEIGHT * norm_q + VALUE_SCORE_COST_WEIGHT * cost_term)"

datatype gate_status = Gate_pass | Gate_fail | Gate_warn

record threshold =
  th_metric :: string
  th_value :: real
  th_comparison :: string
  th_severity :: string

definition threshold_met :: "threshold \<Rightarrow> real \<Rightarrow> exn + bool" where
  "threshold_met t value =
     (if th_comparison t = ''gt'' then Inr (value > th_value t)
      else if th_comparison t = ''gte'' then Inr (value \<ge> th_value t)
      else if th_comparison t = ''lt'' then Inr (value < th_value t)
      else if th_comparison t = ''lte'' then Inr (value \<le> th_value t)
      else Inl (ValueError (''Unknown comparison '' @ th_comparison t)))"

datatype gate_message =
  \<comment> \<open>the messages of the source, as values\<close>
    Not_met threshold real
  | Regressed string real
  | No_baseline

record gate_config =
  gc_model :: string
  gc_thresholds :: "threshold list"
  gc_require_baseline :: bool
  gc_tolerance :: real
  gc_min_samples :: int

record gate_result =
  gr_status :: gate_status
  gr_model :: string
  gr_version :: string
  gr_metrics :: "(string, real) dict"
  gr_failures :: "gate_message list"
  gr_warnings :: "gate_message list"
  gr_baseline :: "(string, real) dict"
  gr_deltas :: "(string, real) dict"
  gr_run :: "string option"

fun check_thresholds :: "(string, real) dict \<Rightarrow> threshold list \<Rightarrow> exn + gate_message list \<times> gate_message list" where
  \<comment> \<open>failures and warnings\<close>
  "check_thresholds metrics [] = Inr ([], [])"
| "check_thresholds metrics (t # ts) =
     (case dict_get metrics (th_metric t) of
        None \<Rightarrow> check_thresholds metrics ts
      | Some v \<Rightarrow>
          (case threshold_met t v of
             Inl e \<Rightarrow> Inl e
           | Inr passed \<Rightarrow>
               map_sum id (\<lambda>(fs, ws).
                 if passed then (fs, ws)
                 else if th_severity t = ''fail'' then (Not_met t v # fs, ws)
                 else (fs, Not_met t v # ws)) (check_thresholds metrics ts)))"

definition delta_metrics :: "(string, real) dict \<Rightarrow> (string, real) dict \<Rightarrow> (string, real) dict" where
  "delta_metrics metrics baseline =
     List.map_filter (\<lambda>(k, v). map_option (\<lambda>b. (k, v - b)) (dict_get baseline k)) metrics"

definition regressions :: "gate_config \<Rightarrow> (string, real) dict \<Rightarrow> gate_message list" where
  "regressions cfg deltas =
     (if gc_tolerance cfg > 0
      then List.map_filter (\<lambda>t.
             if th_severity t \<noteq> ''fail'' then None
             else (case dict_get deltas (th_metric t) of
                     None \<Rightarrow> None
                   | Some d \<Rightarrow> if d < - gc_tolerance cfg then Some (Regressed (th_metric t) d) else None)) (gc_thresholds cfg)
      else [])"

definition gate_evaluate ::
  "(string, real) dict \<Rightarrow> gate_config \<Rightarrow> (string, real) dict option \<Rightarrow> string option \<Rightarrow> exn + gate_result" where
  "gate_evaluate metrics cfg baseline_metrics version =
     (case check_thresholds metrics (gc_thresholds cfg) of
        Inl e \<Rightarrow> Inl e
      | Inr (failures, warnings) \<Rightarrow>
          (let baseline = (case baseline_metrics of None \<Rightarrow> [] | Some b \<Rightarrow> b);
               deltas = (if baseline \<noteq> [] then delta_metrics metrics baseline else []);
               warnings = warnings @ (if baseline \<noteq> [] then regressions cfg deltas
                                      else if gc_require_baseline cfg then [No_baseline] else []);
               status = (if failures \<noteq> [] then Gate_fail else if warnings \<noteq> [] then Gate_warn else Gate_pass)
           in Inr \<lparr>gr_status = status, gr_model = gc_model cfg, gr_version = (if truthy_str version then the version else ''unknown''),
                   gr_metrics = metrics, gr_failures = failures, gr_warnings = warnings, gr_baseline = baseline,
                   gr_deltas = deltas, gr_run = None\<rparr>))"

definition from_mlflow_run ::
  "(string, real) dict \<Rightarrow> gate_config \<Rightarrow> string option \<Rightarrow> (string, real) dict option \<Rightarrow> exn + gate_result" where
  "from_mlflow_run metrics cfg run_id baseline_metrics =
     map_sum id (\<lambda>r. r\<lparr>gr_run := run_id\<rparr>) (gate_evaluate metrics cfg baseline_metrics run_id)"

definition is_passing :: "gate_result \<Rightarrow> bool" where
  "is_passing r \<longleftrightarrow> gr_status r \<noteq> Gate_fail"

text \<open>
  The value of a model lies strictly above 0 and at most at 1 for every quality, cost and scale, does not fall when the
  quality rises and does not rise with the cost.
\<close>

theorem value_score_bounds:
  "0 < value_score q c lo hi \<and> value_score q c lo hi \<le> 1 \<and>
   (q \<le> q' \<longrightarrow> value_score q c lo hi \<le> value_score q' c lo hi) \<and>
   (c \<le> c' \<longrightarrow> value_score q c' lo hi \<le> value_score q c lo hi)"
proof -
  let ?n = "\<lambda>q. min (max (if hi - lo \<le> 0 then 0 else (q - lo) / (hi - lo)) 0) (1 :: real)"
  let ?t = "\<lambda>c. 1 / (1 + ln (1 + max c 0)) :: real"
  have v: "value_score q c lo hi = 7/10 * ?n q + 3/10 * ?t c" for q c
    by (simp add: value_score_def Let_def VALUE_SCORE_QUALITY_WEIGHT_def VALUE_SCORE_COST_WEIGHT_def)
  have l: "0 \<le> ln (1 + max c 0)" for c :: real by simp
  have t: "0 < ?t c" "?t c \<le> 1" for c
    using l [of c] by (simp_all add: divide_le_eq add_pos_nonneg)
  have n: "0 \<le> ?n q" "?n q \<le> 1" for q by simp_all
  have nm: "?n q \<le> ?n q'" if "q \<le> q'"
    using that by (intro min.mono max.mono) (auto intro!: divide_right_mono)
  have tm: "?t c' \<le> ?t c" if "c \<le> c'"
  proof -
    have "ln (1 + max c 0) \<le> ln (1 + max c' 0)" using that by (intro ln_mono) auto
    then show ?thesis using l [of c] by (intro divide_left_mono) (auto intro!: mult_pos_pos add_pos_nonneg)
  qed
  show ?thesis
  proof (intro conjI impI)
    show "0 < value_score q c lo hi" unfolding v using n(1) [of q] t(1) [of c] by (intro add_nonneg_pos) simp_all
    show "value_score q c lo hi \<le> 1" unfolding v using n(2) [of q] t(2) [of c] by linarith
    show "value_score q c lo hi \<le> value_score q' c lo hi" if "q \<le> q'" unfolding v using nm [OF that] by linarith
    show "value_score q c' lo hi \<le> value_score q c lo hi" if "c \<le> c'" unfolding v using tm [OF that] by linarith
  qed
qed

theorem value_score_bounds_witness: "value_score 1 2 0 1 \<le> value_score 1 1 0 1"
  using value_score_bounds [of 1 1 0 1 1 2] by simp

lemma check_thresholds_result:
  assumes "check_thresholds m ts = Inr (fs, ws)"
  shows "fs = List.map_filter (\<lambda>t. case dict_get m (th_metric t) of None \<Rightarrow> None
      | Some v \<Rightarrow> if threshold_met t v = Inr False \<and> th_severity t = ''fail'' then Some (Not_met t v) else None) ts \<and>
    ws = List.map_filter (\<lambda>t. case dict_get m (th_metric t) of None \<Rightarrow> None
      | Some v \<Rightarrow> if threshold_met t v = Inr False \<and> th_severity t \<noteq> ''fail'' then Some (Not_met t v) else None) ts"
  using assms
proof (induction ts arbitrary: fs ws)
  case Nil
  then show ?case by (simp add: map_filter_simps)
next
  case (Cons t ts)
  show ?case
  proof (cases "dict_get m (th_metric t)")
    case None
    then show ?thesis using Cons by (simp add: map_filter_simps)
  next
    case (Some v)
    then obtain b where b: "threshold_met t v = Inr b" using Cons.prems by (cases "threshold_met t v") simp_all
    obtain fs' ws' where rest: "check_thresholds m ts = Inr (fs', ws')"
      using Cons.prems Some b by (cases "check_thresholds m ts") auto
    show ?thesis
    proof (cases "th_severity t = ''fail''")
      case True
      then show ?thesis using Cons.prems Cons.IH [OF rest] Some b rest by (cases b) (auto simp: map_filter_simps)
    next
      case False
      then show ?thesis using Cons.prems Cons.IH [OF rest] Some b rest by (cases b) (auto simp: map_filter_simps)
    qed
  qed
qed

lemma gate_status_eq:
  assumes "gate_evaluate metrics cfg base version = Inr r"
  shows "\<exists>ws. check_thresholds metrics (gc_thresholds cfg) = Inr (gr_failures r, ws) \<and>
    (gr_status r = Gate_fail \<longleftrightarrow> gr_failures r \<noteq> [])"
  using assms by (auto simp: gate_evaluate_def Let_def split: sum.splits if_splits)

text \<open>
  C21. The gate blocks a model exactly when some threshold of severity \<open>fail\<close>, whose metric was measured, is not met.
\<close>

theorem gate_blocks_iff:
  assumes "gate_evaluate metrics cfg base version = Inr r"
  shows "\<not> is_passing r \<longleftrightarrow>
    list_ex (\<lambda>t. th_severity t = ''fail'' \<and>
      (\<exists>v. dict_get metrics (th_metric t) = Some v \<and> threshold_met t v = Inr False)) (gc_thresholds cfg)"
proof -
  obtain ws where c: "check_thresholds metrics (gc_thresholds cfg) = Inr (gr_failures r, ws)"
    and s: "gr_status r = Gate_fail \<longleftrightarrow> gr_failures r \<noteq> []"
    using gate_status_eq [OF assms] by blast
  show ?thesis
    using check_thresholds_result [OF c] s
    by (force simp: is_passing_def list_ex_iff map_filter_def filter_empty_conv split: option.splits if_splits)
qed

text \<open>
  A model that was not measured passes: a threshold whose metric is missing is skipped, so that a gate with any
  thresholds lets a model through for which no metric was computed, with or without a baseline.
\<close>

theorem unmeasured_model_passes:
  "\<exists>r. gate_evaluate [] cfg base version = Inr r \<and> is_passing r"
proof -
  have "check_thresholds [] ts = Inr ([], [])" for ts by (induction ts) simp_all
  then show ?thesis by (simp add: gate_evaluate_def is_passing_def Let_def)
qed

text \<open>
  A regression never blocks: whether a model passes does not depend on the baseline, however far it falls behind, nor on
  the tolerance.
\<close>

theorem regression_never_blocks:
  assumes "gate_evaluate metrics cfg base version = Inr r" "gate_evaluate metrics (cfg\<lparr>gc_tolerance := x\<rparr>) base' version' = Inr r'"
  shows "is_passing r \<longleftrightarrow> is_passing r'"
  using gate_status_eq [OF assms(1)] gate_status_eq [OF assms(2)] by (auto simp: is_passing_def)

definition error_rate_config :: gate_config where
  "error_rate_config = \<lparr>gc_model = ''m'', gc_thresholds = [\<lparr>th_metric = ''error_rate'', th_value = 1/2, th_comparison = ''lt'', th_severity = ''fail''\<rparr>],
     gc_require_baseline = True, gc_tolerance = 2/100, gc_min_samples = 50\<rparr>"

lemma gate_blocks_iff_witness:
  "\<exists>r. gate_evaluate [(''error_rate'', 9/10)] error_rate_config None None = Inr r \<and> \<not> is_passing r"
proof -
  obtain r where r: "gate_evaluate [(''error_rate'', 9/10)] error_rate_config None None = Inr r"
    by (simp add: gate_evaluate_def error_rate_config_def threshold_met_def)
  then show ?thesis
    using gate_blocks_iff [OF r] by (auto simp: error_rate_config_def threshold_met_def intro!: exI [of _ "9/10"])
qed

lemma regression_never_blocks_witness:
  "\<exists>r. gate_evaluate [(''error_rate'', 4/10)] error_rate_config (Some [(''error_rate'', 1/100)]) None = Inr r \<and> is_passing r"
proof -
  obtain r where r: "gate_evaluate [(''error_rate'', 4/10)] error_rate_config (Some [(''error_rate'', 1/100)]) None = Inr r"
    by (simp add: gate_evaluate_def error_rate_config_def threshold_met_def Let_def)
  obtain r' where r': "gate_evaluate [(''error_rate'', 4/10)] (error_rate_config\<lparr>gc_tolerance := 1\<rparr>) None None = Inr r'" "is_passing r'"
    by (simp add: gate_evaluate_def error_rate_config_def threshold_met_def Let_def is_passing_def)
  show ?thesis using regression_never_blocks [OF r r'(1)] r r'(2) by blast
qed

lemma improvement_reported_as_regression:
  \<comment> \<open>a metric that should be small: the rate of errors falls from 0.4 to 0.1, and the gate warns of a regression\<close>
  "\<exists>r. gate_evaluate [(''error_rate'', 1/10)] error_rate_config (Some [(''error_rate'', 4/10)]) None = Inr r \<and>
     gr_warnings r = [Regressed ''error_rate'' (- 3/10)]"
  by (simp add: gate_evaluate_def error_rate_config_def threshold_met_def Let_def delta_metrics_def regressions_def map_filter_simps)

lemma deterioration_unnoticed:
  \<comment> \<open>and the other way round it does not\<close>
  "\<exists>r. gate_evaluate [(''error_rate'', 4/10)] error_rate_config (Some [(''error_rate'', 1/10)]) None = Inr r \<and> gr_status r = Gate_pass"
  by (simp add: gate_evaluate_def error_rate_config_def threshold_met_def Let_def delta_metrics_def regressions_def map_filter_simps)

subsection \<open>Inference over claims\<close>

datatype nli_label = Entailment | Contradiction | Neutral

record nli_result =
  nr_entailment :: real
  nr_contradiction :: real
  nr_neutral :: real
  nr_overall :: real
  nr_total :: nat
  nr_entailed :: nat
  nr_contradicted :: nat
  nr_neutrals :: nat
  nr_claims :: "(string \<times> nli_label \<times> real) list"

definition as_metrics :: "nli_result \<Rightarrow> (string, real) dict" where
  "as_metrics r =
     [(''nli_entailment_rate'', nr_entailment r), (''nli_contradiction_rate'', nr_contradiction r),
      (''nli_neutral_rate'', nr_neutral r), (''nli_overall_score'', nr_overall r)]"

definition lightweight_check :: "string \<Rightarrow> string \<Rightarrow> nli_label \<times> real" where
  "lightweight_check claim context =
     (let cosine = cosine_proxy claim context; claim_tokens = word_set claim in
      if claim_tokens = {} then (Neutral, 1/2)
      else
        (let overlap = real (card (claim_tokens \<inter> word_set context)) / real (card claim_tokens);
             combined = (5/10) * cosine + (5/10) * overlap
         in if combined \<ge> 4/10 then (Entailment, combined)
            else if combined \<le> 15/100 then (Contradiction, 1 - combined)
            else (Neutral, 1/2)))"

type_synonym nli_model = "string \<Rightarrow> string \<Rightarrow> exn + nli_label \<times> real"
  \<comment> \<open>\<^verbatim>\<open>nli_predict\<close>, which raises when the model is not there\<close>

definition check_claim_nli :: "nli_model \<Rightarrow> string \<Rightarrow> string \<Rightarrow> exn + nli_label \<times> real" where
  "check_claim_nli model claim context =
     (case model claim context of
        Inr r \<Rightarrow> Inr r
      | Inl e \<Rightarrow> if is_exception e then Inr (lightweight_check claim context) else Inl e)"

definition overall_score :: "real \<Rightarrow> real \<Rightarrow> real" where
  "overall_score entailment contradiction = max 0 (min 1 (entailment - (5/10) * contradiction))"

definition rates :: "nat \<Rightarrow> nat \<Rightarrow> nat \<Rightarrow> nat \<Rightarrow> real \<times> real \<times> real \<times> real" where
  "rates entailed contradicted neutral amount =
     (let e = real entailed / real amount; c = real contradicted / real amount; n = real neutral / real amount
      in (round_to 4 e, round_to 4 c, round_to 4 n, round_to 4 (overall_score e c)))"

definition no_nli_result :: "nat \<Rightarrow> nli_result" where
  "no_nli_result n =
     \<lparr>nr_entailment = 0, nr_contradiction = 0, nr_neutral = 0, nr_overall = 0, nr_total = n, nr_entailed = 0, nr_contradicted = 0,
      nr_neutrals = n, nr_claims = []\<rparr>"

definition counted :: "nli_label \<Rightarrow> (string \<times> nli_label \<times> real) list \<Rightarrow> nat" where
  "counted l checked = length (filter (\<lambda>(c, l', x). l' = l) checked)"

fun check_claims :: "(string \<Rightarrow> exn + nli_label \<times> real) \<Rightarrow> string list \<Rightarrow> exn + (string \<times> nli_label \<times> real) list" where
  "check_claims f [] = Inr []"
| "check_claims f (c # cs) =
     (case f c of
        Inl e \<Rightarrow> Inl e
      | Inr (l, x) \<Rightarrow> map_sum id (\<lambda>rs. (c, l, round_to 3 x) # rs) (check_claims f cs))"

definition evaluate_nli :: "nli_model \<Rightarrow> bool \<Rightarrow> string \<Rightarrow> string \<Rightarrow> exn + nli_result" where
  "evaluate_nli model use_real_nli answer context =
     (let claims = decompose_into_claims answer in
      if strip answer = [] \<or> claims = [] then Inr (no_nli_result 0)
      else if strip context = [] then Inr (no_nli_result (length claims))
      else
        map_sum id (\<lambda>checked.
          let e = counted Entailment checked; c = counted Contradiction checked; n = counted Neutral checked;
              (re, rc, rn, ro) = rates e c n (length claims)
          in \<lparr>nr_entailment = re, nr_contradiction = rc, nr_neutral = rn, nr_overall = ro, nr_total = length claims,
              nr_entailed = e, nr_contradicted = c, nr_neutrals = n, nr_claims = checked\<rparr>)
          (check_claims (\<lambda>claim. if use_real_nli then check_claim_nli model claim context
                                 else Inr (lightweight_check claim context)) claims))"

fun evaluate_pairs :: "nli_model \<Rightarrow> bool \<Rightarrow> (string \<times> string) list \<Rightarrow> exn + nli_result list" where
  "evaluate_pairs model real_nli [] = Inr []"
| "evaluate_pairs model real_nli ((answer, context) # ps) =
     (case evaluate_nli model real_nli answer context of
        Inl e \<Rightarrow> Inl e
      | Inr r \<Rightarrow> map_sum id (\<lambda>rs. r # rs) (evaluate_pairs model real_nli ps))"

definition nli_metrics :: "real \<times> real \<times> real \<times> real \<Rightarrow> (string, real) dict" where
  "nli_metrics r =
     (case r of (e, c, n, s) \<Rightarrow>
        [(''nli_entailment_rate'', e), (''nli_contradiction_rate'', c), (''nli_neutral_rate'', n), (''nli_overall_score'', s)])"

definition evaluate_nli_batch :: "nli_model \<Rightarrow> bool \<Rightarrow> (string \<times> string) list \<Rightarrow> exn + (string, real) dict" where
  "evaluate_nli_batch model use_real_nli ps =
     map_sum id (\<lambda>rs.
       let amount = sum_list (map nr_total rs) in
       if amount = 0 then nli_metrics (0, 0, 0, 0)
       else nli_metrics (rates (sum_list (map nr_entailed rs)) (sum_list (map nr_contradicted rs))
              (sum_list (map nr_neutrals rs)) amount)) (evaluate_pairs model use_real_nli ps)"

definition evaluate_with_nli ::
  "nli_model \<Rightarrow> bool \<Rightarrow> (string \<times> string) list \<Rightarrow> (string, real) dict \<Rightarrow> gate_config \<Rightarrow> (string, real) dict option
   \<Rightarrow> string option \<Rightarrow> exn + gate_result" where
  "evaluate_with_nli model use_real_nli ps metrics cfg baseline version =
     (if ps = [] then gate_evaluate metrics cfg baseline version
      else
        (case evaluate_nli_batch model use_real_nli ps of
           Inl e \<Rightarrow> Inl e
         | Inr m \<Rightarrow> gate_evaluate (dict_update metrics m) cfg baseline version))"

lemma counted_total:
  "counted Entailment checked + counted Contradiction checked + counted Neutral checked = length checked"
proof (induction checked)
  case Nil
  then show ?case by (simp add: counted_def)
next
  case (Cons x xs)
  obtain c l y where x: "x = (c, l, y)" by (cases x)
  show ?case using Cons by (cases l) (simp_all add: counted_def x)
qed

lemma check_claims_length: "check_claims f cs = Inr rs \<Longrightarrow> length rs = length cs \<and> map fst rs = cs"
  by (induction cs arbitrary: rs) (auto split: sum.splits simp: map_sum_def)

lemma round_unit:
  assumes "0 \<le> x" "x \<le> 1"
  shows "0 \<le> round_to 4 x \<and> round_to 4 x \<le> 1"
  using round_to_bounds [of 0 x 4 10000] assms by simp

lemma rates_unit:
  assumes "rates e c n amount = (re, rc, rn, ro)" "e \<le> amount" "c \<le> amount" "n \<le> amount"
  shows "0 \<le> re \<and> re \<le> 1 \<and> 0 \<le> rc \<and> rc \<le> 1 \<and> 0 \<le> rn \<and> rn \<le> 1 \<and> 0 \<le> ro \<and> ro \<le> 1"
proof -
  have u: "0 \<le> round_to 4 (real k / real amount) \<and> round_to 4 (real k / real amount) \<le> 1" if "k \<le> amount" for k
    using that by (intro round_unit) (auto simp: divide_le_eq)
  have o: "0 \<le> round_to 4 (overall_score a b) \<and> round_to 4 (overall_score a b) \<le> 1" for a b
    by (intro round_unit) (auto simp: overall_score_def)
  show ?thesis using assms u [OF assms(2)] u [OF assms(3)] u [OF assms(4)] o by (auto simp: rates_def Let_def)
qed

text \<open>
  Every claim is counted once: entailed, contradicted and neutral claims add up to the claims of the answer, and all rates
  and the overall score lie between 0 and 1, whatever the model answers.
\<close>

theorem nli_counts_add_up:
  assumes "evaluate_nli model use_real answer context = Inr r"
  shows "nr_entailed r + nr_contradicted r + nr_neutrals r = nr_total r \<and>
    (strip answer \<noteq> [] \<longrightarrow> nr_total r = length (decompose_into_claims answer)) \<and>
    list_all (\<lambda>(k, x). 0 \<le> x \<and> x \<le> 1) (as_metrics r)"
proof -
  let ?claims = "decompose_into_claims answer"
  consider "strip answer = [] \<or> ?claims = []" | "strip answer \<noteq> []" "?claims \<noteq> []" "strip context = []"
    | "strip answer \<noteq> []" "?claims \<noteq> []" "strip context \<noteq> []" by blast
  then show ?thesis
  proof cases
    case 1
    then have "r = no_nli_result 0" using assms by (auto simp: evaluate_nli_def Let_def)
    with 1 show ?thesis by (auto simp: no_nli_result_def as_metrics_def)
  next
    case 2
    then have "r = no_nli_result (length ?claims)" using assms by (simp add: evaluate_nli_def Let_def)
    with 2 show ?thesis by (simp add: no_nli_result_def as_metrics_def)
  next
    case 3
    define f where "f = (\<lambda>claim. if use_real then check_claim_nli model claim context else Inr (lightweight_check claim context))"
    obtain checked where ch: "check_claims f ?claims = Inr checked"
      using assms 3 by (cases "check_claims f ?claims") (auto simp: evaluate_nli_def Let_def f_def)
    obtain re rc rn ro where rt: "rates (counted Entailment checked) (counted Contradiction checked) (counted Neutral checked)
        (length ?claims) = (re, rc, rn, ro)"
      by (metis surj_pair)
    have r: "r = \<lparr>nr_entailment = re, nr_contradiction = rc, nr_neutral = rn, nr_overall = ro, nr_total = length ?claims,
        nr_entailed = counted Entailment checked, nr_contradicted = counted Contradiction checked,
        nr_neutrals = counted Neutral checked, nr_claims = checked\<rparr>"
      using assms 3 ch rt by (auto simp: evaluate_nli_def Let_def f_def)
    have sum: "counted Entailment checked + counted Contradiction checked + counted Neutral checked = length ?claims"
      using counted_total [of checked] check_claims_length [OF ch] by simp
    then show ?thesis using rates_unit [OF rt] by (simp add: r as_metrics_def)
  qed
qed

lemma empty_context_rates:
  \<comment> \<open>without a context every claim is counted as neutral, but the rate of neutral claims is 0\<close>
  assumes "strip answer \<noteq> []" "decompose_into_claims answer \<noteq> []" "strip context = []"
  shows "\<exists>r. evaluate_nli model use_real answer context = Inr r \<and> nr_neutrals r = length (decompose_into_claims answer) \<and> nr_neutral r = 0"
  using assms by (simp add: evaluate_nli_def no_nli_result_def Let_def)

lemma empty_context_batch:
  \<comment> \<open>whereas the same pair in a batch gives the rate 1\<close>
  assumes "strip answer \<noteq> []" "decompose_into_claims answer \<noteq> []" "strip context = []"
  shows "\<exists>m. evaluate_nli_batch model use_real [(answer, context)] = Inr m \<and> dict_get m ''nli_neutral_rate'' = Some 1"
proof -
  have one: "round_to 4 1 = 1" by (simp add: round_to_def py_round_def Let_def)
  obtain re rc rn ro where rt: "rates 0 0 (length (decompose_into_claims answer)) (length (decompose_into_claims answer)) = (re, rc, rn, ro)"
    by (metis surj_pair)
  then have "rn = 1" using assms(2) one by (simp add: rates_def Let_def)
  then show ?thesis
    using assms rt by (simp add: evaluate_nli_batch_def evaluate_nli_def no_nli_result_def Let_def nli_metrics_def)
qed

lemma nli_counts_add_up_witness:
  "\<exists>r. evaluate_nli (\<lambda>c t. Inr (Contradiction, 1)) True ''The sky is green today'' ''The sky is blue'' = Inr r \<and>
     nr_entailed r + nr_contradicted r + nr_neutrals r = nr_total r"
proof -
  have c: "decompose_into_claims ''The sky is green today'' = [''The sky is green today'']" by code_simp
  have s: "strip ''The sky is green today'' \<noteq> []" "strip ''The sky is blue'' \<noteq> []" by code_simp+
  obtain r where r: "evaluate_nli (\<lambda>c t. Inr (Contradiction, 1)) True ''The sky is green today'' ''The sky is blue'' = Inr r"
    unfolding evaluate_nli_def Let_def c using s by (simp add: check_claim_nli_def)
  from r nli_counts_add_up [OF r] show ?thesis by blast
qed

subsection \<open>RAGAS scores\<close>

definition proxy_supported :: "string \<Rightarrow> string \<Rightarrow> bool" where
  "proxy_supported context claim \<longleftrightarrow>
     (let claim_tokens = word_set claim; context_tokens = word_set context; shared = real (card (claim_tokens \<inter> context_tokens)) in
      if claim_tokens = {} then False
      else
        (let overlap = shared / real (card claim_tokens);
             cosine = (if context_tokens \<noteq> {} then shared / sqrt (real (card claim_tokens * card context_tokens)) else 0)
         in (5/10) * overlap + (5/10) * cosine \<ge> 30/100))"

definition faithfulness_score :: "nli_model \<Rightarrow> string \<Rightarrow> string \<Rightarrow> exn + real" where
  "faithfulness_score model answer context =
     (let claims = decompose_into_claims answer in
      if strip answer = [] \<or> strip context = [] then Inr 0
      else if claims = [] then Inr 1
      else
        (case check_claims (\<lambda>c. check_claim_nli model c context) claims of
           Inr checked \<Rightarrow> Inr (round_to 4 (real (counted Entailment checked) / real (length claims)))
         | Inl e \<Rightarrow>
             if is_exception e
             then Inr (round_to 4 (real (length (filter (proxy_supported context) claims)) / real (length claims)))
             else Inl e))"

definition CACHE_MAX_SIZE :: nat where
  "CACHE_MAX_SIZE = 500"

type_synonym score_cache = "(string \<times> string, real) dict"

definition scalar_product :: "real list \<Rightarrow> real list \<Rightarrow> real" where
  "scalar_product xs ys = sum_list (map2 (*) xs ys)"

definition relevancy_score :: "(string \<Rightarrow> real list option) \<Rightarrow> string \<Rightarrow> string \<Rightarrow> real option" where
  \<comment> \<open>the score and its rounding; \<open>None\<close> for the return before the cache\<close>
  "relevancy_score emb answer query =
     (case (emb answer, emb query) of
        (Some a, Some q) \<Rightarrow> Some (round_to 4 (max 0 (min 1 (scalar_product a q))))
      | _ \<Rightarrow>
          (let query_tokens = word_set query in
           if query_tokens = {} then None
           else Some (round_to 4 (real (card (query_tokens \<inter> word_set answer)) / real (card query_tokens)))))"

definition answer_relevancy :: "(string \<Rightarrow> real list option) \<Rightarrow> string \<Rightarrow> string \<Rightarrow> score_cache \<Rightarrow> real \<times> score_cache" where
  "answer_relevancy emb answer query cache =
     (if answer = [] \<or> query = [] then (0, cache)
      else
        (let key = (take 200 query, take 200 answer) in
         case dict_get cache key of
           Some s \<Rightarrow> (s, cache)
         | None \<Rightarrow>
             (case relevancy_score emb answer query of
                None \<Rightarrow> (1/2, cache)
              | Some s \<Rightarrow> (s, if length cache < CACHE_MAX_SIZE then dict_set key s cache else cache))))"

definition context_precision :: "string list \<Rightarrow> string \<Rightarrow> real" where
  "context_precision contexts answer =
     (let answer_tokens = word_set answer;
          used = (\<lambda>ctx. word_set ctx \<noteq> {} \<and>
            real (card (answer_tokens \<inter> word_set ctx)) / real (card (word_set ctx)) \<ge> 15/100)
      in if contexts = [] \<or> answer = [] \<or> answer_tokens = {} then 0
         else round_to 4 (real (length (filter used contexts)) / real (length contexts)))"

definition compute_all_ragas_metrics ::
  "nli_model \<Rightarrow> (string \<Rightarrow> real list option) \<Rightarrow> string \<Rightarrow> string \<Rightarrow> string list \<Rightarrow> score_cache
   \<Rightarrow> (exn + (string, real) dict) \<times> score_cache" where
  "compute_all_ragas_metrics model emb question answer contexts cache =
     (case faithfulness_score model answer (join '' '' contexts) of
        Inl e \<Rightarrow> (Inl e, cache)
      | Inr faith \<Rightarrow>
          (let (relevancy, cache) = answer_relevancy emb answer question cache
           in (Inr [(''ragas_faithfulness'', faith), (''ragas_relevancy'', relevancy),
                    (''ragas_precision'', context_precision contexts answer)], cache)))"

definition evaluate_with_ragas ::
  "nli_model \<Rightarrow> bool \<Rightarrow> (string \<Rightarrow> real list option) \<Rightarrow> string \<Rightarrow> string \<Rightarrow> string list \<Rightarrow> (string \<times> string) list \<Rightarrow> (string, real) dict
   \<Rightarrow> gate_config \<Rightarrow> (string, real) dict option \<Rightarrow> string option \<Rightarrow> score_cache \<Rightarrow> (exn + gate_result) \<times> score_cache" where
  "evaluate_with_ragas model use_real_nli emb question answer contexts ps metrics cfg baseline version cache =
     (case compute_all_ragas_metrics model emb question answer contexts cache of
        (Inr scores, cache) \<Rightarrow>
          (evaluate_with_nli model use_real_nli ps (dict_update metrics scores) cfg baseline version, cache)
      | (Inl e, cache) \<Rightarrow>
          ((if is_exception e then evaluate_with_nli model use_real_nli ps metrics cfg baseline version else Inl e), cache))"

definition cache_ok :: "score_cache \<Rightarrow> bool" where
  "cache_ok cache \<longleftrightarrow> length cache \<le> CACHE_MAX_SIZE \<and> list_all (\<lambda>(k, x). 0 \<le> x \<and> x \<le> 1) cache"

lemma length_dict_set_le: "length (dict_set k v d) \<le> Suc (length d)"
  by (induction d) (auto simp: dict_set_def)

lemma list_all_dict_set:
  "list_all (\<lambda>(k, x). P x) d \<Longrightarrow> P v \<Longrightarrow> list_all (\<lambda>(k, x). P x) (dict_set k v d)"
  by (induction d) (auto simp: dict_set_def)

lemma relevancy_score_unit: "relevancy_score emb a q = Some s \<Longrightarrow> 0 \<le> s \<and> s \<le> 1"
proof -
  have "real (card (word_set q \<inter> word_set a)) \<le> real (card (word_set q))" for q a
    by (simp add: word_set_def card_mono)
  then have "0 \<le> round_to 4 (real (card (word_set q \<inter> word_set a)) / real (card (word_set q))) \<and>
      round_to 4 (real (card (word_set q \<inter> word_set a)) / real (card (word_set q))) \<le> 1" for q a
    by (intro round_unit) (auto simp: divide_le_eq)
  moreover have "0 \<le> round_to 4 (max 0 (min 1 x)) \<and> round_to 4 (max 0 (min 1 x)) \<le> 1" for x :: real
    by (intro round_unit) auto
  ultimately show "relevancy_score emb a q = Some s \<Longrightarrow> 0 \<le> s \<and> s \<le> 1"
    by (auto simp: relevancy_score_def Let_def split: option.splits if_splits)
qed

lemma answer_relevancy_ok:
  assumes "cache_ok cache"
  shows "(let (s, cache') = answer_relevancy emb a q cache in 0 \<le> s \<and> s \<le> 1 \<and> cache_ok cache')"
proof (cases "a = [] \<or> q = []")
  case True
  then show ?thesis using assms by (auto simp: answer_relevancy_def)
next
  case False
  show ?thesis
  proof (cases "dict_get cache (take 200 q, take 200 a)")
    case (Some s)
    then show ?thesis using False assms by (auto simp: answer_relevancy_def cache_ok_def list_all_iff dest!: map_of_SomeD)
  next
    case None
    show ?thesis
    proof (cases "relevancy_score emb a q")
      case None': None
      then show ?thesis using None False assms by (simp add: answer_relevancy_def)
    next
      case (Some s)
      have "cache_ok (if length cache < CACHE_MAX_SIZE then dict_set (take 200 q, take 200 a) s cache else cache)"
        using assms relevancy_score_unit [OF Some] length_dict_set_le [of "(take 200 q, take 200 a)" s cache]
        by (auto simp: cache_ok_def intro!: list_all_dict_set)
      then show ?thesis using None False Some relevancy_score_unit [OF Some] by (simp add: answer_relevancy_def)
    qed
  qed
qed

text \<open>
  Every RAGAS score lies between 0 and 1, whatever the inference model and the embedder answer, and the cache of scores
  keeps to its limit.
\<close>

theorem ragas_scores_bounded:
  assumes "compute_all_ragas_metrics model emb question answer contexts cache = (Inr m, cache')" "cache_ok cache"
  shows "list_all (\<lambda>(k, x). 0 \<le> x \<and> x \<le> 1) m \<and> length cache' \<le> 500"
proof -
  obtain f where f: "faithfulness_score model answer (join '' '' contexts) = Inr f"
    using assms(1) by (cases "faithfulness_score model answer (join '' '' contexts)") (simp_all add: compute_all_ragas_metrics_def)
  obtain s c where r: "answer_relevancy emb answer question cache = (s, c)"
    by (cases "answer_relevancy emb answer question cache")
  have m: "m = [(''ragas_faithfulness'', f), (''ragas_relevancy'', s), (''ragas_precision'', context_precision contexts answer)]"
    and c: "cache' = c" using assms(1) f r by (simp_all add: compute_all_ragas_metrics_def)
  have share: "0 \<le> round_to 4 (real k / real n) \<and> round_to 4 (real k / real n) \<le> 1" if "k \<le> n" for k n
    using that by (intro round_unit) (auto simp: divide_le_eq)
  have cl: "counted l checked \<le> length cs" if "check_claims g cs = Inr checked" for l g cs checked
    using check_claims_length [OF that] length_filter_le [of _ checked] by (metis counted_def)
  have "0 \<le> f \<and> f \<le> 1"
    using f by (auto simp: faithfulness_score_def Let_def share cl split: if_splits sum.splits)
  moreover have "0 \<le> context_precision contexts answer \<and> context_precision contexts answer \<le> 1"
    by (simp add: context_precision_def Let_def share)
  moreover have "0 \<le> s \<and> s \<le> 1 \<and> cache_ok c" using answer_relevancy_ok [OF assms(2), of emb answer question] r by simp
  ultimately show ?thesis by (simp add: m c cache_ok_def CACHE_MAX_SIZE_def)
qed

text \<open>
  Long answers share their score: when one answer was scored for a query, every other answer with the same first 200
  characters is given that score for every query with the same first 200 characters, whatever its own would be.
\<close>

theorem relevancy_of_another_answer:
  assumes "answer_relevancy emb a q cache = (s, cache')" "a \<noteq> []" "q \<noteq> []" "length cache < 500" "relevancy_score emb a q \<noteq> None"
    and "dict_get cache (take 200 q, take 200 a) = None" "take 200 a' = take 200 a" "take 200 q' = take 200 q"
  shows "answer_relevancy emb a' q' cache' = (s, cache')"
proof -
  obtain x where x: "relevancy_score emb a q = Some x" using assms(5) by blast
  have c: "cache' = dict_set (take 200 q, take 200 a) s cache" "s = x"
    using assms(1-4,6) x by (auto simp: answer_relevancy_def CACHE_MAX_SIZE_def)
  have "a' \<noteq> []" "q' \<noteq> []" using assms(2,3,7,8) by auto
  then show ?thesis using assms(7,8) by (simp add: answer_relevancy_def c)
qed

lemma relevancy_of_another_answer_witness:
  "fst (answer_relevancy (\<lambda>t. Some [if t = ''q'' then 1 else if last t = CHR ''a'' then 1/2 else 0]) (replicate 200 CHR ''x'' @ ''b'') ''q''
     (snd (answer_relevancy (\<lambda>t. Some [if t = ''q'' then 1 else if last t = CHR ''a'' then 1/2 else 0]) (replicate 200 CHR ''x'' @ ''a'') ''q'' []))) =
   fst (answer_relevancy (\<lambda>t. Some [if t = ''q'' then 1 else if last t = CHR ''a'' then 1/2 else 0]) (replicate 200 CHR ''x'' @ ''a'') ''q'' [])"
proof -
  let ?e = "\<lambda>t. Some [if t = ''q'' then 1 else if last t = CHR ''a'' then 1/2 else 0 :: real]"
  obtain s c where r: "answer_relevancy ?e (replicate 200 CHR ''x'' @ ''a'') ''q'' [] = (s, c)"
    by (cases "answer_relevancy ?e (replicate 200 CHR ''x'' @ ''a'') ''q'' []")
  have n: "relevancy_score ?e (replicate 200 CHR ''x'' @ ''a'') ''q'' \<noteq> None" by (simp add: relevancy_score_def)
  have "answer_relevancy ?e (replicate 200 CHR ''x'' @ ''b'') ''q'' c = (s, c)"
    by (rule relevancy_of_another_answer [OF r _ _ _ n]) simp_all
  then show ?thesis by (simp only: r fst_conv snd_conv)
qed

lemma ragas_scores_bounded_witness:
  "\<exists>m c. compute_all_ragas_metrics (\<lambda>c t. Inr (Entailment, 1)) (\<lambda>t. None) ''q'' ''a'' [''c''] [] = (Inr m, c) \<and> length c \<le> 500"
proof -
  have d: "decompose_into_claims ''a'' = []" by code_simp
  obtain f where f: "faithfulness_score (\<lambda>c t. Inr (Entailment, 1)) ''a'' (join '' '' [''c'']) = Inr f"
    unfolding faithfulness_score_def Let_def d by (metis (full_types))
  obtain m c where r: "compute_all_ragas_metrics (\<lambda>c t. Inr (Entailment, 1)) (\<lambda>t. None) ''q'' ''a'' [''c''] [] = (Inr m, c)"
    by (cases "answer_relevancy (\<lambda>t. None) ''a'' ''q'' []") (simp add: compute_all_ragas_metrics_def f Let_def)
  have "cache_ok []" by (simp add: cache_ok_def)
  from ragas_scores_bounded [OF r this] r show ?thesis by blast
qed

subsection \<open>RAGAS scores by keywords\<close>

definition ragas_stop_words :: "string list" where
  "ragas_stop_words =
     [''what'', ''is'', ''the'', ''a'', ''an'', ''how'', ''why'', ''when'', ''where'', ''who'', ''which'', ''do'', ''does'', ''can'',
      ''could'', ''should'', ''would'', ''will'', ''of'', ''to'', ''in'', ''for'', ''on'', ''with'', ''at'', ''by'', ''from'', ''it'',
      ''its'', ''be'', ''are'', ''was'', ''were'', ''been'', ''being'', ''have'', ''has'', ''had'', ''this'', ''that'', ''these'',
      ''those'', ''and'', ''or'', ''but'', ''not'', ''no'']"

definition lower_alnum :: "char \<Rightarrow> bool" where
  "lower_alnum c \<longleftrightarrow> (let n = of_char c :: nat in 48 \<le> n \<and> n \<le> 57 \<or> 97 \<le> n \<and> n \<le> 122)"

fun alnum_runs :: "string \<Rightarrow> string \<Rightarrow> string list" where
  "alnum_runs w [] = (if w = [] then [] else [w])"
| "alnum_runs w (c # cs) =
     (if lower_alnum c then alnum_runs (w @ [c]) cs
      else (if w = [] then alnum_runs [] cs else w # alnum_runs [] cs))"

definition keywords_of :: "string \<Rightarrow> string set" where
  "keywords_of text = set (filter (\<lambda>w. w \<notin> set ragas_stop_words \<and> length w > 1) (alnum_runs [] (py_lower text)))"

definition plain_claims :: "string \<Rightarrow> string list" where
  "plain_claims answer = filter (\<lambda>s. length s > 10) (map strip (split_on CHR ''.'' answer))"

definition covered :: "string set \<Rightarrow> string set \<Rightarrow> real" where
  "covered keywords tokens = real (card (keywords \<inter> tokens)) / real (card keywords)"

definition compute_faithfulness :: "string \<Rightarrow> string \<Rightarrow> real" where
  "compute_faithfulness answer context =
     (let claims = plain_claims answer;
          supported = (\<lambda>c. keywords_of c \<noteq> {} \<and> covered (keywords_of c) (keywords_of context) \<ge> 3/10)
      in if answer = [] \<or> context = [] then 0
         else if claims = [] then 1
         else real (length (filter supported claims)) / real (length claims))"

definition compute_answer_relevance :: "string \<Rightarrow> string \<Rightarrow> real" where
  "compute_answer_relevance question answer =
     (if question = [] \<or> answer = [] then 0
      else if keywords_of question = {} then 1/2
      else covered (keywords_of question) (keywords_of answer))"

definition compute_context_relevance :: "string \<Rightarrow> string list \<Rightarrow> real" where
  "compute_context_relevance question contexts =
     (if question = [] \<or> contexts = [] then 0
      else if keywords_of question = {} then 1/2
      else real (length (filter (\<lambda>ctx. covered (keywords_of question) (keywords_of ctx) \<ge> 3/10) contexts)) / real (length contexts))"

record ragas_scores =
  rs_faithfulness :: real
  rs_answer :: real
  rs_context :: real
  rs_overall :: real

definition evaluate_rag_response :: "string \<Rightarrow> string \<Rightarrow> string list \<Rightarrow> ragas_scores" where
  "evaluate_rag_response question answer contexts =
     (let f = compute_faithfulness answer (join '' '' contexts); a = compute_answer_relevance question answer;
          c = compute_context_relevance question contexts
      in \<lparr>rs_faithfulness = f, rs_answer = a, rs_context = c, rs_overall = (f + a + c) / 3\<rparr>)"

lemma covered_unit: "finite A \<Longrightarrow> 0 \<le> covered A B \<and> covered A B \<le> 1"
  by (auto simp: covered_def divide_le_eq card_mono)

lemma finite_keywords [simp]: "finite (keywords_of t)"
  by (simp add: keywords_of_def)

lemma faithfulness_unit: "0 \<le> compute_faithfulness a c \<and> compute_faithfulness a c \<le> 1"
  by (auto simp: compute_faithfulness_def Let_def divide_le_eq)

lemma relevance_unit:
  "0 \<le> compute_answer_relevance q a \<and> compute_answer_relevance q a \<le> 1"
  "0 \<le> compute_context_relevance q cs \<and> compute_context_relevance q cs \<le> 1"
  using covered_unit [OF finite_keywords] by (auto simp: compute_answer_relevance_def compute_context_relevance_def divide_le_eq)

lemma keyword_scores_bounded:
  "0 \<le> rs_overall (evaluate_rag_response q a cs) \<and> rs_overall (evaluate_rag_response q a cs) \<le> 1"
  using faithfulness_unit [of a "join '' '' cs"] relevance_unit(1) [of q a] relevance_unit(2) [of q cs]
  by (simp add: evaluate_rag_response_def Let_def)

lemma verbatim_answer_faithful:
  \<comment> \<open>an answer whose claims have keywords that all occur in the context is faithful\<close>
  assumes "list_all (\<lambda>c. keywords_of c \<noteq> {} \<and> keywords_of c \<subseteq> keywords_of context) (plain_claims answer)"
    and "answer \<noteq> []" "context \<noteq> []"
  shows "compute_faithfulness answer context = 1"
proof -
  have "covered K T = 1" if "K \<noteq> {}" "K \<subseteq> T" "finite K" for K T
    using that by (simp add: covered_def Int_absorb2)
  then have "filter (\<lambda>c. keywords_of c \<noteq> {} \<and> covered (keywords_of c) (keywords_of context) \<ge> 3/10) (plain_claims answer) = plain_claims answer"
    using assms(1) by (auto simp: filter_id_conv list_all_iff)
  then show ?thesis using assms(2,3) by (simp add: compute_faithfulness_def Let_def)
qed

subsection \<open>Hallucinations\<close>

record hallucination_report =
  hr_rate :: real
  hr_claims :: "string list"
  hr_supported :: nat
  hr_total :: nat
  hr_evidence :: "(string, string) dict"

definition check_claim_against_context :: "string \<Rightarrow> string \<Rightarrow> bool" where
  "check_claim_against_context claim context \<longleftrightarrow>
     (if strip context = [] \<or> strip claim = [] \<or> word_set claim = {} then False
      else
        (let overlap = real (card (word_set claim \<inter> word_set context)) / real (card (word_set claim))
         in (5/10) * cosine_proxy claim context + (5/10) * overlap \<ge> 30/100))"

definition find_evidence :: "string \<Rightarrow> string \<Rightarrow> string" where
  "find_evidence claim context =
     (if strip context = [] then []
      else (case find (check_claim_against_context claim) (split_sentences context) of None \<Rightarrow> [] | Some s \<Rightarrow> strip s))"

definition detect_hallucinations :: "string \<Rightarrow> string \<Rightarrow> hallucination_report" where
  "detect_hallucinations answer context =
     (let claims = decompose_into_claims answer;
          good = filter (\<lambda>c. check_claim_against_context c context) claims;
          bad = filter (\<lambda>c. \<not> check_claim_against_context c context) claims;
          proof_of = (\<lambda>c. let e = find_evidence c context in if e \<noteq> [] then e else ''context'')
      in if strip answer = [] \<or> claims = []
         then \<lparr>hr_rate = 0, hr_claims = [], hr_supported = 0, hr_total = 0, hr_evidence = []\<rparr>
         else if strip context = []
         then \<lparr>hr_rate = 1, hr_claims = claims, hr_supported = 0, hr_total = length claims, hr_evidence = []\<rparr>
         else \<lparr>hr_rate = round_to 3 (real (length bad) / real (length claims)), hr_claims = bad, hr_supported = length good,
                hr_total = length claims, hr_evidence = foldl (\<lambda>d c. dict_set c (proof_of c) d) [] good\<rparr>)"

definition compute_hallucination_rate :: "string list \<Rightarrow> string list \<Rightarrow> real" where
  "compute_hallucination_rate answers contexts =
     (let reports = map2 detect_hallucinations answers contexts;
          bad = sum_list (map (\<lambda>r. length (hr_claims r)) reports); amount = sum_list (map hr_total reports)
      in if answers = [] then 0 else if amount = 0 then 0 else round_to 3 (real bad / real amount))"

record hallucination_benchmark =
  hb_rate :: real
  hb_total :: nat
  hb_claims :: nat
  hb_samples :: nat

definition run_hallucination_benchmark :: "(string \<times> string) list \<Rightarrow> hallucination_benchmark" where
  \<comment> \<open>of answers and contexts\<close>
  "run_hallucination_benchmark items =
     (let reports = map (\<lambda>(a, c). detect_hallucinations a c) items
      in if items = [] then \<lparr>hb_rate = 0, hb_total = 0, hb_claims = 0, hb_samples = 0\<rparr>
         else \<lparr>hb_rate = compute_hallucination_rate (map fst items) (map snd items),
                hb_total = sum_list (map hr_total reports), hb_claims = sum_list (map (\<lambda>r. length (hr_claims r)) reports),
                hb_samples = length items\<rparr>)"

lemma dict_keys_fold_set:
  "dom (map_of (foldl (\<lambda>d c. dict_set c (f c) d) D cs)) = dom (map_of D) \<union> set cs"
  by (induction cs arbitrary: D) (auto split: if_splits)

text \<open>
  The report on hallucinations is a partition: the claims of the answer are the supported and the hallucinated ones, with
  evidence for exactly the supported ones, and the rate lies between 0 and 1; without a context every claim is
  hallucinated.
\<close>

theorem hallucinations_partition:
  fixes a c defines "r \<equiv> detect_hallucinations a c"
  shows "hr_supported r + length (hr_claims r) = hr_total r \<and> set (hr_claims r) \<union> dom (map_of (hr_evidence r)) =
      (if strip a = [] then {} else set (decompose_into_claims a)) \<and>
    set (hr_claims r) \<inter> dom (map_of (hr_evidence r)) = {} \<and> 0 \<le> hr_rate r \<and> hr_rate r \<le> 1"
proof -
  have len: "length (filter P xs) + length (filter (\<lambda>x. \<not> P x) xs) = length xs" for P and xs :: "string list"
    by (rule sum_length_filter_compl)
  have "0 \<le> real (length (filter P xs)) / real (length xs) \<and> real (length (filter P xs)) / real (length xs) \<le> 1"
    for P and xs :: "string list" by (auto simp: divide_le_eq)
  then have rate: "0 \<le> round_to 3 (real (length (filter P xs)) / real (length xs)) \<and>
      round_to 3 (real (length (filter P xs)) / real (length xs)) \<le> 1" for P and xs :: "string list"
    using round_to_bounds [of 0 _ 3 1000] by simp
  show ?thesis
    unfolding r_def detect_hallucinations_def Let_def
    using len rate by (auto simp: dict_keys_fold_set)
qed

end
