(* ===== verification/Secret_Rotation.thy ===== *)
theory Secret_Rotation
  imports Sessions
begin

text \<open>
  Rotation of secrets, \<^verbatim>\<open>proxy/app/auth/secret_rotation.py\<close>, over the key manager of theory \<open>Api_Keys\<close>: new signing
  keys for tokens, new API keys for users, the records of both, the state that is kept on disk and the status. The
  configuration of tokens (\<^verbatim>\<open>shared/config.py\<close>) is read from the environment of the process when it starts. The generation
  of key pairs, SHA-256 and the draws are parameters; one clock reading stands for all readings of an operation; entries of
  the audit log are left out.
\<close>

subsection \<open>State\<close>

datatype rotation_status = Pending | In_progress | Completed | Failed | Rolled_back

datatype secret_type =
    Jwt_signing_key | Api_key_secret | Database_password | Embedder_api_key | Reranker_api_key | Llm_api_key

datatype rotation_details =
    No_details
  | Jwt_details string string string real
  | Api_details nat nat int real

record rotation_record =
  rr_id :: string
  rr_type :: secret_type
  rr_status :: rotation_status
  rr_started :: real
  rr_completed :: "real option"
  rr_by :: string
  rr_details :: rotation_details
  rr_error :: "string option"
  rr_old_fingerprint :: "string option"
  rr_new_fingerprint :: "string option"
  rr_grace :: int
  rr_expires :: "real option"

record key_pair =
  kp_id :: string
  kp_algorithm :: string
  kp_private :: string
  kp_public :: string
  kp_created :: stamp
  kp_fingerprint :: string

record rotation_manager =
  rm_grace :: int
  rm_overlap :: int
  rm_active :: "(string, rotation_record) dict"
  rm_history :: "rotation_record list"
  rm_jwt_keys :: "key_pair list"
  rm_last_time :: "real option"
  rm_last_error :: "string option"
  rm_total :: nat
  rm_failed :: nat
  rm_initialized :: bool

definition new_rotation_manager :: "int \<Rightarrow> int \<Rightarrow> rotation_manager" where
  "new_rotation_manager grace overlap =
     \<lparr>rm_grace = grace, rm_overlap = overlap, rm_active = [], rm_history = [], rm_jwt_keys = [], rm_last_time = None,
      rm_last_error = None, rm_total = 0, rm_failed = 0, rm_initialized = False\<rparr>"

record rotation_file =
  rf_last_time :: "real option"
  rf_total :: nat
  rf_failed :: nat
  rf_last_error :: "string option"

record machine =
  mc_environ :: "(string, string) dict"
    \<comment> \<open>\<^verbatim>\<open>os.environ\<close> of the process\<close>
  mc_writable :: bool
  mc_state :: "rotation_file option"
  mc_key_log :: "(string \<times> string \<times> string) list"
    \<comment> \<open>\<^verbatim>\<open>jwt_keys.jsonl\<close>: key id, algorithm and fingerprint\<close>
  mc_signals :: nat
    \<comment> \<open>how often the signal file was written\<close>

record rotation_env =
  re_sha :: "string \<Rightarrow> string"
  re_generate :: "bool \<Rightarrow> exn + string \<times> string"
    \<comment> \<open>private and public key, for an elliptic curve or for RSA; \<^verbatim>\<open>ImportError\<close> without the library\<close>
  re_secret :: string
    \<comment> \<open>\<^verbatim>\<open>JWT_SECRET\<close> of the configuration\<close>

definition or_default_int :: "int option \<Rightarrow> int \<Rightarrow> int" where
  "or_default_int x d = (case x of None \<Rightarrow> d | Some n \<Rightarrow> if n = 0 then d else n)"

subsection \<open>The state on disk\<close>

definition persist_state :: "rotation_manager \<Rightarrow> machine \<Rightarrow> machine" where
  "persist_state m w =
     (if mc_writable w
      then w\<lparr>mc_state := Some \<lparr>rf_last_time = rm_last_time m, rf_total = rm_total m, rf_failed = rm_failed m,
                              rf_last_error = rm_last_error m\<rparr>\<rparr>
      else w)"

definition load_state :: "machine \<Rightarrow> rotation_manager \<Rightarrow> rotation_manager" where
  "load_state w m =
     (case mc_state w of
        None \<Rightarrow> m
      | Some f \<Rightarrow> m\<lparr>rm_last_time := rf_last_time f, rm_total := rf_total f, rm_failed := rf_failed f,
                    rm_last_error := rf_last_error f\<rparr>)"

definition ensure_initialized :: "machine \<Rightarrow> rotation_manager \<Rightarrow> rotation_manager" where
  "ensure_initialized w m = (if rm_initialized m then m else (load_state w m)\<lparr>rm_initialized := True\<rparr>)"

definition persist_key_pair :: "key_pair \<Rightarrow> machine \<Rightarrow> machine" where
  "persist_key_pair p w =
     (if mc_writable w then w\<lparr>mc_key_log := mc_key_log w @ [(kp_id p, kp_algorithm p, kp_fingerprint p)]\<rparr> else w)"

definition signal_reload :: "machine \<Rightarrow> bool \<times> machine" where
  "signal_reload w = (if mc_writable w then (True, w\<lparr>mc_signals := mc_signals w + 1\<rparr>) else (False, w))"

definition set_environ :: "string \<Rightarrow> string \<Rightarrow> machine \<Rightarrow> machine" where
  "set_environ k v w = w\<lparr>mc_environ := dict_set k v (mc_environ w)\<rparr>"

subsection \<open>Signing keys\<close>

definition generate_jwt_key_pair :: "rotation_env \<Rightarrow> real \<Rightarrow> string \<Rightarrow> string \<Rightarrow> string \<Rightarrow> exn + key_pair" where
  "generate_jwt_key_pair E now hex random algorithm =
     (let pair = (\<lambda>alg private public. \<lparr>kp_id = ''key_'' @ hex, kp_algorithm = alg, kp_private = private, kp_public = public,
                    kp_created = Iso now, kp_fingerprint = take 16 (re_sha E public)\<rparr>)
      in case re_generate E (starts_with ''ES'' (py_upper algorithm)) of
           Inr (private, public) \<Rightarrow> Inr (pair algorithm private public)
         | Inl (PyException c msg) \<Rightarrow>
             (if c = ''ImportError'' then Inr (pair ''HS256'' random random) else Inl (PyException c msg))
         | Inl e \<Rightarrow> Inl e)"

definition finish_rotation :: "string \<Rightarrow> rotation_record \<Rightarrow> rotation_manager \<Rightarrow> machine \<Rightarrow> rotation_manager \<times> machine" where
  \<comment> \<open>the \<^verbatim>\<open>finally\<close> of both rotations\<close>
  "finish_rotation rid r m w =
     (let m = m\<lparr>rm_history := rm_history m @ [r], rm_active := dict_del rid (rm_active m)\<rparr> in (m, persist_state m w))"

definition failed_record :: "exn \<Rightarrow> real \<Rightarrow> rotation_record \<Rightarrow> rotation_record" where
  "failed_record e now r = r\<lparr>rr_status := Failed, rr_error := Some (exn_str e), rr_completed := Some now\<rparr>"

definition count_failure :: "exn \<Rightarrow> rotation_manager \<Rightarrow> rotation_manager" where
  "count_failure e m = m\<lparr>rm_failed := rm_failed m + 1, rm_last_error := Some (exn_str e)\<rparr>"

definition count_success :: "rotation_record \<Rightarrow> rotation_manager \<Rightarrow> rotation_manager" where
  "count_success r m = m\<lparr>rm_last_time := rr_completed r, rm_total := rm_total m + 1\<rparr>"

definition started :: "string \<Rightarrow> secret_type \<Rightarrow> real \<Rightarrow> string \<Rightarrow> int \<Rightarrow> rotation_record" where
  "started rid ty now by' grace =
     \<lparr>rr_id = rid, rr_type = ty, rr_status = In_progress, rr_started = now, rr_completed = None, rr_by = by', rr_details = No_details,
      rr_error = None, rr_old_fingerprint = None, rr_new_fingerprint = None, rr_grace = grace, rr_expires = None\<rparr>"

definition activate_keys :: "key_pair \<Rightarrow> string \<Rightarrow> machine \<Rightarrow> machine" where
  "activate_keys p algorithm w =
     (let w = set_environ ''JWT_SECRET'' (kp_private p) w;
          w = (if starts_with ''RS'' (py_upper algorithm) then set_environ ''JWT_PUBLIC_KEY'' (kp_public p) w else w)
      in set_environ ''JWT_ALGORITHM'' algorithm w)"

definition jwt_completed :: "rotation_env \<Rightarrow> key_pair \<Rightarrow> string \<Rightarrow> int \<Rightarrow> real \<Rightarrow> rotation_record \<Rightarrow> rotation_record" where
  "jwt_completed E p algorithm grace now r =
     r\<lparr>rr_old_fingerprint := Some (if re_secret E \<noteq> [] then take 16 (re_sha E (re_secret E)) else ''none''),
       rr_new_fingerprint := Some (kp_fingerprint p), rr_expires := Some (now + of_int grace), rr_status := Completed,
       rr_completed := Some now, rr_details := Jwt_details algorithm (kp_id p) (kp_fingerprint p) (now + of_int grace)\<rparr>"

definition rotate_jwt_keys ::
  "rotation_env \<Rightarrow> real \<Rightarrow> string \<Rightarrow> string \<Rightarrow> string \<Rightarrow> string \<Rightarrow> string \<Rightarrow> int option \<Rightarrow> rotation_manager \<Rightarrow> machine
   \<Rightarrow> (exn + rotation_record) \<times> rotation_manager \<times> machine" where
  "rotate_jwt_keys E now rid hex random algorithm by' grace_seconds m w =
     (let m = ensure_initialized w m;
          grace = or_default_int grace_seconds (rm_grace m);
          r = started rid Jwt_signing_key now by' grace;
          m = m\<lparr>rm_active := dict_set rid r (rm_active m)\<rparr>
      in case generate_jwt_key_pair E now hex random algorithm of
           Inl e \<Rightarrow>
             (if is_exception e
              then (let r = failed_record e now r in (Inr r, finish_rotation rid r (count_failure e m) w))
              else (Inl e, finish_rotation rid r m w))
         | Inr p \<Rightarrow>
             (let r = jwt_completed E p algorithm grace now r;
                  w = snd (signal_reload (persist_key_pair p (activate_keys p algorithm w)));
                  m = count_success r (m\<lparr>rm_jwt_keys := rm_jwt_keys m @ [p]\<rparr>)
              in (Inr r, finish_rotation rid r m w)))"

subsection \<open>API keys\<close>

fun new_keys :: "(string \<Rightarrow> string) \<Rightarrow> real \<Rightarrow> (string \<times> string) list \<Rightarrow> api_key list \<Rightarrow> string list \<Rightarrow> key_manager
   \<Rightarrow> (exn + string list) \<times> key_manager" where
  \<comment> \<open>one new key per user; the users that have one, most recent first; a token and a key id are drawn for each\<close>
  "new_keys sha now draws [] users km = (Inr users, km)"
| "new_keys sha now draws (k # ks) users km =
     (if key_user k \<in> set users then new_keys sha now draws ks users km
      else
        (case draws of
           [] \<Rightarrow> (Inl (PyException ''OSError'' ''no randomness''), km)
         | (token, kid) # draws \<Rightarrow>
             (case generate_key sha now token kid (key_user k) (Some (key_roles k)) None None km of
                (Inl e, km) \<Rightarrow> (Inl e, km)
              | (Inr v, km) \<Rightarrow> new_keys sha now draws ks (key_user k # users) km)))"

definition keys_to_rotate :: "real \<Rightarrow> string list option \<Rightarrow> key_manager \<Rightarrow> api_key list" where
  "keys_to_rotate now user_ids km =
     filter is_active
       (case user_ids of
          None \<Rightarrow> list_keys now None False km
        | Some us \<Rightarrow> if us = [] then list_keys now None False km else concat (map (\<lambda>u. list_keys now (Some u) False km) us))"

definition rotate_api_keys ::
  "rotation_env \<Rightarrow> real \<Rightarrow> string \<Rightarrow> (string \<times> string) list \<Rightarrow> string list option \<Rightarrow> string \<Rightarrow> int option \<Rightarrow> key_manager
   \<Rightarrow> rotation_manager \<Rightarrow> machine \<Rightarrow> (exn + rotation_record) \<times> key_manager \<times> rotation_manager \<times> machine" where
  "rotate_api_keys E now rid draws user_ids by' overlap_seconds km m w =
     (let m = ensure_initialized w m;
          overlap = or_default_int overlap_seconds (rm_overlap m);
          r = started rid Api_key_secret now by' overlap;
          m = m\<lparr>rm_active := dict_set rid r (rm_active m)\<rparr>
      in case new_keys (re_sha E) now draws (keys_to_rotate now user_ids km) [] km of
           (Inl e, km) \<Rightarrow>
             (if is_exception e
              then (let r = failed_record e now r in (Inr r, km, finish_rotation rid r (count_failure e m) w))
              else (Inl e, km, finish_rotation rid r m w))
         | (Inr users, km) \<Rightarrow>
             (let r = r\<lparr>rr_status := Completed, rr_completed := Some now,
                        rr_details := Api_details (length users) (length users) overlap (now + of_int overlap)\<rparr>
              in (Inr r, km, finish_rotation rid r (count_success r m) w)))"

subsection \<open>Status\<close>

definition jwt_key_age :: "real \<Rightarrow> rotation_manager \<Rightarrow> real option" where
  "jwt_key_age now m =
     (if rm_jwt_keys m = [] then None else map_option (\<lambda>t. now - t) (fromisoformat (kp_created (last (rm_jwt_keys m)))))"

definition rotation_status_of :: "real \<Rightarrow> rotation_manager \<Rightarrow> string" where
  "rotation_status_of now m =
     (case jwt_key_age now m of
        Some a \<Rightarrow> if a > 30 * 86400 then ''stale_key''
                  else if rm_active m \<noteq> [] then ''rotating''
                  else if rm_failed m > 0 \<and> truthy_str (rm_last_error m) then ''degraded'' else ''ok''
      | None \<Rightarrow> if rm_active m \<noteq> [] then ''rotating''
                else if rm_failed m > 0 \<and> truthy_str (rm_last_error m) then ''degraded'' else ''ok'')"

definition get_rotation_history :: "int \<Rightarrow> rotation_manager \<Rightarrow> rotation_record list" where
  "get_rotation_history limit m = slice_from (- limit) (rm_history m)"

subsection \<open>The configuration of a process\<close>

definition getenv :: "machine \<Rightarrow> string \<Rightarrow> string \<Rightarrow> string" where
  "getenv w k d = dict_getd (mc_environ w) k d"

definition jwt_config :: "machine \<Rightarrow> bool \<Rightarrow> string \<Rightarrow> string \<times> string \<times> string" where
  \<comment> \<open>secret, algorithm and public key when the configuration is imported; an ephemeral secret is drawn if there is none\<close>
  "jwt_config w auth_enabled ephemeral =
     (let s = getenv w ''JWT_SECRET'' [] in
      (if auth_enabled \<and> s = [] then ephemeral else s, getenv w ''JWT_ALGORITHM'' ''RS256'', getenv w ''JWT_PUBLIC_KEY'' []))"

definition restart :: "(string, string) dict \<Rightarrow> machine \<Rightarrow> machine" where
  \<comment> \<open>a new process gets the environment of its deployment; the files stay\<close>
  "restart deployed w = w\<lparr>mc_environ := deployed\<rparr>"

subsection \<open>Rotated API keys\<close>

lemma generate_key_keeps:
  assumes "generate_key sha now token kid u rs ttl rot km = (r, km')" "dict_get (keys km) i = Some k" "i \<noteq> kid"
  shows "dict_get (keys km') i = Some k \<and> (dict_has (key_to_user km) h \<longrightarrow> dict_has (key_to_user km') h)"
  using assms by (auto simp: generate_key_def split: if_splits)

lemma new_keys_keep:
  assumes "new_keys sha now draws ks us km = (r, km')" "dict_get (keys km) i = Some k" "list_all (\<lambda>(t, j). j \<noteq> i) draws"
  shows "dict_get (keys km') i = Some k \<and> (dict_has (key_to_user km) h \<longrightarrow> dict_has (key_to_user km') h)"
  using assms
proof (induction sha now draws ks us km arbitrary: r rule: new_keys.induct)
  case (1 sha now draws users km)
  then show ?case by simp
next
  case (2 sha now draws k' ks users km)
  show ?case
  proof (cases "key_user k' \<in> set users")
    case True
    then show ?thesis using 2 by simp
  next
    case False
    show ?thesis
    proof (cases draws)
      case Nil
      then show ?thesis using "2.prems" False by simp
    next
      case (Cons d ds)
      obtain token kid where d: "d = (token, kid)" by (cases d)
      obtain x km1 where g: "generate_key sha now token kid (key_user k') (Some (key_roles k')) None None km = (x, km1)"
        by (cases "generate_key sha now token kid (key_user k') (Some (key_roles k')) None None km")
      have keep: "dict_get (keys km1) i = Some k \<and> (dict_has (key_to_user km) h \<longrightarrow> dict_has (key_to_user km1) h)"
      proof -
        have "i \<noteq> kid" using "2.prems"(3) by (auto simp: Cons d)
        from generate_key_keeps [OF g "2.prems"(2) this] show ?thesis .
      qed
      show ?thesis
      proof (cases x)
        case (Inl e)
        then show ?thesis using "2.prems"(1) False keep by (simp add: Cons d g)
      next
        case (Inr v)
        have run: "new_keys sha now ds ks (key_user k' # users) km1 = (r, km')"
          using "2.prems"(1) False by (simp add: Cons d g Inr)
        have "dict_get (keys km') i = Some k \<and> (dict_has (key_to_user km1) h \<longrightarrow> dict_has (key_to_user km') h)"
          using "2.IH"(2) [OF False Cons d [symmetric] g [symmetric] Inr run] keep "2.prems"(3) by (simp add: Cons d)
        then show ?thesis using keep by blast
      qed
    qed
  qed
qed

text \<open>
  C18. A rotation retires nothing: whether it succeeds or fails, every key of the store that it meets is left exactly as it was,
  active and with its expiry, and its digest stays known, so that old keys keep working after the overlap.
\<close>

theorem rotation_retires_nothing:
  assumes "rotate_api_keys E now rid draws us by' overlap km m w = (r, km', rest)"
    and "dict_get (keys km) i = Some k" "list_all (\<lambda>(t, j). j \<noteq> i) draws" "dict_has (key_to_user km) (key_hash k)"
  shows "dict_get (keys km') i = Some k \<and> dict_has (key_to_user km') (key_hash k)"
proof -
  obtain x kmx where n: "new_keys (re_sha E) now draws (keys_to_rotate now us km) [] km = (x, kmx)"
    by (cases "new_keys (re_sha E) now draws (keys_to_rotate now us km) [] km")
  have "km' = kmx"
    using assms(1) by (auto simp: rotate_api_keys_def Let_def n split: sum.splits if_splits)
  then show ?thesis using new_keys_keep [OF n assms(2,3)] assms(4) by blast
qed

lemma dict_set_fresh: "dict_get d k = None \<Longrightarrow> dict_set k v d = d @ [(k, v)]"
  by (induction d) (auto simp: dict_set_def split: if_splits)

lemma list_keys_other_user:
  assumes "dict_get (keys km) kid = None" "u' \<noteq> u" "u' \<noteq> []"
  shows "list_keys now (Some u') False (km\<lparr>keys := dict_set kid (issued_key sha now tk kid u rs ttl rot) (keys km), key_to_user := d\<rparr>) =
    list_keys now (Some u') False km"
  using assms by (simp add: list_keys_def dict_values_def dict_set_fresh truthy_str_def Let_def)

text \<open>
  A rotation is not atomic: when a later user is at the limit of keys, the whole rotation is recorded as failed, although
  a key was already generated for an earlier user, which stays in the store, active, and whose value nobody knows.
\<close>

theorem failed_rotation_leaves_key:
  assumes "keys_to_rotate now us km = k1 # k2 # ks" "key_user k1 \<noteq> key_user k2" "key_user k2 \<noteq> []"
    and "draws = (t1, i1) # d2 # ds" "dict_get (keys km) i1 = None"
    and "length (list_keys now (Some (key_user k1)) False km) < 10" "10 \<le> length (list_keys now (Some (key_user k2)) False km)"
  shows "\<exists>r km' m' w' k. rotate_api_keys E now rid draws us by' overlap km m w = (Inr r, km', m', w') \<and> rr_status r = Failed \<and>
    dict_get (keys km') i1 = Some k \<and> key_user k = key_user k1 \<and> is_active k"
proof -
  define km1 where "km1 = km\<lparr>keys := dict_set i1 (issued_key (re_sha E) now t1 i1 (key_user k1) (Some (key_roles k1)) None None) (keys km),
      key_to_user := dict_set (re_sha E (''sk-'' @ t1)) (key_user k1) (key_to_user km)\<rparr>"
  have g1: "generate_key (re_sha E) now t1 i1 (key_user k1) (Some (key_roles k1)) None None km = (Inr (''sk-'' @ t1), km1)"
    using assms(6) by (simp add: generate_key_def km1_def MAX_KEYS_PER_USER_def)
  have "list_keys now (Some (key_user k2)) False km1 = list_keys now (Some (key_user k2)) False km"
    unfolding km1_def by (rule list_keys_other_user [OF assms(5)]) (use assms(2,3) in auto)
  then have g2: "\<exists>e. generate_key (re_sha E) now (fst d2) (snd d2) (key_user k2) (Some (key_roles k2)) None None km1 = (Inl e, km1) \<and> is_exception e"
    using assms(7) by (simp add: generate_key_def MAX_KEYS_PER_USER_def)
  then obtain e where e: "generate_key (re_sha E) now (fst d2) (snd d2) (key_user k2) (Some (key_roles k2)) None None km1 = (Inl e, km1)"
    "is_exception e" by blast
  have n: "new_keys (re_sha E) now draws (keys_to_rotate now us km) [] km = (Inl e, km1)"
    using assms(2) e(1) by (cases d2) (simp add: assms(1,4) g1)
  have "dict_get (keys km1) i1 = Some (issued_key (re_sha E) now t1 i1 (key_user k1) (Some (key_roles k1)) None None)"
    by (simp add: km1_def)
  then show ?thesis
    using e(2) by (auto simp: rotate_api_keys_def Let_def n finish_rotation_def failed_record_def)
qed

subsection \<open>Bookkeeping\<close>

datatype rotation_event =
    Rotate_jwt real string string string string string "int option"
  | Rotate_api real string "(string \<times> string) list" "string list option" string "int option"

type_synonym rotation_state = "key_manager \<times> rotation_manager \<times> machine"

fun rotation_step :: "rotation_env \<Rightarrow> rotation_state \<Rightarrow> rotation_event \<Rightarrow> rotation_state" where
  "rotation_step E (km, m, w) (Rotate_jwt now rid hex random alg by' grace) =
     (km, snd (rotate_jwt_keys E now rid hex random alg by' grace m w))"
| "rotation_step E (km, m, w) (Rotate_api now rid draws us by' overlap) = snd (rotate_api_keys E now rid draws us by' overlap km m w)"

fun counters_kept :: "rotation_state \<Rightarrow> bool" where
  \<comment> \<open>no rotation is under way, and the file shows the counters when it can be written\<close>
  "counters_kept (km, m, w) \<longleftrightarrow>
     rm_active m = [] \<and>
     (rm_initialized m \<and> mc_writable w \<longrightarrow>
        mc_state w = Some \<lparr>rf_last_time = rm_last_time m, rf_total = rm_total m, rf_failed = rm_failed m,
                          rf_last_error = rm_last_error m\<rparr>)"

lemma dict_del_set_Nil: "dict_del k (dict_set k v []) = []"
  by (simp add: dict_del_def dict_set_def)

lemma finish_kept:
  assumes "rm_active m = dict_set rid x []" "rm_initialized m"
  shows "counters_kept (km, finish_rotation rid r m w)"
  using assms by (simp add: finish_rotation_def persist_state_def dict_del_set_Nil Let_def)

lemma ensure_initialized_simps [simp]:
  "rm_initialized (ensure_initialized w m)"
  "rm_active (ensure_initialized w m) = rm_active m"
  "rm_history (ensure_initialized w m) = rm_history m"
  by (auto simp: ensure_initialized_def load_state_def split: option.splits)

interpretation rotations: invariant_system "rotation_step E" counters_kept for E
proof
  fix s ev assume s: "counters_kept s"
  obtain km m w where k: "s = (km, m, w)" by (cases s)
  show "counters_kept (rotation_step E s ev)"
  proof (cases ev)
    case (Rotate_jwt now rid hex random alg by' grace)
    show ?thesis
      using s unfolding k Rotate_jwt rotation_step.simps rotate_jwt_keys_def Let_def
      by (auto simp del: counters_kept.simps simp: count_failure_def count_success_def split: sum.splits intro!: finish_kept)
        (simp_all)
  next
    case (Rotate_api now rid draws us by' overlap)
    show ?thesis
      using s unfolding k Rotate_api rotation_step.simps rotate_api_keys_def Let_def
      by (auto simp del: counters_kept.simps simp: count_failure_def count_success_def split: sum.splits prod.splits intro!: finish_kept)
        (simp_all)
  qed
qed

lemma step_initializes:
  "rm_initialized (fst (snd (rotation_step E s ev)))"
  by (cases s; cases ev) (auto simp: rotate_jwt_keys_def rotate_api_keys_def finish_rotation_def count_failure_def count_success_def Let_def
      split: sum.splits prod.splits)

lemma mc_writable_step: "mc_writable (snd (snd (rotation_step E s ev))) = mc_writable (snd (snd s))"
  by (cases s; cases ev) (auto simp: rotate_jwt_keys_def rotate_api_keys_def finish_rotation_def persist_state_def signal_reload_def persist_key_pair_def
      activate_keys_def set_environ_def Let_def split: sum.splits prod.splits)

text \<open>
  C34. The counters survive: after any sequence of rotations on a disk that can be written, successful, failed or aborted, a new
  process that reads the state continues with the same numbers, time and error as the old one.
\<close>

theorem restart_restores_counters:
  assumes "mc_writable w" "rm_active m = []" "\<not> rm_initialized m" "evs \<noteq> []"
    and "foldl (rotation_step E) (km, m, w) evs = (km', m', w')"
  shows "let n = ensure_initialized (restart deployed w') (new_rotation_manager g o')
    in (rm_last_time n, rm_total n, rm_failed n, rm_last_error n) = (rm_last_time m', rm_total m', rm_failed m', rm_last_error m')"
proof -
  have "counters_kept (foldl (rotation_step E) (km, m, w) evs)"
    by (rule rotations.run_invar) (simp add: assms(2,3))
  then have kept: "counters_kept (km', m', w')" by (simp only: assms(5))
  have wr: "mc_writable (snd (snd (foldl (rotation_step E) s evs))) = mc_writable (snd (snd s))" for evs s
    by (induction evs arbitrary: s) (simp_all add: mc_writable_step del: rotation_step.simps)
  have "rm_initialized (fst (snd (foldl (rotation_step E) s evs)))" for s
    using assms(4) by (cases evs rule: rev_cases) (simp_all add: step_initializes del: rotation_step.simps)
  from this [of "(km, m, w)"] have "rm_initialized m'" using assms(5) by simp
  moreover have "mc_writable w'" using wr [of "(km, m, w)" evs] assms(1,5) by simp
  ultimately show ?thesis
    using kept by (simp add: ensure_initialized_def load_state_def restart_def new_rotation_manager_def Let_def)
qed

lemma failures_grow:
  assumes "rm_initialized (fst (snd s))" "0 < rm_failed (fst (snd s))" "truthy_str (rm_last_error (fst (snd s)))"
    and "\<And>c e. re_generate E c = Inl e \<Longrightarrow> exn_str e \<noteq> []"
  shows "0 < rm_failed (fst (snd (rotation_step E s ev))) \<and> truthy_str (rm_last_error (fst (snd (rotation_step E s ev))))"
proof -
  obtain km m w where s: "s = (km, m, w)" by (cases s)
  have i: "ensure_initialized w m = m" using assms(1) by (simp add: s ensure_initialized_def)
  have gen: "exn_str e \<noteq> []" if "generate_jwt_key_pair E now hex random alg = Inl e" for now hex random alg e
    using that assms(4) by (auto simp: generate_jwt_key_pair_def Let_def split: sum.splits exn.splits if_splits)
  have keys: "exn_str e \<noteq> []" if "new_keys sha now draws ks us km = (Inl e, km')" for sha now draws ks us km km' e
    using that
  proof (induction sha now draws ks us km rule: new_keys.induct)
    case (1 sha now draws users km)
    then show ?case by simp
  next
    case (2 sha now draws k ks users km)
    then show ?case
      by (auto simp: generate_key_def split: if_splits list.splits prod.splits sum.splits)
  qed
  show ?thesis
  proof (cases ev)
    case (Rotate_jwt now rid hex random alg by' grace)
    show ?thesis
      using assms(2,3) gen unfolding s Rotate_jwt rotation_step.simps rotate_jwt_keys_def Let_def i
      by (auto simp: count_failure_def count_success_def finish_rotation_def truthy_str_def Let_def split: sum.splits)
  next
    case (Rotate_api now rid draws us by' overlap)
    show ?thesis
      using assms(2,3) keys unfolding s Rotate_api rotation_step.simps rotate_api_keys_def Let_def i
      by (auto simp: count_failure_def count_success_def finish_rotation_def truthy_str_def Let_def split: sum.splits prod.splits)
  qed
qed

text \<open>
  One failure is never forgiven: after a rotation has failed, the status is never \<open>ok\<close> again, however many rotations
  succeed since, because the last error is not cleared and the count only grows.
\<close>

theorem failure_never_forgiven:
  assumes "rm_initialized m" "0 < rm_failed m" "truthy_str (rm_last_error m)"
    and "\<And>c e. re_generate E c = Inl e \<Longrightarrow> exn_str e \<noteq> []"
  shows "rotation_status_of now (fst (snd (foldl (rotation_step E) (km, m, w) evs))) \<noteq> ''ok''"
proof -
  have "rm_initialized (fst (snd s)) \<Longrightarrow> 0 < rm_failed (fst (snd s)) \<Longrightarrow> truthy_str (rm_last_error (fst (snd s))) \<Longrightarrow>
      0 < rm_failed (fst (snd (foldl (rotation_step E) s evs))) \<and> truthy_str (rm_last_error (fst (snd (foldl (rotation_step E) s evs))))" for s
  proof (induction evs arbitrary: s)
    case Nil
    then show ?case by simp
  next
    case (Cons ev evs)
    show ?case
      using Cons.IH [of "rotation_step E s ev"] failures_grow [OF Cons.prems assms(4)] step_initializes by simp
  qed
  from this [of "(km, m, w)"] assms(1-3) have "0 < rm_failed (fst (snd (foldl (rotation_step E) (km, m, w) evs)))"
    "truthy_str (rm_last_error (fst (snd (foldl (rotation_step E) (km, m, w) evs))))" by simp_all
  then show ?thesis by (auto simp: rotation_status_of_def split: option.splits)
qed

lemma rotated_key_never_read:
  \<comment> \<open>the private key goes to the environment of the process only, which reads its configuration once, at its start; a new
    process starts with the environment of the deployment\<close>
  assumes "rotate_jwt_keys E now rid hex random alg by' grace m w = (r, m', w')"
  shows "jwt_config (restart deployed w') auth eph = jwt_config (restart deployed w) auth eph"
  by (simp add: restart_def jwt_config_def getenv_def)

lemma zero_grace_is_default: "or_default_int (Some 0) d = d"
  by (simp add: or_default_int_def)

lemma history_limit_zero: "get_rotation_history 0 m = rm_history m"
  by (simp add: get_rotation_history_def slice_from_def)

subsection \<open>Concrete inputs\<close>

definition plain_rotation :: rotation_env where
  "plain_rotation = \<lparr>re_sha = (\<lambda>s. s), re_generate = (\<lambda>c. Inr (''private'', ''public'')), re_secret = ''s''\<rparr>"

definition plain_machine :: machine where
  "plain_machine = \<lparr>mc_environ = [], mc_writable = True, mc_state = None, mc_key_log = [], mc_signals = 0\<rparr>"

definition key_of :: "string \<Rightarrow> string \<Rightarrow> api_key" where
  "key_of u i = issued_key (\<lambda>s. s) 0 i i u None None None"

definition store_of :: "(string \<times> string) list \<Rightarrow> key_manager" where
  \<comment> \<open>keys with the given users and ids\<close>
  "store_of us = \<lparr>keys = map (\<lambda>(u, i). (i, key_of u i)) us, key_to_user = map (\<lambda>(u, i). (''sk-'' @ i, u)) us\<rparr>"

lemma key_of_simps [simp]:
  "key_user (key_of u i) = u" "is_active (key_of u i)" "key_roles (key_of u i) = [''user'']" "key_hash (key_of u i) = ''sk-'' @ i"
  "\<not> key_expired 0 (key_of u i)"
  by (simp_all add: key_of_def issued_key_def key_expired_def expiry_def DEFAULT_KEY_TTL_DAYS_def)

theorem rotation_retires_nothing_witness:
  "dict_get (keys (fst (snd (rotate_api_keys plain_rotation 0 ''r'' [(''t'', ''new'')] None ''cron'' None (store_of [(''anna'', ''old'')])
     (new_rotation_manager 3600 86400) plain_machine)))) ''old'' = Some (key_of ''anna'' ''old'')"
proof -
  obtain r km' rest where r: "rotate_api_keys plain_rotation 0 ''r'' [(''t'', ''new'')] None ''cron'' None (store_of [(''anna'', ''old'')])
     (new_rotation_manager 3600 86400) plain_machine = (r, km', rest)" by (metis surj_pair)
  have "dict_get (keys km') ''old'' = Some (key_of ''anna'' ''old'')"
    using rotation_retires_nothing [OF r, of "''old''" "key_of ''anna'' ''old''"] by (simp add: store_of_def)
  then show ?thesis by (simp only: r snd_conv fst_conv)
qed

theorem restart_restores_counters_witness:
  "let n = ensure_initialized (restart [] (snd (snd (foldl (rotation_step plain_rotation) (init_manager, new_rotation_manager 1 1, plain_machine)
     [Rotate_jwt 5 ''r'' ''h'' ''x'' ''RS256'' ''cron'' None])))) (new_rotation_manager 1 1) in rm_total n = 1"
proof -
  let ?s = "foldl (rotation_step plain_rotation) (init_manager, new_rotation_manager 1 1, plain_machine)
     [Rotate_jwt 5 ''r'' ''h'' ''x'' ''RS256'' ''cron'' None]"
  obtain km' m' w' where s: "?s = (km', m', w')" by (cases ?s)
  have "rm_total m' = 1"
    using s by (auto simp: rotate_jwt_keys_def plain_rotation_def generate_jwt_key_pair_def finish_rotation_def count_success_def
        ensure_initialized_def load_state_def new_rotation_manager_def plain_machine_def Let_def)
  moreover have "mc_writable plain_machine" "rm_active (new_rotation_manager 1 1) = []" "\<not> rm_initialized (new_rotation_manager 1 1)"
    by (simp_all add: plain_machine_def new_rotation_manager_def)
  ultimately show ?thesis
    using restart_restores_counters [OF _ _ _ _ s, of "[]" 1 1] by (simp only: s snd_conv Let_def prod.inject) simp
qed

theorem failure_never_forgiven_witness:
  "rotation_status_of 9 (fst (snd (foldl (rotation_step plain_rotation)
     (init_manager, (new_rotation_manager 1 1)\<lparr>rm_initialized := True, rm_failed := 1, rm_last_error := Some ''e''\<rparr>, plain_machine)
     [Rotate_jwt 5 ''r'' ''h'' ''x'' ''RS256'' ''cron'' None]))) \<noteq> ''ok''"
  by (rule failure_never_forgiven) (simp_all add: plain_rotation_def truthy_str_def)

definition crowded_store :: key_manager where
  "crowded_store = store_of ((''anna'', ''a'') # map (\<lambda>i. (''bob'', i)) [''0'', ''1'', ''2'', ''3'', ''4'', ''5'', ''6'', ''7'', ''8'', ''9''])"

theorem failed_rotation_leaves_key_witness:
  "\<exists>r km' m' w' k. rotate_api_keys plain_rotation 0 ''r'' [(''t'', ''new''), (''u'', ''other'')] None ''cron'' None crowded_store
     (new_rotation_manager 3600 86400) plain_machine = (Inr r, km', m', w') \<and> rr_status r = Failed \<and>
     dict_get (keys km') ''new'' = Some k \<and> key_user k = ''anna'' \<and> is_active k"
proof -
  have ks: "keys_to_rotate 0 None crowded_store = key_of ''anna'' ''a'' # key_of ''bob'' ''0'' #
      map (key_of ''bob'') [''1'', ''2'', ''3'', ''4'', ''5'', ''6'', ''7'', ''8'', ''9'']"
    by (simp add: keys_to_rotate_def list_keys_def crowded_store_def store_of_def dict_values_def truthy_str_def)
  have l: "length (list_keys 0 (Some ''anna'') False crowded_store) = 1" "length (list_keys 0 (Some ''bob'') False crowded_store) = 10"
    by (simp_all add: list_keys_def crowded_store_def store_of_def dict_values_def truthy_str_def)
  have f: "dict_get (keys crowded_store) ''new'' = None" by (simp add: crowded_store_def store_of_def)
  show ?thesis
    using failed_rotation_leaves_key [where E = plain_rotation and rid = "''r''" and by' = "''cron''" and overlap = None and
        m = "new_rotation_manager 3600 86400" and w = plain_machine, OF ks _ _ refl f] l by simp
qed

end
