(* ===== verification/Knowledge_Bases.thy ===== *)
theory Knowledge_Bases
  imports Accounts
begin

text \<open>
  Knowledge bases: their metadata and tasks in SQLite (\<^verbatim>\<open>proxy/app/core/kb_manager.py\<close>), the bridge from the ETL to the
  tasks (\<^verbatim>\<open>etl/scheduler/task_scheduler.py\<close>), the domain entities with the bus of their events (\<^verbatim>\<open>domain/entities.py\<close>,
  \<^verbatim>\<open>domain/event_bus.py\<close>), and the detection of stale documents with the scheduler that reindexes them
  (\<^verbatim>\<open>core/stale_detector.py\<close>, \<^verbatim>\<open>core/reindex_scheduler.py\<close>). A table is the list of its rows in the order of insertion, with the order
  of a query stable. Qdrant, ids and clock readings are parameters; gauges are left out.
\<close>

subsection \<open>Tables\<close>

record kb_row =
  kb_id :: string
  kb_name :: string
  kb_description :: string
  kb_collection :: string
  kb_model :: string
  kb_vector_size :: int
  kb_parser :: json_obj
    \<comment> \<open>stored as the text of a dictionary of literals, which is read back\<close>
  kb_docs :: "int option"
    \<comment> \<open>\<^verbatim>\<open>NULL\<close> after statistics over no tasks\<close>
  kb_chunks :: int
  kb_tokens :: int
  kb_status :: string
  kb_created :: real
  kb_updated :: real

record etl_task =
  et_id :: string
  et_kb :: string
  et_source_type :: string
  et_source_id :: string
  et_status :: string
  et_progress :: real
  et_error :: string
  et_created :: real
  et_updated :: real

record kb_db =
  kd_kbs :: "kb_row list"
  kd_tasks :: "etl_task list"

definition empty_kb_db :: kb_db where
  "empty_kb_db = \<lparr>kd_kbs = [], kd_tasks = []\<rparr>"

subsection \<open>Collections\<close>

record 'q qdrant_admin =
  qa_collections :: "'q \<Rightarrow> exn + string list"
  qa_create :: "string \<Rightarrow> int \<Rightarrow> 'q \<Rightarrow> (exn + unit) \<times> 'q"
    \<comment> \<open>the collection with its payload indexes\<close>
  qa_delete :: "string \<Rightarrow> 'q \<Rightarrow> (exn + unit) \<times> 'q"

definition guarded :: "(exn + unit) \<times> 'q \<Rightarrow> (exn + unit) \<times> 'q" where
  \<comment> \<open>a call whose exception is logged\<close>
  "guarded r = (case r of (Inl e, q) \<Rightarrow> (if is_exception e then Inr () else Inl e, q) | (Inr u, q) \<Rightarrow> (Inr u, q))"

definition ensure_qdrant_collection :: "'q qdrant_admin option \<Rightarrow> string \<Rightarrow> int \<Rightarrow> 'q \<Rightarrow> (exn + unit) \<times> 'q" where
  "ensure_qdrant_collection Q name width q =
     (case Q of
        None \<Rightarrow> (Inr (), q)
      | Some A \<Rightarrow>
          (case qa_collections A q of
             Inl e \<Rightarrow> (if is_exception e then Inr () else Inl e, q)
           | Inr existing \<Rightarrow> if name \<in> set existing then (Inr (), q) else guarded (qa_create A name width q)))"

subsection \<open>Knowledge bases\<close>

definition collection_name :: "string \<Rightarrow> string" where
  "collection_name name =
     ''kb_'' @ map (\<lambda>c. if c = CHR '' '' \<or> c = CHR ''-'' then CHR ''_'' else c) (py_lower name)"

definition create_kb ::
  "'q qdrant_admin option \<Rightarrow> string \<Rightarrow> real \<Rightarrow> string \<Rightarrow> string \<Rightarrow> string \<Rightarrow> int \<Rightarrow> json_obj \<Rightarrow> kb_db \<Rightarrow> 'q
   \<Rightarrow> (exn + kb_row) \<times> kb_db \<times> 'q" where
  "create_kb Q new_id now name description model width parser db q =
     (let coll = collection_name name;
          r = \<lparr>kb_id = new_id, kb_name = name, kb_description = description, kb_collection = coll, kb_model = model,
               kb_vector_size = width, kb_parser = parser, kb_docs = Some 0, kb_chunks = 0, kb_tokens = 0, kb_status = ''active'',
               kb_created = now, kb_updated = now\<rparr>
      in if list_ex (\<lambda>x. kb_id x = new_id \<or> kb_name x = name \<or> kb_collection x = coll) (kd_kbs db)
         then (Inl (ValueError (''Knowledge base '' @ [CHR 0x27] @ name @ [CHR 0x27] @ '' already exists'')), db, q)
         else
           (let db = db\<lparr>kd_kbs := kd_kbs db @ [r]\<rparr>;
                (e, q) = ensure_qdrant_collection Q coll width q
            in (map_sum id (\<lambda>u. r) e, db, q)))"

definition get_kb :: "string \<Rightarrow> kb_db \<Rightarrow> kb_row option" where
  "get_kb i db = find (\<lambda>r. kb_id r = i \<and> kb_status r \<noteq> ''deleted'') (kd_kbs db)"

definition get_kb_by_name :: "string \<Rightarrow> kb_db \<Rightarrow> kb_row option" where
  "get_kb_by_name name db = find (\<lambda>r. kb_name r = name \<and> kb_status r \<noteq> ''deleted'') (kd_kbs db)"

definition list_kbs :: "bool \<Rightarrow> kb_db \<Rightarrow> kb_row list" where
  "list_kbs include_deleted db =
     sort_key (\<lambda>r. - kb_created r) (filter (\<lambda>r. include_deleted \<or> kb_status r \<noteq> ''deleted'') (kd_kbs db))"

record kb_fields =
  \<comment> \<open>the keyword arguments of \<^verbatim>\<open>update_kb\<close> that are allowed\<close>
  kf_name :: "string option"
  kf_description :: "string option"
  kf_model :: "string option"
  kf_size :: "int option"
  kf_parser :: "json_obj option"
  kf_status :: "string option"

definition no_fields :: "kb_fields \<Rightarrow> bool" where
  "no_fields f \<longleftrightarrow> kf_name f = None \<and> kf_description f = None \<and> kf_model f = None \<and> kf_size f = None \<and> kf_parser f = None \<and>
     kf_status f = None"

definition set_fields :: "kb_fields \<Rightarrow> real \<Rightarrow> kb_row \<Rightarrow> kb_row" where
  "set_fields f now r =
     r\<lparr>kb_name := or_keep (kf_name f) (kb_name r), kb_description := or_keep (kf_description f) (kb_description r),
       kb_model := or_keep (kf_model f) (kb_model r), kb_vector_size := or_keep (kf_size f) (kb_vector_size r),
       kb_parser := or_keep (kf_parser f) (kb_parser r), kb_status := or_keep (kf_status f) (kb_status r), kb_updated := now\<rparr>"

definition change_kb :: "string \<Rightarrow> (kb_row \<Rightarrow> kb_row) \<Rightarrow> kb_db \<Rightarrow> kb_db" where
  "change_kb i f db = db\<lparr>kd_kbs := map (\<lambda>r. if kb_id r = i then f r else r) (kd_kbs db)\<rparr>"

definition update_kb :: "string \<Rightarrow> real \<Rightarrow> kb_fields \<Rightarrow> kb_db \<Rightarrow> (exn + kb_row) \<times> kb_db" where
  "update_kb i now f db =
     (if no_fields f then (Inl (ValueError ''No valid fields to update''), db)
      else if list_ex (\<lambda>r. kb_id r = i) (kd_kbs db) \<and> list_ex (\<lambda>r. kb_id r \<noteq> i \<and> Some (kb_name r) = kf_name f) (kd_kbs db)
      then (Inl (IntegrityError ''UNIQUE constraint failed: knowledge_bases.name''), db)
      else
        (let db = change_kb i (set_fields f now) db in
         case get_kb i db of
           None \<Rightarrow> (Inl (ValueError (''Knowledge base '' @ i @ '' not found'')), db)
         | Some r \<Rightarrow> (Inr r, db)))"

definition delete_kb :: "'q qdrant_admin option \<Rightarrow> string \<Rightarrow> bool \<Rightarrow> real \<Rightarrow> kb_db \<Rightarrow> 'q \<Rightarrow> (exn + bool) \<times> kb_db \<times> 'q" where
  "delete_kb Q i hard now db q =
     (if hard
      then
        (let (e, q) = (case (get_kb i db, Q) of
                         (Some r, Some A) \<Rightarrow> guarded (qa_delete A (kb_collection r) q)
                       | _ \<Rightarrow> (Inr (), q))
         in case e of
              Inl x \<Rightarrow> (Inl x, db, q)
            | Inr u \<Rightarrow>
                (Inr True,
                 db\<lparr>kd_tasks := filter (\<lambda>t. et_kb t \<noteq> i) (kd_tasks db), kd_kbs := filter (\<lambda>r. kb_id r \<noteq> i) (kd_kbs db)\<rparr>, q))
      else (Inr True, change_kb i (\<lambda>r. r\<lparr>kb_status := ''deleted'', kb_updated := now\<rparr>) db, q))"

subsection \<open>Tasks\<close>

definition create_task :: "string \<Rightarrow> real \<Rightarrow> string \<Rightarrow> string \<Rightarrow> string \<Rightarrow> kb_db \<Rightarrow> (exn + etl_task) \<times> kb_db" where
  "create_task new_id now i source_type source_id db =
     (let t = \<lparr>et_id = new_id, et_kb = i, et_source_type = source_type, et_source_id = source_id, et_status = ''pending'',
               et_progress = 0, et_error = [], et_created = now, et_updated = now\<rparr>
      in if list_ex (\<lambda>x. et_id x = new_id) (kd_tasks db)
         then (Inl (IntegrityError ''UNIQUE constraint failed: etl_tasks.id''), db)
         else if \<not> list_ex (\<lambda>r. kb_id r = i) (kd_kbs db) then (Inl (IntegrityError ''FOREIGN KEY constraint failed''), db)
         else (Inr t, db\<lparr>kd_tasks := kd_tasks db @ [t]\<rparr>))"

record task_fields =
  tf_status :: "string option"
  tf_progress :: "real option"
  tf_error :: "string option"

definition update_task :: "string \<Rightarrow> real \<Rightarrow> task_fields \<Rightarrow> kb_db \<Rightarrow> kb_db" where
  "update_task i now f db =
     (if tf_status f = None \<and> tf_progress f = None \<and> tf_error f = None then db
      else
        db\<lparr>kd_tasks := map (\<lambda>t. if et_id t = i
             then t\<lparr>et_status := or_keep (tf_status f) (et_status t), et_progress := or_keep (tf_progress f) (et_progress t),
                    et_error := or_keep (tf_error f) (et_error t), et_updated := now\<rparr>
             else t) (kd_tasks db)\<rparr>)"

definition list_tasks :: "string option \<Rightarrow> string option \<Rightarrow> kb_db \<Rightarrow> etl_task list" where
  "list_tasks i status db =
     sort_key (\<lambda>t. - et_created t)
       (filter (\<lambda>t. (truthy_str i \<longrightarrow> Some (et_kb t) = i) \<and> (truthy_str status \<longrightarrow> Some (et_status t) = status)) (kd_tasks db))"

definition get_task :: "string \<Rightarrow> kb_db \<Rightarrow> etl_task option" where
  "get_task i db = find (\<lambda>t. et_id t = i) (kd_tasks db)"

definition update_kb_stats :: "string \<Rightarrow> real \<Rightarrow> kb_db \<Rightarrow> kb_db" where
  "update_kb_stats i now db =
     (let ts = filter (\<lambda>t. et_kb t = i) (kd_tasks db);
          completed = (if ts = [] then None else Some (int (length (filter (\<lambda>t. et_status t = ''completed'') ts))))
      in change_kb i (\<lambda>r. r\<lparr>kb_docs := completed, kb_updated := now\<rparr>) db)"

subsection \<open>The bridge from the ETL\<close>

definition no_task_fields :: task_fields where
  "no_task_fields = \<lparr>tf_status = None, tf_progress = None, tf_error = None\<rparr>"

type_synonym active_tasks = "(string, string) dict"

definition start_task ::
  "string \<Rightarrow> real \<Rightarrow> string \<Rightarrow> string \<Rightarrow> string \<Rightarrow> active_tasks \<Rightarrow> kb_db \<Rightarrow> (exn + string option) \<times> active_tasks \<times> kb_db" where
  "start_task new_id now i source_type source_id act db =
     (case create_task new_id now i source_type source_id db of
        (Inl e, db) \<Rightarrow> ((if is_exception e then Inr None else Inl e), act, db)
      | (Inr t, db) \<Rightarrow>
          (Inr (Some (et_id t)), dict_set (i @ '':'' @ source_type @ '':'' @ source_id) (et_id t) act,
           update_task (et_id t) now (no_task_fields\<lparr>tf_status := Some ''running''\<rparr>) db))"

definition update_progress :: "string \<Rightarrow> real \<Rightarrow> real \<Rightarrow> kb_db \<Rightarrow> kb_db" where
  "update_progress i now progress db = update_task i now (no_task_fields\<lparr>tf_progress := Some progress\<rparr>) db"

definition complete_task :: "string \<Rightarrow> real \<Rightarrow> kb_db \<Rightarrow> kb_db" where
  "complete_task i now db =
     (let db = update_task i now (no_task_fields\<lparr>tf_status := Some ''completed'', tf_progress := Some 1\<rparr>) db
      in case get_task i db of None \<Rightarrow> db | Some t \<Rightarrow> update_kb_stats (et_kb t) now db)"

definition fail_task :: "string \<Rightarrow> real \<Rightarrow> string \<Rightarrow> kb_db \<Rightarrow> kb_db" where
  "fail_task i now message db =
     update_task i now (no_task_fields\<lparr>tf_status := Some ''failed'', tf_error := Some message\<rparr>) db"

subsection \<open>Documents and their events\<close>

record domain_chunk =
  dc_id :: string
  dc_document :: string
  dc_text :: string
  dc_level :: string
  dc_groups :: "string list"
  dc_users :: "string list"

record domain_document =
  dd_id :: string
  dd_title :: string
  dd_source_type :: string
  dd_source_id :: string
  dd_version :: string
  dd_hash :: string
  dd_metadata :: json_obj
  dd_updated :: real
  dd_chunks :: "domain_chunk list"

datatype domain_event =
    ChunkCreated string string nat
  | DocumentIndexed string nat string
  | DocumentUpdated string string string

datatype event_type = Chunk_created | Document_indexed | Document_updated

fun type_of :: "domain_event \<Rightarrow> event_type" where
  "type_of (ChunkCreated _ _ _) = Chunk_created"
| "type_of (DocumentIndexed _ _ _) = Document_indexed"
| "type_of (DocumentUpdated _ _ _) = Document_updated"

record 's bus_handler =
  eh_ref :: nat
    \<comment> \<open>which function it is\<close>
  eh_run :: "domain_event \<Rightarrow> 's \<Rightarrow> exn option \<times> 's"
    \<comment> \<open>the exception it raises, if any\<close>

type_synonym 's bus = "(event_type, 's bus_handler list) dict"
  \<comment> \<open>the synchronous handlers\<close>

definition subscribe :: "event_type \<Rightarrow> 's bus_handler \<Rightarrow> 's bus \<Rightarrow> 's bus" where
  "subscribe ty h b = dict_set ty (dict_getd b ty [] @ [h]) b"

fun remove_handler :: "nat \<Rightarrow> 's bus_handler list \<Rightarrow> 's bus_handler list" where
  \<comment> \<open>the first one, as \<^verbatim>\<open>list.remove\<close>\<close>
  "remove_handler n [] = []"
| "remove_handler n (h # hs) = (if eh_ref h = n then hs else h # remove_handler n hs)"

definition unsubscribe :: "event_type \<Rightarrow> nat \<Rightarrow> 's bus \<Rightarrow> 's bus" where
  "unsubscribe ty n b =
     (case dict_get b ty of
        None \<Rightarrow> b
      | Some hs \<Rightarrow> if list_ex (\<lambda>h. eh_ref h = n) hs then dict_set ty (remove_handler n hs) b else b)"

definition clear_bus :: "event_type option \<Rightarrow> 's bus \<Rightarrow> 's bus" where
  "clear_bus ty b = (case ty of None \<Rightarrow> [] | Some t \<Rightarrow> dict_del t b)"

definition handler_count :: "event_type \<Rightarrow> 's bus \<Rightarrow> nat" where
  "handler_count ty b = length (dict_getd b ty [])"

fun run_handlers :: "domain_event \<Rightarrow> 's bus_handler list \<Rightarrow> 's \<Rightarrow> (exn + unit) \<times> 's" where
  "run_handlers ev [] s = (Inr (), s)"
| "run_handlers ev (h # hs) s =
     (case eh_run h ev s of
        (None, s) \<Rightarrow> run_handlers ev hs s
      | (Some e, s) \<Rightarrow> if is_exception e then run_handlers ev hs s else (Inl e, s))"

definition publish :: "'s bus \<Rightarrow> domain_event \<Rightarrow> 's \<Rightarrow> (exn + unit) \<times> 's" where
  "publish b ev s = run_handlers ev (dict_getd b (type_of ev) []) s"

fun publish_all :: "'s bus \<Rightarrow> domain_event list \<Rightarrow> 's \<Rightarrow> (exn + unit) \<times> 's" where
  "publish_all b [] s = (Inr (), s)"
| "publish_all b (ev # evs) s =
     (case publish b ev s of (Inl e, s) \<Rightarrow> (Inl e, s) | (Inr u, s) \<Rightarrow> publish_all b evs s)"

definition add_chunk :: "real \<Rightarrow> domain_chunk \<Rightarrow> domain_document \<Rightarrow> domain_document" where
  "add_chunk now c d = d\<lparr>dd_chunks := dd_chunks d @ [c\<lparr>dc_document := dd_id d\<rparr>], dd_updated := now\<rparr>"

definition kb_index_document ::
  "'s bus \<Rightarrow> string \<Rightarrow> real \<Rightarrow> string \<Rightarrow> string \<Rightarrow> string \<Rightarrow> string \<Rightarrow> domain_chunk list \<Rightarrow> string \<Rightarrow> json_obj \<Rightarrow> 's
   \<Rightarrow> (exn + domain_document) \<times> 's" where
  "kb_index_document b new_id now i title source_type source_id cs h metadata s =
     (let d = foldl (\<lambda>d c. add_chunk now c d)
                \<lparr>dd_id = new_id, dd_title = title, dd_source_type = source_type, dd_source_id = source_id, dd_version = ''v1'',
                 dd_hash = h, dd_metadata = dict_set ''kb_id'' (JStr i) metadata, dd_updated = now, dd_chunks = []\<rparr> cs;
          (r, s) = publish_all b (map (\<lambda>c. ChunkCreated (dc_id c) new_id (length (dc_text c))) cs @
                                  [DocumentIndexed new_id (length (dd_chunks d)) source_type]) s
      in (map_sum id (\<lambda>u. d) r, s))"

definition update_document :: "'s bus \<Rightarrow> real \<Rightarrow> domain_document \<Rightarrow> string \<Rightarrow> 's \<Rightarrow> (exn + domain_event) \<times> domain_document \<times> 's" where
  "update_document b now d version s =
     (let ev = DocumentUpdated (dd_id d) (dd_version d) version;
          (r, s) = publish b ev s
      in (map_sum id (\<lambda>u. ev) r, d\<lparr>dd_version := version, dd_updated := now\<rparr>, s))"

definition kb_create_chunk ::
  "'s bus \<Rightarrow> string \<Rightarrow> real \<Rightarrow> domain_document \<Rightarrow> string \<Rightarrow> string \<Rightarrow> string list \<Rightarrow> string list \<Rightarrow> 's
   \<Rightarrow> (exn + domain_chunk) \<times> domain_document \<times> 's" where
  "kb_create_chunk b new_id now d txt level groups users s =
     (let c = \<lparr>dc_id = new_id, dc_document = dd_id d, dc_text = txt, dc_level = level, dc_groups = groups, dc_users = users\<rparr>;
          (r, s) = publish b (ChunkCreated new_id (dd_id d) (length txt)) s
      in (map_sum id (\<lambda>u. c) r, add_chunk now c d, s))"

subsection \<open>Staleness\<close>

record stale_config =
  sc_confluence :: int
  sc_jira :: int
  sc_gitlab :: int

definition SOURCE_FRESHNESS_DAYS :: "stale_config \<Rightarrow> (string, int) dict" where
  "SOURCE_FRESHNESS_DAYS cfg =
     [(''confluence'', sc_confluence cfg), (''jira'', sc_jira cfg), (''gitlab'', sc_gitlab cfg), (''file'', 365), (''book'', 365),
      (''chat'', 90), (''default'', 180)]"

definition get_freshness_days :: "stale_config \<Rightarrow> json \<Rightarrow> exn + int" where
  "get_freshness_days cfg source_type =
     (case source_type of
        JStr s \<Rightarrow> Inr (dict_getd (SOURCE_FRESHNESS_DAYS cfg) s 180)
      | JList l \<Rightarrow> Inl (PyException ''TypeError'' ''unhashable type: list'')
      | JObj d \<Rightarrow> Inl (PyException ''TypeError'' ''unhashable type: dict'')
      | _ \<Rightarrow> Inr 180)"

definition is_digit :: "char \<Rightarrow> bool" where
  "is_digit c \<longleftrightarrow> CHR ''0'' \<le> c \<and> c \<le> CHR ''9''"

definition nat_of_digits :: "string \<Rightarrow> nat" where
  "nat_of_digits s = foldl (\<lambda>n c. 10 * n + (of_char c - 48)) 0 s"

definition exponent :: "string \<Rightarrow> int option" where
  "exponent s =
     (let (sign, ds) = (case s of CHR ''-'' # r \<Rightarrow> (- 1, r) | CHR ''+'' # r \<Rightarrow> (1, r) | _ \<Rightarrow> (1 :: int, s))
      in if ds \<noteq> [] \<and> list_all is_digit ds then Some (sign * int (nat_of_digits ds)) else None)"

definition unsigned_float :: "string \<Rightarrow> real option" where
  "unsigned_float s =
     (let whole = takeWhile is_digit s;
          r = dropWhile is_digit s;
          (frac, r) = (case r of CHR ''.'' # q \<Rightarrow> (takeWhile is_digit q, dropWhile is_digit q) | _ \<Rightarrow> ([], r));
          m = real (nat_of_digits (whole @ frac)) / 10 ^ length frac
      in if whole = [] \<and> frac = [] then None
         else
           (case r of
              [] \<Rightarrow> Some m
            | c # q \<Rightarrow>
                if c = CHR ''e'' \<or> c = CHR ''E''
                then map_option (\<lambda>x. if x \<ge> 0 then m * 10 ^ nat x else m / 10 ^ nat (- x)) (exponent q)
                else None))"

definition float_of_text :: "string \<Rightarrow> real option" where
  \<comment> \<open>\<^verbatim>\<open>float(s)\<close> without underscores, infinities and \<^verbatim>\<open>nan\<close>; \<open>None\<close> is the \<^verbatim>\<open>ValueError\<close>\<close>
  "float_of_text s =
     (case strip s of
        CHR ''-'' # r \<Rightarrow> map_option uminus (unsigned_float r)
      | CHR ''+'' # r \<Rightarrow> unsigned_float r
      | r \<Rightarrow> unsigned_float r)"

fun json_float :: "json \<Rightarrow> exn + real" where
  "json_float (JInt i) = Inr (real_of_int i)"
| "json_float (JFloat x) = Inr x"
| "json_float (JBool b) = Inr (if b then 1 else 0)"
| "json_float (JStr s) =
     (case float_of_text s of None \<Rightarrow> Inl (ValueError (''could not convert string to float: '' @ s)) | Some x \<Rightarrow> Inr x)"
| "json_float v = Inl (PyException ''TypeError'' ''float() argument must be a string or a real number'')"

definition first_truthy :: "string list \<Rightarrow> json_obj \<Rightarrow> json" where
  \<comment> \<open>\<^verbatim>\<open>p.get(a) or p.get(b) or p.get(c)\<close>: the last one whatever it is\<close>
  "first_truthy ks p =
     (case find (\<lambda>v. truthy v) (map (\<lambda>k. dict_getd p k JNull) ks) of
        Some v \<Rightarrow> v
      | None \<Rightarrow> dict_getd p (last ks) JNull)"

definition timestamp_keys :: "string list" where
  "timestamp_keys = [''last_updated'', ''updated_at'', ''created_at'']"

definition expected_days :: "stale_config \<Rightarrow> json \<Rightarrow> json_obj \<Rightarrow> exn + json" where
  "expected_days cfg source_type p =
     (let v = dict_getd p ''expected_refresh_days'' JNull
      in if truthy v then Inr v else map_sum id JInt (get_freshness_days cfg source_type))"

definition overdue_percent :: "real \<Rightarrow> json \<Rightarrow> exn + real" where
  \<comment> \<open>\<^verbatim>\<open>age / expected * 100\<close>, clamped\<close>
  "overdue_percent age v =
     (let ratio = (\<lambda>x. if x = 0 then Inl ZeroDivisionError else Inr (min 100 (max 0 (age / x * 100))))
      in case v of
           JInt i \<Rightarrow> ratio (real_of_int i)
         | JFloat x \<Rightarrow> ratio x
         | JBool b \<Rightarrow> ratio (if b then 1 else 0)
         | _ \<Rightarrow> Inl (PyException ''TypeError'' ''unsupported operand type(s) for /''))"

definition get_staleness_score :: "stale_config \<Rightarrow> real \<Rightarrow> json_obj \<Rightarrow> exn + real" where
  "get_staleness_score cfg now p =
     (let ts = first_truthy timestamp_keys p
      in if ts = JNull then Inr 50
         else
           (case expected_days cfg (dict_getd p ''source_type'' (JStr ''default'')) p of
              Inl e \<Rightarrow> Inl e
            | Inr v \<Rightarrow>
                (case json_float ts of
                   Inl e \<Rightarrow> Inl e
                 | Inr t \<Rightarrow>
                     (let age = max 0 ((now - t) / 86400)
                      in if age \<le> 0 then Inr 0 else overdue_percent age v))))"

definition is_stale :: "stale_config \<Rightarrow> real \<Rightarrow> real \<Rightarrow> json_obj \<Rightarrow> exn + bool" where
  "is_stale cfg threshold now p = map_sum id (\<lambda>x. x \<ge> threshold) (get_staleness_score cfg now p)"

record stale_doc =
  sd_id :: string
  sd_source_type :: json
  sd_source_id :: json
  sd_title :: json
  sd_last :: json
  sd_score :: real
  sd_expected :: json

fun stale_of :: "stale_config \<Rightarrow> real \<Rightarrow> real \<Rightarrow> (string \<times> json_obj) list \<Rightarrow> exn + stale_doc list" where
  \<comment> \<open>the loop of \<^verbatim>\<open>detect_stale_documents\<close>\<close>
  "stale_of cfg now threshold [] = Inr []"
| "stale_of cfg now threshold ((i, p) # ps) =
     (case get_staleness_score cfg now p of
        Inl e \<Rightarrow> Inl e
      | Inr x \<Rightarrow>
          if x \<ge> threshold
          then
            (let ty = dict_getd p ''source_type'' (JStr ''unknown'')
             in case expected_days cfg ty p of
                  Inl e \<Rightarrow> Inl e
                | Inr v \<Rightarrow>
                    map_sum id
                      ((#) \<lparr>sd_id = i, sd_source_type = ty, sd_source_id = dict_getd p ''source_id'' (JStr []),
                            sd_title = (let t = dict_getd p ''title'' JNull
                                        in if truthy t then t else dict_getd p ''doc_title'' (JStr [])),
                            sd_last = first_truthy timestamp_keys p, sd_score = round_to 1 x, sd_expected = v\<rparr>)
                      (stale_of cfg now threshold ps))
          else stale_of cfg now threshold ps)"

type_synonym kb_scroll = "string \<Rightarrow> string \<Rightarrow> nat \<Rightarrow> exn + (string \<times> json_obj) list"
  \<comment> \<open>the points of a collection with that \<^verbatim>\<open>kb_id\<close>, up to a number; a point without payload has the empty one\<close>

definition detect_stale_documents ::
  "stale_config \<Rightarrow> kb_scroll option \<Rightarrow> real \<Rightarrow> string \<Rightarrow> string \<Rightarrow> real option \<Rightarrow> nat \<Rightarrow> exn + stale_doc list" where
  "detect_stale_documents cfg Q now i coll threshold limit =
     (case Q of
        None \<Rightarrow> Inr []
      | Some scroll \<Rightarrow>
          (case scroll coll i limit of
             Inl e \<Rightarrow> if is_exception e then Inr [] else Inl e
           | Inr points \<Rightarrow>
               map_sum id (sort_key (\<lambda>d. - sd_score d))
                 (stale_of cfg now (case threshold of None \<Rightarrow> 100 | Some t \<Rightarrow> t) points)))"

subsection \<open>Reindexing\<close>

record reindex_config =
  rc_stale :: stale_config
  rc_threshold :: int
  rc_concurrent :: nat
  rc_bind :: "json \<Rightarrow> exn + string"
    \<comment> \<open>how SQLite binds a value to a text column\<close>
  rc_draw :: "kb_db \<Rightarrow> string"
    \<comment> \<open>a \<^verbatim>\<open>uuid4\<close>\<close>

record kb_status_entry =
  ks_run :: real
  ks_stale :: nat
  ks_tasks :: nat

record reindex_status =
  rs_running :: bool
  rs_checked :: "real option"
  rs_stale :: nat
  rs_triggered :: nat
  rs_errors :: "string list"
  rs_kbs :: "(string, kb_status_entry) dict"

definition initial_status :: reindex_status where
  "initial_status = \<lparr>rs_running = False, rs_checked = None, rs_stale = 0, rs_triggered = 0, rs_errors = [], rs_kbs = []\<rparr>"

definition trigger_reindex :: "reindex_config \<Rightarrow> real \<Rightarrow> string \<Rightarrow> stale_doc \<Rightarrow> kb_db \<Rightarrow> (exn + bool) \<times> kb_db" where
  \<comment> \<open>\<^verbatim>\<open>_trigger_reindex_for_document\<close>\<close>
  "trigger_reindex R now i d db =
     (let failed = (\<lambda>e. if is_exception e then Inr False else Inl e)
      in case (rc_bind R (sd_source_type d), rc_bind R (sd_source_id d)) of
           (Inl e, _) \<Rightarrow> (failed e, db)
         | (_, Inl e) \<Rightarrow> (failed e, db)
         | (Inr ty, Inr src) \<Rightarrow>
             (case create_task (rc_draw R db) now i ty src db of
                (Inl e, db) \<Rightarrow> (failed e, db)
              | (Inr t, db) \<Rightarrow> (Inr True, update_task (et_id t) now (no_task_fields\<lparr>tf_status := Some ''running''\<rparr>) db)))"

fun trigger_all :: "reindex_config \<Rightarrow> real \<Rightarrow> string \<Rightarrow> stale_doc list \<Rightarrow> kb_db \<Rightarrow> (exn + bool list) \<times> kb_db" where
  \<comment> \<open>the gathered coroutines: none of them waits for anything but the semaphore, so they run one after the other\<close>
  "trigger_all R now i [] db = (Inr [], db)"
| "trigger_all R now i (d # ds) db =
     (case trigger_reindex R now i d db of
        (Inl e, db) \<Rightarrow> (Inl e, db)
      | (Inr b, db) \<Rightarrow> (case trigger_all R now i ds db of (r, db) \<Rightarrow> (map_sum id ((#) b) r, db)))"

definition forced_threshold :: "reindex_config \<Rightarrow> real option" where
  "forced_threshold R = Some (real_of_int (rc_threshold R))"

record forced_reindex =
  fr_stale :: nat
  fr_created :: nat
  fr_errors :: "stale_doc list"
    \<comment> \<open>the documents of its messages\<close>
  fr_documents :: "stale_doc list"

definition force_reindex_stale ::
  "reindex_config \<Rightarrow> kb_scroll option \<Rightarrow> real \<Rightarrow> string \<Rightarrow> kb_db \<Rightarrow> reindex_status
   \<Rightarrow> ((exn + forced_reindex option) \<times> kb_db \<times> reindex_status) option" where
  \<comment> \<open>\<open>None\<close> outside: it waits for ever on a semaphore of 0; inside: no such knowledge base\<close>
  "force_reindex_stale R Q now i db st =
     (case get_kb i db of
        None \<Rightarrow> Some (Inr None, db, st)
      | Some r \<Rightarrow>
          (case detect_stale_documents (rc_stale R) Q now i (kb_collection r) (forced_threshold R) 500 of
             Inl e \<Rightarrow> Some (Inl e, db, st)
           | Inr docs \<Rightarrow>
               if docs \<noteq> [] \<and> rc_concurrent R = 0 then None
               else
                 (case trigger_all R now i docs db of
                    (Inl e, db) \<Rightarrow> Some (Inl e, db, st)
                  | (Inr oks, db) \<Rightarrow>
                      (let created = length (filter id oks)
                       in Some (Inr (Some \<lparr>fr_stale = length docs, fr_created = created,
                                           fr_errors = map fst (filter (\<lambda>(d, ok). \<not> ok) (zip docs oks)), fr_documents = docs\<rparr>), db,
                                st\<lparr>rs_kbs := dict_set i \<lparr>ks_run = now, ks_stale = length docs, ks_tasks = created\<rparr> (rs_kbs st)\<rparr>)))))"

fun check_kbs ::
  "reindex_config \<Rightarrow> kb_scroll option \<Rightarrow> real \<Rightarrow> kb_row list \<Rightarrow> nat \<Rightarrow> kb_db \<Rightarrow> reindex_status
   \<Rightarrow> ((exn + nat) \<times> kb_db \<times> reindex_status) option" where
  \<comment> \<open>with the number of stale documents so far, which is also the number of tasks triggered\<close>
  "check_kbs R Q now [] n db st = Some (Inr n, db, st)"
| "check_kbs R Q now (r # rs) n db st =
     (case detect_stale_documents (rc_stale R) Q now (kb_id r) (kb_collection r) (forced_threshold R) 500 of
        Inl e \<Rightarrow> Some (Inl e, db, st)
      | Inr docs \<Rightarrow>
          if docs \<noteq> [] \<and> rc_concurrent R = 0 then None
          else
            (case trigger_all R now (kb_id r) docs db of
               (Inl e, db) \<Rightarrow> Some (Inl e, db, st)
             | (Inr oks, db) \<Rightarrow>
                 check_kbs R Q now rs (n + length docs) db
                   (st\<lparr>rs_kbs := dict_set (kb_id r) \<lparr>ks_run = now, ks_stale = length docs, ks_tasks = length docs\<rparr> (rs_kbs st)\<rparr>)))"

definition reindex_check :: "reindex_config \<Rightarrow> kb_scroll option \<Rightarrow> real \<Rightarrow> kb_db \<Rightarrow> reindex_status
   \<Rightarrow> ((exn + unit) \<times> kb_db \<times> reindex_status) option" where
  \<comment> \<open>one round of \<^verbatim>\<open>_reindex_check_loop\<close>\<close>
  "reindex_check R Q now db st =
     (case check_kbs R Q now (list_kbs False db) 0 db (st\<lparr>rs_running := True, rs_checked := Some now\<rparr>) of
        None \<Rightarrow> None
      | Some (Inr n, db, st) \<Rightarrow> Some (Inr (), db, st\<lparr>rs_stale := n, rs_triggered := n, rs_running := False\<rparr>)
      | Some (Inl e, db, st) \<Rightarrow>
          Some (if is_exception e then (Inr (), db, st\<lparr>rs_errors := rs_errors st @ [exn_str e], rs_running := False\<rparr>)
                else (Inl e, db, st)))"

subsection \<open>Runs\<close>

datatype kb_event =
    Create_kb string real string string string int json_obj
  | Update_kb string real kb_fields
  | Delete_kb string bool real
  | Create_task string real string string string
  | Update_task string real task_fields
  | Complete_task string real
  | Reindex reindex_config "kb_scroll option" real reindex_status

fun kb_step :: "'q qdrant_admin option \<Rightarrow> kb_db \<times> 'q \<Rightarrow> kb_event \<Rightarrow> kb_db \<times> 'q" where
  "kb_step Q (db, q) (Create_kb i now name desc model width parser) = snd (create_kb Q i now name desc model width parser db q)"
| "kb_step Q (db, q) (Update_kb i now f) = (snd (update_kb i now f db), q)"
| "kb_step Q (db, q) (Delete_kb i hard now) = snd (delete_kb Q i hard now db q)"
| "kb_step Q (db, q) (Create_task i now kb ty src) = (snd (create_task i now kb ty src db), q)"
| "kb_step Q (db, q) (Update_task i now f) = (update_task i now f db, q)"
| "kb_step Q (db, q) (Complete_task i now) = (complete_task i now db, q)"
| "kb_step Q (db, q) (Reindex R S now st) = (case reindex_check R S now db st of None \<Rightarrow> (db, q) | Some (r, db, st) \<Rightarrow> (db, q))"

definition kb_db_ok :: "kb_db \<Rightarrow> bool" where
  "kb_db_ok db \<longleftrightarrow>
     distinct (map kb_id (kd_kbs db)) \<and> distinct (map kb_name (kd_kbs db)) \<and> distinct (map kb_collection (kd_kbs db)) \<and>
     distinct (map et_id (kd_tasks db)) \<and> list_all (\<lambda>t. et_kb t \<in> kb_id ` set (kd_kbs db)) (kd_tasks db)"

lemma map_change:
  "(\<And>r. g (f r) = g r) \<Longrightarrow> map g (map (\<lambda>r. if P r then f r else r) rs) = map g rs"
  by simp

lemma change_kb_simps [simp]:
  "kd_tasks (change_kb i f db) = kd_tasks db"
  "kd_kbs (change_kb i f db) = map (\<lambda>r. if kb_id r = i then f r else r) (kd_kbs db)"
  by (simp_all add: change_kb_def)

lemma change_kb_ok:
  assumes "kb_db_ok db" and "\<And>r. kb_id (f r) = kb_id r" and "\<And>r. kb_name (f r) = kb_name r"
    and "\<And>r. kb_collection (f r) = kb_collection r"
  shows "kb_db_ok (change_kb i f db)"
proof -
  have "map g (kd_kbs (change_kb i f db)) = map g (kd_kbs db)" if "\<And>r. g (f r) = g r" for g :: "kb_row \<Rightarrow> string"
    using that by simp
  note keep = this [of kb_id, OF assms(2)] this [of kb_name, OF assms(3)] this [of kb_collection, OF assms(4)]
  from keep(1) have "kb_id ` set (kd_kbs (change_kb i f db)) = kb_id ` set (kd_kbs db)" by (metis list.set_map)
  with assms(1) keep show ?thesis by (simp add: kb_db_ok_def del: change_kb_simps(2))
qed

lemma distinct_rename:
  assumes "distinct (map kb_id rs)" and "distinct (map kb_name rs)" and "\<not> list_ex (\<lambda>r. kb_id r \<noteq> i \<and> kb_name r = n) rs"
    and "\<And>r. kb_name (f r) = n"
  shows "distinct (map kb_name (map (\<lambda>r. if kb_id r = i then f r else r) rs))"
  using assms
proof (induction rs)
  case (Cons r rs)
  have other: "map (\<lambda>r. if kb_id r = i then f r else r) rs = rs" if "kb_id r = i"
    using Cons.prems(1) that by (intro map_idI) (auto simp: image_iff)
  show ?case
  proof (cases "kb_id r = i")
    case True
    with Cons.prems(1) have apart: "kb_id x \<noteq> i" if "x \<in> set rs" for x using that by (auto simp: image_iff)
    have "kb_name x \<noteq> n" if "x \<in> set rs" for x using apart [OF that] Cons.prems(3) that by (auto simp: list_ex_iff)
    with True Cons.prems(2) other [OF True] show ?thesis by (auto simp: Cons.prems(4))
  next
    case False
    with Cons.prems(3) have "kb_name r \<noteq> n" by simp
    moreover have "kb_name r \<noteq> kb_name (if kb_id x = i then f x else x)" if "x \<in> set rs" for x
      using that Cons.prems(2) \<open>kb_name r \<noteq> n\<close> by (auto simp: Cons.prems(4) image_iff)
    then have "kb_name r \<notin> set (map kb_name (map (\<lambda>r. if kb_id r = i then f r else r) rs))" by auto
    ultimately show ?thesis using False Cons.IH Cons.prems by simp
  qed
qed simp

lemma update_task_ids:
  "map et_id (kd_tasks (update_task i now f db)) = map et_id (kd_tasks db)"
  "map et_kb (kd_tasks (update_task i now f db)) = map et_kb (kd_tasks db)"
  "kd_kbs (update_task i now f db) = kd_kbs db"
  by (simp_all add: update_task_def o_def if_distrib cong: if_cong)

lemma list_all_image: "list_all (\<lambda>t. g t \<in> A) ts \<longleftrightarrow> set (map g ts) \<subseteq> A"
  by (auto simp: list_all_iff)

lemma update_task_ok: "kb_db_ok db \<Longrightarrow> kb_db_ok (update_task i now f db)"
  by (simp only: kb_db_ok_def list_all_image update_task_ids)

lemma create_task_ok: "kb_db_ok db \<Longrightarrow> kb_db_ok (snd (create_task i now kb ty src db))"
  by (auto simp: create_task_def kb_db_ok_def Let_def list_ex_iff)

lemma create_kb_ok: "kb_db_ok db \<Longrightarrow> kb_db_ok (fst (snd (create_kb Q i now name desc model width parser db q)))"
  by (auto simp: create_kb_def kb_db_ok_def Let_def list_ex_iff list_all_iff split: prod.split)

lemma update_kb_ok:
  assumes "kb_db_ok db"
  shows "kb_db_ok (snd (update_kb i now f db))"
proof -
  let ?db = "change_kb i (set_fields f now) db"
  have ok: "kb_db_ok ?db" if clash: "\<not> (list_ex (\<lambda>r. kb_id r = i) (kd_kbs db) \<and>
      list_ex (\<lambda>r. kb_id r \<noteq> i \<and> Some (kb_name r) = kf_name f) (kd_kbs db))"
  proof (cases "kf_name f")
    case None
    with assms show ?thesis by (intro change_kb_ok) (simp_all add: set_fields_def or_keep_def)
  next
    case (Some n)
    show ?thesis
    proof (cases "list_ex (\<lambda>r. kb_id r = i) (kd_kbs db)")
      case False
      then have "kd_kbs ?db = kd_kbs db" by (auto simp: list_ex_iff intro: map_idI)
      with assms show ?thesis by (simp add: kb_db_ok_def del: change_kb_simps(2))
    next
      case True
      with clash Some have new: "\<not> list_ex (\<lambda>r. kb_id r \<noteq> i \<and> kb_name r = n) (kd_kbs db)" by (auto simp: list_ex_iff)
      have "map kb_id (kd_kbs ?db) = map kb_id (kd_kbs db)" "map kb_collection (kd_kbs ?db) = map kb_collection (kd_kbs db)"
        by (simp_all add: set_fields_def)
      moreover from this(1) have "kb_id ` set (kd_kbs ?db) = kb_id ` set (kd_kbs db)" by (metis list.set_map)
      moreover have "distinct (map kb_name (kd_kbs ?db))"
        unfolding change_kb_simps
        by (rule distinct_rename [OF _ _ new]) (use assms Some in \<open>simp_all add: kb_db_ok_def set_fields_def or_keep_def\<close>)
      ultimately show ?thesis using assms by (simp add: kb_db_ok_def del: change_kb_simps(2))
    qed
  qed
  show ?thesis using ok assms by (auto simp: update_kb_def Let_def split: option.split)
qed

lemma delete_kb_ok:
  assumes "kb_db_ok db"
  shows "kb_db_ok (fst (snd (delete_kb Q i hard now db q)))"
proof (cases hard)
  case True
  with assms show ?thesis
    by (auto simp: delete_kb_def kb_db_ok_def Let_def list_all_iff intro!: distinct_map_filter split: prod.split sum.split)
next
  case False
  have "kb_db_ok (change_kb i (\<lambda>r. r\<lparr>kb_status := ''deleted'', kb_updated := now\<rparr>) db)"
    by (rule change_kb_ok [OF assms]) simp_all
  with False show ?thesis by (simp add: delete_kb_def)
qed

lemma update_kb_stats_ok: "kb_db_ok db \<Longrightarrow> kb_db_ok (update_kb_stats i now db)"
  unfolding update_kb_stats_def Let_def by (rule change_kb_ok) simp_all

lemma complete_task_ok: "kb_db_ok db \<Longrightarrow> kb_db_ok (complete_task i now db)"
  unfolding complete_task_def Let_def by (auto intro: update_task_ok update_kb_stats_ok split: option.split)

lemma trigger_reindex_ok: "kb_db_ok db \<Longrightarrow> kb_db_ok (snd (trigger_reindex R now i d db))"
  using create_task_ok by (auto simp: trigger_reindex_def Let_def split: sum.split prod.split intro!: update_task_ok) (metis snd_conv)+

lemma trigger_all_ok: "kb_db_ok db \<Longrightarrow> kb_db_ok (snd (trigger_all R now i ds db))"
proof (induction ds arbitrary: db)
  case (Cons d ds)
  from trigger_reindex_ok [OF Cons.prems, of R now i d] Cons.IH show ?case by (auto split: prod.split sum.split) (metis snd_conv)+
qed simp

lemma check_kbs_ok: "check_kbs R S now rs n db st = Some (r, db', st') \<Longrightarrow> kb_db_ok db \<Longrightarrow> kb_db_ok db'"
proof (induction rs arbitrary: n db st)
  case (Cons k rs)
  show ?case
  proof (cases "detect_stale_documents (rc_stale R) S now (kb_id k) (kb_collection k) (forced_threshold R) 500")
    case (Inr docs)
    obtain x db1 where t: "trigger_all R now (kb_id k) docs db = (x, db1)" by (cases "trigger_all R now (kb_id k) docs db") auto
    with trigger_all_ok [OF Cons.prems(2), of R now "kb_id k" docs] have "kb_db_ok db1" by simp
    with Cons.IH Cons.prems Inr t show ?thesis by (auto split: sum.splits if_splits)
  qed (use Cons.prems in auto)
qed simp

lemma kb_step_ok: "kb_db_ok (fst s) \<Longrightarrow> kb_db_ok (fst (kb_step Q s ev))"
  by (cases s; cases ev)
    (auto simp: create_kb_ok update_kb_ok delete_kb_ok create_task_ok update_task_ok complete_task_ok reindex_check_def
      split: option.split sum.split prod.split dest: check_kbs_ok)

interpretation knowledge_bases: invariant_system "kb_step Q" "\<lambda>s. kb_db_ok (fst s)"
  by unfold_locales (rule kb_step_ok)

text \<open>
  C14. Through every run of the operations, reindexing included and whatever Qdrant does, the ids, the names and the
  collections of the knowledge bases are distinct, deleted ones included, and every task belongs to a row of the table.
\<close>
theorem knowledge_bases_consistent: "kb_db_ok (fst (foldl (kb_step Q) (empty_kb_db, q) evs))"
  by (rule knowledge_bases.run_invar) (simp add: kb_db_ok_def empty_kb_db_def)

subsection \<open>Deleted and renamed knowledge bases\<close>

definition kb_of :: "string \<Rightarrow> string \<Rightarrow> string \<Rightarrow> kb_row" where
  "kb_of i name status =
     \<lparr>kb_id = i, kb_name = name, kb_description = [], kb_collection = collection_name name, kb_model = [], kb_vector_size = 4,
      kb_parser = [], kb_docs = Some 0, kb_chunks = 0, kb_tokens = 0, kb_status = status, kb_created = 0, kb_updated = 0\<rparr>"

definition listed_collections :: "string list qdrant_admin" where
  \<comment> \<open>a Qdrant that keeps the names of its collections\<close>
  "listed_collections = \<lparr>qa_collections = Inr, qa_create = (\<lambda>n width q. (Inr (), n # q)), qa_delete = (\<lambda>n q. (Inr (), removeAll n q))\<rparr>"

lemma find_all_marked:
  "(\<And>r. kb_status (f r) = d) \<Longrightarrow> find (\<lambda>r. kb_id r = i \<and> kb_status r \<noteq> d) (kd_kbs (change_kb i f db)) = None"
  by (auto simp: find_None_iff)

lemma get_kb_deleted:
  "get_kb i (change_kb i (\<lambda>r. r\<lparr>kb_status := ''deleted'', kb_updated := now\<rparr>) db) = None"
  unfolding get_kb_def by (rule find_all_marked) simp

lemma set_fields_simps:
  "kb_id (set_fields f now r) = kb_id r"
  "kb_status (set_fields f now r) = or_keep (kf_status f) (kb_status r)"
  "or_keep None x = x" "or_keep (Some y) x = y"
  by (simp_all add: set_fields_def or_keep_def)

lemma update_without_name:
  assumes "\<not> no_fields f" and "kf_name f = None"
  shows "update_kb i now f db =
    (case get_kb i (change_kb i (set_fields f now) db) of
       None \<Rightarrow> (Inl (ValueError (''Knowledge base '' @ i @ '' not found'')), change_kb i (set_fields f now) db)
     | Some r \<Rightarrow> (Inr r, change_kb i (set_fields f now) db))"
proof -
  have "\<not> (list_ex (\<lambda>r. kb_id r = i) (kd_kbs db) \<and> list_ex (\<lambda>r. kb_id r \<noteq> i \<and> Some (kb_name r) = kf_name f) (kd_kbs db))"
    by (simp add: assms(2) list_ex_iff)
  then show ?thesis using assms(1) by (simp only: update_kb_def if_False Let_def)
qed

lemma find_found: "y \<in> set xs \<Longrightarrow> P y \<Longrightarrow> \<exists>x. find P xs = Some x"
  by (induction xs) auto

lemma get_kb_SomeD: "get_kb i db = Some x \<Longrightarrow> x \<in> set (kd_kbs db) \<and> kb_id x = i"
  unfolding get_kb_def using find_SomeD [of "\<lambda>r. kb_id r = i \<and> kb_status r \<noteq> ''deleted''" "kd_kbs db" x] by argo

lemma get_kb_found:
  "r \<in> set (kd_kbs db) \<Longrightarrow> kb_id r = i \<Longrightarrow> kb_status r \<noteq> ''deleted'' \<Longrightarrow> \<exists>x. get_kb i db = Some x"
  unfolding get_kb_def by (rule find_found [where y = r]) (assumption, rule conjI)

lemma other_rows_unchanged:
  "(\<And>r. kb_id (f r) = kb_id r) \<Longrightarrow>
    filter (\<lambda>r. kb_id r \<noteq> i) (map (\<lambda>r. if kb_id r = i then f r else r) rs) = filter (\<lambda>r. kb_id r \<noteq> i) rs"
  by (rule filter_map_key_unchanged) simp_all

text \<open>
  C25. A knowledge base that is deleted first softly and then for good leaves its collection behind, and when a knowledge
  base of the same name is made again, the old vectors are in it: no call of either deletion changes Qdrant, and the
  creation finds the collection there.
\<close>
theorem old_collection_is_inherited:
  assumes "qa_collections A q = Inr existing" and "collection_name name \<in> set existing"
    and "delete_kb (Some A) i False t1 db q = (r1, db1, q1)" and "delete_kb (Some A) i True t2 db1 q1 = (r2, db2, q2)"
    and "create_kb (Some A) i' t3 name desc model width parser db2 q2 = (Inr k, db3, q3)"
  shows "r1 = Inr True \<and> r2 = Inr True \<and> kd_kbs db2 = filter (\<lambda>r. kb_id r \<noteq> i) (kd_kbs db) \<and> q3 = q \<and> kb_collection k = collection_name name"
proof -
  have 1: "r1 = Inr True" "q1 = q" "db1 = change_kb i (\<lambda>r. r\<lparr>kb_status := ''deleted'', kb_updated := t1\<rparr>) db"
    using assms(3) by (simp_all add: delete_kb_def)
  have 2: "r2 = Inr True" "q2 = q" "kd_kbs db2 = filter (\<lambda>r. kb_id r \<noteq> i) (kd_kbs db1)"
    using assms(4) by (auto simp: delete_kb_def 1(3) get_kb_deleted 1(2))
  have "kd_kbs db2 = filter (\<lambda>r. kb_id r \<noteq> i) (kd_kbs db)"
    unfolding 2(3) 1(3) change_kb_simps by (rule other_rows_unchanged) simp
  moreover have "q3 = q \<and> kb_collection k = collection_name name"
    using assms(1,2,5) unfolding 2(2) by (auto simp: create_kb_def ensure_qdrant_collection_def Let_def split: if_splits)
  ultimately show ?thesis using 1 2 by simp
qed

theorem old_collection_is_inherited_witness:
  "\<exists>r1 db1 q1 r2 db2 q2 k db3 q3.
     delete_kb (Some listed_collections) ''1'' False 1 \<lparr>kd_kbs = [kb_of ''1'' ''docs'' ''active''], kd_tasks = []\<rparr> [''kb_docs'']
       = (r1, db1, q1) \<and>
     delete_kb (Some listed_collections) ''1'' True 2 db1 q1 = (r2, db2, q2) \<and>
     create_kb (Some listed_collections) ''2'' 3 ''docs'' [] [] 4 [] db2 q2 = (Inr k, db3, q3) \<and>
     kd_kbs db2 = [] \<and> q3 = [''kb_docs''] \<and> kb_collection k = ''kb_docs''"
proof -
  let ?db = "\<lparr>kd_kbs = [kb_of ''1'' ''docs'' ''active''], kd_tasks = []\<rparr>"
  have n: "collection_name ''docs'' = ''kb_docs''" by code_simp
  have i: "kb_id (kb_of ''1'' ''docs'' ''active'') = ''1''" by (simp add: kb_of_def)
  obtain r1 db1 q1 where 1: "delete_kb (Some listed_collections) ''1'' False 1 ?db [''kb_docs''] = (r1, db1, q1)"
    by (metis prod_cases3)
  obtain r2 db2 q2 where 2: "delete_kb (Some listed_collections) ''1'' True 2 db1 q1 = (r2, db2, q2)" by (metis prod_cases3)
  have db1: "db1 = change_kb ''1'' (\<lambda>r. r\<lparr>kb_status := ''deleted'', kb_updated := 1\<rparr>) ?db" "q1 = [''kb_docs'']"
    using 1 by (simp_all add: delete_kb_def)
  have "kd_kbs db2 = filter (\<lambda>r. kb_id r \<noteq> ''1'') (kd_kbs db1)" and q2: "q2 = [''kb_docs'']"
    using 2 by (auto simp: delete_kb_def db1 get_kb_deleted)
  then have db2: "kd_kbs db2 = []" using i by (simp add: db1 change_kb_simps)
  have l: "qa_collections listed_collections [''kb_docs''] = Inr [''kb_docs'']" by (simp add: listed_collections_def)
  obtain k db3 q3 where 3: "create_kb (Some listed_collections) ''2'' 3 ''docs'' [] [] 4 [] db2 q2 = (Inr k, db3, q3)"
    unfolding create_kb_def Let_def ensure_qdrant_collection_def n db2 q2 by (simp add: l)
  from old_collection_is_inherited [OF l _ 1 2 3] n have "q3 = [''kb_docs''] \<and> kb_collection k = ''kb_docs''"
    by simp
  with 1 2 3 db2(1) show ?thesis by blast
qed

text \<open>
  Updating a knowledge base that was deleted is refused as not found, and yet the row is rewritten: only the answer
  looks at the deletion. The same call with a new status brings the knowledge base back.
\<close>
theorem refused_update_is_written:
  assumes "get_kb i db = None" and "list_ex (\<lambda>r. kb_id r = i) (kd_kbs db)" and "\<not> no_fields f" and "kf_name f = None"
    and "kf_status f = None" and "status \<noteq> ''deleted''"
  shows "update_kb i now f db = (Inl (ValueError (''Knowledge base '' @ i @ '' not found'')), change_kb i (set_fields f now) db) \<and>
     (\<exists>r. fst (update_kb i now (f\<lparr>kf_status := Some status\<rparr>) db) = Inr r \<and> kb_id r = i \<and> kb_status r = status)"
proof
  have gone: "kb_status r = ''deleted''" if "r \<in> set (kd_kbs db)" "kb_id r = i" for r
    using assms(1) that by (auto simp only: get_kb_def find_None_iff)
  have "get_kb i (change_kb i (set_fields f now) db) = None"
    unfolding get_kb_def find_None_iff using gone assms(5)
    by (auto simp only: change_kb_simps set_map set_fields_simps split: if_splits)
  then show "update_kb i now f db = (Inl (ValueError (''Knowledge base '' @ i @ '' not found'')), change_kb i (set_fields f now) db)"
    by (simp only: update_without_name [OF assms(3,4)] option.case)
next
  let ?f = "f\<lparr>kf_status := Some status\<rparr>"
  let ?db = "change_kb i (set_fields ?f now) db"
  obtain r where r: "r \<in> set (kd_kbs db)" "kb_id r = i" using assms(2) by (auto simp: list_ex_iff)
  then have m: "set_fields ?f now r \<in> set (kd_kbs ?db)" by (force simp: image_iff)
  have "kb_id (set_fields ?f now r) = i" "kb_status (set_fields ?f now r) \<noteq> ''deleted''"
    using r(2) assms(6) by (simp_all add: set_fields_simps)
  from get_kb_found [OF m this] obtain x where x: "get_kb i ?db = Some x" by blast
  then have ix: "x \<in> set (kd_kbs ?db) \<and> kb_id x = i" by (rule get_kb_SomeD)
  then obtain y where "x = (if kb_id y = i then set_fields ?f now y else y)" unfolding change_kb_simps set_map by blast
  with ix have "x = set_fields ?f now y" by (cases "kb_id y = i") simp_all
  then have "kb_status x = status" by (simp add: set_fields_simps)
  moreover have nn: "\<not> no_fields ?f" "kf_name ?f = None" using assms(4) by (simp_all add: no_fields_def)
  have "fst (update_kb i now ?f db) = Inr x" by (simp only: update_without_name [OF nn] x option.case fst_conv)
  ultimately show "\<exists>r. fst (update_kb i now ?f db) = Inr r \<and> kb_id r = i \<and> kb_status r = status"
    using ix by blast
qed

theorem refused_update_is_written_witness:
  "\<exists>r. fst (update_kb ''1'' 5 \<lparr>kf_name = None, kf_description = Some ''new'', kf_model = None, kf_size = None, kf_parser = None,
      kf_status = Some ''active''\<rparr> \<lparr>kd_kbs = [kb_of ''1'' ''docs'' ''deleted''], kd_tasks = []\<rparr>) = Inr r \<and> kb_id r = ''1''"
proof -
  let ?f = "\<lparr>kf_name = None, kf_description = Some ''new'', kf_model = None, kf_size = None, kf_parser = None, kf_status = None\<rparr>"
  let ?db = "\<lparr>kd_kbs = [kb_of ''1'' ''docs'' ''deleted''], kd_tasks = []\<rparr>"
  have "get_kb ''1'' ?db = None" "list_ex (\<lambda>r. kb_id r = ''1'') (kd_kbs ?db)" "\<not> no_fields ?f"
    by (simp_all add: get_kb_def kb_of_def no_fields_def)
  from refused_update_is_written [OF this, of "''active''" 5] show ?thesis by auto
qed

text \<open>
  A renamed knowledge base keeps its collection, so that its old name stays taken although no knowledge base has it.
\<close>
lemma renamed_name_stays_taken:
  assumes "list_ex (\<lambda>r. kb_collection r = collection_name name) (kd_kbs db)"
  shows "create_kb Q i now name desc model width parser db q =
    (Inl (ValueError (''Knowledge base '' @ [CHR 0x27] @ name @ [CHR 0x27] @ '' already exists'')), db, q)"
proof -
  have "list_ex (\<lambda>x. kb_id x = i \<or> kb_name x = name \<or> kb_collection x = collection_name name) (kd_kbs db)"
    using assms by (auto simp: list_ex_iff)
  then show ?thesis by (simp only: create_kb_def Let_def if_True)
qed

subsection \<open>Counting documents\<close>

definition tasks_with :: "string \<Rightarrow> string \<Rightarrow> kb_db \<Rightarrow> nat" where
  "tasks_with i status db = length (filter (\<lambda>t. et_kb t = i \<and> et_status t = status) (kd_tasks db))"

lemma update_kb_stats_counts:
  assumes "t \<in> set (kd_tasks db)" and "r \<in> set (kd_kbs (update_kb_stats (et_kb t) now db))" and "kb_id r = et_kb t"
  shows "kb_docs r = Some (int (tasks_with (et_kb t) ''completed'' db))"
proof -
  have "filter (\<lambda>s. et_kb s = et_kb t) (kd_tasks db) \<noteq> []" using assms(1) by (auto simp: filter_empty_conv)
  then show ?thesis
    using assms(2,3) by (auto simp: update_kb_stats_def Let_def tasks_with_def conj_commute simp del: filter_empty_conv split: if_splits)
qed

lemma find_map_same:
  assumes "find (\<lambda>u. et_id u = i) ts = Some t" and "\<And>u. et_id (f u) = et_id u" and "\<And>u. et_kb (f u) = et_kb u"
  shows "\<exists>u. find (\<lambda>u. et_id u = i) (map f ts) = Some u \<and> et_kb u = et_kb t"
  using assms by (induction ts) (auto split: if_splits)

lemma get_task_update:
  assumes "get_task i db = Some t"
  shows "\<exists>u. get_task i (update_task i now f db) = Some u \<and> et_kb u = et_kb t"
proof (cases "tf_status f = None \<and> tf_progress f = None \<and> tf_error f = None")
  case True
  with assms show ?thesis by (simp add: update_task_def)
next
  case False
  let ?g = "\<lambda>t. if et_id t = i
     then t\<lparr>et_status := or_keep (tf_status f) (et_status t), et_progress := or_keep (tf_progress f) (et_progress t),
            et_error := or_keep (tf_error f) (et_error t), et_updated := now\<rparr> else t"
  have "kd_tasks (update_task i now f db) = map ?g (kd_tasks db)" by (simp only: update_task_def False if_False) simp
  with find_map_same [OF assms [unfolded get_task_def], of ?g] show ?thesis by (simp add: get_task_def)
qed

text \<open>
  What \<^verbatim>\<open>doc_count\<close> counts is completed tasks: after the completion of a task, its knowledge base has as many documents as
  it has completed tasks, so that a document that was indexed twice counts twice.
\<close>
theorem completed_tasks_are_documents:
  assumes "get_task i db = Some t" and "r \<in> set (kd_kbs (complete_task i now db))" and "kb_id r = et_kb t"
  shows "kb_docs r = Some (int (tasks_with (et_kb t) ''completed'' (complete_task i now db)))"
proof -
  let ?db = "update_task i now (no_task_fields\<lparr>tf_status := Some ''completed'', tf_progress := Some 1\<rparr>) db"
  have t: "t \<in> set (kd_tasks db)" "et_id t = i" using assms(1) by (auto simp: get_task_def dest: find_SomeD)
  obtain u where u: "get_task i ?db = Some u" "et_kb u = et_kb t" using get_task_update [OF assms(1)] by blast
  then have fin: "complete_task i now db = update_kb_stats (et_kb t) now ?db" by (simp only: complete_task_def Let_def option.case)
  have "u \<in> set (kd_tasks ?db)" using u(1) by (auto simp only: get_task_def dest: find_SomeD)
  from update_kb_stats_counts [OF this, of r now] assms(2,3) u(2) fin
  have "kb_docs r = Some (int (tasks_with (et_kb t) ''completed'' ?db))" by simp
  moreover have "kd_tasks (update_kb_stats (et_kb t) now ?db) = kd_tasks ?db" by (simp add: update_kb_stats_def Let_def)
  ultimately show ?thesis by (simp only: fin tasks_with_def)
qed

theorem completed_tasks_are_documents_witness:
  "list_all (\<lambda>r. kb_docs r = Some 1)
     (kd_kbs (complete_task ''7'' 5 (snd (create_task ''7'' 4 ''1'' ''jira'' ''P'' \<lparr>kd_kbs = [kb_of ''1'' ''docs'' ''active''], kd_tasks = []\<rparr>))))"
proof -
  let ?db = "snd (create_task ''7'' 4 ''1'' ''jira'' ''P'' \<lparr>kd_kbs = [kb_of ''1'' ''docs'' ''active''], kd_tasks = []\<rparr>)"
  let ?t = "\<lparr>et_id = ''7'', et_kb = ''1'', et_source_type = ''jira'', et_source_id = ''P'', et_status = ''pending'', et_progress = 0,
     et_error = [], et_created = 4, et_updated = 4\<rparr>"
  have db: "?db = \<lparr>kd_kbs = [kb_of ''1'' ''docs'' ''active''], kd_tasks = [?t]\<rparr>" by (simp add: create_task_def kb_of_def Let_def)
  then have t: "get_task ''7'' ?db = Some ?t" by (simp add: get_task_def)
  have rows: "map kb_id (kd_kbs (complete_task ''7'' 5 ?db)) = [''1'']"
    unfolding db by (simp add: complete_task_def Let_def update_task_def no_task_fields_def get_task_def update_kb_stats_def or_keep_def kb_of_def)
  have one: "tasks_with ''1'' ''completed'' (complete_task ''7'' 5 ?db) = 1"
    unfolding db by (simp add: complete_task_def Let_def update_task_def no_task_fields_def get_task_def update_kb_stats_def or_keep_def
        kb_of_def tasks_with_def)
  have "kb_docs r = Some 1" if "r \<in> set (kd_kbs (complete_task ''7'' 5 ?db))" for r
  proof -
    from that have "kb_id r \<in> set (map kb_id (kd_kbs (complete_task ''7'' 5 ?db)))" by simp
    then have "kb_id r = et_kb ?t" unfolding rows by simp
    from completed_tasks_are_documents [OF t that this] one show ?thesis by simp
  qed
  then show ?thesis by (simp only: list_all_iff) blast
qed

subsection \<open>Events reach their handlers\<close>

lemma run_handlers_fold:
  "list_all (\<lambda>h. \<forall>s e. fst (eh_run h ev s) = Some e \<longrightarrow> is_exception e) hs \<Longrightarrow>
    run_handlers ev hs s = (Inr (), fold (\<lambda>h s. snd (eh_run h ev s)) hs s)"
proof (induction hs arbitrary: s)
  case (Cons h hs)
  then show ?case by (cases "eh_run h ev s") (auto split: option.split, metis fst_conv)
qed simp

text \<open>
  Publishing runs every handler of the event's type, in the order of subscription and each on the state the one
  before left, whatever exceptions they raise, and raises none of them.
\<close>
theorem every_handler_runs:
  assumes "list_all (\<lambda>h. \<forall>s e. fst (eh_run h ev s) = Some e \<longrightarrow> is_exception e) (dict_getd b (type_of ev) [] @ [h])"
  shows "publish (subscribe (type_of ev) h b) ev s =
    (Inr (), snd (eh_run h ev (fold (\<lambda>h s. snd (eh_run h ev s)) (dict_getd b (type_of ev) []) s)))"
proof -
  have "dict_getd (subscribe (type_of ev) h b) (type_of ev) [] = dict_getd b (type_of ev) [] @ [h]"
    by (simp add: subscribe_def dict_getd_def dict_set_def update_conv)
  then show ?thesis unfolding publish_def by (simp add: run_handlers_fold [OF assms])
qed

theorem every_handler_runs_witness:
  "publish (subscribe Document_updated \<lparr>eh_ref = 1, eh_run = (\<lambda>ev n. (None, n + 1))\<rparr>
     [(Document_updated, [\<lparr>eh_ref = 0, eh_run = (\<lambda>ev n. (Some (ValueError ''broken''), n * 10))\<rparr>])])
     (DocumentUpdated ''d'' ''v1'' ''v2'') (3 :: nat) = (Inr (), 31)"
  using every_handler_runs [where ev = "DocumentUpdated ''d'' ''v1'' ''v2''" and s = "3 :: nat"
      and h = "\<lparr>eh_ref = 1, eh_run = (\<lambda>ev n. (None, n + 1))\<rparr>"
      and b = "[(Document_updated, [\<lparr>eh_ref = 0, eh_run = (\<lambda>ev n. (Some (ValueError ''broken''), n * 10))\<rparr>])]"]
  by (simp add: dict_getd_def)

subsection \<open>Staleness\<close>

definition plain_stale :: stale_config where
  "plain_stale = \<lparr>sc_confluence = 90, sc_jira = 30, sc_gitlab = 14\<rparr>"

lemma score_clamped: "0 \<le> min 100 (max 0 (x :: real)) \<and> min 100 (max 0 x) \<le> 100"
  by simp

lemma full_percent: "100 \<le> min 100 (max 0 (y * 100)) \<longleftrightarrow> 1 \<le> (y :: real)"
  by (auto simp: min_def max_def)

lemma overdue_percent_clamped: "overdue_percent age v = Inr x \<Longrightarrow> 0 \<le> x \<and> x \<le> 100"
  by (auto simp: overdue_percent_def Let_def split: json.splits if_splits)

text \<open>
  A staleness score lies between 0 and 100, and a dated document is stale at the default threshold exactly when it is
  older than the days after which it is expected to be refreshed.
\<close>
theorem stale_iff_overdue:
  assumes "first_truthy timestamp_keys p = ts" and "ts \<noteq> JNull" and "json_float ts = Inr t"
    and "expected_days cfg (dict_getd p ''source_type'' (JStr ''default'')) p = Inr (JInt d)" and "0 < d"
  shows "is_stale cfg 100 now p = Inr (now - t \<ge> 86400 * real_of_int d) \<and>
     (\<exists>x. get_staleness_score cfg now p = Inr x \<and> 0 \<le> x \<and> x \<le> 100)"
proof -
  have score: "get_staleness_score cfg now p =
      (let age = max 0 ((now - t) / 86400) in if age \<le> 0 then Inr 0 else Inr (min 100 (max 0 (age / real_of_int d * 100))))"
    using assms(5) unfolding get_staleness_score_def assms(1) Let_def assms(3) assms(4)
    by (simp only: assms(2) if_False sum.case overdue_percent_def Let_def json.case of_int_eq_0_iff) simp
  have pos: "0 < real_of_int d" using assms(5) by simp
  show ?thesis
  proof (cases "now - t \<le> 0")
    case True
    then have "max 0 ((now - t) / 86400) \<le> 0" by simp
    moreover have "\<not> now - t \<ge> 86400 * real_of_int d" using True pos by (smt (verit) mult_pos_pos)
    ultimately show ?thesis by (simp add: is_stale_def score Let_def)
  next
    case False
    let ?a = "(now - t) / 86400"
    have a: "max 0 ?a = ?a" "\<not> ?a \<le> 0" using False by simp_all
    have "100 \<le> min 100 (max 0 (?a / real_of_int d * 100)) \<longleftrightarrow> 1 \<le> ?a / real_of_int d" by (rule full_percent)
    also have "\<dots> \<longleftrightarrow> now - t \<ge> 86400 * real_of_int d" using pos by (simp add: field_simps)
    finally show ?thesis unfolding is_stale_def score Let_def a(1) using a(2) score_clamped [of "?a / real_of_int d * 100"] by simp
  qed
qed

theorem stale_iff_overdue_witness:
  "is_stale plain_stale 100 (31 * 86400) [(''updated_at'', JFloat 1), (''expected_refresh_days'', JInt 30)] = Inr True"
proof -
  let ?p = "[(''updated_at'', JFloat 1), (''expected_refresh_days'', JInt 30)]"
  have ts: "first_truthy timestamp_keys ?p = JFloat 1" by (simp add: first_truthy_def timestamp_keys_def dict_getd_def)
  have d: "expected_days plain_stale (dict_getd ?p ''source_type'' (JStr ''default'')) ?p = Inr (JInt 30)"
    by (simp add: expected_days_def dict_getd_def)
  show ?thesis using stale_iff_overdue [OF ts _ _ d, of 1 "31 * 86400"] by simp
qed

subsection \<open>Reindexing\<close>

text \<open>
  A date that cannot be read, such as the ISO text of a crawler, ends the round of the scheduler: when the newest
  knowledge base has one, the round does not fail, but it only records the error, and no knowledge base is reindexed.
\<close>
theorem unreadable_date_ends_round:
  assumes "list_kbs False db = k # ks" and "detect_stale_documents (rc_stale R) Q now (kb_id k) (kb_collection k) (forced_threshold R) 500 = Inl e"
    and "is_exception e"
  shows "reindex_check R Q now db st =
     Some (Inr (), db, st\<lparr>rs_running := False, rs_checked := Some now, rs_errors := rs_errors st @ [exn_str e]\<rparr>)"
  using assms(3) by (simp add: reindex_check_def assms(1,2))

definition iso_points :: kb_scroll where
  "iso_points coll i n = Inr [(''p'', [(''updated_at'', JStr ''2024-05-01'')])]"

lemma iso_date_unreadable:
  "get_staleness_score cfg now [(''updated_at'', JStr ''2024-05-01'')] =
     Inl (ValueError ''could not convert string to float: 2024-05-01'')"
proof -
  have s: "strip ''2024-05-01'' = ''2024-05-01''" by code_simp
  have "float_of_text ''2024-05-01'' = None"
    unfolding float_of_text_def s by (simp add: unsigned_float_def is_digit_def less_eq_char_def)
  then have f: "json_float (JStr ''2024-05-01'') = Inl (ValueError ''could not convert string to float: 2024-05-01'')" by simp
  have ts: "first_truthy timestamp_keys [(''updated_at'', JStr ''2024-05-01'')] = JStr ''2024-05-01''"
    by (simp add: first_truthy_def timestamp_keys_def dict_getd_def)
  have d: "\<exists>v. expected_days cfg (dict_getd [(''updated_at'', JStr ''2024-05-01'')] ''source_type'' (JStr ''default''))
      [(''updated_at'', JStr ''2024-05-01'')] = Inr v"
    by (simp add: expected_days_def dict_getd_def get_freshness_days_def)
  then show ?thesis
    unfolding get_staleness_score_def Let_def ts f by (elim exE) (simp only: json.distinct if_False sum.case)
qed

definition fresh_text :: "kb_db \<Rightarrow> string" where
  "fresh_text db = replicate (Suc (sum_list (map (\<lambda>t. length (et_id t)) (kd_tasks db)))) (CHR ''x'')"

lemma fresh_text_new: "fresh_text db \<notin> et_id ` set (kd_tasks db)"
proof
  assume "fresh_text db \<in> et_id ` set (kd_tasks db)"
  then obtain t where t: "t \<in> set (kd_tasks db)" "et_id t = fresh_text db" by auto
  from t(1) have "length (et_id t) \<in> set (map (\<lambda>t. length (et_id t)) (kd_tasks db))" unfolding set_map by (rule imageI)
  then have "length (et_id t) \<le> sum_list (map (\<lambda>t. length (et_id t)) (kd_tasks db))" by (rule member_le_sum_list) simp
  with t(2) show False by (simp add: fresh_text_def)
qed

definition plain_reindex :: reindex_config where
  "plain_reindex = \<lparr>rc_stale = plain_stale, rc_threshold = 80, rc_concurrent = 5,
     rc_bind = (\<lambda>v. case v of JStr s \<Rightarrow> Inr s | _ \<Rightarrow> Inl (IntegrityError ''NOT NULL'')), rc_draw = fresh_text\<rparr>"

theorem unreadable_date_ends_round_witness:
  "\<exists>e. reindex_check plain_reindex (Some iso_points) 9 \<lparr>kd_kbs = [kb_of ''1'' ''docs'' ''active''], kd_tasks = []\<rparr> initial_status =
     Some (Inr (), \<lparr>kd_kbs = [kb_of ''1'' ''docs'' ''active''], kd_tasks = []\<rparr>,
           initial_status\<lparr>rs_running := False, rs_checked := Some 9, rs_errors := [e]\<rparr>)"
proof -
  let ?db = "\<lparr>kd_kbs = [kb_of ''1'' ''docs'' ''active''], kd_tasks = []\<rparr>"
  let ?k = "kb_of ''1'' ''docs'' ''active''"
  have l: "list_kbs False ?db = [?k]" by (simp add: list_kbs_def kb_of_def)
  have d: "detect_stale_documents (rc_stale plain_reindex) (Some iso_points) 9 (kb_id ?k) (kb_collection ?k) (forced_threshold plain_reindex) 500 =
      Inl (ValueError ''could not convert string to float: 2024-05-01'')"
    by (simp only: detect_stale_documents_def iso_points_def option.case sum.case stale_of.simps iso_date_unreadable map_sum.simps id_apply)
  show ?thesis
    by (rule exI) (subst unreadable_date_ends_round [OF l d], simp_all only: is_exception.simps initial_status_def append_Nil reindex_status.simps)
qed

lemma trigger_reindex_new:
  assumes "rc_draw R db \<notin> et_id ` set (kd_tasks db)" and "rc_bind R (sd_source_type d) = Inr ty" and "rc_bind R (sd_source_id d) = Inr src"
    and "i \<in> kb_id ` set (kd_kbs db)"
  shows "\<exists>t. trigger_reindex R now i d db = (Inr True, db\<lparr>kd_tasks := kd_tasks db @ [t]\<rparr>) \<and> et_status t = ''running''"
proof -
  let ?t = "\<lparr>et_id = rc_draw R db, et_kb = i, et_source_type = ty, et_source_id = src, et_status = ''pending'', et_progress = 0,
     et_error = [], et_created = now, et_updated = now\<rparr>"
  have new: "\<not> list_ex (\<lambda>x. et_id x = rc_draw R db) (kd_tasks db)" and kb: "list_ex (\<lambda>r. kb_id r = i) (kd_kbs db)"
    using assms(1,4) by (auto simp: list_ex_iff image_iff)
  have "create_task (rc_draw R db) now i ty src db = (Inr ?t, db\<lparr>kd_tasks := kd_tasks db @ [?t]\<rparr>)"
    by (simp only: create_task_def Let_def new kb if_False not_True_eq_False)
  then have r: "trigger_reindex R now i d db =
      (Inr True, update_task (rc_draw R db) now (no_task_fields\<lparr>tf_status := Some ''running''\<rparr>) (db\<lparr>kd_tasks := kd_tasks db @ [?t]\<rparr>))"
    by (simp add: trigger_reindex_def assms(2,3))
  have "map (\<lambda>t. if et_id t = rc_draw R db then g t else t) (kd_tasks db) = kd_tasks db" for g
    using new by (intro map_idI) (auto simp: list_ex_iff)
  then show ?thesis
    unfolding r by (intro exI [of _ "?t\<lparr>et_status := ''running''\<rparr>"]) (simp add: update_task_def no_task_fields_def or_keep_def)
qed

lemma trigger_all_new:
  assumes "\<And>db. rc_draw R db \<notin> et_id ` set (kd_tasks db)"
    and "list_all (\<lambda>d. \<not> isl (rc_bind R (sd_source_type d)) \<and> \<not> isl (rc_bind R (sd_source_id d))) docs"
    and "i \<in> kb_id ` set (kd_kbs db)"
  shows "\<exists>ts. trigger_all R now i docs db = (Inr (replicate (length docs) True), db\<lparr>kd_tasks := kd_tasks db @ ts\<rparr>) \<and>
     length ts = length docs \<and> list_all (\<lambda>t. et_status t = ''running'') ts"
  using assms(2,3)
proof (induction docs arbitrary: db)
  case (Cons d docs)
  obtain ty src where b: "rc_bind R (sd_source_type d) = Inr ty" "rc_bind R (sd_source_id d) = Inr src"
    using Cons.prems(1) by (auto simp: isl_def split: sum.splits) (meson obj_sumE)
  obtain t where t: "trigger_reindex R now i d db = (Inr True, db\<lparr>kd_tasks := kd_tasks db @ [t]\<rparr>)" "et_status t = ''running''"
    using trigger_reindex_new [OF assms(1) b Cons.prems(2)] by blast
  have "i \<in> kb_id ` set (kd_kbs (db\<lparr>kd_tasks := kd_tasks db @ [t]\<rparr>))" using Cons.prems(2) by simp
  from Cons.IH [OF _ this] Cons.prems(1) obtain ts
    where ts: "trigger_all R now i docs (db\<lparr>kd_tasks := kd_tasks db @ [t]\<rparr>) =
      (Inr (replicate (length docs) True), db\<lparr>kd_tasks := kd_tasks db @ [t] @ ts\<rparr>)"
      "length ts = length docs" "list_all (\<lambda>t. et_status t = ''running'') ts"
    by auto
  have "trigger_all R now i (d # docs) db = (Inr (replicate (length (d # docs)) True), db\<lparr>kd_tasks := kd_tasks db @ (t # ts)\<rparr>)"
    by (simp add: t(1) ts(1))
  moreover have "length (t # ts) = length (d # docs)" "list_all (\<lambda>t. et_status t = ''running'') (t # ts)"
    using ts(2,3) t(2) by simp_all
  ultimately show ?case by blast
qed simp

text \<open>
  Nothing notices that a document is being reindexed: two requests in a row make two running tasks for each stale
  document.
\<close>
theorem reindexing_repeats_tasks:
  assumes "\<And>db. rc_draw R db \<notin> et_id ` set (kd_tasks db)"
    and "list_all (\<lambda>d. \<not> isl (rc_bind R (sd_source_type d)) \<and> \<not> isl (rc_bind R (sd_source_id d))) docs"
    and "0 < rc_concurrent R" and "get_kb i db = Some r"
    and "detect_stale_documents (rc_stale R) Q now i (kb_collection r) (forced_threshold R) 500 = Inr docs"
  shows "\<exists>x y st' st'' ts us. force_reindex_stale R Q now i db st = Some (Inr (Some x), db\<lparr>kd_tasks := kd_tasks db @ ts\<rparr>, st') \<and>
     force_reindex_stale R Q now i (db\<lparr>kd_tasks := kd_tasks db @ ts\<rparr>) st' = Some (Inr (Some y), db\<lparr>kd_tasks := kd_tasks db @ ts @ us\<rparr>, st'') \<and>
     length (ts @ us) = 2 * length docs \<and> list_all (\<lambda>t. et_status t = ''running'') (ts @ us)"
proof -
  have run: "\<exists>x st' ts. force_reindex_stale R Q now i db' s = Some (Inr (Some x), db'\<lparr>kd_tasks := kd_tasks db' @ ts\<rparr>, st') \<and>
      length ts = length docs \<and> list_all (\<lambda>t. et_status t = ''running'') ts" if "get_kb i db' = Some r" for db' s
  proof -
    have "i \<in> kb_id ` set (kd_kbs db')" using get_kb_SomeD [OF that] by force
    from trigger_all_new [OF assms(1,2) this, of now] obtain ts
      where ts: "trigger_all R now i docs db' = (Inr (replicate (length docs) True), db'\<lparr>kd_tasks := kd_tasks db' @ ts\<rparr>)"
        "length ts = length docs" "list_all (\<lambda>t. et_status t = ''running'') ts"
      by blast
    have c: "\<not> (docs \<noteq> [] \<and> rc_concurrent R = 0)" using assms(3) by simp
    have "\<exists>x st'. force_reindex_stale R Q now i db' s = Some (Inr (Some x), db'\<lparr>kd_tasks := kd_tasks db' @ ts\<rparr>, st')"
      unfolding force_reindex_stale_def that option.case assms(5) sum.case if_not_P [OF c] ts(1) prod.case Let_def by blast
    with ts(2,3) show ?thesis by blast
  qed
  from run [OF assms(4), of st] obtain x st' ts where 1:
    "force_reindex_stale R Q now i db st = Some (Inr (Some x), db\<lparr>kd_tasks := kd_tasks db @ ts\<rparr>, st')"
    "length ts = length docs" "list_all (\<lambda>t. et_status t = ''running'') ts"
    by blast
  have "get_kb i (db\<lparr>kd_tasks := kd_tasks db @ ts\<rparr>) = Some r" using assms(4) unfolding get_kb_def by simp
  from run [OF this, of st'] obtain y st'' us where 2:
    "force_reindex_stale R Q now i (db\<lparr>kd_tasks := kd_tasks db @ ts\<rparr>) st' = Some (Inr (Some y), db\<lparr>kd_tasks := kd_tasks db @ ts @ us\<rparr>, st'')"
    "length us = length docs" "list_all (\<lambda>t. et_status t = ''running'') us"
    by auto
  have "length (ts @ us) = 2 * length docs" "list_all (\<lambda>t. et_status t = ''running'') (ts @ us)" using 1(2,3) 2(2,3) by simp_all
  with 1(1) 2(1) show ?thesis by blast
qed

definition old_points :: kb_scroll where
  "old_points coll i n = Inr [(''p'', [(''created_at'', JInt 0), (''source_type'', JStr ''jira''), (''source_id'', JStr ''P'')])]"

theorem reindexing_repeats_tasks_witness:
  "\<exists>x y st' st'' ts us.
     force_reindex_stale plain_reindex (Some old_points) (40 * 86400) ''1'' \<lparr>kd_kbs = [kb_of ''1'' ''docs'' ''active''], kd_tasks = []\<rparr> initial_status =
       Some (Inr (Some x), \<lparr>kd_kbs = [kb_of ''1'' ''docs'' ''active''], kd_tasks = ts\<rparr>, st') \<and>
     force_reindex_stale plain_reindex (Some old_points) (40 * 86400) ''1'' \<lparr>kd_kbs = [kb_of ''1'' ''docs'' ''active''], kd_tasks = ts\<rparr> st' =
       Some (Inr (Some y), \<lparr>kd_kbs = [kb_of ''1'' ''docs'' ''active''], kd_tasks = ts @ us\<rparr>, st'') \<and>
     length (ts @ us) = 2"
proof -
  let ?db = "\<lparr>kd_kbs = [kb_of ''1'' ''docs'' ''active''], kd_tasks = []\<rparr>"
  let ?p = "[(''created_at'', JInt 0), (''source_type'', JStr ''jira''), (''source_id'', JStr ''P'')]"
  let ?d = "\<lparr>sd_id = ''p'', sd_source_type = JStr ''jira'', sd_source_id = JStr ''P'', sd_title = JStr [], sd_last = JInt 0,
     sd_score = round_to 1 100, sd_expected = JInt 30\<rparr>"
  have ts: "first_truthy timestamp_keys ?p = JInt 0" by (simp add: first_truthy_def timestamp_keys_def dict_getd_def)
  have e: "expected_days plain_stale (JStr ''jira'') ?p = Inr (JInt 30)"
    by (simp add: expected_days_def dict_getd_def get_freshness_days_def SOURCE_FRESHNESS_DAYS_def plain_stale_def)
  have ty: "dict_getd ?p ''source_type'' v = JStr ''jira''" "dict_getd ?p ''source_id'' v = JStr ''P''"
    "dict_getd ?p ''title'' JNull = JNull" "dict_getd ?p ''doc_title'' (JStr []) = JStr []" for v
    by (simp_all add: dict_getd_def)
  have s: "get_staleness_score plain_stale (40 * 86400) ?p = Inr 100"
    unfolding get_staleness_score_def ts ty e by (simp add: overdue_percent_def)
  have c: "rc_stale plain_reindex = plain_stale" "forced_threshold plain_reindex = Some 80" by (simp_all add: plain_reindex_def forced_threshold_def)
  have d: "detect_stale_documents (rc_stale plain_reindex) (Some old_points) (40 * 86400) ''1'' (kb_collection (kb_of ''1'' ''docs'' ''active''))
      (forced_threshold plain_reindex) 500 = Inr [?d]"
    unfolding c detect_stale_documents_def old_points_def option.case sum.case stale_of.simps s Let_def ty e ts by simp
  have k: "get_kb ''1'' ?db = Some (kb_of ''1'' ''docs'' ''active'')" by (simp add: get_kb_def kb_of_def)
  have draw: "rc_draw plain_reindex db \<notin> et_id ` set (kd_tasks db)" for db using fresh_text_new by (simp add: plain_reindex_def)
  have b: "list_all (\<lambda>d. \<not> isl (rc_bind plain_reindex (sd_source_type d)) \<and> \<not> isl (rc_bind plain_reindex (sd_source_id d))) [?d]"
    "0 < rc_concurrent plain_reindex"
    by (simp_all add: plain_reindex_def)
  have upd: "?db\<lparr>kd_tasks := kd_tasks ?db @ ts\<rparr> = \<lparr>kd_kbs = [kb_of ''1'' ''docs'' ''active''], kd_tasks = ts\<rparr>" for ts by simp
  have two: "2 * length [?d] = 2" by simp
  show ?thesis using reindexing_repeats_tasks [OF draw b k d, of initial_status] unfolding upd two by blast
qed

end
