(* ===== verification/Spec2Isabelle.thy ===== *)
theory Spec2Isabelle
  imports Prelude Circuit_Breaker Retry Rate_Limiter Access_Control Dead_Letter_Queue Cache Wal
    Canary Model_Registry Api_Keys Version_Store Live_Lake Embedding_Cache Retrieval
    Graph_Search Token_Budget Context_Builder Rerank Orchestrator Confidence
    Chunker Acl_Extraction Patterns Quality_Filter Ingestion Pipelines Event_Processor
    Query_Routing Conversation Corrective_Retrieval Rag_Pipeline Chat
    Accounts Sessions Adapters Tools Evaluation Secret_Rotation Knowledge_Bases
begin

text \<open>
  Verification of the stateful core of \<^verbatim>\<open>rag-system\<close>, a retrieval-augmented generation service.

  The system has two halves. The ETL side (\<^verbatim>\<open>src/etl\<close>) extracts documents, cuts them into chunks,
  keeps their versions and writes them to Qdrant. The proxy (\<^verbatim>\<open>src/proxy/app\<close>) answers questions over
  them: it authenticates the caller, limits its rate, retrieves the chunks the caller may read and
  calls language models, through caches, circuit breakers and retries, and it manages the models
  themselves (registry, canary deployment). What is verified here are the parts whose correctness
  is a matter of their own logic: state machines, stores, access decisions, limits.

  \<^bold>\<open>Theories and sources.\<close>

  \<^item> \<open>Prelude\<close>: Python dictionaries as association lists in insertion order, exceptions, JSON values,
    the string functions used, and two locales. \<open>invariant_system\<close> carries an invariant of a step
    function to every run; \<open>trip_counter\<close> describes a counter that trips a state at a limit.
  \<^item> \<open>Circuit_Breaker\<close>: \<^verbatim>\<open>proxy/app/shared/circuit_breaker.py\<close>. State machine, guarded calls, registry.
  \<^item> \<open>Retry\<close>: \<^verbatim>\<open>proxy/app/shared/retry.py\<close>. Uses the breaker registry of \<open>Circuit_Breaker\<close>. The
    specification \<open>retry_spec\<close> is refined by \<^verbatim>\<open>sync_retry\<close>.
  \<^item> \<open>Rate_Limiter\<close>: \<^verbatim>\<open>proxy/app/shared/rate_limiter.py\<close>. Token buckets and the middleware.
  \<^item> \<open>Access_Control\<close>: \<^verbatim>\<open>proxy/app/shared/access_control.py\<close>, the user context of
    \<^verbatim>\<open>auth/jwt.py\<close>, the rules of \<^verbatim>\<open>domain/entities.py\<close> and \<^verbatim>\<open>domain/services.py\<close>, and their adapters in
    \<^verbatim>\<open>core/retrieval.py\<close>.
  \<^item> \<open>Dead_Letter_Queue\<close>: \<^verbatim>\<open>proxy/app/shared/dlq.py\<close> over a table of rows.
  \<^item> \<open>Cache\<close>: \<^verbatim>\<open>proxy/app/shared/cache.py\<close>. The locale \<open>cache_backend\<close> states what the manager and
    the semantic cache need of a store; the in-memory store is an interpretation.
  \<^item> \<open>Wal\<close>: \<^verbatim>\<open>etl/indexer/wal_manager.py\<close>. The locale \<open>wal_store\<close> is the contract between the manager
    and a backend; the file backend on a healthy disk is an interpretation.
  \<^item> \<open>Canary\<close> and \<open>Model_Registry\<close>: \<^verbatim>\<open>proxy/app/model_evolution/canary_controller.py\<close> and
    \<^verbatim>\<open>model_registry.py\<close>.
  \<^item> \<open>Api_Keys\<close>: \<^verbatim>\<open>proxy/app/auth/api_keys.py\<close>.
  \<^item> \<open>Version_Store\<close> and \<open>Live_Lake\<close>: \<^verbatim>\<open>etl/chunker/hash_versioning.py\<close>, the write side of
    \<^verbatim>\<open>etl/indexer/qdrant_hybrid.py\<close> and \<^verbatim>\<open>etl/indexer/live_vector_lake.py\<close>.
  \<^item> \<open>Embedding_Cache\<close>, \<open>Retrieval\<close> and \<open>Graph_Search\<close>: \<^verbatim>\<open>proxy/app/core/retrieval.py\<close>. The query embedding and
    its cache over \<open>Cache\<close>; hybrid search with its filter, the breaker of \<open>Circuit_Breaker\<close>, rank fusion,
    pruning, score filter, time decay; exploration of the knowledge graph and search over communities.
  \<^item> \<open>Token_Budget\<close>: \<^verbatim>\<open>proxy/app/core/token_optimizer.py\<close>. Budgets, packing, compression.
  \<^item> \<open>Context_Builder\<close>: \<^verbatim>\<open>proxy/app/core/context\<close> and \<^verbatim>\<open>core/reorder.py\<close>. Deduplication, versions, order and
    rendering of the chunks that go into the prompt.
  \<^item> \<open>Rerank\<close>: \<^verbatim>\<open>proxy/app/core/rerank.py\<close>, over \<open>Cache\<close> and \<open>Circuit_Breaker\<close>.
  \<^item> \<open>Confidence\<close>: \<^verbatim>\<open>proxy/app/core/confidence.py\<close>. Grounding of claims, calibration, the report.
  \<^item> \<open>Orchestrator\<close>: \<^verbatim>\<open>proxy/app/core/orchestrator\<close>. The nodes and the state graph of the agentic path, with
    \<open>pipeline_env\<close> connecting them to \<open>Retrieval\<close>, \<open>Rerank\<close> and \<open>Context_Builder\<close>.
  \<^item> \<open>Chunker\<close>: \<^verbatim>\<open>etl/chunker/semantic_chunker.py\<close>. Headings, paragraphs, packing, enrichment.
  \<^item> \<open>Acl_Extraction\<close>: the access rights that the crawlers read off Confluence, Jira and GitLab.
  \<^item> \<open>Patterns\<close> and \<open>Quality_Filter\<close>: \<^verbatim>\<open>etl/indexer/chunk_quality_filter.py\<close> with its regular expressions.
  \<^item> \<open>Ingestion\<close> and \<open>Pipelines\<close>: the batch and the streaming pipeline of the ETL, \<^verbatim>\<open>etl/scheduler/run_etl.py\<close> and
    \<^verbatim>\<open>streaming_pipeline.py\<close>, over \<open>Chunker\<close>, \<open>Wal\<close> and the index of \<open>Live_Lake\<close>.
  \<^item> \<open>Event_Processor\<close>: events of the sources, deletions and the consumer of a Redis stream.
  \<^item> \<open>Query_Routing\<close>, \<open>Conversation\<close> and \<open>Corrective_Retrieval\<close>: \<^verbatim>\<open>proxy/app/core/query_router.py\<close>,
    \<^verbatim>\<open>shared/memory_manager.py\<close>, and the evaluation of a retrieval with its staged repetition.
  \<^item> \<open>Rag_Pipeline\<close> and \<open>Chat\<close>: \<^verbatim>\<open>process_rag_query\<close> of \<^verbatim>\<open>proxy/app/main.py\<close>, which composes the theories above, and the
    chat endpoint \<^verbatim>\<open>api/chat.py\<close> in front of it.
  \<^item> \<open>Accounts\<close> and \<open>Sessions\<close>: \<^verbatim>\<open>proxy/app/auth/user_db.py\<close>; tokens, middleware, roles, directory and the login endpoints
    (\<^verbatim>\<open>auth/jwt.py\<close>, \<^verbatim>\<open>rbac.py\<close>, \<^verbatim>\<open>ldap.py\<close>, \<^verbatim>\<open>api/auth_endpoints.py\<close>), over \<open>Accounts\<close> and \<open>Api_Keys\<close>.
  \<^item> \<open>Secret_Rotation\<close>: \<^verbatim>\<open>proxy/app/auth/secret_rotation.py\<close> over \<open>Api_Keys\<close>.
  \<^item> \<open>Adapters\<close>: \<^verbatim>\<open>proxy/app/model_evolution/adapter_manager.py\<close>, the life cycle of model adapters.
  \<^item> \<open>Tools\<close>: \<^verbatim>\<open>proxy/app/tools\<close>. Registry, visibility, scheduling and retries of tool calls, input checks.
  \<^item> \<open>Evaluation\<close>: retrieval metrics, RAGAS scores, hallucination reports and the gate for models
    (\<^verbatim>\<open>core/evaluation.py\<close>, \<^verbatim>\<open>ragas_metrics.py\<close>, \<^verbatim>\<open>ragas_eval.py\<close>, \<^verbatim>\<open>hallucination.py\<close>, \<^verbatim>\<open>model_evolution/eval_gate.py\<close>,
    \<^verbatim>\<open>nli_evaluator.py\<close>), over the claims of \<open>Confidence\<close>.
  \<^item> \<open>Knowledge_Bases\<close>: \<^verbatim>\<open>core/kb_manager.py\<close>, the tasks of the ETL, domain events, stale documents and their
    reindexing.

  \<^bold>\<open>Modelling.\<close> An object is a record, each method a function that takes the record and returns
  the result and the new record; a method that can raise returns a sum, with the state that it leaves
  behind. Clock readings, random draws, digests, the Qdrant and Redis clients, embedding models and
  callables given by the caller are arguments, and where a theorem relies on their documented
  behaviour it says so in its hypotheses, which a witness instantiates by a concrete function.
  Python \<^verbatim>\<open>float\<close> is \<open>real\<close>, so rounding is not covered. Methods that hold a lock are single steps;
  where a coroutine is suspended (\<^verbatim>\<open>call\<close> of the breaker, \<^verbatim>\<open>async_retry\<close>, the use of a refresh token) the other tasks' effect is an
  arbitrary transformation of the shared state. Most loops of the modelled code run over a finite list or
  range and are structural recursions. Others go by a measure, with its termination proof: scanners of
  texts (headings, paragraphs, sentences, claims, tags) by the text that is left, the exploration of the graph by the
  depth that is left, the levels of a tool schedule by the tools that are left. The deletion of pages
  (\<open>delete_pages\<close>) may run for ever, when Qdrant always names a next page, and is a partial function into an
  option; reindexing with a semaphore of 0 never returns, and this is an option too. A run of the orchestrator is
  limited by the recursion limit of LangGraph, which is the fuel of \<open>run_graph\<close>; three steps are enough, since the third
  node ends every run with an error.
  The loops of the services (consumer, streaming pipeline, draining of an adapter) take their number of rounds from
  the outside or from the time-out of the code. The
  order in which Python enumerates a set and the LangGraph runtime (how the output of a node is
  written to the state) are parameters.

  \<^bold>\<open>What the theorems show.\<close>

  \<^item> Invariants of every run of operations: the breaker's state, gauge and counters agree; a
    registry has at most one production version per model; phase and traffic split of a canary agree; the
    rows of the dead letter queue are consistent; no user has more than ten usable keys; the tables of accounts and
    of knowledge bases keep their constraints; the ids of the dead letter queue are never issued twice.
  \<^item> Safety: who can see which chunk, in the search, in the filter after it, in
    the answers of the whole pipeline and on the agentic path, which has no filter; which requests the middleware lets through; how
    many requests and login attempts pass their limits; revoked keys and spent tokens stay refused, though two overlapping uses of a token both succeed;
    a canary that was rolled back gets no traffic during the cooldown; queues do not interfere.
  \<^item> Exact behaviour and refinement: retry against its specification, one retry run of the dead
    letter queue as a map over rows, the incremental update as a set difference, the state of the
    index after a synchronisation, round trips of caches, checkpoints and the registry file.
  \<^item> The answer pipeline: what rank fusion, pruning, graph exploration, reranking and its cache,
    deduplication, version resolution and the context budget compute; that the orchestrator ends, always with an error, and
    which of its loops could run at all; that calibration finds the best threshold before it rounds it.
  \<^item> Chunks and ingestion: that chunks keep the paragraphs, the tree of headings, that both pipelines collect the same
    documents, that a deletion event removes a document.
  \<^item> Tools and evaluation: which schedules exist, which tools are offered, the bounds of all scores, what the gate
    blocks and what it lets pass.
  \<^item> Deviations: where the code does something other than its documentation says or its purpose
    needs, the theorem states what it does. The gravest are that the batch pipeline and the rollback of a document make
    documents public, that a change of access rights does not reach the index, that the agentic path
    does not filter, that a deleted account can renew its tokens for ever, that a rotation retires no key,
    and that a knowledge base inherits the vectors of a deleted one.

  \<^bold>\<open>Not modelled.\<close> The crawlers, document parsers and image extraction, the trainers, the language model clients, the
  graph database and the user interfaces are I/O or calls into libraries; the administration endpoints only forward
  to the components above; the service of \<^verbatim>\<open>src/model_evolution_service\<close> is a copy of the proxy's modules; database
  migrations are SQL and Cypher text; telemetry, audit files and configuration have no logic of their own; scripts and
  benchmarks are run by hand. In the modelled files the parts left out are: the starting of
  applications and the loading of models; the reading of data sets, the text of reports and the cross-lingual benchmark of
  the evaluation; asynchronous event handlers, which nothing registers; gauges, audit entries and
  the timers around a modelled step; and Cyrillic alternatives of patterns, since texts are over the first 256 code points.
\<close>

end
